(* ===== verification/Prelude.thy ===== *)
theory Prelude
  imports Main "HOL-Library.Word"
begin

text \<open>
  Shared vocabulary of the development: the fixed-width integer types of
  \<^verbatim>\<open>include/citrus/types.h\<close>, the error codes of \<^verbatim>\<open>include/citrus/error.h\<close>, the value a
  routine delivers when it panics or fails an assertion, and the generic lemmas on words,
  lists and results that the component theories use.

  A routine that can stop the machine (\<^verbatim>\<open>panic\<close>, \<^verbatim>\<open>assert\<close>, a null dereference) returns
  \<open>Inl\<close> of a \<open>fault\<close> (\<open>Hang\<close> stands for a loop that never ends); otherwise \<open>Inr\<close> of its result. \<^verbatim>\<open>panic_handler\<close> writes the reset
  register, so nothing after a panic is modelled.
\<close>

unbundle bit_operations_syntax

subsection \<open>Integer types\<close>

type_synonym u8 = "8 word"
type_synonym u16 = "16 word"
type_synonym u32 = "32 word"
type_synonym u64 = "64 word"

subsection \<open>Faults and results\<close>

datatype fault =
    Panic string
  | Assertion
  | NullPointer
  | OutOfBounds
  | Hang

type_synonym 'a res = "fault + 'a"

fun res_bind :: "'a res \<Rightarrow> ('a \<Rightarrow> 'b res) \<Rightarrow> 'b res" where
  "res_bind (Inl e) f = Inl e"
| "res_bind (Inr x) f = f x"

text \<open>A loop given as a partial function, as a step of a routine that can also panic.\<close>

definition or_hang :: "'a option \<Rightarrow> 'a res" where
  "or_hang r = (case r of None \<Rightarrow> Inl Hang | Some x \<Rightarrow> Inr x)"

text \<open>Access to an array of the program; C does not check the index, so leaving it is a fault.\<close>

definition read_at :: "'a list \<Rightarrow> nat \<Rightarrow> 'a res" where
  "read_at xs i = (if i < length xs then Inr (xs ! i) else Inl OutOfBounds)"

definition write_at :: "'a list \<Rightarrow> nat \<Rightarrow> 'a \<Rightarrow> 'a list res" where
  "write_at xs i v = (if i < length xs then Inr (xs[i := v]) else Inl OutOfBounds)"

text \<open>
  \<^verbatim>\<open>1 << n\<close> for a run-time \<open>n\<close>: the shift by register of the processor takes the low byte
  of \<open>n\<close> and yields zero from 32 on (the C expression is undefined there).
\<close>

definition shl_one :: "u32 \<Rightarrow> u32" where
  "shl_one n = push_bit (unat n mod 256) 1"

definition assert_that :: "bool \<Rightarrow> unit res" where
  "assert_that b = (if b then Inr () else Inl Assertion)"

subsection \<open>Error codes\<close>

text \<open>The codes of \<^verbatim>\<open>error.h\<close>; a routine returning \<^verbatim>\<open>-E\<close> returns the negated integer.\<close>

definition EDISK :: int where "EDISK = 1"
definition ENOFILE :: int where "ENOFILE = 2"
definition EEOF :: int where "EEOF = 3"
definition EEOCC :: int where "EEOCC = 4"
definition EPATH :: int where "EPATH = 5"
definition ENOENT :: int where "ENOENT = 6"
definition ENOMEM :: int where "ENOMEM = 10"
definition ENOPID :: int where "ENOPID = 11"
definition EBFONT :: int where "EBFONT = 12"
definition ECRC :: int where "ECRC = 13"
definition ENSUPPORT :: int where "ENSUPPORT = 14"
definition ENODMA :: int where "ENODMA = 15"
definition ENODEV :: int where "ENODEV = 16"
definition ERETRY :: int where "ERETRY = 17"
definition EBADIP :: int where "EBADIP = 18"
definition ENET :: int where "ENET = 19"

named_theorems error_defs \<open>the values of the error codes\<close>
named_theorems word_laws \<open>arithmetic of masks, shifts and alignment on words\<close>
named_theorems list_laws \<open>the queue operations of list.h on their abstract lists\<close>

declare EDISK_def [error_defs] ENOFILE_def [error_defs] EEOF_def [error_defs]
  EEOCC_def [error_defs] EPATH_def [error_defs] ENOENT_def [error_defs] ENOMEM_def [error_defs]
  ENOPID_def [error_defs] EBFONT_def [error_defs] ECRC_def [error_defs] ENSUPPORT_def [error_defs]
  ENODMA_def [error_defs] ENODEV_def [error_defs] ERETRY_def [error_defs] EBADIP_def [error_defs]
  ENET_def [error_defs]

subsection \<open>Results\<close>

lemma res_bind_cong [fundef_cong]:
  "m = m' \<Longrightarrow> (\<And>x. m' = Inr x \<Longrightarrow> f x = g x) \<Longrightarrow> res_bind m f = res_bind m' g"
  by (cases m') auto

lemma res_bind_Inr_iff: "res_bind m f = Inr y \<longleftrightarrow> (\<exists>x. m = Inr x \<and> f x = Inr y)"
  by (cases m) auto

lemma res_bind_Inl_iff:
  "res_bind m f = Inl e \<longleftrightarrow> m = Inl e \<or> (\<exists>x. m = Inr x \<and> f x = Inl e)"
  by (cases m) auto

lemma res_bind_assoc: "res_bind (res_bind m f) g = res_bind m (\<lambda>x. res_bind (f x) g)"
  by (cases m) auto

lemma assert_that_simps [simp]:
  "assert_that True = Inr ()"
  "assert_that False = Inl Assertion"
  by (simp_all add: assert_that_def)

lemma assert_that_Inr [simp]: "assert_that b = Inr u \<longleftrightarrow> b"
  by (simp add: assert_that_def)

lemma read_at_less [simp]: "i < length xs \<Longrightarrow> read_at xs i = Inr (xs ! i)"
  by (simp add: read_at_def)

lemma write_at_less [simp]: "i < length xs \<Longrightarrow> write_at xs i v = Inr (xs[i := v])"
  by (simp add: write_at_def)

lemma read_at_Inr: "read_at xs i = Inr x \<longleftrightarrow> i < length xs \<and> x = xs ! i"
  by (auto simp: read_at_def)

lemma write_at_Inr: "write_at xs i v = Inr ys \<longleftrightarrow> i < length xs \<and> ys = xs[i := v]"
  by (auto simp: write_at_def)

subsection \<open>Words\<close>

lemma bit_shl_one: "unat n < 256 \<Longrightarrow> bit (shl_one n) k \<longleftrightarrow> k = unat n \<and> k < 32"
  unfolding shl_one_def by (simp only: bit_push_bit_iff bit_1_iff mod_less) auto

lemma word32_eqI: "(\<And>n. n < 32 \<Longrightarrow> bit a n = bit b n) \<Longrightarrow> a = b" for a b :: u32
  by (rule bit_word_eqI) simp

lemma unat_inj_iff: "unat (v :: u32) = unat w \<longleftrightarrow> v = w"
  by (simp add: word_unat_eq_iff)

lemma word_nonzero_bit: "(w :: u32) \<noteq> 0 \<longleftrightarrow> (\<exists>n. bit w n)"
  using bit_word_eqI [of w 0] by auto

lemma bit_u32_bound: "bit (w :: u32) n \<Longrightarrow> n < 32"
  using bit_imp_le_length by fastforce

lemma bit_mask_word [simp]: "bit (mask k :: 'a::len word) n \<longleftrightarrow> n < k \<and> n < LENGTH('a)"
  by (auto simp: bit_mask_iff)

lemma len32: "LENGTH(32) = 32"
  by simp

lemma unat_push_bit_1:
  assumes "n < 32"
  shows "unat (push_bit n (1 :: u32)) = 2 ^ n"
proof -
  have "(2 :: nat) ^ n < 2 ^ 32"
    using assms by (rule power_strict_increasing) simp
  then have "take_bit 32 (2 ^ n) = (2 ^ n :: nat)"
    by (simp only: take_bit_nat_eq_self_iff)
  moreover have "unat (push_bit n (1 :: u32)) = take_bit LENGTH(32) (push_bit n (unat (1 :: u32)))"
    by (rule unsigned_push_bit_eq)
  ultimately show ?thesis
    by (metis len32 unsigned_1 push_bit_of_1)
qed

lemma mask_eq_push_minus_1: "push_bit n 1 - 1 = (mask n :: u32)"
  by (simp add: mask_eq_exp_minus_1 push_bit_eq_mult)

lemma unat_and_mask [word_laws]: "unat (w AND mask n) = unat (w :: u32) mod 2 ^ n"
  by (simp only: take_bit_eq_mask [symmetric] unsigned_take_bit_eq) (rule take_bit_eq_mod)

lemma unat_drop_bit [word_laws]: "unat (drop_bit n w) = unat (w :: u32) div 2 ^ n"
  by (subst unat_drop_bit_eq) (rule drop_bit_eq_div)

lemma and_not_mask_eq [word_laws]: "(w :: u32) AND NOT (mask n) = w - (w AND mask n)"
proof -
  have "(w AND mask n) + (w AND NOT (mask n)) = (w AND mask n) OR (w AND NOT (mask n))"
    by (rule disjunctive_add) (auto simp: bit_and_iff bit_not_iff)
  also have "\<dots> = w"
    by (rule bit_word_eqI) (auto simp: bit_or_iff bit_and_iff bit_not_iff)
  finally show ?thesis
    by (metis add_diff_cancel_left')
qed

lemma unat_and_not_mask [word_laws]:
  "unat ((w :: u32) AND NOT (mask n)) = unat w div 2 ^ n * 2 ^ n"
proof -
  have le: "w AND mask n \<le> w"
    by (simp add: word_and_le2)
  have "unat (w - (w AND mask n)) = unat w - unat (w AND mask n)"
    using le by (rule unat_sub)
  then show ?thesis
    by (simp add: and_not_mask_eq unat_and_mask minus_mod_eq_div_mult)
qed

lemma and_mask_zero_iff [word_laws]: "(w :: u32) AND mask n = 0 \<longleftrightarrow> 2 ^ n dvd unat w"
  by (metis dvd_eq_mod_eq_0 unat_and_mask unat_eq_zero)

lemma u32_less_2p32 [simp]: "unat (w :: u32) < 4294967296"
  using unsigned_less [of w, where ?'a = nat] by simp

lemma u32_le_max [simp]: "unat (w :: u32) \<le> 4294967295"
  using u32_less_2p32 [of w] by linarith

lemma unat_add_u32: "unat a + unat b < 4294967296 \<Longrightarrow> unat (a + b) = unat a + unat (b :: u32)"
  by (simp add: unat_word_ariths)

lemma unat_sub_u32: "unat b \<le> unat a \<Longrightarrow> unat (a - b) = unat a - unat (b :: u32)"
  by (simp add: unat_sub word_le_nat_alt)

lemma unat_mult_u32: "unat a * unat b < 4294967296 \<Longrightarrow> unat (a * b) = unat a * unat (b :: u32)"
  by (simp add: unat_word_ariths)

subsection \<open>Lists\<close>

lemma remove1_append_notin: "x \<notin> set xs \<Longrightarrow> remove1 x (xs @ ys) = xs @ remove1 x ys"
  by (induction xs) auto

lemma remove1_split: "x \<notin> set xs \<Longrightarrow> remove1 x (xs @ x # ys) = xs @ ys"
  by (simp add: remove1_append_notin)

lemma split_at_member:
  assumes "x \<in> set xs" and "distinct xs"
  obtains ys zs where "xs = ys @ x # zs" and "x \<notin> set ys" and "x \<notin> set zs"
  using assms by (auto dest: split_list)

lemma ball_list_update: "\<forall>l \<in> set xs. P l \<Longrightarrow> P v \<Longrightarrow> \<forall>l \<in> set (xs[k := v]). P l"
  using set_update_subset_insert [of xs k v] by auto

lemma nth_list_update_cases:
  "i < length xs \<Longrightarrow> xs[i := v] ! j = (if i = j then v else xs ! j)"
  by (simp add: nth_list_update)

end
