(* ===== verification/Align.thy ===== *)
theory Align
  imports Prelude
begin

text \<open>
  \<^verbatim>\<open>include/citrus/align.h\<close>: rounding addresses and sizes to a power of two, and rounding a
  number to a power of two by smearing its leading bit. \<open>ctz\<close> is the compiler's
  \<^verbatim>\<open>__builtin_ctz\<close>: the position of the lowest set bit, and 32 for zero, which is what the
  \<^verbatim>\<open>rbit\<close>/\<^verbatim>\<open>clz\<close> pair of the target computes (the C builtin leaves that case open).
\<close>

subsection \<open>Definitions\<close>

definition align_up_ptr :: "u32 \<Rightarrow> u32 \<Rightarrow> u32" where
  "align_up_ptr p a =
     (if p AND (a - 1) \<noteq> 0 then (p + (a - 1)) AND NOT (a - 1) else p)"

definition align_down_ptr :: "u32 \<Rightarrow> u32 \<Rightarrow> u32" where
  "align_down_ptr p a = p AND NOT (a - 1)"

definition align_up :: "u32 \<Rightarrow> u32 \<Rightarrow> u32" where
  "align_up val a =
     (if val AND (a - 1) \<noteq> 0 then (val + a) AND NOT (a - 1) else val)"

definition align_down :: "u32 \<Rightarrow> u32 \<Rightarrow> u32" where
  "align_down val a = val AND NOT (a - 1)"

definition smear :: "u32 \<Rightarrow> u32" where
  "smear n0 =
     (let n1 = n0 OR drop_bit 1 n0;
          n2 = n1 OR drop_bit 2 n1;
          n3 = n2 OR drop_bit 4 n2;
          n4 = n3 OR drop_bit 8 n3
      in n4 OR drop_bit 16 n4)"

definition round_up_power_two :: "u32 \<Rightarrow> u32" where
  "round_up_power_two number = smear (number - 1) + 1"

definition round_down_power_two :: "u32 \<Rightarrow> u32" where
  "round_down_power_two number = smear number - drop_bit 1 (smear number)"

definition ctz :: "u32 \<Rightarrow> nat" where
  "ctz w = (case find (bit w) [0..<32] of None \<Rightarrow> 32 | Some n \<Rightarrow> n)"

subsection \<open>Alignment\<close>

lemma unat_align_down [word_laws]:
  "unat (align_down_ptr p (2 ^ k)) = unat p div 2 ^ k * 2 ^ k"
  "unat (align_down p (2 ^ k)) = unat p div 2 ^ k * 2 ^ k"
  by (simp_all add: align_down_ptr_def align_down_def flip: mask_eq_exp_minus_1)
     (simp_all add: unat_and_not_mask)

text \<open>The two rounding-up routines add \<^verbatim>\<open>align - 1\<close> and \<^verbatim>\<open>align\<close>; on an unaligned value
  both land on the same multiple.\<close>

lemma align_up_aligned [simp]:
  "2 ^ k dvd unat v \<Longrightarrow> align_up v (2 ^ k) = v"
  "2 ^ k dvd unat v \<Longrightarrow> align_up_ptr v (2 ^ k) = v"
  by (simp_all add: align_up_def align_up_ptr_def and_mask_zero_iff flip: mask_eq_exp_minus_1)

lemma div_add_below:
  fixes v d :: nat
  assumes "0 < v mod d" and d: "0 < d"
  shows "(v + (d - 1)) div d = v div d + 1"
proof -
  have "v + (d - 1) = v div d * d + v mod d + (d - 1)"
    by simp
  also have "\<dots> = (v div d + 1) * d + (v mod d - 1)"
    using assms by (simp only: distrib_right mult_1)
  finally have "v + (d - 1) = (v div d + 1) * d + (v mod d - 1)" .
  moreover have "v mod d - 1 < d"
    using assms mod_less_divisor [OF d, of v] by linarith
  ultimately show ?thesis
    using d by (metis add.right_neutral div_less div_mult_self3 less_numeral_extra(3))
qed

lemma mod_exp_div:
  fixes x :: nat
  assumes "k < 32"
  shows "x mod 4294967296 div 2 ^ k = (x div 2 ^ k) mod 2 ^ (32 - k)"
proof -
  have "(x div 2 ^ k) mod 2 ^ (32 - k) = x mod 2 ^ (k + (32 - k)) div 2 ^ k"
    by (rule div_exp_mod_exp_eq)
  then show ?thesis using assms by simp
qed

lemma unat_exp2: "k < 32 \<Longrightarrow> unat (2 ^ k :: u32) = 2 ^ k"
  using unat_push_bit_1 [of k] by simp

text \<open>The general form, wrap-around included: the next multiple modulo the address space.\<close>

lemma unat_align_up_unaligned:
  assumes k: "k < 32" and un: "\<not> 2 ^ k dvd unat v"
  shows "unat (align_up_ptr v (2 ^ k)) = (unat v div 2 ^ k + 1) mod 2 ^ (32 - k) * 2 ^ k"
    and "unat (align_up v (2 ^ k)) = (unat v div 2 ^ k + 1) mod 2 ^ (32 - k) * 2 ^ k"
proof -
  have pos: "0 < unat v mod 2 ^ k"
    using un by (simp add: dvd_eq_mod_eq_0)
  have neq: "v AND mask k \<noteq> 0"
    using un by (simp add: and_mask_zero_iff)
  have m: "unat (mask k :: u32) = 2 ^ k - 1"
    using k by (simp add: mask_eq_exp_minus_1 unat_sub_u32 unat_exp2)
  have "unat (align_up_ptr v (2 ^ k)) = unat ((v + mask k) AND NOT (mask k))"
    using neq by (simp add: align_up_ptr_def flip: mask_eq_exp_minus_1)
  also have "\<dots> = ((unat v + (2 ^ k - 1)) mod 2 ^ 32) div 2 ^ k * 2 ^ k"
    by (simp add: unat_and_not_mask unat_word_ariths m)
  finally show "unat (align_up_ptr v (2 ^ k)) = (unat v div 2 ^ k + 1) mod 2 ^ (32 - k) * 2 ^ k"
    using k div_add_below [OF pos] by (simp add: mod_exp_div)
  have "unat (align_up v (2 ^ k)) = unat ((v + 2 ^ k) AND NOT (mask k))"
    using neq by (simp add: align_up_def flip: mask_eq_exp_minus_1)
  also have "\<dots> = ((unat v + 2 ^ k) mod 2 ^ 32) div 2 ^ k * 2 ^ k"
    using k by (simp add: unat_and_not_mask unat_word_ariths unat_exp2)
  finally show "unat (align_up v (2 ^ k)) = (unat v div 2 ^ k + 1) mod 2 ^ (32 - k) * 2 ^ k"
    using k by (simp add: mod_exp_div div_add_self2)
qed

lemma align_up_eq_align_up_ptr: "k < 32 \<Longrightarrow> align_up v (2 ^ k) = align_up_ptr v (2 ^ k)"
  by (cases "2 ^ k dvd unat v") (simp_all add: unat_align_up_unaligned word_unat_eq_iff)

lemma align_up_bounds:
  assumes k: "k < 32" and fits: "unat v + 2 ^ k \<le> 2 ^ 32"
  shows "2 ^ k dvd unat (align_up v (2 ^ k))" (is ?dvd)
    and "unat v \<le> unat (align_up v (2 ^ k))" (is ?ge)
    and "unat (align_up v (2 ^ k)) < unat v + 2 ^ k" (is ?lt)
proof -
  have "?dvd \<and> ?ge \<and> ?lt"
  proof (cases "2 ^ k dvd unat v")
    case False
    have split: "(unat v div 2 ^ k) * 2 ^ k + unat v mod 2 ^ k = unat v"
      by (rule div_mult_mod_eq)
    have "unat v mod 2 ^ k \<noteq> 0" and "unat v mod 2 ^ k < 2 ^ k"
      using False by (simp_all add: dvd_eq_mod_eq_0)
    have "(2 :: nat) ^ 32 = 2 ^ (32 - k) * 2 ^ k"
      using k by (simp flip: power_add)
    then have "unat v < (2 ^ (32 - k) - 1) * 2 ^ k"
      using fits \<open>unat v mod 2 ^ k \<noteq> 0\<close>
      by (metis diff_mult_distrib le_diff_conv2 le_neq_implies_less mod_mult_self2_is_0 mult_1
          add_leD2)
    then have "unat v div 2 ^ k + 1 < 2 ^ (32 - k)"
      by (metis less_diff_conv less_mult_imp_div_less)
    then have "unat (align_up v (2 ^ k)) = (unat v div 2 ^ k + 1) * 2 ^ k"
      using unat_align_up_unaligned(2) [OF k False] by simp
    then have eq: "unat (align_up v (2 ^ k)) = (unat v div 2 ^ k) * 2 ^ k + 2 ^ k"
      by simp
    show ?thesis
      using split \<open>unat v mod 2 ^ k \<noteq> 0\<close> \<open>unat v mod 2 ^ k < 2 ^ k\<close>
      unfolding eq by (intro conjI) (simp, linarith+)
  qed simp
  then show ?dvd ?ge ?lt by auto
qed

subsection \<open>Powers of two\<close>

lemma bit_u32_iff_odd: "bit w m \<longleftrightarrow> odd (unat (w :: u32) div 2 ^ m)"
  using bit_unsigned_iff [where ?'a = nat, of w m] by (simp add: bit_iff_odd [of "unat w"])

lemma bit_or_shift_step:
  assumes "\<And>n. bit a n \<longleftrightarrow> (\<exists>j<k. bit (w :: u32) (n + j))"
  shows "bit (a OR drop_bit k a) n \<longleftrightarrow> (\<exists>j<k + k. bit w (n + j))"
proof
  assume "bit (a OR drop_bit k a) n"
  then have "(\<exists>j<k. bit w (n + j)) \<or> (\<exists>j<k. bit w (k + n + j))"
    by (auto simp: bit_or_iff bit_drop_bit_eq assms)
  then show "\<exists>j<k + k. bit w (n + j)"
    by (metis add.assoc add.commute add_less_cancel_left trans_less_add1)
next
  assume "\<exists>j<k + k. bit w (n + j)"
  then obtain j where j: "j < k + k" "bit w (n + j)" by blast
  show "bit (a OR drop_bit k a) n"
  proof (cases "j < k")
    case True
    with j show ?thesis by (auto simp: bit_or_iff assms)
  next
    case False
    with j have "j - k < k" "bit w (k + n + (j - k))" by (auto simp: ac_simps)
    then show ?thesis by (auto simp: bit_or_iff bit_drop_bit_eq assms)
  qed
qed

lemma bit_smear: "bit (smear w) n \<longleftrightarrow> (\<exists>m\<ge>n. bit w m)"
proof -
  define n1 where "n1 = w OR drop_bit 1 w"
  define n2 where "n2 = n1 OR drop_bit 2 n1"
  define n3 where "n3 = n2 OR drop_bit 4 n2"
  define n4 where "n4 = n3 OR drop_bit 8 n3"
  have b0: "bit w n \<longleftrightarrow> (\<exists>j<1. bit w (n + j))" for n
    by auto
  have b1: "bit n1 n \<longleftrightarrow> (\<exists>j<2. bit w (n + j))" for n
    unfolding n1_def using bit_or_shift_step [OF b0] by (simp only: one_add_one)
  have b2: "bit n2 n \<longleftrightarrow> (\<exists>j<4. bit w (n + j))" for n
    unfolding n2_def using bit_or_shift_step [OF b1] by (simp only: numeral_plus_numeral add_num_simps)
  have b3: "bit n3 n \<longleftrightarrow> (\<exists>j<8. bit w (n + j))" for n
    unfolding n3_def using bit_or_shift_step [OF b2] by (simp only: numeral_plus_numeral add_num_simps)
  have b4: "bit n4 n \<longleftrightarrow> (\<exists>j<16. bit w (n + j))" for n
    unfolding n4_def using bit_or_shift_step [OF b3] by (simp only: numeral_plus_numeral add_num_simps)
  have "smear w = n4 OR drop_bit 16 n4"
    unfolding smear_def Let_def n4_def n3_def n2_def n1_def ..
  then have step: "bit (smear w) n \<longleftrightarrow> (\<exists>j<32. bit w (n + j))" for n
    using bit_or_shift_step [OF b4] by (simp only: numeral_plus_numeral add_num_simps)
  show ?thesis
  proof
    assume "bit (smear w) n"
    then show "\<exists>m\<ge>n. bit w m" unfolding step by (meson le_add1)
  next
    assume "\<exists>m\<ge>n. bit w m"
    then obtain m where "n \<le> m" "bit w m" by blast
    then have "m - n < 32" "bit w (n + (m - n))"
      using bit_u32_bound [of w m] by auto
    then show "bit (smear w) n" unfolding step by blast
  qed
qed

text \<open>A value between two consecutive powers of two is smeared to all ones below the upper one.\<close>

lemma smear_eq_mask:
  assumes "unat w < 2 ^ k" and "0 < k \<Longrightarrow> 2 ^ (k - 1) \<le> unat w" and "k \<le> 32"
  shows "smear w = mask k"
proof (rule word32_eqI)
  fix n :: nat
  assume "n < 32"
  have low: "\<not> bit w m" if "k \<le> m" for m
  proof -
    have "unat w div 2 ^ m = 0"
      using assms(1) that by (simp add: less_le_trans [OF assms(1)] power_increasing)
    then show ?thesis by (simp add: bit_u32_iff_odd)
  qed
  have top: "bit w (k - 1)" if "0 < k"
  proof -
    have "unat w div 2 ^ (k - 1) = 1"
    proof (rule div_nat_eqI)
      show "2 ^ (k - 1) * 1 \<le> unat w" using assms(2) that by simp
      have "2 ^ (k - 1) * Suc 1 = (2 :: nat) ^ k"
        using that by (metis Suc_1 mult.commute power_minus_mult power_one_right)
      then show "unat w < 2 ^ (k - 1) * Suc 1"
        using assms(1) by simp
    qed
    then show ?thesis by (simp add: bit_u32_iff_odd)
  qed
  show "bit (smear w) n = bit (mask k :: u32) n"
  proof (cases "n < k")
    case True
    then have "n \<le> k - 1" and "bit w (k - 1)" using top by auto
    with True \<open>n < 32\<close> show ?thesis by (auto simp: bit_smear)
  next
    case False
    with low show ?thesis by (auto simp: bit_smear)
  qed
qed

lemma round_up_power_two_exp:
  assumes "2 ^ k < 2 * unat w" and "unat w \<le> 2 ^ k" and "k < 32"
  shows "round_up_power_two w = 2 ^ k"
proof -
  have "1 \<le> unat w"
    using assms(1) by (cases "unat w") auto
  then have w: "unat (w - 1) = unat w - 1"
    using unat_sub_u32 [of 1 w] by simp
  have "smear (w - 1) = mask k"
  proof (rule smear_eq_mask)
    show "unat (w - 1) < 2 ^ k" using assms(1,2) w by simp
    show "2 ^ (k - 1) \<le> unat (w - 1)" if "0 < k"
      using assms(1) that w by (cases k) auto
  qed (use assms(3) in simp)
  then show ?thesis
    by (simp add: round_up_power_two_def mask_eq_exp_minus_1)
qed

lemma round_down_power_two_exp:
  assumes "2 ^ k \<le> unat w" and "unat w < 2 * 2 ^ k" and "k < 32"
  shows "round_down_power_two w = 2 ^ k"
proof -
  have "smear w = mask (Suc k)"
    using assms by (intro smear_eq_mask) auto
  moreover have "drop_bit 1 (mask (Suc k)) = (mask k :: u32)"
    by (rule word32_eqI) (use assms(3) in \<open>auto simp: bit_drop_bit_eq\<close>)
  moreover have "(mask (Suc k) :: u32) - mask k = 2 ^ k"
    by (simp add: mask_eq_exp_minus_1)
  ultimately show ?thesis
    by (simp add: round_down_power_two_def)
qed

text \<open>Every positive number has such an exponent.\<close>

lemma exp_bracket_up: "0 < n \<Longrightarrow> \<exists>k. 2 ^ k < 2 * n \<and> n \<le> (2 :: nat) ^ k"
proof (induction n rule: less_induct)
  case (less n)
  show ?case
  proof (cases "n = 1")
    case True
    then show ?thesis by (auto intro: exI [of _ 0])
  next
    case False
    let ?m = "(n + 1) div 2"
    have m: "?m < n" "0 < ?m" using False less.prems by auto
    from less.IH [OF this] obtain k where k: "2 ^ k < 2 * ?m" "?m \<le> 2 ^ k" by blast
    from k have "n \<le> 2 ^ Suc k" by (simp; linarith)
    moreover have "2 ^ Suc k < 2 * n"
    proof (cases k)
      case 0
      then show ?thesis using False less.prems by simp
    next
      case (Suc j)
      then have "(2 :: nat) ^ j < (n + 1) div 2" using k(1) by simp
      then have "2 * (2 :: nat) ^ j < n" by linarith
      then have "2 ^ k < n" using Suc by simp
      then show ?thesis by simp
    qed
    ultimately show ?thesis by blast
  qed
qed

lemma exp_bracket_down: "0 < n \<Longrightarrow> \<exists>k. 2 ^ k \<le> n \<and> n < 2 * (2 :: nat) ^ k"
proof -
  assume "0 < n"
  then obtain k where "2 ^ k < 2 * (n + 1)" "n + 1 \<le> 2 ^ k"
    using exp_bracket_up [of "n + 1"] by auto
  moreover from this \<open>0 < n\<close> obtain j where "k = Suc j" by (cases k) auto
  ultimately have "2 ^ j \<le> n \<and> n < 2 * 2 ^ j" by simp
  then show ?thesis ..
qed

subsection \<open>Trailing zeros\<close>

lemma ctz_le: "ctz w \<le> 32"
  by (auto simp: ctz_def find_Some_iff split: option.split)

lemma ctz_zero [simp]: "ctz 0 = 32"
  by (simp add: ctz_def find_None_iff split: option.split) (auto simp: find_Some_iff)

lemma ctz_eq_iff: "n < 32 \<Longrightarrow> ctz w = n \<longleftrightarrow> bit w n \<and> (\<forall>m<n. \<not> bit w m)"
  by (auto simp: ctz_def find_Some_iff find_None_iff nth_append split: option.split)
     (metis linorder_neqE_nat)+

lemma ctz_less_iff: "ctz w < 32 \<longleftrightarrow> w \<noteq> 0"
proof
  assume "w \<noteq> 0"
  then obtain n where "bit w n" by (auto simp: bit_eq_iff)
  then have "\<exists>n. bit w n \<and> (\<forall>m<n. \<not> bit w m)" by (meson exists_least_iff)
  then obtain n where "bit w n" "\<forall>m<n. \<not> bit w m" by blast
  then have "ctz w = n" using bit_u32_bound by (simp add: ctz_eq_iff)
  with \<open>bit w n\<close> show "ctz w < 32" using bit_u32_bound by simp
qed auto

lemma ctz_exp [simp]: "k < 32 \<Longrightarrow> ctz (2 ^ k) = k"
  by (simp add: ctz_eq_iff bit_exp_iff)

lemma ctz_not_mask: "k \<le> 32 \<Longrightarrow> ctz (NOT (mask k)) = k"
proof (cases "k = 32")
  case True
  have "NOT (mask 32) = (0 :: u32)" by (rule word32_eqI) (simp add: bit_not_iff)
  with True show ?thesis by simp
qed (auto simp: ctz_eq_iff bit_not_iff)

subsection \<open>Properties\<close>

text \<open>The two ways of rounding up agree: for a power of two below \<open>2 ^ 32\<close>, \<^verbatim>\<open>align_up\<close>
  and \<^verbatim>\<open>align_up_ptr\<close> return the same word, and if the rounding does not leave the address
  space it is the least multiple that is not below the value.\<close>

theorem align_up_correct:
  assumes "k < 32" and "unat w + 2 ^ k \<le> 2 ^ 32"
  shows "align_up w (2 ^ k) = align_up_ptr w (2 ^ k) \<and> 2 ^ k dvd unat (align_up w (2 ^ k)) \<and>
    unat w \<le> unat (align_up w (2 ^ k)) \<and> unat (align_up w (2 ^ k)) < unat w + 2 ^ k"
  using align_up_eq_align_up_ptr [OF assms(1)] align_up_bounds [OF assms] by blast

theorem align_up_correct_witness: "2 ^ 12 dvd unat (align_up 0x1234 (2 ^ 12))"
proof -
  have "(12 :: nat) < 32" "unat (0x1234 :: u32) + 2 ^ 12 \<le> 2 ^ 32" by simp_all
  from align_up_correct [OF this] show ?thesis by blast
qed

end
