(* ===== verification/MemLib.thy ===== *)
theory MemLib
  imports Align
begin

text \<open>
  \<^verbatim>\<open>lib/mem.c\<close>, \<^verbatim>\<open>lib/string.c\<close> and \<^verbatim>\<open>lib/crc.c\<close> over a byte-addressed memory. A pointer is
  its 32-bit address, memory a function from addresses to bytes, and pointer increments wrap
  as they do on the target. The word loops of \<^verbatim>\<open>mem_set\<close> and \<^verbatim>\<open>mem_copy\<close> move whole
  little-endian words, four bytes at a time, before the byte loop handles the tail.
\<close>

type_synonym mem = "u32 \<Rightarrow> u8"

subsection \<open>Definitions\<close>

definition byte_of :: "'a::len word \<Rightarrow> nat \<Rightarrow> u8" where
  "byte_of w i = ucast (drop_bit (8 * i) w)"

text \<open>The processor's own little-endian word access.\<close>

definition load_word :: "mem \<Rightarrow> u32 \<Rightarrow> u32" where
  "load_word m p =
     ucast (m p) OR push_bit 8 (ucast (m (p + 1))) OR push_bit 16 (ucast (m (p + 2))) OR
     push_bit 24 (ucast (m (p + 3)))"

definition store_word :: "u32 \<Rightarrow> u32 \<Rightarrow> mem \<Rightarrow> mem" where
  "store_word p w m =
     m(p := byte_of w 0, p + 1 := byte_of w 1, p + 2 := byte_of w 2, p + 3 := byte_of w 3)"

definition word_count :: "u32 \<Rightarrow> nat" where
  "word_count sz = unat (drop_bit 2 (sz AND NOT (4 - 1)))"

definition tail_count :: "u32 \<Rightarrow> nat" where
  "tail_count sz = unat (sz AND (4 - 1))"

fun set_words :: "nat \<Rightarrow> u32 \<Rightarrow> u32 \<Rightarrow> mem \<Rightarrow> u32 \<times> mem" where
  "set_words 0 p w m = (p, m)"
| "set_words (Suc n) p w m = set_words n (p + 4) w (store_word p w m)"

fun set_bytes :: "nat \<Rightarrow> u32 \<Rightarrow> u8 \<Rightarrow> mem \<Rightarrow> mem" where
  "set_bytes 0 p b m = m"
| "set_bytes (Suc n) p b m = set_bytes n (p + 1) b (m(p := b))"

definition fill_word :: "u8 \<Rightarrow> u32" where
  "fill_word fill =
     push_bit 24 (ucast fill) OR push_bit 16 (ucast fill) OR push_bit 8 (ucast fill) OR ucast fill"

definition mem_set :: "u32 \<Rightarrow> u8 \<Rightarrow> u32 \<Rightarrow> mem \<Rightarrow> mem" where
  "mem_set ptr fill sz m =
     (case set_words (word_count sz) ptr (fill_word fill) m of
        (p, m') \<Rightarrow> set_bytes (tail_count sz) p fill m')"

fun copy_words :: "nat \<Rightarrow> u32 \<Rightarrow> u32 \<Rightarrow> mem \<Rightarrow> u32 \<times> u32 \<times> mem" where
  "copy_words 0 src dest m = (src, dest, m)"
| "copy_words (Suc n) src dest m =
     copy_words n (src + 4) (dest + 4) (store_word dest (load_word m src) m)"

fun copy_bytes :: "nat \<Rightarrow> u32 \<Rightarrow> u32 \<Rightarrow> mem \<Rightarrow> mem" where
  "copy_bytes 0 src dest m = m"
| "copy_bytes (Suc n) src dest m = copy_bytes n (src + 1) (dest + 1) (m(dest := m src))"

definition mem_copy :: "u32 \<Rightarrow> u32 \<Rightarrow> u32 \<Rightarrow> mem \<Rightarrow> mem" where
  "mem_copy src dest sz m =
     (case copy_words (word_count sz) src dest m of
        (s, d, m') \<Rightarrow> copy_bytes (tail_count sz) s d m')"

fun cmp_bytes :: "nat \<Rightarrow> u32 \<Rightarrow> u32 \<Rightarrow> mem \<Rightarrow> bool" where
  "cmp_bytes 0 a b m = True"
| "cmp_bytes (Suc n) a b m = (if m a \<noteq> m b then False else cmp_bytes n (a + 1) (b + 1) m)"

definition mem_cmp :: "u32 \<Rightarrow> u32 \<Rightarrow> u32 \<Rightarrow> mem \<Rightarrow> bool" where
  "mem_cmp src1 src2 sz m = cmp_bytes (unat sz) src1 src2 m"

definition read_le16 :: "mem \<Rightarrow> u32 \<Rightarrow> u16" where
  "read_le16 m p = ucast (m p) OR push_bit 8 (ucast (m (p + 1)))"

definition read_le32 :: "mem \<Rightarrow> u32 \<Rightarrow> u32" where
  "read_le32 m p =
     ucast (m p) OR push_bit 8 (ucast (m (p + 1))) OR push_bit 16 (ucast (m (p + 2))) OR
     push_bit 24 (ucast (m (p + 3)))"

definition read_le64 :: "mem \<Rightarrow> u32 \<Rightarrow> u64" where
  "read_le64 m p =
     ucast (m p) OR push_bit 8 (ucast (m (p + 1))) OR push_bit 16 (ucast (m (p + 2))) OR
     push_bit 24 (ucast (m (p + 3))) OR push_bit 32 (ucast (m (p + 4))) OR
     push_bit 40 (ucast (m (p + 5))) OR push_bit 48 (ucast (m (p + 6))) OR
     push_bit 56 (ucast (m (p + 7)))"

definition read_be16 :: "mem \<Rightarrow> u32 \<Rightarrow> u16" where
  "read_be16 m p = push_bit 8 (ucast (m p)) OR ucast (m (p + 1))"

definition read_be32 :: "mem \<Rightarrow> u32 \<Rightarrow> u32" where
  "read_be32 m p =
     push_bit 24 (ucast (m p)) OR push_bit 16 (ucast (m (p + 1))) OR
     push_bit 8 (ucast (m (p + 2))) OR ucast (m (p + 3))"

definition read_be64 :: "mem \<Rightarrow> u32 \<Rightarrow> u64" where
  "read_be64 m p =
     push_bit 56 (ucast (m p)) OR push_bit 48 (ucast (m (p + 1))) OR
     push_bit 40 (ucast (m (p + 2))) OR push_bit 32 (ucast (m (p + 3))) OR
     push_bit 24 (ucast (m (p + 4))) OR push_bit 16 (ucast (m (p + 5))) OR
     push_bit 8 (ucast (m (p + 6))) OR ucast (m (p + 7))"

definition store_be16 :: "u16 \<Rightarrow> u32 \<Rightarrow> mem \<Rightarrow> mem" where
  "store_be16 val p m =
     m(p := ucast (drop_bit 8 val AND 0xFF), p + 1 := ucast (val AND 0xFF))"

definition store_be32 :: "u32 \<Rightarrow> u32 \<Rightarrow> mem \<Rightarrow> mem" where
  "store_be32 val p m =
     m(p := ucast (drop_bit 24 val AND 0xFF), p + 1 := ucast (drop_bit 16 val AND 0xFF),
       p + 2 := ucast (drop_bit 8 val AND 0xFF), p + 3 := ucast (val AND 0xFF))"

text \<open>
  The string routines run until the terminating zero, so they are given as functions of
  the characters before it: \<open>c_string m p s\<close> says that the bytes of \<open>s\<close>, none of them
  zero, followed by a zero, stand at \<open>p\<close>.
\<close>

fun c_string :: "mem \<Rightarrow> u32 \<Rightarrow> u8 list \<Rightarrow> bool" where
  "c_string m p [] \<longleftrightarrow> m p = 0"
| "c_string m p (c # s) \<longleftrightarrow> c \<noteq> 0 \<and> m p = c \<and> c_string m (p + 1) s"

partial_function (option) string_end :: "mem \<Rightarrow> u32 \<Rightarrow> u32 option" where
  "string_end m p = (if m p \<noteq> 0 then string_end m (p + 1) else Some p)"

definition string_length :: "mem \<Rightarrow> u32 \<Rightarrow> u32 option" where
  "string_length m s = map_option (\<lambda>e. e - s) (string_end m s)"

partial_function (option) string_copy :: "u32 \<Rightarrow> u32 \<Rightarrow> mem \<Rightarrow> mem option" where
  "string_copy src dest m =
     (if m src \<noteq> 0 then string_copy (src + 1) (dest + 1) (m(dest := m src))
      else Some (m(dest := m src)))"

fun add_name_loop :: "nat \<Rightarrow> u32 \<Rightarrow> u32 \<Rightarrow> mem \<Rightarrow> u32 \<times> mem" where
  "add_name_loop 0 dest name m = (dest, m)"
| "add_name_loop (Suc n) dest name m =
     (if m name \<noteq> 0 then add_name_loop n (dest + 1) (name + 1) (m(dest := m name))
      else (dest, m))"

definition string_add_name :: "u32 \<Rightarrow> u32 \<Rightarrow> u32 \<Rightarrow> mem \<Rightarrow> mem" where
  "string_add_name dest name sz m =
     (case add_name_loop (unat (sz - 1)) dest name m of (d, m') \<Rightarrow> m'(d := 0))"

subsection \<open>CRC\<close>

definition crc_bit :: "u8 \<Rightarrow> u8 \<Rightarrow> u8" where
  "crc_bit poly crc = drop_bit 1 (if crc AND 1 \<noteq> 0 then crc XOR poly else crc)"

definition crc_byte :: "u8 \<Rightarrow> u8 \<Rightarrow> u8 \<Rightarrow> u8" where
  "crc_byte poly crc b = (crc_bit poly ^^ 8) (crc XOR b)"

definition crc_bytes :: "u8 \<Rightarrow> u8 list \<Rightarrow> u8" where
  "crc_bytes poly bs = foldl (crc_byte poly) 0 bs"

definition mem_slice :: "mem \<Rightarrow> u32 \<Rightarrow> nat \<Rightarrow> u8 list" where
  "mem_slice m p n = map (\<lambda>i. m (p + of_nat i)) [0..<n]"

definition crc_calculate :: "mem \<Rightarrow> u32 \<Rightarrow> u32 \<Rightarrow> u8 \<Rightarrow> u8" where
  "crc_calculate m src sz poly = crc_bytes poly (mem_slice m src (unat sz))"

subsection \<open>Offsets\<close>

lemma unat_diff_Suc:
  assumes "a \<noteq> (p :: u32)"
  shows "unat (a - p) = Suc (unat (a - (p + 1)))"
proof -
  have "a - (p + 1) = (a - p) - 1" by simp
  moreover have "a - p \<noteq> 0" using assms by simp
  ultimately show ?thesis
    by (metis Suc_pred diff_add_cancel unat_gt_0 unat_minus_one One_nat_def)
qed

lemma unat_offset_less:
  "n < 4294967296 \<Longrightarrow> unat (a - p) < Suc n \<longleftrightarrow> a = p \<or> unat (a - (p + 1)) < n" for p :: u32
  by (cases "a = p") (simp_all add: unat_diff_Suc)

lemma word_tail_split: "4 * word_count sz + tail_count sz = unat sz"
proof -
  have "(4 :: u32) - 1 = mask 2" by (simp add: mask_eq_exp_minus_1)
  then show ?thesis
    unfolding word_count_def tail_count_def
    by (simp only: unat_drop_bit unat_and_not_mask unat_and_mask) simp
qed

lemma tail_count_less: "tail_count sz < 4"
proof -
  have "(4 :: u32) - 1 = mask 2" by (simp add: mask_eq_exp_minus_1)
  then show ?thesis unfolding tail_count_def by (simp only: unat_and_mask) simp
qed

lemma offset_less_4:
  "unat (a - p) < 4 \<longleftrightarrow> a = p \<or> a = p + 1 \<or> a = p + 2 \<or> a = (p :: u32) + 3"
proof -
  have "unat (a - p) < 4 \<longleftrightarrow> a - p = 0 \<or> a - p = 1 \<or> a - p = 2 \<or> a - p = 3"
    by (auto simp: unat_arith_simps)
  then show ?thesis by (auto simp: diff_eq_eq add.commute)
qed

lemma offset_split:
  "n \<le> 1073741823 \<Longrightarrow> unat (a - p) < 4 * Suc n \<longleftrightarrow>
     unat (a - p) < 4 \<or> unat (a - (p + 4)) < 4 * n" for p :: u32
  by unat_arith

subsection \<open>Filling memory\<close>

lemma less_4_cases: "(i :: nat) < 4 \<Longrightarrow> i = 0 \<or> i = 1 \<or> i = 2 \<or> i = 3"
  by linarith

lemma bit_u8_bound: "bit (b :: u8) n \<Longrightarrow> n < 8"
  using bit_imp_le_length by fastforce

lemma byte_of_fill_word:
  assumes "i < 4"
  shows "byte_of (fill_word b) i = b"
proof (rule bit_word_eqI)
  fix n :: nat
  assume "n < LENGTH(8)"
  then have "bit (fill_word b) (8 * i + n) = bit b n"
    using less_4_cases [OF assms]
    by (auto simp: fill_word_def bit_simps dest: bit_u8_bound)
  then show "bit (byte_of (fill_word b) i) n = bit b n"
    using \<open>n < LENGTH(8)\<close> by (simp add: byte_of_def bit_simps)
qed

lemma store_word_apply:
  "store_word p w m a =
     (if unat (a - p) < 4 then byte_of w (unat (a - p)) else m a)"
  by (auto simp: store_word_def offset_less_4)

lemma set_bytes_apply:
  "n \<le> 4294967295 \<Longrightarrow>
     set_bytes n p b m a = (if unat (a - p) < n then b else m a)"
  by (induction n arbitrary: p m) (simp_all add: unat_offset_less)

lemma set_words_apply:
  "n \<le> 1073741823 \<Longrightarrow>
     fst (set_words n p (fill_word b) m) = p + 4 * of_nat n \<and>
     snd (set_words n p (fill_word b) m) a = (if unat (a - p) < 4 * n then b else m a)"
proof (induction n arbitrary: p m)
  case (Suc n)
  note IH = Suc.IH [of "p + 4" "store_word p (fill_word b) m"]
  have n: "n \<le> 1073741823" using Suc.prems by simp
  then have "fst (set_words (Suc n) p (fill_word b) m) = p + 4 * of_nat (Suc n)"
    using IH by (simp add: algebra_simps)
  moreover have "snd (set_words (Suc n) p (fill_word b) m) a
      = (if unat (a - (p + 4)) < 4 * n \<or> unat (a - p) < 4 then b else m a)"
    using IH n store_word_apply [of p "fill_word b" m a] by (simp add: byte_of_fill_word)
  ultimately show ?case
    unfolding offset_split [OF n] by (simp only: disj_commute)
qed simp

lemma word_count_le: "word_count sz \<le> 1073741823"
proof -
  have "4 * word_count sz \<le> unat sz" using word_tail_split [of sz] by linarith
  then show ?thesis using u32_le_max [of sz] by linarith
qed

lemma tail_offset:
  "unat (a - p) < unat sz \<longleftrightarrow>
     unat (a - p) < 4 * word_count sz \<or>
     unat (a - (p + 4 * of_nat (word_count sz))) < tail_count sz" for p :: u32
proof -
  let ?n = "word_count sz"
  have n: "4 * ?n \<le> 4294967292" using word_count_le [of sz] by linarith
  have k: "unat (4 * of_nat ?n :: u32) = 4 * ?n"
    using word_count_le [of sz] by (simp add: unat_word_ariths unat_of_nat)
  have e: "a - (p + 4 * of_nat ?n) = (a - p) - 4 * of_nat ?n" by simp
  show ?thesis
  proof (cases "unat (a - p) < 4 * ?n")
    case True
    then show ?thesis using word_tail_split [of sz] by auto
  next
    case False
    then have "unat ((a - p) - 4 * of_nat ?n) = unat (a - p) - 4 * ?n"
      using k by (simp add: unat_sub_u32)
    then show ?thesis using False word_tail_split [of sz] unfolding e by linarith
  qed
qed

lemma mem_set_apply: "mem_set ptr fill sz m a = (if unat (a - ptr) < unat sz then fill else m a)"
proof -
  let ?ws = "set_words (word_count sz) ptr (fill_word fill) m"
  have f: "fst ?ws = ptr + 4 * of_nat (word_count sz)"
    and s: "\<And>a. snd ?ws a = (if unat (a - ptr) < 4 * word_count sz then fill else m a)"
    using set_words_apply [OF word_count_le] by blast+
  have "tail_count sz \<le> 4294967295" using tail_count_less [of sz] by linarith
  then show ?thesis
    unfolding mem_set_def by (simp add: case_prod_beta set_bytes_apply f s tail_offset)
qed

subsection \<open>Copying memory\<close>

lemma byte_of_load_word:
  assumes "i < 4"
  shows "byte_of (load_word m p) i = m (p + of_nat i)"
proof (rule bit_word_eqI)
  fix n :: nat
  assume "n < LENGTH(8)"
  then have "bit (load_word m p) (8 * i + n) = bit (m (p + of_nat i)) n"
    using less_4_cases [OF assms]
    by (auto simp: load_word_def bit_simps dest: bit_u8_bound)
  then show "bit (byte_of (load_word m p) i) n = bit (m (p + of_nat i)) n"
    using \<open>n < LENGTH(8)\<close> by (simp add: byte_of_def bit_simps)
qed

lemma store_load_word:
  "store_word d (load_word m s) m' a = (if unat (a - d) < 4 then m (s + (a - d)) else m' a)"
  by (simp add: store_word_apply byte_of_load_word)

text \<open>Two regions of \<open>n\<close> bytes share no address.\<close>

definition disjoint_regions :: "u32 \<Rightarrow> u32 \<Rightarrow> nat \<Rightarrow> bool" where
  "disjoint_regions s d n \<longleftrightarrow> (\<forall>a. \<not> (unat (a - s) < n \<and> unat (a - d) < n))"

lemma copy_bytes_apply:
  assumes "n \<le> 4294967295" and "\<And>b. unat (b - s) < n \<Longrightarrow> \<not> unat (b - d) < n"
  shows "copy_bytes n s d m a = (if unat (a - d) < n then m (s + (a - d)) else m a)"
  using assms
proof (induction n arbitrary: s d m)
  case (Suc n)
  have n: "n \<le> 4294967295" "n < 4294967296" using Suc.prems(1) by auto
  have dis: "\<not> unat (b - (d + 1)) < n" if "unat (b - (s + 1)) < n" for b
    using Suc.prems(2) [of b] that n by (simp add: unat_offset_less)
  have sd: "s + (a - d) \<noteq> d" if "unat (a - (d + 1)) < n"
  proof
    assume eq: "s + (a - d) = d"
    have "unat (a - d) < Suc n" using that n by (simp add: unat_offset_less)
    moreover have "d - s = a - d" using eq by (metis add_diff_cancel_left')
    ultimately have "unat (d - s) < Suc n" by (simp only:)
    then show False using Suc.prems(2) [of d] by simp
  qed
  let ?m = "m(d := m s)"
  have e: "s + 1 + (a - (d + 1)) = s + (a - d)" by simp
  have "copy_bytes n (s + 1) (d + 1) ?m a
      = (if unat (a - (d + 1)) < n then ?m (s + (a - d)) else ?m a)"
    unfolding e [symmetric] by (rule Suc.IH [OF n(1) dis])
  then show ?case
    using sd n by (simp add: unat_offset_less)
qed simp

lemma copy_words_apply:
  assumes "n \<le> 1073741823" and "\<And>b. unat (b - s) < 4 * n \<Longrightarrow> \<not> unat (b - d) < 4 * n"
  shows "fst (copy_words n s d m) = s + 4 * of_nat n
       \<and> fst (snd (copy_words n s d m)) = d + 4 * of_nat n
       \<and> snd (snd (copy_words n s d m)) a
         = (if unat (a - d) < 4 * n then m (s + (a - d)) else m a)"
  using assms
proof (induction n arbitrary: s d m)
  case (Suc n)
  let ?m = "store_word d (load_word m s) m"
  have n: "n \<le> 1073741823" using Suc.prems(1) by simp
  have dis: "\<not> unat (b - (d + 4)) < 4 * n" if "unat (b - (s + 4)) < 4 * n" for b
    using Suc.prems(2) [of b] that by (simp only: offset_split [OF n]) blast
  note IH = Suc.IH [OF n dis]
  have far: "?m (s + 4 + (a - (d + 4))) = m (s + (a - d))" if "unat (a - (d + 4)) < 4 * n"
  proof -
    have in_d: "unat (a - d) < 4 * Suc n" using that by (simp only: offset_split [OF n] simp_thms)
    have "\<not> unat (s + (a - d) - d) < 4"
    proof
      assume "unat (s + (a - d) - d) < 4"
      then have "unat (s + (a - d) - d) < 4 * Suc n" by simp
      moreover have "s + (a - d) - s = a - d" by simp
      ultimately show False using Suc.prems(2) [of "s + (a - d)"] in_d by (simp only:)
    qed
    then show ?thesis by (simp add: store_load_word)
  qed
  have near: "?m a = (if unat (a - d) < 4 then m (s + (a - d)) else m a)"
    by (rule store_load_word)
  show ?case
    unfolding offset_split [OF n] using IH far near by (auto simp: algebra_simps)
qed simp

lemma region_shift:
  fixes b p q :: u32
  assumes "unat (b - (p + q)) < t" and "unat q + t \<le> 4294967295"
  shows "unat (b - p) < unat q + t"
proof -
  have "b - p = (b - (p + q)) + q" by simp
  moreover have "unat ((b - (p + q)) + q) = unat (b - (p + q)) + unat q"
    using assms by (intro unat_add_u32) linarith
  ultimately show ?thesis using assms(1) by (simp only:)
qed

lemma mem_copy_apply:
  assumes "disjoint_regions src dest (unat sz)"
  shows "mem_copy src dest sz m a =
    (if unat (a - dest) < unat sz then m (src + (a - dest)) else m a)"
proof -
  let ?n = "word_count sz" and ?t = "tail_count sz"
  let ?k = "4 * of_nat ?n :: u32"
  let ?c = "copy_words ?n src dest m"
  have dis: "\<not> unat (b - dest) < unat sz" if "unat (b - src) < unat sz" for b
    using assms that by (auto simp: disjoint_regions_def)
  have disw: "\<not> unat (b - dest) < 4 * ?n" if "unat (b - src) < 4 * ?n" for b
    using dis [of b] that word_tail_split [of sz] by linarith
  note W = copy_words_apply [OF word_count_le disw]
  have ps: "fst ?c = src + ?k" "fst (snd ?c) = dest + ?k" using W by blast+
  have sm: "snd (snd ?c) a = (if unat (a - dest) < 4 * ?n then m (src + (a - dest)) else m a)" for a
    using W by blast
  have k: "unat ?k = 4 * ?n"
    using word_count_le [of sz] by (simp add: unat_word_ariths unat_of_nat)
  have kt: "unat ?k + ?t \<le> 4294967295"
    using k word_tail_split [of sz] u32_le_max [of sz] by linarith
  have sz: "unat ?k + ?t = unat sz" using k word_tail_split [of sz] by linarith
  have dist: "\<not> unat (b - (dest + ?k)) < ?t" if "unat (b - (src + ?k)) < ?t" for b
    using dis [of b] region_shift [OF that kt] region_shift [OF _ kt, of b dest] sz by auto
  have tail: "copy_bytes ?t (src + ?k) (dest + ?k) (snd (snd ?c)) a =
      (if unat (a - (dest + ?k)) < ?t then m (src + (a - dest)) else snd (snd ?c) a)" for a
  proof (cases "unat (a - (dest + ?k)) < ?t")
    case True
    have in_d: "unat (a - dest) < unat sz" using region_shift [OF True kt] sz by simp
    have "\<not> unat (src + (a - dest) - dest) < 4 * ?n"
    proof
      assume "unat (src + (a - dest) - dest) < 4 * ?n"
      then have "unat (src + (a - dest) - dest) < unat sz" using word_tail_split [of sz] by linarith
      moreover have "src + (a - dest) - src = a - dest" by simp
      ultimately show False using dis [of "src + (a - dest)"] in_d by (simp only:)
    qed
    then have "snd (snd ?c) (src + (a - dest)) = m (src + (a - dest))" by (simp only: sm if_False)
    moreover have "src + ?k + (a - (dest + ?k)) = src + (a - dest)" by simp
    ultimately show ?thesis
      using True tail_count_less [of sz] copy_bytes_apply [OF _ dist, where m = "snd (snd ?c)" and a = a]
      by (simp only: if_True)
  next
    case False
    then show ?thesis
      using tail_count_less [of sz] copy_bytes_apply [OF _ dist, where m = "snd (snd ?c)" and a = a]
      by (simp only: if_False)
  qed
  have "mem_copy src dest sz m a = copy_bytes ?t (src + ?k) (dest + ?k) (snd (snd ?c)) a"
    by (simp add: mem_copy_def case_prod_beta ps)
  then show ?thesis unfolding tail sm tail_offset by auto
qed

subsection \<open>Byte order\<close>

lemma and_0xFF: "w AND 0xFF = take_bit 8 (w :: 'a::len word)"
  by (simp add: take_bit_eq_mask mask_eq_exp_minus_1)

lemma read_store_be16: "read_be16 (store_be16 v p m) p = v"
proof (rule bit_word_eqI)
  fix n :: nat
  assume "n < LENGTH(16)"
  then show "bit (read_be16 (store_be16 v p m) p) n = bit v n"
    by (cases "n < 8") (auto simp: read_be16_def store_be16_def and_0xFF bit_simps)
qed

lemma read_store_be32: "read_be32 (store_be32 v p m) p = v"
proof (rule word32_eqI)
  fix n :: nat
  assume n: "n < 32"
  consider "n < 8" | "8 \<le> n \<and> n < 16" | "16 \<le> n \<and> n < 24" | "24 \<le> n" by linarith
  then show "bit (read_be32 (store_be32 v p m) p) n = bit v n"
    using n by cases (auto simp: read_be32_def store_be32_def and_0xFF bit_simps)
qed

lemma read_le32_load_word: "read_le32 m p = load_word m p"
  by (simp add: read_le32_def load_word_def)

lemma read_le32_store_word: "read_le32 (store_word p v m) p = v"
proof (rule word32_eqI)
  fix n :: nat
  assume n: "n < 32"
  consider "n < 8" | "8 \<le> n \<and> n < 16" | "16 \<le> n \<and> n < 24" | "24 \<le> n" by linarith
  then show "bit (read_le32 (store_word p v m) p) n = bit v n"
    using n by cases (auto simp: read_le32_def store_word_def byte_of_def bit_simps)
qed

subsection \<open>Comparison and strings\<close>

lemma cmp_bytes_iff:
  "cmp_bytes n a b m \<longleftrightarrow> (\<forall>i < n. m (a + of_nat i) = m (b + of_nat i))"
proof (induction n arbitrary: a b)
  case (Suc n)
  show ?case
    by (auto simp: Suc.IH less_Suc_eq_0_disj add.assoc)
qed simp

lemma mem_cmp_iff: "mem_cmp a b sz m \<longleftrightarrow> mem_slice m a (unat sz) = mem_slice m b (unat sz)"
  by (auto simp: mem_cmp_def cmp_bytes_iff mem_slice_def)

lemma string_end_c_string: "c_string m p s \<Longrightarrow> string_end m p = Some (p + of_nat (length s))"
  by (induction s arbitrary: p) (subst string_end.simps, simp add: algebra_simps)+

lemma string_length_c_string: "c_string m p s \<Longrightarrow> string_length m p = Some (of_nat (length s))"
  by (simp add: string_length_def string_end_c_string)

fun write_bytes :: "u32 \<Rightarrow> u8 list \<Rightarrow> mem \<Rightarrow> mem" where
  "write_bytes p [] m = m"
| "write_bytes p (b # bs) m = write_bytes (p + 1) bs (m(p := b))"

lemma write_bytes_apply:
  "length bs \<le> 4294967296 \<Longrightarrow>
     write_bytes p bs m a = (if unat (a - p) < length bs then bs ! unat (a - p) else m a)"
proof (induction bs arbitrary: p m)
  case (Cons b bs)
  have IH: "write_bytes (p + 1) bs (m(p := b)) a
      = (if unat (a - (p + 1)) < length bs then bs ! unat (a - (p + 1)) else (m(p := b)) a)"
    using Cons by (intro Cons.IH) simp
  have l: "length bs < 4294967296" using Cons.prems by simp
  show ?case
  proof (cases "a = p")
    case True
    have "unat (- 1 :: u32) = 4294967295" by (simp add: unsigned_minus_1_eq_mask mask_eq_exp_minus_1)
    moreover have "p - (p + 1) = - 1" by simp
    ultimately have "unat (p - (p + 1)) = 4294967295" by (simp only:)
    then have "\<not> unat (a - (p + 1)) < length bs" using l True by simp
    then show ?thesis using IH True by simp
  next
    case False
    then show ?thesis using IH l by (simp add: unat_diff_Suc [OF False])
  qed
qed simp

lemma mem_slice_write_bytes:
  "length bs \<le> 4294967295 \<Longrightarrow> mem_slice (write_bytes p bs m) p (length bs) = bs"
  by (rule nth_equalityI) (auto simp: mem_slice_def write_bytes_apply unat_of_nat)

lemma c_string_cong:
  "(\<And>a. unat (a - p) \<le> length s \<Longrightarrow> m a = m' a) \<Longrightarrow> length s < 4294967295 \<Longrightarrow>
     c_string m p s \<longleftrightarrow> c_string m' p s"
proof (induction s arbitrary: p)
  case (Cons c s)
  have "c_string m (p + 1) s \<longleftrightarrow> c_string m' (p + 1) s"
    using Cons.prems by (intro Cons.IH) (auto simp: unat_offset_less less_Suc_eq_le [symmetric])
  then show ?case using Cons.prems(1) [of p] by simp
qed simp

text \<open>Both string writers store into \<open>dest\<close> only bytes they have already read past.\<close>

lemma disjoint_regions_step:
  assumes "disjoint_regions src dest (Suc n)" and "n < 4294967295"
  shows "disjoint_regions (src + 1) (dest + 1) n"
  using assms by (auto simp: disjoint_regions_def unat_offset_less)

lemma c_string_step:
  assumes "c_string m src (c # s)" and "disjoint_regions src dest (Suc (Suc (length s)))"
    and "length s < 4294967294"
  shows "c_string (m(dest := b)) (src + 1) s"
proof -
  have "unat (a - (src + 1)) \<le> length s \<Longrightarrow> a \<noteq> dest" for a
    using assms(2,3)
    by (auto simp: disjoint_regions_def unat_offset_less less_Suc_eq_le [symmetric])
  then have "c_string (m(dest := b)) (src + 1) s \<longleftrightarrow> c_string m (src + 1) s"
    using assms(3) by (intro c_string_cong) auto
  then show ?thesis using assms(1) by simp
qed

lemma string_copy_c_string:
  "c_string m src s \<Longrightarrow> disjoint_regions src dest (Suc (length s)) \<Longrightarrow>
     length s < 4294967294 \<Longrightarrow> string_copy src dest m = Some (write_bytes dest (s @ [0]) m)"
proof (induction s arbitrary: src dest m)
  case Nil
  then show ?case by (subst string_copy.simps) simp
next
  case (Cons c s)
  have "string_copy (src + 1) (dest + 1) (m(dest := c))
      = Some (write_bytes (dest + 1) (s @ [0]) (m(dest := c)))"
    using Cons.prems
    by (intro Cons.IH c_string_step [where c = c and dest = dest] disjoint_regions_step) auto
  then show ?case using Cons.prems(1) by (subst string_copy.simps) simp
qed

lemma add_name_loop_c_string:
  "c_string m name s \<Longrightarrow> disjoint_regions name dest (Suc (length s)) \<Longrightarrow>
     length s < 4294967294 \<Longrightarrow>
     add_name_loop n dest name m
       = (dest + of_nat (length (take n s)), write_bytes dest (take n s) m)"
proof (induction n dest name m arbitrary: s rule: add_name_loop.induct)
  case (2 n dest name m)
  show ?case
  proof (cases s)
    case (Cons c t)
    then have "c_string (m(dest := m name)) (name + 1) t"
      using "2.prems" by (intro c_string_step [where c = c and dest = dest]) auto
    moreover have "disjoint_regions (name + 1) (dest + 1) (Suc (length t))"
      using "2.prems" Cons by (intro disjoint_regions_step) auto
    ultimately show ?thesis
      using "2.IH" [of t] "2.prems" Cons by (simp add: algebra_simps del: fun_upd_apply)
  qed (use "2.prems" in simp)
qed simp

lemma write_bytes_snoc:
  "write_bytes p (bs @ [b]) m = (write_bytes p bs m)(p + of_nat (length bs) := b)"
  by (induction bs arbitrary: p m) (simp_all add: algebra_simps)

lemma string_add_name_c_string:
  assumes "c_string m name s" and "disjoint_regions name dest (Suc (length s))"
    and "length s < 4294967294"
  shows "string_add_name dest name sz m = write_bytes dest (take (unat (sz - 1)) s @ [0]) m"
  using add_name_loop_c_string [OF assms, of "unat (sz - 1)"]
  by (simp add: string_add_name_def write_bytes_snoc)

subsection \<open>The checksum\<close>

lemma and_1_ne_0: "(w :: 'a::len word) AND 1 \<noteq> 0 \<longleftrightarrow> bit w 0"
proof -
  have "bit (w AND 1) n \<longleftrightarrow> n = 0 \<and> bit w 0" for n
    by (auto simp: bit_and_iff bit_1_iff)
  then show ?thesis by (auto simp: bit_eq_iff)
qed

lemma bit_crc_bit:
  "n < 8 \<Longrightarrow> bit (crc_bit poly a) n \<longleftrightarrow> bit a (Suc n) \<noteq> (bit a 0 \<and> bit poly (Suc n))"
  by (simp add: crc_bit_def and_1_ne_0 bit_drop_bit_eq bit_xor_iff)

lemma crc_bit_xor: "crc_bit poly (a XOR b) = crc_bit poly a XOR crc_bit poly b"
  by (rule bit_word_eqI) (auto simp: bit_crc_bit bit_xor_iff)

lemma crc_funpow_xor:
  "(crc_bit poly ^^ k) (a XOR b) = (crc_bit poly ^^ k) a XOR (crc_bit poly ^^ k) b"
  by (induction k) (simp_all add: crc_bit_xor)

lemma crc_byte_xor: "crc_byte poly (a XOR d) b = crc_byte poly a b XOR (crc_bit poly ^^ 8) d"
proof -
  have "(a XOR d) XOR b = (a XOR b) XOR d" by (simp only: xor.assoc xor.commute xor.left_commute)
  then show ?thesis unfolding crc_byte_def by (simp only:) (rule crc_funpow_xor)
qed

text \<open>A difference of two running checksums evolves on its own.\<close>

lemma crc_fold_xor:
  "foldl (crc_byte poly) (a XOR d) bs =
     foldl (crc_byte poly) a bs XOR ((crc_bit poly ^^ 8) ^^ length bs) d"
proof (induction bs arbitrary: a d)
  case (Cons b bs)
  have "foldl (crc_byte poly) (a XOR d) (b # bs)
      = foldl (crc_byte poly) (crc_byte poly a b XOR (crc_bit poly ^^ 8) d) bs"
    by (simp only: foldl.simps crc_byte_xor)
  also have "\<dots> = foldl (crc_byte poly) (crc_byte poly a b) bs XOR
      ((crc_bit poly ^^ 8) ^^ length bs) ((crc_bit poly ^^ 8) d)"
    by (rule Cons.IH)
  finally show ?case by (simp only: foldl.simps list.size funpow_Suc_right o_apply)
    (simp add: funpow_swap1)
qed simp

text \<open>
  The polynomial \<^verbatim>\<open>0x45\<close> of \<^verbatim>\<open>dma_receive.c\<close>: bit 5 of the register comes only from
  the feedback and bits 6 and 7 are shifted out after the first steps of a byte.
\<close>

abbreviation crc_poly :: u8 where "crc_poly \<equiv> 0x45"

lemma bit_crc_poly: "bit crc_poly n \<longleftrightarrow> n = 0 \<or> n = 2 \<or> n = 6"
proof (cases "n < 8")
  case True
  then consider "n = 0" | "n = 1" | "n = 2" | "n = 3" | "n = 4" | "n = 5" | "n = 6" | "n = 7"
    by linarith
  then show ?thesis by cases simp_all
qed (use bit_u8_bound in auto)

lemma bit_crc_step:
  "bit (crc_bit crc_poly a) n \<longleftrightarrow> n < 8 \<and> bit a (Suc n) \<noteq> (bit a 0 \<and> (n = 1 \<or> n = 5))"
proof (cases "n < 8")
  case True
  have "bit crc_poly (Suc n) \<longleftrightarrow> n = 1 \<or> n = 5" by (simp only: bit_crc_poly) auto
  then show ?thesis using True bit_crc_bit [OF True, of crc_poly a] by (simp only:) simp
qed (use bit_u8_bound in auto)

definition six_bits :: "u8 \<Rightarrow> bool" where
  "six_bits a \<longleftrightarrow> (\<forall>n. bit a n \<longrightarrow> n < 6)"

lemma six_bits_step: "six_bits a \<Longrightarrow> six_bits (crc_bit crc_poly a)"
  by (auto simp: six_bits_def bit_crc_step)

lemma six_bits_funpow: "six_bits a \<Longrightarrow> six_bits ((crc_bit crc_poly ^^ k) a)"
  by (induction k) (simp_all add: six_bits_step)

lemma crc_step_nonzero: "six_bits a \<Longrightarrow> a \<noteq> 0 \<Longrightarrow> crc_bit crc_poly a \<noteq> 0"
proof (cases "bit a 0")
  case True
  moreover assume "six_bits a"
  ultimately have "bit (crc_bit crc_poly a) 5" by (auto simp: bit_crc_step six_bits_def)
  then show ?thesis by auto
next
  case False
  moreover assume "six_bits a" and "a \<noteq> 0"
  then obtain n where "bit a n" and "n < 6" by (auto simp: bit_eq_iff six_bits_def)
  ultimately have "bit (crc_bit crc_poly a) (n - 1)" by (cases n) (auto simp: bit_crc_step)
  then show ?thesis by auto
qed

lemma crc_funpow_nonzero:
  "six_bits a \<Longrightarrow> a \<noteq> 0 \<Longrightarrow> (crc_bit crc_poly ^^ k) a \<noteq> 0"
  by (induction k) (simp_all add: six_bits_funpow crc_step_nonzero)

lemma six_bits_byte: "six_bits ((crc_bit crc_poly ^^ 8) a)"
proof -
  have bits: "bit a n \<Longrightarrow> n < 8" for n and a :: u8 by (rule bit_u8_bound)
  have "six_bits (crc_bit crc_poly (crc_bit crc_poly a))"
    unfolding six_bits_def using bits [of a] by (fastforce simp: bit_crc_step)
  then have "six_bits ((crc_bit crc_poly ^^ 6) (crc_bit crc_poly (crc_bit crc_poly a)))"
    by (rule six_bits_funpow)
  then show ?thesis by (simp add: numeral_eq_Suc)
qed

definition single_bit :: "nat \<Rightarrow> u8" where
  "single_bit i = push_bit i 1"

lemma bit_single_bit: "bit (single_bit i) n \<longleftrightarrow> n = i \<and> i < 8"
  unfolding single_bit_def by (simp only: bit_push_bit_iff bit_1_iff) auto

lemma single_bit_0: "single_bit 0 = 1"
  by (simp add: single_bit_def)

lemma crc_bit_shift_one: "i < 7 \<Longrightarrow> crc_bit crc_poly (single_bit (Suc i)) = single_bit i"
  by (rule bit_word_eqI) (auto simp: bit_crc_step bit_single_bit)

lemma crc_funpow_one: "i < 8 \<Longrightarrow> (crc_bit crc_poly ^^ i) (single_bit i) = 1"
proof (induction i)
  case (Suc i)
  then have "crc_bit crc_poly (single_bit (Suc i)) = single_bit i"
    by (intro crc_bit_shift_one) simp
  then show ?case
    using Suc.IH Suc.prems unfolding funpow_Suc_right o_apply by simp
qed (simp add: single_bit_0)

lemma crc_bit_one: "crc_bit crc_poly 1 = 0x22"
  by (simp add: crc_bit_def)

lemma six_bits_22: "six_bits 0x22"
  unfolding crc_bit_one [symmetric] six_bits_def bit_crc_step by (auto simp: bit_1_iff)

lemma crc_single_bit_nonzero:
  assumes "i < 8"
  shows "(crc_bit crc_poly ^^ 8) (single_bit i) \<noteq> 0"
proof -
  have "8 = (7 - i) + Suc i" using assms by simp
  then have "(crc_bit crc_poly ^^ 8) (single_bit i)
      = (crc_bit crc_poly ^^ (7 - i)) ((crc_bit crc_poly ^^ Suc i) (single_bit i))"
    by (metis funpow_add o_apply)
  also have "(crc_bit crc_poly ^^ Suc i) (single_bit i) = 0x22"
    by (simp only: funpow.simps o_apply crc_funpow_one [OF assms] crc_bit_one)
  finally show ?thesis using crc_funpow_nonzero [OF six_bits_22, of "7 - i"] by simp
qed

lemma crc_pow_pow: "((crc_bit poly ^^ 8) ^^ n) = crc_bit poly ^^ (8 * n)"
  by (simp only: funpow_mult mult.commute)

lemma xor_nonzero: "d \<noteq> 0 \<Longrightarrow> a XOR d \<noteq> (a :: u8)"
  by (metis xor.assoc xor.left_neutral xor_self_eq)

lemma crc_single_bit:
  assumes "i < 8"
  shows "crc_bytes crc_poly (xs @ (b XOR single_bit i) # ys) \<noteq> crc_bytes crc_poly (xs @ b # ys)"
proof -
  let ?c = "foldl (crc_byte crc_poly) 0 xs"
  let ?d = "(crc_bit crc_poly ^^ 8) (single_bit i)"
  have "crc_byte crc_poly ?c (b XOR single_bit i) = crc_byte crc_poly ?c b XOR ?d"
    unfolding crc_byte_def crc_funpow_xor [symmetric] by (simp only: xor.assoc)
  then have "crc_bytes crc_poly (xs @ (b XOR single_bit i) # ys)
      = crc_bytes crc_poly (xs @ b # ys) XOR ((crc_bit crc_poly ^^ 8) ^^ length ys) ?d"
    by (simp only: crc_bytes_def foldl_append foldl.simps crc_fold_xor)
  moreover have "((crc_bit crc_poly ^^ 8) ^^ length ys) ?d \<noteq> 0"
    unfolding crc_pow_pow
    by (intro crc_funpow_nonzero six_bits_byte crc_single_bit_nonzero assms)
  ultimately show ?thesis by (simp only: xor_nonzero not_False_eq_True)
qed

lemma six_bits_less:
  assumes "six_bits a"
  shows "unat a < 64"
proof -
  have "a = take_bit 6 a" using assms by (auto simp: bit_eq_iff bit_take_bit_iff six_bits_def)
  then have "unat a = take_bit 6 (unat a)" by (metis unsigned_take_bit_eq)
  also have "\<dots> < 2 ^ 6" by (rule take_bit_nat_less_exp)
  finally show ?thesis by simp
qed

lemma crc_six_bits:
  assumes "bs \<noteq> []"
  shows "unat (crc_bytes crc_poly bs) < 64"
proof -
  obtain ys y where "bs = ys @ [y]" using assms by (cases bs rule: rev_cases) auto
  then show ?thesis
    by (simp only: crc_bytes_def foldl_append foldl.simps crc_byte_def six_bits_less
       six_bits_byte)
qed

lemma region_bounds:
  fixes a s :: u32
  assumes "unat (a - s) < n" and "unat s + n \<le> 4294967296"
  shows "unat s \<le> unat a \<and> unat a < unat s + n"
proof -
  have "unat (s + (a - s)) = unat s + unat (a - s)" using assms by (intro unat_add_u32) linarith
  then have "unat a = unat s + unat (a - s)" by simp
  then show ?thesis using assms(1) by linarith
qed

lemma disjoint_regionsI:
  assumes "unat s + n \<le> unat d" and "unat d + n \<le> 4294967296"
  shows "disjoint_regions s d n"
  unfolding disjoint_regions_def
proof (intro allI notI)
  fix a
  assume "unat (a - s) < n \<and> unat (a - d) < n"
  then show False using region_bounds [of a s n] region_bounds [of a d n] assms by linarith
qed

subsection \<open>Properties\<close>

text \<open>C10. \<^verbatim>\<open>mem_copy\<close>, which moves words and then the remaining bytes, copies exactly the
  \<open>sz\<close> bytes of a disjoint source and changes no other byte, for every size and alignment.\<close>

theorem mem_copy_correct:
  assumes "disjoint_regions src dest (unat sz)"
  shows "mem_copy src dest sz m a = (if unat (a - dest) < unat sz then m (src + (a - dest)) else m a)"
  using mem_copy_apply [OF assms] .

theorem mem_copy_correct_witness: "mem_copy 0x100 0x200 7 ((\<lambda>_. 0)(0x106 := 9)) 0x206 = 9"
proof -
  have "disjoint_regions 0x100 0x200 (unat (7 :: u32))"
    by (rule disjoint_regionsI) simp_all
  from mem_copy_correct [OF this, of "(\<lambda>_. 0)(0x106 := 9)" "0x206"] show ?thesis by simp
qed

text \<open>\<^verbatim>\<open>mem_set\<close> writes the fill byte to exactly the \<open>sz\<close> bytes from \<open>ptr\<close>.\<close>

theorem mem_set_correct: "mem_set ptr fill sz m a = (if unat (a - ptr) < unat sz then fill else m a)"
  by (rule mem_set_apply)

text \<open>The byte order routines: a value stored big endian is read back unchanged, and the
  little endian reader agrees with the processor's word access.\<close>

theorem byte_order_roundtrip:
  "read_be16 (store_be16 v p m) p = v \<and> read_be32 (store_be32 w p m) p = w \<and>
   read_le32 (store_word p w m) p = w \<and> read_le32 m p = load_word m p"
  by (intro conjI read_store_be16 read_store_be32 read_le32_store_word read_le32_load_word)

text \<open>\<^verbatim>\<open>string_add_name\<close> leaves in a buffer of \<open>sz\<close> bytes the first \<open>sz - 1\<close> characters of
  the name followed by the terminating zero, and \<^verbatim>\<open>string_length\<close> measures a string.\<close>

theorem string_add_name_correct:
  assumes "c_string m name s" and "disjoint_regions name dest (Suc (length s))"
    and "length s < 4294967294"
  shows "string_add_name dest name sz m = write_bytes dest (take (unat (sz - 1)) s @ [0]) m \<and>
     string_length m name = Some (of_nat (length s))"
  using string_add_name_c_string [OF assms] string_length_c_string [OF assms(1)] by simp

theorem string_add_name_correct_witness:
  "string_add_name 0x20 0x10 2 ((\<lambda>_. 0)(0x10 := 65, 0x11 := 66)) =
     write_bytes 0x20 [65, 0] ((\<lambda>_. 0)(0x10 := 65, 0x11 := 66))"
proof -
  have "disjoint_regions 0x10 0x20 (Suc (length [65, 66 :: u8]))"
    by (rule disjoint_regionsI) simp_all
  then show ?thesis
    using string_add_name_correct [where m = "(\<lambda>_. 0)(0x10 := 65, 0x11 := 66)" and name = "0x10"
        and s = "[65, 66]" and dest = "0x20" and sz = "2"]
    by simp
qed

text \<open>C11. The packet checksum detects the change of any single bit of the data; its value
  over a non-empty packet has six significant bits only.\<close>

theorem crc_detects_single_bit:
  assumes "i < 8"
  shows "crc_bytes 0x45 (xs @ (b XOR single_bit i) # ys) \<noteq> crc_bytes 0x45 (xs @ b # ys) \<and>
    unat (crc_bytes 0x45 (xs @ b # ys)) < 64"
  using crc_single_bit [OF assms] crc_six_bits by simp

theorem crc_detects_single_bit_witness:
  "crc_bytes 0x45 ([1] @ (2 XOR single_bit 3) # [4]) \<noteq> crc_bytes 0x45 ([1] @ 2 # [4])"
  by (rule crc_detects_single_bit [of 3 "[1]" 2 "[4]", THEN conjunct1]) simp

end
