(* ===== verification/Lists.thy ===== *)
theory Lists
  imports Prelude
begin

text \<open>
  \<^verbatim>\<open>include/citrus/list.h\<close>: the intrusive circular doubly linked list every queue of the
  kernel is built on. A node is its address, the heap maps addresses to their two pointers,
  and each routine performs the pointer writes of the C code in their order. \<open>dlist h l xs\<close>
  says that the ring headed by \<open>l\<close> holds exactly the nodes \<open>xs\<close>, first to last; under it
  the routines act as the list operations the other theories use. The locale
  \<open>node_queue\<close> is that contract, interpreted here on the pointer code.
\<close>

subsection \<open>Definitions\<close>

record list_node =
  nxt :: u32
  prv :: u32

type_synonym heap = "u32 \<Rightarrow> list_node"

definition set_next :: "u32 \<Rightarrow> u32 \<Rightarrow> heap \<Rightarrow> heap" where
  "set_next p v h = h(p := (h p)\<lparr>nxt := v\<rparr>)"

definition set_prev :: "u32 \<Rightarrow> u32 \<Rightarrow> heap \<Rightarrow> heap" where
  "set_prev p v h = h(p := (h p)\<lparr>prv := v\<rparr>)"

definition list_init :: "u32 \<Rightarrow> heap \<Rightarrow> heap" where
  "list_init lst h = set_next lst lst (set_prev lst lst h)"

definition list_node_init :: "u32 \<Rightarrow> heap \<Rightarrow> heap" where
  "list_node_init lst h = set_prev lst 0 (set_next lst 0 h)"

definition list_add :: "u32 \<Rightarrow> u32 \<Rightarrow> u32 \<Rightarrow> heap \<Rightarrow> heap" where
  "list_add new prev nex h =
     set_prev new prev (set_next new nex (set_prev nex new (set_next prev new h)))"

definition list_delete :: "u32 \<Rightarrow> u32 \<Rightarrow> heap \<Rightarrow> heap res" where
  "list_delete prev nex h =
     (if prev = 0 \<or> nex = 0 then Inl NullPointer
      else Inr (set_prev nex prev (set_next prev nex h)))"

definition list_add_first :: "u32 \<Rightarrow> u32 \<Rightarrow> heap \<Rightarrow> heap" where
  "list_add_first new lst h = list_add new lst (nxt (h lst)) h"

definition list_add_last :: "u32 \<Rightarrow> u32 \<Rightarrow> heap \<Rightarrow> heap" where
  "list_add_last new lst h = list_add new (prv (h lst)) lst h"

definition list_add_before :: "u32 \<Rightarrow> u32 \<Rightarrow> heap \<Rightarrow> heap" where
  "list_add_before new before h = list_add new (prv (h before)) before h"

definition list_delete_node :: "u32 \<Rightarrow> heap \<Rightarrow> heap res" where
  "list_delete_node node h =
     res_bind (list_delete (prv (h node)) (nxt (h node)) h)
       (\<lambda>h'. Inr (set_prev node 0 (set_next node 0 h')))"

definition list_delete_first :: "u32 \<Rightarrow> heap \<Rightarrow> heap res" where
  "list_delete_first lst h =
     (if nxt (h lst) = lst then Inr h else list_delete_node (nxt (h lst)) h)"

definition list_delete_last :: "u32 \<Rightarrow> heap \<Rightarrow> heap res" where
  "list_delete_last lst h =
     (if nxt (h lst) = lst then Inr h else list_delete_node (prv (h lst)) h)"

definition list_is_empty :: "u32 \<Rightarrow> heap \<Rightarrow> bool" where
  "list_is_empty lst h \<longleftrightarrow> nxt (h lst) = lst"

definition list_get_first :: "u32 \<Rightarrow> heap \<Rightarrow> u32" where
  "list_get_first lst h = nxt (h lst)"

definition list_get_last :: "u32 \<Rightarrow> heap \<Rightarrow> u32" where
  "list_get_last lst h = prv (h lst)"

partial_function (option) list_iterate_size :: "u32 \<Rightarrow> u32 \<Rightarrow> u32 \<Rightarrow> heap \<Rightarrow> u32 option" where
  "list_iterate_size node lst sz h =
     (if node \<noteq> lst then list_iterate_size (nxt (h node)) lst (sz + 1) h else Some sz)"

definition list_get_size :: "u32 \<Rightarrow> heap \<Rightarrow> u32 option" where
  "list_get_size lst h = list_iterate_size (nxt (h lst)) lst 0 h"

definition list_merge :: "u32 \<Rightarrow> u32 \<Rightarrow> heap \<Rightarrow> heap" where
  "list_merge src dest h =
     (let h1 = set_next (prv (h src)) (nxt (h dest)) h;
          h2 = set_prev (nxt (h1 dest)) (prv (h1 src)) h1;
          h3 = set_next dest (nxt (h2 src)) h2
      in set_prev (nxt (h3 dest)) dest h3)"

text \<open>The ring of \<open>lst\<close> holds \<open>xs\<close>: forward and backward pointers, all nodes distinct.\<close>

definition dlist :: "heap \<Rightarrow> u32 \<Rightarrow> u32 list \<Rightarrow> bool" where
  "dlist h lst xs \<longleftrightarrow>
     distinct (lst # xs) \<and> 0 \<notin> set (lst # xs) \<and>
     map (\<lambda>p. nxt (h p)) (lst # xs) = xs @ [lst] \<and>
     map (\<lambda>p. prv (h p)) (xs @ [lst]) = lst # xs"

text \<open>An operation of a client on one list, and its effect on the abstract list.\<close>

datatype list_op =
    AddFirst u32
  | AddLast u32
  | AddBefore u32 u32
  | DeleteNode u32
  | DeleteFirst
  | DeleteLast

fun exec_op :: "u32 \<Rightarrow> list_op \<Rightarrow> heap \<Rightarrow> heap res" where
  "exec_op l (AddFirst x) h = Inr (list_add_first x l h)"
| "exec_op l (AddLast x) h = Inr (list_add_last x l h)"
| "exec_op l (AddBefore x y) h = Inr (list_add_before x y h)"
| "exec_op l (DeleteNode x) h = list_delete_node x h"
| "exec_op l DeleteFirst h = list_delete_first l h"
| "exec_op l DeleteLast h = list_delete_last l h"

fun insert_before :: "'a \<Rightarrow> 'a \<Rightarrow> 'a list \<Rightarrow> 'a list" where
  "insert_before x y [] = [x]"
| "insert_before x y (z # zs) = (if z = y then x # z # zs else z # insert_before x y zs)"

fun spec_op :: "list_op \<Rightarrow> u32 list \<Rightarrow> u32 list" where
  "spec_op (AddFirst x) xs = x # xs"
| "spec_op (AddLast x) xs = xs @ [x]"
| "spec_op (AddBefore x y) xs = insert_before x y xs"
| "spec_op (DeleteNode x) xs = remove1 x xs"
| "spec_op DeleteFirst xs = tl xs"
| "spec_op DeleteLast xs = butlast xs"

fun op_ok :: "u32 \<Rightarrow> list_op \<Rightarrow> u32 list \<Rightarrow> bool" where
  "op_ok l (AddFirst x) xs \<longleftrightarrow> x \<noteq> 0 \<and> x \<noteq> l \<and> x \<notin> set xs"
| "op_ok l (AddLast x) xs \<longleftrightarrow> x \<noteq> 0 \<and> x \<noteq> l \<and> x \<notin> set xs"
| "op_ok l (AddBefore x y) xs \<longleftrightarrow> x \<noteq> 0 \<and> x \<noteq> l \<and> x \<notin> set xs \<and> (y = l \<or> y \<in> set xs)"
| "op_ok l (DeleteNode x) xs \<longleftrightarrow> x \<in> set xs"
| "op_ok l DeleteFirst xs \<longleftrightarrow> True"
| "op_ok l DeleteLast xs \<longleftrightarrow> True"

fun exec_ops :: "u32 \<Rightarrow> list_op list \<Rightarrow> heap \<Rightarrow> heap res" where
  "exec_ops l [] h = Inr h"
| "exec_ops l (a # as) h = res_bind (exec_op l a h) (exec_ops l as)"

fun ops_ok :: "u32 \<Rightarrow> list_op list \<Rightarrow> u32 list \<Rightarrow> bool" where
  "ops_ok l [] xs \<longleftrightarrow> True"
| "ops_ok l (a # as) xs \<longleftrightarrow> op_ok l a xs \<and> ops_ok l as (spec_op a xs)"

subsection \<open>Single fields\<close>

lemma nxt_set [simp]:
  "nxt (set_next p v h a) = (if a = p then v else nxt (h a))"
  "prv (set_next p v h a) = prv (h a)"
  "nxt (set_prev p v h a) = nxt (h a)"
  "prv (set_prev p v h a) = (if a = p then v else prv (h a))"
  by (simp_all add: set_next_def set_prev_def)

lemma dlist_init: "lst \<noteq> 0 \<Longrightarrow> dlist (list_init lst h) lst []"
  by (simp add: dlist_def list_init_def)

lemma dlist_frame:
  assumes "dlist h lst xs" and "\<And>a. a \<in> set (lst # xs) \<Longrightarrow> h' a = h a"
  shows "dlist h' lst xs"
proof -
  have "map (\<lambda>p. nxt (h' p)) (lst # xs) = map (\<lambda>p. nxt (h p)) (lst # xs)"
    and "map (\<lambda>p. prv (h' p)) (xs @ [lst]) = map (\<lambda>p. prv (h p)) (xs @ [lst])"
    using assms(2) by auto
  then show ?thesis using assms(1) unfolding dlist_def by (simp only: simp_thms)
qed

subsection \<open>Insertion and deletion between two neighbours\<close>

text \<open>The ring seen from the gap between \<open>xs\<close> and \<open>ys\<close>: \<open>p\<close> before it, \<open>n\<close> after it.\<close>

lemma map_eq_split:
  assumes "map f (as @ bs) = cs @ ds" and "length as = length cs"
  shows "map f as = cs" and "map f bs = ds"
  using assms by (auto simp: append_eq_append_conv)

lemma dlist_gap:
  assumes "dlist h lst (xs @ ys)" and "lst # xs = as @ [p]" and "ys @ [lst] = n # bs"
  shows "map (\<lambda>a. nxt (h a)) as = xs" and "nxt (h p) = n" and "map (\<lambda>a. nxt (h a)) ys = bs"
    and "map (\<lambda>a. prv (h a)) xs = as" and "prv (h n) = p" and "map (\<lambda>a. prv (h a)) bs = ys"
proof -
  have l: "length as = length xs" using assms(2) by (metis length_Cons length_append_singleton nat.inject)
  have N: "map (\<lambda>a. nxt (h a)) (as @ p # ys) = xs @ n # bs"
    using assms unfolding dlist_def by (metis append.assoc append_Cons append_Nil)
  have P: "map (\<lambda>a. prv (h a)) (xs @ n # bs) = as @ p # ys"
    using assms unfolding dlist_def by (metis append.assoc append_Cons append_Nil)
  show "map (\<lambda>a. nxt (h a)) as = xs" "nxt (h p) = n" "map (\<lambda>a. nxt (h a)) ys = bs"
    using map_eq_split [OF N l] by auto
  show "map (\<lambda>a. prv (h a)) xs = as" "prv (h n) = p" "map (\<lambda>a. prv (h a)) bs = ys"
    using map_eq_split [OF P l [symmetric]] by auto
qed

lemma list_add_gap:
  assumes d: "dlist h lst (xs @ ys)" and s: "lst # xs = as @ [p]" "ys @ [lst] = n # bs"
    and new: "new \<noteq> 0" "new \<noteq> lst" "new \<notin> set (xs @ ys)"
  shows "dlist (list_add new p n h) lst (xs @ new # ys)"
proof -
  let ?h = "list_add new p n h"
  note gap = dlist_gap [OF d s]
  have L: "lst # xs @ ys = as @ p # ys" using s(1) by simp
  have R: "(xs @ ys) @ [lst] = xs @ n # bs" using s(2) by simp
  have "distinct (lst # xs @ ys)" "distinct ((xs @ ys) @ [lst])"
    using d by (auto simp: dlist_def)
  then have dist: "distinct (as @ p # ys)" "distinct (xs @ n # bs)" unfolding L R by blast+
  have "new \<notin> set (lst # xs @ ys)" "new \<notin> set ((xs @ ys) @ [lst])"
    using new by auto
  then have notnew: "new \<notin> set (as @ p # ys)" "new \<notin> set (xs @ n # bs)" unfolding L R by blast+
  have "map (\<lambda>a. nxt (?h a)) as = map (\<lambda>a. nxt (h a)) as"
    "map (\<lambda>a. nxt (?h a)) ys = map (\<lambda>a. nxt (h a)) ys" "nxt (?h p) = new" "nxt (?h new) = n"
    using dist notnew by (auto simp: list_add_def)
  then have "map (\<lambda>a. nxt (?h a)) (as @ p # new # ys) = xs @ new # n # bs"
    by (simp only: gap list.map map_append)
  moreover have "map (\<lambda>a. prv (?h a)) xs = map (\<lambda>a. prv (h a)) xs"
    "map (\<lambda>a. prv (?h a)) bs = map (\<lambda>a. prv (h a)) bs" "prv (?h n) = new" "prv (?h new) = p"
    using dist notnew by (auto simp: list_add_def)
  then have "map (\<lambda>a. prv (?h a)) (xs @ new # n # bs) = as @ p # new # ys"
    by (simp only: gap list.map map_append)
  moreover have "lst # xs @ new # ys = as @ p # new # ys" "(xs @ new # ys) @ [lst] = xs @ new # n # bs"
    using s by simp_all
  moreover have "distinct (lst # xs @ new # ys)" "0 \<notin> set (lst # xs @ new # ys)"
    using d new by (auto simp: dlist_def)
  ultimately show ?thesis unfolding dlist_def by (simp only: simp_thms)
qed

lemma list_delete_node_gap:
  assumes d: "dlist h lst (xs @ x # ys)"
  shows "\<exists>h'. list_delete_node x h = Inr h' \<and> dlist h' lst (xs @ ys)
           \<and> nxt (h' x) = 0 \<and> prv (h' x) = 0
           \<and> (\<forall>a. a \<notin> set (lst # xs @ x # ys) \<longrightarrow> h' a = h a)"
proof -
  obtain as p where s1: "lst # xs = as @ [p]" by (metis append_butlast_last_id list.distinct(1))
  obtain n bs where s2: "ys @ [lst] = n # bs" by (cases "ys @ [lst]") auto
  have d1: "dlist h lst ((xs @ [x]) @ ys)" and s1': "lst # xs @ [x] = (as @ [p]) @ [x]"
    using d s1 by simp_all
  have s2': "(x # ys) @ [lst] = x # n # bs" using s2 by simp
  note g = dlist_gap [OF d s1 s2'] and g' = dlist_gap [OF d1 s1' s2]
  have pn: "prv (h x) = p" "nxt (h x) = n" using g(5) g'(2) by simp_all
  have L: "lst # xs @ x # ys = as @ p # x # ys" using s1 by simp
  have R: "(xs @ x # ys) @ [lst] = xs @ x # n # bs" using s2 by simp
  have "distinct (lst # xs @ x # ys)" "distinct ((xs @ x # ys) @ [lst])"
    "0 \<notin> set (lst # xs @ x # ys)" "0 \<notin> set ((xs @ x # ys) @ [lst])"
    using d by (auto simp: dlist_def)
  then have dist: "distinct (as @ p # x # ys)" "distinct (xs @ x # n # bs)"
    and nz: "0 \<notin> set (as @ p # x # ys)" "0 \<notin> set (xs @ x # n # bs)" unfolding L R by blast+
  then have pn0: "p \<noteq> 0" "n \<noteq> 0" by auto
  define h' where "h' = set_prev x 0 (set_next x 0 (set_prev n p (set_next p n h)))"
  have res: "list_delete_node x h = Inr h'"
    using pn0 by (simp add: list_delete_node_def list_delete_def pn h'_def)
  have "map (\<lambda>a. nxt (h' a)) as = map (\<lambda>a. nxt (h a)) as"
    "map (\<lambda>a. nxt (h' a)) ys = map (\<lambda>a. nxt (h a)) ys" "nxt (h' p) = n"
    using dist by (auto simp: h'_def)
  then have "map (\<lambda>a. nxt (h' a)) (as @ p # ys) = xs @ n # bs"
    by (simp only: g(1) g'(3) list.map map_append)
  moreover have "map (\<lambda>a. prv (h' a)) xs = map (\<lambda>a. prv (h a)) xs"
    "map (\<lambda>a. prv (h' a)) bs = map (\<lambda>a. prv (h a)) bs" "prv (h' n) = p"
    using dist by (auto simp: h'_def)
  then have "map (\<lambda>a. prv (h' a)) (xs @ n # bs) = as @ p # ys"
    by (simp only: g(4) g'(6) list.map map_append)
  moreover have "lst # xs @ ys = as @ p # ys" "(xs @ ys) @ [lst] = xs @ n # bs"
    using s1 s2 by simp_all
  moreover have "distinct (lst # xs @ ys)" "0 \<notin> set (lst # xs @ ys)"
    using d by (auto simp: dlist_def)
  ultimately have "dlist h' lst (xs @ ys)" unfolding dlist_def by (simp only: simp_thms)
  moreover have "nxt (h' x) = 0" "prv (h' x) = 0" by (simp_all add: h'_def)
  moreover have "h' a = h a" if "a \<notin> set (lst # xs @ x # ys)" for a
  proof -
    have "p \<in> set (as @ [p])" "n \<in> set (n # bs)" by simp_all
    then have "p \<in> set (lst # xs)" "n \<in> set (ys @ [lst])" unfolding s1 s2 by blast+
    then have "a \<noteq> p" "a \<noteq> n" "a \<noteq> x" using that by auto
    then show ?thesis by (simp add: h'_def set_prev_def set_next_def)
  qed
  ultimately show ?thesis using res by blast
qed

subsection \<open>The operations on the abstract list\<close>

lemma dlist_nxt: "dlist h lst xs \<Longrightarrow> nxt (h lst) = hd (xs @ [lst])"
  by (cases xs) (auto simp: dlist_def)

lemma dlist_prv: "dlist h lst xs \<Longrightarrow> prv (h lst) = last (lst # xs)"
  by (cases xs rule: rev_cases) (auto simp: dlist_def)

lemma dlist_empty_iff: "dlist h lst xs \<Longrightarrow> nxt (h lst) = lst \<longleftrightarrow> xs = []"
  by (cases xs) (auto simp: dlist_def)

lemma list_add_first_dlist:
  assumes "dlist h lst xs" and "new \<noteq> 0" "new \<noteq> lst" "new \<notin> set xs"
  shows "dlist (list_add_first new lst h) lst (new # xs)"
proof -
  obtain n bs where s: "xs @ [lst] = n # bs" by (cases "xs @ [lst]") auto
  then have "nxt (h lst) = n" using dlist_nxt [OF assms(1)] by simp
  moreover have "dlist (list_add new lst n h) lst ([] @ new # xs)"
    using assms s by (intro list_add_gap [where as = "[]" and bs = bs]) auto
  ultimately show ?thesis by (simp add: list_add_first_def)
qed

lemma list_add_before_dlist:
  assumes "dlist h lst (xs @ ys)" and "n = hd (ys @ [lst])"
    and "new \<noteq> 0" "new \<noteq> lst" "new \<notin> set (xs @ ys)"
  shows "dlist (list_add_before new n h) lst (xs @ new # ys)"
proof -
  obtain as p where s1: "lst # xs = as @ [p]" by (metis append_butlast_last_id list.distinct(1))
  obtain bs where s2: "ys @ [lst] = n # bs" using assms(2) by (cases "ys @ [lst]") auto
  have "prv (h n) = p" by (rule dlist_gap(5) [OF assms(1) s1 s2])
  then show ?thesis
    using list_add_gap [OF assms(1) s1 s2 assms(3-5)] by (simp add: list_add_before_def)
qed

lemma list_add_last_dlist:
  assumes "dlist h lst xs" and "new \<noteq> 0" "new \<noteq> lst" "new \<notin> set xs"
  shows "dlist (list_add_last new lst h) lst (xs @ [new])"
  using list_add_before_dlist [of h lst xs "[]" lst new] assms
  by (simp add: list_add_before_def list_add_last_def)

lemma list_delete_node_dlist:
  assumes "dlist h lst xs" and "x \<in> set xs"
  shows "\<exists>h'. list_delete_node x h = Inr h' \<and> dlist h' lst (remove1 x xs)
           \<and> nxt (h' x) = 0 \<and> prv (h' x) = 0 \<and> (\<forall>a. a \<notin> set (lst # xs) \<longrightarrow> h' a = h a)"
proof -
  have "distinct xs" using assms(1) by (simp add: dlist_def)
  with assms(2) obtain ys zs where "xs = ys @ x # zs" "x \<notin> set ys" "x \<notin> set zs"
    by (rule split_at_member)
  then show ?thesis using list_delete_node_gap [of h lst ys x zs] assms(1)
    by (simp add: remove1_split)
qed

lemma list_delete_first_dlist:
  assumes "dlist h lst xs"
  shows "\<exists>h'. list_delete_first lst h = Inr h' \<and> dlist h' lst (tl xs)"
proof (cases xs)
  case (Cons x ys)
  then show ?thesis
    using assms dlist_nxt [OF assms] list_delete_node_dlist [OF assms, of x] dlist_empty_iff [OF assms]
    by (auto simp: list_delete_first_def)
qed (use assms dlist_empty_iff [OF assms] in \<open>auto simp: list_delete_first_def\<close>)

lemma list_delete_last_dlist:
  assumes "dlist h lst xs"
  shows "\<exists>h'. list_delete_last lst h = Inr h' \<and> dlist h' lst (butlast xs)"
proof (cases xs rule: rev_cases)
  case (snoc ys x)
  moreover have "dlist h lst (ys @ x # [])" using assms snoc by simp
  note list_delete_node_gap [OF this]
  ultimately show ?thesis
    using assms dlist_prv [OF assms] dlist_empty_iff [OF assms]
    by (auto simp: list_delete_last_def)
qed (use assms dlist_empty_iff [OF assms] in \<open>auto simp: list_delete_last_def\<close>)

lemma list_is_empty_dlist: "dlist h lst xs \<Longrightarrow> list_is_empty lst h \<longleftrightarrow> xs = []"
  by (simp add: list_is_empty_def dlist_empty_iff)

lemma list_get_first_dlist: "dlist h lst xs \<Longrightarrow> xs \<noteq> [] \<Longrightarrow> list_get_first lst h = hd xs"
  by (cases xs) (auto simp: list_get_first_def dlist_def)

lemma list_get_last_dlist: "dlist h lst xs \<Longrightarrow> xs \<noteq> [] \<Longrightarrow> list_get_last lst h = last xs"
  using dlist_prv [of h lst xs] by (simp add: list_get_last_def)

lemma iterate_size_chain:
  "map (\<lambda>p. nxt (h p)) xs = tl (xs @ [lst]) \<Longrightarrow> lst \<notin> set xs \<Longrightarrow>
     list_iterate_size (hd (xs @ [lst])) lst n h = Some (n + of_nat (length xs))"
proof (induction xs arbitrary: n)
  case (Cons x xs)
  have e: "nxt (h x) # map (\<lambda>p. nxt (h p)) xs = xs @ [lst]" using Cons.prems(1) by simp
  then have "map (\<lambda>p. nxt (h p)) xs = tl (xs @ [lst])" "nxt (h x) = hd (xs @ [lst])"
    by (metis list.sel(3), metis list.sel(1))
  moreover have "list_iterate_size (hd (xs @ [lst])) lst (n + 1) h = Some (n + 1 + of_nat (length xs))"
    using Cons.prems(2) calculation(1) by (intro Cons.IH) auto
  ultimately show ?case
    using Cons.prems(2) by (subst list_iterate_size.simps) (auto simp: add.assoc)
qed (subst list_iterate_size.simps, simp)

lemma list_get_size_dlist:
  assumes "dlist h lst xs"
  shows "list_get_size lst h = Some (of_nat (length xs))"
proof -
  have "nxt (h lst) # map (\<lambda>p. nxt (h p)) xs = xs @ [lst]" and l: "lst \<notin> set xs"
    using assms by (auto simp: dlist_def)
  then have "map (\<lambda>p. nxt (h p)) xs = tl (xs @ [lst])" by (metis list.sel(3))
  then show ?thesis
    using iterate_size_chain [OF _ l, of h 0] dlist_nxt [OF assms] by (simp add: list_get_size_def)
qed

text \<open>Inserting touches the new node and the ring only, so other rings are untouched.\<close>

lemma list_add_frame: "a \<notin> {new, p, n} \<Longrightarrow> list_add new p n h a = h a"
  by (simp add: list_add_def set_next_def set_prev_def)

lemma list_add_last_frame:
  assumes "dlist h lst xs" and "a \<notin> insert new (set (lst # xs))"
  shows "list_add_last new lst h a = h a"
proof -
  have "prv (h lst) \<in> set (lst # xs)" using dlist_prv [OF assms(1)] by (metis last_in_set list.distinct(1))
  then show ?thesis using assms(2) by (simp add: list_add_last_def) (rule list_add_frame, auto)
qed

text \<open>\<^verbatim>\<open>list_merge\<close> puts the nodes of \<open>src\<close> in front of those of \<open>dest\<close>.\<close>

lemma list_merge_dlist:
  assumes "dlist h src xs" and "dlist h dest ys" and "set (src # xs) \<inter> set (dest # ys) = {}"
  shows "dlist (list_merge src dest h) dest (xs @ ys)"
proof (cases xs rule: rev_cases)
  case Nil
  then have "nxt (h src) = src" "prv (h src) = src" using assms(1) by (auto simp: dlist_def)
  then have "list_merge src dest h a = h a" if "a \<in> set (dest # ys)" for a
    using that assms(2,3) unfolding list_merge_def Let_def
    by (cases ys) (auto simp: dlist_def set_next_def set_prev_def)
  then show ?thesis using assms(2) Nil dlist_frame by simp
next
  case (snoc ws w)
  let ?h = "list_merge src dest h"
  obtain n bs where s: "ys @ [dest] = n # bs" by (cases "ys @ [dest]") auto
  have "xs \<noteq> []" using snoc by simp
  then obtain z zs where z: "xs = z # zs" by (cases xs) auto
  have d: "nxt (h dest) = n" "prv (h n) = dest" "map (\<lambda>p. nxt (h p)) ys = bs"
    "map (\<lambda>p. prv (h p)) bs = ys"
    using dlist_gap [of h dest "[]" ys "[]" dest n bs] assms(2) s by simp_all
  have "nxt (h src) # map (\<lambda>p. nxt (h p)) (ws @ [w]) = (z # zs) @ [src]"
    "map (\<lambda>p. prv (h p)) ((z # zs) @ [src]) = src # ws @ [w]"
    using assms(1) unfolding dlist_def snoc [symmetric] z by simp_all
  then have sr: "nxt (h src) = z" "prv (h src) = w" "map (\<lambda>p. nxt (h p)) ws = zs"
    "map (\<lambda>p. prv (h p)) zs = ws"
    by simp_all
  have "distinct (src # ws @ [w])" "distinct (src # z # zs)" "distinct (dest # ys)"
    "distinct (ys @ [dest])" "set (src # ws @ [w]) \<inter> set (dest # ys) = {}"
    "set (src # z # zs) \<inter> set (dest # ys) = {}"
    using assms unfolding dlist_def snoc [symmetric] z [symmetric] by auto
  moreover have "set (n # bs) = set (dest # ys)" unfolding s [symmetric] by simp
  ultimately have dist: "distinct (src # ws @ [w])" "distinct (src # z # zs)" "distinct (dest # ys)"
    "distinct (n # bs)" "set (src # ws @ [w]) \<inter> set (dest # ys) = {}"
    "set (src # z # zs) \<inter> set (n # bs) = {}" "set (src # z # zs) \<inter> set (dest # ys) = {}"
    "set (src # ws @ [w]) \<inter> set (n # bs) = {}"
    unfolding s by simp_all
  have h: "?h = set_prev z dest (set_next dest z (set_prev n w (set_next w n h)))"
    using d sr dist by (auto simp: list_merge_def Let_def)
  have "map (\<lambda>p. nxt (?h p)) ws = map (\<lambda>p. nxt (h p)) ws" "nxt (?h w) = n" "nxt (?h dest) = z"
    "map (\<lambda>p. nxt (?h p)) ys = map (\<lambda>p. nxt (h p)) ys"
    unfolding h using dist by auto
  then have "map (\<lambda>p. nxt (?h p)) (dest # (ws @ [w]) @ ys) = (z # zs) @ n # bs"
    by (simp only: d sr list.map map_append append_Cons append_Nil append_assoc)
  moreover have "map (\<lambda>p. prv (?h p)) zs = map (\<lambda>p. prv (h p)) zs" "prv (?h n) = w"
    "prv (?h z) = dest" "map (\<lambda>p. prv (?h p)) bs = map (\<lambda>p. prv (h p)) bs"
    unfolding h using dist by auto
  then have "map (\<lambda>p. prv (?h p)) ((z # zs) @ n # bs) = dest # (ws @ [w]) @ ys"
    by (simp only: d sr list.map map_append append_Cons append_Nil append_assoc)
  moreover have "(xs @ ys) @ [dest] = xs @ n # bs" using s by simp
  moreover have "distinct (dest # xs @ ys)" "0 \<notin> set (dest # xs @ ys)"
    using assms by (auto simp: dlist_def)
  ultimately show ?thesis
    unfolding dlist_def z [symmetric] snoc [symmetric] by (simp only: simp_thms)
qed

subsection \<open>The contract of the queues\<close>

text \<open>
  What a client of a queue relies on. \<open>rep h l xs\<close>: queue \<open>l\<close> of the state \<open>h\<close> holds \<open>xs\<close>;
  \<open>fresh l x\<close>: \<open>x\<close> may be a node of queue \<open>l\<close>.
\<close>

locale node_queue =
  fixes rep :: "'h \<Rightarrow> 'n \<Rightarrow> 'n list \<Rightarrow> bool"
    and fresh :: "'n \<Rightarrow> 'n \<Rightarrow> bool"
    and init :: "'n \<Rightarrow> 'h \<Rightarrow> 'h"
    and add_first :: "'n \<Rightarrow> 'n \<Rightarrow> 'h \<Rightarrow> 'h"
    and add_last :: "'n \<Rightarrow> 'n \<Rightarrow> 'h \<Rightarrow> 'h"
    and delete_node :: "'n \<Rightarrow> 'h \<Rightarrow> 'h res"
    and delete_first :: "'n \<Rightarrow> 'h \<Rightarrow> 'h res"
    and is_empty :: "'n \<Rightarrow> 'h \<Rightarrow> bool"
    and get_first :: "'n \<Rightarrow> 'h \<Rightarrow> 'n"
  assumes rep_distinct: "rep h l xs \<Longrightarrow> distinct xs"
    and rep_fresh: "rep h l xs \<Longrightarrow> x \<in> set xs \<Longrightarrow> fresh l x"
    and init_rep: "fresh x l \<Longrightarrow> rep (init l h) l []"
    and add_first_rep: "rep h l xs \<Longrightarrow> fresh l x \<Longrightarrow> x \<notin> set xs \<Longrightarrow> rep (add_first x l h) l (x # xs)"
    and add_last_rep: "rep h l xs \<Longrightarrow> fresh l x \<Longrightarrow> x \<notin> set xs \<Longrightarrow> rep (add_last x l h) l (xs @ [x])"
    and delete_node_rep:
      "rep h l xs \<Longrightarrow> x \<in> set xs \<Longrightarrow> \<exists>h'. delete_node x h = Inr h' \<and> rep h' l (remove1 x xs)"
    and delete_first_rep: "rep h l xs \<Longrightarrow> \<exists>h'. delete_first l h = Inr h' \<and> rep h' l (tl xs)"
    and is_empty_rep: "rep h l xs \<Longrightarrow> is_empty l h \<longleftrightarrow> xs = []"
    and get_first_rep: "rep h l xs \<Longrightarrow> xs \<noteq> [] \<Longrightarrow> get_first l h = hd xs"
begin

text \<open>Moving a queued node to the end: what the round robin classes do after a time slice.\<close>

lemma requeue:
  assumes "rep h l xs" and "x \<in> set xs"
  shows "\<exists>h'. res_bind (delete_node x h) (\<lambda>h1. Inr (add_last x l h1)) = Inr h' \<and>
           rep h' l (remove1 x xs @ [x])"
proof -
  obtain h1 where h1: "delete_node x h = Inr h1" "rep h1 l (remove1 x xs)"
    using delete_node_rep [OF assms] by blast
  moreover have "x \<notin> set (remove1 x xs)" using rep_distinct [OF assms(1)] by simp
  ultimately have "rep (add_last x l h1) l (remove1 x xs @ [x])"
    using rep_fresh [OF assms] by (intro add_last_rep)
  then show ?thesis using h1(1) by simp
qed

text \<open>Taking the first node and putting it back in front changes nothing.\<close>

lemma pop_push:
  assumes "rep h l xs" and "\<not> is_empty l h"
  shows "\<exists>h'. res_bind (delete_first l h) (\<lambda>h1. Inr (add_first (get_first l h) l h1)) = Inr h' \<and>
           rep h' l xs"
proof -
  have ne: "xs \<noteq> []" using assms is_empty_rep by blast
  then obtain x ys where xs: "xs = x # ys" by (cases xs) auto
  obtain h1 where h1: "delete_first l h = Inr h1" "rep h1 l ys"
    using delete_first_rep [OF assms(1)] xs by auto
  moreover have "get_first l h = x" using get_first_rep [OF assms(1) ne] xs by simp
  moreover have "rep (add_first x l h1) l (x # ys)"
    using h1(2) rep_fresh [OF assms(1)] rep_distinct [OF assms(1)] xs by (intro add_first_rep) auto
  ultimately show ?thesis using xs by simp
qed

text \<open>A node added last is reached after exactly the nodes queued before it.\<close>

lemma add_last_behind:
  assumes "rep h l xs" and "fresh l x" and "x \<notin> set xs" and "xs \<noteq> []"
  shows "get_first l (add_last x l h) = get_first l h"
  using add_last_rep [OF assms(1-3)] assms(4) get_first_rep [OF assms(1)]
    get_first_rep [of "add_last x l h" l "xs @ [x]"] by simp

end

interpretation kq: node_queue dlist "\<lambda>l x. x \<noteq> 0 \<and> x \<noteq> l" list_init list_add_first list_add_last
  list_delete_node list_delete_first list_is_empty list_get_first
proof unfold_locales
  show "dlist h l xs \<Longrightarrow> distinct xs" for h l xs by (simp add: dlist_def)
  show "dlist h l xs \<Longrightarrow> x \<in> set xs \<Longrightarrow> x \<noteq> 0 \<and> x \<noteq> l" for h l xs x by (auto simp: dlist_def)
  show "l \<noteq> 0 \<and> l \<noteq> x \<Longrightarrow> dlist (list_init l h) l []" for l x h
    by (simp add: dlist_init)
  show "dlist h l xs \<Longrightarrow> x \<noteq> 0 \<and> x \<noteq> l \<Longrightarrow> x \<notin> set xs \<Longrightarrow>
      dlist (list_add_first x l h) l (x # xs)" for h l xs x
    by (simp add: list_add_first_dlist)
  show "dlist h l xs \<Longrightarrow> x \<noteq> 0 \<and> x \<noteq> l \<Longrightarrow> x \<notin> set xs \<Longrightarrow>
      dlist (list_add_last x l h) l (xs @ [x])" for h l xs x
    by (simp add: list_add_last_dlist)
  show "dlist h l xs \<Longrightarrow> x \<in> set xs \<Longrightarrow>
      \<exists>h'. list_delete_node x h = Inr h' \<and> dlist h' l (remove1 x xs)" for h l xs x
    using list_delete_node_dlist by blast
  show "dlist h l xs \<Longrightarrow> \<exists>h'. list_delete_first l h = Inr h' \<and> dlist h' l (tl xs)" for h l xs
    by (rule list_delete_first_dlist)
  show "dlist h l xs \<Longrightarrow> list_is_empty l h \<longleftrightarrow> xs = []" for h l xs
    by (rule list_is_empty_dlist)
  show "dlist h l xs \<Longrightarrow> xs \<noteq> [] \<Longrightarrow> list_get_first l h = hd xs" for h l xs
    by (rule list_get_first_dlist)
qed

subsection \<open>Sequences of operations\<close>

lemma insert_before_split: "y \<notin> set xs \<Longrightarrow> insert_before x y (xs @ y # ys) = xs @ x # y # ys"
  by (induction xs) auto

lemma insert_before_notin: "y \<notin> set xs \<Longrightarrow> insert_before x y xs = xs @ [x]"
  by (induction xs) auto

lemma list_add_before_member:
  assumes d: "dlist h l xs" and "x \<noteq> 0" "x \<noteq> l" "x \<notin> set xs" and y: "y = l \<or> y \<in> set xs"
  shows "dlist (list_add_before x y h) l (insert_before x y xs)"
proof (cases "y \<in> set xs")
  case True
  moreover have dist: "distinct xs" "l \<notin> set xs" using d by (auto simp: dlist_def)
  ultimately obtain us vs where "xs = us @ y # vs" "y \<notin> set us" by (metis split_at_member)
  then show ?thesis
    using list_add_before_dlist [of h l us "y # vs" y x] assms by (simp add: insert_before_split)
next
  case False
  then show ?thesis
    using list_add_before_dlist [of h l xs "[]" l x] assms by (simp add: insert_before_notin)
qed

lemma exec_op_dlist:
  assumes "dlist h l xs" and "op_ok l a xs"
  shows "\<exists>h'. exec_op l a h = Inr h' \<and> dlist h' l (spec_op a xs)"
  using assms list_delete_node_dlist [OF assms(1)] list_delete_first_dlist [OF assms(1)]
    list_delete_last_dlist [OF assms(1)]
  by (cases a) (auto simp: list_add_first_dlist list_add_last_dlist list_add_before_member)

lemma exec_ops_dlist:
  "dlist h l xs \<Longrightarrow> ops_ok l as xs \<Longrightarrow>
     \<exists>h'. exec_ops l as h = Inr h' \<and> dlist h' l (foldl (\<lambda>xs a. spec_op a xs) xs as)"
proof (induction as arbitrary: h xs)
  case (Cons a as)
  then obtain h1 where "exec_op l a h = Inr h1" "dlist h1 l (spec_op a xs)"
    using exec_op_dlist [of h l xs a] by auto
  then show ?case using Cons.IH [of h1 "spec_op a xs"] Cons.prems(2) by simp
qed simp

text \<open>A node taken off a list cannot be taken off again: its pointers are null.\<close>

lemma delete_twice:
  assumes "dlist h l xs" and "x \<in> set xs"
  shows "res_bind (list_delete_node x h) (list_delete_node x) = Inl NullPointer"
proof -
  obtain h' where "list_delete_node x h = Inr h'" "nxt (h' x) = 0" "prv (h' x) = 0"
    using list_delete_node_dlist [OF assms] by blast
  then show ?thesis by (simp add: list_delete_node_def [of x h'] list_delete_def)
qed

subsection \<open>Properties\<close>

text \<open>C9. Any sequence of the list operations, run on the heap from a ring that holds \<open>xs\<close>,
  dereferences no null pointer and leaves a ring that holds what the list operations give.\<close>

theorem list_operations_refine:
  assumes "dlist h l xs" and "ops_ok l as xs"
  shows "\<exists>h'. exec_ops l as h = Inr h' \<and> dlist h' l (foldl (\<lambda>xs a. spec_op a xs) xs as)"
  using exec_ops_dlist [OF assms] .

theorem list_operations_refine_witness:
  "\<exists>h'. exec_ops 1 [AddLast 2, AddFirst 3, AddBefore 4 2, DeleteNode 3] 
       (list_init 1 (\<lambda>_. \<lparr>nxt = 0, prv = 0\<rparr>)) = Inr h' \<and> dlist h' 1 [4, 2]"
  using list_operations_refine [OF dlist_init, of 1 "[AddLast 2, AddFirst 3, AddBefore 4 2, DeleteNode 3]"]
  by simp

text \<open>\<^verbatim>\<open>list_merge\<close> puts the nodes of \<open>src\<close>, in order, in front of those of \<open>dest\<close>, also
  when either list is empty; \<^verbatim>\<open>list_get_size\<close> then returns the sum of the two sizes.\<close>

theorem list_merge_correct:
  assumes "dlist h src xs" and "dlist h dest ys" and "set (src # xs) \<inter> set (dest # ys) = {}"
  shows "dlist (list_merge src dest h) dest (xs @ ys) \<and>
     list_get_size dest (list_merge src dest h) = Some (of_nat (length xs + length ys))"
  using list_merge_dlist [OF assms] list_get_size_dlist [of "list_merge src dest h" dest "xs @ ys"]
  by simp

theorem list_merge_correct_witness:
  "\<exists>h. dlist (list_merge 1 2 h) 2 [3]"
proof -
  let ?h = "list_add_last 3 1 (list_init 1 (list_init 2 (\<lambda>_. \<lparr>nxt = 0, prv = 0\<rparr>)))"
  have "dlist ?h 1 [3]"
    using list_add_last_dlist [OF dlist_init, of 1 3] by simp
  moreover have "dlist ?h 2 []"
    by (simp add: dlist_def list_add_last_def list_add_def list_init_def)
  ultimately show ?thesis using list_merge_correct [of ?h 1 "[3]" 2 "[]"] by auto
qed

end
