(* ===== verification/Pid.thy ===== *)
theory Pid
  imports Align
begin

text \<open>
  \<^verbatim>\<open>kernel/pid.c\<close>: process ids from a recursive bitmap of two levels. Word 0 of the table
  says which of the words 1 to 32 still have a set (free) bit; bit \<open>b\<close> of word \<open>w + 1\<close>
  stands for the id \<open>32 * w + b\<close>.
\<close>

subsection \<open>Definitions\<close>

type_synonym pid_table = "u32 list"

definition PID_LEVELS :: nat where
  "PID_LEVELS = 2"

definition pid_size :: nat where
  "pid_size = (32 ^ PID_LEVELS - 1) div 31"

definition pid_init :: pid_table where
  "pid_init = replicate pid_size 0xFFFFFFFF"

text \<open>
  The walk of \<^verbatim>\<open>alloc_pid\<close> down the levels: level \<open>i\<close> of \<open>PID_LEVELS\<close>, with the loop's
  \<^verbatim>\<open>pow\<close>, \<^verbatim>\<open>new_pid\<close>, \<^verbatim>\<open>curr_index\<close> and \<^verbatim>\<open>bit\<close>. \<open>None\<close> is the early return of \<^verbatim>\<open>-ENOPID\<close>.
\<close>

fun alloc_walk :: "nat \<Rightarrow> nat \<Rightarrow> pid_table \<Rightarrow> u32 \<Rightarrow> u32 \<Rightarrow> u32 \<Rightarrow> u8
    \<Rightarrow> (u32 \<times> u32 \<times> u8) option res" where
  "alloc_walk 0 i table pow new_pid curr_index b = Inr (Some (new_pid, curr_index, b))"
| "alloc_walk (Suc n) i table pow new_pid curr_index b =
     res_bind (read_at table (unat curr_index)) (\<lambda>w.
       let b' = (of_nat (ctz w) :: u8) in
       if b' = 32 \<and> i = 0 then Inr None
       else alloc_walk n (i + 1) table (drop_bit 5 pow) (new_pid + pow * ucast b')
              (if i < PID_LEVELS - 1 then 1 + push_bit 5 curr_index + ucast b' else curr_index) b')"

text \<open>The loop that marks full words in their parents.\<close>

fun alloc_mark :: "nat \<Rightarrow> pid_table \<Rightarrow> u32 \<Rightarrow> pid_table res" where
  "alloc_mark 0 table curr_index = Inr table"
| "alloc_mark (Suc n) table curr_index =
     (let b = ucast ((curr_index - 1) AND 0xFFFFF) :: u8; ci = drop_bit 5 (curr_index - 1) in
      res_bind (read_at table (unat ci)) (\<lambda>w.
        let w' = w AND NOT (shl_one (ucast b)) in
        res_bind (write_at table (unat ci) w') (\<lambda>table'.
          if ctz w' < 32 then Inr table' else alloc_mark n table' ci)))"

text \<open>\<open>None\<close> for \<^verbatim>\<open>-ENOPID\<close>, otherwise the id stored through the pointer.\<close>

definition alloc_pid :: "pid_table \<Rightarrow> (u32 option \<times> pid_table) res" where
  "alloc_pid table =
     res_bind (alloc_walk PID_LEVELS 0 table (32 ^ (PID_LEVELS - 1)) 0 0 0) (\<lambda>r.
       case r of
         None \<Rightarrow> Inr (None, table)
       | Some (new_pid, curr_index, b) \<Rightarrow>
           res_bind (read_at table (unat curr_index)) (\<lambda>w.
           res_bind (write_at table (unat curr_index) (w AND NOT (shl_one (ucast b)))) (\<lambda>table'.
           res_bind (if b = 31 then alloc_mark (PID_LEVELS - 1) table' curr_index
                     else Inr table') (\<lambda>table''.
           Inr (Some new_pid, table'')))))"

definition alloc_pid_code :: "u32 option \<Rightarrow> int" where
  "alloc_pid_code r = (case r of None \<Rightarrow> - ENOPID | Some _ \<Rightarrow> 0)"

fun free_mark :: "nat \<Rightarrow> pid_table \<Rightarrow> u32 \<Rightarrow> u32 \<Rightarrow> pid_table res" where
  "free_mark 0 table index b = Inr table"
| "free_mark (Suc n) table index b =
     res_bind (read_at table (unat index)) (\<lambda>reg.
     res_bind (write_at table (unat index) (reg OR shl_one b)) (\<lambda>table'.
       if reg \<noteq> 0 then Inr table'
       else free_mark n table' (drop_bit 5 (index - 1)) ((index - 1) AND 0xFFFFF)))"

definition free_pid :: "u32 \<Rightarrow> pid_table \<Rightarrow> pid_table res" where
  "free_pid pid table =
     (let index = (32 ^ (PID_LEVELS - 1) - 1) div 31 + drop_bit 5 pid;
          b = pid AND 0xFFFFF in
      res_bind (read_at table (unat index)) (\<lambda>w.
        if w AND shl_one b \<noteq> 0 then Inl (Panic ''PID allocator failure'')
        else free_mark PID_LEVELS table index b))"

text \<open>Vocabulary of the theorems: the id \<open>q\<close> is free, and a table whose parents are honest.\<close>

definition pid_free :: "pid_table \<Rightarrow> nat \<Rightarrow> bool" where
  "pid_free table q \<longleftrightarrow> bit (table ! Suc (q div 32)) (q mod 32)"

definition pid_inv :: "pid_table \<Rightarrow> bool" where
  "pid_inv table \<longleftrightarrow>
     length table = 33 \<and> (\<forall>b < 32. bit (table ! 0) b \<longrightarrow> table ! Suc b \<noteq> 0)"

fun alloc_pids :: "nat \<Rightarrow> pid_table \<Rightarrow> (u32 option list \<times> pid_table) res" where
  "alloc_pids 0 table = Inr ([], table)"
| "alloc_pids (Suc n) table =
     res_bind (alloc_pid table) (\<lambda>(p, table').
     res_bind (alloc_pids n table') (\<lambda>(ps, table''). Inr (p # ps, table'')))"

subsection \<open>Allocation in a honest table\<close>

lemma pid_size_33: "pid_size = 33"
  by (simp add: pid_size_def PID_LEVELS_def)

lemma ctz_u8: "unat (of_nat (ctz w) :: u8) = ctz w"
  using ctz_le [of w] by (simp add: unat_of_nat)

lemma ctz_u8_32: "(of_nat (ctz w) :: u8) = 32 \<longleftrightarrow> w = 0"
proof -
  have "(of_nat (ctz w) :: u8) = 32 \<longleftrightarrow> ctz w = 32"
    using ctz_u8 [of w] by (auto simp: word_unat_eq_iff)
  then show ?thesis using ctz_less_iff [of w] ctz_le [of w] by auto
qed

lemma ctz_u8_31: "(of_nat (ctz w) :: u8) = 31 \<longleftrightarrow> ctz w = 31"
  using ctz_u8 [of w] by (auto simp: word_unat_eq_iff)

lemma ucast_ctz: "(ucast (of_nat (ctz w) :: u8) :: u32) = of_nat (ctz w)"
  using ctz_u8 [of w] ctz_le [of w]
  by (simp add: word_unat_eq_iff unsigned_ucast_eq unsigned_take_bit_eq unat_of_nat
      take_bit_nat_eq_self)

definition clr :: "u32 \<Rightarrow> nat \<Rightarrow> u32" where
  "clr w b = w AND NOT (shl_one (of_nat b))"

lemma bit_clr: "b \<le> 32 \<Longrightarrow> bit (clr w b) k \<longleftrightarrow> bit w k \<and> k \<noteq> b"
  using bit_u32_bound [of w k] by (auto simp: clr_def bit_and_iff bit_not_iff bit_shl_one unat_of_nat)

lemma child_index:
  assumes "a < 32"
  shows "unat (1 + push_bit 5 0 + of_nat a :: u32) = Suc a"
    and "drop_bit 5 (of_nat a :: u32) = 0" and "(of_nat a :: u32) AND 0xFFFFF = of_nat a"
proof -
  show "unat (1 + push_bit 5 0 + of_nat a :: u32) = Suc a"
    using assms by (simp add: unat_word_ariths unat_of_nat)
  have "unat (drop_bit 5 (of_nat a :: u32)) = 0"
    using assms by (simp add: unat_drop_bit unat_of_nat)
  then show "drop_bit 5 (of_nat a :: u32) = 0" by (simp only: unat_eq_zero)
  have "(0xFFFFF :: u32) = mask 20" by (simp add: mask_eq_exp_minus_1)
  then have "unat ((of_nat a :: u32) AND 0xFFFFF) = a"
    using assms by (simp only: unat_and_mask) (simp add: unat_of_nat)
  then show "(of_nat a :: u32) AND 0xFFFFF = of_nat a"
    using assms by (simp add: word_unat_eq_iff unat_of_nat)
qed

definition alloc_closed :: "pid_table \<Rightarrow> u32 option \<times> pid_table" where
  "alloc_closed t =
     (let a = ctz (t ! 0); c = ctz (t ! Suc a); t' = t[Suc a := clr (t ! Suc a) c]
      in if t ! 0 = 0 then (None, t)
         else (Some (of_nat (32 * a + c)), if c = 31 then t'[0 := clr (t ! 0) a] else t'))"

lemma alloc_mark_one:
  assumes "length t = 33" and "a < 32"
  shows "alloc_mark 1 t (1 + push_bit 5 0 + of_nat a) = Inr (t[0 := clr (t ! 0) a])"
proof -
  have "(1 + push_bit 5 0 + of_nat a :: u32) - 1 = of_nat a" by simp
  moreover have "(ucast (ucast (of_nat a :: u32) :: u8) :: u32) = of_nat a"
    using assms(2)
    by (simp add: word_unat_eq_iff unsigned_ucast_eq unsigned_take_bit_eq unat_of_nat
        take_bit_nat_eq_self)
  ultimately show ?thesis
    using assms child_index [OF assms(2)]
    by (simp only: alloc_mark.simps One_nat_def Let_def) (simp add: clr_def)
qed

lemma PID_LEVELS_Suc: "PID_LEVELS = Suc (Suc 0)"
  by (simp add: PID_LEVELS_def)

lemma alloc_walk_closed:
  assumes "length t = 33"
  shows "alloc_walk PID_LEVELS 0 t (32 ^ (PID_LEVELS - 1)) 0 0 0 =
    Inr (let a = ctz (t ! 0); c = ctz (t ! Suc a)
         in if t ! 0 = 0 then None
            else Some (of_nat (32 * a + c), 1 + push_bit 5 0 + of_nat a, of_nat c))"
proof (cases "t ! 0 = 0")
  case True
  then show ?thesis using assms ctz_u8_32 [of "t ! 0"]
    by (simp add: PID_LEVELS_Suc Let_def)
next
  case False
  let ?a = "ctz (t ! 0)"
  have a: "?a < 32" using False ctz_less_iff by simp
  have p: "drop_bit 5 (32 :: u32) = 1" by simp
  show ?thesis
    using assms ctz_u8_32 [of "t ! 0"] False a child_index(1) [OF a]
    by (simp add: PID_LEVELS_Suc Let_def ucast_ctz p del: push_bit_of_0)
qed

lemma alloc_pid_closed:
  assumes "length t = 33"
  shows "alloc_pid t = Inr (alloc_closed t)"
proof (cases "t ! 0 = 0")
  case True
  then show ?thesis
    unfolding alloc_pid_def alloc_walk_closed [OF assms]
    by (simp add: alloc_closed_def Let_def)
next
  case False
  let ?a = "ctz (t ! 0)"
  have a: "?a < 32" using False ctz_less_iff by simp
  have l: "PID_LEVELS - 1 = 1" by (simp add: PID_LEVELS_def)
  have c31: "w AND NOT (shl_one 31) = clr w 31" for w by (simp add: clr_def)
  show ?thesis
    using assms False a child_index(1) [OF a]
    unfolding alloc_pid_def l alloc_walk_closed [OF assms, unfolded l]
    by (simp add: alloc_closed_def Let_def ucast_ctz ctz_u8_31 alloc_mark_one [unfolded One_nat_def]
        clr_def [symmetric] c31 del: push_bit_of_0 alloc_mark.simps)
qed

lemma unat_pid: "n < 1024 \<Longrightarrow> unat (of_nat n :: u32) = n"
  by (simp add: unat_of_nat)

lemma ctz_word: "w \<noteq> 0 \<Longrightarrow> bit w (ctz w) \<and> ctz w < 32"
  using ctz_less_iff [of w] ctz_eq_iff [of "ctz w" w] by blast

text \<open>What \<^verbatim>\<open>alloc_pid\<close> does in a table whose parents are honest.\<close>

lemma alloc_closed_spec:
  assumes inv: "pid_inv t" and r: "alloc_closed t = (r, t')"
  shows "r = None \<longleftrightarrow> t ! 0 = 0" and "length t' = 33"
    and "r = Some p \<Longrightarrow> unat p < 1024 \<and> pid_free t (unat p)"
    and "r = Some p \<Longrightarrow> q < 1024 \<Longrightarrow> pid_free t' q \<longleftrightarrow> pid_free t q \<and> q \<noteq> unat p"
    and "r = Some p \<Longrightarrow> q < unat p \<Longrightarrow> \<not> pid_free t q \<or> \<not> bit (t ! 0) (q div 32)"
proof -
  let ?a = "ctz (t ! 0)" and ?c = "ctz (t ! Suc (ctz (t ! 0)))"
  show "r = None \<longleftrightarrow> t ! 0 = 0" "length t' = 33"
    using inv r by (auto simp: alloc_closed_def Let_def pid_inv_def split: if_splits)
  assume p: "r = Some p"
  then have nz: "t ! 0 \<noteq> 0" using r by (auto simp: alloc_closed_def Let_def split: if_splits)
  then have a: "bit (t ! 0) ?a" "?a < 32" using ctz_word by blast+
  then have "t ! Suc ?a \<noteq> 0" using inv by (simp add: pid_inv_def)
  then have c: "bit (t ! Suc ?a) ?c" "?c < 32" using ctz_word by blast+
  have "p = of_nat (32 * ?a + ?c)"
    using p r nz by (simp add: alloc_closed_def Let_def split: if_splits)
  then have up: "unat p = 32 * ?a + ?c"
    using a c by (simp only:) (rule unat_pid, linarith)
  then have dm: "unat p div 32 = ?a" "unat p mod 32 = ?c" using c by simp_all
  show "unat p < 1024 \<and> pid_free t (unat p)"
    using up a c by (simp add: pid_free_def dm)
  have t': "t' ! Suc k = (if k = ?a then clr (t ! Suc ?a) ?c else t ! Suc k)" if "k < 32" for k
    using r nz that a inv by (auto simp: alloc_closed_def Let_def pid_inv_def nth_list_update
        split: if_splits)
  show "pid_free t' q \<longleftrightarrow> pid_free t q \<and> q \<noteq> unat p" if "q < 1024"
  proof -
    have "q = unat p \<longleftrightarrow> q div 32 = ?a \<and> q mod 32 = ?c"
      using dm by (metis div_mult_mod_eq)
    then show ?thesis
      using that c by (auto simp: pid_free_def t' bit_clr)
  qed
  show "\<not> pid_free t q \<or> \<not> bit (t ! 0) (q div 32)" if "q < unat p"
  proof (rule ccontr)
    assume "\<not> ?thesis"
    then have f: "bit (t ! Suc (q div 32)) (q mod 32)" "bit (t ! 0) (q div 32)"
      by (auto simp: pid_free_def)
    then have "?a \<le> q div 32" using ctz_eq_iff [of ?a "t ! 0"] a by (metis linorder_not_less)
    moreover have "q div 32 \<le> ?a" using that dm by (metis div_le_mono less_imp_le)
    ultimately have e: "q div 32 = ?a" by simp
    then have "?c \<le> q mod 32" using f ctz_eq_iff [of ?c "t ! Suc ?a"] c by (metis linorder_not_less)
    then have "unat p \<le> q" using e up by (metis div_mult_mod_eq add_le_mono le_refl mult.commute)
    then show False using that by simp
  qed
qed

subsection \<open>Allocation from a fresh table\<close>

text \<open>The table after \<open>n\<close> allocations.\<close>

definition pids_taken :: "nat \<Rightarrow> pid_table" where
  "pids_taken n =
     NOT (mask (n div 32)) #
     map (\<lambda>w. if w < n div 32 then 0 else if w = n div 32 then NOT (mask (n mod 32)) else - 1) [0..<32]"

lemma pids_taken_0: "pid_init = pids_taken 0"
proof (rule nth_equalityI)
  have "(0xFFFFFFFF :: u32) = - 1" by simp
  then show "i < length pid_init \<Longrightarrow> pid_init ! i = pids_taken 0 ! i" for i
    by (cases i) (auto simp: pid_init_def pids_taken_def pid_size_33)
qed (simp add: pid_init_def pids_taken_def pid_size_33)

lemma NOT_mask_32: "NOT (mask 32) = (0 :: u32)"
  by (rule word32_eqI) (simp add: bit_not_iff)

lemma clr_NOT_mask: "c < 32 \<Longrightarrow> clr (NOT (mask c)) c = NOT (mask (Suc c))"
  by (rule word32_eqI) (auto simp: bit_clr bit_not_iff)

lemma alloc_pids_taken:
  assumes "n < 1024"
  shows "alloc_pid (pids_taken n) = Inr (Some (of_nat n), pids_taken (Suc n))"
proof -
  let ?t = "pids_taken n" and ?a = "n div 32" and ?c = "n mod 32"
  have l: "length ?t = 33" by (simp add: pids_taken_def)
  have a: "?a < 32" and c: "?c < 32" using assms by auto
  have r: "?t ! 0 = NOT (mask ?a)" by (simp add: pids_taken_def)
  then have za: "ctz (?t ! 0) = ?a" using a by (simp add: ctz_not_mask)
  then have nz: "?t ! 0 \<noteq> 0" using a ctz_zero by (metis less_irrefl)
  have w: "?t ! Suc k = (if k < ?a then 0 else if k = ?a then NOT (mask ?c) else - 1)" if "k < 32" for k
    using that by (simp add: pids_taken_def)
  have zc: "ctz (?t ! Suc ?a) = ?c" using w [OF a] c by (simp add: ctz_not_mask)
  let ?u = "?t[Suc ?a := clr (?t ! Suc ?a) ?c]"
  have "(if ?c = 31 then ?u[0 := clr (?t ! 0) ?a] else ?u) = pids_taken (Suc n)" (is "?l = _")
  proof (rule nth_equalityI)
    show "length ?l = length (pids_taken (Suc n))" by (simp add: pids_taken_def)
    fix i assume i: "i < length ?l"
    show "?l ! i = pids_taken (Suc n) ! i"
    proof (cases i)
      case 0
      then show ?thesis using r a
        by (auto simp: clr_NOT_mask pids_taken_def div_Suc nth_list_update mod_Suc)
    next
      case (Suc k)
      then have k: "k < 32" using i l by (simp split: if_splits)
      have "?l ! i = (if k = ?a then NOT (mask (Suc ?c)) else ?t ! Suc k)"
        using Suc k l a c w by (auto simp: nth_list_update clr_NOT_mask)
      then show ?thesis using Suc k a w [OF k] NOT_mask_32
        by (auto simp: pids_taken_def div_Suc mod_Suc)
    qed
  qed
  moreover have "32 * ?a + ?c = n" by simp
  ultimately show ?thesis
    unfolding alloc_pid_closed [OF l] alloc_closed_def Let_def za zc by (simp only: nz if_False)
qed

lemma alloc_pids_from:
  "k + n \<le> 1024 \<Longrightarrow>
     alloc_pids n (pids_taken k) = Inr (map (Some \<circ> of_nat) [k..<k + n], pids_taken (k + n))"
proof (induction n arbitrary: k)
  case (Suc n)
  then show ?case
    using alloc_pids_taken [of k] Suc.IH [of "Suc k"] by (simp add: upt_conv_Cons del: upt_Suc)
qed simp

lemma alloc_pid_exhausted: "alloc_pid (pids_taken 1024) = Inr (None, pids_taken 1024)"
proof -
  have "pids_taken 1024 ! 0 = 0" "length (pids_taken 1024) = 33"
    using NOT_mask_32 by (simp_all add: pids_taken_def)
  then show ?thesis by (simp add: alloc_pid_closed alloc_closed_def Let_def)
qed

subsection \<open>Release\<close>

lemma free_index: "unat ((32 ^ (PID_LEVELS - 1) - 1) div 31 + drop_bit 5 p :: u32) = Suc (unat p div 32)"
proof -
  have "(32 ^ (PID_LEVELS - 1) - 1) div 31 = (1 :: u32)" by (simp add: PID_LEVELS_def)
  moreover have "unat (drop_bit 5 p) = unat p div 32" by (simp add: unat_drop_bit)
  moreover have "unat p div 32 < 4294967295" using u32_less_2p32 [of p] by linarith
  ultimately show ?thesis using unat_add_u32 [of 1 "drop_bit 5 p"] by simp
qed

lemma pid_mask: "unat (p :: u32) < 1048576 \<Longrightarrow> p AND 0xFFFFF = p"
proof -
  assume "unat p < 1048576"
  have m: "(0xFFFFF :: u32) = mask 20" by (simp add: mask_eq_exp_minus_1)
  have "unat (p AND 0xFFFFF) = unat p mod 2 ^ 20" unfolding m by (rule unat_and_mask)
  also have "\<dots> = unat p" using \<open>unat p < 1048576\<close> by simp
  finally have "unat (p AND 0xFFFFF) = unat p" .
  then show ?thesis by (simp add: word_unat_eq_iff)
qed

text \<open>
  Freeing an id below 32 right after its allocation restores the table, so the first word
  recycles its ids as intended.
\<close>

lemma or_shl_clr: "b < 32 \<Longrightarrow> bit w b \<Longrightarrow> clr w b OR shl_one (of_nat b) = w"
  by (rule word32_eqI) (auto simp: bit_or_iff bit_clr bit_shl_one unat_of_nat)

lemma shl_or: "b < 32 \<Longrightarrow> bit w b \<Longrightarrow> w OR shl_one (of_nat b) = w"
  by (rule word32_eqI) (auto simp: bit_or_iff bit_shl_one unat_of_nat)

lemma clr_and_shl: "b < 32 \<Longrightarrow> clr w b AND shl_one (of_nat b) = 0"
  by (rule word32_eqI) (auto simp: bit_and_iff bit_clr bit_shl_one unat_of_nat)

lemma free_pid_low:
  assumes len: "length t = 33" and p: "unat p < 32"
  shows "free_pid p t =
    (if bit (t ! 1) (unat p) then Inl (Panic ''PID allocator failure'')
     else Inr (if t ! 1 \<noteq> 0 then t[1 := t ! 1 OR shl_one p]
               else t[1 := shl_one p, 0 := t ! 0 OR shl_one 0]))"
proof -
  let ?i = "(32 ^ (PID_LEVELS - 1) - 1) div 31 + drop_bit 5 p :: u32"
  have i: "unat ?i = 1" using p free_index [of p] by simp
  then have iw: "?i = 1" by (simp add: word_unat_eq_iff)
  have m: "p AND 0xFFFFF = p" using p by (intro pid_mask) simp
  have b: "t ! 1 AND shl_one p \<noteq> 0 \<longleftrightarrow> bit (t ! 1) (unat p)"
    using p by (auto simp: word_nonzero_bit bit_and_iff bit_shl_one)
  have z: "(1 - 1 :: u32) AND 0xFFFFF = 0" "unat (drop_bit 5 (1 - 1 :: u32)) = 0" by simp_all
  have o: "(0 :: u32) OR shl_one p = shl_one p" by simp
  show ?thesis
    unfolding free_pid_def Let_def iw m
    using len b by (simp add: PID_LEVELS_Suc)
qed

lemma free_after_alloc:
  assumes inv: "pid_inv t" and a: "alloc_pid t = Inr (Some p, t')" and p: "unat p < 32"
  shows "free_pid p t' = Inr t"
proof -
  have len: "length t = 33" using inv by (simp add: pid_inv_def)
  have c: "alloc_closed t = (Some p, t')" using a alloc_pid_closed [OF len] by simp
  let ?a = "ctz (t ! 0)" and ?c = "ctz (t ! Suc (ctz (t ! 0)))"
  have nz: "t ! 0 \<noteq> 0" using c by (auto simp: alloc_closed_def Let_def split: if_splits)
  then have ab: "bit (t ! 0) ?a" "?a < 32" using ctz_word by blast+
  then have "t ! Suc ?a \<noteq> 0" using inv by (simp add: pid_inv_def)
  then have cb: "bit (t ! Suc ?a) ?c" "?c < 32" using ctz_word by blast+
  have pv: "p = of_nat (32 * ?a + ?c)"
    using c nz by (simp add: alloc_closed_def Let_def split: if_splits)
  then have "unat p = 32 * ?a + ?c"
    using ab cb by (simp only:) (rule unat_pid, linarith)
  then have a0: "?a = 0" and pc: "unat p = ?c" using p by auto
  then have pw: "p = of_nat ?c" by (simp add: pv)
  let ?w = "t ! 1"
  have t': "t' = (if ?c = 31 then t[1 := clr ?w ?c, 0 := clr (t ! 0) 0] else t[1 := clr ?w ?c])"
    using c nz a0 by (simp add: alloc_closed_def Let_def split: if_splits)
  have len': "length t' = 33" using t' len by simp
  have w': "t' ! 1 = clr ?w ?c" using t' len by simp
  have r: "clr (t ! 0) 0 OR shl_one 0 = t ! 0" "t ! 0 OR shl_one 0 = t ! 0"
    using or_shl_clr [of 0 "t ! 0"] shl_or [of 0 "t ! 0"] ab a0 by simp_all
  have w: "clr ?w ?c OR shl_one p = ?w" using or_shl_clr [of ?c ?w] cb a0 pw by simp
  show ?thesis
  proof (cases "clr ?w ?c = 0")
    case True
    then have "shl_one p = ?w" using w by simp
    then show ?thesis
      using free_pid_low [OF len' p] w' pc True r len cb
      by (auto simp: bit_clr t' list_update_swap)
  next
    case False
    have "?c \<noteq> 31"
    proof
      assume "?c = 31"
      then have low: "\<forall>m < 31. \<not> bit ?w m" using ctz_eq_iff [of 31 ?w] a0 by simp
      have "clr ?w ?c = 0"
      proof (rule word32_eqI)
        fix n :: nat
        assume "n < 32"
        then consider "n < 31" | "n = 31" by linarith
        then show "bit (clr ?w ?c) n = bit (0 :: u32) n"
          using low unfolding \<open>?c = 31\<close> by cases (simp_all add: bit_clr)
      qed
      with False show False ..
    qed
    then show ?thesis
      using free_pid_low [OF len' p] w' pc False w cb by (simp add: bit_clr t')
  qed
qed

text \<open>From 32 on the mask leaves the bit number unreduced: the release clears nothing.\<close>

lemma free_pid_high:
  assumes len: "length t = 33" and p: "32 \<le> unat p" "unat p < 256"
  shows "\<exists>t'. free_pid p t = Inr t' \<and> (\<forall>k < 32. t' ! Suc k = t ! Suc k)"
proof -
  let ?i = "1 + drop_bit 5 p :: u32"
  have iw: "(32 ^ (PID_LEVELS - 1) - 1) div 31 + drop_bit 5 p = ?i" by (simp add: PID_LEVELS_def)
  have i: "unat ?i = Suc (unat p div 32)" using free_index [of p] unfolding iw .
  have il: "unat ?i < 33" using i p by linarith
  have m: "p AND 0xFFFFF = p" using p by (intro pid_mask) simp
  have s: "shl_one p = 0" using p word_nonzero_bit [of "shl_one p"] by (auto simp: bit_shl_one)
  have u: "unat (?i - 1) = unat p div 32" using i unat_sub_u32 [of 1 ?i] by simp
  have "unat (drop_bit 5 (?i - 1)) = unat p div 32 div 32" unfolding unat_drop_bit u by simp
  also have "\<dots> = 0" using p by simp
  finally have d: "unat (drop_bit 5 (?i - 1)) = 0" .
  have upd: "t ! unat ?i = 0 \<Longrightarrow> t[unat ?i := 0] = t" by (metis list_update_id)
  let ?b = "(?i - 1) AND 0xFFFFF"
  have "free_pid p t = Inr (if t ! unat ?i \<noteq> 0 then t else t[0 := t ! 0 OR shl_one ?b])"
    unfolding free_pid_def Let_def m iw
    using il len s d upd by (simp add: PID_LEVELS_Suc)
  then show ?thesis by simp
qed

subsection \<open>Recycling an id of a full word\<close>

text \<open>A set parent bit over an empty word: the same id is delivered again and again.\<close>

lemma alloc_stuck:
  assumes "length t = 33" and "t ! 0 \<noteq> 0" and "t ! Suc (ctz (t ! 0)) = 0"
  shows "alloc_pid t = Inr (Some (of_nat (32 * ctz (t ! 0) + 32)), t)"
proof -
  have "clr 0 32 = 0" by (rule word32_eqI) (simp add: bit_clr)
  moreover have "t[Suc (ctz (t ! 0)) := 0] = t" using assms(3) by (metis list_update_id)
  ultimately show ?thesis
    unfolding alloc_pid_closed [OF assms(1)] alloc_closed_def Let_def assms(3)
    using assms(2) by simp
qed

lemma alloc_pids_stuck:
  assumes "length t = 33" and "t ! 0 \<noteq> 0" and "t ! Suc (ctz (t ! 0)) = 0"
  shows "alloc_pids n t = Inr (replicate n (Some (of_nat (32 * ctz (t ! 0) + 32))), t)"
  by (induction n) (simp_all only: alloc_pids.simps alloc_stuck [OF assms] res_bind.simps
      prod.case replicate.simps)

lemma alloc_after_free:
  assumes p: "unat p < 31"
  shows "\<exists>t'. res_bind (free_pid p (pids_taken 32)) (alloc_pids (Suc n))
           = Inr (Some p # replicate n (Some 32), t')"
proof -
  let ?t = "pids_taken 32"
  let ?r = "NOT (mask 1) OR shl_one 0 :: u32"
  have len: "length ?t = 33" by (simp add: pids_taken_def)
  have w: "?t ! 0 = NOT (mask 1)" "?t ! 1 = 0" by (simp_all add: pids_taken_def)
  have p32: "unat p < 32" using p by simp
  define t1 where "t1 = ?t[1 := shl_one p, 0 := ?r]"
  have f: "free_pid p ?t = Inr t1"
    unfolding free_pid_low [OF len p32] w t1_def by simp
  have len1: "length t1 = 33" and t1: "t1 ! 0 = ?r" "t1 ! 1 = shl_one p"
    using len by (simp_all add: t1_def)
  have b0: "bit ?r 0" by (simp add: bit_or_iff bit_shl_one)
  then have c0: "ctz (t1 ! 0) = 0" and nz: "t1 ! 0 \<noteq> 0"
    using t1 by (simp add: ctz_eq_iff, auto simp: word_nonzero_bit)
  have c1: "ctz (t1 ! Suc 0) = unat p"
    using t1 p by (simp add: ctz_eq_iff bit_shl_one)
  have cl: "clr (shl_one p) (unat p) = 0"
    using p by (intro word32_eqI) (auto simp: bit_clr bit_shl_one)
  define t2 where "t2 = t1[1 := 0]"
  have a: "alloc_pid t1 = Inr (Some p, t2)"
    unfolding alloc_pid_closed [OF len1] alloc_closed_def Let_def c0 c1
    using nz p t1 cl by (simp add: t2_def)
  have z: "length t2 = 33" "ctz (t2 ! 0) = 0" "t2 ! 0 \<noteq> 0" "t2 ! Suc (ctz (t2 ! 0)) = 0"
    using len1 c0 nz by (simp_all add: t2_def)
  have "alloc_pids n t2 = Inr (replicate n (Some 32), t2)"
    using alloc_pids_stuck [OF z(1,3,4), of n] by (simp add: z(2))
  then show ?thesis using f a by simp
qed

subsection \<open>Properties\<close>

text \<open>C7. In a table whose set parent bits stand over non-empty words, \<^verbatim>\<open>alloc_pid\<close> fails
  exactly when no parent bit is left, and otherwise delivers a free id below 1024, the lowest
  one reachable, and marks that id and no other as taken.\<close>

theorem alloc_pid_correct:
  assumes "pid_inv t"
  shows "\<exists>r t'. alloc_pid t = Inr (r, t') \<and> (alloc_pid_code r = - ENOPID \<longleftrightarrow> t ! 0 = 0) \<and>
    (\<forall>p. r = Some p \<longrightarrow> unat p < 1024 \<and> pid_free t (unat p) \<and>
       (\<forall>q < 1024. pid_free t' q \<longleftrightarrow> pid_free t q \<and> q \<noteq> unat p) \<and>
       (\<forall>q < unat p. \<not> pid_free t q \<or> \<not> bit (t ! 0) (q div 32)))"
proof -
  have len: "length t = 33" using assms by (simp add: pid_inv_def)
  obtain r t' where c: "alloc_closed t = (r, t')" by (cases "alloc_closed t")
  note s = alloc_closed_spec [OF assms c]
  have "alloc_pid_code r = - ENOPID \<longleftrightarrow> t ! 0 = 0"
    using s(1) by (cases r) (auto simp: alloc_pid_code_def error_defs)
  then show ?thesis
    using s alloc_pid_closed [OF len] c by (intro exI [of _ r] exI [of _ t']) auto
qed

lemma pid_inv_init: "pid_inv pid_init"
  unfolding pids_taken_0 by (auto simp: pid_inv_def pids_taken_def)

theorem alloc_pid_correct_witness:
  "\<exists>r t'. alloc_pid pid_init = Inr (r, t') \<and> alloc_pid_code r = 0"
proof -
  obtain r t' where a: "alloc_pid pid_init = Inr (r, t')"
      "alloc_pid_code r = - ENOPID \<longleftrightarrow> pid_init ! 0 = 0"
    using alloc_pid_correct [OF pid_inv_init] by blast
  have "pid_init ! 0 \<noteq> 0" by (simp add: pid_init_def pid_size_33)
  then have "alloc_pid_code r = 0" using a(2) by (cases r) (auto simp: alloc_pid_code_def)
  then show ?thesis using a by blast
qed

text \<open>A fresh table delivers the ids 0 to 1023 in order and then \<^verbatim>\<open>-ENOPID\<close>.\<close>

theorem alloc_pid_all:
  "\<exists>t. alloc_pids 1024 pid_init = Inr (map (Some \<circ> of_nat) [0..<1024], t) \<and>
     alloc_pid t = Inr (None, t)"
  using alloc_pids_from [of 0 1024] alloc_pid_exhausted unfolding pids_taken_0 by auto

text \<open>Releasing an id below 32 right after it was allocated restores the table.\<close>

theorem free_pid_undoes_alloc:
  assumes "pid_inv t" and "alloc_pid t = Inr (Some p, t')" and "unat p < 32"
  shows "free_pid p t' = Inr t"
  using free_after_alloc [OF assms] .

theorem free_pid_undoes_alloc_witness: "free_pid 0 (pids_taken 1) = Inr pid_init"
proof -
  have "alloc_pid pid_init = Inr (Some 0, pids_taken 1)"
    using alloc_pids_taken [of 0] by (simp add: pids_taken_0)
  then show ?thesis using free_pid_undoes_alloc [OF pid_inv_init] by simp
qed



text \<open>An id from 32 to 255 is never returned: its release leaves every word of the second
  level as it was.\<close>

theorem free_pid_leaks:
  assumes "length t = 33" and "32 \<le> unat p" and "unat p < 256"
  shows "\<exists>t'. free_pid p t = Inr t' \<and> (\<forall>q < 1024. pid_free t' q = pid_free t q)"
  using free_pid_high [OF assms] by (auto simp: pid_free_def)

theorem free_pid_leaks_witness:
  "\<exists>t'. free_pid 40 (pids_taken 64) = Inr t' \<and> (\<forall>q < 1024. pid_free t' q = pid_free (pids_taken 64) q)"
  by (rule free_pid_leaks) (simp_all add: pids_taken_def)

end
