(* ===== verification/Buddy.thy ===== *)
theory Buddy
  imports Align "HOL-Library.Disjoint_Sets"
begin

text \<open>
  \<^verbatim>\<open>mm/buddy_alloc.c\<close>: the page allocator. A zone of \<open>2 ^ (max_orders - 1)\<close> pages is kept as
  free lists of aligned power-of-two blocks, one list per order, and one bit per pair of
  buddies saying whether exactly one of the two is free. The bits of all orders share one
  array of words, as in the code; \<open>map_off\<close> holds each order's \<^verbatim>\<open>map\<close> pointer as an offset
  into it. A page is its index in the zone, and a free list the abstract list of
  \<^verbatim>\<open>list.h\<close> (see \<^verbatim>\<open>Lists\<close>). Orders stay below 32 and are natural numbers.
\<close>

subsection \<open>Definitions\<close>

record buddy =
  page_cnt :: u32
  max_orders :: nat
  bmap :: "u32 list"
  map_off :: "nat list"
  free_list :: "u32 list list"
  used :: u32
  page_order :: "u32 \<Rightarrow> nat"

definition get_order_map_words :: "nat \<Rightarrow> nat \<Rightarrow> nat" where
  "get_order_map_words order max_ord =
     (let tmp = drop_bit 5 (push_bit (max_ord - order - 1) 1) in if tmp = 0 then tmp + 1 else tmp)"

definition get_map_size :: "nat \<Rightarrow> nat" where
  "get_map_size max_ord =
     (let num_blocks = (if max_ord < 2 then 0 else push_bit (max_ord - 2) 1)
      in drop_bit 5 (push_bit 1 num_blocks) + 4)"

text \<open>Words of the shared bitmap: \<open>base\<close> is the pointer the bit number counts from.\<close>

definition get_bit :: "nat \<Rightarrow> nat \<Rightarrow> u32 list \<Rightarrow> u32 res" where
  "get_bit bit_nr base ws =
     res_bind (read_at ws (base + bit_nr div 32)) (\<lambda>w. Inr (w AND push_bit (bit_nr mod 32) 1))"

definition toggle_bit :: "nat \<Rightarrow> nat \<Rightarrow> u32 list \<Rightarrow> u32 list res" where
  "toggle_bit bit_nr base ws =
     res_bind (read_at ws (base + bit_nr div 32)) (\<lambda>w.
       write_at ws (base + bit_nr div 32) (w XOR push_bit (bit_nr mod 32) 1))"

definition buddy_get_total :: "buddy \<Rightarrow> u32" where
  "buddy_get_total z = page_cnt z * 4096"

definition buddy_get_used :: "buddy \<Rightarrow> u32" where
  "buddy_get_used z = used z"

definition buddy_get_free :: "buddy \<Rightarrow> u32" where
  "buddy_get_free z = page_cnt z * 4096 - used z"

text \<open>
  The loop of \<^verbatim>\<open>buddy_alloc_init\<close> over the orders from the highest down: the offset of each
  order's map, order 0 having none (its entry is never used).
\<close>

fun assign_maps :: "nat \<Rightarrow> nat \<Rightarrow> nat \<Rightarrow> nat list" where
  "assign_maps max_ord 0 off = []"
| "assign_maps max_ord (Suc i) off =
     assign_maps max_ord i (if i \<noteq> 0 then off + get_order_map_words i max_ord else off) @ [off]"

text \<open>
  \<^verbatim>\<open>None\<close> when one of the two \<^verbatim>\<open>kmalloc\<close> calls, whose outcomes are arguments, returns null.
\<close>

definition buddy_alloc_init :: "bool \<Rightarrow> bool \<Rightarrow> u32 \<Rightarrow> (u32 \<Rightarrow> nat) \<Rightarrow> buddy option" where
  "buddy_alloc_init map_ok orders_ok cnt page_ord =
     (let max_ord = ctz (round_down_power_two cnt) + 1 in
      if \<not> map_ok then None
      else if \<not> orders_ok then None
      else Some \<lparr>page_cnt = cnt, max_orders = max_ord,
                 bmap = replicate (get_map_size max_ord) 0,
                 map_off = assign_maps max_ord max_ord 0,
                 free_list = (replicate max_ord [])[max_ord - 1 := [0]],
                 used = 0, page_order = page_ord\<rparr>)"

definition get_parent_bit :: "u32 \<Rightarrow> nat \<Rightarrow> nat" where
  "get_parent_bit index order =
     unat (drop_bit (order + 1) (index AND NOT (push_bit (order + 1) 1 - 1)))"

definition toggle_map :: "nat \<Rightarrow> nat \<Rightarrow> buddy \<Rightarrow> buddy res" where
  "toggle_map order bit_nr z =
     res_bind (toggle_bit bit_nr (map_off z ! order) (bmap z)) (\<lambda>ws. Inr (z\<lparr>bmap := ws\<rparr>))"

definition add_free :: "nat \<Rightarrow> u32 \<Rightarrow> buddy \<Rightarrow> buddy" where
  "add_free order page z =
     z\<lparr>free_list := (free_list z)[order := page # free_list z ! order]\<rparr>"

text \<open>\<^verbatim>\<open>list_delete_node\<close> takes the page off the list it is on; off every list its links are null.\<close>

definition delete_page :: "u32 \<Rightarrow> buddy \<Rightarrow> buddy res" where
  "delete_page page z =
     (if \<exists>l \<in> set (free_list z). page \<in> set l
      then Inr (z\<lparr>free_list := map (remove1 page) (free_list z)\<rparr>) else Inl NullPointer)"

fun find_order :: "u32 list list \<Rightarrow> nat \<Rightarrow> nat" where
  "find_order [] cur = cur"
| "find_order (l # ls) cur = (if l \<noteq> [] then cur else find_order ls (cur + 1))"

fun split_block :: "nat \<Rightarrow> nat \<Rightarrow> u32 \<Rightarrow> buddy \<Rightarrow> buddy res" where
  "split_block 0 cur index z = Inr z"
| "split_block (Suc n) cur index z =
     (let c = cur - 1 in
      res_bind (toggle_map (c + 1) (get_parent_bit index c) z) (\<lambda>z1.
        split_block n c index (add_free c (index + push_bit c 1) z1)))"

definition buddy_alloc_pages :: "nat \<Rightarrow> buddy \<Rightarrow> (u32 \<times> buddy) res" where
  "buddy_alloc_pages order z =
     (let cur = find_order (drop order (free_list z)) order in
      if max_orders z \<le> cur then Inl (Panic ''Buddy allocator out of memory'')
      else
        let index = hd (free_list z ! cur) in
        res_bind (if cur < max_orders z - 1 then toggle_map (cur + 1) (get_parent_bit index cur) z
                  else Inr z) (\<lambda>z1.
        let z2 = z1\<lparr>free_list := (free_list z1)[cur := tl (free_list z1 ! cur)]\<rparr> in
        res_bind (split_block (cur - order) cur index z2) (\<lambda>z3.
        Inr (index, z3\<lparr>page_order := (page_order z3)(index := order),
                       used := used z3 + push_bit order 1 * 4096\<rparr>))))"

fun merge_blocks :: "nat \<Rightarrow> nat \<Rightarrow> u32 \<Rightarrow> buddy \<Rightarrow> (nat \<times> u32 \<times> buddy) res" where
  "merge_blocks 0 order index z = Inr (order, index, z)"
| "merge_blocks (Suc n) order index z =
     (let b = get_parent_bit index order in
      res_bind (get_bit b (map_off z ! (order + 1)) (bmap z)) (\<lambda>v.
      res_bind (toggle_map (order + 1) b z) (\<lambda>z1.
        if v = 0 then Inr (order, index, z1)
        else res_bind (delete_page (index XOR push_bit order 1) z1) (\<lambda>z2.
          merge_blocks n (order + 1) (index AND NOT (push_bit (order + 1) 1 - 1)) z2))))"

definition buddy_free_pages :: "u32 \<Rightarrow> buddy \<Rightarrow> buddy res" where
  "buddy_free_pages page z =
     (let free_order = page_order z page in
      res_bind (merge_blocks (max_orders z - 1 - free_order) free_order page z)
        (\<lambda>(order, index, z1).
          let z2 = add_free order index z1 in
          if used z2 < push_bit free_order 1 * 4096 then Inl (Panic ''Buddy error'')
          else Inr (z2\<lparr>used := used z2 - push_bit free_order 1 * 4096\<rparr>)))"

subsection \<open>The promise\<close>

text \<open>
  A block is an order and the index of its first page. \<open>A\<close> collects the blocks handed out
  and not yet returned. The invariant: free and handed-out blocks partition the pages of the
  zone, no pair of buddies is free at once, the bits tell which pairs are split, and the
  counter is the size of what is handed out.
\<close>

type_synonym block = "nat \<times> nat"

definition pages :: "block \<Rightarrow> nat set" where
  "pages b = {snd b ..< snd b + 2 ^ fst b}"

definition zone_pages :: "buddy \<Rightarrow> nat" where
  "zone_pages z = 2 ^ (max_orders z - 1)"

definition free_blocks :: "buddy \<Rightarrow> block set" where
  "free_blocks z = {(order, unat p) | order p. order < max_orders z \<and> p \<in> set (free_list z ! order)}"

definition well_placed :: "nat \<Rightarrow> block \<Rightarrow> bool" where
  "well_placed mo b \<longleftrightarrow> fst b < mo \<and> 2 ^ fst b dvd snd b \<and> snd b + 2 ^ fst b \<le> 2 ^ (mo - 1)"

definition tiling :: "nat \<Rightarrow> block set \<Rightarrow> bool" where
  "tiling mo B \<longleftrightarrow> (\<forall>b \<in> B. well_placed mo b) \<and>
     (\<forall>b \<in> B. \<forall>c \<in> B. b \<noteq> c \<longrightarrow> pages b \<inter> pages c = {}) \<and> \<Union> (pages ` B) = {..<2 ^ (mo - 1)}"

definition pair_bit :: "buddy \<Rightarrow> nat \<Rightarrow> nat \<Rightarrow> bool" where
  "pair_bit z order j = bit (bmap z ! (map_off z ! order + j div 32)) (j mod 32)"

definition layout_ok :: "buddy \<Rightarrow> bool" where
  "layout_ok z \<longleftrightarrow> 1 \<le> max_orders z \<and> max_orders z \<le> 32 \<and> length (free_list z) = max_orders z \<and>
     length (bmap z) = get_map_size (max_orders z) \<and>
     map_off z = assign_maps (max_orders z) (max_orders z) 0"

definition bits_ok :: "buddy \<Rightarrow> bool" where
  "bits_ok z \<longleftrightarrow> (\<forall>order j. order + 1 < max_orders z \<longrightarrow> (j + 1) * 2 ^ (order + 1) \<le> zone_pages z \<longrightarrow>
     pair_bit z (order + 1) j =
       (((order, j * 2 ^ (order + 1)) \<in> free_blocks z) \<noteq>
        ((order, j * 2 ^ (order + 1) + 2 ^ order) \<in> free_blocks z)))"

definition no_buddies_free :: "buddy \<Rightarrow> bool" where
  "no_buddies_free z \<longleftrightarrow> (\<forall>order j. order + 1 < max_orders z \<longrightarrow>
     \<not> ((order, j * 2 ^ (order + 1)) \<in> free_blocks z \<and>
        (order, j * 2 ^ (order + 1) + 2 ^ order) \<in> free_blocks z))"

definition lists_distinct :: "buddy \<Rightarrow> bool" where
  "lists_distinct z \<longleftrightarrow> (\<forall>l \<in> set (free_list z). distinct l)"

definition core_inv :: "buddy \<Rightarrow> block set \<Rightarrow> bool" where
  "core_inv z A \<longleftrightarrow> layout_ok z \<and> lists_distinct z \<and>
     free_blocks z \<inter> A = {} \<and> tiling (max_orders z) (free_blocks z \<union> A) \<and>
     bits_ok z \<and> no_buddies_free z"

subsection \<open>Layout of the bitmap\<close>

definition pair_ok :: "nat \<Rightarrow> nat \<Rightarrow> nat \<Rightarrow> bool" where
  "pair_ok mo order j \<longleftrightarrow> 1 \<le> order \<and> order < mo \<and> (j + 1) * 2 ^ order \<le> 2 ^ (mo - 1)"

lemma map_words: "get_order_map_words order mo = max 1 (2 ^ (mo - order - 1) div 32)"
  by (simp add: get_order_map_words_def Let_def drop_bit_eq_div)

lemma map_size: "2 \<le> mo \<Longrightarrow> get_map_size mo = 2 ^ (mo - 1) div 32 + 4"
proof -
  assume "2 \<le> mo"
  then obtain k where "mo = k + 2" by (metis add.commute le_Suc_ex)
  then show ?thesis by (simp add: get_map_size_def Let_def drop_bit_eq_div push_bit_eq_mult)
qed

lemma sum_map_words: "(\<Sum>e<n. max 1 (2 ^ e div 32 :: nat)) \<le> 2 ^ n div 32 + 4"
proof (induction n)
  case (Suc n)
  show ?case
  proof (cases "n < 5")
    case True
    have "max 1 (2 ^ e div 32 :: nat) = 1" if "e < 5" for e
      using power_strict_increasing [OF that, of "2 :: nat"] by simp
    then have "(\<Sum>e<Suc n. max 1 (2 ^ e div 32 :: nat)) = (\<Sum>e<Suc n. 1)"
      using True by (intro sum.cong) auto
    moreover have "Suc n \<le> 2 ^ Suc n div 32 + 4"
    proof (cases "n = 4")
      case False
      then show ?thesis using True by simp
    qed simp
    ultimately show ?thesis by simp
  next
    case False
    then obtain k where k: "n = k + 5" by (metis add.commute le_Suc_ex linorder_not_less)
    have "max 1 (2 ^ n div 32 :: nat) = 2 ^ k" by (simp add: k power_add)
    moreover have "(2 :: nat) ^ n div 32 = 2 ^ k" "2 ^ Suc n div 32 = 2 * (2 :: nat) ^ k"
      by (simp_all add: k power_add)
    ultimately show ?thesis using Suc.IH by simp
  qed
qed simp

lemma length_assign_maps [simp]: "length (assign_maps mo n off) = n"
  by (induction n arbitrary: off) simp_all

lemma assign_maps_nth:
  "i < n \<Longrightarrow> assign_maps mo n off ! i = off + (\<Sum>k\<in>{i<..<n}. get_order_map_words k mo)"
proof (induction n arbitrary: off)
  case (Suc n)
  show ?case
  proof (cases "i < n")
    case True
    then have "{i<..<Suc n} = insert n {i<..<n}" by auto
    then show ?thesis using Suc.IH [of "off + get_order_map_words n mo"] True
      by (simp add: nth_append)
  next
    case False
    then have "i = n" "{i<..<Suc n} = {}" using Suc.prems by auto
    then show ?thesis by (simp add: nth_append)
  qed
qed simp

definition word_of :: "nat \<Rightarrow> nat \<Rightarrow> nat \<Rightarrow> nat" where
  "word_of mo order j = assign_maps mo mo 0 ! order + j div 32"

lemma pair_index: "pair_ok mo order j \<Longrightarrow> j < 2 ^ (mo - 1 - order)"
proof -
  assume "pair_ok mo order j"
  then have "(j + 1) * 2 ^ order \<le> 2 ^ (mo - 1 - order) * 2 ^ order"
    by (simp add: pair_ok_def flip: power_add)
  then have "j + 1 \<le> 2 ^ (mo - 1 - order)" by (simp only: mult_le_cancel2) simp
  then show ?thesis by simp
qed

lemma word_in_order:
  assumes "pair_ok mo order j"
  shows "assign_maps mo mo 0 ! order \<le> word_of mo order j"
    and "word_of mo order j < (\<Sum>k\<in>{order..<mo}. get_order_map_words k mo)"
proof -
  have o: "order < mo" using assms by (simp add: pair_ok_def)
  then have "{order..<mo} = insert order {order<..<mo}" by auto
  moreover have "j div 32 < get_order_map_words order mo"
  proof -
    have "j div 32 < max 1 (2 ^ (mo - 1 - order) div 32)"
    proof (cases "mo - 1 - order < 5")
      case True
      then have "(2 :: nat) ^ (mo - 1 - order) \<le> 2 ^ 5" by (intro power_increasing) auto
      then show ?thesis using pair_index [OF assms] by simp
    next
      case False
      then obtain k where k: "mo - 1 - order = k + 5" by (metis add.commute le_Suc_ex linorder_not_less)
      then show ?thesis using pair_index [OF assms] by (simp add: power_add)
    qed
    then show ?thesis by (simp add: map_words diff_right_commute)
  qed
  ultimately show "word_of mo order j < (\<Sum>k\<in>{order..<mo}. get_order_map_words k mo)"
    using o by (simp add: word_of_def assign_maps_nth)
qed (simp add: word_of_def)

lemma word_in_map:
  assumes "pair_ok mo order j"
  shows "word_of mo order j < get_map_size mo"
proof -
  have o: "1 \<le> order" "order < mo" using assms by (simp_all add: pair_ok_def)
  have "(\<Sum>k\<in>{order..<mo}. get_order_map_words k mo) \<le> (\<Sum>k\<in>{1..<mo}. get_order_map_words k mo)"
    using o by (intro sum_mono2) auto
  also have "\<dots> = (\<Sum>e<mo - 1. max 1 (2 ^ e div 32))"
    unfolding map_words
    by (rule sum.reindex_bij_witness [where i = "\<lambda>e. mo - e - 1" and j = "\<lambda>k. mo - k - 1"]) auto
  also have "\<dots> \<le> 2 ^ (mo - 1) div 32 + 4" by (rule sum_map_words)
  finally show ?thesis using word_in_order(2) [OF assms] o by (simp add: map_size)
qed

lemma word_distinct:
  assumes "pair_ok mo order j" and "pair_ok mo order' j'" and "order < order'"
  shows "word_of mo order' j' < word_of mo order j"
proof -
  have "word_of mo order' j' < (\<Sum>k\<in>{order'..<mo}. get_order_map_words k mo)"
    by (rule word_in_order(2) [OF assms(2)])
  also have "\<dots> \<le> (\<Sum>k\<in>{order<..<mo}. get_order_map_words k mo)"
    using assms(3) by (intro sum_mono2) auto
  also have "\<dots> = assign_maps mo mo 0 ! order"
    using assms(1) by (simp add: assign_maps_nth pair_ok_def)
  also have "\<dots> \<le> word_of mo order j" by (rule word_in_order(1) [OF assms(1)])
  finally show ?thesis .
qed

lemma same_word:
  assumes "pair_ok mo order j" and "pair_ok mo order' j'" and "word_of mo order j = word_of mo order' j'"
  shows "order = order' \<and> j div 32 = j' div 32"
  using word_distinct [OF assms(1,2)] word_distinct [OF assms(2,1)] assms(3)
  by (cases order order' rule: linorder_cases) (auto simp: word_of_def)

lemma layout_word:
  assumes "layout_ok z" and "pair_ok (max_orders z) order j"
  shows "map_off z ! order + j div 32 = word_of (max_orders z) order j"
    and "word_of (max_orders z) order j < length (bmap z)"
  using assms word_in_map [OF assms(2)] by (simp_all add: layout_ok_def word_of_def)

lemma pair_bit_word:
  "layout_ok z \<Longrightarrow> pair_ok (max_orders z) order j \<Longrightarrow>
     pair_bit z order j = bit (bmap z ! word_of (max_orders z) order j) (j mod 32)"
  by (simp add: pair_bit_def layout_word)

lemma bit_push_one: "k < 32 \<Longrightarrow> bit (push_bit k 1 :: u32) n \<longleftrightarrow> n = k"
  by (simp only: bit_push_bit_iff bit_1_iff) auto

text \<open>Toggling stays inside the map and flips one bit only.\<close>

lemma toggle_map_ok:
  assumes l: "layout_ok z" and v: "pair_ok (max_orders z) order j"
  shows "\<exists>ws. toggle_map order j z = Inr (z\<lparr>bmap := ws\<rparr>) \<and> length ws = length (bmap z) \<and>
    (\<forall>o' j'. pair_ok (max_orders z) o' j' \<longrightarrow>
       pair_bit (z\<lparr>bmap := ws\<rparr>) o' j' = (pair_bit z o' j' \<noteq> (o' = order \<and> j' = j)))"
proof -
  let ?w = "word_of (max_orders z) order j"
  define ws where "ws = (bmap z)[?w := bmap z ! ?w XOR push_bit (j mod 32) 1]"
  note w = layout_word [OF l v]
  have t: "toggle_map order j z = Inr (z\<lparr>bmap := ws\<rparr>)"
    unfolding toggle_map_def toggle_bit_def w(1) ws_def using w(2) by (simp del: push_bit_of_1)
  have l': "layout_ok (z\<lparr>bmap := ws\<rparr>)" using l by (simp add: layout_ok_def ws_def)
  have "pair_bit (z\<lparr>bmap := ws\<rparr>) o' j' = (pair_bit z o' j' \<noteq> (o' = order \<and> j' = j))"
    if v': "pair_ok (max_orders z) o' j'" for o' j'
  proof (cases "word_of (max_orders z) o' j' = ?w")
    case True
    then have e: "o' = order" "j' div 32 = j div 32" using same_word [OF v' v] by auto
    then have "j' mod 32 = j mod 32 \<longleftrightarrow> j' = j" by (metis div_mult_mod_eq)
    then show ?thesis
      using True e w(2) l l' v v'
      by (simp add: pair_bit_word ws_def bit_xor_iff bit_push_one del: push_bit_of_1)
  next
    case False
    then have "\<not> (o' = order \<and> j' = j)" by auto
    then show ?thesis using False l l' v' by (simp add: pair_bit_word ws_def)
  qed
  then show ?thesis using t by (auto simp: ws_def)
qed

lemma get_bit_ok:
  assumes l: "layout_ok z" and v: "pair_ok (max_orders z) order j"
  shows "\<exists>b. get_bit j (map_off z ! order) (bmap z) = Inr b \<and> (b \<noteq> 0 \<longleftrightarrow> pair_bit z order j)"
proof -
  note w = layout_word [OF l v]
  let ?v = "bmap z ! word_of (max_orders z) order j AND push_bit (j mod 32) 1"
  have "get_bit j (map_off z ! order) (bmap z) = Inr ?v"
    unfolding get_bit_def w(1) using w(2) by simp
  moreover have "?v \<noteq> 0 \<longleftrightarrow> pair_bit z order j"
    unfolding word_nonzero_bit pair_bit_word [OF l v] bit_and_iff
    by (simp add: bit_push_one del: push_bit_of_1)
  ultimately show ?thesis by blast
qed

subsection \<open>Page indexes\<close>

lemma parent_mask: "(push_bit (k + 1) 1 - 1 :: u32) = mask (k + 1)"
  by (rule mask_eq_push_minus_1)

lemma parent_index: "unat (p AND NOT (push_bit (k + 1) 1 - 1)) = unat (p :: u32) div 2 ^ (k + 1) * 2 ^ (k + 1)"
  unfolding parent_mask by (rule unat_and_not_mask)

lemma get_parent_bit_div: "get_parent_bit p k = unat p div 2 ^ (k + 1)"
  unfolding get_parent_bit_def unat_drop_bit parent_index by simp

lemma bit_unat_odd: "bit (p :: u32) k \<longleftrightarrow> odd (unat p div 2 ^ k)"
  by (simp add: bit_u32_iff_odd)

lemma unat_buddy_even:
  assumes "even (unat p div 2 ^ k)" and "k < 32"
  shows "unat (p XOR push_bit k 1) = unat (p :: u32) + 2 ^ k"
proof -
  have nb: "\<not> bit p k" using assms(1) by (simp add: bit_unat_odd)
  have "p XOR push_bit k 1 = p OR push_bit k 1"
    by (rule word32_eqI) (use nb assms(2) in \<open>auto simp: bit_xor_iff bit_or_iff bit_push_one simp del: push_bit_of_1\<close>)
  also have "\<dots> = p + push_bit k 1"
    by (rule disjunctive_add [symmetric])
      (use nb assms(2) in \<open>auto simp: bit_push_one simp del: push_bit_of_1\<close>)
  finally have e: "p XOR push_bit k 1 = p + push_bit k 1" .
  have "unat p + 2 ^ k < 4294967296"
  proof -
    have "(2 :: nat) ^ (31 - k) * 2 ^ (k + 1) = 2 ^ 32" using assms(2) by (simp flip: power_add)
    moreover have "unat p < 2 ^ 32" using u32_less_2p32 [of p] by simp
    ultimately have "unat p < 2 ^ (31 - k) * 2 ^ (k + 1)" by (simp only:)
    then have "unat p div 2 ^ (k + 1) < 2 ^ (31 - k)" by (rule less_mult_imp_div_less)
    moreover have "unat p div 2 ^ (k + 1) = unat p div 2 ^ k div 2"
      by (metis Suc_eq_plus1 div_mult2_eq power_Suc2)
    then have "unat p div 2 ^ k = 2 * (unat p div 2 ^ (k + 1))"
      using assms(1) by simp
    ultimately have "unat p div 2 ^ k + 1 < 2 * 2 ^ (31 - k)" by linarith
    then have "(unat p div 2 ^ k + 2) * 2 ^ k \<le> 2 * 2 ^ (31 - k) * 2 ^ k"
      by (intro mult_right_mono) auto
    also have "\<dots> = 2 ^ 32" using assms(2) by (simp flip: power_add power_Suc)
    finally have "(unat p div 2 ^ k) * 2 ^ k + 2 * 2 ^ k \<le> 4294967296" by (simp add: algebra_simps)
    moreover have "unat p < (unat p div 2 ^ k) * 2 ^ k + 2 ^ k"
      by (metis add.commute div_mult_mod_eq mod_less_divisor nat_add_left_cancel_less zero_less_numeral zero_less_power)
    ultimately show ?thesis by linarith
  qed
  then show ?thesis unfolding e using unat_push_bit_1 [OF assms(2)] unat_add_u32 by metis
qed

lemma unat_buddy_odd:
  assumes "odd (unat p div 2 ^ k)" and "k < 32"
  shows "unat (p XOR push_bit k 1) = unat (p :: u32) - 2 ^ k"
proof -
  have b: "bit p k" using assms(1) by (simp add: bit_unat_odd)
  have "push_bit k 1 + (p XOR push_bit k 1) = push_bit k 1 OR (p XOR push_bit k 1)"
    by (rule disjunctive_add)
      (use b assms(2) in \<open>auto simp: bit_xor_iff bit_push_one simp del: push_bit_of_1\<close>)
  also have "\<dots> = p"
    by (rule word32_eqI) (use b assms(2) in \<open>auto simp: bit_xor_iff bit_or_iff bit_push_one simp del: push_bit_of_1\<close>)
  finally have "p XOR push_bit k 1 = p - push_bit k 1" by (metis add_diff_cancel_left')
  moreover have "2 ^ k \<le> unat p"
  proof -
    have "unat p div 2 ^ k \<noteq> 0" using assms(1) by (metis even_zero)
    then show ?thesis by (simp add: div_eq_0_iff)
  qed
  ultimately show ?thesis using unat_push_bit_1 [OF assms(2)] unat_sub_u32 by metis
qed

text \<open>An aligned block is the left or the right half of its parent.\<close>

lemma aligned_half:
  assumes "2 ^ k dvd (i :: nat)"
  obtains (left) j where "i = j * 2 ^ (k + 1)" and "i div 2 ^ (k + 1) = j" and "even (i div 2 ^ k)"
  | (right) j where "i = j * 2 ^ (k + 1) + 2 ^ k" and "i div 2 ^ (k + 1) = j" and "odd (i div 2 ^ k)"
proof -
  obtain m where m: "i = 2 ^ k * m" using assms by (rule dvdE)
  show thesis
  proof (cases "even m")
    case True
    then obtain j where "m = 2 * j" by (rule evenE)
    then have "i = j * 2 ^ (k + 1)" "even (i div 2 ^ k)" by (simp_all add: m)
    then show thesis by (intro left [of j]) simp_all
  next
    case False
    then obtain j where j: "m = 2 * j + 1" by (rule oddE)
    then have i: "i = j * 2 ^ (k + 1) + 2 ^ k" and "odd (i div 2 ^ k)" by (simp_all add: m algebra_simps)
    moreover have "i div 2 ^ (k + 1) = j" unfolding i by simp
    ultimately show thesis by (intro right [of j])
  qed
qed

subsection \<open>Tilings\<close>

lemma tiling_replace:
  assumes t: "tiling mo B" and X: "X \<subseteq> B" and Y: "\<forall>y \<in> Y. well_placed mo y"
    and d: "\<forall>y \<in> Y. \<forall>w \<in> Y. y \<noteq> w \<longrightarrow> pages y \<inter> pages w = {}"
    and u: "\<Union> (pages ` Y) = \<Union> (pages ` X)"
  shows "tiling mo ((B - X) \<union> Y)"
proof -
  have B: "\<And>b c. b \<in> B \<Longrightarrow> c \<in> B \<Longrightarrow> b \<noteq> c \<Longrightarrow> pages b \<inter> pages c = {}"
    and BU: "\<Union> (pages ` B) = {..<2 ^ (mo - 1)}" using t by (auto simp: tiling_def)
  have XY: "pages b \<inter> pages y = {}" if b: "b \<in> B - X" and y: "y \<in> Y" for b y
  proof -
    have "pages b \<inter> \<Union> (pages ` X) = {}" using B b X by blast
    moreover have "pages y \<subseteq> \<Union> (pages ` X)" using u y by blast
    ultimately show ?thesis by blast
  qed
  have "B = (B - X) \<union> X" using X by blast
  then have "\<Union> (pages ` ((B - X) \<union> Y)) = {..<2 ^ (mo - 1)}" using BU u by (metis UN_Un)
  moreover have "pages b \<inter> pages c = {}"
    if "b \<in> (B - X) \<union> Y" "c \<in> (B - X) \<union> Y" and ne: "b \<noteq> c" for b c
    using that(1)
  proof
    assume b: "b \<in> B - X"
    show ?thesis using that(2) B [of b c] XY [OF b, of c] b ne by blast
  next
    assume b: "b \<in> Y"
    have "c \<in> B - X \<Longrightarrow> pages b \<inter> pages c = {}" using XY [OF _ b] by blast
    then show ?thesis using that(2) d b ne by blast
  qed
  ultimately show ?thesis using t Y by (auto simp: tiling_def)
qed

lemma pages_halves: "pages (Suc k, i) = pages (k, i) \<union> pages (k, i + 2 ^ k)"
  by (auto simp: pages_def)

lemma well_placed_half:
  assumes "well_placed mo (Suc k, i)"
  shows "well_placed mo (k, i)" and "well_placed mo (k, i + 2 ^ k)"
proof -
  have "(2 :: nat) ^ k dvd i" using assms by (auto simp: well_placed_def dest: dvd_mult_right)
  then show "well_placed mo (k, i)" "well_placed mo (k, i + 2 ^ k)"
    using assms by (auto simp: well_placed_def)
qed

lemma tiling_split:
  assumes "tiling mo B" and "(Suc k, i) \<in> B"
  shows "tiling mo ((B - {(Suc k, i)}) \<union> {(k, i), (k, i + 2 ^ k)})"
proof (rule tiling_replace [OF assms(1)])
  have "well_placed mo (Suc k, i)" using assms by (auto simp: tiling_def)
  then show "\<forall>y \<in> {(k, i), (k, i + 2 ^ k)}. well_placed mo y" using well_placed_half by blast
qed (use assms(2) in \<open>auto simp: pages_halves pages_def\<close>)

lemma tiling_merge:
  assumes t: "tiling mo B" and b: "(k, j * 2 ^ (k + 1)) \<in> B" "(k, j * 2 ^ (k + 1) + 2 ^ k) \<in> B"
    and k: "k + 1 < mo"
  shows "tiling mo ((B - {(k, j * 2 ^ (k + 1)), (k, j * 2 ^ (k + 1) + 2 ^ k)}) \<union> {(k + 1, j * 2 ^ (k + 1))})"
proof (rule tiling_replace [OF t])
  have "well_placed mo (k, j * 2 ^ (k + 1) + 2 ^ k)" using t b by (auto simp: tiling_def)
  then show "\<forall>y \<in> {(k + 1, j * 2 ^ (k + 1))}. well_placed mo y"
    using k by (auto simp: well_placed_def)
qed (use b in \<open>auto simp: pages_def\<close>)

lemma tiling_disjoint: "tiling mo B \<Longrightarrow> b \<in> B \<Longrightarrow> c \<in> B \<Longrightarrow> x \<in> pages b \<Longrightarrow> x \<in> pages c \<Longrightarrow> b = c"
  unfolding tiling_def by blast

lemma tiling_placed: "tiling mo B \<Longrightarrow> b \<in> B \<Longrightarrow> well_placed mo b"
  by (simp add: tiling_def)

lemma first_page [simp]: "i \<in> pages (k, i)"
  by (simp add: pages_def)

subsection \<open>Moving one block on or off the free lists\<close>

text \<open>
  \<open>flips z k i z'\<close>: block \<open>(k, i)\<close> changed between free and not free, and the bit of its
  pair of buddies, if there is one, changed with it.
\<close>

definition flips :: "buddy \<Rightarrow> nat \<Rightarrow> nat \<Rightarrow> buddy \<Rightarrow> bool" where
  "flips z k i z' \<longleftrightarrow> layout_ok z' \<and> lists_distinct z' \<and> max_orders z' = max_orders z \<and>
     page_order z' = page_order z \<and> used z' = used z \<and> page_cnt z' = page_cnt z \<and>
     (\<forall>b. b \<in> free_blocks z' \<longleftrightarrow> (b \<in> free_blocks z) \<noteq> (b = (k, i))) \<and>
     (\<forall>o' j'. pair_ok (max_orders z) o' j' \<longrightarrow>
        pair_bit z' o' j' = (pair_bit z o' j' \<noteq> (o' = k + 1 \<and> j' = i div 2 ^ (k + 1))))"

lemma free_blocks_iff:
  "(k, i) \<in> free_blocks z \<longleftrightarrow> k < max_orders z \<and> (\<exists>p. p \<in> set (free_list z ! k) \<and> unat p = i)"
  by (auto simp: free_blocks_def)

lemma free_blocks_unat:
  "(k, unat p) \<in> free_blocks z \<longleftrightarrow> k < max_orders z \<and> p \<in> set (free_list z ! k)"
  by (auto simp: free_blocks_iff unat_inj_iff)

lemma flips_bits:
  assumes f: "flips z k i z'" and b: "bits_ok z" and al: "2 ^ k dvd i"
  shows "bits_ok z'"
  unfolding bits_ok_def
proof (intro allI impI)
  fix q j
  assume q: "q + 1 < max_orders z'" and j: "(j + 1) * 2 ^ (q + 1) \<le> zone_pages z'"
  have mo: "max_orders z' = max_orders z" using f by (simp add: flips_def)
  have v: "pair_ok (max_orders z) (q + 1) j"
    using q j by (simp add: pair_ok_def mo zone_pages_def)
  have F: "\<And>b. b \<in> free_blocks z' \<longleftrightarrow> (b \<in> free_blocks z) \<noteq> (b = (k, i))"
    using f unfolding flips_def by blast
  have old: "pair_bit z (q + 1) j = (((q, j * 2 ^ (q + 1)) \<in> free_blocks z) \<noteq>
      ((q, j * 2 ^ (q + 1) + 2 ^ q) \<in> free_blocks z))"
    using b q j by (simp add: bits_ok_def mo zone_pages_def)
  have new: "pair_bit z' (q + 1) j = (pair_bit z (q + 1) j \<noteq> (q = k \<and> j = i div 2 ^ (k + 1)))"
    using f v by (simp add: flips_def)
  show "pair_bit z' (q + 1) j = (((q, j * 2 ^ (q + 1)) \<in> free_blocks z') \<noteq>
      ((q, j * 2 ^ (q + 1) + 2 ^ q) \<in> free_blocks z'))"
  proof (cases "q = k \<and> j = i div 2 ^ (k + 1)")
    case True
    from al show ?thesis
    proof (cases rule: aligned_half)
      case (left m)
      then show ?thesis unfolding new old F using True by auto
    next
      case (right m)
      then show ?thesis unfolding new old F using True by auto
    qed
  next
    case False
    have "(q, j * 2 ^ (q + 1)) \<noteq> (k, i)" using False by auto
    moreover have "(q, j * 2 ^ (q + 1) + 2 ^ q) \<noteq> (k, i)" using False by auto
    ultimately show ?thesis unfolding new old F using False by simp
  qed
qed

text \<open>The toggle and the list change of the code together are such a flip.\<close>

definition toggled :: "buddy \<Rightarrow> nat \<Rightarrow> nat \<Rightarrow> buddy \<Rightarrow> bool" where
  "toggled z k i z1 \<longleftrightarrow> (\<exists>ws. z1 = z\<lparr>bmap := ws\<rparr> \<and> length ws = length (bmap z)) \<and>
     (\<forall>o' j'. pair_ok (max_orders z) o' j' \<longrightarrow>
        pair_bit z1 o' j' = (pair_bit z o' j' \<noteq> (o' = k + 1 \<and> j' = i div 2 ^ (k + 1))))"

lemma pair_ok_parent:
  assumes "well_placed mo (k, i)" and "k + 1 < mo"
  shows "pair_ok mo (k + 1) (i div 2 ^ (k + 1))"
proof -
  have dv: "(2 :: nat) ^ (k + 1) dvd 2 ^ (mo - 1)" using assms(2) by (intro le_imp_power_dvd) simp
  then obtain m where m: "(2 :: nat) ^ (mo - 1) = 2 ^ (k + 1) * m" by (rule dvdE)
  have "0 < (2 :: nat) ^ k" "i + 2 ^ k \<le> 2 ^ (mo - 1)"
    using assms(1) by (simp_all add: well_placed_def)
  then have "i < 2 ^ (mo - 1)" by linarith
  then have "i div 2 ^ (k + 1) < m" unfolding m by (simp add: less_mult_imp_div_less mult.commute)
  then have "(i div 2 ^ (k + 1) + 1) * 2 ^ (k + 1) \<le> m * 2 ^ (k + 1)" by (intro mult_right_mono) auto
  then show ?thesis using assms(2) m by (simp add: pair_ok_def mult.commute)
qed

lemma toggle_parent:
  assumes "layout_ok z" and "well_placed (max_orders z) (k, unat p)" and "k + 1 < max_orders z"
  shows "\<exists>z1. toggle_map (k + 1) (get_parent_bit p k) z = Inr z1 \<and> toggled z k (unat p) z1"
  using toggle_map_ok [OF assms(1) pair_ok_parent [OF assms(2,3)]]
  unfolding get_parent_bit_div toggled_def by auto

lemma toggled_top: "well_placed (max_orders z) (k, i) \<Longrightarrow> \<not> k + 1 < max_orders z \<Longrightarrow> toggled z k i z"
  by (auto simp: toggled_def pair_ok_def well_placed_def intro: exI [of _ "bmap z"])

lemma pair_bit_upd [simp]: "pair_bit (z\<lparr>free_list := fl\<rparr>) k j = pair_bit z k j"
  by (simp add: pair_bit_def)

lemma flips_toggled:
  assumes t: "toggled z k i z1" and l: "layout_ok z"
    and fl: "length fl = max_orders z" "\<forall>l \<in> set fl. distinct l"
    and F: "\<And>b. b \<in> free_blocks (z1\<lparr>free_list := fl\<rparr>) \<longleftrightarrow> (b \<in> free_blocks z) \<noteq> (b = (k, i))"
  shows "flips z k i (z1\<lparr>free_list := fl\<rparr>)"
  using assms unfolding toggled_def flips_def layout_ok_def lists_distinct_def by auto

lemma free_blocks_bmap [simp]: "free_blocks (z\<lparr>bmap := ws\<rparr>) = free_blocks z"
  by (simp add: free_blocks_def)

lemma flips_add:
  assumes t: "toggled z k (unat p) z1" and l: "layout_ok z" and d: "lists_distinct z"
    and k: "k < max_orders z" and n: "(k, unat p) \<notin> free_blocks z"
  shows "flips z k (unat p) (add_free k p z1)"
proof -
  obtain ws where z1: "z1 = z\<lparr>bmap := ws\<rparr>" using t by (auto simp: toggled_def)
  have len: "length (free_list z) = max_orders z" using l by (simp add: layout_ok_def)
  let ?fl = "(free_list z)[k := p # free_list z ! k]"
  have "free_list z ! k \<in> set (free_list z)" using k len by simp
  then have dk: "distinct (p # free_list z ! k)"
    using d n k by (simp add: lists_distinct_def free_blocks_unat)
  have "flips z k (unat p) (z1\<lparr>free_list := ?fl\<rparr>)"
  proof (rule flips_toggled [OF t l])
    show "\<forall>l \<in> set ?fl. distinct l"
      using dk d by (intro ball_list_update) (auto simp: lists_distinct_def)
    show "b \<in> free_blocks (z1\<lparr>free_list := ?fl\<rparr>) \<longleftrightarrow> (b \<in> free_blocks z) \<noteq> (b = (k, unat p))" for b
      using n k len by (cases b) (auto simp: z1 free_blocks_iff nth_list_update unat_inj_iff)
  qed (simp add: len)
  then show ?thesis by (simp add: add_free_def z1)
qed

lemma flips_tl:
  assumes t: "toggled z k (unat p) z1" and l: "layout_ok z" and d: "lists_distinct z"
    and k: "k < max_orders z" and p: "free_list z ! k \<noteq> []" "p = hd (free_list z ! k)"
  shows "flips z k (unat p) (z1\<lparr>free_list := (free_list z1)[k := tl (free_list z1 ! k)]\<rparr>)"
proof -
  obtain ws where z1: "z1 = z\<lparr>bmap := ws\<rparr>" using t by (auto simp: toggled_def)
  have len: "length (free_list z) = max_orders z" using l by (simp add: layout_ok_def)
  let ?fl = "(free_list z)[k := tl (free_list z ! k)]"
  obtain ps where ps: "free_list z ! k = p # ps" using p by (cases "free_list z ! k") auto
  have "free_list z ! k \<in> set (free_list z)" using k len by simp
  then have dk: "distinct (p # ps)" using d ps by (auto simp: lists_distinct_def)
  have "flips z k (unat p) (z1\<lparr>free_list := ?fl\<rparr>)"
  proof (rule flips_toggled [OF t l])
    show "\<forall>l \<in> set ?fl. distinct l"
      using dk ps d by (intro ball_list_update) (auto simp: lists_distinct_def)
    show "b \<in> free_blocks (z1\<lparr>free_list := ?fl\<rparr>) \<longleftrightarrow> (b \<in> free_blocks z) \<noteq> (b = (k, unat p))" for b
      using dk k len ps by (cases b) (auto simp: z1 free_blocks_iff nth_list_update unat_inj_iff)
  qed (simp add: len)
  then show ?thesis by (simp add: z1)
qed

lemma flips_delete:
  assumes t: "toggled z k (unat p) z1" and l: "layout_ok z" and d: "lists_distinct z"
    and n: "(k, unat p) \<in> free_blocks z"
    and u: "\<And>q. (q, unat p) \<in> free_blocks z \<Longrightarrow> q = k"
  shows "\<exists>z2. delete_page p z1 = Inr z2 \<and> flips z k (unat p) z2"
proof -
  obtain ws where z1: "z1 = z\<lparr>bmap := ws\<rparr>" using t by (auto simp: toggled_def)
  have len: "length (free_list z) = max_orders z" using l by (simp add: layout_ok_def)
  have k: "k < max_orders z" "p \<in> set (free_list z ! k)" using n by (simp_all add: free_blocks_unat)
  let ?fl = "map (remove1 p) (free_list z)"
  have dl: "q < max_orders z \<Longrightarrow> distinct (free_list z ! q)" for q
    using d len by (simp add: lists_distinct_def)
  have fl: "flips z k (unat p) (z1\<lparr>free_list := ?fl\<rparr>)"
  proof (rule flips_toggled [OF t l])
    show "\<forall>l \<in> set ?fl. distinct l" using d by (auto simp: lists_distinct_def)
    show "b \<in> free_blocks (z1\<lparr>free_list := ?fl\<rparr>) \<longleftrightarrow> (b \<in> free_blocks z) \<noteq> (b = (k, unat p))" for b
    proof (cases b)
      case (Pair q i)
      have "q < max_orders z \<Longrightarrow> p \<in> set (free_list z ! q) \<Longrightarrow> q = k"
        using u [of q] by (simp add: free_blocks_unat)
      then show ?thesis using Pair k len dl [of q]
        by (auto simp: z1 free_blocks_iff unat_inj_iff)
    qed
  qed (simp add: len)
  moreover have "\<exists>l \<in> set (free_list z). p \<in> set l" using k len by (metis nth_mem)
  ultimately show ?thesis by (simp add: delete_page_def z1)
qed

subsection \<open>The four elementary steps\<close>

lemma flips_out_set: "flips z k i z' \<Longrightarrow> (k, i) \<in> free_blocks z \<Longrightarrow> free_blocks z' = free_blocks z - {(k, i)}"
  unfolding flips_def by blast

lemma flips_in_set: "flips z k i z' \<Longrightarrow> (k, i) \<notin> free_blocks z \<Longrightarrow> free_blocks z' = insert (k, i) (free_blocks z)"
  unfolding flips_def by blast

lemma flips_same:
  "flips z k i z' \<Longrightarrow> layout_ok z' \<and> lists_distinct z' \<and> max_orders z' = max_orders z \<and>
     page_order z' = page_order z \<and> used z' = used z \<and> page_cnt z' = page_cnt z"
  unfolding flips_def by blast

lemma core_placed: "core_inv z A \<Longrightarrow> b \<in> free_blocks z \<union> A \<Longrightarrow> well_placed (max_orders z) b"
  by (auto simp: core_inv_def intro: tiling_placed)

lemma no_buddies_subset:
  "no_buddies_free z \<Longrightarrow> free_blocks z' \<subseteq> free_blocks z \<Longrightarrow> max_orders z' = max_orders z \<Longrightarrow>
     no_buddies_free z'"
  unfolding no_buddies_free_def by (metis subsetD)

lemma core_take:
  assumes c: "core_inv z A" and f: "flips z k i z'" and m: "(k, i) \<in> free_blocks z"
  shows "core_inv z' (insert (k, i) A)" and "(k, i) \<notin> A"
proof -
  note F = flips_out_set [OF f m] and same = flips_same [OF f]
  have "2 ^ k dvd i" using core_placed [OF c, of "(k, i)"] m by (simp add: well_placed_def)
  then have "bits_ok z'" using flips_bits [OF f] c by (simp add: core_inv_def)
  moreover have "free_blocks z' \<union> insert (k, i) A = free_blocks z \<union> A" using F m by blast
  moreover have "no_buddies_free z'"
    using no_buddies_subset [of z z'] c F same by (auto simp: core_inv_def)
  ultimately show "core_inv z' (insert (k, i) A)" using c F same by (auto simp: core_inv_def)
  show "(k, i) \<notin> A" using c m by (auto simp: core_inv_def)
qed

lemma core_split:
  assumes c: "core_inv z (insert (Suc k, i) A)" and n: "(Suc k, i) \<notin> A"
    and f: "flips z k (i + 2 ^ k) z'"
  shows "core_inv z' (insert (k, i) A)" and "(k, i) \<notin> A"
proof -
  let ?B = "free_blocks z \<union> insert (Suc k, i) A"
  have t: "tiling (max_orders z) ?B" and dj: "free_blocks z \<inter> insert (Suc k, i) A = {}"
    using c by (auto simp: core_inv_def)
  have in_hand: "(Suc k, i) \<in> ?B" by simp
  have part: "i \<in> pages (Suc k, i)" "i + 2 ^ k \<in> pages (Suc k, i)" by (auto simp: pages_def)
  have ki: "(k, i) \<notin> ?B" "(k, i + 2 ^ k) \<notin> ?B"
    using tiling_disjoint [OF t in_hand _ part(1), of "(k, i)"]
      tiling_disjoint [OF t in_hand _ part(2), of "(k, i + 2 ^ k)"] by auto
  then show "(k, i) \<notin> A" by simp
  have F: "free_blocks z' = insert (k, i + 2 ^ k) (free_blocks z)"
    using ki by (intro flips_in_set [OF f]) simp
  note same = flips_same [OF f]
  have wp: "well_placed (max_orders z) (Suc k, i)" using tiling_placed [OF t in_hand] .
  have al: "2 ^ Suc k dvd i" using wp by (simp add: well_placed_def)
  then have "2 ^ k dvd i + 2 ^ k" using well_placed_half(2) [OF wp] by (simp add: well_placed_def)
  then have bits: "bits_ok z'" using flips_bits [OF f] c by (simp add: core_inv_def)
  have "free_blocks z' \<union> insert (k, i) A = (?B - {(Suc k, i)}) \<union> {(k, i), (k, i + 2 ^ k)}"
    using F n dj by auto
  then have t': "tiling (max_orders z) (free_blocks z' \<union> insert (k, i) A)"
    using tiling_split [OF t in_hand] by simp
  have nb: "no_buddies_free z'"
    unfolding no_buddies_free_def
  proof (intro allI impI)
    fix q j
    assume q: "q + 1 < max_orders z'"
    have old: "\<not> ((q, j * 2 ^ (q + 1)) \<in> free_blocks z \<and> (q, j * 2 ^ (q + 1) + 2 ^ q) \<in> free_blocks z)"
      using c q same by (auto simp: core_inv_def no_buddies_free_def)
    have odd_part: "j * 2 ^ (k + 1) \<noteq> i + 2 ^ k"
    proof
      assume "j * 2 ^ (k + 1) = i + 2 ^ k"
      then have "2 ^ Suc k dvd i + 2 ^ k" by (metis Suc_eq_plus1 dvd_triv_right)
      then have "(2 :: nat) ^ Suc k dvd 2 ^ k" using al by (simp add: dvd_add_right_iff)
      then show False using power_dvd_imp_le [of "2 :: nat" "Suc k" k] by simp
    qed
    show "\<not> ((q, j * 2 ^ (q + 1)) \<in> free_blocks z' \<and> (q, j * 2 ^ (q + 1) + 2 ^ q) \<in> free_blocks z')"
      using old odd_part ki by (auto simp: F)
  qed
  have "free_blocks z' \<inter> insert (k, i) A = {}" using F ki dj by auto
  then show "core_inv z' (insert (k, i) A)"
    using t' bits nb same by (simp add: core_inv_def)
qed

lemma core_merge_left:
  assumes c: "core_inv z (insert (k, i) A)" and n: "(k, i) \<notin> A" and k: "k + 1 < max_orders z"
    and m: "(k, b) \<in> free_blocks z" and f: "flips z k b z'"
    and h: "i = j * 2 ^ (k + 1) \<and> b = j * 2 ^ (k + 1) + 2 ^ k \<or>
            b = j * 2 ^ (k + 1) \<and> i = j * 2 ^ (k + 1) + 2 ^ k"
  shows "core_inv z' (insert (k + 1, j * 2 ^ (k + 1)) A)" and "(k + 1, j * 2 ^ (k + 1)) \<notin> A"
proof -
  let ?B = "free_blocks z \<union> insert (k, i) A" and ?u = "(k + 1, j * 2 ^ (k + 1))"
  let ?X = "{(k, j * 2 ^ (k + 1)), (k, j * 2 ^ (k + 1) + 2 ^ k)}"
  have t: "tiling (max_orders z) ?B" and dj: "free_blocks z \<inter> insert (k, i) A = {}"
    using c by (auto simp: core_inv_def)
  have X: "?X = {(k, i), (k, b)}" using h by auto
  have in_B: "(k, i) \<in> ?B" "(k, b) \<in> ?B" using m by auto
  note F = flips_out_set [OF f m] and same = flips_same [OF f]
  have "i \<in> pages ?u" using h by (auto simp: pages_def)
  then have u: "?u \<notin> ?B" using tiling_disjoint [OF t in_B(1), of ?u i] by auto
  then show "?u \<notin> A" by simp
  have "2 ^ k dvd b" using core_placed [OF c, of "(k, b)"] m by (simp add: well_placed_def)
  then have bits: "bits_ok z'" using flips_bits [OF f] c by (simp add: core_inv_def)
  have "(k, b) \<notin> A" using m dj by auto
  then have "free_blocks z' \<union> insert ?u A = (?B - ?X) \<union> {?u}"
    unfolding X F using n dj by auto
  moreover have hx: "?X \<subseteq> ?B" unfolding X using in_B by blast
  have "(k, j * 2 ^ (k + 1)) \<in> ?B" "(k, j * 2 ^ (k + 1) + 2 ^ k) \<in> ?B" using hx by blast+
  from tiling_merge [OF t this k] have "tiling (max_orders z) ((?B - ?X) \<union> {?u})" .
  moreover have "no_buddies_free z'"
    using no_buddies_subset [of z z'] c F same by (auto simp: core_inv_def)
  moreover have "free_blocks z' \<inter> insert ?u A = {}" using F u dj by auto
  ultimately show "core_inv z' (insert ?u A)" using bits same by (simp add: core_inv_def)
qed

lemma core_put:
  assumes c: "core_inv z (insert (k, i) A)" and n: "(k, i) \<notin> A" and f: "flips z k i z'"
    and b: "\<And>j. k + 1 < max_orders z \<Longrightarrow> i = j * 2 ^ (k + 1) \<Longrightarrow> (k, i + 2 ^ k) \<notin> free_blocks z"
      "\<And>j. k + 1 < max_orders z \<Longrightarrow> i = j * 2 ^ (k + 1) + 2 ^ k \<Longrightarrow> (k, j * 2 ^ (k + 1)) \<notin> free_blocks z"
  shows "core_inv z' A"
proof -
  have t: "tiling (max_orders z) (free_blocks z \<union> insert (k, i) A)"
    and dj: "free_blocks z \<inter> insert (k, i) A = {}"
    using c by (auto simp: core_inv_def)
  have F: "free_blocks z' = insert (k, i) (free_blocks z)"
    using dj by (intro flips_in_set [OF f]) auto
  note same = flips_same [OF f]
  have "2 ^ k dvd i" using core_placed [OF c, of "(k, i)"] by (simp add: well_placed_def)
  then have bits: "bits_ok z'" using flips_bits [OF f] c by (simp add: core_inv_def)
  have "no_buddies_free z'"
    unfolding no_buddies_free_def
  proof (intro allI impI)
    fix q j
    assume q: "q + 1 < max_orders z'"
    have old: "\<not> ((q, j * 2 ^ (q + 1)) \<in> free_blocks z \<and> (q, j * 2 ^ (q + 1) + 2 ^ q) \<in> free_blocks z)"
      using c q same by (auto simp: core_inv_def no_buddies_free_def)
    show "\<not> ((q, j * 2 ^ (q + 1)) \<in> free_blocks z' \<and> (q, j * 2 ^ (q + 1) + 2 ^ q) \<in> free_blocks z')"
    proof (cases "q = k")
      case True
      have mo: "k + 1 < max_orders z" using q True same by simp
      have ne: "j * 2 ^ (k + 1) \<noteq> j * 2 ^ (k + 1) + 2 ^ k" by simp
      show ?thesis
      proof
        assume both: "(q, j * 2 ^ (q + 1)) \<in> free_blocks z' \<and> (q, j * 2 ^ (q + 1) + 2 ^ q) \<in> free_blocks z'"
        then consider "i = j * 2 ^ (k + 1)" | "i = j * 2 ^ (k + 1) + 2 ^ k"
          using old True unfolding F by blast
        then show False
        proof cases
          case 1
          then show ?thesis using b(1) [OF mo 1] both True ne unfolding F by (metis insertE prod.inject)
        next
          case 2
          then show ?thesis using b(2) [OF mo 2] both True ne unfolding F by (metis insertE prod.inject)
        qed
      qed
    qed (use old in \<open>simp add: F\<close>)
  qed
  moreover have "free_blocks z' \<union> A = free_blocks z \<union> insert (k, i) A" using F by auto
  moreover have "free_blocks z' \<inter> A = {}" using F n dj by auto
  ultimately show ?thesis using t bits same by (simp add: core_inv_def)
qed

subsection \<open>The loops\<close>

definition same_zone :: "buddy \<Rightarrow> buddy \<Rightarrow> bool" where
  "same_zone z z' \<longleftrightarrow> max_orders z' = max_orders z \<and> page_order z' = page_order z \<and>
     used z' = used z \<and> page_cnt z' = page_cnt z"

lemma same_zone_trans: "same_zone a b \<Longrightarrow> same_zone b c \<Longrightarrow> same_zone a c"
  by (simp add: same_zone_def)

lemma flips_same_zone: "flips z k i z' \<Longrightarrow> same_zone z z'"
  using flips_same by (simp add: same_zone_def)

lemma core_layout: "core_inv z A \<Longrightarrow> layout_ok z \<and> lists_distinct z"
  by (simp add: core_inv_def)

lemma core_order_bound: "core_inv z A \<Longrightarrow> max_orders z \<le> 32"
  by (simp add: core_inv_def layout_ok_def)

lemma placed_bound:
  assumes "well_placed mo (k, i)" and "mo \<le> 32"
  shows "i + 2 ^ k \<le> 2147483648" and "k < 32"
proof -
  have "(2 :: nat) ^ (mo - 1) \<le> 2 ^ 31" using assms(2) by (intro power_increasing) auto
  then show "i + 2 ^ k \<le> 2147483648" using assms(1) by (simp add: well_placed_def)
  show "k < 32" using assms by (simp add: well_placed_def)
qed

lemma aligned_div_add:
  assumes "2 ^ Suc k dvd (i :: nat)"
  shows "(i + 2 ^ k) div 2 ^ (k + 1) = i div 2 ^ (k + 1)"
proof -
  obtain m where "i = 2 ^ Suc k * m" using assms by (rule dvdE)
  then show ?thesis by simp
qed

lemma split_block_ok:
  "core_inv z (insert (order + n, unat p) A) \<Longrightarrow> (order + n, unat p) \<notin> A \<Longrightarrow>
     \<exists>z'. split_block n (order + n) p z = Inr z' \<and> same_zone z z' \<and>
       core_inv z' (insert (order, unat p) A) \<and> (order, unat p) \<notin> A"
proof (induction n arbitrary: z)
  case 0
  then show ?case by (simp add: same_zone_def)
next
  case (Suc n)
  let ?c = "order + n" and ?i = "unat p"
  have c: "core_inv z (insert (Suc ?c, ?i) A)" and n: "(Suc ?c, ?i) \<notin> A" using Suc.prems by simp_all
  note l = core_layout [OF c] and mo = core_order_bound [OF c]
  have wp: "well_placed (max_orders z) (Suc ?c, ?i)" using core_placed [OF c] by simp
  note wh = well_placed_half [OF wp]
  have cm: "?c + 1 < max_orders z" using wp by (simp add: well_placed_def)
  obtain z1 where z1: "toggle_map (?c + 1) (get_parent_bit p ?c) z = Inr z1" "toggled z ?c ?i z1"
    using toggle_parent [OF _ wh(1) cm] l by blast
  have up: "unat (p + push_bit ?c 1) = ?i + 2 ^ ?c"
    using placed_bound [OF wh(2) mo] unat_push_bit_1 [of ?c] by (simp add: unat_add_u32)
  have al: "2 ^ Suc ?c dvd ?i" using wp by (simp add: well_placed_def)
  have t: "toggled z ?c (unat (p + push_bit ?c 1)) z1"
    using z1(2) unfolding up toggled_def aligned_div_add [OF al] .
  have fresh: "(?c, unat (p + push_bit ?c 1)) \<notin> free_blocks z"
  proof
    assume "(?c, unat (p + push_bit ?c 1)) \<in> free_blocks z"
    then have B: "(?c, ?i + 2 ^ ?c) \<in> free_blocks z \<union> insert (Suc ?c, ?i) A" unfolding up by blast
    have T: "tiling (max_orders z) (free_blocks z \<union> insert (Suc ?c, ?i) A)"
      using c by (simp add: core_inv_def)
    have "(?c, ?i + 2 ^ ?c) = (Suc ?c, ?i)"
      by (rule tiling_disjoint [OF T B, where x = "?i + 2 ^ ?c"]) (auto simp: pages_def)
    then show False by simp
  qed
  have "flips z ?c (?i + 2 ^ ?c) (add_free ?c (p + push_bit ?c 1) z1)"
    using flips_add [OF t] l cm fresh unfolding up by simp
  note f = this core_split [OF c n this]
  obtain z' where z': "split_block n ?c p (add_free ?c (p + push_bit ?c 1) z1) = Inr z'"
      "same_zone (add_free ?c (p + push_bit ?c 1) z1) z'"
      "core_inv z' (insert (order, unat p) A) \<and> (order, unat p) \<notin> A"
    using Suc.IH [OF f(2,3)] by blast
  have "split_block (Suc n) (order + Suc n) p z = Inr z'"
    using z1(1) z'(1) by (simp add: Let_def del: push_bit_of_1)
  then show ?case using z' same_zone_trans [OF flips_same_zone [OF f(1)]] by blast
qed

lemma find_order_spec:
  "find_order ls k = k + length ls \<and> (\<forall>l \<in> set ls. l = []) \<or>
   (\<exists>m < length ls. find_order ls k = k + m \<and> ls ! m \<noteq> [] \<and> (\<forall>j < m. ls ! j = []))"
proof (induction ls arbitrary: k)
  case (Cons l ls)
  show ?case
  proof (cases "l = []")
    case True
    from Cons.IH [of "k + 1"] show ?thesis
    proof
      assume "find_order ls (k + 1) = k + 1 + length ls \<and> (\<forall>l\<in>set ls. l = [])"
      then show ?thesis using True by simp
    next
      assume "\<exists>m < length ls. find_order ls (k + 1) = k + 1 + m \<and> ls ! m \<noteq> [] \<and> (\<forall>j < m. ls ! j = [])"
      then obtain m where "m < length ls" "find_order ls (k + 1) = k + 1 + m" "ls ! m \<noteq> []"
        "\<forall>j < m. ls ! j = []" by blast
      then have "Suc m < length (l # ls) \<and> find_order (l # ls) k = k + Suc m \<and>
          (l # ls) ! Suc m \<noteq> [] \<and> (\<forall>j < Suc m. (l # ls) ! j = [])"
        using True by (auto simp: nth_Cons split: nat.split)
      then show ?thesis by blast
    qed
  next
    case False
    then have "0 < length (l # ls) \<and> find_order (l # ls) k = k + 0 \<and> (l # ls) ! 0 \<noteq> []" by simp
    then show ?thesis by (metis not_less_zero)
  qed
qed simp

lemma find_order_lists:
  assumes "length fl = mo" and "c = find_order (drop order fl) order"
  shows "order \<le> c"
    and "mo \<le> c \<Longrightarrow> order \<le> k \<Longrightarrow> k < mo \<Longrightarrow> fl ! k = []"
    and "c < mo \<Longrightarrow> fl ! c \<noteq> []"
    and "c < mo \<Longrightarrow> order \<le> k \<Longrightarrow> k < c \<Longrightarrow> fl ! k = []"
proof -
  note S = find_order_spec [of "drop order fl" order, folded assms(2)]
  show "order \<le> c" using S by auto
  show "fl ! k = []" if "mo \<le> c" "order \<le> k" "k < mo"
  proof -
    have all: "\<forall>l \<in> set (drop order fl). l = []" using S that assms(1) by auto
    have "drop order fl ! (k - order) = fl ! k" "k - order < length (drop order fl)"
      using that assms(1) by auto
    then show ?thesis using all by (metis nth_mem)
  qed
  show "fl ! c \<noteq> []" if "c < mo"
    using S that assms(1) by (cases "order \<le> mo") auto
  show "fl ! k = []" if k: "c < mo" "order \<le> k" "k < c"
  proof -
    obtain m where m: "m < length (drop order fl)" "c = order + m" "\<forall>j < m. drop order fl ! j = []"
      using S k(1) assms(1) by (cases "order \<le> mo") auto
    then have "k - order < m" using k by linarith
    then have "drop order fl ! (k - order) = []" using m(3) by blast
    then show ?thesis using k m(1) by simp
  qed
qed

lemma free_blocks_empty: "k < max_orders z \<Longrightarrow> free_list z ! k = [] \<longleftrightarrow> (\<forall>i. (k, i) \<notin> free_blocks z)"
  by (auto simp: free_blocks_iff) (metis list.set_intros(1) neq_Nil_conv)

lemma buddy_alloc_core:
  assumes c: "core_inv z A" and k: "order \<le> k" "(k, i) \<in> free_blocks z"
  shows "\<exists>p z'. buddy_alloc_pages order z
      = Inr (p, z'\<lparr>page_order := (page_order z)(p := order), used := used z + push_bit order 1 * 4096\<rparr>) \<and>
    core_inv z' (insert (order, unat p) A) \<and> (order, unat p) \<notin> A \<and> same_zone z z'"
proof -
  note l = core_layout [OF c]
  have len: "length (free_list z) = max_orders z" using l by (simp add: layout_ok_def)
  define q where "q = find_order (drop order (free_list z)) order"
  note fo = find_order_lists [OF len q_def]
  have kmo: "k < max_orders z" using k(2) by (simp add: free_blocks_iff)
  have q: "q < max_orders z"
    using fo(2) [OF _ k(1) kmo] k(2) free_blocks_empty [OF kmo] by fastforce
  define p where "p = hd (free_list z ! q)"
  have ne: "free_list z ! q \<noteq> []" using fo(3) q by simp
  then have m: "(q, unat p) \<in> free_blocks z" using q by (simp add: free_blocks_unat p_def)
  have wp: "well_placed (max_orders z) (q, unat p)" using core_placed [OF c] m by simp
  obtain z1 where z1: "(if q < max_orders z - 1 then toggle_map (q + 1) (get_parent_bit p q) z
        else Inr z) = Inr z1" "toggled z q (unat p) z1"
  proof (cases "q + 1 < max_orders z")
    case True
    then have "q < max_orders z - 1" by simp
    moreover obtain z1 where "toggle_map (q + 1) (get_parent_bit p q) z = Inr z1" "toggled z q (unat p) z1"
      using toggle_parent [OF _ wp True] l by blast
    ultimately show thesis by (intro that [of z1]) (simp_all only: if_True)
  next
    case False
    then have "\<not> q < max_orders z - 1" by simp
    then show thesis using toggled_top [OF wp False] by (intro that [of z]) (simp_all only: if_False)
  qed
  let ?z2 = "z1\<lparr>free_list := (free_list z1)[q := tl (free_list z1 ! q)]\<rparr>"
  have f: "flips z q (unat p) ?z2" using flips_tl [OF z1(2)] l q ne p_def by simp
  note t = core_take [OF c f m]
  have qn: "q = order + (q - order)" using fo(1) by simp
  obtain z3 where z3: "split_block (q - order) q p ?z2 = Inr z3" "same_zone ?z2 z3"
      "core_inv z3 (insert (order, unat p) A)" "(order, unat p) \<notin> A"
    using split_block_ok [of ?z2 order "q - order" p A] t fo(1) by auto
  have sz: "same_zone z z3" using same_zone_trans [OF flips_same_zone [OF f] z3(2)] .
  have "buddy_alloc_pages order z
      = Inr (p, z3\<lparr>page_order := (page_order z)(p := order), used := used z + push_bit order 1 * 4096\<rparr>)"
    unfolding buddy_alloc_pages_def Let_def q_def [symmetric] p_def [symmetric] z1(1)
    using q z3(1) sz by (simp add: same_zone_def del: push_bit_of_1)
  then show ?thesis using z3 sz by blast
qed

lemma buddy_alloc_fails:
  assumes c: "core_inv z A" and k: "\<And>k i. order \<le> k \<Longrightarrow> (k, i) \<notin> free_blocks z"
  shows "buddy_alloc_pages order z = Inl (Panic ''Buddy allocator out of memory'')"
proof -
  have len: "length (free_list z) = max_orders z" using core_layout [OF c] by (simp add: layout_ok_def)
  define q where "q = find_order (drop order (free_list z)) order"
  note fo = find_order_lists [OF len q_def]
  have "max_orders z \<le> q"
    using fo(1,3) k free_blocks_empty [of q z] by (metis linorder_not_less)
  then show ?thesis by (simp add: buddy_alloc_pages_def Let_def q_def)
qed

lemma placed_fresh:
  "core_inv z (insert b A) \<Longrightarrow> (k, snd b) \<notin> free_blocks z"
proof
  assume c: "core_inv z (insert b A)" and m: "(k, snd b) \<in> free_blocks z"
  then have t: "tiling (max_orders z) (free_blocks z \<union> insert b A)"
    and dj: "free_blocks z \<inter> insert b A = {}" by (auto simp: core_inv_def)
  have "(k, snd b) \<in> free_blocks z \<union> insert b A" using m by blast
  moreover have "snd b \<in> pages b" by (cases b) simp
  ultimately have "b = (k, snd b)"
    using tiling_disjoint [OF t, of b "(k, snd b)" "snd b"] by auto
  then show False using m dj by (metis IntI empty_iff insertI1)
qed

lemma free_block_order: "core_inv z A \<Longrightarrow> (k, i) \<in> free_blocks z \<Longrightarrow> (q, i) \<in> free_blocks z \<Longrightarrow> q = k"
proof -
  assume c: "core_inv z A" and m: "(k, i) \<in> free_blocks z" "(q, i) \<in> free_blocks z"
  then have "tiling (max_orders z) (free_blocks z \<union> A)" by (simp add: core_inv_def)
  from tiling_disjoint [OF this, of "(q, i)" "(k, i)" i] m show ?thesis by auto
qed

text \<open>
  One round at order \<open>k\<close> with the block \<open>(k, unat p)\<close> in hand: the bit tells whether its
  buddy is free.
\<close>

lemma round_bit:
  assumes c: "core_inv z (insert (k, unat p) A)" and k: "k + 1 < max_orders z"
  obtains v z1 b where
    "get_bit (get_parent_bit p k) (map_off z ! (k + 1)) (bmap z) = Inr v"
    "toggle_map (k + 1) (get_parent_bit p k) z = Inr z1"
    "toggled z k (unat p) z1" "b = unat (p XOR push_bit k 1)"
    "v \<noteq> 0 \<longleftrightarrow> (k, b) \<in> free_blocks z" "b div 2 ^ (k + 1) = unat p div 2 ^ (k + 1)"
    "unat p = unat p div 2 ^ (k + 1) * 2 ^ (k + 1) \<and> b = unat p + 2 ^ k \<or>
     b = unat p div 2 ^ (k + 1) * 2 ^ (k + 1) \<and> unat p = b + 2 ^ k"
proof -
  let ?j = "unat p div 2 ^ (k + 1)" and ?b = "unat (p XOR push_bit k 1)"
  note l = core_layout [OF c]
  have wp: "well_placed (max_orders z) (k, unat p)" using core_placed [OF c] by simp
  have k32: "k < 32" using placed_bound(2) [OF wp core_order_bound [OF c]] .
  have dv: "2 ^ k dvd unat p" using wp by (simp add: well_placed_def)
  have po: "pair_ok (max_orders z) (k + 1) ?j" by (rule pair_ok_parent [OF wp k])
  obtain v where v: "get_bit (get_parent_bit p k) (map_off z ! (k + 1)) (bmap z) = Inr v"
      "v \<noteq> 0 \<longleftrightarrow> pair_bit z (k + 1) ?j"
    using get_bit_ok [OF _ po] l unfolding get_parent_bit_div by blast
  obtain z1 where z1: "toggle_map (k + 1) (get_parent_bit p k) z = Inr z1" "toggled z k (unat p) z1"
    using toggle_parent [OF _ wp k] l by blast
  have nf: "(k, unat p) \<notin> free_blocks z" using placed_fresh [OF c] by simp
  have bit: "pair_bit z (k + 1) ?j = (((k, ?j * 2 ^ (k + 1)) \<in> free_blocks z) \<noteq>
      ((k, ?j * 2 ^ (k + 1) + 2 ^ k) \<in> free_blocks z))"
    using c k po unfolding core_inv_def bits_ok_def pair_ok_def zone_pages_def by blast
  show thesis
    using dv
  proof (cases rule: aligned_half)
    case (left j)
    then have b: "?b = unat p + 2 ^ k" using unat_buddy_even k32 by blast
    have "(v \<noteq> 0) = ((k, ?b) \<in> free_blocks z)"
      using v(2) bit nf left b by (metis (no_types, lifting))
    moreover have "?b div 2 ^ (k + 1) = ?j" using left b by simp
    ultimately show thesis using v z1 left b by (intro that [of v z1 ?b]) auto
  next
    case (right j)
    then have "?b = unat p - 2 ^ k" using unat_buddy_odd k32 by blast
    then have b: "?b = j * 2 ^ (k + 1)" using right by simp
    have "(v \<noteq> 0) = ((k, ?b) \<in> free_blocks z)"
      using v(2) bit nf right b by (metis (no_types, lifting))
    moreover have "?b div 2 ^ (k + 1) = ?j" using right b by simp
    ultimately show thesis using v z1 right b by (intro that [of v z1 ?b]) auto
  qed
qed

lemma merge_blocks_ok:
  "core_inv z (insert (k, unat p) A) \<Longrightarrow> (k, unat p) \<notin> A \<Longrightarrow> n = max_orders z - 1 - k \<Longrightarrow>
     \<exists>k' p' z1. merge_blocks n k p z = Inr (k', p', z1) \<and> same_zone z (add_free k' p' z1) \<and>
       core_inv (add_free k' p' z1) A"
proof (induction n arbitrary: z k p)
  case 0
  note c = 0(1) and n = 0(2)
  note l = core_layout [OF c]
  have wp: "well_placed (max_orders z) (k, unat p)" using core_placed [OF c] by simp
  then have k: "k < max_orders z" by (simp add: well_placed_def)
  have top: "\<not> k + 1 < max_orders z" using 0(3) by simp
  have f: "flips z k (unat p) (add_free k p z)"
    using flips_add [OF toggled_top [OF wp top]] l k placed_fresh [OF c] by simp
  have "core_inv (add_free k p z) A"
    using core_put [OF c n f] top by blast
  then show ?case using flips_same_zone [OF f] by simp
next
  case (Suc n)
  note c = Suc.prems(1) and nA = Suc.prems(2)
  have k: "k + 1 < max_orders z" using Suc.prems(3) by simp
  note l = core_layout [OF c]
  obtain v z1 b where r:
    "get_bit (get_parent_bit p k) (map_off z ! (k + 1)) (bmap z) = Inr v"
    "toggle_map (k + 1) (get_parent_bit p k) z = Inr z1"
    "toggled z k (unat p) z1" "b = unat (p XOR push_bit k 1)"
    "v \<noteq> 0 \<longleftrightarrow> (k, b) \<in> free_blocks z" "b div 2 ^ (k + 1) = unat p div 2 ^ (k + 1)"
    and h: "unat p = unat p div 2 ^ (k + 1) * 2 ^ (k + 1) \<and> b = unat p + 2 ^ k \<or>
     b = unat p div 2 ^ (k + 1) * 2 ^ (k + 1) \<and> unat p = b + 2 ^ k"
    by (rule round_bit [OF c k])
  show ?case
  proof (cases "v = 0")
    case True
    have f: "flips z k (unat p) (add_free k p z1)"
      using flips_add [OF r(3)] l k placed_fresh [OF c] by simp
    have nb: "(k, b) \<notin> free_blocks z" using r(5) True by blast
    have "core_inv (add_free k p z1) A"
    proof (rule core_put [OF c nA f])
      fix j assume j: "unat p = j * 2 ^ (k + 1)"
      then have dj: "unat p div 2 ^ (k + 1) = j" by simp
      have "b = unat p + 2 ^ k" using h j unfolding dj by linarith
      then show "(k, unat p + 2 ^ k) \<notin> free_blocks z" using nb by simp
    next
      fix j assume j: "unat p = j * 2 ^ (k + 1) + 2 ^ k"
      then have dj: "unat p div 2 ^ (k + 1) = j" by simp
      have "0 < (2 :: nat) ^ k" by simp
      then have "b = j * 2 ^ (k + 1)" using h j unfolding dj by linarith
      then show "(k, j * 2 ^ (k + 1)) \<notin> free_blocks z" using nb by simp
    qed
    moreover have "merge_blocks (Suc n) k p z = Inr (k, p, z1)"
      using r(1,2) True by (simp add: Let_def)
    ultimately show ?thesis using flips_same_zone [OF f] by blast
  next
    case False
    let ?j = "unat p div 2 ^ (k + 1)" and ?q = "p AND NOT (push_bit (k + 1) 1 - 1)"
    have m: "(k, unat (p XOR push_bit k 1)) \<in> free_blocks z" using r(4,5) False by blast
    have t: "toggled z k (unat (p XOR push_bit k 1)) z1"
      using r(3) unfolding toggled_def r(4) [symmetric] r(6) .
    obtain z2 where z2: "delete_page (p XOR push_bit k 1) z1 = Inr z2" "flips z k b z2"
      using flips_delete [OF t _ _ m free_block_order [OF c m]] l r(4) by blast
    have mb: "(k, b) \<in> free_blocks z" using m r(4) by simp
    have hh: "unat p = ?j * 2 ^ (k + 1) \<and> b = ?j * 2 ^ (k + 1) + 2 ^ k \<or>
        b = ?j * 2 ^ (k + 1) \<and> unat p = ?j * 2 ^ (k + 1) + 2 ^ k"
    proof -
      define J where "J = ?j * 2 ^ (k + 1)"
      have "unat p = J \<and> b = unat p + 2 ^ k \<or> b = J \<and> unat p = b + 2 ^ k" using h unfolding J_def .
      then have "unat p = J \<and> b = J + 2 ^ k \<or> b = J \<and> unat p = J + 2 ^ k" by auto
      then show ?thesis unfolding J_def .
    qed
    note mm = core_merge_left [OF c nA k mb z2(2) hh]
    have q: "unat ?q = ?j * 2 ^ (k + 1)" by (rule parent_index)
    have "n = max_orders z2 - 1 - (k + 1)" using Suc.prems(3) flips_same [OF z2(2)] by simp
    from Suc.IH [of z2 "k + 1" ?q, unfolded q, OF mm this]
    obtain k' p' z3 where z3: "merge_blocks n (k + 1) ?q z2 = Inr (k', p', z3)"
        "same_zone z2 (add_free k' p' z3)" "core_inv (add_free k' p' z3) A" by blast
    have "merge_blocks (Suc n) k p z = Inr (k', p', z3)"
      using r(1,2) False z2(1) z3(1) by (simp add: Let_def del: push_bit_of_1)
    then show ?thesis using z3 same_zone_trans [OF flips_same_zone [OF z2(2)]] by blast
  qed
qed

subsection \<open>Accounting\<close>

definition bytes_out :: "block set \<Rightarrow> nat" where
  "bytes_out A = (\<Sum>b \<in> A. 4096 * 2 ^ fst b)"

lemma card_pages [simp]: "card (pages b) = 2 ^ fst b"
  by (simp add: pages_def)

lemma finite_pages [simp]: "finite (pages b)"
  by (simp add: pages_def)

lemma finite_blocks: "tiling mo B \<Longrightarrow> finite B"
proof (rule finite_subset)
  assume t: "tiling mo B"
  show "B \<subseteq> {..<mo} \<times> {..2 ^ (mo - 1)}"
  proof
    fix b assume "b \<in> B"
    then have "well_placed mo b" using t by (simp add: tiling_def)
    then show "b \<in> {..<mo} \<times> {..2 ^ (mo - 1)}" by (cases b) (auto simp: well_placed_def)
  qed
qed simp

text \<open>The blocks handed out never add up to more than the zone.\<close>

lemma bytes_out_bound:
  assumes c: "core_inv z A"
  shows "bytes_out A \<le> 4096 * zone_pages z" and "finite A"
proof -
  have t: "tiling (max_orders z) (free_blocks z \<union> A)" using c by (simp add: core_inv_def)
  then show fin: "finite A" using finite_blocks by blast
  have "disjoint_family_on pages A" using t by (auto simp: disjoint_family_on_def tiling_def)
  then have "card (\<Union> (pages ` A)) = (\<Sum>b \<in> A. 2 ^ fst b)"
    using fin by (subst card_UN_disjoint') (auto simp: disjoint_family_on_def)
  moreover have "\<Union> (pages ` A) \<subseteq> {..<zone_pages z}"
    using t by (auto simp: tiling_def zone_pages_def)
  then have "card (\<Union> (pages ` A)) \<le> zone_pages z" using card_mono [of "{..<zone_pages z}"] by simp
  ultimately show "bytes_out A \<le> 4096 * zone_pages z"
    by (simp add: bytes_out_def flip: sum_distrib_left)
qed

lemma core_inv_upd [simp]:
  "core_inv (z\<lparr>page_order := f\<rparr>) A = core_inv z A" "core_inv (z\<lparr>used := u\<rparr>) A = core_inv z A"
  by (simp_all add: core_inv_def layout_ok_def lists_distinct_def free_blocks_def bits_ok_def
      no_buddies_free_def pair_bit_def zone_pages_def)

lemma block_size:
  "k < 20 \<Longrightarrow> unat (push_bit k 1 * 4096 :: u32) = 4096 * 2 ^ k"
proof -
  assume k: "k < 20"
  then have "(2 :: nat) ^ k \<le> 2 ^ 19" by (intro power_increasing) auto
  then have "unat (push_bit k 1 :: u32) * unat (4096 :: u32) < 4294967296"
    using unat_push_bit_1 [of k] k by simp
  then show ?thesis using unat_mult_u32 [of "push_bit k 1" 4096] unat_push_bit_1 [of k] k by simp
qed

text \<open>The whole invariant, with the counter; zones of up to \<open>2 ^ 19\<close> pages (2 GB).\<close>

definition alloc_inv :: "buddy \<Rightarrow> block set \<Rightarrow> bool" where
  "alloc_inv z A \<longleftrightarrow> core_inv z A \<and> max_orders z \<le> 20 \<and>
     (\<forall>b \<in> A. page_order z (of_nat (snd b)) = fst b) \<and> unat (used z) = bytes_out A"

lemma zone_bytes: "max_orders z \<le> 20 \<Longrightarrow> 4096 * zone_pages z \<le> 2147483648"
proof -
  assume "max_orders z \<le> 20"
  then have "(2 :: nat) ^ (max_orders z - 1) \<le> 2 ^ 19" by (intro power_increasing) auto
  then show ?thesis by (simp add: zone_pages_def)
qed

lemma alloc_pages_inv:
  assumes inv: "alloc_inv z A" and k: "order \<le> k" "(k, i) \<in> free_blocks z"
  shows "\<exists>p z'. buddy_alloc_pages order z = Inr (p, z') \<and> (order, unat p) \<notin> A \<and>
     alloc_inv z' (insert (order, unat p) A) \<and> max_orders z' = max_orders z"
proof -
  have c: "core_inv z A" and mo: "max_orders z \<le> 20" using inv by (simp_all add: alloc_inv_def)
  obtain p z1 where a: "buddy_alloc_pages order z
        = Inr (p, z1\<lparr>page_order := (page_order z)(p := order), used := used z + push_bit order 1 * 4096\<rparr>)"
      (is "_ = Inr (p, ?z)")
    and c1: "core_inv z1 (insert (order, unat p) A)" and n: "(order, unat p) \<notin> A" and s: "same_zone z z1"
    using buddy_alloc_core [OF c k] by blast
  have mo1: "max_orders z1 = max_orders z" using s by (simp add: same_zone_def)
  have fin: "finite A" using bytes_out_bound [OF c] by blast
  have o20: "order < 20"
    using core_placed [OF c1, of "(order, unat p)"] mo mo1 by (simp add: well_placed_def)
  have sum: "bytes_out (insert (order, unat p) A) = 4096 * 2 ^ order + bytes_out A"
    using fin n by (simp add: bytes_out_def)
  have "bytes_out (insert (order, unat p) A) \<le> 2147483648"
    using bytes_out_bound(1) [OF c1] zone_bytes [of z1] mo mo1 by simp
  then have u: "unat (used z + push_bit order 1 * 4096) = bytes_out (insert (order, unat p) A)"
    using inv block_size [OF o20] sum unat_add_u32 [of "used z" "push_bit order 1 * 4096"]
    by (simp add: alloc_inv_def)
  have po: "((page_order z)(p := order)) (of_nat (snd b)) = fst b" if b: "b \<in> insert (order, unat p) A" for b
  proof (cases "b = (order, unat p)")
    case False
    then have "b \<in> A" using b by simp
    moreover have "of_nat (snd b) \<noteq> p"
    proof
      assume e: "of_nat (snd b) = p"
      have wp: "well_placed (max_orders z1) (fst b, snd b)" using core_placed [OF c1, of b] b by auto
      have "snd b < 2147483649" using placed_bound(1) [OF wp] mo mo1 by simp
      then have "unat p = snd b" using e by (auto simp: unat_of_nat)
      moreover have t: "tiling (max_orders z1) (free_blocks z1 \<union> insert (order, unat p) A)"
        using c1 by (simp add: core_inv_def)
      ultimately have "b = (order, unat p)"
        using b by (intro tiling_disjoint [OF t, where x = "unat p"]) (auto simp: pages_def)
      then show False using False by simp
    qed
    ultimately show ?thesis using inv by (simp add: alloc_inv_def)
  qed simp
  have "alloc_inv ?z (insert (order, unat p) A)"
    using c1 mo mo1 u po by (simp add: alloc_inv_def)
  then show ?thesis using a n mo1 by auto
qed

lemma free_pages_inv:
  assumes inv: "alloc_inv z A" and b: "(order, unat p) \<in> A"
  shows "\<exists>z'. buddy_free_pages p z = Inr z' \<and> alloc_inv z' (A - {(order, unat p)}) \<and>
     max_orders z' = max_orders z"
proof -
  let ?A = "A - {(order, unat p)}"
  have A: "insert (order, unat p) ?A = A" using b by blast
  have c: "core_inv z (insert (order, unat p) ?A)" and mo: "max_orders z \<le> 20"
    using inv A by (simp_all add: alloc_inv_def)
  have po: "page_order z p = order" using inv b by (auto simp: alloc_inv_def)
  obtain k q z1 where m: "merge_blocks (max_orders z - 1 - order) order p z = Inr (k, q, z1)"
      "same_zone z (add_free k q z1)" "core_inv (add_free k q z1) ?A"
    using merge_blocks_ok [OF c] by blast
  have o20: "order < 20"
    using core_placed [OF c, of "(order, unat p)"] mo by (simp add: well_placed_def)
  have fin: "finite A" using bytes_out_bound(2) [OF c] by simp
  have sum: "bytes_out A = 4096 * 2 ^ order + bytes_out ?A"
    using fin b by (simp add: bytes_out_def sum.remove [of A "(order, unat p)"])
  let ?s = "push_bit order 1 * 4096 :: u32"
  have u: "unat (used z) = bytes_out A" using inv by (simp add: alloc_inv_def)
  have us: "used (add_free k q z1) = used z" using m(2) by (simp add: same_zone_def)
  have ge: "unat ?s \<le> unat (used z)" using u sum block_size [OF o20] by simp
  then have "\<not> used z < ?s" by (simp add: word_less_nat_alt)
  then have r: "buddy_free_pages p z = Inr ((add_free k q z1)\<lparr>used := used z - ?s\<rparr>)"
    using m(1) us by (simp add: buddy_free_pages_def po Let_def)
  have "unat (used z - ?s) = bytes_out ?A"
    using ge u sum block_size [OF o20] by (simp add: unat_sub_u32)
  then have "alloc_inv ((add_free k q z1)\<lparr>used := used z - ?s\<rparr>) ?A"
    using m(2,3) mo inv by (auto simp: alloc_inv_def same_zone_def)
  then show ?thesis using r m(2) by (auto simp: same_zone_def)
qed

subsection \<open>Initial zone and full coalescing\<close>

lemma init_fields:
  assumes "0 < unat cnt" and "buddy_alloc_init True True cnt po = Some z"
  obtains k where "2 ^ k \<le> unat cnt" "unat cnt < 2 * 2 ^ k" "max_orders z = k + 1" "k < 32"
    "free_list z = (replicate (k + 1) [])[k := [0]]" "bmap z = replicate (get_map_size (k + 1)) 0"
    "map_off z = assign_maps (k + 1) (k + 1) 0" "used z = 0" "page_cnt z = cnt"
proof -
  obtain k where k: "2 ^ k \<le> unat cnt" "unat cnt < 2 * 2 ^ k"
    using exp_bracket_down [OF assms(1)] by blast
  have "(2 :: nat) ^ 32 = 4294967296" by simp
  then have "(2 :: nat) ^ k < 2 ^ 32" using k(1) u32_less_2p32 [of cnt] by linarith
  then have k32: "k < 32" by (rule power_less_imp_less_exp [rotated]) simp
  have "round_down_power_two cnt = 2 ^ k" using k k32 by (rule round_down_power_two_exp)
  then have "ctz (round_down_power_two cnt) + 1 = k + 1" using k32 by simp
  then show thesis
    using assms(2) k k32 that by (auto simp: buddy_alloc_init_def Let_def)
qed

lemma init_core:
  assumes "0 < unat cnt" and "buddy_alloc_init True True cnt po = Some z"
  shows "core_inv z {}" and "used z = 0" and "2 ^ (max_orders z - 1) \<le> unat cnt"
    and "unat cnt < 2 * 2 ^ (max_orders z - 1)"
proof -
  obtain k where f: "2 ^ k \<le> unat cnt" "unat cnt < 2 * 2 ^ k" "max_orders z = k + 1" "k < 32"
    "free_list z = (replicate (k + 1) [])[k := [0]]" "bmap z = replicate (get_map_size (k + 1)) 0"
    "map_off z = assign_maps (k + 1) (k + 1) 0" "used z = 0"
    using init_fields [OF assms] by metis
  show "used z = 0" "2 ^ (max_orders z - 1) \<le> unat cnt" "unat cnt < 2 * 2 ^ (max_orders z - 1)"
    using f by simp_all
  have l: "layout_ok z"
    using f(4) unfolding layout_ok_def f(3) f(5) f(6) f(7)
    by (simp only: length_list_update length_replicate) simp
  have nth: "q < k + 1 \<Longrightarrow> free_list z ! q = (if q = k then [0] else [])" for q
    unfolding f(5) by (simp only: nth_list_update length_replicate nth_replicate) simp
  have F: "free_blocks z = {(k, 0)}"
    using nth f(3) by (auto simp: free_blocks_def split: if_splits)
  have d: "lists_distinct z"
    unfolding lists_distinct_def f(5) by (intro ball_list_update) auto
  have zero: "\<not> pair_bit z q j" if "pair_ok (max_orders z) q j" for q j
    using layout_word [OF l that] f(6) by (simp add: pair_bit_word [OF l that])
  then have b: "bits_ok z"
    unfolding bits_ok_def F using f(3) by (auto simp: pair_ok_def zone_pages_def)
  moreover have "no_buddies_free z" unfolding no_buddies_free_def F using f(3) by auto
  moreover have "tiling (max_orders z) {(k, 0)}"
    using f(3) by (auto simp: tiling_def well_placed_def pages_def)
  ultimately show "core_inv z {}" using l d F by (simp add: core_inv_def)
qed

lemma aligned_range:
  assumes "D dvd s" and "D dvd e" and "0 < D" and "y div D = i div D" and "s \<le> y" and "y < (e :: nat)"
  shows "s \<le> i" and "i < e"
proof -
  obtain a b where ab: "s = D * a" "e = D * b" using assms(1,2) by (auto elim!: dvdE)
  have "a \<le> y div D" using assms(3,5) ab by (simp add: less_eq_div_iff_mult_less_eq mult.commute)
  then show "s \<le> i" using assms(3,4) ab by (simp add: less_eq_div_iff_mult_less_eq mult.commute)
  have "y div D < b" using assms(3,6) ab by (simp add: div_less_iff_less_mult mult.commute)
  then show "i < e" using assms(3,4) ab by (simp add: div_less_iff_less_mult mult.commute)
qed

text \<open>When nothing is handed out, all blocks have merged back into the whole zone.\<close>

lemma all_free_coalesced:
  assumes c: "core_inv z {}"
  shows "free_blocks z = {(max_orders z - 1, 0)}"
proof -
  let ?F = "free_blocks z" and ?mo = "max_orders z"
  have t: "tiling ?mo ?F" and nb: "no_buddies_free z" and l: "1 \<le> ?mo"
    using c by (simp_all add: core_inv_def layout_ok_def)
  have cover: "\<exists>b \<in> ?F. y \<in> pages b" if "y < 2 ^ (?mo - 1)" for y
  proof -
    have "y \<in> \<Union> (pages ` ?F)" using t that by (simp add: tiling_def)
    then show ?thesis by blast
  qed
  have top: "fst b = ?mo - 1" if b: "b \<in> ?F" for b
  proof (rule ccontr)
    assume "fst b \<noteq> ?mo - 1"
    obtain m where m: "m \<in> ?F" and least: "\<And>y. y \<in> ?F \<Longrightarrow> fst m \<le> fst y"
      using ex_has_least_nat [of "\<lambda>b. b \<in> ?F" b fst] b by blast
    obtain k i where ki: "m = (k, i)" by (cases m)
    have wp: "well_placed ?mo (k, i)" using tiling_placed [OF t m] ki by simp
    have "fst b < ?mo" using tiling_placed [OF t b] by (simp add: well_placed_def)
    then have k: "k + 1 < ?mo" using least [OF b] ki \<open>fst b \<noteq> ?mo - 1\<close> by simp
    have other: False
      if y: "y div 2 ^ (k + 1) = i div 2 ^ (k + 1)" "2 ^ k dvd y" "(k, y) \<notin> ?F" for y
    proof -
      have "pair_ok ?mo (k + 1) (y div 2 ^ (k + 1))" using pair_ok_parent [OF wp k] y(1) by simp
      then have "(y div 2 ^ (k + 1) + 1) * 2 ^ (k + 1) \<le> 2 ^ (?mo - 1)" by (simp add: pair_ok_def)
      moreover have "y < (y div 2 ^ (k + 1) + 1) * 2 ^ (k + 1)"
        by (metis add.commute dividend_less_times_div mult.commute mult_Suc plus_1_eq_Suc zero_less_numeral zero_less_power)
      ultimately have "y < 2 ^ (?mo - 1)" by linarith
      then obtain q e where b': "(q, e) \<in> ?F" "y \<in> pages (q, e)" using cover by fastforce
      then have qk: "k \<le> q" and wq: "2 ^ q dvd e"
        using least [of "(q, e)"] ki tiling_placed [OF t b'(1)] by (auto simp: well_placed_def)
      show False
      proof (cases "q = k")
        case True
        have y2: "e \<le> y" "y < e + 2 ^ k" using b'(2) True by (auto simp: pages_def)
        obtain a b where ab: "e = 2 ^ k * a" "y = 2 ^ k * b" using wq y(2) True by (auto elim!: dvdE)
        then have "2 ^ k * b < 2 ^ k * (a + 1)" using y2 by (simp add: algebra_simps)
        then have "b < a + 1" by (simp only: mult_less_cancel1)
        moreover have "a \<le> b" using y2 ab by simp
        ultimately have "y = e" using ab by simp
        then show False using y(3) b'(1) True by simp
      next
        case False
        then have dv: "(2 :: nat) ^ (k + 1) dvd 2 ^ q" using qk by (intro le_imp_power_dvd) simp
        have "e \<le> y" "y < e + 2 ^ q" using b'(2) by (auto simp: pages_def)
        then have "i \<in> pages (q, e)"
          using aligned_range [of "2 ^ (k + 1)" e "e + 2 ^ q" y i] dv wq y(1)
          by (auto simp: pages_def intro: dvd_trans)
        then have "(q, e) = (k, i)"
          using tiling_disjoint [OF t b'(1), of "(k, i)" i] m ki by simp
        then show False using False by simp
      qed
    qed
    have "2 ^ k dvd i" using wp by (simp add: well_placed_def)
    then show False
    proof (cases rule: aligned_half)
      case (left j)
      have "(k, i + 2 ^ k) \<notin> ?F" using nb k left m ki by (auto simp: no_buddies_free_def)
      moreover have "(i + 2 ^ k) div 2 ^ (k + 1) = i div 2 ^ (k + 1)" using left by simp
      ultimately show False using other [of "i + 2 ^ k"] \<open>2 ^ k dvd i\<close> by simp
    next
      case (right j)
      have "(k, j * 2 ^ (k + 1)) \<notin> ?F" using nb k right m ki by (auto simp: no_buddies_free_def)
      moreover have "j * 2 ^ (k + 1) div 2 ^ (k + 1) = i div 2 ^ (k + 1)" using right by simp
      ultimately show False using other [of "j * 2 ^ (k + 1)"] by simp
    qed
  qed
  have all: "b = (?mo - 1, 0)" if b: "b \<in> ?F" for b
    using top [OF b] tiling_placed [OF t b] by (cases b) (simp add: well_placed_def)
  obtain b where "b \<in> ?F" using cover [of 0] by auto
  then show ?thesis using all by blast
qed

subsection \<open>The interface of a page allocator\<close>

locale page_allocator =
  fixes alloc :: "nat \<Rightarrow> 's \<Rightarrow> (u32 \<times> 's) res"
    and free :: "u32 \<Rightarrow> 's \<Rightarrow> 's res"
    and inv :: "'s \<Rightarrow> block set \<Rightarrow> bool"
  assumes alloc_keeps: "inv s A \<Longrightarrow> alloc k s = Inr (p, s') \<Longrightarrow>
      (k, unat p) \<notin> A \<and> inv s' (insert (k, unat p) A)"
    and free_keeps: "inv s A \<Longrightarrow> (k, unat p) \<in> A \<Longrightarrow>
      \<exists>s'. free p s = Inr s' \<and> inv s' (A - {(k, unat p)})"
    and inv_disjoint: "inv s A \<Longrightarrow> b \<in> A \<Longrightarrow> c \<in> A \<Longrightarrow> b \<noteq> c \<Longrightarrow> pages b \<inter> pages c = {}"
    and inv_aligned: "inv s A \<Longrightarrow> b \<in> A \<Longrightarrow> 2 ^ fst b dvd snd b"
begin

lemma alloc_exclusive:
  assumes "inv s A" and "alloc k s = Inr (p, s')" and "b \<in> A"
  shows "pages (k, unat p) \<inter> pages b = {}"
proof -
  have "(k, unat p) \<notin> A" "inv s' (insert (k, unat p) A)"
    using alloc_keeps [OF assms(1,2)] by blast+
  then show ?thesis using inv_disjoint [of s' "insert (k, unat p) A"] assms(3) by blast
qed

lemma alloc_free:
  assumes "inv s A" and "alloc k s = Inr (p, s')"
  shows "\<exists>s''. free p s' = Inr s'' \<and> inv s'' A"
proof -
  have a: "(k, unat p) \<notin> A" "inv s' (insert (k, unat p) A)"
    using alloc_keeps [OF assms] by blast+
  then obtain s'' where "free p s' = Inr s''" "inv s'' (insert (k, unat p) A - {(k, unat p)})"
    using free_keeps [of s' "insert (k, unat p) A" k p] by blast
  then show ?thesis using a by simp
qed

end

lemma alloc_Inr_available:
  assumes "core_inv z A" and "buddy_alloc_pages order z = Inr r"
  shows "\<exists>k i. order \<le> k \<and> (k, i) \<in> free_blocks z"
  using buddy_alloc_fails [OF assms(1), of order] assms(2) by fastforce

interpretation bd: page_allocator buddy_alloc_pages buddy_free_pages alloc_inv
proof unfold_locales
  fix s A k p s'
  assume i: "alloc_inv s A" and a: "buddy_alloc_pages k s = Inr (p, s')"
  then have "core_inv s A" by (simp add: alloc_inv_def)
  from alloc_Inr_available [OF this a] show "(k, unat p) \<notin> A \<and> alloc_inv s' (insert (k, unat p) A)"
    using alloc_pages_inv [OF i] a by fastforce
next
  show "\<exists>s'. buddy_free_pages p s = Inr s' \<and> alloc_inv s' (A - {(k, unat p)})"
    if "alloc_inv s A" "(k, unat p) \<in> A" for s A k p
    using free_pages_inv [OF that] by blast
next
  show "pages b \<inter> pages c = {}" if "alloc_inv s A" "b \<in> A" "c \<in> A" "b \<noteq> c" for s A b c
    using that by (auto simp: alloc_inv_def core_inv_def tiling_def)
next
  show "2 ^ fst b dvd snd b" if "alloc_inv s A" "b \<in> A" for s A b
    using core_placed [of s A b] that by (simp add: alloc_inv_def well_placed_def)
qed

subsection \<open>Runs of the allocator\<close>

text \<open>Every history of allocations and of releases of outstanding blocks.\<close>

inductive buddy_step :: "buddy \<times> block set \<Rightarrow> buddy \<times> block set \<Rightarrow> bool" where
  alloc_step: "buddy_alloc_pages k z = Inr (p, z') \<Longrightarrow> buddy_step (z, A) (z', insert (k, unat p) A)"
| free_step: "(k, unat p) \<in> A \<Longrightarrow> buddy_free_pages p z = Inr z' \<Longrightarrow>
    buddy_step (z, A) (z', A - {(k, unat p)})"

inductive_cases buddy_step_cases: "buddy_step (z, A) (z', A')"

lemma buddy_step_inv: "buddy_step (z, A) (z', A') \<Longrightarrow> alloc_inv z A \<Longrightarrow> alloc_inv z' A'"
  by (erule buddy_step_cases) (use bd.alloc_keeps bd.free_keeps in fastforce)+

lemma buddy_steps_inv:
  assumes "buddy_step\<^sup>*\<^sup>* s s'" and "alloc_inv (fst s) (snd s)"
  shows "alloc_inv (fst s') (snd s')"
  using assms
proof (induction rule: rtranclp_induct)
  case (step y w)
  then show ?case using buddy_step_inv [of "fst y" "snd y" "fst w" "snd w"] by simp
qed

lemma init_inv:
  assumes "0 < unat cnt" and "unat cnt < 2 ^ 20" and "buddy_alloc_init True True cnt po = Some z"
  shows "alloc_inv z {}"
proof -
  have "(2 :: nat) ^ (max_orders z - 1) < 2 ^ 20" using init_core(3) [OF assms(1,3)] assms(2) by linarith
  then have "max_orders z - 1 < 20" by (rule power_less_imp_less_exp [rotated]) simp
  then show ?thesis using init_core [OF assms(1,3)] by (simp add: alloc_inv_def bytes_out_def)
qed

subsection \<open>Properties\<close>

text \<open>C1. From an initialised zone, whatever blocks are allocated and released in whatever
  order: the blocks outstanding lie inside the zone, are aligned to their size and pairwise
  disjoint, and the \<^verbatim>\<open>used\<close> counter is exactly their size in bytes.\<close>

theorem buddy_history_safe:
  assumes "0 < unat cnt" and "unat cnt < 2 ^ 20"
    and "buddy_alloc_init True True cnt po = Some z" and "buddy_step\<^sup>*\<^sup>* (z, {}) (z', A)"
  shows "(\<forall>b \<in> A. \<forall>c \<in> A. b \<noteq> c \<longrightarrow> pages b \<inter> pages c = {}) \<and>
    (\<forall>b \<in> A. 2 ^ fst b dvd snd b \<and> snd b + 2 ^ fst b \<le> zone_pages z') \<and>
    unat (buddy_get_used z') = (\<Sum>b \<in> A. 4096 * 2 ^ fst b)"
proof -
  have i: "alloc_inv z' A"
    using buddy_steps_inv [OF assms(4)] init_inv [OF assms(1-3)] by simp
  then have "\<forall>b \<in> A. well_placed (max_orders z') b"
    using core_placed [of z' A] by (simp add: alloc_inv_def)
  then show ?thesis
    using i bd.inv_disjoint [OF i]
    by (auto simp: well_placed_def zone_pages_def alloc_inv_def bytes_out_def buddy_get_used_def)
qed

definition zone4 :: buddy where
  "zone4 = \<lparr>page_cnt = 4, max_orders = 3, bmap = [0, 0, 0, 0], map_off = [2, 1, 0],
     free_list = [[], [], [0]], used = 0, page_order = \<lambda>_. 0\<rparr>"

lemma zone4_init: "buddy_alloc_init True True 4 (\<lambda>_. 0) = Some zone4"
  by code_simp

lemma zone4_alloc: "\<exists>z'. buddy_alloc_pages 0 zone4 = Inr (0, z')"
  by (simp add: zone4_def buddy_alloc_pages_def toggle_map_def toggle_bit_def get_parent_bit_def
      add_free_def)

theorem buddy_history_safe_witness:
  "\<exists>z'. buddy_alloc_pages 0 zone4 = Inr (0, z') \<and> unat (buddy_get_used z') = 4096"
proof -
  obtain z' where a: "buddy_alloc_pages 0 zone4 = Inr (0, z')" using zone4_alloc by blast
  then have "buddy_step (zone4, {}) (z', insert (0, unat (0 :: u32)) {})" by (rule alloc_step)
  then have steps: "buddy_step\<^sup>*\<^sup>* (zone4, {}) (z', insert (0, unat (0 :: u32)) {})"
    by (rule r_into_rtranclp)
  have "0 < unat (4 :: u32)" "unat (4 :: u32) < 2 ^ 20" by simp_all
  note buddy_history_safe [OF this zone4_init steps, THEN conjunct2, THEN conjunct2]
  then show ?thesis using a by simp
qed

text \<open>C2. \<^verbatim>\<open>buddy_alloc_pages\<close> delivers a block that overlaps no outstanding one exactly when
  some free block of the requested order or above exists, and panics otherwise; every bitmap
  word it touches lies inside the map.\<close>

theorem buddy_alloc_total:
  assumes "alloc_inv z A"
  shows "(\<exists>k i. order \<le> k \<and> (k, i) \<in> free_blocks z) \<and>
      (\<exists>p z'. buddy_alloc_pages order z = Inr (p, z') \<and> alloc_inv z' (insert (order, unat p) A) \<and>
         (\<forall>b \<in> A. pages (order, unat p) \<inter> pages b = {})) \<or>
    \<not> (\<exists>k i. order \<le> k \<and> (k, i) \<in> free_blocks z) \<and>
      buddy_alloc_pages order z = Inl (Panic ''Buddy allocator out of memory'')"
proof (cases "\<exists>k i. order \<le> k \<and> (k, i) \<in> free_blocks z")
  case True
  then obtain p z' where "buddy_alloc_pages order z = Inr (p, z')"
      "alloc_inv z' (insert (order, unat p) A)"
    using alloc_pages_inv [OF assms] by blast
  then show ?thesis using bd.alloc_exclusive [OF assms] True by blast
next
  case False
  moreover have "core_inv z A" using assms by (simp add: alloc_inv_def)
  ultimately show ?thesis using buddy_alloc_fails by blast
qed

lemma zone4_inv: "alloc_inv zone4 {}"
  using init_inv [OF _ _ zone4_init] by simp

theorem buddy_alloc_total_witness:
  "\<exists>p z'. buddy_alloc_pages 1 zone4 = Inr (p, z') \<and> alloc_inv z' {(1, unat p)}"
proof -
  have "(2, 0) \<in> free_blocks zone4" by (auto simp: free_blocks_iff zone4_def)
  then have "\<exists>k i. 1 \<le> k \<and> (k, i) \<in> free_blocks zone4" by (intro exI [of _ 2] exI [of _ 0]) simp
  then show ?thesis using buddy_alloc_total [OF zone4_inv, of 1] by blast
qed

text \<open>C3. Releasing an outstanding block never fails and takes exactly that block back; the
  release of the last one leaves the whole zone as one free block.\<close>

theorem buddy_free_total:
  assumes "alloc_inv z A" and "(order, unat p) \<in> A"
  shows "\<exists>z'. buddy_free_pages p z = Inr z' \<and> alloc_inv z' (A - {(order, unat p)}) \<and>
    (A = {(order, unat p)} \<longrightarrow> free_blocks z' = {(max_orders z - 1, 0)} \<and> buddy_get_used z' = 0)"
proof -
  obtain z' where z': "buddy_free_pages p z = Inr z'" "alloc_inv z' (A - {(order, unat p)})"
      "max_orders z' = max_orders z"
    using free_pages_inv [OF assms] by blast
  have "free_blocks z' = {(max_orders z - 1, 0)} \<and> buddy_get_used z' = 0" if "A = {(order, unat p)}"
  proof -
    have i: "alloc_inv z' {}" using z'(2) that by simp
    then have "unat (used z') = 0" by (simp add: alloc_inv_def bytes_out_def)
    then show ?thesis
      using all_free_coalesced [of z'] i z'(3)
      by (simp add: alloc_inv_def buddy_get_used_def unat_eq_zero)
  qed
  then show ?thesis using z' by blast
qed

theorem buddy_free_total_witness:
  "\<exists>p z' z''. buddy_alloc_pages 1 zone4 = Inr (p, z') \<and> buddy_free_pages p z' = Inr z'' \<and>
     free_blocks z'' = {(max_orders z' - 1, 0)}"
proof -
  have "(2, 0) \<in> free_blocks zone4" by (auto simp: free_blocks_iff zone4_def)
  then obtain p z' where a: "buddy_alloc_pages 1 zone4 = Inr (p, z')" "alloc_inv z' {(1, unat p)}"
    using alloc_pages_inv [OF zone4_inv, of 1 2 0] by auto
  then show ?thesis using buddy_free_total [OF a(2), of 1 p] by blast
qed

text \<open>C4. The bitmap allocated by \<^verbatim>\<open>buddy_alloc_init\<close> is large enough: the word of every pair
  of buddies of every order lies inside it, and words of different orders are distinct.\<close>

theorem buddy_map_fits:
  assumes "buddy_alloc_init True True cnt po = Some z" and "0 < unat cnt"
    and "pair_ok (max_orders z) order j"
  shows "map_off z ! order + j div 32 < length (bmap z) \<and>
    (\<forall>order' j'. pair_ok (max_orders z) order' j' \<and> order' \<noteq> order \<longrightarrow>
       map_off z ! order' + j' div 32 \<noteq> map_off z ! order + j div 32)"
proof -
  have l: "layout_ok z" using init_core(1) [OF assms(2,1)] by (simp add: core_inv_def)
  then show ?thesis
    using layout_word [OF l] assms(3) same_word [OF _ assms(3)] by metis
qed

theorem buddy_map_fits_witness: "map_off zone4 ! 1 + 1 div 32 < length (bmap zone4)"
proof -
  have "pair_ok (max_orders zone4) 1 1" by (simp add: pair_ok_def zone4_def)
  from buddy_map_fits [OF zone4_init _ this] show ?thesis by simp
qed

end
