(* ===== verification/Sched.thy ===== *)
theory Sched
  imports Lists
begin

text \<open>
  The scheduler: \<^verbatim>\<open>kernel/sched.c\<close> and its scheduling classes \<^verbatim>\<open>kernel/rt.c\<close>, \<^verbatim>\<open>fair.c\<close>,
  \<^verbatim>\<open>back.c\<close> and \<^verbatim>\<open>idle.c\<close>. A thread is the address of its control block (0 is the null
  pointer); the run queue holds the lists of \<^verbatim>\<open>struct rq\<close> as abstract lists (the list
  routines are verified in \<^verbatim>\<open>Lists\<close>) and the fields of the control blocks the scheduler
  uses. \<^verbatim>\<open>thread->node\<close> links a thread into one queue at a time.
\<close>

subsection \<open>Definitions\<close>

type_synonym tid = u32

datatype thread_state = THREAD_RUNNING | THREAD_SLEEP | THREAD_WAIT | THREAD_STOPPED | THREAD_DEAD

text \<open>The scheduling classes, in the order of their numbers \<^verbatim>\<open>SCHED_RT\<close> to \<^verbatim>\<open>SCHED_IDLE\<close>.\<close>

datatype sched_class = RtClass | FairClass | BackClass | IdleClass

record thread =
  t_wake :: u64
  t_runtime :: u64
  t_last_runtime :: u64
  t_state :: thread_state
  t_class :: "sched_class option"
  t_grouped :: bool
  t_pid :: u32

record rq =
  rq_next :: tid
  rq_curr :: tid
  lazy_fpu :: tid
  rt_queue :: "tid list"
  fair_queue :: "tid list"
  back_queue :: "tid list"
  idle_thread :: tid
  thread_list :: "tid list"
  sleep_list :: "tid list"
  time_tick :: u64
  time_wake :: u64
  tick_window :: u32
  sched_flag :: u32
  threads :: "tid \<Rightarrow> thread"
  kfreed :: "tid list"

text \<open>\<^verbatim>\<open>list_delete_node(&thread->node)\<close>: off the queue the thread is on.\<close>

definition unlink :: "tid \<Rightarrow> rq \<Rightarrow> rq res" where
  "unlink t rq =
     (if t \<in> set (rt_queue rq) \<union> set (fair_queue rq) \<union> set (back_queue rq) \<union> set (sleep_list rq)
      then Inr (rq\<lparr>rt_queue := remove1 t (rt_queue rq), fair_queue := remove1 t (fair_queue rq),
                   back_queue := remove1 t (back_queue rq), sleep_list := remove1 t (sleep_list rq)\<rparr>)
      else Inl NullPointer)"

definition rt_init :: "rq \<Rightarrow> rq" where
  "rt_init rq = rq\<lparr>rt_queue := []\<rparr>"

definition rt_enqueue :: "tid \<Rightarrow> rq \<Rightarrow> rq" where
  "rt_enqueue t rq = rq\<lparr>rt_queue := rt_queue rq @ [t]\<rparr>"

definition rt_dequeue :: "tid \<Rightarrow> rq \<Rightarrow> rq res" where
  "rt_dequeue t rq = unlink t rq"

definition rt_pick_next :: "rq \<Rightarrow> tid \<times> rq" where
  "rt_pick_next rq =
     (if rt_queue rq = [] then (0, rq)
      else let tmp = hd (rt_queue rq) in (tmp, rq\<lparr>rt_queue := tl (rt_queue rq) @ [tmp]\<rparr>))"

definition fair_init :: "rq \<Rightarrow> rq" where
  "fair_init rq = rq\<lparr>fair_queue := []\<rparr>"

definition fair_enqueue :: "tid \<Rightarrow> rq \<Rightarrow> rq" where
  "fair_enqueue t rq = rq\<lparr>fair_queue := fair_queue rq @ [t]\<rparr>"

definition fair_dequeue :: "tid \<Rightarrow> rq \<Rightarrow> rq res" where
  "fair_dequeue t rq = unlink t rq"

definition fair_pick_next :: "rq \<Rightarrow> tid \<times> rq" where
  "fair_pick_next rq =
     (if fair_queue rq = [] then (0, rq)
      else let tmp = hd (fair_queue rq) in (tmp, rq\<lparr>fair_queue := tl (fair_queue rq) @ [tmp]\<rparr>))"

definition back_init :: "rq \<Rightarrow> rq" where
  "back_init rq = rq\<lparr>back_queue := []\<rparr>"

definition back_enqueue :: "tid \<Rightarrow> rq \<Rightarrow> rq" where
  "back_enqueue t rq = rq\<lparr>back_queue := back_queue rq @ [t]\<rparr>"

definition back_dequeue :: "tid \<Rightarrow> rq \<Rightarrow> rq res" where
  "back_dequeue t rq = unlink t rq"

definition back_pick_next :: "rq \<Rightarrow> tid \<times> rq" where
  "back_pick_next rq =
     (if back_queue rq = [] then (0, rq)
      else let tmp = hd (back_queue rq) in (tmp, rq\<lparr>back_queue := tl (back_queue rq) @ [tmp]\<rparr>))"

definition idle_init :: "rq \<Rightarrow> rq" where
  "idle_init rq = rq\<lparr>idle_thread := 0\<rparr>"

definition idle_enqueue :: "tid \<Rightarrow> rq \<Rightarrow> rq" where
  "idle_enqueue t rq = rq\<lparr>idle_thread := t\<rparr>"

definition idle_pick_next :: "rq \<Rightarrow> tid \<times> rq" where
  "idle_pick_next rq = (idle_thread rq, rq)"

text \<open>Calls through the function pointers of a class; \<^verbatim>\<open>idle_class\<close> has no \<^verbatim>\<open>dequeue\<close>.\<close>

fun class_enqueue :: "sched_class \<Rightarrow> tid \<Rightarrow> rq \<Rightarrow> rq" where
  "class_enqueue RtClass t rq = rt_enqueue t rq"
| "class_enqueue FairClass t rq = fair_enqueue t rq"
| "class_enqueue BackClass t rq = back_enqueue t rq"
| "class_enqueue IdleClass t rq = idle_enqueue t rq"

fun class_dequeue :: "sched_class \<Rightarrow> tid \<Rightarrow> rq \<Rightarrow> rq res" where
  "class_dequeue RtClass t rq = rt_dequeue t rq"
| "class_dequeue FairClass t rq = fair_dequeue t rq"
| "class_dequeue BackClass t rq = back_dequeue t rq"
| "class_dequeue IdleClass t rq = Inl NullPointer"

fun class_pick_next :: "sched_class \<Rightarrow> rq \<Rightarrow> tid \<times> rq" where
  "class_pick_next RtClass rq = rt_pick_next rq"
| "class_pick_next FairClass rq = fair_pick_next rq"
| "class_pick_next BackClass rq = back_pick_next rq"
| "class_pick_next IdleClass rq = idle_pick_next rq"

definition get_sched_class :: "u32 \<Rightarrow> sched_class res" where
  "get_sched_class num =
     (if num < 4 then Inr ([RtClass, FairClass, BackClass, IdleClass] ! unat num) else Inl Assertion)"

definition set_state :: "tid \<Rightarrow> thread_state \<Rightarrow> rq \<Rightarrow> rq" where
  "set_state t s rq = rq\<lparr>threads := (threads rq)(t := (threads rq t)\<lparr>t_state := s\<rparr>)\<rparr>"

definition sched_enqueue_thread :: "tid \<Rightarrow> rq \<Rightarrow> rq res" where
  "sched_enqueue_thread t rq =
     (case t_class (threads rq t) of
        None \<Rightarrow> Inl Assertion
      | Some c \<Rightarrow> Inr (class_enqueue c t (set_state t THREAD_RUNNING rq)))"

definition sched_dequeue_thread :: "tid \<Rightarrow> rq \<Rightarrow> rq res" where
  "sched_dequeue_thread t rq =
     (case t_class (threads rq t) of None \<Rightarrow> Inl Assertion | Some c \<Rightarrow> class_dequeue c t rq)"

fun wake_loop :: "u64 \<Rightarrow> tid list \<Rightarrow> rq \<Rightarrow> rq res" where
  "wake_loop tick [] rq = Inr rq"
| "wake_loop tick (t # ts) rq =
     (if t_wake (threads rq t) > tick then Inr rq
      else case t_class (threads rq t) of
             None \<Rightarrow> Inl NullPointer
           | Some c \<Rightarrow> wake_loop tick ts (class_enqueue c t (rq\<lparr>sleep_list := ts\<rparr>)))"

definition enqueue_sleeping_threads :: "rq \<Rightarrow> rq res" where
  "enqueue_sleeping_threads rq =
     res_bind (wake_loop (time_tick rq) (sleep_list rq) rq) (\<lambda>rq'.
       Inr (case sleep_list rq' of
              [] \<Rightarrow> rq'\<lparr>time_wake := 0\<rparr>
            | t # _ \<Rightarrow> rq'\<lparr>time_wake := t_wake (threads rq' t)\<rparr>))"

fun pick_from :: "sched_class list \<Rightarrow> rq \<Rightarrow> (tid \<times> rq) res" where
  "pick_from [] rq = Inl (Panic ''Core scheduler hard fault'')"
| "pick_from (c # cs) rq =
     (case class_pick_next c rq of (t, rq') \<Rightarrow> if t \<noteq> 0 then Inr (t, rq') else pick_from cs rq')"

definition core_pick_next :: "rq \<Rightarrow> (tid \<times> rq) res" where
  "core_pick_next rq = pick_from [RtClass, FairClass, BackClass, IdleClass] rq"

definition SCHED_SLICE :: u32 where
  "SCHED_SLICE = 1000"

text \<open>\<open>timer_us\<close> is what \<^verbatim>\<open>cpu_timer_get_value_us\<close> reads; the current thread is accounted first.\<close>

definition account_runtime :: "u32 \<Rightarrow> rq \<Rightarrow> rq res" where
  "account_runtime runtime rq =
     (let rq1 = rq\<lparr>time_tick := time_tick rq + ucast runtime\<rparr>; c = rq_curr rq1; th = threads rq1 c in
      if c = 0 then Inl NullPointer
      else Inr (rq1\<lparr>threads := (threads rq1)(c := th\<lparr>t_runtime := t_runtime th + ucast runtime\<rparr>)\<rparr>))"

definition core_sched :: "bool \<Rightarrow> u32 \<Rightarrow> rq \<Rightarrow> rq res" where
  "core_sched reschedule timer_us rq =
     res_bind (account_runtime (if reschedule then timer_us else SCHED_SLICE) rq) (\<lambda>rq2.
     res_bind (if time_tick rq2 > time_wake rq2 \<and> time_wake rq2 \<noteq> 0
               then enqueue_sleeping_threads rq2 else Inr rq2) (\<lambda>rq3.
     res_bind (core_pick_next rq3) (\<lambda>(new, rq4).
       Inr (if new \<noteq> rq_curr rq4 then rq4\<lparr>rq_next := new\<rparr> else rq4))))"

definition cpu_tick_handler :: "rq \<Rightarrow> rq res" where
  "cpu_tick_handler rq = core_sched False 0 rq"

definition sched_add_thread :: "tid \<Rightarrow> rq \<Rightarrow> rq" where
  "sched_add_thread t rq = rq\<lparr>thread_list := t # thread_list rq\<rparr>"

definition sched_init_rq :: "rq \<Rightarrow> rq" where
  "sched_init_rq rq =
     idle_init (back_init (fair_init (rt_init
       (rq\<lparr>thread_list := [], sleep_list := [], rq_curr := 0, rq_next := 0, lazy_fpu := 0,
           sched_flag := 1, time_tick := 0, time_wake := 0, tick_window := 0\<rparr>))))"

definition sched_set_lazy_fpu_user :: "tid \<Rightarrow> rq \<Rightarrow> rq" where
  "sched_set_lazy_fpu_user t rq = rq\<lparr>lazy_fpu := t\<rparr>"

definition sched_get_lazy_fpu_user :: "rq \<Rightarrow> tid" where
  "sched_get_lazy_fpu_user rq = lazy_fpu rq"

definition get_kernel_tick :: "rq \<Rightarrow> u64" where
  "get_kernel_tick rq = time_tick rq"

definition get_curr_thread :: "rq \<Rightarrow> tid" where
  "get_curr_thread rq = rq_curr rq"

fun insert_sleeper :: "(tid \<Rightarrow> thread) \<Rightarrow> tid \<Rightarrow> tid list \<Rightarrow> tid list" where
  "insert_sleeper ths t [] = [t]"
| "insert_sleeper ths t (u # us) =
     (if t_wake (ths u) \<ge> t_wake (ths t) then t # u # us else u # insert_sleeper ths t us)"

definition add_sleep_list :: "tid \<Rightarrow> rq \<Rightarrow> rq" where
  "add_sleep_list t rq =
     (let rq1 = set_state t THREAD_SLEEP rq;
          cur_tick = t_wake (threads rq1 t);
          rq2 = (if cur_tick < time_wake rq1 \<or> time_wake rq1 = 0 then rq1\<lparr>time_wake := cur_tick\<rparr> else rq1)
      in rq2\<lparr>sleep_list := insert_sleeper (threads rq2) t (sleep_list rq2)\<rparr>)"

definition sched_disable :: "rq \<Rightarrow> u32 \<times> rq" where
  "sched_disable rq = (sched_flag rq, rq\<lparr>sched_flag := 0\<rparr>)"

definition sched_enable :: "u32 \<Rightarrow> rq \<Rightarrow> rq" where
  "sched_enable i rq = rq\<lparr>sched_flag := i\<rparr>"

definition sched_thread_sleep :: "u32 \<Rightarrow> u32 \<Rightarrow> rq \<Rightarrow> rq res" where
  "sched_thread_sleep ms timer_us rq =
     (let c = get_curr_thread rq; tick = get_kernel_tick rq in
      if c = 0 then Inl NullPointer
      else
        let th = threads rq c;
            rq1 = rq\<lparr>threads := (threads rq)(c := th\<lparr>t_wake := tick + ucast (ms * 1000)\<rparr>)\<rparr> in
        (case t_class th of
           None \<Rightarrow> Inl NullPointer
         | Some cl \<Rightarrow> res_bind (class_dequeue cl c rq1) (\<lambda>rq2.
             core_sched True timer_us (add_sleep_list c rq2))))"

text \<open>The two list removals of \<^verbatim>\<open>sched_kill_thread\<close> dereference null links of an unlinked node.\<close>

definition sched_kill_thread :: "tid \<Rightarrow> rq \<Rightarrow> rq res" where
  "sched_kill_thread t rq =
     (if \<not> t_grouped (threads rq t) then Inl NullPointer
      else
        let rq1 = rq\<lparr>threads := (threads rq)(t := (threads rq t)\<lparr>t_grouped := False\<rparr>)\<rparr> in
        if t \<notin> set (thread_list rq1) then Inl NullPointer
        else
          let rq2 = rq1\<lparr>thread_list := remove1 t (thread_list rq1)\<rparr> in
          (case t_class (threads rq2 t) of
             None \<Rightarrow> Inl NullPointer
           | Some cl \<Rightarrow> res_bind (class_dequeue cl t rq2) (\<lambda>rq3. Inr (rq3\<lparr>kfreed := t # kfreed rq3\<rparr>))))"

text \<open>What the interrupt return path does with \<^verbatim>\<open>rq->next\<close> (\<^verbatim>\<open>arch/sched.s\<close>).\<close>

definition context_switch :: "rq \<Rightarrow> rq" where
  "context_switch rq = (if rq_next rq \<noteq> 0 then rq\<lparr>rq_curr := rq_next rq, rq_next := 0\<rparr> else rq)"

subsection \<open>The contract of a scheduling class\<close>

text \<open>
  The interface \<^verbatim>\<open>struct sched_class\<close> as the core scheduler relies on it: a queue that
  grows at the end and whose head is picked and put back at the end.
\<close>

locale round_robin =
  fixes queue :: "'r \<Rightarrow> tid list"
    and enqueue :: "tid \<Rightarrow> 'r \<Rightarrow> 'r"
    and pick_next :: "'r \<Rightarrow> tid \<times> 'r"
  assumes enqueue_queue: "queue (enqueue t r) = queue r @ [t]"
    and pick_none: "queue r = [] \<Longrightarrow> pick_next r = (0, r)"
    and pick_first: "queue r \<noteq> [] \<Longrightarrow> fst (pick_next r) = hd (queue r)"
    and pick_rotates: "queue r \<noteq> [] \<Longrightarrow> queue (snd (pick_next r)) = rotate1 (queue r)"
begin

lemma queue_after_picks: "queue (((snd \<circ> pick_next) ^^ k) r) = rotate k (queue r)"
proof (induction k)
  case (Suc k)
  let ?s = "((snd \<circ> pick_next) ^^ k) r"
  show ?case
  proof (cases "queue ?s = []")
    case True
    then have "rotate k (queue r) = []" using Suc by simp
    then have "queue (snd (pick_next ?s)) = rotate (Suc k) (queue r)"
      unfolding pick_none [OF True] using True by (simp add: rotate_is_Nil_conv)
    then show ?thesis by (simp add: comp_def)
  next
    case False
    then have "queue (snd (pick_next ?s)) = rotate (Suc k) (queue r)"
      by (simp only: pick_rotates [OF False] Suc rotate_Suc)
    then show ?thesis by (simp add: comp_def)
  qed
qed simp

text \<open>Round robin: the \<open>k\<close>-th pick from an unchanged queue takes its \<open>k\<close>-th thread, cyclically.\<close>

lemma kth_pick:
  assumes "queue r \<noteq> []"
  shows "fst (pick_next (((snd \<circ> pick_next) ^^ k) r)) = queue r ! (k mod length (queue r))"
proof -
  have "rotate k (queue r) \<noteq> []" using assms by simp
  then have "fst (pick_next (((snd \<circ> pick_next) ^^ k) r)) = hd (rotate k (queue r))"
    by (subst pick_first) (simp_all add: queue_after_picks)
  then show ?thesis using assms by (simp add: hd_rotate_conv_nth)
qed

text \<open>A newly queued thread is picked after exactly those queued before it.\<close>

lemma enqueued_last_picked:
  "fst (pick_next (((snd \<circ> pick_next) ^^ length (queue r)) (enqueue t r))) = t"
  using kth_pick [of "enqueue t r" "length (queue r)"] by (simp add: enqueue_queue)

end

interpretation rtq: round_robin rt_queue rt_enqueue rt_pick_next
  by unfold_locales (simp_all add: rt_enqueue_def rt_pick_next_def Let_def rotate1_hd_tl)

interpretation fairq: round_robin fair_queue fair_enqueue fair_pick_next
  by unfold_locales (simp_all add: fair_enqueue_def fair_pick_next_def Let_def rotate1_hd_tl)

interpretation backq: round_robin back_queue back_enqueue back_pick_next
  by unfold_locales (simp_all add: back_enqueue_def back_pick_next_def Let_def rotate1_hd_tl)

subsection \<open>The invariant of the run queue\<close>

abbreviation wake_of :: "rq \<Rightarrow> tid \<Rightarrow> u64" where
  "wake_of rq t \<equiv> t_wake (threads rq t)"

abbreviation class_of :: "rq \<Rightarrow> tid \<Rightarrow> sched_class option" where
  "class_of rq t \<equiv> t_class (threads rq t)"

definition all_queued :: "rq \<Rightarrow> tid list" where
  "all_queued rq = rt_queue rq @ fair_queue rq @ back_queue rq @ sleep_list rq"

definition classes_ok :: "rq \<Rightarrow> bool" where
  "classes_ok rq \<longleftrightarrow> (\<forall>t \<in> set (rt_queue rq). class_of rq t = Some RtClass) \<and>
     (\<forall>t \<in> set (fair_queue rq). class_of rq t = Some FairClass) \<and>
     (\<forall>t \<in> set (back_queue rq). class_of rq t = Some BackClass) \<and>
     (\<forall>t \<in> set (sleep_list rq). class_of rq t \<in> {Some RtClass, Some FairClass, Some BackClass})"

definition sleepers_sorted :: "rq \<Rightarrow> bool" where
  "sleepers_sorted rq \<longleftrightarrow> sorted_wrt (\<lambda>t u. wake_of rq t \<le> wake_of rq u) (sleep_list rq)"

definition wake_time_ok :: "rq \<Rightarrow> bool" where
  "wake_time_ok rq \<longleftrightarrow> (\<forall>t \<in> set (sleep_list rq).
     wake_of rq t \<noteq> 0 \<and> time_wake rq \<noteq> 0 \<and> time_wake rq \<le> wake_of rq t)"

definition sched_inv :: "rq \<Rightarrow> bool" where
  "sched_inv rq \<longleftrightarrow> distinct (all_queued rq) \<and> 0 \<notin> set (all_queued rq) \<and>
     idle_thread rq \<noteq> 0 \<and> idle_thread rq \<notin> set (all_queued rq) \<and>
     classes_ok rq \<and> sleepers_sorted rq \<and> wake_time_ok rq"

lemmas inv_defs = sched_inv_def all_queued_def classes_ok_def sleepers_sorted_def wake_time_ok_def

text \<open>The ready queue of a class.\<close>

fun ready :: "sched_class \<Rightarrow> rq \<Rightarrow> tid list" where
  "ready RtClass rq = rt_queue rq"
| "ready FairClass rq = fair_queue rq"
| "ready BackClass rq = back_queue rq"
| "ready IdleClass rq = [idle_thread rq]"

subsection \<open>Waking\<close>

lemma wake_loop_closed:
  "(\<forall>t \<in> set ts. class_of rq t \<in> {Some RtClass, Some FairClass, Some BackClass}) \<Longrightarrow>
     sleep_list rq = ts \<Longrightarrow>
     wake_loop tick ts rq = Inr (let w = takeWhile (\<lambda>t. wake_of rq t \<le> tick) ts in
       rq\<lparr>rt_queue := rt_queue rq @ filter (\<lambda>t. class_of rq t = Some RtClass) w,
          fair_queue := fair_queue rq @ filter (\<lambda>t. class_of rq t = Some FairClass) w,
          back_queue := back_queue rq @ filter (\<lambda>t. class_of rq t = Some BackClass) w,
          sleep_list := dropWhile (\<lambda>t. wake_of rq t \<le> tick) ts\<rparr>)"
proof (induction ts arbitrary: rq)
  case (Cons t ts)
  show ?case
  proof (cases "wake_of rq t > tick")
    case True
    then show ?thesis using Cons.prems(2) by (simp add: not_le)
  next
    case False
    from Cons.prems(1) consider "class_of rq t = Some RtClass" | "class_of rq t = Some FairClass"
      | "class_of rq t = Some BackClass" by auto
    then show ?thesis
    proof cases
      case 1
      then show ?thesis
        using Cons.IH [of "class_enqueue RtClass t (rq\<lparr>sleep_list := ts\<rparr>)"] Cons.prems(1) False
        by (simp add: rt_enqueue_def Let_def not_less)
    next
      case 2
      then show ?thesis
        using Cons.IH [of "class_enqueue FairClass t (rq\<lparr>sleep_list := ts\<rparr>)"] Cons.prems(1) False
        by (simp add: fair_enqueue_def Let_def not_less)
    next
      case 3
      then show ?thesis
        using Cons.IH [of "class_enqueue BackClass t (rq\<lparr>sleep_list := ts\<rparr>)"] Cons.prems(1) False
        by (simp add: back_enqueue_def Let_def not_less)
    qed
  qed
qed simp

lemma filter_classes:
  assumes "\<forall>t \<in> set w. f t \<in> {Some RtClass, Some FairClass, Some BackClass}" and "distinct w"
  shows "distinct (filter (\<lambda>t. f t = Some RtClass) w @ filter (\<lambda>t. f t = Some FairClass) w @
      filter (\<lambda>t. f t = Some BackClass) w)"
    and "set w = set (filter (\<lambda>t. f t = Some RtClass) w) \<union> set (filter (\<lambda>t. f t = Some FairClass) w) \<union>
      set (filter (\<lambda>t. f t = Some BackClass) w)"
  using assms by auto

text \<open>What \<^verbatim>\<open>enqueue_sleeping_threads\<close> does: exactly the expired sleepers move to their queues.\<close>

lemma wake_spec:
  assumes inv: "sched_inv rq"
  shows "\<exists>rq'. enqueue_sleeping_threads rq = Inr rq' \<and> sched_inv rq' \<and>
    sleep_list rq' = filter (\<lambda>t. wake_of rq t > time_tick rq) (sleep_list rq) \<and>
    set (all_queued rq') = set (all_queued rq) \<and>
    threads rq' = threads rq \<and> rq_curr rq' = rq_curr rq \<and> rq_next rq' = rq_next rq \<and>
    time_tick rq' = time_tick rq \<and> idle_thread rq' = idle_thread rq \<and> thread_list rq' = thread_list rq"
proof -
  let ?S = "sleep_list rq" and ?due = "\<lambda>t. wake_of rq t \<le> time_tick rq"
  let ?w = "takeWhile ?due ?S" and ?d = "dropWhile ?due ?S"
  define rq1 where "rq1 = rq\<lparr>rt_queue := rt_queue rq @ filter (\<lambda>t. class_of rq t = Some RtClass) ?w,
          fair_queue := fair_queue rq @ filter (\<lambda>t. class_of rq t = Some FairClass) ?w,
          back_queue := back_queue rq @ filter (\<lambda>t. class_of rq t = Some BackClass) ?w,
          sleep_list := ?d\<rparr>"
  have cl: "\<forall>t \<in> set ?S. class_of rq t \<in> {Some RtClass, Some FairClass, Some BackClass}"
    using inv by (simp add: inv_defs)
  have w: "wake_loop (time_tick rq) ?S rq = Inr rq1"
    using wake_loop_closed [OF cl refl, of "time_tick rq"] by (simp add: rq1_def Let_def)
  define rq' where "rq' = rq1\<lparr>time_wake := (case ?d of [] \<Rightarrow> 0 | t # _ \<Rightarrow> wake_of rq t)\<rparr>"
  have r: "enqueue_sleeping_threads rq = Inr rq'"
  proof -
    have "sleep_list rq1 = ?d" "threads rq1 = threads rq" by (simp_all add: rq1_def)
    then show ?thesis
      unfolding enqueue_sleeping_threads_def w rq'_def res_bind.simps
      by (simp only:) (cases ?d, simp_all only: list.case)
  qed
  have S: "?S = ?w @ ?d" by simp
  have srt: "sorted_wrt (\<lambda>t u. wake_of rq t \<le> wake_of rq u) (?w @ ?d)"
    using inv unfolding S [symmetric] by (simp add: inv_defs)
  have dS: "distinct (?w @ ?d)" using inv unfolding S [symmetric] by (simp add: inv_defs)
  have clw: "\<forall>t \<in> set ?w. class_of rq t \<in> {Some RtClass, Some FairClass, Some BackClass}"
    using cl by (auto dest: set_takeWhileD)
  note fc = filter_classes [OF clw]
  have late: "\<forall>t \<in> set ?d. \<not> ?due t"
  proof (cases ?d)
    case (Cons u us)
    then have "\<not> ?due u" by (metis hd_dropWhile list.sel(1) list.distinct(1))
    moreover have "\<forall>t \<in> set us. wake_of rq u \<le> wake_of rq t" using srt Cons by (simp add: sorted_wrt_append)
    ultimately show ?thesis using Cons by (auto simp: not_le intro: less_le_trans)
  next
    case Nil
    then show ?thesis by (simp only: list.set) simp
  qed
  have early: "filter (\<lambda>t. \<not> ?due t) ?w = []"
    by (simp only: filter_empty_conv) (auto dest: set_takeWhileD)
  have "filter (\<lambda>t. \<not> ?due t) ?d = ?d" using late by (simp only: filter_id_conv)
  then have "filter (\<lambda>t. \<not> ?due t) (?w @ ?d) = ?d" unfolding filter_append early by simp
  then have fl: "?d = filter (\<lambda>t. wake_of rq t > time_tick rq) ?S"
    by (simp only: takeWhile_dropWhile_id not_le)
  have sd: "set ?d \<subseteq> set ?S" by (auto dest: set_dropWhileD)
  have queued: "set (all_queued rq') = set (all_queued rq)"
  proof -
    have "set (all_queued rq') = set (rt_queue rq) \<union> set (fair_queue rq) \<union> set (back_queue rq) \<union>
        (set ?w \<union> set ?d)"
      using fc(2) dS by (auto simp: rq'_def rq1_def all_queued_def)
    also have "set ?w \<union> set ?d = set ?S" by (metis S set_append)
    finally show ?thesis by (auto simp: all_queued_def)
  qed
  have "length (all_queued rq') = length (all_queued rq)"
  proof -
    let ?f = "\<lambda>c. filter (\<lambda>t. class_of rq t = Some c) ?w"
    have dw: "distinct ?w" using dS by simp
    have "length (?f RtClass @ ?f FairClass @ ?f BackClass)
        = card (set (?f RtClass @ ?f FairClass @ ?f BackClass))"
      using distinct_card [OF fc(1) [OF dw]] by (simp only:)
    also have "set (?f RtClass @ ?f FairClass @ ?f BackClass) = set ?w"
      using fc(2) [OF dw] by (simp only: set_append Un_assoc)
    also have "card (set ?w) = length ?w" by (rule distinct_card [OF dw])
    finally have "length (?f RtClass) + length (?f FairClass) + length (?f BackClass) = length ?w"
      by (simp only: length_append add.assoc)
    moreover have "length ?w + length ?d = length ?S" by (metis S length_append)
    ultimately show ?thesis by (simp add: rq'_def rq1_def all_queued_def)
  qed
  then have dist: "distinct (all_queued rq')"
    using queued inv by (metis card_distinct distinct_card sched_inv_def)
  have "classes_ok rq'"
    using inv clw sd by (auto simp: inv_defs rq'_def rq1_def dest: set_takeWhileD)
  moreover have "sleepers_sorted rq'" using srt by (simp add: inv_defs rq'_def rq1_def sorted_wrt_append)
  moreover have "wake_time_ok rq'"
  proof (cases ?d)
    case Nil
    moreover have "sleep_list rq' = ?d" by (simp add: rq'_def rq1_def)
    ultimately show ?thesis unfolding wake_time_ok_def by (simp only:) simp
  next
    case (Cons u us)
    have f: "sleep_list rq' = u # us" "time_wake rq' = wake_of rq u" "threads rq' = threads rq"
      unfolding rq'_def rq1_def Cons by simp_all
    have "set (u # us) \<subseteq> set ?S" using sd unfolding Cons .
    then have "\<forall>t \<in> set (u # us). wake_of rq t \<noteq> 0" using inv by (auto simp: inv_defs)
    moreover have "\<forall>t \<in> set us. wake_of rq u \<le> wake_of rq t"
      using srt unfolding Cons by (simp add: sorted_wrt_append)
    ultimately show ?thesis unfolding wake_time_ok_def f by auto
  qed
  ultimately have "sched_inv rq'"
    using dist queued inv by (simp add: sched_inv_def rq'_def rq1_def)
  then show ?thesis using r fl queued by (auto simp: rq'_def rq1_def)
qed

subsection \<open>Picking the next thread\<close>

text \<open>The order in which \<^verbatim>\<open>core_pick_next\<close> asks the classes.\<close>

fun class_rank :: "sched_class \<Rightarrow> nat" where
  "class_rank RtClass = 0"
| "class_rank FairClass = 1"
| "class_rank BackClass = 2"
| "class_rank IdleClass = 3"

instantiation sched_class :: linorder
begin

definition less_eq_sched_class :: "sched_class \<Rightarrow> sched_class \<Rightarrow> bool" where
  "less_eq_sched_class c d \<longleftrightarrow> class_rank c \<le> class_rank d"

definition less_sched_class :: "sched_class \<Rightarrow> sched_class \<Rightarrow> bool" where
  "less_sched_class c d \<longleftrightarrow> class_rank c < class_rank d"

instance
proof
  fix c d e :: sched_class
  show "c < d \<longleftrightarrow> c \<le> d \<and> \<not> d \<le> c" by (auto simp: less_eq_sched_class_def less_sched_class_def)
  show "c \<le> c" by (simp add: less_eq_sched_class_def)
  show "c \<le> d \<Longrightarrow> d \<le> e \<Longrightarrow> c \<le> e" by (simp add: less_eq_sched_class_def)
  show "c \<le> d \<Longrightarrow> d \<le> c \<Longrightarrow> c = d" by (cases c; cases d) (simp_all add: less_eq_sched_class_def)
  show "c \<le> d \<or> d \<le> c" by (simp add: less_eq_sched_class_def linear)
qed

end

lemma core_pick_closed:
  assumes "sched_inv rq"
  shows "core_pick_next rq = Inr
    (if rt_queue rq \<noteq> [] then (hd (rt_queue rq), rq\<lparr>rt_queue := rotate1 (rt_queue rq)\<rparr>)
     else if fair_queue rq \<noteq> [] then (hd (fair_queue rq), rq\<lparr>fair_queue := rotate1 (fair_queue rq)\<rparr>)
     else if back_queue rq \<noteq> [] then (hd (back_queue rq), rq\<lparr>back_queue := rotate1 (back_queue rq)\<rparr>)
     else (idle_thread rq, rq))"
proof -
  have "xs \<noteq> [] \<Longrightarrow> set xs \<subseteq> set (all_queued rq) \<Longrightarrow> hd xs \<noteq> 0" for xs
    using assms by (cases xs) (auto simp: sched_inv_def)
  then have z: "rt_queue rq \<noteq> [] \<Longrightarrow> hd (rt_queue rq) \<noteq> 0"
    "fair_queue rq \<noteq> [] \<Longrightarrow> hd (fair_queue rq) \<noteq> 0"
    "back_queue rq \<noteq> [] \<Longrightarrow> hd (back_queue rq) \<noteq> 0" by (auto simp: all_queued_def)
  have "idle_thread rq \<noteq> 0" using assms by (simp add: sched_inv_def)
  then show ?thesis
    using z by (simp add: core_pick_next_def rt_pick_next_def fair_pick_next_def
        back_pick_next_def idle_pick_next_def Let_def rotate1_hd_tl)
qed

definition same_clock :: "rq \<Rightarrow> rq \<Rightarrow> bool" where
  "same_clock rq rq' \<longleftrightarrow> threads rq' = threads rq \<and> time_tick rq' = time_tick rq \<and>
     rq_curr rq' = rq_curr rq \<and> rq_next rq' = rq_next rq \<and> idle_thread rq' = idle_thread rq \<and>
     thread_list rq' = thread_list rq"

text \<open>
  The pick: thread \<open>t\<close> of class \<open>c\<close>, every class before \<open>c\<close> being empty, is now last of its
  queue; nothing else changed.
\<close>

definition picked :: "rq \<Rightarrow> tid \<Rightarrow> sched_class \<Rightarrow> rq \<Rightarrow> bool" where
  "picked rq t c rq' \<longleftrightarrow> t = hd (ready c rq) \<and> ready c rq \<noteq> [] \<and> (\<forall>d < c. ready d rq = []) \<and>
     ready c rq' = rotate1 (ready c rq) \<and> (\<forall>d. d \<noteq> c \<longrightarrow> ready d rq' = ready d rq) \<and>
     sleep_list rq' = sleep_list rq \<and> time_wake rq' = time_wake rq \<and> same_clock rq rq'"

lemma all_classes: "(\<forall>d. P d) \<longleftrightarrow> P RtClass \<and> P FairClass \<and> P BackClass \<and> P IdleClass"
  by (metis sched_class.exhaust)

lemma core_pick_spec:
  assumes "sched_inv rq"
  shows "\<exists>t c rq'. core_pick_next rq = Inr (t, rq') \<and> picked rq t c rq'"
proof -
  consider (rt) "rt_queue rq \<noteq> []" | (fair) "rt_queue rq = []" "fair_queue rq \<noteq> []"
    | (bg) "rt_queue rq = []" "fair_queue rq = []" "back_queue rq \<noteq> []"
    | (idle) "rt_queue rq = []" "fair_queue rq = []" "back_queue rq = []" by blast
  then show ?thesis
  proof cases
    case rt
    then have "core_pick_next rq = Inr (hd (rt_queue rq), rq\<lparr>rt_queue := rotate1 (rt_queue rq)\<rparr>)"
      using core_pick_closed [OF assms] by simp
    moreover have "picked rq (hd (rt_queue rq)) RtClass (rq\<lparr>rt_queue := rotate1 (rt_queue rq)\<rparr>)"
      unfolding picked_def all_classes same_clock_def using rt by (simp add: less_sched_class_def)
    ultimately show ?thesis by blast
  next
    case fair
    then have "core_pick_next rq = Inr (hd (fair_queue rq), rq\<lparr>fair_queue := rotate1 (fair_queue rq)\<rparr>)"
      using core_pick_closed [OF assms] by simp
    moreover have "picked rq (hd (fair_queue rq)) FairClass (rq\<lparr>fair_queue := rotate1 (fair_queue rq)\<rparr>)"
      unfolding picked_def all_classes same_clock_def using fair by (simp add: less_sched_class_def)
    ultimately show ?thesis by blast
  next
    case bg
    then have "core_pick_next rq = Inr (hd (back_queue rq), rq\<lparr>back_queue := rotate1 (back_queue rq)\<rparr>)"
      using core_pick_closed [OF assms] by simp
    moreover have "picked rq (hd (back_queue rq)) BackClass (rq\<lparr>back_queue := rotate1 (back_queue rq)\<rparr>)"
      unfolding picked_def all_classes same_clock_def using bg by (simp add: less_sched_class_def)
    ultimately show ?thesis by blast
  next
    case idle
    then have "core_pick_next rq = Inr (idle_thread rq, rq)"
      using core_pick_closed [OF assms] by simp
    moreover have "picked rq (idle_thread rq) IdleClass rq"
      unfolding picked_def all_classes same_clock_def using idle by (simp add: less_sched_class_def)
    ultimately show ?thesis by blast
  qed
qed

text \<open>Permuting a ready queue keeps the invariant.\<close>

lemma picked_fields:
  assumes "picked rq t c rq'"
  shows "set (rt_queue rq') = set (rt_queue rq) \<and> set (fair_queue rq') = set (fair_queue rq) \<and>
    set (back_queue rq') = set (back_queue rq)"
    and "distinct (rt_queue rq) \<longrightarrow> distinct (rt_queue rq')"
    and "distinct (fair_queue rq) \<longrightarrow> distinct (fair_queue rq')"
    and "distinct (back_queue rq) \<longrightarrow> distinct (back_queue rq')"
proof -
  have e: "ready d rq' = ready d rq \<or> ready d rq' = rotate1 (ready d rq)" for d
    using assms by (cases "d = c") (auto simp: picked_def)
  note E = e [of RtClass] e [of FairClass] e [of BackClass]
  show "set (rt_queue rq') = set (rt_queue rq) \<and> set (fair_queue rq') = set (fair_queue rq) \<and>
    set (back_queue rq') = set (back_queue rq)" using E by auto
  show "distinct (rt_queue rq) \<longrightarrow> distinct (rt_queue rq')" using E by auto
  show "distinct (fair_queue rq) \<longrightarrow> distinct (fair_queue rq')" using E by auto
  show "distinct (back_queue rq) \<longrightarrow> distinct (back_queue rq')" using E by auto
qed

lemma picked_inv:
  assumes "sched_inv rq" and "picked rq t c rq'"
  shows "sched_inv rq'" and "set (all_queued rq') = set (all_queued rq)"
proof -
  have s: "sleep_list rq' = sleep_list rq" "time_wake rq' = time_wake rq" "threads rq' = threads rq"
    "idle_thread rq' = idle_thread rq"
    using assms(2) by (simp_all add: picked_def same_clock_def)
  show "set (all_queued rq') = set (all_queued rq)"
    using picked_fields(1) [OF assms(2)] by (simp add: all_queued_def s)
  show "sched_inv rq'"
    using assms(1) picked_fields [OF assms(2)] by (simp add: inv_defs s)
qed

subsection \<open>The core scheduler\<close>

lemma sched_inv_cong:
  assumes "rt_queue rq' = rt_queue rq" "fair_queue rq' = fair_queue rq"
    "back_queue rq' = back_queue rq" "sleep_list rq' = sleep_list rq"
    "idle_thread rq' = idle_thread rq" "time_wake rq' = time_wake rq"
    "\<And>t. class_of rq' t = class_of rq t" "\<And>t. wake_of rq' t = wake_of rq t"
  shows "sched_inv rq' \<longleftrightarrow> sched_inv rq"
  unfolding inv_defs assms by (rule refl)

lemma inv_runtime:
  assumes "sched_inv rq"
  shows "sched_inv (rq\<lparr>time_tick := k, threads := (threads rq)(c := (threads rq c)\<lparr>t_runtime := r\<rparr>)\<rparr>)"
    (is "sched_inv ?rq")
proof -
  have "sched_inv ?rq \<longleftrightarrow> sched_inv rq" by (rule sched_inv_cong) simp_all
  then show ?thesis using assms by simp
qed

text \<open>
  After a pass of the core scheduler at time \<open>tick\<close>: everybody queued is still queued, no
  sleeper is overdue, those woken were due, and \<open>rq_next\<close> is the pick of the highest class.
\<close>

lemma core_sched_spec:
  assumes inv: "sched_inv rq" and cur: "rq_curr rq \<noteq> 0"
  shows "\<exists>rq1 t c rq2 rq'. core_sched r us rq = Inr rq' \<and>
    rq' = rq2\<lparr>rq_next := (if t \<noteq> rq_curr rq then t else rq_next rq)\<rparr> \<and>
    sched_inv rq1 \<and> picked rq1 t c rq2 \<and> sched_inv rq2 \<and> rq_curr rq2 = rq_curr rq \<and>
    time_tick rq2 = time_tick rq + ucast (if r then us else SCHED_SLICE) \<and>
    set (all_queued rq2) = set (all_queued rq) \<and> set (sleep_list rq2) \<subseteq> set (sleep_list rq) \<and>
    idle_thread rq2 = idle_thread rq \<and> thread_list rq2 = thread_list rq \<and>
    (\<forall>u. t_wake (threads rq2 u) = wake_of rq u \<and> t_class (threads rq2 u) = class_of rq u) \<and>
    (\<forall>u \<in> set (sleep_list rq2). time_tick rq2 \<le> wake_of rq u) \<and>
    (\<forall>u \<in> set (sleep_list rq) - set (sleep_list rq2). wake_of rq u \<le> time_tick rq2)"
proof -
  let ?d = "ucast (if r then us else SCHED_SLICE) :: u64"
  let ?th = "threads rq (rq_curr rq)"
  define rqa where "rqa = rq\<lparr>time_tick := time_tick rq + ?d,
      threads := (threads rq)(rq_curr rq := ?th\<lparr>t_runtime := t_runtime ?th + ?d\<rparr>)\<rparr>"
  have inva: "sched_inv rqa" unfolding rqa_def by (rule inv_runtime [OF inv])
  have fa: "time_tick rqa = time_tick rq + ?d" "sleep_list rqa = sleep_list rq"
    "all_queued rqa = all_queued rq" "time_wake rqa = time_wake rq" "rq_curr rqa = rq_curr rq"
    "rq_next rqa = rq_next rq" "idle_thread rqa = idle_thread rq" "thread_list rqa = thread_list rq"
    by (simp_all add: rqa_def all_queued_def)
  have wa: "wake_of rqa u = wake_of rq u" "class_of rqa u = class_of rq u" for u
    by (simp_all add: rqa_def)
  obtain rq1 where rq1:
    "(if time_tick rqa > time_wake rqa \<and> time_wake rqa \<noteq> 0 then enqueue_sleeping_threads rqa
      else Inr rqa) = Inr rq1"
    "sched_inv rq1" "set (all_queued rq1) = set (all_queued rq)" "set (sleep_list rq1) \<subseteq> set (sleep_list rq)"
    "threads rq1 = threads rqa" "rq_curr rq1 = rq_curr rq" "rq_next rq1 = rq_next rq"
    "time_tick rq1 = time_tick rqa" "idle_thread rq1 = idle_thread rq" "thread_list rq1 = thread_list rq"
    "\<forall>u \<in> set (sleep_list rq1). time_tick rqa \<le> wake_of rq u"
    "\<forall>u \<in> set (sleep_list rq) - set (sleep_list rq1). wake_of rq u \<le> time_tick rqa"
  proof (cases "time_tick rqa > time_wake rqa \<and> time_wake rqa \<noteq> 0")
    case True
    obtain rq1 where w: "enqueue_sleeping_threads rqa = Inr rq1" "sched_inv rq1"
      "sleep_list rq1 = filter (\<lambda>t. wake_of rqa t > time_tick rqa) (sleep_list rqa)"
      "set (all_queued rq1) = set (all_queued rqa)" "threads rq1 = threads rqa"
      "rq_curr rq1 = rq_curr rqa" "rq_next rq1 = rq_next rqa" "time_tick rq1 = time_tick rqa"
      "idle_thread rq1 = idle_thread rqa" "thread_list rq1 = thread_list rqa"
      using wake_spec [OF inva] by blast
    show thesis
      by (rule that [of rq1]) (use w True in \<open>auto simp: fa wa not_less\<close>)
  next
    case False
    have "time_tick rqa \<le> wake_of rq u" if u: "u \<in> set (sleep_list rq)" for u
    proof -
      have "time_wake rq \<noteq> 0" "time_wake rq \<le> wake_of rq u"
        using inv u by (simp_all add: inv_defs)
      then show ?thesis using False fa(4) by (auto simp: not_less)
    qed
    then show thesis
      by (intro that [of rqa]) (use False inva in \<open>auto simp: fa\<close>)
  qed
  obtain t c rq2 where pk: "core_pick_next rq1 = Inr (t, rq2)" "picked rq1 t c rq2"
    using core_pick_spec [OF rq1(2)] by blast
  note pi = picked_inv [OF rq1(2) pk(2)]
  have sc: "same_clock rq1 rq2" "sleep_list rq2 = sleep_list rq1" using pk(2) by (simp_all add: picked_def)
  let ?rq' = "rq2\<lparr>rq_next := (if t \<noteq> rq_curr rq then t else rq_next rq)\<rparr>"
  have "core_sched r us rq = Inr (if t \<noteq> rq_curr rq2 then rq2\<lparr>rq_next := t\<rparr> else rq2)"
  proof -
    have "account_runtime (if r then us else SCHED_SLICE) rq = Inr rqa"
      using cur by (simp add: account_runtime_def Let_def rqa_def)
    then show ?thesis unfolding core_sched_def by (simp only: res_bind.simps rq1(1) pk(1) prod.case)
  qed
  also have "(if t \<noteq> rq_curr rq2 then rq2\<lparr>rq_next := t\<rparr> else rq2) = ?rq'"
    using sc rq1(6,7) by (auto simp: same_clock_def)
  finally have res: "core_sched r us rq = Inr ?rq'" .
  have "threads rq2 = threads rqa" "time_tick rq2 = time_tick rqa" "rq_curr rq2 = rq_curr rq"
    "idle_thread rq2 = idle_thread rq" "thread_list rq2 = thread_list rq"
    using sc rq1 by (simp_all add: same_clock_def)
  then show ?thesis
    using res rq1 pk(2) pi sc(2) fa wa
    by (intro exI [of _ rq1] exI [of _ t] exI [of _ c] exI [of _ rq2] exI [of _ ?rq']) simp
qed

subsection \<open>Starting, stopping and sleeping\<close>

text \<open>A thread outside every queue.\<close>

definition unqueued :: "rq \<Rightarrow> tid \<Rightarrow> bool" where
  "unqueued rq t \<longleftrightarrow> t \<noteq> 0 \<and> t \<notin> set (all_queued rq) \<and> t \<noteq> idle_thread rq"

lemma rt_enqueue_inv:
  "sched_inv rq \<Longrightarrow> unqueued rq t \<Longrightarrow> class_of rq t = Some RtClass \<Longrightarrow> sched_inv (rt_enqueue t rq)"
  by (simp add: inv_defs unqueued_def rt_enqueue_def) blast

lemma fair_enqueue_inv:
  "sched_inv rq \<Longrightarrow> unqueued rq t \<Longrightarrow> class_of rq t = Some FairClass \<Longrightarrow> sched_inv (fair_enqueue t rq)"
  by (simp add: inv_defs unqueued_def fair_enqueue_def) blast

lemma back_enqueue_inv:
  "sched_inv rq \<Longrightarrow> unqueued rq t \<Longrightarrow> class_of rq t = Some BackClass \<Longrightarrow> sched_inv (back_enqueue t rq)"
  by (simp add: inv_defs unqueued_def back_enqueue_def) blast

lemma class_enqueue_inv:
  assumes "sched_inv rq" and "unqueued rq t" and "class_of rq t = Some c" and "c \<noteq> IdleClass"
  shows "sched_inv (class_enqueue c t rq)"
    and "set (all_queued (class_enqueue c t rq)) = insert t (set (all_queued rq))"
    and "same_clock rq (class_enqueue c t rq)"
    and "sleep_list (class_enqueue c t rq) = sleep_list rq"
  using assms rt_enqueue_inv fair_enqueue_inv back_enqueue_inv
  by (cases c; simp add: all_queued_def rt_enqueue_def fair_enqueue_def back_enqueue_def same_clock_def)+

lemma enqueue_thread_spec:
  assumes inv: "sched_inv rq" and t: "unqueued rq t"
    and c: "class_of rq t = Some c" "c \<noteq> IdleClass"
  shows "\<exists>rq'. sched_enqueue_thread t rq = Inr rq' \<and> sched_inv rq' \<and>
    set (all_queued rq') = insert t (set (all_queued rq)) \<and> sleep_list rq' = sleep_list rq \<and>
    rq_curr rq' = rq_curr rq \<and> rq_next rq' = rq_next rq"
proof -
  let ?r = "set_state t THREAD_RUNNING rq"
  have "sched_inv ?r \<longleftrightarrow> sched_inv rq" by (rule sched_inv_cong) (simp_all add: set_state_def)
  then have i: "sched_inv ?r" using inv by simp
  have f: "all_queued ?r = all_queued rq" "class_of ?r t = Some c" "unqueued ?r t"
    "sleep_list ?r = sleep_list rq" "rq_curr ?r = rq_curr rq" "rq_next ?r = rq_next rq"
    using c t by (simp_all add: set_state_def all_queued_def unqueued_def)
  note e = class_enqueue_inv [OF i f(3,2) c(2)]
  have "sched_enqueue_thread t rq = Inr (class_enqueue c t ?r)"
    using c by (simp add: sched_enqueue_thread_def)
  then show ?thesis using e f by (simp add: same_clock_def)
qed

lemma unlink_spec:
  assumes inv: "sched_inv rq" and t: "t \<in> set (all_queued rq)"
  shows "\<exists>rq'. unlink t rq = Inr rq' \<and> sched_inv rq' \<and> same_clock rq rq' \<and>
    set (all_queued rq') = set (all_queued rq) - {t} \<and> set (sleep_list rq') = set (sleep_list rq) - {t}"
proof -
  let ?rq = "rq\<lparr>rt_queue := remove1 t (rt_queue rq), fair_queue := remove1 t (fair_queue rq),
     back_queue := remove1 t (back_queue rq), sleep_list := remove1 t (sleep_list rq)\<rparr>"
  have u: "unlink t rq = Inr ?rq" using t by (simp add: unlink_def all_queued_def)
  have d: "distinct (rt_queue rq)" "distinct (fair_queue rq)" "distinct (back_queue rq)"
    "distinct (sleep_list rq)" using inv by (simp_all add: inv_defs)
  have q: "set (all_queued ?rq) = set (all_queued rq) - {t}" using d by (auto simp: all_queued_def)
  have "sorted_wrt (\<lambda>t u. wake_of rq t \<le> wake_of rq u) (remove1 t (sleep_list rq))"
    using inv d(4) by (simp add: inv_defs distinct_remove1_removeAll removeAll_filter_not_eq sorted_wrt_filter)
  then have "sched_inv ?rq"
    using inv d by (auto simp: inv_defs)
  then show ?thesis using u q d by (auto simp: same_clock_def)
qed

lemma set_insert_sleeper: "set (insert_sleeper f t us) = insert t (set us)"
  by (induction us) auto

lemma distinct_insert_sleeper: "t \<notin> set us \<Longrightarrow> distinct us \<Longrightarrow> distinct (insert_sleeper f t us)"
  by (induction us) (auto simp: set_insert_sleeper)

lemma sorted_insert_sleeper:
  "sorted_wrt (\<lambda>a b. t_wake (f a) \<le> t_wake (f b)) us \<Longrightarrow>
     sorted_wrt (\<lambda>a b. t_wake (f a) \<le> t_wake (f b)) (insert_sleeper f t us)"
  by (induction us) (auto simp: set_insert_sleeper)

lemma add_sleep_list_spec:
  assumes inv: "sched_inv rq" and t: "t \<noteq> 0" "t \<notin> set (all_queued rq)" "t \<noteq> idle_thread rq"
    and c: "class_of rq t \<in> {Some RtClass, Some FairClass, Some BackClass}" and w: "wake_of rq t \<noteq> 0"
  shows "sched_inv (add_sleep_list t rq)"
    and "set (all_queued (add_sleep_list t rq)) = insert t (set (all_queued rq))"
    and "set (sleep_list (add_sleep_list t rq)) = insert t (set (sleep_list rq))"
proof -
  let ?a = "add_sleep_list t rq" and ?f = "threads (set_state t THREAD_SLEEP rq)"
  have e: "t_class (?f u) = class_of rq u" "t_wake (?f u) = wake_of rq u" for u
    by (simp_all add: set_state_def)
  have f: "rt_queue ?a = rt_queue rq" "fair_queue ?a = fair_queue rq" "back_queue ?a = back_queue rq"
    "idle_thread ?a = idle_thread rq" "threads ?a = ?f" "sleep_list ?a = insert_sleeper ?f t (sleep_list rq)"
    "time_wake ?a = (if wake_of rq t < time_wake rq \<or> time_wake rq = 0 then wake_of rq t else time_wake rq)"
    by (simp_all add: add_sleep_list_def Let_def set_state_def)
  show "set (sleep_list ?a) = insert t (set (sleep_list rq))" by (simp add: f set_insert_sleeper)
  show "set (all_queued ?a) = insert t (set (all_queued rq))"
    by (auto simp: all_queued_def f set_insert_sleeper)
  have "sorted_wrt (\<lambda>a b. t_wake (?f a) \<le> t_wake (?f b)) (sleep_list rq)"
    using inv unfolding e by (simp add: inv_defs)
  note srt = sorted_insert_sleeper [OF this, of t]
  have "sleepers_sorted ?a" using srt by (simp add: sleepers_sorted_def f)
  moreover have "classes_ok ?a" using inv c by (auto simp: inv_defs f e set_insert_sleeper)
  moreover have "wake_time_ok ?a"
    using inv w by (auto simp: inv_defs f e set_insert_sleeper not_less intro: less_imp_le order_trans)
  moreover have "distinct (all_queued ?a)"
    using inv t(2) by (auto simp: inv_defs f set_insert_sleeper intro!: distinct_insert_sleeper)
  ultimately show "sched_inv ?a"
    using inv t by (auto simp: sched_inv_def all_queued_def f set_insert_sleeper)
qed

lemma ready_not_idle:
  assumes "sched_inv rq" and "t \<in> set (all_queued rq)"
  shows "class_of rq t \<in> {Some RtClass, Some FairClass, Some BackClass}" "t \<noteq> 0" "t \<noteq> idle_thread rq"
  using assms by (auto simp: inv_defs)

text \<open>A pass of \<^verbatim>\<open>sched_thread_sleep\<close> by the running thread, ready in its class.\<close>

lemma thread_sleep_spec:
  assumes inv: "sched_inv rq" and ns: "rq_curr rq \<notin> set (sleep_list rq)"
    and w: "time_tick rq + ucast (ms * 1000) \<noteq> 0" and r: "sched_thread_sleep ms us rq = Inr rq'"
  shows "\<exists>rq0. core_sched True us rq0 = Inr rq' \<and> sched_inv rq0 \<and>
    rq_curr rq0 = rq_curr rq \<and> rq_next rq0 = rq_next rq \<and> time_tick rq0 = time_tick rq \<and>
    rq_curr rq \<in> set (sleep_list rq0) \<and> set (all_queued rq0) = set (all_queued rq) \<and>
    idle_thread rq0 = idle_thread rq \<and> thread_list rq0 = thread_list rq \<and>
    rt_queue rq0 = remove1 (rq_curr rq) (rt_queue rq) \<and>
    wake_of rq0 (rq_curr rq) = time_tick rq + ucast (ms * 1000) \<and> rq_curr rq \<noteq> 0"
proof -
  let ?c = "rq_curr rq" and ?w = "time_tick rq + ucast (ms * 1000) :: u64"
  define rq1 where "rq1 = rq\<lparr>threads := (threads rq)(?c := (threads rq ?c)\<lparr>t_wake := ?w\<rparr>)\<rparr>"
  have c0: "?c \<noteq> 0"
    using r by (auto simp: sched_thread_sleep_def Let_def get_curr_thread_def split: if_splits)
  obtain cl where cl: "class_of rq ?c = Some cl"
    using r c0 by (auto simp: sched_thread_sleep_def Let_def get_curr_thread_def split: option.splits)
  have ran: "res_bind (class_dequeue cl ?c rq1) (\<lambda>rq2. core_sched True us (add_sleep_list ?c rq2)) = Inr rq'"
    using r c0 cl
    by (simp add: sched_thread_sleep_def Let_def get_curr_thread_def get_kernel_tick_def rq1_def)
  then obtain rq2 where d: "class_dequeue cl ?c rq1 = Inr rq2"
    and cs: "core_sched True us (add_sleep_list ?c rq2) = Inr rq'"
    by (auto simp: res_bind_Inr_iff)
  have un: "unlink ?c rq1 = Inr rq2" and cli: "cl \<noteq> IdleClass"
    using d by (cases cl; simp add: rt_dequeue_def fair_dequeue_def back_dequeue_def)+
  have other: "t \<noteq> ?c \<Longrightarrow> threads rq1 t = threads rq t" "t_class (threads rq1 t) = class_of rq t"
    "t_wake (threads rq1 ?c) = ?w" for t by (simp_all add: rq1_def)
  have qs: "rt_queue rq1 = rt_queue rq" "fair_queue rq1 = fair_queue rq" "back_queue rq1 = back_queue rq"
    "sleep_list rq1 = sleep_list rq" "idle_thread rq1 = idle_thread rq" "time_wake rq1 = time_wake rq"
    "rq_curr rq1 = ?c" "rq_next rq1 = rq_next rq" "time_tick rq1 = time_tick rq"
    "all_queued rq1 = all_queued rq" "thread_list rq1 = thread_list rq"
    by (simp_all add: rq1_def all_queued_def)
  have same: "\<forall>t \<in> set (sleep_list rq). t_wake (threads rq1 t) = wake_of rq t"
    using ns other(1) by metis
  have "sleepers_sorted rq1"
  proof -
    have "sleepers_sorted rq" using inv by (simp add: sched_inv_def)
    then show ?thesis unfolding sleepers_sorted_def qs
      by (rule sorted_wrt_mono_rel [rotated]) (simp add: same)
  qed
  moreover have "wake_time_ok rq1" using inv same by (simp add: inv_defs qs)
  moreover have "classes_ok rq1" using inv by (simp add: inv_defs qs other(2))
  ultimately have i1: "sched_inv rq1" using inv by (simp add: sched_inv_def qs)
  have cq: "?c \<in> set (all_queued rq1)"
    using un by (auto simp: unlink_def all_queued_def split: if_splits)
  note rn = ready_not_idle [OF i1 cq]
  obtain rq2' where u: "unlink ?c rq1 = Inr rq2'" "sched_inv rq2'" "same_clock rq1 rq2'"
    "set (all_queued rq2') = set (all_queued rq1) - {?c}"
    using unlink_spec [OF i1 cq] by blast
  then have u2: "sched_inv rq2" "same_clock rq1 rq2" "set (all_queued rq2) = set (all_queued rq) - {?c}"
    using un qs by simp_all
  have i2: "?c \<notin> set (all_queued rq2)" "?c \<noteq> idle_thread rq2" "class_of rq2 ?c = class_of rq1 ?c"
    "wake_of rq2 ?c = ?w"
    using u2 rn other(3) by (simp_all add: same_clock_def)
  note A = add_sleep_list_spec [OF u2(1) c0 i2(1,2)]
  have A1: "sched_inv (add_sleep_list ?c rq2)"
    "set (all_queued (add_sleep_list ?c rq2)) = insert ?c (set (all_queued rq2))"
    "set (sleep_list (add_sleep_list ?c rq2)) = insert ?c (set (sleep_list rq2))"
    using A rn(1) i2 w by simp_all
  have fr: "rq_curr (add_sleep_list ?c rq2) = ?c" "rq_next (add_sleep_list ?c rq2) = rq_next rq"
    "time_tick (add_sleep_list ?c rq2) = time_tick rq" "wake_of (add_sleep_list ?c rq2) ?c = ?w"
    "idle_thread (add_sleep_list ?c rq2) = idle_thread rq" "thread_list (add_sleep_list ?c rq2) = thread_list rq"
    "rt_queue (add_sleep_list ?c rq2) = rt_queue rq2"
    using u2(2) i2(4) qs by (simp_all add: add_sleep_list_def Let_def set_state_def same_clock_def)
  have "rt_queue rq2 = remove1 ?c (rt_queue rq)" using un qs by (auto simp: unlink_def split: if_splits)
  moreover have "insert ?c (set (all_queued rq2)) = set (all_queued rq)" using u2(3) cq qs by auto
  ultimately show ?thesis using cs A1 fr c0 by (intro exI [of _ "add_sleep_list ?c rq2"]) simp
qed

subsection \<open>Runs of the scheduler\<close>

text \<open>
  The events between two instructions of user code: the timer tick, the sleep system call of
  the running thread, the start of a new thread of a class other than idle, and a kill; the
  interrupt return performs the context switch.
\<close>

inductive sched_step :: "rq \<Rightarrow> rq \<Rightarrow> bool" where
  tick: "cpu_tick_handler rq = Inr rq' \<Longrightarrow> sched_step rq (context_switch rq')"
| sleep: "time_tick rq + ucast (ms * 1000) \<noteq> 0 \<Longrightarrow> sched_thread_sleep ms us rq = Inr rq' \<Longrightarrow>
    sched_step rq (context_switch rq')"
| spawn: "unqueued rq t \<Longrightarrow> class_of rq t = Some c \<Longrightarrow> c \<noteq> IdleClass \<Longrightarrow>
    sched_enqueue_thread t rq = Inr rq' \<Longrightarrow> sched_step rq rq'"
| kill: "sched_kill_thread t rq = Inr rq' \<Longrightarrow> sched_step rq rq'"

inductive_cases sched_step_cases: "sched_step rq rq'"

definition run_inv :: "rq \<Rightarrow> bool" where
  "run_inv rq \<longleftrightarrow> sched_inv rq \<and> rq_next rq = 0 \<and> rq_curr rq \<notin> set (sleep_list rq)"

lemma picked_awake:
  assumes "sched_inv rq" and "picked rq t c rq'"
  shows "t \<notin> set (sleep_list rq') \<and> t \<noteq> 0"
proof -
  have "t \<in> set (ready c rq)" using assms(2) by (simp add: picked_def)
  moreover have "sleep_list rq' = sleep_list rq" using assms(2) by (simp add: picked_def)
  ultimately show ?thesis using assms(1) by (cases c) (auto simp: inv_defs)
qed

lemma core_sched_run_inv:
  assumes "sched_inv rq" and "rq_curr rq \<noteq> 0" and "rq_next rq = 0" and "core_sched r us rq = Inr rq'"
  shows "run_inv (context_switch rq')"
proof -
  obtain rq1 t c rq2 where e: "rq' = rq2\<lparr>rq_next := (if t \<noteq> rq_curr rq then t else rq_next rq)\<rparr>"
    "sched_inv rq1" "picked rq1 t c rq2" "sched_inv rq2"
    and cur: "rq_curr rq2 = rq_curr rq"
    using core_sched_spec [OF assms(1,2), of r us] assms(4) by auto
  note aw = picked_awake [OF e(2,3)]
  have "sched_inv (context_switch rq') \<longleftrightarrow> sched_inv rq2"
    by (rule sched_inv_cong) (simp_all add: context_switch_def e(1))
  then show ?thesis
    using e(4) aw cur assms(3) by (auto simp: run_inv_def context_switch_def e(1))
qed

lemma kill_spec:
  assumes inv: "sched_inv rq" and r: "sched_kill_thread t rq = Inr rq'"
  shows "sched_inv rq'" and "set (all_queued rq') = set (all_queued rq) - {t}"
    and "set (sleep_list rq') = set (sleep_list rq) - {t}"
    and "rq_curr rq' = rq_curr rq" and "rq_next rq' = rq_next rq"
    and "kfreed rq' = t # kfreed rq"
    and "t \<in> set (all_queued rq)" and "idle_thread rq' = idle_thread rq"
    and "thread_list rq' = remove1 t (thread_list rq)" and "rt_queue rq' = remove1 t (rt_queue rq)"
proof -
  define rq2 where "rq2 = rq\<lparr>threads := (threads rq)(t := (threads rq t)\<lparr>t_grouped := False\<rparr>),
     thread_list := remove1 t (thread_list rq)\<rparr>"
  have q: "all_queued rq2 = all_queued rq" "sleep_list rq2 = sleep_list rq" "rq_curr rq2 = rq_curr rq"
    "rq_next rq2 = rq_next rq" "kfreed rq2 = kfreed rq" "idle_thread rq2 = idle_thread rq"
    "thread_list rq2 = remove1 t (thread_list rq)" "rt_queue rq2 = rt_queue rq" by (simp_all add: rq2_def all_queued_def)
  have "sched_inv rq2 \<longleftrightarrow> sched_inv rq" by (rule sched_inv_cong) (simp_all add: rq2_def)
  then have i2: "sched_inv rq2" using inv by simp
  obtain cl rq3 where d: "class_dequeue cl t rq2 = Inr rq3" "rq' = rq3\<lparr>kfreed := t # kfreed rq3\<rparr>"
    using r by (auto simp: sched_kill_thread_def Let_def rq2_def res_bind_Inr_iff split: if_splits option.splits)
  have un: "unlink t rq2 = Inr rq3"
    using d(1) by (cases cl; simp add: rt_dequeue_def fair_dequeue_def back_dequeue_def)+
  then have tq: "t \<in> set (all_queued rq2)" by (auto simp: unlink_def all_queued_def split: if_splits)
  have k3: "kfreed rq3 = kfreed rq" using un q by (auto simp: unlink_def split: if_splits)
  obtain rq4 where u: "unlink t rq2 = Inr rq4" "sched_inv rq4" "same_clock rq2 rq4"
    "set (all_queued rq4) = set (all_queued rq2) - {t}" "set (sleep_list rq4) = set (sleep_list rq2) - {t}"
    using unlink_spec [OF i2 tq] by blast
  have e: "rq4 = rq3" using u(1) un by simp
  have "sched_inv rq' \<longleftrightarrow> sched_inv rq3" by (rule sched_inv_cong) (simp_all add: d(2))
  then show "sched_inv rq'" using u(2) e by simp
  have "all_queued rq' = all_queued rq3" by (simp add: d(2) all_queued_def)
  then show "set (all_queued rq') = set (all_queued rq) - {t}" using u(4) e q(1) by simp
  show "set (sleep_list rq') = set (sleep_list rq) - {t}"
    "rq_curr rq' = rq_curr rq" "rq_next rq' = rq_next rq" "kfreed rq' = t # kfreed rq"
    using u e q k3 by (simp_all add: d(2) same_clock_def)
  show "t \<in> set (all_queued rq)" using tq q(1) by simp
  show "rt_queue rq' = remove1 t (rt_queue rq)" using un q(8) by (auto simp: d(2) unlink_def split: if_splits)
  show "idle_thread rq' = idle_thread rq" "thread_list rq' = remove1 t (thread_list rq)"
    using u(3) e q by (simp_all add: d(2) same_clock_def)
qed

lemma sched_step_inv: "sched_step rq rq' \<Longrightarrow> run_inv rq \<Longrightarrow> run_inv rq'"
proof (induction rule: sched_step.induct)
  case (tick rq rq')
  then have c: "rq_curr rq \<noteq> 0"
    by (auto simp: cpu_tick_handler_def core_sched_def account_runtime_def Let_def)
  show ?case
    using core_sched_run_inv [OF _ c] tick by (auto simp: run_inv_def cpu_tick_handler_def)
next
  case (sleep rq ms us rq')
  then obtain rq0 where "core_sched True us rq0 = Inr rq'" "sched_inv rq0" "rq_curr rq0 = rq_curr rq"
      "rq_next rq0 = rq_next rq" "rq_curr rq \<noteq> 0"
    using thread_sleep_spec [OF _ _ sleep(1,2)] by (auto simp: run_inv_def)
  then show ?case using core_sched_run_inv [of rq0] sleep(3) by (simp add: run_inv_def)
next
  case (spawn rq t c rq')
  have i: "sched_inv rq" using spawn(5) by (simp add: run_inv_def)
  from enqueue_thread_spec [OF i spawn(1-3)] show ?case using spawn(4,5) by (auto simp: run_inv_def)
next
  case (kill t rq rq')
  have i: "sched_inv rq" using kill(2) by (simp add: run_inv_def)
  from kill_spec [OF i kill(1)] show ?case using kill(2) by (auto simp: run_inv_def)
qed

lemma sched_steps_inv: "sched_step\<^sup>*\<^sup>* rq rq' \<Longrightarrow> run_inv rq \<Longrightarrow> run_inv rq'"
  by (induction rule: rtranclp_induct) (auto intro: sched_step_inv)

text \<open>The run queue after \<^verbatim>\<open>sched_init_rq\<close>, the creation of the idle thread and the start.\<close>

definition boot_rq :: "tid \<Rightarrow> rq \<Rightarrow> rq" where
  "boot_rq idle rq = (idle_enqueue idle (sched_init_rq rq))\<lparr>rq_curr := idle\<rparr>"

lemma boot_run_inv: "idle \<noteq> 0 \<Longrightarrow> run_inv (boot_rq idle rq)"
  by (simp add: run_inv_def boot_rq_def inv_defs idle_enqueue_def sched_init_rq_def idle_init_def
      back_init_def fair_init_def rt_init_def)

subsection \<open>Properties\<close>


definition demo_thread :: "sched_class \<Rightarrow> thread" where
  "demo_thread c = \<lparr>t_wake = 0, t_runtime = 0, t_last_runtime = 0, t_state = THREAD_RUNNING,
     t_class = Some c, t_grouped = False, t_pid = 0\<rparr>"

definition demo_rq :: rq where
  "demo_rq = \<lparr>rq_next = 0, rq_curr = 0, lazy_fpu = 0, rt_queue = [], fair_queue = [], back_queue = [],
     idle_thread = 0, thread_list = [], sleep_list = [], time_tick = 0, time_wake = 0, tick_window = 0,
     sched_flag = 0,
     threads = (\<lambda>t. demo_thread (if t = 1 then IdleClass else if t = 2 then RtClass else FairClass)),
     kfreed = []\<rparr>"

lemmas demo_defs = demo_rq_def demo_thread_def boot_rq_def idle_enqueue_def sched_init_rq_def
  idle_init_def back_init_def fair_init_def rt_init_def

definition demo_rq2 :: rq where
  "demo_rq2 = rt_enqueue 2 (set_state 2 THREAD_RUNNING (boot_rq 1 demo_rq))"

lemma demo_spawn: "sched_step (boot_rq 1 demo_rq) demo_rq2"
  unfolding demo_rq2_def
  by (rule sched_step.spawn [where t = 2 and c = RtClass])
    (simp_all add: demo_defs unqueued_def all_queued_def sched_enqueue_thread_def set_state_def)


text \<open>C13. After a pass of \<^verbatim>\<open>core_sched\<close> no thread is asleep whose wake-up time lies before the
  new tick, the threads it woke were due, and nobody is lost: the same threads are queued.\<close>

theorem core_sched_wakes:
  assumes "sched_inv rq" and "rq_curr rq \<noteq> 0"
  shows "\<exists>rq'. core_sched r us rq = Inr rq' \<and> sched_inv rq' \<and>
    time_tick rq' = time_tick rq + ucast (if r then us else SCHED_SLICE) \<and>
    set (all_queued rq') = set (all_queued rq) \<and> set (sleep_list rq') \<subseteq> set (sleep_list rq) \<and>
    (\<forall>u \<in> set (sleep_list rq'). time_tick rq' \<le> wake_of rq u) \<and>
    (\<forall>u \<in> set (sleep_list rq) - set (sleep_list rq'). wake_of rq u \<le> time_tick rq')"
proof -
  obtain rq2 n where e: "core_sched r us rq = Inr (rq2\<lparr>rq_next := n\<rparr>)" "sched_inv rq2"
    "time_tick rq2 = time_tick rq + ucast (if r then us else SCHED_SLICE)"
    "set (all_queued rq2) = set (all_queued rq)" "set (sleep_list rq2) \<subseteq> set (sleep_list rq)"
    "\<forall>u \<in> set (sleep_list rq2). time_tick rq2 \<le> wake_of rq u"
    "\<forall>u \<in> set (sleep_list rq) - set (sleep_list rq2). wake_of rq u \<le> time_tick rq2"
    using core_sched_spec [OF assms, of r us] by blast
  have "sched_inv (rq2\<lparr>rq_next := n\<rparr>) \<longleftrightarrow> sched_inv rq2" by (rule sched_inv_cong) simp_all
  moreover have "all_queued (rq2\<lparr>rq_next := n\<rparr>) = all_queued rq2" by (simp add: all_queued_def)
  ultimately show ?thesis using e by (intro exI [of _ "rq2\<lparr>rq_next := n\<rparr>"]) simp
qed

lemma demo2_inv: "sched_inv demo_rq2" "rq_curr demo_rq2 = 1"
  using sched_step_inv [OF demo_spawn boot_run_inv]
  by (simp_all add: run_inv_def demo_rq2_def rt_enqueue_def set_state_def demo_defs)

theorem core_sched_wakes_witness:
  "\<exists>rq'. core_sched False 0 demo_rq2 = Inr rq' \<and> time_tick rq' = 1000"
  using core_sched_wakes [OF demo2_inv(1), of False 0] demo2_inv(2)
  by (auto simp: SCHED_SLICE_def demo_rq2_def rt_enqueue_def set_state_def demo_defs)

text \<open>The thread \<^verbatim>\<open>core_sched\<close> selects is the first of the highest class that has a ready
  thread, idle only if there is none, and it moves to the end of its queue.\<close>

theorem core_pick_priority:
  assumes "sched_inv rq"
  shows "\<exists>t c rq'. core_pick_next rq = Inr (t, rq') \<and> t = hd (ready c rq) \<and> t \<noteq> 0 \<and>
    (\<forall>d < c. ready d rq = []) \<and> ready c rq' = tl (ready c rq) @ [t] \<and>
    (\<forall>d. d \<noteq> c \<longrightarrow> ready d rq' = ready d rq)"
proof -
  obtain t c rq' where p: "core_pick_next rq = Inr (t, rq')" "picked rq t c rq'"
    using core_pick_spec [OF assms] by blast
  moreover have "ready c rq' = tl (ready c rq) @ [t]"
    using p(2) by (simp add: picked_def rotate1_hd_tl)
  ultimately show ?thesis
    using picked_awake [OF assms p(2)] by (intro exI [of _ t] exI [of _ c] exI [of _ rq']) (simp add: picked_def)
qed

theorem core_pick_priority_witness: "\<exists>t rq'. core_pick_next demo_rq2 = Inr (t, rq')"
  using core_pick_priority [OF demo2_inv(1)] by blast

text \<open>C14. Each class serves its threads in turn: over repeated picks with nothing else
  happening the \<open>k\<close>-th pick is the \<open>k\<close>-th thread of the queue, cyclically, so a thread waits
  for each other thread of its class once.\<close>

theorem class_round_robin:
  "(rt_queue rq \<noteq> [] \<longrightarrow> fst (rt_pick_next (((snd \<circ> rt_pick_next) ^^ k) rq)) =
       rt_queue rq ! (k mod length (rt_queue rq))) \<and>
   (fair_queue rq \<noteq> [] \<longrightarrow> fst (fair_pick_next (((snd \<circ> fair_pick_next) ^^ k) rq)) =
       fair_queue rq ! (k mod length (fair_queue rq))) \<and>
   (back_queue rq \<noteq> [] \<longrightarrow> fst (back_pick_next (((snd \<circ> back_pick_next) ^^ k) rq)) =
       back_queue rq ! (k mod length (back_queue rq)))"
  using rtq.kth_pick [of rq k] fairq.kth_pick [of rq k] backq.kth_pick [of rq k] by blast

theorem class_round_robin_witness:
  "fst (rt_pick_next (((snd \<circ> rt_pick_next) ^^ 3) (rt_enqueue 3 demo_rq2))) = 3"
proof -
  have q: "rt_queue (rt_enqueue 3 demo_rq2) = [2, 3]"
    by (simp add: demo_rq2_def rt_enqueue_def set_state_def demo_defs)
  have "(3 :: nat) mod Suc (Suc 0) = Suc 0" by (simp add: mod_Suc numeral_3_eq_3)
  then show ?thesis using class_round_robin [of "rt_enqueue 3 demo_rq2" 3] q by simp
qed

text \<open>\<^verbatim>\<open>sched_thread_sleep\<close> puts the running thread on the sleep list with the wake-up
  time \<open>tick + 1000 * ms\<close>, the product taken modulo \<open>2 ^ 32\<close>, so a request of 4294968 ms
  sleeps less than a millisecond; the running thread then gives up the processor.\<close>

theorem sched_thread_sleep_correct:
  assumes "run_inv rq" and "time_tick rq + ucast (ms * 1000) \<noteq> 0"
    and "sched_thread_sleep ms us rq = Inr rq'"
  shows "\<exists>rq0. sched_inv rq0 \<and> rq_curr rq \<in> set (sleep_list rq0) \<and>
    wake_of rq0 (rq_curr rq) = time_tick rq + of_nat (1000 * unat ms mod 4294967296) \<and>
    core_sched True us rq0 = Inr rq' \<and> rq_curr (context_switch rq') \<notin> set (sleep_list rq')"
proof -
  have i: "sched_inv rq" "rq_curr rq \<notin> set (sleep_list rq)" "rq_next rq = 0"
    using assms(1) by (simp_all add: run_inv_def)
  obtain rq0 where e: "core_sched True us rq0 = Inr rq'" "sched_inv rq0" "rq_curr rq0 = rq_curr rq"
    "rq_next rq0 = rq_next rq" "rq_curr rq \<in> set (sleep_list rq0)"
    "wake_of rq0 (rq_curr rq) = time_tick rq + ucast (ms * 1000)" "rq_curr rq \<noteq> 0"
    using thread_sleep_spec [OF i(1,2) assms(2,3)] by blast
  have "unat (ms * 1000) = 1000 * unat ms mod 4294967296"
    by (simp add: unat_word_ariths mult.commute)
  then have "(ucast (ms * 1000) :: u64) = of_nat (1000 * unat ms mod 4294967296)"
    by (metis of_nat_unat)
  moreover have "run_inv (context_switch rq')"
    using core_sched_run_inv [OF e(2) _ _ e(1)] e i by simp
  moreover have "sleep_list (context_switch rq') = sleep_list rq'" by (simp add: context_switch_def)
  ultimately show ?thesis using e by (intro exI [of _ rq0]) (simp add: run_inv_def)
qed

definition demo_rq3 :: rq where
  "demo_rq3 = demo_rq2\<lparr>rq_curr := 2\<rparr>"

lemma demo3_inv: "run_inv demo_rq3"
proof -
  have "sched_inv demo_rq3 \<longleftrightarrow> sched_inv demo_rq2" by (rule sched_inv_cong) (simp_all add: demo_rq3_def)
  then show ?thesis using demo2_inv
    by (simp add: run_inv_def demo_rq3_def demo_rq2_def rt_enqueue_def set_state_def demo_defs)
qed

lemma demo3_sleep: "\<exists>rq'. sched_thread_sleep 5 500 demo_rq3 = Inr rq'"
  by (simp add: sched_thread_sleep_def Let_def get_curr_thread_def get_kernel_tick_def demo_rq3_def
      demo_rq2_def rt_enqueue_def set_state_def demo_defs rt_dequeue_def unlink_def add_sleep_list_def
      core_sched_def account_runtime_def core_pick_next_def rt_pick_next_def fair_pick_next_def
      back_pick_next_def idle_pick_next_def)

theorem sched_thread_sleep_correct_witness:
  "\<exists>rq' rq0. sched_thread_sleep 5 500 demo_rq3 = Inr rq' \<and> wake_of rq0 2 = 5000 \<and> 2 \<in> set (sleep_list rq0)"
proof -
  obtain rq' where r: "sched_thread_sleep 5 500 demo_rq3 = Inr rq'" using demo3_sleep by blast
  have f: "time_tick demo_rq3 = 0" "rq_curr demo_rq3 = 2"
    by (simp_all add: demo_rq3_def demo_rq2_def rt_enqueue_def set_state_def demo_defs)
  have "time_tick demo_rq3 + ucast ((5 :: u32) * 1000) \<noteq> 0" by (simp add: f)
  from sched_thread_sleep_correct [OF demo3_inv this r] show ?thesis using r f by auto
qed

end
