(* ===== verification/Slob.thy ===== *)
theory Slob
  imports Align
begin

text \<open>
  \<^verbatim>\<open>mm/slob.c\<close>: the kernel heap, a singly linked list of free blocks sorted by address.
  A block starts with its \<^verbatim>\<open>slob_node\<close>; the nodes are a function from addresses, and the
  sentinel embedded in \<^verbatim>\<open>struct slob_struct\<close> has an address \<open>node_addr\<close> of its own. The list
  walks are partial functions, so a walk that does not end has the value \<open>None\<close>.
\<close>

subsection \<open>Definitions\<close>

record slob_node =
  nsize :: u32
  nnext :: u32

record slob =
  start_addr :: u32
  end_addr :: u32
  stat_used :: u32
  stat_total :: u32
  first_node :: u32
  last_node :: u32
  zone_page_cnt :: u32
  nodes :: "u32 \<Rightarrow> slob_node"

type_synonym slob_nodes = "u32 \<Rightarrow> slob_node"

definition SLOB_ALIGN :: u32 where "SLOB_ALIGN = 8"
definition SLOB_MIN_BLOCK :: u32 where "SLOB_MIN_BLOCK = 16"
definition sizeof_node :: u32 where "sizeof_node = 8"
definition SLOB_MAGIC :: u32 where "SLOB_MAGIC = 0xC0DEBABE"
definition KERNEL_START :: u32 where "KERNEL_START = 0x80000000"

definition put_size :: "u32 \<Rightarrow> u32 \<Rightarrow> slob_nodes \<Rightarrow> slob_nodes" where
  "put_size p v ns = ns(p := (ns p)\<lparr>nsize := v\<rparr>)"

definition put_next :: "u32 \<Rightarrow> u32 \<Rightarrow> slob_nodes \<Rightarrow> slob_nodes" where
  "put_next p v ns = ns(p := (ns p)\<lparr>nnext := v\<rparr>)"

definition slob_get_free :: "slob \<Rightarrow> u32" where
  "slob_get_free s = stat_total s - stat_used s"

definition slob_get_used :: "slob \<Rightarrow> u32" where
  "slob_get_used s = stat_used s"

definition slob_get_total :: "slob \<Rightarrow> u32" where
  "slob_get_total s = stat_total s"

text \<open>
  \<open>page_index\<close> is the distance of the zone from the page array. The last node is computed by
  pointer subtraction, so eight nodes of eight bytes are taken off.
\<close>

definition slob_init :: "u32 \<Rightarrow> u32 \<Rightarrow> slob \<Rightarrow> bool \<times> slob" where
  "slob_init node_addr page_index s =
     (let sa = KERNEL_START + page_index * 4096;
          ea = sa + zone_page_cnt s * 4096;
          s1 = s\<lparr>start_addr := sa, end_addr := ea\<rparr> in
      if sa > ea then (False, s1)
      else
        let sa' = (if sa AND (SLOB_ALIGN - 1) \<noteq> 0 then (sa + SLOB_ALIGN) AND NOT (SLOB_ALIGN - 1) else sa);
            ea' = (if ea AND (SLOB_ALIGN - 1) \<noteq> 0 then ea AND NOT (SLOB_ALIGN - 1) else ea);
            tmp = sa';
            lst = ea' - sizeof_node * sizeof_node;
            n1 = put_next node_addr tmp (put_size node_addr 0 (nodes s));
            n2 = put_next tmp lst (put_size tmp (lst - node_addr) n1);
            n3 = put_size lst 0 (put_next lst 0 n2)
        in (True, s1\<lparr>start_addr := sa', end_addr := ea', first_node := node_addr, last_node := lst,
                     nodes := n3, stat_total := nsize (n3 tmp), stat_used := 0\<rparr>))"

partial_function (option) insert_slot :: "slob_nodes \<Rightarrow> u32 \<Rightarrow> u32 \<Rightarrow> u32 option" where
  "insert_slot ns node it =
     (if it = 0 then Some 0
      else if nnext (ns it) > node then Some it
      else insert_slot ns node (nnext (ns it)))"

definition merge_back :: "u32 \<Rightarrow> u32 \<Rightarrow> slob_nodes \<Rightarrow> u32 \<times> slob_nodes" where
  "merge_back it node ns =
     (if it + nsize (ns it) = node then (it, put_size it (nsize (ns it) + nsize (ns node)) ns)
      else (node, ns))"

definition merge_forward :: "u32 \<Rightarrow> u32 \<Rightarrow> u32 \<Rightarrow> slob_nodes \<Rightarrow> slob_nodes" where
  "merge_forward lst it node ns =
     (if node + nsize (ns node) = nnext (ns it) then
        (if nnext (ns it) \<noteq> lst then
           let ns' = put_size node (nsize (ns node) + nsize (ns (nnext (ns it)))) ns
           in put_next node (nnext (ns' (nnext (ns' it)))) ns'
         else put_next node (nnext (ns it)) ns)
      else put_next node (nnext (ns it)) ns)"

definition slob_insert_free :: "u32 \<Rightarrow> u32 \<Rightarrow> u32 \<Rightarrow> slob_nodes \<Rightarrow> (bool \<times> slob_nodes) option" where
  "slob_insert_free fst_node lst node ns =
     map_option (\<lambda>it.
       if it = 0 then (False, ns)
       else case merge_back it node ns of (node', ns1) \<Rightarrow>
         let ns2 = merge_forward lst it node' ns1
         in (True, if node' \<noteq> it then put_next it node' ns2 else ns2))
       (insert_slot ns node fst_node)"

text \<open>The loop of \<^verbatim>\<open>slob_extend\<close>, whose body is empty.\<close>

partial_function (option) extend_wait :: "slob_nodes \<Rightarrow> u32 \<Rightarrow> u32 \<Rightarrow> unit option" where
  "extend_wait ns it lst = (if nnext (ns it) \<noteq> lst then extend_wait ns it lst else Some ())"

definition slob_extend :: "u32 \<Rightarrow> slob \<Rightarrow> slob option" where
  "slob_extend pgs s =
     (let it = first_node s; tmp = last_node s in
      Option.bind (extend_wait (nodes s) it tmp) (\<lambda>_.
        let ea = end_addr s + pgs * 4096; lst = ea - sizeof_node;
            n1 = put_size lst 0 (put_next lst 0 (nodes s));
            n2 = put_next it lst n1;
            n3 = put_size tmp (pgs * 4096) (put_next tmp 0 n2) in
        map_option (\<lambda>(_, n4). s\<lparr>end_addr := ea, last_node := lst, nodes := n4,
            stat_total := stat_total s + pgs * 4096, zone_page_cnt := zone_page_cnt s + pgs\<rparr>)
          (slob_insert_free it lst tmp n3)))"

partial_function (option) slob_search :: "slob_nodes \<Rightarrow> u32 \<Rightarrow> u32 \<Rightarrow> u32 \<Rightarrow> (u32 \<times> u32) option" where
  "slob_search ns it_prev it sz =
     (if it \<noteq> 0 then
        if nsize (ns it) \<ge> sz then Some (it_prev, it) else slob_search ns it (nnext (ns it)) sz
      else Some (it_prev, 0))"

definition alloc_size :: "u32 \<Rightarrow> u32" where
  "alloc_size sz =
     (let s1 = sz + sizeof_node in
      if s1 AND (SLOB_ALIGN - 1) \<noteq> 0 then (s1 + SLOB_ALIGN) AND NOT (SLOB_ALIGN - 1) else s1)"

definition slob_alloc :: "u32 \<Rightarrow> slob \<Rightarrow> (u32 \<times> slob) option" where
  "slob_alloc req s =
     (if req = 0 then Some (0, s)
      else
        let sz = alloc_size req in
        Option.bind (slob_search (nodes s) (first_node s) (nnext (nodes s (first_node s))) sz)
          (\<lambda>(it_prev, it).
            if it = 0 then Some (0, s)
            else
              let n1 = put_next it_prev (nnext (nodes s it)) (nodes s);
                  new_size = nsize (n1 it) - sz in
              Option.bind
                (if new_size \<ge> SLOB_MIN_BLOCK then
                   map_option (\<lambda>(_, n2). (sz, n2))
                     (slob_insert_free (first_node s) (last_node s) (it + sz) (put_size (it + sz) new_size n1))
                 else Some (nsize (n1 it), n1))
                (\<lambda>(sz', n2). Some (it + sizeof_node,
                   s\<lparr>stat_used := stat_used s + sz',
                      nodes := put_next it SLOB_MAGIC (put_size it sz' n2)\<rparr>))))"

definition slob_free :: "u32 \<Rightarrow> slob \<Rightarrow> slob res option" where
  "slob_free ptr s =
     (if ptr = 0 then Some (Inl (Panic ''NULL pointer freed!''))
      else
        let fr = ptr - sizeof_node in
        if nnext (nodes s fr) \<noteq> SLOB_MAGIC then Some (Inl (Panic ''Non-tracked pointer freed!''))
        else if fr < first_node s \<or> fr \<ge> last_node s then Some (Inl (Panic ''kmalloc free error!''))
        else map_option (\<lambda>(_, n). Inr (s\<lparr>stat_used := stat_used s - nsize (nodes s fr), nodes := n\<rparr>))
               (slob_insert_free (first_node s) (last_node s) fr (nodes s)))"

subsection \<open>The free list\<close>

fun links :: "slob_nodes \<Rightarrow> u32 \<Rightarrow> u32 list \<Rightarrow> u32 \<Rightarrow> bool" where
  "links ns p [] q \<longleftrightarrow> nnext (ns p) = q"
| "links ns p (x # xs) q \<longleftrightarrow> nnext (ns p) = x \<and> links ns x xs q"

definition block_end :: "slob_nodes \<Rightarrow> u32 \<Rightarrow> nat" where
  "block_end ns x = unat x + unat (nsize (ns x))"

definition block_bytes :: "slob_nodes \<Rightarrow> u32 \<Rightarrow> nat set" where
  "block_bytes ns x = {unat x ..< block_end ns x}"

definition free_bytes :: "slob_nodes \<Rightarrow> u32 list \<Rightarrow> nat set" where
  "free_bytes ns xs = (\<Union>x \<in> set xs. block_bytes ns x)"

text \<open>A block between the sentinel \<open>f\<close> and the last node \<open>l\<close> that ends before \<open>e\<close>.\<close>

definition block_ok :: "u32 \<Rightarrow> u32 \<Rightarrow> nat \<Rightarrow> slob_nodes \<Rightarrow> u32 \<Rightarrow> bool" where
  "block_ok f l e ns x \<longleftrightarrow> unat f + 8 \<le> unat x \<and> unat x < unat l \<and> 8 dvd unat x \<and>
     16 \<le> unat (nsize (ns x)) \<and> block_end ns x \<le> e"

lemma block_ok_nonzero: "\<not> block_ok f l e ns 0"
  by (simp add: block_ok_def)

text \<open>The free list of \<open>f\<close>, ending at \<open>l\<close>, is \<open>xs\<close>: sorted, its blocks disjoint.\<close>

definition free_list_ok :: "u32 \<Rightarrow> u32 \<Rightarrow> nat \<Rightarrow> slob_nodes \<Rightarrow> u32 list \<Rightarrow> bool" where
  "free_list_ok f l e ns xs \<longleftrightarrow> links ns f xs l \<and> nnext (ns l) = 0 \<and> nsize (ns f) = 0 \<and> nsize (ns l) = 0 \<and>
     0 < unat f \<and> unat f < unat l \<and> e < 4294967296 \<and>
     (\<forall>x \<in> set xs. block_ok f l e ns x) \<and> sorted_wrt (\<lambda>x y. block_end ns x \<le> unat y) xs"

lemma put_simps [simp]:
  "nsize (put_size p v ns a) = (if a = p then v else nsize (ns a))"
  "nnext (put_size p v ns a) = nnext (ns a)"
  "nnext (put_next p v ns a) = (if a = p then v else nnext (ns a))"
  "nsize (put_next p v ns a) = nsize (ns a)"
  by (simp_all add: put_size_def put_next_def)

lemma links_append: "links ns p (xs @ y # ys) q \<longleftrightarrow> links ns p xs y \<and> links ns y ys q"
  by (induction xs arbitrary: p) auto

lemma links_split: "links ns p (xs @ ys) q \<Longrightarrow> links ns p xs (hd (ys @ [q]))"
  by (cases ys) (simp_all add: links_append)

lemma links_cong:
  "(\<And>a. a \<in> set (p # xs) \<Longrightarrow> nnext (ns' a) = nnext (ns a)) \<Longrightarrow> links ns' p xs q \<longleftrightarrow> links ns p xs q"
  by (induction xs arbitrary: p) auto

lemma links_last_next: "links ns p xs q \<Longrightarrow> nnext (ns (last (p # xs))) = q"
  by (induction xs arbitrary: p) auto

lemma links_change_end:
  "links ns p xs q \<Longrightarrow> distinct (p # xs) \<Longrightarrow>
     (\<And>a. a \<in> set (p # xs) \<Longrightarrow> a \<noteq> last (p # xs) \<Longrightarrow> nnext (ns' a) = nnext (ns a)) \<Longrightarrow>
     nnext (ns' (last (p # xs))) = r \<Longrightarrow> links ns' p xs r"
proof (induction xs arbitrary: p)
  case (Cons x xs)
  have "p \<noteq> last (x # xs)" using Cons.prems(2) by (metis distinct.simps(2) last_in_set list.distinct(1))
  moreover have "links ns' x xs r" using Cons by auto
  ultimately show ?case using Cons.prems(1) Cons.prems(3) [of p] by simp
qed simp

lemma sorted_distinct:
  assumes "\<forall>x \<in> set xs. 0 < unat (nsize (ns x))"
  shows "sorted_wrt (\<lambda>x y. block_end ns x \<le> unat y) xs \<Longrightarrow> distinct xs"
  using assms by (induction xs) (fastforce simp: block_end_def)+

lemma free_list_distinct:
  assumes "free_list_ok f l e ns xs"
  shows "distinct (f # xs @ [l])"
proof -
  have b: "\<forall>x \<in> set xs. block_ok f l e ns x" using assms by (simp add: free_list_ok_def)
  then have "distinct xs"
    using assms by (intro sorted_distinct [of xs ns]) (auto simp: free_list_ok_def block_ok_def)
  moreover have "f \<noteq> l" using assms by (auto simp: free_list_ok_def)
  moreover have "f \<notin> set xs" "l \<notin> set xs" using b by (auto simp: block_ok_def)
  ultimately show ?thesis by auto
qed

subsection \<open>Inserting a block\<close>

lemma insert_slot_walk:
  "links ns p (ys @ zs) q \<Longrightarrow> (\<forall>y \<in> set ys. unat y \<le> unat n) \<Longrightarrow> 0 \<notin> set (p # ys) \<Longrightarrow>
     unat n < unat (hd (zs @ [q])) \<Longrightarrow> insert_slot ns n p = Some (last (p # ys))"
proof (induction ys arbitrary: p)
  case Nil
  have "nnext (ns p) = hd (zs @ [q])" using Nil.prems(1) by (cases zs) auto
  then show ?case using Nil.prems by (subst insert_slot.simps) (simp add: word_less_nat_alt)
next
  case (Cons y ys)
  then have "insert_slot ns n y = Some (last (y # ys))" by simp
  then show ?case using Cons.prems by (subst insert_slot.simps) (simp add: word_less_nat_alt not_less)
qed

text \<open>The list after a splice: \<open>h\<close> takes the place of the blocks \<open>ws\<close> between \<open>ys\<close> and \<open>zs\<close>.\<close>

lemma splice:
  assumes ok: "free_list_ok f l e ns (ys @ ws @ zs)"
    and h: "block_ok f l e ns' h" "\<forall>y \<in> set ys. block_end ns y \<le> unat h" "\<forall>z \<in> set zs. block_end ns' h \<le> unat z"
    and nx: "nnext (ns' (last (f # ys))) = h" "nnext (ns' h) = hd (zs @ [l])"
    and N: "\<And>a. a \<in> set (f # ys @ zs @ [l]) \<Longrightarrow> a \<noteq> last (f # ys) \<Longrightarrow> nnext (ns' a) = nnext (ns a)"
    and S: "\<And>a. a \<in> set (f # ys @ zs @ [l]) \<Longrightarrow> nsize (ns' a) = nsize (ns a)"
  shows "free_list_ok f l e ns' (ys @ h # zs)"
    and "free_bytes ns' (ys @ h # zs) = free_bytes ns (ys @ zs) \<union> block_bytes ns' h"
proof -
  have lk: "links ns f (ys @ ws @ zs) l" using ok by (simp add: free_list_ok_def)
  have di: "distinct (f # (ys @ ws @ zs) @ [l])" using free_list_distinct [OF ok] .
  have itm: "last (f # ys) \<in> set (f # ys)" by (rule last_in_set) simp
  have l1: "links ns' f ys h"
    proof (rule links_change_end [OF links_split [OF lk]])
    show "distinct (f # ys)" using di by simp
    show "nnext (ns' (last (f # ys))) = h" using nx(1) .
    show "nnext (ns' a) = nnext (ns a)" if "a \<in> set (f # ys)" "a \<noteq> last (f # ys)" for a
      using that by (intro N) auto
  qed
  have l2: "links ns' h zs l"
  proof (cases zs)
    case (Cons z zt)
    have "links ns z zt l" using lk Cons links_append [of ns f "ys @ ws" z zt l] by simp
    moreover have "nnext (ns' a) = nnext (ns a)" if "a \<in> set (z # zt)" for a
      using that Cons di itm by (intro N) auto
    ultimately show ?thesis using links_cong [of z zt ns' ns l] nx(2) Cons by simp
  qed (use nx(2) in simp)
  have be: "block_end ns' a = block_end ns a" if "a \<in> set (ys @ zs)" for a
    using that S by (simp add: block_end_def)
  have bo: "block_ok f l e ns' a" if "a \<in> set (ys @ zs)" for a
    using that ok be S by (auto simp: free_list_ok_def block_ok_def)
  have so: "sorted_wrt (\<lambda>x y. block_end ns x \<le> unat y) ys" "sorted_wrt (\<lambda>x y. block_end ns x \<le> unat y) zs"
    "\<forall>y \<in> set ys. \<forall>z \<in> set zs. block_end ns y \<le> unat z"
    using ok by (auto simp: free_list_ok_def sorted_wrt_append)
  have s1: "sorted_wrt (\<lambda>x y. block_end ns' x \<le> unat y) ys"
    using so(1) be by (rule_tac sorted_wrt_mono_rel [rotated]) auto
  have s2: "sorted_wrt (\<lambda>x y. block_end ns' x \<le> unat y) zs"
    using so(2) be by (rule_tac sorted_wrt_mono_rel [rotated]) auto
  have "l \<noteq> last (f # ys)" using itm di by auto
  then have ends: "nnext (ns' l) = 0" "nsize (ns' f) = 0" "nsize (ns' l) = 0"
    using ok N [of l] S by (simp_all add: free_list_ok_def)
  have "sorted_wrt (\<lambda>x y. block_end ns' x \<le> unat y) (ys @ h # zs)"
    using s1 s2 so(3) h(2,3) be by (auto simp: sorted_wrt_append)
  then show "free_list_ok f l e ns' (ys @ h # zs)"
    using l1 l2 ends ok bo h(1) by (auto simp: free_list_ok_def links_append)
  show "free_bytes ns' (ys @ h # zs) = free_bytes ns (ys @ zs) \<union> block_bytes ns' h"
    using be by (auto simp: free_bytes_def block_bytes_def)
qed

lemma block_sum:
  assumes "unat x + unat (nsize (ns x)) = unat y" and "block_end ns y \<le> e" and "e < 4294967296"
  shows "unat (nsize (ns x) + nsize (ns y)) = unat (nsize (ns x)) + unat (nsize (ns y))"
  using assms unfolding block_end_def by (intro unat_add_u32) linarith

lemma block_end_word:
  assumes "block_end ns x < 4294967296"
  shows "unat (x + nsize (ns x)) = block_end ns x"
  using assms unfolding block_end_def by (intro unat_add_u32) simp

text \<open>A block \<open>n\<close> that lies in the gap between \<open>ys\<close> and \<open>zs\<close>.\<close>

definition fits_gap :: "u32 \<Rightarrow> u32 \<Rightarrow> nat \<Rightarrow> slob_nodes \<Rightarrow> u32 list \<Rightarrow> u32 \<Rightarrow> u32 list \<Rightarrow> bool" where
  "fits_gap f l e ns ys n zs \<longleftrightarrow> block_ok f l e ns n \<and>
     (\<forall>y \<in> set ys. block_end ns y \<le> unat n) \<and> (\<forall>z \<in> set zs. block_end ns n \<le> unat z)"

lemma gap_facts:
  assumes ok: "free_list_ok f l e ns (ys @ zs)" and g: "fits_gap f l e ns ys n zs"
  shows "n \<notin> set (f # ys @ zs @ [l])" and "unat n < unat (hd (zs @ [l]))" and "0 \<notin> set (f # ys)"
    and "insert_slot ns n f = Some (last (f # ys))" and "nnext (ns (last (f # ys))) = hd (zs @ [l])"
proof -
  have b: "\<forall>x \<in> set (ys @ zs). block_ok f l e ns x" and lk: "links ns f (ys @ zs) l"
    and f0: "0 < unat f" using ok by (auto simp: free_list_ok_def)
  have n: "block_ok f l e ns n" "\<forall>y \<in> set ys. block_end ns y \<le> unat n" "\<forall>z \<in> set zs. block_end ns n \<le> unat z"
    using g by (simp_all add: fits_gap_def)
  have "n \<notin> set ys"
  proof
    assume "n \<in> set ys"
    then have "block_end ns n \<le> unat n" using n(2) by blast
    then show False using n(1) by (simp add: block_ok_def block_end_def)
  qed
  moreover have "n \<notin> set zs"
  proof
    assume "n \<in> set zs"
    then have "block_end ns n \<le> unat n" using n(3) by blast
    then show False using n(1) by (simp add: block_ok_def block_end_def)
  qed
  moreover have "n \<noteq> f" "n \<noteq> l" using n(1) by (auto simp: block_ok_def)
  ultimately show "n \<notin> set (f # ys @ zs @ [l])" by auto
  have "unat n < block_end ns n" using n(1) by (simp add: block_ok_def block_end_def)
  then show lt: "unat n < unat (hd (zs @ [l]))" using n(1,3) by (cases zs) (auto simp: block_ok_def)
  show z: "0 \<notin> set (f # ys)" 
  proof
    assume "0 \<in> set (f # ys)"
    then have "block_ok f l e ns 0" using b f0 by auto
    then show False by (simp add: block_ok_def)
  qed
  have "\<forall>y \<in> set ys. unat y \<le> unat n" using n(2) by (fastforce simp: block_end_def)
  then show "insert_slot ns n f = Some (last (f # ys))" using insert_slot_walk [OF lk _ z lt] by blast
  show "nnext (ns (last (f # ys))) = hd (zs @ [l])" using links_last_next [OF links_split [OF lk]] .
qed


text \<open>The two merges of \<^verbatim>\<open>slob_insert_free\<close> on a block \<open>h\<close> that ends at the next one.\<close>

lemma merge_forward_same:
  assumes "nnext (ns it) = hd (zs @ [l])" and "zs = [] \<or> h + nsize (ns h) \<noteq> hd zs"
  shows "merge_forward l it h ns = put_next h (hd (zs @ [l])) ns"
  using assms by (cases zs) (auto simp: merge_forward_def)

lemma merge_forward_joins:
  assumes "nnext (ns it) = z" and "z \<noteq> l" and "h + nsize (ns h) = z" and "z \<noteq> it" and "z \<noteq> h"
  shows "merge_forward l it h ns = put_next h (nnext (ns z)) (put_size h (nsize (ns h) + nsize (ns z)) ns)"
  using assms by (auto simp: merge_forward_def Let_def)

text \<open>
  The second half of the routine: \<open>h\<close> stands for the block after a backward merge (or the
  block itself), already of its new size; it is joined with the block behind it or linked.
\<close>

lemma forward_splice:
  assumes ok: "free_list_ok f l e ns (ys @ ws @ zs)" and len: "length ws \<le> 1"
    and h: "block_ok f l e n1 h" "\<forall>y \<in> set ys. block_end ns y \<le> unat h" "\<forall>z \<in> set zs. block_end n1 h \<le> unat z"
    and same: "\<And>a. a \<noteq> h \<Longrightarrow> n1 a = ns a" "nnext (n1 h) = nnext (ns h)"
    and it: "it = (if ws = [] then last (f # ys) else h)" "ws = [] \<or> ws = [h]"
    and hn: "ws = [] \<longrightarrow> h \<notin> set (f # ys @ zs @ [l])"
    and n2: "n2 = (if ws = [] then put_next it h (merge_forward l it h n1) else merge_forward l it h n1)"
  shows "\<exists>xs. free_list_ok f l e n2 xs \<and> set xs \<subseteq> insert h (set (ys @ zs)) \<and>
    free_bytes n2 xs = free_bytes ns (ys @ zs) \<union> block_bytes n1 h \<and>
    (\<forall>a. a \<noteq> h \<longrightarrow> nsize (n2 a) = nsize (ns a)) \<and>
    (\<forall>a. a \<notin> insert h (set (f # ys)) \<longrightarrow> n2 a = ns a)"
proof -
  have di: "distinct (f # (ys @ ws @ zs) @ [l])" using free_list_distinct [OF ok] .
  have hnot: "h \<notin> set (f # ys @ zs @ [l])" using di it(2) hn by auto
  have itm: "last (f # ys) \<in> set (f # ys)" by (rule last_in_set) simp
  have "set (f # ys) \<inter> set (zs @ [l]) = {}" using di by auto
  then have "last (f # ys) \<notin> set (zs @ [l])" using itm by blast
  then have itn: "it \<notin> set zs" "it \<noteq> l" using it(1) hnot by auto
  have lk: "links ns f (ys @ ws @ zs) l" and bk: "\<forall>x \<in> set (ys @ ws @ zs). block_ok f l e ns x"
    and e: "e < 4294967296" using ok by (simp_all add: free_list_ok_def)
  have itnx: "nnext (n1 it) = hd (zs @ [l])"
  proof (cases "ws = []")
    case True
    have "nnext (ns (last (f # ys))) = hd (zs @ [l])"
      using links_last_next [OF links_split [of ns f ys zs l]] lk True by simp
    moreover have "last (f # ys) \<noteq> h" using hnot itm by auto
    ultimately show ?thesis using same(1) it(1) True by metis
  next
    case False
    then have w: "ws = [h]" "it = h" using it by auto
    then have "links ns f ((ys @ [h]) @ zs) l" using lk by simp
    from links_last_next [OF links_split [OF this]] show ?thesis using w same(2) by simp
  qed
  have lastnx: "nnext (ns (last (f # ys))) = h" if "ws \<noteq> []"
    using links_last_next [OF links_split [OF lk]] it(2) that by auto
  show ?thesis
  proof (cases "zs \<noteq> [] \<and> h + nsize (n1 h) = hd zs")
    case False
    then have mf: "merge_forward l it h n1 = put_next h (hd (zs @ [l])) n1"
      using itnx by (intro merge_forward_same) auto
    have e2: "nsize (n2 a) = nsize (n1 a)"
      "nnext (n2 a) = (if a = it \<and> ws = [] then h else if a = h then hd (zs @ [l]) else nnext (n1 a))" for a
      using n2 mf by auto
    have bb: "block_end n2 h = block_end n1 h" by (simp add: block_end_def e2)
    have B: "block_ok f l e n2 h" using h(1) by (simp add: block_ok_def bb e2)
    have P: "nnext (n2 (last (f # ys))) = h" using e2 it hnot itm lastnx same(1) by auto
    have Q: "nnext (n2 h) = hd (zs @ [l])" using e2(2) it hnot itm by auto
    have N: "nnext (n2 a) = nnext (ns a)" if "a \<in> set (f # ys @ zs @ [l])" "a \<noteq> last (f # ys)" for a
      using that hnot e2(2) it(1) same(1) by auto
    have S: "nsize (n2 a) = nsize (ns a)" if "a \<noteq> h" for a
      using that e2(1) same(1) by simp
    have S': "nsize (n2 a) = nsize (ns a)" if "a \<in> set (f # ys @ zs @ [l])" for a
      using that hnot by (intro S) auto
    have after: "\<forall>z \<in> set zs. block_end n2 h \<le> unat z" using h(3) bb by simp
    note sp1 = splice(1) [OF ok B h(2) after P Q N S']
      and sp2 = splice(2) [OF ok B h(2) after P Q N S']
    have F: "n2 a = ns a" if "a \<notin> insert h (set (f # ys))" for a
      using that S N e2 it itm same(1) by (intro slob_node.equality) auto
    have "block_bytes n2 h = block_bytes n1 h" by (simp add: block_bytes_def bb)
    then show ?thesis using sp1 sp2 F S by (intro exI [of _ "ys @ h # zs"]) auto
  next
    case True
    then obtain z zt where z: "zs = z # zt" by (cases zs) auto
    have zz: "h + nsize (n1 h) = z" "z \<noteq> h" "z \<noteq> l" "z \<noteq> it"
      using True z hnot di itn by auto
    have nz: "n1 z = ns z" using same(1) zz(2) by simp
    have mf: "merge_forward l it h n1 = put_next h (nnext (ns z)) (put_size h (nsize (n1 h) + nsize (ns z)) n1)"
      using merge_forward_joins [of n1 it z l h] itnx z zz nz by simp
    have bz: "block_ok f l e ns z" using bk z by simp
    have he: "unat h + unat (nsize (n1 h)) = unat z"
      using block_end_word [of n1 h] h(1) zz(1) e by (auto simp: block_ok_def block_end_def)
    have sum: "unat (nsize (n1 h) + nsize (ns z)) = unat (nsize (n1 h)) + unat (nsize (ns z))"
      using block_sum [of h n1 z e] he bz nz e by (simp add: block_ok_def block_end_def)
    have e2: "nsize (n2 a) = (if a = h then nsize (n1 h) + nsize (ns z) else nsize (n1 a))"
      "nnext (n2 a) = (if a = it \<and> ws = [] then h else if a = h then nnext (ns z) else nnext (n1 a))" for a
      using n2 mf by auto
    have bb: "block_end n2 h = block_end ns z" using he sum by (simp add: block_end_def e2(1))
    have B: "block_ok f l e n2 h" using h(1) bz bb sum by (simp add: block_ok_def e2(1))
    have P: "nnext (n2 (last (f # ys))) = h" using e2 it hnot itm lastnx same(1) by auto
    have lz: "links ns z zt l" using lk z links_append [of ns f "ys @ ws" z zt l] by simp
    have Q: "nnext (n2 h) = hd (zt @ [l])" using e2(2) it hnot itm lz by (cases zt) auto
    have N: "nnext (n2 a) = nnext (ns a)" if "a \<in> set (f # ys @ zt @ [l])" "a \<noteq> last (f # ys)" for a
      using that hnot e2(2) it(1) same(1) z by auto
    have S: "nsize (n2 a) = nsize (ns a)" if "a \<noteq> h" for a
      using that e2(1) same(1) by simp
    have ok': "free_list_ok f l e ns (ys @ (ws @ [z]) @ zt)" using ok z by simp
    have after: "\<forall>x \<in> set zt. block_end n2 h \<le> unat x"
      using ok z bb by (auto simp: free_list_ok_def sorted_wrt_append)
    have S': "nsize (n2 a) = nsize (ns a)" if "a \<in> set (f # ys @ zt @ [l])" for a
      using that hnot z by (intro S) auto
    note sp1 = splice(1) [OF ok' B h(2) after P Q N S']
      and sp2 = splice(2) [OF ok' B h(2) after P Q N S']
    have F: "n2 a = ns a" if "a \<notin> insert h (set (f # ys))" for a
      using that S N e2 it itm same(1) by (intro slob_node.equality) auto
    have "block_bytes n2 h = block_bytes n1 h \<union> block_bytes ns z"
      using he bb sum by (auto simp: block_bytes_def block_end_def)
    then have "free_bytes n2 (ys @ h # zt) = free_bytes ns (ys @ zs) \<union> block_bytes n1 h"
      using sp2 z by (auto simp: free_bytes_def)
    then show ?thesis using sp1 F S z by (intro exI [of _ "ys @ h # zt"]) auto
  qed
qed


text \<open>\<^verbatim>\<open>slob_insert_free\<close> adds exactly the bytes of the block to the free list.\<close>

lemma insert_free_gap:
  assumes ok: "free_list_ok f l e ns (ys @ zs)" and g: "fits_gap f l e ns ys n zs"
  shows "\<exists>n2 xs. slob_insert_free f l n ns = Some (True, n2) \<and> free_list_ok f l e n2 xs \<and>
    set xs \<subseteq> insert n (set (ys @ zs)) \<and>
    free_bytes n2 xs = free_bytes ns (ys @ zs) \<union> block_bytes ns n \<and>
    (\<forall>a. a \<notin> insert n (insert f (set ys)) \<longrightarrow> n2 a = ns a)"
proof -
  let ?it = "last (f # ys)"
  note gf = gap_facts [OF ok g]
  have itm: "?it \<in> set (f # ys)" by (rule last_in_set) simp
  have n: "block_ok f l e ns n" "\<forall>y \<in> set ys. block_end ns y \<le> unat n" "\<forall>z \<in> set zs. block_end ns n \<le> unat z"
    using g by (simp_all add: fits_gap_def)
  have e: "e < 4294967296" and sf: "nsize (ns f) = 0" and bk: "\<forall>x \<in> set (ys @ zs). block_ok f l e ns x"
    and so: "sorted_wrt (\<lambda>x y. block_end ns x \<le> unat y) (ys @ zs)"
    using ok by (simp_all add: free_list_ok_def)
  have it0: "?it \<noteq> 0" using gf(3) itm by metis
  have r: "slob_insert_free f l n ns = Some (True,
      case merge_back ?it n ns of (node', ns1) \<Rightarrow>
        if node' \<noteq> ?it then put_next ?it node' (merge_forward l ?it node' ns1)
        else merge_forward l ?it node' ns1)"
    using gf(4) it0 by (simp add: slob_insert_free_def Let_def split: prod.split)
  show ?thesis
  proof (cases "?it + nsize (ns ?it) = n")
    case False
    then have mb: "merge_back ?it n ns = (n, ns)" by (simp add: merge_back_def)
    have ne: "n \<noteq> ?it" using gf(1) itm by auto
    define n2 where "n2 = put_next ?it n (merge_forward l ?it n ns)"
    have r2: "slob_insert_free f l n ns = Some (True, n2)"
      by (simp only: r mb prod.case n2_def ne if_True not_False_eq_True)
    have "\<exists>xs. free_list_ok f l e n2 xs \<and> set xs \<subseteq> insert n (set (ys @ zs)) \<and>
        free_bytes n2 xs = free_bytes ns (ys @ zs) \<union> block_bytes ns n \<and>
        (\<forall>a. a \<noteq> n \<longrightarrow> nsize (n2 a) = nsize (ns a)) \<and>
        (\<forall>a. a \<notin> insert n (set (f # ys)) \<longrightarrow> n2 a = ns a)"
      using ok gf(1) by (intro forward_splice [where ws = "[]" and ?n1.0 = ns, OF _ _ n]) (simp_all add: n2_def)
    then show ?thesis using r2 by auto
  next
    case True
    have "ys \<noteq> []" using True sf gf(1) by auto
    then obtain us u where ys: "ys = us @ [u]" by (metis append_butlast_last_id)
    then have u: "?it = u" "u \<in> set ys" by auto
    define n1 where "n1 = put_size u (nsize (ns u) + nsize (ns n)) ns"
    define n2 where "n2 = merge_forward l u u n1"
    have mb: "merge_back u n ns = (u, n1)" using True u by (simp add: merge_back_def n1_def)
    have r2: "slob_insert_free f l n ns = Some (True, n2)"
      by (simp only: r mb prod.case n2_def u not_True_eq_False simp_thms if_False)
    have bu: "block_ok f l e ns u" using bk u by simp
    have ue: "block_end ns u = unat n"
      using block_end_word [of ns u] bu True u e by (simp add: block_ok_def)
    have "unat (nsize (ns u) + nsize (ns n)) = unat (nsize (ns u)) + unat (nsize (ns n))"
      using block_sum [of u ns n e] ue n(1) e by (simp add: block_ok_def block_end_def)
    then have be: "block_end n1 u = block_end ns n" "unat (nsize (n1 u)) = unat (nsize (ns u)) + unat (nsize (ns n))"
      using ue by (simp_all add: n1_def block_end_def)
    have b1: "block_ok f l e n1 u" using bu n(1) be by (simp add: block_ok_def)
    have main: "\<exists>xs. free_list_ok f l e n2 xs \<and> set xs \<subseteq> insert u (set (us @ zs)) \<and>
        free_bytes n2 xs = free_bytes ns (us @ zs) \<union> block_bytes n1 u \<and>
        (\<forall>a. a \<noteq> u \<longrightarrow> nsize (n2 a) = nsize (ns a)) \<and>
        (\<forall>a. a \<notin> insert u (set (f # us)) \<longrightarrow> n2 a = ns a)"
    proof (rule forward_splice [where ws = "[u]" and it = u])
      show "free_list_ok f l e ns (us @ [u] @ zs)" using ok ys by simp
      show "block_ok f l e n1 u" using b1 .
      show "\<forall>y \<in> set us. block_end ns y \<le> unat u" using so ys by (simp add: sorted_wrt_append)
      show "\<forall>z \<in> set zs. block_end n1 u \<le> unat z" using n(3) be(1) by simp
    qed (simp_all add: n1_def n2_def put_size_def)
    have bb: "block_bytes n1 u = block_bytes ns u \<union> block_bytes ns n"
      using ue be by (auto simp: block_bytes_def block_end_def)
    have fb: "free_bytes ns (ys @ zs) = free_bytes ns (us @ zs) \<union> block_bytes ns u"
      using ys by (auto simp: free_bytes_def)
    from main obtain xs where xs: "free_list_ok f l e n2 xs" "set xs \<subseteq> insert u (set (us @ zs))"
      "free_bytes n2 xs = free_bytes ns (us @ zs) \<union> block_bytes n1 u"
      "\<forall>a. a \<notin> insert u (set (f # us)) \<longrightarrow> n2 a = ns a" by blast
    have "free_bytes n2 xs = free_bytes ns (ys @ zs) \<union> block_bytes ns n" using xs(3) bb fb by auto
    then show ?thesis using r2 xs ys by (intro exI [of _ n2] exI [of _ xs]) auto
  qed
qed


subsection \<open>Allocating\<close>

definition heap_ok :: "nat \<Rightarrow> slob \<Rightarrow> u32 list \<Rightarrow> bool" where
  "heap_ok e s xs \<longleftrightarrow> free_list_ok (first_node s) (last_node s) e (nodes s) xs"

lemma search_found:
  "links ns p (us @ x # zs) l \<Longrightarrow> \<forall>u \<in> set us. nsize (ns u) < sz \<Longrightarrow> sz \<le> nsize (ns x) \<Longrightarrow>
     0 \<notin> set us \<Longrightarrow> x \<noteq> 0 \<Longrightarrow> slob_search ns p (hd (us @ [x])) sz = Some (last (p # us), x)"
proof (induction us arbitrary: p)
  case Nil
  then show ?case by (subst slob_search.simps) simp
next
  case (Cons u us)
  have "nnext (ns u) = hd (us @ [x])" using Cons.prems(1) by (cases us) auto
  moreover have "\<not> sz \<le> nsize (ns u)" using Cons.prems(2) by (simp add: not_le)
  ultimately show ?case using Cons by (subst slob_search.simps) simp
qed

lemma search_none:
  "links ns p xs l \<Longrightarrow> \<forall>u \<in> set xs. nsize (ns u) < sz \<Longrightarrow> nsize (ns l) < sz \<Longrightarrow> nnext (ns l) = 0 \<Longrightarrow>
     0 \<notin> set xs \<Longrightarrow> l \<noteq> 0 \<Longrightarrow> slob_search ns p (hd (xs @ [l])) sz = Some (l, 0)"
proof (induction xs arbitrary: p)
  case Nil
  then show ?case by (subst slob_search.simps, simp add: not_le, subst slob_search.simps, simp)
next
  case (Cons u us)
  have "nnext (ns u) = hd (us @ [l])" using Cons.prems(1) by (cases us) auto
  moreover have "\<not> sz \<le> nsize (ns u)" using Cons.prems(2) by (simp add: not_le)
  ultimately show ?case using Cons by (subst slob_search.simps) simp
qed

lemma first_fit:
  assumes "\<exists>x \<in> set xs. P x"
  obtains us x zs where "xs = us @ x # zs" "P x" "\<forall>u \<in> set us. \<not> P u"
  using split_list_first_prop [OF assms] by blast

lemma unlink_free:
  assumes ok: "free_list_ok f l e ns (us @ x # zs)"
  defines "n1 \<equiv> put_next (last (f # us)) (nnext (ns x)) ns"
  shows "free_list_ok f l e n1 (us @ zs)"
    and "free_bytes n1 (us @ zs) = free_bytes ns (us @ x # zs) - block_bytes ns x"
proof -
  have di: "distinct (f # (us @ x # zs) @ [l])" using free_list_distinct [OF ok] .
  have itm: "last (f # us) \<in> set (f # us)" by (rule last_in_set) simp
  have disj: "set (f # us) \<inter> set (x # zs @ [l]) = {}" using di by auto
  have lk: "links ns f us x" "links ns x zs l" using ok by (simp_all add: free_list_ok_def links_append)
  have nx: "nnext (ns x) = hd (zs @ [l])" using lk(2) by (cases zs) auto
  have l1: "links n1 f us (hd (zs @ [l]))"
  proof (rule links_change_end [OF lk(1)])
    show "distinct (f # us)" using di by simp
  qed (simp_all add: n1_def nx)
  have "links n1 f (us @ zs) l"
  proof (cases zs)
    case (Cons z zt)
    have "links n1 z zt l"
      using lk(2) Cons disj itm by (subst links_cong [where ns = ns]) (auto simp: n1_def)
    then show ?thesis using l1 Cons by (simp add: links_append)
  qed (use l1 in simp)
  moreover have "l \<noteq> last (f # us)" using disj itm by auto
  ultimately show "free_list_ok f l e n1 (us @ zs)"
    using ok by (auto simp: free_list_ok_def n1_def sorted_wrt_append block_ok_def block_end_def)
  have same: "block_bytes n1 a = block_bytes ns a" for a by (simp add: n1_def block_bytes_def block_end_def)
  have so: "\<forall>u \<in> set us. block_end ns u \<le> unat x" "\<forall>z \<in> set zs. block_end ns x \<le> unat z"
    using ok by (auto simp: free_list_ok_def sorted_wrt_append)
  have "block_bytes ns a \<inter> block_bytes ns x = {}" if "a \<in> set (us @ zs)" for a
    using so that by (fastforce simp: block_bytes_def)
  then show "free_bytes n1 (us @ zs) = free_bytes ns (us @ x # zs) - block_bytes ns x"
    using same by (auto simp: free_bytes_def)
qed

lemma alloc_size_bounds:
  assumes "unat req + 16 < 4294967296"
  shows "8 dvd unat (alloc_size req)" and "unat req + 8 \<le> unat (alloc_size req)"
    and "unat (alloc_size req) < unat req + 16"
proof -
  let ?s = "req + 8"
  have s: "unat ?s = unat req + 8" using assms by (subst unat_add_u32) simp_all
  have s8: "unat (?s + 8) = unat req + 16" using assms s by (subst unat_add_u32) simp_all
  have m: "SLOB_ALIGN - 1 = mask 3" by (simp add: SLOB_ALIGN_def mask_eq_exp_minus_1)
  have z: "?s AND mask 3 = 0 \<longleftrightarrow> 8 dvd unat req + 8" using and_mask_zero_iff [of ?s 3] s by simp
  have a: "unat ((?s + 8) AND NOT (mask 3)) = (unat req + 16) div 8 * 8"
    using unat_and_not_mask [of "?s + 8" 3] s8 by simp
  have e: "unat (alloc_size req) = (if 8 dvd unat req + 8 then unat req + 8 else (unat req + 16) div 8 * 8)"
    unfolding alloc_size_def Let_def sizeof_node_def m using z a s by (simp add: SLOB_ALIGN_def)
  show "8 dvd unat (alloc_size req)" using e by auto
  show "unat req + 8 \<le> unat (alloc_size req)" unfolding e by (auto; presburger)
  show "unat (alloc_size req) < unat req + 16" unfolding e by (auto; presburger)
qed


text \<open>A request close to \<open>2 ^ 32\<close> wraps to a block of at most one header.\<close>

lemma alloc_size_wraps:
  assumes "4294967288 \<le> unat req"
  shows "unat (alloc_size req) \<le> 8"
proof -
  have "unat (req + 8) = (unat req + 8) mod 4294967296" by (simp add: unat_word_ariths)
  also have "\<dots> = (unat req + 8 - 4294967296) mod 4294967296" using assms by (intro le_mod_geq) simp
  also have "\<dots> = unat req + 8 - 4294967296"
    using u32_le_max [of req] by (intro mod_less) linarith
  finally have s: "unat (req + 8) = unat req + 8 - 4294967296" .
  then have s7: "unat (req + 8) < 8" using u32_le_max [of req] by linarith
  then have "unat (req + 8 + 8) < 16" by (subst unat_add_u32) simp_all
  then have "unat (req + 8 + 8) div 8 * 8 \<le> 8" by presburger
  then have a: "unat ((req + 8 + 8) AND NOT (mask 3)) \<le> 8" by (simp only: unat_and_not_mask) simp
  have m: "SLOB_ALIGN - 1 = mask 3" by (simp add: SLOB_ALIGN_def mask_eq_exp_minus_1)
  show ?thesis unfolding alloc_size_def Let_def sizeof_node_def m using s7 a by (simp add: SLOB_ALIGN_def)
qed

lemma alloc_size_min:
  assumes "req \<noteq> 0" and "unat req + 16 < 4294967296"
  shows "16 \<le> unat (alloc_size req)"
proof -
  obtain k where k: "unat (alloc_size req) = 8 * k" using alloc_size_bounds(1) [OF assms(2)] by (auto elim: dvdE)
  moreover have "0 < unat req" using assms(1) by (simp add: unat_gt_0)
  ultimately have "2 \<le> k" using alloc_size_bounds(2) [OF assms(2)] by linarith
  then show ?thesis using k by simp
qed

lemma insert_slot_total:
  "links ns p xs l \<Longrightarrow> nnext (ns l) = 0 \<Longrightarrow> 0 \<notin> set xs \<Longrightarrow> l \<noteq> 0 \<Longrightarrow> \<exists>r. insert_slot ns n p = Some r"
proof (induction xs arbitrary: p)
  case Nil
  then show ?case
    by (subst insert_slot.simps, simp, subst insert_slot.simps, simp, subst insert_slot.simps, simp)
next
  case (Cons x xs)
  then obtain r where "insert_slot ns n x = Some r" by auto
  then show ?case using Cons.prems by (subst insert_slot.simps) auto
qed

lemma insert_free_total:
  assumes "free_list_ok f l e ns xs"
  shows "\<exists>r. slob_insert_free f l n (put_size n v ns) = Some r"
proof -
  have "\<exists>r. insert_slot (put_size n v ns) n f = Some r"
  proof (rule insert_slot_total [where xs = xs and l = l])
    show "links (put_size n v ns) f xs l"
      using assms by (subst links_cong [where ns = ns]) (auto simp: free_list_ok_def)
    show "0 \<notin> set xs" using assms by (auto simp: free_list_ok_def block_ok_def)
    show "l \<noteq> 0" using assms by (auto simp: free_list_ok_def)
  qed (use assms in \<open>simp add: free_list_ok_def\<close>)
  then show ?thesis by (auto simp: slob_insert_free_def simp del: split_paired_Ex)
qed

text \<open>An address the list does not use may be written.\<close>

lemma free_list_frame:
  assumes "free_list_ok f l e ns xs" and "\<And>a. a \<in> set (f # xs @ [l]) \<Longrightarrow> n2 a = ns a"
  shows "free_list_ok f l e n2 xs" and "free_bytes n2 xs = free_bytes ns xs"
proof -
  have b: "block_end n2 a = block_end ns a" if "a \<in> set xs" for a
    using that assms(2) [of a] by (simp add: block_end_def)
  have "sorted_wrt (\<lambda>x y. block_end n2 x \<le> unat y) xs"
    using assms(1) b by (auto simp: free_list_ok_def intro: sorted_wrt_mono_rel [rotated])
  moreover have "links n2 f xs l"
    using assms by (subst links_cong [where ns = ns]) (auto simp: free_list_ok_def)
  ultimately show "free_list_ok f l e n2 xs"
    using assms b by (auto simp: free_list_ok_def block_ok_def)
  show "free_bytes n2 xs = free_bytes ns xs" using b by (auto simp: free_bytes_def block_bytes_def)
qed

text \<open>What a successful allocation of the block \<open>b\<close> does, as long as \<open>b\<close> ends before the last node.\<close>

definition alloc_effect :: "nat \<Rightarrow> slob \<Rightarrow> u32 list \<Rightarrow> u32 \<Rightarrow> slob \<Rightarrow> bool" where
  "alloc_effect e s xs b s' \<longleftrightarrow> (\<exists>xs'. heap_ok e s' xs' \<and>
     free_bytes (nodes s') xs' = free_bytes (nodes s) xs - block_bytes (nodes s') b \<and>
     block_bytes (nodes s') b \<subseteq> free_bytes (nodes s) xs \<and>
     block_ok (first_node s) (last_node s) e (nodes s') b \<and> nnext (nodes s' b) = SLOB_MAGIC \<and>
     (\<forall>a. unat a \<notin> free_bytes (nodes s) xs \<longrightarrow> a \<noteq> first_node s \<longrightarrow> nodes s' a = nodes s a))"

definition before_end :: "nat \<Rightarrow> slob \<Rightarrow> u32 \<Rightarrow> bool" where
  "before_end e s b \<longleftrightarrow> block_end (nodes s) b < unat (last_node s) \<or> e = unat (last_node s)"

lemma slob_alloc_spec:
  assumes ok: "heap_ok e s xs" and req: "req \<noteq> 0" "unat req + 16 < 4294967296"
    and xs: "xs = us @ x # zs" and fit: "alloc_size req \<le> nsize (nodes s x)"
    and first: "\<forall>u \<in> set us. nsize (nodes s u) < alloc_size req"
  shows "\<exists>s'. slob_alloc req s = Some (x + 8, s') \<and>
    alloc_size req \<le> nsize (nodes s' x) \<and> stat_used s' = stat_used s + nsize (nodes s' x) \<and>
    nsize (nodes s' x) = (if SLOB_MIN_BLOCK \<le> nsize (nodes s x) - alloc_size req then alloc_size req
      else nsize (nodes s x)) \<and>
    first_node s' = first_node s \<and> last_node s' = last_node s \<and>
    (before_end e s' x \<longrightarrow> alloc_effect e s xs x s')"
proof -
  let ?f = "first_node s" and ?l = "last_node s" and ?ns = "nodes s" and ?sz = "alloc_size req"
  note sz = alloc_size_bounds [OF req(2)]
  have fl: "free_list_ok ?f ?l e ?ns (us @ x # zs)" using ok xs by (simp add: heap_ok_def)
  have di: "distinct (?f # (us @ x # zs) @ [?l])" using free_list_distinct [OF fl] .
  have bk: "\<forall>u \<in> set (us @ x # zs). block_ok ?f ?l e ?ns u" and e: "e < 4294967296"
    and lk: "links ?ns ?f (us @ x # zs) ?l" using fl by (simp_all add: free_list_ok_def)
  have bx: "block_ok ?f ?l e ?ns x" using bk by simp
  have nz: "0 \<notin> set us" "x \<noteq> 0" using bk block_ok_nonzero [of ?f ?l e ?ns] by auto
  define it where "it = last (?f # us)"
  have "nnext (?ns ?f) = hd (us @ [x])" using lk by (cases us) auto
  then have se: "slob_search ?ns ?f (nnext (?ns ?f)) ?sz = Some (it, x)"
    using search_found [OF lk first fit nz] by (simp add: it_def)
  define n1 where "n1 = put_next it (nnext (?ns x)) ?ns"
  note ul = unlink_free [OF fl, folded it_def, folded n1_def]
  have itm: "it \<in> set (?f # us)" unfolding it_def by (rule last_in_set) simp
  have disj: "set (?f # us) \<inter> set (x # zs @ [?l]) = {}" using di by auto
  have xn: "n1 x = ?ns x" using disj itm by (auto simp: n1_def put_next_def)
  let ?new = "nsize (?ns x) - ?sz"
  have szr: "unat ?new = unat (nsize (?ns x)) - unat ?sz"
    using fit by (intro unat_sub_u32) (simp add: word_le_nat_alt)
  have dist: "\<forall>u \<in> set us. block_end ?ns u \<le> unat x" "\<forall>z \<in> set zs. block_end ?ns x \<le> unat z"
    using fl by (auto simp: free_list_ok_def sorted_wrt_append)
  have frame1: "n1 a = ?ns a" if "a \<noteq> ?f" "a \<notin> set us" for a
    using that itm by (auto simp: n1_def put_next_def)
  have inb: "unat a \<in> block_bytes ?ns a" if "a \<in> set xs" for a
  proof -
    have "block_ok ?f ?l e ?ns a" using bk xs that by blast
    then show ?thesis by (simp add: block_ok_def block_bytes_def block_end_def)
  qed
  then have infree: "unat a \<in> free_bytes ?ns xs" if "a \<in> set xs" for a
    using that by (auto simp: free_bytes_def)
  show ?thesis
  proof (cases "SLOB_MIN_BLOCK \<le> ?new")
    case False
    define s' where "s' = s\<lparr>stat_used := stat_used s + nsize (?ns x),
        nodes := put_next x SLOB_MAGIC (put_size x (nsize (?ns x)) n1)\<rparr>"
    have r: "slob_alloc req s = Some (x + 8, s')"
      using se req(1) nz False xn
      by (simp add: slob_alloc_def Let_def n1_def [symmetric] s'_def sizeof_node_def)
    have nx: "nsize (nodes s' x) = nsize (?ns x)" "nnext (nodes s' x) = SLOB_MAGIC"
      by (simp_all add: s'_def)
    have oth: "nodes s' a = n1 a" if "a \<noteq> x" for a using that by (simp add: s'_def put_next_def put_size_def)
    have same: "nodes s' a = n1 a" if "a \<in> set (?f # (us @ zs) @ [?l])" for a
      using that di by (intro oth) auto
    note k = free_list_frame [OF ul(1), of "nodes s'", OF same]
    have bb: "block_bytes (nodes s') x = block_bytes ?ns x" "block_end (nodes s') x = block_end ?ns x"
      using nx by (simp_all add: block_bytes_def block_end_def)
    have "block_bytes ?ns x \<subseteq> free_bytes ?ns xs" using xs by (auto simp: free_bytes_def)
    moreover have "nodes s' a = ?ns a" if "unat a \<notin> free_bytes ?ns xs" "a \<noteq> ?f" for a
      using that infree oth frame1 xs by (cases "a = x") auto
    moreover have "block_ok ?f ?l e (nodes s') x" using bx nx bb by (simp add: block_ok_def)
    moreover have "heap_ok e s' (us @ zs)" using k by (simp add: heap_ok_def s'_def)
    ultimately have "alloc_effect e s xs x s'"
      using k ul(2) bb nx xs unfolding alloc_effect_def by (intro exI [of _ "us @ zs"]) simp
    then show ?thesis using r nx fit False by (intro exI [of _ s']) (simp add: s'_def)
  next
    case True
    then have big: "unat ?sz + 16 \<le> unat (nsize (?ns x))"
      using szr by (simp add: word_le_nat_alt SLOB_MIN_BLOCK_def)
    let ?n = "x + ?sz"
    let ?n1 = "put_size ?n ?new n1"
    have un: "unat ?n = unat x + unat ?sz"
      using big bx e by (intro unat_add_u32) (simp add: block_ok_def block_end_def)
    have nb: "block_end ?n1 ?n = block_end ?ns x" using un szr big by (simp add: block_end_def)
    obtain r n2 where ins: "slob_insert_free ?f ?l ?n ?n1 = Some (r, n2)"
      using insert_free_total [OF ul(1), of ?n ?new] by auto
    define s' where "s' = s\<lparr>stat_used := stat_used s + ?sz, nodes := put_next x SLOB_MAGIC (put_size x ?sz n2)\<rparr>"
    have r: "slob_alloc req s = Some (x + 8, s')"
      using se req(1) nz True xn ins
      by (simp add: slob_alloc_def Let_def n1_def [symmetric] s'_def sizeof_node_def)
    have nx: "nsize (nodes s' x) = ?sz" "nnext (nodes s' x) = SLOB_MAGIC" by (simp_all add: s'_def)
    have "alloc_effect e s xs x s'" if be: "before_end e s' x"
    proof -
      have "unat ?n < unat ?l"
        using be nx un big bx by (auto simp: before_end_def block_end_def block_ok_def s'_def)
      then have bn: "block_ok ?f ?l e ?n1 ?n"
        using bx un sz nb szr big by (auto simp: block_ok_def)
      have nu: "?n \<notin> set (?f # (us @ zs) @ [?l])"
      proof -
        have "unat ?n < block_end ?ns x" using un big by (simp add: block_end_def)
        then have "?n \<notin> set zs" using dist(2) by auto
        moreover have "?n \<notin> set us"
        proof
          assume m: "?n \<in> set us"
          then have "block_end ?ns ?n \<le> unat x" using dist(1) by blast
          then show False using un sz(2) by (simp add: block_end_def)
        qed
        ultimately show ?thesis using bn by (auto simp: block_ok_def)
      qed
      have same1: "?n1 a = n1 a" if "a \<in> set (?f # (us @ zs) @ [?l])" for a
        using that nu by (auto simp: put_size_def)
      note oka = free_list_frame [OF ul(1), of ?n1, OF same1]
      have bu: "block_end ?n1 a = block_end ?ns a" if "a \<noteq> ?n" for a
        using that by (simp add: block_end_def n1_def)
      have "fits_gap ?f ?l e ?n1 us ?n zs"
      proof -
        have "block_end ?n1 y \<le> unat ?n" if "y \<in> set us" for y
        proof -
          have "y \<noteq> ?n" using nu that by auto
          then have "block_end ?n1 y = block_end ?ns y" by (rule bu)
          then show ?thesis using dist(1) that un by fastforce
        qed
        then show ?thesis unfolding fits_gap_def using bn nb dist(2) by simp
      qed
      from insert_free_gap [OF oka(1) this] ins obtain ys where
        ys: "free_list_ok ?f ?l e n2 ys" "set ys \<subseteq> insert ?n (set (us @ zs))"
        "free_bytes n2 ys = free_bytes ?n1 (us @ zs) \<union> block_bytes ?n1 ?n"
        "\<forall>a. a \<notin> insert ?n (insert ?f (set us)) \<longrightarrow> n2 a = ?n1 a" by auto
      have xn': "x \<noteq> ?n" using un sz(2) by auto
      have xo: "x \<notin> set (?f # ys @ [?l])" using ys(2) di xn' by auto
      have oth: "nodes s' a = n2 a" if "a \<noteq> x" for a using that by (simp add: s'_def put_next_def put_size_def)
      have same: "nodes s' a = n2 a" if "a \<in> set (?f # ys @ [?l])" for a
        using that xo by (intro oth) auto
      note k = free_list_frame [OF ys(1), of "nodes s'", OF same]
      have split: "block_bytes ?ns x = block_bytes (nodes s') x \<union> block_bytes ?n1 ?n"
        "block_bytes (nodes s') x \<inter> block_bytes ?n1 ?n = {}"
        using nx un nb big by (auto simp: block_bytes_def block_end_def)
      have sub: "block_bytes ?ns x \<subseteq> free_bytes ?ns xs" using xs by (auto simp: free_bytes_def)
      have "unat ?n \<in> block_bytes ?ns x" using un big by (simp add: block_bytes_def block_end_def)
      then have "unat ?n \<in> free_bytes ?ns xs" using sub by blast
      then have "nodes s' a = ?ns a" if "unat a \<notin> free_bytes ?ns xs" "a \<noteq> ?f" for a
      proof -
        have "a \<notin> set xs" "a \<noteq> ?n" using that infree [of a] \<open>unat ?n \<in> free_bytes ?ns xs\<close> by auto
        then show ?thesis using that(2) oth [of a] ys(4) frame1 [of a] xs by (simp add: put_size_def)
      qed
      moreover have "block_ok ?f ?l e (nodes s') x"
        using bx nx alloc_size_min [OF req] big by (simp add: block_ok_def block_end_def)
      moreover have "heap_ok e s' ys" using k by (simp add: heap_ok_def s'_def)
      moreover have "free_bytes (nodes s') ys = free_bytes ?ns xs - block_bytes (nodes s') x"
        using k(2) ys(3) oka(2) ul(2) split sub xs by auto
      ultimately show ?thesis
        using split sub nx unfolding alloc_effect_def by (intro exI [of _ ys]) auto
    qed
    then show ?thesis using r nx True by (intro exI [of _ s']) (simp add: s'_def)
  qed
qed


subsection \<open>Releasing\<close>

lemma gap_exists:
  assumes ok: "free_list_ok f l e ns xs" and b: "block_ok f l e ns b"
    and dis: "block_bytes ns b \<inter> free_bytes ns xs = {}"
  obtains ys zs where "xs = ys @ zs" and "fits_gap f l e ns ys b zs"
proof
  let ?P = "\<lambda>x. unat x < unat b"
  have bk: "\<forall>x \<in> set xs. block_ok f l e ns x"
    and so: "sorted_wrt (\<lambda>x y. block_end ns x \<le> unat y) xs" using ok by (simp_all add: free_list_ok_def)
  have apart: "block_end ns x \<le> unat b \<or> block_end ns b \<le> unat x" if "x \<in> set xs" for x
  proof -
    have "block_bytes ns b \<inter> block_bytes ns x = {}" using dis that by (auto simp: free_bytes_def)
    moreover have "unat x < block_end ns x" "unat b < block_end ns b"
      using bk that b by (auto simp: block_ok_def block_end_def)
    ultimately show ?thesis unfolding block_bytes_def
      by (cases "unat x < unat b") (auto simp: disjoint_iff not_le not_less)
  qed
  show "xs = takeWhile ?P xs @ dropWhile ?P xs" by simp
  have before: "block_end ns y \<le> unat b" if "y \<in> set (takeWhile ?P xs)" for y
  proof -
    have "y \<in> set xs" "unat y < unat b" using that by (auto dest: set_takeWhileD)
    then show ?thesis using apart [of y] by (auto simp: block_end_def)
  qed
  have "\<forall>z \<in> set (dropWhile ?P xs). unat b \<le> unat z"
  proof (cases "dropWhile ?P xs")
    case (Cons z zt)
    have z: "unat b \<le> unat z" using hd_dropWhile [of ?P xs] Cons by (simp add: not_less)
    have "sorted_wrt (\<lambda>x y. block_end ns x \<le> unat y) (takeWhile ?P xs @ z # zt)" using so Cons
      by (metis takeWhile_dropWhile_id)
    then show ?thesis using z Cons by (auto simp: sorted_wrt_append block_end_def)
  next
    case Nil
    then show ?thesis by (simp only: list.set) blast
  qed
  then have "\<forall>z \<in> set (dropWhile ?P xs). block_end ns b \<le> unat z"
    using apart bk by (fastforce dest: set_dropWhileD simp: block_end_def block_ok_def)
  then show "fits_gap f l e ns (takeWhile ?P xs) b (dropWhile ?P xs)"
    using b before by (simp add: fits_gap_def)
qed

lemma slob_free_spec:
  assumes ok: "heap_ok e s xs" and b: "block_ok (first_node s) (last_node s) e (nodes s) b"
    and magic: "nnext (nodes s b) = SLOB_MAGIC"
    and dis: "block_bytes (nodes s) b \<inter> free_bytes (nodes s) xs = {}"
  shows "\<exists>s' xs'. slob_free (b + 8) s = Some (Inr s') \<and> heap_ok e s' xs' \<and>
    free_bytes (nodes s') xs' = free_bytes (nodes s) xs \<union> block_bytes (nodes s) b \<and>
    stat_used s' = stat_used s - nsize (nodes s b) \<and>
    first_node s' = first_node s \<and> last_node s' = last_node s \<and>
    (\<forall>a. unat a \<notin> free_bytes (nodes s) xs \<longrightarrow> a \<noteq> first_node s \<longrightarrow> a \<noteq> b \<longrightarrow> nodes s' a = nodes s a)"
proof -
  let ?f = "first_node s" and ?l = "last_node s" and ?ns = "nodes s"
  have fl: "free_list_ok ?f ?l e ?ns xs" using ok by (simp add: heap_ok_def)
  obtain ys zs where xs: "xs = ys @ zs" and g: "fits_gap ?f ?l e ?ns ys b zs"
    using gap_exists [OF fl b dis] by blast
  have e: "e < 4294967296" using fl by (simp add: free_list_ok_def)
  obtain n2 xs' where ins: "slob_insert_free ?f ?l b ?ns = Some (True, n2)"
    and k: "free_list_ok ?f ?l e n2 xs'" "free_bytes n2 xs' = free_bytes ?ns (ys @ zs) \<union> block_bytes ?ns b"
      "\<forall>a. a \<notin> insert b (insert ?f (set ys)) \<longrightarrow> n2 a = ?ns a"
    using insert_free_gap [OF fl [unfolded xs] g] by blast
  have "unat (b + 8) = unat b + 8"
    using b e by (subst unat_add_u32) (auto simp: block_ok_def block_end_def)
  then have "b + 8 \<noteq> 0" by (auto simp: unat_eq_zero [symmetric])
  moreover have "\<not> b < ?f" "\<not> ?l \<le> b" using b by (auto simp: block_ok_def word_less_nat_alt word_le_nat_alt)
  ultimately have r: "slob_free (b + 8) s = Some (Inr (s\<lparr>stat_used := stat_used s - nsize (?ns b), nodes := n2\<rparr>))"
    using ins magic by (simp add: slob_free_def sizeof_node_def Let_def)
  have "unat a \<in> free_bytes ?ns xs" if "a \<in> set xs" for a
  proof -
    have "block_ok ?f ?l e ?ns a" using fl that by (simp add: free_list_ok_def)
    then have "unat a \<in> block_bytes ?ns a" by (simp add: block_ok_def block_bytes_def block_end_def)
    then show ?thesis using that by (auto simp: free_bytes_def)
  qed
  then have "n2 a = ?ns a" if "unat a \<notin> free_bytes ?ns xs" "a \<noteq> ?f" "a \<noteq> b" for a
    using that k(3) xs by auto
  then show ?thesis using r k xs by (auto simp: heap_ok_def)
qed

subsection \<open>Histories\<close>

text \<open>
  A history of the heap with the set of blocks handed out and not yet released. The owner
  of a block may write its payload, which may change whatever lies there. An allocation is
  part of a history only if its block ends before the last node; beyond it lies memory
  that is not the heap's.
\<close>

inductive slob_step :: "nat \<Rightarrow> slob \<times> u32 set \<Rightarrow> slob \<times> u32 set \<Rightarrow> bool" for e where
  alloc: "slob_alloc req s = Some (p, s') \<Longrightarrow> p \<noteq> 0 \<Longrightarrow> unat req + 16 < 4294967296 \<Longrightarrow>
    before_end e s' (p - 8) \<Longrightarrow> slob_step e (s, bs) (s', insert (p - 8) bs)"
| full: "slob_alloc req s = Some (0, s') \<Longrightarrow> unat req + 16 < 4294967296 \<Longrightarrow> slob_step e (s, bs) (s', bs)"
| release: "b \<in> bs \<Longrightarrow> slob_free (b + 8) s = Some (Inr s') \<Longrightarrow> slob_step e (s, bs) (s', bs - {b})"
| payload: "(\<And>a. (\<forall>b \<in> bs. {unat a ..< unat a + 8} \<inter> {unat b + 8 ..< block_end (nodes s) b} = {}) \<Longrightarrow>
      n' a = nodes s a) \<Longrightarrow> slob_step e (s, bs) (s\<lparr>nodes := n'\<rparr>, bs)"

definition hist_inv :: "nat \<Rightarrow> nat set \<Rightarrow> slob \<Rightarrow> u32 set \<Rightarrow> bool" where
  "hist_inv e tot s bs \<longleftrightarrow> (\<exists>xs. heap_ok e s xs \<and> finite bs \<and>
     (\<forall>b \<in> bs. block_ok (first_node s) (last_node s) e (nodes s) b \<and> nnext (nodes s b) = SLOB_MAGIC \<and>
        before_end e s b \<and> block_bytes (nodes s) b \<inter> free_bytes (nodes s) xs = {}) \<and>
     (\<forall>b \<in> bs. \<forall>c \<in> bs. b \<noteq> c \<longrightarrow> block_bytes (nodes s) b \<inter> block_bytes (nodes s) c = {}) \<and>
     free_bytes (nodes s) xs \<union> (\<Union>b \<in> bs. block_bytes (nodes s) b) = tot \<and>
     stat_used s = (\<Sum>b \<in> bs. nsize (nodes s b)))"

lemma slob_alloc_none:
  assumes ok: "heap_ok e s xs" and req: "req \<noteq> 0" "unat req + 16 < 4294967296"
    and none: "\<forall>x \<in> set xs. nsize (nodes s x) < alloc_size req"
  shows "slob_alloc req s = Some (0, s)"
proof -
  let ?f = "first_node s" and ?l = "last_node s" and ?ns = "nodes s"
  have fl: "free_list_ok ?f ?l e ?ns xs" using ok by (simp add: heap_ok_def)
  have l0: "nsize (?ns ?l) = 0" "nnext (?ns ?l) = 0" "?l \<noteq> 0" and lk: "links ?ns ?f xs ?l"
    and nz: "0 \<notin> set xs" using fl block_ok_nonzero [of ?f ?l e ?ns] by (auto simp: free_list_ok_def)
  have "0 < alloc_size req"
    using alloc_size_bounds(2) [OF req(2)] by (auto simp: word_less_nat_alt)
  then have "slob_search ?ns ?f (hd (xs @ [?l])) (alloc_size req) = Some (?l, 0)"
    using search_none [OF lk none _ l0(2) nz l0(3)] l0(1) by simp
  moreover have "nnext (?ns ?f) = hd (xs @ [?l])" using lk by (cases xs) auto
  ultimately show ?thesis using req(1) by (simp add: slob_alloc_def Let_def)
qed

lemma slob_alloc_cases:
  assumes ok: "heap_ok e s xs" and req: "req \<noteq> 0" "unat req + 16 < 4294967296"
  shows "(if \<forall>x \<in> set xs. nsize (nodes s x) < alloc_size req then slob_alloc req s = Some (0, s)
     else \<exists>b s'. b \<in> set xs \<and> slob_alloc req s = Some (b + 8, s') \<and> b + 8 \<noteq> 0 \<and>
       alloc_size req \<le> nsize (nodes s' b) \<and> stat_used s' = stat_used s + nsize (nodes s' b) \<and>
       first_node s' = first_node s \<and> last_node s' = last_node s \<and>
       (before_end e s' b \<longrightarrow> alloc_effect e s xs b s'))"
proof (cases "\<forall>x \<in> set xs. nsize (nodes s x) < alloc_size req")
  case True
  then show ?thesis using slob_alloc_none [OF assms] by simp
next
  case False
  then have "\<exists>x \<in> set xs. alloc_size req \<le> nsize (nodes s x)" by (auto simp: not_less)
  then obtain us x zs where x: "xs = us @ x # zs" "alloc_size req \<le> nsize (nodes s x)"
      "\<forall>u \<in> set us. nsize (nodes s u) < alloc_size req"
    by (rule first_fit) (auto simp: not_le)
  have b: "block_ok (first_node s) (last_node s) e (nodes s) x" and e: "e < 4294967296"
    using ok x(1) by (simp_all add: heap_ok_def free_list_ok_def)
  have "unat (x + 8) = unat x + 8"
    using b e by (subst unat_add_u32) (auto simp: block_ok_def block_end_def)
  then have nz: "x + 8 \<noteq> 0" by (auto simp: unat_eq_zero [symmetric])
  have "x \<in> set xs" using x(1) by simp
  then show ?thesis using slob_alloc_spec [OF assms x] nz False by auto
qed


lemma block_head: "block_ok f l e ns b \<Longrightarrow> unat b \<in> block_bytes ns b"
  by (simp add: block_ok_def block_bytes_def block_end_def)

lemma block_same:
  assumes "ns' b = ns b"
  shows "block_ok f l e ns' b = block_ok f l e ns b" and "block_bytes ns' b = block_bytes ns b"
    and "block_end ns' b = block_end ns b"
  using assms by (simp_all add: block_ok_def block_bytes_def block_end_def)

lemma hist_alloc:
  assumes inv: "hist_inv e tot s bs" and req: "unat req + 16 < 4294967296"
    and a: "slob_alloc req s = Some (p, s')" "p \<noteq> 0" "before_end e s' (p - 8)"
  shows "hist_inv e tot s' (insert (p - 8) bs) \<and> first_node s' = first_node s \<and> last_node s' = last_node s"
proof -
  obtain xs where h: "heap_ok e s xs" "finite bs"
    "\<forall>b \<in> bs. block_ok (first_node s) (last_node s) e (nodes s) b \<and> nnext (nodes s b) = SLOB_MAGIC \<and>
        before_end e s b \<and> block_bytes (nodes s) b \<inter> free_bytes (nodes s) xs = {}"
    "\<forall>b \<in> bs. \<forall>c \<in> bs. b \<noteq> c \<longrightarrow> block_bytes (nodes s) b \<inter> block_bytes (nodes s) c = {}"
    "free_bytes (nodes s) xs \<union> (\<Union>b \<in> bs. block_bytes (nodes s) b) = tot"
    "stat_used s = (\<Sum>b \<in> bs. nsize (nodes s b))" using inv by (auto simp: hist_inv_def)
  have r0: "req \<noteq> 0" using a(1,2) by (auto simp: slob_alloc_def)
  obtain b where b: "b \<in> set xs" "p = b + 8" "stat_used s' = stat_used s + nsize (nodes s' b)"
    "first_node s' = first_node s" "last_node s' = last_node s" "alloc_effect e s xs b s'"
    using slob_alloc_cases [OF h(1) r0 req] a by (auto split: if_splits)
  have pb: "p - 8 = b" using b(2) by simp
  obtain xs' where x': "heap_ok e s' xs'"
    "free_bytes (nodes s') xs' = free_bytes (nodes s) xs - block_bytes (nodes s') b"
    "block_bytes (nodes s') b \<subseteq> free_bytes (nodes s) xs"
    "block_ok (first_node s) (last_node s) e (nodes s') b" "nnext (nodes s' b) = SLOB_MAGIC"
    "\<forall>a. unat a \<notin> free_bytes (nodes s) xs \<longrightarrow> a \<noteq> first_node s \<longrightarrow> nodes s' a = nodes s a"
    using b(6) by (auto simp: alloc_effect_def)
  have keep: "nodes s' c = nodes s c" if "c \<in> bs" for c
  proof -
    have "unat c \<notin> free_bytes (nodes s) xs" using h(3) that block_head by blast
    moreover have "c \<noteq> first_node s" using h(3) that by (auto simp: block_ok_def)
    ultimately show ?thesis using x'(6) by blast
  qed
  have keepB: "block_bytes (nodes s') c = block_bytes (nodes s) c" if "c \<in> bs" for c
    using block_same(2) [of "nodes s'" c "nodes s"] keep [OF that] by simp
  have bn: "b \<notin> bs" using h(3) block_head [OF x'(4)] x'(3) keepB by blast
  have ok: "block_ok (first_node s') (last_node s') e (nodes s') c \<and> nnext (nodes s' c) = SLOB_MAGIC \<and>
      before_end e s' c \<and> block_bytes (nodes s') c \<inter> free_bytes (nodes s') xs' = {}" if "c \<in> insert b bs" for c
    using that
  proof
    assume "c = b"
    then show ?thesis using x' b a(3) pb by auto
  next
    assume c: "c \<in> bs"
    then show ?thesis using h(3) keep [OF c] block_same [of "nodes s'" c "nodes s", OF keep [OF c]] x'(2) b(4,5)
      by (auto simp: before_end_def)
  qed
  have dj: "block_bytes (nodes s') c \<inter> block_bytes (nodes s') d = {}"
    if "c \<in> insert b bs" "d \<in> insert b bs" "c \<noteq> d" for c d
  proof -
    have "block_bytes (nodes s') b \<inter> block_bytes (nodes s') c = {}" if "c \<in> bs" for c
      using h(3) that x'(3) keepB by blast
    then show ?thesis using that h(4) keepB by blast
  qed
  have "(\<Union>c \<in> insert b bs. block_bytes (nodes s') c) = block_bytes (nodes s') b \<union> (\<Union>c \<in> bs. block_bytes (nodes s) c)"
    using keepB by simp
  then have tt: "free_bytes (nodes s') xs' \<union> (\<Union>c \<in> insert b bs. block_bytes (nodes s') c) = tot"
    using x'(2,3) h(5) by blast
  have "(\<Sum>c \<in> insert b bs. nsize (nodes s' c)) = nsize (nodes s' b) + (\<Sum>c \<in> bs. nsize (nodes s c))"
    using bn h(2) keep by (simp cong: sum.cong)
  then have "stat_used s' = (\<Sum>c \<in> insert b bs. nsize (nodes s' c))" using b(3) h(6) by simp
  then show ?thesis using x'(1) h(2) ok dj tt b(4,5) pb unfolding hist_inv_def
    by (intro conjI exI [of _ xs']) (simp_all del: UN_insert)
qed

lemma hist_alloc_fresh:
  assumes inv: "hist_inv e tot s bs" and req: "unat req + 16 < 4294967296"
    and a: "slob_alloc req s = Some (p, s')" "p \<noteq> 0"
  shows "p - 8 \<notin> bs"
proof -
  obtain xs where h: "heap_ok e s xs" "\<forall>b \<in> bs. block_ok (first_node s) (last_node s) e (nodes s) b"
    "\<forall>b \<in> bs. block_bytes (nodes s) b \<inter> free_bytes (nodes s) xs = {}" using inv by (auto simp: hist_inv_def)
  have r0: "req \<noteq> 0" using a by (auto simp: slob_alloc_def)
  obtain b where b: "b \<in> set xs" "p = b + 8" using slob_alloc_cases [OF h(1) r0 req] a by (auto split: if_splits)
  have "unat b \<in> block_bytes (nodes s) b"
    using h(1) b(1) by (auto simp: heap_ok_def free_list_ok_def intro: block_head)
  then have "unat b \<in> free_bytes (nodes s) xs" using b(1) by (auto simp: free_bytes_def)
  moreover have "unat b \<in> block_bytes (nodes s) b" if "b \<in> bs" using block_head h(2) that by blast
  ultimately show ?thesis using h(3) b(2) by auto
qed

lemma hist_release:
  assumes inv: "hist_inv e tot s bs" and b: "b \<in> bs" and r: "slob_free (b + 8) s = Some (Inr s')"
  shows "hist_inv e tot s' (bs - {b}) \<and> first_node s' = first_node s \<and> last_node s' = last_node s"
proof -
  obtain xs where h: "heap_ok e s xs" "finite bs"
    "\<forall>b \<in> bs. block_ok (first_node s) (last_node s) e (nodes s) b \<and> nnext (nodes s b) = SLOB_MAGIC \<and>
        before_end e s b \<and> block_bytes (nodes s) b \<inter> free_bytes (nodes s) xs = {}"
    "\<forall>b \<in> bs. \<forall>c \<in> bs. b \<noteq> c \<longrightarrow> block_bytes (nodes s) b \<inter> block_bytes (nodes s) c = {}"
    "free_bytes (nodes s) xs \<union> (\<Union>b \<in> bs. block_bytes (nodes s) b) = tot"
    "stat_used s = (\<Sum>b \<in> bs. nsize (nodes s b))" using inv by (auto simp: hist_inv_def)
  obtain xs' where x': "heap_ok e s' xs'"
    "free_bytes (nodes s') xs' = free_bytes (nodes s) xs \<union> block_bytes (nodes s) b"
    "stat_used s' = stat_used s - nsize (nodes s b)" "first_node s' = first_node s" "last_node s' = last_node s"
    "\<forall>a. unat a \<notin> free_bytes (nodes s) xs \<longrightarrow> a \<noteq> first_node s \<longrightarrow> a \<noteq> b \<longrightarrow> nodes s' a = nodes s a"
    using slob_free_spec [OF h(1), of b] h(3) b r by auto
  have keep: "nodes s' c = nodes s c" if "c \<in> bs - {b}" for c
  proof -
    have "unat c \<notin> free_bytes (nodes s) xs" using h(3) that block_head by blast
    moreover have "c \<noteq> first_node s" using h(3) that by (auto simp: block_ok_def)
    ultimately show ?thesis using x'(6) that by blast
  qed
  have keepB: "block_bytes (nodes s') c = block_bytes (nodes s) c" if "c \<in> bs - {b}" for c
    using block_same(2) [of "nodes s'" c "nodes s"] keep [OF that] by simp
  have ok: "block_ok (first_node s') (last_node s') e (nodes s') c \<and> nnext (nodes s' c) = SLOB_MAGIC \<and>
      before_end e s' c \<and> block_bytes (nodes s') c \<inter> free_bytes (nodes s') xs' = {}" if c: "c \<in> bs - {b}" for c
  proof -
    have "block_bytes (nodes s) c \<inter> block_bytes (nodes s) b = {}" using h(4) b c by blast
    then show ?thesis
      using h(3) c keep [OF c] block_same [of "nodes s'" c "nodes s", OF keep [OF c]] x'(2,4,5)
      by (simp add: before_end_def Int_Un_distrib)
  qed
  have dj: "block_bytes (nodes s') c \<inter> block_bytes (nodes s') d = {}"
    if "c \<in> bs - {b}" "d \<in> bs - {b}" "c \<noteq> d" for c d
    using that h(4) keepB by blast
  have "(\<Union>c \<in> bs - {b}. block_bytes (nodes s') c) = (\<Union>c \<in> bs - {b}. block_bytes (nodes s) c)"
    using keepB by simp
  then have tt: "free_bytes (nodes s') xs' \<union> (\<Union>c \<in> bs - {b}. block_bytes (nodes s') c) = tot"
    using x'(2) h(5) b by blast
  have "(\<Sum>c \<in> bs. nsize (nodes s c)) = nsize (nodes s b) + (\<Sum>c \<in> bs - {b}. nsize (nodes s c))"
    using h(2) b by (rule sum.remove)
  moreover have "(\<Sum>c \<in> bs - {b}. nsize (nodes s' c)) = (\<Sum>c \<in> bs - {b}. nsize (nodes s c))"
    by (intro sum.cong) (simp_all add: keep)
  ultimately have "stat_used s' = (\<Sum>c \<in> bs - {b}. nsize (nodes s' c))" using x'(3) h(6) by simp
  then show ?thesis using x'(1,4,5) h(2) ok dj tt unfolding hist_inv_def
    by (intro conjI exI [of _ xs']) simp_all
qed


lemma header_outside_payload:
  assumes "block_ok f l e ns a" and "b = a \<or> block_bytes ns b \<inter> block_bytes ns a = {}"
  shows "{unat a ..< unat a + 8} \<inter> {unat b + 8 ..< block_end ns b} = {}"
proof -
  have "{unat a ..< unat a + 8} \<subseteq> block_bytes ns a"
    using assms(1) by (auto simp: block_ok_def block_bytes_def block_end_def)
  moreover have "{unat b + 8 ..< block_end ns b} \<subseteq> block_bytes ns b" by (auto simp: block_bytes_def)
  ultimately have "b \<noteq> a \<Longrightarrow> ?thesis" using assms(2) by blast
  then show ?thesis by (cases "b = a") auto
qed

lemma hist_payload:
  assumes inv: "hist_inv e tot s bs"
    and w: "\<And>a. (\<forall>b \<in> bs. {unat a ..< unat a + 8} \<inter> {unat b + 8 ..< block_end (nodes s) b} = {}) \<Longrightarrow>
      n' a = nodes s a"
  shows "hist_inv e tot (s\<lparr>nodes := n'\<rparr>) bs"
proof -
  let ?ns = "nodes s" and ?f = "first_node s" and ?l = "last_node s"
  obtain xs where h: "heap_ok e s xs" "finite bs"
    "\<forall>b \<in> bs. block_ok ?f ?l e ?ns b \<and> nnext (?ns b) = SLOB_MAGIC \<and>
        before_end e s b \<and> block_bytes ?ns b \<inter> free_bytes ?ns xs = {}"
    "\<forall>b \<in> bs. \<forall>c \<in> bs. b \<noteq> c \<longrightarrow> block_bytes ?ns b \<inter> block_bytes ?ns c = {}"
    "free_bytes ?ns xs \<union> (\<Union>b \<in> bs. block_bytes ?ns b) = tot"
    "stat_used s = (\<Sum>b \<in> bs. nsize (?ns b))" using inv by (auto simp: hist_inv_def)
  have fl: "free_list_ok ?f ?l e ?ns xs" using h(1) by (simp add: heap_ok_def)
  have keep: "n' b = ?ns b" if b: "b \<in> bs" for b
  proof (rule w, intro ballI)
    fix c assume c: "c \<in> bs"
    have bb: "block_ok ?f ?l e ?ns b" using h(3) b by blast
    show "{unat b ..< unat b + 8} \<inter> {unat c + 8 ..< block_end ?ns c} = {}"
      using h(4) b c by (intro header_outside_payload [OF bb]) blast
  qed
  have keepB: "block_bytes n' b = block_bytes ?ns b" "block_ok ?f ?l e n' b" "block_end n' b = block_end ?ns b"
    if "b \<in> bs" for b
    using block_same [of n' b ?ns, OF keep [OF that]] h(3) that by auto
  have frame: "n' a = ?ns a" if a: "a \<in> set (?f # xs @ [?l])" for a
  proof (rule w, intro ballI)
    fix b assume b: "b \<in> bs"
    have bb: "block_ok ?f ?l e ?ns b" "before_end e s b" using h(3) b by auto
    consider "a = ?f" | "a = ?l" | "a \<in> set xs" using a by auto
    then show "{unat a ..< unat a + 8} \<inter> {unat b + 8 ..< block_end ?ns b} = {}"
    proof cases
      case 1
      then show ?thesis using bb(1) by (auto simp: block_ok_def)
    next
      case 2
      then show ?thesis using bb by (auto simp: block_ok_def before_end_def)
    next
      case 3
      then have "block_ok ?f ?l e ?ns a" using fl by (simp add: free_list_ok_def)
      moreover have "block_bytes ?ns b \<inter> block_bytes ?ns a = {}"
        using h(3) b 3 by (auto simp: free_bytes_def)
      ultimately show ?thesis by (intro header_outside_payload) auto
    qed
  qed
  note k = free_list_frame [OF fl, of n', OF frame]
  have "(\<Union>b \<in> bs. block_bytes n' b) = (\<Union>b \<in> bs. block_bytes ?ns b)" using keepB(1) by simp
  moreover have "(\<Sum>b \<in> bs. nsize (n' b)) = (\<Sum>b \<in> bs. nsize (?ns b))" using keep by (simp cong: sum.cong)
  moreover have "\<forall>b \<in> bs. block_ok ?f ?l e n' b \<and> nnext (n' b) = SLOB_MAGIC \<and>
      before_end e (s\<lparr>nodes := n'\<rparr>) b \<and> block_bytes n' b \<inter> free_bytes n' xs = {}"
    using h(3) keep keepB k(2) by (simp add: before_end_def)
  moreover have "\<forall>b \<in> bs. \<forall>c \<in> bs. b \<noteq> c \<longrightarrow> block_bytes n' b \<inter> block_bytes n' c = {}"
    using h(4) keepB(1) by simp
  ultimately show ?thesis using k h unfolding hist_inv_def heap_ok_def
    by (intro exI [of _ xs]) simp
qed

lemma slob_step_inv:
  assumes "slob_step e x y" and "hist_inv e tot (fst x) (snd x)"
  shows "hist_inv e tot (fst y) (snd y) \<and> first_node (fst y) = first_node (fst x) \<and>
    last_node (fst y) = last_node (fst x)"
  using assms
proof (induction rule: slob_step.induct)
  case (alloc req s p s' bs)
  then show ?case using hist_alloc [of e tot s bs req p s'] by simp
next
  case (full req s s' bs)
  have "s' = s"
  proof (cases "req = 0")
    case True
    then show ?thesis using full(1) by (simp add: slob_alloc_def)
  next
    case False
    obtain xs where "heap_ok e s xs" using full(3) by (auto simp: hist_inv_def)
    from slob_alloc_cases [OF this False full(2)] show ?thesis using full(1) by (auto split: if_splits)
  qed
  then show ?case using full by simp
next
  case (release b bs s s')
  then show ?case using hist_release [of e tot s bs b s'] by simp
next
  case (payload bs s n')
  then show ?case using hist_payload [of e tot s bs n'] by simp
qed

lemma slob_steps_inv:
  "(slob_step e)\<^sup>*\<^sup>* x y \<Longrightarrow> hist_inv e tot (fst x) (snd x) \<Longrightarrow>
     hist_inv e tot (fst y) (snd y) \<and> first_node (fst y) = first_node (fst x) \<and> last_node (fst y) = last_node (fst x)"
proof (induction rule: rtranclp_induct)
  case (step y z)
  then show ?case using slob_step_inv [of e y z tot] by simp
qed simp

text \<open>The heap after \<^verbatim>\<open>slob_init\<close>, whose sentinel \<open>na\<close> lies below the zone, as in \<^verbatim>\<open>mm.c\<close>.\<close>

definition heap_start :: "u32 \<Rightarrow> nat" where
  "heap_start page_index = 2147483648 + unat page_index * 4096"

definition heap_last :: "u32 \<Rightarrow> slob \<Rightarrow> nat" where
  "heap_last page_index s = heap_start page_index + unat (zone_page_cnt s) * 4096 - 64"

definition init_pre :: "u32 \<Rightarrow> u32 \<Rightarrow> slob \<Rightarrow> bool" where
  "init_pre na pidx s \<longleftrightarrow> 0 < unat na \<and> unat na + 8 \<le> heap_start pidx \<and> 0 < zone_page_cnt s \<and>
     heap_last pidx s + 64 < 4294967296 \<and> heap_start pidx + (heap_last pidx s - unat na) < 4294967296"

lemma slob_init_spec:
  assumes pre: "init_pre na pidx s"
  shows "\<exists>s'. slob_init na pidx s = (True, s') \<and>
    heap_ok (heap_start pidx + (heap_last pidx s - unat na)) s' [start_addr s'] \<and>
    unat (start_addr s') = heap_start pidx \<and> unat (last_node s') = heap_last pidx s \<and>
    first_node s' = na \<and> stat_used s' = 0 \<and> unat (stat_total s') = heap_last pidx s - unat na \<and>
    free_bytes (nodes s') [start_addr s'] = {heap_start pidx ..< heap_start pidx + (heap_last pidx s - unat na)}"
proof -
  let ?sa = "KERNEL_START + pidx * 4096" and ?c = "zone_page_cnt s"
  let ?ea = "?sa + ?c * 4096"
  have c0: "0 < unat ?c" using pre by (simp add: init_pre_def word_less_nat_alt)
  have p: "0 < unat na" "unat na + 8 \<le> heap_start pidx" "heap_last pidx s + 64 < 4294967296"
    "heap_start pidx + (heap_last pidx s - unat na) < 4294967296" using pre by (simp_all add: init_pre_def)
  have hl: "heap_last pidx s + 64 = heap_start pidx + unat ?c * 4096" using c0 by (simp add: heap_last_def)
  have m1: "unat (pidx * 4096) = unat pidx * 4096"
    using p(3) hl by (subst unat_mult_u32) (simp_all add: heap_start_def)
  have sa: "unat ?sa = heap_start pidx"
    using p(3) hl m1 by (subst unat_add_u32) (simp_all add: heap_start_def KERNEL_START_def)
  have m2: "unat (?c * 4096) = unat ?c * 4096"
    using p(3) hl by (subst unat_mult_u32) (simp_all add: heap_start_def)
  have ea: "unat ?ea = heap_last pidx s + 64"
    using p(3) hl m2 sa by (subst unat_add_u32) simp_all
  have m: "SLOB_ALIGN - 1 = mask 3" by (simp add: SLOB_ALIGN_def mask_eq_exp_minus_1)
  have "(8 :: nat) dvd 4096 * k" for k by (rule dvd_mult2) simp
  then have d8: "8 dvd heap_start pidx" "8 dvd heap_last pidx s + 64"
    by (auto simp: hl heap_start_def mult.commute intro!: dvd_add)
  have al: "?sa AND mask 3 = 0" "?ea AND mask 3 = 0"
    using and_mask_zero_iff [of ?sa 3] and_mask_zero_iff [of ?ea 3] sa ea d8 by simp_all
  let ?l = "?ea - 64"
  have l: "unat ?l = heap_last pidx s" using ea by (subst unat_sub_u32) simp_all
  have lt: "heap_start pidx < heap_last pidx s" "16 \<le> heap_last pidx s - unat na"
    using c0 hl p(2) by linarith+
  have sz: "unat (?l - na) = heap_last pidx s - unat na"
    using l p lt by (subst unat_sub_u32) simp_all
  have ne: "na \<noteq> ?sa" "na \<noteq> ?l" "?sa \<noteq> ?l" using sa l p(2) lt by (auto dest: arg_cong [where f = unat])
  have nle: "\<not> ?ea < ?sa" using sa ea lt by (simp add: word_less_nat_alt)
  define s' where "s' = s\<lparr>start_addr := ?sa, end_addr := ?ea, first_node := na, last_node := ?l,
      nodes := put_size ?l 0 (put_next ?l 0 (put_next ?sa ?l (put_size ?sa (?l - na)
        (put_next na ?sa (put_size na 0 (nodes s)))))), stat_total := ?l - na, stat_used := 0\<rparr>"
  have r: "slob_init na pidx s = (True, s')"
    using al nle ne unfolding slob_init_def Let_def m by (simp add: sizeof_node_def s'_def)
  have n: "nnext (nodes s' na) = ?sa" "nsize (nodes s' na) = 0" "nnext (nodes s' ?sa) = ?l"
    "nsize (nodes s' ?sa) = ?l - na" "nnext (nodes s' ?l) = 0" "nsize (nodes s' ?l) = 0"
    using ne by (simp_all add: s'_def)
  have be: "block_end (nodes s') ?sa = heap_start pidx + (heap_last pidx s - unat na)"
    using n(4) sz sa by (simp add: block_end_def)
  have "heap_ok (heap_start pidx + (heap_last pidx s - unat na)) s' [?sa]"
    unfolding heap_ok_def free_list_ok_def block_ok_def
    using n be sa l sz p lt d8 ne by (simp add: s'_def)
  moreover have "free_bytes (nodes s') [?sa] = {heap_start pidx ..< heap_start pidx + (heap_last pidx s - unat na)}"
    using be sa by (simp add: free_bytes_def block_bytes_def)
  ultimately show ?thesis using r sa l sz by (intro exI [of _ s']) (simp add: s'_def)
qed


subsection \<open>Properties\<close>

text \<open>A zone of two pages behind the first page of the kernel, its descriptor in that page.\<close>

definition demo_zone :: slob where
  "demo_zone = \<lparr>start_addr = 0, end_addr = 0, stat_used = 0, stat_total = 0, first_node = 0, last_node = 0,
     zone_page_cnt = 2, nodes = (\<lambda>_. \<lparr>nsize = 0, nnext = 0\<rparr>)\<rparr>"

definition demo_heap :: slob where
  "demo_heap = snd (slob_init 0x80000100 1 demo_zone)"

lemma demo_sizes: "heap_start 1 = 0x80001000" "heap_last 1 demo_zone = 0x80002FC0"
  by (simp_all add: heap_start_def heap_last_def demo_zone_def)

lemma demo_pre: "init_pre 0x80000100 1 demo_zone"
  unfolding init_pre_def demo_sizes by (simp add: demo_zone_def)

lemma demo_init:
  "slob_init 0x80000100 1 demo_zone = (True, demo_heap)" "heap_ok 0x80003EC0 demo_heap [start_addr demo_heap]"
  "unat (start_addr demo_heap) = 0x80001000" "unat (last_node demo_heap) = 0x80002FC0"
  "unat (nsize (nodes demo_heap (start_addr demo_heap))) = 0x2EC0"
proof -
  obtain s' where s': "slob_init 0x80000100 1 demo_zone = (True, s')"
    "heap_ok (heap_start 1 + (heap_last 1 demo_zone - unat (0x80000100 :: u32))) s' [start_addr s']"
    "unat (start_addr s') = heap_start 1" "unat (last_node s') = heap_last 1 demo_zone"
    "free_bytes (nodes s') [start_addr s'] =
       {heap_start 1 ..< heap_start 1 + (heap_last 1 demo_zone - unat (0x80000100 :: u32))}"
    using slob_init_spec [OF demo_pre] by blast
  then have e: "s' = demo_heap" by (simp add: demo_heap_def)
  show "slob_init 0x80000100 1 demo_zone = (True, demo_heap)" using s'(1) e by simp
  show h: "heap_ok 0x80003EC0 demo_heap [start_addr demo_heap]" using s'(2) unfolding e demo_sizes by simp
  show st: "unat (start_addr demo_heap) = 0x80001000" "unat (last_node demo_heap) = 0x80002FC0"
    using s'(3,4) unfolding e demo_sizes by simp_all
  have "unat (start_addr demo_heap) < block_end (nodes demo_heap) (start_addr demo_heap)"
    using h by (auto simp: heap_ok_def free_list_ok_def block_ok_def block_end_def)
  moreover have "{unat (start_addr demo_heap) ..< block_end (nodes demo_heap) (start_addr demo_heap)} =
      {0x80001000 ..< 0x80003EC0}"
    using s'(5) unfolding e demo_sizes by (simp add: free_bytes_def block_bytes_def)
  ultimately show "unat (nsize (nodes demo_heap (start_addr demo_heap))) = 0x2EC0"
    using st(1) by (simp add: block_end_def atLeastLessThan_eq_iff)
qed

lemma demo_alloc_size: "alloc_size 100 = 112"
  by (simp add: alloc_size_def sizeof_node_def SLOB_ALIGN_def)

lemma demo_alloc:
  "\<exists>s'. slob_alloc 100 demo_heap = Some (start_addr demo_heap + 8, s') \<and>
     nsize (nodes s' (start_addr demo_heap)) = 112 \<and> before_end 0x80003EC0 s' (start_addr demo_heap) \<and>
     alloc_effect 0x80003EC0 demo_heap [start_addr demo_heap] (start_addr demo_heap) s'"
proof -
  let ?b = "start_addr demo_heap"
  have fit: "alloc_size 100 \<le> nsize (nodes demo_heap ?b)"
    using demo_init(5) by (simp add: demo_alloc_size word_le_nat_alt)
  have "unat (nsize (nodes demo_heap ?b) - 112) = 0x2E50"
    using demo_init(5) by (subst unat_sub_u32) simp_all
  then have "SLOB_MIN_BLOCK \<le> nsize (nodes demo_heap ?b) - alloc_size 100"
    by (simp add: demo_alloc_size SLOB_MIN_BLOCK_def word_le_nat_alt)
  then obtain s' where s': "slob_alloc 100 demo_heap = Some (?b + 8, s')" "nsize (nodes s' ?b) = 112"
      "last_node s' = last_node demo_heap"
      "before_end 0x80003EC0 s' ?b \<longrightarrow> alloc_effect 0x80003EC0 demo_heap [?b] ?b s'"
    using slob_alloc_spec [OF demo_init(2) _ _ _ fit, of "[]" "[]"] by (auto simp: demo_alloc_size)
  have "before_end 0x80003EC0 s' ?b"
    using s'(2,3) demo_init(3,4) by (simp add: before_end_def block_end_def)
  then show ?thesis using s' by blast
qed







text \<open>The initial free block is too long: its size is counted from the sentinel in
  \<^verbatim>\<open>struct slob_struct\<close> and not from the start of the zone, so an allocation of the rest of the
  heap is granted and its block covers the last node and memory beyond it.\<close>

theorem slob_init_overruns:
  assumes "init_pre na pidx s0" and "slob_init na pidx s0 = (True, s1)"
    and "req \<noteq> 0" and "unat req + 16 < 4294967296" and "unat (alloc_size req) = heap_last pidx s0 - unat na"
  shows "\<exists>b s'. slob_alloc req s1 = Some (b + 8, s') \<and> unat b = heap_start pidx \<and>
    block_end (nodes s') b = heap_last pidx s0 + (heap_start pidx - unat na)"
proof -
  let ?e = "heap_start pidx + (heap_last pidx s0 - unat na)"
  obtain i: "heap_ok ?e s1 [start_addr s1]" "unat (start_addr s1) = heap_start pidx"
    "free_bytes (nodes s1) [start_addr s1] = {heap_start pidx ..< ?e}"
    using slob_init_spec [OF assms(1)] assms(2) by auto
  have lt: "unat na < heap_start pidx" "heap_start pidx < heap_last pidx s0"
    using assms(1) by (auto simp: init_pre_def heap_last_def word_less_nat_alt)
  then have "heap_start pidx < ?e" by simp
  moreover have "unat (start_addr s1) < block_end (nodes s1) (start_addr s1)"
    using i(1) by (auto simp: heap_ok_def free_list_ok_def block_ok_def block_end_def)
  ultimately have "block_end (nodes s1) (start_addr s1) = ?e"
    using i(2,3) by (simp add: free_bytes_def block_bytes_def atLeastLessThan_eq_iff)
  then have sz: "unat (nsize (nodes s1 (start_addr s1))) = heap_last pidx s0 - unat na"
    using i(2) by (simp add: block_end_def)
  then have fit: "alloc_size req \<le> nsize (nodes s1 (start_addr s1))"
    using assms(5) by (simp add: word_le_nat_alt)
  obtain s' where s': "slob_alloc req s1 = Some (start_addr s1 + 8, s')"
      "alloc_size req \<le> nsize (nodes s' (start_addr s1))"
      "nsize (nodes s' (start_addr s1)) =
        (if SLOB_MIN_BLOCK \<le> nsize (nodes s1 (start_addr s1)) - alloc_size req then alloc_size req
         else nsize (nodes s1 (start_addr s1)))"
    using slob_alloc_spec [OF i(1) assms(3,4) _ fit, of "[]" "[]"] by auto
  have "nsize (nodes s1 (start_addr s1)) = alloc_size req"
    using sz assms(5) by (simp add: unat_inj_iff [symmetric])
  then have "nsize (nodes s' (start_addr s1)) = nsize (nodes s1 (start_addr s1))"
    using s'(3) by simp
  then show ?thesis using s' i(2) sz lt by (intro exI [of _ "start_addr s1"] exI [of _ s']) (simp add: block_end_def)
qed

theorem slob_init_overruns_witness:
  "\<exists>b s'. slob_alloc 11960 demo_heap = Some (b + 8, s') \<and> block_end (nodes s') b = 0x80003EC0"
proof -
  have "alloc_size 11960 = 11968" by (simp add: alloc_size_def sizeof_node_def SLOB_ALIGN_def)
  then show ?thesis
    using slob_init_overruns [OF demo_pre demo_init(1), of 11960] demo_sizes by auto
qed

lemma extend_wait_end: "extend_wait ns it lst = Some u \<Longrightarrow> nnext (ns it) = lst"
  by (rule extend_wait.raw_induct [where P = "\<lambda>ns it lst y. nnext (ns it) = lst"])
    (auto split: if_splits)

text \<open>\<^verbatim>\<open>slob_extend\<close> waits for ever unless the free list is empty: its loop never moves.\<close>

theorem slob_extend_hangs:
  assumes "nnext (nodes s (first_node s)) \<noteq> last_node s"
  shows "slob_extend pgs s = None"
proof -
  have "extend_wait (nodes s) (first_node s) (last_node s) = None"
    using assms by (cases "extend_wait (nodes s) (first_node s) (last_node s)") (auto dest: extend_wait_end)
  then show ?thesis by (simp add: slob_extend_def)
qed


theorem slob_extend_hangs_witness: "slob_extend 1 demo_heap = None"
proof -
  have "nnext (nodes demo_heap (first_node demo_heap)) = start_addr demo_heap"
    using demo_init(2) by (simp add: heap_ok_def free_list_ok_def)
  moreover have "start_addr demo_heap \<noteq> last_node demo_heap"
    using demo_init(3,4) by (auto dest: arg_cong [where f = unat])
  ultimately show ?thesis by (intro slob_extend_hangs) simp
qed

end
