(* ===== verification/Mm.thy ===== *)
theory Mm
  imports MemLib Buddy Slob
begin

text \<open>
  The memory manager: \<^verbatim>\<open>mm/mm.c\<close> with \<^verbatim>\<open>include/citrus/mm.h\<close> and \<^verbatim>\<open>pt_entry.h\<close>,
  \<^verbatim>\<open>mm/boot_alloc.c\<close>, \<^verbatim>\<open>mm/cache_alloc.c\<close> and the buffer allocation of \<^verbatim>\<open>drivers/lcd.c\<close>.
  Memory is byte-addressed by kernel virtual addresses; page tables live in it as little
  endian words. A \<^verbatim>\<open>struct page\<close> pointer is its address, 16 bytes apart in the page array. The
  two zones are the kernel heap of \<^verbatim>\<open>Slob\<close> and the page allocator of \<^verbatim>\<open>Buddy\<close>, whose pages
  are indices counted from \<open>zone_start\<close>. Cache and TLB maintenance has no effect here.
\<close>

subsection \<open>State and constants\<close>

definition DDR_PAGES :: u32 where "DDR_PAGES = 32768"
definition KERNEL_OFFSET :: u32 where "KERNEL_OFFSET = 0x60000000"
definition sizeof_page :: u32 where "sizeof_page = 16"

record mmap =
  ttbr_phys :: u32
  data_s :: u32
  data_e :: u32
  heap_s :: u32
  heap_e :: u32
  stack_s :: u32
  stack_e :: u32
  page_list :: "u32 list"
  mmap_page_cnt :: u32
  pt2_ptr :: u32

record mm_sys =
  kmem :: mem
  page_array :: u32
  heap :: slob
  bzone :: buddy
  zone_start :: u32
  boot_alloc_en :: bool
  boot_alloc_ptr :: u32
  cache_pos :: u32
  cache_end :: u32
  cache_enabled :: bool

datatype pte_mem = PTE_MEM_STRONGLY_ORDERD | PTE_MEM_SHARABLE | PTE_MEM_WRITE_THROUGH
  | PTE_MEM_WRITE_BACK | PTE_MEM_NON_CACHE | PTE_MEM_NON_SHAREABLE

datatype pte_access = PTE_ACCESS_NO_ACC | PTE_ACCESS_PRIV_ACC | PTE_ACCESS_NO_USR_WRITE
  | PTE_ACCESS_FULL_ACC | PTE_ACCESS_PRIV_READ | PTE_ACCESS_READ

fun pte_mem_bits :: "pte_mem \<Rightarrow> u32" where
  "pte_mem_bits PTE_MEM_STRONGLY_ORDERD = push_bit 6 0 OR push_bit 2 0"
| "pte_mem_bits PTE_MEM_SHARABLE = push_bit 6 0 OR push_bit 2 1"
| "pte_mem_bits PTE_MEM_WRITE_THROUGH = push_bit 6 0 OR push_bit 2 2"
| "pte_mem_bits PTE_MEM_WRITE_BACK = push_bit 6 0 OR push_bit 2 3"
| "pte_mem_bits PTE_MEM_NON_CACHE = push_bit 6 1 OR push_bit 2 0"
| "pte_mem_bits PTE_MEM_NON_SHAREABLE = push_bit 6 2 OR push_bit 2 0"

fun pte_access_bits :: "pte_access \<Rightarrow> u32" where
  "pte_access_bits PTE_ACCESS_NO_ACC = push_bit 9 0 OR push_bit 4 0"
| "pte_access_bits PTE_ACCESS_PRIV_ACC = push_bit 9 0 OR push_bit 4 1"
| "pte_access_bits PTE_ACCESS_NO_USR_WRITE = push_bit 9 0 OR push_bit 4 2"
| "pte_access_bits PTE_ACCESS_FULL_ACC = push_bit 9 0 OR push_bit 4 3"
| "pte_access_bits PTE_ACCESS_PRIV_READ = push_bit 9 1 OR push_bit 4 1"
| "pte_access_bits PTE_ACCESS_READ = push_bit 9 1 OR push_bit 4 2"

record pte_attr =
  pa_mem :: pte_mem
  pa_access :: pte_access
  pa_xn :: bool
  pa_nG :: bool
  pa_domain :: u8

datatype ste_mem = STE_MEM_STRONGLY_ORDERD | STE_MEM_SHARABLE | STE_MEM_WRITE_THROUGH
  | STE_MEM_WRITE_BACK | STE_MEM_NON_CACHE | STE_MEM_NON_SHAREABLE

datatype ste_access = STE_ACCESS_NO_ACC | STE_ACCESS_PRIV_ACC | STE_ACCESS_NO_USR_WRITE
  | STE_ACCESS_FULL_ACC | STE_ACCESS_PRIV_READ | STE_ACCESS_READ

fun ste_mem_bits :: "ste_mem \<Rightarrow> u32" where
  "ste_mem_bits STE_MEM_STRONGLY_ORDERD = push_bit 12 0 OR push_bit 2 0"
| "ste_mem_bits STE_MEM_SHARABLE = push_bit 12 0 OR push_bit 2 1"
| "ste_mem_bits STE_MEM_WRITE_THROUGH = push_bit 12 0 OR push_bit 2 2"
| "ste_mem_bits STE_MEM_WRITE_BACK = push_bit 12 0 OR push_bit 2 3"
| "ste_mem_bits STE_MEM_NON_CACHE = push_bit 12 1 OR push_bit 2 0"
| "ste_mem_bits STE_MEM_NON_SHAREABLE = push_bit 12 2 OR push_bit 2 0"

fun ste_access_bits :: "ste_access \<Rightarrow> u32" where
  "ste_access_bits STE_ACCESS_NO_ACC = push_bit 15 0 OR push_bit 10 0"
| "ste_access_bits STE_ACCESS_PRIV_ACC = push_bit 15 0 OR push_bit 10 1"
| "ste_access_bits STE_ACCESS_NO_USR_WRITE = push_bit 15 0 OR push_bit 10 2"
| "ste_access_bits STE_ACCESS_FULL_ACC = push_bit 15 0 OR push_bit 10 3"
| "ste_access_bits STE_ACCESS_PRIV_READ = push_bit 15 1 OR push_bit 10 1"
| "ste_access_bits STE_ACCESS_READ = push_bit 15 1 OR push_bit 10 2"

record ste_attr =
  sa_mem :: ste_mem
  sa_access :: ste_access
  sa_xn :: bool
  sa_nG :: bool
  sa_domain :: u8

definition STE_PTR_MASK :: u32 where "STE_PTR_MASK = 1"
definition STE_PTR_BASE :: "u32 \<Rightarrow> u32" where "STE_PTR_BASE x = x AND 0xFFFFFE00"
definition STE_PTR_DOMAIN :: "u32 \<Rightarrow> u32" where "STE_PTR_DOMAIN d = push_bit 5 (d AND 0xF)"
definition STE_SECTION_MASK :: u32 where "STE_SECTION_MASK = 2"
definition STE_SECTION_BASE :: "u32 \<Rightarrow> u32" where "STE_SECTION_BASE x = x AND 0xFFF00000"
definition STE_SECTION_DOMAIN :: "u32 \<Rightarrow> u32" where "STE_SECTION_DOMAIN d = push_bit 5 (d AND 0xF)"
definition STE_SECTION_XN :: u32 where "STE_SECTION_XN = push_bit 4 1"
definition STE_SECTION_nG :: u32 where "STE_SECTION_nG = push_bit 17 1"
definition PTE_MASK :: u32 where "PTE_MASK = 2"
definition PTE_BASE :: "u32 \<Rightarrow> u32" where "PTE_BASE x = x AND 0xFFFFF800"
definition PTE_XN :: u32 where "PTE_XN = 1"
definition PTE_nG :: u32 where "PTE_nG = push_bit 11 1"

subsection \<open>Addresses and pages\<close>

definition va_to_pa :: "u32 \<Rightarrow> u32" where "va_to_pa va = va - KERNEL_OFFSET"
definition pa_to_va :: "u32 \<Rightarrow> u32" where "pa_to_va pa = pa + KERNEL_OFFSET"

text \<open>Pointer subtraction divides the signed distance by the size of the structure.\<close>

definition page_index :: "u32 \<Rightarrow> u32 \<Rightarrow> u32" where
  "page_index page base = signed_drop_bit 4 (page - base)"

definition page_to_va :: "mm_sys \<Rightarrow> u32 \<Rightarrow> u32" where
  "page_to_va s page = KERNEL_START + page_index page (page_array s) * 4096"

definition page_to_pa :: "mm_sys \<Rightarrow> u32 \<Rightarrow> u32" where
  "page_to_pa s page = va_to_pa (KERNEL_START + page_index page (page_array s) * 4096)"

definition va_to_page :: "mm_sys \<Rightarrow> u32 \<Rightarrow> u32" where
  "va_to_page s addr =
     (if addr AND 0xFFF \<noteq> 0 then 0
      else page_array s + sizeof_page * ((addr - KERNEL_START) div 4096))"

definition pa_to_page :: "mm_sys \<Rightarrow> u32 \<Rightarrow> u32" where
  "pa_to_page s addr =
     (let vaddr = pa_to_va addr in
      if vaddr AND 0xFFF \<noteq> 0 then 0
      else page_array s + sizeof_page * ((vaddr - KERNEL_START) div 4096))"

definition bytes_to_order :: "u32 \<Rightarrow> nat" where
  "bytes_to_order bytes = ctz (round_up_power_two (align_up_ptr bytes 4096 div 4096))"

definition pages_to_order :: "u32 \<Rightarrow> nat" where
  "pages_to_order pgs = ctz (round_up_power_two pgs)"

subsection \<open>The boot allocator and the early initialisation\<close>

definition boot_alloc_init :: "u32 \<Rightarrow> mm_sys \<Rightarrow> mm_sys" where
  "boot_alloc_init kernel_e s = s\<lparr>boot_alloc_ptr := kernel_e, boot_alloc_en := True\<rparr>"

definition boot_alloc :: "u32 \<Rightarrow> u32 \<Rightarrow> mm_sys \<Rightarrow> (u32 \<times> mm_sys) res" where
  "boot_alloc sz al s =
     (if \<not> boot_alloc_en s then Inl (Panic ''Boot allocator retired'')
      else let p = align_up_ptr (boot_alloc_ptr s) al in Inr (p, s\<lparr>boot_alloc_ptr := p + sz\<rparr>))"

definition boot_alloc_retire :: "mm_sys \<Rightarrow> mm_sys" where
  "boot_alloc_retire s = s\<lparr>boot_alloc_en := False\<rparr>"

definition boot_alloc_get_end_vaddr :: "mm_sys \<Rightarrow> u32" where
  "boot_alloc_get_end_vaddr s = boot_alloc_ptr s"

fun init_page_nodes :: "nat \<Rightarrow> u32 \<Rightarrow> mem \<Rightarrow> mem" where
  "init_page_nodes 0 page m = m"
| "init_page_nodes (Suc n) page m =
     init_page_nodes n (page + sizeof_page) (store_word (page + 12) 0 (store_word (page + 8) 0 m))"

definition mm_setup_page_array :: "mm_sys \<Rightarrow> mm_sys res" where
  "mm_setup_page_array s =
     res_bind (boot_alloc (sizeof_page * DDR_PAGES) 4096 s) (\<lambda>(p, s1).
       Inr (s1\<lparr>page_array := p, kmem := init_page_nodes (unat DDR_PAGES) p (kmem s1)\<rparr>))"

definition mm_early_init :: "u32 \<Rightarrow> mm_sys \<Rightarrow> mm_sys res" where
  "mm_early_init kernel_e s = mm_setup_page_array (boot_alloc_init kernel_e s)"

subsection \<open>Page table entries\<close>

definition mm_get_pte :: "u32 \<Rightarrow> pte_attr \<Rightarrow> u32" where
  "mm_get_pte phys_addr attr =
     (let pte = pte_access_bits (pa_access attr) OR pte_mem_bits (pa_mem attr) OR PTE_MASK;
          pte1 = (if pa_xn attr then pte OR PTE_XN else pte);
          pte2 = (if pa_nG attr then pte1 OR PTE_nG else pte1)
      in pte2 OR PTE_BASE phys_addr)"

definition mm_get_ste_sect :: "u32 \<Rightarrow> ste_attr \<Rightarrow> u32" where
  "mm_get_ste_sect phys_addr attr =
     (let ste = ste_access_bits (sa_access attr) OR ste_mem_bits (sa_mem attr) OR STE_SECTION_MASK OR
            STE_SECTION_DOMAIN (ucast (sa_domain attr));
          ste1 = (if sa_xn attr then ste OR STE_SECTION_XN else ste);
          ste2 = (if sa_nG attr then ste1 OR STE_SECTION_nG else ste1)
      in ste2 OR STE_SECTION_BASE phys_addr)"

definition mm_get_ste_ptr :: "u32 \<Rightarrow> u8 \<Rightarrow> u32 res" where
  "mm_get_ste_ptr phys_addr domain =
     res_bind (assert_that (domain < 16)) (\<lambda>_.
       Inr (STE_PTR_BASE phys_addr OR STE_PTR_DOMAIN (ucast domain) OR STE_PTR_MASK))"

text \<open>Entry \<open>i\<close> of a table of words at \<open>base\<close>.\<close>

definition entry_addr :: "u32 \<Rightarrow> u32 \<Rightarrow> u32" where
  "entry_addr base i = base + 4 * i"

definition mm_map_in_pt :: "u32 \<Rightarrow> u32 \<Rightarrow> u32 \<Rightarrow> u8 \<Rightarrow> mem \<Rightarrow> mem res" where
  "mm_map_in_pt ttbr_virt phys_addr virt_addr domain m =
     res_bind (assert_that (virt_addr AND 0xFFFFF = 0)) (\<lambda>_.
     res_bind (assert_that (phys_addr AND 0x3FF = 0)) (\<lambda>_.
     res_bind (mm_get_ste_ptr phys_addr domain) (\<lambda>ste.
       Inr (store_word (entry_addr ttbr_virt (drop_bit 20 virt_addr)) ste m))))"

definition mm_map_in_page_unsafe :: "u32 \<Rightarrow> u32 \<Rightarrow> u32 \<Rightarrow> pte_attr \<Rightarrow> mem \<Rightarrow> mem res" where
  "mm_map_in_page_unsafe ttbr_virt phys_addr virt_addr attr m =
     res_bind (assert_that (virt_addr AND 0xFFF = 0)) (\<lambda>_.
     res_bind (assert_that (phys_addr AND 0xFFF = 0)) (\<lambda>_.
       let pt2_phys = STE_PTR_BASE (load_word m (entry_addr ttbr_virt (drop_bit 20 virt_addr))) in
       res_bind (assert_that (pt2_phys \<noteq> 0)) (\<lambda>_.
         Inr (store_word (entry_addr (pa_to_va pt2_phys) (drop_bit 12 virt_addr AND 0xFF))
                (mm_get_pte phys_addr attr) m))))"

definition mm_is_ste_empty :: "u32 \<Rightarrow> bool" where
  "mm_is_ste_empty ste \<longleftrightarrow> ste AND 3 = 0"

definition mm_has_ste_ptr_mapping :: "u32 \<Rightarrow> u32 \<Rightarrow> mem \<Rightarrow> bool" where
  "mm_has_ste_ptr_mapping ttbr_virt virt_addr m \<longleftrightarrow>
     \<not> mm_is_ste_empty (load_word m (entry_addr ttbr_virt (drop_bit 20 virt_addr)))"

text \<open>The kernel's own first level table stands at \<open>kernel_pt\<close>, a symbol of the linker script.\<close>

definition mm_change_kernel_pt_attr :: "u32 \<Rightarrow> u32 \<Rightarrow> ste_attr \<Rightarrow> mem \<Rightarrow> mem res" where
  "mm_change_kernel_pt_attr kernel_pt virt_addr attr m =
     res_bind (assert_that (virt_addr AND 0xFFFFF = 0)) (\<lambda>_.
       Inr (store_word (entry_addr kernel_pt (drop_bit 20 virt_addr))
              (mm_get_ste_sect (va_to_pa virt_addr) attr) m))"

subsection \<open>The non-cacheable allocator and the display buffers\<close>

definition non_cache_attr :: ste_attr where
  "non_cache_attr = \<lparr>sa_mem = STE_MEM_NON_CACHE, sa_access = STE_ACCESS_FULL_ACC, sa_xn = False,
     sa_nG = False, sa_domain = 15\<rparr>"

definition cache_alloc_init :: "u32 \<Rightarrow> mm_sys \<Rightarrow> mm_sys res" where
  "cache_alloc_init kernel_pt s =
     res_bind (boot_alloc 0x100000 0x100000 s) (\<lambda>(buffer, s1).
     res_bind (mm_change_kernel_pt_attr kernel_pt buffer non_cache_attr (kmem s1)) (\<lambda>m.
       Inr (s1\<lparr>kmem := m, cache_pos := buffer, cache_end := buffer + 0x100000, cache_enabled := True\<rparr>)))"

text \<open>\<open>0\<close> is the null pointer of an exhausted buffer.\<close>

definition cache_alloc :: "u32 \<Rightarrow> u32 \<Rightarrow> mm_sys \<Rightarrow> (u32 \<times> mm_sys) res" where
  "cache_alloc sz al s =
     res_bind (assert_that (cache_enabled s)) (\<lambda>_.
       let new = align_up_ptr (cache_pos s) al in
       if new + sz > cache_end s then Inr (0, s) else Inr (new, s\<lparr>cache_pos := new + sz\<rparr>))"

fun mark_non_cached :: "nat \<Rightarrow> u32 \<Rightarrow> u32 \<Rightarrow> mem \<Rightarrow> mem res" where
  "mark_non_cached 0 kernel_pt va m = Inr m"
| "mark_non_cached (Suc n) kernel_pt va m =
     res_bind (mm_change_kernel_pt_attr kernel_pt va non_cache_attr m)
       (mark_non_cached n kernel_pt (va + 0x100000))"

text \<open>The six display buffers: three layers, two buffers each, of 3 or 4 bytes per pixel.\<close>

definition lcd_layers_alloc :: "u32 \<Rightarrow> mm_sys \<Rightarrow> (u32 list \<times> mm_sys) res" where
  "lcd_layers_alloc kernel_pt s =
     (let pixels = 800 * 480 in
      res_bind (boot_alloc (pixels * 3) 0xFFFFF s) (\<lambda>(b0, s0).
      res_bind (boot_alloc (pixels * 3) 32 s0) (\<lambda>(b1, s1).
      res_bind (boot_alloc (pixels * 4) 32 s1) (\<lambda>(b2, s2).
      res_bind (boot_alloc (pixels * 4) 32 s2) (\<lambda>(b3, s3).
      res_bind (boot_alloc (pixels * 4) 32 s3) (\<lambda>(b4, s4).
      res_bind (boot_alloc (pixels * 4) 32 s4) (\<lambda>(b5, s5).
        let sz = b5 + pixels * 4 - b0; pgs = drop_bit 20 (align_up sz 0xFFFFF) in
        res_bind (mark_non_cached (unat pgs) kernel_pt b0 (kmem s5)) (\<lambda>m.
          Inr ([b0, b1, b2, b3, b4, b5], s5\<lparr>kmem := m\<rparr>)))))))))"

subsection \<open>The zones\<close>

definition kmalloc :: "u32 \<Rightarrow> mm_sys \<Rightarrow> (u32 \<times> mm_sys) res" where
  "kmalloc sz s = res_bind (or_hang (slob_alloc sz (heap s))) (\<lambda>(p, h). Inr (p, s\<lparr>heap := h\<rparr>))"

definition kzmalloc :: "u32 \<Rightarrow> mm_sys \<Rightarrow> (u32 \<times> mm_sys) res" where
  "kzmalloc sz s = res_bind (kmalloc sz s) (\<lambda>(p, s1). Inr (p, s1\<lparr>kmem := mem_set p 0 sz (kmem s1)\<rparr>))"

definition kfree :: "u32 \<Rightarrow> mm_sys \<Rightarrow> mm_sys res" where
  "kfree p s = res_bind (or_hang (slob_free p (heap s))) (\<lambda>r. res_bind r (\<lambda>h. Inr (s\<lparr>heap := h\<rparr>)))"

text \<open>
  \<^verbatim>\<open>buddy_alloc_init\<close> with its two \<^verbatim>\<open>kmalloc\<close> calls made on the heap; it returns 0 if one of them
  fails. An order entry takes twelve bytes.
\<close>

definition buddy_zone_init :: "u32 \<Rightarrow> mm_sys \<Rightarrow> (bool \<times> mm_sys) res" where
  "buddy_zone_init cnt s =
     (let max_ord = ctz (round_down_power_two cnt) + 1; map_size = of_nat (get_map_size max_ord) in
      res_bind (kmalloc (map_size * 4) s) (\<lambda>(map, s1).
        if map = 0 then Inr (False, s1)
        else
          res_bind (kmalloc (12 * of_nat max_ord) (s1\<lparr>kmem := mem_set map 0 (map_size * 4) (kmem s1)\<rparr>))
            (\<lambda>(orders, s2).
            case buddy_alloc_init True (orders \<noteq> 0) cnt (page_order (bzone s2)) of
              None \<Rightarrow> Inr (False, s2)
            | Some z \<Rightarrow> Inr (True, s2\<lparr>bzone := z\<rparr>))))"

text \<open>\<open>slob_node_addr\<close> is the address of the sentinel inside the global \<^verbatim>\<open>slob_allocator\<close>.\<close>

definition mm_allocators_init :: "u32 \<Rightarrow> mm_sys \<Rightarrow> mm_sys res" where
  "mm_allocators_init slob_node_addr s =
     (let kernel_used = boot_alloc_get_end_vaddr s - KERNEL_START;
          kernel_used' = (if kernel_used AND 0xFFF \<noteq> 0 then (kernel_used + 4096) AND NOT 0xFFF else kernel_used);
          kernel_pages = kernel_used' div 4096;
          buddy_pages = round_up_power_two (DDR_PAGES div 3);
          slob_pages = DDR_PAGES - kernel_pages - buddy_pages;
          (ok, h) = slob_init slob_node_addr kernel_pages ((heap s)\<lparr>zone_page_cnt := slob_pages\<rparr>);
          s1 = s\<lparr>heap := h\<rparr> in
      res_bind (assert_that ok) (\<lambda>_.
      res_bind (buddy_zone_init buddy_pages
          (s1\<lparr>zone_start := page_array s + sizeof_page * (kernel_pages + slob_pages)\<rparr>)) (\<lambda>(ok2, s2).
      res_bind (assert_that ok2) (\<lambda>_. Inr s2))))"

definition mm_init :: "u32 \<Rightarrow> u32 \<Rightarrow> u32 \<Rightarrow> mm_sys \<Rightarrow> mm_sys res" where
  "mm_init kernel_e kernel_pt slob_node_addr s =
     res_bind (mm_early_init kernel_e s) (\<lambda>s1.
     res_bind (lcd_layers_alloc kernel_pt s1) (\<lambda>(_, s2).
     res_bind (cache_alloc_init kernel_pt s2) (\<lambda>s3.
       mm_allocators_init slob_node_addr (boot_alloc_retire s3))))"

definition mm_get_total_used :: "mm_sys \<Rightarrow> u32" where
  "mm_get_total_used s = 0 + slob_get_used (heap s) + buddy_get_used (bzone s)"

definition mm_get_total :: "mm_sys \<Rightarrow> u32" where
  "mm_get_total s = 0 + slob_get_total (heap s) + buddy_get_total (bzone s)"

definition alloc_pages :: "nat \<Rightarrow> mm_sys \<Rightarrow> (u32 \<times> mm_sys) res" where
  "alloc_pages order s =
     res_bind (buddy_alloc_pages order (bzone s)) (\<lambda>(i, z).
       Inr (zone_start s + sizeof_page * i, s\<lparr>bzone := z\<rparr>))"

definition alloc_page :: "mm_sys \<Rightarrow> (u32 \<times> mm_sys) res" where
  "alloc_page s = alloc_pages 0 s"

definition free_pages :: "u32 \<Rightarrow> mm_sys \<Rightarrow> mm_sys res" where
  "free_pages page s =
     res_bind (buddy_free_pages (page_index page (zone_start s)) (bzone s)) (\<lambda>z. Inr (s\<lparr>bzone := z\<rparr>))"

definition lv1_pt_alloc :: "mm_sys \<Rightarrow> (u32 \<times> mm_sys) res" where
  "lv1_pt_alloc s =
     res_bind (alloc_pages 1 s) (\<lambda>(page, s1).
       Inr (page, s1\<lparr>kmem := mem_set (page_to_va s1 page) 0 (4096 * 2) (kmem s1)\<rparr>))"

definition lv2_pt_alloc :: "mm_sys \<Rightarrow> (u32 \<times> mm_sys) res" where
  "lv2_pt_alloc s =
     res_bind (alloc_pages 0 s) (\<lambda>(page, s1).
       Inr (page, s1\<lparr>kmem := mem_set (page_to_va s1 page) 0 4096 (kmem s1)\<rparr>))"

definition lv2_pt_init :: "u32 \<Rightarrow> mm_sys \<Rightarrow> mm_sys" where
  "lv2_pt_init page s = s\<lparr>kmem := store_word (page_to_va s page) 0xFFFFFFFF (kmem s)\<rparr>"

subsection \<open>The memory map of a process\<close>

definition mm_process_init :: "mmap \<Rightarrow> mmap" where
  "mm_process_init m =
     m\<lparr>page_list := [], pt2_ptr := 0, data_e := 0, data_s := 0, stack_s := KERNEL_START,
       stack_e := KERNEL_START, heap_s := 0, heap_e := 0\<rparr>"

definition mm_process_add_page :: "u32 \<Rightarrow> mmap \<Rightarrow> mmap" where
  "mm_process_add_page page m = m\<lparr>page_list := page # page_list m\<rparr>"

fun find_l2_slot :: "nat \<Rightarrow> u32 \<Rightarrow> u32 option" where
  "find_l2_slot 0 bitmap = None"
| "find_l2_slot (Suc n) bitmap =
     (let i = 3 - Suc n in
      if bitmap AND push_bit i 1 \<noteq> 0 then Some (of_nat i) else find_l2_slot n bitmap)"

definition mm_get_l2_pt :: "mmap \<Rightarrow> mm_sys \<Rightarrow> (u32 \<times> mmap \<times> mm_sys) res" where
  "mm_get_l2_pt m s =
     (let pt = page_to_va s (pt2_ptr m); bitmap = load_word (kmem s) pt in
      case (if pt2_ptr m \<noteq> 0 then find_l2_slot 3 bitmap else None) of
        Some i \<Rightarrow> Inr (pt + 1024 * (i + 1), m,
          s\<lparr>kmem := store_word pt (bitmap OR push_bit (unat i) 1) (kmem s)\<rparr>)
      | None \<Rightarrow>
          res_bind (lv2_pt_alloc s) (\<lambda>(pt2, s1).
            if pt2 = 0 then Inr (0, m, s1)
            else Inr (page_to_va s1 pt2 + 1024, mm_process_add_page pt2 (m\<lparr>pt2_ptr := pt2\<rparr>), s1)))"

fun map_pages_loop :: "nat \<Rightarrow> u32 \<Rightarrow> u32 \<Rightarrow> u32 \<Rightarrow> pte_attr \<Rightarrow> mmap \<Rightarrow> mm_sys
    \<Rightarrow> (bool \<times> mmap \<times> mm_sys) res" where
  "map_pages_loop 0 ttbr_virt page virt_addr attr m s = Inr (True, m, s)"
| "map_pages_loop (Suc n) ttbr_virt page virt_addr attr m s =
     res_bind
       (if mm_has_ste_ptr_mapping ttbr_virt virt_addr (kmem s) then Inr (True, m, s)
        else res_bind (mm_get_l2_pt m s) (\<lambda>(pt2_virt, m1, s1).
          if pt2_virt = 0 then Inr (False, m1, s1)
          else res_bind (mm_map_in_pt ttbr_virt (va_to_pa pt2_virt) (virt_addr AND NOT 0xFFFFF)
                 (pa_domain attr) (kmem s1)) (\<lambda>mem1. Inr (True, m1, s1\<lparr>kmem := mem1\<rparr>))))
       (\<lambda>(ok, m1, s1).
        if \<not> ok then Inr (False, m1, s1)
        else res_bind (mm_map_in_page_unsafe ttbr_virt (page_to_pa s1 page) virt_addr attr (kmem s1)) (\<lambda>mem2.
          map_pages_loop n ttbr_virt (page + sizeof_page) (virt_addr + 4096) attr m1 (s1\<lparr>kmem := mem2\<rparr>)))"

definition mm_map_in_pages :: "mmap \<Rightarrow> u32 \<Rightarrow> u32 \<Rightarrow> u32 \<Rightarrow> pte_attr \<Rightarrow> mm_sys
    \<Rightarrow> (bool \<times> mmap \<times> mm_sys) res" where
  "mm_map_in_pages m page pcnt virt_addr attr s =
     res_bind (assert_that (virt_addr AND 0xFFF = 0)) (\<lambda>_.
       map_pages_loop (unat pcnt) (pa_to_va (ttbr_phys m)) page virt_addr attr m s)"

definition user_attr :: pte_attr where
  "user_attr = \<lparr>pa_mem = PTE_MEM_WRITE_THROUGH, pa_access = PTE_ACCESS_FULL_ACC, pa_xn = False,
     pa_nG = False, pa_domain = 15\<rparr>"

text \<open>
  \<open>m\<close> and \<open>cnt\<close> are the memory map and the page count of the current thread. \<^verbatim>\<open>heap_e\<close> is a
  pointer to words, so its increment counts four bytes for one; the aligned address that
  \<^verbatim>\<open>align_up_ptr\<close> returns is not used.
\<close>

definition curr_thread_add_pages :: "u32 \<Rightarrow> u32 \<Rightarrow> mmap \<Rightarrow> u32 \<Rightarrow> mmap \<times> u32" where
  "curr_thread_add_pages page pgs m cnt =
     (mm_process_add_page page (m\<lparr>mmap_page_cnt := mmap_page_cnt m + pgs\<rparr>), cnt + pgs)"

definition set_break :: "u32 \<Rightarrow> mmap \<Rightarrow> u32 \<Rightarrow> mm_sys \<Rightarrow> (u32 \<times> mmap \<times> u32 \<times> mm_sys) res" where
  "set_break bytes m cnt s =
     (let m1 = (if heap_e m = 0 then m\<lparr>heap_s := data_e m, heap_e := data_e m\<rparr> else m) in
      if bytes = 0 then Inr (heap_e m1, m1, cnt, s)
      else
        let order = pages_to_order (align_up bytes 4096 div 4096) in
        res_bind (alloc_pages order s) (\<lambda>(page, s1).
          if page = 0 then Inr (heap_e m1, m1, cnt, s1)
          else
            let (m2, cnt2) = curr_thread_add_pages page (push_bit order 1) m1 cnt in
            res_bind (mm_map_in_pages m2 page (push_bit order 1) (heap_e m2) user_attr s1) (\<lambda>(ok, m3, s3).
            res_bind (assert_that ok) (\<lambda>_.
              let m4 = m3\<lparr>heap_e := heap_e m3 + 4 * (4096 * push_bit order 1)\<rparr> in
              Inr (heap_e m4, m4, cnt2, s3)))))"

end
