(* ===== verification/PageTables.thy ===== *)
theory PageTables
  imports Mm
begin

text \<open>
  What the page table code of \<^verbatim>\<open>Mm\<close> is for: after \<^verbatim>\<open>mm_map_in_pages\<close> the hardware walk of the
  two-level tables translates the mapped range to the given pages and every other address as
  before. The invariant says where the tables stand: the first level table in a block of two
  pages, every second level table in a page of its own, all handed out by the page allocator,
  so that no write to one table changes another.
\<close>

subsection \<open>Words in memory\<close>

definition ldn :: "mem \<Rightarrow> nat \<Rightarrow> u32" where
  "ldn m a = load_word m (of_nat a)"

lemma unat_offset:
  assumes "a + k < 4294967296"
  shows "unat (of_nat (a + k) - (of_nat a :: u32)) = k"
proof -
  have "of_nat (a + k) - (of_nat a :: u32) = of_nat k" by simp
  then show ?thesis using assms by (simp add: unat_of_nat)
qed

lemma unat_offset_back:
  assumes "k < a" and "a \<le> 4294967295"
  shows "unat (of_nat k - (of_nat a :: u32)) = 4294967296 - (a - k)"
proof -
  have e: "of_nat k - (of_nat a :: u32) = of_nat (4294967296 + k - a)"
  proof -
    have "(of_nat (4294967296 + k - a) :: u32) = of_nat (4294967296 + k) - of_nat a"
      using assms by (intro of_nat_diff) simp
    moreover have "(of_nat (4294967296 + k) :: u32) = of_nat k" by simp
    ultimately show ?thesis by simp
  qed
  have "unat (of_nat (4294967296 + k - a) :: u32) = (4294967296 + k - a) mod 4294967296"
    by (simp only: unat_of_nat) simp
  then show ?thesis using assms unfolding e by simp
qed

lemma load_bytes_cong:
  assumes "\<And>k. k < 4 \<Longrightarrow> m' (p + of_nat k) = m (p + of_nat k)"
  shows "load_word m' p = load_word m p"
  using assms [of 0] assms [of 1] assms [of 2] assms [of 3] by (simp add: load_word_def)

lemma load_store_same: "load_word (store_word p w m) p = w"
  using read_le32_store_word [of p w m] by (simp add: read_le32_load_word)

lemma ldn_store_same: "ldn (store_word (of_nat a) w m) a = w"
  by (simp add: ldn_def load_store_same)

lemma ldn_outside:
  assumes "b + 4 \<le> a \<or> a + n \<le> b" and "a + n \<le> 4294967296" and "b + 4 \<le> 4294967296"
    and "\<And>x. n \<le> unat (x - of_nat a) \<Longrightarrow> m' x = m x"
  shows "ldn m' b = ldn m b"
  unfolding ldn_def
proof (rule load_bytes_cong)
  fix k :: nat assume k: "k < 4"
  have "n \<le> unat (of_nat (b + k) - (of_nat a :: u32))"
  proof (cases "a \<le> b")
    case True
    then obtain j where j: "b = a + j" by (metis le_iff_add)
    have "unat (of_nat (a + (j + k)) - (of_nat a :: u32)) = j + k"
      using assms(3) j k by (intro unat_offset) linarith
    then show ?thesis using assms(1) j True k by (simp add: add.assoc)
  next
    case False
    then have lt: "b + k < a" using assms(1) k by linarith
    show ?thesis
    proof (cases "a \<le> 4294967295")
      case True
      then have "unat (of_nat (b + k) - (of_nat a :: u32)) = 4294967296 - (a - (b + k))"
        using unat_offset_back [of "b + k" a] lt by simp
      then show ?thesis using assms(2) lt by linarith
    next
      case False
      then have "n = 0" using assms(2) by linarith
      then show ?thesis by simp
    qed
  qed
  then show "m' (of_nat b + of_nat k) = m (of_nat b + of_nat k)" using assms(4) by simp
qed

lemma ldn_store_other:
  assumes "4 dvd a" and "4 dvd b" and "a \<noteq> b" and "a < 4294967296" and "b < 4294967296"
  shows "ldn (store_word (of_nat a) w m) b = ldn m b"
proof (rule ldn_outside [where n = 4 and a = a])
  obtain i where i: "a = 4 * i" using assms(1) by (rule dvdE)
  obtain j where j: "b = 4 * j" using assms(2) by (rule dvdE)
  show "b + 4 \<le> a \<or> a + 4 \<le> b" "a + 4 \<le> 4294967296" "b + 4 \<le> 4294967296"
    using assms(3-5) unfolding i j by presburger+
qed (simp add: store_word_apply)

lemma ldn_set_out:
  assumes "b + 4 \<le> a \<or> a + n \<le> b" and "a + n \<le> 4294967295" and "b + 4 \<le> 4294967296"
  shows "ldn (mem_set (of_nat a) 0 (of_nat n) m) b = ldn m b"
proof (rule ldn_outside [OF assms(1) _ assms(3)])
  show "a + n \<le> 4294967296" using assms(2) by simp
  show "mem_set (of_nat a) 0 (of_nat n) m x = m x" if "n \<le> unat (x - of_nat a)" for x
    using that assms(2) by (simp add: mem_set_apply unat_of_nat)
qed

lemma ldn_set_in:
  assumes "a \<le> b" and "b + 4 \<le> a + n" and "a + n \<le> 4294967295"
  shows "ldn (mem_set (of_nat a) 0 (of_nat n) m) b = 0"
proof -
  have "ldn (mem_set (of_nat a) 0 (of_nat n) m) b = load_word (\<lambda>_. 0) (of_nat b)"
    unfolding ldn_def
  proof (rule load_bytes_cong)
    fix k :: nat assume k: "k < 4"
    obtain j where j: "b = a + j" using assms(1) by (metis le_iff_add)
    have "unat (of_nat (a + (j + k)) - (of_nat a :: u32)) = j + k"
      using assms(2,3) j k by (intro unat_offset) linarith
    then show "mem_set (of_nat a) 0 (of_nat n) m (of_nat b + of_nat k) = 0"
      using assms(2,3) j k by (simp add: mem_set_apply unat_of_nat add.assoc)
  qed
  then show ?thesis by (simp add: load_word_def)
qed


subsection \<open>Where tables and pages stand\<close>

text \<open>The kernel virtual address of page \<open>p\<close> of the zone that starts at page \<open>z\<close> of the memory.\<close>

definition kva :: "nat \<Rightarrow> nat \<Rightarrow> nat" where
  "kva z p = 2147483648 + (z + p) * 4096"

definition l1a :: "nat \<Rightarrow> nat \<Rightarrow> nat \<Rightarrow> nat" where
  "l1a z pl i = kva z pl + 4 * i"

definition l2a :: "nat \<Rightarrow> nat \<Rightarrow> nat \<Rightarrow> nat" where
  "l2a z p k = kva z p + 1024 + 4 * k"

lemma kva_bound: "z + p < 32768 \<Longrightarrow> kva z p + 4096 \<le> 2281701376"
  by (simp add: kva_def)

lemma kva_unat: "z + p < 32768 \<Longrightarrow> unat (of_nat (kva z p) :: u32) = kva z p"
  using kva_bound [of z p] by (simp add: unat_of_nat)

lemma page_index_diff:
  assumes "unat i < 134217728"
  shows "page_index (base + 16 * i) base = i"
proof (rule word32_eqI)
  fix n :: nat assume n: "n < 32"
  have pb: "16 * i = push_bit 4 i" by (simp add: push_bit_eq_mult mult.commute)
  have "\<not> bit i m" if "27 \<le> m" for m
  proof -
    have "(2 :: nat) ^ 27 \<le> 2 ^ m" using that by (intro power_increasing) auto
    then have "unat i div 2 ^ m = 0" using assms by simp
    then show ?thesis by (simp add: bit_u32_iff_odd)
  qed
  then show "bit (page_index (base + 16 * i) base) n = bit i n"
    using n by (auto simp: page_index_def pb bit_signed_drop_bit_iff bit_push_bit_iff)
qed

lemma page_to_va_zone:
  assumes "zone_start s = page_array s + 16 * of_nat z" and "z + unat i < 32768"
  shows "page_to_va s (zone_start s + sizeof_page * i) = of_nat (kva z (unat i))"
proof -
  have "zone_start s + sizeof_page * i = page_array s + 16 * (of_nat (z + unat i))"
    using assms(1) by (simp add: sizeof_page_def algebra_simps)
  moreover have "unat (of_nat (z + unat i) :: u32) < 134217728"
    using assms(2) by (simp only: unat_of_nat) simp
  ultimately have "page_index (zone_start s + sizeof_page * i) (page_array s) = of_nat (z + unat i)"
    by (simp only: page_index_diff)
  then show ?thesis by (simp add: page_to_va_def kva_def KERNEL_START_def)
qed

lemma entry_addr_nat: "entry_addr (of_nat a) i = of_nat (a + 4 * unat i)"
  by (simp add: entry_addr_def)

subsection \<open>Entries\<close>

definition is_ptr :: "nat \<Rightarrow> nat \<Rightarrow> u32 \<Rightarrow> bool" where
  "is_ptr z p w \<longleftrightarrow> w AND 3 = 1 \<and> STE_PTR_BASE w = of_nat (kva z p + 1024 - 1610612736) \<and>
     w AND 0xFFFFFC00 = STE_PTR_BASE w"

lemma mask_consts:
  "(0xFFFFFE00 :: u32) = NOT (mask 9)" "(0xFFFFFC00 :: u32) = NOT (mask 10)" "(0xFFFFF000 :: u32) = NOT (mask 12)"
  "(0xFFFFF800 :: u32) = NOT (mask 11)" "(3 :: u32) = mask 2" "(0xF :: u32) = mask 4" "(0xFFF :: u32) = mask 12"
  "(0x3FF :: u32) = mask 10" "(0xFFFFF :: u32) = mask 20" "(0xFF :: u32) = mask 8"
  by (simp_all add: mask_eq_exp_minus_1)

lemma low_bits_clear: "(w :: u32) AND mask k = 0 \<Longrightarrow> n < k \<Longrightarrow> \<not> bit w n"
proof
  assume z: "w AND mask k = 0" and "n < k" and b: "bit w n"
  have "n < 32" using b by (rule bit_u32_bound)
  then have "bit (w AND mask k) n" using b \<open>n < k\<close> by (simp add: bit_and_iff)
  then show False using z by simp
qed

lemma bit_1_u32: "bit (1 :: u32) n \<longleftrightarrow> n = 0"
  by (simp add: bit_1_iff)

lemma ste_ptr_bits:
  fixes phys d :: u32
  assumes "phys AND mask 10 = 0"
  defines "w \<equiv> STE_PTR_BASE phys OR STE_PTR_DOMAIN d OR STE_PTR_MASK"
  shows "w AND 3 = 1" and "STE_PTR_BASE w = phys" and "w AND 0xFFFFFC00 = phys"
proof -
  note low = low_bits_clear [OF assms(1)]
  have w: "bit w n \<longleftrightarrow> (bit phys n \<or> (5 \<le> n \<and> n < 9 \<and> bit d (n - 5)) \<or> n = 0) \<and> n < 32" for n
    using low [of n] bit_u32_bound [of phys n]
    by (auto simp: w_def STE_PTR_BASE_def STE_PTR_DOMAIN_def STE_PTR_MASK_def mask_consts bit_or_iff
        bit_and_iff bit_not_iff bit_push_bit_iff bit_1_u32)
  show "w AND 3 = 1"
    unfolding mask_consts by (rule word32_eqI) (use low in \<open>auto simp: bit_and_iff w bit_1_u32\<close>)
  show "STE_PTR_BASE w = phys" unfolding STE_PTR_BASE_def mask_consts
    by (rule word32_eqI) (use low in \<open>auto simp: bit_and_iff bit_not_iff w\<close>)
  show "w AND 0xFFFFFC00 = phys" unfolding mask_consts
    by (rule word32_eqI) (use low in \<open>auto simp: bit_and_iff bit_not_iff w\<close>)
qed

lemma ste_ptr_entry:
  assumes "phys AND 0x3FF = 0" and "d < 16"
  shows "\<exists>w. mm_get_ste_ptr phys d = Inr w \<and> w AND 3 = 1 \<and> STE_PTR_BASE w = phys \<and> w AND 0xFFFFFC00 = phys"
  using assms(2) ste_ptr_bits [OF assms(1) [unfolded mask_consts], of "ucast d"]
  by (simp add: mm_get_ste_ptr_def)

definition low12 :: "u32 \<Rightarrow> bool" where
  "low12 w \<longleftrightarrow> (\<forall>n. bit w n \<longrightarrow> n < 12)"

lemma low12_or: "low12 a \<Longrightarrow> low12 b \<Longrightarrow> low12 (a OR b)"
  by (auto simp: low12_def bit_or_iff)

lemma low12_small: "unat w < 4096 \<Longrightarrow> low12 w"
  unfolding low12_def
proof (intro allI impI)
  fix n assume w: "unat w < 4096" and b: "bit w n"
  show "n < 12"
  proof (rule ccontr)
    assume "\<not> n < 12"
    then have "(2 :: nat) ^ 12 \<le> 2 ^ n" by (intro power_increasing) auto
    then have "unat w div 2 ^ n = 0" using w by simp
    then show False using b by (simp add: bit_u32_iff_odd)
  qed
qed

lemma pte_bits:
  assumes "phys AND 0xFFF = 0"
  shows "mm_get_pte phys attr AND 0xFFFFF000 = phys" and "mm_get_pte phys attr AND 2 \<noteq> 0"
proof -
  note low = low_bits_clear [OF assms [unfolded mask_consts]]
  define f where "f = pte_access_bits (pa_access attr) OR pte_mem_bits (pa_mem attr) OR PTE_MASK OR
    (if pa_xn attr then PTE_XN else 0) OR (if pa_nG attr then PTE_nG else 0)"
  have a: "low12 (pte_access_bits a)" for a by (rule low12_small) (cases a; simp)
  have b: "low12 (pte_mem_bits a)" for a by (rule low12_small) (cases a; simp)
  have c: "low12 PTE_MASK" "low12 PTE_XN" "low12 PTE_nG" "low12 0"
    by (rule low12_small; simp add: PTE_MASK_def PTE_XN_def PTE_nG_def)+
  have l: "low12 f" unfolding f_def using a b c by (auto intro!: low12_or)
  have "bit (PTE_MASK) 1" by (simp add: PTE_MASK_def bit_numeral_rec)
  then have f1: "bit f 1" by (simp add: f_def bit_or_iff)
  have base: "PTE_BASE phys = phys" unfolding PTE_BASE_def mask_consts
    by (rule word32_eqI) (use low in \<open>auto simp: bit_and_iff bit_not_iff\<close>)
  have e: "mm_get_pte phys attr = f OR phys"
    unfolding mm_get_pte_def Let_def base f_def by (simp add: or.assoc)
  show "mm_get_pte phys attr AND 0xFFFFF000 = phys" unfolding e mask_consts
    by (rule word32_eqI) (use low l in \<open>auto simp: bit_and_iff bit_or_iff bit_not_iff low12_def\<close>)
  have "bit (mm_get_pte phys attr AND 2) 1"
    unfolding e using f1 by (simp add: bit_and_iff bit_or_iff bit_numeral_rec)
  then show "mm_get_pte phys attr AND 2 \<noteq> 0" by auto
qed

subsection \<open>The walk of the hardware\<close>

definition walk :: "mem \<Rightarrow> u32 \<Rightarrow> u32 \<Rightarrow> u32 option" where
  "walk m l1 va =
     (let ste = load_word m (entry_addr l1 (drop_bit 20 va)) in
      if ste AND 3 = 1 then
        let pte = load_word m (entry_addr (pa_to_va (ste AND 0xFFFFFC00)) (drop_bit 12 va AND 0xFF)) in
        if pte AND 2 \<noteq> 0 then Some ((pte AND 0xFFFFF000) OR (va AND 0xFFF)) else None
      else None)"

definition translate :: "mm_sys \<Rightarrow> mmap \<Rightarrow> u32 \<Rightarrow> u32 option" where
  "translate s m va = walk (kmem s) (pa_to_va (ttbr_phys m)) va"

definition l1_index :: "u32 \<Rightarrow> nat" where "l1_index va = unat va div 1048576"
definition l2_index :: "u32 \<Rightarrow> nat" where "l2_index va = unat va div 4096 mod 256"

lemma unat_l1_index: "unat (drop_bit 20 va) = l1_index va"
  by (simp add: unat_drop_bit l1_index_def)

lemma unat_l2_index: "unat (drop_bit 12 va AND 0xFF) = l2_index va"
  unfolding mask_consts unat_and_mask unat_drop_bit by (simp add: l2_index_def)

definition tables_ok :: "nat \<Rightarrow> block set \<Rightarrow> nat \<Rightarrow> (nat \<Rightarrow> nat option) \<Rightarrow> mem \<Rightarrow> bool" where
  "tables_ok z A pl tab m \<longleftrightarrow> (1, pl) \<in> A \<and>
     (\<forall>i < 2048. case tab i of None \<Rightarrow> ldn m (l1a z pl i) AND 3 = 0
        | Some p \<Rightarrow> (0, p) \<in> A \<and> is_ptr z p (ldn m (l1a z pl i))) \<and>
     (\<forall>i < 2048. \<forall>j < 2048. tab i = tab j \<longrightarrow> tab i \<noteq> None \<longrightarrow> i = j)"

definition vm_inv :: "nat \<Rightarrow> block set \<Rightarrow> nat \<Rightarrow> (nat \<Rightarrow> nat option) \<Rightarrow> mm_sys \<Rightarrow> mmap \<Rightarrow> bool" where
  "vm_inv z A pl tab s m \<longleftrightarrow> alloc_inv (bzone s) A \<and> zone_start s = page_array s + 16 * of_nat z \<and>
     z + zone_pages (bzone s) \<le> 32768 \<and> 2147483648 \<le> unat (page_array s) \<and>
     unat (page_array s) + 524288 < 4294967296 \<and>
     ttbr_phys m = of_nat (kva z pl - 1610612736) \<and> tables_ok z A pl tab (kmem s) \<and>
     (pt2_ptr m = 0 \<or> (\<exists>i. (0, unat i) \<in> A \<and> pt2_ptr m = zone_start s + sizeof_page * i \<and>
        ldn (kmem s) (kva z (unat i)) = 0))"


text \<open>Pages of different blocks are different, so their tables are apart.\<close>

lemma inv_placed: "alloc_inv b A \<Longrightarrow> (k, p) \<in> A \<Longrightarrow> p + 2 ^ k \<le> zone_pages b"
  using core_placed [of b A "(k, p)"] by (simp add: alloc_inv_def well_placed_def zone_pages_def)

lemma inv_pages_apart:
  assumes "alloc_inv b A" and "(1, pl) \<in> A" and "(0, p) \<in> A"
  shows "p \<noteq> pl" and "p \<noteq> pl + 1"
proof -
  have "pages (1, pl) \<inter> pages (0, p) = {}" using bd.inv_disjoint [OF assms] by simp
  then show "p \<noteq> pl" "p \<noteq> pl + 1" by (auto simp: pages_def)
qed

text \<open>An access to a word of one table does not meet a word of another.\<close>

lemma l1_l2_apart:
  assumes "p \<noteq> pl" and "p \<noteq> pl + 1" and "i < 2048" and "k < 256"
  shows "l1a z pl i \<noteq> l2a z p k"
proof
  assume e: "l1a z pl i = l2a z p k"
  have "l1a z pl i div 4096 = 524288 + (z + pl) + 4 * i div 4096"
    by (simp add: l1a_def kva_def add.assoc [symmetric])
  moreover have "l2a z p k div 4096 = 524288 + (z + p)"
    using assms(4) by (simp add: l2a_def kva_def add.assoc)
  moreover have "4 * i div 4096 \<le> 1" using assms(3) by simp
  ultimately show False using e assms(1,2) by linarith
qed

lemma l2_l2_apart:
  assumes "(p, k) \<noteq> (q, j)" and "k < 256" and "j < 256"
  shows "l2a z p k \<noteq> l2a z q j"
proof
  assume e: "l2a z p k = l2a z q j"
  have d: "l2a z r n div 4096 = 524288 + (z + r)" if "n < 256" for r n
    using that by (simp add: l2a_def kva_def add.assoc)
  then have "p = q" using e assms(2,3) by (metis add_left_cancel)
  then show False using e assms(1) by (simp add: l2a_def)
qed

lemma dvd4: "4 dvd l1a z pl i" "4 dvd l2a z p k" "4 dvd kva z p"
proof -
  have k: "4 dvd kva z p" for p unfolding kva_def by (intro dvd_add dvd_mult) simp_all
  show "4 dvd kva z p" using k .
  show "4 dvd l1a z pl i" unfolding l1a_def using k by (intro dvd_add) simp_all
  show "4 dvd l2a z p k" unfolding l2a_def using k by (intro dvd_add) simp_all
qed

lemma l1a_bound: "z + pl + 2 \<le> 32768 \<Longrightarrow> i < 2048 \<Longrightarrow> l1a z pl i < 4294967000"
  by (simp add: l1a_def kva_def)

lemma l2a_bound: "z + p < 32768 \<Longrightarrow> k < 256 \<Longrightarrow> l2a z p k < 4294967000"
  by (simp add: l2a_def kva_def)

lemma kva_l2_apart: "k < 256 \<Longrightarrow> kva z p \<noteq> l2a z q k"
proof
  assume k: "k < 256" and e: "kva z p = l2a z q k"
  have "kva z p mod 4096 = 0" by (simp add: kva_def)
  moreover have "l2a z q k = 4096 * (524288 + z + q) + (1024 + 4 * k)" by (simp add: l2a_def kva_def)
  then have "l2a z q k mod 4096 = (1024 + 4 * k) mod 4096" by (simp only: mod_mult_self4)
  ultimately show False using e k by simp
qed

lemma kva_l1_apart:
  assumes "p \<noteq> pl" and "p \<noteq> pl + 1" and "i < 2048"
  shows "kva z p \<noteq> l1a z pl i"
proof
  assume e: "kva z p = l1a z pl i"
  have "l1a z pl i div 4096 = 524288 + (z + pl) + 4 * i div 4096"
    by (simp add: l1a_def kva_def add.assoc [symmetric])
  moreover have "kva z p div 4096 = 524288 + (z + p)" by (simp add: kva_def)
  moreover have "4 * i div 4096 \<le> 1" using assms(3) by simp
  ultimately show False using e assms(1,2) by linarith
qed

lemma tables_None: "tables_ok z A pl tab m \<Longrightarrow> i < 2048 \<Longrightarrow> tab i = None \<Longrightarrow> ldn m (l1a z pl i) AND 3 = 0"
  by (drule tables_ok_def [THEN iffD1], elim conjE, drule spec [where x = i]) simp

lemma tables_Some:
  assumes "tables_ok z A pl tab m" and "i < 2048" and "tab i = Some p"
  shows "(0, p) \<in> A \<and> is_ptr z p (ldn m (l1a z pl i))"
proof -
  have "case tab i of None \<Rightarrow> ldn m (l1a z pl i) AND 3 = 0
      | Some p \<Rightarrow> (0, p) \<in> A \<and> is_ptr z p (ldn m (l1a z pl i))"
    using assms(1,2) unfolding tables_ok_def by blast
  then show ?thesis using assms(3) by simp
qed

lemma tables_inj:
  "tables_ok z A pl tab m \<Longrightarrow> i < 2048 \<Longrightarrow> j < 2048 \<Longrightarrow> tab i = Some p \<Longrightarrow> tab j = Some p \<Longrightarrow> i = j"
  unfolding tables_ok_def by (metis option.distinct(1))

text \<open>The walk in terms of the tables.\<close>

lemma walk_entry:
  assumes t: "tables_ok z A pl tab m" and va: "unat va < 2147483648"
    and b: "z + pl + 2 \<le> 32768" "\<And>p. (0, p) \<in> A \<Longrightarrow> z + p < 32768"
  shows "walk m (of_nat (kva z pl)) va =
    (case tab (l1_index va) of None \<Rightarrow> None
     | Some p \<Rightarrow> let pte = ldn m (l2a z p (l2_index va)) in
         if pte AND 2 \<noteq> 0 then Some ((pte AND 0xFFFFF000) OR (va AND 0xFFF)) else None)"
proof -
  have i: "l1_index va < 2048" using va by (simp add: l1_index_def)
  have w: "load_word m (entry_addr (of_nat (kva z pl)) (drop_bit 20 va)) = ldn m (l1a z pl (l1_index va))"
    by (simp only: entry_addr_nat unat_l1_index ldn_def l1a_def)
  show ?thesis
  proof (cases "tab (l1_index va)")
    case None
    then have "ldn m (l1a z pl (l1_index va)) AND 3 = 0" using tables_None [OF t i] by blast
    then show ?thesis unfolding walk_def Let_def w None by simp
  next
    case (Some p)
    then have p: "(0, p) \<in> A" "is_ptr z p (ldn m (l1a z pl (l1_index va)))"
      using tables_Some [OF t i] by blast+
    have "pa_to_va (ldn m (l1a z pl (l1_index va)) AND 0xFFFFFC00) = of_nat (kva z p + 1024)"
    proof -
      have "(of_nat (kva z p + 1024 - 1610612736) :: u32) + 0x60000000 = of_nat (kva z p + 1024 - 1610612736 + 1610612736)"
        by (simp only: of_nat_add) simp
      also have "\<dots> = of_nat (kva z p + 1024)" by (rule arg_cong [where f = of_nat]) (simp add: kva_def)
      finally show ?thesis using p(2) by (simp only: is_ptr_def pa_to_va_def KERNEL_OFFSET_def)
    qed
    then have "load_word m (entry_addr (pa_to_va (ldn m (l1a z pl (l1_index va)) AND 0xFFFFFC00))
        (drop_bit 12 va AND 0xFF)) = ldn m (l2a z p (l2_index va))"
      by (simp only: entry_addr_nat unat_l2_index ldn_def l2a_def)
    moreover have "ldn m (l1a z pl (l1_index va)) AND 3 = 1" using p(2) by (simp add: is_ptr_def)
    ultimately show ?thesis unfolding walk_def Let_def w Some by (simp only: if_True option.case simp_thms)
  qed
qed


subsection \<open>Mapping one page\<close>

lemma tables_cong:
  assumes "\<And>i. i < 2048 \<Longrightarrow> ldn m' (l1a z pl i) = ldn m (l1a z pl i)"
  shows "tables_ok z A pl tab m' = tables_ok z A pl tab m"
  using assms unfolding tables_ok_def by (auto split: option.splits)

lemma inv_bounds:
  assumes "vm_inv z A pl tab s m"
  shows "z + pl + 2 \<le> 32768" and "(0, p) \<in> A \<Longrightarrow> z + p < 32768" and "(0, p) \<in> A \<Longrightarrow> p \<noteq> pl \<and> p \<noteq> pl + 1"
proof -
  have a: "alloc_inv (bzone s) A" "(1, pl) \<in> A" "z + zone_pages (bzone s) \<le> 32768"
    using assms by (simp_all add: vm_inv_def tables_ok_def)
  show "z + pl + 2 \<le> 32768" using inv_placed [OF a(1,2)] a(3) by simp
  show "z + p < 32768" if "(0, p) \<in> A" using inv_placed [OF a(1) that] a(3) by simp
  show "p \<noteq> pl \<and> p \<noteq> pl + 1" if "(0, p) \<in> A" using inv_pages_apart [OF a(1,2) that] by simp
qed

lemma ttbr_virt: "vm_inv z A pl tab s m \<Longrightarrow> pa_to_va (ttbr_phys m) = of_nat (kva z pl)"
proof -
  assume "vm_inv z A pl tab s m"
  then have "pa_to_va (ttbr_phys m) = of_nat (kva z pl - 1610612736) + 0x60000000"
    by (simp only: vm_inv_def pa_to_va_def KERNEL_OFFSET_def)
  also have "\<dots> = of_nat (kva z pl - 1610612736 + 1610612736)" by (simp only: of_nat_add) simp
  also have "\<dots> = of_nat (kva z pl)" by (rule arg_cong [where f = of_nat]) (simp add: kva_def)
  finally show ?thesis .
qed

lemma translate_entry:
  assumes "vm_inv z A pl tab s m" and "unat va < 2147483648"
  shows "translate s m va =
    (case tab (l1_index va) of None \<Rightarrow> None
     | Some p \<Rightarrow> let pte = ldn (kmem s) (l2a z p (l2_index va)) in
         if pte AND 2 \<noteq> 0 then Some ((pte AND 0xFFFFF000) OR (va AND 0xFFF)) else None)"
proof -
  have "tables_ok z A pl tab (kmem s)" using assms(1) by (simp add: vm_inv_def)
  then show ?thesis unfolding translate_def ttbr_virt [OF assms(1)]
    using assms(2) inv_bounds [OF assms(1)] by (intro walk_entry) auto
qed

lemma index_page: "unat u div 4096 = 256 * l1_index u + l2_index u"
proof -
  have "unat u div 1048576 = unat u div 4096 div 256" by (simp add: div_mult2_eq [symmetric])
  then show ?thesis unfolding l1_index_def l2_index_def by (simp only: mult_div_mod_eq)
qed

lemma same_page_iff:
  "unat u div 4096 = unat v div 4096 \<longleftrightarrow> l1_index u = l1_index v \<and> l2_index u = l2_index v"
proof
  assume e: "unat u div 4096 = unat v div 4096"
  have "l1_index w = unat w div 4096 div 256" for w
    unfolding l1_index_def by (simp add: div_mult2_eq [symmetric])
  then show "l1_index u = l1_index v \<and> l2_index u = l2_index v" using e by (simp add: l2_index_def)
qed (simp only: index_page)

lemma pt2_words:
  assumes "is_ptr z p w"
  shows "STE_PTR_BASE w \<noteq> 0 \<or> 32768 \<le> z + p" and "pa_to_va (STE_PTR_BASE w) = of_nat (kva z p + 1024)"
proof -
  have b: "STE_PTR_BASE w = of_nat (kva z p + 1024 - 1610612736)" using assms by (simp add: is_ptr_def)
  have "unat (of_nat (kva z p + 1024 - 1610612736) :: u32) = kva z p + 1024 - 1610612736" if "z + p < 32768"
    using kva_bound [OF that] by (simp only: unat_of_nat) simp
  moreover have "kva z p + 1024 - 1610612736 \<noteq> 0" by (simp add: kva_def)
  ultimately show "STE_PTR_BASE w \<noteq> 0 \<or> 32768 \<le> z + p" unfolding b by (metis not_le unat_0)
  have "pa_to_va (STE_PTR_BASE w) = of_nat (kva z p + 1024 - 1610612736 + 1610612736)"
    unfolding b pa_to_va_def KERNEL_OFFSET_def by (simp only: of_nat_add) simp
  then show "pa_to_va (STE_PTR_BASE w) = of_nat (kva z p + 1024)" by (simp add: kva_def)
qed

lemma map_page_step:
  assumes inv: "vm_inv z A pl tab s m" and va: "unat va < 2147483648" "va AND 0xFFF = 0"
    and t: "tab (l1_index va) = Some p" and ph: "phys AND 0xFFF = 0"
  shows "\<exists>m'. mm_map_in_page_unsafe (pa_to_va (ttbr_phys m)) phys va attr (kmem s) = Inr m' \<and>
    vm_inv z A pl tab (s\<lparr>kmem := m'\<rparr>) m \<and>
    (\<forall>u. unat u < 2147483648 \<longrightarrow> translate (s\<lparr>kmem := m'\<rparr>) m u =
      (if unat u div 4096 = unat va div 4096 then Some (phys OR (u AND 0xFFF)) else translate s m u))"
proof -
  note bd = inv_bounds [OF inv]
  have i: "l1_index va < 2048" using va by (simp add: l1_index_def)
  have k: "l2_index u < 256" for u by (simp add: l2_index_def)
  have tok: "tables_ok z A pl tab (kmem s)" using inv by (simp add: vm_inv_def)
  have p: "(0, p) \<in> A" "is_ptr z p (ldn (kmem s) (l1a z pl (l1_index va)))"
    using tables_Some [OF tok i t] by blast+
  have pb: "z + p < 32768" "p \<noteq> pl" "p \<noteq> pl + 1" using bd(2,3) p(1) by auto
  let ?a = "l2a z p (l2_index va)" and ?e = "mm_get_pte phys attr"
  let ?m = "store_word (of_nat ?a) ?e (kmem s)"
  have w: "load_word (kmem s) (entry_addr (of_nat (kva z pl)) (drop_bit 20 va)) = ldn (kmem s) (l1a z pl (l1_index va))"
    by (simp only: entry_addr_nat unat_l1_index ldn_def l1a_def)
  have r: "mm_map_in_page_unsafe (pa_to_va (ttbr_phys m)) phys va attr (kmem s) = Inr ?m"
  proof -
    have ea: "entry_addr (pa_to_va (STE_PTR_BASE (ldn (kmem s) (l1a z pl (l1_index va))))) (drop_bit 12 va AND 0xFF) = of_nat ?a"
      by (simp only: pt2_words(2) [OF p(2)] entry_addr_nat unat_l2_index l2a_def)
    have nz: "STE_PTR_BASE (ldn (kmem s) (l1a z pl (l1_index va))) \<noteq> 0"
      using pt2_words(1) [OF p(2)] pb(1) by simp
    show ?thesis unfolding mm_map_in_page_unsafe_def ttbr_virt [OF inv] va(2) ph Let_def w ea
      by (simp add: nz)
  qed
  have l1: "ldn ?m (l1a z pl j) = ldn (kmem s) (l1a z pl j)" if "j < 2048" for j
    using l1_l2_apart [OF pb(2,3) that k [of va], of z] dvd4 l1a_bound [OF bd(1) that] l2a_bound [OF pb(1) k [of va]]
    by (intro ldn_store_other) auto
  have l2: "ldn ?m (l2a z q (l2_index u)) = (if q = p \<and> l2_index u = l2_index va then ?e
      else ldn (kmem s) (l2a z q (l2_index u)))" if "(0, q) \<in> A" for q u
  proof (cases "q = p \<and> l2_index u = l2_index va")
    case False
    then have "l2a z p (l2_index va) \<noteq> l2a z q (l2_index u)" using k by (intro l2_l2_apart) auto
    then have "ldn ?m (l2a z q (l2_index u)) = ldn (kmem s) (l2a z q (l2_index u))"
      using dvd4 l2a_bound [OF pb(1) k [of va]] l2a_bound [OF bd(2) [OF that] k [of u]]
      by (intro ldn_store_other) auto
    then show ?thesis by (simp only: False if_False)
  qed (simp add: ldn_store_same)
  have bm: "ldn ?m (kva z q) = ldn (kmem s) (kva z q)" if "(0, q) \<in> A" for q
    using kva_l2_apart [OF k [of va], of z q p] dvd4 l2a_bound [OF pb(1) k [of va]] kva_bound [OF bd(2) [OF that]]
    by (intro ldn_store_other) auto
  have inv': "vm_inv z A pl tab (s\<lparr>kmem := ?m\<rparr>) m"
    using inv tables_cong [of ?m z pl "kmem s" A tab, OF l1] bm by (auto simp: vm_inv_def)
  have "translate (s\<lparr>kmem := ?m\<rparr>) m u =
      (if unat u div 4096 = unat va div 4096 then Some (phys OR (u AND 0xFFF)) else translate s m u)"
    if u: "unat u < 2147483648" for u
  proof (cases "tab (l1_index u)")
    case None
    then show ?thesis using t translate_entry [OF inv' u] translate_entry [OF inv u] same_page_iff [of u va] by auto
  next
    case (Some q)
    have ui: "l1_index u < 2048" using u by (simp add: l1_index_def)
    have q: "(0, q) \<in> A" using tables_Some [OF tok ui Some] by blast
    have "q = p \<longleftrightarrow> l1_index u = l1_index va" using Some t tables_inj [OF tok ui i] by auto
    then have same: "q = p \<and> l2_index u = l2_index va \<longleftrightarrow> unat u div 4096 = unat va div 4096"
      by (simp add: same_page_iff)
    show ?thesis using translate_entry [OF inv' u] translate_entry [OF inv u] Some l2 [OF q, of u] same
        pte_bits [OF ph, of attr] by (simp add: Let_def)
  qed
  then show ?thesis using r inv' by blast
qed


subsection \<open>A new second level table\<close>

lemma alloc_pages_cases:
  assumes "alloc_inv b A"
  shows "(\<exists>i b'. buddy_alloc_pages k b = Inr (i, b') \<and> (k, unat i) \<notin> A \<and>
      alloc_inv b' (insert (k, unat i) A) \<and> max_orders b' = max_orders b) \<or>
    buddy_alloc_pages k b = Inl (Panic ''Buddy allocator out of memory'')"
proof (cases "\<exists>j i. k \<le> j \<and> (j, i) \<in> free_blocks b")
  case True
  then show ?thesis using alloc_pages_inv [OF assms] by blast
next
  case False
  moreover have "core_inv b A" using assms by (simp add: alloc_inv_def)
  ultimately show ?thesis using buddy_alloc_fails by blast
qed

lemma zone_page_nonzero:
  assumes "zone_start s = page_array s + 16 * of_nat z" and "z + unat i < 32768"
    and "2147483648 \<le> unat (page_array s)" and "unat (page_array s) + 524288 < 4294967296"
  shows "zone_start s + sizeof_page * i \<noteq> 0"
proof -
  define w :: u32 where "w = of_nat (16 * (z + unat i))"
  have e: "zone_start s + sizeof_page * i = page_array s + w"
    using assms(1) by (simp add: sizeof_page_def algebra_simps w_def)
  have "unat w = 16 * (z + unat i)" unfolding w_def using assms(2) by (simp only: unat_of_nat) simp
  then have "unat w \<le> 524288" using assms(2) by simp
  then have "unat (page_array s) + unat w < 4294967296" using assms(4) by (rule_tac le_less_trans [rotated]) auto
  then have "unat (page_array s + w) = unat (page_array s) + unat w" by (rule unat_add_u32)
  then show ?thesis unfolding e using assms(3) by (auto simp: unat_eq_zero [symmetric])
qed

lemma frame_away:
  assumes "4 dvd a" and "a div 4096 \<noteq> q"
  shows "a + 4 \<le> 4096 * q \<or> 4096 * q + 4096 \<le> (a :: nat)"
proof -
  obtain c where c: "a = 4 * c" using assms(1) by (rule dvdE)
  have d: "c div 1024 \<noteq> q" using assms(2) unfolding c by (simp add: div_mult2_eq [of "4 * c" 4 1024, simplified])
  show ?thesis
  proof (cases "c div 1024 < q")
    case True
    then have "c < 1024 * q" by (simp add: div_less_iff_less_mult mult.commute)
    then show ?thesis unfolding c by simp
  next
    case False
    then have "q + 1 \<le> c div 1024" using d by simp
    then have "(q + 1) * 1024 \<le> c" by (simp add: less_eq_div_iff_mult_less_eq)
    then show ?thesis unfolding c by simp
  qed
qed

lemma no_slot: "find_l2_slot 3 0 = None"
  by (simp add: numeral_3_eq_3)

text \<open>The part of a memory map that mapping pages leaves alone.\<close>

definition same_regions :: "mmap \<Rightarrow> mmap \<Rightarrow> bool" where
  "same_regions m m' \<longleftrightarrow> m'\<lparr>page_list := page_list m, pt2_ptr := pt2_ptr m\<rparr> = m"

lemma same_regions_refl: "same_regions m m"
  by (simp add: same_regions_def)

lemma same_regions_fields:
  assumes "same_regions m m'"
  shows "ttbr_phys m' = ttbr_phys m" and "heap_e m' = heap_e m" and "stack_e m' = stack_e m"
    and "data_s m' = data_s m" and "heap_s m' = heap_s m" and "mmap_page_cnt m' = mmap_page_cnt m"
proof -
  have m: "m = m'\<lparr>page_list := page_list m, pt2_ptr := pt2_ptr m\<rparr>" using assms by (simp add: same_regions_def)
  show "ttbr_phys m' = ttbr_phys m" "heap_e m' = heap_e m" "stack_e m' = stack_e m"
    "data_s m' = data_s m" "heap_s m' = heap_s m" "mmap_page_cnt m' = mmap_page_cnt m"
    by (subst m, simp)+
qed

lemma same_regions_trans: "same_regions a b \<Longrightarrow> same_regions b c \<Longrightarrow> same_regions a c"
  unfolding same_regions_def by (cases a; cases b; cases c; simp)

definition same_layout :: "mm_sys \<Rightarrow> mm_sys \<Rightarrow> bool" where
  "same_layout s s' \<longleftrightarrow> page_array s' = page_array s \<and> zone_start s' = zone_start s \<and>
     max_orders (bzone s') = max_orders (bzone s) \<and> heap s' = heap s"

lemma get_l2_pt_step:
  assumes inv: "vm_inv z A pl tab s m"
  shows "mm_get_l2_pt m s = Inl (Panic ''Buddy allocator out of memory'') \<or>
    (\<exists>(i::u32) s' m'. mm_get_l2_pt m s = Inr (of_nat (kva z (unat i) + 1024), m', s') \<and> (0, unat i) \<notin> A \<and>
       vm_inv z (insert (0, unat i) A) pl tab s' m' \<and> same_regions m m' \<and> same_layout s s' \<and>
       tables_ok z A pl tab (kmem s') \<and> (\<forall>k < 256. ldn (kmem s') (l2a z (unat i) k) = 0) \<and>
       (\<forall>u. unat u < 2147483648 \<longrightarrow> translate s' m' u = translate s m u))"
proof -
  have z: "alloc_inv (bzone s) A" "zone_start s = page_array s + 16 * of_nat z"
    "z + zone_pages (bzone s) \<le> 32768" "2147483648 \<le> unat (page_array s)" "unat (page_array s) + 524288 < 4294967296"
    "ttbr_phys m = of_nat (kva z pl - 1610612736)" "tables_ok z A pl tab (kmem s)"
    "pt2_ptr m = 0 \<or> (\<exists>i. (0, unat i) \<in> A \<and> pt2_ptr m = zone_start s + sizeof_page * i \<and>
        ldn (kmem s) (kva z (unat i)) = 0)" using inv unfolding vm_inv_def by blast+
  note bd = inv_bounds [OF inv]
  have none: "(if pt2_ptr m \<noteq> 0 then find_l2_slot 3 (load_word (kmem s) (page_to_va s (pt2_ptr m))) else None) = None"
  proof (cases "pt2_ptr m = 0")
    case False
    then obtain i where i: "(0, unat i) \<in> A" "pt2_ptr m = zone_start s + sizeof_page * i"
      "ldn (kmem s) (kva z (unat i)) = 0" using z(8) by blast
    then have "load_word (kmem s) (page_to_va s (pt2_ptr m)) = 0"
      using page_to_va_zone [OF z(2) bd(2) [OF i(1)]] by (simp add: ldn_def)
    then show ?thesis by (simp add: no_slot)
  qed simp
  from alloc_pages_cases [OF z(1), of 0] show ?thesis
  proof (elim disjE exE conjE)
    fix i b'
    assume b: "buddy_alloc_pages 0 (bzone s) = Inr (i, b')" "(0, unat i) \<notin> A"
      "alloc_inv b' (insert (0, unat i) A)" "max_orders b' = max_orders (bzone s)"
    have zi: "z + unat i < 32768" using inv_placed [OF b(3), of 0 "unat i"] b(4) z(3) by (simp add: zone_pages_def)
    define pg where "pg = zone_start s + sizeof_page * i"
    have pg0: "pg \<noteq> 0" unfolding pg_def using zone_page_nonzero [OF z(2) zi z(4,5)] .
    define s1 where "s1 = s\<lparr>bzone := b', kmem := mem_set (of_nat (kva z (unat i))) 0 (of_nat 4096) (kmem s)\<rparr>"
    have va: "page_to_va (s\<lparr>bzone := b'\<rparr>) pg = of_nat (kva z (unat i))" "page_to_va s1 pg = of_nat (kva z (unat i))"
      using page_to_va_zone [OF z(2) zi] by (simp_all add: pg_def page_to_va_def s1_def)
    define m1 where "m1 = mm_process_add_page pg (m\<lparr>pt2_ptr := pg\<rparr>)"
    have "lv2_pt_alloc s = Inr (pg, s1)"
      unfolding lv2_pt_alloc_def alloc_pages_def b(1) using va(1) by (simp add: pg_def s1_def)
    then have r: "mm_get_l2_pt m s = Inr (of_nat (kva z (unat i) + 1024), m1, s1)"
      unfolding mm_get_l2_pt_def Let_def none using pg0 va(2) by (simp add: m1_def)
    have kb: "kva z (unat i) + 4096 \<le> 4294967295" using kva_bound [OF zi] by simp
    have out: "ldn (kmem s1) a = ldn (kmem s) a" if "a + 4 \<le> kva z (unat i) \<or> kva z (unat i) + 4096 \<le> a" "a + 4 \<le> 4294967296" for a
      using ldn_set_out [OF that(1) kb that(2)] by (simp add: s1_def)
    have inside: "ldn (kmem s1) a = 0" if "kva z (unat i) \<le> a" "a + 4 \<le> kva z (unat i) + 4096" for a
      using ldn_set_in [OF that kb] by (simp add: s1_def)
    have away: "a + 4 \<le> kva z (unat i) \<or> kva z (unat i) + 4096 \<le> a" if "4 dvd a" "a div 4096 \<noteq> 524288 + (z + unat i)" for a
    proof -
      have k: "kva z (unat i) = 4096 * (524288 + (z + unat i))" by (simp add: kva_def)
      then show ?thesis using frame_away [OF that] by simp
    qed
    have apart: "unat i \<noteq> pl" "unat i \<noteq> pl + 1"
      using inv_pages_apart [OF b(3), of pl "unat i"] z(7) by (auto simp: tables_ok_def)
    have l1: "ldn (kmem s1) (l1a z pl j) = ldn (kmem s) (l1a z pl j)" if "j < 2048" for j
    proof (rule out)
      have "l1a z pl j div 4096 = 524288 + (z + pl) + 4 * j div 4096"
        by (simp add: l1a_def kva_def add.assoc [symmetric])
      moreover have "4 * j div 4096 \<le> 1" using that by simp
      ultimately have "l1a z pl j div 4096 \<noteq> 524288 + (z + unat i)" using apart by linarith
      then show "l1a z pl j + 4 \<le> kva z (unat i) \<or> kva z (unat i) + 4096 \<le> l1a z pl j"
        by (intro away dvd4)
      show "l1a z pl j + 4 \<le> 4294967296" using l1a_bound [OF bd(1) that] by simp
    qed
    have l2: "ldn (kmem s1) (l2a z p k) = ldn (kmem s) (l2a z p k)" if "(0, p) \<in> A" "k < 256" for p k
    proof (rule out)
      have "p \<noteq> unat i" using b(2) that(1) by auto
      moreover have "l2a z p k div 4096 = 524288 + (z + p)" using that(2) by (simp add: l2a_def kva_def add.assoc)
      ultimately show "l2a z p k + 4 \<le> kva z (unat i) \<or> kva z (unat i) + 4096 \<le> l2a z p k"
        by (intro away dvd4) simp
      show "l2a z p k + 4 \<le> 4294967296" using l2a_bound [OF bd(2) [OF that(1)] that(2)] by simp
    qed
    have new: "ldn (kmem s1) (l2a z (unat i) k) = 0" if "k < 256" for k
      using that by (intro inside) (simp_all add: l2a_def)
    have t1: "tables_ok z A pl tab (kmem s1)" using z(7) tables_cong [OF l1] by simp
    then have "tables_ok z (insert (0, unat i) A) pl tab (kmem s1)"
      unfolding tables_ok_def by (auto split: option.splits)
    moreover have "ldn (kmem s1) (kva z (unat i)) = 0" by (intro inside) simp_all
    ultimately have inv1: "vm_inv z (insert (0, unat i) A) pl tab s1 m1"
      using z b(3,4) by (auto simp: vm_inv_def s1_def m1_def mm_process_add_page_def pg_def zone_pages_def)
    have "translate s1 m1 u = translate s m u" if u: "unat u < 2147483648" for u
    proof -
      have ui: "l1_index u < 2048" "l2_index u < 256" using u by (simp_all add: l1_index_def l2_index_def)
      show ?thesis
      proof (cases "tab (l1_index u)")
        case (Some q)
        then have "(0, q) \<in> A" using tables_Some [OF z(7) ui(1)] by blast
        then show ?thesis using translate_entry [OF inv1 u] translate_entry [OF inv u] Some l2 ui(2) by simp
      qed (simp add: translate_entry [OF inv1 u] translate_entry [OF inv u])
    qed
    moreover have "same_regions m m1" by (simp add: same_regions_def m1_def mm_process_add_page_def)
    moreover have "same_layout s s1" using b(4) by (simp add: same_layout_def s1_def)
    ultimately have all: "mm_get_l2_pt m s = Inr (of_nat (kva z (unat i) + 1024), m1, s1) \<and> (0, unat i) \<notin> A \<and>
       vm_inv z (insert (0, unat i) A) pl tab s1 m1 \<and> same_regions m m1 \<and> same_layout s s1 \<and>
       tables_ok z A pl tab (kmem s1) \<and> (\<forall>k < 256. ldn (kmem s1) (l2a z (unat i) k) = 0) \<and>
       (\<forall>u. unat u < 2147483648 \<longrightarrow> translate s1 m1 u = translate s m u)"
      using r b(2) inv1 new t1 by blast
    show ?thesis
      by (rule disjI2) (rule exI [of _ i], rule exI [of _ s1], rule exI [of _ m1], rule all)
  next
    assume "buddy_alloc_pages 0 (bzone s) = Inl (Panic ''Buddy allocator out of memory'')"
    then have "lv2_pt_alloc s = Inl (Panic ''Buddy allocator out of memory'')"
      by (simp add: lv2_pt_alloc_def alloc_pages_def)
    then show ?thesis unfolding mm_get_l2_pt_def Let_def none by simp
  qed
qed


text \<open>The first half of an iteration of \<^verbatim>\<open>mm_map_in_pages\<close>: after it the address has a table.\<close>

definition ensure_table :: "u32 \<Rightarrow> u32 \<Rightarrow> u8 \<Rightarrow> mmap \<Rightarrow> mm_sys \<Rightarrow> (bool \<times> mmap \<times> mm_sys) res" where
  "ensure_table ttbr_virt virt_addr dm m s =
     (if mm_has_ste_ptr_mapping ttbr_virt virt_addr (kmem s) then Inr (True, m, s)
      else res_bind (mm_get_l2_pt m s) (\<lambda>(pt2_virt, m1, s1).
        if pt2_virt = 0 then Inr (False, m1, s1)
        else res_bind (mm_map_in_pt ttbr_virt (va_to_pa pt2_virt) (virt_addr AND NOT 0xFFFFF)
               dm (kmem s1)) (\<lambda>mem1. Inr (True, m1, s1\<lparr>kmem := mem1\<rparr>))))"

lemma map_pages_unfold:
  "map_pages_loop (Suc n) ttbr_virt page virt_addr attr m s =
     res_bind (ensure_table ttbr_virt virt_addr (pa_domain attr) m s) (\<lambda>(ok, m1, s1).
        if \<not> ok then Inr (False, m1, s1)
        else res_bind (mm_map_in_page_unsafe ttbr_virt (page_to_pa s1 page) virt_addr attr (kmem s1)) (\<lambda>mem2.
          map_pages_loop n ttbr_virt (page + sizeof_page) (virt_addr + 4096) attr m1 (s1\<lparr>kmem := mem2\<rparr>)))"
  by (simp add: ensure_table_def)

lemma has_mapping_iff:
  assumes inv: "vm_inv z A pl tab s m" and va: "unat va < 2147483648"
  shows "mm_has_ste_ptr_mapping (of_nat (kva z pl)) va (kmem s) \<longleftrightarrow> tab (l1_index va) \<noteq> None"
proof -
  have i: "l1_index va < 2048" using va by (simp add: l1_index_def)
  have tok: "tables_ok z A pl tab (kmem s)" using inv by (simp add: vm_inv_def)
  have w: "load_word (kmem s) (entry_addr (of_nat (kva z pl)) (drop_bit 20 va)) = ldn (kmem s) (l1a z pl (l1_index va))"
    by (simp only: entry_addr_nat unat_l1_index ldn_def l1a_def)
  show ?thesis
  proof (cases "tab (l1_index va)")
    case None
    then show ?thesis using tables_None [OF tok i None]
      by (simp add: mm_has_ste_ptr_mapping_def mm_is_ste_empty_def w)
  next
    case (Some p)
    then have "ldn (kmem s) (l1a z pl (l1_index va)) AND 3 = 1"
      using tables_Some [OF tok i Some] by (simp add: is_ptr_def)
    then show ?thesis using Some unfolding mm_has_ste_ptr_mapping_def mm_is_ste_empty_def w by simp
  qed
qed

lemma link_table_step:
  assumes inv: "vm_inv z (insert (0, p) A) pl tab s m" and fresh: "(0, p) \<notin> A"
    and old: "tables_ok z A pl tab (kmem s)"
    and zero: "\<forall>k < 256. ldn (kmem s) (l2a z p k) = 0"
    and va: "unat va < 2147483648" and none: "tab (l1_index va) = None" and dm: "dm < 16"
  shows "\<exists>m'. mm_map_in_pt (of_nat (kva z pl)) (va_to_pa (of_nat (kva z p + 1024))) (va AND NOT 0xFFFFF) dm (kmem s) = Inr m' \<and>
    vm_inv z (insert (0, p) A) pl (tab(l1_index va \<mapsto> p)) (s\<lparr>kmem := m'\<rparr>) m \<and>
    (\<forall>u. unat u < 2147483648 \<longrightarrow> translate (s\<lparr>kmem := m'\<rparr>) m u = translate s m u)"
proof -
  note bd = inv_bounds [OF inv]
  let ?i = "l1_index va"
  have i: "?i < 2048" using va by (simp add: l1_index_def)
  have tok: "tables_ok z (insert (0, p) A) pl tab (kmem s)" using inv by (simp add: vm_inv_def)
  have zp: "z + p < 32768" "p \<noteq> pl" "p \<noteq> pl + 1" using bd(2,3) [of p] by auto
  let ?ph = "va_to_pa (of_nat (kva z p + 1024))"
  have ph: "?ph = of_nat (kva z p + 1024 - 1610612736)"
  proof -
    have "(of_nat (kva z p + 1024 - 1610612736) :: u32) = of_nat (kva z p + 1024) - of_nat 1610612736"
      by (rule of_nat_diff) (simp add: kva_def)
    then show ?thesis by (simp add: va_to_pa_def KERNEL_OFFSET_def)
  qed
  have "unat ?ph = kva z p + 1024 - 1610612736"
    unfolding ph using kva_bound [OF zp(1)] by (simp only: unat_of_nat) simp
  moreover have "kva z p + 1024 - 1610612736 = 1024 * (524289 + 4 * (z + p))" by (simp add: kva_def)
  ultimately have "(2 :: nat) ^ 10 dvd unat ?ph" by simp
  then have al: "?ph AND 0x3FF = 0" unfolding mask_consts by (simp only: and_mask_zero_iff)
  obtain w where w: "mm_get_ste_ptr ?ph dm = Inr w" "w AND 3 = 1" "STE_PTR_BASE w = ?ph" "w AND 0xFFFFFC00 = ?ph"
    using ste_ptr_entry [OF al dm] by blast
  let ?m = "store_word (of_nat (l1a z pl ?i)) w (kmem s)"
  have "(va AND NOT 0xFFFFF) AND 0xFFFFF = 0" unfolding mask_consts
    by (rule word32_eqI) (simp add: bit_and_iff bit_not_iff)
  moreover have "drop_bit 20 (va AND NOT 0xFFFFF) = drop_bit 20 va" unfolding mask_consts
    by (rule word32_eqI) (auto simp: bit_drop_bit_eq bit_and_iff bit_not_iff dest: bit_u32_bound)
  moreover have "entry_addr (of_nat (kva z pl)) (drop_bit 20 va) = of_nat (l1a z pl ?i)"
    by (simp only: entry_addr_nat unat_l1_index l1a_def)
  ultimately have r: "mm_map_in_pt (of_nat (kva z pl)) ?ph (va AND NOT 0xFFFFF) dm (kmem s) = Inr ?m"
    using al w(1) unfolding mm_map_in_pt_def by simp
  have l1: "ldn ?m (l1a z pl j) = (if j = ?i then w else ldn (kmem s) (l1a z pl j))" if "j < 2048" for j
  proof (cases "j = ?i")
    case False
    then have "l1a z pl ?i \<noteq> l1a z pl j" by (simp add: l1a_def)
    then have "ldn ?m (l1a z pl j) = ldn (kmem s) (l1a z pl j)"
      using dvd4 l1a_bound [OF bd(1) that] l1a_bound [OF bd(1) i] by (intro ldn_store_other) auto
    then show ?thesis using False by simp
  qed (simp add: ldn_store_same)
  have l2: "ldn ?m (l2a z q k) = ldn (kmem s) (l2a z q k)" if "(0, q) \<in> insert (0, p) A" "k < 256" for q k
    using l1_l2_apart [of q pl ?i k z] bd(3) [OF that(1)] that(2) i dvd4 l1a_bound [OF bd(1) i]
      l2a_bound [OF bd(2) [OF that(1)] that(2)] by (intro ldn_store_other) auto
  have bm: "ldn ?m (kva z q) = ldn (kmem s) (kva z q)" if "(0, q) \<in> insert (0, p) A" for q
    using kva_l1_apart [of q pl ?i z] bd(3) [OF that(1)] i dvd4 l1a_bound [OF bd(1) i]
      kva_bound [OF bd(2) [OF that]] by (intro ldn_store_other) auto
  have notin: "tab j \<noteq> Some p" if "j < 2048" for j using tables_Some [OF old that, of p] fresh by auto
  have "tables_ok z (insert (0, p) A) pl (tab(?i \<mapsto> p)) ?m"
    unfolding tables_ok_def
  proof (intro conjI allI impI)
    show "(1, pl) \<in> insert (0, p) A" using tok by (simp add: tables_ok_def)
    show "case (tab(?i \<mapsto> p)) j of None \<Rightarrow> ldn ?m (l1a z pl j) AND 3 = 0
        | Some q \<Rightarrow> (0, q) \<in> insert (0, p) A \<and> is_ptr z q (ldn ?m (l1a z pl j))" if j: "j < 2048" for j
    proof (cases "j = ?i")
      case True
      then show ?thesis using w ph l1 [OF j] by (simp add: is_ptr_def)
    next
      case False
      then show ?thesis using l1 [OF j] tables_None [OF tok j] tables_Some [OF tok j]
        by (simp split: option.split)
    qed
    show "a = b" if "a < 2048" "b < 2048" "(tab(?i \<mapsto> p)) a = (tab(?i \<mapsto> p)) b" "(tab(?i \<mapsto> p)) a \<noteq> None" for a b
      using that notin tables_inj [OF tok that(1,2)] by (auto split: if_splits)
  qed
  then have inv': "vm_inv z (insert (0, p) A) pl (tab(?i \<mapsto> p)) (s\<lparr>kmem := ?m\<rparr>) m"
    using inv bm by (auto simp: vm_inv_def)
  have "translate (s\<lparr>kmem := ?m\<rparr>) m u = translate s m u" if u: "unat u < 2147483648" for u
  proof -
    have ui: "l1_index u < 2048" "l2_index u < 256" using u by (simp_all add: l1_index_def l2_index_def)
    show ?thesis
    proof (cases "l1_index u = ?i")
      case True
      then show ?thesis using translate_entry [OF inv' u] translate_entry [OF inv u] none zero l2 ui(2)
        by (simp add: Let_def)
    next
      case False
      show ?thesis
      proof (cases "tab (l1_index u)")
        case (Some q)
        then have "(0, q) \<in> insert (0, p) A" using tables_Some [OF tok ui(1)] by blast
        then show ?thesis using translate_entry [OF inv' u] translate_entry [OF inv u] Some False l2 ui(2) by simp
      qed (use translate_entry [OF inv' u] translate_entry [OF inv u] False in simp)
    qed
  qed
  then show ?thesis using r inv' by blast
qed


lemma ensure_table_step:
  assumes inv: "vm_inv z A pl tab s m" and va: "unat va < 2147483648" and dm: "dm < 16"
  shows "ensure_table (of_nat (kva z pl)) va dm m s = Inl (Panic ''Buddy allocator out of memory'') \<or>
    (\<exists>m' s' A' tab'. ensure_table (of_nat (kva z pl)) va dm m s = Inr (True, m', s') \<and>
       vm_inv z A' pl tab' s' m' \<and> A \<subseteq> A' \<and> tab' (l1_index va) \<noteq> None \<and>
       same_regions m m' \<and> same_layout s s' \<and>
       (\<forall>u. unat u < 2147483648 \<longrightarrow> translate s' m' u = translate s m u))"
proof (cases "tab (l1_index va)")
  case (Some p)
  then have "ensure_table (of_nat (kva z pl)) va dm m s = Inr (True, m, s)"
    using has_mapping_iff [OF inv va] by (simp add: ensure_table_def)
  moreover have "same_layout s s" by (simp add: same_layout_def)
  ultimately show ?thesis using inv Some same_regions_refl by blast
next
  case None
  then have e: "ensure_table (of_nat (kva z pl)) va dm m s =
      res_bind (mm_get_l2_pt m s) (\<lambda>(pt2_virt, m1, s1).
        if pt2_virt = 0 then Inr (False, m1, s1)
        else res_bind (mm_map_in_pt (of_nat (kva z pl)) (va_to_pa pt2_virt) (va AND NOT 0xFFFFF)
               dm (kmem s1)) (\<lambda>mem1. Inr (True, m1, s1\<lparr>kmem := mem1\<rparr>)))"
    using has_mapping_iff [OF inv va] by (simp add: ensure_table_def)
  from get_l2_pt_step [OF inv] show ?thesis
  proof (elim disjE exE conjE)
    fix i s1 m1
    assume g: "mm_get_l2_pt m s = Inr (of_nat (kva z (unat i) + 1024), m1, s1)" "(0, unat i) \<notin> A"
      "vm_inv z (insert (0, unat i) A) pl tab s1 m1" "same_regions m m1" "same_layout s s1"
      "tables_ok z A pl tab (kmem s1)" "\<forall>k < 256. ldn (kmem s1) (l2a z (unat i) k) = 0"
      "\<forall>u. unat u < 2147483648 \<longrightarrow> translate s1 m1 u = translate s m u"
    have "z + unat i < 32768" using inv_bounds(2) [OF g(3)] by simp
    then have "unat (of_nat (kva z (unat i) + 1024) :: u32) = kva z (unat i) + 1024"
      using kva_bound [of z "unat i"] by (simp only: unat_of_nat) simp
    moreover have "kva z (unat i) + 1024 \<noteq> 0" by (simp add: kva_def)
    ultimately have nz: "(of_nat (kva z (unat i) + 1024) :: u32) \<noteq> 0" by (metis unat_0)
    obtain mem1 where l: "mm_map_in_pt (of_nat (kva z pl)) (va_to_pa (of_nat (kva z (unat i) + 1024))) (va AND NOT 0xFFFFF) dm (kmem s1) = Inr mem1"
      "vm_inv z (insert (0, unat i) A) pl (tab(l1_index va \<mapsto> unat i)) (s1\<lparr>kmem := mem1\<rparr>) m1"
      "\<forall>u. unat u < 2147483648 \<longrightarrow> translate (s1\<lparr>kmem := mem1\<rparr>) m1 u = translate s1 m1 u"
      using link_table_step [OF g(3,2,6,7) va None dm] by blast
    have r: "ensure_table (of_nat (kva z pl)) va dm m s = Inr (True, m1, s1\<lparr>kmem := mem1\<rparr>)"
      unfolding e g(1) res_bind.simps prod.case l(1) if_not_P [OF nz] ..
    have "same_layout s (s1\<lparr>kmem := mem1\<rparr>)" using g(5) by (simp add: same_layout_def)
    moreover have "(tab(l1_index va \<mapsto> unat i)) (l1_index va) \<noteq> None" by simp
    moreover have "A \<subseteq> insert (0, unat i) A" by blast
    moreover have "\<forall>u. unat u < 2147483648 \<longrightarrow> translate (s1\<lparr>kmem := mem1\<rparr>) m1 u = translate s m u"
      using l(3) g(8) by simp
    ultimately show ?thesis using r l(2) g(4) by blast
  next
    assume "mm_get_l2_pt m s = Inl (Panic ''Buddy allocator out of memory'')"
    then show ?thesis unfolding e by simp
  qed
qed

lemma same_layout_trans: "same_layout a b \<Longrightarrow> same_layout b c \<Longrightarrow> same_layout a c"
  by (simp add: same_layout_def)

text \<open>The physical address of page \<open>q\<close> of the memory.\<close>

definition phys_of :: "nat \<Rightarrow> u32" where
  "phys_of q = 536870912 + of_nat (4096 * q)"

lemma page_to_pa_phys:
  assumes "page = page_array s + 16 * of_nat q" and "q < 32768"
  shows "page_to_pa s page = phys_of q" and "phys_of q AND 0xFFF = 0"
proof -
  have "unat (of_nat q :: u32) < 134217728" using assms(2) by (simp only: unat_of_nat) simp
  then have "page_index page (page_array s) = of_nat q" unfolding assms(1) by (rule page_index_diff)
  then show "page_to_pa s page = phys_of q"
    by (simp add: page_to_pa_def phys_of_def va_to_pa_def KERNEL_START_def KERNEL_OFFSET_def mult.commute)
  have "phys_of q = of_nat (4096 * (131072 + q))" by (simp add: phys_of_def)
  then have "unat (phys_of q) = 4096 * (131072 + q)" using assms(2) by (simp only: unat_of_nat) simp
  then have "(2 :: nat) ^ 12 dvd unat (phys_of q)" by simp
  then show "phys_of q AND 0xFFF = 0" unfolding mask_consts by (simp only: and_mask_zero_iff)
qed

lemma aligned_next:
  assumes "(va :: u32) AND 0xFFF = 0" and "unat va + 4096 < 4294967296"
  shows "(va + 4096) AND 0xFFF = 0" and "unat (va + 4096) = unat va + 4096"
proof -
  show u: "unat (va + 4096) = unat va + 4096" using assms(2) by (subst unat_add_u32) simp_all
  have "(2 :: nat) ^ 12 dvd unat va" using assms(1) unfolding mask_consts by (simp only: and_mask_zero_iff)
  then have "(2 :: nat) ^ 12 dvd unat (va + 4096)" unfolding u by simp
  then show "(va + 4096) AND 0xFFF = 0" unfolding mask_consts by (simp only: and_mask_zero_iff)
qed

text \<open>The address space after \<open>n\<close> pages from \<open>q\<close> on have been mapped at \<open>va\<close>.\<close>

definition mapped :: "u32 \<Rightarrow> nat \<Rightarrow> nat \<Rightarrow> (u32 \<Rightarrow> u32 option) \<Rightarrow> u32 \<Rightarrow> u32 option" where
  "mapped va n q t u =
     (if unat va div 4096 \<le> unat u div 4096 \<and> unat u div 4096 < unat va div 4096 + n
      then Some (phys_of (q + (unat u div 4096 - unat va div 4096)) OR (u AND 0xFFF)) else t u)"

lemma map_loop_correct:
  assumes "vm_inv z A pl tab s m" and "va AND 0xFFF = 0" and "unat va + 4096 * n \<le> 2147483648"
    and "page = page_array s + 16 * of_nat q" and "q + n \<le> 32768" and "pa_domain attr < 16"
  shows "map_pages_loop n (of_nat (kva z pl)) page va attr m s = Inl (Panic ''Buddy allocator out of memory'') \<or>
    (\<exists>m' s' A' tab'. map_pages_loop n (of_nat (kva z pl)) page va attr m s = Inr (True, m', s') \<and>
       vm_inv z A' pl tab' s' m' \<and> A \<subseteq> A' \<and> same_regions m m' \<and> same_layout s s' \<and>
       (\<forall>u. unat u < 2147483648 \<longrightarrow> translate s' m' u = mapped va n q (translate s m) u))"
  using assms
proof (induction n arbitrary: s m A tab page va q)
  case 0
  have "same_layout s s" by (simp add: same_layout_def)
  then show ?case using 0(1) same_regions_refl by (auto simp: mapped_def)
next
  case (Suc n)
  let ?l1 = "of_nat (kva z pl) :: u32"
  have va: "unat va < 2147483648" using Suc.prems(3) by simp
  from ensure_table_step [OF Suc.prems(1) va Suc.prems(6)] show ?case
  proof (elim disjE exE conjE)
    assume "ensure_table ?l1 va (pa_domain attr) m s = Inl (Panic ''Buddy allocator out of memory'')"
    then show ?thesis unfolding map_pages_unfold by simp
  next
    fix m1 s1 A1 tab1
    assume e: "ensure_table ?l1 va (pa_domain attr) m s = Inr (True, m1, s1)" "vm_inv z A1 pl tab1 s1 m1"
      "A \<subseteq> A1" "tab1 (l1_index va) \<noteq> None" "same_regions m m1" "same_layout s s1"
      "\<forall>u. unat u < 2147483648 \<longrightarrow> translate s1 m1 u = translate s m u"
    obtain p where p: "tab1 (l1_index va) = Some p" using e(4) by blast
    have pg: "page = page_array s1 + 16 * of_nat q" using Suc.prems(4) e(6) by (simp add: same_layout_def)
    have q: "q < 32768" using Suc.prems(5) by simp
    note ph = page_to_pa_phys [OF pg q]
    obtain mem2 where m2: "mm_map_in_page_unsafe ?l1 (phys_of q) va attr (kmem s1) = Inr mem2"
      "vm_inv z A1 pl tab1 (s1\<lparr>kmem := mem2\<rparr>) m1"
      "\<forall>u. unat u < 2147483648 \<longrightarrow> translate (s1\<lparr>kmem := mem2\<rparr>) m1 u =
        (if unat u div 4096 = unat va div 4096 then Some (phys_of q OR (u AND 0xFFF)) else translate s1 m1 u)"
      using map_page_step [OF e(2) va Suc.prems(2) p ph(2), of attr] unfolding ttbr_virt [OF e(2)] by blast
    let ?s2 = "s1\<lparr>kmem := mem2\<rparr>"
    have unf: "map_pages_loop (Suc n) ?l1 page va attr m s =
        map_pages_loop n ?l1 (page + sizeof_page) (va + 4096) attr m1 ?s2"
      unfolding map_pages_unfold e(1) res_bind.simps prod.case ph(1) m2(1) by simp
    have lay: "same_layout s ?s2" using e(6) by (simp add: same_layout_def)
    have ov: "unat va + 4096 < 4294967296" using Suc.prems(3) by simp
    note nx = aligned_next [OF Suc.prems(2) ov]
    have pg2: "page + sizeof_page = page_array ?s2 + 16 * of_nat (q + 1)"
      using pg by (simp add: sizeof_page_def algebra_simps)
    have IH: "map_pages_loop n ?l1 (page + sizeof_page) (va + 4096) attr m1 ?s2 = Inl (Panic ''Buddy allocator out of memory'') \<or>
      (\<exists>m' s' A' tab'. map_pages_loop n ?l1 (page + sizeof_page) (va + 4096) attr m1 ?s2 = Inr (True, m', s') \<and>
       vm_inv z A' pl tab' s' m' \<and> A1 \<subseteq> A' \<and> same_regions m1 m' \<and> same_layout ?s2 s' \<and>
       (\<forall>u. unat u < 2147483648 \<longrightarrow> translate s' m' u = mapped (va + 4096) n (q + 1) (translate ?s2 m1) u))"
      using Suc.prems(3,5,6) nx pg2 by (intro Suc.IH [OF m2(2)]) simp_all
    have comb: "mapped (va + 4096) n (q + 1) (translate ?s2 m1) u = mapped va (Suc n) q (translate s m) u"
      if u: "unat u < 2147483648" for u
    proof -
      have v1: "unat (va + 4096) div 4096 = unat va div 4096 + 1" unfolding nx(2) by simp
      consider "unat u div 4096 < unat va div 4096" | "unat u div 4096 = unat va div 4096"
        | k where "unat u div 4096 = unat va div 4096 + Suc k" by (metis add_Suc_right less_imp_Suc_add nat_neq_iff)
      then show ?thesis
      proof cases
        case 3
        then show ?thesis using m2(3) e(7) u unfolding mapped_def v1 by simp
      qed (use m2(3) e(7) u in \<open>simp_all add: mapped_def v1\<close>)
    qed
    from IH show ?thesis
    proof (elim disjE exE conjE)
      fix m' s' A' tab'
      assume f: "map_pages_loop n ?l1 (page + sizeof_page) (va + 4096) attr m1 ?s2 = Inr (True, m', s')"
        "vm_inv z A' pl tab' s' m'" "A1 \<subseteq> A'" "same_regions m1 m'" "same_layout ?s2 s'"
        "\<forall>u. unat u < 2147483648 \<longrightarrow> translate s' m' u = mapped (va + 4096) n (q + 1) (translate ?s2 m1) u"
      have "\<forall>u. unat u < 2147483648 \<longrightarrow> translate s' m' u = mapped va (Suc n) q (translate s m) u"
        using f(6) comb by simp
      then show ?thesis unfolding unf
        using f(1,2) order_trans [OF e(3) f(3)] same_regions_trans [OF e(5) f(4)] same_layout_trans [OF lay f(5)]
        by blast
    next
      assume "map_pages_loop n ?l1 (page + sizeof_page) (va + 4096) attr m1 ?s2 = Inl (Panic ''Buddy allocator out of memory'')"
      then show ?thesis unfolding unf by (rule disjI1)
    qed
  qed
qed


subsection \<open>The break of the heap\<close>

lemma order_of_pages:
  assumes "0 < unat w" and "unat w \<le> 131072"
  shows "\<exists>k \<le> 17. pages_to_order w = k \<and> unat w \<le> 2 ^ k"
proof -
  obtain k where k: "2 ^ k < 2 * unat w" "unat w \<le> 2 ^ k" using exp_bracket_up [OF assms(1)] by blast
  have "(2 :: nat) ^ k < 2 ^ 18" using k(1) assms(2) by simp
  then have "k < 18" by (rule power_less_imp_less_exp [rotated]) simp
  then show ?thesis using k(2) round_up_power_two_exp [OF k] by (intro exI [of _ k]) (simp add: pages_to_order_def)
qed

lemma break_pages:
  assumes "0 < unat bytes" and "unat bytes \<le> 536870912"
  shows "\<exists>k \<le> 17. pages_to_order (align_up bytes 4096 div 4096) = k \<and> unat bytes \<le> 4096 * 2 ^ k"
proof -
  have four: "(4096 :: u32) = 2 ^ 12" by simp
  have fits: "unat bytes + 2 ^ 12 \<le> 2 ^ 32" using assms(2) by simp
  note up = align_up_bounds [where v = bytes and k = 12, OF _ fits, folded four]
  define a where "a = align_up bytes 4096"
  have a: "4096 dvd unat a" "unat bytes \<le> unat a" "unat a < unat bytes + 4096"
    using up by (simp_all add: a_def)
  have d: "unat (a div 4096) = unat a div 4096" by (simp add: unat_div)
  obtain q where q: "unat a = 4096 * q" using a(1) by (rule dvdE)
  then have "0 < unat (a div 4096)" "unat (a div 4096) \<le> 131072" using a assms d by simp_all
  from order_of_pages [OF this] show ?thesis using a(2) q d unfolding a_def [symmetric] by auto
qed

text \<open>Taking a block of pages for a process keeps the tables and all translations.\<close>

lemma add_block_step:
  assumes inv: "vm_inv z A pl tab s m"
  shows "alloc_pages k s = Inl (Panic ''Buddy allocator out of memory'') \<or>
    (\<exists>(i :: u32) s'. alloc_pages k s = Inr (zone_start s + sizeof_page * i, s') \<and> z + unat i + 2 ^ k \<le> 32768 \<and>
       zone_start s + sizeof_page * i \<noteq> 0 \<and> same_layout s s' \<and> kmem s' = kmem s \<and>
       (\<forall>m'. ttbr_phys m' = ttbr_phys m \<longrightarrow> pt2_ptr m' = pt2_ptr m \<longrightarrow>
          vm_inv z (insert (k, unat i) A) pl tab s' m'))"
proof -
  have z: "alloc_inv (bzone s) A" "zone_start s = page_array s + 16 * of_nat z"
    "z + zone_pages (bzone s) \<le> 32768" "2147483648 \<le> unat (page_array s)" "unat (page_array s) + 524288 < 4294967296"
    using inv unfolding vm_inv_def by blast+
  from alloc_pages_cases [OF z(1), of k] show ?thesis
  proof (elim disjE exE conjE)
    fix i b'
    assume b: "buddy_alloc_pages k (bzone s) = Inr (i, b')" "alloc_inv b' (insert (k, unat i) A)"
      "max_orders b' = max_orders (bzone s)"
    have pl: "unat i + 2 ^ k \<le> zone_pages (bzone s)" using inv_placed [OF b(2), of k "unat i"] b(3)
      by (simp add: zone_pages_def)
    have one: "(1 :: nat) \<le> 2 ^ k" by simp
    have zi: "z + unat i < 32768" and fit: "z + unat i + 2 ^ k \<le> 32768" using pl z(3) one by linarith+
    have vm: "vm_inv z (insert (k, unat i) A) pl tab (s\<lparr>bzone := b'\<rparr>) m'"
      if "ttbr_phys m' = ttbr_phys m" "pt2_ptr m' = pt2_ptr m" for m'
    proof -
      have "tables_ok z (insert (k, unat i) A) pl tab (kmem s)" using inv
        unfolding vm_inv_def tables_ok_def by (auto split: option.splits)
      then show ?thesis using inv b(2,3) that unfolding vm_inv_def by (auto simp: zone_pages_def)
    qed
    have "alloc_pages k s = Inr (zone_start s + sizeof_page * i, s\<lparr>bzone := b'\<rparr>)"
      by (simp add: alloc_pages_def b(1))
    then have "alloc_pages k s = Inr (zone_start s + sizeof_page * i, s\<lparr>bzone := b'\<rparr>) \<and>
       z + unat i + 2 ^ k \<le> 32768 \<and>
       zone_start s + sizeof_page * i \<noteq> 0 \<and> same_layout s (s\<lparr>bzone := b'\<rparr>) \<and> kmem (s\<lparr>bzone := b'\<rparr>) = kmem s \<and>
       (\<forall>m'. ttbr_phys m' = ttbr_phys m \<longrightarrow> pt2_ptr m' = pt2_ptr m \<longrightarrow>
          vm_inv z (insert (k, unat i) A) pl tab (s\<lparr>bzone := b'\<rparr>) m')"
      using fit zone_page_nonzero [OF z(2) zi z(4,5)] vm b(3) by (simp add: same_layout_def)
    then show ?thesis by blast
  qed (simp add: alloc_pages_def)
qed

lemma set_break_fresh:
  assumes inv: "vm_inv z A pl tab s m" and h: "heap_e m = 0" "data_e m = 0"
    and b: "0 < unat bytes" "unat bytes \<le> 536870912"
  shows "set_break bytes m cnt s = Inl (Panic ''Buddy allocator out of memory'') \<or>
    (\<exists>r m' cnt' s' k q. set_break bytes m cnt s = Inr (r, m', cnt', s') \<and>
       unat bytes \<le> 4096 * 2 ^ k \<and> unat r = 4 * (4096 * 2 ^ k) \<and> heap_e m' = r \<and> heap_s m' = 0 \<and>
       (\<forall>u. unat u < 2147483648 \<longrightarrow> translate s' m' u = mapped 0 (2 ^ k) q (translate s m) u))"
proof -
  obtain k where k: "k \<le> 17" "pages_to_order (align_up bytes 4096 div 4096) = k" "unat bytes \<le> 4096 * 2 ^ k"
    using break_pages [OF b] by blast
  define m1 where "m1 = m\<lparr>heap_s := 0, heap_e := 0\<rparr>"
  have nz: "bytes \<noteq> 0" using b(1) by auto
  have m1: "(if heap_e m = 0 then m\<lparr>heap_s := data_e m, heap_e := data_e m\<rparr> else m) = m1"
    using h by (simp add: m1_def)
  have k17: "(2 :: nat) ^ k \<le> 2 ^ 17" using k(1) by (intro power_increasing) auto
  have pg: "unat (push_bit k 1 :: u32) = 2 ^ k" using k(1) by (intro unat_push_bit_1) simp
  from add_block_step [OF inv, of k] show ?thesis
  proof (elim disjE exE conjE)
    assume "alloc_pages k s = Inl (Panic ''Buddy allocator out of memory'')"
    then show ?thesis unfolding set_break_def Let_def m1 using nz k(2) by simp
  next
    fix i :: u32 and s1
    assume a: "alloc_pages k s = Inr (zone_start s + sizeof_page * i, s1)" "z + unat i + 2 ^ k \<le> 32768"
      "zone_start s + sizeof_page * i \<noteq> 0" "same_layout s s1" "kmem s1 = kmem s"
      "\<forall>m'. ttbr_phys m' = ttbr_phys m \<longrightarrow> pt2_ptr m' = pt2_ptr m \<longrightarrow>
          vm_inv z (insert (k, unat i) A) pl tab s1 m'"
    define page where "page = zone_start s + sizeof_page * i"
    define m2 where "m2 = fst (curr_thread_add_pages page (push_bit k 1) m1 cnt)"
    define c2 where "c2 = snd (curr_thread_add_pages page (push_bit k 1) m1 cnt)"
    have cs: "curr_thread_add_pages page (push_bit k 1) m1 cnt = (m2, c2)" by (simp add: m2_def c2_def)
    have f: "ttbr_phys m2 = ttbr_phys m" "pt2_ptr m2 = pt2_ptr m" "heap_e m2 = 0" "heap_s m2 = 0"
      by (simp_all add: m2_def m1_def curr_thread_add_pages_def mm_process_add_page_def)
    have inv2: "vm_inv z (insert (k, unat i) A) pl tab s1 m2" using a(6) f by simp
    have tr: "translate s1 m2 u = translate s m u" for u using a(5) f by (simp add: translate_def)
    have zs: "zone_start s = page_array s + 16 * of_nat z" using inv unfolding vm_inv_def by blast
    have pa: "page = page_array s1 + 16 * of_nat (z + unat i)"
      using a(4) zs by (simp add: page_def same_layout_def sizeof_page_def algebra_simps)
    have al: "(0 :: u32) AND 0xFFF = 0" by simp
    have ov: "unat (0 :: u32) + 4096 * 2 ^ k \<le> 2147483648" using k17 by simp
    have dm: "pa_domain user_attr < 16" by (simp add: user_attr_def)
    have mm: "mm_map_in_pages m2 page (push_bit k 1) 0 user_attr s1 =
        map_pages_loop (2 ^ k) (of_nat (kva z pl)) page 0 user_attr m2 s1"
      unfolding mm_map_in_pages_def pg ttbr_virt [OF inv2] by simp
    have sb: "set_break bytes m cnt s = res_bind (mm_map_in_pages m2 page (push_bit k 1) 0 user_attr s1)
        (\<lambda>(ok, m3, s3). res_bind (assert_that ok) (\<lambda>_.
              let m4 = m3\<lparr>heap_e := heap_e m3 + 4 * (4096 * push_bit k 1)\<rparr> in Inr (heap_e m4, m4, c2, s3)))"
      unfolding set_break_def Let_def m1 k(2) using nz a(1,3) f(3)
      by (simp add: page_def [symmetric] cs del: push_bit_of_1)
    have r: "unat (4 * (4096 * push_bit k 1) :: u32) = 4 * (4096 * 2 ^ k)"
    proof -
      have "(4 * (4096 * push_bit k 1) :: u32) = of_nat (4 * (4096 * 2 ^ k))" by (simp add: push_bit_of_1)
      moreover have "4 * (4096 * (2 :: nat) ^ k) < 4294967296" using k17 by simp
      ultimately show ?thesis by (simp only: unat_of_nat) simp
    qed
    from map_loop_correct [OF inv2, of 0 "2 ^ k" page "z + unat i" user_attr, OF al ov pa a(2) dm] show ?thesis
    proof (elim disjE exE conjE)
      assume "map_pages_loop (2 ^ k) (of_nat (kva z pl)) page 0 user_attr m2 s1 =
        Inl (Panic ''Buddy allocator out of memory'')"
      then show ?thesis unfolding sb mm by simp
    next
      fix m' s' A' tab'
      assume l: "map_pages_loop (2 ^ k) (of_nat (kva z pl)) page 0 user_attr m2 s1 = Inr (True, m', s')"
        "same_regions m2 m'"
        "\<forall>u. unat u < 2147483648 \<longrightarrow> translate s' m' u = mapped 0 (2 ^ k) (z + unat i) (translate s1 m2) u"
      define m4 where "m4 = m'\<lparr>heap_e := heap_e m' + 4 * (4096 * push_bit k 1)\<rparr>"
      have he: "heap_e m' = 0" "heap_s m' = 0" using same_regions_fields [OF l(2)] f by simp_all
      have "set_break bytes m cnt s = Inr (heap_e m4, m4, c2, s')" unfolding sb mm l(1) by (simp add: m4_def)
      moreover have "unat (heap_e m4) = 4 * (4096 * 2 ^ k)" using r he(1) by (simp add: m4_def)
      moreover have "heap_s m4 = 0" using he by (simp add: m4_def)
      moreover have "\<forall>u. unat u < 2147483648 \<longrightarrow> translate s' m4 u = mapped 0 (2 ^ k) (z + unat i) (translate s m) u"
        using l(3) tr by (simp add: translate_def m4_def mapped_def)
      ultimately show ?thesis using k(3) by blast
    qed
  qed
qed

subsection \<open>Decoding a small page entry\<close>

definition pte_accesses :: "pte_access list" where
  "pte_accesses = [PTE_ACCESS_NO_ACC, PTE_ACCESS_PRIV_ACC, PTE_ACCESS_NO_USR_WRITE, PTE_ACCESS_FULL_ACC,
     PTE_ACCESS_PRIV_READ, PTE_ACCESS_READ]"

definition pte_mems :: "pte_mem list" where
  "pte_mems = [PTE_MEM_STRONGLY_ORDERD, PTE_MEM_SHARABLE, PTE_MEM_WRITE_THROUGH, PTE_MEM_WRITE_BACK,
     PTE_MEM_NON_CACHE, PTE_MEM_NON_SHAREABLE]"

definition pte_decode :: "u32 \<Rightarrow> pte_access option \<times> pte_mem option \<times> bool \<times> bool \<times> u32" where
  "pte_decode w = (find (\<lambda>a. pte_access_bits a = w AND 0x230) pte_accesses,
     find (\<lambda>t. pte_mem_bits t = w AND 0x1CC) pte_mems, bit w 0, bit w 11, w AND 0xFFFFF000)"

definition pte_flags :: "pte_attr \<Rightarrow> u32" where
  "pte_flags attr = pte_access_bits (pa_access attr) OR pte_mem_bits (pa_mem attr) OR PTE_MASK OR
    (if pa_xn attr then PTE_XN else 0) OR (if pa_nG attr then PTE_nG else 0)"

lemma pte_flags_split:
  assumes "phys AND 0xFFF = 0"
  shows "mm_get_pte phys attr = pte_flags attr OR phys"
proof -
  note low = low_bits_clear [OF assms [unfolded mask_consts]]
  have base: "PTE_BASE phys = phys" unfolding PTE_BASE_def mask_consts
    by (rule word32_eqI) (use low in \<open>auto simp: bit_and_iff bit_not_iff\<close>)
  show ?thesis unfolding mm_get_pte_def Let_def base pte_flags_def by (simp add: or.assoc)
qed

lemma pte_flags_fields:
  "pte_flags attr AND 0x230 = pte_access_bits (pa_access attr)"
  "pte_flags attr AND 0x1CC = pte_mem_bits (pa_mem attr)"
  "bit (pte_flags attr) 0 \<longleftrightarrow> pa_xn attr" "bit (pte_flags attr) 11 \<longleftrightarrow> pa_nG attr"
  by (cases "pa_access attr"; cases "pa_mem attr"; cases "pa_xn attr"; cases "pa_nG attr";
      simp add: pte_flags_def PTE_MASK_def PTE_XN_def PTE_nG_def bit_numeral_rec)+

lemma small_mask: "(k :: u32) AND NOT (mask 12) = 0 \<Longrightarrow> phys AND mask 12 = 0 \<Longrightarrow> (f OR phys) AND k = f AND k"
proof (rule word32_eqI)
  fix n :: nat
  assume k: "k AND NOT (mask 12) = 0" and p: "phys AND mask 12 = 0" and n: "n < 32"
  have "\<not> bit k n \<or> n < 12"
  proof (rule ccontr)
    assume "\<not> ?thesis"
    then have "bit (k AND NOT (mask 12)) n" using n by (simp add: bit_and_iff bit_not_iff)
    then show False using k by simp
  qed
  then show "bit ((f OR phys) AND k) n = bit (f AND k) n"
    using low_bits_clear [OF p] by (auto simp: bit_and_iff bit_or_iff)
qed

subsection \<open>Properties\<close>

text \<open>C18. \<^verbatim>\<open>mm_map_in_pages\<close> implements a virtual memory: on a consistent set of tables, with the
  memory taken from the page allocator on the way, it either panics because no page is left or
  succeeds, keeps the tables consistent and the regions of the process, and then the translation
  the hardware does sends every address of the \<open>pcnt\<close> pages from \<open>virt_addr\<close> to the same offset
  of the given physical pages and every other user address to where it went before.\<close>

theorem mm_map_in_pages_correct:
  assumes "vm_inv z A pl tab s m" and "virt_addr AND 0xFFF = 0"
    and "unat virt_addr + 4096 * unat pcnt \<le> 2147483648" and "page = page_array s + sizeof_page * of_nat q"
    and "q + unat pcnt \<le> 32768" and "pa_domain attr < 16"
  shows "mm_map_in_pages m page pcnt virt_addr attr s = Inl (Panic ''Buddy allocator out of memory'') \<or>
    (\<exists>m' s' A' tab'. mm_map_in_pages m page pcnt virt_addr attr s = Inr (True, m', s') \<and>
       vm_inv z A' pl tab' s' m' \<and> A \<subseteq> A' \<and> same_regions m m' \<and>
       (\<forall>u. unat u < 2147483648 \<longrightarrow>
          translate s' m' u = mapped virt_addr (unat pcnt) q (translate s m) u))"
proof -
  have p: "page = page_array s + 16 * of_nat q" using assms(4) by (simp add: sizeof_page_def)
  have e: "mm_map_in_pages m page pcnt virt_addr attr s =
      map_pages_loop (unat pcnt) (of_nat (kva z pl)) page virt_addr attr m s"
    unfolding mm_map_in_pages_def ttbr_virt [OF assms(1)] using assms(2) by simp
  show ?thesis unfolding e using map_loop_correct [OF assms(1-3) p assms(5,6)] by blast
qed

definition vm_zone :: buddy where
  "vm_zone = (case buddy_alloc_pages 1 zone4 of Inr (_, b) \<Rightarrow> b | Inl _ \<Rightarrow> zone4)"

definition vm_sys :: mm_sys where
  "vm_sys = \<lparr>kmem = \<lambda>_. 0, page_array = 0x80001000,
     heap = \<lparr>start_addr = 0, end_addr = 0, stat_used = 0, stat_total = 0, first_node = 0, last_node = 0,
       zone_page_cnt = 0, nodes = \<lambda>_. \<lparr>nsize = 0, nnext = 0\<rparr>\<rparr>,
     bzone = vm_zone, zone_start = 0x80001000 + 16 * 100, boot_alloc_en = False, boot_alloc_ptr = 0,
     cache_pos = 0, cache_end = 0, cache_enabled = False\<rparr>"

definition vm_map :: mmap where
  "vm_map = (mm_process_init \<lparr>ttbr_phys = 0x20064000, data_s = 0, data_e = 0, heap_s = 0, heap_e = 0,
     stack_s = 0, stack_e = 0, page_list = [], mmap_page_cnt = 0, pt2_ptr = 0\<rparr>)"

lemma vm_zone_alloc: "buddy_alloc_pages 1 zone4 = Inr (0, vm_zone)"
  by (simp add: vm_zone_def zone4_def buddy_alloc_pages_def toggle_map_def toggle_bit_def get_parent_bit_def
      add_free_def)

lemma vm_zone_inv: "alloc_inv vm_zone {(1, 0)}" and vm_zone_orders: "max_orders vm_zone = 3"
proof -
  have "(2, 0) \<in> free_blocks zone4" by (auto simp: free_blocks_iff zone4_def)
  from alloc_pages_inv [OF zone4_inv, of 1 2 0, OF _ this] vm_zone_alloc
  show "alloc_inv vm_zone {(1, 0)}" "max_orders vm_zone = 3" by (auto simp: zone4_def)
qed

lemma vm_zone_free: "(1, 2) \<in> free_blocks vm_zone"
  by (simp add: vm_zone_def zone4_def buddy_alloc_pages_def toggle_map_def toggle_bit_def get_parent_bit_def
      add_free_def free_blocks_iff)

lemma vm_start: "vm_inv 100 {(1, 0)} 0 (\<lambda>_. None) vm_sys vm_map"
proof -
  have "tables_ok 100 {(1, 0)} 0 (\<lambda>_. None) (kmem vm_sys)"
    by (simp add: tables_ok_def vm_sys_def ldn_def load_word_def)
  then show ?thesis using vm_zone_inv vm_zone_orders
    by (simp add: vm_inv_def vm_sys_def vm_map_def mm_process_init_def kva_def zone_pages_def)
qed

lemma vm_start_alloc: "\<exists>r. alloc_pages 0 vm_sys = Inr r"
proof -
  have "\<exists>p z'. buddy_alloc_pages 0 vm_zone = Inr (p, z')"
    using alloc_pages_inv [OF vm_zone_inv _ vm_zone_free, of 0] by auto
  then show ?thesis by (auto simp: alloc_pages_def vm_sys_def)
qed

text \<open>A single page needs a single table at most, so the mapping fails for want of memory only if that does.\<close>

lemma map_one_page:
  assumes "alloc_pages 0 s = Inr r"
  shows "map_pages_loop 1 l1 page va attr m s \<noteq> Inl (Panic e)"
  using assms unfolding One_nat_def map_pages_loop.simps
  by (cases r) (auto simp: res_bind_Inl_iff mm_get_l2_pt_def lv2_pt_alloc_def mm_map_in_pt_def mm_get_ste_ptr_def
      mm_map_in_page_unsafe_def assert_that_def Let_def split: if_splits option.splits prod.splits)

theorem mm_map_in_pages_correct_witness:
  "\<exists>m' s'. mm_map_in_pages vm_map (page_array vm_sys + sizeof_page * of_nat 5) 1 0x100000 user_attr vm_sys =
       Inr (True, m', s') \<and> translate s' m' 0x100234 = Some 0x20005234 \<and>
     translate s' m' 0x101234 = translate vm_sys vm_map 0x101234"
proof -
  let ?r = "mm_map_in_pages vm_map (page_array vm_sys + sizeof_page * of_nat 5) 1 0x100000 user_attr vm_sys"
  have hyps: "(0x100000 :: u32) AND 0xFFF = 0" "unat (0x100000 :: u32) + 4096 * unat (1 :: u32) \<le> 2147483648"
    "5 + unat (1 :: u32) \<le> 32768" "pa_domain user_attr < 16" by (simp_all add: user_attr_def)
  obtain x where x: "alloc_pages 0 vm_sys = Inr x" using vm_start_alloc by blast
  have no: "?r \<noteq> Inl (Panic e)" for e
    unfolding mm_map_in_pages_def hyps(1) simp_thms assert_that_simps res_bind.simps unat_1
    by (rule map_one_page [OF x])
  from mm_map_in_pages_correct [OF vm_start hyps(1,2) refl hyps(3,4)] no
  obtain m' s' where r: "?r = Inr (True, m', s')"
    and t: "\<forall>u. unat u < 2147483648 \<longrightarrow>
      translate s' m' u = mapped 0x100000 (unat (1 :: u32)) 5 (translate vm_sys vm_map) u"
    by blast
  have "translate s' m' 0x100234 = mapped 0x100000 (unat (1 :: u32)) 5 (translate vm_sys vm_map) 0x100234"
    "translate s' m' 0x101234 = mapped 0x100000 (unat (1 :: u32)) 5 (translate vm_sys vm_map) 0x101234"
    using t by simp_all
  moreover have "phys_of 5 OR (0x100234 AND 0xFFF) = 0x20005234" by (simp add: phys_of_def)
  ultimately show ?thesis using r by (simp add: mapped_def)
qed



text \<open>The entry \<^verbatim>\<open>mm_get_pte\<close> builds for a page is decoded back to the page and to the access
  rights, the memory type and the two flags it was built from.\<close>

theorem mm_get_pte_decodes:
  assumes "phys_addr AND 0xFFF = 0"
  shows "pte_decode (mm_get_pte phys_addr attr) =
    (Some (pa_access attr), Some (pa_mem attr), pa_xn attr, pa_nG attr, phys_addr)"
proof -
  note low = low_bits_clear [OF assms [unfolded mask_consts]]
  have k: "(0x230 :: u32) AND NOT (mask 12) = 0" "(0x1CC :: u32) AND NOT (mask 12) = 0"
    by (simp_all add: mask_eq_exp_minus_1)
  have "find (\<lambda>a. pte_access_bits a = pte_access_bits (pa_access attr)) pte_accesses = Some (pa_access attr)"
    by (cases "pa_access attr") (simp_all add: pte_accesses_def)
  moreover have "find (\<lambda>a. pte_mem_bits a = pte_mem_bits (pa_mem attr)) pte_mems = Some (pa_mem attr)"
    by (cases "pa_mem attr") (simp_all add: pte_mems_def)
  moreover have "\<not> bit phys_addr 0" "\<not> bit phys_addr 11" using low by simp_all
  ultimately show ?thesis
    using pte_bits(1) [OF assms, of attr] small_mask [OF k(1) assms [unfolded mask_consts]]
      small_mask [OF k(2) assms [unfolded mask_consts]]
    unfolding pte_decode_def pte_flags_split [OF assms] by (simp only: bit_or_iff pte_flags_fields) simp
qed

theorem mm_get_pte_decodes_witness:
  "fst (pte_decode (mm_get_pte 0x20005000 user_attr)) = Some PTE_ACCESS_FULL_ACC"
proof -
  have "(0x20005000 :: u32) AND 0xFFF = 0" by simp
  from mm_get_pte_decodes [OF this, of user_attr] show ?thesis by (simp add: user_attr_def)
qed

end
