(* ===== verification/Thread.thy ===== *)
theory Thread
  imports PageTables Sched Pid
begin

text \<open>
  \<^verbatim>\<open>kernel/thread.c\<close>, \<^verbatim>\<open>kernel/process.c\<close> and \<^verbatim>\<open>kernel/syscall.c\<close>: the creation of threads and
  processes on top of the memory manager, the scheduler and the pid allocator, and the
  supervisor call that reaches them. A thread is the address of its control block; the fields
  the scheduler uses are those of \<^verbatim>\<open>Sched\<close>, the others stand in \<open>tcbs\<close>, and the memory maps the
  control blocks point to in \<open>mmaps\<close>. Stacks lie in memory.
\<close>

subsection \<open>Definitions\<close>

record tcb =
  tb_stack :: u32
  tb_stack_base :: u32
  tb_mmap :: u32
  tb_page_cnt :: u32
  tb_name :: "u8 list"
  tb_process :: u32
  tb_group :: "tid list"

record kernel =
  k_mm :: mm_sys
  k_rq :: rq
  k_pids :: pid_table
  tcbs :: "tid \<Rightarrow> tcb"
  mmaps :: "u32 \<Rightarrow> mmap"

definition THREAD_MAX_NAME :: nat where "THREAD_MAX_NAME = 32"
definition USER_THREAD_CPSR :: u32 where "USER_THREAD_CPSR = 0x10"
definition KERNEL_THREAD_CPSR :: u32 where "KERNEL_THREAD_CPSR = 0x1F"
definition sizeof_thread :: u32 where "sizeof_thread = 240"
definition sizeof_mmap :: u32 where "sizeof_mmap = 44"

definition set_tcb :: "tid \<Rightarrow> (tcb \<Rightarrow> tcb) \<Rightarrow> kernel \<Rightarrow> kernel" where
  "set_tcb t f k = k\<lparr>tcbs := (tcbs k)(t := f (tcbs k t))\<rparr>"

definition set_thread :: "tid \<Rightarrow> (thread \<Rightarrow> thread) \<Rightarrow> kernel \<Rightarrow> kernel" where
  "set_thread t f k = k\<lparr>k_rq := (k_rq k)\<lparr>threads := (threads (k_rq k))(t := f (threads (k_rq k) t))\<rparr>\<rparr>"

text \<open>The assignments \<^verbatim>\<open>*sp-- = v\<close>.\<close>

fun push_words :: "u32 list \<Rightarrow> u32 \<Rightarrow> mem \<Rightarrow> u32 \<times> mem" where
  "push_words [] sp m = (sp, m)"
| "push_words (v # vs) sp m = push_words vs (sp - 4) (store_word sp v m)"

definition stack_setup :: "u32 \<Rightarrow> u32 \<Rightarrow> u32 \<Rightarrow> u32 \<Rightarrow> u32 \<Rightarrow> mem \<Rightarrow> u32 \<times> mem" where
  "stack_setup thread_exit sp func args cpsr m =
     (case push_words [cpsr, func, 0x12121212, 0x03030303, 0x02020202, 0x01010101, args, thread_exit, 0,
            0x11111111, 0x10101010, 0x09090909, 0x08080808, 0x07070707, 0x06060606, 0x05050505] (sp - 4) m of
        (sp', m') \<Rightarrow> (sp', store_word sp' 0x04040404 m'))"

text \<open>A fresh control block: \<^verbatim>\<open>kzmalloc\<close> has zeroed it, its list nodes are unlinked.\<close>

definition init_thread_struct :: "tid \<Rightarrow> kernel \<Rightarrow> kernel" where
  "init_thread_struct t k =
     set_tcb t (\<lambda>_. \<lparr>tb_stack = 0, tb_stack_base = 0, tb_mmap = 0, tb_page_cnt = 0,
         tb_name = replicate THREAD_MAX_NAME 0, tb_process = 0, tb_group = []\<rparr>)
       (set_thread t (\<lambda>_. \<lparr>t_wake = 0, t_runtime = 0, t_last_runtime = 0, t_state = THREAD_RUNNING,
         t_class = None, t_grouped = False, t_pid = 0\<rparr>) k)"

fun name_chars :: "nat \<Rightarrow> u32 \<Rightarrow> mem \<Rightarrow> u8 list" where
  "name_chars 0 name m = []"
| "name_chars (Suc n) name m = (if m name \<noteq> 0 then m name # name_chars n (name + 1) m else [])"

definition thread_set_name :: "tid \<Rightarrow> u32 \<Rightarrow> kernel \<Rightarrow> kernel" where
  "thread_set_name t name k =
     (let cs = name_chars (THREAD_MAX_NAME - 1) name (kmem (k_mm k)) in
      set_tcb t (\<lambda>b. b\<lparr>tb_name := cs @ [0] @ drop (length cs + 1) (tb_name b)\<rparr>) k)"

definition thread_set_sched_class :: "tid \<Rightarrow> u32 \<Rightarrow> kernel \<Rightarrow> kernel res" where
  "thread_set_sched_class t flags k =
     res_bind (get_sched_class (flags AND 7)) (\<lambda>c. Inr (set_thread t (\<lambda>th. th\<lparr>t_class := Some c\<rparr>) k))"

definition start_thread :: "tid \<Rightarrow> u32 \<Rightarrow> kernel \<Rightarrow> kernel res" where
  "start_thread t flags k =
     res_bind (thread_set_sched_class t flags (k\<lparr>k_rq := sched_add_thread t (k_rq k)\<rparr>)) (\<lambda>k1.
     res_bind (sched_enqueue_thread t (k_rq k1)) (\<lambda>rq'. Inr (k1\<lparr>k_rq := rq'\<rparr>)))"

definition kzmalloc_k :: "u32 \<Rightarrow> kernel \<Rightarrow> (u32 \<times> kernel) res" where
  "kzmalloc_k sz k = res_bind (kzmalloc sz (k_mm k)) (\<lambda>(p, mm'). Inr (p, k\<lparr>k_mm := mm'\<rparr>))"

text \<open>\<open>0\<close> is the null pointer returned when no pid is left; \<open>te\<close> is the address of \<^verbatim>\<open>thread_exit\<close>.\<close>

definition create_kthread :: "u32 \<Rightarrow> u32 \<Rightarrow> u32 \<Rightarrow> u32 \<Rightarrow> u32 \<Rightarrow> u32 \<Rightarrow> kernel \<Rightarrow> (tid \<times> kernel) res" where
  "create_kthread te func stack_words name args flags k =
     res_bind (kzmalloc_k (align_up (sizeof_thread + stack_words * 4) 8) k) (\<lambda>(t, k1).
     let k2 = thread_set_name t name (init_thread_struct t k1) in
     res_bind (alloc_pid (k_pids k2)) (\<lambda>(r, pids).
       case r of
         None \<Rightarrow> Inr (0, k2\<lparr>k_pids := pids\<rparr>)
       | Some pid \<Rightarrow>
           let base = align_up_ptr (t + sizeof_thread) 8;
               k3 = set_thread t (\<lambda>th. th\<lparr>t_pid := pid\<rparr>) (k2\<lparr>k_pids := pids\<rparr>);
               (sp, m') = stack_setup te (base + 4 * stack_words - 4) func args KERNEL_THREAD_CPSR (kmem (k_mm k3));
               k4 = set_tcb t (\<lambda>b. b\<lparr>tb_stack_base := base, tb_stack := sp\<rparr>)
                      (k3\<lparr>k_mm := (k_mm k3)\<lparr>kmem := m'\<rparr>\<rparr>) in
           res_bind (start_thread t flags k4) (\<lambda>k5. Inr (t, k5))))"

definition create_user_thread_core :: "u32 \<Rightarrow> tid \<Rightarrow> u32 \<Rightarrow> u32 \<Rightarrow> u32 \<Rightarrow> u32 \<Rightarrow> u32 \<Rightarrow> kernel \<Rightarrow> kernel res" where
  "create_user_thread_core te t func stack_words name args flags k =
     res_bind (assert_that (tb_mmap (tcbs k t) \<noteq> 0)) (\<lambda>_.
     let k1 = thread_set_name t name k;
         ma = tb_mmap (tcbs k1 t);
         stack_order = pages_to_order (align_up_ptr stack_words 4096 div 4096);
         pgs = push_bit stack_order 1 in
     res_bind (alloc_pages stack_order (k_mm k1)) (\<lambda>(page, mm1).
     let m1 = mm_process_add_page page (mmaps k1 ma);
         m2 = m1\<lparr>stack_e := stack_e m1 - 4 * (pgs * (4096 div 4))\<rparr> in
     res_bind (mm_map_in_pages m2 page pgs (stack_e m2) user_attr mm1) (\<lambda>(status, m3, mm3).
     res_bind (assert_that status) (\<lambda>_.
     let sp_kern = page_to_va mm3 page;
         (sp, mem') = stack_setup te (sp_kern + 4 * (pgs * 1024 - 1)) func args USER_THREAD_CPSR (kmem mm3);
         k2 = set_tcb t (\<lambda>b. b\<lparr>tb_stack := stack_e m3 + (sp - sp_kern)\<rparr>)
                (k1\<lparr>k_mm := mm3\<lparr>kmem := mem'\<rparr>, mmaps := (mmaps k1)(ma := m3)\<rparr>) in
     start_thread t flags k2))))"

text \<open>The routine returns \<^verbatim>\<open>NULL\<close> always and the new thread has no pid.\<close>

definition create_thread :: "u32 \<Rightarrow> u32 \<Rightarrow> u32 \<Rightarrow> u32 \<Rightarrow> u32 \<Rightarrow> u32 \<Rightarrow> kernel \<Rightarrow> (tid \<times> kernel) res" where
  "create_thread te func stack_words name args flags k =
     res_bind (kzmalloc_k sizeof_thread k) (\<lambda>(t, k1).
     let k2 = init_thread_struct t k1; parent = get_curr_thread (k_rq k2) in
     if parent = 0 then Inl NullPointer
     else
       let k3 = set_tcb t (\<lambda>b. b\<lparr>tb_mmap := tb_mmap (tcbs k2 parent), tb_process := parent\<rparr>) k2;
           k4 = set_tcb parent (\<lambda>b. b\<lparr>tb_group := t # tb_group b\<rparr>)
                  (set_thread t (\<lambda>th. th\<lparr>t_grouped := True\<rparr>) k3) in
       res_bind (create_user_thread_core te t func stack_words name args flags k4) (\<lambda>k5. Inr (0, k5)))"

definition process_mm_init :: "tid \<Rightarrow> kernel \<Rightarrow> kernel res" where
  "process_mm_init t k =
     res_bind (kzmalloc_k sizeof_mmap k) (\<lambda>(ma, k1).
     let m0 = mm_process_init \<lparr>ttbr_phys = 0, data_s = 0, data_e = 0, heap_s = 0, heap_e = 0, stack_s = 0,
                stack_e = 0, page_list = [], mmap_page_cnt = 0, pt2_ptr = 0\<rparr>;
         k2 = set_tcb t (\<lambda>b. b\<lparr>tb_mmap := ma\<rparr>) k1 in
     res_bind (lv1_pt_alloc (k_mm k2)) (\<lambda>(lv1, mm').
       Inr (k2\<lparr>k_mm := mm', mmaps := (mmaps k2)(ma :=
              (mm_process_add_page lv1 m0)\<lparr>ttbr_phys := page_to_pa mm' lv1\<rparr>)\<rparr>)))"

definition create_process :: "u32 \<Rightarrow> u32 \<Rightarrow> u32 \<Rightarrow> u32 \<Rightarrow> u32 \<Rightarrow> u32 \<Rightarrow> kernel \<Rightarrow> (tid \<times> kernel) res" where
  "create_process te func stack_words name args flags k =
     res_bind (kzmalloc_k sizeof_thread k) (\<lambda>(t, k1).
     res_bind (process_mm_init t (init_thread_struct t k1)) (\<lambda>k2.
     res_bind (create_user_thread_core te t func stack_words name args flags k2) (\<lambda>k3.
       Inr (t, set_tcb t (\<lambda>b. b\<lparr>tb_process := t, tb_group := []\<rparr>)
                 (set_thread t (\<lambda>th. th\<lparr>t_grouped := True\<rparr>) k3)))))"

text \<open>\<^verbatim>\<open>data_s\<close> is a pointer to words.\<close>

definition map_in_code :: "u32 \<Rightarrow> u32 \<Rightarrow> tid \<Rightarrow> kernel \<Rightarrow> kernel res" where
  "map_in_code code_page pgs t k =
     (let ma = tb_mmap (tcbs k t); m = mmaps k ma; m1 = m\<lparr>data_s := data_s m + 4 * (pgs * 4096)\<rparr> in
      res_bind (mm_map_in_pages m1 code_page pgs 0x00100000 user_attr (k_mm k)) (\<lambda>(status, m2, mm').
      res_bind (assert_that status) (\<lambda>_. Inr (k\<lparr>k_mm := mm', mmaps := (mmaps k)(ma := m2)\<rparr>))))"

text \<open>\<^verbatim>\<open>set_break\<close> for the current thread and its memory map.\<close>

definition sys_set_break :: "u32 \<Rightarrow> kernel \<Rightarrow> (u32 \<times> kernel) res" where
  "sys_set_break bytes k =
     (let t = get_curr_thread (k_rq k); b = tcbs k t; ma = tb_mmap b in
      if t = 0 \<or> ma = 0 then Inl NullPointer
      else res_bind (set_break bytes (mmaps k ma) (tb_page_cnt b) (k_mm k)) (\<lambda>(r, m', cnt, mm').
        Inr (r, set_tcb t (\<lambda>b. b\<lparr>tb_page_cnt := cnt\<rparr>)
                  (k\<lparr>k_mm := mm', mmaps := (mmaps k)(ma := m')\<rparr>))))"

definition SYSCALL_SLEEP :: u8 where "SYSCALL_SLEEP = 0"
definition SYSCALL_CREATE_THREAD :: u8 where "SYSCALL_CREATE_THREAD = 1"
definition SYSCALL_SBRK :: u8 where "SYSCALL_SBRK = 2"
definition SYSCALL_KILL :: u8 where "SYSCALL_KILL = 3"

text \<open>The number in the instruction at four bytes before the return address selects the call.\<close>

definition supervisor_exception :: "u32 \<Rightarrow> u32 \<Rightarrow> u32 \<Rightarrow> kernel \<Rightarrow> kernel res" where
  "supervisor_exception te timer_us sp0 k =
     (let m = kmem (k_mm k);
          sp = (if load_word m sp0 \<noteq> 0 then sp0 + 12 else sp0 + 8);
          svc_num = m (load_word m (sp + 20) - 4);
          svc0 = load_word m sp; svc1 = load_word m (sp + 4);
          svc2 = load_word m (sp + 8); svc3 = load_word m (sp + 12);
          ret = (\<lambda>v k'. k'\<lparr>k_mm := (k_mm k')\<lparr>kmem := store_word sp v (kmem (k_mm k'))\<rparr>\<rparr>) in
      if svc_num = SYSCALL_SLEEP then
        res_bind (sched_thread_sleep svc0 timer_us (k_rq k)) (\<lambda>rq'. Inr (k\<lparr>k_rq := rq'\<rparr>))
      else if svc_num = SYSCALL_CREATE_THREAD then
        res_bind (create_thread te svc0 svc1 svc2 svc3 (load_word m (sp + 28)) k) (\<lambda>(t, k'). Inr (ret t k'))
      else if svc_num = SYSCALL_SBRK then
        res_bind (sys_set_break svc0 k) (\<lambda>(r, k'). Inr (ret r k'))
      else Inr k)"

text \<open>
  The registers a thread starts with: what \<^verbatim>\<open>sched_start\<close> and the interrupt return pop off the
  stack a new thread is given (\<^verbatim>\<open>arch/sched.s\<close>).
\<close>

record start_regs =
  reg_r0 :: u32
  reg_lr :: u32
  reg_pc :: u32
  reg_cpsr :: u32
  reg_sp :: u32
  reg_saved :: "u32 list"

definition unstack_frame :: "mem \<Rightarrow> u32 \<Rightarrow> start_regs" where
  "unstack_frame m sp =
     (let sp1 = sp + 32; sp2 = sp1 + 4; sp3 = sp2 + 4; sp4 = sp3 + 20 in
      \<lparr>reg_r0 = load_word m sp3, reg_lr = load_word m sp2, reg_pc = load_word m sp4,
       reg_cpsr = load_word m (sp4 + 4), reg_sp = sp4 + 8,
       reg_saved = map (\<lambda>i. load_word m (sp + 4 * of_nat i)) [0..<8]\<rparr>)"


subsection \<open>The first frame of a thread\<close>

lemma load_store_far:
  assumes "4 \<le> unat (q - p)" and "unat (q - p) \<le> 4294967292"
  shows "load_word (store_word p w m) q = load_word m q"
proof -
  have byte: "store_word p w m (q + of_nat k) = m (q + of_nat k)" if k: "k < 4" for k
  proof -
    have kk: "unat (of_nat k :: u32) = k" using k by (simp add: unat_of_nat)
    have "unat (q - p + of_nat k) = unat (q - p) + k"
      using assms(2) k kk by (subst unat_add_u32) simp_all
    moreover have e: "q + of_nat k - p = q - p + of_nat k" by simp
    ultimately show ?thesis using assms(1) unfolding store_word_apply e by simp
  qed
  show ?thesis using byte [of 0] byte [of 1] byte [of 2] byte [of 3] by (simp add: load_word_def)
qed

lemma load_store_same_word: "load_word (store_word p w m) p = w"
  using read_le32_store_word [of p w m] by (simp add: read_le32_load_word)

text \<open>A word of the frame at \<open>b\<close>, after the store of the same word or of another.\<close>

lemma frame_loads:
  fixes b :: u32
  shows "load_word (store_word (j + b) w m) (b + j) = w"
    and "load_word (store_word b w m) b = w"
    and "4 \<le> unat (i - j) \<Longrightarrow> unat (i - j) \<le> 4294967292 \<Longrightarrow>
      load_word (store_word (j + b) w m) (b + i) = load_word m (b + i)"
    and "4 \<le> unat (- j) \<Longrightarrow> unat (- j) \<le> 4294967292 \<Longrightarrow> load_word (store_word (j + b) w m) b = load_word m b"
    and "4 \<le> unat i \<Longrightarrow> unat i \<le> 4294967292 \<Longrightarrow> load_word (store_word b w m) (b + i) = load_word m (b + i)"
  using load_store_same_word [of "b + j"]
  by (simp_all add: load_store_same_word load_store_far add.commute [of j b])

lemma frame_loads2:
  fixes b :: u32
  shows "load_word (store_word (j + b) w m) (j + b) = w"
    and "4 \<le> unat (i - j) \<Longrightarrow> unat (i - j) \<le> 4294967292 \<Longrightarrow>
      load_word (store_word (j + b) w m) (i + b) = load_word m (i + b)"
    and "4 \<le> unat i \<Longrightarrow> unat i \<le> 4294967292 \<Longrightarrow> load_word (store_word b w m) (i + b) = load_word m (i + b)"
  by (simp_all add: load_store_same_word load_store_far)

lemma unstack_stack_setup:
  "unstack_frame (snd (stack_setup te sp func args cpsr m)) (fst (stack_setup te sp func args cpsr m)) =
     \<lparr>reg_r0 = args, reg_lr = te, reg_pc = func, reg_cpsr = cpsr, reg_sp = sp,
      reg_saved = [0x04040404, 0x05050505, 0x06060606, 0x07070707, 0x08080808, 0x09090909, 0x10101010, 0x11111111]\<rparr>"
proof -
  obtain b where sp: "sp = b + 68" by (metis diff_add_cancel)
  have upt8: "[0..<8] = [0, 1, 2, 3, 4, 5, 6, 7]" by (simp add: upt_rec)
  show ?thesis unfolding sp
    by (simp add: stack_setup_def unstack_frame_def Let_def upt8 frame_loads frame_loads2)
qed


subsection \<open>Starting a thread\<close>

definition ready_in :: "sched_class \<Rightarrow> tid \<Rightarrow> rq \<Rightarrow> bool" where
  "ready_in c t rq = (case c of RtClass \<Rightarrow> t \<in> set (rt_queue rq) | FairClass \<Rightarrow> t \<in> set (fair_queue rq)
     | BackClass \<Rightarrow> t \<in> set (back_queue rq) | IdleClass \<Rightarrow> idle_thread rq = t)"

lemma class_enqueue_ready:
  "ready_in c t (class_enqueue c t q)" "threads (class_enqueue c t q) = threads q"
  "thread_list (class_enqueue c t q) = thread_list q"
  by (cases c; simp add: ready_in_def rt_enqueue_def fair_enqueue_def back_enqueue_def idle_enqueue_def)+

lemma start_thread_ok:
  assumes "get_sched_class (flags AND 7) = Inr c"
  shows "\<exists>k'. start_thread t flags k = Inr k' \<and> k_mm k' = k_mm k \<and> k_pids k' = k_pids k \<and> tcbs k' = tcbs k \<and>
    mmaps k' = mmaps k \<and> ready_in c t (k_rq k') \<and> thread_list (k_rq k') = t # thread_list (k_rq k) \<and>
    threads (k_rq k') t = (threads (k_rq k) t)\<lparr>t_class := Some c, t_state := THREAD_RUNNING\<rparr>"
  using assms by (simp add: start_thread_def thread_set_sched_class_def set_thread_def sched_enqueue_thread_def
      sched_add_thread_def set_state_def class_enqueue_ready)

definition first_regs :: "u32 \<Rightarrow> u32 \<Rightarrow> u32 \<Rightarrow> u32 \<Rightarrow> u32 \<Rightarrow> start_regs" where
  "first_regs te func args cpsr sp =
     \<lparr>reg_r0 = args, reg_lr = te, reg_pc = func, reg_cpsr = cpsr, reg_sp = sp,
      reg_saved = [0x04040404, 0x05050505, 0x06060606, 0x07070707, 0x08080808, 0x09090909, 0x10101010, 0x11111111]\<rparr>"

lemma thread_set_name_fields [simp]:
  "k_mm (thread_set_name t n k) = k_mm k" "k_pids (thread_set_name t n k) = k_pids k"
  "k_rq (thread_set_name t n k) = k_rq k" "mmaps (thread_set_name t n k) = mmaps k"
  by (simp_all add: thread_set_name_def set_tcb_def Let_def)

lemma init_thread_struct_fields [simp]:
  "k_mm (init_thread_struct t k) = k_mm k" "k_pids (init_thread_struct t k) = k_pids k"
  "thread_list (k_rq (init_thread_struct t k)) = thread_list (k_rq k)" "mmaps (init_thread_struct t k) = mmaps k"
  by (simp_all add: init_thread_struct_def set_thread_def set_tcb_def)

lemma set_fields [simp]:
  "k_mm (set_tcb t f k) = k_mm k" "k_pids (set_tcb t f k) = k_pids k" "k_rq (set_tcb t f k) = k_rq k"
  "k_mm (set_thread t g k) = k_mm k" "k_pids (set_thread t g k) = k_pids k" "tcbs (set_thread t g k) = tcbs k"
  "thread_list (k_rq (set_thread t g k)) = thread_list (k_rq k)"
  "tcbs (set_tcb t f k) t = f (tcbs k t)" "threads (k_rq (set_thread t g k)) t = g (threads (k_rq k) t)"
  by (simp_all add: set_thread_def set_tcb_def)

lemma create_kthread_no_pid:
  assumes "kzmalloc (align_up (sizeof_thread + stack_words * 4) 8) (k_mm k) = Inr (t, mm1)"
    and "alloc_pid (k_pids k) = Inr (None, pids)"
  shows "\<exists>k'. create_kthread te func stack_words name args flags k = Inr (0, k') \<and> k_mm k' = mm1 \<and>
    thread_list (k_rq k') = thread_list (k_rq k)"
  using assms by (simp add: create_kthread_def kzmalloc_k_def Let_def)

lemma create_kthread_started:
  assumes "kzmalloc (align_up (sizeof_thread + stack_words * 4) 8) (k_mm k) = Inr (t, mm1)"
    and "alloc_pid (k_pids k) = Inr (Some pid, pids)" and "get_sched_class (flags AND 7) = Inr c"
  shows "\<exists>k'. create_kthread te func stack_words name args flags k = Inr (t, k') \<and> k_pids k' = pids \<and>
    t_pid (threads (k_rq k') t) = pid \<and> ready_in c t (k_rq k') \<and>
    thread_list (k_rq k') = t # thread_list (k_rq k) \<and> t_state (threads (k_rq k') t) = THREAD_RUNNING \<and>
    unstack_frame (kmem (k_mm k')) (tb_stack (tcbs k' t)) = first_regs te func args KERNEL_THREAD_CPSR
      (align_up_ptr (t + sizeof_thread) 8 + 4 * stack_words - 4) \<and>
    tb_stack (tcbs k' t) = align_up_ptr (t + sizeof_thread) 8 + 4 * stack_words - 72"
proof -
  define sp0 where "sp0 = align_up_ptr (t + sizeof_thread) 8 + 4 * stack_words - 4"
  define st where "st = stack_setup te sp0 func args KERNEL_THREAD_CPSR (kmem mm1)"
  define k2 where "k2 = thread_set_name t name (init_thread_struct t (k\<lparr>k_mm := mm1\<rparr>))"
  define k4 where "k4 = set_tcb t (\<lambda>b. b\<lparr>tb_stack_base := align_up_ptr (t + sizeof_thread) 8, tb_stack := fst st\<rparr>)
      ((set_thread t (\<lambda>th. th\<lparr>t_pid := pid\<rparr>) (k2\<lparr>k_pids := pids\<rparr>))\<lparr>k_mm := mm1\<lparr>kmem := snd st\<rparr>\<rparr>)"
  have k2: "k_mm k2 = mm1" "k_pids k2 = k_pids k" "thread_list (k_rq k2) = thread_list (k_rq k)"
    by (simp_all add: k2_def)
  have r: "create_kthread te func stack_words name args flags k =
      res_bind (start_thread t flags k4) (\<lambda>k5. Inr (t, k5))"
    using assms(1,2) k2 by (simp add: create_kthread_def kzmalloc_k_def k2_def [symmetric] Let_def
      sp0_def [symmetric] st_def [symmetric] k4_def case_prod_beta)
  have f: "fst st = sp0 - 68" by (simp add: st_def stack_setup_def)
  have u: "unstack_frame (snd st) (fst st) = first_regs te func args KERNEL_THREAD_CPSR sp0"
    unfolding st_def unstack_stack_setup first_regs_def by (rule refl)
  obtain k5 where k5: "start_thread t flags k4 = Inr k5" "k_mm k5 = k_mm k4" "k_pids k5 = k_pids k4"
    "tcbs k5 = tcbs k4" "ready_in c t (k_rq k5)" "thread_list (k_rq k5) = t # thread_list (k_rq k4)"
    "threads (k_rq k5) t = (threads (k_rq k4) t)\<lparr>t_class := Some c, t_state := THREAD_RUNNING\<rparr>"
    using start_thread_ok [OF assms(3)] by blast
  have k4: "k_mm k4 = mm1\<lparr>kmem := snd st\<rparr>" "k_pids k4 = pids" "tb_stack (tcbs k4 t) = fst st"
    "thread_list (k_rq k4) = thread_list (k_rq k)" "t_pid (threads (k_rq k4) t) = pid"
    using k2 by (simp_all add: k4_def set_thread_def)
  show ?thesis unfolding r k5(1) using k5(2-) k4 u f by (simp add: sp0_def)
qed


subsection \<open>Properties\<close>


definition demo_kernel :: kernel where
  "demo_kernel = \<lparr>k_mm = vm_sys\<lparr>heap := demo_heap\<rparr>,
     k_rq = \<lparr>rq_next = 0, rq_curr = 0, lazy_fpu = 0, rt_queue = [], fair_queue = [], back_queue = [],
       idle_thread = 0, thread_list = [], sleep_list = [], time_tick = 0, time_wake = 0, tick_window = 0,
       sched_flag = 1, threads = \<lambda>_. \<lparr>t_wake = 0, t_runtime = 0, t_last_runtime = 0,
         t_state = THREAD_RUNNING, t_class = None, t_grouped = False, t_pid = 0\<rparr>, kfreed = []\<rparr>,
     k_pids = pid_init,
     tcbs = \<lambda>_. \<lparr>tb_stack = 0, tb_stack_base = 0, tb_mmap = 0, tb_page_cnt = 0, tb_name = [],
       tb_process = 0, tb_group = []\<rparr>,
     mmaps = \<lambda>_. vm_map\<rparr>"

lemma demo_kzmalloc: "\<exists>t mm1. kzmalloc 312 (k_mm demo_kernel) = Inr (t, mm1)"
proof -
  have "\<exists>p h. slob_alloc 312 demo_heap = Some (p, h)"
    using slob_alloc_cases [OF demo_init(2), of 312] by (auto split: if_splits)
  then show ?thesis by (auto simp: kzmalloc_def kmalloc_def or_hang_def demo_kernel_def)
qed


end
