(* ===== verification/Bytes.thy ===== *)
theory Bytes
  imports Prelude
begin

text \<open>
  Vocabulary for buffers of bytes, shared by the formatter, the network, the file system and the
  loaders: widening casts, strings as bytes, and the reads and writes of 16 and 32 bit fields in a
  buffer held as a list. The source indexes such buffers without checks, so leaving one is a fault.
\<close>

lemma unat_ucast_up:
  fixes w :: "'a::len word"
  assumes "LENGTH('a) \<le> LENGTH('b::len)"
  shows "unat (ucast w :: 'b word) = unat w"
proof -
  have "unat w < 2 ^ LENGTH('a)" by (rule unsigned_less)
  also have "(2 :: nat) ^ LENGTH('a) \<le> 2 ^ LENGTH('b)" using assms by (intro power_increasing) auto
  finally have "unat w < 2 ^ LENGTH('b)" .
  then show ?thesis by (simp add: unsigned_ucast_eq take_bit_nat_eq_self)
qed

lemma unat_ucast_8_32 [simp]: "unat (ucast (b :: u8) :: u32) = unat b"
  and unat_ucast_8_16 [simp]: "unat (ucast (b :: u8) :: u16) = unat b"
  and unat_ucast_16_32 [simp]: "unat (ucast (h :: u16) :: u32) = unat h"
  and unat_ucast_32_64 [simp]: "unat (ucast (w :: u32) :: u64) = unat w"
  by (simp_all add: unat_ucast_up)

lemma unat_u8_less [simp]: "unat (b :: u8) < 256"
  using unsigned_less [of b, where ?'a = nat] by simp

lemma unat_u16_less [simp]: "unat (h :: u16) < 65536"
  using unsigned_less [of h, where ?'a = nat] by simp

definition str_bytes :: "string \<Rightarrow> u8 list" where
  "str_bytes s = map of_char s"

subsection \<open>Fields of a buffer\<close>

definition slice :: "nat \<Rightarrow> nat \<Rightarrow> 'a list \<Rightarrow> 'a list" where
  "slice off n buf = take n (drop off buf)"

text \<open>Bytes \<open>off\<close> to \<open>off + n\<close> of a buffer, or a fault when they are not in it.\<close>

definition get_bytes :: "u8 list \<Rightarrow> nat \<Rightarrow> nat \<Rightarrow> u8 list res" where
  "get_bytes buf off n = (if off + n \<le> length buf then Inr (slice off n buf) else Inl OutOfBounds)"

definition put_bytes :: "u8 list \<Rightarrow> nat \<Rightarrow> u8 list \<Rightarrow> u8 list res" where
  "put_bytes buf off bs =
     (if off + length bs \<le> length buf then Inr (take off buf @ bs @ drop (off + length bs) buf)
      else Inl OutOfBounds)"

definition be16_of :: "u8 \<Rightarrow> u8 \<Rightarrow> u16" where
  "be16_of a b = push_bit 8 (ucast a) OR ucast b"

definition be32_of :: "u8 \<Rightarrow> u8 \<Rightarrow> u8 \<Rightarrow> u8 \<Rightarrow> u32" where
  "be32_of a b c d =
     push_bit 24 (ucast a) OR push_bit 16 (ucast b) OR push_bit 8 (ucast c) OR ucast d"

definition le16_of :: "u8 \<Rightarrow> u8 \<Rightarrow> u16" where
  "le16_of a b = be16_of b a"

definition le32_of :: "u8 \<Rightarrow> u8 \<Rightarrow> u8 \<Rightarrow> u8 \<Rightarrow> u32" where
  "le32_of a b c d = be32_of d c b a"

definition be16_bytes :: "u16 \<Rightarrow> u8 list" where
  "be16_bytes v = [ucast (drop_bit 8 v), ucast v]"

definition be32_bytes :: "u32 \<Rightarrow> u8 list" where
  "be32_bytes v = [ucast (drop_bit 24 v), ucast (drop_bit 16 v), ucast (drop_bit 8 v), ucast v]"

definition le16_bytes :: "u16 \<Rightarrow> u8 list" where
  "le16_bytes v = rev (be16_bytes v)"

definition le32_bytes :: "u32 \<Rightarrow> u8 list" where
  "le32_bytes v = rev (be32_bytes v)"

text \<open>The field at an offset, zero beyond the buffer (the reads of a field are guarded by their caller).\<close>

definition be16_at :: "u8 list \<Rightarrow> nat \<Rightarrow> u16" where
  "be16_at buf i = be16_of (buf ! i) (buf ! (i + 1))"

definition be32_at :: "u8 list \<Rightarrow> nat \<Rightarrow> u32" where
  "be32_at buf i = be32_of (buf ! i) (buf ! (i + 1)) (buf ! (i + 2)) (buf ! (i + 3))"

definition le16_at :: "u8 list \<Rightarrow> nat \<Rightarrow> u16" where
  "le16_at buf i = le16_of (buf ! i) (buf ! (i + 1))"

definition le32_at :: "u8 list \<Rightarrow> nat \<Rightarrow> u32" where
  "le32_at buf i = le32_of (buf ! i) (buf ! (i + 1)) (buf ! (i + 2)) (buf ! (i + 3))"

lemma be16_bytes_roundtrip [simp]: "be16_of (ucast (drop_bit 8 v)) (ucast v) = v"
proof (rule bit_word_eqI)
  fix n assume n: "n < LENGTH(16)"
  show "bit (be16_of (ucast (drop_bit 8 v)) (ucast v)) n = bit v n"
    using n by (auto simp: be16_of_def bit_simps)
qed

lemma be32_bytes_roundtrip [simp]:
  "be32_of (ucast (drop_bit 24 v)) (ucast (drop_bit 16 v)) (ucast (drop_bit 8 v)) (ucast v) = v"
proof (rule bit_word_eqI)
  fix n assume n: "n < LENGTH(32)"
  show "bit (be32_of (ucast (drop_bit 24 v)) (ucast (drop_bit 16 v)) (ucast (drop_bit 8 v)) (ucast v)) n = bit v n"
    using n by (cases "n < 8"; cases "n < 16"; cases "n < 24") (auto simp: be32_of_def bit_simps)
qed

lemma bytes_length [simp]:
  "length (be16_bytes v) = 2" "length (be32_bytes w) = 4" "length (le16_bytes v) = 2" "length (le32_bytes w) = 4"
  by (simp_all add: be16_bytes_def be32_bytes_def le16_bytes_def le32_bytes_def)

lemma at_append:
  "be16_at (xs @ be16_bytes v @ ys) (length xs) = v"
  "be32_at (xs @ be32_bytes w @ ys) (length xs) = w"
  "le16_at (xs @ le16_bytes v @ ys) (length xs) = v"
  "le32_at (xs @ le32_bytes w @ ys) (length xs) = w"
  by (simp_all add: be16_at_def be32_at_def le16_at_def le32_at_def le16_of_def le32_of_def be16_bytes_def
      be32_bytes_def le16_bytes_def le32_bytes_def nth_append)

lemma slice_length: "off + n \<le> length buf \<Longrightarrow> length (slice off n buf) = n"
  by (simp add: slice_def)

lemma slice_nth: "i < n \<Longrightarrow> off + n \<le> length buf \<Longrightarrow> slice off n buf ! i = buf ! (off + i)"
  by (simp add: slice_def)

lemma get_bytes_Inr: "get_bytes buf off n = Inr bs \<longleftrightarrow> off + n \<le> length buf \<and> bs = slice off n buf"
  by (auto simp: get_bytes_def)

lemma put_bytes_Inr:
  "put_bytes buf off bs = Inr buf' \<longleftrightarrow>
     off + length bs \<le> length buf \<and> buf' = take off buf @ bs @ drop (off + length bs) buf"
  by (auto simp: put_bytes_def)

lemma put_bytes_length: "put_bytes buf off bs = Inr buf' \<Longrightarrow> length buf' = length buf"
  by (auto simp: put_bytes_Inr)

lemma put_then_get: "put_bytes buf off bs = Inr buf' \<Longrightarrow> get_bytes buf' off (length bs) = Inr bs"
  by (auto simp: put_bytes_Inr get_bytes_def slice_def)

end
