(* ===== verification/Sprint.thy ===== *)
theory Sprint
  imports Bytes
begin

text \<open>
  The formatted output of \<^verbatim>\<open>lib/sprint.c\<close>. A format is the list of its bytes before the
  terminating zero; the variable arguments are a list of numbers and of strings, a string being
  the bytes before its terminator or the null pointer. Reading an argument that is missing or of
  the other kind leaves the argument list, a fault. A routine returns the bytes it appends to the
  buffer, whose number is what \<^verbatim>\<open>vsprint\<close> returns.
\<close>

subsection \<open>Definitions\<close>

datatype arg = Num u32 | Str "u8 list option"

definition is_num :: "u8 \<Rightarrow> bool" where
  "is_num c \<longleftrightarrow> 0x30 \<le> c \<and> c \<le> 0x39"

definition char_to_num :: "u8 \<Rightarrow> u8" where
  "char_to_num c = c - 0x30"

definition FLAG_LEFT :: u8 where "FLAG_LEFT = 0x01"
definition FLAG_PLUS :: u8 where "FLAG_PLUS = 0x02"
definition FLAG_SPACE :: u8 where "FLAG_SPACE = 0x04"
definition FLAG_ZERO :: u8 where "FLAG_ZERO = 0x08"
definition FLAG_SPECIAL :: u8 where "FLAG_SPECIAL = 0x10"
definition FLAG_SMALL :: u8 where "FLAG_SMALL = 0x20"
definition FLAG_SIGN :: u8 where "FLAG_SIGN = 0x40"

definition letter_lookup :: "u8 list" where
  "letter_lookup = str_bytes ''0123456789ABCDEF''"

text \<open>
  The digits written to \<^verbatim>\<open>tmp\<close>, lowest first, for a number that is not zero. The callers pass
  the base 2, 10 or 16.
\<close>

function digit_loop :: "u32 \<Rightarrow> u8 \<Rightarrow> u8 \<Rightarrow> u8 list" where
  "digit_loop u_num base lower =
     (if u_num = 0 \<or> base < 2 then []
      else (letter_lookup ! unat (u_num mod ucast base) OR lower) # digit_loop (u_num div ucast base) base lower)"
  by pat_completeness auto
termination
proof (relation "measure (\<lambda>(n, _, _). unat n)")
  fix u_num :: u32 and base :: u8
  assume a: "\<not> (u_num = 0 \<or> base < 2)"
  have "unat (ucast base :: u32) = unat base" by simp
  moreover have "1 < unat base" using a by (simp add: word_less_nat_alt)
  moreover have "0 < unat u_num" using a by (simp add: unat_gt_0)
  ultimately show "((u_num div ucast base, base, lower), u_num, base, lower)
      \<in> measure (\<lambda>(n, _, _). unat n)" for lower :: u8
    by (simp add: unat_div)
qed simp

declare digit_loop.simps [simp del]

definition put_number :: "u32 \<Rightarrow> u8 \<Rightarrow> u8 \<Rightarrow> u8 \<Rightarrow> u8 list" where
  "put_number num flags base width =
     (let pad = (if flags AND FLAG_ZERO \<noteq> 0 then 0x30 else 0x20);
          lower = (if flags AND FLAG_SMALL \<noteq> 0 then FLAG_SMALL else 0);
          neg = flags AND FLAG_SIGN \<noteq> 0 \<and> num <s 0;
          u_num = (if neg then - num else num);
          sign = (if flags AND FLAG_SIGN = 0 then 0
                  else if neg then 0x2D
                  else if flags AND FLAG_PLUS \<noteq> 0 then 0x2B
                  else if flags AND FLAG_SPACE \<noteq> 0 then 0x20 else 0);
          digits = (if u_num = 0 then [0x30] else digit_loop u_num base lower);
          prefix = (if flags AND FLAG_SPECIAL \<noteq> 0
                    then 0x30 # (if base = 2 then [0x62] else if base = 16 then [0x78] else []) else []);
          tmp = (if sign \<noteq> 0 then digits @ [sign] else digits);
          i = (of_nat (length tmp) :: u8);
          w = (if i > width then i else width);
          padding = replicate (unat (w - i)) pad
      in prefix @ (if flags AND FLAG_LEFT = 0 then padding else []) @ rev tmp @
         (if flags AND FLAG_LEFT \<noteq> 0 then padding else []))"

text \<open>The flags after a percent sign, the digits of the width, and what is left of the format.\<close>

fun parse_flags :: "u8 \<Rightarrow> u8 list \<Rightarrow> u8 \<times> u8 list" where
  "parse_flags flags [] = (flags, [])"
| "parse_flags flags (c # cs) =
     (if c = 0x30 then parse_flags (flags OR FLAG_ZERO) cs
      else if c = 0x2D then parse_flags (flags OR FLAG_LEFT) cs
      else if c = 0x20 then parse_flags (flags OR FLAG_SPACE) cs
      else if c = 0x23 then parse_flags (flags OR FLAG_SPECIAL) cs
      else if c = 0x2B then parse_flags (flags OR FLAG_PLUS) cs
      else (flags, c # cs))"

fun parse_width :: "u32 \<Rightarrow> u8 list \<Rightarrow> u32 \<times> u8 list" where
  "parse_width w [] = (w, [])"
| "parse_width w (c # cs) =
     (if is_num c then parse_width (w * 10 + ucast (char_to_num c)) cs else (w, c # cs))"

fun next_num :: "arg list \<Rightarrow> (u32 \<times> arg list) res" where
  "next_num (Num n # as) = Inr (n, as)"
| "next_num as = Inl OutOfBounds"

fun next_str :: "arg list \<Rightarrow> (u8 list option \<times> arg list) res" where
  "next_str (Str s # as) = Inr (s, as)"
| "next_str as = Inl OutOfBounds"

definition read_width :: "u8 list \<Rightarrow> arg list \<Rightarrow> (u32 \<times> u8 list \<times> arg list) res" where
  "read_width data args =
     (case data of
        c # cs \<Rightarrow> if c = 0x2A then res_bind (next_num args) (\<lambda>(w, as). Inr (w, cs, as))
                  else (case parse_width 0 data of (w, ds) \<Rightarrow> Inr (w, ds, args))
      | [] \<Rightarrow> Inr (0, [], args))"

text \<open>A width of a string pads and also truncates.\<close>

definition put_string :: "u8 list option \<Rightarrow> u8 \<Rightarrow> u32 \<Rightarrow> u8 list" where
  "put_string s flags width0 =
     (let src = (case s of None \<Rightarrow> str_bytes ''<NULL>'' | Some cs \<Rightarrow> cs);
          width = (case s of None \<Rightarrow> 6 | Some _ \<Rightarrow> width0) in
      if width = 0 then src
      else
        let name = min (unat width) (length src);
            padd = replicate (unat (width - of_nat name)) 0x20
        in (if flags AND FLAG_LEFT = 0 then padd else []) @ take name src @
           (if flags AND FLAG_LEFT \<noteq> 0 then padd else []))"

text \<open>The conversions of numbers: their flags, base and width.\<close>

definition number_spec :: "u8 \<Rightarrow> u8 \<Rightarrow> u32 \<Rightarrow> (u8 \<times> u8 \<times> u32) option" where
  "number_spec c flags width =
     (if c = 0x78 then Some (flags OR FLAG_SMALL, 16, width)
      else if c = 0x58 then Some (flags, 16, width)
      else if c = 0x64 \<or> c = 0x69 then Some (flags OR FLAG_SIGN, 10, width)
      else if c = 0x75 then Some (flags, 10, width)
      else if c = 0x70 then Some (flags OR FLAG_SPECIAL OR FLAG_SMALL OR FLAG_ZERO, 16, 8)
      else if c = 0x50 then Some (flags, 16, 8)
      else if c = 0x62 then Some (flags OR FLAG_SMALL, 2, width)
      else if c = 0x42 then Some (flags, 2, width)
      else None)"

text \<open>
  One conversion, after its flags and width: the bytes, what is left of the format and of the
  arguments. An unknown character stays in the format and is printed as text.
\<close>

definition convert :: "u8 \<Rightarrow> u32 \<Rightarrow> u8 list \<Rightarrow> arg list \<Rightarrow> (u8 list \<times> u8 list \<times> arg list) res" where
  "convert flags width data args =
     (case data of
        [] \<Rightarrow> Inr ([], [], args)
      | c # cs \<Rightarrow>
          if c = 0x73 then res_bind (next_str args) (\<lambda>(s, as). Inr (put_string s flags width, cs, as))
          else if c = 0x25 then Inr ([0x25], cs, args)
          else if c = 0x63 then res_bind (next_num args) (\<lambda>(n, as). Inr ([ucast n], cs, as))
          else case number_spec c flags width of
            None \<Rightarrow> Inr ([], data, args)
          | Some (f, b, w) \<Rightarrow>
              res_bind (next_num args) (\<lambda>(n, as). Inr (put_number n f b (ucast w), cs, as)))"

definition conversion :: "u8 list \<Rightarrow> arg list \<Rightarrow> (u8 list \<times> u8 list \<times> arg list) res" where
  "conversion data args =
     (case parse_flags 0 data of (flags, ds) \<Rightarrow>
        res_bind (read_width ds args) (\<lambda>(width, es, as). convert flags width es as))"

lemma parse_flags_length: "parse_flags f ds = (g, es) \<Longrightarrow> length es \<le> length ds"
  by (induction f ds rule: parse_flags.induct) (auto split: if_splits)

lemma parse_width_length: "parse_width w ds = (v, es) \<Longrightarrow> length es \<le> length ds"
  by (induction w ds rule: parse_width.induct) (auto split: if_splits)

lemma read_width_length: "read_width ds as = Inr (w, es, bs) \<Longrightarrow> length es \<le> length ds"
  by (auto simp: read_width_def res_bind_Inr_iff dest: parse_width_length split: list.splits if_splits prod.splits)

lemma convert_length: "convert f w ds as = Inr (out, es, bs) \<Longrightarrow> length es \<le> length ds"
  by (auto simp: convert_def res_bind_Inr_iff split: list.splits if_splits option.splits)

lemma conversion_length: "conversion ds as = Inr (out, es, bs) \<Longrightarrow> length es \<le> length ds"
  by (auto simp: conversion_def res_bind_Inr_iff split: prod.splits
      dest!: parse_flags_length read_width_length convert_length)

function vsprint_loop :: "u8 list \<Rightarrow> arg list \<Rightarrow> u8 list res" where
  "vsprint_loop [] args = Inr []"
| "vsprint_loop (c # cs) args =
     (if c \<noteq> 0x25 then res_bind (vsprint_loop cs args) (\<lambda>out. Inr (c # out))
      else res_bind (conversion cs args) (\<lambda>(out, ds, as).
             res_bind (vsprint_loop ds as) (\<lambda>rest. Inr (out @ rest))))"
  by pat_completeness auto
termination
  by (relation "measure (\<lambda>(ds, _). length ds)") (auto dest!: conversion_length)

text \<open>\<^verbatim>\<open>None\<close> is a null format.\<close>

definition vsprint :: "u8 list option \<Rightarrow> arg list \<Rightarrow> u8 list res" where
  "vsprint data args = (case data of None \<Rightarrow> Inr [] | Some ds \<Rightarrow> vsprint_loop ds args)"

definition sprint :: "u8 list option \<Rightarrow> arg list \<Rightarrow> u8 list res" where
  "sprint data args = vsprint data args"


subsection \<open>Positional notation\<close>

text \<open>The reference: the digits of a number, highest first, as the characters that stand for them.\<close>

fun ref_digits :: "nat \<Rightarrow> nat \<Rightarrow> nat list" where
  "ref_digits b n = (if n < b \<or> b < 2 then [n] else ref_digits b (n div b) @ [n mod b])"

declare ref_digits.simps [simp del]

definition digit_char :: "bool \<Rightarrow> nat \<Rightarrow> u8" where
  "digit_char small d = (if d < 10 then of_nat (48 + d) else of_nat ((if small then 87 else 55) + d))"

lemma lookup_digits:
  "\<forall>d \<in> set [0..<16]. letter_lookup ! d OR 0 = digit_char False d \<and> letter_lookup ! d OR FLAG_SMALL = digit_char True d"
  by code_simp

lemma lookup_digit:
  "d < 16 \<Longrightarrow> letter_lookup ! d OR (if small then FLAG_SMALL else 0) = digit_char small d"
proof -
  assume "d < 16"
  then have "d \<in> set [0..<16]" by simp
  from lookup_digits [rule_format, OF this] show ?thesis by (cases small) (simp_all only: if_True if_False)
qed

definition print_base :: "u8 \<Rightarrow> bool" where
  "print_base base \<longleftrightarrow> base = 2 \<or> base = 10 \<or> base = 16"

lemma print_base_cases: "print_base base \<Longrightarrow> 2 \<le> unat base \<and> unat base \<le> 16 \<and> \<not> base < 2"
  by (auto simp: print_base_def)

lemma digit_loop_ref:
  assumes "print_base base"
  shows "n \<noteq> 0 \<Longrightarrow> rev (digit_loop n base (if small then FLAG_SMALL else 0)) =
    map (digit_char small) (ref_digits (unat base) (unat n))"
proof (induction "unat n" arbitrary: n rule: less_induct)
  case less
  note b = print_base_cases [OF assms]
  let ?l = "if small then FLAG_SMALL else 0"
  have d: "unat (n div ucast base) = unat n div unat base" "unat (n mod ucast base) = unat n mod unat base"
    by (simp_all add: unat_div unat_mod)
  have m: "unat n mod unat base < 16" using b mod_less_divisor [of "unat base" "unat n"] by linarith
  have e: "digit_loop n base ?l = (letter_lookup ! (unat n mod unat base) OR ?l) # digit_loop (n div ucast base) base ?l"
    using less.prems b by (subst digit_loop.simps) (simp add: d)
  show ?case
  proof (cases "unat n < unat base")
    case True
    then have "n div ucast base = 0" using d(1) by (simp add: unat_eq_zero [symmetric])
    then show ?thesis using True m lookup_digit [of "unat n" small] b unfolding e
      by (subst ref_digits.simps) (simp add: digit_loop.simps [of 0])
  next
    case False
    have nz: "n div ucast base \<noteq> 0" using d(1) False b by (auto simp: unat_eq_zero [symmetric] div_eq_0_iff)
    have "unat (n div ucast base) < unat n" using d(1) False b by simp
    note IH = less.hyps [OF this nz]
    show ?thesis unfolding e using IH lookup_digit [OF m, of small] False b d
      by (subst ref_digits.simps) simp
  qed
qed

lemma ref_digits_length:
  "2 \<le> b \<Longrightarrow> n < 2 ^ k \<Longrightarrow> length (ref_digits b n) \<le> Suc k"
proof (induction k arbitrary: n)
  case 0
  then show ?case by (subst ref_digits.simps) simp
next
  case (Suc k)
  have "n div b < 2 ^ k"
  proof -
    have "n div b \<le> n div 2" using Suc.prems(1) by (intro div_le_mono2) auto
    also have "\<dots> < 2 ^ k" using Suc.prems(2) by simp
    finally show ?thesis .
  qed
  then show ?case using Suc by (subst ref_digits.simps) simp
qed

lemma neg_magnitude: "(num :: u32) <s 0 \<Longrightarrow> unat (- num) = nat (- sint num)"
proof -
  assume "num <s 0"
  then have s: "sint num < 0" by (simp add: word_sless_alt)
  have lo: "- 2147483648 \<le> sint num" using sint_ge [of num] by simp
  have "- num = of_int (- sint num)" by simp
  then have "uint (- num) = (- sint num) mod 4294967296" by (simp only: uint_word_of_int) simp
  also have "\<dots> = - sint num" using s lo by simp
  finally show ?thesis by (simp flip: nat_uint_eq)
qed


definition sign_text :: "u8 \<Rightarrow> u32 \<Rightarrow> u8 list" where
  "sign_text flags num =
     (if flags AND FLAG_SIGN = 0 then [] else if sint num < 0 then str_bytes ''-''
      else if flags AND FLAG_PLUS \<noteq> 0 then str_bytes ''+''
      else if flags AND FLAG_SPACE \<noteq> 0 then str_bytes '' '' else [])"

definition magnitude :: "u8 \<Rightarrow> u32 \<Rightarrow> nat" where
  "magnitude flags num = (if flags AND FLAG_SIGN \<noteq> 0 \<and> sint num < 0 then nat (- sint num) else unat num)"

definition number_text :: "u8 \<Rightarrow> u8 \<Rightarrow> u32 \<Rightarrow> u8 list" where
  "number_text flags base num =
     sign_text flags num @ map (digit_char (flags AND FLAG_SMALL \<noteq> 0)) (ref_digits (unat base) (magnitude flags num))"

definition prefix_text :: "u8 \<Rightarrow> u8 \<Rightarrow> u8 list" where
  "prefix_text flags base =
     (if flags AND FLAG_SPECIAL = 0 then [] else if base = 2 then str_bytes ''0b''
      else if base = 16 then str_bytes ''0x'' else str_bytes ''0'')"

lemma str_bytes_consts:
  "str_bytes ''-'' = [0x2D]" "str_bytes ''+'' = [0x2B]" "str_bytes '' '' = [0x20]"
  "str_bytes ''0b'' = [0x30, 0x62]" "str_bytes ''0x'' = [0x30, 0x78]" "str_bytes ''0'' = [0x30]"
  by code_simp+

lemma number_text_length: "2 \<le> unat base \<Longrightarrow> length (number_text flags base num) \<le> 34"
proof -
  assume b: "2 \<le> unat base"
  have lo: "- 2147483648 \<le> sint num" using sint_ge [of num] by simp
  have "magnitude flags num < 2 ^ 32" using lo by (auto simp: magnitude_def)
  from ref_digits_length [OF b this] show ?thesis
    by (auto simp: number_text_def sign_text_def str_bytes_consts)
qed

lemma put_number_ref:
  assumes "print_base base"
  shows "put_number num flags base width =
    (let t = number_text flags base num;
         padding = replicate (unat width - length t) (if flags AND FLAG_ZERO \<noteq> 0 then 0x30 else 0x20)
     in prefix_text flags base @ (if flags AND FLAG_LEFT \<noteq> 0 then t @ padding else padding @ t))"
proof -
  note b = print_base_cases [OF assms]
  define neg where "neg \<longleftrightarrow> flags AND FLAG_SIGN \<noteq> 0 \<and> num <s 0"
  define u where "u = (if neg then - num else num)"
  define small where "small \<longleftrightarrow> flags AND FLAG_SMALL \<noteq> 0"
  define digits where "digits = (if u = 0 then [0x30] else digit_loop u base (if small then FLAG_SMALL else 0))"
  define sign :: u8 where "sign = (if flags AND FLAG_SIGN = 0 then 0 else if neg then 0x2D
      else if flags AND FLAG_PLUS \<noteq> 0 then 0x2B else if flags AND FLAG_SPACE \<noteq> 0 then 0x20 else 0)"
  define tmp where "tmp = (if sign \<noteq> 0 then digits @ [sign] else digits)"
  have s: "num <s 0 \<longleftrightarrow> sint num < 0" by (simp add: word_sless_alt)
  have mag: "unat u = magnitude flags num"
    using neg_magnitude [of num] s by (auto simp: u_def neg_def magnitude_def)
  have dg: "rev digits = map (digit_char small) (ref_digits (unat base) (unat u))"
  proof (cases "u = 0")
    case True
    have "digit_char small 0 = 0x30" by (simp add: digit_char_def)
    then show ?thesis using True b by (subst ref_digits.simps) (simp add: digits_def)
  next
    case False
    then show ?thesis unfolding digits_def using digit_loop_ref [OF assms False, of small] by simp
  qed
  have sg: "sign_text flags num = (if sign \<noteq> 0 then [sign] else [])"
    using s by (auto simp: sign_def sign_text_def neg_def str_bytes_consts)
  have t: "rev tmp = number_text flags base num"
    using dg sg mag by (simp add: tmp_def number_text_def small_def)
  have len: "length tmp = length (number_text flags base num)" using t by (metis length_rev)
  have le: "length tmp \<le> 34" using number_text_length [of base flags num] b len by simp
  have i: "unat (of_nat (length tmp) :: u8) = length tmp" using le by (simp add: unat_of_nat)
  have w: "unat ((if of_nat (length tmp) > width then of_nat (length tmp) else width) - of_nat (length tmp)) =
      unat width - length tmp"
  proof (cases "of_nat (length tmp) > width")
    case True
    then have "unat width < length tmp" using i by (simp add: word_less_nat_alt)
    then show ?thesis using True by simp
  next
    case False
    then have "of_nat (length tmp) \<le> width" by simp
    then show ?thesis using False i by (simp add: unat_sub)
  qed
  have p: "prefix_text flags base = (if flags AND FLAG_SPECIAL \<noteq> 0
      then 0x30 # (if base = 2 then [0x62] else if base = 16 then [0x78] else []) else [])"
    by (simp add: prefix_text_def str_bytes_consts)
  have "put_number num flags base width =
      (let padding = replicate (unat width - length tmp) (if flags AND FLAG_ZERO \<noteq> 0 then 0x30 else 0x20)
       in prefix_text flags base @ (if flags AND FLAG_LEFT = 0 then padding else []) @ rev tmp @
         (if flags AND FLAG_LEFT \<noteq> 0 then padding else []))"
    unfolding put_number_def p Let_def neg_def [symmetric] u_def [symmetric] small_def [symmetric]
      digits_def [symmetric] sign_def [symmetric] tmp_def [symmetric] w by (rule refl)
  then show ?thesis unfolding t len by (simp add: Let_def)
qed

subsection \<open>Properties\<close>

text \<open>C21. \<^verbatim>\<open>put_number\<close> prints what positional notation says: the prefix of the base if it was asked
  for, then the sign and the digits of the value, highest first and without leading zeros, padded
  to the width on the side the flags name. The most negative number is printed right, and the zeros
  of the zero flag come before the sign.\<close>

theorem put_number_correct:
  assumes "base \<in> {2, 10, 16}"
  shows "put_number num flags base width =
    (let t = number_text flags base num;
         padding = replicate (unat width - length t) (if flags AND FLAG_ZERO \<noteq> 0 then 0x30 else 0x20)
     in prefix_text flags base @ (if flags AND FLAG_LEFT \<noteq> 0 then t @ padding else padding @ t))"
  using put_number_ref assms by (simp add: print_base_def)

theorem put_number_correct_witness:
  "put_number (- 5) (FLAG_SIGN OR FLAG_ZERO) 10 5 = str_bytes ''000-5''"
proof -
  have "(10 :: u8) \<in> {2, 10, 16}" by simp
  note put_number_correct [OF this, of "- 5" "FLAG_SIGN OR FLAG_ZERO" 5]
  moreover have "number_text (FLAG_SIGN OR FLAG_ZERO) 10 (- 5) = str_bytes ''-5''" by code_simp
  moreover have "prefix_text (FLAG_SIGN OR FLAG_ZERO) 10 = []" by code_simp
  moreover have "str_bytes ''000-5'' = replicate 3 0x30 @ str_bytes ''-5''" by code_simp
  moreover have "length (str_bytes ''-5'') = 2" by code_simp
  moreover have "(FLAG_SIGN OR FLAG_ZERO) AND FLAG_ZERO \<noteq> 0" "(FLAG_SIGN OR FLAG_ZERO) AND FLAG_LEFT = 0"
    by code_simp+
  ultimately show ?thesis by simp
qed

end
