(* ===== verification/Dma.thy ===== *)
theory Dma
  imports Bytes
begin

text \<open>
  \<^verbatim>\<open>drivers/dma.c\<close> and \<^verbatim>\<open>include/citrus/dma.h\<close>: the channels of the two DMA controllers, their
  allocation and the register writes that start a transfer. A controller is the last values
  written to its registers; reading a status register to clear it has no effect here.
\<close>

subsection \<open>Definitions\<close>

datatype dma_hw = DMA0 | DMA1

datatype dma_type = DMA_TYPE_MEM_MEM | DMA_TYPE_PER_MEM | DMA_TYPE_MEM_PER
datatype dma_burst = DMA_BURST_1 | DMA_BURST_4 | DMA_BURST_8 | DMA_BURST_16
datatype dma_chunk = DMA_CHUNK_1 | DMA_CHUNK_2 | DMA_CHUNK_4 | DMA_CHUNK_8 | DMA_CHUNK_16
datatype dma_data = DMA_DATA_U8 | DMA_DATA_U16 | DMA_DATA_U32 | DMA_DATA_U64
datatype dma_trigger = DMA_TRIGGER_HW | DMA_TRIGGER_SW
datatype dma_am = DMA_AM_FIXED | DMA_AM_INC | DMA_AM_STRIDE | DMA_AM_FULL_STRIDE
datatype dma_dir = DMA_DIR_PER_TO_MEM | DMA_DIR_MEM_TO_PER
datatype dma_desc_type = DMA_DESC_TYPE_0 | DMA_DESC_TYPE_1 | DMA_DESC_TYPE_2 | DMA_DESC_TYPE_3

fun burst_num :: "dma_burst \<Rightarrow> u32" where
  "burst_num DMA_BURST_1 = 0" | "burst_num DMA_BURST_4 = 1" | "burst_num DMA_BURST_8 = 2"
| "burst_num DMA_BURST_16 = 3"

fun chunk_num :: "dma_chunk \<Rightarrow> u32" where
  "chunk_num DMA_CHUNK_1 = 0" | "chunk_num DMA_CHUNK_2 = 1" | "chunk_num DMA_CHUNK_4 = 2"
| "chunk_num DMA_CHUNK_8 = 3" | "chunk_num DMA_CHUNK_16 = 4"

fun data_num :: "dma_data \<Rightarrow> u32" where
  "data_num DMA_DATA_U8 = 0" | "data_num DMA_DATA_U16 = 1" | "data_num DMA_DATA_U32 = 2"
| "data_num DMA_DATA_U64 = 3"

fun trigger_num :: "dma_trigger \<Rightarrow> u32" where
  "trigger_num DMA_TRIGGER_HW = 0" | "trigger_num DMA_TRIGGER_SW = 1"

fun am_num :: "dma_am \<Rightarrow> u32" where
  "am_num DMA_AM_FIXED = 0" | "am_num DMA_AM_INC = 1" | "am_num DMA_AM_STRIDE = 2"
| "am_num DMA_AM_FULL_STRIDE = 3"

fun dir_num :: "dma_dir \<Rightarrow> u32" where
  "dir_num DMA_DIR_PER_TO_MEM = 0" | "dir_num DMA_DIR_MEM_TO_PER = 1"

fun desc_num :: "dma_desc_type \<Rightarrow> u32" where
  "desc_num DMA_DESC_TYPE_0 = 0" | "desc_num DMA_DESC_TYPE_1 = 1" | "desc_num DMA_DESC_TYPE_2 = 2"
| "desc_num DMA_DESC_TYPE_3 = 3"

record dma_ch_cfg_info =
  perid :: u8
  cfg_type :: dma_type
  cfg_burst :: dma_burst
  cfg_chunk :: dma_chunk
  cfg_data :: dma_data
  cfg_trigger :: dma_trigger
  cfg_dest_am :: dma_am
  cfg_src_am :: dma_am
  cfg_non_secure :: "1 word"
  cfg_memset :: "1 word"
  cfg_src_interface :: "1 word"
  cfg_dest_interface :: "1 word"

text \<open>A transfer: its configuration, addresses, lengths and callback (a function's address).\<close>

record dma_req =
  src_addr :: u32
  dest_addr :: u32
  req_cfg :: dma_ch_cfg_info
  ublock_len :: u32
  ublock_cnt :: u32
  transfer_done :: u32

record dma_channel =
  dc_hw :: dma_hw
  dc_ch :: u8
  dc_free :: bool
  dc_done :: u32
  dc_arg :: u32

record dma_ch_reg =
  CSA :: u32
  CDA :: u32
  CUBC :: u32
  CBC :: u32
  CC :: u32
  CNDA :: u32
  CNDC :: u32
  CDS_MSP :: u32
  CSUS :: u32
  CDUS :: u32
  CIE :: u32

record dma_reg =
  ch_reg :: "u8 \<Rightarrow> dma_ch_reg"
  GIS :: u32
  GIE :: u32
  GE :: u32
  GD :: u32
  GSWF :: u32

record dma_sys =
  dma_channels :: "dma_channel list"
  dma_regs :: "dma_hw \<Rightarrow> dma_reg"

definition DMA_CHANNELS :: nat where "DMA_CHANNELS = 16"
definition DMA_EOB :: u32 where "DMA_EOB = 1"
definition DMA_EOL :: u32 where "DMA_EOL = push_bit 1 1"
definition DMA_READ_BUS_ERROR :: u32 where "DMA_READ_BUS_ERROR = push_bit 4 1"
definition DMA_WRITE_BUS_ERROR :: u32 where "DMA_WRITE_BUS_ERROR = push_bit 5 1"
definition DMA_REQ_OVERLOW_ERROR :: u32 where "DMA_REQ_OVERLOW_ERROR = push_bit 6 1"
definition DMA_ERROR :: u32 where
  "DMA_ERROR = DMA_READ_BUS_ERROR OR DMA_WRITE_BUS_ERROR OR DMA_REQ_OVERLOW_ERROR"

definition dma_init :: "dma_sys \<Rightarrow> dma_sys" where
  "dma_init s =
     (let chan = (\<lambda>hw i. \<lparr>dc_hw = hw, dc_ch = of_nat i, dc_free = True, dc_done = 0, dc_arg = 0\<rparr>) in
      s\<lparr>dma_channels := map (chan DMA0) [0..<DMA_CHANNELS] @ map (chan DMA0) [0..<DMA_CHANNELS]\<rparr>)"

text \<open>The index of the first free channel.\<close>

definition find_free :: "dma_channel list \<Rightarrow> nat option" where
  "find_free cs = find (\<lambda>i. dc_free (cs ! i)) [0..<DMA_CHANNELS * 2]"

definition alloc_dma_channel :: "dma_sys \<Rightarrow> nat option \<times> dma_sys" where
  "alloc_dma_channel s =
     (case find_free (dma_channels s) of
        None \<Rightarrow> (None, s)
      | Some i \<Rightarrow> (Some i, s\<lparr>dma_channels := (dma_channels s)[i := (dma_channels s ! i)\<lparr>dc_free := False\<rparr>]\<rparr>))"

text \<open>\<^verbatim>\<open>get_dma_channel\<close> returns an error code and the index.\<close>

definition get_dma_channel :: "dma_sys \<Rightarrow> int \<times> u8 \<times> dma_sys" where
  "get_dma_channel s =
     (case alloc_dma_channel s of
        (None, s') \<Rightarrow> (- ENODMA, 0, s')
      | (Some i, s') \<Rightarrow> (0, of_nat i, s'))"

definition free_dma_channel :: "nat \<Rightarrow> dma_sys \<Rightarrow> dma_sys" where
  "free_dma_channel i s = s\<lparr>dma_channels := (dma_channels s)[i := (dma_channels s ! i)\<lparr>dc_free := True\<rparr>]\<rparr>"

definition dma_get_cfg_reg :: "dma_ch_cfg_info \<Rightarrow> u32" where
  "dma_get_cfg_reg info =
     (let reg = push_bit 24 (ucast (perid info AND 0x7F)) OR push_bit 1 (burst_num (cfg_burst info)) OR
            push_bit 5 (ucast (cfg_non_secure info)) OR push_bit 6 (trigger_num (cfg_trigger info)) OR
            push_bit 7 (ucast (cfg_memset info)) OR push_bit 8 (chunk_num (cfg_chunk info)) OR
            push_bit 11 (data_num (cfg_data info)) OR push_bit 13 (ucast (cfg_src_interface info)) OR
            push_bit 14 (ucast (cfg_dest_interface info)) OR push_bit 16 (am_num (cfg_src_am info)) OR
            push_bit 18 (am_num (cfg_dest_am info))
      in if cfg_type info \<noteq> DMA_TYPE_MEM_MEM
         then reg OR 1 OR (if cfg_type info = DMA_TYPE_MEM_PER then push_bit 4 1 else 0)
         else reg)"

definition set_regs :: "dma_hw \<Rightarrow> (dma_reg \<Rightarrow> dma_reg) \<Rightarrow> dma_sys \<Rightarrow> dma_sys" where
  "set_regs hw f s = s\<lparr>dma_regs := (dma_regs s)(hw := f (dma_regs s hw))\<rparr>"

definition set_ch :: "u8 \<Rightarrow> (dma_ch_reg \<Rightarrow> dma_ch_reg) \<Rightarrow> dma_reg \<Rightarrow> dma_reg" where
  "set_ch ch f r = r\<lparr>ch_reg := (ch_reg r)(ch := f (ch_reg r ch))\<rparr>"

definition dma_fill_microblock_transfer :: "dma_hw \<Rightarrow> u8 \<Rightarrow> dma_req \<Rightarrow> dma_sys \<Rightarrow> dma_sys res" where
  "dma_fill_microblock_transfer hw ch req s =
     res_bind (assert_that (ublock_cnt req \<noteq> 0)) (\<lambda>_.
       Inr (set_regs hw (\<lambda>r. (set_ch ch (\<lambda>c. c\<lparr>CSA := src_addr req, CDA := dest_addr req,
              CUBC := ublock_len req AND 0xFFFFFF, CBC := ublock_cnt req - 1,
              CC := dma_get_cfg_reg (req_cfg req), CNDC := 0, CDS_MSP := 0, CSUS := 0, CDUS := 0,
              CIE := DMA_EOB OR DMA_ERROR\<rparr>) r)
            \<lparr>GIE := shl_one (ucast ch), GE := shl_one (ucast ch)\<rparr>) s))"

definition dma_submit_request :: "dma_req \<Rightarrow> nat \<Rightarrow> dma_sys \<Rightarrow> dma_sys res" where
  "dma_submit_request req i s =
     (let c = dma_channels s ! i; s1 = s\<lparr>dma_channels := (dma_channels s)[i := c\<lparr>dc_done := transfer_done req\<rparr>]\<rparr>
      in dma_fill_microblock_transfer (dc_hw c) (dc_ch c) req s1)"

definition dma_flush_channel :: "nat \<Rightarrow> dma_sys \<Rightarrow> dma_sys" where
  "dma_flush_channel i s =
     (let c = dma_channels s ! i in set_regs (dc_hw c) (\<lambda>r. r\<lparr>GSWF := shl_one (ucast (dc_ch c))\<rparr>) s)"

definition dma_stop :: "nat \<Rightarrow> dma_sys \<Rightarrow> dma_sys" where
  "dma_stop i s =
     (let c = dma_channels s ! i in set_regs (dc_hw c) (\<lambda>r. r\<lparr>GD := shl_one (ucast (dc_ch c))\<rparr>) s)"

definition dma_get_microblock_size :: "nat \<Rightarrow> dma_sys \<Rightarrow> u32" where
  "dma_get_microblock_size i s =
     (let c = dma_channels s ! i in CUBC (ch_reg (dma_regs s (dc_hw c)) (dc_ch c)))"

record dma_master_req =
  mr_desc :: u32
  mr_type :: dma_desc_type
  mr_src_update :: "1 word"
  mr_dest_update :: "1 word"
  mr_desc_fetch :: "1 word"
  mr_done :: u32

text \<open>\<open>req_addr\<close> is the address of the request, passed to its callback.\<close>

definition dma_submit_master_req :: "dma_master_req \<Rightarrow> u32 \<Rightarrow> u8 \<Rightarrow> dma_sys \<Rightarrow> dma_sys res" where
  "dma_submit_master_req req req_addr channel s =
     res_bind (assert_that (unat channel < DMA_CHANNELS * 2)) (\<lambda>_.
       let i = unat channel; c = dma_channels s ! i;
           s1 = s\<lparr>dma_channels := (dma_channels s)[i := c\<lparr>dc_done := mr_done req, dc_arg := req_addr\<rparr>]\<rparr>
       in Inr (set_regs (dc_hw c) (\<lambda>r. (set_ch (dc_ch c) (\<lambda>g. g\<lparr>CNDA := mr_desc req,
                CNDC := push_bit 3 (desc_num (mr_type req)) OR push_bit 1 (ucast (mr_src_update req)) OR
                  push_bit 2 (ucast (mr_dest_update req)) OR ucast (mr_desc_fetch req),
                CIE := DMA_ERROR OR DMA_EOL\<rparr>) r)
              \<lparr>GIE := shl_one (ucast (dc_ch c)), GE := shl_one (ucast (dc_ch c))\<rparr>) s1))"

text \<open>
  The interrupt of a controller: the callback and argument to call, if there is one. The bits of
  the status register above 15 are not looked at.
\<close>

definition dma_common_interrupt :: "dma_hw \<Rightarrow> dma_sys \<Rightarrow> (u32 \<times> u32) option" where
  "dma_common_interrupt hw s =
     (let ch = (case find (\<lambda>i. bit (GIS (dma_regs s hw)) i) [0..<16] of None \<Rightarrow> 16 | Some i \<Rightarrow> i);
          c = dma_channels s ! ch
      in if dc_done c \<noteq> 0 then Some (dc_done c, dc_arg c) else None)"

definition dma0_interrupt :: "dma_sys \<Rightarrow> (u32 \<times> u32) option" where
  "dma0_interrupt = dma_common_interrupt DMA0"

definition dma1_interrupt :: "dma_sys \<Rightarrow> (u32 \<times> u32) option" where
  "dma1_interrupt = dma_common_interrupt DMA1"

text \<open>The deprecated start of a descriptor list on a channel, which leaves the callback alone.\<close>

definition dma_start_master_transfer :: "u32 \<Rightarrow> dma_desc_type \<Rightarrow> u8 \<Rightarrow> u8 \<Rightarrow> dma_channel \<Rightarrow> dma_sys \<Rightarrow> dma_sys" where
  "dma_start_master_transfer first_desc ty src_update dest_update c s =
     set_regs (dc_hw c) (\<lambda>r. (set_ch (dc_ch c) (\<lambda>g. g\<lparr>CNDA := first_desc,
         CNDC := push_bit 3 (desc_num ty) OR push_bit 1 (ucast src_update) OR push_bit 2 (ucast dest_update) OR 1,
         CIE := DMA_EOL OR DMA_READ_BUS_ERROR OR DMA_REQ_OVERLOW_ERROR OR DMA_WRITE_BUS_ERROR\<rparr>) r)
       \<lparr>GIE := shl_one (ucast (dc_ch c)), GE := shl_one (ucast (dc_ch c))\<rparr>) s"

definition dma_get_ublock_ctrl :: "dma_desc_type \<Rightarrow> u32 \<Rightarrow> u32 \<Rightarrow> u32 \<Rightarrow> u32 \<Rightarrow> u32" where
  "dma_get_ublock_ctrl next_type len next_desc_en src_update dest_update =
     push_bit 27 (desc_num next_type) OR push_bit 26 next_desc_en OR push_bit 25 src_update OR
     push_bit 24 dest_update OR (len AND 0xFFFFFF)"

record dma_mem_mem_info =
  mm_burst :: dma_burst
  mm_data :: dma_data
  mm_src_am :: dma_am
  mm_dest_am :: dma_am
  mm_secure :: "1 word"
  mm_memset :: "1 word"
  mm_src_iface :: "1 word"
  mm_dest_iface :: "1 word"

text \<open>The one-bit fields are promoted to integers before \<^verbatim>\<open>^ 1\<close>.\<close>

definition dma_get_config_mem_mem :: "dma_mem_mem_info \<Rightarrow> u32" where
  "dma_get_config_mem_mem info =
     push_bit 1 (burst_num (mm_burst info)) OR push_bit 11 (data_num (mm_data info)) OR
     push_bit 16 (am_num (mm_src_am info)) OR push_bit 18 (am_num (mm_dest_am info)) OR
     push_bit 5 (ucast (mm_secure info) XOR 1) OR push_bit 7 (ucast (mm_memset info)) OR
     push_bit 13 (ucast (mm_src_iface info)) OR push_bit 14 (ucast (mm_dest_iface info)) OR
     push_bit 24 127"

record dma_per_mem_info =
  pm_burst :: dma_burst
  pm_chunk :: dma_chunk
  pm_data :: dma_data
  pm_dir :: dma_dir
  pm_src_am :: dma_am
  pm_dest_am :: dma_am
  pm_secure :: "1 word"
  pm_src_iface :: "1 word"
  pm_dest_iface :: "1 word"
  pm_soft_req :: "1 word"
  pm_pid :: u8

definition dma_get_config_per_mem :: "dma_per_mem_info \<Rightarrow> u32" where
  "dma_get_config_per_mem info =
     push_bit 1 1 OR push_bit 1 (burst_num (pm_burst info)) OR push_bit 8 (chunk_num (pm_chunk info)) OR
     push_bit 11 (data_num (pm_data info)) OR push_bit 16 (am_num (pm_src_am info)) OR
     push_bit 18 (am_num (pm_dest_am info)) OR push_bit 5 (ucast (pm_secure info) XOR 1) OR
     push_bit 13 (ucast (pm_src_iface info)) OR push_bit 14 (ucast (pm_dest_iface info)) OR
     push_bit 6 (ucast (pm_soft_req info)) OR push_bit 4 (dir_num (pm_dir info)) OR
     push_bit 24 (ucast (pm_pid info))"

definition dma_get_data_stride :: "u16 \<Rightarrow> u16 \<Rightarrow> u32" where
  "dma_get_data_stride src_stride dest_stride = push_bit 16 (ucast dest_stride) OR ucast src_stride"


subsection \<open>Channels\<close>

lemma find_free_Some: "find_free cs = Some i \<Longrightarrow> i < 32 \<and> dc_free (cs ! i) \<and> (\<forall>j < i. \<not> dc_free (cs ! j))"
  by (auto simp: find_free_def find_Some_iff DMA_CHANNELS_def)

lemma find_free_None: "find_free cs = None \<longleftrightarrow> (\<forall>i < 32. \<not> dc_free (cs ! i))"
  by (auto simp: find_free_def find_None_iff DMA_CHANNELS_def)

lemma dma_init_channel:
  assumes "i < 32"
  shows "dma_channels (dma_init s) ! i =
    \<lparr>dc_hw = DMA0, dc_ch = of_nat (i mod 16), dc_free = True, dc_done = 0, dc_arg = 0\<rparr>"
proof (cases "i < 16")
  case True
  then show ?thesis by (simp add: dma_init_def DMA_CHANNELS_def nth_append)
next
  case False
  then obtain j where "i = 16 + j" by (metis le_iff_add not_less)
  then show ?thesis using assms by (simp add: dma_init_def DMA_CHANNELS_def nth_append)
qed

lemma submit_regs:
  assumes "ublock_cnt req \<noteq> 0" and "i < length (dma_channels s)"
  shows "\<exists>s'. dma_submit_request req i s = Inr s' \<and>
    CSA (ch_reg (dma_regs s' (dc_hw (dma_channels s ! i))) (dc_ch (dma_channels s ! i))) = src_addr req \<and>
    (\<forall>hw. hw \<noteq> dc_hw (dma_channels s ! i) \<longrightarrow> dma_regs s' hw = dma_regs s hw) \<and>
    length (dma_channels s') = length (dma_channels s) \<and>
    (\<forall>j. dc_hw (dma_channels s' ! j) = dc_hw (dma_channels s ! j) \<and>
       dc_ch (dma_channels s' ! j) = dc_ch (dma_channels s ! j))"
  using assms by (simp add: dma_submit_request_def dma_fill_microblock_transfer_def Let_def set_regs_def
      set_ch_def nth_list_update)

subsection \<open>Properties\<close>

text \<open>The channels \<open>i\<close> and \<open>i + 16\<close> of the table \<^verbatim>\<open>dma_init\<close> fills are one channel of one
  controller: a request submitted on the second overwrites the source address of the transfer
  started on the first, and the second controller is not touched.\<close>

theorem dma_channels_alias:
  assumes "i < DMA_CHANNELS" and "ublock_cnt r1 \<noteq> 0" and "ublock_cnt r2 \<noteq> 0"
  shows "\<exists>s1 s2. dma_submit_request r1 i (dma_init s) = Inr s1 \<and>
    dma_submit_request r2 (i + DMA_CHANNELS) s1 = Inr s2 \<and>
    CSA (ch_reg (dma_regs s1 DMA0) (of_nat i)) = src_addr r1 \<and>
    CSA (ch_reg (dma_regs s2 DMA0) (of_nat i)) = src_addr r2 \<and> dma_regs s2 DMA1 = dma_regs s DMA1"
proof -
  have i: "i < 16" using assms(1) by (simp add: DMA_CHANNELS_def)
  have len: "length (dma_channels (dma_init s)) = 32" by (simp add: dma_init_def DMA_CHANNELS_def)
  have c: "dc_hw (dma_channels (dma_init s) ! i) = DMA0" "dc_ch (dma_channels (dma_init s) ! i) = of_nat i"
    "dc_hw (dma_channels (dma_init s) ! (i + 16)) = DMA0" "dc_ch (dma_channels (dma_init s) ! (i + 16)) = of_nat i"
    using i dma_init_channel [of i s] dma_init_channel [of "i + 16" s] by simp_all
  obtain s1 where s1: "dma_submit_request r1 i (dma_init s) = Inr s1"
    "CSA (ch_reg (dma_regs s1 DMA0) (of_nat i)) = src_addr r1"
    "dma_regs s1 DMA1 = dma_regs (dma_init s) DMA1" "length (dma_channels s1) = 32"
    "dc_hw (dma_channels s1 ! (i + 16)) = DMA0" "dc_ch (dma_channels s1 ! (i + 16)) = of_nat i"
    using submit_regs [OF assms(2), of i "dma_init s"] i len c by auto
  obtain s2 where "dma_submit_request r2 (i + 16) s1 = Inr s2"
    "CSA (ch_reg (dma_regs s2 DMA0) (of_nat i)) = src_addr r2" "dma_regs s2 DMA1 = dma_regs s1 DMA1"
    using submit_regs [OF assms(3), of "i + 16" s1] i s1 by auto
  then show ?thesis using s1 by (simp add: DMA_CHANNELS_def dma_init_def)
qed

definition demo_cfg :: dma_ch_cfg_info where
  "demo_cfg = \<lparr>perid = 37, cfg_type = DMA_TYPE_MEM_PER, cfg_burst = DMA_BURST_1, cfg_chunk = DMA_CHUNK_1,
     cfg_data = DMA_DATA_U8, cfg_trigger = DMA_TRIGGER_HW, cfg_dest_am = DMA_AM_FIXED, cfg_src_am = DMA_AM_INC,
     cfg_non_secure = 0, cfg_memset = 0, cfg_src_interface = 0, cfg_dest_interface = 1\<rparr>"

definition demo_req :: "u32 \<Rightarrow> dma_req" where
  "demo_req a = \<lparr>src_addr = a, dest_addr = 0, req_cfg = demo_cfg, ublock_len = 8, ublock_cnt = 1, transfer_done = 0\<rparr>"

definition demo_dma :: dma_sys where
  "demo_dma = \<lparr>dma_channels = [], dma_regs = (\<lambda>_. \<lparr>ch_reg = (\<lambda>_. \<lparr>CSA = 0, CDA = 0, CUBC = 0, CBC = 0,
     CC = 0, CNDA = 0, CNDC = 0, CDS_MSP = 0, CSUS = 0, CDUS = 0, CIE = 0\<rparr>),
     GIS = 0, GIE = 0, GE = 0, GD = 0, GSWF = 0\<rparr>)\<rparr>"

theorem dma_channels_alias_witness:
  "\<exists>s1 s2. dma_submit_request (demo_req 100) 3 (dma_init demo_dma) = Inr s1 \<and>
     dma_submit_request (demo_req 200) 19 s1 = Inr s2 \<and>
     CSA (ch_reg (dma_regs s1 DMA0) 3) = 100 \<and> CSA (ch_reg (dma_regs s2 DMA0) 3) = 200"
proof -
  have "3 < DMA_CHANNELS" "ublock_cnt (demo_req 100) \<noteq> 0" "ublock_cnt (demo_req 200) \<noteq> 0"
    by (simp_all add: DMA_CHANNELS_def demo_req_def)
  from dma_channels_alias [OF this, of demo_dma] show ?thesis
    by (auto simp: DMA_CHANNELS_def demo_req_def)
qed

end
