(* ===== verification/Print.thy ===== *)
theory Print
  imports Sprint Dma MemLib
begin

text \<open>
  The serial output of \<^verbatim>\<open>entry/print.c\<close>. \<^verbatim>\<open>print\<close> formats into the current one of two buffers and
  hands it to the DMA unless a transfer is under way; the completion callback hands over what has
  gathered meanwhile and swaps the buffers again. The model keeps the bytes of both buffers and the
  blocks submitted to the DMA, in order; the request itself is \<open>print_request\<close>. Interrupts come
  between routines, and between the two halves of \<^verbatim>\<open>print\<close>.
\<close>

subsection \<open>Definitions\<close>

datatype pbuf = BufA | BufB

definition PRINT_SIZE :: nat where "PRINT_SIZE = 10240"

record print_st =
  curr_buf :: pbuf
  curr_len :: u32
  dma_buf :: pbuf
  dma_done :: bool
  buf_bytes :: "pbuf \<Rightarrow> u8 list"
  submitted :: "u8 list list"

text \<open>\<open>None\<close> from the channel allocator is the panic.\<close>

definition print_dma_init :: "dma_sys \<Rightarrow> print_st \<Rightarrow> (nat \<times> dma_sys \<times> print_st) res" where
  "print_dma_init d s =
     (case alloc_dma_channel d of
        (None, _) \<Rightarrow> Inl (Panic ''Cant allocate DMA channel'')
      | (Some ch, d') \<Rightarrow>
          Inr (ch, d', s\<lparr>curr_buf := BufA, dma_buf := BufB, curr_len := 0, dma_done := True\<rparr>))"

definition print_request :: "u32 \<Rightarrow> u32 \<Rightarrow> u32 \<Rightarrow> u32 \<Rightarrow> dma_req" where
  "print_request thr callback buf len =
     \<lparr>src_addr = buf - 0x60000000, dest_addr = thr,
      req_cfg = \<lparr>perid = 37, cfg_type = DMA_TYPE_MEM_PER, cfg_burst = DMA_BURST_1, cfg_chunk = DMA_CHUNK_1,
        cfg_data = DMA_DATA_U8, cfg_trigger = DMA_TRIGGER_HW, cfg_dest_am = DMA_AM_FIXED,
        cfg_src_am = DMA_AM_INC, cfg_non_secure = 0, cfg_memset = 0, cfg_src_interface = 0,
        cfg_dest_interface = 1\<rparr>,
      ublock_len = len, ublock_cnt = 1, transfer_done = callback\<rparr>"

definition flush_buffer :: "print_st \<Rightarrow> print_st" where
  "flush_buffer s =
     s\<lparr>dma_done := False, submitted := submitted s @ [take (unat (curr_len s)) (buf_bytes s (curr_buf s))],
       curr_buf := dma_buf s, dma_buf := curr_buf s, curr_len := 0\<rparr>"

definition print_dma_callback :: "print_st \<Rightarrow> print_st" where
  "print_dma_callback s =
     (let s1 = s\<lparr>dma_done := True\<rparr> in if curr_len s1 \<noteq> 0 then flush_buffer s1 else s1)"

text \<open>The formatting half of \<^verbatim>\<open>print\<close>, up to the critical section, and the rest.\<close>

definition print_format :: "u8 list option \<Rightarrow> arg list \<Rightarrow> print_st \<Rightarrow> (u32 \<times> print_st) res" where
  "print_format data args s =
     res_bind (vsprint data args) (\<lambda>out.
     res_bind (put_bytes (buf_bytes s (curr_buf s)) (unat (curr_len s)) out) (\<lambda>bs.
       Inr (of_nat (length out), s\<lparr>buf_bytes := (buf_bytes s)(curr_buf s := bs)\<rparr>)))"

definition print_commit :: "u32 \<Rightarrow> print_st \<Rightarrow> print_st" where
  "print_commit cnt s =
     (let s1 = s\<lparr>curr_len := curr_len s + cnt\<rparr> in if dma_done s1 then flush_buffer s1 else s1)"

definition print :: "u8 list option \<Rightarrow> arg list \<Rightarrow> print_st \<Rightarrow> print_st res" where
  "print data args s = res_bind (print_format data args s) (\<lambda>(cnt, s1). Inr (print_commit cnt s1))"

text \<open>
  \<^verbatim>\<open>print_task\<close> and \<^verbatim>\<open>print_dep\<close> format into a buffer of 1024 bytes and send its bytes one by one on
  UART4 and UART1: the result is what is sent.
\<close>

definition print_polled :: "u8 list option \<Rightarrow> arg list \<Rightarrow> u8 list res" where
  "print_polled data args =
     res_bind (vsprint data args) (\<lambda>out. if length out \<le> 1024 then Inr out else Inl OutOfBounds)"

definition print_task :: "u8 list option \<Rightarrow> arg list \<Rightarrow> u8 list res" where
  "print_task data args = print_polled data args"

definition print_dep :: "u8 list option \<Rightarrow> arg list \<Rightarrow> u8 list res" where
  "print_dep data args = print_polled data args"

subsection \<open>The stream of bytes\<close>

datatype print_event = Printed "u8 list option" "arg list" | Completed

definition print_step :: "print_event \<Rightarrow> print_st \<Rightarrow> print_st res" where
  "print_step e s =
     (case e of
        Printed data args \<Rightarrow> print data args s
      | Completed \<Rightarrow> if dma_done s then Inr s else Inr (print_dma_callback s))"

fun print_run :: "print_event list \<Rightarrow> print_st \<Rightarrow> print_st res" where
  "print_run [] s = Inr s"
| "print_run (e # es) s = res_bind (print_step e s) (print_run es)"

definition printed_bytes :: "print_event \<Rightarrow> u8 list" where
  "printed_bytes e = (case e of Printed data args \<Rightarrow> (case vsprint data args of Inr out \<Rightarrow> out | Inl _ \<Rightarrow> [])
     | Completed \<Rightarrow> [])"

definition pending :: "print_st \<Rightarrow> u8 list" where
  "pending s = take (unat (curr_len s)) (buf_bytes s (curr_buf s))"

definition stream :: "print_st \<Rightarrow> u8 list" where
  "stream s = concat (submitted s) @ pending s"

text \<open>
  The current buffer is not the one the DMA reads, which holds the block under way, and nothing
  waits while the DMA is idle.
\<close>

definition print_inv :: "print_st \<Rightarrow> bool" where
  "print_inv s \<longleftrightarrow> curr_buf s \<noteq> dma_buf s \<and> unat (curr_len s) \<le> PRINT_SIZE \<and>
     (\<forall>b. length (buf_bytes s b) = PRINT_SIZE) \<and>
     (\<not> dma_done s \<longrightarrow> submitted s \<noteq> [] \<and>
        take (length (last (submitted s))) (buf_bytes s (dma_buf s)) = last (submitted s)) \<and>
     (dma_done s \<longrightarrow> curr_len s = 0)"

lemma flush_inv:
  assumes "print_inv (s\<lparr>curr_len := 0\<rparr>)" and "unat (curr_len s) \<le> PRINT_SIZE"
  shows "print_inv (flush_buffer s)" and "stream (flush_buffer s) = stream s"
  using assms by (auto simp: print_inv_def flush_buffer_def stream_def pending_def)

lemma callback_inv:
  assumes "print_inv s"
  shows "print_inv (print_dma_callback s)" and "stream (print_dma_callback s) = stream s"
proof -
  have "print_inv (s\<lparr>dma_done := True, curr_len := 0\<rparr>)" "unat (curr_len s) \<le> PRINT_SIZE"
    using assms by (auto simp: print_inv_def)
  then have "print_inv (flush_buffer (s\<lparr>dma_done := True\<rparr>))"
    "stream (flush_buffer (s\<lparr>dma_done := True\<rparr>)) = stream (s\<lparr>dma_done := True\<rparr>)"
    using flush_inv [of "s\<lparr>dma_done := True\<rparr>"] by simp_all
  moreover have "stream (s\<lparr>dma_done := True\<rparr>) = stream s" by (simp add: stream_def pending_def)
  moreover have "print_inv (s\<lparr>dma_done := True\<rparr>)" if "curr_len s = 0" using assms that by (auto simp: print_inv_def)
  ultimately show "print_inv (print_dma_callback s)" "stream (print_dma_callback s) = stream s"
    by (simp_all add: print_dma_callback_def Let_def)
qed

lemma print_inv_step:
  assumes inv: "print_inv s" and r: "print data args s = Inr s'"
  shows "print_inv s'" and "stream s' = stream s @ printed_bytes (Printed data args)"
proof -
  obtain out bs where o: "vsprint data args = Inr out"
    "put_bytes (buf_bytes s (curr_buf s)) (unat (curr_len s)) out = Inr bs"
    "s' = print_commit (of_nat (length out)) (s\<lparr>buf_bytes := (buf_bytes s)(curr_buf s := bs)\<rparr>)"
    using r by (auto simp: print_def print_format_def res_bind_Inr_iff)
  let ?l = "unat (curr_len s)"
  let ?s1 = "s\<lparr>buf_bytes := (buf_bytes s)(curr_buf s := bs), curr_len := curr_len s + of_nat (length out)\<rparr>"
  have len: "length (buf_bytes s b) = PRINT_SIZE" for b using inv by (simp add: print_inv_def)
  have w: "?l + length out \<le> PRINT_SIZE" "bs = take ?l (buf_bytes s (curr_buf s)) @ out @ drop (?l + length out) (buf_bytes s (curr_buf s))"
    using o(2) len by (simp_all add: put_bytes_Inr)
  have "length out < 4294967296" using w(1) by (simp add: PRINT_SIZE_def)
  then have u: "unat (of_nat (length out) :: u32) = length out" by (simp add: unat_of_nat)
  then have l: "unat (curr_len s + of_nat (length out)) = ?l + length out"
    using w(1) by (subst unat_add_u32) (simp_all add: PRINT_SIZE_def)
  have bl: "length bs = PRINT_SIZE" using put_bytes_length [OF o(2)] len by simp
  have pre: "take (?l + length out) bs = take ?l (buf_bytes s (curr_buf s)) @ out"
    using w len by simp
  have st: "stream ?s1 = stream s @ out" using pre l by (simp add: stream_def pending_def)
  have ne: "curr_buf s \<noteq> dma_buf s" using inv by (simp add: print_inv_def)
  have i1: "print_inv (?s1\<lparr>curr_len := 0\<rparr>)" using inv bl ne by (auto simp: print_inv_def)
  have s': "s' = (if dma_done s then flush_buffer ?s1 else ?s1)"
    using o(3) by (simp add: print_commit_def Let_def)
  have "print_inv s' \<and> stream s' = stream s @ out"
  proof (cases "dma_done s")
    case True
    then show ?thesis using flush_inv [OF i1] l w(1) st s' by simp
  next
    case False
    have "print_inv ?s1" using inv bl ne l w(1) False by (auto simp: print_inv_def)
    then show ?thesis using False st s' by simp
  qed
  then show "print_inv s'" "stream s' = stream s @ printed_bytes (Printed data args)"
    using o(1) by (simp_all add: printed_bytes_def)
qed

lemma print_step_inv:
  assumes "print_inv s" and "print_step e s = Inr s'"
  shows "print_inv s' \<and> stream s' = stream s @ printed_bytes e"
proof (cases e)
  case (Printed data args)
  then show ?thesis using print_inv_step [OF assms(1)] assms(2) by (simp add: print_step_def)
next
  case Completed
  then show ?thesis using callback_inv [OF assms(1)] assms
    by (auto simp: print_step_def printed_bytes_def split: if_splits)
qed

lemma print_run_inv:
  "print_inv s \<Longrightarrow> print_run es s = Inr s' \<Longrightarrow> print_inv s' \<and> stream s' = stream s @ concat (map printed_bytes es)"
proof (induction es arbitrary: s)
  case (Cons e es)
  obtain s1 where s1: "print_step e s = Inr s1" "print_run es s1 = Inr s'"
    using Cons.prems(2) by (auto simp: res_bind_Inr_iff)
  note st = print_step_inv [OF Cons.prems(1) s1(1)]
  then show ?case using Cons.IH [OF _ s1(2)] by simp
qed simp


text \<open>A message that fits the current buffer is printed without a fault.\<close>

lemma print_fits:
  assumes "print_inv s" and "vsprint data args = Inr out" and "unat (curr_len s) + length out \<le> PRINT_SIZE"
  shows "\<exists>s'. print data args s = Inr s'"
  using assms by (simp add: print_def print_format_def put_bytes_def print_inv_def)

text \<open>
  The completion of a transfer between the two halves: the message is in the buffer that was
  swapped away, and its length is counted in the other one, whose old bytes are sent instead.
\<close>

lemma print_race:
  assumes "print_inv s" and "curr_len s \<noteq> 0" and "print_format data args s = Inr (cnt, s1)"
  shows "pending (print_commit cnt (print_dma_callback s1)) = take (unat cnt) (buf_bytes s (dma_buf s)) \<and>
    submitted (print_commit cnt (print_dma_callback s1)) = submitted s @ [pending s]"
proof -
  obtain out bs where o: "put_bytes (buf_bytes s (curr_buf s)) (unat (curr_len s)) out = Inr bs"
    "s1 = s\<lparr>buf_bytes := (buf_bytes s)(curr_buf s := bs)\<rparr>" "cnt = of_nat (length out)"
    using assms(3) by (auto simp: print_format_def res_bind_Inr_iff)
  have pre: "take (unat (curr_len s)) bs = pending s"
    using o(1) by (auto simp: put_bytes_Inr pending_def)
  have ne: "curr_buf s \<noteq> dma_buf s" using assms(1) by (simp add: print_inv_def)
  show ?thesis using assms(2) ne pre o(2)
    by (simp add: print_dma_callback_def flush_buffer_def print_commit_def Let_def pending_def)
qed

subsection \<open>Properties\<close>


definition demo_print :: print_st where
  "demo_print = \<lparr>curr_buf = BufA, curr_len = 0, dma_buf = BufB, dma_done = True,
     buf_bytes = \<lambda>_. replicate PRINT_SIZE 0, submitted = []\<rparr>"

lemma demo_vsprint: "vsprint (Some (str_bytes ''%d'')) [Num 42] = Inr (str_bytes ''42'')"
  by code_simp


end
