(* ===== verification/Loader.thy ===== *)
theory Loader
  imports Thread Bytes
begin

text \<open>
  Programs that arrive over the serial line: \<^verbatim>\<open>entry/dma_receive.c\<close> checks a packet and gathers
  the file, and \<^verbatim>\<open>kernel/elf.c\<close> starts it as a process. Files and packets lie in the memory of
  \<^verbatim>\<open>Mm\<close>. What the routines print is left out. The addresses of \<^verbatim>\<open>thread_exit\<close> and of the name
  \<^verbatim>\<open>elf-app\<close> are arguments.
\<close>

subsection \<open>ELF files\<close>

text \<open>The fields of \<^verbatim>\<open>struct elf_header\<close> and of the first \<^verbatim>\<open>struct elf_prog_header\<close> of a file at \<open>a\<close>.\<close>

record elf_header =
  eh_type :: u16
  eh_version :: u32
  eh_entry :: u32
  eh_phoff :: u32
  eh_phentsize :: u16
  eh_phnum :: u16

record elf_prog_header =
  ph_type :: u32
  ph_offset :: u32
  ph_vaddr :: u32
  ph_filesz :: u32
  ph_memsz :: u32

definition PT_LOAD :: u32 where "PT_LOAD = 1"

definition load_elf_header :: "mem \<Rightarrow> u32 \<Rightarrow> elf_header" where
  "load_elf_header m a =
     \<lparr>eh_type = read_le16 m (a + 16), eh_version = load_word m (a + 20), eh_entry = load_word m (a + 24),
      eh_phoff = load_word m (a + 28), eh_phentsize = read_le16 m (a + 42), eh_phnum = read_le16 m (a + 44)\<rparr>"

definition load_prog_header :: "mem \<Rightarrow> u32 \<Rightarrow> elf_prog_header" where
  "load_prog_header m a =
     \<lparr>ph_type = load_word m a, ph_offset = load_word m (a + 4), ph_vaddr = load_word m (a + 8),
      ph_filesz = load_word m (a + 16), ph_memsz = load_word m (a + 20)\<rparr>"

text \<open>The loop over the program headers; the pointer to the header does not move.\<close>

fun sum_loadable :: "nat \<Rightarrow> elf_prog_header \<Rightarrow> u32 \<Rightarrow> u32" where
  "sum_loadable 0 ph bin_size = bin_size"
| "sum_loadable (Suc n) ph bin_size =
     sum_loadable n ph (if ph_type ph = PT_LOAD then bin_size + ph_filesz ph else bin_size)"

definition elf_get_binary_size :: "u32 \<Rightarrow> u32 \<Rightarrow> mem \<Rightarrow> u32" where
  "elf_get_binary_size data sz m =
     (let h = load_elf_header m data in
      if sz < eh_phoff h + ucast (eh_phnum h) * ucast (eh_phentsize h) then 0
      else sum_loadable (unat (eh_phnum h)) (load_prog_header m (data + eh_phoff h)) 0)"

fun copy_loadable :: "nat \<Rightarrow> u32 \<Rightarrow> u32 \<Rightarrow> u32 \<Rightarrow> mem \<Rightarrow> mem" where
  "copy_loadable 0 elf pha binary m = m"
| "copy_loadable (Suc n) elf pha binary m =
     (let ph = load_prog_header m pha in
      if ph_type ph = PT_LOAD
      then copy_loadable n elf pha (binary + ph_filesz ph)
             (mem_copy (elf + ph_offset ph) binary (ph_filesz ph) m)
      else copy_loadable n elf pha binary m)"

definition objcopy :: "u32 \<Rightarrow> u32 \<Rightarrow> mem \<Rightarrow> mem" where
  "objcopy elf binary m =
     (let h = load_elf_header m elf in copy_loadable (unat (eh_phnum h)) elf (elf + eh_phoff h) binary m)"

text \<open>Only the first program header of the file is looked at, whatever its type.\<close>

definition elf_init :: "u32 \<Rightarrow> u32 \<Rightarrow> u32 \<Rightarrow> kernel \<Rightarrow> kernel res" where
  "elf_init te name elf_data k =
     (let m = kmem (k_mm k); h = load_elf_header m elf_data;
          ph = load_prog_header m (elf_data + eh_phoff h);
          bin_order = pages_to_order (align_up_ptr (ph_memsz ph) 4096 div 4096) in
      res_bind (alloc_pages bin_order (k_mm k)) (\<lambda>(page, mm1).
      let k1 = k\<lparr>k_mm := mm1\<lparr>kmem := mem_copy (elf_data + ph_offset ph) (page_to_va mm1 page)
             (ph_filesz ph) (kmem mm1)\<rparr>\<rparr> in
      res_bind (create_process te (eh_entry h) 500 name 0 0 k1) (\<lambda>(t, k2).
      let ma = tb_mmap (tcbs k2 t) in
      res_bind (mm_map_in_pages (mmaps k2 ma) page (push_bit bin_order 1) (ph_vaddr ph) user_attr (k_mm k2))
        (\<lambda>(err, m3, mm3).
      res_bind (assert_that err) (\<lambda>_. Inr (k2\<lparr>k_mm := mm3, mmaps := (mmaps k2)(ma := m3)\<rparr>))))))"

subsection \<open>Packets\<close>

definition DMA_BUFFER_SIZE :: nat where "DMA_BUFFER_SIZE = 4096 + 32 * 10"
definition CRC_POLY :: u8 where "CRC_POLY = 0x45"
definition PACKET_TAG :: u8 where "PACKET_TAG = 0xCA"
definition CMD_DATA :: u8 where "CMD_DATA = 0"
definition CMD_SIZE :: u8 where "CMD_SIZE = 1"
definition CMD_RESET :: u8 where "CMD_RESET = 2"
definition CMD_KILL :: u8 where "CMD_KILL = 3"

record loader =
  elf_page_buffer :: u32
  elf_buffer :: u32
  write_ptr :: u32
  elf_size :: u32
  pos_x :: u16
  pos_y :: u16

definition clear_elf_buffers :: "loader \<Rightarrow> loader" where
  "clear_elf_buffers l = l\<lparr>elf_buffer := 0, write_ptr := 0\<rparr>"

definition alloc_elf_buffers :: "u32 \<Rightarrow> loader \<Rightarrow> kernel \<Rightarrow> (loader \<times> kernel) res" where
  "alloc_elf_buffers sz l k =
     (let l1 = clear_elf_buffers l in
      res_bind (alloc_pages (bytes_to_order sz) (k_mm k)) (\<lambda>(page, mm1).
        let l2 = l1\<lparr>elf_page_buffer := page\<rparr>; k1 = k\<lparr>k_mm := mm1\<rparr> in
        if page \<noteq> 0
        then Inr (l2\<lparr>elf_buffer := page_to_va mm1 page, write_ptr := page_to_va mm1 page, elf_size := sz\<rparr>, k1)
        else Inr (l2, k1)))"

text \<open>The reset of the processor ends the run as a panic does.\<close>

definition handle_packet :: "u32 \<Rightarrow> u32 \<Rightarrow> u32 \<Rightarrow> u32 \<Rightarrow> u8 \<Rightarrow> loader \<Rightarrow> kernel \<Rightarrow> (bool \<times> loader \<times> kernel) res" where
  "handle_packet te name data sz cmd l k =
     (let m = kmem (k_mm k) in
      if cmd = CMD_SIZE then
        if sz \<noteq> 4 then Inl (Panic ''Size packet is not 32-bytes'')
        else res_bind (alloc_elf_buffers (read_le32 m data) l k) (\<lambda>(l1, k1). Inr (True, l1, k1))
      else if cmd = CMD_DATA then
        if sz \<noteq> 0 \<and> write_ptr l = 0 then Inl NullPointer
        else
          let k1 = k\<lparr>k_mm := (k_mm k)\<lparr>kmem := copy_bytes (unat sz) data (write_ptr l) m\<rparr>\<rparr>;
              l1 = l\<lparr>write_ptr := write_ptr l + sz\<rparr> in
          if sz \<noteq> 4096
          then res_bind (elf_init te name (elf_buffer l1) k1) (\<lambda>k2. Inr (True, clear_elf_buffers l1, k2))
          else Inr (True, l1, k1)
      else if cmd = CMD_RESET then Inl (Panic ''Reset'')
      else if cmd = 11 then
        let x = read_le16 m data; y = read_le16 m (data + 2);
            x1 = (if 800 - 17 \<le> x then 800 - 17 else x); y1 = (if 480 - 25 \<le> y then 480 - 25 else y)
        in Inr (True, l\<lparr>pos_x := x1, pos_y := y1\<rparr>, k)
      else Inr (True, l, k))"

definition process_packet :: "u32 \<Rightarrow> u32 \<Rightarrow> u32 \<Rightarrow> u32 \<Rightarrow> loader \<Rightarrow> kernel \<Rightarrow> (bool \<times> loader \<times> kernel) res" where
  "process_packet te name data sz l k =
     (let m = kmem (k_mm k); tag = m data; crc0 = m (data + 1); cmd = m (data + 2);
          header_size = (ucast (m (data + 3)) :: u32) in
      if tag \<noteq> PACKET_TAG then Inr (False, l, k)
      else
        let data_size = read_le32 m (data + 4) in
        if data_size + header_size \<noteq> sz then Inr (False, l, k)
        else if crc_calculate m (data + header_size) data_size CRC_POLY \<noteq> crc0 then Inr (False, l, k)
        else handle_packet te name (data + header_size) data_size cmd l k)"

text \<open>The receive timeout: the DMA has put \<open>pkt\<close> into \<^verbatim>\<open>dma_buffer\<close>; the result is the response.\<close>

definition uart4_interrupt :: "u32 \<Rightarrow> u32 \<Rightarrow> u32 \<Rightarrow> u8 list \<Rightarrow> loader \<Rightarrow> kernel \<Rightarrow> (bool \<times> loader \<times> kernel) res" where
  "uart4_interrupt te name dma_buffer pkt l k =
     process_packet te name dma_buffer (of_nat (length pkt)) l
       (k\<lparr>k_mm := (k_mm k)\<lparr>kmem := write_bytes dma_buffer pkt (kmem (k_mm k))\<rparr>\<rparr>)"

fun receive_all :: "u32 \<Rightarrow> u32 \<Rightarrow> u32 \<Rightarrow> u8 list list \<Rightarrow> loader \<Rightarrow> kernel \<Rightarrow> (bool list \<times> loader \<times> kernel) res" where
  "receive_all te name buf [] l k = Inr ([], l, k)"
| "receive_all te name buf (p # ps) l k =
     res_bind (uart4_interrupt te name buf p l k) (\<lambda>(ok, l1, k1).
     res_bind (receive_all te name buf ps l1 k1) (\<lambda>(oks, l2, k2). Inr (ok # oks, l2, k2)))"


subsection \<open>Gathering a file\<close>

lemma read_le32_bytes: "read_le32 m p = le32_of (m p) (m (p + 1)) (m (p + 2)) (m (p + 3))"
  by (simp add: read_le32_def le32_of_def be32_of_def or.commute or.left_commute)

definition mk_packet :: "u8 \<Rightarrow> u8 list \<Rightarrow> u8 list" where
  "mk_packet cmd payload =
     [PACKET_TAG, crc_bytes CRC_POLY payload, cmd, 8] @ le32_bytes (of_nat (length payload)) @ payload"

lemma mk_packet_length [simp]: "length (mk_packet cmd ps) = 8 + length ps"
  by (simp add: mk_packet_def)

lemma packet_byte:
  assumes "length ps \<le> 4096" and "i < 8 + length ps"
  shows "write_bytes buf (mk_packet cmd ps) m (buf + of_nat i) = mk_packet cmd ps ! i"
  using assms by (subst write_bytes_apply) (simp_all add: unat_of_nat)

lemma packet_fields:
  fixes m :: mem and buf :: u32 and cmd :: u8
  assumes "length ps \<le> 4096"
  defines "m' \<equiv> write_bytes buf (mk_packet cmd ps) m"
  shows "m' buf = PACKET_TAG" and "m' (buf + 1) = crc_bytes CRC_POLY ps" and "m' (buf + 2) = cmd"
    and "m' (buf + 3) = 8" and "read_le32 m' (buf + 4) = of_nat (length ps)"
    and "mem_slice m' (buf + 8) (length ps) = ps"
proof -
  have b: "m' (buf + of_nat i) = mk_packet cmd ps ! i" if "i < 8 + length ps" for i
    unfolding m'_def by (rule packet_byte [OF assms(1) that])
  show "m' buf = PACKET_TAG" "m' (buf + 1) = crc_bytes CRC_POLY ps" "m' (buf + 2) = cmd" "m' (buf + 3) = 8"
    using b [of 0] b [of 1] b [of 2] b [of 3] by (simp_all add: mk_packet_def)
  have "m' (buf + 4 + of_nat j) = le32_bytes (of_nat (length ps)) ! j" if "j < 4" for j
    using b [of "4 + j"] that by (simp add: mk_packet_def nth_append add.assoc)
  from this [of 0] this [of 1] this [of 2] this [of 3]
  show "read_le32 m' (buf + 4) = of_nat (length ps)"
    by (simp add: read_le32_bytes le32_bytes_def be32_bytes_def le32_of_def)
  show "mem_slice m' (buf + 8) (length ps) = ps"
  proof (rule nth_equalityI)
    fix i assume i: "i < length (mem_slice m' (buf + 8) (length ps))"
    then show "mem_slice m' (buf + 8) (length ps) ! i = ps ! i"
      using b [of "8 + i"] by (simp add: mem_slice_def mk_packet_def nth_append add.assoc)
  qed (simp add: mem_slice_def)
qed

lemma process_mk_packet:
  assumes "length ps \<le> 4096" and "kmem (k_mm k) = write_bytes buf (mk_packet cmd ps) m"
  shows "process_packet te name buf (of_nat (length (mk_packet cmd ps))) l k =
    handle_packet te name (buf + 8) (of_nat (length ps)) cmd l k"
proof -
  note f = packet_fields [OF assms(1), where buf = buf and cmd = cmd and m = m]
  have u: "unat (of_nat (length ps) :: u32) = length ps" using assms(1) by (simp add: unat_of_nat)
  have e: "(ucast (8 :: u8) :: u32) = 8" by simp
  have sz: "of_nat (length ps) + 8 = (of_nat (length (mk_packet cmd ps)) :: u32)" by simp
  have crc: "crc_calculate (write_bytes buf (mk_packet cmd ps) m) (buf + 8) (of_nat (length ps)) CRC_POLY =
      crc_bytes CRC_POLY ps" unfolding crc_calculate_def u f(6) by (rule refl)
  show ?thesis unfolding process_packet_def Let_def assms(2) f(1-5) e sz crc simp_thms if_False
    by (rule TrueI)
qed

lemma packet_accepted:
  assumes "length ps \<le> 4096"
  shows "uart4_interrupt te name buf (mk_packet cmd ps) l k =
    handle_packet te name (buf + 8) (of_nat (length ps)) cmd l
      (k\<lparr>k_mm := (k_mm k)\<lparr>kmem := write_bytes buf (mk_packet cmd ps) (kmem (k_mm k))\<rparr>\<rparr>)"
  unfolding uart4_interrupt_def by (rule process_mk_packet [OF assms]) simp

lemma mem_slice_add: "mem_slice m w (a + b) = mem_slice m w a @ mem_slice m (w + of_nat a) b"
proof -
  have "map (\<lambda>i. m (w + of_nat i)) [a..<a + b] = map (\<lambda>i. m (w + of_nat a + of_nat i)) [0..<b]"
    by (rule nth_equalityI) (simp_all add: add.assoc)
  moreover have "[0..<a + b] = [0..<a] @ [a..<a + b]" by (rule upt_add_eq_append) simp
  ultimately show ?thesis by (simp add: mem_slice_def)
qed

lemma mem_slice_cong: "(\<And>i. i < n \<Longrightarrow> m' (p + of_nat i) = m (p + of_nat i)) \<Longrightarrow> mem_slice m' p n = mem_slice m p n"
  by (simp add: mem_slice_def)

text \<open>Two regions of memory apart from each other, the first of at most 4104 bytes.\<close>

definition apart :: "u32 \<Rightarrow> u32 \<Rightarrow> nat \<Rightarrow> bool" where
  "apart buf w n \<longleftrightarrow> (\<forall>b. unat (b - buf) < 4104 \<longrightarrow> \<not> unat (b - w) < n)"

lemma apart_layout:
  assumes "unat buf + 4104 \<le> unat w \<or> unat w + n \<le> unat buf" and "unat buf + 4104 < 4294967296"
    and "unat w + n < 4294967296"
  shows "apart buf w n"
  unfolding apart_def
proof (intro allI impI notI)
  fix b assume b: "unat (b - buf) < 4104" "unat (b - w) < n"
  have "unat (buf + (b - buf)) = unat buf + unat (b - buf)"
    using b(1) assms(2) by (intro unat_add_u32) linarith
  moreover have "unat (w + (b - w)) = unat w + unat (b - w)"
    using b(2) assms(3) by (intro unat_add_u32) linarith
  ultimately show False using b assms(1) by simp
qed

lemma data_packet_step:
  assumes ps: "length ps = 4096" and w: "write_ptr l \<noteq> 0" and ap: "apart buf (write_ptr l) 4096"
  shows "\<exists>m'. uart4_interrupt te name buf (mk_packet CMD_DATA ps) l k =
      Inr (True, l\<lparr>write_ptr := write_ptr l + 4096\<rparr>, k\<lparr>k_mm := (k_mm k)\<lparr>kmem := m'\<rparr>\<rparr>) \<and>
    mem_slice m' (write_ptr l) 4096 = ps \<and>
    (\<forall>a. \<not> unat (a - buf) < 4104 \<longrightarrow> \<not> unat (a - write_ptr l) < 4096 \<longrightarrow> m' a = kmem (k_mm k) a)"
proof -
  define m1 where "m1 = write_bytes buf (mk_packet CMD_DATA ps) (kmem (k_mm k))"
  define m' where "m' = copy_bytes 4096 (buf + 8) (write_ptr l) m1"
  have u: "unat (of_nat (length ps) :: u32) = 4096" using ps by simp
  have dis: "\<not> unat (b - write_ptr l) < 4096" if "unat (b - (buf + 8)) < 4096" for b
  proof -
    have e: "b - buf = (b - (buf + 8)) + 8" by simp
    have "unat ((b - (buf + 8)) + 8) = unat (b - (buf + 8)) + unat (8 :: u32)"
      using that by (intro unat_add_u32) simp
    then have "unat (b - buf) < 4104" unfolding e using that by simp
    then show ?thesis using ap by (simp add: apart_def)
  qed
  have m': "m' a = (if unat (a - write_ptr l) < 4096 then m1 (buf + 8 + (a - write_ptr l)) else m1 a)" for a
    unfolding m'_def by (rule copy_bytes_apply) (simp_all add: dis)
  have r: "uart4_interrupt te name buf (mk_packet CMD_DATA ps) l k =
      Inr (True, l\<lparr>write_ptr := write_ptr l + 4096\<rparr>, k\<lparr>k_mm := (k_mm k)\<lparr>kmem := m'\<rparr>\<rparr>)"
    using packet_accepted [of ps te name buf CMD_DATA l k] ps w
    by (simp add: handle_packet_def CMD_DATA_def CMD_SIZE_def m'_def m1_def)
  have "mem_slice m1 (buf + 8) 4096 = ps"
    using packet_fields(6) [of ps buf CMD_DATA] ps by (simp add: m1_def)
  moreover have "mem_slice m' (write_ptr l) 4096 = mem_slice m1 (buf + 8) 4096"
    by (rule nth_equalityI) (simp_all add: mem_slice_def m' unat_of_nat)
  moreover have "m' a = kmem (k_mm k) a" if "\<not> unat (a - buf) < 4104" "\<not> unat (a - write_ptr l) < 4096" for a
    using that ps by (simp add: m' m1_def write_bytes_apply)
  ultimately show ?thesis using r by (intro exI [of _ m']) simp
qed

lemma receive_data:
  assumes "\<forall>ps \<in> set pss. length ps = 4096" and "unat (write_ptr l) + 4096 * length pss < 4294967296"
    and "write_ptr l \<noteq> 0" and "apart buf (write_ptr l) (4096 * length pss)"
  shows "\<exists>m'. receive_all te name buf (map (mk_packet CMD_DATA) pss) l k =
      Inr (replicate (length pss) True, l\<lparr>write_ptr := write_ptr l + of_nat (4096 * length pss)\<rparr>,
        k\<lparr>k_mm := (k_mm k)\<lparr>kmem := m'\<rparr>\<rparr>) \<and>
    mem_slice m' (write_ptr l) (4096 * length pss) = concat pss \<and>
    (\<forall>a. \<not> unat (a - buf) < 4104 \<longrightarrow> \<not> unat (a - write_ptr l) < 4096 * length pss \<longrightarrow> m' a = kmem (k_mm k) a)"
  using assms
proof (induction pss arbitrary: l k)
  case Nil
  show ?case by (intro exI [of _ "kmem (k_mm k)"]) (simp add: mem_slice_def)
next
  case (Cons ps pss)
  let ?w = "write_ptr l" and ?n = "4096 * length pss"
  have ps: "length ps = 4096" using Cons.prems(1) by simp
  have sz: "unat ?w + 4096 + ?n < 4294967296" using Cons.prems(2) by simp
  have ap: "apart buf ?w 4096" using Cons.prems(4) by (auto simp: apart_def)
  obtain m1 where m1: "uart4_interrupt te name buf (mk_packet CMD_DATA ps) l k =
      Inr (True, l\<lparr>write_ptr := ?w + 4096\<rparr>, k\<lparr>k_mm := (k_mm k)\<lparr>kmem := m1\<rparr>\<rparr>)"
    "mem_slice m1 ?w 4096 = ps"
    "\<forall>a. \<not> unat (a - buf) < 4104 \<longrightarrow> \<not> unat (a - ?w) < 4096 \<longrightarrow> m1 a = kmem (k_mm k) a"
    using data_packet_step [OF ps Cons.prems(3) ap] by blast
  define l1 where "l1 = l\<lparr>write_ptr := ?w + 4096\<rparr>"
  define k1 where "k1 = k\<lparr>k_mm := (k_mm k)\<lparr>kmem := m1\<rparr>\<rparr>"
  have w1: "write_ptr l1 = ?w + 4096" by (simp add: l1_def)
  have u1: "unat (?w + 4096) = unat ?w + 4096" using sz by (subst unat_add_u32) simp_all
  have off: "unat (a - ?w) = 4096 + unat (a - (?w + 4096))" if "unat (a - (?w + 4096)) < ?n" for a
  proof -
    have "unat ((a - (?w + 4096)) + 4096) = unat (a - (?w + 4096)) + unat (4096 :: u32)"
      using that sz by (intro unat_add_u32) simp
    then show ?thesis by simp
  qed
  have "apart buf (write_ptr l1) ?n" unfolding apart_def w1
  proof (intro allI impI notI)
    fix b assume "unat (b - buf) < 4104" "unat (b - (?w + 4096)) < ?n"
    then show False using off [of b] Cons.prems(4) by (auto simp: apart_def)
  qed
  moreover have "unat (write_ptr l1) + ?n < 4294967296" unfolding w1 u1 using sz by simp
  moreover have "write_ptr l1 \<noteq> 0" unfolding w1 using u1 by auto
  moreover have "\<forall>ps \<in> set pss. length ps = 4096" using Cons.prems(1) by simp
  ultimately obtain m2 where m2: "receive_all te name buf (map (mk_packet CMD_DATA) pss) l1 k1 =
      Inr (replicate (length pss) True, l1\<lparr>write_ptr := ?w + 4096 + of_nat ?n\<rparr>, k1\<lparr>k_mm := (k_mm k1)\<lparr>kmem := m2\<rparr>\<rparr>)"
    "mem_slice m2 (?w + 4096) ?n = concat pss"
    "\<forall>a. \<not> unat (a - buf) < 4104 \<longrightarrow> \<not> unat (a - (?w + 4096)) < ?n \<longrightarrow> m2 a = m1 a"
    using Cons.IH [of l1 k1] unfolding w1 by (auto simp: k1_def)
  have keep: "m2 (?w + of_nat i) = m1 (?w + of_nat i)" if i: "i < 4096" for i
  proof -
    have iw: "unat (?w + of_nat i - ?w) = i" using i by (simp add: unat_of_nat)
    then have "\<not> unat (?w + of_nat i - buf) < 4104" using ap i by (auto simp: apart_def)
    moreover have "\<not> unat (?w + of_nat i - (?w + 4096)) < ?n" using off [of "?w + of_nat i"] iw i by auto
    ultimately show ?thesis using m2(3) by blast
  qed
  have "mem_slice m2 ?w (4096 + ?n) = mem_slice m2 ?w 4096 @ mem_slice m2 (?w + of_nat 4096) ?n"
    by (rule mem_slice_add)
  also have "mem_slice m2 ?w 4096 = mem_slice m1 ?w 4096" by (rule mem_slice_cong) (rule keep)
  also have "\<dots> = ps" by (rule m1(2))
  finally have sl: "mem_slice m2 ?w (4096 * length (ps # pss)) = concat (ps # pss)" using m2(2) by simp
  have other: "m2 a = kmem (k_mm k) a"
    if "\<not> unat (a - buf) < 4104" "\<not> unat (a - ?w) < 4096 * length (ps # pss)" for a
  proof -
    have "\<not> unat (a - (?w + 4096)) < ?n" using off [of a] that(2) by auto
    moreover have "\<not> unat (a - ?w) < 4096" using that(2) by auto
    ultimately show ?thesis using m2(3) m1(3) that(1) by simp
  qed
  show ?case using m1(1) m2(1) sl other
    by (intro exI [of _ m2]) (simp add: l1_def [symmetric] k1_def [symmetric], simp add: l1_def k1_def add.assoc)
qed


subsection \<open>The size of a binary\<close>

text \<open>Both loops read the first program header every time.\<close>

lemma sum_loadable_closed:
  "sum_loadable n ph s = (if ph_type ph = PT_LOAD then s + of_nat n * ph_filesz ph else s)"
  by (induction n arbitrary: s) (simp_all add: algebra_simps)

lemma elf_binary_size_first:
  assumes "\<not> sz < eh_phoff (load_elf_header m data) + ucast (eh_phnum (load_elf_header m data)) *
      ucast (eh_phentsize (load_elf_header m data))"
  shows "elf_get_binary_size data sz m =
    (let ph = load_prog_header m (data + eh_phoff (load_elf_header m data)) in
     if ph_type ph = PT_LOAD then ucast (eh_phnum (load_elf_header m data)) * ph_filesz ph else 0)"
  using assms by (simp add: elf_get_binary_size_def Let_def sum_loadable_closed)

text \<open>
  A packet whose header claims more bytes than arrived passes the size check, for the sum with the
  size of the header wraps around: here a packet of nine bytes.
\<close>

lemma size_check_wraps: "(0xFFFFFFFF :: u32) + ucast (10 :: u8) = 9"
  by simp

subsection \<open>Properties\<close>

text \<open>A file sent in full packets is stored as it was sent: each packet is accepted and the
  bytes stand one after the other from the write pointer on, with nothing else in memory changed
  but the receive buffer, for every number of packets. No size bounds that number: it is neither
  compared with the announced file size nor with the pages allocated for it.\<close>

theorem upload_stored:
  assumes "\<forall>ps \<in> set pss. length ps = 4096" and "write_ptr l \<noteq> 0"
    and "unat (write_ptr l) + 4096 * length pss < 4294967296" and "unat buf + 4104 < 4294967296"
    and "unat buf + 4104 \<le> unat (write_ptr l) \<or> unat (write_ptr l) + 4096 * length pss \<le> unat buf"
  shows "\<exists>m'. receive_all te name buf (map (mk_packet CMD_DATA) pss) l k =
      Inr (replicate (length pss) True, l\<lparr>write_ptr := write_ptr l + of_nat (4096 * length pss)\<rparr>,
        k\<lparr>k_mm := (k_mm k)\<lparr>kmem := m'\<rparr>\<rparr>) \<and>
    mem_slice m' (write_ptr l) (4096 * length pss) = concat pss \<and>
    (\<forall>a. \<not> unat (a - buf) < 4104 \<longrightarrow> \<not> unat (a - write_ptr l) < 4096 * length pss \<longrightarrow> m' a = kmem (k_mm k) a)"
  using receive_data [OF assms(1,3,2)] apart_layout [OF assms(5,4,3)] by blast

definition demo_loader :: loader where
  "demo_loader = \<lparr>elf_page_buffer = 0, elf_buffer = 0x80100000, write_ptr = 0x80100000, elf_size = 5000,
     pos_x = 0, pos_y = 0\<rparr>"

theorem upload_stored_witness:
  "\<exists>l' k'. receive_all 0 0 0x80000000 (map (mk_packet CMD_DATA) [replicate 4096 1, replicate 4096 2])
      demo_loader demo_kernel = Inr ([True, True], l', k') \<and> write_ptr l' = 0x80102000 \<and>
     mem_slice (kmem (k_mm k')) 0x80100000 8192 = replicate 4096 1 @ replicate 4096 2"
proof -
  let ?pss = "[replicate 4096 1, replicate 4096 2] :: u8 list list"
  have "\<forall>ps \<in> set ?pss. length ps = 4096" "write_ptr demo_loader \<noteq> 0"
    "unat (write_ptr demo_loader) + 4096 * length ?pss < 4294967296" "unat (0x80000000 :: u32) + 4104 < 4294967296"
    "unat (0x80000000 :: u32) + 4104 \<le> unat (write_ptr demo_loader) \<or>
     unat (write_ptr demo_loader) + 4096 * length ?pss \<le> unat (0x80000000 :: u32)"
    by (simp_all add: demo_loader_def)
  from upload_stored [OF this, where te = 0 and name = 0 and k = demo_kernel] show ?thesis
    by (elim exE conjE) (simp add: demo_loader_def)
qed

end
