(* ===== verification/Fat.thy ===== *)
theory Fat
  imports Bytes Align
begin

text \<open>
  The FAT32 reader of \<^verbatim>\<open>fs/fat.c\<close>. A disk is its sectors of 512 bytes; \<open>None\<close> is a read that
  fails. A path is the list of its bytes before the terminating zero, and a name inside it the list
  from its first byte on together with a length. Error codes are the integers of \<^verbatim>\<open>error.h\<close>; a
  panic, a failed assertion or an access outside a buffer is a fault. Shifts by a run-time amount
  are those of the processor. The file_obj and the FAT sector caches are part of the file_obj object;
  the printing of errors is left out.
\<close>

type_synonym disk = "u32 \<Rightarrow> u8 list option"

definition lsr_reg :: "u32 \<Rightarrow> u32 \<Rightarrow> u32" where
  "lsr_reg w n = drop_bit (unat n mod 256) w"

definition lsl_reg :: "u32 \<Rightarrow> u32 \<Rightarrow> u32" where
  "lsl_reg w n = push_bit (unat n mod 256) w"

subsection \<open>The volume\<close>

record fat =
  page_order :: u32
  page_mask :: u32
  clust_order :: u32
  clust_mask :: u32
  fat_ent_order :: u32
  fat_ent_mask :: u32
  root_clust_num :: u32
  data_start :: u32
  fat_start :: u32
  bpb_start :: u32
  info_start :: u32
  fats :: u8

definition BPB_SECTOR_SIZE :: nat where "BPB_SECTOR_SIZE = 11"
definition BPB_CLUSTER_SIZE :: nat where "BPB_CLUSTER_SIZE = 13"
definition BPB_RSVD_CNT :: nat where "BPB_RSVD_CNT = 14"
definition BPB_NUM_FATS :: nat where "BPB_NUM_FATS = 16"
definition BPB_ROOT_ENT_CNT :: nat where "BPB_ROOT_ENT_CNT = 17"
definition BPB_TOT_SECT_16 :: nat where "BPB_TOT_SECT_16 = 19"
definition BPB_FAT_SIZE_16 :: nat where "BPB_FAT_SIZE_16 = 22"
definition BPB_TOT_SECT_32 :: nat where "BPB_TOT_SECT_32 = 32"
definition BPB_16_FSTYPE :: nat where "BPB_16_FSTYPE = 54"
definition BPB_32_FAT_SIZE :: nat where "BPB_32_FAT_SIZE = 36"
definition BPB_32_ROOT_CLUST :: nat where "BPB_32_ROOT_CLUST = 44"
definition BPB_32_FSINFO :: nat where "BPB_32_FSINFO = 48"
definition BPB_32_FSTYPE :: nat where "BPB_32_FSTYPE = 82"
definition FAT_ENTRY_MASK :: u32 where "FAT_ENTRY_MASK = 0xFFFFFFF"

definition bpb_signature_ok :: "u8 list \<Rightarrow> bool" where
  "bpb_signature_ok bpb \<longleftrightarrow> bpb ! 510 = 0x55 \<and> bpb ! 511 = 0xAA"

definition bpb_contain_valid_fat :: "u8 list \<Rightarrow> bool" where
  "bpb_contain_valid_fat bpb \<longleftrightarrow>
     slice BPB_16_FSTYPE 3 bpb = str_bytes ''FAT'' \<or> slice BPB_32_FSTYPE 3 bpb = str_bytes ''FAT''"

text \<open>The division by a cluster size of zero is undefined in C; the processor's gives zero, as here.\<close>

definition bpb_contain_fat32 :: "u8 list \<Rightarrow> bool" where
  "bpb_contain_fat32 bpb \<longleftrightarrow>
     bpb_contain_valid_fat bpb \<and> le16_at bpb BPB_ROOT_ENT_CNT = 0 \<and>
     (let fat_pages = (if le16_at bpb BPB_FAT_SIZE_16 \<noteq> 0 then ucast (le16_at bpb BPB_FAT_SIZE_16)
                       else le32_at bpb BPB_32_FAT_SIZE);
          tot_pages = (if le16_at bpb BPB_TOT_SECT_16 \<noteq> 0 then ucast (le16_at bpb BPB_TOT_SECT_16)
                       else le32_at bpb BPB_TOT_SECT_32);
          data_pages = tot_pages - ucast (le16_at bpb BPB_RSVD_CNT) - fat_pages * ucast (bpb ! BPB_NUM_FATS)
      in 65525 \<le> data_pages div ucast (bpb ! BPB_CLUSTER_SIZE))"

fun mask_loop :: "nat \<Rightarrow> u32 \<Rightarrow> u32" where
  "mask_loop 0 r = r"
| "mask_loop (Suc n) r = mask_loop n (push_bit 1 r OR 1)"

definition fat_order_to_mask :: "u8 \<Rightarrow> u32 res" where
  "fat_order_to_mask order = res_bind (assert_that (order < 32)) (\<lambda>_. Inr (mask_loop (unat order) 0))"

definition build_fat_struct :: "u32 \<Rightarrow> u8 list \<Rightarrow> fat res" where
  "build_fat_struct start_lba bpb =
     (let pages_bytes = (ucast (le16_at bpb BPB_SECTOR_SIZE) :: u32);
          cluster_pages = (ucast (bpb ! BPB_CLUSTER_SIZE) :: u32);
          p_order = (of_nat (ctz pages_bytes) :: u32); c_order = (of_nat (ctz cluster_pages) :: u32);
          fats' = bpb ! BPB_NUM_FATS; start = start_lba + ucast (le16_at bpb BPB_RSVD_CNT) in
      res_bind (fat_order_to_mask (ucast p_order)) (\<lambda>p_mask.
      res_bind (fat_order_to_mask (ucast c_order)) (\<lambda>c_mask.
      res_bind (fat_order_to_mask (ucast (p_order - 2))) (\<lambda>e_mask.
        Inr \<lparr>page_order = p_order, page_mask = p_mask, clust_order = c_order, clust_mask = c_mask,
             fat_ent_order = p_order - 2, fat_ent_mask = e_mask,
             root_clust_num = le32_at bpb BPB_32_ROOT_CLUST,
             data_start = start + ucast fats' * le32_at bpb BPB_32_FAT_SIZE, fat_start = start,
             bpb_start = start_lba, info_start = start_lba + ucast (le16_at bpb BPB_32_FSINFO),
             fats = fats'\<rparr>))))"

text \<open>
  \<^verbatim>\<open>fat_mount_partition\<close> with the outcome of its allocation of the volume as an argument.
\<close>

definition fat_mount_partition :: "disk \<Rightarrow> bool \<Rightarrow> u32 \<Rightarrow> (int \<times> fat option) res" where
  "fat_mount_partition d alloc_ok start_lba =
     (case d start_lba of
        None \<Rightarrow> Inl (Panic ''Cant read FAT header'')
      | Some buf \<Rightarrow>
          if \<not> bpb_signature_ok buf then Inr (- EDISK, None)
          else if \<not> bpb_contain_fat32 buf then Inr (- EDISK, None)
          else if \<not> alloc_ok then Inr (- ENOMEM, None)
          else res_bind (build_fat_struct start_lba buf) (\<lambda>f. Inr (0, Some f)))"

subsection \<open>Files and clusters\<close>

record file_obj =
  fl_file_offset :: u32
  fl_offset :: u32
  fl_page :: u32
  fl_size :: u32
  fl_cache :: "u8 list"
  fl_cache_page :: u32
  fl_cache_dirty :: bool
  fl_fat_cache :: "u32 list"
  fl_fat_cache_page :: u32

definition file_struct_init :: file_obj where
  "file_struct_init = \<lparr>fl_file_offset = 0, fl_offset = 0, fl_page = 0, fl_size = 0,
     fl_cache = replicate 512 0, fl_cache_page = 0, fl_cache_dirty = False,
     fl_fat_cache = replicate 128 0, fl_fat_cache_page = 0\<rparr>"

definition words_of :: "u8 list \<Rightarrow> u32 list" where
  "words_of bs = map (\<lambda>i. le32_at bs (4 * i)) [0..<128]"

definition cache_fat_page :: "disk \<Rightarrow> u32 \<Rightarrow> file_obj \<Rightarrow> int \<times> file_obj" where
  "cache_fat_page d glob_page f =
     (if glob_page \<noteq> fl_fat_cache_page f then
        case d glob_page of
          None \<Rightarrow> (- EDISK, f)
        | Some bs \<Rightarrow> (0, f\<lparr>fl_fat_cache := words_of bs, fl_fat_cache_page := glob_page\<rparr>)
      else (0, f))"

definition get_fat_ent_status :: "u32 \<Rightarrow> int" where
  "get_fat_ent_status fat_entry =
     (let e = fat_entry AND FAT_ENTRY_MASK in
      if 2 \<le> e \<and> e \<le> 0xFFFFFEF then 0
      else if 0xFFFFFF8 \<le> e \<and> e \<le> 0xFFFFFFF then EEOF
      else - EDISK)"

text \<open>The loop with \<open>n\<close> turns left; the error is that of the turn before.\<close>

fun follow_chain :: "disk \<Rightarrow> fat \<Rightarrow> nat \<Rightarrow> u32 \<Rightarrow> int \<Rightarrow> file_obj \<Rightarrow> (int \<times> u32 \<times> file_obj) res" where
  "follow_chain d ft 0 clust err f = Inr (err, clust, f)"
| "follow_chain d ft (Suc n) clust err f =
     (let ent_page = fat_start ft + lsr_reg clust (fat_ent_order ft); ent_index = clust AND fat_ent_mask ft;
          (err1, f1) = cache_fat_page d ent_page f in
      if err1 < 0 then Inr (err1, clust, f1)
      else res_bind (read_at (fl_fat_cache f1) (unat ent_index)) (\<lambda>w.
        let ent = w AND FAT_ENTRY_MASK; err2 = get_fat_ent_status ent in
        if err2 < 0 then Inr (err2, clust, f1)
        else if err2 = EEOCC \<and> 0 < n then Inr (- EEOCC, clust, f1)
        else follow_chain d ft n ent err2 f1))"

text \<open>The cluster is updated only when the code is not negative; the callers do not use it otherwise.\<close>

definition follow_cluster_chain :: "disk \<Rightarrow> fat \<Rightarrow> u32 \<Rightarrow> u32 \<Rightarrow> file_obj \<Rightarrow> (int \<times> u32 \<times> file_obj) res" where
  "follow_cluster_chain d ft clust cnt f =
     res_bind (follow_chain d ft (unat cnt) clust 0 f) (\<lambda>(err, c, f').
       Inr (err, if err < 0 then clust else c, f'))"

definition fat_cache :: "disk \<Rightarrow> file_obj \<Rightarrow> (int \<times> file_obj) res" where
  "fat_cache d f =
     (if fl_page f = fl_cache_page f then Inr (0, f)
      else if fl_cache_dirty f then Inl (Panic ''Disk write implementation missing!'')
      else case d (fl_page f) of
        None \<Rightarrow> Inl (Panic ''Disk error'')
      | Some bs \<Rightarrow> Inr (0, f\<lparr>fl_cache := bs, fl_cache_page := fl_page f\<rparr>))"

text \<open>The routine returns its code as an unsigned byte.\<close>

definition err_u8 :: "int \<Rightarrow> int" where
  "err_u8 err = err mod 256"

definition fat_inc_file_ptr :: "disk \<Rightarrow> fat \<Rightarrow> u32 \<Rightarrow> file_obj \<Rightarrow> (int \<times> file_obj) res" where
  "fat_inc_file_ptr d ft bytes f0 =
     (let f = f0\<lparr>fl_file_offset := fl_file_offset f0 + bytes, fl_offset := fl_offset f0 + bytes\<rparr> in
      if fl_offset f AND NOT (page_mask ft) \<noteq> 0 then
        let page_inc = lsr_reg (fl_offset f) (page_order ft);
            rel_page = fl_page f - data_start ft;
            curr_clust = lsr_reg rel_page (clust_mask ft) + root_clust_num ft;
            curr_clust_offset = rel_page AND clust_mask ft;
            clust_cnt = lsr_reg (curr_clust_offset + page_inc) (clust_mask ft) in
        res_bind
          (if clust_cnt \<noteq> 0 then
             res_bind (follow_cluster_chain d ft curr_clust clust_cnt f) (\<lambda>(err, c, f1).
               if err < 0 then Inr (err, f1)
               else
                 let next_clust_offset = (rel_page + page_inc) AND clust_mask ft;
                     new_clust_page = data_start ft + lsl_reg (c - root_clust_num ft) (clust_mask ft)
                 in Inr (0, f1\<lparr>fl_page := new_clust_page + next_clust_offset\<rparr>))
           else Inr (0, f\<lparr>fl_page := fl_page f + page_inc\<rparr>))
          (\<lambda>(err, f2).
             if err < 0 then Inr (err_u8 err, f2)
             else res_bind (fat_cache d (f2\<lparr>fl_offset := fl_offset f2 AND page_mask ft\<rparr>)) (\<lambda>(err3, f3).
               Inr (if err3 < 0 then err_u8 err3 else 0, f3)))
      else Inr (0, f))"

definition jump_entries :: "disk \<Rightarrow> fat \<Rightarrow> u32 \<Rightarrow> file_obj \<Rightarrow> (int \<times> file_obj) res" where
  "jump_entries d ft entries dir = fat_inc_file_ptr d ft (entries * 32) dir"

text \<open>The entry a directory points to.\<close>

definition dir_entry :: "file_obj \<Rightarrow> u8 list res" where
  "dir_entry dir = get_bytes (fl_cache dir) (unat (fl_offset dir)) 32"

definition SFN_ATTR :: nat where "SFN_ATTR = 11"
definition SFN_CTIME :: nat where "SFN_CTIME = 14"
definition SFN_CDATE :: nat where "SFN_CDATE = 16"
definition SFN_ADATE :: nat where "SFN_ADATE = 18"
definition SFN_CLUSTH :: nat where "SFN_CLUSTH = 20"
definition SFN_WTIME :: nat where "SFN_WTIME = 22"
definition SFN_WDATE :: nat where "SFN_WDATE = 24"
definition SFN_CLUSTL :: nat where "SFN_CLUSTL = 26"
definition SFN_FILE_SIZE :: nat where "SFN_FILE_SIZE = 28"
definition LFN_SEQ :: nat where "LFN_SEQ = 0"
definition LFN_SEQ_MSK :: u8 where "LFN_SEQ_MSK = 0x1F"
definition LFN_ATTR :: nat where "LFN_ATTR = 11"
definition LFN_CRC :: nat where "LFN_CRC = 13"
definition ATTR_DIR :: u8 where "ATTR_DIR = 0x10"
definition ATTR_LFN :: u8 where "ATTR_LFN = 0x0F"

definition is_lfn :: "u8 list \<Rightarrow> bool" where
  "is_lfn ent \<longleftrightarrow> ent ! LFN_ATTR = ATTR_LFN"

text \<open>The search for a used entry, which ends only when it finds one or the end marker.\<close>

partial_function (option) next_used :: "disk \<Rightarrow> fat \<Rightarrow> file_obj \<Rightarrow> (int \<times> file_obj) res option" where
  "next_used d ft dir =
     (case jump_entries d ft 1 dir of
        Inl e \<Rightarrow> Some (Inl e)
      | Inr (err, dir1) \<Rightarrow>
          if err < 0 then Some (Inr (err, dir1))
          else case read_at (fl_cache dir1) (unat (fl_offset dir1)) of
            Inl e \<Rightarrow> Some (Inl e)
          | Inr tmp \<Rightarrow>
              if tmp = 0 then Some (Inr (EEOF, dir1))
              else if tmp = 0xE5 then next_used d ft dir1
              else Some (Inr (0, dir1)))"

definition get_next_valid_entry :: "disk \<Rightarrow> fat \<Rightarrow> file_obj \<Rightarrow> (int \<times> file_obj) res" where
  "get_next_valid_entry d ft dir =
     res_bind (dir_entry dir) (\<lambda>ent.
     res_bind (if is_lfn ent then jump_entries d ft (ucast (ent ! LFN_SEQ AND LFN_SEQ_MSK)) dir
               else Inr (0, dir)) (\<lambda>(err, dir1).
       if err < 0 then Inr (err, dir1)
       else res_bind (or_hang (next_used d ft dir1)) (\<lambda>r. r)))"


subsection \<open>Paths and names\<close>

text \<open>
  A fragment of a path is its position; the result is the position of the next fragment, the old
  one if there is none, and its length.
\<close>

fun to_slash :: "u8 list \<Rightarrow> nat" where
  "to_slash [] = 0"
| "to_slash (c # cs) = (if c = 0x2F then 0 else Suc (to_slash cs))"

definition get_next_path_frag :: "u8 list \<Rightarrow> nat \<Rightarrow> nat \<times> nat" where
  "get_next_path_frag path frag =
     (let p = frag + to_slash (drop frag path) + 1 in
      if length path \<le> p then (frag, 0) else (p, to_slash (drop p path)))"

definition set_cluster :: "disk \<Rightarrow> fat \<Rightarrow> u32 \<Rightarrow> file_obj \<Rightarrow> (int \<times> file_obj) res" where
  "set_cluster d ft clust f =
     (if clust < root_clust_num ft then Inr (- EDISK, f)
      else fat_cache d (f\<lparr>fl_page := lsl_reg (clust - root_clust_num ft) (clust_order ft) + data_start ft,
                          fl_offset := 0\<rparr>))"

definition dir_set_root :: "disk \<Rightarrow> fat \<Rightarrow> file_obj \<Rightarrow> (int \<times> file_obj) res" where
  "dir_set_root d ft dir =
     fat_cache d (dir\<lparr>fl_file_offset := 0, fl_offset := 0, fl_page := data_start ft\<rparr>)"

definition dir_is_root :: "fat \<Rightarrow> file_obj \<Rightarrow> bool" where
  "dir_is_root ft dir \<longleftrightarrow> fl_page dir = data_start ft \<and> fl_offset dir = 0"

definition fat_to_upper :: "u8 \<Rightarrow> u8" where
  "fat_to_upper a = (if a \<le> 0x7A \<and> 0x61 \<le> a then a - 32 else a)"

definition fat_to_lower :: "u8 \<Rightarrow> u8" where
  "fat_to_lower a = (if a \<le> 0x5A \<and> 0x41 \<le> a then a + 32 else a)"

definition fat_cmp_char_unified :: "u8 \<Rightarrow> u8 \<Rightarrow> bool" where
  "fat_cmp_char_unified a b \<longleftrightarrow> fat_to_upper a = fat_to_upper b"

definition illegal_sfn_chars :: "u8 list" where
  "illegal_sfn_chars = [0x22, 0x2A, 0x2B, 0x2C, 0x2E, 0x2F, 0x3A, 0x3B, 0x3C, 0x3D, 0x3E, 0x3F, 0x5B,
     0x5C, 0x5D, 0x7C]"

text \<open>\<^verbatim>\<open>char\<close> is unsigned on this target.\<close>

definition is_sfn_char_valid :: "u8 \<Rightarrow> bool" where
  "is_sfn_char_valid c \<longleftrightarrow> c \<notin> set illegal_sfn_chars \<and> \<not> c < 0x20"

definition fat_sfn_cmp_char :: "u8 \<Rightarrow> u8 \<Rightarrow> bool" where
  "fat_sfn_cmp_char sfn_char file_char \<longleftrightarrow>
     is_sfn_char_valid sfn_char \<and> sfn_char \<noteq> 0x20 \<and> fat_to_upper file_char = sfn_char"

definition fat_sfn_cmp_char_uni :: "u8 \<Rightarrow> u8 \<Rightarrow> bool" where
  "fat_sfn_cmp_char_uni sfn_char file_char \<longleftrightarrow>
     is_sfn_char_valid sfn_char \<and> sfn_char \<noteq> 0x20 \<and> fat_to_upper file_char = fat_to_upper sfn_char"

text \<open>The name of a short entry: what is written to the buffer, without its terminator.\<close>

definition fat_sfn_to_file_name :: "u8 list \<Rightarrow> u8 list" where
  "fat_sfn_to_file_name sfn =
     (let base = takeWhile (\<lambda>c. c \<noteq> 0x20) (take 8 sfn); ext = takeWhile (\<lambda>c. c \<noteq> 0x20) (slice 8 3 sfn)
      in map fat_to_lower base @ (if ext = [] then [] else 0x2E # map fat_to_lower ext))"

text \<open>
  The comparison of a short entry with a name of length \<open>len\<close>: the first loop from \<open>i\<close> on, with the
  part after it. \<open>base_cmp\<close> gives \<open>None\<close> for an early return of zero, \<open>Some None\<close> for an early return
  of one and the index otherwise.
\<close>

function base_cmp :: "u8 list \<Rightarrow> u8 list \<Rightarrow> nat \<Rightarrow> nat \<Rightarrow> nat option option" where
  "base_cmp sfn name len i =
     (if 8 \<le> i then Some (Some i)
      else if len \<le> i then (if \<forall>c \<in> set (slice i (8 - i) sfn). c = 0x20 then Some None else None)
      else if name ! i = 0x2E then Some (Some i)
      else if \<not> fat_sfn_cmp_char_uni (sfn ! i) (name ! i) then None
      else base_cmp sfn name len (i + 1))"
  by pat_completeness auto
termination by (relation "measure (\<lambda>(_, _, _, i). 8 - i)") auto

declare base_cmp.simps [simp del]

fun ext_cmp :: "u8 list \<Rightarrow> u8 list \<Rightarrow> bool" where
  "ext_cmp [] name = True"
| "ext_cmp (c # cs) [] \<longleftrightarrow> (\<forall>x \<in> set (c # cs). x = 0x20)"
| "ext_cmp (c # cs) (n # ns) \<longleftrightarrow> fat_sfn_cmp_char_uni c n \<and> ext_cmp cs ns"

definition fat_sfn_compare_uni :: "u8 list \<Rightarrow> u8 list \<Rightarrow> nat \<Rightarrow> bool" where
  "fat_sfn_compare_uni sfn name len =
     (case base_cmp sfn name len 0 of
        None \<Rightarrow> False
      | Some None \<Rightarrow> True
      | Some (Some i) \<Rightarrow>
          if len \<le> i + 1 then False
          else if i = 7 \<and> name ! (i + 1) \<noteq> 0x2E then False
          else
            let j = (if i = 7 then i + 2 else i + 1) in
            (\<forall>c \<in> set (slice i (8 - i) sfn). c = 0x20) \<and> ext_cmp (slice 8 3 sfn) (slice j (len - j) name))"

definition fat_lfn_cmp_frag :: "u8 list \<Rightarrow> u32 \<Rightarrow> u8 list \<Rightarrow> u32 \<Rightarrow> bool" where
  "fat_lfn_cmp_frag name len frag off =
     (if len - 1 < off then False
      else
        let n = min (unat (len - off)) (length frag) in
        (\<forall>i < n. name ! (unat off + i) = frag ! i) \<and> \<not> n < length frag)"

fun sfn_crc_loop :: "u8 \<Rightarrow> u8 list \<Rightarrow> u8" where
  "sfn_crc_loop crc [] = crc"
| "sfn_crc_loop crc (c # cs) = sfn_crc_loop (push_bit 7 (crc AND 1) + drop_bit 1 crc + c) cs"

definition fat_get_sfn_crc :: "u8 list \<Rightarrow> u8" where
  "fat_get_sfn_crc sfn = sfn_crc_loop 0 (take 11 sfn)"

definition lfn_index :: "(nat \<times> nat) list" where
  "lfn_index = [(5, 1), (6, 14), (2, 28)]"

text \<open>The bytes of a long entry up to the first zero one, thirteen at most.\<close>

definition lfn_offsets :: "nat list" where
  "lfn_offsets = concat (map (\<lambda>(sz, off). map (\<lambda>j. off + j * 2) [0..<sz]) lfn_index)"

definition fat_get_lfn_name :: "u8 list \<Rightarrow> u8 list" where
  "fat_get_lfn_name lfn = takeWhile (\<lambda>c. c \<noteq> 0) (map (\<lambda>k. lfn ! k) lfn_offsets)"

subsection \<open>Directories\<close>

partial_function (option) lfn_compare :: "disk \<Rightarrow> fat \<Rightarrow> u8 list \<Rightarrow> u32 \<Rightarrow> u8 \<Rightarrow> file_obj
    \<Rightarrow> (int \<times> file_obj) res option" where
  "lfn_compare d ft name len crc dir =
     (case dir_entry dir of
        Inl e \<Rightarrow> Some (Inl e)
      | Inr ent \<Rightarrow>
          let seq = ent ! LFN_SEQ AND LFN_SEQ_MSK in
          if \<not> fat_lfn_cmp_frag name len (fat_get_lfn_name ent) (13 * (ucast seq - 1)) then
            Some (res_bind (jump_entries d ft (ucast seq) dir) (\<lambda>(err, dir1).
              Inr (if err < 0 then err else ENOFILE, dir1)))
          else case jump_entries d ft 1 dir of
            Inl e \<Rightarrow> Some (Inl e)
          | Inr (err, dir1) \<Rightarrow>
              if err < 0 then Some (Inr (err, dir1))
              else if seq \<noteq> 1 then lfn_compare d ft name len crc dir1
              else Some (res_bind (dir_entry dir1) (\<lambda>ent1.
                Inr (if crc \<noteq> fat_get_sfn_crc ent1 then - EDISK else 0, dir1))))"

definition fat_compare_entry :: "disk \<Rightarrow> fat \<Rightarrow> u8 list \<Rightarrow> u32 \<Rightarrow> file_obj \<Rightarrow> (int \<times> file_obj) res" where
  "fat_compare_entry d ft name len dir =
     res_bind (dir_entry dir) (\<lambda>ent.
       if ent ! SFN_ATTR \<noteq> ATTR_LFN
       then Inr (if fat_sfn_compare_uni ent name (unat len) then 0 else ENOFILE, dir)
       else res_bind (assert_that (ent ! LFN_SEQ AND 0x40 \<noteq> 0)) (\<lambda>_.
         res_bind (or_hang (lfn_compare d ft name len (ent ! LFN_CRC) dir)) (\<lambda>r. r)))"

partial_function (option) fat_dir_search :: "disk \<Rightarrow> fat \<Rightarrow> u8 list \<Rightarrow> u32 \<Rightarrow> file_obj
    \<Rightarrow> (int \<times> file_obj) res option" where
  "fat_dir_search d ft name len dir =
     (case fat_compare_entry d ft name len dir of
        Inl e \<Rightarrow> Some (Inl e)
      | Inr (err, dir1) \<Rightarrow>
          if err \<le> 0 then Some (Inr (err, dir1))
          else case get_next_valid_entry d ft dir1 of
            Inl e \<Rightarrow> Some (Inl e)
          | Inr (err2, dir2) \<Rightarrow>
              if err2 < 0 then Some (Inr (err2, dir2))
              else if err2 = EEOF then Some (Inr (ENOFILE, dir2))
              else fat_dir_search d ft name len dir2)"

definition fat_dir_ent_to_clust :: "u8 list \<Rightarrow> u32" where
  "fat_dir_ent_to_clust ent = ucast (le16_at ent SFN_CLUSTL) OR push_bit 16 (ucast (le16_at ent SFN_CLUSTH))"

text \<open>Each turn moves forward in the path, so its length bounds the turns.\<close>

fun follow_path :: "nat \<Rightarrow> disk \<Rightarrow> fat \<Rightarrow> u8 list \<Rightarrow> nat \<Rightarrow> file_obj \<Rightarrow> (int \<times> file_obj) res" where
  "follow_path 0 d ft path frag dir = Inl Hang"
| "follow_path (Suc n) d ft path frag dir =
     (case get_next_path_frag path frag of (p, len) \<Rightarrow>
        if len = 0 then Inr (0, dir)
        else res_bind (or_hang (fat_dir_search d ft (drop p path) (of_nat len) dir)) (\<lambda>r.
          res_bind r (\<lambda>(err, dir1).
          if err \<noteq> 0 then Inr (err, dir1)
          else res_bind (dir_entry dir1) (\<lambda>ent.
            let dir2 = dir1\<lparr>fl_file_offset := 0, fl_size := le32_at ent SFN_FILE_SIZE\<rparr>;
                clust = fat_dir_ent_to_clust ent in
            res_bind (if ent ! 0 = 0x2E \<and> ent ! 1 = 0x2E \<and> clust = 0 then dir_set_root d ft dir2
                      else set_cluster d ft clust dir2) (\<lambda>(err2, dir3).
              if err2 < 0 then Inr (err2, dir3) else follow_path n d ft path p dir3)))))"

definition fat_follow_path :: "disk \<Rightarrow> fat \<Rightarrow> u8 list \<Rightarrow> file_obj \<Rightarrow> (int \<times> file_obj) res" where
  "fat_follow_path d ft path dir = follow_path (length path + 1) d ft path 0 dir"

definition fat_dir_open :: "disk \<Rightarrow> fat \<Rightarrow> u8 list \<Rightarrow> file_obj \<Rightarrow> (int \<times> file_obj) res" where
  "fat_dir_open d ft path dir =
     res_bind (dir_set_root d ft dir) (\<lambda>(err, dir1).
     if err < 0 then Inr (err, dir1)
     else res_bind (fat_follow_path d ft path dir1) (\<lambda>(err2, dir2).
     if err2 < 0 then Inr (err2, dir2)
     else if err2 = ENOFILE then Inr (- err2, dir2)
     else res_bind (dir_entry dir2) (\<lambda>ent.
       Inr (if ent ! SFN_ATTR AND ATTR_DIR = 0 \<and> \<not> dir_is_root ft dir2 then - ENOFILE else 0, dir2))))"

definition fat_file_open :: "disk \<Rightarrow> fat \<Rightarrow> u8 list \<Rightarrow> file_obj \<Rightarrow> (int \<times> file_obj) res" where
  "fat_file_open d ft path f =
     res_bind (dir_set_root d ft f) (\<lambda>(err, f1).
     if err \<noteq> 0 then Inr (err, f1)
     else res_bind (fat_follow_path d ft path f1) (\<lambda>(err2, f2).
       Inr (if err2 < 0 then err2 else if err2 = ENOFILE then - err2 else 0, f2)))"

text \<open>The bytes read; the result also has the count and the code.\<close>

fun read_loop :: "disk \<Rightarrow> fat \<Rightarrow> nat \<Rightarrow> file_obj \<Rightarrow> (u8 list \<times> int \<times> file_obj) res" where
  "read_loop d ft 0 f = Inr ([], 0, f)"
| "read_loop d ft (Suc n) f =
     res_bind (read_at (fl_cache f) (unat (fl_offset f))) (\<lambda>b.
     res_bind (fat_inc_file_ptr d ft 1 f) (\<lambda>(err, f1).
       if fl_size f1 \<le> fl_file_offset f1 \<or> err \<noteq> 0 then Inr ([b], err, f1)
       else res_bind (read_loop d ft n f1) (\<lambda>(bs, e, f2). Inr (b # bs, e, f2))))"

definition fat_file_read :: "disk \<Rightarrow> fat \<Rightarrow> u32 \<Rightarrow> file_obj \<Rightarrow> (u8 list \<times> int \<times> file_obj) res" where
  "fat_file_read d ft req_cnt f =
     (if fl_size f = 0 then Inr ([], - EEOF, f) else read_loop d ft (unat req_cnt) f)"


subsection \<open>Entry names and information\<close>

text \<open>
  The long name gathered into the caller's buffer of 256 bytes, each entry at the place its sequence
  number names; outside the buffer is a fault.
\<close>

partial_function (option) lfn_full :: "disk \<Rightarrow> fat \<Rightarrow> u8 \<Rightarrow> u32 \<Rightarrow> u8 list \<Rightarrow> file_obj
    \<Rightarrow> (int \<times> u32 \<times> u8 list \<times> file_obj) res option" where
  "lfn_full d ft crc cnt buffer dir =
     (case dir_entry dir of
        Inl e \<Rightarrow> Some (Inl e)
      | Inr ent \<Rightarrow>
          let seq = ent ! LFN_SEQ AND LFN_SEQ_MSK; name = fat_get_lfn_name ent in
          case (if seq = 0 then Inl OutOfBounds else put_bytes buffer (13 * (unat seq - 1)) name) of
            Inl e \<Rightarrow> Some (Inl e)
          | Inr buffer1 \<Rightarrow>
              let cnt1 = cnt + of_nat (length name) in
              (case jump_entries d ft 1 dir of
                 Inl e \<Rightarrow> Some (Inl e)
               | Inr (err, dir1) \<Rightarrow>
                   if err < 0 then Some (Inr (err, cnt1, buffer1, dir1))
                   else if seq \<noteq> 1 then lfn_full d ft crc cnt1 buffer1 dir1
                   else Some (res_bind (dir_entry dir1) (\<lambda>ent1.
                     Inr (if crc \<noteq> fat_get_sfn_crc ent1 then - EDISK else 0, cnt1, buffer1, dir1)))))"

text \<open>The code, the number of characters and the buffer.\<close>

definition get_lfn_full_name :: "disk \<Rightarrow> fat \<Rightarrow> u8 list \<Rightarrow> file_obj
    \<Rightarrow> (int \<times> u8 \<times> u8 list \<times> file_obj) res" where
  "get_lfn_full_name d ft buffer dir =
     res_bind (dir_entry dir) (\<lambda>ent.
       if ent ! LFN_SEQ AND 0x40 = 0 then Inr (- EDISK, 0, buffer, dir)
       else res_bind (or_hang (lfn_full d ft (ent ! LFN_CRC) 0 buffer dir)) (\<lambda>r.
         res_bind r (\<lambda>(err, cnt, buf, dir1). Inr (err, ucast cnt, buf, dir1))))"

text \<open>The code, the buffer with the terminated name and the directory.\<close>

definition fat_get_entry_name :: "disk \<Rightarrow> fat \<Rightarrow> u8 list \<Rightarrow> file_obj \<Rightarrow> (int \<times> u8 list \<times> file_obj) res" where
  "fat_get_entry_name d ft buffer dir =
     res_bind (dir_entry dir) (\<lambda>ent.
       if ent ! 0 = 0 then Inr (- ENOENT, buffer, dir)
       else if ent ! 0 = 0xE5 then Inr (- ENOENT, buffer, dir)
       else if ent ! SFN_ATTR \<noteq> ATTR_LFN
       then res_bind (put_bytes buffer 0 (fat_sfn_to_file_name ent @ [0])) (\<lambda>buf. Inr (0, buf, dir))
       else res_bind (get_lfn_full_name d ft buffer dir) (\<lambda>(err, cnt, buf, dir1).
         if err < 0 then Inr (err, buf, dir1)
         else res_bind (write_at buf (unat cnt) 0) (\<lambda>buf1. Inr (0, buf1, dir1))))"

record file_ptr =
  fp_file_offset :: u32
  fp_page_offset :: u32
  fp_page :: u32

definition fat_file_save :: "file_obj \<Rightarrow> file_ptr" where
  "fat_file_save f = \<lparr>fp_file_offset = fl_file_offset f, fp_page_offset = fl_offset f, fp_page = fl_page f\<rparr>"

definition fat_file_restore :: "disk \<Rightarrow> file_ptr \<Rightarrow> file_obj \<Rightarrow> (int \<times> file_obj) res" where
  "fat_file_restore d ptr f =
     fat_cache d (f\<lparr>fl_page := fp_page ptr, fl_offset := fp_page_offset ptr, fl_file_offset := fp_file_offset ptr\<rparr>)"

text \<open>The fields of \<^verbatim>\<open>struct file_time\<close> have five, six and five bits.\<close>

record file_time =
  ft_hour :: "5 word"
  ft_min :: "6 word"
  ft_sec :: "5 word"

record file_date =
  fd_year :: u16
  fd_month :: u8
  fd_day :: u8

definition fat_get_time :: "u16 \<Rightarrow> file_time" where
  "fat_get_time time =
     \<lparr>ft_hour = ucast (drop_bit 11 time), ft_min = ucast (drop_bit 5 time AND 0x3F),
      ft_sec = ucast ((time AND 0x1F) * 2)\<rparr>"

definition fat_get_date :: "u16 \<Rightarrow> file_date" where
  "fat_get_date date =
     \<lparr>fd_year = 1980 + (drop_bit 9 date AND 0x7F), fd_month = ucast (drop_bit 5 date AND 0xF),
      fd_day = ucast (date AND 0x1F)\<rparr>"

record file_info =
  fi_name :: "u8 list"
  fi_attr :: u8
  fi_create_time :: file_time
  fi_create_date :: file_date
  fi_write_time :: file_time
  fi_write_date :: file_date
  fi_access_date :: file_date
  fi_size :: u32

definition fat_get_sfn_info :: "u8 list \<Rightarrow> file_info \<Rightarrow> file_info" where
  "fat_get_sfn_info sfn info =
     info\<lparr>fi_attr := sfn ! SFN_ATTR, fi_size := le32_at sfn SFN_FILE_SIZE,
          fi_create_time := fat_get_time (le16_at sfn SFN_CTIME),
          fi_write_time := fat_get_time (le16_at sfn SFN_WTIME),
          fi_create_date := fat_get_date (le16_at sfn SFN_CDATE),
          fi_write_date := fat_get_date (le16_at sfn SFN_WDATE),
          fi_access_date := fat_get_date (le16_at sfn SFN_ADATE)\<rparr>"

definition fat_dir_read :: "disk \<Rightarrow> fat \<Rightarrow> file_info \<Rightarrow> file_obj \<Rightarrow> (int \<times> file_info \<times> file_obj) res" where
  "fat_dir_read d ft info dir =
     (let ptr = fat_file_save dir in
      res_bind (fat_get_entry_name d ft (fi_name info) dir) (\<lambda>(err, buf, dir1).
      let info1 = info\<lparr>fi_name := buf\<rparr> in
      if err \<noteq> 0 then Inr (err, info1, dir1)
      else res_bind (dir_entry dir1) (\<lambda>ent.
        let info2 = fat_get_sfn_info ent info1 in
        res_bind (fat_file_restore d ptr dir1) (\<lambda>(err2, dir2). Inr (err2, info2, dir2)))))"

subsection \<open>Short names of files\<close>

text \<open>
  The conversion to a short name that \<^verbatim>\<open>fat_sfn_compare\<close> uses. \<open>name\<close> is the text from the name
  on with its terminator, \<open>len\<close> the length of the name, \<open>sfn\<close> the buffer of eleven bytes; \<open>None\<close> is
  a result of zero.
\<close>

definition fat_dot_file_name_to_sfn :: "u8 list \<Rightarrow> nat \<Rightarrow> u8 list option res" where
  "fat_dot_file_name_to_sfn name len =
     (let dots = takeWhile (\<lambda>c. c = 0x2E) (take len name) in
      res_bind (put_bytes (replicate 11 0x20) 0 dots) (\<lambda>sfn.
        Inr (if length dots = len then Some sfn else None)))"

function base_copy :: "u8 list \<Rightarrow> nat \<Rightarrow> nat \<Rightarrow> u8 list option" where
  "base_copy name len i =
     (if 8 \<le> i \<or> len \<le> i then Some []
      else if name ! i = 0x2E then Some []
      else if \<not> is_sfn_char_valid (name ! i) \<or> name ! i = 0x20 then None
      else case base_copy name len (i + 1) of None \<Rightarrow> None | Some cs \<Rightarrow> Some (fat_to_upper (name ! i) # cs))"
  by pat_completeness auto
termination by (relation "measure (\<lambda>(_, _, i). 8 - i)") auto

declare base_copy.simps [simp del]

definition fat_file_name_to_sfn :: "u8 list \<Rightarrow> nat \<Rightarrow> u8 list option res" where
  "fat_file_name_to_sfn name len =
     (if name ! 0 = 0x2E then fat_dot_file_name_to_sfn name len
      else case base_copy name len 0 of
        None \<Rightarrow> Inr None
      | Some base \<Rightarrow>
          let i = length base in
          if name ! i \<noteq> 0x2E then
            Inr (if i + 1 < len then None else Some (base @ replicate (11 - i) 0x20))
          else
            let ext = slice (i + 1) (min 3 (len - 1 - (i + 1))) name; off = i + 1 + length ext in
            Inr (if length ext = 3 \<and> off < len - 1 then None
                 else Some (base @ replicate (8 - i) 0x20 @ map fat_to_upper ext @ replicate (3 - length ext) 0x20)))"

definition fat_sfn_compare :: "u8 list \<Rightarrow> u8 list \<Rightarrow> nat \<Rightarrow> bool res" where
  "fat_sfn_compare sfn name len =
     res_bind (fat_file_name_to_sfn name len) (\<lambda>r.
       Inr (case r of None \<Rightarrow> False | Some buf \<Rightarrow> buf = take 11 sfn))"

end
