(* ===== verification/FatRead.thy ===== *)
theory FatRead
  imports Fat
begin

text \<open>
  Reading files with \<^verbatim>\<open>fs/fat.c\<close>: on volumes whose clusters have one or two sectors a read
  delivers the bytes of the sectors along the chain of the file, and on larger clusters the chain
  is not followed. The abstract view of a file is the list of its sectors' numbers.
\<close>

subsection \<open>Volumes and chains\<close>

text \<open>\<open>cl\<close> is the order of the cluster size; both masks are those \<^verbatim>\<open>build_fat_struct\<close> computes.\<close>

definition volume_ok :: "fat \<Rightarrow> nat \<Rightarrow> bool" where
  "volume_ok ft cl \<longleftrightarrow> page_order ft = 9 \<and> page_mask ft = mask 9 \<and> clust_order ft = of_nat cl \<and>
     clust_mask ft = mask cl \<and> fat_ent_order ft = 7 \<and> fat_ent_mask ft = mask 7"

definition fat_entry :: "disk \<Rightarrow> fat \<Rightarrow> u32 \<Rightarrow> u32 \<Rightarrow> bool" where
  "fat_entry d ft c e \<longleftrightarrow>
     (\<exists>bs. fat_start ft + drop_bit 7 c \<noteq> 0 \<and> d (fat_start ft + drop_bit 7 c) = Some bs \<and>
        words_of bs ! unat (c AND mask 7) AND FAT_ENTRY_MASK = e)"

text \<open>The sector \<open>k\<close> of the file with the clusters \<open>cs\<close>.\<close>

definition sector_of :: "fat \<Rightarrow> nat \<Rightarrow> u32 list \<Rightarrow> nat \<Rightarrow> u32" where
  "sector_of ft cl cs k =
     data_start ft + (push_bit cl (cs ! (k div 2 ^ cl) - root_clust_num ft) + of_nat (k mod 2 ^ cl))"

definition sectors :: "nat \<Rightarrow> u32 list \<Rightarrow> nat" where
  "sectors cl cs = length cs * 2 ^ cl"

definition chain_ok :: "disk \<Rightarrow> fat \<Rightarrow> nat \<Rightarrow> u32 list \<Rightarrow> bool" where
  "chain_ok d ft cl cs \<longleftrightarrow>
     (\<forall>i < length cs. unat (cs ! i - root_clust_num ft) < 2 ^ 30) \<and>
     (\<forall>i. Suc i < length cs \<longrightarrow> fat_entry d ft (cs ! i) (cs ! Suc i) \<and>
        2 \<le> unat (cs ! Suc i) \<and> unat (cs ! Suc i) \<le> 0xFFFFFEF) \<and>
     (\<forall>k < sectors cl cs. \<exists>bs. d (sector_of ft cl cs k) = Some bs \<and> length bs = 512) \<and>
     512 * sectors cl cs < 4294967296"

definition sector_bytes :: "disk \<Rightarrow> fat \<Rightarrow> nat \<Rightarrow> u32 list \<Rightarrow> nat \<Rightarrow> u8 list" where
  "sector_bytes d ft cl cs k = the (d (sector_of ft cl cs k))"

definition content :: "disk \<Rightarrow> fat \<Rightarrow> nat \<Rightarrow> u32 list \<Rightarrow> nat \<Rightarrow> u8" where
  "content d ft cl cs p = sector_bytes d ft cl cs (p div 512) ! (p mod 512)"

text \<open>The file object stands at byte \<open>p\<close>, with the sector of that byte in its cache.\<close>

definition fat_coherent :: "disk \<Rightarrow> file_obj \<Rightarrow> bool" where
  "fat_coherent d f \<longleftrightarrow> fl_fat_cache_page f = 0 \<or>
     (\<exists>bs. d (fl_fat_cache_page f) = Some bs \<and> fl_fat_cache f = words_of bs)"

definition at_byte :: "disk \<Rightarrow> fat \<Rightarrow> nat \<Rightarrow> u32 list \<Rightarrow> nat \<Rightarrow> file_obj \<Rightarrow> bool" where
  "at_byte d ft cl cs p f \<longleftrightarrow> p < 512 * sectors cl cs \<and> unat (fl_file_offset f) = p \<and>
     unat (fl_offset f) = p mod 512 \<and> fl_page f = sector_of ft cl cs (p div 512) \<and>
     fl_cache f = sector_bytes d ft cl cs (p div 512) \<and> fl_cache_page f = fl_page f \<and>
     \<not> fl_cache_dirty f \<and> fat_coherent d f"

lemma sector_bytes_some:
  assumes "chain_ok d ft cl cs" and "k < sectors cl cs"
  shows "d (sector_of ft cl cs k) = Some (sector_bytes d ft cl cs k)" and "length (sector_bytes d ft cl cs k) = 512"
  using assms unfolding chain_ok_def sector_bytes_def by force+

lemma div_sector: "p < 512 * n \<Longrightarrow> p div 512 < (n :: nat)"
  by (simp add: less_mult_imp_div_less mult.commute)

lemma content_at:
  assumes "chain_ok d ft cl cs" and "at_byte d ft cl cs p f"
  shows "read_at (fl_cache f) (unat (fl_offset f)) = Inr (content d ft cl cs p)"
proof -
  have k: "p div 512 < sectors cl cs" using assms(2) by (simp add: at_byte_def div_sector)
  have "p mod 512 < length (sector_bytes d ft cl cs (p div 512))"
    using sector_bytes_some(2) [OF assms(1) k] by simp
  then show ?thesis using assms(2) by (simp add: at_byte_def content_def)
qed

subsection \<open>One step of the chain\<close>

lemma u32_le_iff: "(a :: u32) \<le> b \<longleftrightarrow> unat a \<le> unat b"
  by (simp add: word_le_nat_alt)

lemma normal_status: "2 \<le> unat e \<Longrightarrow> unat e \<le> 0xFFFFFEF \<Longrightarrow> get_fat_ent_status e = 0"
proof -
  assume e: "2 \<le> unat e" "unat e \<le> 0xFFFFFEF"
  have m: "FAT_ENTRY_MASK = mask 28" by (simp add: FAT_ENTRY_MASK_def mask_eq_exp_minus_1)
  have "unat (e AND mask 28) = unat e" unfolding unat_and_mask using e(2) by simp
  then have "e AND FAT_ENTRY_MASK = e" unfolding m by (simp add: word_unat_eq_iff)
  then show ?thesis using e by (simp add: get_fat_ent_status_def Let_def u32_le_iff)
qed

lemma cached_entry:
  assumes "fat_coherent d f" and "fat_entry d ft c e"
  shows "\<exists>f'. cache_fat_page d (fat_start ft + drop_bit 7 c) f = (0, f') \<and> fat_coherent d f' \<and>
    read_at (fl_fat_cache f') (unat (c AND mask 7)) = Inr (fl_fat_cache f' ! unat (c AND mask 7)) \<and>
    fl_fat_cache f' ! unat (c AND mask 7) AND FAT_ENTRY_MASK = e \<and>
    f'\<lparr>fl_fat_cache := fl_fat_cache f, fl_fat_cache_page := fl_fat_cache_page f\<rparr> = f"
proof -
  let ?p = "fat_start ft + drop_bit 7 c"
  obtain bs where bs: "?p \<noteq> 0" "d ?p = Some bs" "words_of bs ! unat (c AND mask 7) AND FAT_ENTRY_MASK = e"
    using assms(2) unfolding fat_entry_def by blast
  have i: "unat (c AND mask 7) < 128" unfolding unat_and_mask by simp
  have len: "length (words_of bs) = 128" by (simp add: words_of_def)
  show ?thesis
  proof (cases "?p = fl_fat_cache_page f")
    case True
    then have "fl_fat_cache f = words_of bs" using assms(1) bs(1,2) by (auto simp: fat_coherent_def)
    then show ?thesis using True assms(1) bs(3) i len by (simp add: cache_fat_page_def)
  next
    case False
    then show ?thesis using bs i len by (simp add: cache_fat_page_def fat_coherent_def)
  qed
qed

lemma follow_one:
  assumes "fat_coherent d f" and "fat_entry d ft c e" and "2 \<le> unat e" and "unat e \<le> 0xFFFFFEF"
    and "fat_ent_order ft = 7" and "fat_ent_mask ft = mask 7"
  shows "\<exists>f'. follow_cluster_chain d ft c 1 f = Inr (0, e, f') \<and> fat_coherent d f' \<and>
    f'\<lparr>fl_fat_cache := fl_fat_cache f, fl_fat_cache_page := fl_fat_cache_page f\<rparr> = f"
proof -
  obtain f' where f': "cache_fat_page d (fat_start ft + drop_bit 7 c) f = (0, f')" "fat_coherent d f'"
    "read_at (fl_fat_cache f') (unat (c AND mask 7)) = Inr (fl_fat_cache f' ! unat (c AND mask 7))"
    "fl_fat_cache f' ! unat (c AND mask 7) AND FAT_ENTRY_MASK = e"
    "f'\<lparr>fl_fat_cache := fl_fat_cache f, fl_fat_cache_page := fl_fat_cache_page f\<rparr> = f"
    using cached_entry [OF assms(1,2)] by blast
  have "lsr_reg c 7 = drop_bit 7 c" by (simp add: lsr_reg_def)
  then have "follow_cluster_chain d ft c 1 f = Inr (0, e, f')"
    using f'(1,3,4) normal_status [OF assms(3,4)] assms(5,6)
    by (simp add: follow_cluster_chain_def EEOCC_def)
  then show ?thesis using f' by blast
qed


subsection \<open>One byte forward\<close>

lemma small_shift: "cl \<le> 1 \<Longrightarrow> lsr_reg w (mask cl) = drop_bit cl w \<and> lsl_reg w (mask cl) = push_bit cl w"
  by (cases "cl = 0") (auto simp: lsr_reg_def lsl_reg_def mask_eq_exp_minus_1 le_Suc_eq)

lemma rel_page_parts:
  fixes x :: u32
  assumes "cl \<le> 1" and "unat x < 2 ^ 30" and "s < 2 ^ cl"
  defines "rel \<equiv> push_bit cl x + of_nat s"
  shows "drop_bit cl rel = x" and "rel AND mask cl = of_nat s" and "unat rel = unat x * 2 ^ cl + s"
    and "drop_bit cl ((of_nat s :: u32) + 1) = (if s + 1 = 2 ^ cl then 1 else 0)"
    and "s + 1 = 2 ^ cl \<Longrightarrow> (rel + 1) AND mask cl = 0"
proof -
  have c2: "(2 :: nat) ^ cl \<le> 2" using assms(1) by (cases "cl = 0") (auto simp: le_Suc_eq)
  have pb: "push_bit cl x = of_nat (unat x * 2 ^ cl)" by (simp add: push_bit_eq_mult)
  have lt: "unat x * 2 ^ cl \<le> unat x * 2" using c2 by (rule mult_le_mono2)
  have r: "rel = of_nat (unat x * 2 ^ cl + s)" unfolding rel_def pb by simp
  have x30: "unat x < 1073741824" using assms(2) by simp
  have b: "unat x * 2 ^ cl + s + 1 < 4294967296" using lt x30 assms(3) c2 by linarith
  have us: "unat (of_nat n :: u32) = n" if "n < 4294967296" for n using that by (simp add: unat_of_nat)
  show u: "unat rel = unat x * 2 ^ cl + s" unfolding r using b by (intro us) simp
  have "unat (drop_bit cl rel) = unat x" unfolding unat_drop_bit u using assms(3) by simp
  then show "drop_bit cl rel = x" by (simp add: word_unat_eq_iff)
  have s4: "s + 1 < 4294967296" using assms(3) c2 by simp
  have "unat (rel AND mask cl) = s" unfolding unat_and_mask u using assms(3) by simp
  then show "rel AND mask cl = of_nat s" using us [of s] s4 by (simp add: word_unat_eq_iff)
  have "unat (drop_bit cl ((of_nat s :: u32) + 1)) = (s + 1) div 2 ^ cl"
  proof -
    have e: "(of_nat s :: u32) + 1 = of_nat (s + 1)" by simp
    show ?thesis unfolding unat_drop_bit e us [OF s4] by (rule refl)
  qed
  also have "\<dots> = (if s + 1 = 2 ^ cl then 1 else 0)" using assms(3) by auto
  finally show "drop_bit cl ((of_nat s :: u32) + 1) = (if s + 1 = 2 ^ cl then 1 else 0)"
    by (simp add: word_unat_eq_iff split: if_splits)
  assume e: "s + 1 = 2 ^ cl"
  have e1: "rel + 1 = of_nat (unat x * 2 ^ cl + s + 1)" unfolding r by simp
  have "unat (rel + 1) = unat x * 2 ^ cl + s + 1" unfolding e1 by (rule us [OF b])
  then have "unat (rel + 1) = (unat x + 1) * 2 ^ cl" using e by (simp add: distrib_right)
  then have "unat ((rel + 1) AND mask cl) = 0" unfolding unat_and_mask by simp
  then show "(rel + 1) AND mask cl = 0" by (simp add: unat_eq_zero)
qed

lemma fat_cache_load:
  assumes "\<not> fl_cache_dirty f" and "d (fl_page f) = Some bs"
    and "fl_page f = fl_cache_page f \<Longrightarrow> fl_cache f = bs"
  shows "\<exists>f'. fat_cache d f = Inr (0, f') \<and> fl_cache f' = bs \<and> fl_cache_page f' = fl_page f \<and>
    f'\<lparr>fl_cache := fl_cache f, fl_cache_page := fl_cache_page f\<rparr> = f"
  using assms by (cases "fl_page f = fl_cache_page f") (simp_all add: fat_cache_def)

lemma inc_inside:
  assumes vol: "volume_ok ft cl" and chain: "chain_ok d ft cl cs" and at: "at_byte d ft cl cs p f"
    and o: "p mod 512 < 511"
  shows "\<exists>f'. fat_inc_file_ptr d ft 1 f = Inr (0, f') \<and> at_byte d ft cl cs (p + 1) f' \<and> fl_size f' = fl_size f"
proof -
  let ?f = "f\<lparr>fl_file_offset := fl_file_offset f + 1, fl_offset := fl_offset f + 1\<rparr>"
  have u: "unat (fl_offset f + 1) = p mod 512 + 1" using at o by (subst unat_add_u32) (auto simp: at_byte_def)
  have "unat ((fl_offset f + 1) AND NOT (mask 9)) = 0" unfolding unat_and_not_mask u using o by simp
  then have z: "(fl_offset f + 1) AND NOT (page_mask ft) = 0" using vol by (simp add: volume_ok_def unat_eq_zero)
  have p: "(p + 1) div 512 = p div 512" "(p + 1) mod 512 = p mod 512 + 1"
    using o by (simp_all add: div_Suc mod_Suc)
  have k: "p div 512 < sectors cl cs" using at by (simp add: at_byte_def div_sector)
  have lt: "p + 1 < 512 * sectors cl cs" using k p(1) o by linarith
  then have "p + 1 < 4294967296" using chain by (simp add: chain_ok_def)
  then have "unat (fl_file_offset f + 1) = p + 1" using at by (subst unat_add_u32) (auto simp: at_byte_def)
  then show ?thesis
    using z u p at lt by (auto simp: fat_inc_file_ptr_def at_byte_def fat_coherent_def)
qed

text \<open>The step over the end of the sector \<open>k\<close>, whose cluster is \<open>i\<close> in the chain.\<close>

definition moved :: "disk \<Rightarrow> int \<times> file_obj \<Rightarrow> (int \<times> file_obj) res" where
  "moved d r = (case r of (err, f2) \<Rightarrow> if err < 0 then Inr (err_u8 err, f2)
     else res_bind (fat_cache d (f2\<lparr>fl_offset := fl_offset f2 AND mask 9\<rparr>)) (\<lambda>(err3, f3).
       Inr (if err3 < 0 then err_u8 err3 else 0, f3)))"

lemma inc_sector_end:
  assumes vol: "volume_ok ft cl" and cl: "cl \<le> 1" and chain: "chain_ok d ft cl cs"
    and at: "at_byte d ft cl cs p f" and o: "p mod 512 = 511"
  defines "k \<equiv> p div 512" and "f1 \<equiv> f\<lparr>fl_file_offset := fl_file_offset f + 1, fl_offset := fl_offset f + 1\<rparr>"
  shows "k mod 2 ^ cl + 1 \<noteq> 2 ^ cl \<Longrightarrow> fat_inc_file_ptr d ft 1 f = moved d (0, f1\<lparr>fl_page := fl_page f + 1\<rparr>)"
    and "k mod 2 ^ cl + 1 = 2 ^ cl \<Longrightarrow> fat_inc_file_ptr d ft 1 f =
      res_bind (follow_cluster_chain d ft (cs ! (k div 2 ^ cl)) 1 f1) (\<lambda>(err, c, f2).
        moved d (if err < 0 then (err, f2)
          else (0, f2\<lparr>fl_page := data_start ft + push_bit cl (c - root_clust_num ft)\<rparr>)))"
    and "fl_offset f1 AND mask 9 = 0" and "p + 1 < 512 * sectors cl cs \<Longrightarrow> unat (fl_file_offset f1) = p + 1"
proof -
  define s where "s = k mod 2 ^ cl"
  define i where "i = k div 2 ^ cl"
  define x where "x = cs ! i - root_clust_num ft"
  define rel where "rel = push_bit cl x + of_nat s"
  have v: "page_order ft = 9" "page_mask ft = mask 9" "clust_mask ft = mask cl"
    using vol by (simp_all add: volume_ok_def)
  have k1: "k < sectors cl cs" using at by (simp add: at_byte_def div_sector k_def)
  have i: "i < length cs" using k1 unfolding i_def sectors_def by (simp add: less_mult_imp_div_less)
  have xs: "unat x < 2 ^ 30" using chain i by (simp add: chain_ok_def x_def)
  have s: "s < 2 ^ cl" by (simp add: s_def)
  note rel = rel_page_parts [OF cl xs s, folded rel_def]
  have pg: "fl_page f = data_start ft + rel" using at
    by (simp add: at_byte_def sector_of_def k_def [symmetric] i_def [symmetric] s_def [symmetric] x_def [symmetric] rel_def)
  have o1: "fl_offset f1 = mask 9 + 1"
  proof -
    have "unat (fl_offset f) = 511" using at o by (simp add: at_byte_def)
    then have "fl_offset f = 511" by (simp add: word_unat_eq_iff)
    then show ?thesis by (simp add: f1_def mask_eq_exp_minus_1)
  qed
  have inc: "lsr_reg (fl_offset f1) (page_order ft) = 1"
    unfolding o1 v lsr_reg_def by (simp add: mask_eq_exp_minus_1)
  have out: "fl_offset f1 AND NOT (page_mask ft) \<noteq> 0" unfolding o1 v by (simp add: mask_eq_exp_minus_1)
  show "fl_offset f1 AND mask 9 = 0" unfolding o1 by (simp add: mask_eq_exp_minus_1)
  have cc: "lsr_reg rel (clust_mask ft) + root_clust_num ft = cs ! i"
    using small_shift [OF cl] rel(1) v by (simp add: x_def)
  have cnt: "lsr_reg ((rel AND clust_mask ft) + 1) (clust_mask ft) = (if s + 1 = 2 ^ cl then 1 else 0)"
    using small_shift [OF cl] rel(2,4) v by simp
  note unf = fat_inc_file_ptr_def Let_def f1_def [symmetric] moved_def
  show "fat_inc_file_ptr d ft 1 f = moved d (0, f1\<lparr>fl_page := fl_page f + 1\<rparr>)" if "k mod 2 ^ cl + 1 \<noteq> 2 ^ cl"
    using that cnt inc out pg v by (simp add: unf s_def [symmetric], simp add: f1_def)
  show "fat_inc_file_ptr d ft 1 f =
      res_bind (follow_cluster_chain d ft (cs ! (k div 2 ^ cl)) 1 f1) (\<lambda>(err, c, f2).
        moved d (if err < 0 then (err, f2)
          else (0, f2\<lparr>fl_page := data_start ft + push_bit cl (c - root_clust_num ft)\<rparr>)))"
    if e: "k mod 2 ^ cl + 1 = 2 ^ cl"
  proof -
    have nx: "(rel + 1) AND clust_mask ft = 0" using rel(5) e v by (simp add: s_def)
    have p1: "fl_page f1 - data_start ft = rel" using pg by (simp add: f1_def)
    have c1: "lsr_reg ((rel AND clust_mask ft) + 1) (clust_mask ft) = 1" using cnt e by (simp add: s_def)
    have l1: "lsl_reg w (clust_mask ft) = push_bit cl w" for w using small_shift [OF cl] v(3) by simp
    obtain r where r: "follow_cluster_chain d ft (cs ! i) 1 f1 = r" by blast
    show ?thesis unfolding i_def [symmetric] r
      by (cases r) (use out r v(2) in \<open>auto simp: fat_inc_file_ptr_def Let_def f1_def [symmetric] p1 inc c1 cc nx l1 moved_def\<close>)
  qed
  assume "p + 1 < 512 * sectors cl cs"
  then show "unat (fl_file_offset f1) = p + 1"
    using at chain unfolding f1_def by simp (subst unat_add_u32, auto simp: at_byte_def chain_ok_def)
qed


lemma moved_ok:
  assumes "\<not> fl_cache_dirty f2" and "d (fl_page f2) = Some bs" and "fl_page f2 = fl_cache_page f2 \<longrightarrow> fl_cache f2 = bs"
  shows "\<exists>f3. moved d (0, f2) = Inr (0, f3) \<and> fl_cache f3 = bs \<and> fl_cache_page f3 = fl_page f2 \<and>
    fl_page f3 = fl_page f2 \<and> fl_offset f3 = fl_offset f2 AND mask 9 \<and> fl_file_offset f3 = fl_file_offset f2 \<and>
    fl_size f3 = fl_size f2 \<and> \<not> fl_cache_dirty f3 \<and> fl_fat_cache f3 = fl_fat_cache f2 \<and>
    fl_fat_cache_page f3 = fl_fat_cache_page f2"
  using assms by (cases "fl_page f2 = fl_cache_page f2") (simp_all add: moved_def fat_cache_def)

lemma next_sector_index:
  "(k :: nat) mod b + 1 \<noteq> b \<Longrightarrow> 0 < b \<Longrightarrow> (k + 1) div b = k div b \<and> (k + 1) mod b = k mod b + 1"
  "k mod b + 1 = b \<Longrightarrow> (k + 1) div b = k div b + 1 \<and> (k + 1) mod b = 0"
  by (simp_all add: div_Suc mod_Suc)

lemma inc_across:
  assumes vol: "volume_ok ft cl" and cl: "cl \<le> 1" and chain: "chain_ok d ft cl cs"
    and at: "at_byte d ft cl cs p f" and o: "p mod 512 = 511" and more: "p + 1 < 512 * sectors cl cs"
  shows "\<exists>f'. fat_inc_file_ptr d ft 1 f = Inr (0, f') \<and> at_byte d ft cl cs (p + 1) f' \<and> fl_size f' = fl_size f"
proof -
  define k where "k = p div 512"
  define f1 where "f1 = f\<lparr>fl_file_offset := fl_file_offset f + 1, fl_offset := fl_offset f + 1\<rparr>"
  note se = inc_sector_end [OF vol cl chain at o, folded k_def f1_def]
  have p1: "(p + 1) div 512 = k + 1" "(p + 1) mod 512 = 0" using o by (simp_all add: k_def div_Suc mod_Suc)
  have k1: "k + 1 < sectors cl cs" using div_sector [OF more] p1 by simp
  note sb = sector_bytes_some [OF chain k1]
  have coh: "fat_coherent d f1" using at by (simp add: at_byte_def fat_coherent_def f1_def)
  have same: "fl_cache f = sector_bytes d ft cl cs (k + 1)" if "sector_of ft cl cs (k + 1) = fl_cache_page f"
    using at that by (simp add: at_byte_def sector_bytes_def)
  have fin: "\<exists>f'. moved d (0, f2) = Inr (0, f') \<and> at_byte d ft cl cs (p + 1) f' \<and> fl_size f' = fl_size f"
    if f2: "fl_page f2 = sector_of ft cl cs (k + 1)" "fat_coherent d f2" "fl_offset f2 = fl_offset f1"
      "fl_file_offset f2 = fl_file_offset f1" "fl_cache_dirty f2 = fl_cache_dirty f" "fl_size f2 = fl_size f"
      "fl_cache_page f2 = fl_cache_page f" "fl_cache f2 = fl_cache f" for f2
  proof -
    have "\<not> fl_cache_dirty f2" "d (fl_page f2) = Some (sector_bytes d ft cl cs (k + 1))"
      "fl_page f2 = fl_cache_page f2 \<longrightarrow> fl_cache f2 = sector_bytes d ft cl cs (k + 1)"
      using at f2 sb(1) same by (simp_all add: at_byte_def)
    from moved_ok [of f2 d, OF this] obtain f3 where f3: "moved d (0, f2) = Inr (0, f3)"
      "fl_cache f3 = sector_bytes d ft cl cs (k + 1)" "fl_cache_page f3 = fl_page f2" "fl_page f3 = fl_page f2"
      "fl_offset f3 = fl_offset f2 AND mask 9" "fl_file_offset f3 = fl_file_offset f2" "fl_size f3 = fl_size f2"
      "\<not> fl_cache_dirty f3" "fl_fat_cache f3 = fl_fat_cache f2" "fl_fat_cache_page f3 = fl_fat_cache_page f2" by blast
    have "at_byte d ft cl cs (p + 1) f3"
      using f2 f3 se(3,4) more p1 by (simp add: at_byte_def fat_coherent_def)
    then show ?thesis using f2(6) f3 by auto
  qed
  show ?thesis
  proof (cases "k mod 2 ^ cl + 1 = 2 ^ cl")
    case False
    have d: "(k + 1) div 2 ^ cl = k div 2 ^ cl" "(k + 1) mod 2 ^ cl = k mod 2 ^ cl + 1"
      using next_sector_index(1) [OF False] by simp_all
    let ?f2 = "f1\<lparr>fl_page := fl_page f + 1\<rparr>"
    have "fl_page ?f2 = sector_of ft cl cs (k + 1)"
      using at unfolding sector_of_def d by (simp add: at_byte_def sector_of_def k_def [symmetric])
    then show ?thesis using fin [of ?f2] se(1) [OF False] coh by (simp add: f1_def fat_coherent_def)
  next
    case True
    note d = next_sector_index(2) [OF True, THEN conjunct1] next_sector_index(2) [OF True, THEN conjunct2]
    have "(k + 1) div 2 ^ cl < length cs" using k1 by (simp add: sectors_def less_mult_imp_div_less)
    then have i1: "Suc (k div 2 ^ cl) < length cs" unfolding d by simp
    let ?c = "cs ! Suc (k div 2 ^ cl)"
    have e: "fat_entry d ft (cs ! (k div 2 ^ cl)) ?c" "2 \<le> unat ?c" "unat ?c \<le> 0xFFFFFEF"
      using chain i1 by (simp_all add: chain_ok_def)
    have eo: "fat_ent_order ft = 7" "fat_ent_mask ft = mask 7" using vol by (simp_all add: volume_ok_def)
    obtain f' where f': "follow_cluster_chain d ft (cs ! (k div 2 ^ cl)) 1 f1 = Inr (0, ?c, f')" "fat_coherent d f'"
      "f'\<lparr>fl_fat_cache := fl_fat_cache f1, fl_fat_cache_page := fl_fat_cache_page f1\<rparr> = f1"
      using follow_one [OF coh e eo] by blast
    have fields: "fl_offset f' = fl_offset f1" "fl_file_offset f' = fl_file_offset f1" "fl_cache_dirty f' = fl_cache_dirty f1"
      "fl_size f' = fl_size f1" "fl_cache_page f' = fl_cache_page f1" "fl_cache f' = fl_cache f1"
      by (subst f'(3) [symmetric], simp)+
    let ?f2 = "f'\<lparr>fl_page := data_start ft + push_bit cl (?c - root_clust_num ft)\<rparr>"
    have "fl_page ?f2 = sector_of ft cl cs (k + 1)" unfolding sector_of_def d by simp
    then show ?thesis using fin [of ?f2] se(2) [OF True] f'(1,2) fields by (simp add: f1_def fat_coherent_def)
  qed
qed

lemma inc_step:
  assumes "volume_ok ft cl" and "cl \<le> 1" and "chain_ok d ft cl cs" and "at_byte d ft cl cs p f"
    and "p + 1 < 512 * sectors cl cs"
  shows "\<exists>f'. fat_inc_file_ptr d ft 1 f = Inr (0, f') \<and> at_byte d ft cl cs (p + 1) f' \<and> fl_size f' = fl_size f"
proof (cases "p mod 512 = 511")
  case True
  then show ?thesis using inc_across [OF assms(1-4)] assms(5) by blast
next
  case False
  have "p mod 512 < 512" by simp
  then have "p mod 512 < 511" using False by linarith
  then show ?thesis using inc_inside [OF assms(1,3,4)] by blast
qed

subsection \<open>Reading\<close>

lemma read_loop_ok:
  assumes "volume_ok ft cl" and "cl \<le> 1" and "chain_ok d ft cl cs"
  shows "at_byte d ft cl cs p f \<Longrightarrow> p < unat (fl_size f) \<Longrightarrow> unat (fl_size f) < 512 * sectors cl cs \<Longrightarrow>
    \<exists>f'. read_loop d ft n f =
        Inr (map (content d ft cl cs) [p..<p + min n (unat (fl_size f) - p)], 0, f') \<and>
      at_byte d ft cl cs (p + min n (unat (fl_size f) - p)) f' \<and> fl_size f' = fl_size f"
proof (induction n arbitrary: p f)
  case 0
  then show ?case by simp
next
  case (Suc n)
  let ?sz = "unat (fl_size f)"
  obtain f1 where f1: "fat_inc_file_ptr d ft 1 f = Inr (0, f1)" "at_byte d ft cl cs (p + 1) f1" "fl_size f1 = fl_size f"
    using inc_step [OF assms Suc.prems(1)] Suc.prems(2,3) by auto
  note b = content_at [OF assms(3) Suc.prems(1)]
  have fo: "unat (fl_file_offset f1) = p + 1" using f1(2) by (simp add: at_byte_def)
  show ?case
  proof (cases "?sz \<le> p + 1")
    case True
    then have "fl_size f1 \<le> fl_file_offset f1" using f1(3) fo by (simp add: word_le_nat_alt)
    moreover have "min (Suc n) (?sz - p) = 1" using True Suc.prems(2) by linarith
    ultimately show ?thesis using b f1 by simp
  next
    case False
    then have "\<not> fl_size f1 \<le> fl_file_offset f1" using f1(3) fo by (simp add: word_le_nat_alt)
    moreover obtain f' where f': "read_loop d ft n f1 =
        Inr (map (content d ft cl cs) [p + 1..<p + 1 + min n (?sz - (p + 1))], 0, f')"
      "at_byte d ft cl cs (p + 1 + min n (?sz - (p + 1))) f'" "fl_size f' = fl_size f"
      using Suc.IH [OF f1(2)] False Suc.prems(3) f1(3) by auto
    moreover have m: "p + min (Suc n) (?sz - p) = p + 1 + min n (?sz - (p + 1))" using False by linarith
    moreover have "[p..<p + 1 + min n (?sz - (p + 1))] = p # [p + 1..<p + 1 + min n (?sz - (p + 1))]"
      by (subst upt_conv_Cons) auto
    ultimately show ?thesis using b f1(1,3) by simp
  qed
qed

text \<open>A file just opened stands at its first byte.\<close>

lemma set_cluster_at:
  assumes "volume_ok ft cl" and "cl < 32" and "chain_ok d ft cl cs" and "cs \<noteq> []"
    and "root_clust_num ft \<le> cs ! 0" and "fl_file_offset f = 0" and "\<not> fl_cache_dirty f" and "fat_coherent d f"
    and "fl_cache_page f = sector_of ft cl cs 0 \<Longrightarrow> d (fl_cache_page f) = Some (fl_cache f)"
  shows "\<exists>f'. set_cluster d ft (cs ! 0) f = Inr (0, f') \<and> at_byte d ft cl cs 0 f' \<and> fl_size f' = fl_size f"
proof -
  have pos: "0 < sectors cl cs" using assms(4) by (simp add: sectors_def)
  note sb = sector_bytes_some [OF assms(3) pos]
  define f1 where "f1 = f\<lparr>fl_page := sector_of ft cl cs 0, fl_offset := 0\<rparr>"
  have cl: "unat (of_nat cl :: u32) mod 256 = cl" using assms(2) by (simp add: unat_of_nat)
  have pg: "lsl_reg (cs ! 0 - root_clust_num ft) (clust_order ft) + data_start ft = sector_of ft cl cs 0"
    using assms(1) cl by (simp add: sector_of_def lsl_reg_def volume_ok_def)
  have "set_cluster d ft (cs ! 0) f = fat_cache d f1"
    using leD [OF assms(5)] by (simp add: set_cluster_def pg f1_def)
  moreover obtain f' where "fat_cache d f1 = Inr (0, f')" "fl_cache f' = sector_bytes d ft cl cs 0"
    "fl_cache_page f' = fl_page f1" "f'\<lparr>fl_cache := fl_cache f1, fl_cache_page := fl_cache_page f1\<rparr> = f1"
    using fat_cache_load [of f1 d "sector_bytes d ft cl cs 0"] assms(7,9) sb(1) by (auto simp: f1_def)
  moreover have "fl_offset f' = 0" "fl_page f' = fl_page f1" "fl_file_offset f' = 0" "fl_size f' = fl_size f"
    "fl_cache_dirty f' = fl_cache_dirty f" "fl_fat_cache f' = fl_fat_cache f" "fl_fat_cache_page f' = fl_fat_cache_page f"
    using arg_cong [OF calculation(5), of fl_offset] arg_cong [OF calculation(5), of fl_page]
      arg_cong [OF calculation(5), of fl_file_offset] arg_cong [OF calculation(5), of fl_size]
      arg_cong [OF calculation(5), of fl_cache_dirty] arg_cong [OF calculation(5), of fl_fat_cache]
      arg_cong [OF calculation(5), of fl_fat_cache_page] assms(6) by (simp_all add: f1_def)
  ultimately show ?thesis using assms(7,8) pos
    by (intro exI [of _ f']) (simp add: at_byte_def f1_def fat_coherent_def)
qed


subsection \<open>The end of the last cluster\<close>

text \<open>
  The mark of the last cluster is reported as \<^verbatim>\<open>EEOF\<close> where the loop looks for \<^verbatim>\<open>EEOCC\<close>; after the
  last byte of a file that fills its clusters the mark is taken for a cluster, whose sector is read.
\<close>

lemma end_status: "0xFFFFFF8 \<le> unat e \<Longrightarrow> unat e \<le> 0xFFFFFFF \<Longrightarrow> get_fat_ent_status e = EEOF"
proof -
  assume e: "0xFFFFFF8 \<le> unat e" "unat e \<le> 0xFFFFFFF"
  have m: "FAT_ENTRY_MASK = mask 28" by (simp add: FAT_ENTRY_MASK_def mask_eq_exp_minus_1)
  have "unat (e AND mask 28) = unat e" unfolding unat_and_mask using e(2) by simp
  then have "e AND FAT_ENTRY_MASK = e" unfolding m by (simp add: word_unat_eq_iff)
  then show ?thesis using e by (simp add: get_fat_ent_status_def Let_def u32_le_iff)
qed

lemma read_past_full_cluster:
  assumes vol: "volume_ok ft cl" and cl: "cl \<le> 1" and chain: "chain_ok d ft cl cs"
    and at: "at_byte d ft cl cs p f" and last: "p + 1 = 512 * sectors cl cs"
    and e: "fat_entry d ft (cs ! (length cs - 1)) e" "0xFFFFFF8 \<le> unat e" "unat e \<le> 0xFFFFFFF"
    and bad: "d (data_start ft + push_bit cl (e - root_clust_num ft)) = None"
      "data_start ft + push_bit cl (e - root_clust_num ft) \<noteq> fl_cache_page f"
  shows "fat_inc_file_ptr d ft 1 f = Inl (Panic ''Disk error'')"
proof -
  define k where "k = p div 512"
  define f1 where "f1 = f\<lparr>fl_file_offset := fl_file_offset f + 1, fl_offset := fl_offset f + 1\<rparr>"
  have pm: "(p + 1) mod 512 = 0" and pd: "(p + 1) div 512 = length cs * 2 ^ cl"
    unfolding last by (simp_all add: sectors_def)
  have o: "p mod 512 = 511" using pm by (simp add: mod_Suc split: if_splits)
  have k: "k + 1 = length cs * 2 ^ cl" using pd next_sector_index(2) [of p 512] o by (simp add: k_def)
  have "(k + 1) mod 2 ^ cl = 0" "(k + 1) div 2 ^ cl = length cs" unfolding k by simp_all
  then have full: "k mod 2 ^ cl + 1 = 2 ^ cl" and i: "k div 2 ^ cl = length cs - 1"
    using next_sector_index [of k "2 ^ cl"] by (auto simp: mod_Suc split: if_splits)
  note se = inc_sector_end(2) [OF vol cl chain at o, folded k_def f1_def, OF full, unfolded i]
  have coh: "fat_coherent d f1" using at by (simp add: at_byte_def fat_coherent_def f1_def)
  obtain f' where f': "cache_fat_page d (fat_start ft + drop_bit 7 (cs ! (length cs - 1))) f1 = (0, f')"
    "read_at (fl_fat_cache f') (unat (cs ! (length cs - 1) AND mask 7)) =
       Inr (fl_fat_cache f' ! unat (cs ! (length cs - 1) AND mask 7))"
    "fl_fat_cache f' ! unat (cs ! (length cs - 1) AND mask 7) AND FAT_ENTRY_MASK = e"
    "f'\<lparr>fl_fat_cache := fl_fat_cache f1, fl_fat_cache_page := fl_fat_cache_page f1\<rparr> = f1"
    using cached_entry [OF coh e(1)] by blast
  have eo: "fat_ent_order ft = 7" "fat_ent_mask ft = mask 7" using vol by (simp_all add: volume_ok_def)
  have "lsr_reg w 7 = drop_bit 7 w" for w by (simp add: lsr_reg_def)
  then have fc: "follow_cluster_chain d ft (cs ! (length cs - 1)) 1 f1 = Inr (EEOF, e, f')"
    using f'(1-3) end_status [OF e(2,3)] eo by (simp add: follow_cluster_chain_def EEOF_def EEOCC_def)
  have "fl_cache_dirty f' = fl_cache_dirty f" "fl_cache_page f' = fl_cache_page f"
    using arg_cong [OF f'(4), of fl_cache_dirty] arg_cong [OF f'(4), of fl_cache_page] by (simp_all add: f1_def)
  then show ?thesis using bad at unfolding se fc
    by (simp add: EEOF_def moved_def fat_cache_def at_byte_def)
qed

subsection \<open>Large clusters\<close>

lemma exp_less_exp: "2 \<le> n \<Longrightarrow> n + 2 \<le> (2 :: nat) ^ n"
  by (induction n rule: nat_induct_at_least) auto

lemma no_cluster_step:
  assumes "2 \<le> cl" and "cl \<le> 7"
  shows "lsr_reg ((rel AND mask cl) + 1) (mask cl) = 0"
proof -
  have e: "cl + 1 \<le> 2 ^ cl - 1" using exp_less_exp [OF assms(1)] by simp
  have b: "(2 :: nat) ^ cl \<le> 2 ^ 7" using assms(2) by (intro power_increasing) auto
  have m: "unat (mask cl :: u32) = 2 ^ cl - 1" using assms(2) by (simp add: mask_eq_exp_minus_1 unat_sub_u32 unat_exp2)
  have sh: "unat (mask cl :: u32) mod 256 = 2 ^ cl - 1" using b m by simp
  have "unat (rel AND mask cl) < 2 ^ cl" unfolding unat_and_mask by simp
  then have "unat ((rel AND mask cl) + 1) \<le> 2 ^ cl" using b by (subst unat_add_u32) simp_all
  also have "\<dots> < 2 ^ (cl + 1)" by simp
  also have "\<dots> \<le> 2 ^ (2 ^ cl - 1)" using e by (intro power_increasing) auto
  finally have "unat ((rel AND mask cl) + 1) < 2 ^ (2 ^ cl - 1)" .
  then have "unat (drop_bit (2 ^ cl - 1) ((rel AND mask cl) + 1)) = 0" unfolding unat_drop_bit by simp
  then show ?thesis unfolding lsr_reg_def sh by (simp add: unat_eq_zero)
qed


subsection \<open>Properties\<close>


definition demo_fat :: fat where
  "demo_fat = \<lparr>page_order = 9, page_mask = mask 9, clust_order = 0, clust_mask = mask 0, fat_ent_order = 7,
     fat_ent_mask = mask 7, root_clust_num = 2, data_start = 10, fat_start = 1, bpb_start = 0,
     info_start = 0, fats = 1\<rparr>"

definition demo_disk :: disk where
  "demo_disk s = (if s = 1 then Some (replicate 8 0 @ [5] @ replicate 503 0)
     else if s = 10 then Some (replicate 512 65) else if s = 13 then Some (replicate 512 66) else None)"

definition demo_file :: file_obj where
  "demo_file = file_struct_init\<lparr>fl_file_offset := 510, fl_offset := 510, fl_page := 10, fl_size := 600,
     fl_cache := replicate 512 65, fl_cache_page := 10\<rparr>"

lemma demo_volume: "volume_ok demo_fat 0"
  by (simp add: volume_ok_def demo_fat_def)

lemma demo_sectors:
  "sector_of demo_fat 0 [2, 5] 0 = 10" "sector_of demo_fat 0 [2, 5] 1 = 13" "sectors 0 [2, 5] = 2"
  "sector_bytes demo_disk demo_fat 0 [2, 5] 0 = replicate 512 65"
  "sector_bytes demo_disk demo_fat 0 [2, 5] 1 = replicate 512 66"
  by (simp_all add: sector_of_def demo_fat_def sectors_def sector_bytes_def demo_disk_def)

lemma demo_chain: "chain_ok demo_disk demo_fat 0 [2, 5]"
proof -
  have "words_of (replicate 8 0 @ [5] @ replicate 503 0) ! 2 AND FAT_ENTRY_MASK = 5"
    by (simp add: words_of_def le32_at_def le32_of_def be32_of_def FAT_ENTRY_MASK_def nth_append nth_Cons')
  moreover have "(2 :: u32) AND mask 7 = 2" by (simp add: mask_eq_exp_minus_1)
  ultimately have e: "fat_entry demo_disk demo_fat 2 5"
    by (simp add: fat_entry_def demo_fat_def demo_disk_def)
  have s: "k < 2 \<Longrightarrow> \<exists>bs. demo_disk (sector_of demo_fat 0 [2, 5] k) = Some bs \<and> length bs = 512" for k
    using demo_sectors(1,2) by (cases "k = 0") (auto simp: demo_disk_def less_Suc_eq numeral_2_eq_2)
  have r: "root_clust_num demo_fat = 2" by (simp add: demo_fat_def)
  have a: "unat ([2, 5] ! i - root_clust_num demo_fat) < 2 ^ 30" if "i < length [2 :: u32, 5]" for i
    using that unfolding r by (cases i) auto
  have b: "fat_entry demo_disk demo_fat ([2, 5] ! i) ([2, 5] ! Suc i) \<and> 2 \<le> unat ([2 :: u32, 5] ! Suc i) \<and>
      unat ([2 :: u32, 5] ! Suc i) \<le> 0xFFFFFEF" if "Suc i < length [2 :: u32, 5]" for i
    using that e by simp
  have c: "512 * 2 < (4294967296 :: nat)" by simp
  show ?thesis unfolding chain_ok_def demo_sectors(3) using a b s c by blast
qed

lemma demo_at: "at_byte demo_disk demo_fat 0 [2, 5] 510 demo_file"
  using demo_sectors by (simp add: at_byte_def demo_file_def file_struct_init_def fat_coherent_def)

lemma demo_content: "content demo_disk demo_fat 0 [2, 5] p = (if p < 512 then 65 else 66)" if "p < 1024"
proof (cases "p < 512")
  case False
  then have "p div 512 = 1" "p mod 512 = p - 512" using that by (simp_all add: div_nat_eqI mod_if)
  then show ?thesis using demo_sectors(5) that False by (simp add: content_def)
qed (use demo_sectors(4) in \<open>simp add: content_def\<close>)



text \<open>C24. On clusters of four sectors and more the chain is not followed. Whatever the allocation
  table says and wherever in its cluster the file stands, the step over the end of a sector
  leads to the sector with the next number, and the allocation table is not read: the number of
  clusters to follow is shifted by the mask of the cluster size, not by its order.\<close>

theorem fat_large_clusters:
  assumes "volume_ok ft cl" and "2 \<le> cl" and "cl \<le> 7" and "unat (fl_offset f) = 511"
    and "\<not> fl_cache_dirty f" and "d (fl_page f + 1) = Some bs" and "fl_page f + 1 \<noteq> fl_cache_page f"
  shows "fat_inc_file_ptr d ft 1 f =
    Inr (0, f\<lparr>fl_file_offset := fl_file_offset f + 1, fl_offset := 0, fl_page := fl_page f + 1,
               fl_cache := bs, fl_cache_page := fl_page f + 1\<rparr>)"
proof -
  have v: "page_order ft = 9" "page_mask ft = mask 9" "clust_mask ft = mask cl"
    using assms(1) by (simp_all add: volume_ok_def)
  have o: "fl_offset f = 511" using assms(4) by (simp add: word_unat_eq_iff)
  have i: "lsr_reg 512 9 = 1" by (simp add: lsr_reg_def)
  note z = no_cluster_step [OF assms(2,3), of "fl_page f - data_start ft"]
  show ?thesis using assms(5-7) v o i z
    by (simp add: fat_inc_file_ptr_def Let_def fat_cache_def mask_eq_exp_minus_1)
qed

lemma fat_large_clusters_witness:
  "fat_inc_file_ptr (\<lambda>s. if s = 14 then Some (replicate 512 67) else None)
     (demo_fat\<lparr>clust_order := 2, clust_mask := mask 2\<rparr>) 1 (demo_file\<lparr>fl_offset := 511, fl_page := 13\<rparr>) =
   Inr (0, demo_file\<lparr>fl_file_offset := 511, fl_offset := 0, fl_page := 14, fl_cache := replicate 512 67,
     fl_cache_page := 14\<rparr>)"
  using fat_large_clusters [of "demo_fat\<lparr>clust_order := 2, clust_mask := mask 2\<rparr>" 2
      "demo_file\<lparr>fl_offset := 511, fl_page := 13\<rparr>" "\<lambda>s. if s = 14 then Some (replicate 512 67) else None"
      "replicate 512 67"]
  by (simp add: volume_ok_def demo_fat_def demo_file_def file_struct_init_def)

subsection \<open>Short names\<close>

text \<open>Characters a short name may have, and the entry of a name.\<close>

definition name_char :: "u8 \<Rightarrow> bool" where
  "name_char c \<longleftrightarrow> is_sfn_char_valid c \<and> c \<noteq> 0x20"

definition short_entry :: "u8 list \<Rightarrow> u8 list \<Rightarrow> u8 list" where
  "short_entry base ext = map fat_to_upper base @ replicate (8 - length base) 0x20 @
     map fat_to_upper ext @ replicate (3 - length ext) 0x20"

lemma name_char_upper: "name_char c \<Longrightarrow> name_char (fat_to_upper c)"
proof (cases "c \<le> 0x7A \<and> 0x61 \<le> c")
  case True
  then have u: "unat (c - 32) = unat c - 32" "97 \<le> unat c" "unat c \<le> 122"
    by (simp_all add: word_le_nat_alt unat_sub)
  have "c - 32 \<noteq> w" if "unat w < 65 \<or> 90 < unat w" for w using u that by auto
  moreover have "\<not> c - 32 < 0x20" using u by (simp add: word_less_nat_alt)
  ultimately show ?thesis using True
    by (simp add: name_char_def is_sfn_char_valid_def illegal_sfn_chars_def fat_to_upper_def)
qed (auto simp: fat_to_upper_def)

lemma upper_upper [simp]: "fat_to_upper (fat_to_upper c) = fat_to_upper c"
proof (cases "c \<le> 0x7A \<and> 0x61 \<le> c")
  case True
  then have "unat (c - 32) = unat c - 32" "97 \<le> unat c" "unat c \<le> 122"
    by (simp_all add: word_le_nat_alt unat_sub)
  then have "\<not> 0x61 \<le> c - 32" by (simp add: word_le_nat_alt)
  then show ?thesis using True by (simp add: fat_to_upper_def)
qed (auto simp: fat_to_upper_def)

lemma cmp_upper: "name_char c \<Longrightarrow> fat_sfn_cmp_char_uni (fat_to_upper c) c"
  using name_char_upper [of c] by (simp add: fat_sfn_cmp_char_uni_def name_char_def)

lemma no_dot_in_name: "\<not> name_char 0x2E"
  by (simp add: name_char_def is_sfn_char_valid_def illegal_sfn_chars_def)

lemma name_char_no_dot: "name_char c \<Longrightarrow> c \<noteq> 0x2E"
  using no_dot_in_name by blast

lemma base_cmp_run:
  assumes "n \<le> 8" and "n \<le> len" and "\<And>k. k < n \<Longrightarrow> name ! k \<noteq> 0x2E \<and> fat_sfn_cmp_char_uni (sfn ! k) (name ! k)"
  shows "base_cmp sfn name len 0 = base_cmp sfn name len n"
proof -
  have "i \<le> n \<Longrightarrow> base_cmp sfn name len i = base_cmp sfn name len n" for i
  proof (induction rule: inc_induct)
    case (step k)
    then have "\<not> 8 \<le> k" "\<not> len \<le> k" "name ! k \<noteq> 0x2E" "fat_sfn_cmp_char_uni (sfn ! k) (name ! k)"
      using assms(1,2) step.hyps assms(3) [OF step.hyps(2)] by auto
    then have "base_cmp sfn name len k = base_cmp sfn name len (Suc k)"
      by (subst base_cmp.simps) simp
    then show ?case using step.IH by (rule trans)
  qed simp
  from this [OF le0] show ?thesis .
qed

lemma ext_cmp_upper:
  "\<forall>c \<in> set ext. name_char c \<Longrightarrow> ext_cmp (map fat_to_upper ext @ replicate m 0x20) ext"
proof (induction ext)
  case Nil
  then show ?case by (cases m) auto
qed (simp add: cmp_upper)


lemma short_entry_parts:
  assumes "length base \<le> 8" and "length ext \<le> 3"
  shows "k < length base \<Longrightarrow> short_entry base ext ! k = fat_to_upper (base ! k)"
    and "slice (length base) (8 - length base) (short_entry base ext) = replicate (8 - length base) 0x20"
    and "slice 8 3 (short_entry base ext) = map fat_to_upper ext @ replicate (3 - length ext) 0x20"
  using assms by (simp_all add: short_entry_def slice_def nth_append)

lemma base_cmp_entry:
  assumes "\<forall>c \<in> set base. name_char c" and "length base \<le> 8" and "length ext \<le> 3"
  shows "base_cmp (short_entry base ext) (base @ rest) (length base + length rest) 0 =
    base_cmp (short_entry base ext) (base @ rest) (length base + length rest) (length base)"
proof (rule base_cmp_run)
  fix k assume k: "k < length base"
  then have "name_char (base ! k)" using assms(1) by simp
  then show "(base @ rest) ! k \<noteq> 0x2E \<and> fat_sfn_cmp_char_uni (short_entry base ext ! k) ((base @ rest) ! k)"
    using k short_entry_parts(1) [OF assms(2,3) k] name_char_no_dot cmp_upper by (simp add: nth_append)
qed (use assms in simp_all)

text \<open>Which names find a short entry. Let \<open>base\<close> and \<open>ext\<close> be made of characters that short
  names may have. The name \<open>base.ext\<close> finds its own entry unless \<open>base\<close> has exactly seven characters;
  and the name \<open>base\<close> alone finds the entry \<open>base.ext\<close>, whatever \<open>ext\<close> is, unless \<open>base\<close> has all of
  eight characters, when it finds no entry at all.\<close>

theorem fat_short_names:
  assumes "\<forall>c \<in> set base. name_char c" and "\<forall>c \<in> set ext. name_char c"
    and "length base \<le> 8" and "length ext \<le> 3"
  shows "(ext \<noteq> [] \<longrightarrow>
      fat_sfn_compare_uni (short_entry base ext) (base @ 0x2E # ext) (length base + 1 + length ext) =
        (length base \<noteq> 7)) \<and>
    fat_sfn_compare_uni (short_entry base ext) base (length base) = (length base \<noteq> 8)"
proof -
  let ?e = "short_entry base ext" and ?n = "length base"
  note sp = short_entry_parts [OF assms(3,4)]
  have with_ext: "fat_sfn_compare_uni ?e (base @ 0x2E # ext) (?n + 1 + length ext) = (?n \<noteq> 7)" if "ext \<noteq> []"
  proof -
    have "base_cmp ?e (base @ 0x2E # ext) (?n + 1 + length ext) 0 = Some (Some ?n)"
      using base_cmp_entry [OF assms(1,3,4), of "0x2E # ext"] assms(3)
      by (simp add: base_cmp.simps [of _ _ _ ?n])
    moreover have "(base @ 0x2E # ext) ! (?n + 1) \<noteq> 0x2E"
      using that assms(2) name_char_no_dot by (cases ext) (auto simp: nth_append)
    moreover have "slice (?n + 1) (?n + 1 + length ext - (?n + 1)) (base @ 0x2E # ext) = ext"
      by (simp add: slice_def)
    ultimately show ?thesis using that sp(2,3) ext_cmp_upper [OF assms(2)]
      by (simp add: fat_sfn_compare_uni_def Let_def)
  qed
  have "base_cmp ?e base ?n 0 = (if ?n = 8 then Some (Some 8) else Some None)"
    using base_cmp_entry [OF assms(1,3,4), of "[]"] sp(2) assms(3) by (simp add: base_cmp.simps [of _ _ _ ?n])
  then have "fat_sfn_compare_uni ?e base ?n = (?n \<noteq> 8)" by (simp add: fat_sfn_compare_uni_def)
  then show ?thesis using with_ext by blast
qed

lemma fat_short_names_witness:
  "\<not> fat_sfn_compare_uni (str_bytes ''PICTUREABMP'') (str_bytes ''picturea'') 8 \<and>
   \<not> fat_sfn_compare_uni (str_bytes ''FONTTTF TTF'') (str_bytes ''fontttf.ttf'') 11"
proof -
  have "name_char c" if "c \<in> {0x61, 0x62, 0x63, 0x65, 0x66, 0x69, 0x6D, 0x6E, 0x6F, 0x70, 0x72, 0x74, 0x75}" for c
    using that by (auto simp: name_char_def is_sfn_char_valid_def illegal_sfn_chars_def)
  then have c: "\<forall>c \<in> set (str_bytes ''picturea''). name_char c" "\<forall>c \<in> set (str_bytes ''fontttf''). name_char c"
    "\<forall>c \<in> set (str_bytes ''bmp''). name_char c" "\<forall>c \<in> set (str_bytes ''ttf''). name_char c"
    by (simp_all add: str_bytes_def of_char_def)
  have e: "short_entry (str_bytes ''picturea'') (str_bytes ''bmp'') = str_bytes ''PICTUREABMP''"
    "short_entry (str_bytes ''fontttf'') (str_bytes ''ttf'') = str_bytes ''FONTTTF TTF''"
    by (simp_all add: short_entry_def str_bytes_def of_char_def fat_to_upper_def)
  show ?thesis
    using fat_short_names [OF c(1,3)] fat_short_names [OF c(2,4)] unfolding e
    by (simp add: str_bytes_def eval_nat_numeral)
qed


subsection \<open>Mounting\<close>

lemma mask_loop_mask: "mask_loop n (mask m) = mask (m + n)"
proof (induction n arbitrary: m)
  case (Suc n)
  have "push_bit 1 (mask m) OR 1 = (mask (Suc m) :: u32)"
    by (simp add: mask_Suc_double ac_simps)
  then show ?case using Suc [of "Suc m"] by simp
qed simp

lemma order_mask: "k < 32 \<Longrightarrow> fat_order_to_mask (of_nat k) = Inr (mask k)"
  using mask_loop_mask [of k 0]
  by (simp add: fat_order_to_mask_def assert_that_def word_less_nat_alt unat_of_nat)

lemma mount_volume:
  assumes "d lba = Some bpb" and "bpb_signature_ok bpb" and "bpb_contain_fat32 bpb"
    and "le16_at bpb BPB_SECTOR_SIZE = 512" and "bpb ! BPB_CLUSTER_SIZE = 2 ^ cl" and "cl < 8"
  shows "fat_mount_partition d False lba = Inr (- ENOMEM, None) \<and>
    (\<exists>ft. fat_mount_partition d True lba = Inr (0, Some ft) \<and> volume_ok ft cl \<and> fat_start ft = lba + ucast (le16_at bpb BPB_RSVD_CNT) \<and>
    data_start ft = fat_start ft + ucast (bpb ! BPB_NUM_FATS) * le32_at bpb BPB_32_FAT_SIZE \<and>
    root_clust_num ft = le32_at bpb BPB_32_ROOT_CLUST)"
proof (rule conjI)
  have "(2 :: nat) ^ cl < 2 ^ 8" using assms(6) by (intro power_strict_increasing) auto
  moreover have "(2 ^ cl :: u8) = of_nat (2 ^ cl)" "(2 ^ cl :: u32) = of_nat (2 ^ cl)" by simp_all
  ultimately have "unat (2 ^ cl :: u8) = 2 ^ cl" "unat (2 ^ cl :: u32) = 2 ^ cl"
    by (simp_all only: unat_of_nat) simp_all
  then have "unat (ucast (2 ^ cl :: u8) :: u32) = unat (2 ^ cl :: u32)" by (simp only: unat_ucast_8_32)
  then have c: "(ucast (2 ^ cl :: u8) :: u32) = 2 ^ cl" by (simp add: word_unat_eq_iff)
  have cc: "ctz (ucast (2 ^ cl :: u8)) = cl" unfolding c using assms(6) by simp
  have "(512 :: u32) = 2 ^ 9" by simp
  then have p: "ctz 512 = 9" by (simp only: ctz_exp)
  have u: "(ucast (of_nat n :: u32) :: u8) = of_nat n" for n
    by (simp add: word_unat_eq_iff unsigned_ucast_eq unsigned_of_nat)
  have m9: "fat_order_to_mask 9 = Inr (mask 9)" and m7: "fat_order_to_mask 7 = Inr (mask 7)"
    using order_mask [of 9] order_mask [of 7] by simp_all
  have mc: "fat_order_to_mask (of_nat cl) = Inr (mask cl)" using order_mask assms(6) by simp
  show "fat_mount_partition d False lba = Inr (- ENOMEM, None)"
    using assms(1-3) by (simp add: fat_mount_partition_def)
  show "\<exists>ft. fat_mount_partition d True lba = Inr (0, Some ft) \<and> volume_ok ft cl \<and>
    fat_start ft = lba + ucast (le16_at bpb BPB_RSVD_CNT) \<and>
    data_start ft = fat_start ft + ucast (bpb ! BPB_NUM_FATS) * le32_at bpb BPB_32_FAT_SIZE \<and>
    root_clust_num ft = le32_at bpb BPB_32_ROOT_CLUST"
    using assms m9 m7 mc
    by (simp add: fat_mount_partition_def build_fat_struct_def Let_def cc p u volume_ok_def)
qed

text \<open>C25. Mounting a FAT32 partition of sectors of 512 bytes and clusters of \<open>2 ^ cl\<close> sectors never
  fails an assertion and yields a volume whose orders and masks agree, with the first data sector
  behind the reserved sectors and the allocation tables; without memory it is refused.\<close>

theorem mount_volume_ok:
  assumes "d lba = Some bpb" and "bpb_signature_ok bpb" and "bpb_contain_fat32 bpb"
    and "le16_at bpb BPB_SECTOR_SIZE = 512" and "bpb ! BPB_CLUSTER_SIZE = 2 ^ cl" and "cl < 8"
  shows "fat_mount_partition d False lba = Inr (- ENOMEM, None) \<and>
    (\<exists>ft. fat_mount_partition d True lba = Inr (0, Some ft) \<and> volume_ok ft cl \<and> fat_start ft = lba + ucast (le16_at bpb BPB_RSVD_CNT) \<and>
    data_start ft = fat_start ft + ucast (bpb ! BPB_NUM_FATS) * le32_at bpb BPB_32_FAT_SIZE \<and>
    root_clust_num ft = le32_at bpb BPB_32_ROOT_CLUST)"
  using mount_volume [of d lba bpb cl] assms by blast

definition demo_bpb :: "u8 list" where
  "demo_bpb = replicate 11 0 @ [0, 2, 8, 32, 0, 2] @ replicate 15 0 @ [0, 0, 16, 0, 0, 4, 0, 0] @ replicate 4 0 @
     [2, 0, 0, 0, 1, 0] @ replicate 32 0 @ [70, 65, 84] @ replicate 425 0 @ [0x55, 0xAA]"

lemma demo_bpb_fields:
  "demo_bpb ! 510 = 0x55" "demo_bpb ! 511 = 0xAA" "demo_bpb ! BPB_CLUSTER_SIZE = 8" "demo_bpb ! BPB_NUM_FATS = 2"
  "slice BPB_32_FSTYPE 3 demo_bpb = [70, 65, 84]" "le16_at demo_bpb BPB_ROOT_ENT_CNT = 0"
  "le16_at demo_bpb BPB_FAT_SIZE_16 = 0" "le16_at demo_bpb BPB_TOT_SECT_16 = 0" "le16_at demo_bpb BPB_RSVD_CNT = 32"
  "le32_at demo_bpb BPB_32_FAT_SIZE = 1024" "le32_at demo_bpb BPB_TOT_SECT_32 = 0x100000"
  "le16_at demo_bpb BPB_SECTOR_SIZE = 512"
  by (simp_all add: demo_bpb_def BPB_CLUSTER_SIZE_def BPB_NUM_FATS_def BPB_32_FSTYPE_def slice_def BPB_ROOT_ENT_CNT_def
      BPB_FAT_SIZE_16_def BPB_TOT_SECT_16_def BPB_RSVD_CNT_def BPB_32_FAT_SIZE_def BPB_TOT_SECT_32_def
      BPB_SECTOR_SIZE_def nth_append nth_Cons' le16_at_def le32_at_def le16_of_def le32_of_def be16_of_def be32_of_def)

lemma mount_volume_ok_witness:
  "\<exists>ft. fat_mount_partition (\<lambda>s. Some demo_bpb) True 2048 = Inr (0, Some ft) \<and> volume_ok ft 3"
proof -
  have "bpb_signature_ok demo_bpb" "bpb_contain_fat32 demo_bpb"
    by (simp_all add: bpb_signature_ok_def bpb_contain_fat32_def bpb_contain_valid_fat_def Let_def
        demo_bpb_fields str_bytes_def of_char_def)
  then show ?thesis
    using mount_volume_ok [of "\<lambda>s. Some demo_bpb" 2048 demo_bpb 3] demo_bpb_fields by auto
qed

end
