(* ===== verification/Disk.thy ===== *)
theory Disk
  imports FatRead
begin

text \<open>
  Disks, partitions and the file interface of the kernel: \<^verbatim>\<open>fs/disk.c\<close> and \<^verbatim>\<open>fs/fs.c\<close>. A disk keeps the
  read function its driver supplies; a partition of the system is the index of its disk with its index
  in the partition table. Names are C strings without their terminator. The allocation of buffers and
  of file objects is taken to succeed, that of a volume is an argument. The listing of disks and
  partitions only prints.
\<close>

datatype disk_type = DISK_SD | DISK_MMC

definition disk_names :: "disk_type \<Rightarrow> u8 list" where
  "disk_names t = (case t of DISK_SD \<Rightarrow> str_bytes ''sd'' | DISK_MMC \<Rightarrow> str_bytes ''mmc'')"

definition DISK_NAME_LEN :: nat where "DISK_NAME_LEN = 33"

record partition =
  pt_fs :: "fat option"
  pt_name :: "u8 list"
  pt_label :: "u8 list"
  pt_number :: u8
  pt_start_lba :: u32
  pt_sect_count :: u32

definition empty_partition :: partition where
  "empty_partition = \<lparr>pt_fs = None, pt_name = [], pt_label = [], pt_number = 0, pt_start_lba = 0, pt_sect_count = 0\<rparr>"

record disk_dev =
  dk_name :: "u8 list"
  dk_type :: disk_type
  dk_partitions :: "partition list"
  dk_read :: disk

record sys_disk =
  sd_disks :: "disk_dev list"
  sd_partitions :: "(nat \<times> nat) list"

definition disk_init :: sys_disk where
  "disk_init = \<lparr>sd_disks = [], sd_partitions = []\<rparr>"

definition the_partition :: "sys_disk \<Rightarrow> nat \<times> nat \<Rightarrow> partition" where
  "the_partition s p = dk_partitions (sd_disks s ! fst p) ! snd p"

subsection \<open>Finding partitions\<close>

definition partition_set_name :: "u8 list \<Rightarrow> partition \<Rightarrow> u8 \<Rightarrow> partition res" where
  "partition_set_name disk_name part index =
     (if 9 < index then Inl (Panic ''Unsupported feature!'')
      else if DISK_NAME_LEN < length disk_name + 2 then Inl OutOfBounds
      else Inr (part\<lparr>pt_name := disk_name @ [0x31 + index]\<rparr>))"

text \<open>The entries of the partition table from \<open>i\<close> on; \<open>index\<close> counts the valid ones so far.\<close>

fun find_partitions_loop :: "u8 list \<Rightarrow> u8 list \<Rightarrow> nat list \<Rightarrow> u8 \<Rightarrow> partition list \<Rightarrow> partition list res" where
  "find_partitions_loop name buf [] index parts = Inr parts"
| "find_partitions_loop name buf (i # is) index parts =
     (let entry = 446 + 16 * i; status = buf ! entry; sectors = le32_at buf (entry + 12) in
      if 1 \<le> status \<and> status \<le> 0x7F then find_partitions_loop name buf is index parts
      else if sectors \<noteq> 0 then
        res_bind (partition_set_name name
            ((parts ! i)\<lparr>pt_sect_count := sectors, pt_start_lba := le32_at buf (entry + 8), pt_number := of_nat i\<rparr>) index)
          (\<lambda>p. find_partitions_loop name buf is (index + 1) (parts[i := p]))
      else find_partitions_loop name buf is index parts)"

definition disk_find_partitions :: "disk_dev \<Rightarrow> disk_dev res" where
  "disk_find_partitions dk =
     (let parts = replicate 4 empty_partition in
      case dk_read dk 0 of
        None \<Rightarrow> Inl (Panic ''Cant read MBR'')
      | Some buf \<Rightarrow>
          if buf ! 510 \<noteq> 0x55 \<or> buf ! 511 \<noteq> 0xAA then Inr (dk\<lparr>dk_partitions := parts\<rparr>)
          else res_bind (find_partitions_loop (dk_name dk) buf [0..<4] 0 parts) (\<lambda>parts'.
            Inr (dk\<lparr>dk_partitions := parts'\<rparr>)))"

text \<open>The letter is a byte; a zero one would end the name.\<close>

definition disk_set_name :: "disk_dev list \<Rightarrow> disk_type \<Rightarrow> u8 list" where
  "disk_set_name disks type =
     (let letter = 0x61 + of_nat (length (filter (\<lambda>dk. dk_type dk = type) disks)) in
      disk_names type @ (if letter = 0 then [] else [letter]))"

text \<open>The mounting loop: the partitions with their volumes, and the indices of the mounted ones.\<close>

fun mount_loop :: "disk \<Rightarrow> (nat \<Rightarrow> bool) \<Rightarrow> nat list \<Rightarrow> partition list \<Rightarrow> (partition list \<times> nat list) res" where
  "mount_loop d alloc [] parts = Inr (parts, [])"
| "mount_loop d alloc (i # is) parts =
     (if pt_sect_count (parts ! i) = 0 then mount_loop d alloc is parts
      else res_bind (fat_mount_partition d (alloc i) (pt_start_lba (parts ! i))) (\<lambda>(err, ft).
        if err = - ENOMEM then Inl (Panic ''No memory'')
        else if err \<noteq> 0 then mount_loop d alloc is parts
        else res_bind (mount_loop d alloc is
            (parts[i := (parts ! i)\<lparr>pt_fs := ft, pt_label := str_bytes ''No label''\<rparr>]))
          (\<lambda>(parts', ms). Inr (parts', i # ms))))"

definition disk_add :: "disk_dev \<Rightarrow> disk_type \<Rightarrow> (nat \<Rightarrow> bool) \<Rightarrow> sys_disk \<Rightarrow> sys_disk res" where
  "disk_add dk type alloc s =
     res_bind (disk_find_partitions (dk\<lparr>dk_name := disk_set_name (sd_disks s) type\<rparr>)) (\<lambda>dk1.
     res_bind (mount_loop (dk_read dk1) alloc [0..<4] (dk_partitions dk1)) (\<lambda>(parts, ms).
       Inr \<lparr>sd_disks = sd_disks s @ [dk1\<lparr>dk_partitions := parts\<rparr>],
            sd_partitions = sd_partitions s @ map (Pair (length (sd_disks s))) ms\<rparr>))"

subsection \<open>Paths\<close>

text \<open>The comparison of a name with the first \<open>cnt\<close> bytes of a path.\<close>

fun partition_name_cmp :: "u8 list \<Rightarrow> u8 list \<Rightarrow> nat \<Rightarrow> bool" where
  "partition_name_cmp [] name cnt \<longleftrightarrow> cnt = 0"
| "partition_name_cmp (c # cs) name 0 \<longleftrightarrow> False"
| "partition_name_cmp (c # cs) [] (Suc n) \<longleftrightarrow> False"
| "partition_name_cmp (c # cs) (d # ds) (Suc n) \<longleftrightarrow> c = d \<and> partition_name_cmp cs ds n"

definition name_to_partition :: "sys_disk \<Rightarrow> u8 list \<Rightarrow> nat \<Rightarrow> (nat \<times> nat) option" where
  "name_to_partition s name cnt =
     find (\<lambda>p. partition_name_cmp (pt_name (the_partition s p)) name cnt) (sd_partitions s)"

definition get_part_from_path :: "sys_disk \<Rightarrow> u8 list \<Rightarrow> u8 list \<times> (nat \<times> nat) option" where
  "get_part_from_path s path =
     (let src = (case path of c # cs \<Rightarrow> if c = 0x2F then cs else path | [] \<Rightarrow> path);
          cnt = length (takeWhile (\<lambda>c. c \<noteq> 0x2F) (take 0xFF src))
      in (drop cnt src, name_to_partition s src cnt))"

text \<open>An open file or directory: its partition and its object.\<close>

type_synonym handle = "(nat \<times> nat) \<times> file_obj"

definition with_volume :: "sys_disk \<Rightarrow> nat \<times> nat \<Rightarrow> (disk \<Rightarrow> fat \<Rightarrow> 'a res) \<Rightarrow> 'a res" where
  "with_volume s p f =
     (case pt_fs (the_partition s p) of None \<Rightarrow> Inl NullPointer | Some ft \<Rightarrow> f (dk_read (sd_disks s ! fst p)) ft)"

definition dir_open :: "sys_disk \<Rightarrow> u8 list \<Rightarrow> handle option res" where
  "dir_open s path =
     (case get_part_from_path s path of
        (rest, None) \<Rightarrow> Inr None
      | (rest, Some p) \<Rightarrow>
          res_bind (with_volume s p (\<lambda>d ft. fat_dir_open d ft rest file_struct_init)) (\<lambda>(err, dir).
            Inr (if err \<noteq> 0 then None else Some (p, dir))))"

definition file_open :: "sys_disk \<Rightarrow> u8 list \<Rightarrow> handle option res" where
  "file_open s path =
     (case get_part_from_path s path of
        (rest, None) \<Rightarrow> Inr None
      | (rest, Some p) \<Rightarrow>
          res_bind (with_volume s p (\<lambda>d ft. fat_file_open d ft rest file_struct_init)) (\<lambda>(err, f).
            Inr (if err \<noteq> 0 then None else Some (p, f))))"

definition dir_read :: "sys_disk \<Rightarrow> handle \<Rightarrow> file_info \<Rightarrow> (int \<times> file_info \<times> handle) res" where
  "dir_read s h info =
     res_bind (with_volume s (fst h) (\<lambda>d ft. fat_dir_read d ft info (snd h))) (\<lambda>(err, info', dir).
       Inr (err, info', (fst h, dir)))"

definition file_read :: "sys_disk \<Rightarrow> handle \<Rightarrow> u32 \<Rightarrow> (u8 list \<times> int \<times> handle) res" where
  "file_read s h req_cnt =
     res_bind (with_volume s (fst h) (\<lambda>d ft. fat_file_read d ft req_cnt (snd h))) (\<lambda>(data, err, f).
       Inr (data, err, (fst h, f)))"

subsection \<open>Names\<close>

lemma partition_name_cmp_take: "cnt \<le> length name \<Longrightarrow> partition_name_cmp pn name cnt \<longleftrightarrow> pn = take cnt name"
  by (induction pn name cnt rule: partition_name_cmp.induct) auto

definition part_name :: "u8 list \<Rightarrow> nat \<Rightarrow> u8 list" where
  "part_name dn m = dn @ [0x31 + of_nat m]"

lemma small_byte_inj: "m < 256 \<Longrightarrow> n < 256 \<Longrightarrow> (a :: u8) + of_nat m = a + of_nat n \<longleftrightarrow> m = n"
proof -
  assume "m < 256" "n < 256"
  then have "(of_nat m :: u8) = of_nat n \<longleftrightarrow> m = n"
    by (auto simp: word_unat_eq_iff unat_of_nat)
  then show ?thesis by simp
qed

lemma part_name_inj: "m < 4 \<Longrightarrow> n < 4 \<Longrightarrow> part_name dn m = part_name dn n \<longleftrightarrow> m = n"
  using small_byte_inj [of m n "0x31"] by (simp add: part_name_def)

text \<open>What the pass over the partition table leaves in the entries \<open>is\<close>.\<close>

definition named :: "u8 list \<Rightarrow> nat \<Rightarrow> nat list \<Rightarrow> partition list \<Rightarrow> bool" where
  "named dn idx is parts \<longleftrightarrow>
     (\<forall>j \<in> set is. pt_sect_count (parts ! j) \<noteq> 0 \<longrightarrow>
        (\<exists>m. idx \<le> m \<and> m < 4 \<and> pt_name (parts ! j) = part_name dn m)) \<and>
     (\<forall>j \<in> set is. \<forall>k \<in> set is. pt_sect_count (parts ! j) \<noteq> 0 \<longrightarrow> pt_sect_count (parts ! k) \<noteq> 0 \<longrightarrow>
        pt_name (parts ! j) = pt_name (parts ! k) \<longrightarrow> j = k)"

lemma named_Cons:
  assumes "named dn idx' is parts" and "idx \<le> idx'"
    and "pt_sect_count (parts ! i) \<noteq> 0 \<longrightarrow> pt_name (parts ! i) = part_name dn idx \<and> idx < 4 \<and> idx < idx'"
  shows "named dn idx (i # is) parts"
proof (cases "pt_sect_count (parts ! i) = 0")
  case True
  have "\<exists>m\<ge>idx. m < 4 \<and> pt_name (parts ! j) = part_name dn m"
    if "j \<in> set is" "pt_sect_count (parts ! j) \<noteq> 0" for j
    using assms(1,2) that by (meson named_def le_trans)
  then show ?thesis using True assms(1) by (simp add: named_def)
next
  case False
  have later: "\<exists>m>idx. m < 4 \<and> pt_name (parts ! j) = part_name dn m"
    if j: "j \<in> set is" "pt_sect_count (parts ! j) \<noteq> 0" for j
  proof -
    obtain m where "idx' \<le> m" "m < 4" "pt_name (parts ! j) = part_name dn m"
      using assms(1) j unfolding named_def by blast
    then show ?thesis using assms(3) False by (intro exI [of _ m]) simp
  qed
  have i: "pt_name (parts ! i) = part_name dn idx" "idx < 4" using assms(3) False by simp_all
  have diff: "pt_name (parts ! j) \<noteq> pt_name (parts ! i)" if "j \<in> set is" "pt_sect_count (parts ! j) \<noteq> 0" for j
    using later [OF that] i part_name_inj by fastforce
  have ex: "\<exists>m\<ge>idx. m < 4 \<and> pt_name (parts ! j) = part_name dn m"
    if "j \<in> set (i # is)" "pt_sect_count (parts ! j) \<noteq> 0" for j
  proof (cases "j = i")
    case True
    then show ?thesis using i by blast
  next
    case False
    then show ?thesis using later [of j] that by (auto intro: less_imp_le)
  qed
  show ?thesis unfolding named_def
  proof (intro conjI ballI impI)
    fix j k assume jk: "j \<in> set (i # is)" "k \<in> set (i # is)" "pt_sect_count (parts ! j) \<noteq> 0"
      "pt_sect_count (parts ! k) \<noteq> 0" "pt_name (parts ! j) = pt_name (parts ! k)"
    show "j = k"
    proof (cases "j \<in> set is \<and> k \<in> set is")
      case True
      then show ?thesis using assms(1) jk(3-5) unfolding named_def by blast
    next
      case False
      then show ?thesis using diff [of j] diff [of k] jk by auto
    qed
  qed (rule ex)
qed

lemma find_partitions_named:
  "find_partitions_loop dn buf is idx parts = Inr parts' \<Longrightarrow> distinct is \<Longrightarrow> set is \<subseteq> {..<length parts} \<Longrightarrow>
   unat idx + length is \<le> 4 \<Longrightarrow> \<forall>j \<in> set is. pt_sect_count (parts ! j) = 0 \<Longrightarrow>
   length parts' = length parts \<and> (\<forall>j. j \<notin> set is \<longrightarrow> parts' ! j = parts ! j) \<and> named dn (unat idx) is parts'"
proof (induction "is" arbitrary: idx parts)
  case Nil
  then show ?case by (simp add: named_def)
next
  case (Cons i "is")
  let ?e = "446 + 16 * i"
  show ?case
  proof (cases "(1 \<le> buf ! ?e \<and> buf ! ?e \<le> 0x7F) \<or> le32_at buf (?e + 12) = 0")
    case True
    then have r: "find_partitions_loop dn buf is idx parts = Inr parts'"
      using Cons.prems(1) by (auto simp: Let_def split: if_splits)
    have a: "distinct is" "set is \<subseteq> {..<length parts}" "unat idx + length is \<le> 4"
      "\<forall>j \<in> set is. pt_sect_count (parts ! j) = 0" using Cons.prems(2-5) by simp_all
    note ih = Cons.IH [OF r a]
    have "parts' ! i = parts ! i" using ih Cons.prems(2) by simp
    then have "named dn (unat idx) (i # is) parts'"
      using ih Cons.prems(5) by (intro named_Cons [of _ "unat idx"]) simp_all
    then show ?thesis using ih by simp
  next
    case False
    define p where "p = (parts ! i)\<lparr>pt_sect_count := le32_at buf (?e + 12), pt_start_lba := le32_at buf (?e + 8),
      pt_number := of_nat i, pt_name := dn @ [0x31 + idx]\<rparr>"
    have r: "find_partitions_loop dn buf is (idx + 1) (parts[i := p]) = Inr parts'"
      using Cons.prems(1) False by (auto simp: Let_def partition_set_name_def p_def split: if_splits)
    have u: "unat (idx + 1) = unat idx + 1" using Cons.prems(4) by (simp add: unat_word_ariths)
    have a: "distinct is" "set is \<subseteq> {..<length (parts[i := p])}" "unat (idx + 1) + length is \<le> 4"
      "\<forall>j \<in> set is. pt_sect_count (parts[i := p] ! j) = 0"
      using Cons.prems(2-5) u by (auto simp: nth_list_update)
    note ih = Cons.IH [OF r a]
    have "parts' ! i = p" using ih Cons.prems(2,3) by auto
    then have "pt_name (parts' ! i) = part_name dn (unat idx)" by (simp add: p_def part_name_def)
    then have "named dn (unat idx) (i # is) parts'"
      using ih u Cons.prems(4) by (intro named_Cons [of _ "unat (idx + 1)"]) simp_all
    then show ?thesis using ih by auto
  qed
qed


lemma mount_loop_keeps:
  "mount_loop d alloc is parts = Inr (parts', ms) \<Longrightarrow> distinct is \<Longrightarrow> set is \<subseteq> {..<length parts} \<Longrightarrow>
   distinct ms \<and> set ms \<subseteq> {j \<in> set is. pt_sect_count (parts ! j) \<noteq> 0} \<and> length parts' = length parts \<and>
   (\<forall>j. pt_name (parts' ! j) = pt_name (parts ! j))"
proof (induction "is" arbitrary: parts parts' ms)
  case Nil
  then show ?case by simp
next
  case (Cons i "is")
  have i: "i < length parts" "distinct is" "set is \<subseteq> {..<length parts}" using Cons.prems(2,3) by auto
  show ?case
  proof (cases "mount_loop d alloc is parts = Inr (parts', ms)")
    case True
    then show ?thesis using Cons.IH [OF True i(2,3)] by auto
  next
    case False
    define p where "p ft = (parts ! i)\<lparr>pt_fs := ft, pt_label := str_bytes ''No label''\<rparr>" for ft
    obtain ft ms' where ft: "mount_loop d alloc is (parts[i := p ft]) = Inr (parts', ms')" "ms = i # ms'"
        "pt_sect_count (parts ! i) \<noteq> 0"
      using Cons.prems(1) False
      by (auto simp: p_def res_bind_Inr_iff split: if_splits prod.splits)
    have l: "set is \<subseteq> {..<length (parts[i := p ft])}" using i by simp
    have n: "pt_name (parts[i := p ft] ! j) = pt_name (parts ! j)" for j
      using i(1) by (cases "j = i") (simp_all add: p_def)
    show ?thesis using Cons.IH [OF ft(1) i(2) l] ft(2,3) n i Cons.prems(2)
      by (auto simp: p_def nth_list_update split: if_splits)
  qed
qed

text \<open>
  The names of a system of SD cards: those of the card \<open>i\<close> begin with the letter \<open>i\<close> of the alphabet,
  and no two mounted partitions have the same name.
\<close>

definition sd_name :: "nat \<Rightarrow> u8 list" where
  "sd_name i = str_bytes ''sd'' @ [0x61 + of_nat i]"

definition names_ok :: "sys_disk \<Rightarrow> bool" where
  "names_ok s \<longleftrightarrow> (\<forall>dk \<in> set (sd_disks s). dk_type dk = DISK_SD) \<and>
     (\<forall>p \<in> set (sd_partitions s). fst p < length (sd_disks s) \<and>
        (\<exists>m < 4. pt_name (the_partition s p) = part_name (sd_name (fst p)) m)) \<and>
     (\<forall>p \<in> set (sd_partitions s). \<forall>q \<in> set (sd_partitions s).
        pt_name (the_partition s p) = pt_name (the_partition s q) \<longrightarrow> p = q)"

lemma sd_part_name_inj:
  assumes "i < 256" and "j < 256" and "part_name (sd_name i) m = part_name (sd_name j) n"
  shows "i = j"
  using assms small_byte_inj [of i j "0x61"] by (simp add: part_name_def sd_name_def)

lemma disk_set_name_sd:
  assumes "\<forall>dk \<in> set dks. dk_type dk = DISK_SD" and "length dks < 159"
  shows "disk_set_name dks DISK_SD = sd_name (length dks)"
proof -
  have "filter (\<lambda>dk. dk_type dk = DISK_SD) dks = dks" using assms(1) by (simp add: filter_id_conv)
  moreover have "unat (0x61 + of_nat (length dks) :: u8) = 0x61 + length dks"
    using assms(2) by (simp add: unat_word_ariths unat_of_nat)
  then have "(0x61 + of_nat (length dks) :: u8) \<noteq> 0" by auto
  ultimately show ?thesis by (simp add: disk_set_name_def sd_name_def disk_names_def)
qed


lemma the_partition_append:
  "fst p < length dks \<Longrightarrow> the_partition \<lparr>sd_disks = dks @ ds, sd_partitions = x\<rparr> p =
     the_partition \<lparr>sd_disks = dks, sd_partitions = y\<rparr> p"
  by (simp add: the_partition_def nth_append)

lemma disk_find_named:
  assumes "disk_find_partitions dk = Inr dk'"
  shows "length (dk_partitions dk') = 4 \<and> named (dk_name dk) 0 [0..<4] (dk_partitions dk') \<and>
    dk_type dk' = dk_type dk \<and> dk_read dk' = dk_read dk"
proof -
  let ?z = "replicate 4 empty_partition"
  have z: "pt_sect_count (?z ! j) = 0" if "j \<in> set [0..<4]" for j
    using that by (simp add: empty_partition_def)
  obtain buf where buf: "dk_read dk 0 = Some buf" using assms by (auto simp: disk_find_partitions_def Let_def split: option.splits)
  show ?thesis
  proof (cases "buf ! 510 \<noteq> 0x55 \<or> buf ! 511 \<noteq> 0xAA")
    case True
    then show ?thesis using assms buf z by (auto simp: disk_find_partitions_def named_def)
  next
    case False
    then obtain parts where p: "find_partitions_loop (dk_name dk) buf [0..<4] 0 ?z = Inr parts"
      "dk' = dk\<lparr>dk_partitions := parts\<rparr>"
      using assms buf by (auto simp: disk_find_partitions_def Let_def res_bind_Inr_iff)
    have s: "set [0..<4] \<subseteq> {..<length ?z}" by auto
    have u: "unat (0 :: u8) + length [0..<4] \<le> 4" by simp
    have "\<forall>j \<in> set [0..<4]. pt_sect_count (?z ! j) = 0" using z by blast
    from find_partitions_named [OF p(1) distinct_upt s u this] show ?thesis using p(2) by simp
  qed
qed

lemma disk_add_names:
  assumes ok: "names_ok s" and t: "dk_type dk = DISK_SD" and n: "length (sd_disks s) < 159"
    and add: "disk_add dk DISK_SD alloc s = Inr s'"
  shows "names_ok s' \<and> length (sd_disks s') = length (sd_disks s) + 1"
proof -
  let ?n = "length (sd_disks s)"
  have nm: "disk_set_name (sd_disks s) DISK_SD = sd_name ?n"
    using ok n by (intro disk_set_name_sd) (simp_all add: names_ok_def)
  obtain dk1 parts ms where a: "disk_find_partitions (dk\<lparr>dk_name := sd_name ?n\<rparr>) = Inr dk1"
    "mount_loop (dk_read dk1) alloc [0..<4] (dk_partitions dk1) = Inr (parts, ms)"
    "s' = \<lparr>sd_disks = sd_disks s @ [dk1\<lparr>dk_partitions := parts\<rparr>], sd_partitions = sd_partitions s @ map (Pair ?n) ms\<rparr>"
    using add nm by (auto simp: disk_add_def res_bind_Inr_iff)
  note fp = disk_find_named [OF a(1)]
  have l: "set [0..<4] \<subseteq> {..<length (dk_partitions dk1)}" using fp by auto
  note ml = mount_loop_keeps [OF a(2) distinct_upt l]
  have new: "the_partition s' (?n, j) = parts ! j" for j by (simp add: a(3) the_partition_def)
  have old: "the_partition s' p = the_partition s p" if "fst p < ?n" for p
    using that by (simp add: a(3) the_partition_def nth_append)
  have valid: "j \<in> set [0..<4] \<and> pt_sect_count (dk_partitions dk1 ! j) \<noteq> 0" if "j \<in> set ms" for j
    using ml that by blast
  have same: "pt_name (parts ! j) = pt_name (dk_partitions dk1 ! j)" for j using ml by blast
  have nd: "named (sd_name ?n) 0 [0..<4] (dk_partitions dk1)" using fp by simp
  have names: "\<exists>m<4. pt_name (parts ! j) = part_name (sd_name ?n) m" if "j \<in> set ms" for j
    using nd valid [OF that] same unfolding named_def by auto
  have inj: "j = k" if "j \<in> set ms" "k \<in> set ms" "pt_name (parts ! j) = pt_name (parts ! k)" for j k
    using nd valid [OF that(1)] valid [OF that(2)] that(3) unfolding same named_def by blast
  have lt: "fst p < ?n" "\<exists>m < 4. pt_name (the_partition s p) = part_name (sd_name (fst p)) m"
    if "p \<in> set (sd_partitions s)" for p using ok that by (auto simp: names_ok_def)
  have diff: "pt_name (the_partition s p) \<noteq> pt_name (parts ! j)" if pj: "p \<in> set (sd_partitions s)" "j \<in> set ms" for p j
  proof
    assume e: "pt_name (the_partition s p) = pt_name (parts ! j)"
    obtain m m' where "pt_name (the_partition s p) = part_name (sd_name (fst p)) m"
      "pt_name (parts ! j) = part_name (sd_name ?n) m'"
      using lt(2) [OF pj(1)] names [OF pj(2)] by blast
    then have "part_name (sd_name (fst p)) m = part_name (sd_name ?n) m'" using e by simp
    then have "fst p = ?n" using sd_part_name_inj [of "fst p" ?n] lt(1) [OF pj(1)] n by simp
    then show False using lt(1) [OF pj(1)] by simp
  qed
  have mem: "p \<in> set (sd_partitions s') \<longleftrightarrow> p \<in> set (sd_partitions s) \<or> (\<exists>j \<in> set ms. p = (?n, j))" for p
    by (auto simp: a(3))
  have "\<forall>dk \<in> set (sd_disks s'). dk_type dk = DISK_SD" using ok fp t by (simp add: a(3) names_ok_def)
  moreover have "fst p < length (sd_disks s') \<and> (\<exists>m < 4. pt_name (the_partition s' p) = part_name (sd_name (fst p)) m)"
    if "p \<in> set (sd_partitions s')" for p
    using that lt [of p] names old [of p] by (auto simp: mem new) (auto simp: a(3))
  moreover have "p = q" if pq: "p \<in> set (sd_partitions s')" "q \<in> set (sd_partitions s')"
      "pt_name (the_partition s' p) = pt_name (the_partition s' q)" for p q
  proof (cases "p \<in> set (sd_partitions s) \<and> q \<in> set (sd_partitions s)")
    case True
    then show ?thesis using pq(3) old [of p] old [of q] lt ok unfolding names_ok_def by simp
  next
    case False
    then consider j where "p = (?n, j)" "j \<in> set ms" "q \<in> set (sd_partitions s)"
      | k where "q = (?n, k)" "k \<in> set ms" "p \<in> set (sd_partitions s)"
      | j k where "p = (?n, j)" "j \<in> set ms" "q = (?n, k)" "k \<in> set ms"
      using pq(1,2) unfolding mem by blast
    then show ?thesis
    proof cases
      case 1
      then show ?thesis using pq(3) diff [OF 1(3,2)] old [OF lt(1) [OF 1(3)]] new by metis
    next
      case 2
      then show ?thesis using pq(3) diff [OF 2(3,2)] old [OF lt(1) [OF 2(3)]] new by metis
    next
      case 3
      then show ?thesis using pq(3) inj new by simp
    qed
  qed
  ultimately show ?thesis by (simp add: names_ok_def a(3))
qed

lemma names_ok_init: "names_ok disk_init"
  by (simp add: names_ok_def disk_init_def)

fun add_sd_disks :: "(disk_dev \<times> (nat \<Rightarrow> bool)) list \<Rightarrow> sys_disk \<Rightarrow> sys_disk res" where
  "add_sd_disks [] s = Inr s"
| "add_sd_disks ((dk, alloc) # ds) s = res_bind (disk_add dk DISK_SD alloc s) (add_sd_disks ds)"

lemma add_sd_disks_names:
  "names_ok s \<Longrightarrow> \<forall>x \<in> set ds. dk_type (fst x) = DISK_SD \<Longrightarrow> length (sd_disks s) + length ds < 160 \<Longrightarrow>
   add_sd_disks ds s = Inr s' \<Longrightarrow> names_ok s' \<and> length (sd_disks s') = length (sd_disks s) + length ds"
proof (induction ds s rule: add_sd_disks.induct)
  case (2 dk alloc ds s)
  obtain s1 where s1: "disk_add dk DISK_SD alloc s = Inr s1" "add_sd_disks ds s1 = Inr s'"
    using 2(5) by (auto simp: res_bind_Inr_iff)
  have "names_ok s1 \<and> length (sd_disks s1) = length (sd_disks s) + 1"
    using disk_add_names [OF 2(2) _ _ s1(1)] 2(3,4) by simp
  then show ?case using 2(1) [of s1] s1 2(3,4) by simp
qed simp


lemma find_unique: "x \<in> set xs \<Longrightarrow> (\<And>y. y \<in> set xs \<Longrightarrow> P y \<longleftrightarrow> y = x) \<Longrightarrow> find P xs = Some x"
  by (induction xs) auto



definition demo_mbr :: "u8 list" where
  "demo_mbr = replicate 454 0 @ [0, 8, 0, 0, 0, 0, 32, 0] @ replicate 48 0 @ [0x55, 0xAA]"

definition demo_card :: disk_dev where
  "demo_card = \<lparr>dk_name = [], dk_type = DISK_SD, dk_partitions = [],
     dk_read = (\<lambda>s. Some (if s = 0 then demo_mbr else demo_bpb))\<rparr>"

definition demo_part :: "fat option \<Rightarrow> partition" where
  "demo_part ft = \<lparr>pt_fs = ft, pt_name = [0x73, 0x64, 0x61, 0x31], pt_label = str_bytes ''No label'', pt_number = 0,
     pt_start_lba = 2048, pt_sect_count = 2097152\<rparr>"

lemma demo_find:
  "find_partitions_loop (sd_name 0) demo_mbr [0..<4] 0 (replicate 4 empty_partition) =
     Inr [(demo_part None)\<lparr>pt_label := []\<rparr>, empty_partition, empty_partition, empty_partition]"
proof -
  have e: "demo_mbr ! 446 = 0" "demo_mbr ! 462 = 0" "demo_mbr ! 478 = 0" "demo_mbr ! 494 = 0"
    "le32_at demo_mbr 458 = 2097152" "le32_at demo_mbr 454 = 2048" "le32_at demo_mbr 474 = 0"
    "le32_at demo_mbr 490 = 0" "le32_at demo_mbr 506 = 0"
    by (simp_all add: demo_mbr_def nth_append nth_Cons' le32_at_def le32_of_def be32_of_def)
  have l: "[0..<4] = [0, 1, 2, 3 :: nat]" by (simp add: upt_rec)
  have n: "sd_name 0 = [0x73, 0x64, 0x61]" by (simp add: sd_name_def str_bytes_def of_char_def)
  have r: "replicate 4 x = [x, x, x, x]" for x :: partition by (simp add: numeral_eq_Suc)
  show ?thesis unfolding l n r
    by (simp add: e Let_def partition_set_name_def DISK_NAME_LEN_def demo_part_def empty_partition_def)
qed


lemma demo_system:
  "\<exists>ft. add_sd_disks [(demo_card, \<lambda>i. True)] disk_init =
     Inr \<lparr>sd_disks = [\<lparr>dk_name = sd_name 0, dk_type = DISK_SD,
         dk_partitions = [demo_part (Some ft), empty_partition, empty_partition, empty_partition],
         dk_read = dk_read demo_card\<rparr>], sd_partitions = [(0, 0)]\<rparr>"
proof -
  have "bpb_signature_ok demo_bpb" "bpb_contain_fat32 demo_bpb"
    by (simp_all add: bpb_signature_ok_def bpb_contain_fat32_def bpb_contain_valid_fat_def Let_def
        demo_bpb_fields str_bytes_def of_char_def)
  then obtain ft where ft: "fat_mount_partition (dk_read demo_card) True 2048 = Inr (0, Some ft)"
    using mount_volume [of "dk_read demo_card" 2048 demo_bpb 3] demo_bpb_fields by (auto simp: demo_card_def)
  have l: "[0..<4] = [0, 1, 2, 3 :: nat]" by (simp add: upt_rec)
  have n: "disk_set_name [] DISK_SD = sd_name 0" by (rule disk_set_name_sd [of "[]", simplified])
  have m: "mount_loop (dk_read demo_card) (\<lambda>i. True) [0, 1, 2, 3]
      [(demo_part None)\<lparr>pt_label := []\<rparr>, empty_partition, empty_partition, empty_partition] =
      Inr ([demo_part (Some ft), empty_partition, empty_partition, empty_partition], [0])"
    using ft by (simp add: demo_part_def empty_partition_def ENOMEM_def)
  have mb: "demo_mbr ! 510 = 0x55" "demo_mbr ! 511 = 0xAA" by (simp_all add: demo_mbr_def nth_append nth_Cons')
  have f: "disk_find_partitions (demo_card\<lparr>dk_name := sd_name 0\<rparr>) =
      Inr (demo_card\<lparr>dk_name := sd_name 0,
        dk_partitions := [(demo_part None)\<lparr>pt_label := []\<rparr>, empty_partition, empty_partition, empty_partition]\<rparr>)"
    using mb demo_find by (simp add: disk_find_partitions_def demo_card_def)
  have c: "demo_card\<lparr>dk_name := x, dk_partitions := y\<rparr> =
      \<lparr>dk_name = x, dk_type = DISK_SD, dk_partitions = y, dk_read = dk_read demo_card\<rparr>" for x y
    by (simp add: demo_card_def)
  show ?thesis using m n f
    by (intro exI [of _ ft]) (simp add: disk_init_def disk_add_def l c del: mount_loop.simps)
qed


end
