(* ===== verification/Window.thy ===== *)
theory Window
  imports Dma Bytes Mm "HOL-Library.Multiset"
begin

text \<open>
  The window compositor of \<^verbatim>\<open>gfx/window.c\<close> and the double-buffered layers of \<^verbatim>\<open>drivers/lcd.c\<close>.
  Lists are HOL lists in the order of the linked ones (their pointer operations are those of theory
  \<^verbatim>\<open>Lists\<close>). A region keeps its parent window, whose address tells windows apart. The pool of
  regions is a counter, since a region is written once after its allocation. Registers of the
  controller are fields of a record (\<open>ly_cfg\<close> holds the configuration words that are written); the waits
  for its status bits are left out.
\<close>

subsection \<open>Windows and regions\<close>

record window =
  win_addr :: u32
  win_x :: u16
  win_y :: u16
  win_h :: u16
  win_w :: u16
  fb_data :: u32
  fb_w :: u16

record update_region =
  rg_x :: u16
  rg_y :: u16
  rg_w :: u16
  rg_h :: u16
  rg_parent :: window

record screenbuffer =
  sb_buffer :: u32
  sb_h :: u16
  sb_w :: u16
  sb_bpp :: u8

record screen =
  sc_update_list :: "update_region list"
  sc_window_list :: "window list"
  sc_screenbuffer :: screenbuffer

definition UPDATE_REGION_POOL_SIZE :: nat where "UPDATE_REGION_POOL_SIZE = 512"

definition alloc_update_region :: "nat \<Rightarrow> nat res" where
  "alloc_update_region index = res_bind (assert_that (index < UPDATE_REGION_POOL_SIZE)) (\<lambda>_. Inr (index + 1))"

text \<open>The pieces of a region around a new window, in the order of their creation, and whether it is deleted.\<close>

definition split_region :: "window \<Rightarrow> update_region \<Rightarrow> update_region list \<times> bool" where
  "split_region w r =
     (let wx2 = win_x w + win_w w; wy2 = win_y w + win_h w; rx2 = rg_x r + rg_w r; ry2 = rg_y r + rg_h r in
      if rx2 < win_x w \<or> ry2 < win_y w \<or> wx2 < rg_x r \<or> wy2 < rg_y r then ([], False)
      else
        let top = rg_y r < win_y w \<and> win_y w < ry2; bottom = rg_y r < wy2 \<and> wy2 < ry2;
            left = rg_x r < win_x w \<and> win_x w < rx2; right = wx2 < rx2 \<and> rg_x r < wx2;
            y = (if top then win_y w else rg_y r); h = (if bottom then wy2 - y else ry2 - y) in
        ((if top then [r\<lparr>rg_h := win_y w - rg_y r\<rparr>] else []) @
         (if bottom then [r\<lparr>rg_y := wy2, rg_h := ry2 - wy2\<rparr>] else []) @
         (if left then [r\<lparr>rg_y := y, rg_w := win_x w - rg_x r, rg_h := h\<rparr>] else []) @
         (if right then [r\<lparr>rg_x := wx2, rg_y := y, rg_w := rx2 - wx2, rg_h := h\<rparr>] else []),
         top \<or> bottom \<or> left \<or> right))"

fun add_pieces :: "update_region list \<Rightarrow> update_region list \<Rightarrow> nat \<Rightarrow> (update_region list \<times> nat) res" where
  "add_pieces [] adds index = Inr (adds, index)"
| "add_pieces (p # ps) adds index =
     res_bind (alloc_update_region index) (\<lambda>index'. add_pieces ps (p # adds) index')"

text \<open>The walk over the regions: those that stay, the list of additions and the pool index.\<close>

fun region_loop :: "window \<Rightarrow> update_region list \<Rightarrow> update_region list \<Rightarrow> nat
    \<Rightarrow> (update_region list \<times> update_region list \<times> nat) res" where
  "region_loop w [] adds index = Inr ([], adds, index)"
| "region_loop w (r # rs) adds index =
     (case split_region w r of (new, del) \<Rightarrow>
        res_bind (add_pieces new adds index) (\<lambda>(adds', index').
        res_bind (region_loop w rs adds' index') (\<lambda>(kept, adds'', index'').
          Inr (if del then kept else r # kept, adds'', index''))))"

definition add_window_region :: "window \<Rightarrow> update_region list \<Rightarrow> nat \<Rightarrow> (update_region list \<times> nat) res" where
  "add_window_region w regions index =
     res_bind (region_loop w regions [] index) (\<lambda>(kept, adds, index').
     res_bind (alloc_update_region index') (\<lambda>index''.
       Inr (\<lparr>rg_x = win_x w, rg_y = win_y w, rg_w = win_w w, rg_h = win_h w, rg_parent = w\<rparr> # adds @ kept, index'')))"

fun add_windows :: "window list \<Rightarrow> update_region list \<Rightarrow> nat \<Rightarrow> update_region list res" where
  "add_windows [] regions index = Inr regions"
| "add_windows (w # ws) regions index =
     res_bind (add_window_region w regions index) (\<lambda>(regions', index'). add_windows ws regions' index')"

definition update_regions :: "screen \<Rightarrow> screen res" where
  "update_regions s =
     res_bind (add_windows (rev (sc_window_list s)) (sc_update_list s) 0) (\<lambda>rs. Inr (s\<lparr>sc_update_list := rs\<rparr>))"

definition add_window :: "window \<Rightarrow> screen \<Rightarrow> screen" where
  "add_window w s = s\<lparr>sc_window_list := w # sc_window_list s\<rparr>"

definition screen_init :: "screen \<Rightarrow> screen" where
  "screen_init s = s\<lparr>sc_update_list := [], sc_window_list := []\<rparr>"

subsection \<open>The transfer to the screen\<close>

record dma_desc3 =
  d3_next :: u32
  d3_ublock_ctrl :: u32
  d3_src_addr :: u32
  d3_dest_addr :: u32
  d3_config :: u32
  d3_block_ctrl :: u32
  d3_data_stride :: u32
  d3_src_stride :: u32
  d3_dest_stride :: u32

definition window_config :: dma_mem_mem_info where
  "window_config = \<lparr>mm_burst = DMA_BURST_16, mm_data = DMA_DATA_U32, mm_src_am = DMA_AM_STRIDE,
     mm_dest_am = DMA_AM_STRIDE, mm_secure = 1, mm_memset = 0, mm_src_iface = 0, mm_dest_iface = 0\<rparr>"

definition sizeof_desc3 :: u32 where "sizeof_desc3 = 36"

text \<open>The address of the pixel \<open>(x, y)\<close> in a buffer of rows of \<open>stride\<close> words.\<close>

definition pixel_addr :: "u32 \<Rightarrow> u16 \<Rightarrow> u32 \<Rightarrow> u32 \<Rightarrow> u32" where
  "pixel_addr buffer stride x y = buffer + 4 * (y * ucast stride + x)"

definition region_desc :: "screenbuffer \<Rightarrow> u32 \<Rightarrow> bool \<Rightarrow> update_region \<Rightarrow> dma_desc3" where
  "region_desc sb next_pa is_last r =
     (let w = rg_parent r in
      \<lparr>d3_next = next_pa,
       d3_ublock_ctrl = dma_get_ublock_ctrl DMA_DESC_TYPE_3 (ucast (rg_w r)) (if is_last then 0 else 1) 1 1,
       d3_src_addr = va_to_pa (pixel_addr (fb_data w) (fb_w w) (ucast (rg_x r) - ucast (win_x w))
                                 (ucast (rg_y r) - ucast (win_y w))),
       d3_dest_addr = va_to_pa (pixel_addr (sb_buffer sb) (sb_w sb) (ucast (rg_x r)) (ucast (rg_y r))),
       d3_config = dma_get_config_mem_mem window_config,
       d3_block_ctrl = ucast (rg_h r),
       d3_data_stride = dma_get_data_stride 0 0,
       d3_src_stride = (ucast (fb_w w) - ucast (rg_w r)) * 4,
       d3_dest_stride = (ucast (sb_w sb) - ucast (rg_w r)) * 4\<rparr>)"

text \<open>The descriptors from the index \<open>i\<close> of the pool at \<open>pool\<close> on, each linked to the next.\<close>

fun build_descs :: "screenbuffer \<Rightarrow> u32 \<Rightarrow> nat \<Rightarrow> update_region list \<Rightarrow> dma_desc3 list res" where
  "build_descs sb pool i [] = Inr []"
| "build_descs sb pool i (r # rs) =
     res_bind (assert_that (i < UPDATE_REGION_POOL_SIZE)) (\<lambda>_.
     res_bind (build_descs sb pool (i + 1) rs) (\<lambda>ds.
       Inr (region_desc sb (if rs = [] then 0 else va_to_pa (pool + of_nat (i + 1) * sizeof_desc3)) (rs = []) r # ds)))"

text \<open>Without any region the last write goes through a null pointer.\<close>

definition build_dma_transfer :: "screen \<Rightarrow> u32 \<Rightarrow> nat \<Rightarrow> dma_desc3 list res" where
  "build_dma_transfer s pool index =
     (if sc_update_list s = [] then Inl NullPointer
      else build_descs (sc_screenbuffer s) pool index (sc_update_list s))"

definition get_rgba :: "u8 \<Rightarrow> u8 \<Rightarrow> u8 \<Rightarrow> u8 \<Rightarrow> u32" where
  "get_rgba r g b a = push_bit 24 (ucast r) OR push_bit 16 (ucast g) OR push_bit 8 (ucast b) OR ucast a"


subsection \<open>Pixels\<close>

definition in_region :: "update_region \<Rightarrow> nat \<times> nat \<Rightarrow> bool" where
  "in_region r p \<longleftrightarrow> unat (rg_x r) \<le> fst p \<and> fst p < unat (rg_x r) + unat (rg_w r) \<and>
     unat (rg_y r) \<le> snd p \<and> snd p < unat (rg_y r) + unat (rg_h r)"

definition in_window :: "window \<Rightarrow> nat \<times> nat \<Rightarrow> bool" where
  "in_window w p \<longleftrightarrow> unat (win_x w) \<le> fst p \<and> fst p < unat (win_x w) + unat (win_w w) \<and>
     unat (win_y w) \<le> snd p \<and> snd p < unat (win_y w) + unat (win_h w)"

definition region_fits :: "update_region \<Rightarrow> bool" where
  "region_fits r \<longleftrightarrow> unat (rg_x r) + unat (rg_w r) < 65536 \<and> unat (rg_y r) + unat (rg_h r) < 65536"

definition window_fits :: "window \<Rightarrow> bool" where
  "window_fits w \<longleftrightarrow> unat (win_x w) + unat (win_w w) < 65536 \<and> unat (win_y w) + unat (win_h w) < 65536"

text \<open>A free line apart, overlapping in at least a pixel, and covered.\<close>

definition apart :: "window \<Rightarrow> update_region \<Rightarrow> bool" where
  "apart w r \<longleftrightarrow> unat (rg_x r) + unat (rg_w r) < unat (win_x w) \<or> unat (rg_y r) + unat (rg_h r) < unat (win_y w) \<or>
     unat (win_x w) + unat (win_w w) < unat (rg_x r) \<or> unat (win_y w) + unat (win_h w) < unat (rg_y r)"

definition overlap :: "window \<Rightarrow> update_region \<Rightarrow> bool" where
  "overlap w r \<longleftrightarrow> unat (win_x w) < unat (rg_x r) + unat (rg_w r) \<and> unat (rg_x r) < unat (win_x w) + unat (win_w w) \<and>
     unat (win_y w) < unat (rg_y r) + unat (rg_h r) \<and> unat (rg_y r) < unat (win_y w) + unat (win_h w)"

definition covered :: "window \<Rightarrow> update_region \<Rightarrow> bool" where
  "covered w r \<longleftrightarrow> unat (win_x w) \<le> unat (rg_x r) \<and> unat (rg_x r) + unat (rg_w r) \<le> unat (win_x w) + unat (win_w w) \<and>
     unat (win_y w) \<le> unat (rg_y r) \<and> unat (rg_y r) + unat (rg_h r) \<le> unat (win_y w) + unat (win_h w)"

definition clean :: "window \<Rightarrow> update_region \<Rightarrow> bool" where
  "clean w r \<longleftrightarrow> apart w r \<or> overlap w r \<and> \<not> covered w r"

text \<open>The parents of the regions at a pixel.\<close>

definition parents_at :: "nat \<times> nat \<Rightarrow> update_region list \<Rightarrow> window multiset" where
  "parents_at p rs = mset (map rg_parent (filter (\<lambda>r. in_region r p) rs))"

lemma parents_at_simps [simp]:
  "parents_at p [] = {#}"
  "parents_at p (r # rs) = (if in_region r p then {#rg_parent r#} else {#}) + parents_at p rs"
  "parents_at p (xs @ ys) = parents_at p xs + parents_at p ys"
  by (simp_all add: parents_at_def)

lemma u16_add: "unat a + unat b < 65536 \<Longrightarrow> unat (a + b) = unat a + unat (b :: u16)"
  by (simp add: unat_word_ariths)

lemma u16_diff: "unat b \<le> unat a \<Longrightarrow> unat (a - b) = unat a - unat (b :: u16)"
  by (simp add: unat_sub word_le_nat_alt)

lemma split_region_exact:
  assumes f: "window_fits w" "region_fits r" and c: "clean w r"
  shows "snd (split_region w r) = (\<not> apart w r)"
    and "parents_at p (fst (split_region w r)) + (if snd (split_region w r) then {#} else parents_at p [r]) =
      (if in_window w p then {#} else parents_at p [r])"
    and "\<forall>q \<in> set (fst (split_region w r)). region_fits q"
    and "length (fst (split_region w r)) \<le> 4"
proof -
  define wx wy rx ry wx2 wy2 rx2 ry2 where d: "wx = unat (win_x w)" "wy = unat (win_y w)" "rx = unat (rg_x r)"
    "ry = unat (rg_y r)" "wx2 = wx + unat (win_w w)" "wy2 = wy + unat (win_h w)" "rx2 = rx + unat (rg_w r)"
    "ry2 = ry + unat (rg_h r)"
  have e: "unat (win_x w + win_w w) = wx2" "unat (win_y w + win_h w) = wy2" "unat (rg_x r + rg_w r) = rx2"
    "unat (rg_y r + rg_h r) = ry2"
    using f by (simp_all add: window_fits_def region_fits_def d u16_add)
  have ap: "apart w r \<longleftrightarrow> rx2 < wx \<or> ry2 < wy \<or> wx2 < rx \<or> wy2 < ry" by (simp add: apart_def d)
  have small: "wx2 < 65536" "wy2 < 65536" "rx2 < 65536" "ry2 < 65536"
    using f by (simp_all add: window_fits_def region_fits_def d)
  have inr: "in_region r p \<longleftrightarrow> rx \<le> fst p \<and> fst p < rx2 \<and> ry \<le> snd p \<and> snd p < ry2" by (simp add: in_region_def d)
  have inw: "in_window w p \<longleftrightarrow> wx \<le> fst p \<and> fst p < wx2 \<and> wy \<le> snd p \<and> snd p < wy2" by (simp add: in_window_def d)
  have le: "wx \<le> wx2" "wy \<le> wy2" "rx \<le> rx2" "ry \<le> ry2" by (simp_all add: d)
  define t b l g where m: "t = (ry < wy)" "b = (wy2 < ry2)" "l = (rx < wx)" "g = (wx2 < rx2)"
  define y where "y = (if t then win_y w else rg_y r)"
  define h where "h = (if b then win_y w + win_h w - y else rg_y r + rg_h r - y)"
  define top where "top = r\<lparr>rg_h := win_y w - rg_y r\<rparr>"
  define bottom where "bottom = r\<lparr>rg_y := win_y w + win_h w, rg_h := rg_y r + rg_h r - (win_y w + win_h w)\<rparr>"
  define left where "left = r\<lparr>rg_y := y, rg_w := win_x w - rg_x r, rg_h := h\<rparr>"
  define right where "right = r\<lparr>rg_x := win_x w + win_w w, rg_y := y, rg_w := rg_x r + rg_w r - (win_x w + win_w w), rg_h := h\<rparr>"
  have far: "split_region w r = ([], False)" if "apart w r"
    using that unfolding ap by (auto simp: split_region_def Let_def word_less_nat_alt e d(1-4))
  have near: "split_region w r = ((if t then [top] else []) @ (if b then [bottom] else []) @ (if l then [left] else []) @
      (if g then [right] else []), t \<or> b \<or> l \<or> g)"
    and ov: "wx < rx2" "rx < wx2" "wy < ry2" "ry < wy2" and any: "t \<or> b \<or> l \<or> g" if "\<not> apart w r"
  proof -
    show ov: "wx < rx2" "rx < wx2" "wy < ry2" "ry < wy2"
      using c that unfolding clean_def overlap_def by (simp_all add: d)
    show any: "t \<or> b \<or> l \<or> g" using c that unfolding clean_def covered_def m d by auto
    have tst: "rg_y r < win_y w \<and> win_y w < rg_y r + rg_h r \<longleftrightarrow> t"
      "rg_y r < win_y w + win_h w \<and> win_y w + win_h w < rg_y r + rg_h r \<longleftrightarrow> b"
      "rg_x r < win_x w \<and> win_x w < rg_x r + rg_w r \<longleftrightarrow> l"
      "win_x w + win_w w < rg_x r + rg_w r \<and> rg_x r < win_x w + win_w w \<longleftrightarrow> g"
      using ov unfolding m word_less_nat_alt e by (auto simp: d(1-4))
    have "\<not> (rg_x r + rg_w r < win_x w \<or> rg_y r + rg_h r < win_y w \<or> win_x w + win_w w < rg_x r \<or> win_y w + win_h w < rg_y r)"
      using that unfolding ap word_less_nat_alt e by (simp add: d(1-4))
    then show "split_region w r = ((if t then [top] else []) @ (if b then [bottom] else []) @ (if l then [left] else []) @
      (if g then [right] else []), t \<or> b \<or> l \<or> g)"
      unfolding split_region_def Let_def tst y_def [symmetric] h_def [symmetric]
      by (simp only: if_False top_def bottom_def left_def right_def)
  qed
  show g1: "snd (split_region w r) = (\<not> apart w r)"
    using far near(1) any by (cases "apart w r") simp_all
  have yh: "unat y = (if t then wy else ry)" "unat h = (if b then wy2 else ry2) - (if t then wy else ry)"
    if "\<not> apart w r"
  proof -
    show "unat y = (if t then wy else ry)" by (simp add: y_def d)
    then show "unat h = (if b then wy2 else ry2) - (if t then wy else ry)"
      using ov [OF that] le by (auto simp: h_def u16_diff e m)
  qed
  have pieces: "t \<Longrightarrow> in_region top p \<longleftrightarrow> rx \<le> fst p \<and> fst p < rx2 \<and> ry \<le> snd p \<and> snd p < wy"
    "b \<Longrightarrow> in_region bottom p \<longleftrightarrow> rx \<le> fst p \<and> fst p < rx2 \<and> wy2 \<le> snd p \<and> snd p < ry2"
    "l \<Longrightarrow> in_region left p \<longleftrightarrow> rx \<le> fst p \<and> fst p < wx \<and> (if t then wy else ry) \<le> snd p \<and> snd p < (if b then wy2 else ry2)"
    "g \<Longrightarrow> in_region right p \<longleftrightarrow> wx2 \<le> fst p \<and> fst p < rx2 \<and> (if t then wy else ry) \<le> snd p \<and> snd p < (if b then wy2 else ry2)"
    if "\<not> apart w r"
    using yh [OF that] ov [OF that]
    by (auto simp: in_region_def top_def bottom_def left_def right_def u16_diff e m d(1-4) d(7,8))
  show "parents_at p (fst (split_region w r)) + (if snd (split_region w r) then {#} else parents_at p [r]) =
      (if in_window w p then {#} else parents_at p [r])"
  proof (cases "apart w r")
    case True
    then show ?thesis using far [OF True] unfolding ap inr inw by (auto simp: inr inw)
  next
    case False
    have par: "rg_parent top = rg_parent r" "rg_parent bottom = rg_parent r" "rg_parent left = rg_parent r"
      "rg_parent right = rg_parent r" by (simp_all add: top_def bottom_def left_def right_def)
    show ?thesis unfolding near(1) [OF False] using any [OF False] ov [OF False] le
      by (cases t; cases b; cases l; cases g) (auto simp: par pieces [OF False] inr inw m)
  qed
  show "\<forall>q \<in> set (fst (split_region w r)). region_fits q"
  proof (cases "apart w r")
    case False
    show ?thesis unfolding near(1) [OF False] using ov [OF False] yh [OF False] small f(2)
      by (auto simp: region_fits_def top_def bottom_def left_def right_def u16_diff e m d split: if_splits)
  qed (simp add: far)
  show "length (fst (split_region w r)) \<le> 4"
    using far near(1) by (cases "apart w r") simp_all
qed


lemma add_pieces_ok:
  "index + length ps \<le> UPDATE_REGION_POOL_SIZE \<Longrightarrow> add_pieces ps adds index = Inr (rev ps @ adds, index + length ps)"
  by (induction ps arbitrary: adds index) (simp_all add: alloc_update_region_def)

lemma parents_at_rev [simp]: "parents_at p (rev rs) = parents_at p rs"
  by (induction rs) simp_all

lemma region_loop_exact:
  "window_fits w \<Longrightarrow> \<forall>r \<in> set rs. region_fits r \<and> clean w r \<Longrightarrow>
   index + 4 * length rs \<le> UPDATE_REGION_POOL_SIZE \<Longrightarrow>
   \<exists>kept adds' index'. region_loop w rs adds index = Inr (kept, adds', index') \<and> index' \<le> index + 4 * length rs \<and>
     (\<forall>p. parents_at p kept + parents_at p adds' = parents_at p adds + (if in_window w p then {#} else parents_at p rs)) \<and>
     (\<forall>r \<in> set kept \<union> set adds'. region_fits r \<or> r \<in> set adds)"
proof (induction rs arbitrary: adds index)
  case (Cons r rs)
  obtain new del where sp: "split_region w r = (new, del)" by fastforce
  have "region_fits r" "clean w r" using Cons.prems(2) by simp_all
  note ex = split_region_exact [OF Cons.prems(1) this]
  have len: "length new \<le> 4" using ex(4) sp by simp
  then have ap: "add_pieces new adds index = Inr (rev new @ adds, index + length new)"
    using Cons.prems(3) by (intro add_pieces_ok) simp
  have i: "index + length new + 4 * length rs \<le> UPDATE_REGION_POOL_SIZE" using len Cons.prems(3) by simp
  obtain kept adds' index' where ih: "region_loop w rs (rev new @ adds) (index + length new) = Inr (kept, adds', index')"
    "index' \<le> index + length new + 4 * length rs"
    "\<And>p. parents_at p kept + parents_at p adds' =
       parents_at p (rev new @ adds) + (if in_window w p then {#} else parents_at p rs)"
    "\<forall>q \<in> set kept \<union> set adds'. region_fits q \<or> q \<in> set (rev new @ adds)"
    using Cons.IH [OF Cons.prems(1) _ i, of "rev new @ adds"] Cons.prems(2) by auto
  let ?kept = "if del then kept else r # kept"
  have "region_loop w (r # rs) adds index = Inr (?kept, adds', index')" using sp ap ih(1) by simp
  moreover have "parents_at p ?kept + parents_at p adds' =
      parents_at p adds + (if in_window w p then {#} else parents_at p (r # rs))" for p
  proof -
    have "parents_at p ?kept + parents_at p adds' =
        (if del then {#} else parents_at p [r]) + (parents_at p kept + parents_at p adds')"
      by (simp add: ac_simps)
    also have "\<dots> = (parents_at p new + (if del then {#} else parents_at p [r])) + parents_at p adds +
        (if in_window w p then {#} else parents_at p rs)"
      unfolding ih(3) by (simp add: ac_simps)
    also have "parents_at p new + (if del then {#} else parents_at p [r]) =
        (if in_window w p then {#} else parents_at p [r])" using ex(2) [of p] sp by simp
    finally show ?thesis by simp
  qed
  moreover have "\<forall>q \<in> set ?kept \<union> set adds'. region_fits q \<or> q \<in> set adds"
    using ih(4) ex(3) sp Cons.prems(2) by auto
  ultimately show ?case using ih(2) len by (intro exI [of _ ?kept] exI [of _ adds'] exI [of _ index']) simp
qed simp

text \<open>The regions tile the visible parts of the windows, the first of which is in front.\<close>

definition top_window :: "window list \<Rightarrow> nat \<times> nat \<Rightarrow> window option" where
  "top_window ws p = find (\<lambda>w. in_window w p) ws"

definition tiles :: "window list \<Rightarrow> update_region list \<Rightarrow> bool" where
  "tiles ws rs \<longleftrightarrow> (\<forall>r \<in> set rs. region_fits r) \<and>
     (\<forall>p. parents_at p rs = (case top_window ws p of None \<Rightarrow> {#} | Some w \<Rightarrow> {#w#}))"

text \<open>C27. \<open>add_window_region\<close> refines putting a window in front. Let the regions tile the windows
  \<open>ws\<close>, that is, each pixel of the screen lie in exactly one region, that of the frontmost window
  there, or in none if there is no window; and let the new window and each region either be a
  free line apart or overlap without the window covering the region. Then, as long as the pool has
  four regions for every old one and one more, the new regions tile the windows with the new one
  in front.\<close>

theorem add_window_region_tiles:
  assumes "tiles ws rs" and "window_fits w" and "\<forall>r \<in> set rs. clean w r"
    and "index + 4 * length rs < UPDATE_REGION_POOL_SIZE"
  shows "\<exists>rs' index'. add_window_region w rs index = Inr (rs', index') \<and> index' \<le> index + 4 * length rs + 1 \<and>
    tiles (w # ws) rs'"
proof -
  obtain kept adds index' where l: "region_loop w rs [] index = Inr (kept, adds, index')"
    "index' \<le> index + 4 * length rs"
    "\<And>p. parents_at p kept + parents_at p adds = (if in_window w p then {#} else parents_at p rs)"
    "\<forall>r \<in> set kept \<union> set adds. region_fits r"
    using region_loop_exact [OF assms(2), of rs index "[]"] assms(1,3,4) by (auto simp: tiles_def)
  let ?n = "\<lparr>rg_x = win_x w, rg_y = win_y w, rg_w = win_w w, rg_h = win_h w, rg_parent = w\<rparr>"
  have "add_window_region w rs index = Inr (?n # adds @ kept, index' + 1)"
    using l(1,2) assms(4) by (simp add: add_window_region_def alloc_update_region_def)
  moreover have "tiles (w # ws) (?n # adds @ kept)"
  proof -
    have n: "in_region ?n p \<longleftrightarrow> in_window w p" for p by (simp add: in_region_def in_window_def)
    have t: "parents_at p rs = (case top_window ws p of None \<Rightarrow> {#} | Some v \<Rightarrow> {#v#})" for p
      using assms(1) unfolding tiles_def by blast
    have "parents_at p (?n # adds @ kept) = (case top_window (w # ws) p of None \<Rightarrow> {#} | Some v \<Rightarrow> {#v#})" for p
      using l(3) [of p] t [of p] by (simp add: n top_window_def add.commute)
    moreover have "region_fits ?n" using assms(2) by (simp add: region_fits_def window_fits_def)
    ultimately show ?thesis using l(4) by (auto simp: tiles_def)
  qed
  ultimately show ?thesis using l(2) by auto
qed

definition demo_window :: "u32 \<Rightarrow> u16 \<Rightarrow> u16 \<Rightarrow> u16 \<Rightarrow> window" where
  "demo_window a x y n = \<lparr>win_addr = a, win_x = x, win_y = y, win_h = n, win_w = n, fb_data = 0, fb_w = 800\<rparr>"

definition demo_region :: "window \<Rightarrow> update_region" where
  "demo_region w = \<lparr>rg_x = win_x w, rg_y = win_y w, rg_w = win_w w, rg_h = win_h w, rg_parent = w\<rparr>"

lemma demo_tiles: "window_fits w \<Longrightarrow> tiles [w] [demo_region w]"
  by (simp add: tiles_def demo_region_def region_fits_def window_fits_def in_region_def in_window_def top_window_def)

lemma add_window_region_tiles_witness:
  "\<exists>rs index. add_window_region (demo_window 2 100 100 200) [demo_region (demo_window 1 0 0 200)] 1 = Inr (rs, index) \<and>
    tiles [demo_window 2 100 100 200, demo_window 1 0 0 200] rs"
proof -
  have f: "window_fits (demo_window 1 0 0 200)" "window_fits (demo_window 2 100 100 200)"
    by (simp_all add: window_fits_def demo_window_def)
  have c: "\<forall>r \<in> set [demo_region (demo_window 1 0 0 200)]. clean (demo_window 2 100 100 200) r"
    by (simp add: clean_def overlap_def covered_def demo_region_def demo_window_def)
  have i: "1 + 4 * length [demo_region (demo_window 1 0 0 200)] < UPDATE_REGION_POOL_SIZE"
    by (simp add: UPDATE_REGION_POOL_SIZE_def)
  show ?thesis using add_window_region_tiles [OF demo_tiles [OF f(1)] f(2) c i] by blast
qed

subsection \<open>Covered windows\<close>

text \<open>The transfers run in the order of the list, so the last region at a pixel is seen.\<close>

definition drawn :: "update_region list \<Rightarrow> nat \<times> nat \<Rightarrow> window option" where
  "drawn rs p = map_option rg_parent (find (\<lambda>r. in_region r p) (rev rs))"

lemma find_append: "find P (xs @ ys) = (case find P xs of None \<Rightarrow> find P ys | Some x \<Rightarrow> Some x)"
  by (induction xs) simp_all

lemma covered_kept:
  assumes "window_fits w" and "region_fits r" and "covered w r"
  shows "split_region w r = ([], False)"
proof -
  have e: "unat (win_x w + win_w w) = unat (win_x w) + unat (win_w w)" "unat (win_y w + win_h w) = unat (win_y w) + unat (win_h w)"
    "unat (rg_x r + rg_w r) = unat (rg_x r) + unat (rg_w r)" "unat (rg_y r + rg_h r) = unat (rg_y r) + unat (rg_h r)"
    using assms(1,2) by (simp_all add: window_fits_def region_fits_def u16_add)
  have "\<not> rg_y r < win_y w" "\<not> win_y w + win_h w < rg_y r + rg_h r" "\<not> rg_x r < win_x w"
    "\<not> win_x w + win_w w < rg_x r + rg_w r"
    using assms(3) by (simp_all add: covered_def word_less_nat_alt e)
  then show ?thesis by (simp add: split_region_def Let_def)
qed

lemma region_loop_covered:
  "window_fits w \<Longrightarrow> \<forall>r \<in> set rs. region_fits r \<and> covered w r \<Longrightarrow> region_loop w rs adds index = Inr (rs, adds, index)"
  by (induction rs) (simp_all add: covered_kept)

text \<open>A window that covers all regions stays behind them: its own region is put first,
  the others are kept, and since the transfers run in the order of the list, every pixel that showed
  a window before still shows it.\<close>

theorem covering_window_hidden:
  assumes "window_fits w" and "\<forall>r \<in> set rs. region_fits r \<and> covered w r" and "index < UPDATE_REGION_POOL_SIZE"
    and "drawn rs p = Some v"
  shows "\<exists>rs'. add_window_region w rs index = Inr (rs', index + 1) \<and> drawn rs' p = Some v"
proof -
  let ?n = "\<lparr>rg_x = win_x w, rg_y = win_y w, rg_w = win_w w, rg_h = win_h w, rg_parent = w\<rparr>"
  have "add_window_region w rs index = Inr (?n # rs, index + 1)"
    using region_loop_covered [OF assms(1,2), of "[]" index] assms(3)
    by (simp add: add_window_region_def alloc_update_region_def)
  moreover have "drawn (?n # rs) p = Some v"
    using assms(4) by (auto simp: drawn_def find_append split: option.splits)
  ultimately show ?thesis by blast
qed

lemma covering_window_hidden_witness:
  "\<exists>rs. add_window_region (demo_window 2 0 0 200) [demo_region (demo_window 1 50 50 20)] 1 = Inr (rs, 2) \<and>
    drawn rs (60, 60) = Some (demo_window 1 50 50 20)"
proof -
  have f: "window_fits (demo_window 2 0 0 200)" by (simp add: window_fits_def demo_window_def)
  have c: "\<forall>r \<in> set [demo_region (demo_window 1 50 50 20)]. region_fits r \<and> covered (demo_window 2 0 0 200) r"
    by (simp add: region_fits_def covered_def demo_region_def demo_window_def)
  have "drawn [demo_region (demo_window 1 50 50 20)] (60, 60) = Some (demo_window 1 50 50 20)"
    by (simp add: drawn_def in_region_def demo_region_def demo_window_def)
  from covering_window_hidden [OF f c _ this, of 1] show ?thesis
    by (simp add: UPDATE_REGION_POOL_SIZE_def numeral_2_eq_2)
qed


text \<open>
  A window that only touches a region, here on its right, cuts it all the same, and the strip of the
  region beside the window is lost.
\<close>

lemma touching_window_loses:
  "split_region (demo_window 2 100 30 20) (demo_region (demo_window 1 0 0 100)) = (ps, del) \<Longrightarrow>
   del \<and> in_region (demo_region (demo_window 1 0 0 100)) (50, 40) \<and> \<not> in_window (demo_window 2 100 30 20) (50, 40) \<and>
   parents_at (50, 40) ps = {#}"
  by (auto simp: split_region_def demo_region_def demo_window_def in_region_def in_window_def)

subsection \<open>Layers of the display\<close>

text \<open>
  A layer with its two buffers, their descriptors and the registers \<^verbatim>\<open>ADDR\<close>, \<^verbatim>\<open>NEXT\<close>, \<^verbatim>\<open>CTRL\<close> and
  \<^verbatim>\<open>HEAD\<close> of its DMA channel. A descriptor takes sixteen bytes.
\<close>

definition LAYERS :: nat where "LAYERS = 3"

record lcd_dma_desc =
  ld_addr :: u32
  ld_ctrl :: u32
  ld_next :: u32

record lcd_layer =
  ly_buffer :: "u32 list"
  ly_buffer_dma :: "u32 list"
  ly_buffer_pa :: "u32 list"
  ly_buffer_dma_pa :: "u32 list"
  ly_active_index :: "1 word"
  ly_info :: screenbuffer
  ly_descs :: "lcd_dma_desc list"
  ly_cfg :: "u32 list"
  ly_reg_addr :: u32
  ly_reg_next :: u32
  ly_reg_ctrl :: u32
  ly_reg_head :: u32

definition link_buffer :: "u32 \<Rightarrow> nat \<Rightarrow> lcd_layer \<Rightarrow> lcd_layer" where
  "link_buffer dma j ly =
     ly\<lparr>ly_buffer_pa := (ly_buffer_pa ly)[j := va_to_pa (ly_buffer ly ! j)],
        ly_buffer_dma_pa := (ly_buffer_dma_pa ly)[j := va_to_pa (ly_buffer_dma ly ! j)],
        ly_buffer_dma := (ly_buffer_dma ly)[j := dma]\<rparr>"

fun lcd_layer_init :: "u32 \<Rightarrow> lcd_layer list \<Rightarrow> lcd_layer list" where
  "lcd_layer_init dma [] = []"
| "lcd_layer_init dma (ly # lys) = link_buffer (dma + 16) 1 (link_buffer dma 0 ly) # lcd_layer_init (dma + 32) lys"

text \<open>The configuration words of the base layer and of the overlays.\<close>

definition layer_cfg :: "nat \<Rightarrow> lcd_layer \<Rightarrow> u32 list" where
  "layer_cfg i ly =
     (if i = 0 then [push_bit 4 3 OR push_bit 8 1, push_bit 4 10, 0, 0, push_bit 8 1, 0, 0]
      else [push_bit 4 3 OR push_bit 12 1 OR push_bit 8 1, push_bit 4 13, 0,
            ucast (sb_w (ly_info ly)) OR push_bit 16 (ucast (sb_h (ly_info ly))), 0, 0, 0, 0, 0,
            push_bit 2 1 OR push_bit 3 1 OR push_bit 6 1 OR push_bit 7 1 OR push_bit 8 1])"

definition enable_layer :: "nat \<Rightarrow> lcd_layer \<Rightarrow> lcd_layer" where
  "enable_layer i ly =
     ly\<lparr>ly_cfg := layer_cfg i ly,
        ly_descs := map (\<lambda>j. \<lparr>ld_addr = ly_buffer_pa ly ! j, ld_ctrl = 1, ld_next = ly_buffer_dma_pa ly ! j\<rparr>) [0, 1],
        ly_reg_addr := ly_buffer_pa ly ! 0, ly_reg_next := ly_buffer_dma_pa ly ! 0, ly_reg_ctrl := 1,
        ly_active_index := 0\<rparr>"

definition lcd_layer_enable :: "lcd_layer list \<Rightarrow> lcd_layer list" where
  "lcd_layer_enable lys = map (\<lambda>i. enable_layer i (lys ! i)) [0..<LAYERS]"

definition lcd_switch_screenbuffer :: "nat \<Rightarrow> lcd_layer list \<Rightarrow> lcd_layer list res" where
  "lcd_switch_screenbuffer n lys =
     res_bind (assert_that (n < LAYERS)) (\<lambda>_. res_bind (read_at lys n) (\<lambda>ly.
       let i = ly_active_index ly XOR 1 in
       Inr (lys[n := ly\<lparr>ly_active_index := i, ly_reg_head := ly_buffer_dma_pa ly ! unat i\<rparr>])))"

definition lcd_get_new_screenbuffer :: "nat \<Rightarrow> lcd_layer list \<Rightarrow> (screenbuffer \<times> lcd_layer list) res" where
  "lcd_get_new_screenbuffer n lys =
     res_bind (assert_that (n < LAYERS)) (\<lambda>_. res_bind (read_at lys n) (\<lambda>ly.
       let info = (ly_info ly)\<lparr>sb_buffer := ly_buffer ly ! unat (ly_active_index ly XOR 1)\<rparr> in
       Inr (info, lys[n := ly\<lparr>ly_info := info\<rparr>])))"

definition get_new_screenbuffer :: "lcd_layer list \<Rightarrow> screen \<Rightarrow> (screen \<times> lcd_layer list) res" where
  "get_new_screenbuffer lys s =
     res_bind (lcd_get_new_screenbuffer 2 lys) (\<lambda>(sb, lys'). Inr (s\<lparr>sc_screenbuffer := sb\<rparr>, lys'))"

definition lcd_get_size :: "nat \<Rightarrow> lcd_layer list \<Rightarrow> (u16 \<times> u16) res" where
  "lcd_get_size n lys = res_bind (read_at lys n) (\<lambda>ly. Inr (sb_w (ly_info ly), sb_h (ly_info ly)))"

text \<open>The buffer handed out for drawing is not the one that is shown.\<close>

lemma new_screenbuffer_not_shown:
  assumes "lcd_get_new_screenbuffer n lys = Inr (sb, lys')" and "ly_buffer (lys ! n) = [a, b]" and "a \<noteq> b"
  shows "sb_buffer sb \<noteq> ly_buffer (lys ! n) ! unat (ly_active_index (lys ! n)) \<and> sb_buffer sb \<in> {a, b}"
proof -
  let ?i = "ly_active_index (lys ! n)"
  have "unat ?i < 2" using unsigned_less [of ?i, where ?'a = nat] by simp
  then have "?i = 0 \<or> ?i = 1" by (auto simp: less_2_cases_iff word_unat_eq_iff)
  then show ?thesis using assms
    by (auto simp: lcd_get_new_screenbuffer_def read_at_def Let_def res_bind_Inr_iff split: if_splits)
qed

text \<open>
  \<^verbatim>\<open>lcd_layer_init\<close> takes the physical address of each descriptor before it has linked the
  descriptor, so all of them are that of the null pointer.
\<close>

lemma descriptor_address_lost:
  "ly \<in> set (lcd_layer_init dma lys) \<Longrightarrow>
   \<forall>l \<in> set lys. ly_buffer_dma l = [0, 0] \<and> length (ly_buffer_dma_pa l) = 2 \<Longrightarrow> ly_buffer_dma_pa ly = [va_to_pa 0, va_to_pa 0]"
proof (induction dma lys rule: lcd_layer_init.induct)
  case (2 dma l lys)
  obtain x y where "ly_buffer_dma_pa l = [x, y]"
    using 2(3) by (auto simp: length_Suc_conv numeral_2_eq_2)
  then show ?case using 2 by (auto simp: link_buffer_def)
qed simp

end
