(* ===== verification/Net.thy ===== *)
theory Net
  imports Bytes
begin

text \<open>
  The network stack below the applications: packet buffers (\<^verbatim>\<open>net/netbuf.c\<close>), the descriptor rings of
  the controller (\<^verbatim>\<open>drivers/gmac.c\<close>), and the layers \<^verbatim>\<open>net/mac.c\<close>, \<^verbatim>\<open>net/arp.c\<close>, \<^verbatim>\<open>net/ip.c\<close> and
  \<^verbatim>\<open>net/udp.c\<close>.

  A packet buffer is an address; the store of the state maps it to its bytes, the offset of its moving
  pointer from the start of the bytes, its frame length and its address field. The linked lists of
  buffers are HOL lists of addresses. What the controller writes (the received bytes, the descriptors it
  hands over) is data of the state; a transmission appends the frame to \<open>nt_sent\<close>, hands the descriptor
  back, and may report an error. Cache maintenance, the critical sections and the printing are left out.
\<close>

subsection \<open>State\<close>

definition NETBUF_LENGTH :: nat where "NETBUF_LENGTH = 1536"
definition MAX_HEADER_SIZE :: nat where "MAX_HEADER_SIZE = 74"
definition TX_DESC_CNT :: nat where "TX_DESC_CNT = 2"
definition RX_DESC_CNT :: nat where "RX_DESC_CNT = 32"

record netbuf =
  nb_buf :: "u8 list"
  nb_ptr :: nat
  nb_frame_len :: u32
  nb_ip :: u32

record gmac_rx_desc =
  rd_owner_software :: bool
  rd_sof :: bool
  rd_eof :: bool
  rd_length :: "13 word"
  rd_netbuf :: nat

record gmac_tx_desc =
  td_owner_software :: bool
  td_last_buffer :: bool
  td_length :: "14 word"
  td_netbuf :: nat

record arp_entry =
  ae_ip :: u32
  ae_mac :: "u8 list"
  ae_waiting :: bool

record udp_port =
  up_port :: u16
  up_packets :: "nat list"

record ip_struct =
  ip_our_ip :: u32
  ip_server_ip :: "u32 list"
  ip_subnet_mask :: u32

record net =
  nt_bufs :: "nat \<Rightarrow> netbuf"
  nt_pool :: "nat list"
  nt_tx_desc :: "gmac_tx_desc list"
  nt_tx_index :: nat
  nt_rx_desc :: "gmac_rx_desc list"
  nt_rx_index :: nat
  nt_sent :: "u8 list list"
  nt_tx_error :: "nat \<Rightarrow> bool"
  nt_arp_list :: "arp_entry list"
  nt_arp_queue :: "nat list"
  nt_ports :: "udp_port list"
  nt_udp_port :: u16
  nt_ip :: ip_struct

subsection \<open>Packet buffers\<close>

definition set_buf :: "nat \<Rightarrow> (netbuf \<Rightarrow> netbuf) \<Rightarrow> net \<Rightarrow> net" where
  "set_buf b f s = s\<lparr>nt_bufs := (nt_bufs s)(b := f (nt_bufs s b))\<rparr>"

text \<open>Stores and reads relative to the moving pointer; leaving the bytes of the buffer is a fault.\<close>

definition nb_store :: "nat \<Rightarrow> nat \<Rightarrow> u8 list \<Rightarrow> net \<Rightarrow> net res" where
  "nb_store b off bs s =
     res_bind (put_bytes (nb_buf (nt_bufs s b)) (nb_ptr (nt_bufs s b) + off) bs) (\<lambda>buf.
       Inr (set_buf b (\<lambda>nb. nb\<lparr>nb_buf := buf\<rparr>) s))"

definition nb_read :: "nat \<Rightarrow> nat \<Rightarrow> nat \<Rightarrow> net \<Rightarrow> u8 list res" where
  "nb_read b off n s = get_bytes (nb_buf (nt_bufs s b)) (nb_ptr (nt_bufs s b) + off) n"

definition nb_read_be16 :: "nat \<Rightarrow> nat \<Rightarrow> net \<Rightarrow> u16 res" where
  "nb_read_be16 b off s = res_bind (nb_read b off 2 s) (\<lambda>bs. Inr (be16_at bs 0))"

definition nb_read_be32 :: "nat \<Rightarrow> nat \<Rightarrow> net \<Rightarrow> u32 res" where
  "nb_read_be32 b off s = res_bind (nb_read b off 4 s) (\<lambda>bs. Inr (be32_at bs 0))"

text \<open>\<^verbatim>\<open>ptr -= n\<close> followed by the store of \<open>n\<close> bytes there.\<close>

definition nb_push :: "nat \<Rightarrow> u8 list \<Rightarrow> net \<Rightarrow> net res" where
  "nb_push b bs s =
     (if nb_ptr (nt_bufs s b) < length bs then Inl OutOfBounds
      else nb_store b 0 bs (set_buf b (\<lambda>nb. nb\<lparr>nb_ptr := nb_ptr nb - length bs\<rparr>) s))"

definition nb_skip :: "nat \<Rightarrow> nat \<Rightarrow> net \<Rightarrow> net res" where
  "nb_skip b n s =
     (if nb_ptr (nt_bufs s b) < n then Inl OutOfBounds
      else Inr (set_buf b (\<lambda>nb. nb\<lparr>nb_ptr := nb_ptr nb - n\<rparr>) s))"

definition nb_advance :: "nat \<Rightarrow> nat \<Rightarrow> net \<Rightarrow> net" where
  "nb_advance b n s = set_buf b (\<lambda>nb. nb\<lparr>nb_ptr := nb_ptr nb + n\<rparr>) s"

definition set_frame_len :: "nat \<Rightarrow> u32 \<Rightarrow> net \<Rightarrow> net" where
  "set_frame_len b n s = set_buf b (\<lambda>nb. nb\<lparr>nb_frame_len := n\<rparr>) s"

definition frame_len :: "nat \<Rightarrow> net \<Rightarrow> u32" where
  "frame_len b s = nb_frame_len (nt_bufs s b)"

text \<open>The pool gets the buffers the boot allocation delivers, the last one first.\<close>

definition netbuf_init :: "nat list \<Rightarrow> net \<Rightarrow> net res" where
  "netbuf_init addrs s = (if length addrs < 1024 then Inl (Panic ''Mem error'') else Inr (s\<lparr>nt_pool := rev (take 1024 addrs)\<rparr>))"

definition init_netbuf :: "nat \<Rightarrow> net \<Rightarrow> net" where
  "init_netbuf b s = set_buf b (\<lambda>nb. nb\<lparr>nb_ptr := MAX_HEADER_SIZE\<rparr>) s"

definition alloc_netbuf :: "net \<Rightarrow> nat option \<times> net" where
  "alloc_netbuf s =
     (case nt_pool s of
        [] \<Rightarrow> (None, s)
      | b # bs \<Rightarrow> (Some b, set_buf b (\<lambda>nb. nb\<lparr>nb_ptr := MAX_HEADER_SIZE\<rparr>) (s\<lparr>nt_pool := bs\<rparr>)))"

definition free_netbuf :: "nat \<Rightarrow> net \<Rightarrow> net" where
  "free_netbuf b s = s\<lparr>nt_pool := b # nt_pool s\<rparr>"

text \<open>The callers use the buffer without a test, so an empty pool ends in a null dereference.\<close>

definition take_netbuf :: "net \<Rightarrow> (nat \<times> net) res" where
  "take_netbuf s = (case alloc_netbuf s of (None, s1) \<Rightarrow> Inl NullPointer | (Some b, s1) \<Rightarrow> Inr (b, s1))"

subsection \<open>The controller\<close>

definition mac_addr :: "u8 list" where "mac_addr = [0x3C, 0x97, 0x0E, 0x2F, 0x43, 0xCC]"

definition gmac_get_mac_addr :: "u8 list" where "gmac_get_mac_addr = mac_addr"

text \<open>\<^verbatim>\<open>gmac_alloc_buffers\<close> and \<^verbatim>\<open>gmac_init_queues\<close>: the buffers of the rings and their descriptors.\<close>

fun alloc_ring :: "string \<Rightarrow> nat \<Rightarrow> net \<Rightarrow> (nat list \<times> net) res" where
  "alloc_ring msg 0 s = Inr ([], s)"
| "alloc_ring msg (Suc n) s =
     (case alloc_netbuf s of
        (None, s1) \<Rightarrow> Inl (Panic msg)
      | (Some b, s1) \<Rightarrow> res_bind (alloc_ring msg n s1) (\<lambda>(bs, s2). Inr (b # bs, s2)))"

definition gmac_init_queues :: "net \<Rightarrow> net res" where
  "gmac_init_queues s =
     res_bind (alloc_ring ''Cant allocate netbuffers'' RX_DESC_CNT s) (\<lambda>(rx, s1).
     res_bind (alloc_ring ''Cant allocate a netbuf'' TX_DESC_CNT s1) (\<lambda>(tx, s2).
       Inr (s2\<lparr>nt_tx_index := 0, nt_rx_index := 0,
         nt_tx_desc := map (\<lambda>b. \<lparr>td_owner_software = True, td_last_buffer = False, td_length = 0, td_netbuf = b\<rparr>) tx,
         nt_rx_desc := map (\<lambda>b. \<lparr>rd_owner_software = False, rd_sof = False, rd_eof = False, rd_length = 0, rd_netbuf = b\<rparr>) rx\<rparr>)))"

text \<open>
  The receive routine: the code and the buffer. The frame is in the buffer of the descriptor from its
  start on.
\<close>

definition gmac_rec_raw :: "net \<Rightarrow> (int \<times> nat \<times> net) res" where
  "gmac_rec_raw s =
     (let i = nt_rx_index s in
      res_bind (read_at (nt_rx_desc s) i) (\<lambda>desc.
      if rd_owner_software desc then
        if \<not> rd_sof desc \<or> \<not> rd_eof desc then
          Inr (- ERETRY, 0, s\<lparr>nt_rx_desc := (nt_rx_desc s)[i := desc\<lparr>rd_owner_software := False\<rparr>]\<rparr>)
        else
          (case alloc_netbuf s of
             (None, s1) \<Rightarrow> Inl Assertion
           | (Some new, s1) \<Rightarrow>
               let b = rd_netbuf desc;
                   s2 = set_buf b (\<lambda>nb. nb\<lparr>nb_frame_len := ucast (rd_length desc), nb_ptr := 0\<rparr>) s1 in
               Inr (0, b, s2\<lparr>nt_rx_desc := (nt_rx_desc s)[i := desc\<lparr>rd_netbuf := new, rd_owner_software := False\<rparr>],
                             nt_rx_index := (if i + 1 \<ge> RX_DESC_CNT then 0 else i + 1)\<rparr>))
      else Inr (- ERETRY, 0, s)))"

text \<open>
  The transmission waits for the controller, which sends the bytes the descriptor describes and then
  owns the descriptor no longer. The buffer of the transmission before in this place is freed.
\<close>

definition gmac_send_raw :: "nat \<Rightarrow> net \<Rightarrow> net res" where
  "gmac_send_raw b s =
     (let i = nt_tx_index s; nb = nt_bufs s b in
      res_bind (read_at (nt_tx_desc s) i) (\<lambda>desc.
      if \<not> td_owner_software desc then Inl (Panic ''TX error'')
      else
        let s1 = free_netbuf (td_netbuf desc) s; len = (ucast (nb_frame_len nb) :: 14 word) in
        res_bind (assert_that (nb_ptr nb < NETBUF_LENGTH)) (\<lambda>_.
        res_bind (assert_that (nb_ptr nb + unat (nb_frame_len nb) < NETBUF_LENGTH)) (\<lambda>_.
          let s2 = s1\<lparr>nt_tx_desc := (nt_tx_desc s)[i := \<lparr>td_owner_software = True, td_last_buffer = True,
                                                          td_length = len, td_netbuf = b\<rparr>],
                      nt_sent := nt_sent s @ [slice (nb_ptr nb) (unat len) (nb_buf nb)]\<rparr> in
          if nt_tx_error s (length (nt_sent s)) then Inl (Panic ''TX error status'')
          else Inr (s2\<lparr>nt_tx_index := (if i + 1 \<ge> TX_DESC_CNT then 0 else i + 1)\<rparr>)))))"


subsection \<open>The link layer and address resolution\<close>

text \<open>The start of \<^verbatim>\<open>mac_send\<close> and \<^verbatim>\<open>mac_broadcast\<close>: the type and our own address.\<close>

definition mac_header :: "nat \<Rightarrow> u16 \<Rightarrow> net \<Rightarrow> net res" where
  "mac_header b type s =
     res_bind (assert_that (14 \<le> nb_ptr (nt_bufs s b))) (\<lambda>_.
     res_bind (nb_push b (be16_bytes type) s) (\<lambda>s1. nb_push b gmac_get_mac_addr s1))"

definition mac_broadcast :: "nat \<Rightarrow> u16 \<Rightarrow> net \<Rightarrow> net res" where
  "mac_broadcast b type s =
     res_bind (mac_header b type s) (\<lambda>s1.
     res_bind (nb_push b (replicate 6 0xFF) s1) (\<lambda>s2.
       gmac_send_raw b (set_frame_len b (frame_len b s2 + 14) s2)))"

fun arp_find :: "u32 \<Rightarrow> arp_entry list \<Rightarrow> int res" where
  "arp_find ip [] = Inr 0"
| "arp_find ip (e # es) =
     (if ae_ip e = ip \<and> \<not> ae_waiting e then Inl (Panic ''ARP error'')
      else if ae_ip e = ip then Inr (- ENOENT)
      else arp_find ip es)"

text \<open>The hardware address of a new entry is not initialised; it is not read while the entry waits.\<close>

definition arp_alloc_mapping :: "u32 \<Rightarrow> net \<Rightarrow> (int \<times> net) res" where
  "arp_alloc_mapping ip s =
     res_bind (arp_find ip (nt_arp_list s)) (\<lambda>err.
       if err \<noteq> 0 then Inr (err, s)
       else Inr (0, s\<lparr>nt_arp_list := \<lparr>ae_ip = ip, ae_mac = replicate 6 0, ae_waiting = True\<rparr> # nt_arp_list s\<rparr>))"

fun arp_fill :: "u32 \<Rightarrow> u8 list \<Rightarrow> arp_entry list \<Rightarrow> arp_entry list option" where
  "arp_fill ip mac [] = None"
| "arp_fill ip mac (e # es) =
     (if ae_ip e = ip \<and> ae_waiting e then Some (e\<lparr>ae_mac := mac, ae_waiting := False\<rparr> # es)
      else map_option ((#) e) (arp_fill ip mac es))"

definition arp_add_new_mapping :: "u32 \<Rightarrow> u8 list \<Rightarrow> net \<Rightarrow> net res" where
  "arp_add_new_mapping ip mac s =
     (case arp_fill ip mac (nt_arp_list s) of
        None \<Rightarrow> Inl (Panic ''Mapping does not exist'')
      | Some es \<Rightarrow> Inr (s\<lparr>nt_arp_list := es\<rparr>))"

definition arp_search :: "u32 \<Rightarrow> net \<Rightarrow> u8 list option" where
  "arp_search ip s = map_option ae_mac (find (\<lambda>e. ip = ae_ip e \<and> \<not> ae_waiting e) (nt_arp_list s))"

definition arp_request :: "u32 \<Rightarrow> u32 \<Rightarrow> net \<Rightarrow> net res" where
  "arp_request dest_ip src_ip s =
     res_bind (arp_alloc_mapping dest_ip s) (\<lambda>(err, s1).
     res_bind (take_netbuf s1) (\<lambda>(b, s2).
     res_bind (nb_store b 0 ([0x00, 0x01, 0x08, 0x00, 6, 4, 0x00, 0x01] @ gmac_get_mac_addr @ be32_bytes src_ip)
         (init_netbuf b s2)) (\<lambda>s3.
     res_bind (nb_store b 24 (be32_bytes dest_ip) s3) (\<lambda>s4.
       mac_broadcast b 0x0806 (set_frame_len b 28 s4)))))"

definition mac_send :: "nat \<Rightarrow> u32 \<Rightarrow> u32 \<Rightarrow> u16 \<Rightarrow> bool \<Rightarrow> net \<Rightarrow> net res" where
  "mac_send b dest_ip src_ip type broadcast s =
     res_bind (mac_header b type s) (\<lambda>s1.
       let s2 = set_buf b (\<lambda>nb. nb\<lparr>nb_frame_len := nb_frame_len nb + 14, nb_ip := dest_ip\<rparr>) s1 in
       if broadcast then res_bind (nb_push b (replicate 6 0xFF) s2) (gmac_send_raw b)
       else
         case arp_search dest_ip s2 of
           None \<Rightarrow> res_bind (nb_skip b 6 s2) (\<lambda>s3.
             arp_request dest_ip src_ip (s3\<lparr>nt_arp_queue := b # nt_arp_queue s3\<rparr>))
         | Some mac \<Rightarrow> res_bind (nb_push b mac s2) (gmac_send_raw b))"

text \<open>The walk over the queue: the destination is filled with a constant, and nothing is taken off.\<close>

fun unqueue_loop :: "u32 \<Rightarrow> nat list \<Rightarrow> net \<Rightarrow> net res" where
  "unqueue_loop ip [] s = Inr s"
| "unqueue_loop ip (b # bs) s =
     (if nb_ip (nt_bufs s b) = ip then
        (case arp_search ip s of
           None \<Rightarrow> Inl (Panic ''MAC not found'')
         | Some mac \<Rightarrow>
             res_bind (nb_store b 0 (replicate 6 0x44) s) (\<lambda>s1.
             res_bind (gmac_send_raw b s1) (unqueue_loop ip bs)))
      else unqueue_loop ip bs s)"

definition mac_unqueue :: "u32 \<Rightarrow> net \<Rightarrow> net res" where
  "mac_unqueue ip s = unqueue_loop ip (nt_arp_queue s) s"

definition get_src_ip :: "net \<Rightarrow> u32" where
  "get_src_ip s = ip_our_ip (nt_ip s)"

text \<open>The reply keeps the frame length the buffer had in its last use.\<close>

definition arp_handle_req :: "nat \<Rightarrow> net \<Rightarrow> net res" where
  "arp_handle_req b s =
     res_bind (take_netbuf s) (\<lambda>(rep, s1).
     res_bind (nb_store rep 0 (be16_bytes 1 @ be16_bytes 0x0800 @ [6, 4] @ be16_bytes 2 @ gmac_get_mac_addr @
         be32_bytes (get_src_ip s)) s1) (\<lambda>s2.
     res_bind (nb_read b 8 6 s2) (\<lambda>sha.
     res_bind (nb_store rep 18 sha s2) (\<lambda>s3.
     res_bind (nb_read_be32 b 14 s3) (\<lambda>dest_ip.
     res_bind (nb_store rep 24 (be32_bytes dest_ip) s3) (\<lambda>s4.
       mac_send rep dest_ip (get_src_ip s4) 0x0806 False s4))))))"

definition arp_handle_reply :: "nat \<Rightarrow> net \<Rightarrow> net res" where
  "arp_handle_reply b s =
     res_bind (nb_read b 18 6 s) (\<lambda>tha.
       if tha \<noteq> gmac_get_mac_addr then Inr s
       else res_bind (nb_read_be32 b 14 s) (\<lambda>ip.
            res_bind (nb_read b 8 6 s) (\<lambda>sha.
            res_bind (arp_add_new_mapping ip sha s) (mac_unqueue ip))))"

definition arp_receive :: "nat \<Rightarrow> net \<Rightarrow> net res" where
  "arp_receive b s =
     (if frame_len b s < 28 then Inr s
      else res_bind (nb_read b 0 8 s) (\<lambda>hdr.
        if be16_at hdr 0 \<noteq> 1 \<or> be16_at hdr 2 \<noteq> 0x0800 \<or> hdr ! 4 \<noteq> 6 \<or> hdr ! 5 \<noteq> 4 then Inr s
        else if be16_at hdr 6 = 2 then arp_handle_reply b s
        else if be16_at hdr 6 = 1 then arp_handle_req b s
        else Inr s))"

subsection \<open>Datagrams\<close>

definition add_netbuf_to_port :: "nat \<Rightarrow> u16 \<Rightarrow> net \<Rightarrow> net" where
  "add_netbuf_to_port b port s =
     s\<lparr>nt_ports := map (\<lambda>p. if up_port p = port then p\<lparr>up_packets := up_packets p @ [b]\<rparr> else p) (nt_ports s)\<rparr>"

fun pop_port :: "u16 \<Rightarrow> udp_port list \<Rightarrow> nat option \<times> udp_port list" where
  "pop_port port [] = (None, [])"
| "pop_port port (p # ps) =
     (if up_port p = port then
        (case up_packets p of [] \<Rightarrow> (None, p # ps) | b # bs \<Rightarrow> (Some b, p\<lparr>up_packets := bs\<rparr> # ps))
      else (case pop_port port ps of (r, ps') \<Rightarrow> (r, p # ps')))"

definition get_netbuf_from_port :: "u16 \<Rightarrow> net \<Rightarrow> nat option \<times> net" where
  "get_netbuf_from_port port s = (case pop_port port (nt_ports s) of (r, ps) \<Rightarrow> (r, s\<lparr>nt_ports := ps\<rparr>))"

definition udp_handle :: "nat \<Rightarrow> net \<Rightarrow> net res" where
  "udp_handle b s =
     res_bind (nb_read b 0 6 s) (\<lambda>hdr.
       let s1 = set_frame_len b (frame_len b s - 8) (nb_advance b 8 s) in
       Inr (add_netbuf_to_port b (be16_at hdr 2) s1))"

definition ip_receive :: "nat \<Rightarrow> net \<Rightarrow> net res" where
  "ip_receive b s =
     res_bind (nb_read b 0 10 s) (\<lambda>hdr.
       let size = be16_at hdr 2; protocol = hdr ! 9; header_len = (ucast (hdr ! 0 AND 0xF) :: u32) * 4;
           s1 = set_frame_len b (ucast size - header_len) (nb_advance b (unat header_len) s) in
       if protocol = 0x11 then udp_handle b s1 else Inr s1)"

definition mac_receive :: "net \<Rightarrow> net res" where
  "mac_receive s =
     res_bind (gmac_rec_raw s) (\<lambda>(err, b, s1).
       if err \<noteq> 0 then Inr s1
       else res_bind (nb_read_be16 b 12 s1) (\<lambda>type.
         let s2 = set_frame_len b (frame_len b s1 - 14) (nb_advance b 14 s1) in
         if type = 0x0806 then arp_receive b s2
         else if type = 0x0800 then ip_receive b s2
         else Inr s2))"

definition udp_rec :: "u16 \<Rightarrow> net \<Rightarrow> (nat option \<times> net) res" where
  "udp_rec port s =
     (case get_netbuf_from_port port s of
        (Some b, s1) \<Rightarrow> Inr (Some b, s1)
      | (None, s1) \<Rightarrow> res_bind (mac_receive s1) (\<lambda>s2. Inr (get_netbuf_from_port port s2)))"

definition udp_get_free_port :: "net \<Rightarrow> u16 \<times> net" where
  "udp_get_free_port s = (nt_udp_port s, s\<lparr>nt_udp_port := nt_udp_port s + 1\<rparr>)"

definition udp_listen :: "u16 \<Rightarrow> net \<Rightarrow> net res" where
  "udp_listen port s =
     (if \<exists>p \<in> set (nt_ports s). up_port p = port then Inl (Panic ''UDP port error'')
      else Inr (s\<lparr>nt_ports := \<lparr>up_port = port, up_packets = []\<rparr> # nt_ports s\<rparr>))"

definition ip_send :: "nat \<Rightarrow> u32 \<Rightarrow> u32 \<Rightarrow> bool \<Rightarrow> net \<Rightarrow> net res" where
  "ip_send b src_ip dest_ip broad s0 =
     (let s = set_frame_len b (frame_len b s0 + 20) s0 in
      res_bind (nb_push b (be32_bytes dest_ip) s) (\<lambda>s.
      res_bind (nb_push b (be32_bytes src_ip) s) (\<lambda>s.
      res_bind (nb_skip b 2 s) (\<lambda>s.
      res_bind (nb_push b [0x11] s) (\<lambda>s.
      res_bind (nb_push b [10] s) (\<lambda>s.
      res_bind (nb_push b (be16_bytes 0x4000) s) (\<lambda>s.
      res_bind (nb_push b (be16_bytes 0) s) (\<lambda>s.
      res_bind (nb_push b (be16_bytes (ucast (frame_len b s))) s) (\<lambda>s.
      res_bind (nb_push b [0] s) (\<lambda>s.
      res_bind (nb_push b [0x45] s) (\<lambda>s.
        mac_send b dest_ip src_ip 0x0800 broad s)))))))))))"

definition udp_send_from :: "nat \<Rightarrow> u32 \<Rightarrow> u32 \<Rightarrow> u16 \<Rightarrow> u16 \<Rightarrow> bool \<Rightarrow> net \<Rightarrow> net res" where
  "udp_send_from b dest_ip src_ip src_port dest_port broad s =
     res_bind (nb_skip b 2 s) (\<lambda>s1.
     res_bind (nb_push b (be16_bytes (ucast (frame_len b s1 + 8))) s1) (\<lambda>s2.
     res_bind (nb_push b (be16_bytes dest_port) s2) (\<lambda>s3.
     res_bind (nb_push b (be16_bytes src_port) s3) (\<lambda>s4.
       ip_send b src_ip dest_ip broad (set_frame_len b (frame_len b s4 + 8) s4)))))"

definition udp_send :: "nat \<Rightarrow> u32 \<Rightarrow> u16 \<Rightarrow> bool \<Rightarrow> net \<Rightarrow> net res" where
  "udp_send b ip port broad s = udp_send_from b ip (get_src_ip s) port port broad s"

end
