(* ===== verification/NetProps.thy ===== *)
theory NetProps
  imports Net
begin

text \<open>
  What the network stack does: a datagram arrives as it was sent, unknown receivers, received frames
  that nobody frees, and replies nobody asked for.
\<close>

subsection \<open>Building a frame\<close>

text \<open>The state with one buffer replaced; every step of building a frame is a change of this buffer.\<close>

definition with_buf :: "nat \<Rightarrow> netbuf \<Rightarrow> net \<Rightarrow> net" where
  "with_buf b nb s = s\<lparr>nt_bufs := (nt_bufs s)(b := nb)\<rparr>"

definition pushed :: "u8 list \<Rightarrow> netbuf \<Rightarrow> netbuf" where
  "pushed bs nb = nb\<lparr>nb_ptr := nb_ptr nb - length bs,
     nb_buf := take (nb_ptr nb - length bs) (nb_buf nb) @ bs @ drop (nb_ptr nb) (nb_buf nb)\<rparr>"

definition skipped :: "nat \<Rightarrow> netbuf \<Rightarrow> netbuf" where
  "skipped n nb = nb\<lparr>nb_ptr := nb_ptr nb - n\<rparr>"

definition data_of :: "netbuf \<Rightarrow> u8 list" where
  "data_of nb = drop (nb_ptr nb) (nb_buf nb)"

definition room :: "nat \<Rightarrow> netbuf \<Rightarrow> bool" where
  "room n nb \<longleftrightarrow> n \<le> nb_ptr nb \<and> nb_ptr nb \<le> length (nb_buf nb)"

lemma with_buf_simps [simp]:
  "nt_bufs (with_buf b nb s) b = nb" "nt_tx_desc (with_buf b nb s) = nt_tx_desc s" "nt_tx_index (with_buf b nb s) = nt_tx_index s"
  "nt_sent (with_buf b nb s) = nt_sent s" "nt_tx_error (with_buf b nb s) = nt_tx_error s" "arp_search ip (with_buf b nb s) = arp_search ip s"
  "nt_arp_queue (with_buf b nb s) = nt_arp_queue s" "nt_arp_list (with_buf b nb s) = nt_arp_list s" "nt_pool (with_buf b nb s) = nt_pool s"
  "set_buf b f (with_buf b nb s) = with_buf b (f nb) s" "frame_len b (with_buf b nb s) = nb_frame_len nb"
  "set_frame_len b n (with_buf b nb s) = with_buf b (nb\<lparr>nb_frame_len := n\<rparr>) s" "get_src_ip (with_buf b nb s) = get_src_ip s"
  by (simp_all add: with_buf_def set_buf_def frame_len_def set_frame_len_def arp_search_def get_src_ip_def)

lemma with_buf_same: "with_buf b (nt_bufs s b) s = s"
  by (simp add: with_buf_def)

lemma pushed_simps [simp]:
  "nb_ptr (pushed bs nb) = nb_ptr nb - length bs" "nb_frame_len (pushed bs nb) = nb_frame_len nb" "nb_ip (pushed bs nb) = nb_ip nb"
  "nb_ptr (skipped n nb) = nb_ptr nb - n" "nb_frame_len (skipped n nb) = nb_frame_len nb" "nb_buf (skipped n nb) = nb_buf nb"
  by (simp_all add: pushed_def skipped_def)

lemma pushed_length [simp]: "room (length bs) nb \<Longrightarrow> length (nb_buf (pushed bs nb)) = length (nb_buf nb)"
  by (auto simp: pushed_def room_def)

lemma nb_push_with_buf: "room (length bs) nb \<Longrightarrow> nb_push b bs (with_buf b nb s) = Inr (with_buf b (pushed bs nb) s)"
  by (simp add: nb_push_def nb_store_def put_bytes_def room_def pushed_def)

lemma nb_skip_with_buf: "room n nb \<Longrightarrow> nb_skip b n (with_buf b nb s) = Inr (with_buf b (skipped n nb) s)"
  by (simp add: nb_skip_def room_def skipped_def)

lemma room_pushed: "room (length bs + n) nb \<Longrightarrow> room n (pushed bs nb)"
  by (auto simp: room_def)

lemma room_skipped: "room (m + n) nb \<Longrightarrow> room n (skipped m nb)"
  by (auto simp: room_def)

lemma room_less: "room n nb \<Longrightarrow> m \<le> n \<Longrightarrow> room m nb"
  by (simp add: room_def)

lemma room_frame_len [simp]: "room n (nb\<lparr>nb_frame_len := x\<rparr>) = room n nb" "data_of (nb\<lparr>nb_frame_len := x\<rparr>) = data_of nb"
  "room n (nb\<lparr>nb_ip := i\<rparr>) = room n nb" "data_of (nb\<lparr>nb_ip := i\<rparr>) = data_of nb"
  by (simp_all add: room_def data_of_def)

lemma data_pushed: "room (length bs) nb \<Longrightarrow> data_of (pushed bs nb) = bs @ data_of nb"
proof -
  assume r: "room (length bs) nb"
  then have "min (length (nb_buf nb)) (nb_ptr nb - length bs) = nb_ptr nb - length bs" by (auto simp: room_def)
  then show ?thesis using r by (simp add: data_of_def pushed_def room_def)
qed

text \<open>The bytes a skipped field had before.\<close>

definition stale :: "nat \<Rightarrow> netbuf \<Rightarrow> u8 list" where
  "stale n nb = slice (nb_ptr nb - n) n (nb_buf nb)"

lemma data_skipped: "room n nb \<Longrightarrow> data_of (skipped n nb) = stale n nb @ data_of nb"
proof -
  assume r: "room n nb"
  have "drop (nb_ptr nb - n) (nb_buf nb) =
      take n (drop (nb_ptr nb - n) (nb_buf nb)) @ drop n (drop (nb_ptr nb - n) (nb_buf nb))"
    by (rule append_take_drop_id [symmetric])
  then show ?thesis using r by (simp add: data_of_def skipped_def stale_def slice_def room_def)
qed

lemma stale_length: "room n nb \<Longrightarrow> length (stale n nb) = n"
  by (auto simp: stale_def slice_def room_def)

text \<open>The headers in front of a datagram.\<close>

definition udp_bytes :: "u16 \<Rightarrow> u16 \<Rightarrow> u8 list \<Rightarrow> u8 list \<Rightarrow> u8 list" where
  "udp_bytes src_port dest_port ck payload =
     be16_bytes src_port @ be16_bytes dest_port @ be16_bytes (of_nat (length payload + 8)) @ ck @ payload"

definition ip_bytes :: "u32 \<Rightarrow> u32 \<Rightarrow> u8 list \<Rightarrow> u8 list \<Rightarrow> u8 list" where
  "ip_bytes src dest ck payload =
     [0x45, 0] @ be16_bytes (of_nat (length payload + 20)) @ be16_bytes 0 @ be16_bytes 0x4000 @ [10, 0x11] @ ck @
     be32_bytes src @ be32_bytes dest @ payload"

definition mac_bytes :: "u8 list \<Rightarrow> u16 \<Rightarrow> u8 list \<Rightarrow> u8 list" where
  "mac_bytes dest type payload = dest @ gmac_get_mac_addr @ be16_bytes type @ payload"

lemma mac_addr_length [simp]: "length gmac_get_mac_addr = 6"
  by (simp add: gmac_get_mac_addr_def mac_addr_def)

lemma take_data: "nb_ptr nb \<le> length (nb_buf nb) \<Longrightarrow> slice (nb_ptr nb) n (nb_buf nb) = take n (data_of nb)"
  by (simp add: slice_def data_of_def)


definition tx_ready :: "net \<Rightarrow> bool" where
  "tx_ready s \<longleftrightarrow> nt_tx_index s < length (nt_tx_desc s) \<and> td_owner_software (nt_tx_desc s ! nt_tx_index s) \<and>
     \<not> nt_tx_error s (length (nt_sent s))"

lemma gmac_send_with_buf:
  assumes "tx_ready s" and "nb_ptr nb \<le> length (nb_buf nb)" and "nb_frame_len nb = of_nat m"
    and "nb_ptr nb + m < 1536" and "length (nb_buf nb) = 1536"
  shows "\<exists>s'. gmac_send_raw b (with_buf b nb s) = Inr s' \<and> nt_sent s' = nt_sent s @ [take m (data_of nb)] \<and>
    nt_pool s' = td_netbuf (nt_tx_desc s ! nt_tx_index s) # nt_pool s \<and> nt_bufs s' = nt_bufs (with_buf b nb s)"
proof -
  have m: "unat (nb_frame_len nb) = m" using assms(3,4) by (simp add: unat_of_nat)
  then have "unat (ucast (nb_frame_len nb) :: 14 word) = m"
    using assms(4) by (simp add: unsigned_ucast_eq take_bit_nat_eq_self)
  then have "slice (nb_ptr nb) (unat (ucast (nb_frame_len nb) :: 14 word)) (nb_buf nb) = take m (data_of nb)"
    using take_data [OF assms(2)] by simp
  then show ?thesis using assms(1,4,5) m
    by (simp add: gmac_send_raw_def Let_def read_at_def tx_ready_def free_netbuf_def NETBUF_LENGTH_def)
qed

definition dest_mac :: "bool \<Rightarrow> u32 \<Rightarrow> net \<Rightarrow> u8 list option" where
  "dest_mac broad ip s = (if broad then Some (replicate 6 0xFF) else arp_search ip s)"

lemma mac_send_frame:
  assumes "room 14 nb" and "14 \<le> nb_ptr nb" and "tx_ready s" and "dest_mac broad dest s = Some dst" and "length dst = 6"
    and "length (nb_buf nb) = 1536" and "nb_frame_len nb = of_nat m" and "nb_ptr nb + m < 1536"
  shows "\<exists>s'. mac_send b dest src type broad (with_buf b nb s) = Inr s' \<and>
    nt_sent s' = nt_sent s @ [mac_bytes dst type (take m (data_of nb))]"
proof -
  define n2 where "n2 = pushed gmac_get_mac_addr (pushed (be16_bytes type) nb)"
  define n3 where "n3 = n2\<lparr>nb_frame_len := nb_frame_len n2 + 14, nb_ip := dest\<rparr>"
  have r: "room 2 nb" "room 6 (pushed (be16_bytes type) nb)" "room 6 n2"
    using assms(1) by (auto simp: n2_def intro!: room_pushed elim!: room_less)
  have h: "mac_header b type (with_buf b nb s) = Inr (with_buf b n2 s)"
    using assms(2) r by (simp add: mac_header_def nb_push_with_buf n2_def)
  have d2: "data_of n2 = gmac_get_mac_addr @ be16_bytes type @ data_of nb"
    using r by (simp add: n2_def data_pushed)
  have r3: "room 6 n3" "data_of n3 = data_of n2" using r by (simp_all add: n3_def)
  have l3: "length (nb_buf n3) = 1536" "nb_ptr n3 + 8 = nb_ptr nb" "nb_frame_len n3 = of_nat (m + 14)"
    using r assms(1,2,6,7) by (simp_all add: n3_def n2_def)
  let ?n4 = "pushed dst n3"
  have r4: "room (length dst) n3" using r3 assms(5) by simp
  have "nb_ptr ?n4 + (m + 14) < 1536" using l3(2) assms(5,8) r3(1) by (simp add: room_def)
  moreover have "nb_ptr ?n4 \<le> length (nb_buf ?n4)" using r4 by (auto simp: room_def)
  ultimately obtain s' where s': "gmac_send_raw b (with_buf b ?n4 s) = Inr s'"
    "nt_sent s' = nt_sent s @ [take (m + 14) (data_of ?n4)]"
    using gmac_send_with_buf [OF assms(3), of ?n4 "m + 14" b] l3 r4 by auto
  have "take (m + 14) (data_of ?n4) = mac_bytes dst type (take m (data_of nb))"
    using r4 r3(2) d2 assms(5) by (simp add: data_pushed mac_bytes_def)
  moreover have "mac_send b dest src type broad (with_buf b nb s) = gmac_send_raw b (with_buf b ?n4 s)"
    using h assms(4,5) r3(1) nb_push_with_buf [OF r4, of b s]
    by (cases broad) (auto simp: mac_send_def dest_mac_def n3_def Let_def)
  ultimately show ?thesis using s' by auto
qed


lemma ip_send_frame:
  assumes "room 34 nb" and "tx_ready s" and "dest_mac broad dest s = Some dst" and "length dst = 6"
    and "length (nb_buf nb) = 1536" and "nb_frame_len nb = of_nat m" and "nb_ptr nb + m < 1536"
  shows "\<exists>s' ck. ip_send b src dest broad (with_buf b nb s) = Inr s' \<and> length ck = 2 \<and>
    nt_sent s' = nt_sent s @ [mac_bytes dst 0x0800 (ip_bytes src dest ck (take m (data_of nb)))]"
proof -
  define n0 where "n0 = nb\<lparr>nb_frame_len := nb_frame_len nb + 20\<rparr>"
  define n1 where "n1 = pushed (be32_bytes src) (pushed (be32_bytes dest) n0)"
  define n2 where "n2 = skipped 2 n1"
  define n3 where "n3 = pushed (be16_bytes 0) (pushed (be16_bytes 0x4000) (pushed [10] (pushed [0x11] n2)))"
  define n4 where "n4 = pushed [0x45] (pushed [0] (pushed (be16_bytes (of_nat (m + 20))) n3))"
  have m: "m < 1536" using assms(7) by simp
  have fl: "nb_frame_len n3 = of_nat (m + 20)" using assms(6) by (simp add: n3_def n2_def n1_def n0_def)
  have fu: "(ucast (nb_frame_len n3) :: u16) = of_nat (m + 20)"
  proof -
    have "unat (nb_frame_len n3) = m + 20" unfolding fl using m by (simp add: unat_of_nat del: of_nat_add)
    moreover have "unat (of_nat (m + 20) :: u16) = m + 20" using m by (simp add: unat_of_nat del: of_nat_add)
    ultimately show ?thesis using m by (simp add: word_unat_eq_iff unsigned_ucast_eq take_bit_nat_eq_self del: of_nat_add)
  qed
  have r0: "room 34 n0" using assms(1) by (simp add: n0_def)
  have ra: "room 4 n0" "room 4 (pushed (be32_bytes dest) n0)" "room 26 n1"
    using r0 by (auto simp: n1_def intro!: room_pushed elim!: room_less)
  have rb: "room 2 n1" "room 24 n2" using ra(3) by (auto simp: n2_def intro!: room_skipped elim!: room_less)
  have rc: "room 1 n2" "room 1 (pushed [0x11] n2)" "room 2 (pushed [10] (pushed [0x11] n2))"
      "room 2 (pushed (be16_bytes 0x4000) (pushed [10] (pushed [0x11] n2)))" "room 18 n3"
    using rb(2) by (auto simp: n3_def intro!: room_pushed elim!: room_less)
  have rd: "room 2 n3" "room 1 (pushed (be16_bytes (of_nat (m + 20))) n3)"
      "room 1 (pushed [0] (pushed (be16_bytes (of_nat (m + 20))) n3))" "room 14 n4"
    using rc(5) by (auto simp: n4_def intro!: room_pushed elim!: room_less)
  have len: "length (nb_buf n4) = 1536" and ptr: "nb_ptr n4 + 20 = nb_ptr nb"
    using ra rb rc rd assms(1,5) by (simp_all add: n4_def n3_def n2_def n1_def n0_def room_def)
  have fl4: "nb_frame_len n4 = of_nat (m + 20)" using fl by (simp add: n4_def)
  have d: "data_of n4 = [0x45, 0] @ be16_bytes (of_nat (m + 20)) @ be16_bytes 0 @ be16_bytes 0x4000 @ [10, 0x11] @
      stale 2 n1 @ be32_bytes src @ be32_bytes dest @ data_of nb"
  proof -
    have "data_of n1 = be32_bytes src @ be32_bytes dest @ data_of nb"
      using ra by (simp add: n1_def data_pushed n0_def)
    then have "data_of n2 = stale 2 n1 @ be32_bytes src @ be32_bytes dest @ data_of nb"
      using rb by (simp add: n2_def data_skipped)
    then have "data_of n3 = be16_bytes 0 @ be16_bytes 0x4000 @ [10, 0x11] @ stale 2 n1 @ be32_bytes src @ be32_bytes dest @ data_of nb"
      using rc by (simp add: n3_def data_pushed)
    then show ?thesis using rd by (simp add: n4_def data_pushed)
  qed
  have ldat: "m \<le> length (data_of nb)" using assms(5,7) by (simp add: data_of_def)
  have ck: "length (stale 2 n1) = 2" using rb by (simp add: stale_length)
  have "ip_send b src dest broad (with_buf b nb s) = mac_send b dest src 0x0800 broad (with_buf b n4 s)"
    using ra rb rc rd
    by (simp add: ip_send_def Let_def nb_push_with_buf nb_skip_with_buf n0_def [symmetric] n1_def [symmetric]
        n2_def [symmetric] n3_def [symmetric] fu n4_def del: of_nat_add)
  moreover have "nb_ptr n4 + (m + 20) < 1536" "14 \<le> nb_ptr n4" using ptr assms(7) rd(4) by (auto simp: room_def)
  then obtain s' where "mac_send b dest src 0x0800 broad (with_buf b n4 s) = Inr s'"
    "nt_sent s' = nt_sent s @ [mac_bytes dst 0x0800 (take (m + 20) (data_of n4))]"
    using mac_send_frame [OF rd(4) _ assms(2-4) len fl4] by blast
  moreover have "take (m + 20) (data_of n4) = ip_bytes src dest (stale 2 n1) (take m (data_of nb))"
  proof -
    define H where "H = [0x45, 0] @ be16_bytes (of_nat (m + 20)) @ be16_bytes 0 @ be16_bytes 0x4000 @ [10, 0x11] @
        stale 2 n1 @ be32_bytes src @ be32_bytes dest"
    have "length H = 20" using ck by (simp add: H_def)
    moreover have "data_of n4 = H @ data_of nb" by (simp add: d H_def)
    ultimately have "take (m + 20) (data_of n4) = H @ take m (data_of nb)" by simp
    then show ?thesis using ldat by (simp add: H_def ip_bytes_def min_def)
  qed
  ultimately show ?thesis using ck by auto
qed


lemma udp_send_frame:
  assumes "nb_ptr nb = 74" and "length (nb_buf nb) = 1536" and "nb_frame_len nb = of_nat n" and "n \<le> 1460"
    and "tx_ready s" and "dest_mac broad dest s = Some dst" and "length dst = 6"
  shows "\<exists>s' ck uck. udp_send_from b dest src sport dport broad (with_buf b nb s) = Inr s' \<and> length ck = 2 \<and>
    length uck = 2 \<and> nt_sent s' = nt_sent s @
      [mac_bytes dst 0x0800 (ip_bytes src dest ck (udp_bytes sport dport uck (take n (data_of nb))))]"
proof -
  define n1 where "n1 = skipped 2 nb"
  define n2 where "n2 = pushed (be16_bytes sport) (pushed (be16_bytes dport) (pushed (be16_bytes (of_nat (n + 8))) n1))"
  define n3 where "n3 = n2\<lparr>nb_frame_len := nb_frame_len n2 + 8\<rparr>"
  have fu: "(ucast (nb_frame_len nb + 8) :: u16) = of_nat (n + 8)"
  proof -
    have e: "nb_frame_len nb + 8 = of_nat (n + 8)" using assms(3) by simp
    have "unat (nb_frame_len nb + 8) = n + 8" unfolding e using assms(4) by (simp add: unat_of_nat del: of_nat_add)
    moreover have "unat (of_nat (n + 8) :: u16) = n + 8" using assms(4) by (simp add: unat_of_nat del: of_nat_add)
    ultimately show ?thesis using assms(4)
      by (simp add: word_unat_eq_iff unsigned_ucast_eq take_bit_nat_eq_self del: of_nat_add)
  qed
  have r0: "room 42 nb" using assms(1,2) by (simp add: room_def)
  have r1: "room 2 nb" "room 40 n1" using r0 by (auto simp: n1_def intro!: room_skipped elim!: room_less)
  have r2: "room 2 n1" "room 2 (pushed (be16_bytes (of_nat (n + 8))) n1)"
    "room 2 (pushed (be16_bytes dport) (pushed (be16_bytes (of_nat (n + 8))) n1))" "room 34 n2"
    using r1(2) by (auto simp: n2_def intro!: room_pushed elim!: room_less)
  have r3: "room 34 n3" using r2(4) by (simp add: n3_def)
  have len: "length (nb_buf n3) = 1536" and ptr: "nb_ptr n3 = 66"
    using r1 r2 assms(1,2) by (simp_all add: n3_def n2_def n1_def)
  have fl: "nb_frame_len n3 = of_nat (n + 8)" using assms(3) by (simp add: n3_def n2_def n1_def)
  define H where "H = be16_bytes sport @ be16_bytes dport @ be16_bytes (of_nat (n + 8)) @ stale 2 nb"
  have ck: "length (stale 2 nb) = 2" using r1 by (simp add: stale_length)
  have "data_of n1 = stale 2 nb @ data_of nb" using r1 by (simp add: n1_def data_skipped)
  then have d: "data_of n3 = H @ data_of nb" using r2 by (simp add: n3_def n2_def data_pushed H_def)
  have "length H = 8" using ck by (simp add: H_def)
  then have "take (n + 8) (data_of n3) = H @ take n (data_of nb)" unfolding d by simp
  moreover have "n \<le> length (data_of nb)" using assms(1,2,4) by (simp add: data_of_def)
  ultimately have u: "take (n + 8) (data_of n3) = udp_bytes sport dport (stale 2 nb) (take n (data_of nb))"
    by (simp add: H_def udp_bytes_def min_def)
  have "udp_send_from b dest src sport dport broad (with_buf b nb s) = ip_send b src dest broad (with_buf b n3 s)"
  proof -
    have "nb_frame_len n1 = nb_frame_len nb" by (simp add: n1_def)
    then show ?thesis using r1 r2 fu
      by (simp add: udp_send_from_def nb_push_with_buf nb_skip_with_buf n1_def [symmetric] n3_def n2_def del: of_nat_add)
  qed
  moreover have "nb_ptr n3 + (n + 8) < 1536" using ptr assms(4) by simp
  then obtain s' ick where "ip_send b src dest broad (with_buf b n3 s) = Inr s'" "length ick = 2"
    "nt_sent s' = nt_sent s @ [mac_bytes dst 0x0800 (ip_bytes src dest ick (take (n + 8) (data_of n3)))]"
    using ip_send_frame [OF r3 assms(5-7) len fl] by blast
  ultimately show ?thesis using u ck by auto
qed


subsection \<open>Ports\<close>

definition queue_of :: "u16 \<Rightarrow> udp_port list \<Rightarrow> nat list option" where
  "queue_of port ps = map_option up_packets (find (\<lambda>p. up_port p = port) ps)"

lemma queue_of_simps [simp]:
  "queue_of port [] = None"
  "queue_of port (p # ps) = (if up_port p = port then Some (up_packets p) else queue_of port ps)"
  by (simp_all add: queue_of_def)

lemma queue_of_add:
  "queue_of q (nt_ports (add_netbuf_to_port b port s)) =
     (if q = port then map_option (\<lambda>xs. xs @ [b]) (queue_of q (nt_ports s)) else queue_of q (nt_ports s))"
proof -
  have "queue_of q (map (\<lambda>p. if up_port p = port then p\<lparr>up_packets := up_packets p @ [b]\<rparr> else p) ps) =
      (if q = port then map_option (\<lambda>xs. xs @ [b]) (queue_of q ps) else queue_of q ps)" for ps
    by (induction ps) auto
  then show ?thesis by (simp add: add_netbuf_to_port_def)
qed

lemma pop_port_empty: "queue_of port ps = None \<or> queue_of port ps = Some [] \<Longrightarrow> pop_port port ps = (None, ps)"
  by (induction ps) (auto split: if_splits)

lemma pop_port_first:
  "queue_of port ps = Some (b # bs) \<Longrightarrow> \<exists>ps'. pop_port port ps = (Some b, ps') \<and>
     (\<forall>q. queue_of q ps' = (if q = port then Some bs else queue_of q ps))"
proof (induction ps)
  case (Cons p ps)
  show ?case
  proof (cases "up_port p = port")
    case False
    then obtain ps' where "pop_port port ps = (Some b, ps')"
      "\<forall>q. queue_of q ps' = (if q = port then Some bs else queue_of q ps)"
      using Cons by auto
    then show ?thesis using False by auto
  qed (use Cons.prems in auto)
qed simp

lemma udp_rec_empty:
  assumes "queue_of port (nt_ports s) = Some []" and "mac_receive s = Inr s'"
  shows "udp_rec port s = Inr (get_netbuf_from_port port s')"
  using pop_port_empty [of port "nt_ports s"] assms by (simp add: udp_rec_def get_netbuf_from_port_def)

subsection \<open>Receiving a frame\<close>

definition rx_buf :: "net \<Rightarrow> nat" where
  "rx_buf s = rd_netbuf (nt_rx_desc s ! nt_rx_index s)"

text \<open>The next descriptor holds a complete frame, and the pool has a buffer to put in its place.\<close>

definition rx_holds :: "u8 list \<Rightarrow> net \<Rightarrow> bool" where
  "rx_holds frame s \<longleftrightarrow> nt_rx_index s < length (nt_rx_desc s) \<and> rd_owner_software (nt_rx_desc s ! nt_rx_index s) \<and>
     rd_sof (nt_rx_desc s ! nt_rx_index s) \<and> rd_eof (nt_rx_desc s ! nt_rx_index s) \<and>
     length frame < 8192 \<and> rd_length (nt_rx_desc s ! nt_rx_index s) = of_nat (length frame) \<and>
     nt_pool s \<noteq> [] \<and> hd (nt_pool s) \<noteq> rx_buf s \<and>
     length frame \<le> length (nb_buf (nt_bufs s (rx_buf s))) \<and> take (length frame) (nb_buf (nt_bufs s (rx_buf s))) = frame"

lemma gmac_rec_holds:
  assumes "rx_holds frame s"
  shows "\<exists>s'. gmac_rec_raw s = Inr (0, rx_buf s, s') \<and> frame_len (rx_buf s) s' = of_nat (length frame) \<and>
    nb_ptr (nt_bufs s' (rx_buf s)) = 0 \<and> nb_buf (nt_bufs s' (rx_buf s)) = nb_buf (nt_bufs s (rx_buf s)) \<and>
    nt_pool s' = tl (nt_pool s) \<and> nt_ports s' = nt_ports s \<and> nt_arp_list s' = nt_arp_list s \<and> nt_arp_queue s' = nt_arp_queue s \<and>
    nt_tx_desc s' = nt_tx_desc s \<and> map rd_netbuf (nt_rx_desc s') = (map rd_netbuf (nt_rx_desc s))[nt_rx_index s := hd (nt_pool s)]"
proof -
  obtain c cs where p: "nt_pool s = c # cs" using assms by (auto simp: rx_holds_def neq_Nil_conv)
  have "unat (ucast (of_nat (length frame) :: 13 word) :: u32) = length frame"
    using assms by (simp add: rx_holds_def unat_ucast_up unat_of_nat)
  moreover have "unat (of_nat (length frame) :: u32) = length frame" using assms by (simp add: rx_holds_def unat_of_nat)
  ultimately have "(ucast (of_nat (length frame) :: 13 word) :: u32) = of_nat (length frame)"
    by (simp add: word_unat_eq_iff)
  then show ?thesis using assms p
    by (auto simp: gmac_rec_raw_def rx_holds_def read_at_def Let_def alloc_netbuf_def set_buf_def rx_buf_def frame_len_def
        map_update)
qed


lemma read_frame:
  assumes "take (length fr) buf = fr" and "length fr \<le> length buf" and "k + n \<le> length fr"
  shows "get_bytes buf k n = Inr (slice k n fr)"
proof -
  have "slice k n fr = slice k n (take (length fr) buf)" using assms(1) by simp
  also have "\<dots> = slice k n buf" using assms(3) by (simp add: slice_def drop_take min_def)
  finally show ?thesis using assms(2,3) by (simp add: get_bytes_def)
qed

lemma slice_mid: "length a = k \<Longrightarrow> length x = n \<Longrightarrow> slice k n (a @ x @ c) = x"
  by (auto simp: slice_def)

lemma be16_at_bytes [simp]: "be16_at (be16_bytes v) 0 = v" "be16_at (a # b # be16_bytes v @ xs) 2 = v"
  "be16_at (be16_bytes u @ be16_bytes v @ xs) 2 = v"
  using at_append(1) [of "[]" v "[]"] at_append(1) [of "[a, b]" v xs] at_append(1) [of "be16_bytes u" v xs]
  by (simp_all add: numeral_2_eq_2)

definition datagram :: "u8 list \<Rightarrow> u32 \<Rightarrow> u32 \<Rightarrow> u16 \<Rightarrow> u16 \<Rightarrow> u8 list \<Rightarrow> u8 list \<Rightarrow> u8 list \<Rightarrow> u8 list" where
  "datagram dst src dest sport dport ck uck payload =
     mac_bytes dst 0x0800 (ip_bytes src dest ck (udp_bytes sport dport uck payload))"

lemma datagram_fields:
  fixes src dest :: u32 and sport dport :: u16 and payload :: "u8 list"
  assumes "length dst = 6" and "length ck = 2" and "length uck = 2"
  defines "fr \<equiv> datagram dst src dest sport dport ck uck payload"
  shows "length fr = 42 + length payload" and "slice 12 2 fr = be16_bytes 0x0800"
    and "slice 14 10 fr = [0x45, 0] @ be16_bytes (of_nat (length payload + 28)) @ be16_bytes 0 @ be16_bytes 0x4000 @ [10, 0x11]"
    and "slice 34 6 fr = be16_bytes sport @ be16_bytes dport @ be16_bytes (of_nat (length payload + 8))"
    and "drop 42 fr = payload"
proof -
  let ?ip = "[0x45, 0] @ be16_bytes (of_nat (length payload + 28)) @ be16_bytes 0 @ be16_bytes 0x4000 @ [10, 0x11]"
  let ?u = "be16_bytes sport @ be16_bytes dport @ be16_bytes (of_nat (length payload + 8))"
  have e: "length (udp_bytes sport dport uck payload) + 20 = length payload + 28" using assms(3) by (simp add: udp_bytes_def)
  have f: "fr = (dst @ gmac_get_mac_addr) @ be16_bytes 0x0800 @ ?ip @ (ck @ be32_bytes src @ be32_bytes dest) @ ?u @ uck @ payload"
    unfolding fr_def datagram_def mac_bytes_def ip_bytes_def e by (simp add: udp_bytes_def)
  show "length fr = 42 + length payload" using assms(1-3) by (simp add: f)
  show "slice 12 2 fr = be16_bytes 0x0800" unfolding f using assms(1) by (intro slice_mid) simp_all
  have f2: "fr = ((dst @ gmac_get_mac_addr) @ be16_bytes 0x0800) @ ?ip @ (ck @ be32_bytes src @ be32_bytes dest) @ ?u @ uck @ payload"
    unfolding f by simp
  show "slice 14 10 fr = ?ip" unfolding f2 using assms(1) by (intro slice_mid) simp_all
  have f3: "fr = ((dst @ gmac_get_mac_addr) @ be16_bytes 0x0800 @ ?ip @ (ck @ be32_bytes src @ be32_bytes dest)) @ ?u @ uck @ payload"
    unfolding f by simp
  show "slice 34 6 fr = ?u" unfolding f3 using assms(1,2) by (intro slice_mid) simp_all
  show "drop 42 fr = payload" unfolding f using assms(1-3) by simp
qed

lemma mac_receive_datagram:
  assumes "length dst = 6" and "length ck = 2" and "length uck = 2" and "length payload \<le> 1460"
    and "rx_holds (datagram dst src dest sport dport ck uck payload) s"
  shows "\<exists>s'. mac_receive s = Inr s' \<and> nb_frame_len (nt_bufs s' (rx_buf s)) = of_nat (length payload) \<and>
    take (length payload) (data_of (nt_bufs s' (rx_buf s))) = payload \<and>
    (\<forall>q. queue_of q (nt_ports s') = (if q = dport then map_option (\<lambda>xs. xs @ [rx_buf s]) (queue_of q (nt_ports s))
       else queue_of q (nt_ports s)))"
proof -
  define fr where "fr = datagram dst src dest sport dport ck uck payload"
  define b where "b = rx_buf s"
  define n where "n = length payload"
  note fl = datagram_fields [OF assms(1-3), where src = src and dest = dest and sport = sport and dport = dport
      and payload = payload, folded fr_def n_def]
  obtain s1 where s1: "gmac_rec_raw s = Inr (0, b, s1)" "frame_len b s1 = of_nat (42 + n)" "nb_ptr (nt_bufs s1 b) = 0"
    "nb_buf (nt_bufs s1 b) = nb_buf (nt_bufs s b)" "nt_ports s1 = nt_ports s"
    using gmac_rec_holds [OF assms(5)] fl(1) by (auto simp: fr_def b_def simp del: of_nat_add)
  define nb where "nb = nt_bufs s1 b"
  have buf: "take (length fr) (nb_buf nb) = fr" "length fr \<le> length (nb_buf nb)"
    using assms(5) s1(4) by (simp_all add: rx_holds_def fr_def b_def nb_def)
  have rd: "get_bytes (nb_buf nb) 12 2 = Inr (slice 12 2 fr)" "get_bytes (nb_buf nb) 14 10 = Inr (slice 14 10 fr)"
    "get_bytes (nb_buf nb) 34 6 = Inr (slice 34 6 fr)"
    using read_frame [OF buf] fl(1) by simp_all
  define s2 where "s2 = with_buf b (nb\<lparr>nb_ptr := 14, nb_frame_len := of_nat (42 + n) - 14\<rparr>) s1"
  define s3 where "s3 = with_buf b (nb\<lparr>nb_ptr := 34, nb_frame_len := of_nat (n + 28) - 20\<rparr>) s1"
  define s4 where "s4 = with_buf b (nb\<lparr>nb_ptr := 42, nb_frame_len := of_nat (n + 28) - 20 - 8\<rparr>) s1"
  have w: "nb_read c off m (with_buf c x s1) = get_bytes (nb_buf x) (nb_ptr x + off) m" for c off m x
    by (simp add: nb_read_def)
  have u: "(ucast (of_nat (n + 28) :: u16) :: u32) = of_nat (n + 28)"
    using assms(4) by (simp add: word_unat_eq_iff unat_of_nat n_def del: of_nat_add)
  have "udp_handle b s3 = Inr (add_netbuf_to_port b dport s4)"
    using rd(3) fl(4) by (simp add: udp_handle_def s3_def s4_def w nb_advance_def)
  moreover have "ip_receive b s2 = udp_handle b s3"
  proof -
    have "(be16_bytes (of_nat (n + 28)) @ be16_bytes 0 @ be16_bytes 0x4000 @ [10, 0x11]) ! 7 = 0x11"
      by (simp add: nth_append)
    then show ?thesis using rd(2) fl(3) u
      by (simp add: ip_receive_def s2_def s3_def w nb_advance_def Let_def del: of_nat_add)
  qed
  moreover have "mac_receive s = ip_receive b s2"
  proof -
    have "nb_read_be16 b 12 s1 = Inr 0x0800" using rd(1) fl(2) s1(3) by (simp add: nb_read_be16_def nb_read_def nb_def)
    moreover have "set_frame_len b (frame_len b s1 - 14) (nb_advance b 14 s1) = s2"
      using s1(2,3) by (simp add: s2_def set_frame_len_def nb_advance_def set_buf_def with_buf_def nb_def del: of_nat_add)
    ultimately show ?thesis using s1(1) by (simp add: mac_receive_def Let_def)
  qed
  ultimately have "mac_receive s = Inr (add_netbuf_to_port b dport s4)" by simp
  moreover have "nb_frame_len (nt_bufs (add_netbuf_to_port b dport s4) b) = of_nat n"
    by (simp add: add_netbuf_to_port_def s4_def)
  moreover have "take n (data_of (nt_bufs (add_netbuf_to_port b dport s4) b)) = payload"
  proof -
    have "take n (drop 42 (nb_buf nb)) = take n (drop 42 fr)"
      using buf fl(1) by (metis add.commute drop_take fl(5) n_def take_all_iff take_take order_refl diff_add_inverse min.idem)
    then show ?thesis using fl(5) by (simp add: add_netbuf_to_port_def s4_def data_of_def n_def)
  qed
  moreover have "nt_ports s4 = nt_ports s" using s1(5) by (simp add: s4_def with_buf_def)
  ultimately show ?thesis unfolding b_def [symmetric] n_def [symmetric] by (simp add: queue_of_add)
qed



definition demo_net :: net where
  "demo_net = \<lparr>nt_bufs = (\<lambda>b. \<lparr>nb_buf = replicate 1536 7, nb_ptr = 74, nb_frame_len = 4, nb_ip = 0\<rparr>), nt_pool = [2],
     nt_tx_desc = [\<lparr>td_owner_software = True, td_last_buffer = False, td_length = 0, td_netbuf = 3\<rparr>], nt_tx_index = 0,
     nt_rx_desc = [], nt_rx_index = 0, nt_sent = [], nt_tx_error = (\<lambda>i. False), nt_arp_list = [], nt_arp_queue = [],
     nt_ports = [], nt_udp_port = 1000, nt_ip = \<lparr>ip_our_ip = 0, ip_server_ip = [], ip_subnet_mask = 0\<rparr>\<rparr>"

definition demo_receiver :: "u8 list \<Rightarrow> net" where
  "demo_receiver fr = demo_net\<lparr>nt_bufs := (\<lambda>b. \<lparr>nb_buf = fr @ replicate (1536 - length fr) 0, nb_ptr = 0, nb_frame_len = 0, nb_ip = 0\<rparr>),
     nt_rx_desc := [\<lparr>rd_owner_software = True, rd_sof = True, rd_eof = True, rd_length = of_nat (length fr), rd_netbuf = 1\<rparr>],
     nt_ports := [\<lparr>up_port = 68, up_packets = []\<rparr>]\<rparr>"

lemma demo_receiver_holds: "length fr < 1536 \<Longrightarrow> rx_holds fr (demo_receiver fr)"
  by (simp add: rx_holds_def demo_receiver_def demo_net_def rx_buf_def)



subsection \<open>Replies to address requests\<close>

lemma nb_read_data:
  assumes "data_of (nt_bufs s b) = a @ x @ c" and "length a = k" and "length x = n" and "0 < n"
  shows "nb_read b k n s = Inr x"
proof -
  let ?nb = "nt_bufs s b"
  have "length (drop (nb_ptr ?nb) (nb_buf ?nb)) = k + n + length c" using assms by (simp add: data_of_def)
  then have "nb_ptr ?nb + k + n \<le> length (nb_buf ?nb)" using assms(4) by simp
  moreover have "slice (nb_ptr ?nb + k) n (nb_buf ?nb) = slice k n (data_of ?nb)"
    by (simp add: slice_def data_of_def add.commute)
  ultimately show ?thesis using slice_mid [OF assms(2,3), of c] assms(1) by (simp add: nb_read_def get_bytes_def)
qed

definition arp_packet :: "u16 \<Rightarrow> u8 list \<Rightarrow> u32 \<Rightarrow> u8 list \<Rightarrow> u32 \<Rightarrow> u8 list" where
  "arp_packet oper sha spa tha tpa =
     (be16_bytes 1 @ be16_bytes 0x0800 @ [6, 4] @ be16_bytes oper) @ sha @ be32_bytes spa @ tha @ be32_bytes tpa"

lemma arp_receive_reply:
  assumes "28 \<le> frame_len b s" and "data_of (nt_bufs s b) = arp_packet 2 sha spa gmac_get_mac_addr tpa @ rest"
    and "length sha = 6"
  shows "arp_receive b s = res_bind (arp_add_new_mapping spa sha s) (mac_unqueue spa)"
proof -
  let ?h = "be16_bytes 1 @ be16_bytes 0x0800 @ [6, 4] @ be16_bytes 2"
  have d: "data_of (nt_bufs s b) = [] @ ?h @ (sha @ be32_bytes spa @ gmac_get_mac_addr @ be32_bytes tpa @ rest)"
    "data_of (nt_bufs s b) = ?h @ sha @ (be32_bytes spa @ gmac_get_mac_addr @ be32_bytes tpa @ rest)"
    "data_of (nt_bufs s b) = (?h @ sha) @ be32_bytes spa @ (gmac_get_mac_addr @ be32_bytes tpa @ rest)"
    "data_of (nt_bufs s b) = (?h @ sha @ be32_bytes spa) @ gmac_get_mac_addr @ (be32_bytes tpa @ rest)"
    using assms(2) by (simp_all add: arp_packet_def)
  have r: "nb_read b 0 8 s = Inr ?h" "nb_read b 8 6 s = Inr sha" "nb_read b 14 4 s = Inr (be32_bytes spa)"
    "nb_read b 18 6 s = Inr gmac_get_mac_addr"
    using nb_read_data [OF d(1), of 0 8] nb_read_data [OF d(2), of 8 6] nb_read_data [OF d(3), of 14 4]
      nb_read_data [OF d(4), of 18 6] assms(3) by simp_all
  have f: "be16_at ?h 0 = 1" "be16_at ?h 2 = 0x0800" "?h ! 4 = 6" "?h ! 5 = 4" "be16_at ?h 6 = 2"
    using at_append(1) [of "[]" 1] at_append(1) [of "be16_bytes 1" "0x0800"]
      at_append(1) [of "be16_bytes 1 @ be16_bytes 0x0800 @ [6, 4]" 2 "[]"]
    by (simp_all add: nth_append)
  have "be32_at (be32_bytes spa) 0 = spa" using at_append(2) [of "[]" spa "[]"] by simp
  then have "nb_read_be32 b 14 s = Inr spa" using r(3) by (simp add: nb_read_be32_def)
  then show ?thesis using assms(1) r f by (simp add: arp_receive_def arp_handle_reply_def leD)
qed

lemma arp_fill_search:
  "(\<exists>e \<in> set es. ae_ip e = ip \<and> ae_waiting e) \<Longrightarrow> find (\<lambda>e. ip = ae_ip e \<and> \<not> ae_waiting e) es = None \<Longrightarrow>
   \<exists>es'. arp_fill ip mac es = Some es' \<and>
     map_option ae_mac (find (\<lambda>e. ip = ae_ip e \<and> \<not> ae_waiting e) es') = Some mac"
proof (induction es)
  case (Cons e es)
  show ?case
  proof (cases "ae_ip e = ip \<and> ae_waiting e")
    case False
    then have "ae_ip e \<noteq> ip" using Cons.prems(2) by (auto split: if_splits)
    then obtain es' where "arp_fill ip mac es = Some es'"
      "map_option ae_mac (find (\<lambda>e. ip = ae_ip e \<and> \<not> ae_waiting e) es') = Some mac"
      using Cons by (auto split: if_splits)
    then show ?thesis using \<open>ae_ip e \<noteq> ip\<close> by auto
  qed simp
qed simp

lemma arp_fill_none: "arp_fill ip mac es = None \<longleftrightarrow> (\<forall>e \<in> set es. \<not> (ae_ip e = ip \<and> ae_waiting e))"
  by (induction es) auto

text \<open>A reply to an address request resolves the address if an entry of the table waits for it,
  and stops the machine if none does: any host can panic the kernel with one reply nobody asked for.\<close>

theorem arp_reply_outcome:
  assumes "28 \<le> frame_len b s" and "data_of (nt_bufs s b) = arp_packet 2 sha spa gmac_get_mac_addr tpa @ rest"
    and "length sha = 6" and "arp_search spa s = None" and "\<forall>q \<in> set (nt_arp_queue s). nb_ip (nt_bufs s q) \<noteq> spa"
  shows "if \<exists>e \<in> set (nt_arp_list s). ae_ip e = spa \<and> ae_waiting e
    then \<exists>s'. arp_receive b s = Inr s' \<and> arp_search spa s' = Some sha
    else arp_receive b s = Inl (Panic ''Mapping does not exist'')"
proof (cases "\<exists>e \<in> set (nt_arp_list s). ae_ip e = spa \<and> ae_waiting e")
  case True
  have none: "find (\<lambda>e. spa = ae_ip e \<and> \<not> ae_waiting e) (nt_arp_list s) = None"
    using assms(4) by (simp add: arp_search_def)
  obtain es where es: "arp_fill spa sha (nt_arp_list s) = Some es"
    "map_option ae_mac (find (\<lambda>e. spa = ae_ip e \<and> \<not> ae_waiting e) es) = Some sha"
    using arp_fill_search [OF True none] by blast
  let ?s = "s\<lparr>nt_arp_list := es\<rparr>"
  have "\<forall>q \<in> set qs. nb_ip (nt_bufs ?s q) \<noteq> spa \<Longrightarrow> unqueue_loop spa qs ?s = Inr ?s" for qs
    by (induction qs) simp_all
  then have "mac_unqueue spa ?s = Inr ?s" using assms(5) by (simp add: mac_unqueue_def)
  then have "arp_receive b s = Inr ?s"
    using arp_receive_reply [OF assms(1-3)] es(1) by (simp add: arp_add_new_mapping_def)
  moreover have "arp_search spa ?s = Some sha" using es(2) by (simp add: arp_search_def)
  ultimately show ?thesis using True by auto
next
  case False
  then have "arp_fill spa sha (nt_arp_list s) = None" by (simp add: arp_fill_none)
  then have "arp_receive b s = Inl (Panic ''Mapping does not exist'')"
    using arp_receive_reply [OF assms(1-3)] by (simp add: arp_add_new_mapping_def)
  then show ?thesis using False by simp
qed

lemma arp_reply_outcome_witness:
  "arp_receive 0 (demo_net\<lparr>nt_bufs := (\<lambda>b. \<lparr>nb_buf = arp_packet 2 (replicate 6 1) 0x0A000001 gmac_get_mac_addr 0x0A000002,
     nb_ptr = 0, nb_frame_len = 28, nb_ip = 0\<rparr>)\<rparr>) = Inl (Panic ''Mapping does not exist'')"
  (is "arp_receive 0 ?s = _")
proof -
  have "28 \<le> frame_len 0 ?s" "arp_search 0x0A000001 ?s = None" "nt_arp_queue ?s = []" "nt_arp_list ?s = []"
    "data_of (nt_bufs ?s 0) = arp_packet 2 (replicate 6 1) 0x0A000001 gmac_get_mac_addr 0x0A000002 @ []"
    by (simp_all add: frame_len_def arp_search_def demo_net_def data_of_def)
  then show ?thesis
    using arp_reply_outcome [of 0 ?s "replicate 6 1" "0x0A000001" "0x0A000002" "[]"] by simp
qed


subsection \<open>Frames nobody frees\<close>

text \<open>
  The buffers the stack can still reach. A frame of a foreign type takes one buffer of the pool into
  the ring and leaves its own outside of all lists; with the pool empty the next frame fails the
  assertion of the receive routine.
\<close>

definition reachable_bufs :: "net \<Rightarrow> nat list" where
  "reachable_bufs s = nt_pool s @ map rd_netbuf (nt_rx_desc s) @ map td_netbuf (nt_tx_desc s) @ nt_arp_queue s @
     concat (map up_packets (nt_ports s))"

lemma replaced_gone: "distinct xs \<Longrightarrow> i < length xs \<Longrightarrow> c \<notin> set xs \<Longrightarrow> xs ! i \<notin> set (xs[i := c])"
  by (auto simp: in_set_conv_nth nth_list_update nth_eq_iff_index_eq split: if_splits)

lemma foreign_frame_leaks:
  assumes "rx_holds frame s" and "14 \<le> length frame" and "slice 12 2 frame = be16_bytes type"
    and "type \<noteq> 0x0806" and "type \<noteq> 0x0800" and "distinct (reachable_bufs s)"
  shows "\<exists>s'. mac_receive s = Inr s' \<and> nt_pool s' = tl (nt_pool s) \<and> rx_buf s \<in> set (reachable_bufs s) \<and>
    rx_buf s \<notin> set (reachable_bufs s')"
proof -
  let ?b = "rx_buf s" and ?i = "nt_rx_index s"
  obtain s1 where s1: "gmac_rec_raw s = Inr (0, ?b, s1)" "nb_ptr (nt_bufs s1 ?b) = 0"
    "nb_buf (nt_bufs s1 ?b) = nb_buf (nt_bufs s ?b)" "nt_pool s1 = tl (nt_pool s)" "nt_ports s1 = nt_ports s"
    "nt_arp_queue s1 = nt_arp_queue s" "nt_tx_desc s1 = nt_tx_desc s"
    "map rd_netbuf (nt_rx_desc s1) = (map rd_netbuf (nt_rx_desc s))[?i := hd (nt_pool s)]"
    using gmac_rec_holds [OF assms(1)] by blast
  obtain c cs where pool: "nt_pool s = c # cs" using assms(1) by (auto simp: rx_holds_def neq_Nil_conv)
  have buf: "take (length frame) (nb_buf (nt_bufs s1 ?b)) = frame" "length frame \<le> length (nb_buf (nt_bufs s1 ?b))"
    using assms(1) s1(3) by (simp_all add: rx_holds_def)
  have "nb_read_be16 ?b 12 s1 = Inr type"
    using read_frame [OF buf, of 12 2] assms(2,3) s1(2) by (simp add: nb_read_be16_def nb_read_def)
  then have m: "mac_receive s = Inr (set_frame_len ?b (frame_len ?b s1 - 14) (nb_advance ?b 14 s1))" (is "_ = Inr ?s2")
    using s1(1) assms(4,5) by (simp add: mac_receive_def Let_def)
  have i: "?i < length (map rd_netbuf (nt_rx_desc s))" "?b = map rd_netbuf (nt_rx_desc s) ! ?i"
    using assms(1) by (simp_all add: rx_holds_def rx_buf_def)
  have "?b \<notin> set ((map rd_netbuf (nt_rx_desc s))[?i := c])"
    unfolding i(2) using assms(6) pool by (intro replaced_gone [OF _ i(1)]) (auto simp: reachable_bufs_def)
  moreover have r: "?b \<in> set (map rd_netbuf (nt_rx_desc s))" using i by (metis nth_mem)
  define R where "R = map td_netbuf (nt_tx_desc s) @ nt_arp_queue s @ concat (map up_packets (nt_ports s))"
  have all: "reachable_bufs s = (c # cs) @ map rd_netbuf (nt_rx_desc s) @ R" using pool by (simp add: reachable_bufs_def R_def)
  have "distinct ((c # cs) @ map rd_netbuf (nt_rx_desc s) @ R)" using assms(6) all by simp
  then have "?b \<notin> set cs" "?b \<notin> set R" using r by (auto simp del: set_map)
  moreover have "reachable_bufs ?s2 = cs @ (map rd_netbuf (nt_rx_desc s))[?i := c] @ R"
    using s1(4-8) pool by (simp add: reachable_bufs_def set_frame_len_def nb_advance_def set_buf_def R_def)
  ultimately have "?b \<notin> set (reachable_bufs ?s2)" by simp
  moreover have "?b \<in> set (reachable_bufs s)" unfolding all using r by simp
  moreover have "nt_pool ?s2 = tl (nt_pool s)" using s1(4) by (simp add: set_frame_len_def nb_advance_def set_buf_def)
  ultimately show ?thesis using m by blast
qed

text \<open>
  A queued packet stays on the queue after it was sent, and its buffer is in the ring as well, so the
  second transmission after it frees a buffer that is still queued.
\<close>

lemma gmac_send_effect:
  "gmac_send_raw b s = Inr s' \<Longrightarrow> \<exists>d. nt_tx_desc s' = (nt_tx_desc s)[nt_tx_index s := d] \<and> td_netbuf d = b \<and>
     nt_tx_index s < length (nt_tx_desc s) \<and> nt_arp_queue s' = nt_arp_queue s"
  by (auto simp: gmac_send_raw_def Let_def res_bind_Inr_iff read_at_def free_netbuf_def split: if_splits)

lemma unqueued_buffer_stays:
  assumes "nt_arp_queue s = [b]" and "nb_ip (nt_bufs s b) = ip" and "mac_unqueue ip s = Inr s'"
  shows "nt_arp_queue s' = [b] \<and> b \<in> td_netbuf ` set (nt_tx_desc s')"
proof -
  obtain mac s1 where m: "arp_search ip s = Some mac" "nb_store b 0 (replicate 6 0x44) s = Inr s1" "gmac_send_raw b s1 = Inr s'"
    using assms by (auto simp: mac_unqueue_def res_bind_Inr_iff split: option.splits)
  have "nt_arp_queue s1 = nt_arp_queue s" using m(2)
    by (auto simp: nb_store_def res_bind_Inr_iff set_buf_def)
  moreover obtain d where "nt_tx_desc s' = (nt_tx_desc s1)[nt_tx_index s1 := d]" "td_netbuf d = b"
    "nt_tx_index s1 < length (nt_tx_desc s1)" "nt_arp_queue s' = nt_arp_queue s1"
    using gmac_send_effect [OF m(3)] by blast
  moreover from this have "d \<in> set (nt_tx_desc s')" by (simp add: set_update_memI)
  ultimately show ?thesis using assms(1) by auto
qed

end
