(* ===== verification/Ipv4.thy ===== *)
theory Ipv4
  imports Net
begin

text \<open>
  IPv4 addresses as text: \<^verbatim>\<open>ipv4_to_str\<close> and \<^verbatim>\<open>str_to_ipv4\<close> of \<^verbatim>\<open>net/ip.c\<close>. A string is the list of its
  bytes before the terminating zero.
\<close>

text \<open>The digits of an octet with \<open>n\<close> turns left; a zero is skipped in every place but the last.\<close>

fun octet_digits :: "nat \<Rightarrow> u8 \<Rightarrow> u32 \<Rightarrow> u8 list" where
  "octet_digits 0 frag div' = []"
| "octet_digits (Suc n) frag div' =
     (let tmp = (ucast (ucast frag div div') :: u8) in
      (if tmp \<noteq> 0 \<or> n = 0 then [tmp + 0x30] else []) @ octet_digits n (ucast (ucast frag mod div')) (div' div 10))"

fun ipv4_loop :: "nat \<Rightarrow> u8 \<Rightarrow> u32 \<Rightarrow> u8 list" where
  "ipv4_loop 0 shift addr = []"
| "ipv4_loop (Suc n) shift addr =
     octet_digits 3 (ucast (drop_bit (unat shift) addr AND 0xFF)) 100 @
     (if n \<noteq> 0 then [0x2E] else []) @ ipv4_loop n (shift - 8) addr"

definition ipv4_to_str :: "u32 \<Rightarrow> u8 list" where
  "ipv4_to_str addr = ipv4_loop 4 24 addr"

text \<open>One octet: its value and the text from the separator on; \<open>is_last\<close> tells that the end is the separator.\<close>

fun parse_octet :: "bool \<Rightarrow> u32 \<Rightarrow> u8 list \<Rightarrow> (u32 \<times> u8 list) option" where
  "parse_octet is_last octet [] = None"
| "parse_octet is_last octet (c # cs) =
     (if c < 0x30 \<or> 0x39 < c then None
      else
        let octet' = octet * 10 + (ucast c - 0x30) in
        if 255 < octet' then None
        else if (case cs of [] \<Rightarrow> is_last | d # _ \<Rightarrow> \<not> is_last \<and> d = 0x2E) then Some (octet', cs)
        else parse_octet is_last octet' cs)"

text \<open>The octets from turn \<open>4 - n\<close> on; the code and the address so far.\<close>

fun str_to_ipv4_loop :: "nat \<Rightarrow> u8 list \<Rightarrow> u32 \<Rightarrow> int \<times> u32" where
  "str_to_ipv4_loop 0 buf addr = (0, addr)"
| "str_to_ipv4_loop (Suc n) buf addr =
     (case parse_octet (n = 0) 0 buf of
        None \<Rightarrow> (- EBADIP, addr)
      | Some (octet, rest) \<Rightarrow> str_to_ipv4_loop n (drop 1 rest) (push_bit 8 addr OR octet))"

definition str_to_ipv4 :: "u8 list \<Rightarrow> u32 \<Rightarrow> int \<times> u32" where
  "str_to_ipv4 buf addr = str_to_ipv4_loop 4 buf addr"

subsection \<open>One octet\<close>

text \<open>The decimal places of an octet, and the value that is printed.\<close>

definition shown :: "nat \<Rightarrow> nat" where
  "shown x = (if x div 100 \<noteq> 0 \<and> x div 10 mod 10 = 0 then x div 100 * 10 + x mod 10 else x)"

definition digit :: "nat \<Rightarrow> u8" where "digit d = of_nat d + 0x30"

lemma octet_digits_eq:
  "octet_digits 3 x 100 = map digit ((if unat x div 100 = 0 then [] else [unat x div 100]) @
     (if unat x div 10 mod 10 = 0 then [] else [unat x div 10 mod 10]) @ [unat x mod 10])"
proof -
  have u: "unat (ucast (ucast (w :: u8) div (d :: u32)) :: u8) = unat w div unat d" for w d
  proof -
    have "unat w div unat d < 256" using div_le_dividend [of "unat w" "unat d"] unat_u8_less [of w] by linarith
    then show ?thesis by (simp add: unsigned_ucast_eq unat_div_distrib take_bit_nat_eq_self)
  qed
  have m: "unat (ucast (ucast (w :: u8) mod (d :: u32)) :: u8) = unat w mod unat d" for w d
  proof -
    have "unat w mod unat d < 256" using mod_less_eq_dividend [of "unat w" "unat d"] unat_u8_less [of w] by linarith
    then show ?thesis by (simp add: unsigned_ucast_eq unat_mod_distrib take_bit_nat_eq_self)
  qed
  have uu: "(ucast (ucast (w :: u8) :: u32) :: u8) = w" for w
    using u [of w 1] by (simp add: word_unat_eq_iff)
  have dg: "(w :: u8) + 0x30 = digit (unat w)" for w by (simp add: digit_def)
  have z: "(w :: u8) = 0 \<longleftrightarrow> unat w = 0" for w by (simp add: unat_eq_zero)
  have a: "unat x mod 100 div 10 = unat x div 10 mod 10" using mod_mult2_eq [of "unat x" 10 10] by (simp add: div_mult2_eq [symmetric])
  have b: "unat x mod 100 mod 10 = unat x mod 10" by (simp add: mod_mod_cancel)
  show ?thesis
    by (simp add: numeral_3_eq_3 Let_def u m dg z a b uu)
qed

lemma digit_unat: "d < 10 \<Longrightarrow> unat (digit d) = d + 48"
  by (simp add: digit_def unat_word_ariths unat_of_nat)

lemma digit_props:
  assumes "d < 10"
  shows "\<not> digit d < 0x30" and "\<not> 0x39 < digit d" and "(ucast (digit d) - 0x30 :: u32) = of_nat d" and "digit d \<noteq> 0x2E"
proof -
  note u = digit_unat [OF assms]
  show "\<not> digit d < 0x30" "\<not> 0x39 < digit d" using u assms by (simp_all add: word_less_nat_alt)
  have "(ucast (digit d) :: u32) = of_nat d + 0x30"
    using u assms by (simp add: word_unat_eq_iff unat_word_ariths unat_of_nat)
  then show "(ucast (digit d) - 0x30 :: u32) = of_nat d" by simp
  show "digit d \<noteq> 0x2E" using u by auto
qed


lemma decimal: "x = 100 * (x div 100) + (10 * (x div 10 mod 10) + x mod (10 :: nat))"
proof -
  have "x div 10 = 10 * (x div 100) + x div 10 mod 10"
    using mult_div_mod_eq [of 10 "x div 10"] by (simp add: div_mult2_eq [symmetric])
  moreover have "x = 10 * (x div 10) + x mod 10" by simp
  ultimately show ?thesis by linarith
qed

definition value_of :: "nat \<Rightarrow> nat list \<Rightarrow> nat" where
  "value_of acc ds = foldl (\<lambda>a d. a * 10 + d) acc ds"

lemma value_of_simps [simp]: "value_of acc [] = acc" "value_of acc (d # ds) = value_of (acc * 10 + d) ds"
  by (simp_all add: value_of_def)

lemma value_of_ge: "acc \<le> value_of acc ds"
proof (induction ds arbitrary: acc)
  case (Cons d ds)
  then have "acc * 10 + d \<le> value_of (acc * 10 + d) ds" .
  then show ?case by simp
qed simp

definition separator :: "bool \<Rightarrow> u8 list \<Rightarrow> bool" where
  "separator is_last rest \<longleftrightarrow> (if is_last then rest = [] else rest \<noteq> [] \<and> hd rest = 0x2E)"

lemma parse_octet_digits:
  "ds \<noteq> [] \<Longrightarrow> \<forall>d \<in> set ds. d < 10 \<Longrightarrow> value_of acc ds \<le> 255 \<Longrightarrow> separator is_last rest \<Longrightarrow>
   parse_octet is_last (of_nat acc) (map digit ds @ rest) = Some (of_nat (value_of acc ds), rest)"
proof (induction ds arbitrary: acc)
  case (Cons d ds)
  note dp = digit_props [of d]
  have d: "d < 10" using Cons.prems(2) by simp
  have le: "acc * 10 + d \<le> 255" using Cons.prems(3) value_of_ge [of "acc * 10 + d" ds] by simp
  have o: "of_nat acc * 10 + (ucast (digit d) - 0x30 :: u32) = of_nat (acc * 10 + d)" using dp(3) d by simp
  have no: "\<not> 255 < (of_nat (acc * 10 + d) :: u32)"
    using le by (simp add: word_less_nat_alt unat_of_nat del: of_nat_add of_nat_mult)
  have step: "parse_octet is_last (of_nat acc) (digit d # tl) =
      (if (case tl of [] \<Rightarrow> is_last | c # _ \<Rightarrow> \<not> is_last \<and> c = 0x2E) then Some (of_nat (acc * 10 + d), tl)
       else parse_octet is_last (of_nat (acc * 10 + d)) tl)" for tl
    unfolding parse_octet.simps Let_def o by (simp only: dp(1,2) [OF d] no simp_thms if_False)
  show ?case
  proof (cases ds)
    case Nil
    then show ?thesis using step [of rest] Cons.prems(4)
      by (auto simp: separator_def split: list.splits if_splits)
  next
    case (Cons e es)
    have "e < 10" using Cons.prems(2) Cons by simp
    note ep = digit_props [OF this]
    have "parse_octet is_last (of_nat (acc * 10 + d)) (map digit ds @ rest) =
        Some (of_nat (value_of (acc * 10 + d) ds), rest)"
      by (rule Cons.IH) (use Cons.prems Cons in auto)
    then show ?thesis using step [of "map digit ds @ rest"] ep(4) Cons by simp
  qed
qed simp

lemma octet_roundtrip:
  assumes "separator is_last rest"
  shows "parse_octet is_last 0 (octet_digits 3 x 100 @ rest) = Some (of_nat (shown (unat x)), rest)"
proof -
  let ?h = "unat x div 100" and ?t = "unat x div 10 mod 10" and ?u = "unat x mod 10"
  let ?ds = "(if ?h = 0 then [] else [?h]) @ (if ?t = 0 then [] else [?t]) @ [?u]"
  have "unat x < 10 * 100" using unat_u8_less [of x] by linarith
  then have h: "?h < 10" by (rule less_mult_imp_div_less)
  note x = decimal [of "unat x"]
  have v: "value_of 0 ?ds = shown (unat x)"
  proof (cases "?h = 0")
    case True
    then have "unat x = 10 * ?t + ?u" using x by simp
    then show ?thesis using True by (simp add: shown_def mult.commute)
  next
    case False
    then show ?thesis using x by (auto simp: shown_def)
  qed
  have "unat x \<le> 255" using unat_u8_less [of x] by linarith
  moreover have "?h * 10 + ?u \<le> unat x" using x by linarith
  ultimately have "shown (unat x) \<le> 255" unfolding shown_def by (simp split: if_split)
  then have "parse_octet is_last (of_nat 0) (map digit ?ds @ rest) = Some (of_nat (value_of 0 ?ds), rest)"
    using v h assms by (intro parse_octet_digits) auto
  then show ?thesis unfolding octet_digits_eq v by simp
qed

lemma shown_iff: "x < 256 \<Longrightarrow> shown x = x \<longleftrightarrow> x \<notin> {100..109} \<union> {200..209}"
proof -
  assume x: "x < 256"
  define h t u where d: "h = x div 100" "t = x div 10 mod 10" "u = x mod 10"
  have e: "x = 100 * h + (10 * t + u)" unfolding d by (rule decimal)
  have b: "t < 10" "u < 10" by (simp_all add: d)
  have "h = 0 \<or> h = 1 \<or> h = 2" using e x by linarith
  moreover have "t = 0 \<or> 1 \<le> t" by linarith
  ultimately have "h \<noteq> 0 \<and> t = 0 \<longleftrightarrow> x \<in> {100..109} \<union> {200..209}" using e b by auto
  moreover have "h * 10 + u \<noteq> x" if "h \<noteq> 0" "t = 0" using e that by linarith
  ultimately show ?thesis unfolding shown_def d [symmetric] by auto
qed


subsection \<open>Whole addresses\<close>

definition octet :: "u32 \<Rightarrow> nat \<Rightarrow> u8" where
  "octet addr k = ucast (drop_bit (24 - 8 * k) addr)"

lemma and_ff: "(ucast (w AND 0xFF :: u32) :: u8) = ucast w"
proof -
  have m: "(0xFF :: u32) = mask 8" by (simp add: mask_eq_exp_minus_1)
  show ?thesis unfolding m by (rule bit_word_eqI) (simp add: bit_simps)
qed

lemma ipv4_to_str_eq:
  "ipv4_to_str addr = octet_digits 3 (octet addr 0) 100 @ 0x2E # octet_digits 3 (octet addr 1) 100 @
     0x2E # octet_digits 3 (octet addr 2) 100 @ 0x2E # octet_digits 3 (octet addr 3) 100"
proof -
  have four: "ipv4_loop 4 = ipv4_loop (Suc (Suc (Suc (Suc 0))))" by (simp add: eval_nat_numeral)
  have sh: "(24 :: u8) - 8 = 16" "(16 :: u8) - 8 = 8" by simp_all
  show ?thesis unfolding ipv4_to_str_def four by (simp add: and_ff octet_def sh del: octet_digits.simps)
qed


lemma octet_be32: "octet (be32_of a b c d) 0 = a" "octet (be32_of a b c d) 1 = b" "octet (be32_of a b c d) 2 = c"
  "octet (be32_of a b c d) 3 = d"
  by (rule bit_word_eqI, auto simp: octet_def be32_of_def bit_simps dest: bit_imp_le_length)+

lemma be32_octets: "be32_of (octet addr 0) (octet addr 1) (octet addr 2) (octet addr 3) = addr"
  using be32_bytes_roundtrip [of addr] by (simp add: octet_def)

definition shown8 :: "u8 \<Rightarrow> u8" where "shown8 x = of_nat (shown (unat x))"

lemma shown_le: "shown (unat (x :: u8)) < 256"
proof -
  have "unat x div 100 * 10 + unat x mod 10 \<le> unat x" using decimal [of "unat x"] by linarith
  moreover have "unat x \<le> 255" using unat_u8_less [of x] by linarith
  ultimately show ?thesis by (auto simp: shown_def)
qed

lemma shown8_ucast: "(of_nat (shown (unat (x :: u8))) :: u32) = ucast (shown8 x)"
  using shown_le [of x] by (simp add: shown8_def word_unat_eq_iff unat_of_nat)

lemma shown8_iff: "shown8 x = x \<longleftrightarrow> unat x \<notin> {100..109} \<union> {200..209}"
proof -
  have "shown8 x = x \<longleftrightarrow> shown (unat x) = unat x"
    using shown_le [of x] by (simp add: shown8_def word_unat_eq_iff unat_of_nat)
  then show ?thesis using shown_iff [OF unat_u8_less] by simp
qed

lemma str_to_ipv4_shown:
  "str_to_ipv4 (ipv4_to_str a) addr =
     (0, be32_of (shown8 (octet a 0)) (shown8 (octet a 1)) (shown8 (octet a 2)) (shown8 (octet a 3)))"
proof -
  have mid: "parse_octet False 0 (octet_digits 3 x 100 @ 0x2E # rest) = Some (ucast (shown8 x), 0x2E # rest)" for x rest
    using octet_roundtrip [of False "0x2E # rest" x] by (simp add: separator_def shown8_ucast)
  have fin: "parse_octet True 0 (octet_digits 3 x 100) = Some (ucast (shown8 x), [])" for x
    using octet_roundtrip [of True "[]" x] by (simp add: separator_def shown8_ucast)
  have four: "str_to_ipv4_loop 4 = str_to_ipv4_loop (Suc (Suc (Suc (Suc 0))))" by (simp add: eval_nat_numeral)
  show ?thesis unfolding str_to_ipv4_def four ipv4_to_str_eq
    by (simp add: mid fin be32_of_def or.assoc del: parse_octet.simps octet_digits.simps)
qed

text \<open>C29. Printing an address and reading it back gives the address exactly when none of its octets is
  between 100 and 109 or between 200 and 209: \<open>ipv4_to_str\<close> drops the zero in the middle of such an
  octet, and the text is a different, valid address. The old value of the variable plays no part.\<close>

theorem ipv4_roundtrip:
  "str_to_ipv4 (ipv4_to_str a) addr = (0, a) \<longleftrightarrow>
     (\<forall>o8 \<in> {octet a 0, octet a 1, octet a 2, octet a 3}. unat o8 \<notin> {100..109} \<union> {200..209})"
proof -
  have "be32_of (shown8 (octet a 0)) (shown8 (octet a 1)) (shown8 (octet a 2)) (shown8 (octet a 3)) = a \<longleftrightarrow>
      (\<forall>o8 \<in> {octet a 0, octet a 1, octet a 2, octet a 3}. shown8 o8 = o8)" (is "?l = a \<longleftrightarrow> ?r")
  proof
    assume "?l = a"
    then show ?r using octet_be32 by (metis (no_types, lifting) insert_iff empty_iff)
  next
    assume ?r
    then show "?l = a" using be32_octets [of a] by simp
  qed
  then show ?thesis unfolding str_to_ipv4_shown by (simp add: shown8_iff)
qed

lemma ipv4_roundtrip_witness:
  "str_to_ipv4 (ipv4_to_str 0xC0A8010A) 0 = (0, 0xC0A8010A) \<and> str_to_ipv4 (ipv4_to_str 0x0A000069) 0 \<noteq> (0, 0x0A000069)"
  unfolding ipv4_roundtrip by (simp add: octet_def)

end
