(* ===== verification/Dhcp.thy ===== *)
theory Dhcp
  imports Net
begin

text \<open>
  The DHCP client of \<^verbatim>\<open>net/dhcp.c\<close>. Options are read from the bytes of a packet buffer, given from the
  start of the option field on; a read outside the buffer is a fault. The waiting loops of the thread
  take what the controller does between two polls as an argument.
\<close>

definition BOOTREPLY :: u8 where "BOOTREPLY = 2"
definition DHCP_MAGIC_COOKIE :: u32 where "DHCP_MAGIC_COOKIE = 0x63825363"
definition DHCP_OPT_SUBNET_MASK :: u8 where "DHCP_OPT_SUBNET_MASK = 1"
definition DHCP_OPT_ROUTER :: u8 where "DHCP_OPT_ROUTER = 3"
definition DHCP_DISCOVER :: u8 where "DHCP_DISCOVER = 1"
definition DHCP_OFFER :: u8 where "DHCP_OFFER = 2"
definition DHCP_REQUEST :: u8 where "DHCP_REQUEST = 3"
definition DHCP_ACK :: u8 where "DHCP_ACK = 5"
definition DHCP_NONE :: u8 where "DHCP_NONE = 9"

text \<open>The size of the header, and the offsets of the fields the client reads.\<close>

definition sizeof_dhcp_header :: u32 where "sizeof_dhcp_header = 236"
definition dhcp_xid :: nat where "dhcp_xid = 4"
definition dhcp_yiaddr :: nat where "dhcp_yiaddr = 16"
definition dhcp_chaddr :: nat where "dhcp_chaddr = 28"

subsection \<open>Options\<close>

definition option_end :: "u8 list" where "option_end = [0xFF]"
definition option_msg_type :: "u8 \<Rightarrow> u8 list" where "option_msg_type type = [53, 1, type]"
definition option_set_server_indentifier :: "u32 \<Rightarrow> u8 list" where "option_set_server_indentifier ip = [54, 4] @ be32_bytes ip"
definition option_set_req_ip :: "u32 \<Rightarrow> u8 list" where "option_set_req_ip ip = [50, 4] @ be32_bytes ip"

lemma option_len_decreases: "\<not> len < 2 \<Longrightarrow> \<not> len - 2 < ucast (l :: u8) \<Longrightarrow> unat (len - 2 - ucast l) + unat l + 2 = unat (len :: u32)"
  by (simp add: word_less_nat_alt unat_sub word_le_nat_alt)

function option_loop :: "u8 list \<Rightarrow> nat \<Rightarrow> u32 \<Rightarrow> u8 \<Rightarrow> (int \<times> nat) res" where
  "option_loop buf off len v =
     (if len < 2 then Inr (- ENOENT, 0)
      else res_bind (read_at buf off) (\<lambda>num.
        if num = 0xFF then Inr (- ENOENT, 0)
        else res_bind (read_at buf (off + 1)) (\<lambda>l.
          if len - 2 < ucast l then Inr (- ENOENT, 0)
          else if num = v then Inr (0, off)
          else option_loop buf (off + 2 + unat l) (len - 2 - ucast l) v)))"
  by pat_completeness auto

termination
  by (relation "measure (\<lambda>(buf, off, len, v). unat len)") (use option_len_decreases in force)+

declare option_loop.simps [simp del]

text \<open>The code and the offset of the option.\<close>

definition get_option_ptr :: "u8 list \<Rightarrow> u32 \<Rightarrow> u8 \<Rightarrow> (int \<times> nat) res" where
  "get_option_ptr buf opt_len v =
     (if opt_len < 4 then Inr (- ENOENT, 0)
      else res_bind (get_bytes buf 0 4) (\<lambda>bs.
        if be32_at bs 0 \<noteq> DHCP_MAGIC_COOKIE then Inr (- ENOENT, 0)
        else option_loop buf 4 (opt_len - 4) v))"

definition get_dhcp_type :: "u8 list \<Rightarrow> u32 \<Rightarrow> u8 res" where
  "get_dhcp_type buf opt_len =
     res_bind (get_option_ptr buf opt_len 53) (\<lambda>(err, off). if err \<noteq> 0 then Inr DHCP_NONE else read_at buf (off + 2))"

definition get_subnet_mask :: "u8 list \<Rightarrow> u32 \<Rightarrow> (int \<times> u32 option) res" where
  "get_subnet_mask buf opt_len =
     res_bind (get_option_ptr buf opt_len DHCP_OPT_SUBNET_MASK) (\<lambda>(err, off).
       if err \<noteq> 0 then Inr (err, None)
       else res_bind (get_bytes buf (off + 2) 4) (\<lambda>bs. Inr (0, Some (be32_at bs 0))))"

text \<open>The allocation of the list is taken to succeed.\<close>

definition get_gateway :: "u8 list \<Rightarrow> u32 \<Rightarrow> (int \<times> u32 list option) res" where
  "get_gateway buf opt_len =
     res_bind (get_option_ptr buf opt_len DHCP_OPT_ROUTER) (\<lambda>(err, off).
       if err \<noteq> 0 then Inr (err, None)
       else res_bind (read_at buf (off + 1)) (\<lambda>l.
         let cnt = unat (l div 4) in
         if cnt = 0 then Inr (- ENOENT, None)
         else res_bind (get_bytes buf (off + 2) (4 * cnt)) (\<lambda>bs. Inr (0, Some (map (\<lambda>i. be32_at bs (4 * i)) [0..<cnt])))))"

subsection \<open>Messages\<close>

text \<open>The bytes of a packet buffer behind the header.\<close>

definition option_field :: "nat \<Rightarrow> net \<Rightarrow> u8 list" where
  "option_field b s = drop (nb_ptr (nt_bufs s b) + unat sizeof_dhcp_header) (nb_buf (nt_bufs s b))"

definition handle_dhcp_offer :: "nat \<Rightarrow> net \<Rightarrow> ip_struct \<Rightarrow> ip_struct res" where
  "handle_dhcp_offer b s ip =
     res_bind (nb_read_be32 b dhcp_yiaddr s) (\<lambda>our.
     let ip1 = ip\<lparr>ip_our_ip := our\<rparr> in
     if frame_len b s \<le> sizeof_dhcp_header then Inr ip1
     else
       let opt_len = frame_len b s - sizeof_dhcp_header; opt = option_field b s in
       res_bind (get_subnet_mask opt opt_len) (\<lambda>(err, mask').
       let ip2 = (case mask' of None \<Rightarrow> ip1 | Some m \<Rightarrow> ip1\<lparr>ip_subnet_mask := m\<rparr>) in
       res_bind (get_gateway opt opt_len) (\<lambda>(err2, gs).
         Inr (case gs of None \<Rightarrow> ip2 | Some g \<Rightarrow> ip2\<lparr>ip_server_ip := g\<rparr>))))"

definition is_dhcp_reply_valid :: "nat \<Rightarrow> u32 \<Rightarrow> net \<Rightarrow> bool res" where
  "is_dhcp_reply_valid b tid s =
     (if frame_len b s \<le> sizeof_dhcp_header then Inr False
      else res_bind (nb_read b 0 8 s) (\<lambda>hdr.
        Inr (hdr ! 0 = BOOTREPLY \<and> hdr ! 1 = 1 \<and> hdr ! 2 = 6 \<and> be32_at hdr dhcp_xid = tid)))"

definition dhcp_parse_offer :: "nat \<Rightarrow> u32 \<Rightarrow> net \<Rightarrow> ip_struct \<Rightarrow> (int \<times> ip_struct) res" where
  "dhcp_parse_offer b tid s ip =
     res_bind (is_dhcp_reply_valid b tid s) (\<lambda>ok.
       if \<not> ok then Inr (- ENET, ip)
       else res_bind (get_dhcp_type (option_field b s) (frame_len b s - sizeof_dhcp_header)) (\<lambda>type.
         if type \<noteq> DHCP_OFFER then Inr (- ENET, ip)
         else res_bind (handle_dhcp_offer b s ip) (\<lambda>ip1. Inr (0, ip1))))"

definition dhcp_parse_ack :: "nat \<Rightarrow> u32 \<Rightarrow> net \<Rightarrow> int res" where
  "dhcp_parse_ack b tid s =
     res_bind (is_dhcp_reply_valid b tid s) (\<lambda>ok.
       if \<not> ok then Inr (- ENET)
       else res_bind (get_dhcp_type (option_field b s) (frame_len b s - sizeof_dhcp_header)) (\<lambda>type.
         Inr (if type \<noteq> DHCP_ACK then - ENET else 0)))"

definition dhcp_request_template :: "u32 \<Rightarrow> net \<Rightarrow> (nat \<times> net) res" where
  "dhcp_request_template tid s =
     res_bind (take_netbuf s) (\<lambda>(b, s1).
     res_bind (nb_store b 0 ([1, 1, 6, 0] @ be32_bytes tid @ be16_bytes 0 @ be16_bytes 0 @ be32_bytes 0 @ be32_bytes 0 @
         be32_bytes 0 @ be32_bytes 0 @ gmac_get_mac_addr @ replicate 10 0 @ replicate 64 0 @ replicate 128 0 @
         be32_bytes DHCP_MAGIC_COOKIE) s1) (\<lambda>s2. Inr (b, s2)))"

text \<open>The options behind the cookie, the length up to their end, and the broadcast.\<close>

definition dhcp_send :: "u32 \<Rightarrow> u8 list \<Rightarrow> net \<Rightarrow> net res" where
  "dhcp_send tid options s =
     res_bind (dhcp_request_template tid s) (\<lambda>(b, s1).
     res_bind (nb_store b 240 options s1) (\<lambda>s2.
       udp_send_from b 0xFFFFFFFF 0 68 67 True (set_frame_len b (of_nat (240 + length options)) s2)))"

definition dhcp_send_discover :: "u32 \<Rightarrow> net \<Rightarrow> net res" where
  "dhcp_send_discover tid s = dhcp_send tid (option_msg_type DHCP_DISCOVER @ option_end) s"

definition dhcp_send_request :: "u32 \<Rightarrow> u32 \<Rightarrow> u32 \<Rightarrow> net \<Rightarrow> net res" where
  "dhcp_send_request tid server_ip granted_ip s =
     dhcp_send tid (option_msg_type DHCP_REQUEST @ option_set_server_indentifier server_ip @
       option_set_req_ip granted_ip @ option_end) s"

subsection \<open>The client\<close>

partial_function (option) wait_offer :: "(net \<Rightarrow> net) \<Rightarrow> u32 \<Rightarrow> ip_struct \<Rightarrow> net \<Rightarrow> (ip_struct \<times> net) res option" where
  "wait_offer env tid ip s =
     (case udp_rec 68 (env s) of
        Inl e \<Rightarrow> Some (Inl e)
      | Inr (None, s1) \<Rightarrow> wait_offer env tid ip s1
      | Inr (Some b, s1) \<Rightarrow>
          (case dhcp_parse_offer b tid s1 ip of
             Inl e \<Rightarrow> Some (Inl e)
           | Inr (err, ip1) \<Rightarrow>
               if err = 0 then Some (Inr (ip1, free_netbuf b s1)) else wait_offer env tid ip1 (free_netbuf b s1)))"

partial_function (option) wait_ack :: "(net \<Rightarrow> net) \<Rightarrow> u32 \<Rightarrow> net \<Rightarrow> net res option" where
  "wait_ack env tid s =
     (case udp_rec 68 (env s) of
        Inl e \<Rightarrow> Some (Inl e)
      | Inr (None, s1) \<Rightarrow> wait_ack env tid s1
      | Inr (Some b, s1) \<Rightarrow>
          (case dhcp_parse_ack b tid s1 of
             Inl e \<Rightarrow> Some (Inl e)
           | Inr err \<Rightarrow> if err = 0 then Some (Inr (free_netbuf b s1)) else wait_ack env tid (free_netbuf b s1)))"

definition set_ip_struct :: "ip_struct \<Rightarrow> net \<Rightarrow> net" where
  "set_ip_struct ip s = s\<lparr>nt_ip := ip\<rparr>"

definition set_ip_addr :: "u32 \<Rightarrow> net \<Rightarrow> net" where
  "set_ip_addr ip s = s\<lparr>nt_ip := (nt_ip s)\<lparr>ip_our_ip := ip\<rparr>\<rparr>"

text \<open>
  The thread up to its sleep. The structure it fills is not initialised, so its initial contents are
  an argument.
\<close>

definition dhcp_thread :: "(net \<Rightarrow> net) \<Rightarrow> ip_struct \<Rightarrow> net \<Rightarrow> net res" where
  "dhcp_thread env ip s =
     (let tid = 0xC0DEBABE in
      res_bind (udp_listen 68 s) (\<lambda>s1.
      res_bind (dhcp_send_discover tid s1) (\<lambda>s2.
      res_bind (or_hang (wait_offer env tid ip s2)) (\<lambda>r. res_bind r (\<lambda>(ip1, s3).
      res_bind (assert_that (ip_server_ip ip1 \<noteq> [])) (\<lambda>_.
      res_bind (dhcp_send_request tid (hd (ip_server_ip ip1)) (ip_our_ip ip1) s3) (\<lambda>s4.
      res_bind (or_hang (wait_ack env tid s4)) (\<lambda>r2. res_bind r2 (\<lambda>s5.
        Inr (set_ip_struct ip1 s5))))))))))"


subsection \<open>The search for an option\<close>

text \<open>The options a field of bytes holds, by the format alone.\<close>

fun options :: "u8 list \<Rightarrow> (u8 \<times> u8 list) list" where
  "options (num # l # rest) =
     (if num = 0xFF \<or> length rest < unat l then [] else (num, take (unat l) rest) # options (drop (unat l) rest))"
| "options _ = []"

definition option_value :: "u8 \<Rightarrow> u8 list \<Rightarrow> u8 list option" where
  "option_value v bs = map_option snd (find (\<lambda>x. fst x = v) (options bs))"

text \<open>The answer of the search in \<open>buf\<close>: an option's data stand behind its number and its length.\<close>

definition found :: "u8 list \<Rightarrow> nat \<Rightarrow> u8 \<Rightarrow> u8 list option \<Rightarrow> int \<times> nat \<Rightarrow> bool" where
  "found buf end' v r res \<longleftrightarrow>
     (case r of None \<Rightarrow> fst res = - ENOENT
      | Some d \<Rightarrow> fst res = 0 \<and> snd res + 2 + length d \<le> end' \<and>
          slice (snd res) (2 + length d) buf = v # of_nat (length d) # d)"

lemma option_loop_found:
  "off + unat len \<le> length buf \<Longrightarrow>
   \<exists>res. option_loop buf off len v = Inr res \<and>
     found buf (off + unat len) v (option_value v (slice off (unat len) buf)) res"
proof (induction buf off len v rule: option_loop.induct)
  case (1 buf off len v)
  show ?case
  proof (cases "len < 2")
    case True
    then have "unat len < 2" by (simp add: word_less_nat_alt)
    then have "options (slice off (unat len) buf) = []"
      by (cases "slice off (unat len) buf" rule: options.cases) (auto simp: slice_def dest: arg_cong [of _ _ length])
    then show ?thesis using True by (simp add: option_loop.simps [of buf off len v] option_value_def found_def)
  next
    case False
    then have two: "2 \<le> unat len" by (simp add: word_less_nat_alt)
    define num l where d: "num = buf ! off" "l = buf ! (off + 1)"
    define rest where "rest = slice (off + 2) (unat len - 2) buf"
    have rd: "read_at buf off = Inr num" "read_at buf (off + 1) = Inr l"
      using 1(2) two by (simp_all add: read_at_def d)
    have sl: "slice off (unat len) buf = num # l # rest"
      using 1(2) two by (simp add: slice_def rest_def d Cons_nth_drop_Suc [symmetric] take_Cons' numeral_2_eq_2)
    have lr: "length rest = unat len - 2" using 1(2) two by (simp add: rest_def slice_def)
    have u2: "unat (len - 2) = unat len - 2" using two by (simp add: unat_sub word_le_nat_alt)
    have cmp: "len - 2 < ucast l \<longleftrightarrow> length rest < unat l" by (simp add: word_less_nat_alt u2 lr)
    note step = option_loop.simps [of buf off len v]
    consider (stop) "num = 0xFF \<or> len - 2 < ucast l" | (hit) "num \<noteq> 0xFF" "\<not> len - 2 < ucast l" "num = v"
      | (go) "num \<noteq> 0xFF" "\<not> len - 2 < ucast l" "num \<noteq> v" by blast
    then show ?thesis
    proof cases
      case stop
      then show ?thesis using False rd sl cmp by (auto simp: step option_value_def found_def)
    next
      case hit
      have le: "unat l \<le> length rest" using hit(2) cmp by simp
      have "slice off (2 + unat l) buf = num # l # take (unat l) rest"
      proof -
        have "slice off (2 + unat l) buf = take (2 + unat l) (slice off (unat len) buf)"
          using le lr two by (simp add: slice_def min_def)
        then show ?thesis unfolding sl by simp
      qed
      moreover have "option_value v (slice off (unat len) buf) = Some (take (unat l) rest)"
        using hit le unfolding sl option_value_def by simp
      moreover have "option_loop buf off len v = Inr (0, off)" using hit False rd by (simp add: step)
      ultimately show ?thesis using hit(3) le lr two by (simp add: found_def)
    next
      case go
      have le: "unat l \<le> length rest" using go(2) cmp by simp
      note dec = option_len_decreases [OF False go(2)]
      have lt: "off + 2 + unat l + unat (len - 2 - ucast l) \<le> length buf" using dec 1(2) by linarith
      obtain res where res: "option_loop buf (off + 2 + unat l) (len - 2 - ucast l) v = Inr res"
        "found buf (off + 2 + unat l + unat (len - 2 - ucast l)) v
           (option_value v (slice (off + 2 + unat l) (unat (len - 2 - ucast l)) buf)) res"
        using 1(1) [OF False rd(1) go(1) rd(2) go(2,3) lt] by blast
      have e1: "slice (off + 2 + unat l) (unat (len - 2 - ucast l)) buf = drop (unat l) rest"
      proof -
        have e: "unat (len - 2 - ucast l) = unat len - 2 - unat l" using dec by linarith
        show ?thesis unfolding e by (simp add: slice_def rest_def drop_take ac_simps)
      qed
      have e2: "off + 2 + unat l + unat (len - 2 - ucast l) = off + unat len" using dec by linarith
      have "option_value v (num # l # rest) = option_value v (drop (unat l) rest)"
        using go(1,3) le by (simp add: option_value_def)
      moreover have "option_loop buf off len v = option_loop buf (off + 2 + unat l) (len - 2 - ucast l) v"
        using go False rd by (simp add: step)
      moreover have "found buf (off + unat len) v (option_value v (drop (unat l) rest)) res"
        using res(2) unfolding e1 e2 .
      ultimately show ?thesis using res(1) unfolding sl by auto
    qed
  qed
qed




text \<open>
  The reader of the subnet mask does not look at the length of its option: with an empty one at the
  end of the field it takes the four bytes behind the field.
\<close>

lemma subnet_mask_beyond:
  assumes "unat opt_len \<le> length buf" and "get_option_ptr buf opt_len DHCP_OPT_SUBNET_MASK = Inr (0, off)"
    and "off + 2 = unat opt_len" and "unat opt_len + 4 \<le> length buf"
  shows "get_subnet_mask buf opt_len = Inr (0, Some (be32_at (slice (unat opt_len) 4 buf) 0))"
  using assms by (simp add: get_subnet_mask_def get_bytes_def)

end
