(* ===== verification/Regmap.thy ===== *)
theory Regmap
  imports Prelude
begin

text \<open>
  The register map of \<^verbatim>\<open>include/citrus/regmap.h\<close>: every block of registers as the list of its members, in the
  order of the C structure, and the base addresses. A member is a register of a number of bytes, with a
  repetition count, or a repeated sub-structure. Drivers name a register by its block and its member;
  its address is computed here.
\<close>

datatype regfield =
    Reg string nat nat
  | Blk string "regfield list" nat

primrec field_size :: "regfield \<Rightarrow> nat" where
  "field_size (Reg n w c) = w * c"
| "field_size (Blk n fs c) = c * sum_list (map field_size fs)"

definition fields_size :: "regfield list \<Rightarrow> nat" where
  "fields_size fs = sum_list (map field_size fs)"

primrec field_name :: "regfield \<Rightarrow> string" where
  "field_name (Reg n w c) = n"
| "field_name (Blk n fs c) = n"

text \<open>The offset of a member, without any padding.\<close>

fun reg_offset :: "regfield list \<Rightarrow> string \<Rightarrow> nat" where
  "reg_offset [] n = 0"
| "reg_offset (f # fs) n = (if field_name f = n then 0 else field_size f + reg_offset fs n)"

definition reg_addr :: "u32 \<Rightarrow> regfield list \<Rightarrow> string \<Rightarrow> u32" where
  "reg_addr base fs n = base + of_nat (reg_offset fs n)"

text \<open>The compiler inserts padding where a member is not at a multiple of its alignment.\<close>

primrec field_align :: "regfield \<Rightarrow> nat" where
  "field_align (Reg n w c) = w"
| "field_align (Blk n fs c) = foldr max (map field_align fs) 1"

fun no_padding :: "nat \<Rightarrow> regfield list \<Rightarrow> bool" where
  "no_padding off [] \<longleftrightarrow> True"
| "no_padding off (f # fs) \<longleftrightarrow> off mod field_align f = 0 \<and> no_padding (off + field_size f) fs"

subsection \<open>The blocks\<close>

definition wdt_reg :: "regfield list" where
  "wdt_reg =
    [Reg ''CR'' 4 1, Reg ''MR'' 4 1, Reg ''SR'' 4 1]"

definition gpio_reg :: "regfield list" where
  "gpio_reg =
    [Reg ''MSKR'' 4 1, Reg ''CFGR'' 4 1, Reg ''PDSR'' 4 1, Reg ''LOCKSR'' 4 1, Reg ''SODR'' 4 1,
     Reg ''CODR'' 4 1, Reg ''ODSR'' 4 1, Reg ''RESERVED1'' 4 1, Reg ''IER'' 4 1, Reg ''IDR'' 4 1,
     Reg ''IMR'' 4 1, Reg ''ISR'' 4 1, Reg ''RESERVED2'' 4 3, Reg ''IOFR'' 4 1]"

definition uart_reg :: "regfield list" where
  "uart_reg =
    [Reg ''CR'' 4 1, Reg ''MR'' 4 1, Reg ''IER'' 4 1, Reg ''IDR'' 4 1, Reg ''IMR'' 4 1, Reg ''SR'' 4 1,
     Reg ''RHR'' 4 1, Reg ''THR'' 4 1, Reg ''BRGR'' 4 1, Reg ''CMPR'' 4 1, Reg ''RTOR'' 4 1,
     Reg ''RESERVED'' 4 46, Reg ''WPMR'' 4 1]"

definition pmc_reg :: "regfield list" where
  "pmc_reg =
    [Reg ''SCER'' 4 1, Reg ''SCDR'' 4 1, Reg ''SCSR'' 4 1, Reg ''RESERVED1'' 4 1, Reg ''PCER0'' 4 1,
     Reg ''PCDR0'' 4 1, Reg ''PCSR0'' 4 1, Reg ''UCKR'' 4 1, Reg ''MOR'' 4 1, Reg ''MCFR'' 4 1,
     Reg ''PLLAR'' 4 1, Reg ''RESERVED2'' 4 1, Reg ''MCKR'' 4 1, Reg ''RESERVED3'' 4 1,
     Reg ''USB'' 4 1, Reg ''RESERVED4'' 4 1, Reg ''PCK0'' 4 1, Reg ''PCK1'' 4 1, Reg ''PCK2'' 4 1,
     Reg ''RESERVED5'' 4 5, Reg ''IER'' 4 1, Reg ''IDR'' 4 1, Reg ''SR'' 4 1, Reg ''IMR'' 4 1,
     Reg ''FSMR'' 4 1, Reg ''FSPR'' 4 1, Reg ''FOCR'' 4 1, Reg ''RESERVED6'' 4 1, Reg ''PLLICPR'' 4 1,
     Reg ''RESERVED7'' 4 24, Reg ''WPMR'' 4 1, Reg ''WPSR'' 4 1, Reg ''RESERVED8'' 4 5,
     Reg ''PCER1'' 4 1, Reg ''PCDR1'' 4 1, Reg ''PCSR1'' 4 1, Reg ''PCR'' 4 1, Reg ''OCR'' 4 1,
     Reg ''SLPWK_ER0'' 4 1, Reg ''SLPWK_DR0'' 4 1, Reg ''SLPWK_SR0'' 4 1, Reg ''SLPWK_ASR0'' 4 1,
     Reg ''RESERVED9'' 4 4, Reg ''SLPWK_ER1'' 4 1, Reg ''SLPWK_DR1'' 4 1, Reg ''SLPWK_SR1'' 4 1,
     Reg ''SLPWK_ASR1'' 4 1, Reg ''SLPWK_AIPR'' 4 1, Reg ''SLPWKCR'' 4 1, Reg ''AUDIO_PLL0'' 4 1,
     Reg ''AUDIO_PLL1'' 4 1]"

definition pit_reg :: "regfield list" where
  "pit_reg =
    [Reg ''MR'' 4 1, Reg ''SR'' 4 1, Reg ''PIVR'' 4 1, Reg ''PIIR'' 4 1]"

definition apic_reg :: "regfield list" where
  "apic_reg =
    [Reg ''SSR'' 4 1, Reg ''SMR'' 4 1, Reg ''SVR'' 4 1, Reg ''RESERVED0'' 4 1, Reg ''IVR'' 4 1,
     Reg ''FVR'' 4 1, Reg ''ISR'' 4 1, Reg ''RESERVED1'' 4 1, Reg ''IPR0'' 4 1, Reg ''IPR1'' 4 1,
     Reg ''IPR2'' 4 1, Reg ''IPR3'' 4 1, Reg ''IMR'' 4 1, Reg ''CISR'' 4 1, Reg ''EOICR'' 4 1,
     Reg ''SPU'' 4 1, Reg ''IECR'' 4 1, Reg ''IDCR'' 4 1, Reg ''ICCR'' 4 1, Reg ''ISCR'' 4 1,
     Reg ''RESERVED2'' 4 7, Reg ''DCR'' 4 1, Reg ''RESERVED3'' 4 29, Reg ''WPMR'' 4 1, Reg ''WPSR'' 4 1]"

definition mmc_reg :: "regfield list" where
  "mmc_reg =
    [Reg ''SSAR'' 4 1, Reg ''BSR'' 2 1, Reg ''BCR'' 2 1, Reg ''ARG1R'' 4 1, Reg ''TMR'' 2 1,
     Reg ''CR'' 2 1, Reg ''RR'' 4 4, Reg ''BDPR'' 4 1, Reg ''PSR'' 4 1, Reg ''HC1R'' 1 1,
     Reg ''PCR'' 1 1, Reg ''BGCR'' 1 1, Reg ''WCR'' 1 1, Reg ''CCR'' 2 1, Reg ''TCR'' 1 1,
     Reg ''SRR'' 1 1, Reg ''NISTR'' 2 1, Reg ''EISTR'' 2 1, Reg ''NISTER'' 2 1, Reg ''EISTER'' 2 1,
     Reg ''NISIER'' 2 1, Reg ''EISIER'' 2 1, Reg ''ACESR'' 2 1, Reg ''HC2R'' 2 1, Reg ''CA0R'' 4 1,
     Reg ''CA1R'' 4 1, Reg ''MCCAR'' 4 1, Reg ''RESERVED0'' 2 1, Reg ''FERACES'' 2 1,
     Reg ''FEREIS'' 4 1, Reg ''AESR'' 1 1, Reg ''RESERVED1'' 1 3, Reg ''ASAR'' 4 1,
     Reg ''RESERVED2'' 4 1, Reg ''PVR'' 2 8, Reg ''RESERVED3'' 4 35, Reg ''SISR'' 2 1,
     Reg ''HCVR'' 2 1, Reg ''RESERVED4'' 4 64, Reg ''APSR'' 4 1, Reg ''MC1R'' 1 1, Reg ''MC2R'' 1 1,
     Reg ''RESERVED5'' 2 1, Reg ''ACR'' 4 1, Reg ''CC2R'' 4 1, Reg ''RTC1R'' 1 1, Reg ''RTC2R'' 1 1,
     Reg ''RESERVED6'' 2 1, Reg ''RTCVR'' 4 1, Reg ''RTISTER'' 1 1, Reg ''RTISIER'' 1 1,
     Reg ''RESERVED7'' 2 1, Reg ''RTISTR'' 1 1, Reg ''RTSSR'' 1 1, Reg ''RESERVED8'' 2 1,
     Reg ''TUNCR'' 4 1, Reg ''RESERVED9'' 4 3, Reg ''CACR'' 4 1, Reg ''RESERVED10'' 4 3,
     Reg ''CALCR'' 4 1]"

definition ddr_reg :: "regfield list" where
  "ddr_reg =
    [Reg ''MR'' 4 1, Reg ''RTR'' 4 1, Reg ''CR'' 4 1, Reg ''TPR0'' 4 1, Reg ''TPR1'' 4 1,
     Reg ''TPR2'' 4 1, Reg ''RESERVED0'' 4 1, Reg ''LPR'' 4 1, Reg ''MD'' 4 1, Reg ''RESERVED1'' 4 1,
     Reg ''LPDDR2_LPDDR3_LPR'' 4 1, Reg ''LPDDR2_LPDDR3_DDR3_MR4'' 4 1,
     Reg ''LPDDR2_LPDDR3_DDR3_CAL'' 4 1, Reg ''IO_CALIBR'' 4 1, Reg ''OCMS'' 4 1,
     Reg ''OCMS_KEY1'' 4 1, Reg ''OCMS_KEY2'' 4 1, Reg ''CONF_ARBITER'' 4 1, Reg ''TIMEOUT'' 4 1,
     Reg ''REQ_PORT_0123'' 4 1, Reg ''REQ_PORT_4567'' 4 1, Reg ''BDW_PORT_0123'' 4 1,
     Reg ''BDW_PORT_4567'' 4 1, Reg ''RD_DATA_PATH'' 4 1, Reg ''MCFGR'' 4 1, Reg ''MADDR'' 4 8,
     Reg ''MINFO'' 4 8, Reg ''RESERVED2'' 4 16, Reg ''WPMR'' 4 1, Reg ''WPSR'' 4 1]"

definition matrix_pri :: "regfield list" where
  "matrix_pri =
    [Reg ''A'' 4 1, Reg ''B'' 4 1]"

definition matrix_reg :: "regfield list" where
  "matrix_reg =
    [Reg ''MCFG'' 4 12, Reg ''RESERVED0'' 4 4, Reg ''SCFG'' 4 15, Reg ''RESERVED1'' 4 1,
     Blk ''PRI'' matrix_pri 15, Reg ''RESERVED2'' 4 21, Reg ''MEIER'' 4 1, Reg ''MEIDR'' 4 1,
     Reg ''MEIMR'' 4 1, Reg ''MESR'' 4 1, Reg ''MEAR'' 4 12, Reg ''RESERVED3'' 4 21, Reg ''WPMR'' 4 1,
     Reg ''WPSR'' 4 1, Reg ''RESERVED4'' 4 5, Reg ''SSR'' 4 15, Reg ''RESERVED5'' 4 1,
     Reg ''SASSR'' 4 15, Reg ''RESERVED6'' 4 2, Reg ''SRTSR'' 4 15, Reg ''RESERVED7'' 4 1,
     Reg ''SPSELR1'' 4 1, Reg ''SPSELR2'' 4 1, Reg ''SPSELR3'' 4 1]"

definition sfr_reg :: "regfield list" where
  "sfr_reg =
    [Reg ''RESERVED0'' 4 1, Reg ''DDRCFG'' 4 1, Reg ''RESERVED1'' 4 2, Reg ''OHCIICR'' 4 1,
     Reg ''OHCIISR'' 4 1, Reg ''RESERVED2'' 4 4, Reg ''SECURE'' 4 1, Reg ''RESERVED3'' 4 1,
     Reg ''UTMICKTRIM'' 4 1, Reg ''UTMIHSTRIM'' 4 1, Reg ''UTMIFSTRIM'' 4 1, Reg ''UTMISWAP'' 4 1,
     Reg ''RESERVED4'' 4 2, Reg ''CAN'' 4 1, Reg ''SN0'' 4 1, Reg ''SN1'' 4 1, Reg ''AICREDIR'' 4 1,
     Reg ''L2CC_HRAMC'' 4 1, Reg ''RESERVED5'' 4 13, Reg ''I2SCLKSEL'' 4 1, Reg ''QSPICLK'' 4 1]"

definition reset_reg :: "regfield list" where
  "reset_reg =
    [Reg ''CR'' 4 1, Reg ''SR'' 4 1, Reg ''MR'' 4 1]"

definition l2cache_reg :: "regfield list" where
  "l2cache_reg =
    [Reg ''IDR'' 4 1, Reg ''TYPR'' 4 1, Reg ''RESERVED1'' 4 62, Reg ''CR'' 4 1, Reg ''ACR'' 4 1,
     Reg ''TRCR'' 4 1, Reg ''DRCR'' 4 1, Reg ''RESERVED2'' 4 60, Reg ''ECR'' 4 1, Reg ''ECFGR1'' 4 1,
     Reg ''ECFGR0'' 4 1, Reg ''EVR1'' 4 1, Reg ''EVR0'' 4 1, Reg ''IMR'' 4 1, Reg ''MISR'' 4 1,
     Reg ''RISR'' 4 1, Reg ''ICR'' 4 1, Reg ''RESERVED3'' 4 323, Reg ''CSR'' 4 1,
     Reg ''RESERVED4'' 4 15, Reg ''IPALR'' 4 1, Reg ''RESERVED5'' 4 2, Reg ''IWR'' 4 1,
     Reg ''RESERVED6'' 4 12, Reg ''CPALR'' 4 1, Reg ''RESERVED7'' 4 1, Reg ''CIR'' 4 1,
     Reg ''CWR'' 4 1, Reg ''RESERVED8'' 4 12, Reg ''CIPALR'' 4 1, Reg ''RESERVED'' 4 1,
     Reg ''CIIR'' 4 1, Reg ''CIWR'' 4 1, Reg ''RESERVED9'' 4 64, Reg ''DLKR'' 4 1, Reg ''ILKR'' 4 1,
     Reg ''RESERVED10'' 4 398, Reg ''DCR'' 4 1, Reg ''RESERVED11'' 4 7, Reg ''PCR'' 4 1,
     Reg ''RESERVED12'' 4 7, Reg ''POWCR'' 4 1]"

definition trng_reg :: "regfield list" where
  "trng_reg =
    [Reg ''CR'' 4 1, Reg ''RESERVED0'' 4 3, Reg ''IER'' 4 1, Reg ''IDR'' 4 1, Reg ''IMR'' 4 1,
     Reg ''ISR'' 4 1, Reg ''RESERVED1'' 4 12, Reg ''ODATA'' 4 1]"

definition timer_channel_reg :: "regfield list" where
  "timer_channel_reg =
    [Reg ''CCR'' 4 1, Reg ''CMR'' 4 1, Reg ''SMMR'' 4 1, Reg ''RAB'' 4 1, Reg ''CV'' 4 1,
     Reg ''RA'' 4 1, Reg ''RB'' 4 1, Reg ''RC'' 4 1, Reg ''SR'' 4 1, Reg ''IER'' 4 1, Reg ''IDR'' 4 1,
     Reg ''IMR'' 4 1, Reg ''EEMR'' 4 1, Reg ''RESERVED'' 4 3]"

definition timer_reg :: "regfield list" where
  "timer_reg =
    [Blk ''channel'' timer_channel_reg 3, Reg ''BCR'' 4 1, Reg ''BMR'' 4 1, Reg ''QIER'' 4 1,
     Reg ''QIDR'' 4 1, Reg ''QIMR'' 4 1, Reg ''QISR'' 4 1, Reg ''FMR'' 4 1, Reg ''RESERVED'' 4 2,
     Reg ''WPMR'' 4 1]"

definition dma_reg :: "regfield list" where
  "dma_reg =
    [Reg ''GTYPE'' 4 1, Reg ''GCFG'' 4 1, Reg ''GWAC'' 4 1, Reg ''GIE'' 4 1, Reg ''GID'' 4 1,
     Reg ''GIM'' 4 1, Reg ''GIS'' 4 1, Reg ''GE'' 4 1, Reg ''GD'' 4 1, Reg ''GS'' 4 1, Reg ''GRS'' 4 1,
     Reg ''GWS'' 4 1, Reg ''GRWS'' 4 1, Reg ''GRWR'' 4 1, Reg ''GSWR'' 4 1, Reg ''GSWS'' 4 1,
     Reg ''GSWF'' 4 1, Reg ''RESERVED0'' 4 3,
     Blk ''channel'' [Reg ''CIE'' 4 1, Reg ''CID'' 4 1, Reg ''CIM'' 4 1, Reg ''CIS'' 4 1, Reg ''CSA'' 4 1,
          Reg ''CDA'' 4 1, Reg ''CNDA'' 4 1, Reg ''CNDC'' 4 1, Reg ''CUBC'' 4 1, Reg ''CBC'' 4 1,
          Reg ''CC'' 4 1, Reg ''CDS_MSP'' 4 1, Reg ''CSUS'' 4 1, Reg ''CDUS'' 4 1, Reg ''RESERVED1'' 4 2] 16]"

definition spi_reg :: "regfield list" where
  "spi_reg =
    [Reg ''CR'' 4 1, Reg ''MR'' 4 1, Reg ''RDR'' 4 1, Reg ''TDR'' 4 1, Reg ''SR'' 4 1, Reg ''IER'' 4 1,
     Reg ''IDR'' 4 1, Reg ''IMR'' 4 1, Reg ''RESERVED0'' 4 4, Blk ''chip_select'' [Reg ''CSR'' 4 1] 4,
     Reg ''FMR'' 4 1, Reg ''FLR'' 4 1, Reg ''CMPR'' 4 1, Reg ''RESERVED1'' 4 38, Reg ''WPMR'' 4 1,
     Reg ''WPSR'' 4 1]"

definition flexcom_reg :: "regfield list" where
  "flexcom_reg =
    [Reg ''FLEX_MR'' 4 1, Reg ''RESERVED0'' 4 3, Reg ''FLEX_RHR'' 4 1, Reg ''RESERVED1'' 4 3,
     Reg ''FLEX_THR'' 4 1, Reg ''RESERVED2'' 4 119, Reg ''U_CR'' 4 1, Reg ''U_MR'' 4 1,
     Reg ''U_IER'' 4 1, Reg ''U_IDR'' 4 1, Reg ''U_IMR'' 4 1, Reg ''U_SR'' 4 1, Reg ''U_RHR'' 4 1,
     Reg ''U_THR'' 4 1, Reg ''U_BRGR'' 4 1, Reg ''U_RTOR'' 4 1, Reg ''U_TTGR'' 4 1]"

definition lcd_ctrl :: "regfield list" where
  "lcd_ctrl =
    [Reg ''CHER'' 4 1, Reg ''CHDR'' 4 1, Reg ''CHSR'' 4 1, Reg ''IER'' 4 1, Reg ''IDR'' 4 1,
     Reg ''IMR'' 4 1, Reg ''ISR'' 4 1]"

definition lcd_dma :: "regfield list" where
  "lcd_dma =
    [Reg ''HEAD'' 4 1, Reg ''ADDR'' 4 1, Reg ''CTRL'' 4 1, Reg ''NEXT'' 4 1]"

definition lcd_reg :: "regfield list" where
  "lcd_reg =
    [Reg ''LCDCFG0'' 4 1, Reg ''LCDCFG1'' 4 1, Reg ''LCDCFG2'' 4 1, Reg ''LCDCFG3'' 4 1,
     Reg ''LCDCFG4'' 4 1, Reg ''LCDCFG5'' 4 1, Reg ''LCDCFG6'' 4 1, Reg ''RESERVED0'' 4 1,
     Reg ''LCDEN'' 4 1, Reg ''LCDDIS'' 4 1, Reg ''LCDSR'' 4 1, Reg ''LCDIER'' 4 1, Reg ''LCDIDR'' 4 1,
     Reg ''LCDIMR'' 4 1, Reg ''LCDISR'' 4 1, Reg ''ATTR'' 4 1, Blk ''base_ctrl'' lcd_ctrl 1,
     Blk ''base_dma'' lcd_dma 1, Reg ''BASECFG'' 4 7, Reg ''RESERVED1'' 4 46,
     Blk ''ov1_ctrl'' lcd_ctrl 1, Blk ''ov1_dma'' lcd_dma 1, Reg ''OV1CFG'' 4 10,
     Reg ''RESERVED2'' 4 43, Blk ''ov2_ctrl'' lcd_ctrl 1, Blk ''ov2_dma'' lcd_dma 1,
     Reg ''OV2CFG'' 4 10, Reg ''RESERVED3'' 4 43, Blk ''heo_ctrl'' lcd_ctrl 1,
     Blk ''heo_dma'' lcd_dma 1, Blk ''heo_udma'' lcd_dma 1, Blk ''heo_vdma'' lcd_dma 1,
     Reg ''HEOCFG'' 4 42, Reg ''RESERVED4'' 4 67, Blk ''pp_ctrl'' lcd_ctrl 1, Blk ''pp_dma'' lcd_dma 1,
     Reg ''PPCFG'' 4 6, Reg ''RESERVED5'' 4 31, Reg ''BASECLUT'' 4 256, Reg ''OV1CLUT'' 4 256,
     Reg ''OV2CLUT'' 4 256, Reg ''HEOCLUT'' 4 256]"

definition gmac_reg :: "regfield list" where
  "gmac_reg =
    [Reg ''NCR'' 4 1, Reg ''NCFGR'' 4 1, Reg ''NSR'' 4 1, Reg ''UR'' 4 1, Reg ''DCFGR'' 4 1,
     Reg ''TSR'' 4 1, Reg ''RBQB'' 4 1, Reg ''TBQB'' 4 1, Reg ''RSR'' 4 1, Reg ''ISR'' 4 1,
     Reg ''IER'' 4 1, Reg ''IDR'' 4 1, Reg ''IMR'' 4 1, Reg ''MAN'' 4 1, Reg ''RPQ'' 4 1,
     Reg ''TPQ'' 4 1, Reg ''TPSF'' 4 1, Reg ''RPSF'' 4 1, Reg ''RJFML'' 4 1, Reg ''RESERVED0'' 4 13,
     Reg ''HRB'' 4 1, Reg ''HRT'' 4 1, Blk ''SA'' [Reg ''BTM'' 4 1, Reg ''TOP'' 4 1] 4,
     Reg ''TIDM'' 4 4, Reg ''WOL'' 4 1, Reg ''IPGS'' 4 1, Reg ''SVLAN'' 4 1, Reg ''TPFCP'' 4 1,
     Reg ''SAMB1'' 4 1, Reg ''SAMT1'' 4 1, Reg ''RESERVED1'' 4 3, Reg ''NSC'' 4 1, Reg ''SCL'' 4 1,
     Reg ''SCH'' 4 1, Reg ''EFTSH'' 4 1, Reg ''EFRSH'' 4 1, Reg ''PEFTSH'' 4 1, Reg ''PEFRSH'' 4 1,
     Reg ''RESERVED2'' 4 2, Reg ''OTLO'' 4 1, Reg ''OTHI'' 4 1, Reg ''FT'' 4 1, Reg ''BCFT'' 4 1,
     Reg ''MFT'' 4 1, Reg ''PFT'' 4 1, Reg ''BFT64'' 4 1, Reg ''TBFT127'' 4 1, Reg ''TBFT255'' 4 1,
     Reg ''TBFT511'' 4 1, Reg ''TBFT1023'' 4 1, Reg ''TBFT1518'' 4 1, Reg ''GTBFT1518'' 4 1,
     Reg ''TUR'' 4 1, Reg ''SCF'' 4 1, Reg ''MCF'' 4 1, Reg ''EC'' 4 1, Reg ''LC'' 4 1,
     Reg ''DTF'' 4 1, Reg ''CSE'' 4 1, Reg ''ORLO'' 4 1, Reg ''ORHI'' 4 1, Reg ''FR'' 4 1,
     Reg ''BCFR'' 4 1, Reg ''MFR'' 4 1, Reg ''PFR'' 4 1, Reg ''BFR64'' 4 1, Reg ''TBFR127'' 4 1,
     Reg ''TBFR255'' 4 1, Reg ''TBFR511'' 4 1, Reg ''TBFR1023'' 4 1, Reg ''TBFR1518'' 4 1,
     Reg ''TMXBFR'' 4 1, Reg ''UFR'' 4 1, Reg ''OFR'' 4 1, Reg ''JR'' 4 1, Reg ''FCSE'' 4 1,
     Reg ''LFFE'' 4 1, Reg ''RSE'' 4 1, Reg ''AE'' 4 1, Reg ''RRE'' 4 1, Reg ''ROE'' 4 1,
     Reg ''IHCE'' 4 1, Reg ''TCE'' 4 1, Reg ''UCE'' 4 1, Reg ''RESERVED3'' 4 2, Reg ''TISUBN'' 4 1,
     Reg ''TSH'' 4 1, Reg ''RESERVED4'' 4 3, Reg ''TSL'' 4 1, Reg ''TN'' 4 1, Reg ''TA'' 4 1,
     Reg ''TI'' 4 1, Reg ''EFTSL'' 4 1, Reg ''EFTN'' 4 1, Reg ''EFRSL'' 4 1, Reg ''EFRN'' 4 1,
     Reg ''PEFTSL'' 4 1, Reg ''PEFTN'' 4 1, Reg ''PEFRSL'' 4 1, Reg ''PEFRN'' 4 1,
     Reg ''RESERVED5'' 4 28, Reg ''RXLPI'' 4 1, Reg ''RXLPITIME'' 4 1, Reg ''TXLPI'' 4 1,
     Reg ''TXLPITIME'' 4 1, Reg ''RESERVED6'' 4 95, Reg ''ISRPQ'' 4 2, Reg ''RESERVED7'' 4 14,
     Reg ''TBQBAPQ'' 4 2, Reg ''RESERVE8'' 4 14, Reg ''RBQBAPQ'' 4 2, Reg ''RESERVED9'' 4 6,
     Reg ''RBSRPQ'' 4 2, Reg ''RESERVED10'' 4 5, Reg ''CBSCR'' 4 1, Reg ''CBSISQA'' 4 1,
     Reg ''CBSISQB'' 4 1, Reg ''RESERVED17'' 4 14, Reg ''ST1RPQ'' 4 4, Reg ''RESERVED11'' 4 12,
     Reg ''ST2RPQ'' 4 8, Reg ''RESERVED12'' 4 40, Reg ''IERPQ'' 4 2, Reg ''RESERVED13'' 4 6,
     Reg ''IDRPQ'' 4 2, Reg ''RESERVED14'' 4 6, Reg ''IMRPQ'' 4 2, Reg ''RESERVED15'' 4 38,
     Reg ''ST2ER'' 4 4, Reg ''RESERVED16'' 4 4, Blk ''ST2'' [Reg ''CW0'' 4 1, Reg ''CW1'' 4 1] 24]"

subsection \<open>The base addresses\<close>

definition WDT_base :: u32 where "WDT_base = 0xF8048040"
definition GPIOA_base :: u32 where "GPIOA_base = 0xFC038000"
definition GPIOB_base :: u32 where "GPIOB_base = 0xFC038040"
definition GPIOC_base :: u32 where "GPIOC_base = 0xFC038080"
definition GPIOD_base :: u32 where "GPIOD_base = 0xFC0380C0"
definition UART0_base :: u32 where "UART0_base = 0xF801C000"
definition UART1_base :: u32 where "UART1_base = 0xF8020000"
definition UART2_base :: u32 where "UART2_base = 0xF8024000"
definition UART3_base :: u32 where "UART3_base = 0xFC008000"
definition UART4_base :: u32 where "UART4_base = 0xFC00C000"
definition PMC_base :: u32 where "PMC_base = 0xF0014000"
definition PIT_base :: u32 where "PIT_base = 0xF8048030"
definition APIC_base :: u32 where "APIC_base = 0xFC020000"
definition SAPIC_base :: u32 where "SAPIC_base = 0xF803C000"
definition MMC0_base :: u32 where "MMC0_base = 0xA0000000"
definition MMC1_base :: u32 where "MMC1_base = 0xB0000000"
definition DDR_base :: u32 where "DDR_base = 0xF000C000"
definition H32MX_base :: u32 where "H32MX_base = 0xFC03C000"
definition H64MX_base :: u32 where "H64MX_base = 0xF0018000"
definition SFR_base :: u32 where "SFR_base = 0xF8030000"
definition RST_base :: u32 where "RST_base = 0xF8048000"
definition L2CAHCE_base :: u32 where "L2CAHCE_base = 0x00A00000"
definition TRNG_base :: u32 where "TRNG_base = 0xFC01C000"
definition TIMER0_base :: u32 where "TIMER0_base = 0xF800C000"
definition TIMER1_base :: u32 where "TIMER1_base = 0xF8010000"
definition DMA0_base :: u32 where "DMA0_base = 0xF0010000"
definition DMA1_base :: u32 where "DMA1_base = 0xF0004000"
definition SPI0_base :: u32 where "SPI0_base = 0xF8000000"
definition SPI1_base :: u32 where "SPI1_base = 0xFC000000"
definition FLEX0_base :: u32 where "FLEX0_base = 0xF8034000"
definition FLEX1_base :: u32 where "FLEX1_base = 0xF8038000"
definition FLEX2_base :: u32 where "FLEX2_base = 0xFC010000"
definition FLEX3_base :: u32 where "FLEX3_base = 0xFC014000"
definition FLEX4_base :: u32 where "FLEX4_base = 0xFC018000"
definition LCD_base :: u32 where "LCD_base = 0xF0000000"
definition GMAC_base :: u32 where "GMAC_base = 0xF8008000"

text \<open>All blocks in the order of their addresses.\<close>

definition regmap :: "(u32 \<times> regfield list) list" where
  "regmap =
    [(L2CAHCE_base, l2cache_reg), (MMC0_base, mmc_reg), (MMC1_base, mmc_reg), (LCD_base, lcd_reg),
     (DMA1_base, dma_reg), (DDR_base, ddr_reg), (DMA0_base, dma_reg), (PMC_base, pmc_reg),
     (H64MX_base, matrix_reg), (SPI0_base, spi_reg), (GMAC_base, gmac_reg), (TIMER0_base, timer_reg),
     (TIMER1_base, timer_reg), (UART0_base, uart_reg), (UART1_base, uart_reg), (UART2_base, uart_reg),
     (SFR_base, sfr_reg), (FLEX0_base, flexcom_reg), (FLEX1_base, flexcom_reg), (SAPIC_base, apic_reg),
     (RST_base, reset_reg), (PIT_base, pit_reg), (WDT_base, wdt_reg), (SPI1_base, spi_reg),
     (UART3_base, uart_reg), (UART4_base, uart_reg), (FLEX2_base, flexcom_reg),
     (FLEX3_base, flexcom_reg), (FLEX4_base, flexcom_reg), (TRNG_base, trng_reg),
     (APIC_base, apic_reg), (GPIOA_base, gpio_reg), (GPIOB_base, gpio_reg), (GPIOC_base, gpio_reg),
     (GPIOD_base, gpio_reg), (H32MX_base, matrix_reg)]"

lemmas regmap_blocks = wdt_reg_def gpio_reg_def uart_reg_def pmc_reg_def pit_reg_def apic_reg_def mmc_reg_def
  ddr_reg_def matrix_pri_def matrix_reg_def sfr_reg_def reset_reg_def l2cache_reg_def
  trng_reg_def timer_channel_reg_def timer_reg_def dma_reg_def spi_reg_def flexcom_reg_def
  lcd_ctrl_def lcd_dma_def lcd_reg_def gmac_reg_def

lemmas regmap_bases = L2CAHCE_base_def MMC0_base_def MMC1_base_def LCD_base_def DMA1_base_def DDR_base_def
  DMA0_base_def PMC_base_def H64MX_base_def SPI0_base_def GMAC_base_def TIMER0_base_def
  TIMER1_base_def UART0_base_def UART1_base_def UART2_base_def SFR_base_def FLEX0_base_def
  FLEX1_base_def SAPIC_base_def RST_base_def PIT_base_def WDT_base_def SPI1_base_def
  UART3_base_def UART4_base_def FLEX2_base_def FLEX3_base_def FLEX4_base_def TRNG_base_def
  APIC_base_def GPIOA_base_def GPIOB_base_def GPIOC_base_def GPIOD_base_def H32MX_base_def

subsection \<open>The layout\<close>

text \<open>The size of every structure in bytes.\<close>

lemma block_sizes [simp]:
  "fields_size wdt_reg = 12"
  "fields_size gpio_reg = 64"
  "fields_size uart_reg = 232"
  "fields_size pmc_reg = 340"
  "fields_size pit_reg = 16"
  "fields_size apic_reg = 236"
  "fields_size mmc_reg = 580"
  "fields_size ddr_reg = 236"
  "fields_size matrix_pri = 8"
  "fields_size matrix_reg = 716"
  "fields_size sfr_reg = 152"
  "fields_size reset_reg = 12"
  "fields_size l2cache_reg = 3972"
  "fields_size trng_reg = 84"
  "fields_size timer_channel_reg = 64"
  "fields_size timer_reg = 232"
  "fields_size dma_reg = 1104"
  "fields_size spi_reg = 236"
  "fields_size flexcom_reg = 556"
  "fields_size lcd_ctrl = 28"
  "fields_size lcd_dma = 16"
  "fields_size lcd_reg = 5632"
  "fields_size gmac_reg = 1980"
  by (simp_all add: fields_size_def regmap_blocks)

text \<open>Every member lies at a multiple of its alignment when its structure starts at a multiple of four.\<close>

lemma block_layouts [simp]:
  "no_padding 0 wdt_reg" "no_padding 0 gpio_reg" "no_padding 0 uart_reg" "no_padding 0 pmc_reg" "no_padding 0 pit_reg"
  "no_padding 0 apic_reg" "no_padding 0 mmc_reg" "no_padding 0 ddr_reg" "no_padding 0 matrix_reg" "no_padding 0 sfr_reg"
  "no_padding 0 reset_reg" "no_padding 0 l2cache_reg" "no_padding 0 trng_reg" "no_padding 0 timer_reg" "no_padding 0 dma_reg"
  "no_padding 0 spi_reg" "no_padding 0 flexcom_reg" "no_padding 0 lcd_reg" "no_padding 0 gmac_reg"
  by (simp_all add: regmap_blocks)

text \<open>The register map has the layout the drivers rely on: each block starts at a multiple of four and ends
  inside the address space, the compiler inserts no padding into a block (so the place of a register in
  its structure is its address), and no two blocks share a byte.\<close>

theorem registers_apart:
  "list_all (\<lambda>(base, fs). unat base mod 4 = 0 \<and> no_padding 0 fs \<and> unat base + fields_size fs < 2 ^ 32) regmap \<and>
   sorted_wrt (\<lambda>(base, fs) (base', fs'). unat base + fields_size fs \<le> unat base') regmap"
  unfolding regmap_def regmap_bases by simp

text \<open>Two registers at different places of a block have different addresses.\<close>

lemma reg_offset_less: "n \<in> field_name ` set fs \<Longrightarrow> \<forall>f \<in> set fs. 0 < field_size f \<Longrightarrow> reg_offset fs n < fields_size fs"
  by (induction fs) (auto simp: fields_size_def)

lemma reg_offset_inj:
  "m \<in> field_name ` set fs \<Longrightarrow> n \<in> field_name ` set fs \<Longrightarrow> \<forall>f \<in> set fs. 0 < field_size f \<Longrightarrow>
   reg_offset fs m = reg_offset fs n \<longleftrightarrow> m = n"
  by (induction fs) auto

end
