(* ===== verification/Device.thy ===== *)
theory Device
  imports Regmap
begin

text \<open>
  Drivers as sequences of register accesses. The hardware is an argument: a \<open>device\<close> gives, for an
  address, what a read returns and what reads and writes make of the state of the hardware. Theorems about
  drivers state what they need of it as hypotheses. An action is a function from the state of the hardware
  to a result and a new state, or to a fault; \<open>io_bind\<close> is the semicolon of C.
\<close>

record 'd device =
  dev_read :: "u32 \<Rightarrow> 'd \<Rightarrow> u32 \<times> 'd"
  dev_write :: "u32 \<Rightarrow> u32 \<Rightarrow> 'd \<Rightarrow> 'd"

type_synonym ('a, 'd) io = "'d \<Rightarrow> ('a \<times> 'd) res"

definition io_return :: "'a \<Rightarrow> ('a, 'd) io" where
  "io_return x = (\<lambda>d. Inr (x, d))"

definition io_bind :: "('a, 'd) io \<Rightarrow> ('a \<Rightarrow> ('b, 'd) io) \<Rightarrow> ('b, 'd) io" where
  "io_bind m f = (\<lambda>d. res_bind (m d) (\<lambda>(x, d'). f x d'))"

definition io_fail :: "fault \<Rightarrow> ('a, 'd) io" where
  "io_fail e = (\<lambda>d. Inl e)"

definition io_assert :: "bool \<Rightarrow> (unit, 'd) io" where
  "io_assert b = (\<lambda>d. res_bind (assert_that b) (\<lambda>_. Inr ((), d)))"

definition io_when :: "bool \<Rightarrow> (unit, 'd) io \<Rightarrow> (unit, 'd) io" where
  "io_when b m = (if b then m else io_return ())"

text \<open>The actions of a list one after the other.\<close>

primrec io_all :: "(unit, 'd) io list \<Rightarrow> (unit, 'd) io" where
  "io_all [] = io_return ()"
| "io_all (m # ms) = io_bind m (\<lambda>_. io_all ms)"

subsection \<open>Register accesses\<close>

definition reg_read :: "'d device \<Rightarrow> u32 \<Rightarrow> (u32, 'd) io" where
  "reg_read D a = (\<lambda>d. Inr (dev_read D a d))"

definition reg_write :: "'d device \<Rightarrow> u32 \<Rightarrow> u32 \<Rightarrow> (unit, 'd) io" where
  "reg_write D a v = (\<lambda>d. Inr ((), dev_write D a v d))"

text \<open>A register that is read, changed and written back (\<^verbatim>\<open>|=\<close> and \<^verbatim>\<open>&=\<close>).\<close>

definition reg_update :: "'d device \<Rightarrow> u32 \<Rightarrow> (u32 \<Rightarrow> u32) \<Rightarrow> (unit, 'd) io" where
  "reg_update D a f = io_bind (reg_read D a) (\<lambda>v. reg_write D a (f v))"

text \<open>Registers of sixteen and of eight bits: what is read or written is cut to the width.\<close>

definition reg_read16 :: "'d device \<Rightarrow> u32 \<Rightarrow> (u32, 'd) io" where
  "reg_read16 D a = io_bind (reg_read D a) (\<lambda>v. io_return (v AND 0xFFFF))"

definition reg_write16 :: "'d device \<Rightarrow> u32 \<Rightarrow> u32 \<Rightarrow> (unit, 'd) io" where
  "reg_write16 D a v = reg_write D a (v AND 0xFFFF)"

definition reg_update16 :: "'d device \<Rightarrow> u32 \<Rightarrow> (u32 \<Rightarrow> u32) \<Rightarrow> (unit, 'd) io" where
  "reg_update16 D a f = io_bind (reg_read16 D a) (\<lambda>v. reg_write16 D a (f v))"

definition reg_update8 :: "'d device \<Rightarrow> u32 \<Rightarrow> (u32 \<Rightarrow> u32) \<Rightarrow> (unit, 'd) io" where
  "reg_update8 D a f = io_bind (reg_read D a) (\<lambda>v. reg_write D a (f (v AND 0xFF) AND 0xFF))"

text \<open>A busy wait with no bound: \<open>None\<close> when the condition never holds.\<close>

partial_function (option) wait_until :: "'d device \<Rightarrow> u32 \<Rightarrow> (u32 \<Rightarrow> bool) \<Rightarrow> 'd \<Rightarrow> 'd option" where
  "wait_until D a p d = (case dev_read D a d of (v, d') \<Rightarrow> if p v then Some d' else wait_until D a p d')"

definition io_wait :: "'d device \<Rightarrow> u32 \<Rightarrow> (u32 \<Rightarrow> bool) \<Rightarrow> (unit, 'd) io" where
  "io_wait D a p = (\<lambda>d. res_bind (or_hang (wait_until D a p d)) (\<lambda>d'. Inr ((), d')))"

text \<open>Is bit \<open>n\<close> of a register value set?\<close>

abbreviation bit_set :: "nat \<Rightarrow> u32 \<Rightarrow> bool" where
  "bit_set n v \<equiv> bit v n"

subsection \<open>Laws\<close>

named_theorems io_defs

declare io_return_def [io_defs] io_bind_def [io_defs] io_fail_def [io_defs] io_assert_def [io_defs] io_when_def [io_defs]
  reg_read_def [io_defs] reg_write_def [io_defs] reg_update_def [io_defs] reg_read16_def [io_defs] reg_write16_def [io_defs]
  reg_update16_def [io_defs] reg_update8_def [io_defs]

lemma io_bind_Inr: "io_bind m f d = Inr (y, d2) \<longleftrightarrow> (\<exists>x d1. m d = Inr (x, d1) \<and> f x d1 = Inr (y, d2))"
  by (auto simp: io_bind_def res_bind_Inr_iff split: prod.splits)

lemma io_all_append: "io_all (ms @ ns) d = io_bind (io_all ms) (\<lambda>_. io_all ns) d"
  by (induction ms arbitrary: d) (auto simp: io_defs split: prod.splits intro!: res_bind_cong simp: res_bind_assoc)

lemma wait_until_now: "p (fst (dev_read D a d)) \<Longrightarrow> io_wait D a p d = Inr ((), snd (dev_read D a d))"
  by (simp add: io_wait_def wait_until.simps or_hang_def split_beta)

text \<open>A wait ends in a state reached by reads only, in which the condition was just read.\<close>

fun reads :: "'d device \<Rightarrow> u32 \<Rightarrow> nat \<Rightarrow> 'd \<Rightarrow> 'd" where
  "reads D a 0 d = d"
| "reads D a (Suc n) d = reads D a n (snd (dev_read D a d))"

lemma wait_until_reads:
  "(\<And>m. m < n \<Longrightarrow> \<not> p (fst (dev_read D a (reads D a m d)))) \<Longrightarrow> p (fst (dev_read D a (reads D a n d))) \<Longrightarrow>
   wait_until D a p d = Some (reads D a (Suc n) d)"
proof (induction n arbitrary: d)
  case 0
  then show ?case by (simp add: wait_until.simps split_beta)
next
  case (Suc n)
  have "\<not> p (fst (dev_read D a d))" using Suc.prems(1) [of 0] by simp
  moreover have "wait_until D a p (snd (dev_read D a d)) = Some (reads D a (Suc n) (snd (dev_read D a d)))"
    using Suc.prems(1) [of "Suc m" for m] Suc.prems(2) by (intro Suc.IH) auto
  ultimately show ?case by (subst wait_until.simps) (simp add: split_beta)
qed

subsection \<open>Plain registers\<close>

text \<open>
  A device whose registers are plain memory: a witness that hypotheses about devices can be met.
\<close>

definition memory_device :: "(u32 \<Rightarrow> u32) device" where
  "memory_device = \<lparr>dev_read = \<lambda>a m. (m a, m), dev_write = \<lambda>a v m. m(a := v)\<rparr>"

lemma memory_device_simps [simp]:
  "dev_read memory_device a m = (m a, m)" "dev_write memory_device a v m = m(a := v)"
  by (simp_all add: memory_device_def)

end
