(* ===== verification/Drivers.thy ===== *)
theory Drivers
  imports Device Align
begin

text \<open>
  The small drivers: pins (\<^verbatim>\<open>drivers/gpio.c\<close>), clocks (\<^verbatim>\<open>drivers/clock.c\<close>), the bus matrix with the
  security of the peripherals (\<^verbatim>\<open>drivers/matrix.c\<close>), the interrupt controller (\<^verbatim>\<open>drivers/apic.c\<close>), the
  timers (\<^verbatim>\<open>drivers/timer.c\<close>, \<^verbatim>\<open>drivers/pit.c\<close>, \<^verbatim>\<open>drivers/cpu_timer.c\<close>) and the serial port of
  \<^verbatim>\<open>drivers/spi.c\<close>. Each is the sequence of its register accesses; barriers have no effect here.
\<close>

subsection \<open>Pins\<close>

datatype gpio_func =
    GPIO_FUNC_OFF | GPIO_FUNC_A | GPIO_FUNC_B | GPIO_FUNC_C | GPIO_FUNC_D | GPIO_FUNC_E | GPIO_FUNC_F | GPIO_FUNC_G
datatype gpio_dir = GPIO_INPUT | GPIO_OUTPUT
datatype gpio_pull = GPIO_PULLUP | GPIO_PULLDOWN | GPIO_NO_PULL
datatype gpio_drive = GPIO_DIRVE_LO | GPIO_DRIVE_ME | GPIO_DRIVE_HI
datatype gpio_event = GPIO_EVENT_FALLING | GPIO_EVENT_RISING | GPIO_EVENT_BOTH | GPIO_EVENT_LOW | GPIO_EVENT_HIGH

primrec func_num :: "gpio_func \<Rightarrow> u32" where
  "func_num GPIO_FUNC_OFF = 0" | "func_num GPIO_FUNC_A = 1" | "func_num GPIO_FUNC_B = 2" | "func_num GPIO_FUNC_C = 3"
| "func_num GPIO_FUNC_D = 4" | "func_num GPIO_FUNC_E = 5" | "func_num GPIO_FUNC_F = 6" | "func_num GPIO_FUNC_G = 7"

primrec gdir_num :: "gpio_dir \<Rightarrow> u32" where
  "gdir_num GPIO_INPUT = 0" | "gdir_num GPIO_OUTPUT = 1"

primrec drive_num :: "gpio_drive \<Rightarrow> u32" where
  "drive_num GPIO_DIRVE_LO = 0" | "drive_num GPIO_DRIVE_ME = 1" | "drive_num GPIO_DRIVE_HI = 2"

primrec event_num :: "gpio_event \<Rightarrow> u32" where
  "event_num GPIO_EVENT_FALLING = 0" | "event_num GPIO_EVENT_RISING = 1" | "event_num GPIO_EVENT_BOTH = 2"
| "event_num GPIO_EVENT_LOW = 3" | "event_num GPIO_EVENT_HIGH = 4"

record gpio =
  gp_hw :: u32
  gp_pin :: u32

record gpio_conf =
  gc_func :: gpio_func
  gc_dir :: gpio_dir
  gc_event :: gpio_event
  gc_pull :: gpio_pull
  gc_drive :: gpio_drive

definition gpio_at :: "gpio \<Rightarrow> string \<Rightarrow> u32" where
  "gpio_at g n = reg_addr (gp_hw g) gpio_reg n"

definition gpio_mask :: "'d device \<Rightarrow> gpio \<Rightarrow> (unit, 'd) io" where
  "gpio_mask D g = reg_write D (gpio_at g ''MSKR'') (shl_one (gp_pin g))"

text \<open>The bits of the pull field; no pull is neither of them.\<close>

primrec pull_bits :: "gpio_pull \<Rightarrow> u32" where
  "pull_bits GPIO_PULLDOWN = push_bit 10 1" | "pull_bits GPIO_PULLUP = push_bit 9 1" | "pull_bits GPIO_NO_PULL = 0"

definition gpio_init :: "'d device \<Rightarrow> gpio \<Rightarrow> gpio_conf \<Rightarrow> (unit, 'd) io" where
  "gpio_init D g conf =
     io_all [gpio_mask D g,
       reg_write D (gpio_at g ''CFGR'')
         (push_bit 8 (gdir_num (gc_dir conf)) OR push_bit 16 (drive_num (gc_drive conf)) OR
          push_bit 24 (event_num (gc_event conf)) OR func_num (gc_func conf) OR pull_bits (gc_pull conf))]"

text \<open>The setters clear a field of the configuration of the pin and put a new value there.\<close>

definition gpio_change :: "'d device \<Rightarrow> gpio \<Rightarrow> u32 \<Rightarrow> u32 \<Rightarrow> (unit, 'd) io" where
  "gpio_change D g field value =
     io_all [gpio_mask D g, reg_update D (gpio_at g ''CFGR'') (\<lambda>cfg. (cfg AND NOT field) OR value)]"

definition gpio_set_func :: "'d device \<Rightarrow> gpio \<Rightarrow> gpio_func \<Rightarrow> (unit, 'd) io" where
  "gpio_set_func D g f = gpio_change D g 7 (func_num f)"

definition gpio_set_dir :: "'d device \<Rightarrow> gpio \<Rightarrow> gpio_dir \<Rightarrow> (unit, 'd) io" where
  "gpio_set_dir D g dir = gpio_change D g (push_bit 8 1) (push_bit 8 (gdir_num dir))"

definition gpio_set_event :: "'d device \<Rightarrow> gpio \<Rightarrow> gpio_event \<Rightarrow> (unit, 'd) io" where
  "gpio_set_event D g e = gpio_change D g (push_bit 24 7) (push_bit 24 (event_num e))"

definition gpio_set_pull :: "'d device \<Rightarrow> gpio \<Rightarrow> gpio_pull \<Rightarrow> (unit, 'd) io" where
  "gpio_set_pull D g p = gpio_change D g (push_bit 9 3) (pull_bits p)"

definition gpio_set_drive :: "'d device \<Rightarrow> gpio \<Rightarrow> gpio_drive \<Rightarrow> (unit, 'd) io" where
  "gpio_set_drive D g v = gpio_change D g (push_bit 16 3) (push_bit 16 (drive_num v))"

definition gpio_set :: "'d device \<Rightarrow> gpio \<Rightarrow> (unit, 'd) io" where
  "gpio_set D g = reg_write D (gpio_at g ''SODR'') (shl_one (gp_pin g))"

definition gpio_clear :: "'d device \<Rightarrow> gpio \<Rightarrow> (unit, 'd) io" where
  "gpio_clear D g = reg_write D (gpio_at g ''CODR'') (shl_one (gp_pin g))"

definition gpio_toggle :: "'d device \<Rightarrow> gpio \<Rightarrow> (unit, 'd) io" where
  "gpio_toggle D g =
     io_bind (reg_read D (gpio_at g ''ODSR'')) (\<lambda>v.
       if v AND shl_one (gp_pin g) \<noteq> 0 then gpio_clear D g else gpio_set D g)"

definition gpio_get_out :: "'d device \<Rightarrow> gpio \<Rightarrow> (u32, 'd) io" where
  "gpio_get_out D g = reg_read D (gpio_at g ''ODSR'')"

definition gpio_get_in :: "'d device \<Rightarrow> gpio \<Rightarrow> (u32, 'd) io" where
  "gpio_get_in D g = reg_read D (gpio_at g ''PDSR'')"

definition gpio_irq_enable :: "'d device \<Rightarrow> gpio \<Rightarrow> (unit, 'd) io" where
  "gpio_irq_enable D g = reg_write D (gpio_at g ''IER'') (shl_one (gp_pin g))"

subsection \<open>Clocks\<close>

datatype gck_src =
    GCK_SRC_SLOW_CLK | GCK_SRC_MAIN_CLK | GCK_SRC_PLLA_CLK | GCK_SRC_UPLL_CLK | GCK_SRC_MCK_CLK | GCK_SRC_AUDIO_CLK

primrec gck_num :: "gck_src \<Rightarrow> u32" where
  "gck_num GCK_SRC_SLOW_CLK = 0" | "gck_num GCK_SRC_MAIN_CLK = 1" | "gck_num GCK_SRC_PLLA_CLK = 2"
| "gck_num GCK_SRC_UPLL_CLK = 3" | "gck_num GCK_SRC_MCK_CLK = 4" | "gck_num GCK_SRC_AUDIO_CLK = 5"

definition pmc :: "string \<Rightarrow> u32" where
  "pmc n = reg_addr PMC_base pmc_reg n"

definition clk_pck_enable :: "'d device \<Rightarrow> u32 \<Rightarrow> (unit, 'd) io" where
  "clk_pck_enable D pid =
     (if 2 \<le> pid \<and> pid < 32 then reg_write D (pmc ''PCER0'') (shl_one pid)
      else if 32 \<le> pid \<and> pid < 64 then reg_write D (pmc ''PCER1'') (shl_one (pid - 32))
      else io_all [reg_write D (pmc ''PCR'') (pid AND 0x7F),
                   reg_update D (pmc ''PCR'') (\<lambda>r. r OR push_bit 12 1 OR push_bit 28 1)])"

definition clk_pck_disable :: "'d device \<Rightarrow> u32 \<Rightarrow> (unit, 'd) io" where
  "clk_pck_disable D pid =
     (if 2 \<le> pid \<and> pid < 32 then reg_write D (pmc ''PCDR0'') (shl_one pid)
      else if 32 \<le> pid \<and> pid < 64 then reg_write D (pmc ''PCDR1'') (shl_one (pid - 32))
      else io_all [reg_write D (pmc ''PCR'') (pid AND 0x7F),
                   reg_update D (pmc ''PCR'') (\<lambda>r. (r AND NOT (push_bit 28 1)) OR push_bit 12 1)])"

definition clk_gck_enable :: "'d device \<Rightarrow> u8 \<Rightarrow> gck_src \<Rightarrow> u8 \<Rightarrow> (unit, 'd) io" where
  "clk_gck_enable D pid src div' =
     io_bind (reg_write D (pmc ''PCR'') (ucast pid AND 0x7F)) (\<lambda>_.
     io_bind (reg_read D (pmc ''PCR'')) (\<lambda>r.
       let en = (if bit_set 28 r then 1 else 0) in
       reg_write D (pmc ''PCR'') (push_bit 28 en OR push_bit 8 (gck_num src) OR push_bit 12 1 OR
         push_bit 20 (ucast div') OR push_bit 29 1 OR (ucast pid AND 0x7F))))"

subsection \<open>The bus matrix\<close>

definition h64mx_table :: "u8 list" where
  "h64mx_table = [2, 6, 7, 9, 10, 12, 13, 15, 31, 32, 45, 46, 52, 53, 63]"

definition get_bus :: "u8 \<Rightarrow> u32" where
  "get_bus pid = (if pid \<in> set h64mx_table then H64MX_base else H32MX_base)"

text \<open>The word of the selection registers that holds the bit of a peripheral.\<close>

definition security_reg :: "u32 \<Rightarrow> u8 \<Rightarrow> u32" where
  "security_reg matrix pid = reg_addr matrix matrix_reg ''SPSELR1'' + 4 * ucast (pid div 32)"

definition security_bit :: "u8 \<Rightarrow> u32" where
  "security_bit pid = push_bit (unat (pid mod 32)) 1"

definition is_secure :: "'d device \<Rightarrow> u32 \<Rightarrow> u8 \<Rightarrow> (bool, 'd) io" where
  "is_secure D matrix pid =
     io_bind (reg_read D (security_reg matrix pid)) (\<lambda>v. io_return (v AND security_bit pid = 0))"

definition set_non_secure :: "'d device \<Rightarrow> u8 \<Rightarrow> (unit, 'd) io" where
  "set_non_secure D pid = reg_update D (security_reg (get_bus pid) pid) (\<lambda>v. v AND NOT (security_bit pid))"

definition set_secure :: "'d device \<Rightarrow> u8 \<Rightarrow> (unit, 'd) io" where
  "set_secure D pid = reg_update D (security_reg (get_bus pid) pid) (\<lambda>v. v OR security_bit pid)"

subsection \<open>The interrupt controller\<close>

definition PERIPH_CNT :: nat where "PERIPH_CNT = 72"

definition apic_at :: "u32 \<Rightarrow> string \<Rightarrow> u32" where
  "apic_at apic n = reg_addr apic apic_reg n"

definition sfr :: "string \<Rightarrow> u32" where
  "sfr n = reg_addr SFR_base sfr_reg n"

definition apic_secure_remap :: "'d device \<Rightarrow> (unit, 'd) io" where
  "apic_secure_remap D =
     io_bind (reg_read D (sfr ''SN1'')) (\<lambda>v. reg_write D (sfr ''AICREDIR'') ((v XOR 0xB6D81C4D) OR 1))"

definition get_apic :: "'d device \<Rightarrow> u8 \<Rightarrow> (u32, 'd) io" where
  "get_apic D irq =
     io_bind (is_secure D (get_bus irq) irq) (\<lambda>secure.
       if secure then io_bind (reg_read D (sfr ''AICREDIR'')) (\<lambda>v. io_return (if v = 0 then SAPIC_base else APIC_base))
       else io_return APIC_base)"

text \<open>The handler for interrupts nobody has asked for is an address, an argument here.\<close>

definition init_apic :: "'d device \<Rightarrow> u32 \<Rightarrow> u32 \<Rightarrow> (unit, 'd) io" where
  "init_apic D dummy_handler apic =
     io_all
       (concat (map (\<lambda>i. [reg_write D (apic_at apic ''SSR'') (of_nat i), reg_write D (apic_at apic ''IDCR'') 1,
                          reg_write D (apic_at apic ''ICCR'') 1]) [1..<PERIPH_CNT]) @
        replicate 8 (reg_write D (apic_at apic ''EOICR'') 0) @
        concat (map (\<lambda>i. [reg_write D (apic_at apic ''SSR'') (of_nat i),
                          reg_write D (apic_at apic ''SVR'') dummy_handler]) [0..<PERIPH_CNT]) @
        [reg_write D (apic_at apic ''SPU'') dummy_handler])"

definition apic_protect :: "'d device \<Rightarrow> u32 \<Rightarrow> (unit, 'd) io" where
  "apic_protect D apic = reg_write D (apic_at apic ''DCR'') 1"

definition apic_init :: "'d device \<Rightarrow> u32 \<Rightarrow> (unit, 'd) io" where
  "apic_init D dummy_handler =
     io_all [init_apic D dummy_handler APIC_base, apic_protect D APIC_base, init_apic D dummy_handler SAPIC_base,
             apic_secure_remap D]"

text \<open>The operations on one interrupt select it and then write the registers of the selected one.\<close>

definition with_irq :: "'d device \<Rightarrow> u32 \<Rightarrow> (u32 \<Rightarrow> (unit, 'd) io list) \<Rightarrow> (unit, 'd) io" where
  "with_irq D irq f = io_bind (get_apic D (ucast irq)) (\<lambda>apic. io_all (reg_write D (apic_at apic ''SSR'') irq # f apic))"

definition apic_add_handler :: "'d device \<Rightarrow> u32 \<Rightarrow> u32 \<Rightarrow> (unit, 'd) io" where
  "apic_add_handler D irq handler =
     with_irq D irq (\<lambda>apic. [reg_write D (apic_at apic ''IDCR'') 1, reg_write D (apic_at apic ''SMR'') (push_bit 5 1),
       reg_write D (apic_at apic ''SVR'') handler, reg_write D (apic_at apic ''ICCR'') 1])"

definition apic_remove_handler :: "'d device \<Rightarrow> u32 \<Rightarrow> u32 \<Rightarrow> (unit, 'd) io" where
  "apic_remove_handler D dummy_handler irq =
     with_irq D irq (\<lambda>apic. [reg_write D (apic_at apic ''IDCR'') 1, reg_write D (apic_at apic ''SMR'') (push_bit 5 1),
       reg_write D (apic_at apic ''SVR'') dummy_handler, reg_write D (apic_at apic ''ICCR'') 1])"

definition apic_enable :: "'d device \<Rightarrow> u32 \<Rightarrow> (unit, 'd) io" where
  "apic_enable D irq =
     with_irq D irq (\<lambda>apic. [reg_write D (apic_at apic ''ICCR'') 1, reg_write D (apic_at apic ''IECR'') 1])"

definition apic_disable :: "'d device \<Rightarrow> u32 \<Rightarrow> (unit, 'd) io" where
  "apic_disable D irq = with_irq D irq (\<lambda>apic. [reg_write D (apic_at apic ''IDCR'') 1])"

definition apic_force :: "'d device \<Rightarrow> u32 \<Rightarrow> (unit, 'd) io" where
  "apic_force D irq = with_irq D irq (\<lambda>apic. [reg_write D (apic_at apic ''ISCR'') 1])"

definition apic_clear :: "'d device \<Rightarrow> u32 \<Rightarrow> (unit, 'd) io" where
  "apic_clear D irq = with_irq D irq (\<lambda>apic. [reg_write D (apic_at apic ''ICCR'') 1])"

definition apic_set_priority :: "'d device \<Rightarrow> u32 \<Rightarrow> u32 \<Rightarrow> (unit, 'd) io" where
  "apic_set_priority D irq pri =
     with_irq D irq (\<lambda>apic. [reg_write D (apic_at apic ''IDCR'') 1,
       reg_update D (apic_at apic ''SMR'') (\<lambda>v. (v AND NOT 7) OR pri), reg_write D (apic_at apic ''ICCR'') 1])"

definition apic_get_max_priority :: "u32 \<Rightarrow> u32" where "apic_get_max_priority irq = 7"
definition apic_get_min_priority :: "u32 \<Rightarrow> u32" where "apic_get_min_priority irq = 0"

subsection \<open>Timers\<close>

text \<open>The first channel of a timer block.\<close>

definition tc_at :: "u32 \<Rightarrow> string \<Rightarrow> u32" where
  "tc_at timer n = reg_addr (reg_addr timer timer_reg ''channel'') timer_channel_reg n"

definition timer_start :: "'d device \<Rightarrow> (unit, 'd) io" where
  "timer_start D = reg_write D (tc_at TIMER0_base ''CCR'') (push_bit 2 1 OR 1)"

definition timer_stop :: "'d device \<Rightarrow> (unit, 'd) io" where
  "timer_stop D = reg_write D (tc_at TIMER0_base ''CCR'') 2"

definition timer_clear_flag :: "'d device \<Rightarrow> (unit, 'd) io" where
  "timer_clear_flag D = io_bind (reg_read D (tc_at TIMER0_base ''SR'')) (\<lambda>_. io_return ())"

definition timer_reset :: "'d device \<Rightarrow> (unit, 'd) io" where
  "timer_reset D = reg_write D (tc_at TIMER0_base ''CCR'') (push_bit 2 1 OR 1)"

definition timer_init :: "'d device \<Rightarrow> u32 \<Rightarrow> u32 \<Rightarrow> (unit, 'd) io" where
  "timer_init D top' tick_handler =
     io_all [clk_pck_enable D 35,
       reg_write D (tc_at TIMER0_base ''CMR'') (push_bit 7 1 OR push_bit 15 1 OR 3),
       reg_write D (tc_at TIMER0_base ''RC'') top',
       reg_write D (tc_at TIMER0_base ''IER'') (push_bit 4 1),
       apic_add_handler D 35 tick_handler, apic_set_priority D 35 2, apic_enable D 35]"

definition pit :: "string \<Rightarrow> u32" where
  "pit n = reg_addr PIT_base pit_reg n"

definition pit_init :: "'d device \<Rightarrow> u8 \<Rightarrow> u32 \<Rightarrow> (unit, 'd) io" where
  "pit_init D irq_en period =
     reg_write D (pit ''MR'') (push_bit 25 (ucast (irq_en AND 1)) OR (period AND 0xFFFFF))"

definition pit_enable :: "'d device \<Rightarrow> (unit, 'd) io" where
  "pit_enable D = reg_update D (pit ''MR'') (\<lambda>v. v OR push_bit 24 1)"

definition pit_disable :: "'d device \<Rightarrow> (unit, 'd) io" where
  "pit_disable D = reg_update D (pit ''MR'') (\<lambda>v. v AND NOT (push_bit 24 1))"

definition pit_clear_flag :: "'d device \<Rightarrow> (unit, 'd) io" where
  "pit_clear_flag D = io_bind (reg_read D (pit ''PIVR'')) (\<lambda>_. io_return ())"

definition cpu_timer_init :: "'d device \<Rightarrow> (unit, 'd) io" where
  "cpu_timer_init D =
     io_all [clk_pck_enable D 36,
       reg_write D (tc_at TIMER1_base ''CMR'') (push_bit 14 1 OR 1),
       reg_write D (tc_at TIMER1_base ''RC'') 10375,
       reg_write D (tc_at TIMER1_base ''IER'') (push_bit 4 1)]"

definition cpu_timer_clear_flags :: "'d device \<Rightarrow> (unit, 'd) io" where
  "cpu_timer_clear_flags D = io_bind (reg_read D (tc_at TIMER1_base ''SR'')) (\<lambda>_. io_return ())"

definition cpu_timer_reset :: "'d device \<Rightarrow> (unit, 'd) io" where
  "cpu_timer_reset D = reg_write D (tc_at TIMER1_base ''CCR'') (push_bit 2 1)"

definition cpu_timer_get_value :: "'d device \<Rightarrow> (u32, 'd) io" where
  "cpu_timer_get_value D = reg_read D (tc_at TIMER1_base ''CV'')"

definition cpu_timer_get_value_us :: "'d device \<Rightarrow> (u32, 'd) io" where
  "cpu_timer_get_value_us D = io_bind (reg_read D (tc_at TIMER1_base ''CV'')) (\<lambda>v. io_return (v * 1000 div 10375))"

definition cpu_timer_start :: "'d device \<Rightarrow> (unit, 'd) io" where
  "cpu_timer_start D = reg_write D (tc_at TIMER1_base ''CCR'') (1 OR push_bit 2 1)"

subsection \<open>The serial port\<close>

definition spi1 :: "string \<Rightarrow> u32" where
  "spi1 n = reg_addr SPI1_base spi_reg n"

definition spi_init :: "'d device \<Rightarrow> (unit, 'd) io" where
  "spi_init D =
     io_all [reg_write D (spi1 ''MR'') 1,
       reg_write D (spi1 ''chip_select'') (push_bit 8 255 OR push_bit 1 1 OR push_bit 24 10 OR push_bit 16 10),
       reg_write D (spi1 ''CR'') 1]"

definition spi_out :: "'d device \<Rightarrow> u8 \<Rightarrow> (unit, 'd) io" where
  "spi_out D dat = io_all [io_wait D (spi1 ''SR'') (bit_set 1), reg_write D (spi1 ''TDR'') (ucast dat)]"


subsection \<open>Pin configurations\<close>

text \<open>
  What the data sheet says of a bank of pins: the mask register selects pins, a write of the
  configuration register goes to all selected pins, and a read with one selected pin gives its
  configuration. \<open>cfg\<close> and \<open>msk\<close> read both off the state of the hardware.
\<close>

definition pin_bank :: "'d device \<Rightarrow> u32 \<Rightarrow> ('d \<Rightarrow> nat \<Rightarrow> u32) \<Rightarrow> ('d \<Rightarrow> u32) \<Rightarrow> bool" where
  "pin_bank D hw cfg msk \<longleftrightarrow>
     (let m = reg_addr hw gpio_reg ''MSKR''; c = reg_addr hw gpio_reg ''CFGR'' in
      \<forall>v d. msk (dev_write D m v d) = v \<and> cfg (dev_write D m v d) = cfg d \<and>
            cfg (dev_write D c v d) = (\<lambda>p. if bit (msk d) p then v else cfg d p) \<and>
            cfg (snd (dev_read D c d)) = cfg d \<and> msk (snd (dev_read D c d)) = msk d \<and>
            (\<forall>p < 32. msk d = push_bit p 1 \<longrightarrow> fst (dev_read D c d) = cfg d p))"

text \<open>A change of one field, under the mask \<open>m\<close>, of the configuration of the pin \<open>p\<close> only.\<close>

definition field_set :: "nat \<Rightarrow> u32 \<Rightarrow> u32 \<Rightarrow> (nat \<Rightarrow> u32) \<Rightarrow> (nat \<Rightarrow> u32) \<Rightarrow> bool" where
  "field_set p m v c c' \<longleftrightarrow> c' p AND m = v \<and> c' p AND NOT m = c p AND NOT m \<and> (\<forall>q. q \<noteq> p \<longrightarrow> c' q = c q)"

lemma shl_one_small: "unat p < 32 \<Longrightarrow> shl_one p = push_bit (unat p) 1"
  by (simp add: shl_one_def)

lemma gpio_change_ok:
  assumes "pin_bank D (gp_hw g) cfg msk" and "unat (gp_pin g) < 32" and "value AND NOT field = 0"
  shows "\<exists>d'. gpio_change D g field value d = Inr ((), d') \<and> field_set (unat (gp_pin g)) field value (cfg d) (cfg d')"
proof -
  let ?p = "unat (gp_pin g)"
  have b: "bit (2 ^ ?p :: u32) q \<longleftrightarrow> q = ?p" for q
    using assms(2) by (auto simp: bit_exp_iff)
  have v: "value AND field = value" using assms(3) by (metis and.right_neutral bit.conj_disj_distrib bit.disj_cancel_right or.right_neutral)
  have e: "((w AND NOT field) OR value) AND field = value" "((w AND NOT field) OR value) AND NOT field = w AND NOT field" for w
    using assms(3) v by (simp_all add: bit.conj_disj_distrib2 and.assoc)
  show ?thesis using assms(1,2) shl_one_small [OF assms(2)] e
    by (auto simp: gpio_change_def gpio_mask_def gpio_at_def pin_bank_def Let_def io_defs field_set_def b split_beta)
qed

text \<open>The setters of the pin driver change what they should and nothing else: on a bank of pins that
  behaves as the data sheet says, each ends with its own field of the configuration of its own pin at the
  new value, all other fields of the pin and all other pins as before.\<close>

theorem pin_setters_exact:
  assumes "pin_bank D (gp_hw g) cfg msk" and "unat (gp_pin g) < 32"
  shows "(\<exists>d'. gpio_set_func D g f d = Inr ((), d') \<and> field_set (unat (gp_pin g)) 7 (func_num f) (cfg d) (cfg d')) \<and>
    (\<exists>d'. gpio_set_dir D g dir d = Inr ((), d') \<and>
       field_set (unat (gp_pin g)) (push_bit 8 1) (push_bit 8 (gdir_num dir)) (cfg d) (cfg d')) \<and>
    (\<exists>d'. gpio_set_event D g e d = Inr ((), d') \<and>
       field_set (unat (gp_pin g)) (push_bit 24 7) (push_bit 24 (event_num e)) (cfg d) (cfg d')) \<and>
    (\<exists>d'. gpio_set_pull D g p d = Inr ((), d') \<and> field_set (unat (gp_pin g)) (push_bit 9 3) (pull_bits p) (cfg d) (cfg d')) \<and>
    (\<exists>d'. gpio_set_drive D g v d = Inr ((), d') \<and>
       field_set (unat (gp_pin g)) (push_bit 16 3) (push_bit 16 (drive_num v)) (cfg d) (cfg d'))"
proof -
  have "func_num f AND NOT 7 = 0" by (cases f) simp_all
  moreover have "push_bit 8 (gdir_num dir) AND NOT (push_bit 8 1) = 0" by (cases dir) simp_all
  moreover have "push_bit 24 (event_num e) AND NOT (push_bit 24 7) = 0" by (cases e) simp_all
  moreover have "pull_bits p AND NOT (push_bit 9 3) = 0" by (cases p) simp_all
  moreover have "push_bit 16 (drive_num v) AND NOT (push_bit 16 3) = 0" by (cases v) simp_all
  ultimately show ?thesis
    unfolding gpio_set_func_def gpio_set_dir_def gpio_set_event_def gpio_set_pull_def gpio_set_drive_def
    using gpio_change_ok [OF assms] by blast
qed

text \<open>A bank of pins as a state.\<close>

definition demo_bank :: "(u32 \<times> (nat \<Rightarrow> u32)) device" where
  "demo_bank =
     \<lparr>dev_read = \<lambda>a (m, c). (c (ctz m), (m, c)),
      dev_write = \<lambda>a v (m, c). if a = GPIOA_base then (v, c)
        else if a = GPIOA_base + 4 then (m, \<lambda>p. if bit m p then v else c p) else (m, c)\<rparr>"

lemma demo_bank_ok: "pin_bank demo_bank GPIOA_base snd fst"
  by (auto simp: pin_bank_def Let_def demo_bank_def reg_addr_def gpio_reg_def GPIOA_base_def ctz_exp split: prod.splits)

lemma pin_setters_exact_witness:
  "\<exists>d'. gpio_set_func demo_bank \<lparr>gp_hw = GPIOA_base, gp_pin = 18\<rparr> GPIO_FUNC_E (0, \<lambda>q. 0x203) = Inr ((), d') \<and>
     snd d' 18 AND 7 = 5 \<and> snd d' 17 = 0x203"
  using pin_setters_exact [of demo_bank "\<lparr>gp_hw = GPIOA_base, gp_pin = 18\<rparr>" snd fst GPIO_FUNC_E "(0, \<lambda>q. 0x203)"]
    demo_bank_ok by (force simp: field_set_def)

subsection \<open>Security of peripherals\<close>

text \<open>A register that holds what was written last; \<open>val\<close> reads it off the state of the hardware.\<close>

definition plain_reg :: "'d device \<Rightarrow> u32 \<Rightarrow> ('d \<Rightarrow> u32) \<Rightarrow> bool" where
  "plain_reg D a val \<longleftrightarrow> (\<forall>v d. val (dev_write D a v d) = v \<and> fst (dev_read D a d) = val d \<and> val (snd (dev_read D a d)) = val d)"

lemma reg_update_plain:
  "plain_reg D a val \<Longrightarrow> \<exists>d'. reg_update D a f d = Inr ((), d') \<and> val d' = f (val d)"
  by (simp add: plain_reg_def io_defs split_beta)

lemma is_secure_plain:
  "plain_reg D (security_reg matrix pid) val \<Longrightarrow> is_secure D matrix pid d = Inr (r, d') \<Longrightarrow> r \<longleftrightarrow> val d AND security_bit pid = 0"
  by (auto simp: plain_reg_def is_secure_def io_defs split_beta)

lemma security_bit_nonzero: "security_bit pid \<noteq> 0"
proof -
  have "unat (pid mod 32) < 32" by (simp add: unat_mod)
  then show ?thesis by (simp add: security_bit_def)
qed

text \<open>The setters of the security of a peripheral do the opposite of their names: after
  \<open>set_secure\<close> the peripheral is reported not secure, and after \<open>set_non_secure\<close> it is reported secure,
  for every peripheral and on any selection register that holds what was written to it.\<close>

theorem security_setters_inverted:
  assumes "plain_reg D (security_reg (get_bus pid) pid) val"
  shows "(\<exists>d1 r d2. set_secure D pid d = Inr ((), d1) \<and> is_secure D (get_bus pid) pid d1 = Inr (r, d2) \<and> \<not> r) \<and>
    (\<exists>d1 r d2. set_non_secure D pid d = Inr ((), d1) \<and> is_secure D (get_bus pid) pid d1 = Inr (r, d2) \<and> r)"
proof -
  have read: "\<exists>d2. is_secure D (get_bus pid) pid d1 = Inr (val d1 AND security_bit pid = 0, d2)" for d1
    using assms by (simp add: plain_reg_def is_secure_def io_defs split_beta)
  have "(v OR security_bit pid) AND security_bit pid \<noteq> 0" "(v AND NOT (security_bit pid)) AND security_bit pid = 0" for v
    using security_bit_nonzero by (simp_all add: bit.conj_disj_distrib2 and.assoc)
  note bits = this
  obtain d1 where "reg_update D (security_reg (get_bus pid) pid) (\<lambda>v. v OR security_bit pid) d = Inr ((), d1)"
    "val d1 = val d OR security_bit pid" using reg_update_plain [OF assms] by blast
  moreover obtain d2 where "reg_update D (security_reg (get_bus pid) pid) (\<lambda>v. v AND NOT (security_bit pid)) d = Inr ((), d2)"
    "val d2 = val d AND NOT (security_bit pid)" using reg_update_plain [OF assms] by blast
  ultimately show ?thesis using read [of d1] read [of d2] bits [of "val d"]
    unfolding set_secure_def set_non_secure_def by auto
qed

lemma memory_plain: "plain_reg memory_device a (\<lambda>m. m a)"
  by (simp add: plain_reg_def)

lemma security_setters_inverted_witness:
  "\<exists>d1 r d2. set_secure memory_device 31 (\<lambda>a. 0) = Inr ((), d1) \<and> is_secure memory_device H64MX_base 31 d1 = Inr (r, d2) \<and> \<not> r"
proof -
  have "get_bus 31 = H64MX_base" by (simp add: get_bus_def h64mx_table_def)
  then show ?thesis
    using security_setters_inverted [of memory_device 31, OF memory_plain, of "\<lambda>a. 0"] by metis
qed

text \<open>The microseconds of the scheduler's timer, whose counter stays at most at its top.\<close>

lemma timer_microseconds:
  "fst (dev_read D (tc_at TIMER1_base ''CV'') d) = cv \<Longrightarrow> unat cv \<le> 10375 \<Longrightarrow>
   \<exists>d'. cpu_timer_get_value_us D d = Inr (of_nat (unat cv * 1000 div 10375), d')"
proof -
  assume a: "fst (dev_read D (tc_at TIMER1_base ''CV'') d) = cv" "unat cv \<le> 10375"
  have "unat (cv * 1000) = unat cv * 1000" using a(2) by (simp add: unat_mult_u32)
  then have "cv * 1000 div 10375 = of_nat (unat cv * 1000 div 10375)"
    using a(2) by (simp add: word_unat_eq_iff unat_div unat_of_nat)
  then show ?thesis using a(1) by (simp add: cpu_timer_get_value_us_def io_defs split_beta)
qed

end
