(* ===== verification/Mmc.thy ===== *)
theory Mmc
  imports Drivers Bytes
begin

text \<open>
  The SD host controller of \<^verbatim>\<open>drivers/mmc.c\<close>. A command is a record of its number, argument, response
  type and the four response words, which stay where they are when a response is shorter. What the
  controller delivers through its buffer port is returned as a list of words. The table of the advanced
  DMA is written to memory at the address \<open>adma\<close> of the stack frame. The messages are left out.
\<close>

subsection \<open>Commands and cards\<close>

definition SD_RESP_NONE :: u32 where "SD_RESP_NONE = 0"
definition SD_RESP_R1 :: u32 where "SD_RESP_R1 = 1"
definition SD_RESP_R1b :: u32 where "SD_RESP_R1b = 2"
definition SD_RESP_R2 :: u32 where "SD_RESP_R2 = 3"
definition SD_RESP_R3 :: u32 where "SD_RESP_R3 = 4"
definition SD_RESP_R6 :: u32 where "SD_RESP_R6 = 5"
definition SD_RESP_R7 :: u32 where "SD_RESP_R7 = 6"

lemmas sd_resp_defs = SD_RESP_NONE_def SD_RESP_R1_def SD_RESP_R1b_def SD_RESP_R2_def SD_RESP_R3_def SD_RESP_R6_def SD_RESP_R7_def

datatype sd_version = SD_VERSION_1_XX | SD_VERSION_2_00

record mmc_data =
  md_data :: u32
  md_dir :: u32
  md_blocks :: u32
  md_block_size :: u32

record mmc_cmd =
  mc_cmd :: u32
  mc_arg :: u32
  mc_resp_type :: u32
  mc_resp :: "u32 list"

record sd_card =
  sd_mmc :: u32
  sd_vers :: sd_version
  sd_cid_name :: "u8 list"
  sd_card_addr :: u32
  sd_bus4 :: bool
  sd_not_v1_0 :: bool
  sd_sdhc :: bool
  sd_size_kb :: u32
  sd_cmd :: mmc_cmd

definition mmc_at :: "u32 \<Rightarrow> string \<Rightarrow> u32" where
  "mmc_at mmc n = reg_addr mmc mmc_reg n"

subsection \<open>The set-up of the controller\<close>

definition mmc_set_bus_width :: "'d device \<Rightarrow> u32 \<Rightarrow> u32 \<Rightarrow> (unit, 'd) io" where
  "mmc_set_bus_width D mmc bus_width =
     io_all [io_assert (bus_width = 4 \<or> bus_width = 1),
       reg_update8 D (mmc_at mmc ''HC1R'') (\<lambda>v. if bus_width = 1 then v AND NOT (push_bit 1 1) else v OR push_bit 1 1)]"

definition mmc_set_high_speed :: "'d device \<Rightarrow> u32 \<Rightarrow> u32 \<Rightarrow> (unit, 'd) io" where
  "mmc_set_high_speed D mmc high_speed =
     reg_update8 D (mmc_at mmc ''HC1R'') (\<lambda>v. if high_speed \<noteq> 0 then v OR push_bit 2 1 else v AND NOT (push_bit 2 1))"

text \<open>The divider for a frequency, a variable of sixteen bits, and its two parts in the clock register.\<close>

definition clock_div :: "u32 \<Rightarrow> u16" where
  "clock_div frequency = ucast (83000000 div frequency - 1)"

definition clock_field :: "u16 \<Rightarrow> u32 \<Rightarrow> u32" where
  "clock_field freq reg =
     (reg AND NOT (push_bit 6 0x3FF)) OR (push_bit 8 (ucast freq) OR push_bit 6 (drop_bit 8 (ucast freq) AND 3))"

definition mmc_set_frequency :: "'d device \<Rightarrow> u32 \<Rightarrow> u32 \<Rightarrow> (unit, 'd) io" where
  "mmc_set_frequency D mmc frequency =
     io_bind (reg_read D (mmc_at mmc ''CA1R'')) (\<lambda>ca1.
     io_all [io_assert (drop_bit 16 ca1 AND 0xFF \<noteq> 0),
       if frequency = 0 then io_fail (Panic ''division by zero'') else io_return (),
       reg_update16 D (mmc_at mmc ''CCR'') (\<lambda>v. v AND NOT (push_bit 2 1)),
       reg_update16 D (mmc_at mmc ''CCR'') (\<lambda>v. clock_field (clock_div frequency) v OR push_bit 5 1 OR 1),
       io_wait D (mmc_at mmc ''CCR'') (bit_set 1),
       reg_update16 D (mmc_at mmc ''CCR'') (\<lambda>v. v OR push_bit 2 1)])"

definition mmc_set_bus_power :: "'d device \<Rightarrow> u32 \<Rightarrow> (unit, 'd) io" where
  "mmc_set_bus_power D mmc = reg_update8 D (mmc_at mmc ''PCR'') (\<lambda>v. v OR 1)"

definition mmc_init_hardware :: "'d device \<Rightarrow> u32 \<Rightarrow> (unit, 'd) io" where
  "mmc_init_hardware D mmc =
     io_all [reg_update8 D (mmc_at mmc ''SRR'') (\<lambda>v. v OR 1), io_wait D (mmc_at mmc ''SRR'') (\<lambda>v. v AND 1 = 0)]"

definition mmc_card_detect_irq_enable :: "'d device \<Rightarrow> u32 \<Rightarrow> (unit, 'd) io" where
  "mmc_card_detect_irq_enable D mmc =
     io_all [reg_update16 D (mmc_at mmc ''NISTER'') (\<lambda>v. v OR 0xC0), reg_update16 D (mmc_at mmc ''NISIER'') (\<lambda>v. v OR 0xC0),
       reg_update16 D (mmc_at mmc ''NISTR'') (\<lambda>v. v OR 0xC0)]"

text \<open>The zeroed structure of a new card; the functions of the controller are those of this theory.\<close>

definition mmc_create_sd_card :: sd_card where
  "mmc_create_sd_card =
     \<lparr>sd_mmc = 0, sd_vers = SD_VERSION_1_XX, sd_cid_name = replicate 7 0, sd_card_addr = 0, sd_bus4 = False,
      sd_not_v1_0 = False, sd_sdhc = False, sd_size_kb = 0,
      sd_cmd = \<lparr>mc_cmd = 0, mc_arg = 0, mc_resp_type = 0, mc_resp = replicate 4 0\<rparr>\<rparr>"

text \<open>The card that is handed to the new thread.\<close>

definition mmc_card_insert :: "'d device \<Rightarrow> u32 \<Rightarrow> (sd_card, 'd) io" where
  "mmc_card_insert D mmc =
     io_bind (reg_read D (mmc_at mmc ''PSR'')) (\<lambda>psr.
     io_bind (io_all [io_assert (bit_set 16 psr),
       mmc_set_bus_power D mmc,
       reg_write16 D (mmc_at mmc ''NISIER'') 0xC0,
       reg_write16 D (mmc_at mmc ''EISIER'') 0,
       reg_write16 D (mmc_at mmc ''EISTER'') 0xFFFF,
       reg_write16 D (mmc_at mmc ''NISTER'') (0x3B OR push_bit 6 1 OR push_bit 7 1 OR push_bit 15 1)])
     (\<lambda>_. io_return (mmc_create_sd_card\<lparr>sd_mmc := mmc\<rparr>)))"

definition mmc_interrupt_handler :: "'d device \<Rightarrow> u32 \<Rightarrow> u32 \<Rightarrow> (sd_card option, 'd) io" where
  "mmc_interrupt_handler D mmc status =
     io_bind (if bit_set 6 status then io_bind (mmc_card_insert D mmc) (\<lambda>c. io_return (Some c)) else io_return None) (\<lambda>c.
       if bit_set 7 status then io_fail (Panic ''Ejection not supported'') else io_return c)"

text \<open>Both interrupts, of the controllers at \<open>MMC0_base\<close> and \<open>MMC1_base\<close>.\<close>

definition mmc_interrupt :: "'d device \<Rightarrow> u32 \<Rightarrow> (sd_card option, 'd) io" where
  "mmc_interrupt D mmc =
     io_bind (reg_read16 D (mmc_at mmc ''NISTR'')) (\<lambda>status.
     io_bind (reg_write16 D (mmc_at mmc ''NISTR'') status) (\<lambda>_. mmc_interrupt_handler D mmc status))"

definition mmc_pins :: "(u32 \<times> gpio_func) list" where
  "mmc_pins = map (\<lambda>p. (p, GPIO_FUNC_E)) [30, 18, 19, 20, 21, 22, 28] @ map (\<lambda>p. (p, GPIO_FUNC_A)) [2, 3, 4, 5, 1, 0, 13]"

definition mmc_init :: "'d device \<Rightarrow> u32 \<Rightarrow> u32 \<Rightarrow> (unit, 'd) io" where
  "mmc_init D mmc0_interrupt mmc1_interrupt =
     io_bind (io_all [clk_pck_enable D 31, clk_pck_enable D 32,
       clk_gck_enable D 31 GCK_SRC_MCK_CLK 2, clk_gck_enable D 32 GCK_SRC_MCK_CLK 2,
       apic_add_handler D 31 mmc0_interrupt, apic_enable D 31, apic_add_handler D 32 mmc1_interrupt, apic_enable D 32,
       mmc_init_hardware D MMC1_base, mmc_init_hardware D MMC0_base]) (\<lambda>_.
     io_bind (reg_read D (mmc_at MMC0_base ''CA0R'')) (\<lambda>c0.
     io_bind (io_assert (bit_set 19 c0)) (\<lambda>_.
     io_bind (reg_read D (mmc_at MMC1_base ''CA0R'')) (\<lambda>c1.
     io_all (io_assert (bit_set 19 c1) #
       map (\<lambda>(pin, f). gpio_set_func D \<lparr>gp_hw = GPIOA_base, gp_pin = pin\<rparr> f) mmc_pins @
       [mmc_card_detect_irq_enable D MMC0_base, mmc_card_detect_irq_enable D MMC1_base])))))"

subsection \<open>Commands\<close>

text \<open>The wait for the command line; \<open>n\<close> is the counter before its decrement.\<close>

fun inhibit_loop :: "'d device \<Rightarrow> u32 \<Rightarrow> nat \<Rightarrow> (unit, 'd) io" where
  "inhibit_loop D mmc 0 = io_fail (Panic ''Cant send command'')"
| "inhibit_loop D mmc (Suc n) =
     (if n = 0 then io_fail (Panic ''Cant send command'')
      else io_bind (reg_read D (mmc_at mmc ''PSR'')) (\<lambda>v. if v AND 3 \<noteq> 0 then inhibit_loop D mmc n else io_return ()))"

definition mmc_wait_cmd_inhibit :: "'d device \<Rightarrow> u32 \<Rightarrow> (unit, 'd) io" where
  "mmc_wait_cmd_inhibit D mmc = inhibit_loop D mmc 10000"

definition mmc_construct_cmd_reg :: "u32 \<Rightarrow> u32 \<Rightarrow> u32" where
  "mmc_construct_cmd_reg cmd_index resp =
     (let r1 = push_bit 8 (cmd_index AND 0x3F) OR push_bit 3 1;
          r2 = (if resp = SD_RESP_R3 then r1 AND NOT (push_bit 3 1) else r1);
          r3 = (if resp = SD_RESP_R1b then r2 OR 3 else if resp = SD_RESP_R2 then r2 OR 1
                else if resp \<noteq> SD_RESP_NONE then r2 OR 2 else r2);
          r4 = r3 OR push_bit 4 1 in
      if resp = SD_RESP_R2 \<or> resp = SD_RESP_R3 then r4 AND NOT (push_bit 4 1) else r4)"

text \<open>The words of a block from the buffer port.\<close>

fun read_words :: "'d device \<Rightarrow> u32 \<Rightarrow> nat \<Rightarrow> (u32 list, 'd) io" where
  "read_words D mmc 0 = io_return []"
| "read_words D mmc (Suc n) =
     io_bind (reg_read D (mmc_at mmc ''BDPR'')) (\<lambda>w. io_bind (read_words D mmc n) (\<lambda>ws. io_return (w # ws)))"

text \<open>
  The loop over the blocks: \<open>words\<close> of each block, the counter \<open>n\<close> before its decrement and the number of
  blocks left. It ends with the last status and the words, when no block is left or when the transfer is
  complete.
\<close>

fun raw_loop :: "'d device \<Rightarrow> u32 \<Rightarrow> nat \<Rightarrow> nat \<Rightarrow> nat \<Rightarrow> (u32 \<times> u32 list, 'd) io" where
  "raw_loop D mmc words n left =
     io_bind (reg_read16 D (mmc_at mmc ''NISTR'')) (\<lambda>status.
       if bit_set 15 status then io_fail (Panic ''Error trying to read data'')
       else
         case left of
           0 \<Rightarrow> io_return (status, [])
         | Suc left' \<Rightarrow>
             io_bind (if bit_set 5 status then reg_read D (mmc_at mmc ''PSR'') else io_return 0) (\<lambda>psr.
               if bit_set 5 status \<and> bit_set 11 psr then
                 io_bind (read_words D mmc words) (\<lambda>ws.
                   if bit_set 1 status then io_return (status, ws)
                   else io_bind (raw_loop D mmc words n left') (\<lambda>(st, vs). io_return (st, ws @ vs)))
               else
                 case n of
                   0 \<Rightarrow> io_fail (Panic ''Timeout'')
                 | Suc n' \<Rightarrow>
                     if n' = 0 then io_fail (Panic ''Timeout'')
                     else if bit_set 1 status then io_return (status, [])
                     else raw_loop D mmc words n' left))"

declare raw_loop.simps [simp del]

definition mmc_read_raw :: "'d device \<Rightarrow> u32 \<Rightarrow> mmc_data \<Rightarrow> (u32 \<times> u32 list, 'd) io" where
  "mmc_read_raw D mmc dat =
     (if md_dir dat = 1 then io_return (0, [])
      else
        io_bind (raw_loop D mmc ((unat (md_block_size dat) + 3) div 4) 100000 (unat (md_blocks dat))) (\<lambda>(status, ws).
        io_bind (reg_read16 D (mmc_at mmc ''EISTR'')) (\<lambda>err.
        io_bind (io_all [reg_update8 D (mmc_at mmc ''SRR'') (\<lambda>v. v OR push_bit 1 1), io_wait D (mmc_at mmc ''SRR'') (\<lambda>v. \<not> bit v 1),
          reg_update8 D (mmc_at mmc ''SRR'') (\<lambda>v. v OR push_bit 2 1), io_wait D (mmc_at mmc ''SRR'') (\<lambda>v. \<not> bit v 2),
          reg_write16 D (mmc_at mmc ''EISTR'') err, reg_write16 D (mmc_at mmc ''NISTR'') status]) (\<lambda>_.
          io_return (1, ws)))))"

fun complete_loop :: "'d device \<Rightarrow> u32 \<Rightarrow> u32 \<Rightarrow> string \<Rightarrow> nat \<Rightarrow> (u32, 'd) io" where
  "complete_loop D mmc status_mask msg 0 = io_fail (Panic msg)"
| "complete_loop D mmc status_mask msg (Suc n) =
     io_bind (reg_read16 D (mmc_at mmc ''NISTR'')) (\<lambda>status.
       if n = 0 then io_fail (Panic msg)
       else if status AND status_mask = status_mask then io_return status
       else complete_loop D mmc status_mask msg n)"

text \<open>The descriptors of the advanced DMA: attributes and length in the first word, the address in the second.\<close>

definition adma_table :: "'d device \<Rightarrow> u32 \<Rightarrow> mmc_data \<Rightarrow> (unit, 'd) io" where
  "adma_table D adma dat =
     io_all (concat (map (\<lambda>i.
       [reg_write D (adma + 8 * of_nat i)
          ((if of_nat i = md_blocks dat - 1 then 0x23 else 0x21) OR push_bit 16 (md_block_size dat AND 0xFFFF)),
        reg_write D (adma + 8 * of_nat i + 4) (md_data dat + md_block_size dat * of_nat i)])
       [0..<unat (md_blocks dat)]))"

text \<open>The data stage that is set up before the command: the mode register and the block counts.\<close>

definition prepare_data :: "'d device \<Rightarrow> u32 \<Rightarrow> u32 \<Rightarrow> mmc_cmd \<Rightarrow> mmc_data \<Rightarrow> (unit, 'd) io" where
  "prepare_data D mmc adma cmd dat =
     (let mode = push_bit 1 1 OR (if md_dir dat = 0 then push_bit 4 1 else 0) OR (if md_blocks dat \<noteq> 0 then push_bit 5 1 else 0) in
      io_all [
        io_when (mc_cmd cmd = 18) (reg_update8 D (mmc_at mmc ''HC1R'') (\<lambda>v. (v AND NOT (push_bit 3 3)) OR push_bit 3 2)),
        reg_write D (mmc_at mmc ''TCR'') 0xE,
        reg_write16 D (mmc_at mmc ''BSR'') (md_block_size dat),
        io_when (md_blocks dat \<noteq> 0) (reg_write16 D (mmc_at mmc ''BCR'') (md_blocks dat)),
        reg_write16 D (mmc_at mmc ''TMR'') (if mc_cmd cmd = 18 then mode OR 1 else mode),
        io_when (mc_cmd cmd = 18) (io_all [
          if 16 < md_blocks dat then io_fail (Panic ''Too many blocks requested'') else io_return (),
          adma_table D adma dat,
          reg_write D (mmc_at mmc ''ASAR'') adma])])"

definition read_resp :: "'d device \<Rightarrow> u32 \<Rightarrow> nat \<Rightarrow> (u32, 'd) io" where
  "read_resp D mmc i = reg_read D (mmc_at mmc ''RR'' + 4 * of_nat i)"

text \<open>The response: all four words for the long one, else the first.\<close>

definition take_response :: "'d device \<Rightarrow> u32 \<Rightarrow> mmc_cmd \<Rightarrow> (mmc_cmd, 'd) io" where
  "take_response D mmc cmd =
     (if mc_resp_type cmd = SD_RESP_R2 then
        io_bind (read_resp D mmc 0) (\<lambda>a. io_bind (read_resp D mmc 1) (\<lambda>b.
        io_bind (read_resp D mmc 2) (\<lambda>c. io_bind (read_resp D mmc 3) (\<lambda>d. io_return (cmd\<lparr>mc_resp := [a, b, c, d]\<rparr>)))))
      else io_bind (read_resp D mmc 0) (\<lambda>a. io_return (cmd\<lparr>mc_resp := (mc_resp cmd)[0 := a]\<rparr>)))"

text \<open>The data stage after the response.\<close>

definition data_stage :: "'d device \<Rightarrow> u32 \<Rightarrow> mmc_cmd \<Rightarrow> mmc_data \<Rightarrow> (u32 list, 'd) io" where
  "data_stage D mmc cmd dat =
     (if mc_cmd cmd = 18 then
        io_bind (complete_loop D mmc (push_bit 1 1) ''Timeout on advanced DMA read'' 10000) (\<lambda>_.
        io_bind (reg_write16 D (mmc_at mmc ''NISTR'') (push_bit 1 1)) (\<lambda>_.
        io_bind (reg_read16 D (mmc_at mmc ''NISTR'')) (\<lambda>st.
          if bit_set 15 st then io_fail (Panic ''We have errors'') else io_return [])))
      else
        io_bind (mmc_read_raw D mmc dat) (\<lambda>(ok, ws).
          if ok = 0 then io_fail (Panic ''Failed to read data'') else io_return ws))"

definition mmc_send_command :: "'d device \<Rightarrow> u32 \<Rightarrow> u32 \<Rightarrow> mmc_cmd \<Rightarrow> mmc_data option \<Rightarrow> (u32 \<times> mmc_cmd \<times> u32 list, 'd) io" where
  "mmc_send_command D mmc adma cmd dat =
     io_bind (mmc_wait_cmd_inhibit D mmc) (\<lambda>_.
       let cmd_reg = mmc_construct_cmd_reg (mc_cmd cmd) (mc_resp_type cmd);
           status_mask = (if mc_resp_type cmd = SD_RESP_R1b then 1 OR push_bit 1 1 else 1) in
       io_bind (case dat of None \<Rightarrow> io_return () | Some dt \<Rightarrow> prepare_data D mmc adma cmd dt) (\<lambda>_.
       io_bind (reg_write D (mmc_at mmc ''ARG1R'') (mc_arg cmd)) (\<lambda>_.
       io_bind (reg_write16 D (mmc_at mmc ''CR'') (if dat = None then cmd_reg else cmd_reg OR push_bit 5 1)) (\<lambda>_.
       io_bind (complete_loop D mmc status_mask ''Timeout during command completion'' 10000) (\<lambda>status.
       io_bind (reg_write16 D (mmc_at mmc ''NISTR'') (status AND NOT (push_bit 4 3))) (\<lambda>_.
       io_bind (take_response D mmc cmd) (\<lambda>cmd'.
       io_bind (case dat of None \<Rightarrow> io_return [] | Some dt \<Rightarrow> data_stage D mmc cmd dt) (\<lambda>ws.
         io_return (1, cmd', ws)))))))))"


subsection \<open>The command register\<close>

text \<open>The low byte: checks, length of the response.\<close>

definition resp_bits :: "u32 \<Rightarrow> u32" where
  "resp_bits rt = (if rt = SD_RESP_NONE then 0x18 else if rt = SD_RESP_R1b then 0x1B else if rt = SD_RESP_R2 then 0x09
     else if rt = SD_RESP_R3 then 0x02 else 0x1A)"

lemma cmd_reg_split:
  assumes "rt < 7"
  shows "mmc_construct_cmd_reg num rt = push_bit 8 (num AND 0x3F) OR resp_bits rt"
proof -
  have "push_bit 8 n AND NOT (2 ^ k) = push_bit 8 n" if "k < 8" for n :: u32 and k
    using that by (intro bit_word_eqI) (auto simp: bit_and_iff bit_not_iff bit_push_bit_iff bit_exp_iff)
  from this [of 3] this [of 4]
  have keep: "push_bit 8 n AND - 9 = push_bit 8 n" "push_bit 8 n AND - 17 = push_bit 8 n" for n :: u32
    by simp_all
  have "unat rt < 7" using assms by (simp add: word_less_nat_alt)
  then have "rt = 0 \<or> rt = 1 \<or> rt = 2 \<or> rt = 3 \<or> rt = 4 \<or> rt = 5 \<or> rt = 6"
    by (simp add: word_unat_eq_iff) arith
  moreover define n where "n = num AND 0x3F"
  ultimately show ?thesis unfolding mmc_construct_cmd_reg_def n_def [symmetric]
    by (elim disjE) (simp_all add: resp_bits_def sd_resp_defs Let_def bit.conj_disj_distrib2 keep or.assoc)
qed

text \<open>The command register tells the controller what the response type means: the number of the command,
  the length of the response (none, 136 bits, 48 bits, 48 bits with busy), a check of the response sum
  except for R3, a check of the echoed number except for R2 and R3, and no data stage.\<close>

theorem cmd_reg_fields:
  assumes "num < 64" and "rt < 7"
  shows "drop_bit 8 (mmc_construct_cmd_reg num rt) = num \<and>
    mmc_construct_cmd_reg num rt AND 3 =
      (if rt = SD_RESP_NONE then 0 else if rt = SD_RESP_R2 then 1 else if rt = SD_RESP_R1b then 3 else 2) \<and>
    (bit_set 3 (mmc_construct_cmd_reg num rt) \<longleftrightarrow> rt \<noteq> SD_RESP_R3) \<and>
    (bit_set 4 (mmc_construct_cmd_reg num rt) \<longleftrightarrow> rt \<notin> {SD_RESP_R2, SD_RESP_R3}) \<and>
    mmc_construct_cmd_reg num rt AND 0xE4 = 0"
proof -
  have t: "take_bit 6 num = num" using assms(1)
    by (simp add: word_unat_eq_iff word_less_nat_alt unsigned_take_bit_eq take_bit_nat_eq_self)
  then have n: "num AND 0x3F = num" by (simp add: take_bit_eq_mask mask_eq_exp_minus_1)
  have "i < 6" if "bit num i" for i using that t by (metis bit_take_bit_iff)
  then have up: "drop_bit 8 (push_bit 8 num) = num" by (intro bit_word_eqI) (force simp: bit_simps)
  have "push_bit 8 num AND mask 8 = 0"
    by (intro bit_word_eqI) (auto simp: bit_simps)
  then have m: "push_bit 8 num AND 0xFF = 0" by (simp add: mask_eq_exp_minus_1)
  have sub: "push_bit 8 num AND k = 0" if "0xFF AND k = k" for k
  proof -
    have "push_bit 8 num AND k = push_bit 8 num AND (0xFF AND k)" using that by simp
    also have "\<dots> = (push_bit 8 num AND 0xFF) AND k" by (simp only: and.assoc)
    finally show ?thesis using m by simp
  qed
  have low: "push_bit 8 num AND 3 = 0" "push_bit 8 num AND 0xE4 = 0" by (rule sub, simp)+
  have low': "\<not> bit (push_bit 8 num) 3" "\<not> bit (push_bit 8 num) 4" by (simp_all add: bit_push_bit_iff)
  show ?thesis
    unfolding cmd_reg_split [OF assms(2)] n
    using up low low' by (auto simp: resp_bits_def sd_resp_defs bit.conj_disj_distrib2 bit_or_iff drop_bit_or)
qed

subsection \<open>The clock of the card\<close>

text \<open>The divider the clock register holds, and the clock it gives from a base of 83 MHz, by the formula of the source.\<close>

definition reg_div :: "u32 \<Rightarrow> nat" where
  "reg_div reg = unat (drop_bit 8 reg AND 0xFF) + 256 * unat (drop_bit 6 reg AND 3)"

definition card_clock :: "u32 \<Rightarrow> nat" where
  "card_clock reg = 83000000 div (reg_div reg + 1)"


lemma cmd_reg_fields_witness:
  "drop_bit 8 (mmc_construct_cmd_reg 17 SD_RESP_R1) = 17 \<and> bit_set 4 (mmc_construct_cmd_reg 17 SD_RESP_R1)"
  using cmd_reg_fields [of 17 SD_RESP_R1] by (simp add: sd_resp_defs)

lemma reg_div_clock_field: "reg_div (clock_field w reg) = unat w mod 1024" for w :: u16
proof -
  have m: "0x3FF = (mask 10 :: u32)" "(3 :: u32) = mask 2" "(0xFF :: u32) = mask 8" by (simp_all add: mask_eq_exp_minus_1)
  have "drop_bit 8 (clock_field w reg) AND 0xFF = ucast (take_bit 8 w)"
    unfolding clock_field_def m by (intro bit_word_eqI) (auto simp: bit_simps dest: bit_imp_le_length)
  then have lo: "unat (drop_bit 8 (clock_field w reg) AND 0xFF) = unat w mod 256"
    by (simp add: unsigned_take_bit_eq) (simp add: take_bit_eq_mod)
  have "drop_bit 6 (clock_field w reg) AND 3 = ucast (take_bit 2 (drop_bit 8 w))"
    unfolding clock_field_def m by (intro bit_word_eqI) (auto simp: bit_simps dest: bit_imp_le_length)
  moreover have d: "take_bit 2 (unat (drop_bit 8 w)) = unat w div 256 mod 4"
    by (simp add: unat_drop_bit_eq take_bit_eq_mod) (simp add: drop_bit_eq_div)
  ultimately have "unat (drop_bit 6 (clock_field w reg) AND 3) = unat w div 256 mod 4"
    using d by (simp add: unsigned_take_bit_eq)
  moreover have "unat w mod 1024 = 256 * (unat w div 256 mod 4) + unat w mod 256"
    using mod_mult2_eq [of "unat w" 256 4] by simp
  ultimately show ?thesis using lo by (simp add: reg_div_def)
qed

text \<open>The clock is never slower than the limit it is asked to keep. For any frequency from 1 Hz up to the base,
  whatever the clock register held, the divider that ends in the register gives a clock of at least that
  frequency, because the division rounds the divider down; it is the intended divider for every
  frequency from 81055 Hz on.\<close>

theorem card_clock_not_below:
  assumes "0 < f" and "f \<le> 83000000"
  shows "unat f \<le> card_clock (clock_field (clock_div f) reg) \<and>
    (81055 \<le> f \<longrightarrow> reg_div (clock_field (clock_div f) reg) + 1 = 83000000 div unat f)"
proof -
  let ?q = "83000000 div unat f"
  have f: "0 < unat f" "unat f \<le> 83000000" using assms by (simp_all add: word_less_nat_alt word_le_nat_alt)
  then have q: "1 \<le> ?q" "?q \<le> 83000000" by (simp_all add: Suc_le_eq div_greater_zero_iff div_le_dividend)
  have "unat (83000000 div f) = ?q" by (simp add: unat_div)
  then have "unat (83000000 div f - 1) = ?q - 1"
    using q(1) by (subst unat_sub) (simp_all add: word_le_nat_alt)
  then have c: "unat (clock_div f) = (?q - 1) mod 65536"
    by (simp add: clock_div_def unsigned_ucast_eq take_bit_eq_mod)
  have r: "reg_div (clock_field w reg) = unat w mod 1024" for w :: u16 by (rule reg_div_clock_field)
  have d: "reg_div (clock_field (clock_div f) reg) = (?q - 1) mod 1024"
    unfolding r c by (simp add: mod_mod_cancel)
  then have "reg_div (clock_field (clock_div f) reg) + 1 \<le> ?q" using q(1) mod_less_eq_dividend [of "?q - 1" 1024] by linarith
  then have "83000000 div ?q \<le> card_clock (clock_field (clock_div f) reg)"
    unfolding card_clock_def by (intro div_le_mono2) simp_all
  moreover have "unat f \<le> 83000000 div ?q" 
    by (rule less_eq_div_iff_mult_less_eq [THEN iffD2]) (use q(1) in \<open>simp_all add: mult.commute\<close>)
  moreover have "?q \<le> 1024" if "81055 \<le> f"
  proof -
    have "81055 \<le> unat f" using that by (simp add: word_le_nat_alt)
    then have "?q \<le> 83000000 div 81055" by (intro div_le_mono2) simp_all
    then show ?thesis by simp
  qed
  ultimately show ?thesis using d q(1) by auto
qed

lemma card_clock_not_below_witness:
  "25000000 \<le> card_clock (clock_field (clock_div 25000000) 0) \<and> card_clock (clock_field (clock_div 25000000) 0) = 27666666"
  using card_clock_not_below [of 25000000 0] by (simp add: card_clock_def)

end
