(* ===== verification/Sd.thy ===== *)
theory Sd
  imports Mmc Bytes
begin

text \<open>
  The SD protocol of \<^verbatim>\<open>drivers/sd.c\<close>, over the functions of a host controller: \<open>W\<close> sends a command, and
  registers are those of the device \<open>D\<close>. What a data stage delivers is a list of words, stored one after
  the other from the start of the caller's buffer. The protocol relies on little of the controller; the
  locale \<open>sd_host\<close> names it, and the driver of theory \<^verbatim>\<open>Mmc\<close> provides it.
\<close>

type_synonym 'h sd_write = "mmc_cmd \<Rightarrow> mmc_data option \<Rightarrow> (u32 \<times> mmc_cmd \<times> u32 list, 'h) io"

definition words_bytes :: "u32 list \<Rightarrow> u8 list" where
  "words_bytes ws = concat (map le32_bytes ws)"

text \<open>Fill in the command of the card, send it, and panic on a zero status.\<close>

definition sd_issue :: "'h sd_write \<Rightarrow> u32 \<Rightarrow> u32 \<Rightarrow> u32 \<Rightarrow> mmc_data option \<Rightarrow> string \<Rightarrow> sd_card \<Rightarrow> (sd_card \<times> u32 list, 'h) io" where
  "sd_issue W num arg rt dat msg sd =
     io_bind (W ((sd_cmd sd)\<lparr>mc_cmd := num, mc_arg := arg, mc_resp_type := rt\<rparr>) dat) (\<lambda>(status, cmd, ws).
       if status = 0 then io_fail (Panic msg) else io_return (sd\<lparr>sd_cmd := cmd\<rparr>, ws))"

definition resp :: "sd_card \<Rightarrow> nat \<Rightarrow> u32" where
  "resp sd i = mc_resp (sd_cmd sd) ! i"

subsection \<open>Identification\<close>

definition sd_go_to_idle :: "'h sd_write \<Rightarrow> sd_card \<Rightarrow> (sd_card, 'h) io" where
  "sd_go_to_idle W sd =
     io_bind (sd_issue W 0 0 SD_RESP_NONE None ''Go to idle command failed'' sd) (\<lambda>(sd1, ws). io_return sd1)"

definition sd_send_interface_condition :: "'h sd_write \<Rightarrow> sd_card \<Rightarrow> (sd_card, 'h) io" where
  "sd_send_interface_condition W sd =
     (let arg = push_bit 8 1 OR 0xAA in
      io_bind (sd_issue W 8 (arg OR 0xAA) SD_RESP_R7 None ''Send interface condition failed'' sd) (\<lambda>(sd1, ws).
        io_return (sd1\<lparr>sd_vers := (if resp sd1 0 AND arg \<noteq> arg then SD_VERSION_1_XX else SD_VERSION_2_00)\<rparr>)))"

text \<open>The command of its own that announces an application command; its response is not looked at.\<close>

definition sd_cmd55 :: "'h sd_write \<Rightarrow> sd_card \<Rightarrow> (unit, 'h) io" where
  "sd_cmd55 W sd =
     io_bind (W \<lparr>mc_cmd = 55, mc_arg = sd_card_addr sd, mc_resp_type = SD_RESP_R1, mc_resp = replicate 4 0\<rparr> None)
       (\<lambda>(status, cmd, ws). if status = 0 then io_fail (Panic ''Command 55 returned an error'') else io_return ())"

definition op_cond_arg :: "sd_version \<Rightarrow> u32 \<Rightarrow> u32" where
  "op_cond_arg v cap =
     (if v = SD_VERSION_2_00 then push_bit 30 1 else 0) OR (if bit_set 24 cap then push_bit 20 3 else 0) OR
     (if bit_set 25 cap then push_bit 17 3 else 0)"

fun op_cond_loop :: "'h sd_write \<Rightarrow> u32 \<Rightarrow> nat \<Rightarrow> sd_card \<Rightarrow> (sd_card, 'h) io" where
  "op_cond_loop W arg 0 sd = io_fail (Panic ''Timeout on ACMD41'')"
| "op_cond_loop W arg (Suc n) sd =
     io_bind (sd_cmd55 W sd) (\<lambda>_.
     io_bind (sd_issue W 41 arg SD_RESP_R3 None ''ACMD41 error'' sd) (\<lambda>(sd1, ws).
       if bit_set 31 (resp sd1 0) then io_return (sd1\<lparr>sd_sdhc := bit_set 30 (resp sd1 0)\<rparr>)
       else op_cond_loop W arg n sd1))"

definition sd_send_op_cond :: "'h device \<Rightarrow> 'h sd_write \<Rightarrow> sd_card \<Rightarrow> (sd_card, 'h) io" where
  "sd_send_op_cond D W sd =
     io_bind (reg_read D (mmc_at (sd_mmc sd) ''CA0R'')) (\<lambda>cap. op_cond_loop W (op_cond_arg (sd_vers sd) cap) 1000 sd)"

text \<open>The name is taken from the bytes of the response, without a test of the status.\<close>

definition sd_send_all_cid :: "'h sd_write \<Rightarrow> sd_card \<Rightarrow> (sd_card, 'h) io" where
  "sd_send_all_cid W sd =
     io_bind (W ((sd_cmd sd)\<lparr>mc_cmd := 2, mc_arg := 0, mc_resp_type := SD_RESP_R2\<rparr>) None) (\<lambda>(status, cmd, ws).
       let src = words_bytes (mc_resp cmd) in
       io_return (sd\<lparr>sd_cmd := cmd, sd_cid_name := map (\<lambda>i. src ! (12 - i)) [0..<6] @ [0]\<rparr>))"

definition sd_send_relative_addr :: "'h sd_write \<Rightarrow> sd_card \<Rightarrow> (sd_card, 'h) io" where
  "sd_send_relative_addr W sd =
     io_bind (sd_issue W 3 0 SD_RESP_R6 None ''Error receiving RCA'' sd) (\<lambda>(sd1, ws).
       io_return (sd1\<lparr>sd_card_addr := 0xFFFF0000 AND resp sd1 0\<rparr>))"

text \<open>The size in kilobytes from the bytes of the card specific data.\<close>

definition csd_size :: "u8 list \<Rightarrow> u32" where
  "csd_size csd =
     (if drop_bit 6 (csd ! 14) AND 3 = 1 then
        let c_size = push_bit 16 (ucast (csd ! 7 AND 0x3F)) OR push_bit 8 (ucast (csd ! 6)) OR ucast (csd ! 5) in
        (c_size + 1) * 512
      else
        let c_size = (ucast (drop_bit 6 (csd ! 7) AND 3) :: u32) OR push_bit 2 (ucast (csd ! 8)) OR push_bit 10 (ucast (csd ! 9 AND 3));
            c_size_mult = (push_bit 1 (ucast (csd ! 6 AND 3)) :: u32) OR ucast (drop_bit 7 (csd ! 5) AND 1);
            read_bl_len = (ucast (csd ! 10 AND 0xF) :: u32) in
        (c_size + 1) * shl_one (c_size_mult + 2) * shl_one read_bl_len div 1000)"

definition sd_get_csd :: "'h sd_write \<Rightarrow> sd_card \<Rightarrow> (sd_card, 'h) io" where
  "sd_get_csd W sd =
     io_bind (sd_issue W 9 (sd_card_addr sd) SD_RESP_R2 None ''Error receiving RCA'' sd) (\<lambda>(sd1, ws).
       io_return (sd1\<lparr>sd_size_kb := csd_size (words_bytes (mc_resp (sd_cmd sd1)))\<rparr>))"

definition sd_select_deselect :: "'h sd_write \<Rightarrow> sd_card \<Rightarrow> (sd_card, 'h) io" where
  "sd_select_deselect W sd =
     io_bind (sd_issue W 7 (sd_card_addr sd) SD_RESP_R1b None ''Select deselect error'' sd) (\<lambda>(sd1, ws). io_return sd1)"

fun invert_loop :: "nat \<Rightarrow> u32 \<Rightarrow> u32 \<Rightarrow> u32" where
  "invert_loop 0 reg res = res"
| "invert_loop (Suc n) reg res = invert_loop n (drop_bit 8 reg) (push_bit 8 res OR (reg AND 0xFF))"

definition sd_invert_byte_order :: "u32 \<Rightarrow> u32" where
  "sd_invert_byte_order dat = invert_loop 4 dat 0"

definition data_in :: "u32 \<Rightarrow> u32 \<Rightarrow> mmc_data" where
  "data_in addr bytes = \<lparr>md_data = addr, md_dir = 0, md_blocks = 1, md_block_size = bytes\<rparr>"

text \<open>The words of the register are in a buffer of the stack frame; one that is not delivered is not initialised.\<close>

definition sd_get_scr :: "'h sd_write \<Rightarrow> u32 \<Rightarrow> sd_card \<Rightarrow> (sd_card, 'h) io" where
  "sd_get_scr W data_buff sd =
     io_bind (sd_cmd55 W sd) (\<lambda>_.
     io_bind (sd_issue W 51 0 SD_RESP_R1 (Some (data_in data_buff 8)) ''ACMD51 fails'' sd) (\<lambda>(sd1, ws).
     io_bind (\<lambda>h. res_bind (read_at ws 0) (\<lambda>w. Inr (sd_invert_byte_order w, h))) (\<lambda>scr.
       let sd2 = (if drop_bit 16 scr AND 0xF AND push_bit 2 1 \<noteq> 0 then sd1\<lparr>sd_bus4 := True\<rparr> else sd1) in
       io_return (if drop_bit 24 scr AND 0xF \<noteq> 0 then sd2\<lparr>sd_not_v1_0 := True\<rparr> else sd2))))"

definition sd_set_bus_width :: "'h sd_write \<Rightarrow> u32 \<Rightarrow> sd_card \<Rightarrow> (sd_card, 'h) io" where
  "sd_set_bus_width W bus_width sd =
     io_bind (io_assert (bus_width = 1 \<or> bus_width = 4)) (\<lambda>_.
     io_bind (sd_cmd55 W sd) (\<lambda>_.
     io_bind (sd_issue W 6 (if bus_width = 4 then 2 else 0) SD_RESP_R1 None ''Cant set bus width'' sd) (\<lambda>(sd1, ws).
       if resp sd1 0 AND 0xFFF80000 \<noteq> 0 then io_fail (Panic ''Error'') else io_return sd1)))"

text \<open>The test for high speed, which no one calls: on success it ends without a result.\<close>

definition sd_check_high_speed :: "'h sd_write \<Rightarrow> u32 \<Rightarrow> sd_card \<Rightarrow> (sd_card \<times> u32 option, 'h) io" where
  "sd_check_high_speed W buffer sd =
     io_bind (sd_issue W 6 (push_bit 12 0xF OR push_bit 8 0xF OR push_bit 4 0xF) SD_RESP_R1 (Some (data_in buffer 64)) ''Error'' sd)
       (\<lambda>(sd1, ws). io_return (sd1, if bit_set 7 (resp sd1 0) then Some 0 else None))"

subsection \<open>Reading\<close>

fun ready_loop :: "'h sd_write \<Rightarrow> nat \<Rightarrow> sd_card \<Rightarrow> (bool \<times> sd_card, 'h) io" where
  "ready_loop W 0 sd = io_return (False, sd)"
| "ready_loop W (Suc n) sd =
     io_bind (sd_issue W 13 (sd_card_addr sd) SD_RESP_R1 None ''Error'' sd) (\<lambda>(sd1, ws).
       if n = 0 then io_return (False, sd1)
       else if bit_set 8 (resp sd1 0) then io_return (True, sd1)
       else ready_loop W n sd1)"

definition sd_check_chard_ready :: "'h sd_write \<Rightarrow> sd_card \<Rightarrow> (bool \<times> sd_card, 'h) io" where
  "sd_check_chard_ready W sd = ready_loop W 20000 sd"

text \<open>One turn of the loop: the words of the sector \<open>sect\<close>, stored at \<open>buffer\<close>.\<close>

definition sd_read_sector :: "'h sd_write \<Rightarrow> sd_card \<Rightarrow> u32 \<Rightarrow> u32 \<Rightarrow> (sd_card \<times> u32 list, 'h) io" where
  "sd_read_sector W sd sect buffer =
     io_bind (sd_check_chard_ready W sd) (\<lambda>(ready, sd1).
       if \<not> ready then io_fail (Panic ''Card is not ready'')
       else
         io_bind (sd_issue W 17 (if sd_sdhc sd1 then sect else sect * 512) SD_RESP_R1 (Some (data_in buffer 512)) ''Error'' sd1)
           (\<lambda>(sd2, ws). if resp sd2 0 AND 0xFFF80000 \<noteq> 0 then io_fail (Panic ''Write error'') else io_return (sd2, ws)))"

fun read_sectors :: "'h sd_write \<Rightarrow> sd_card \<Rightarrow> u32 \<Rightarrow> u32 \<Rightarrow> nat \<Rightarrow> (sd_card \<times> u32 list list, 'h) io" where
  "read_sectors W sd sect buffer 0 = io_return (sd, [])"
| "read_sectors W sd sect buffer (Suc n) =
     io_bind (sd_read_sector W sd sect buffer) (\<lambda>(sd1, ws).
     io_bind (read_sectors W sd1 (sect + 1) (buffer + 512) n) (\<lambda>(sd2, wss). io_return (sd2, ws # wss)))"

definition sd_read :: "'h sd_write \<Rightarrow> sd_card \<Rightarrow> u32 \<Rightarrow> u32 \<Rightarrow> u32 \<Rightarrow> (sd_card \<times> u8 list list, 'h) io" where
  "sd_read W sd sect cnt buffer =
     io_bind (io_assert (buffer \<noteq> 0)) (\<lambda>_.
     io_bind (read_sectors W sd sect buffer (unat cnt)) (\<lambda>(sd1, wss). io_return (sd1, map words_bytes wss)))"

subsection \<open>The initialisation of a card\<close>

definition sd_init_struct :: "sd_card \<Rightarrow> sd_card" where
  "sd_init_struct sd = sd\<lparr>sd_card_addr := 0\<rparr>"

text \<open>The thread up to the creation of the disk: the card that is then added to the disks.\<close>

definition sd_init_thread :: "'h device \<Rightarrow> 'h sd_write \<Rightarrow> u32 \<Rightarrow> sd_card \<Rightarrow> (sd_card, 'h) io" where
  "sd_init_thread D W data_buff sd =
     (let mmc = sd_mmc sd in
      io_bind (mmc_set_frequency D mmc 400000) (\<lambda>_.
      io_bind (mmc_set_bus_width D mmc 1) (\<lambda>_.
      io_bind (sd_go_to_idle W (sd_init_struct sd)) (\<lambda>sd1.
      io_bind (sd_send_interface_condition W sd1) (\<lambda>sd2.
      io_bind (sd_send_op_cond D W sd2) (\<lambda>sd3.
      io_bind (sd_send_all_cid W sd3) (\<lambda>sd4.
      io_bind (sd_send_relative_addr W sd4) (\<lambda>sd5.
      io_bind (sd_get_csd W sd5) (\<lambda>sd6.
      io_bind (sd_select_deselect W sd6) (\<lambda>sd7.
      io_bind (sd_get_scr W data_buff sd7) (\<lambda>sd8.
      io_bind (if sd_bus4 sd8
               then io_bind (sd_set_bus_width W 4 sd8) (\<lambda>sd9. io_bind (mmc_set_bus_width D mmc 4) (\<lambda>_. io_return sd9))
               else io_return sd8) (\<lambda>sd9.
      io_bind (mmc_set_frequency D mmc 25000000) (\<lambda>_. io_return sd9)))))))))))))"


subsection \<open>The size of a card\<close>

text \<open>
  The controller delivers the bits 127 to 8 of the register in four words, so byte \<open>k\<close> of the
  response holds the bits from \<open>8 * (k + 1)\<close> on.
\<close>

definition resp_byte :: "128 word \<Rightarrow> nat \<Rightarrow> u8" where
  "resp_byte c k = ucast (drop_bit (8 * (k + 1)) c)"

definition csd_bytes :: "128 word \<Rightarrow> u8 list" where
  "csd_bytes c = map (resp_byte c) [0..<15] @ [0]"

text \<open>The field of the bits \<open>hi\<close> to \<open>lo\<close> of the register.\<close>

definition csd_field :: "128 word \<Rightarrow> nat \<Rightarrow> nat \<Rightarrow> u32" where
  "csd_field c hi lo = ucast (take_bit (hi + 1 - lo) (drop_bit lo c))"

lemma csd_bytes_nth: "k < 15 \<Longrightarrow> csd_bytes c ! k = resp_byte c k"
  by (simp add: csd_bytes_def nth_append)

lemma u8_masks: "(b AND 3 :: u8) = take_bit 2 b" "(b AND 0xF :: u8) = take_bit 4 b" "(b AND 0x3F :: u8) = take_bit 6 b" "(b AND 1 :: u8) = take_bit 1 b"
  by (simp_all add: take_bit_eq_mask mask_eq_exp_minus_1)

lemma csd_fields_v2:
  "push_bit 16 (ucast (resp_byte c 7 AND 0x3F)) OR push_bit 8 (ucast (resp_byte c 6)) OR ucast (resp_byte c 5) = csd_field c 69 48"
  unfolding u8_masks
  by (intro bit_word_eqI) (auto simp: resp_byte_def csd_field_def bit_simps dest: bit_imp_le_length)

lemma csd_fields_v1:
  "(ucast (drop_bit 6 (resp_byte c 7) AND 3) :: u32) OR push_bit 2 (ucast (resp_byte c 8)) OR push_bit 10 (ucast (resp_byte c 9 AND 3)) =
     csd_field c 81 70"
  "(ucast (resp_byte c 10 AND 0xF) :: u32) = csd_field c 91 88"
  unfolding u8_masks
  by (intro bit_word_eqI; auto simp: resp_byte_def csd_field_def bit_simps dest: bit_imp_le_length)+

lemma csd_mult_v1: "(push_bit 1 (ucast (resp_byte c 6 AND 3)) :: u32) OR ucast (drop_bit 7 (resp_byte c 5) AND 1) = csd_field c 57 55"
proof (rule bit_word_eqI)
  fix n :: nat
  have "n = 0 \<or> n = 1 \<or> n = 2 \<or> 3 \<le> n" by linarith
  then show "bit ((push_bit 1 (ucast (resp_byte c 6 AND 3)) :: u32) OR ucast (drop_bit 7 (resp_byte c 5) AND 1)) n \<longleftrightarrow> bit (csd_field c 57 55) n"
    unfolding u8_masks resp_byte_def csd_field_def
    by (auto simp only: bit_or_iff bit_push_bit_iff bit_take_bit_iff bit_drop_bit_eq bit_unsigned_iff o_apply) simp_all
qed

text \<open>The size the driver takes from the card specific data of a card. With the structure of version
  two it is the size the field \<open>C_SIZE\<close> means, \<open>(C_SIZE + 1) * 512\<close> kilobytes. With the structure of
  version one every field is read from the byte above its place: the bits 81 to 70, 57 to 55 and 91 to 88
  where the standard has \<open>C_SIZE\<close> in 73 to 62, \<open>C_SIZE_MULT\<close> in 49 to 47 and \<open>READ_BL_LEN\<close> in 83 to 80.\<close>

theorem csd_size_fields:
  "csd_size (csd_bytes c) =
    (if csd_field c 127 126 = 1 then (csd_field c 69 48 + 1) * 512
     else (csd_field c 81 70 + 1) * shl_one (csd_field c 57 55 + 2) * shl_one (csd_field c 91 88) div 1000)"
proof -
  have "drop_bit 6 (resp_byte c 14) AND 3 = 1 \<longleftrightarrow> csd_field c 127 126 = 1"
  proof -
    have "(ucast (drop_bit 6 (resp_byte c 14) AND 3) :: u32) = csd_field c 127 126"
      unfolding u8_masks
      by (intro bit_word_eqI) (auto simp: resp_byte_def csd_field_def bit_simps dest: bit_imp_le_length)
    moreover have "(b :: u8) = 1 \<longleftrightarrow> (ucast b :: u32) = 1" for b
      by (simp add: word_unat_eq_iff)
    ultimately show ?thesis by simp
  qed
  then show ?thesis
    by (simp add: csd_size_def csd_bytes_nth Let_def csd_fields_v1 csd_fields_v2 csd_mult_v1 [simplified])
qed


subsection \<open>Reading sectors\<close>

text \<open>
  What the protocol relies on for reading: a host controller with a card in it whose sectors are
  \<open>content\<close>. In the states \<open>ok\<close>, the status command answers, with the ready bit clear for the next
  \<open>busy h\<close> times; and the command that reads a sector, addressed as the kind of card wants it, delivers
  the bytes of the sector with a clean status, and the card needs less than the allowed number of attempts
  to be ready again.
\<close>

definition answers :: "'h sd_write \<Rightarrow> mmc_cmd \<Rightarrow> mmc_data option \<Rightarrow> 'h \<Rightarrow> u32 \<Rightarrow> u32 list \<Rightarrow> 'h \<Rightarrow> bool" where
  "answers W c dat h r ws h' \<longleftrightarrow> W c dat h = Inr ((1, c\<lparr>mc_resp := (mc_resp c)[0 := r]\<rparr>, ws), h')"

definition serves_card :: "'h sd_write \<Rightarrow> ('h \<Rightarrow> bool) \<Rightarrow> ('h \<Rightarrow> nat) \<Rightarrow> bool \<Rightarrow> u32 \<Rightarrow> (u32 \<Rightarrow> u8 list option) \<Rightarrow> bool" where
  "serves_card W ok busy sdhc rca content \<longleftrightarrow>
     (\<forall>h c. ok h \<longrightarrow>
        busy h < 19999 \<and>
        (mc_cmd c = 13 \<and> mc_arg c = rca \<and> mc_resp_type c = SD_RESP_R1 \<longrightarrow>
           (\<exists>r h'. answers W c None h r [] h' \<and> ok h' \<and> busy h' = busy h - 1 \<and> (bit_set 8 r \<longleftrightarrow> busy h = 0))) \<and>
        (\<forall>s bs buf. content s = Some bs \<and> mc_cmd c = 17 \<and> mc_arg c = (if sdhc then s else s * 512) \<and> mc_resp_type c = SD_RESP_R1 \<longrightarrow>
           (\<exists>r ws h'. answers W c (Some (data_in buf 512)) h r ws h' \<and> ok h' \<and> r AND 0xFFF80000 = 0 \<and> words_bytes ws = bs)))"

lemma serves_card_status:
  "serves_card W ok busy sdhc rca content \<Longrightarrow> ok h \<Longrightarrow> mc_cmd c = 13 \<Longrightarrow> mc_arg c = rca \<Longrightarrow> mc_resp_type c = SD_RESP_R1 \<Longrightarrow>
   \<exists>r h'. answers W c None h r [] h' \<and> ok h' \<and> busy h' = busy h - 1 \<and> (bit_set 8 r \<longleftrightarrow> busy h = 0)"
  and serves_card_read:
  "serves_card W ok busy sdhc rca content \<Longrightarrow> ok h \<Longrightarrow> content s = Some bs \<Longrightarrow> mc_cmd c = 17 \<Longrightarrow>
   mc_arg c = (if sdhc then s else s * 512) \<Longrightarrow> mc_resp_type c = SD_RESP_R1 \<Longrightarrow>
   \<exists>r ws h'. answers W c (Some (data_in buf 512)) h r ws h' \<and> ok h' \<and> r AND 0xFFF80000 = 0 \<and> words_bytes ws = bs"
  unfolding serves_card_def by blast+

text \<open>The card as the driver knows it.\<close>

definition knows_card :: "sd_card \<Rightarrow> bool \<Rightarrow> u32 \<Rightarrow> bool" where
  "knows_card sd sdhc rca \<longleftrightarrow> sd_sdhc sd = sdhc \<and> sd_card_addr sd = rca \<and> length (mc_resp (sd_cmd sd)) = 4"

lemma sd_issue_answers:
  assumes "answers W ((sd_cmd sd)\<lparr>mc_cmd := num, mc_arg := arg, mc_resp_type := rt\<rparr>) dat h r ws h'"
    and "length (mc_resp (sd_cmd sd)) = 4"
  shows "\<exists>sd'. sd_issue W num arg rt dat msg sd h = Inr ((sd', ws), h') \<and> resp sd' 0 = r \<and>
    (\<forall>sdhc rca. knows_card sd sdhc rca \<longrightarrow> knows_card sd' sdhc rca)"
  using assms by (auto simp: answers_def sd_issue_def io_defs resp_def knows_card_def)

lemma ready_loop_ok:
  assumes "serves_card W ok busy sdhc rca content"
  shows "ok h \<Longrightarrow> knows_card sd sdhc rca \<Longrightarrow> busy h + 1 < n \<Longrightarrow>
    \<exists>sd' h'. ready_loop W n sd h = Inr ((True, sd'), h') \<and> knows_card sd' sdhc rca \<and> ok h'"
proof (induction n arbitrary: sd h)
  case (Suc n)
  have k: "length (mc_resp (sd_cmd sd)) = 4" "sd_card_addr sd = rca" using Suc.prems(2) by (simp_all add: knows_card_def)
  obtain r h1 where a: "answers W ((sd_cmd sd)\<lparr>mc_cmd := 13, mc_arg := rca, mc_resp_type := SD_RESP_R1\<rparr>) None h r [] h1"
    "ok h1" "busy h1 = busy h - 1" "bit_set 8 r \<longleftrightarrow> busy h = 0"
    using serves_card_status [OF assms Suc.prems(1), of "(sd_cmd sd)\<lparr>mc_cmd := 13, mc_arg := rca, mc_resp_type := SD_RESP_R1\<rparr>"] by auto
  obtain sd1 where i: "sd_issue W 13 (sd_card_addr sd) SD_RESP_R1 None ''Error'' sd h = Inr ((sd1, []), h1)"
    "resp sd1 0 = r" "knows_card sd1 sdhc rca"
    using sd_issue_answers [OF a(1) k(1)] Suc.prems(2) k(2) by blast
  show ?case
  proof (cases "busy h = 0")
    case True
    then show ?thesis using i a Suc.prems(3) by (simp add: io_defs)
  next
    case False
    then have "busy h1 + 1 < n" using a(3) Suc.prems(3) by simp
    then obtain sd' h' where "ready_loop W n sd1 h1 = Inr ((True, sd'), h')" "knows_card sd' sdhc rca" "ok h'"
      using Suc.IH [OF a(2) i(3)] by blast
    then show ?thesis using i a False Suc.prems(3) by (simp add: io_defs)
  qed
qed simp

lemma read_sector_ok:
  assumes s: "serves_card W ok busy sdhc rca content" and "ok h" "knows_card sd sdhc rca" and c: "content sect = Some bs"
  shows "\<exists>sd' ws h'. sd_read_sector W sd sect buf h = Inr ((sd', ws), h') \<and> words_bytes ws = bs \<and> knows_card sd' sdhc rca \<and> ok h'"
proof -
  have "busy h + 1 < 20000" using s assms(2) by (force simp: serves_card_def)
  then obtain sd1 h1 where r: "sd_check_chard_ready W sd h = Inr ((True, sd1), h1)" and k: "knows_card sd1 sdhc rca" and h1: "ok h1"
    using ready_loop_ok [OF s assms(2,3)] unfolding sd_check_chard_ready_def by blast
  let ?a = "if sd_sdhc sd1 then sect else sect * 512"
  obtain v ws h2 where a: "answers W ((sd_cmd sd1)\<lparr>mc_cmd := 17, mc_arg := ?a, mc_resp_type := SD_RESP_R1\<rparr>)
      (Some (data_in buf 512)) h1 v ws h2" "ok h2" "v AND 0xFFF80000 = 0" "words_bytes ws = bs"
    using serves_card_read [OF s h1 c, where buf = buf and c = "(sd_cmd sd1)\<lparr>mc_cmd := 17, mc_arg := ?a, mc_resp_type := SD_RESP_R1\<rparr>"] k
    by (auto simp: knows_card_def)
  have "length (mc_resp (sd_cmd sd1)) = 4" using k by (simp add: knows_card_def)
  from sd_issue_answers [OF a(1) this] obtain sd2 where
    "sd_issue W 17 ?a SD_RESP_R1 (Some (data_in buf 512)) ''Error'' sd1 h1 = Inr ((sd2, ws), h2)" "resp sd2 0 = v"
    "knows_card sd2 sdhc rca" using k by blast
  then show ?thesis using r a by (simp add: sd_read_sector_def io_defs)
qed

lemma read_sectors_ok:
  assumes s: "serves_card W ok busy sdhc rca content"
  shows "ok h \<Longrightarrow> knows_card sd sdhc rca \<Longrightarrow> \<forall>i < n. content (sect + of_nat i) \<noteq> None \<Longrightarrow>
    \<exists>sd' wss h'. read_sectors W sd sect buf n h = Inr ((sd', wss), h') \<and>
      map words_bytes wss = map (\<lambda>i. the (content (sect + of_nat i))) [0..<n] \<and> knows_card sd' sdhc rca \<and> ok h'"
proof (induction n arbitrary: sect buf sd h)
  case 0
  then show ?case by (simp add: io_defs)
next
  case (Suc n)
  obtain bs where "content sect = Some bs" using Suc.prems(3) by force
  then obtain sd1 ws h1 where
    one: "sd_read_sector W sd sect buf h = Inr ((sd1, ws), h1)" "words_bytes ws = the (content sect)" "knows_card sd1 sdhc rca" "ok h1"
    using read_sector_ok [OF s Suc.prems(1,2), of sect bs buf] by auto
  have "\<forall>i < n. content (sect + 1 + of_nat i) \<noteq> None"
    using Suc.prems(3) by (metis Suc_mono add.assoc of_nat_Suc)
  from Suc.IH [OF one(4,3) this] obtain sd2 wss h2 where
    rest: "read_sectors W sd1 (sect + 1) (buf + 512) n h1 = Inr ((sd2, wss), h2)"
      "map words_bytes wss = map (\<lambda>i. the (content (sect + 1 + of_nat i))) [0..<n]" "knows_card sd2 sdhc rca" "ok h2" by blast
  have "[0..<Suc n] = 0 # map Suc [0..<n]" by (simp add: upt_conv_Cons map_Suc_upt)
  then show ?case using one rest by (simp add: io_defs add.assoc)
qed


text \<open>A card of four sectors that is busy for three commands after every read.\<close>

definition demo_card :: "nat sd_write" where
  "demo_card c dat h =
     (if mc_cmd c = 13 then Inr ((1, c\<lparr>mc_resp := (mc_resp c)[0 := if h = 0 then 256 else 0]\<rparr>, []), h - 1)
      else Inr ((1, c\<lparr>mc_resp := (mc_resp c)[0 := 0]\<rparr>, replicate 128 (mc_arg c)), 3))"

definition demo_content :: "u32 \<Rightarrow> u8 list option" where
  "demo_content s = (if s < 4 then Some (words_bytes (replicate 128 s)) else None)"

lemma demo_card_serves: "serves_card demo_card (\<lambda>h. h < 19999) id True rca demo_content"
  by (auto simp: serves_card_def answers_def demo_card_def demo_content_def split: if_splits)


subsection \<open>The host controller as an interface\<close>

text \<open>
  What the protocol relies on of a host controller in every case: a command that returns at all returns
  with the status one, the request as it was and four response words.
\<close>

locale sd_host =
  fixes send :: "'h sd_write"
  assumes send_ok: "send c dat h = Inr ((st, c', ws), h') \<Longrightarrow>
    st = 1 \<and> c' = c\<lparr>mc_resp := mc_resp c'\<rparr> \<and> (length (mc_resp c) = 4 \<longrightarrow> length (mc_resp c') = 4)"
begin

text \<open>So the tests of the status are never taken: a step fails only where the controller fails.\<close>

lemma issue_fails: "sd_issue send num arg rt dat msg sd h = Inl e \<Longrightarrow>
    send ((sd_cmd sd)\<lparr>mc_cmd := num, mc_arg := arg, mc_resp_type := rt\<rparr>) dat h = Inl e"
  by (auto simp: sd_issue_def io_defs res_bind_Inl_iff split: if_splits dest: send_ok)

lemma issue_keeps: "sd_issue send num arg rt dat msg sd h = Inr ((sd', ws), h') \<Longrightarrow>
    \<exists>c. sd' = sd\<lparr>sd_cmd := c\<rparr> \<and> (length (mc_resp (sd_cmd sd)) = 4 \<longrightarrow> length (mc_resp c) = 4)"
  by (auto simp: sd_issue_def io_defs res_bind_Inr_iff split: if_splits dest!: send_ok)

lemma cmd55_fails: "sd_cmd55 send sd h = Inl e \<Longrightarrow>
    send \<lparr>mc_cmd = 55, mc_arg = sd_card_addr sd, mc_resp_type = SD_RESP_R1, mc_resp = replicate 4 0\<rparr> None h = Inl e"
  by (auto simp: sd_cmd55_def io_defs res_bind_Inl_iff split: if_splits dest: send_ok)

text \<open>The loop of the operating conditions ends with a card that is not busy, or with the timeout.\<close>

lemma op_cond_outcome:
  "op_cond_loop send arg n sd h = Inr (sd', h') \<Longrightarrow>
    bit_set 31 (resp sd' 0) \<and> (sd_sdhc sd' \<longleftrightarrow> bit_set 30 (resp sd' 0)) \<and> sd_vers sd' = sd_vers sd \<and> sd_card_addr sd' = sd_card_addr sd"
proof (induction n arbitrary: sd h)
  case (Suc n)
  then obtain sd1 ws h1 h2 where c: "sd_cmd55 send sd h = Inr ((), h1)"
    "sd_issue send 41 arg SD_RESP_R3 None ''ACMD41 error'' sd h1 = Inr ((sd1, ws), h2)"
    by (auto simp: io_bind_Inr)
  then have "sd_vers sd1 = sd_vers sd" "sd_card_addr sd1 = sd_card_addr sd" using issue_keeps by fastforce+
  then show ?case using Suc c
    by (auto simp: io_bind_Inr io_return_def resp_def split: if_splits)
qed (simp add: io_fail_def)

end


lemma take_response_request:
  "take_response D mmc c d = Inr (c', d') \<Longrightarrow>
     c' = c\<lparr>mc_resp := mc_resp c'\<rparr> \<and> (length (mc_resp c) = 4 \<longrightarrow> length (mc_resp c') = 4)"
  by (auto simp: take_response_def io_bind_Inr io_return_def split: if_splits)

interpretation mmc_host: sd_host "mmc_send_command D mmc adma" for D mmc adma
proof
  fix c dat st c' ws and h h' :: 'a
  assume "mmc_send_command D mmc adma c dat h = Inr ((st, c', ws), h')"
  then show "st = 1 \<and> c' = c\<lparr>mc_resp := mc_resp c'\<rparr> \<and> (length (mc_resp c) = 4 \<longrightarrow> length (mc_resp c') = 4)"
    by (auto simp: mmc_send_command_def Let_def io_bind_Inr io_return_def dest!: take_response_request)
qed

text \<open>The operating conditions over the driver's own controller: when \<open>sd_send_op_cond\<close> returns, the card has
  reported the end of its power-up, its kind is the capacity bit of that same response, and version and
  address are as before.\<close>

theorem sd_op_cond_outcome:
  assumes "sd_send_op_cond D (mmc_send_command D mmc adma) sd h = Inr (sd', h')"
  shows "bit_set 31 (resp sd' 0) \<and> (sd_sdhc sd' \<longleftrightarrow> bit_set 30 (resp sd' 0)) \<and>
    sd_vers sd' = sd_vers sd \<and> sd_card_addr sd' = sd_card_addr sd"
proof -
  obtain x d1 where "op_cond_loop (mmc_send_command D mmc adma) (op_cond_arg (sd_vers sd) x) 1000 sd d1 = Inr (sd', h')"
    using assms unfolding sd_send_op_cond_def io_bind_Inr by blast
  then show ?thesis by (rule mmc_host.op_cond_outcome)
qed

text \<open>Registers of plain memory, with a controller that is never busy and a card that answers at once.\<close>

definition demo_mmc :: "u32 \<Rightarrow> u32" where
  "demo_mmc = (\<lambda>_. 0)(mmc_at MMC0_base ''NISTR'' := 1, mmc_at MMC0_base ''RR'' := 0xC0FF8000)"

lemma inhibit_now: "1 < n \<Longrightarrow> dev_read D (mmc_at mmc ''PSR'') d = (v, d') \<Longrightarrow> v AND 3 = 0 \<Longrightarrow> inhibit_loop D mmc n d = Inr ((), d')"
  by (cases n) (auto simp: io_defs)

lemma complete_now: "1 < n \<Longrightarrow> dev_read D (mmc_at mmc ''NISTR'') d = (v, d') \<Longrightarrow> (v AND 0xFFFF) AND m = m \<Longrightarrow>
    complete_loop D mmc m msg n d = Inr (v AND 0xFFFF, d')"
  by (cases n) (auto simp: io_defs)

lemma mmc_addrs: "mmc_at b ''NISTR'' = b + 0x30" "mmc_at b ''PSR'' = b + 0x24" "mmc_at b ''ARG1R'' = b + 8" "mmc_at b ''CR'' = b + 0xE"
  "mmc_at b ''RR'' = b + 0x10" "mmc_at b ''CA0R'' = b + 0x40"
  by (simp_all add: mmc_at_def reg_addr_def mmc_reg_def)

definition idle_mmc :: "(u32 \<Rightarrow> u32) \<Rightarrow> bool" where
  "idle_mmc m \<longleftrightarrow> m (mmc_at MMC0_base ''PSR'') = 0 \<and> m (mmc_at MMC0_base ''NISTR'') = 1 \<and> m (mmc_at MMC0_base ''RR'') = 0xC0FF8000"

lemma demo_send:
  assumes "idle_mmc m" and "mc_resp_type c \<notin> {SD_RESP_R2, SD_RESP_R1b}"
  shows "\<exists>m'. mmc_send_command memory_device MMC0_base 0 c None m = Inr ((1, c\<lparr>mc_resp := (mc_resp c)[0 := 0xC0FF8000]\<rparr>, []), m') \<and> idle_mmc m'"
proof -
  let ?m = "m(mmc_at MMC0_base ''ARG1R'' := mc_arg c, mmc_at MMC0_base ''CR'' := mmc_construct_cmd_reg (mc_cmd c) (mc_resp_type c) AND 0xFFFF)"
  have "complete_loop memory_device MMC0_base 1 ''Timeout during command completion'' 10000 ?m = Inr (1, ?m)"
    using assms(1) by (subst complete_now [where v = 1 and d' = ?m]) (simp_all add: idle_mmc_def mmc_addrs MMC0_base_def)
  moreover have "inhibit_loop memory_device MMC0_base 10000 m = Inr ((), m)"
    using assms(1) by (intro inhibit_now [where v = 0]) (simp_all add: idle_mmc_def)
  ultimately show ?thesis using assms
    by (auto simp: mmc_send_command_def mmc_wait_cmd_inhibit_def take_response_def read_resp_def idle_mmc_def io_defs Let_def mmc_addrs
        MMC0_base_def)
qed

lemma sd_op_cond_outcome_witness:
  "\<exists>sd' h'. sd_send_op_cond memory_device (mmc_send_command memory_device MMC0_base 0)
     (mmc_create_sd_card\<lparr>sd_mmc := MMC0_base\<rparr>) demo_mmc = Inr (sd', h') \<and> sd_sdhc sd'"
proof -
  let ?W = "mmc_send_command memory_device MMC0_base 0" and ?sd = "mmc_create_sd_card\<lparr>sd_mmc := MMC0_base\<rparr>"
  have i: "idle_mmc demo_mmc" by (simp add: idle_mmc_def demo_mmc_def mmc_addrs MMC0_base_def)
  obtain m1 where m1: "sd_cmd55 ?W ?sd demo_mmc = Inr ((), m1)" "idle_mmc m1"
    using demo_send [OF i, of "\<lparr>mc_cmd = 55, mc_arg = 0, mc_resp_type = SD_RESP_R1, mc_resp = replicate 4 0\<rparr>"]
    by (auto simp: sd_cmd55_def io_defs sd_resp_defs mmc_create_sd_card_def)
  obtain m2 where m2: "?W ((sd_cmd ?sd)\<lparr>mc_cmd := 41, mc_arg := op_cond_arg SD_VERSION_1_XX 0, mc_resp_type := SD_RESP_R3\<rparr>) None m1 =
      Inr ((1, (sd_cmd ?sd)\<lparr>mc_cmd := 41, mc_arg := op_cond_arg SD_VERSION_1_XX 0, mc_resp_type := SD_RESP_R3,
        mc_resp := [0xC0FF8000, 0, 0, 0]\<rparr>, []), m2)"
    using demo_send [OF m1(2), of "(sd_cmd ?sd)\<lparr>mc_cmd := 41, mc_arg := op_cond_arg SD_VERSION_1_XX 0, mc_resp_type := SD_RESP_R3\<rparr>"]
    by (auto simp: sd_resp_defs mmc_create_sd_card_def numeral_eq_Suc)
  have k: "(1000 :: nat) = Suc 999" by simp
  have "\<exists>sd'. op_cond_loop ?W (op_cond_arg SD_VERSION_1_XX 0) 1000 ?sd demo_mmc = Inr (sd', m2) \<and> resp sd' 0 = 0xC0FF8000"
    unfolding k op_cond_loop.simps(2) using m1 m2 by (simp add: io_bind_def sd_issue_def io_return_def resp_def)
  moreover have "reg_read memory_device (mmc_at (sd_mmc ?sd) ''CA0R'') demo_mmc = Inr (0, demo_mmc)" "sd_vers ?sd = SD_VERSION_1_XX"
    by (simp_all add: reg_read_def demo_mmc_def mmc_addrs MMC0_base_def mmc_create_sd_card_def)
  ultimately have "\<exists>sd'. sd_send_op_cond memory_device ?W ?sd demo_mmc = Inr (sd', m2) \<and> resp sd' 0 = 0xC0FF8000"
    unfolding sd_send_op_cond_def io_bind_def by (simp del: op_cond_loop.simps)
  then obtain sd' where r: "sd_send_op_cond memory_device ?W ?sd demo_mmc = Inr (sd', m2)" "resp sd' 0 = 0xC0FF8000" by blast
  from sd_op_cond_outcome [OF r(1)] r show ?thesis by auto
qed

end
