(* ===== verification/Gmac.thy ===== *)
theory Gmac
  imports Drivers Net
begin

text \<open>
  The set-up of the network controller in \<^verbatim>\<open>drivers/gmac.c\<close>: clock and pins, the registers of the queues,
  the filters, and the link to the PHY over its management port. The rings themselves are in theory
  \<^verbatim>\<open>Net\<close>; the addresses of the descriptors are arguments here.
\<close>

definition gmac :: "string \<Rightarrow> u32" where
  "gmac n = reg_addr GMAC_base gmac_reg n"

subsection \<open>The management port\<close>

definition wait_phy_idle :: "'d device \<Rightarrow> (unit, 'd) io" where
  "wait_phy_idle D = io_wait D (gmac ''NSR'') (bit_set 2)"

text \<open>The operation is 2 for a read and 1 for a write.\<close>

definition man_frame :: "u32 \<Rightarrow> u8 \<Rightarrow> u8 \<Rightarrow> u32" where
  "man_frame operation addr reg =
     push_bit 16 2 OR push_bit 30 1 OR push_bit 28 operation OR push_bit 23 (ucast addr AND 0x1F) OR push_bit 18 (ucast reg AND 0x1F)"

definition phy_read :: "'d device \<Rightarrow> u8 \<Rightarrow> u8 \<Rightarrow> (u16, 'd) io" where
  "phy_read D addr reg =
     io_bind (io_all [wait_phy_idle D, reg_write D (gmac ''MAN'') (man_frame 2 addr reg), wait_phy_idle D]) (\<lambda>_.
     io_bind (reg_read D (gmac ''MAN'')) (\<lambda>v. io_return (ucast v)))"

definition phy_write :: "'d device \<Rightarrow> u8 \<Rightarrow> u8 \<Rightarrow> u16 \<Rightarrow> (unit, 'd) io" where
  "phy_write D addr reg dat =
     io_all [wait_phy_idle D, reg_write D (gmac ''MAN'') (man_frame 1 addr reg OR ucast dat), wait_phy_idle D]"

text \<open>The loop over the addresses from \<open>i\<close> on, with \<open>n\<close> turns left.\<close>

fun discover_loop :: "'d device \<Rightarrow> u16 \<Rightarrow> u32 \<Rightarrow> nat \<Rightarrow> (int \<times> u16, 'd) io" where
  "discover_loop D num i 0 = io_return (- ENODEV, 0)"
| "discover_loop D num i (Suc n) =
     io_bind (phy_read D (ucast i) 2) (\<lambda>v. if v = num then io_return (0, ucast i) else discover_loop D num (i + 1) n)"

definition phy_discover :: "'d device \<Rightarrow> u16 \<Rightarrow> (int \<times> u16, 'd) io" where
  "phy_discover D num = discover_loop D num 0 32"

text \<open>The wait for a bit of the status register of the PHY.\<close>

partial_function (option) phy_poll :: "'d device \<Rightarrow> u8 \<Rightarrow> nat \<Rightarrow> 'd \<Rightarrow> 'd res option" where
  "phy_poll D addr n d =
     (case phy_read D addr 1 d of
        Inl e \<Rightarrow> Some (Inl e)
      | Inr (v, d') \<Rightarrow> if bit v n then Some (Inr d') else phy_poll D addr n d')"

definition phy_wait :: "'d device \<Rightarrow> u8 \<Rightarrow> nat \<Rightarrow> (unit, 'd) io" where
  "phy_wait D addr n = (\<lambda>d. res_bind (or_hang (phy_poll D addr n d)) (\<lambda>r. res_bind r (\<lambda>d'. Inr ((), d'))))"

definition phy_enable_100baseT :: "'d device \<Rightarrow> u8 \<Rightarrow> (unit, 'd) io" where
  "phy_enable_100baseT D addr =
     io_bind (phy_read D addr 4) (\<lambda>r.
     io_bind (phy_write D addr 4 ((r OR push_bit 8 1) AND NOT (push_bit 15 1))) (\<lambda>_.
     io_bind (phy_read D addr 0) (\<lambda>r2.
     io_bind (phy_write D addr 0 (r2 OR push_bit 9 1)) (\<lambda>_.
     io_all [phy_wait D addr 5, phy_wait D addr 2]))))"

definition phy_setup :: "'d device \<Rightarrow> (unit, 'd) io" where
  "phy_setup D =
     io_bind (phy_discover D 0x0022) (\<lambda>(err, addr).
       if err \<noteq> 0 then io_return ()
       else io_all [phy_wait D (ucast addr) 2, phy_enable_100baseT D (ucast addr)])"

subsection \<open>The controller\<close>

definition gmac_port_init :: "'d device \<Rightarrow> (unit, 'd) io" where
  "gmac_port_init D =
     io_all (map (\<lambda>pin. gpio_set_func D \<lparr>gp_hw = GPIOD_base, gp_pin = pin\<rparr> GPIO_FUNC_D) [9, 10, 11, 12, 13, 14, 15, 16, 17, 18])"

definition gmac_clk_init :: "'d device \<Rightarrow> (unit, 'd) io" where
  "gmac_clk_init D = clk_pck_enable D 5"

text \<open>The base addresses of the rings, and of the unused queues, eight bytes apart.\<close>

definition queue_registers :: "'d device \<Rightarrow> u32 \<Rightarrow> u32 \<Rightarrow> u32 \<Rightarrow> u32 \<Rightarrow> (unit, 'd) io" where
  "queue_registers D tx_desc rx_desc na_tx_desc na_rx_desc =
     io_all ([reg_write D (gmac ''TBQB'') tx_desc, reg_write D (gmac ''RBQB'') rx_desc] @
       concat (map (\<lambda>i. [reg_write D (gmac ''TBQBAPQ'' + 4 * i) (na_tx_desc + 8 * i),
                         reg_write D (gmac ''RBQBAPQ'' + 4 * i) (na_rx_desc + 8 * i)]) [0, 1, 2]))"

definition mac_top :: u32 where
  "mac_top = push_bit 8 (ucast (mac_addr ! 0)) OR ucast (mac_addr ! 1)"

definition mac_bottom :: u32 where
  "mac_bottom = push_bit 24 (ucast (mac_addr ! 2)) OR push_bit 16 (ucast (mac_addr ! 3)) OR push_bit 8 (ucast (mac_addr ! 4)) OR
     ucast (mac_addr ! 5)"

definition gmac_init :: "'d device \<Rightarrow> u32 \<Rightarrow> u32 \<Rightarrow> u32 \<Rightarrow> u32 \<Rightarrow> (unit, 'd) io" where
  "gmac_init D tx_desc rx_desc na_tx_desc na_rx_desc =
     (let look = (\<lambda>a. io_bind (reg_read D a) (\<lambda>_. io_return ())) in
      io_all [gmac_clk_init D, gmac_port_init D,
        reg_write D (gmac ''NCR'') 0, reg_write D (gmac ''NCFGR'') 0,
        reg_write D (gmac ''IDR'') 0xFFFFFFFF, reg_write D (gmac ''IDRPQ'') 0xFFFFFFFF, reg_write D (gmac ''IDRPQ'' + 4) 0xFFFFFFFF,
        look (gmac ''ISR''), look (gmac ''ISRPQ''), look (gmac ''ISRPQ'' + 4),
        queue_registers D tx_desc rx_desc na_tx_desc na_rx_desc,
        reg_write D (gmac ''TSR'') (push_bit 8 1 OR 0x3F), reg_write D (gmac ''RSR'') 0xF,
        reg_update D (gmac ''NCFGR'') (\<lambda>v. v OR (3 OR push_bit 17 1 OR push_bit 4 1 OR push_bit 24 1)),
        reg_write D (gmac ''UR'') 1,
        reg_write D (gmac ''SA'' + 4) mac_top, reg_write D (gmac ''SA'') mac_bottom,
        reg_write D (gmac ''DCFGR'') (push_bit 8 3 OR push_bit 16 0x18 OR 1 OR push_bit 11 1),
        reg_write D (gmac ''NCR'') (push_bit 2 7), reg_update D (gmac ''NCR'') (\<lambda>v. v AND NOT (push_bit 1 1)),
        phy_setup D,
        reg_update D (gmac ''NCR'') (\<lambda>v. v OR push_bit 9 1)])"

subsection \<open>The search for the PHY\<close>

text \<open>
  A management port with PHYs whose registers read as \<open>regs\<close>: in the states \<open>ok\<close> a read of a register
  ends, with its value, in such a state.
\<close>

definition phy_port :: "'d device \<Rightarrow> ('d \<Rightarrow> bool) \<Rightarrow> (u8 \<Rightarrow> u8 \<Rightarrow> u16) \<Rightarrow> bool" where
  "phy_port D ok regs \<longleftrightarrow> (\<forall>d addr reg. ok d \<longrightarrow> (\<exists>d'. phy_read D addr reg d = Inr (regs addr reg, d') \<and> ok d'))"

lemma discover_loop_find:
  assumes "phy_port D ok regs"
  shows "ok d \<Longrightarrow> k + n \<le> 32 \<Longrightarrow> \<exists>d'. discover_loop D num (of_nat k) n d =
    Inr (case find (\<lambda>i. regs (of_nat i) 2 = num) [k..<k + n] of None \<Rightarrow> (- ENODEV, 0) | Some i \<Rightarrow> (0, of_nat i), d') \<and> ok d'"
proof (induction n arbitrary: k d)
  case (Suc n)
  obtain d1 where d1: "phy_read D (of_nat k) 2 d = Inr (regs (of_nat k) 2, d1)" "ok d1"
    using assms Suc.prems(1) unfolding phy_port_def by blast
  have u: "(ucast (of_nat k :: u32) :: u8) = of_nat k" "(ucast (of_nat k :: u32) :: u16) = of_nat k"
    using Suc.prems(2) by (simp_all add: word_unat_eq_iff unsigned_ucast_eq unat_of_nat take_bit_nat_eq_self)
  have l: "[k..<k + Suc n] = k # [Suc k..<Suc k + n]" by (simp add: upt_conv_Cons)
  show ?case
  proof (cases "regs (of_nat k) 2 = num")
    case True
    then show ?thesis unfolding l using d1 u by (simp add: io_defs)
  next
    case False
    then show ?thesis unfolding l using d1 u Suc.IH [of d1 "Suc k"] Suc.prems(2) by (simp add: io_defs add.commute)
  qed
qed (simp add: io_defs)

text \<open>The search ends, and finds the lowest address whose identifier matches, or reports that there is none.\<close>

lemma phy_discover_first:
  assumes "phy_port D ok regs" and "ok d"
  shows "\<exists>d'. phy_discover D num d =
    Inr (case find (\<lambda>i. regs (of_nat i) 2 = num) [0..<32] of None \<Rightarrow> (- ENODEV, 0) | Some i \<Rightarrow> (0, of_nat i), d') \<and> ok d'"
  using discover_loop_find [OF assms, of 0 32 num] by (simp add: phy_discover_def)

text \<open>
  The register map gives the controller two unused queues; the loop writes a third pair of addresses,
  behind the arrays.
\<close>

lemma third_queue_outside:
  "gmac ''TBQBAPQ'' + 4 * 2 = gmac ''RESERVE8'' \<and> gmac ''RBQBAPQ'' + 4 * 2 = gmac ''RESERVED9''"
  by (simp add: gmac_def reg_addr_def gmac_reg_def)

end
