(* ===== verification/Lcd.thy ===== *)
theory Lcd
  imports Drivers
begin

text \<open>
  The display controller of \<^verbatim>\<open>drivers/lcd.c\<close>: pins, clocks, timing and power. Its layers are in theory
  \<^verbatim>\<open>Window\<close>.
\<close>

record lcd_info =
  li_w :: u16
  li_h :: u16
  li_framerate :: u8
  li_v_front_porch :: u8
  li_v_back_porch :: u8
  li_v_pulse_width :: u8
  li_h_front_porch :: u8
  li_h_back_porch :: u8
  li_h_pulse_width :: u8

definition lcd :: "string \<Rightarrow> u32" where
  "lcd n = reg_addr LCD_base lcd_reg n"

definition lcd_pins :: "gpio list" where
  "lcd_pins =
     map (\<lambda>p. \<lparr>gp_hw = GPIOC_base, gp_pin = p\<rparr>) [5, 6, 7, 8, 3, 4] @
     map (\<lambda>p. \<lparr>gp_hw = GPIOB_base, gp_pin = p\<rparr>)
       [11, 12, 13, 14, 15, 16, 17, 18, 19, 20, 21, 22, 23, 24, 25, 26, 27, 28, 29, 30, 31] @
     map (\<lambda>p. \<lparr>gp_hw = GPIOC_base, gp_pin = p\<rparr>) [0, 1, 2]"

definition lcd_pin_init :: "'d device \<Rightarrow> (unit, 'd) io" where
  "lcd_pin_init D = io_all (map (\<lambda>g. gpio_set_func D g GPIO_FUNC_A) lcd_pins)"

definition lcd_clock_init :: "'d device \<Rightarrow> (unit, 'd) io" where
  "lcd_clock_init D =
     io_all [clk_pck_enable D 45, clk_gck_enable D 45 GCK_SRC_PLLA_CLK 2,
       reg_write D (pmc ''SCER'') (push_bit 3 1), io_wait D (pmc ''SCSR'') (bit_set 3)]"

definition wait_clock_domain_sync :: "'d device \<Rightarrow> (unit, 'd) io" where
  "wait_clock_domain_sync D = io_wait D (lcd ''LCDSR'') (\<lambda>v. \<not> bit v 4)"

text \<open>The clock of the pixels, a product of integers, and the divider for it.\<close>

definition pixel_clock :: "lcd_info \<Rightarrow> u32" where
  "pixel_clock info =
     ucast (li_framerate info) *
     (ucast (li_h_back_porch info) + ucast (li_h_front_porch info) + ucast (li_h_pulse_width info) + ucast (li_w info)) *
     (ucast (li_v_back_porch info) + ucast (li_v_front_porch info) + ucast (li_v_pulse_width info) + ucast (li_h info))"

definition lcd_div :: "lcd_info \<Rightarrow> u8" where
  "lcd_div info = ucast (332000000 div pixel_clock info - 1)"

text \<open>Two fields of ten bits in a timing register.\<close>

definition timing :: "u32 \<Rightarrow> u32 \<Rightarrow> u32" where
  "timing lo hi = (lo AND 0x3FF) OR push_bit 16 (hi AND 0x3FF)"

definition timing_registers :: "lcd_info \<Rightarrow> (string \<times> u32) list" where
  "timing_registers info =
     [(''LCDCFG0'', push_bit 16 (ucast (lcd_div info)) OR push_bit 3 1 OR push_bit 2 1 OR push_bit 8 0xF OR push_bit 13 1),
      (''LCDCFG1'', timing (ucast (li_h_pulse_width info) - 1) (ucast (li_v_pulse_width info) - 1)),
      (''LCDCFG2'', timing (ucast (li_v_front_porch info) - 1) (ucast (li_v_back_porch info))),
      (''LCDCFG3'', timing (ucast (li_h_front_porch info) - 1) (ucast (li_h_back_porch info) - 1)),
      (''LCDCFG4'', timing (ucast (li_w info) - 1) (ucast (li_h info) - 1)),
      (''LCDCFG5'', push_bit 16 1 OR 1 OR push_bit 1 1 OR push_bit 2 1 OR push_bit 7 1),
      (''LCDCFG6'', 6 OR push_bit 4 1 OR push_bit 8 0x10)]"

text \<open>One step of the power-up: enable and wait for the status.\<close>

definition lcd_enable :: "'d device \<Rightarrow> nat \<Rightarrow> (unit, 'd) io" where
  "lcd_enable D n = io_all [reg_write D (lcd ''LCDEN'') (push_bit n 1), io_wait D (lcd ''LCDSR'') (bit_set n)]"

definition lcd_on :: "'d device \<Rightarrow> lcd_info \<Rightarrow> (unit, 'd) io" where
  "lcd_on D info =
     (if pixel_clock info = 0 then io_fail (Panic ''division by zero'')
      else io_all (concat (map (\<lambda>(n, v). [wait_clock_domain_sync D, reg_write D (lcd n) v]) (timing_registers info)) @
        [wait_clock_domain_sync D, lcd_enable D 0, lcd_enable D 1, lcd_enable D 2, lcd_enable D 3]))"

text \<open>The power-down: only its first wait reads the status register.\<close>

definition lcd_off :: "'d device \<Rightarrow> (unit, 'd) io" where
  "lcd_off D =
     io_all ([reg_write D (lcd ''LCDDIS'') (push_bit 3 1), io_wait D (lcd ''LCDSR'') (\<lambda>v. \<not> bit v 3)] @
       concat (map (\<lambda>n. [reg_write D (lcd ''LCDDIS'') (push_bit n 1), io_wait D (lcd ''LCDDIS'') (\<lambda>v. \<not> bit v n)]) [2, 1, 0]))"

definition lcd_set_brightness :: "'d device \<Rightarrow> u8 \<Rightarrow> (unit, 'd) io" where
  "lcd_set_brightness D brightness =
     reg_update D (lcd ''LCDCFG6'') (\<lambda>v. (v AND NOT 0xFF00) OR push_bit 8 (ucast brightness))"

text \<open>The panel of the board.\<close>

definition lcd_panel :: lcd_info where
  "lcd_panel = \<lparr>li_w = 800, li_h = 480, li_framerate = 60, li_v_front_porch = 22, li_v_back_porch = 21, li_v_pulse_width = 2,
     li_h_front_porch = 64, li_h_back_porch = 64, li_h_pulse_width = 128\<rparr>"

text \<open>The set-up without the layers, which are linked and enabled in between.\<close>

definition lcd_init :: "'d device \<Rightarrow> (unit, 'd) io \<Rightarrow> (unit, 'd) io" where
  "lcd_init D layers =
     io_all [lcd_pin_init D, lcd_clock_init D, layers,
       reg_write D (lcd ''base_ctrl'') 3, reg_write D (lcd ''ov1_ctrl'') 3, reg_write D (lcd ''ov2_ctrl'') 3,
       lcd_on D lcd_panel, lcd_set_brightness D 0xFF]"

text \<open>The panel is refreshed 60 times a second to within one part in ten: the divider of 9 of a clock of 332 MHz.\<close>

lemma panel_divider: "pixel_clock lcd_panel = 33264000 \<and> lcd_div lcd_panel = 8"
  by (simp add: pixel_clock_def lcd_div_def lcd_panel_def)

text \<open>
  On a controller whose disable register reads as zero, as a register that is only written does, the
  waits of the power-down end at once, whatever the display does.
\<close>

lemma off_does_not_wait:
  assumes "\<And>d. fst (dev_read D (lcd ''LCDDIS'') d) = 0"
  shows "io_wait D (lcd ''LCDDIS'') (\<lambda>v. \<not> bit v n) d = Inr ((), snd (dev_read D (lcd ''LCDDIS'') d))"
  using assms by (intro wait_until_now) simp

end
