(* ===== verification/Tftp.thy ===== *)
theory Tftp
  imports Ipv4 NetProps
begin

text \<open>
  The TFTP client of \<^verbatim>\<open>net/tftp.c\<close>. A read outside a packet buffer is a fault, and so is a store behind the
  end of the allocated file, which the source does without a check. The file is the list of the bytes
  stored so far. \<open>env\<close> is what the controller does between two polls.
\<close>

definition TFTP_READ :: u16 where "TFTP_READ = 1"
definition TFTP_DATA :: u16 where "TFTP_DATA = 3"
definition TFTP_OPT_ACK :: u16 where "TFTP_OPT_ACK = 6"

record tftp =
  tf_client_port :: u16
  tf_server_port :: u16
  tf_server_ip :: u32

definition tftp_create :: "u8 list \<Rightarrow> tftp \<Rightarrow> net \<Rightarrow> (int \<times> tftp \<times> net) res" where
  "tftp_create ip_addr t s =
     (case str_to_ipv4 ip_addr (tf_server_ip t) of
        (err, ip) \<Rightarrow>
          let t1 = t\<lparr>tf_server_ip := ip\<rparr> in
          if err \<noteq> 0 then Inr (err, t1, s)
          else case udp_get_free_port s of
            (port, s1) \<Rightarrow> res_bind (udp_listen port s1) (\<lambda>s2. Inr (0, t1\<lparr>tf_client_port := port\<rparr>, s2)))"

definition tftp_add_field :: "u8 list \<Rightarrow> u8 list" where
  "tftp_add_field opt = opt @ [0]"

subsection \<open>The size of the file\<close>

definition tsize :: "u8 list" where "tsize = str_bytes ''tsize''"

text \<open>The comparison with the option name, while the length lasts: the bytes and the length behind it.\<close>

fun match_name :: "u8 list \<Rightarrow> u8 list \<Rightarrow> int \<Rightarrow> (u8 list \<times> int) option res" where
  "match_name [] bs len = Inr (Some (bs, len))"
| "match_name (c # cs) bs len =
     (if len = 0 then Inr (Some (bs, len))
      else case bs of
        [] \<Rightarrow> Inl OutOfBounds
      | b # bs' \<Rightarrow> if b \<noteq> c then Inr None else match_name cs bs' (len - 1))"

text \<open>The digits: \<^verbatim>\<open>len-- && *ptr\<close> counts down before it looks.\<close>

fun size_loop :: "u8 list \<Rightarrow> int \<Rightarrow> u32 \<Rightarrow> (int \<times> u32) res" where
  "size_loop bs len tmp =
     (if len = 0 then Inr (- 1, tmp)
      else case bs of
        [] \<Rightarrow> Inl OutOfBounds
      | b # bs' \<Rightarrow> if b = 0 then Inr (len - 1, tmp) else size_loop bs' (len - 1) (tmp * 10 + (ucast b - 0x30)))"

declare size_loop.simps [simp del]

definition get_filesize :: "nat \<Rightarrow> net \<Rightarrow> (int \<times> u32) res" where
  "get_filesize b s =
     res_bind (nb_read_be16 b 0 s) (\<lambda>op.
       if op \<noteq> TFTP_OPT_ACK then Inr (- ENET, 0)
       else
         let ptr = drop (nb_ptr (nt_bufs s b) + 2) (nb_buf (nt_bufs s b)); len = sint (frame_len b s - 2) in
         res_bind (match_name tsize ptr len) (\<lambda>m.
           case m of
             None \<Rightarrow> Inr (- ENET, 0)
           | Some (p, l) \<Rightarrow>
               (case p of
                  [] \<Rightarrow> Inl OutOfBounds
                | c # p' \<Rightarrow>
                    if c \<noteq> 0 then Inr (- ENET, 0)
                    else res_bind (size_loop p' (l - 1) 0) (\<lambda>(l', n). Inr (if l' < 0 then (- ENET, 0) else (0, n))))))"

subsection \<open>Acknowledgements and requests\<close>

definition send_from :: "tftp \<Rightarrow> u16 \<Rightarrow> u8 list \<Rightarrow> net \<Rightarrow> net res" where
  "send_from t port payload s =
     res_bind (take_netbuf s) (\<lambda>(b, s1).
     res_bind (nb_store b 0 payload s1) (\<lambda>s2.
       udp_send_from b (tf_server_ip t) (get_src_ip s2) (tf_client_port t) port False
         (set_frame_len b (of_nat (length payload)) s2)))"

definition ack_opt_ack :: "tftp \<Rightarrow> net \<Rightarrow> net res" where
  "ack_opt_ack t s = send_from t (tf_server_port t) (be32_bytes 0x00040000) s"

definition send_ack :: "tftp \<Rightarrow> u32 \<Rightarrow> net \<Rightarrow> net res" where
  "send_ack t block s = send_from t (tf_server_port t) (be16_bytes 4 @ be16_bytes (ucast block)) s"

definition read_request :: "u8 list \<Rightarrow> u8 list" where
  "read_request filename =
     be16_bytes TFTP_READ @ tftp_add_field filename @ tftp_add_field (str_bytes ''octet'') @ tftp_add_field tsize @
     tftp_add_field (str_bytes ''0'')"

subsection \<open>The download\<close>

text \<open>The wait for the size: the code, the size, and the client with the port of the server.\<close>

partial_function (option) wait_size :: "(net \<Rightarrow> net) \<Rightarrow> tftp \<Rightarrow> net \<Rightarrow> (int \<times> u32 \<times> tftp \<times> net) res option" where
  "wait_size env t s =
     (case udp_rec (tf_client_port t) (env s) of
        Inl e \<Rightarrow> Some (Inl e)
      | Inr (None, s1) \<Rightarrow> wait_size env t s1
      | Inr (Some b, s1) \<Rightarrow> Some
          (res_bind (get_filesize b s1) (\<lambda>(err, n).
             if err \<noteq> 0 then Inr (err, 0, t, free_netbuf b s1)
             else if nb_ptr (nt_bufs s1 b) < 8 then Inl OutOfBounds
             else
               res_bind (get_bytes (nb_buf (nt_bufs s1 b)) (nb_ptr (nt_bufs s1 b) - 8) 2) (\<lambda>bs.
               let t1 = t\<lparr>tf_server_port := be16_at bs 0\<rparr> in
               res_bind (ack_opt_ack t1 s1) (\<lambda>s2. Inr (0, n, t1, free_netbuf b s2))))))"

text \<open>
  A packet while data is expected: whether the file is complete, the bytes stored and the state.
  The buffer of the packet is not freed.
\<close>

definition tftp_block :: "tftp \<Rightarrow> u32 \<Rightarrow> u32 \<Rightarrow> u8 list \<Rightarrow> nat \<Rightarrow> net \<Rightarrow> (bool \<times> u8 list \<times> net) res" where
  "tftp_block t filesize block_number stored b s =
     res_bind (nb_read_be16 b 0 s) (\<lambda>op.
     if op \<noteq> TFTP_DATA then Inl (Panic ''Not data'')
     else res_bind (nb_read_be16 b 2 s) (\<lambda>num.
       if ucast num \<noteq> block_number then Inl (Panic ''Block number wrong'')
       else
         let len = frame_len b s - 4 in
         res_bind (nb_read b 4 (unat len) s) (\<lambda>bs.
         if unat filesize < length stored + length bs then Inl OutOfBounds
         else res_bind (send_ack t block_number s) (\<lambda>s1. Inr (len \<noteq> 512, stored @ bs, s1)))))"

partial_function (option) data_loop ::
    "(net \<Rightarrow> net) \<Rightarrow> tftp \<Rightarrow> u32 \<Rightarrow> u32 \<Rightarrow> u8 list \<Rightarrow> net \<Rightarrow> (u8 list \<times> net) res option" where
  "data_loop env t filesize block_number stored s =
     (case udp_rec (tf_client_port t) (env s) of
        Inl e \<Rightarrow> Some (Inl e)
      | Inr (None, s1) \<Rightarrow> data_loop env t filesize block_number stored s1
      | Inr (Some b, s1) \<Rightarrow>
          (case tftp_block t filesize block_number stored b s1 of
             Inl e \<Rightarrow> Some (Inl e)
           | Inr (done', stored', s2) \<Rightarrow>
               if done' then Some (Inr (stored', s2)) else data_loop env t filesize (block_number + 1) stored' s2))"

text \<open>The code, the announced size, the bytes of the file and the state. The allocation is taken to succeed.\<close>

definition tftp_download :: "(net \<Rightarrow> net) \<Rightarrow> tftp \<Rightarrow> u8 list \<Rightarrow> net \<Rightarrow> (int \<times> u32 \<times> u8 list \<times> tftp \<times> net) res" where
  "tftp_download env t filename s =
     res_bind (send_from t 69 (read_request filename) s) (\<lambda>s1.
     res_bind (or_hang (wait_size env t s1)) (\<lambda>r. res_bind r (\<lambda>(err, filesize, t1, s2).
       if err \<noteq> 0 then Inr (err, 0, [], t1, s2)
       else res_bind (or_hang (data_loop env t1 filesize 1 [] s2)) (\<lambda>r2. res_bind r2 (\<lambda>(file', s3).
         Inr (0, filesize, file', t1, s3))))))"


subsection \<open>The announced size\<close>

lemma digit_nonzero: "d < 10 \<Longrightarrow> digit d \<noteq> 0"
  using digit_unat [of d] by auto

lemma size_loop_digits:
  "\<forall>d \<in> set ds. d < 10 \<Longrightarrow> 0 \<le> len \<Longrightarrow>
   size_loop (map digit ds @ 0 # rest) len (of_nat acc) =
     Inr (if int (length ds) < len then (len - int (length ds) - 1, of_nat (value_of acc ds)) else (- 1, of_nat (value_of acc (take (nat len) ds))))"
proof (induction ds arbitrary: len acc)
  case Nil
  then show ?case by (auto simp: size_loop.simps)
next
  case (Cons d ds)
  have v: "(of_nat acc * 10 + (ucast (digit d) - 0x30) :: u32) = of_nat (acc * 10 + d)"
    using digit_props(3) [of d] Cons.prems(1) by simp
  show ?case
  proof (cases "len = 0")
    case True
    then show ?thesis by (simp add: size_loop.simps)
  next
    case False
    then have n: "nat len = Suc (nat (len - 1))" "0 \<le> len - 1" using Cons.prems(2) by simp_all
    show ?thesis
      using Cons.IH [of "len - 1" "acc * 10 + d"] Cons.prems n v False digit_nonzero [of d]
      by (subst size_loop.simps) (auto simp del: of_nat_add of_nat_mult)
  qed
qed

lemma match_name_ok: "int (length cs) \<le> len \<Longrightarrow> match_name cs (cs @ rest) len = Inr (Some (rest, len - int (length cs)))"
  by (induction cs arbitrary: len) auto

text \<open>The client understands the size a server announces: an option acknowledgement whose first option is
  \<open>tsize\<close> with a decimal number, complete within the length of the packet, gives that number, modulo
  two to the 32, whatever follows; if the packet ends before the terminating zero the answer is an error.\<close>

theorem announced_size_parsed:
  assumes "data_of (nt_bufs s b) = be16_bytes 6 @ tsize @ [0] @ map digit ds @ [0] @ rest" and "\<forall>d \<in> set ds. d < 10"
    and "8 \<le> frame_len b s" and "frame_len b s < 2 ^ 31"
  shows "get_filesize b s =
    Inr (if length ds + 8 < unat (frame_len b s) then (0, of_nat (value_of 0 ds)) else (- ENET, 0))"
proof -
  define f where "f = unat (frame_len b s)"
  have fl: "8 \<le> f" "f < 2 ^ 31" using assms(3,4) by (simp_all add: f_def word_le_nat_alt word_less_nat_alt)
  have "unat (frame_len b s - 2) = f - 2"
    unfolding f_def using assms(3) by (subst unat_sub) (simp_all add: word_le_nat_alt)
  then have u: "uint (frame_len b s - 2) = int (f - 2)" by (metis uint_nat)
  have "f - 2 < 2 ^ 31" using fl by linarith
  then have "sint (frame_len b s - 2) = int (f - 2)" unfolding sint_uint u by (intro signed_take_bit_int_eq_self) simp_all
  then have len: "sint (frame_len b s - 2) = int f - 2" using fl(1) by simp
  have op: "nb_read_be16 b 0 s = Inr TFTP_OPT_ACK"
    using nb_read_data [of s b "[]" "be16_bytes 6" _ 0 2] assms(1) at_append(1) [of "[]" 6 "[]"]
    by (simp add: nb_read_be16_def TFTP_OPT_ACK_def)
  have "drop (nb_ptr (nt_bufs s b) + 2) (nb_buf (nt_bufs s b)) = drop 2 (data_of (nt_bufs s b))"
    by (simp add: data_of_def add.commute)
  then have p: "drop (nb_ptr (nt_bufs s b) + 2) (nb_buf (nt_bufs s b)) = tsize @ (0 # map digit ds @ 0 # rest)"
    using assms(1) by (simp add: be16_bytes_def)
  have five: "length tsize = 5" by (simp add: tsize_def str_bytes_def)
  have "8 \<le> int f" using fl(1) by linarith
  then have "int (length tsize) \<le> int f - 2" "0 \<le> int f - 8" unfolding five by linarith+
  note lens = this
  have m: "match_name tsize (tsize @ (0 # map digit ds @ 0 # rest)) (int f - 2) =
      Inr (Some (0 # map digit ds @ 0 # rest, int f - 7))"
    using match_name_ok [OF lens(1)] five by simp
  from size_loop_digits [OF assms(2) lens(2), of rest 0]
  have l: "size_loop (map digit ds @ 0 # rest) (int f - 8) 0 =
      Inr (if length ds + 8 < f then (int f - 8 - int (length ds) - 1, of_nat (value_of 0 ds))
           else (- 1, of_nat (value_of 0 (take (nat (int f - 8)) ds))))" by auto
  show ?thesis unfolding get_filesize_def op p len f_def [symmetric] using m l by (simp add: Let_def)
qed

text \<open>A buffer that holds a packet behind the header room.\<close>

definition demo_packet :: "u8 list \<Rightarrow> net" where
  "demo_packet bs = demo_net\<lparr>nt_bufs := (nt_bufs demo_net)(5 := \<lparr>nb_buf = replicate 42 0 @ bs @ replicate (1494 - length bs) 0, nb_ptr = 42,
     nb_frame_len = of_nat (length bs), nb_ip = 0\<rparr>)\<rparr>"

lemma demo_packet_data: "data_of (nt_bufs (demo_packet bs) 5) = bs @ replicate (1494 - length bs) 0"
  and demo_packet_len: "frame_len 5 (demo_packet bs) = of_nat (length bs)"
  by (simp_all add: demo_packet_def data_of_def frame_len_def)

lemma announced_size_parsed_witness:
  "get_filesize 5 (demo_packet (be16_bytes 6 @ tsize @ [0] @ map digit [1, 2, 3, 4] @ [0])) = Inr (0, 1234)"
proof -
  let ?p = "be16_bytes 6 @ tsize @ [0] @ map digit [1, 2, 3, 4] @ [0]"
  have l: "length ?p = 13" by (simp add: tsize_def str_bytes_def)
  have "data_of (nt_bufs (demo_packet ?p) 5) = be16_bytes 6 @ tsize @ [0] @ map digit [1, 2, 3, 4] @ [0] @ replicate (1494 - length ?p) 0"
    unfolding demo_packet_data by simp
  from announced_size_parsed [OF this] show ?thesis unfolding demo_packet_len l by (simp add: value_of_def)
qed

subsection \<open>A data packet\<close>

text \<open>What becomes of a data packet with the expected number, for any payload and any announced size: if the
  payload does not fit behind what is stored, it is still stored, over the end of the allocated file;
  otherwise the file grows by exactly the payload once the block has been acknowledged, and the download
  ends there unless the payload has 512 bytes.\<close>

theorem data_packet_outcome:
  assumes "data_of (nt_bufs s b) = be16_bytes 3 @ be16_bytes num @ payload @ rest"
    and "unat (frame_len b s) = length payload + 4" and "length payload < 65536"
  shows "tftp_block t filesize (ucast num) stored b s =
    (if unat filesize < length stored + length payload then Inl OutOfBounds
     else res_bind (send_ack t (ucast num) s) (\<lambda>s1. Inr (length payload \<noteq> 512, stored @ payload, s1)))"
proof -
  have "frame_len b s = of_nat (unat (frame_len b s))" by simp
  then have "frame_len b s = of_nat (length payload + 4)" unfolding assms(2) .
  then have len: "frame_len b s - 4 = of_nat (length payload)" by simp
  have ul: "unat (frame_len b s - 4) = length payload" unfolding len using assms(3) by (simp add: unat_of_nat)
  have fl: "frame_len b s - 4 \<noteq> 512 \<longleftrightarrow> length payload \<noteq> 512"
    by (simp add: word_unat_eq_iff ul)
  have op: "nb_read_be16 b 0 s = Inr TFTP_DATA" "nb_read_be16 b 2 s = Inr num"
    using nb_read_data [of s b "[]" "be16_bytes 3" _ 0 2] nb_read_data [of s b "be16_bytes 3" "be16_bytes num" _ 2 2] assms(1)
      at_append(1) [of "[]" 3 "[]"] at_append(1) [of "[]" num "[]"]
    by (simp_all add: nb_read_be16_def TFTP_DATA_def)
  have pl: "nb_read b 4 (length payload) s = Inr payload"
  proof (cases "payload = []")
    case True
    have "4 \<le> length (data_of (nt_bufs s b))" using assms(1) by simp
    then show ?thesis using True by (simp add: nb_read_def get_bytes_def slice_def data_of_def)
  next
    case False
    then show ?thesis
      using nb_read_data [of s b "be16_bytes 3 @ be16_bytes num" payload rest 4 "length payload"] assms(1) by simp
  qed
  show ?thesis unfolding tftp_block_def op by (simp add: pl ul fl [simplified])
qed

lemma data_packet_outcome_witness:
  "\<forall>t. tftp_block t 100 1 (replicate 99 0) 5 (demo_packet (be16_bytes 3 @ be16_bytes 1 @ [7, 8])) = Inl OutOfBounds"
proof
  fix t
  let ?p = "be16_bytes 3 @ be16_bytes 1 @ [7, 8]"
  have l: "length ?p = 6" by simp
  have "data_of (nt_bufs (demo_packet ?p) 5) = be16_bytes 3 @ be16_bytes 1 @ [7, 8] @ replicate (1494 - length ?p) 0"
    unfolding demo_packet_data by simp
  moreover have "unat (frame_len 5 (demo_packet ?p)) = length [7, 8 :: u8] + 4" unfolding demo_packet_len l by simp
  ultimately show "tftp_block t 100 1 (replicate 99 0) 5 (demo_packet ?p) = Inl OutOfBounds"
    using data_packet_outcome [of "demo_packet ?p" 5 1 "[7, 8]" _ t 100 "replicate 99 0"] by simp
qed

text \<open>Blocks are counted in 32 bits and compared with the 16 of the packet: from block 65536 on every packet panics.\<close>

lemma long_files_panic:
  assumes "data_of (nt_bufs s b) = be16_bytes 3 @ be16_bytes num @ rest" and "65536 \<le> block_number"
  shows "tftp_block t filesize block_number stored b s = Inl (Panic ''Block number wrong'')"
proof -
  have op: "nb_read_be16 b 0 s = Inr TFTP_DATA" "nb_read_be16 b 2 s = Inr num"
    using nb_read_data [of s b "[]" "be16_bytes 3" _ 0 2] nb_read_data [of s b "be16_bytes 3" "be16_bytes num" _ 2 2] assms(1)
      at_append(1) [of "[]" 3 "[]"] at_append(1) [of "[]" num "[]"]
    by (simp_all add: nb_read_be16_def TFTP_DATA_def)
  have "65536 \<le> unat block_number" using assms(2) by (simp add: word_le_nat_alt)
  then have "unat (ucast num :: u32) \<noteq> unat block_number" by (metis not_le unat_ucast_16_32 unat_u16_less)
  then have "ucast num \<noteq> block_number" by metis
  then show ?thesis unfolding tftp_block_def op by simp
qed

end
