(* ===== verification/Ttf.thy ===== *)
theory Ttf
  imports Bytes Align
begin

text \<open>
  The parser of TrueType files in \<^verbatim>\<open>gfx/ttf.c\<close>. The file is the list of the bytes in memory from its start
  on; offsets are 32-bit words, as pointers are, and a read that leaves the list is a fault. The messages and
  the line that is drawn at the end are left out.
\<close>

definition TTF_HEADER_SFNT_VER :: u32 where "TTF_HEADER_SFNT_VER = 0x00010000"
definition TTF_NUM_TABLES_OFFSET :: u32 where "TTF_NUM_TABLES_OFFSET = 4"
definition TTF_TABLE_REC_OFFSET :: u32 where "TTF_TABLE_REC_OFFSET = 12"
definition TTF_TABLE_REC_SIZE :: u32 where "TTF_TABLE_REC_SIZE = 16"
definition TTF_TABLE_CRC_OFFSET :: u32 where "TTF_TABLE_CRC_OFFSET = 4"
definition TTF_TABLE_OFF_OFFSET :: u32 where "TTF_TABLE_OFF_OFFSET = 8"
definition TTF_TABLE_LEN_OFFSET :: u32 where "TTF_TABLE_LEN_OFFSET = 12"
definition TTF_HEAD_MAGIC :: u32 where "TTF_HEAD_MAGIC = 0x5F0F3CF5"
definition TTF_TAG_CMAP :: u32 where "TTF_TAG_CMAP = 0x636d6170"
definition TTF_TAG_HEAD :: u32 where "TTF_TAG_HEAD = 0x68656164"
definition TTF_TAG_HHEA :: u32 where "TTF_TAG_HHEA = 0x68686561"
definition TTF_TAG_MAXP :: u32 where "TTF_TAG_MAXP = 0x6d617870"
definition TTF_TAG_GLYF :: u32 where "TTF_TAG_GLYF = 0x676c7966"
definition TTF_TAG_LOCA :: u32 where "TTF_TAG_LOCA = 0x6c6f6361"

definition NUMBER_ASCII_CHARS :: nat where "NUMBER_ASCII_CHARS = 94"
definition START_ASCII_CHAR :: u16 where "START_ASCII_CHAR = 0x20"

record ttf_table_info =
  tt_off :: u32
  tt_len :: u32

record ttf_head =
  th_flags :: u16
  th_units_per_em :: u16
  th_x_min :: u16
  th_y_min :: u16
  th_x_max :: u16
  th_y_max :: u16
  th_mac_style :: u16
  th_srp :: u16
  th_dir_hint :: u16
  th_index_to_loc_fmt :: u16

record ttf_maxp =
  tm_num_glyphs :: u16
  tm_limits :: "u16 list"

record ttf_info =
  ti_ascii_lookup :: "u16 list"
  ti_loca :: "u16 list"
  ti_head :: ttf_head
  ti_maxp :: ttf_maxp
  ti_num_metrics :: u16

subsection \<open>Reads\<close>

definition rd16 :: "u8 list \<Rightarrow> u32 \<Rightarrow> u16 res" where
  "rd16 ttf p = res_bind (get_bytes ttf (unat p) 2) (\<lambda>bs. Inr (be16_at bs 0))"

definition rd32 :: "u8 list \<Rightarrow> u32 \<Rightarrow> u32 res" where
  "rd32 ttf p = res_bind (get_bytes ttf (unat p) 4) (\<lambda>bs. Inr (be32_at bs 0))"

definition rdle16 :: "u8 list \<Rightarrow> u32 \<Rightarrow> u16 res" where
  "rdle16 ttf p = res_bind (get_bytes ttf (unat p) 2) (\<lambda>bs. Inr (le16_at bs 0))"

subsection \<open>Tables\<close>

fun crc_word_loop :: "u8 list \<Rightarrow> u32 \<Rightarrow> nat \<Rightarrow> u32 \<Rightarrow> (u32 \<times> u32) res" where
  "crc_word_loop ttf p 0 crc = Inr (crc, p)"
| "crc_word_loop ttf p (Suc n) crc = res_bind (rd32 ttf p) (\<lambda>w. crc_word_loop ttf (p + 4) n (crc + w))"

text \<open>The bytes behind the last whole word, with \<open>n\<close> turns left of \<open>trail\<close>.\<close>

fun adj_loop :: "u8 list \<Rightarrow> u32 \<Rightarrow> nat \<Rightarrow> nat \<Rightarrow> u32 \<Rightarrow> u32 res" where
  "adj_loop ttf p i 0 adj = Inr adj"
| "adj_loop ttf p i (Suc n) adj =
     res_bind (read_at ttf (unat p)) (\<lambda>b. adj_loop ttf (p + 1) (i + 1) n (adj OR push_bit (8 * (3 - i)) (ucast b)))"

definition ttf_get_crc :: "u8 list \<Rightarrow> u32 \<Rightarrow> u32 \<Rightarrow> u32 res" where
  "ttf_get_crc ttf table len =
     res_bind (crc_word_loop ttf table (unat (drop_bit 2 (align_down len 4))) 0) (\<lambda>(crc, p).
     res_bind (adj_loop ttf p 0 (unat (len AND 3)) 0) (\<lambda>adj. Inr (crc + adj)))"

text \<open>The search: the code, and the place of the table when a record of the tag was found.\<close>

fun table_loop :: "u8 list \<Rightarrow> u32 \<Rightarrow> nat \<Rightarrow> u32 \<Rightarrow> (int \<times> ttf_table_info) res" where
  "table_loop ttf ptr 0 tag = Inr (- EBFONT, \<lparr>tt_off = 0, tt_len = 0\<rparr>)"
| "table_loop ttf ptr (Suc n) tag =
     res_bind (rd32 ttf ptr) (\<lambda>ext_tag.
       if ext_tag \<noteq> tag then table_loop ttf (ptr + TTF_TABLE_REC_SIZE) n tag
       else
         res_bind (rd32 ttf (ptr + TTF_TABLE_CRC_OFFSET)) (\<lambda>crc.
         res_bind (rd32 ttf (ptr + TTF_TABLE_OFF_OFFSET)) (\<lambda>off.
         res_bind (rd32 ttf (ptr + TTF_TABLE_LEN_OFFSET)) (\<lambda>len.
         res_bind (ttf_get_crc ttf off len) (\<lambda>new_crc.
           Inr (if new_crc \<noteq> crc then ECRC else 0, \<lparr>tt_off = off, tt_len = len\<rparr>))))))"

definition ttf_search_table :: "u8 list \<Rightarrow> u32 \<Rightarrow> (int \<times> ttf_table_info) res" where
  "ttf_search_table ttf tag =
     res_bind (rd16 ttf TTF_NUM_TABLES_OFFSET) (\<lambda>tables. table_loop ttf TTF_TABLE_REC_OFFSET (unat tables) tag)"

definition ttf_is_supported :: "u8 list \<Rightarrow> u32 \<Rightarrow> bool res" where
  "ttf_is_supported ttf len = (if len < 4 then Inr False else res_bind (rd32 ttf 0) (\<lambda>v. Inr (v = TTF_HEADER_SFNT_VER)))"

subsection \<open>Characters\<close>

text \<open>The records of the encodings: the subtable of format 4 for an encoding of Unicode.\<close>

definition unicode_encoding :: "u16 \<Rightarrow> u16 \<Rightarrow> bool" where
  "unicode_encoding plat_id enc_id \<longleftrightarrow> plat_id = 0 \<and> enc_id \<le> 4 \<or> plat_id = 3 \<and> enc_id \<in> {0, 1, 10}"

fun encoding_loop :: "u8 list \<Rightarrow> u32 \<Rightarrow> u32 \<Rightarrow> nat \<Rightarrow> u32 option res" where
  "encoding_loop ttf base table_ptr 0 = Inr None"
| "encoding_loop ttf base table_ptr (Suc n) =
     res_bind (rd16 ttf table_ptr) (\<lambda>plat_id.
     res_bind (rd16 ttf (table_ptr + 2)) (\<lambda>enc_id.
     res_bind (rd32 ttf (table_ptr + 4)) (\<lambda>offset.
     res_bind (if unicode_encoding plat_id enc_id then rd16 ttf (base + offset) else Inr 0) (\<lambda>fmt.
       if unicode_encoding plat_id enc_id \<and> fmt = 4 then Inr (Some (base + offset))
       else encoding_loop ttf base (table_ptr + 8) n))))"

text \<open>
  The search for the segment of a character, from \<open>segment\<close> on, in steps of two. The sixteen bits of the
  counter pass every value below an even count within 32768 turns; with the count 65535 they would go
  round for ever.
\<close>

fun segment_loop :: "u8 list \<Rightarrow> u32 \<Rightarrow> u16 \<Rightarrow> u16 \<Rightarrow> nat \<Rightarrow> u16 \<Rightarrow> u16 \<Rightarrow> u16 \<Rightarrow> (u16 \<times> u16 \<times> u16) res" where
  "segment_loop ttf uni unicode seg_cnt 0 segment start end' =
     (if segment < seg_cnt then Inl Hang else Inr (segment, start, end'))"
| "segment_loop ttf uni unicode seg_cnt (Suc n) segment start end' =
     (if segment < seg_cnt then
        res_bind (rd16 ttf (uni + 14 + ucast segment + 2 + ucast seg_cnt)) (\<lambda>start'.
        res_bind (rd16 ttf (uni + 14 + ucast segment)) (\<lambda>end''.
          if start' \<le> unicode \<and> unicode \<le> end'' then Inr (segment, start', end'')
          else segment_loop ttf uni unicode seg_cnt n (segment + 2) start' end''))
      else Inr (segment, start, end'))"

text \<open>The glyph of a character, or \<open>None\<close> when no segment holds it.\<close>

definition char_glyph :: "u8 list \<Rightarrow> u32 \<Rightarrow> u16 \<Rightarrow> u16 \<Rightarrow> u16 option res" where
  "char_glyph ttf uni seg_cnt unicode =
     res_bind (segment_loop ttf uni unicode seg_cnt 32768 0 0 0) (\<lambda>(segment, start, end').
       if unicode < start \<or> end' < unicode then Inr None
       else
         let at = uni + 14 + ucast segment + 2 in
         res_bind (rd16 ttf (at + 2 * ucast seg_cnt)) (\<lambda>delta.
         res_bind (rd16 ttf (at + 3 * ucast seg_cnt)) (\<lambda>off.
           if off = 0 then Inr (Some (unicode + delta))
           else res_bind (rd16 ttf (at + 3 * ucast seg_cnt + (ucast unicode - ucast start) * 2 + ucast off)) (\<lambda>glyph_id.
             Inr (Some (if glyph_id \<noteq> 0 then glyph_id + delta else glyph_id))))))"

fun chars_loop :: "u8 list \<Rightarrow> u32 \<Rightarrow> u16 \<Rightarrow> u16 \<Rightarrow> nat \<Rightarrow> u16 list option res" where
  "chars_loop ttf uni seg_cnt unicode 0 = Inr (Some [])"
| "chars_loop ttf uni seg_cnt unicode (Suc n) =
     res_bind (char_glyph ttf uni seg_cnt unicode) (\<lambda>g.
       case g of
         None \<Rightarrow> Inr None
       | Some i \<Rightarrow> res_bind (chars_loop ttf uni seg_cnt (unicode + 1) n) (\<lambda>r. Inr (map_option ((#) i) r)))"

definition ttf_parse_cmap :: "u8 list \<Rightarrow> ttf_info \<Rightarrow> (int \<times> ttf_info) res" where
  "ttf_parse_cmap ttf info =
     res_bind (ttf_search_table ttf TTF_TAG_CMAP) (\<lambda>(err, pos).
     if err \<noteq> 0 then Inr (err, info)
     else res_bind (rd16 ttf (tt_off pos + 2)) (\<lambda>num_tables.
     res_bind (encoding_loop ttf (tt_off pos) (tt_off pos + 4) (unat num_tables)) (\<lambda>u.
       case u of
         None \<Rightarrow> Inr (- ENSUPPORT, info)
       | Some uni \<Rightarrow>
           res_bind (rd16 ttf (uni + 6)) (\<lambda>seg_cnt.
           res_bind (chars_loop ttf uni seg_cnt START_ASCII_CHAR NUMBER_ASCII_CHARS) (\<lambda>r.
             Inr (case r of None \<Rightarrow> (- EBFONT, info) | Some ids \<Rightarrow> (0, info\<lparr>ti_ascii_lookup := ids\<rparr>)))))))"

subsection \<open>Glyphs\<close>

text \<open>The places of the glyphs, in variables of sixteen bits.\<close>

definition loca_entry :: "u8 list \<Rightarrow> u32 \<Rightarrow> u16 \<Rightarrow> u16 \<Rightarrow> u16 res" where
  "loca_entry ttf base fmt glyph =
     (if fmt \<noteq> 0 then res_bind (rd32 ttf (base + ucast glyph * 4)) (\<lambda>v. Inr (ucast v))
      else res_bind (rd16 ttf (base + ucast glyph * 2)) (\<lambda>v. Inr (2 * v)))"

fun loca_loop :: "u8 list \<Rightarrow> u32 \<Rightarrow> u16 \<Rightarrow> u16 list \<Rightarrow> u16 list res" where
  "loca_loop ttf base fmt [] = Inr []"
| "loca_loop ttf base fmt (g # gs) =
     res_bind (loca_entry ttf base fmt g) (\<lambda>v. res_bind (loca_loop ttf base fmt gs) (\<lambda>vs. Inr (v # vs)))"

text \<open>The walk over the flags: the counter at the end. A repeat count is taken from the byte after the next.\<close>

function flags_loop :: "u8 list \<Rightarrow> nat \<Rightarrow> u32 \<Rightarrow> u32 \<Rightarrow> u32 res" where
  "flags_loop ttf p i num_pts =
     (if \<not> i < num_pts then Inr i
      else if length ttf \<le> p then Inl OutOfBounds
      else if ttf ! p AND 8 \<noteq> 0 then
        res_bind (read_at ttf (p + 2)) (\<lambda>c. flags_loop ttf (p + 2) (i + ucast c + 1) num_pts)
      else flags_loop ttf (p + 1) (i + 1) num_pts)"
  by pat_completeness auto
termination by (relation "measure (\<lambda>(ttf, p, i, n). length ttf - p)") auto

declare flags_loop.simps [simp del]

definition ttf_parse_glyph :: "u8 list \<Rightarrow> ttf_info \<Rightarrow> (int \<times> ttf_info) res" where
  "ttf_parse_glyph ttf info =
     res_bind (ttf_search_table ttf TTF_TAG_LOCA) (\<lambda>(err, pos).
     if err \<noteq> 0 then Inr (err, info)
     else res_bind (loca_loop ttf (tt_off pos) (th_index_to_loc_fmt (ti_head info)) (ti_ascii_lookup info)) (\<lambda>locs.
     let info1 = info\<lparr>ti_loca := locs\<rparr> in
     res_bind (ttf_search_table ttf TTF_TAG_GLYF) (\<lambda>(err2, pos2).
     if err2 \<noteq> 0 then Inr (err2, info1)
     else res_bind (read_at locs 34) (\<lambda>place.
       let ptr = tt_off pos2 + ucast place in
       res_bind (rd16 ttf ptr) (\<lambda>num_contours.
       if sint num_contours < 0 then Inr (0, info1)
       else
         let p1 = ptr + 10 + (ucast num_contours - 1) * 2 in
         res_bind (rd16 ttf p1) (\<lambda>num_pts.
         res_bind (rd16 ttf (p1 + 2)) (\<lambda>inst_len.
         res_bind (flags_loop ttf (unat (p1 + 2 + ucast inst_len)) 0 (scast num_pts)) (\<lambda>i.
         res_bind (assert_that (i = scast num_pts)) (\<lambda>_. Inr (0, info1))))))))))"

subsection \<open>The other tables\<close>

definition ttf_parse_hmtx :: "u8 list \<Rightarrow> ttf_info \<Rightarrow> (int \<times> ttf_info) res" where
  "ttf_parse_hmtx ttf info =
     res_bind (ttf_search_table ttf TTF_TAG_HHEA) (\<lambda>(err, pos).
       if err < 0 then Inr (err, info)
       else res_bind (rd16 ttf (tt_off pos)) (\<lambda>n. Inr (0, info\<lparr>ti_num_metrics := n\<rparr>)))"

fun rd16s :: "u8 list \<Rightarrow> u32 list \<Rightarrow> u16 list res" where
  "rd16s ttf [] = Inr []"
| "rd16s ttf (p # ps) = res_bind (rd16 ttf p) (\<lambda>v. res_bind (rd16s ttf ps) (\<lambda>vs. Inr (v # vs)))"

text \<open>The fields of the table of limits, two bytes each from the number of glyphs at 4 on.\<close>

definition ttf_parse_maxp :: "u8 list \<Rightarrow> ttf_maxp \<Rightarrow> (int \<times> ttf_maxp) res" where
  "ttf_parse_maxp ttf maxp =
     res_bind (ttf_search_table ttf TTF_TAG_MAXP) (\<lambda>(err, pos).
       if err \<noteq> 0 then Inr (- EBFONT, maxp)
       else res_bind (rd32 ttf (tt_off pos)) (\<lambda>version.
         if version \<noteq> 0x00010000 then Inr (- EBFONT, maxp)
         else res_bind (rd16 ttf (tt_off pos + 4)) (\<lambda>glyphs.
           res_bind (rd16s ttf (map (\<lambda>k. tt_off pos + k) [6, 8, 10, 12, 14, 16, 18, 20, 22, 24, 26, 28, 30])) (\<lambda>limits.
             Inr (0, \<lparr>tm_num_glyphs = glyphs, tm_limits = limits\<rparr>)))))"

definition ttf_parse_head :: "u8 list \<Rightarrow> ttf_head \<Rightarrow> (int \<times> ttf_head) res" where
  "ttf_parse_head ttf head =
     res_bind (ttf_search_table ttf TTF_TAG_HEAD) (\<lambda>(err, pos).
     if err < 0 then Inr (err, head)
     else let ptr = tt_off pos in
       res_bind (rd32 ttf (ptr + 12)) (\<lambda>magic.
       if magic \<noteq> TTF_HEAD_MAGIC then Inr (- EBFONT, head)
       else
         res_bind (rd16 ttf (ptr + 16)) (\<lambda>flags. res_bind (rd16 ttf (ptr + 18)) (\<lambda>upm.
         res_bind (rd16 ttf (ptr + 44)) (\<lambda>style. res_bind (rd16 ttf (ptr + 46)) (\<lambda>srp.
         res_bind (rd16 ttf (ptr + 48)) (\<lambda>dir. res_bind (rd16 ttf (ptr + 50)) (\<lambda>loc.
         res_bind (rdle16 ttf (ptr + 36)) (\<lambda>xmin. res_bind (rdle16 ttf (ptr + 38)) (\<lambda>ymin.
         res_bind (rdle16 ttf (ptr + 40)) (\<lambda>xmax. res_bind (rdle16 ttf (ptr + 42)) (\<lambda>ymax.
           Inr (0, \<lparr>th_flags = flags, th_units_per_em = upm, th_x_min = xmin, th_y_min = ymin, th_x_max = xmax, th_y_max = ymax,
             th_mac_style = style, th_srp = srp, th_dir_hint = dir, th_index_to_loc_fmt = loc\<rparr>)))))))))))))"

text \<open>The whole parser; \<open>info\<close> is the uninitialised structure it fills.\<close>

definition parse_ttf :: "u8 list \<Rightarrow> u32 \<Rightarrow> ttf_info \<Rightarrow> (int \<times> ttf_info) res" where
  "parse_ttf ttf len info =
     res_bind (ttf_is_supported ttf len) (\<lambda>ok.
     if \<not> ok then Inr (- ENSUPPORT, info)
     else res_bind (ttf_parse_head ttf (ti_head info)) (\<lambda>(err, head).
     if err \<noteq> 0 then Inr (err, info)
     else res_bind (ttf_parse_maxp ttf (ti_maxp info)) (\<lambda>(err, maxp).
     if err \<noteq> 0 then Inr (err, info\<lparr>ti_head := head\<rparr>)
     else res_bind (ttf_parse_hmtx ttf (info\<lparr>ti_head := head, ti_maxp := maxp\<rparr>)) (\<lambda>(err, info1).
     if err \<noteq> 0 then Inr (err, info1)
     else res_bind (ttf_parse_cmap ttf info1) (\<lambda>(err, info2).
     if err \<noteq> 0 then Inr (err, info2) else ttf_parse_glyph ttf info2)))))"

subsection \<open>The sum of a table\<close>

text \<open>The sum that the format defines: the words of the table, most significant byte first, the last one filled with zeros.\<close>

fun table_sum :: "u8 list \<Rightarrow> u32" where
  "table_sum (a # b # c # d # bs) = be32_of a b c d + table_sum bs"
| "table_sum [a, b, c] = be32_of a b c 0"
| "table_sum [a, b] = be32_of a b 0 0"
| "table_sum [a] = be32_of a 0 0 0"
| "table_sum [] = 0"

lemma slice_0 [simp]: "slice off 0 buf = []"
  by (simp add: slice_def)

lemma slice_Suc [simp]: "off < length buf \<Longrightarrow> slice off (Suc n) buf = buf ! off # slice (Suc off) n buf"
  by (simp add: slice_def flip: Cons_nth_drop_Suc)

lemma rd32_eq: "rd32 ttf p = (if unat p + 4 \<le> length ttf then Inr (be32_at ttf (unat p)) else Inl OutOfBounds)"
proof (cases "unat p + 4 \<le> length ttf")
  case True
  then show ?thesis by (simp add: rd32_def get_bytes_def be32_at_def slice_nth)
qed (simp add: rd32_def get_bytes_def)

lemma word_count: "unat (drop_bit 2 (align_down len 4)) = unat len div 4"
proof -
  have "unat (align_down len (2 ^ 2)) = unat len div 2 ^ 2 * 2 ^ 2" by (rule unat_align_down)
  then show ?thesis by (simp only: unat_drop_bit_eq) (simp add: drop_bit_eq_div)
qed

lemma trail_count: "unat (len AND 3 :: u32) = unat len mod 4"
proof -
  have "(3 :: u32) = mask 2" by (simp add: mask_eq_exp_minus_1)
  then have "len AND 3 = take_bit 2 len" by (simp only: take_bit_eq_mask)
  then have "unat (len AND 3) = take_bit 2 (unat len)" by (simp only: unsigned_take_bit_eq)
  then show ?thesis by (simp add: take_bit_eq_mod)
qed

lemma crc_word_loop_eq:
  assumes "length ttf < 2 ^ 32"
  shows "if n = 0 \<or> unat p + 4 * n \<le> length ttf
    then \<exists>c. crc_word_loop ttf p n crc = Inr (c, p + 4 * of_nat n) \<and> (0 < n \<longrightarrow> unat (p + 4 * of_nat n) = unat p + 4 * n) \<and>
      (\<forall>r. crc + table_sum (slice (unat p) (4 * n + r) ttf) = c + table_sum (slice (unat p + 4 * n) r ttf))
    else crc_word_loop ttf p n crc = Inl OutOfBounds"
proof (induction n arbitrary: p crc)
  case (Suc n)
  show ?case
  proof (cases "unat p + 4 \<le> length ttf")
    case False
    then show ?thesis by (simp add: rd32_eq)
  next
    case True
    have p: "unat (p + 4) = unat p + 4"
      using True assms by (subst unat_add_lem [THEN iffD1]) auto
    have sl: "table_sum (slice (unat p) (4 * Suc n + r) ttf) = be32_at ttf (unat p) + table_sum (slice (unat p + 4) (4 * n + r) ttf)" for r
      using True by (simp add: be32_at_def eval_nat_numeral)
    have e: "crc_word_loop ttf p (Suc n) crc = crc_word_loop ttf (p + 4) n (crc + be32_at ttf (unat p))"
      using True by (simp add: rd32_eq)
    show ?thesis
    proof (cases "unat p + 4 * Suc n \<le> length ttf")
      case False
      then have "\<not> (n = 0 \<or> unat (p + 4) + 4 * n \<le> length ttf)" using True p by auto
      then show ?thesis using Suc.IH [of "p + 4" "crc + be32_at ttf (unat p)"] False e by simp
    next
      case fits: True
      then have "n = 0 \<or> unat (p + 4) + 4 * n \<le> length ttf" using p by auto
      then obtain c where c: "crc_word_loop ttf (p + 4) n (crc + be32_at ttf (unat p)) = Inr (c, p + 4 + 4 * of_nat n)"
        "0 < n \<longrightarrow> unat (p + 4 + 4 * of_nat n) = unat (p + 4) + 4 * n"
        "\<And>r. crc + be32_at ttf (unat p) + table_sum (slice (unat p + 4) (4 * n + r) ttf) = c + table_sum (slice (unat p + 4 + 4 * n) r ttf)"
        using Suc.IH [of "p + 4" "crc + be32_at ttf (unat p)"] unfolding p by (auto split: if_splits)
      have a: "p + 4 * of_nat (Suc n) = p + 4 + 4 * of_nat n" "unat p + 4 * Suc n = unat p + 4 + 4 * n" by (simp_all add: algebra_simps)
      have "unat (p + 4 + 4 * of_nat n) = unat p + 4 + 4 * n" using c(2) p by (cases "n = 0") auto
      then show ?thesis using fits c(1) c(3) unfolding e a sl by (auto simp: add.assoc)
    qed
  qed
qed simp

lemma adj_loop_eq:
  assumes "length ttf < 2 ^ 32" "n < 4"
  shows "adj_loop ttf p 0 n 0 = (if n = 0 \<or> unat p + n \<le> length ttf then Inr (table_sum (slice (unat p) n ttf)) else Inl OutOfBounds)"
proof -
  have step: "unat p < length ttf \<Longrightarrow> unat (p + 1) = Suc (unat p)" "Suc (unat p) < length ttf \<Longrightarrow> unat (p + 2) = Suc (Suc (unat p))"
    using assms(1) by (subst unat_add_lem [THEN iffD1]; simp)+
  have two: "p + 1 + 1 = p + 2" by simp
  have loop: "adj_loop ttf q i (Suc m) adj = (if unat q < length ttf then adj_loop ttf (q + 1) (i + 1) m (adj OR push_bit (8 * (3 - i)) (ucast (ttf ! unat q))) else Inl OutOfBounds)" for q i m adj
    by (simp add: read_at_def)
  consider "n = 0" | "n = Suc 0" | "n = Suc (Suc 0)" | "n = Suc (Suc (Suc 0))" using assms(2) by linarith
  then show ?thesis
  proof cases
    case 1
    then show ?thesis by simp
  next
    case 2
    then show ?thesis by (simp add: loop be32_of_def del: adj_loop.simps(2))
  next
    case 3
    then show ?thesis
      by (cases "unat p < length ttf") (auto simp: loop step be32_of_def simp del: adj_loop.simps(2))
  next
    case 4
    show ?thesis
    proof (cases "Suc (unat p) < length ttf")
      case True
      then show ?thesis unfolding 4 loop two by (auto simp: step be32_of_def or.assoc simp del: adj_loop.simps(2))
    next
      case False
      then show ?thesis unfolding 4 loop two by (cases "unat p < length ttf") (auto simp: step simp del: adj_loop.simps(2))
    qed
  qed
qed

text \<open>\<^verbatim>\<open>ttf_get_crc\<close> computes the sum of a table as the format defines it, for any place and length: when the
  table lies inside the file (or is empty) the result is the sum of its big-endian words with the last one filled with
  zeros, although the code treats the trailing bytes apart; otherwise it reads behind the file.\<close>

theorem table_checksum_correct:
  assumes "length ttf < 2 ^ 32"
  shows "ttf_get_crc ttf table len =
    (if len = 0 \<or> unat table + unat len \<le> length ttf then Inr (table_sum (slice (unat table) (unat len) ttf)) else Inl OutOfBounds)"
proof -
  define n r where nr: "n = unat len div 4" "r = unat len mod 4"
  have len: "unat len = 4 * n + r" "r < 4" "len = 0 \<longleftrightarrow> n = 0 \<and> r = 0" by (auto simp: nr unat_eq_0)
  have crc: "ttf_get_crc ttf table len = res_bind (crc_word_loop ttf table n 0) (\<lambda>(crc, p).
     res_bind (adj_loop ttf p 0 r 0) (\<lambda>adj. Inr (crc + adj)))"
    unfolding ttf_get_crc_def word_count trail_count nr ..
  show ?thesis
  proof (cases "n = 0 \<or> unat table + 4 * n \<le> length ttf")
    case False
    then show ?thesis using crc_word_loop_eq [OF assms, of n table 0] unfolding crc len by auto
  next
    case True
    then obtain c where c: "crc_word_loop ttf table n 0 = Inr (c, table + 4 * of_nat n)"
      "0 < n \<longrightarrow> unat (table + 4 * of_nat n) = unat table + 4 * n"
      "\<And>r. table_sum (slice (unat table) (4 * n + r) ttf) = c + table_sum (slice (unat table + 4 * n) r ttf)"
      using crc_word_loop_eq [OF assms, of n table 0] by auto
    have p: "unat (table + 4 * of_nat n) = unat table + 4 * n" using c(2) by (cases "n = 0") auto
    have e: "ttf_get_crc ttf table len = res_bind (adj_loop ttf (table + 4 * of_nat n) 0 r 0) (\<lambda>adj. Inr (c + adj))"
      unfolding crc c(1) by simp
    have sum: "table_sum (slice (unat table) (unat len) ttf) = c + table_sum (slice (unat table + 4 * n) r ttf)"
      unfolding len(1) by (rule c(3))
    have fits: "(len = 0 \<or> unat table + unat len \<le> length ttf) \<longleftrightarrow> (r = 0 \<or> unat table + 4 * n + r \<le> length ttf)"
      using True unfolding len(1,3) by auto
    show ?thesis unfolding e sum fits adj_loop_eq [OF assms len(2)] p by simp
  qed
qed

text \<open>Three bytes from offset 1 on of a file of four.\<close>

lemma table_checksum_correct_witness: "ttf_get_crc [0xAA, 1, 2, 3] 1 3 = Inr 0x01020300"
  using table_checksum_correct [of "[0xAA, 1, 2, 3]" 1 3] by (simp add: be32_of_def slice_def)

end
