(* ===== verification/Fpu.thy ===== *)
theory Fpu
  imports Sched
begin

text \<open>
  The floating point unit and its lazy context switch: \<^verbatim>\<open>undef_exception\<close> of
  \<^verbatim>\<open>arch/fault.c\<close>, \<^verbatim>\<open>fpu_context_switch\<close> of \<^verbatim>\<open>arch/fpu.s\<close> and the end of the interrupt
  return in \<^verbatim>\<open>arch/irq.s\<close>, over the run queue of \<^verbatim>\<open>Sched\<close>. The unit is switched off
  when the thread changes; the first instruction that uses it traps, and only then are the registers
  of the last user saved and those of the running thread loaded.
\<close>

subsection \<open>Definitions\<close>

text \<open>\<open>cp_stack\<close> is the field \<^verbatim>\<open>fpu_stack\<close> of every thread.\<close>

record cpu =
  cp_rq :: rq
  cp_fpexc :: u32
  cp_s :: "u32 list"
  cp_stack :: "tid \<Rightarrow> u32 list"

definition fpu_context_switch :: "cpu \<Rightarrow> cpu" where
  "fpu_context_switch c =
     (let r4 = sched_get_lazy_fpu_user (cp_rq c); r0 = get_curr_thread (cp_rq c) in
      if r4 = r0 then c
      else
        let stack = (if r4 \<noteq> 0 then (cp_stack c)(r4 := cp_s c) else cp_stack c) in
        c\<lparr>cp_stack := stack, cp_s := stack r0, cp_rq := sched_set_lazy_fpu_user r0 (cp_rq c)\<rparr>)"

definition undef_exception :: "cpu \<Rightarrow> cpu res" where
  "undef_exception c =
     (if cp_fpexc c AND push_bit 29 1 \<noteq> 0 then Inl (Panic ''FPU DEX bit set'')
      else if cp_fpexc c AND push_bit 30 1 \<noteq> 0 then Inl (Panic ''FPU exception with FPU enabled'')
      else Inr (fpu_context_switch (c\<lparr>cp_fpexc := cp_fpexc c OR push_bit 30 1\<rparr>)))"

text \<open>
  An instruction that changes the registers by \<open>f\<close>. With the unit off the processor takes the
  exception, and the handler returns to the instruction.
\<close>

definition fpu_instr :: "(u32 list \<Rightarrow> u32 list) \<Rightarrow> cpu \<Rightarrow> cpu res" where
  "fpu_instr f c =
     (if bit (cp_fpexc c) 30 then Inr (c\<lparr>cp_s := f (cp_s c)\<rparr>)
      else res_bind (undef_exception c) (\<lambda>c'. Inr (c'\<lparr>cp_s := f (cp_s c')\<rparr>)))"

text \<open>The end of every interrupt and system call.\<close>

definition context_core :: "cpu \<Rightarrow> cpu" where
  "context_core c =
     (if rq_next (cp_rq c) = 0 then c
      else c\<lparr>cp_rq := context_switch (cp_rq c), cp_fpexc := cp_fpexc c AND NOT (push_bit 30 1)\<rparr>)"

text \<open>\<^verbatim>\<open>init_thread_struct\<close> clears the registers of a new thread.\<close>

definition fpu_stack_init :: "tid \<Rightarrow> cpu \<Rightarrow> cpu" where
  "fpu_stack_init t c = c\<lparr>cp_stack := (cp_stack c)(t := replicate 32 0)\<rparr>"

subsection \<open>What a thread sees\<close>

text \<open>The registers of a thread: those of the unit for its last user, else the saved ones.\<close>

definition vregs :: "cpu \<Rightarrow> tid \<Rightarrow> u32 list" where
  "vregs c t = (if t = lazy_fpu (cp_rq c) \<and> t \<noteq> 0 then cp_s c else cp_stack c t)"

definition fpu_ok :: "cpu \<Rightarrow> bool" where
  "fpu_ok c \<longleftrightarrow> \<not> bit (cp_fpexc c) 29 \<and>
     (bit (cp_fpexc c) 30 \<longrightarrow> lazy_fpu (cp_rq c) = rq_curr (cp_rq c) \<and> rq_curr (cp_rq c) \<noteq> 0)"

datatype fpu_event = Ran tid "u32 list \<Rightarrow> u32 list" | Started tid | Other

text \<open>Registers of its own for every thread.\<close>

primrec own_registers :: "fpu_event \<Rightarrow> (tid \<Rightarrow> u32 list) \<Rightarrow> tid \<Rightarrow> u32 list" where
  "own_registers (Ran t f) v = v(t := f (v t))"
| "own_registers (Started t) v = v(t := replicate 32 0)"
| "own_registers Other v = v"

text \<open>
  The events of the scheduler, each followed by the interrupt return, and the instructions of the running
  thread. A new thread must not have the address of the last user of the unit.
\<close>

inductive cpu_step :: "cpu \<Rightarrow> fpu_event \<Rightarrow> cpu \<Rightarrow> bool" where
  instr: "rq_curr (cp_rq c) \<noteq> 0 \<Longrightarrow> fpu_instr f c = Inr c' \<Longrightarrow> cpu_step c (Ran (rq_curr (cp_rq c)) f) c'"
| tick: "cpu_tick_handler (cp_rq c) = Inr rq' \<Longrightarrow> cpu_step c Other (context_core (c\<lparr>cp_rq := rq'\<rparr>))"
| sleep: "sched_thread_sleep ms us (cp_rq c) = Inr rq' \<Longrightarrow> cpu_step c Other (context_core (c\<lparr>cp_rq := rq'\<rparr>))"
| start: "t \<noteq> lazy_fpu (cp_rq c) \<Longrightarrow> sched_enqueue_thread t (cp_rq c) = Inr rq' \<Longrightarrow>
    cpu_step c (Started t) (fpu_stack_init t (c\<lparr>cp_rq := rq'\<rparr>))"
| kill: "sched_kill_thread t (cp_rq c) = Inr rq' \<Longrightarrow> cpu_step c Other (c\<lparr>cp_rq := rq'\<rparr>)"

inductive_cases cpu_step_cases: "cpu_step c e c'"

inductive cpu_run :: "cpu \<Rightarrow> fpu_event list \<Rightarrow> cpu \<Rightarrow> bool" where
  none: "cpu_run c [] c"
| more: "cpu_step c e c' \<Longrightarrow> cpu_run c' es c'' \<Longrightarrow> cpu_run c (e # es) c''"

subsection \<open>The scheduler leaves the unit alone\<close>

definition same_user :: "rq \<Rightarrow> rq \<Rightarrow> bool" where
  "same_user rq rq' \<longleftrightarrow> rq_curr rq' = rq_curr rq \<and> lazy_fpu rq' = lazy_fpu rq"

lemma same_user_trans: "same_user a b \<Longrightarrow> same_user b c \<Longrightarrow> same_user a c"
  by (simp add: same_user_def)

lemma class_enqueue_user: "same_user rq (class_enqueue c t rq)"
  by (cases c) (simp_all add: same_user_def rt_enqueue_def fair_enqueue_def back_enqueue_def idle_enqueue_def)

lemma class_dequeue_user: "class_dequeue c t rq = Inr rq' \<Longrightarrow> same_user rq rq'"
  by (cases c) (auto simp: same_user_def rt_dequeue_def fair_dequeue_def back_dequeue_def unlink_def split: if_splits)

lemma class_pick_user: "class_pick_next c rq = (t, rq') \<Longrightarrow> same_user rq rq'"
  by (cases c) (auto simp: same_user_def rt_pick_next_def fair_pick_next_def back_pick_next_def idle_pick_next_def Let_def
      split: if_splits)

lemma wake_loop_user: "wake_loop tick ts rq = Inr rq' \<Longrightarrow> same_user rq rq'"
proof (induction ts arbitrary: rq)
  case Nil
  then show ?case by (simp add: same_user_def)
next
  case (Cons t ts)
  then show ?case
    using class_enqueue_user [of "rq\<lparr>sleep_list := ts\<rparr>"]
    by (auto simp: same_user_def split: if_splits option.splits)
qed

lemma pick_from_user: "pick_from cs rq = Inr (t, rq') \<Longrightarrow> same_user rq rq'"
proof (induction cs arbitrary: rq)
  case (Cons c cs)
  obtain u rq1 where p: "class_pick_next c rq = (u, rq1)" by fastforce
  show ?case
    using Cons.prems Cons.IH [of rq1] class_pick_user [OF p] p by (auto intro: same_user_trans split: if_splits)
qed simp

lemma account_user: "account_runtime d rq = Inr rq' \<Longrightarrow> same_user rq rq'"
  by (auto simp: account_runtime_def Let_def same_user_def split: if_splits)

lemma wake_user:
  assumes "enqueue_sleeping_threads rq = Inr rq'"
  shows "same_user rq rq'"
proof -
  obtain rq1 where w: "wake_loop (time_tick rq) (sleep_list rq) rq = Inr rq1"
    "rq' = (case sleep_list rq1 of [] \<Rightarrow> rq1\<lparr>time_wake := 0\<rparr> | t # _ \<Rightarrow> rq1\<lparr>time_wake := t_wake (threads rq1 t)\<rparr>)"
    using assms by (auto simp only: enqueue_sleeping_threads_def res_bind_Inr_iff sum.inject)
  show ?thesis using wake_loop_user [OF w(1)] by (cases "sleep_list rq1") (simp_all add: w(2) same_user_def)
qed

lemma core_sched_user:
  assumes "core_sched r us rq = Inr rq'"
  shows "same_user rq rq'"
proof -
  obtain rq2 rq3 new rq4 where r: "account_runtime (if r then us else SCHED_SLICE) rq = Inr rq2"
    "(if time_tick rq2 > time_wake rq2 \<and> time_wake rq2 \<noteq> 0 then enqueue_sleeping_threads rq2 else Inr rq2) = Inr rq3"
    "core_pick_next rq3 = Inr (new, rq4)" "rq' = (if new \<noteq> rq_curr rq4 then rq4\<lparr>rq_next := new\<rparr> else rq4)"
    using assms unfolding core_sched_def by (auto simp only: res_bind_Inr_iff split_paired_Ex prod.case sum.inject)
  have "same_user rq rq2" by (rule account_user [OF r(1)])
  moreover have "same_user rq2 rq3" using r(2) wake_user by (auto simp: same_user_def split: if_splits)
  moreover have "same_user rq3 rq4" using r(3) unfolding core_pick_next_def by (rule pick_from_user)
  ultimately show ?thesis by (auto simp: r(4) same_user_def)
qed

lemma handlers_user:
  "cpu_tick_handler rq = Inr rq' \<Longrightarrow> same_user rq rq'"
  "sched_thread_sleep ms us rq = Inr rq' \<Longrightarrow> same_user rq rq'"
  "sched_enqueue_thread t rq = Inr rq' \<Longrightarrow> same_user rq rq'"
  "sched_kill_thread t rq = Inr rq' \<Longrightarrow> same_user rq rq'"
proof -
  show "cpu_tick_handler rq = Inr rq' \<Longrightarrow> same_user rq rq'" by (auto simp: cpu_tick_handler_def dest: core_sched_user)
  show "sched_thread_sleep ms us rq = Inr rq' \<Longrightarrow> same_user rq rq'"
    by (auto simp: sched_thread_sleep_def Let_def get_curr_thread_def add_sleep_list_def set_state_def res_bind_Inr_iff same_user_def
        split: if_splits option.splits dest!: core_sched_user class_dequeue_user)
  show "sched_enqueue_thread t rq = Inr rq' \<Longrightarrow> same_user rq rq'"
    using class_enqueue_user by (auto simp: sched_enqueue_thread_def set_state_def same_user_def split: option.splits)
  show "sched_kill_thread t rq = Inr rq' \<Longrightarrow> same_user rq rq'"
    by (auto simp: sched_kill_thread_def Let_def res_bind_Inr_iff same_user_def split: if_splits option.splits dest!: class_dequeue_user)
qed


subsection \<open>The simulation\<close>

lemma fpexc_bits:
  "cp AND push_bit 29 1 \<noteq> 0 \<longleftrightarrow> bit (cp :: u32) 29" "cp AND push_bit 30 1 \<noteq> 0 \<longleftrightarrow> bit cp 30"
  by (simp_all only: and_exp_eq_0_iff_not_bit push_bit_of_1 not_not)

lemma bit_en: "bit (push_bit 30 1 :: u32) n \<longleftrightarrow> n = 30"
  by (simp only: push_bit_of_1 bit_exp_iff) auto

lemma fpexc_set: "bit (cp OR push_bit 30 1 :: u32) n \<longleftrightarrow> bit cp n \<or> n = 30"
  by (simp only: bit_or_iff bit_en)

lemma fpexc_clear: "bit (cp AND NOT (push_bit 30 1) :: u32) n \<longleftrightarrow> bit cp n \<and> n \<noteq> 30"
  by (auto simp only: bit_and_iff bit_not_iff bit_en possible_bit_word dest: bit_imp_le_length)

lemma fpu_instr_off:
  assumes "\<not> bit (cp_fpexc c) 29" "\<not> bit (cp_fpexc c) 30"
  obtains e where "fpu_instr f c = Inr (let c' = fpu_context_switch (c\<lparr>cp_fpexc := e\<rparr>) in c'\<lparr>cp_s := f (cp_s c')\<rparr>)"
    "\<not> bit e 29" "bit e 30"
proof
  show "fpu_instr f c = Inr (let c' = fpu_context_switch (c\<lparr>cp_fpexc := cp_fpexc c OR push_bit 30 1\<rparr>) in c'\<lparr>cp_s := f (cp_s c')\<rparr>)"
    using assms by (simp only: fpu_instr_def undef_exception_def fpexc_bits if_False res_bind.simps Let_def)
qed (use assms in \<open>simp_all only: fpexc_set, simp_all\<close>)

lemmas switch_defs = fpu_context_switch_def Let_def sched_get_lazy_fpu_user_def get_curr_thread_def sched_set_lazy_fpu_user_def

lemma fpu_instr_ok:
  assumes "fpu_ok c" and "rq_curr (cp_rq c) \<noteq> 0"
  shows "\<exists>c'. fpu_instr f c = Inr c' \<and> cp_s c' = f (vregs c (rq_curr (cp_rq c))) \<and> fpu_ok c' \<and>
    rq_curr (cp_rq c') = rq_curr (cp_rq c) \<and> lazy_fpu (cp_rq c') = rq_curr (cp_rq c) \<and>
    vregs c' = own_registers (Ran (rq_curr (cp_rq c)) f) (vregs c)"
proof (cases "bit (cp_fpexc c) 30")
  case True
  then show ?thesis using assms by (auto simp: fpu_instr_def fpu_ok_def vregs_def fun_eq_iff)
next
  case False
  then obtain e where e: "fpu_instr f c = Inr (let c' = fpu_context_switch (c\<lparr>cp_fpexc := e\<rparr>) in c'\<lparr>cp_s := f (cp_s c')\<rparr>)"
    "\<not> bit e 29" "bit e 30" using fpu_instr_off assms(1) unfolding fpu_ok_def by metis
  then show ?thesis using assms by (auto simp: switch_defs fpu_ok_def vregs_def fun_eq_iff)
qed

lemma context_core_ok:
  assumes "fpu_ok c" and "same_user (cp_rq c) rq'"
  shows "fpu_ok (context_core (c\<lparr>cp_rq := rq'\<rparr>)) \<and> vregs (context_core (c\<lparr>cp_rq := rq'\<rparr>)) = vregs c"
proof (cases "rq_next rq' = 0")
  case True
  then show ?thesis using assms by (auto simp: context_core_def fpu_ok_def same_user_def vregs_def fun_eq_iff)
next
  case False
  define e where "e = cp_fpexc c AND NOT (push_bit 30 1)"
  have e: "bit e n \<longleftrightarrow> bit (cp_fpexc c) n \<and> n \<noteq> 30" for n unfolding e_def by (rule fpexc_clear)
  have "context_core (c\<lparr>cp_rq := rq'\<rparr>) = c\<lparr>cp_rq := context_switch rq', cp_fpexc := e\<rparr>"
    using False by (simp add: context_core_def e_def)
  then show ?thesis using assms False e by (auto simp: context_switch_def fpu_ok_def same_user_def vregs_def fun_eq_iff)
qed

lemma cpu_step_ok:
  assumes "cpu_step c e c'" and "fpu_ok c"
  shows "fpu_ok c' \<and> vregs c' = own_registers e (vregs c)"
  using assms
proof cases
  case (instr f)
  then show ?thesis using fpu_instr_ok [OF assms(2), of f] by auto
next
  case (tick rq')
  then show ?thesis using context_core_ok [OF assms(2) handlers_user(1)] by auto
next
  case (sleep ms us rq')
  then show ?thesis using context_core_ok [OF assms(2) handlers_user(2)] by auto
next
  case (start t rq')
  then show ?thesis
    using handlers_user(3) [OF start(4)] assms(2) by (auto simp: fpu_stack_init_def same_user_def fpu_ok_def vregs_def fun_eq_iff)
next
  case (kill t rq')
  then show ?thesis
    using handlers_user(4) [OF kill(3)] assms(2) by (auto simp: same_user_def fpu_ok_def vregs_def fun_eq_iff)
qed

lemma cpu_run_ok: "cpu_run c es c' \<Longrightarrow> fpu_ok c \<Longrightarrow> fpu_ok c' \<and> vregs c' = fold own_registers es (vregs c)"
  by (induction rule: cpu_run.induct) (auto dest: cpu_step_ok)


text \<open>The idle thread 1 and the thread 2: 2 computes, the tick gives the processor to 2 first.\<close>

definition demo_cpu :: cpu where
  "demo_cpu = \<lparr>cp_rq = (boot_rq 1 demo_rq)\<lparr>rt_queue := [2]\<rparr>, cp_fpexc = 0, cp_s = replicate 32 7, cp_stack = (\<lambda>t. replicate 32 0)\<rparr>"


subsection \<open>A thread that is gone\<close>

text \<open>
  A kill leaves \<^verbatim>\<open>lazy_fpu\<close> pointing to the freed thread: when another thread uses the unit next, the
  registers are written into the freed block.
\<close>

lemma killed_user_written:
  assumes "sched_kill_thread t (cp_rq c) = Inr rq'" and "lazy_fpu (cp_rq c) = t" "t \<noteq> 0"
    and "fpu_ok c" "\<not> bit (cp_fpexc c) 30" "rq_curr rq' \<noteq> t"
  shows "t \<in> set (kfreed rq') \<and> (\<exists>c'. fpu_instr f (c\<lparr>cp_rq := rq'\<rparr>) = Inr c' \<and> cp_stack c' t = cp_s c)"
proof -
  have k: "t \<in> set (kfreed rq')"
    using assms(1) by (auto simp: sched_kill_thread_def Let_def res_bind_Inr_iff split: if_splits option.splits)
  have "same_user (cp_rq c) rq'" by (rule handlers_user(4) [OF assms(1)])
  then have u: "lazy_fpu rq' = t" using assms(2) by (simp add: same_user_def)
  obtain e where "fpu_instr f (c\<lparr>cp_rq := rq'\<rparr>) =
      Inr (let c' = fpu_context_switch (c\<lparr>cp_rq := rq', cp_fpexc := e\<rparr>) in c'\<lparr>cp_s := f (cp_s c')\<rparr>)"
    using fpu_instr_off [of "c\<lparr>cp_rq := rq'\<rparr>" f] assms(4,5) by (auto simp: fpu_ok_def)
  then show ?thesis using k u assms(3,6) by (auto simp: switch_defs)
qed

text \<open>And a new thread that the allocator puts at that address starts with the registers of the dead one.\<close>

lemma reborn_user_inherits:
  assumes "lazy_fpu (cp_rq c) = t" "rq_curr (cp_rq c) = t" "fpu_ok c" "\<not> bit (cp_fpexc c) 30"
  shows "\<exists>c'. fpu_instr f (fpu_stack_init t c) = Inr c' \<and> cp_s c' = f (cp_s c)"
proof -
  obtain e where "fpu_instr f (fpu_stack_init t c) =
      Inr (let c' = fpu_context_switch ((fpu_stack_init t c)\<lparr>cp_fpexc := e\<rparr>) in c'\<lparr>cp_s := f (cp_s c')\<rparr>)"
    using fpu_instr_off [of "fpu_stack_init t c" f] assms(3,4) by (auto simp: fpu_ok_def fpu_stack_init_def)
  then show ?thesis using assms(1,2) by (simp add: switch_defs fpu_stack_init_def)
qed

end
