(* ===== verification/Fault.thy ===== *)
theory Fault
  imports Device Print
begin

text \<open>
  Faults and panics: the abort handlers of \<^verbatim>\<open>arch/fault.c\<close> (the exception of the floating point unit is
  in \<open>Fpu\<close>) and \<^verbatim>\<open>lib/panic.c\<close>. What is printed is the list of the calls of \<^verbatim>\<open>print\<close>, each with the bytes of
  its format and its arguments; the contents of the processor registers are arguments. Every handler ends in a reset.
\<close>

subsection \<open>Definitions\<close>

type_synonym printed = "(u8 list \<times> arg list) list"

text \<open>A line of text, ended by a line feed.\<close>

definition text_line :: "string \<Rightarrow> u8 list" where
  "text_line s = str_bytes s @ [10]"

definition uart1 :: "string \<Rightarrow> u32" where
  "uart1 n = reg_addr UART1_base uart_reg n"

definition software_reset :: "'d device \<Rightarrow> (unit, 'd) io" where
  "software_reset D =
     io_all [io_wait D (uart1 ''SR'') (bit_set 9), reg_write D (reg_addr RST_base reset_reg ''CR'') (0xA5000000 OR 1)]"

definition reboot :: "'d device \<Rightarrow> (printed, 'd) io" where
  "reboot D = io_bind (software_reset D) (\<lambda>_. io_return [(text_line ''Rebooting...'', [])])"

definition panic_handler :: "'d device \<Rightarrow> u8 list \<Rightarrow> u32 \<Rightarrow> u8 list \<Rightarrow> (printed, 'd) io" where
  "panic_handler D path line reason =
     io_bind (software_reset D) (\<lambda>_. io_return
       [(10 # str_bytes ''Panic! at line %d in file '', [Num line]), (path, []), (10 # str_bytes ''Reason: '', []), (reason, []), ([10], [])])"

definition assert_handler :: "'d device \<Rightarrow> u8 list \<Rightarrow> u32 \<Rightarrow> u32 \<Rightarrow> (printed, 'd) io" where
  "assert_handler D path line statement =
     (if statement = 0 then panic_handler D path line (str_bytes ''Assertion failed'') else io_return [])"

definition warning_handler :: "u8 list \<Rightarrow> u32 \<Rightarrow> u8 list \<Rightarrow> printed" where
  "warning_handler path line reason =
     [(10 # str_bytes ''Warning! at line %d in file '', [Num line]), (path, []), (str_bytes '': '', []), (reason, []), ([10], [])]"

text \<open>The status from a fault status register: bits 3 to 0, bit 10 and bit 12.\<close>

definition fault_status :: "u32 \<Rightarrow> u32" where
  "fault_status fsr = (fsr AND 0xF) OR push_bit 5 (drop_bit 12 fsr AND 1) OR push_bit 4 (drop_bit 10 fsr AND 1)"

definition fault_kind :: "u32 \<Rightarrow> string option" where
  "fault_kind status =
     (if status = 1 then Some ''Alginment fault''
      else if status = 4 then Some ''Instruction cache maintainance fault''
      else if status AND 0x1F = 12 then Some ''Level 1 translation sync external abort''
      else if status AND 0x1F = 14 then Some ''Level 2 translation sync external abort''
      else if status = 5 then Some ''Translation fault section''
      else if status = 7 then Some ''Translation fault page''
      else if status = 3 then Some ''Access fault section''
      else if status = 6 then Some ''Access fault page''
      else if status = 9 then Some ''Domain fault section''
      else if status = 11 then Some ''Domain fault page''
      else if status = 13 then Some ''Permission fault section''
      else if status = 15 then Some ''Permission fault page''
      else if status AND 0x1F = 8 then Some ''Sync external abort nontranslation''
      else if status AND 0x1F = 22 then Some ''Sync external abort''
      else None)"

definition fault_report :: "u32 \<Rightarrow> string list" where
  "fault_report fsr =
     (let status = fault_status fsr in
      [if status AND push_bit 11 1 \<noteq> 0 then ''Error: W'' else ''Error: R''] @
      (case fault_kind status of None \<Rightarrow> [] | Some k \<Rightarrow> [k]) @
      [if status AND push_bit 5 1 \<noteq> 0 then ''AXI slave error caused the abort'' else ''AXI decode error caused the abort''])"

definition register_names :: "string list" where
  "register_names = [''r0 '', ''r1 '', ''r2 '', ''r3 '', ''r4 '', ''r5 '', ''r6 '', ''r7 '', ''r8 '', ''r9 '', ''r10'', ''r11'', ''r12'', ''sp '', ''lr '', ''pc '']"

definition print_regs :: "u32 list \<Rightarrow> printed" where
  "print_regs regs = map (\<lambda>(n, v). (text_line (n @ '': %p''), [Num v])) (zip register_names regs)"

text \<open>The registers of the coprocessor that describe an abort: status, address and translation.\<close>

record abort =
  ab_spsr :: u32
  ab_fsr :: u32
  ab_far :: u32
  ab_par :: u32

text \<open>A name, a tab and a number in brackets.\<close>

definition tabbed :: "string \<Rightarrow> u8 list" where
  "tabbed n = str_bytes n @ [9] @ text_line ''[%p]''"

definition abort_text :: "string \<Rightarrow> string \<Rightarrow> u32 \<Rightarrow> abort \<Rightarrow> printed" where
  "abort_text kind fsr_name pc ab =
     [(10 # text_line (''Kernel fault: '' @ kind @ '' exception''), []), (tabbed ''PC'', [Num pc]), (tabbed ''CPSR'', [Num (ab_spsr ab)]),
      (tabbed fsr_name, [Num (ab_fsr ab)])] @
     map (\<lambda>l. (text_line l, [])) (fault_report (ab_fsr ab)) @
     [(text_line ''Instruction fault addr: %p'', [Num (ab_far ab)]), (text_line ''Phys addr: %p'', [Num (ab_par ab)])]"

definition prefetch_exception :: "'d device \<Rightarrow> u32 list \<Rightarrow> abort \<Rightarrow> u32 \<Rightarrow> (printed, 'd) io" where
  "prefetch_exception D regs ab pc =
     io_bind (reboot D) (\<lambda>last_words. io_return (print_regs regs @ abort_text ''prefetch'' ''IFSR'' pc ab @ last_words))"

definition data_exception :: "'d device \<Rightarrow> u32 \<Rightarrow> u32 \<Rightarrow> u32 list \<Rightarrow> abort \<Rightarrow> u32 \<Rightarrow> (printed, 'd) io" where
  "data_exception D rq_next rq_curr regs ab pc =
     io_bind (reboot D) (\<lambda>last_words. io_return
       ([(text_line ''Next => %p'', [Num rq_next]), (text_line ''Curr => %p'', [Num rq_curr])] @ print_regs regs @
        abort_text ''data'' ''DFSR'' pc ab @ last_words))"

subsection \<open>What a report says\<close>

lemma fault_status_bits: "bit (fault_status fsr) n \<longleftrightarrow> n < 4 \<and> bit fsr n \<or> n = 4 \<and> bit fsr 10 \<or> n = 5 \<and> bit fsr 12"
proof -
  have "(0xF :: u32) = mask 4" "(1 :: u32) = mask 1" by (simp_all add: mask_eq_exp_minus_1)
  then have e: "fault_status fsr = (fsr AND mask 4) OR push_bit 5 (drop_bit 12 fsr AND mask 1) OR push_bit 4 (drop_bit 10 fsr AND mask 1)"
    unfolding fault_status_def by (simp only:)
  have lo: "bit (fsr AND mask 4) n \<longleftrightarrow> n < 4 \<and> bit fsr n"
    by (auto simp: bit_and_iff bit_mask_iff dest: bit_imp_le_length)
  have hi: "bit (push_bit k (drop_bit m fsr AND mask 1)) n \<longleftrightarrow> n = k \<and> k < 32 \<and> bit fsr m" for k m
  proof -
    have "bit (push_bit k (drop_bit m fsr AND mask 1)) n \<longleftrightarrow> k \<le> n \<and> n < 32 \<and> bit fsr (m + (n - k)) \<and> n - k < 1"
      by (simp only: bit_push_bit_iff bit_and_iff bit_mask_iff bit_drop_bit_eq comp_def possible_bit_word) auto
    then show ?thesis by auto
  qed
  show ?thesis unfolding e bit_or_iff lo hi by auto
qed

text \<open>The status has six bits, so a write is always reported as a read: bit 11 of the register is meant.\<close>

lemma write_reported_as_read: "hd (fault_report fsr) = ''Error: R''"
proof -
  have "\<not> bit (fault_status fsr) 11" by (simp add: fault_status_bits)
  then have "fault_status fsr AND push_bit 11 1 = 0" by (simp only: push_bit_of_1 and_exp_eq_0_iff_not_bit not_False_eq_True)
  then show ?thesis by (simp add: fault_report_def Let_def)
qed

text \<open>An external abort, bit 12, hides every kind that is not an external abort.\<close>

lemma external_hides_kind:
  assumes "bit fsr 12" and "fault_kind (fault_status fsr) = Some k"
  shows "k \<in> {''Level 1 translation sync external abort'', ''Level 2 translation sync external abort'',
    ''Sync external abort nontranslation'', ''Sync external abort''}"
proof -
  have b: "bit (fault_status fsr) 5" using assms(1) by (simp add: fault_status_bits)
  have "fault_status fsr \<noteq> c" if "\<not> bit c 5" for c using b that by auto
  then have "fault_status fsr \<notin> {1, 4, 5, 7, 3, 6, 9, 11, 13, 15}" by auto
  then show ?thesis using assms(2) by (auto simp: fault_kind_def split: if_splits)
qed

text \<open>A panic resets the board once the transmitter is empty, and a true assertion does nothing.\<close>

definition panic_text :: "u8 list \<Rightarrow> u32 \<Rightarrow> u8 list \<Rightarrow> printed" where
  "panic_text path line reason =
     [(10 # str_bytes ''Panic! at line %d in file '', [Num line]), (path, []), (10 # str_bytes ''Reason: '', []), (reason, []), ([10], [])]"

lemma panic_resets:
  assumes "dev_read D (uart1 ''SR'') d = (v, d')" and "bit v 9"
  shows "panic_handler D path line reason d =
    Inr (panic_text path line reason, dev_write D (reg_addr RST_base reset_reg ''CR'') 0xA5000001 d')"
  using assms by (simp add: panic_handler_def panic_text_def software_reset_def io_defs io_wait_def or_hang_def wait_until.simps [of D _ _ d])

lemma panic_prints: "panic_handler D path line reason d = Inr (out, d') \<Longrightarrow> out = panic_text path line reason"
  by (auto simp: panic_handler_def panic_text_def io_bind_Inr io_return_def)

lemma assert_true_silent: "statement \<noteq> 0 \<Longrightarrow> assert_handler D path line statement d = Inr ([], d)"
  by (simp add: assert_handler_def io_defs)

subsection \<open>What of a panic reaches the line\<close>

text \<open>The calls of \<^verbatim>\<open>print\<close> a handler makes with the interrupts off: no transfer completes between them.\<close>

definition print_calls :: "printed \<Rightarrow> print_event list" where
  "print_calls out = map (\<lambda>(data, args). Printed (Some data) args) out"

lemma busy_run:
  "print_run (print_calls out) s = Inr s' \<Longrightarrow> \<not> dma_done s \<Longrightarrow> submitted s' = submitted s \<and> \<not> dma_done s'"
proof (induction out arbitrary: s)
  case (Cons m out)
  obtain data args where m: "m = (data, args)" by (cases m)
  obtain s1 where s1: "print (Some data) args s = Inr s1" "print_run (print_calls out) s1 = Inr s'"
    using Cons.prems(1) m by (auto simp: print_calls_def print_step_def res_bind_Inr_iff)
  have "submitted s1 = submitted s" "\<not> dma_done s1"
    using s1(1) Cons.prems(2) by (auto simp: print_def print_format_def print_commit_def res_bind_Inr_iff)
  then show ?case using Cons.IH [OF s1(2)] by simp
qed (simp add: print_calls_def)

lemma idle_first:
  assumes "print_inv s" and "dma_done s" and "print data args s = Inr s1"
  shows "submitted s1 = submitted s @ [printed_bytes (Printed data args)] \<and> \<not> dma_done s1"
proof -
  have d: "\<not> dma_done s1" "curr_len s = 0"
    using assms by (auto simp: print_def print_format_def print_commit_def flush_buffer_def res_bind_Inr_iff print_inv_def)
  obtain b where b: "submitted s1 = submitted s @ [b]" "pending s1 = []"
    using assms by (auto simp: print_def print_format_def print_commit_def flush_buffer_def res_bind_Inr_iff pending_def)
  have "stream s = concat (submitted s)" using d(2) by (simp add: stream_def pending_def)
  then have "b = printed_bytes (Printed data args)"
    using print_inv_step(2) [OF assms(1,3)] b by (simp add: stream_def)
  then show ?thesis using b d by simp
qed

text \<open>Messages that fit the current buffer together are printed without a fault.\<close>

lemma run_fits:
  "print_inv s \<Longrightarrow> (\<forall>(data, args) \<in> set out. \<exists>b. vsprint (Some data) args = Inr b) \<Longrightarrow>
   unat (curr_len s) + length (concat (map printed_bytes (print_calls out))) \<le> PRINT_SIZE \<Longrightarrow>
   \<exists>s'. print_run (print_calls out) s = Inr s'"
proof (induction out arbitrary: s)
  case (Cons m out)
  obtain data args where m: "m = (data, args)" by (cases m)
  obtain b where b: "vsprint (Some data) args = Inr b" using Cons.prems(2) m by auto
  have e: "printed_bytes (Printed (Some data) args) = b" by (simp add: printed_bytes_def b)
  let ?rest = "length (concat (map printed_bytes (print_calls out)))"
  have l: "unat (curr_len s) + length b + ?rest \<le> PRINT_SIZE"
    using Cons.prems(3) m e by (simp add: print_calls_def)
  then obtain s1 where s1: "print (Some data) args s = Inr s1" using print_fits [OF Cons.prems(1) b] by auto
  have "unat (curr_len s1) \<le> unat (curr_len s) + length b"
    using s1 b l by (auto simp: print_def print_format_def print_commit_def flush_buffer_def res_bind_Inr_iff Let_def
      unat_add_u32 unat_of_nat PRINT_SIZE_def)
  then show ?case using Cons.IH [of s1] print_inv_step(1) [OF Cons.prems(1) s1] Cons.prems(2) l m s1
    by (auto simp: print_calls_def print_step_def)
qed (simp add: print_calls_def)

text \<open>C34. The reason of a panic is never sent. The handler turns the interrupts off first, so the transfer that the
  first message starts never completes for the software and the messages after it, file and reason, stay in the
  buffer until the reset; and if a transfer was under way already, nothing of the panic is sent at all.\<close>

theorem panic_reason_lost:
  assumes "panic_handler D path line reason d = Inr (out, d')" and "print_inv s" and "print_run (print_calls out) s = Inr s'"
  shows "submitted s' =
    (if dma_done s then submitted s @ [printed_bytes (Printed (Some (10 # str_bytes ''Panic! at line %d in file '')) [Num line])]
     else submitted s)"
proof (cases "dma_done s")
  case True
  obtain s1 where s1: "print (Some (10 # str_bytes ''Panic! at line %d in file '')) [Num line] s = Inr s1"
    "print_run (print_calls (tl (panic_text path line reason))) s1 = Inr s'"
    using assms(3) panic_prints [OF assms(1)] by (auto simp: panic_text_def print_calls_def print_step_def res_bind_Inr_iff)
  then show ?thesis using idle_first [OF assms(2) True s1(1)] busy_run [OF s1(2)] True by simp
next
  case False
  then show ?thesis using busy_run [OF assms(3)] by simp
qed

text \<open>An assertion of line 7 of a file with an empty name, with the line idle.\<close>

lemma demo_panic_line:
  "vsprint (Some (10 # str_bytes ''Panic! at line %d in file '')) [Num 7] = Inr (10 # str_bytes ''Panic! at line 7 in file '')"
  by code_simp

lemma demo_reason: "vsprint (Some (10 # str_bytes ''Reason: '')) [] = Inr (10 # str_bytes ''Reason: '')"
  "vsprint (Some (str_bytes ''Assertion failed'')) [] = Inr (str_bytes ''Assertion failed'')"
  "vsprint (Some [10]) [] = Inr [10]" "vsprint (Some []) [] = Inr []"
  by code_simp+

lemma demo_panic_runs:
  "\<exists>s'. print_run (print_calls (panic_text [] 7 (str_bytes ''Assertion failed''))) demo_print = Inr s'"
proof (rule run_fits)
  show "print_inv demo_print" by (simp add: print_inv_def demo_print_def)
  show "\<forall>(data, args) \<in> set (panic_text [] 7 (str_bytes ''Assertion failed'')). \<exists>b. vsprint (Some data) args = Inr b"
    by (simp add: panic_text_def demo_panic_line demo_reason)
  show "unat (curr_len demo_print) + length (concat (map printed_bytes (print_calls (panic_text [] 7 (str_bytes ''Assertion failed''))))) \<le> PRINT_SIZE"
    by (simp add: panic_text_def print_calls_def printed_bytes_def demo_panic_line demo_reason PRINT_SIZE_def demo_print_def) (simp add: str_bytes_def)
qed

lemma panic_reason_lost_witness:
  "\<exists>out d' s'. panic_handler memory_device [] 7 (str_bytes ''Assertion failed'') (\<lambda>_. 0x200) = Inr (out, d') \<and>
     print_run (print_calls out) demo_print = Inr s' \<and> submitted s' = [10 # str_bytes ''Panic! at line 7 in file '']"
proof -
  obtain d' where h: "panic_handler memory_device [] 7 (str_bytes ''Assertion failed'') (\<lambda>_. 0x200) =
      Inr (panic_text [] 7 (str_bytes ''Assertion failed''), d')"
    using panic_resets [of memory_device "\<lambda>_. 0x200" "0x200"] by auto
  obtain s' where r: "print_run (print_calls (panic_text [] 7 (str_bytes ''Assertion failed''))) demo_print = Inr s'"
    using demo_panic_runs by blast
  have "print_inv demo_print" by (simp add: print_inv_def demo_print_def)
  then show ?thesis using panic_reason_lost [OF h _ r] h r
    by (simp add: printed_bytes_def demo_panic_line) (simp add: demo_print_def)
qed

end
