(* ===== verification/Font.thy ===== *)
theory Font
  imports Bytes
begin

text \<open>
  The drawing of characters and texts of \<^verbatim>\<open>gfx/font.c\<close> into a buffer of lines of 800 pixels. The buffer is the list of its pixels; a write outside is a fault, while a column
  beyond the line is a pixel of another line, as in C. The two
  fonts are in \<open>FontData\<close>; \<^verbatim>\<open>font_test\<close> is an endless demonstration and left out.
\<close>

subsection \<open>Definitions\<close>

record glyph =
  gl_off :: u16
  gl_w :: u8
  gl_h :: u8
  gl_x_advance :: u8
  gl_x_off :: int
  gl_y_off :: int

record simple_font =
  sf_bitmap :: "u8 list"
  sf_glyph :: "glyph list"
  sf_first :: u16
  sf_last :: u16
  sf_y_advance :: u8

type_synonym pixel = "u8 \<times> u8 \<times> u8 \<times> u8"

definition white :: pixel where
  "white = (0xFF, 0xFF, 0xFF, 0xFF)"

definition put_pixel :: "int \<Rightarrow> int \<Rightarrow> pixel \<Rightarrow> pixel list \<Rightarrow> pixel list res" where
  "put_pixel row col p fb =
     (let k = row * 800 + col in if 0 \<le> k \<and> k < int (length fb) then Inr (fb[nat k := p]) else Inl OutOfBounds)"

text \<open>
  The inner loop over the \<open>n\<close> columns that are left of the line at \<open>row\<close>, from \<open>col\<close> on: the counter of the bits,
  the byte they are taken from, and the place of the next byte.
\<close>

fun draw_line :: "u8 list \<Rightarrow> int \<Rightarrow> int \<Rightarrow> nat \<Rightarrow> u8 \<times> u8 \<times> u16 \<Rightarrow> pixel list \<Rightarrow> ((u8 \<times> u8 \<times> u16) \<times> pixel list) res" where
  "draw_line bitmap row col 0 st fb = Inr (st, fb)"
| "draw_line bitmap row col (Suc n) (counter, bits, bit_off) fb =
     res_bind (if counter AND 7 = 0 then res_bind (read_at bitmap (unat bit_off)) (\<lambda>b. Inr (b, bit_off + 1)) else Inr (bits, bit_off)) (\<lambda>(b, off).
     res_bind (if b AND 0x80 \<noteq> 0 then put_pixel row col white fb else Inr fb) (\<lambda>fb'.
       draw_line bitmap row (col + 1) n (counter + 1, push_bit 1 b, off) fb'))"

fun draw_lines :: "u8 list \<Rightarrow> int \<Rightarrow> int \<Rightarrow> nat \<Rightarrow> nat \<Rightarrow> u8 \<times> u8 \<times> u16 \<Rightarrow> pixel list \<Rightarrow> pixel list res" where
  "draw_lines bitmap row col w 0 st fb = Inr fb"
| "draw_lines bitmap row col w (Suc n) st fb =
     res_bind (draw_line bitmap row col w st fb) (\<lambda>(st', fb'). draw_lines bitmap (row + 1) col w n st' fb')"

text \<open>The glyph of a character: nothing compares it with the range of the font.\<close>

definition font_glyph :: "simple_font \<Rightarrow> u8 \<Rightarrow> glyph res" where
  "font_glyph font c = (let i = uint c - uint (sf_first font) in if i < 0 then Inl OutOfBounds else read_at (sf_glyph font) (nat i))"

definition draw_char :: "u8 \<Rightarrow> simple_font \<Rightarrow> pixel list \<Rightarrow> u16 \<Rightarrow> u16 \<Rightarrow> pixel list res" where
  "draw_char c font fb x y =
     res_bind (font_glyph font c) (\<lambda>g.
       draw_lines (sf_bitmap font) (uint y + gl_y_off g) (uint x + gl_x_off g) (unat (gl_w g)) (unat (gl_h g)) (0, 0, gl_off g) fb)"

text \<open>A text, the bytes before its terminator.\<close>

fun print_screen :: "u8 list \<Rightarrow> u16 \<Rightarrow> u16 \<Rightarrow> simple_font \<Rightarrow> pixel list \<Rightarrow> pixel list res" where
  "print_screen [] x y font fb = Inr fb"
| "print_screen (c # cs) x y font fb =
     res_bind (draw_char c font fb x y) (\<lambda>fb'.
     res_bind (font_glyph font c) (\<lambda>g. print_screen cs (x + ucast (gl_x_advance g)) y font fb'))"

subsection \<open>Well-formed fonts\<close>

text \<open>Every glyph lies in the bitmap, whose places fit the sixteen bits of the counter.\<close>

definition font_ok :: "simple_font \<Rightarrow> bool" where
  "font_ok font \<longleftrightarrow> length (sf_bitmap font) \<le> 65536 \<and> length (sf_glyph font) = unat (sf_last font - sf_first font) + 1 \<and>
     list_all (\<lambda>g. unat (gl_off g) + (unat (gl_w g) * unat (gl_h g) + 7) div 8 \<le> length (sf_bitmap font)) (sf_glyph font)"

subsection \<open>Painting\<close>

definition paint :: "nat set \<Rightarrow> pixel list \<Rightarrow> pixel list" where
  "paint S fb = map (\<lambda>i. if i \<in> S then white else fb ! i) [0..<length fb]"

lemma paint_length [simp]: "length (paint S fb) = length fb"
  by (simp add: paint_def)

lemma paint_nth [simp]: "i < length fb \<Longrightarrow> paint S fb ! i = (if i \<in> S then white else fb ! i)"
  by (simp add: paint_def)

lemma paint_empty [simp]: "paint {} fb = fb"
  by (simp add: paint_def map_nth)

lemma paint_paint: "paint S (paint T fb) = paint (T \<union> S) fb"
  by (rule nth_equalityI) auto

lemma paint_one: "fb[k := white] = paint {k} fb"
  by (rule nth_equalityI) (auto simp: nth_list_update)

text \<open>Pixel \<open>k\<close> of a glyph whose bits start at byte \<open>off\<close>.\<close>

definition glyph_bit :: "u8 list \<Rightarrow> nat \<Rightarrow> nat \<Rightarrow> bool" where
  "glyph_bit bitmap off k = bit (bitmap ! (off + k div 8)) (7 - k mod 8)"

text \<open>The variables of the loops before pixel \<open>k\<close>.\<close>

definition bits_at :: "u8 list \<Rightarrow> nat \<Rightarrow> nat \<Rightarrow> u8 \<times> u8 \<times> u16 \<Rightarrow> bool" where
  "bits_at bitmap off k st \<longleftrightarrow>
     (case st of (counter, bits, bit_off) \<Rightarrow> counter = of_nat k \<and> bit_off = of_nat (off + (k + 7) div 8) \<and>
        (k mod 8 \<noteq> 0 \<longrightarrow> bits = push_bit (k mod 8) (bitmap ! (off + k div 8))))"

lemma counter_and_7: "(of_nat k :: u8) AND 7 = 0 \<longleftrightarrow> k mod 8 = 0"
proof -
  have "(7 :: u8) = mask 3" by (simp add: mask_eq_exp_minus_1)
  then have "(of_nat k :: u8) AND 7 = take_bit 3 (of_nat k)" by (simp only: take_bit_eq_mask)
  then have "unat ((of_nat k :: u8) AND 7) = take_bit 3 (unat (of_nat k :: u8))" by (simp only: unsigned_take_bit_eq)
  also have "\<dots> = k mod 8" by (simp add: take_bit_eq_mod unsigned_of_nat mod_mod_cancel)
  finally show ?thesis by (metis unat_eq_zero)
qed

lemma and_80: "(b :: u8) AND 0x80 \<noteq> 0 \<longleftrightarrow> bit b 7"
proof -
  have "(0x80 :: u8) = push_bit 7 1" by simp
  then show ?thesis by (simp only: push_bit_of_1 and_exp_eq_0_iff_not_bit not_not)
qed

lemma next_bit:
  assumes st: "bits_at bitmap off k (counter, bits, bit_off)" and o: "off + k div 8 < length bitmap" "length bitmap \<le> 65536"
  shows "\<exists>b o'. (if counter AND 7 = 0 then res_bind (read_at bitmap (unat bit_off)) (\<lambda>b. Inr (b, bit_off + 1)) else Inr (bits, bit_off)) = Inr (b, o') \<and>
    (b AND 0x80 \<noteq> 0 \<longleftrightarrow> glyph_bit bitmap off k) \<and> bits_at bitmap off (Suc k) (counter + 1, push_bit 1 b, o')"
proof -
  let ?b = "push_bit (k mod 8) (bitmap ! (off + k div 8))"
  have c: "counter = of_nat k" "bit_off = of_nat (off + (k + 7) div 8)" "k mod 8 \<noteq> 0 \<longrightarrow> bits = ?b"
    using st by (auto simp: bits_at_def)
  have bit: "?b AND 0x80 \<noteq> 0 \<longleftrightarrow> glyph_bit bitmap off k"
    using mod_less_divisor [of 8 k] by (simp add: and_80 glyph_bit_def bit_push_bit_iff less_Suc_eq_le [symmetric] del: mod_less_divisor)
  have m: "k mod 8 < 8" by simp
  show ?thesis
  proof (cases "k mod 8 = 0")
    case True
    then obtain q where q: "k = 8 * q" by (auto simp: mod_eq_0_iff_dvd)
    then have d: "(k + 7) div 8 = q" "k div 8 = q" "(Suc k + 7) div 8 = Suc q" "Suc k mod 8 = 1" "Suc k div 8 = q" by auto
    have "off + q < 65536" using o d by simp
    then have u: "unat bit_off = off + q" unfolding c(2) d(1) by (simp only: unsigned_of_nat) (simp add: take_bit_nat_eq_self)
    show ?thesis
      using True o d bit u c(1,2) by (intro exI [of _ "bitmap ! (off + q)"] exI [of _ "bit_off + 1"]) (simp add: counter_and_7 bits_at_def)
  next
    case False
    then obtain q r where q: "k = 8 * q + r" "0 < r" "r < 8" using m
      by (metis div_mult_mod_eq mult.commute neq0_conv)
    then have d: "(k + 7) div 8 = Suc q" "k div 8 = q" "k mod 8 = r" "(Suc k + 7) div 8 = Suc q" by auto
    have s: "Suc k mod 8 \<noteq> 0 \<Longrightarrow> Suc k mod 8 = Suc r \<and> Suc k div 8 = q" using q by (cases "r = 7") auto
    show ?thesis
      using False bit c d s by (intro exI [of _ bits] exI [of _ bit_off]) (auto simp: counter_and_7 bits_at_def)
  qed
qed

subsection \<open>The loops\<close>

lemma put_pixel_paint:
  "0 \<le> row * 800 + col \<Longrightarrow> row * 800 + col < int (length fb) \<Longrightarrow> put_pixel row col white fb = Inr (paint {nat (row * 800 + col)} fb)"
  by (simp add: put_pixel_def Let_def paint_one)

lemma draw_line_paint:
  assumes "length bitmap \<le> 65536"
  shows "bits_at bitmap off k st \<Longrightarrow> off + (k + n + 7) div 8 \<le> length bitmap \<Longrightarrow> row * 800 + col = int p \<Longrightarrow> p + n \<le> length fb \<Longrightarrow>
    \<exists>st'. draw_line bitmap row col n st fb = Inr (st', paint {p + j |j. j < n \<and> glyph_bit bitmap off (k + j)} fb) \<and>
      bits_at bitmap off (k + n) st'"
proof (induction n arbitrary: k col st fb p)
  case 0
  then show ?case by simp
next
  case (Suc n)
  obtain counter bits bit_off where st: "st = (counter, bits, bit_off)" by (cases st)
  have "k div 8 < (k + Suc n + 7) div 8" by simp
  then have o: "off + k div 8 < length bitmap" using Suc.prems(2) by linarith
  obtain b o' where b: "(if counter AND 7 = 0 then res_bind (read_at bitmap (unat bit_off)) (\<lambda>b. Inr (b, bit_off + 1)) else Inr (bits, bit_off)) = Inr (b, o')"
    "b AND 0x80 \<noteq> 0 \<longleftrightarrow> glyph_bit bitmap off k" "bits_at bitmap off (Suc k) (counter + 1, push_bit 1 b, o')"
    using next_bit [OF Suc.prems(1) [unfolded st] o assms] by blast
  define fb' where "fb' = paint (if glyph_bit bitmap off k then {p} else {}) fb"
  have px: "(if b AND 0x80 \<noteq> 0 then put_pixel row col white fb else Inr fb) = Inr fb'"
    unfolding b(2) fb'_def using put_pixel_paint [of row col fb] Suc.prems(3,4) by simp
  have e: "draw_line bitmap row col (Suc n) st fb = draw_line bitmap row (col + 1) n (counter + 1, push_bit 1 b, o') fb'"
    unfolding st draw_line.simps b(1) by (simp add: px del: push_bit_Suc)
  obtain st' where IH: "draw_line bitmap row (col + 1) n (counter + 1, push_bit 1 b, o') fb' =
      Inr (st', paint {Suc p + j |j. j < n \<and> glyph_bit bitmap off (Suc k + j)} fb')" "bits_at bitmap off (Suc k + n) st'"
    using Suc.IH [OF b(3), of "col + 1" "Suc p" fb'] Suc.prems(2-4) by (auto simp: fb'_def)
  have "(if glyph_bit bitmap off k then {p} else {}) \<union> {Suc p + j |j. j < n \<and> glyph_bit bitmap off (Suc k + j)} =
      {p + j |j. j < Suc n \<and> glyph_bit bitmap off (k + j)}"
    by (auto simp: less_Suc_eq_0_disj)
  then show ?case using IH unfolding e by (auto simp: fb'_def paint_paint)
qed

lemma draw_lines_paint:
  assumes "length bitmap \<le> 65536"
  shows "bits_at bitmap off k st \<Longrightarrow> off + (k + h * w + 7) div 8 \<le> length bitmap \<Longrightarrow> row * 800 + col = int p \<Longrightarrow>
    0 < h \<longrightarrow> p + (h - 1) * 800 + w \<le> length fb \<Longrightarrow>
    draw_lines bitmap row col w h st fb = Inr (paint {p + i * 800 + j |i j. i < h \<and> j < w \<and> glyph_bit bitmap off (k + i * w + j)} fb)"
proof (induction h arbitrary: k row st fb p)
  case 0
  then show ?case by simp
next
  case (Suc h)
  have "(k + w + 7) div 8 \<le> (k + Suc h * w + 7) div 8" by (rule div_le_mono) simp
  then have o: "off + (k + w + 7) div 8 \<le> length bitmap" using Suc.prems(2) by linarith
  have pw: "p + w \<le> length fb" using Suc.prems(4) by simp
  obtain st' where l: "draw_line bitmap row col w st fb = Inr (st', paint {p + j |j. j < w \<and> glyph_bit bitmap off (k + j)} fb)"
    "bits_at bitmap off (k + w) st'"
    using draw_line_paint [OF assms Suc.prems(1) o Suc.prems(3) pw] by blast
  let ?fb = "paint {p + j |j. j < w \<and> glyph_bit bitmap off (k + j)} fb"
  have IH: "draw_lines bitmap (row + 1) col w h st' ?fb =
      Inr (paint {p + 800 + i * 800 + j |i j. i < h \<and> j < w \<and> glyph_bit bitmap off (k + w + i * w + j)} ?fb)"
  proof (rule Suc.IH [OF l(2)])
    show "off + (k + w + h * w + 7) div 8 \<le> length bitmap" using Suc.prems(2) by (simp add: add.assoc)
    show "(row + 1) * 800 + col = int (p + 800)" using Suc.prems(3) by simp
    show "0 < h \<longrightarrow> p + 800 + (h - 1) * 800 + w \<le> length ?fb" using Suc.prems(4) by (cases h) auto
  qed
  have "{p + j |j. j < w \<and> glyph_bit bitmap off (k + j)} \<union>
      {p + 800 + i * 800 + j |i j. i < h \<and> j < w \<and> glyph_bit bitmap off (k + w + i * w + j)} =
      {p + i * 800 + j |i j. i < Suc h \<and> j < w \<and> glyph_bit bitmap off (k + i * w + j)}" (is "?A \<union> ?B = ?C")
  proof
    show "?A \<union> ?B \<subseteq> ?C"
    proof
      fix x assume "x \<in> ?A \<union> ?B"
      then show "x \<in> ?C"
      proof
        assume "x \<in> ?A"
        then obtain j where "x = p + j" "j < w" "glyph_bit bitmap off (k + j)" by blast
        then show ?thesis by (intro CollectI exI [of _ 0] exI [of _ j]) simp
      next
        assume "x \<in> ?B"
        then obtain i j where "x = p + 800 + i * 800 + j" "i < h" "j < w" "glyph_bit bitmap off (k + w + i * w + j)" by blast
        then show ?thesis by (intro CollectI exI [of _ "Suc i"] exI [of _ j]) (simp add: add.assoc)
      qed
    qed
    show "?C \<subseteq> ?A \<union> ?B"
    proof
      fix x assume "x \<in> ?C"
      then obtain i j where x: "x = p + i * 800 + j" "i < Suc h" "j < w" "glyph_bit bitmap off (k + i * w + j)" by blast
      show "x \<in> ?A \<union> ?B"
      proof (cases i)
        case 0
        then show ?thesis using x by auto
      next
        case (Suc i')
        then have "x = p + 800 + i' * 800 + j \<and> i' < h \<and> j < w \<and> glyph_bit bitmap off (k + w + i' * w + j)"
          using x by (simp add: add.assoc)
        then show ?thesis by blast
      qed
    qed
  qed
  then show ?case using IH by (simp add: l(1) paint_paint)
qed

subsection \<open>Characters\<close>

lemma font_ok_glyph:
  assumes "font_ok font" and "sf_first font \<le> ucast c" and "ucast c \<le> sf_last font"
  shows "font_glyph font c = Inr (sf_glyph font ! (unat c - unat (sf_first font))) \<and>
    sf_glyph font ! (unat c - unat (sf_first font)) \<in> set (sf_glyph font)"
proof -
  have c: "unat (sf_first font) \<le> unat c" "unat c \<le> unat (sf_last font)"
    using assms(2,3) by (simp_all add: word_le_nat_alt)
  then have "unat (sf_last font - sf_first font) = unat (sf_last font) - unat (sf_first font)"
    by (subst unat_sub) (simp_all add: word_le_nat_alt)
  then have l: "unat c - unat (sf_first font) < length (sf_glyph font)"
    using assms(1) c by (simp add: font_ok_def)
  have i: "uint c - uint (sf_first font) = int (unat c - unat (sf_first font))"
    by (metis c(1) of_nat_diff uint_nat)
  show ?thesis using l unfolding font_glyph_def Let_def i by simp
qed

lemma draw_char_paint:
  assumes "font_ok font" "sf_first font \<le> ucast c" "ucast c \<le> sf_last font"
    and g: "g = sf_glyph font ! (unat c - unat (sf_first font))"
    and at: "int left = uint x + gl_x_off g" "int top' = uint y + gl_y_off g"
    and box: "left + unat (gl_w g) \<le> 800" "(top' + unat (gl_h g)) * 800 \<le> length fb"
  shows "draw_char c font fb x y = Inr (paint {(top' * 800 + left) + i * 800 + j |i j.
    i < unat (gl_h g) \<and> j < unat (gl_w g) \<and> glyph_bit (sf_bitmap font) (unat (gl_off g)) (i * unat (gl_w g) + j)} fb)"
proof -
  let ?h = "unat (gl_h g)" and ?w = "unat (gl_w g)"
  note f = font_ok_glyph [OF assms(1-3)]
  have len: "length (sf_bitmap font) \<le> 65536" and fit: "unat (gl_off g) + (?w * ?h + 7) div 8 \<le> length (sf_bitmap font)"
    using assms(1) f unfolding g by (auto simp: font_ok_def list_all_iff)
  have st: "bits_at (sf_bitmap font) (unat (gl_off g)) 0 (0, 0, gl_off g)" by (simp add: bits_at_def)
  have A: "0 < ?h \<longrightarrow> top' * 800 + left + (?h - 1) * 800 + ?w \<le> length fb"
    using box by (cases ?h) (auto simp: algebra_simps)
  have B: "(uint y + gl_y_off g) * 800 + (uint x + gl_x_off g) = int (top' * 800 + left)" using at by simp
  have C: "unat (gl_off g) + (0 + ?h * ?w + 7) div 8 \<le> length (sf_bitmap font)" using fit by (simp add: mult.commute)
  have d: "draw_lines (sf_bitmap font) (uint y + gl_y_off g) (uint x + gl_x_off g) ?w ?h (0, 0, gl_off g) fb =
      Inr (paint {(top' * 800 + left) + i * 800 + j |i j. i < ?h \<and> j < ?w \<and>
        glyph_bit (sf_bitmap font) (unat (gl_off g)) (0 + i * ?w + j)} fb)"
    by (rule draw_lines_paint [OF len st C B A])
  have "font_glyph font c = Inr g" using f unfolding g by (rule conjunct1)
  then show ?thesis using d unfolding draw_char_def by (simp only: res_bind.simps add_0)
qed

lemma line_inj:
  assumes "b < 800" "c < 800" "a * 800 + b = r * 800 + (c :: nat)"
  shows "a = r \<and> b = c"
proof -
  have "(n * 800 + m) div 800 = n" "(n * 800 + m) mod 800 = m" if "m < 800" for n m :: nat using that by simp_all
  then show ?thesis using assms by metis
qed

lemma box_pixel:
  fixes row col :: nat
  assumes "col < 800" "left + w \<le> 800"
  shows "(\<exists>i j. row * 800 + col = top' * 800 + left + i * 800 + j \<and> i < h \<and> j < w \<and> P i j) \<longleftrightarrow>
    top' \<le> row \<and> row < top' + h \<and> left \<le> col \<and> col < left + w \<and> P (row - top') (col - left)"
proof
  assume "\<exists>i j. row * 800 + col = top' * 800 + left + i * 800 + j \<and> i < h \<and> j < w \<and> P i j"
  then obtain i j where ij: "row * 800 + col = top' * 800 + left + i * 800 + j" "i < h" "j < w" "P i j" by blast
  have lj: "left + j < 800" using ij(3) assms(2) by simp
  have e: "row * 800 + col = (top' + i) * 800 + (left + j)" using ij(1) by (simp add: algebra_simps)
  have "row = top' + i" "col = left + j"
    using line_inj [OF assms(1) lj e] by simp_all
  then show "top' \<le> row \<and> row < top' + h \<and> left \<le> col \<and> col < left + w \<and> P (row - top') (col - left)" using ij(2-4) by simp
next
  assume a: "top' \<le> row \<and> row < top' + h \<and> left \<le> col \<and> col < left + w \<and> P (row - top') (col - left)"
  then show "\<exists>i j. row * 800 + col = top' * 800 + left + i * 800 + j \<and> i < h \<and> j < w \<and> P i j"
    by (intro exI [of _ "row - top'"] exI [of _ "col - left"]) (auto simp: algebra_simps)
qed

end
