(* ===== verification/FontData.thy ===== *)
theory FontData
  imports Font
begin

text \<open>
  The bitmaps and glyph tables of the two fonts of \<^verbatim>\<open>gfx/font.c\<close>, and what is drawn with them.
\<close>

subsection \<open>The fonts\<close>

text \<open>A line of a glyph table.\<close>

definition gl :: "u16 \<Rightarrow> u8 \<Rightarrow> u8 \<Rightarrow> u8 \<Rightarrow> int \<Rightarrow> int \<Rightarrow> glyph" where
  "gl off w h adv xo yo = \<lparr>gl_off = off, gl_w = w, gl_h = h, gl_x_advance = adv, gl_x_off = xo, gl_y_off = yo\<rparr>"

definition mono9_bitmap :: "u8 list" where
  "mono9_bitmap = [
    0xAA, 0xA8, 0x0C, 0xED, 0x24, 0x92, 0x48, 0x24, 0x48, 0x91, 0x2F, 0xE4, 0x89, 0x7F, 0x28, 0x51, 0x22, 0x40, 0x08, 0x3E,
    0x62, 0x40, 0x30, 0x0E, 0x01, 0x81, 0xC3, 0xBE, 0x08, 0x08, 0x71, 0x12, 0x23, 0x80, 0x23, 0xB8, 0x0E, 0x22, 0x44, 0x70,
    0x38, 0x81, 0x02, 0x06, 0x1A, 0x65, 0x46, 0xC8, 0xEC, 0xE9, 0x24, 0x5A, 0xAA, 0xA9, 0x40, 0xA9, 0x55, 0x5A, 0x80, 0x10,
    0x22, 0x4B, 0xE3, 0x05, 0x11, 0x00, 0x10, 0x20, 0x47, 0xF1, 0x02, 0x04, 0x00, 0x6B, 0x48, 0xFF, 0x00, 0xF0, 0x02, 0x08,
    0x10, 0x60, 0x81, 0x04, 0x08, 0x20, 0x41, 0x02, 0x08, 0x00, 0x38, 0x8A, 0x0C, 0x18, 0x30, 0x60, 0xC1, 0x82, 0x88, 0xE0,
    0x27, 0x28, 0x42, 0x10, 0x84, 0x21, 0x3E, 0x38, 0x8A, 0x08, 0x10, 0x20, 0x82, 0x08, 0x61, 0x03, 0xF8, 0x7C, 0x06, 0x02,
    0x02, 0x1C, 0x06, 0x01, 0x01, 0x01, 0x42, 0x3C, 0x18, 0xA2, 0x92, 0x8A, 0x28, 0xBF, 0x08, 0x21, 0xC0, 0x7C, 0x81, 0x03,
    0xE4, 0x40, 0x40, 0x81, 0x03, 0x88, 0xE0, 0x1E, 0x41, 0x04, 0x0B, 0x98, 0xB0, 0xC1, 0xC2, 0x88, 0xE0, 0xFE, 0x04, 0x08,
    0x20, 0x40, 0x82, 0x04, 0x08, 0x20, 0x40, 0x38, 0x8A, 0x0C, 0x14, 0x47, 0x11, 0x41, 0x83, 0x8C, 0xE0, 0x38, 0x8A, 0x1C,
    0x18, 0x68, 0xCE, 0x81, 0x04, 0x13, 0xC0, 0xF0, 0x0F, 0x6C, 0x00, 0xD2, 0xD2, 0x00, 0x03, 0x04, 0x18, 0x60, 0x60, 0x18,
    0x04, 0x03, 0xFF, 0x80, 0x00, 0x1F, 0xF0, 0x40, 0x18, 0x03, 0x00, 0x60, 0x20, 0x60, 0xC0, 0x80, 0x3D, 0x84, 0x08, 0x30,
    0xC2, 0x00, 0x00, 0x00, 0x30, 0x3C, 0x46, 0x82, 0x8E, 0xB2, 0xA2, 0xA2, 0x9F, 0x80, 0x80, 0x40, 0x3C, 0x3C, 0x01, 0x40,
    0x28, 0x09, 0x01, 0x10, 0x42, 0x0F, 0xC1, 0x04, 0x40, 0x9E, 0x3C, 0xFE, 0x21, 0x90, 0x48, 0x67, 0xE2, 0x09, 0x02, 0x81,
    0x41, 0xFF, 0x80, 0x3E, 0xB0, 0xF0, 0x30, 0x08, 0x04, 0x02, 0x00, 0x80, 0x60, 0x8F, 0x80, 0xFE, 0x21, 0x90, 0x68, 0x14,
    0x0A, 0x05, 0x02, 0x83, 0x43, 0x7F, 0x00, 0xFF, 0x20, 0x90, 0x08, 0x87, 0xC2, 0x21, 0x00, 0x81, 0x40, 0xFF, 0xC0, 0xFF,
    0xA0, 0x50, 0x08, 0x87, 0xC2, 0x21, 0x00, 0x80, 0x40, 0x78, 0x00, 0x1E, 0x98, 0x6C, 0x0A, 0x00, 0x80, 0x20, 0xF8, 0x0B,
    0x02, 0x60, 0x87, 0xC0, 0xE3, 0xA0, 0x90, 0x48, 0x27, 0xF2, 0x09, 0x04, 0x82, 0x41, 0x71, 0xC0, 0xF9, 0x08, 0x42, 0x10,
    0x84, 0x27, 0xC0, 0x1F, 0x02, 0x02, 0x02, 0x02, 0x02, 0x82, 0x82, 0xC6, 0x78, 0xE3, 0xA1, 0x11, 0x09, 0x05, 0x83, 0x21,
    0x08, 0x84, 0x41, 0x70, 0xC0, 0xE0, 0x40, 0x40, 0x40, 0x40, 0x40, 0x41, 0x41, 0x41, 0xFF, 0xE0, 0xEC, 0x19, 0x45, 0x28,
    0xA4, 0xA4, 0x94, 0x91, 0x12, 0x02, 0x40, 0x5C, 0x1C, 0xC3, 0xB0, 0x94, 0x4A, 0x24, 0x92, 0x49, 0x14, 0x8A, 0x43, 0x70,
    0x80, 0x1E, 0x31, 0x90, 0x50, 0x18, 0x0C, 0x06, 0x02, 0x82, 0x63, 0x0F, 0x00, 0xFE, 0x43, 0x41, 0x41, 0x42, 0x7C, 0x40,
    0x40, 0x40, 0xF0, 0x1C, 0x31, 0x90, 0x50, 0x18, 0x0C, 0x06, 0x02, 0x82, 0x63, 0x1F, 0x04, 0x07, 0x92, 0x30, 0xFE, 0x21,
    0x90, 0x48, 0x24, 0x23, 0xE1, 0x10, 0x84, 0x41, 0x70, 0xC0, 0x3A, 0xCD, 0x0A, 0x03, 0x01, 0x80, 0xC1, 0xC7, 0x78, 0xFF,
    0xC4, 0x62, 0x21, 0x00, 0x80, 0x40, 0x20, 0x10, 0x08, 0x1F, 0x00, 0xE3, 0xA0, 0x90, 0x48, 0x24, 0x12, 0x09, 0x04, 0x82,
    0x22, 0x0E, 0x00, 0xF1, 0xE8, 0x10, 0x82, 0x10, 0x42, 0x10, 0x22, 0x04, 0x80, 0x50, 0x0C, 0x00, 0x80, 0xF1, 0xE8, 0x09,
    0x11, 0x25, 0x44, 0xA8, 0x55, 0x0C, 0xA1, 0x8C, 0x31, 0x84, 0x30, 0xE3, 0xA0, 0x88, 0x82, 0x80, 0x80, 0xC0, 0x90, 0x44,
    0x41, 0x71, 0xC0, 0xE3, 0xA0, 0x88, 0x82, 0x81, 0x40, 0x40, 0x20, 0x10, 0x08, 0x1F, 0x00, 0xFD, 0x0A, 0x20, 0x81, 0x04,
    0x10, 0x21, 0x83, 0xFC, 0xEA, 0xAA, 0xAA, 0xC0, 0x80, 0x81, 0x03, 0x02, 0x04, 0x04, 0x08, 0x08, 0x10, 0x10, 0x20, 0x20,
    0xD5, 0x55, 0x55, 0xC0, 0x10, 0x51, 0x22, 0x28, 0x20, 0xFF, 0xE0, 0x88, 0x80, 0x7E, 0x00, 0x80, 0x47, 0xEC, 0x14, 0x0A,
    0x0C, 0xFB, 0xC0, 0x20, 0x10, 0x0B, 0xC6, 0x12, 0x05, 0x02, 0x81, 0x40, 0xB0, 0xB7, 0x80, 0x3A, 0x8E, 0x0C, 0x08, 0x10,
    0x10, 0x9E, 0x03, 0x00, 0x80, 0x47, 0xA4, 0x34, 0x0A, 0x05, 0x02, 0x81, 0x21, 0x8F, 0x60, 0x3C, 0x43, 0x81, 0xFF, 0x80,
    0x80, 0x61, 0x3E, 0x3D, 0x04, 0x3E, 0x41, 0x04, 0x10, 0x41, 0x0F, 0x80, 0x3D, 0xA1, 0xA0, 0x50, 0x28, 0x14, 0x09, 0x0C,
    0x7A, 0x01, 0x01, 0x87, 0x80, 0xC0, 0x20, 0x10, 0x0B, 0xC6, 0x32, 0x09, 0x04, 0x82, 0x41, 0x20, 0xB8, 0xE0, 0x10, 0x01,
    0xC0, 0x81, 0x02, 0x04, 0x08, 0x11, 0xFC, 0x10, 0x3E, 0x10, 0x84, 0x21, 0x08, 0x42, 0x3F, 0x00, 0xC0, 0x40, 0x40, 0x4F,
    0x44, 0x58, 0x70, 0x48, 0x44, 0x42, 0xC7, 0x70, 0x20, 0x40, 0x81, 0x02, 0x04, 0x08, 0x10, 0x23, 0xF8, 0xB7, 0x64, 0x62,
    0x31, 0x18, 0x8C, 0x46, 0x23, 0x91, 0x5E, 0x31, 0x90, 0x48, 0x24, 0x12, 0x09, 0x05, 0xC7, 0x3E, 0x31, 0xA0, 0x30, 0x18,
    0x0C, 0x05, 0x8C, 0x7C, 0xDE, 0x30, 0x90, 0x28, 0x14, 0x0A, 0x05, 0x84, 0xBC, 0x40, 0x20, 0x38, 0x00, 0x3D, 0xA1, 0xA0,
    0x50, 0x28, 0x14, 0x09, 0x0C, 0x7A, 0x01, 0x00, 0x80, 0xE0, 0xCE, 0xA1, 0x82, 0x04, 0x08, 0x10, 0x7C, 0x3A, 0x8D, 0x0B,
    0x80, 0xF0, 0x70, 0xDE, 0x40, 0x40, 0xFC, 0x40, 0x40, 0x40, 0x40, 0x40, 0x41, 0x3E, 0xC3, 0x41, 0x41, 0x41, 0x41, 0x41,
    0x43, 0x3D, 0xE3, 0xA0, 0x90, 0x84, 0x42, 0x20, 0xA0, 0x50, 0x10, 0xE3, 0xC0, 0x92, 0x4B, 0x25, 0x92, 0xA9, 0x98, 0x44,
    0xE3, 0x31, 0x05, 0x01, 0x01, 0x41, 0x11, 0x05, 0xC7, 0xE3, 0xA0, 0x90, 0x84, 0x42, 0x40, 0xA0, 0x60, 0x10, 0x10, 0x08,
    0x3E, 0x00, 0xFD, 0x08, 0x20, 0x82, 0x08, 0x10, 0xBF, 0x29, 0x24, 0xA2, 0x49, 0x26, 0xFF, 0xF8, 0x89, 0x24, 0x8A, 0x49,
    0x2C, 0x61, 0x24, 0x30]"

definition mono12_bitmap :: "u8 list" where
  "mono12_bitmap = [
    0x49, 0x24, 0x92, 0x48, 0x01, 0xF8, 0xE7, 0xE7, 0x67, 0x42, 0x42, 0x42, 0x42, 0x09, 0x02, 0x41, 0x10, 0x44, 0x11, 0x1F,
    0xF1, 0x10, 0x4C, 0x12, 0x3F, 0xE1, 0x20, 0x48, 0x12, 0x04, 0x81, 0x20, 0x48, 0x04, 0x07, 0xA2, 0x19, 0x02, 0x40, 0x10,
    0x03, 0x00, 0x3C, 0x00, 0x80, 0x10, 0x06, 0x01, 0xE0, 0xA7, 0xC0, 0x40, 0x10, 0x04, 0x00, 0x3C, 0x19, 0x84, 0x21, 0x08,
    0x66, 0x0F, 0x00, 0x0C, 0x1C, 0x78, 0x01, 0xE0, 0xCC, 0x21, 0x08, 0x43, 0x30, 0x78, 0x3E, 0x30, 0x10, 0x08, 0x02, 0x03,
    0x03, 0x47, 0x14, 0x8A, 0x43, 0x11, 0x8F, 0x60, 0xFD, 0xA4, 0x90, 0x05, 0x25, 0x24, 0x92, 0x48, 0x92, 0x24, 0x11, 0x24,
    0x89, 0x24, 0x92, 0x92, 0x90, 0x00, 0x04, 0x02, 0x11, 0x07, 0xF0, 0xC0, 0x50, 0x48, 0x42, 0x00, 0x08, 0x04, 0x02, 0x01,
    0x00, 0x87, 0xFC, 0x20, 0x10, 0x08, 0x04, 0x02, 0x00, 0x3B, 0x9C, 0xCE, 0x62, 0x00, 0xFF, 0xE0, 0xFF, 0x80, 0x00, 0x80,
    0xC0, 0x40, 0x20, 0x20, 0x10, 0x10, 0x08, 0x08, 0x04, 0x04, 0x02, 0x02, 0x01, 0x01, 0x00, 0x80, 0x80, 0x40, 0x00, 0x1C,
    0x31, 0x90, 0x58, 0x38, 0x0C, 0x06, 0x03, 0x01, 0x80, 0xC0, 0x60, 0x30, 0x34, 0x13, 0x18, 0x70, 0x30, 0xE1, 0x44, 0x81,
    0x02, 0x04, 0x08, 0x10, 0x20, 0x40, 0x81, 0x1F, 0xC0, 0x1E, 0x10, 0x90, 0x68, 0x10, 0x08, 0x0C, 0x04, 0x04, 0x04, 0x06,
    0x06, 0x06, 0x06, 0x0E, 0x07, 0xFE, 0x3E, 0x10, 0x40, 0x08, 0x02, 0x00, 0x80, 0x40, 0xE0, 0x04, 0x00, 0x80, 0x10, 0x04,
    0x01, 0x00, 0xD8, 0x63, 0xE0, 0x06, 0x0A, 0x0A, 0x12, 0x22, 0x22, 0x42, 0x42, 0x82, 0x82, 0xFF, 0x02, 0x02, 0x02, 0x0F,
    0x7F, 0x20, 0x10, 0x08, 0x04, 0x02, 0xF1, 0x8C, 0x03, 0x00, 0x80, 0x40, 0x20, 0x18, 0x16, 0x18, 0xF0, 0x0F, 0x8C, 0x08,
    0x08, 0x04, 0x04, 0x02, 0x79, 0x46, 0xC1, 0xE0, 0x60, 0x28, 0x14, 0x19, 0x08, 0x78, 0xFF, 0x81, 0x81, 0x02, 0x02, 0x02,
    0x02, 0x04, 0x04, 0x04, 0x04, 0x08, 0x08, 0x08, 0x08, 0x3E, 0x31, 0xB0, 0x70, 0x18, 0x0C, 0x05, 0x8C, 0x38, 0x63, 0x40,
    0x60, 0x30, 0x18, 0x1B, 0x18, 0xF8, 0x3C, 0x31, 0x30, 0x50, 0x28, 0x0C, 0x0F, 0x06, 0x85, 0x3C, 0x80, 0x40, 0x40, 0x20,
    0x20, 0x63, 0xE0, 0xFF, 0x80, 0x07, 0xFC, 0x39, 0xCE, 0x00, 0x00, 0x06, 0x33, 0x98, 0xC4, 0x00, 0x00, 0xC0, 0x60, 0x18,
    0x0C, 0x06, 0x01, 0x80, 0x0C, 0x00, 0x60, 0x03, 0x00, 0x30, 0x01, 0x00, 0xFF, 0xF0, 0x00, 0x00, 0x0F, 0xFF, 0xC0, 0x06,
    0x00, 0x30, 0x01, 0x80, 0x18, 0x01, 0x80, 0xC0, 0x30, 0x18, 0x0C, 0x02, 0x00, 0x00, 0x3E, 0x60, 0xA0, 0x20, 0x10, 0x08,
    0x08, 0x18, 0x10, 0x08, 0x00, 0x00, 0x00, 0x01, 0xC0, 0xE0, 0x1C, 0x31, 0x10, 0x50, 0x28, 0x14, 0x3A, 0x25, 0x22, 0x91,
    0x4C, 0xA3, 0xF0, 0x08, 0x02, 0x01, 0x80, 0x7C, 0x3F, 0x00, 0x0C, 0x00, 0x48, 0x01, 0x20, 0x04, 0x40, 0x21, 0x00, 0x84,
    0x04, 0x08, 0x1F, 0xE0, 0x40, 0x82, 0x01, 0x08, 0x04, 0x20, 0x13, 0xE1, 0xF0, 0xFF, 0x08, 0x11, 0x01, 0x20, 0x24, 0x04,
    0x81, 0x1F, 0xC2, 0x06, 0x40, 0x68, 0x05, 0x00, 0xA0, 0x14, 0x05, 0xFF, 0x00, 0x1E, 0x48, 0x74, 0x05, 0x01, 0x80, 0x20,
    0x08, 0x02, 0x00, 0x80, 0x20, 0x04, 0x01, 0x01, 0x30, 0x87, 0xC0, 0xFE, 0x10, 0x44, 0x09, 0x02, 0x40, 0x50, 0x14, 0x05,
    0x01, 0x40, 0x50, 0x14, 0x0D, 0x02, 0x41, 0x3F, 0x80, 0xFF, 0xC8, 0x09, 0x01, 0x20, 0x04, 0x00, 0x88, 0x1F, 0x02, 0x20,
    0x40, 0x08, 0x01, 0x00, 0xA0, 0x14, 0x03, 0xFF, 0xC0, 0xFF, 0xE8, 0x05, 0x00, 0xA0, 0x04, 0x00, 0x88, 0x1F, 0x02, 0x20,
    0x40, 0x08, 0x01, 0x00, 0x20, 0x04, 0x01, 0xF0, 0x00, 0x1F, 0x46, 0x19, 0x01, 0x60, 0x28, 0x01, 0x00, 0x20, 0x04, 0x00,
    0x83, 0xF0, 0x0B, 0x01, 0x20, 0x23, 0x0C, 0x3E, 0x00, 0xE1, 0xD0, 0x24, 0x09, 0x02, 0x40, 0x90, 0x27, 0xF9, 0x02, 0x40,
    0x90, 0x24, 0x09, 0x02, 0x40, 0xB8, 0x70, 0xFE, 0x20, 0x40, 0x81, 0x02, 0x04, 0x08, 0x10, 0x20, 0x40, 0x81, 0x1F, 0xC0,
    0x0F, 0xE0, 0x10, 0x02, 0x00, 0x40, 0x08, 0x01, 0x00, 0x20, 0x04, 0x80, 0x90, 0x12, 0x02, 0x40, 0xC6, 0x30, 0x7C, 0x00,
    0xF1, 0xE4, 0x0C, 0x41, 0x04, 0x20, 0x44, 0x04, 0x80, 0x5C, 0x06, 0x60, 0x43, 0x04, 0x10, 0x40, 0x84, 0x08, 0x40, 0xCF,
    0x07, 0xF8, 0x04, 0x00, 0x80, 0x10, 0x02, 0x00, 0x40, 0x08, 0x01, 0x00, 0x20, 0x04, 0x04, 0x80, 0x90, 0x12, 0x03, 0xFF,
    0xC0, 0xE0, 0x3B, 0x01, 0x94, 0x14, 0xA0, 0xA4, 0x89, 0x24, 0x49, 0x14, 0x48, 0xA2, 0x45, 0x12, 0x10, 0x90, 0x04, 0x80,
    0x24, 0x01, 0x78, 0x3C, 0xE0, 0xF6, 0x02, 0x50, 0x25, 0x02, 0x48, 0x24, 0xC2, 0x44, 0x24, 0x22, 0x43, 0x24, 0x12, 0x40,
    0xA4, 0x0A, 0x40, 0x6F, 0x06, 0x0F, 0x03, 0x0C, 0x60, 0x64, 0x02, 0x80, 0x18, 0x01, 0x80, 0x18, 0x01, 0x80, 0x18, 0x01,
    0x40, 0x26, 0x06, 0x30, 0xC0, 0xF0, 0xFF, 0x10, 0x64, 0x05, 0x01, 0x40, 0x50, 0x34, 0x19, 0xFC, 0x40, 0x10, 0x04, 0x01,
    0x00, 0x40, 0x3E, 0x00, 0x0F, 0x03, 0x0C, 0x60, 0x64, 0x02, 0x80, 0x18, 0x01, 0x80, 0x18, 0x01, 0x80, 0x18, 0x01, 0x40,
    0x26, 0x06, 0x30, 0xC1, 0xF0, 0x0C, 0x01, 0xF1, 0x30, 0xE0, 0xFF, 0x04, 0x18, 0x40, 0xC4, 0x04, 0x40, 0x44, 0x0C, 0x41,
    0x87, 0xE0, 0x43, 0x04, 0x10, 0x40, 0x84, 0x04, 0x40, 0x4F, 0x03, 0x1F, 0x48, 0x34, 0x05, 0x01, 0x40, 0x08, 0x01, 0xC0,
    0x0E, 0x00, 0x40, 0x18, 0x06, 0x01, 0xE1, 0xA7, 0xC0, 0xFF, 0xF0, 0x86, 0x10, 0x82, 0x00, 0x40, 0x08, 0x01, 0x00, 0x20,
    0x04, 0x00, 0x80, 0x10, 0x02, 0x00, 0x40, 0x7F, 0x00, 0xF0, 0xF4, 0x02, 0x40, 0x24, 0x02, 0x40, 0x24, 0x02, 0x40, 0x24,
    0x02, 0x40, 0x24, 0x02, 0x40, 0x22, 0x04, 0x30, 0xC0, 0xF0, 0xF8, 0x7C, 0x80, 0x22, 0x01, 0x04, 0x04, 0x10, 0x20, 0x40,
    0x80, 0x82, 0x02, 0x10, 0x08, 0x40, 0x11, 0x00, 0x48, 0x01, 0xA0, 0x03, 0x00, 0x0C, 0x00, 0xF8, 0x7C, 0x80, 0x22, 0x00,
    0x88, 0xC2, 0x23, 0x10, 0x8E, 0x42, 0x29, 0x09, 0x24, 0x24, 0x90, 0x91, 0x41, 0x85, 0x06, 0x14, 0x18, 0x70, 0x60, 0x80,
    0xF0, 0xF2, 0x06, 0x30, 0x41, 0x08, 0x09, 0x80, 0x50, 0x06, 0x00, 0x60, 0x0D, 0x00, 0x88, 0x10, 0xC2, 0x04, 0x60, 0x2F,
    0x0F, 0xF0, 0xF2, 0x02, 0x10, 0x41, 0x04, 0x08, 0x80, 0x50, 0x05, 0x00, 0x20, 0x02, 0x00, 0x20, 0x02, 0x00, 0x20, 0x02,
    0x01, 0xFC, 0xFF, 0x40, 0xA0, 0x90, 0x40, 0x40, 0x40, 0x20, 0x20, 0x20, 0x10, 0x50, 0x30, 0x18, 0x0F, 0xFC, 0xF2, 0x49,
    0x24, 0x92, 0x49, 0x24, 0x9C, 0x80, 0x60, 0x10, 0x08, 0x02, 0x01, 0x00, 0x40, 0x20, 0x08, 0x04, 0x01, 0x00, 0x80, 0x20,
    0x10, 0x04, 0x02, 0x00, 0x80, 0x40, 0xE4, 0x92, 0x49, 0x24, 0x92, 0x49, 0x3C, 0x08, 0x0C, 0x09, 0x0C, 0x4C, 0x14, 0x04,
    0xFF, 0xFC, 0x84, 0x21, 0x3E, 0x00, 0x60, 0x08, 0x02, 0x3F, 0x98, 0x28, 0x0A, 0x02, 0xC3, 0x9F, 0x30, 0xE0, 0x01, 0x00,
    0x08, 0x00, 0x40, 0x02, 0x00, 0x13, 0xE0, 0xA0, 0x86, 0x02, 0x20, 0x09, 0x00, 0x48, 0x02, 0x40, 0x13, 0x01, 0x14, 0x1B,
    0x9F, 0x00, 0x1F, 0x4C, 0x19, 0x01, 0x40, 0x28, 0x01, 0x00, 0x20, 0x02, 0x00, 0x60, 0x43, 0xF0, 0x00, 0xC0, 0x08, 0x01,
    0x00, 0x20, 0x04, 0x3C, 0x98, 0x52, 0x06, 0x80, 0x50, 0x0A, 0x01, 0x40, 0x24, 0x0C, 0xC2, 0x87, 0x98, 0x3F, 0x18, 0x68,
    0x06, 0x01, 0xFF, 0xE0, 0x08, 0x03, 0x00, 0x60, 0xC7, 0xC0, 0x0F, 0x98, 0x08, 0x04, 0x02, 0x07, 0xF8, 0x80, 0x40, 0x20,
    0x10, 0x08, 0x04, 0x02, 0x01, 0x03, 0xF8, 0x1E, 0x6C, 0x39, 0x03, 0x40, 0x28, 0x05, 0x00, 0xA0, 0x12, 0x06, 0x61, 0x43,
    0xC8, 0x01, 0x00, 0x20, 0x08, 0x3E, 0x00, 0xC0, 0x10, 0x04, 0x01, 0x00, 0x40, 0x13, 0x87, 0x11, 0x82, 0x40, 0x90, 0x24,
    0x09, 0x02, 0x40, 0x90, 0x2E, 0x1C, 0x08, 0x04, 0x02, 0x00, 0x00, 0x03, 0xC0, 0x20, 0x10, 0x08, 0x04, 0x02, 0x01, 0x00,
    0x80, 0x43, 0xFE, 0x04, 0x08, 0x10, 0x00, 0x1F, 0xC0, 0x81, 0x02, 0x04, 0x08, 0x10, 0x20, 0x40, 0x81, 0x02, 0x0B, 0xE0,
    0xE0, 0x02, 0x00, 0x20, 0x02, 0x00, 0x20, 0x02, 0x3C, 0x21, 0x02, 0x60, 0x2C, 0x03, 0x80, 0x24, 0x02, 0x20, 0x21, 0x02,
    0x08, 0xE1, 0xF0, 0x78, 0x04, 0x02, 0x01, 0x00, 0x80, 0x40, 0x20, 0x10, 0x08, 0x04, 0x02, 0x01, 0x00, 0x80, 0x43, 0xFE,
    0xDC, 0xE3, 0x19, 0x90, 0x84, 0x84, 0x24, 0x21, 0x21, 0x09, 0x08, 0x48, 0x42, 0x42, 0x17, 0x18, 0xC0, 0x67, 0x83, 0x84,
    0x20, 0x22, 0x02, 0x20, 0x22, 0x02, 0x20, 0x22, 0x02, 0x20, 0x2F, 0x07, 0x1F, 0x04, 0x11, 0x01, 0x40, 0x18, 0x03, 0x00,
    0x60, 0x0A, 0x02, 0x20, 0x83, 0xE0, 0xCF, 0x85, 0x06, 0x60, 0x24, 0x01, 0x40, 0x14, 0x01, 0x40, 0x16, 0x02, 0x50, 0x44,
    0xF8, 0x40, 0x04, 0x00, 0x40, 0x0F, 0x00, 0x1E, 0x6C, 0x3B, 0x03, 0x40, 0x28, 0x05, 0x00, 0xA0, 0x12, 0x06, 0x61, 0x43,
    0xC8, 0x01, 0x00, 0x20, 0x04, 0x03, 0xC0, 0xE3, 0x8B, 0x13, 0x80, 0x80, 0x20, 0x08, 0x02, 0x00, 0x80, 0x20, 0x3F, 0x80,
    0x1F, 0x58, 0x34, 0x05, 0x80, 0x1E, 0x00, 0x60, 0x06, 0x01, 0xC0, 0xAF, 0xC0, 0x20, 0x04, 0x00, 0x80, 0x10, 0x0F, 0xF0,
    0x40, 0x08, 0x01, 0x00, 0x20, 0x04, 0x00, 0x80, 0x10, 0x03, 0x04, 0x3F, 0x00, 0xC1, 0xC8, 0x09, 0x01, 0x20, 0x24, 0x04,
    0x80, 0x90, 0x12, 0x02, 0x61, 0xC7, 0xCC, 0xF8, 0xF9, 0x01, 0x08, 0x10, 0x60, 0x81, 0x08, 0x08, 0x40, 0x22, 0x01, 0x20,
    0x05, 0x00, 0x30, 0x00, 0xF0, 0x7A, 0x01, 0x10, 0x08, 0x8C, 0x42, 0x62, 0x12, 0x90, 0xA5, 0x05, 0x18, 0x28, 0xC0, 0x86,
    0x00, 0x78, 0xF3, 0x04, 0x18, 0x80, 0xD0, 0x06, 0x00, 0x70, 0x09, 0x81, 0x0C, 0x20, 0x6F, 0x8F, 0xF0, 0xF2, 0x02, 0x20,
    0x41, 0x04, 0x10, 0x80, 0x88, 0x09, 0x00, 0x50, 0x06, 0x00, 0x20, 0x04, 0x00, 0x40, 0x08, 0x0F, 0xE0, 0xFF, 0x41, 0x00,
    0x80, 0x80, 0x80, 0x80, 0x80, 0x80, 0x40, 0xBF, 0xC0, 0x19, 0x08, 0x42, 0x10, 0x84, 0x64, 0x18, 0x42, 0x10, 0x84, 0x20,
    0xC0, 0xFF, 0xFF, 0xC0, 0xC1, 0x08, 0x42, 0x10, 0x84, 0x10, 0x4C, 0x42, 0x10, 0x84, 0x26, 0x00, 0x38, 0x13, 0x38, 0x38]"

definition mono12_glyph :: "glyph list" where
  "mono12_glyph = [
    gl 0 0 0 14 0 1, gl 0 3 15 14 6 (- 14), gl 6 8 7 14 3 (- 14), gl 13 10 16 14 2 (- 14),
    gl 33 10 17 14 2 (- 14), gl 55 10 15 14 2 (- 14), gl 74 9 12 14 3 (- 11), gl 88 3 7 14 5 (- 14),
    gl 91 3 18 14 7 (- 14), gl 98 3 18 14 4 (- 14), gl 105 9 9 14 3 (- 14), gl 116 9 11 14 3 (- 11),
    gl 129 5 7 14 3 (- 3), gl 134 11 1 14 2 (- 6), gl 136 3 3 14 5 (- 2), gl 138 9 18 14 3 (- 15),
    gl 159 9 15 14 3 (- 14), gl 176 7 14 14 4 (- 13), gl 189 9 15 14 2 (- 14), gl 206 10 15 14 2 (- 14),
    gl 225 8 15 14 3 (- 14), gl 240 9 15 14 3 (- 14), gl 257 9 15 14 3 (- 14), gl 274 8 15 14 3 (- 14),
    gl 289 9 15 14 3 (- 14), gl 306 9 15 14 3 (- 14), gl 323 3 10 14 5 (- 9), gl 327 5 13 14 3 (- 9),
    gl 336 11 11 14 2 (- 11), gl 352 12 4 14 1 (- 8), gl 358 11 11 14 2 (- 11), gl 374 9 14 14 3 (- 13),
    gl 390 9 16 14 3 (- 14), gl 408 14 14 14 0 (- 13), gl 433 11 14 14 2 (- 13), gl 453 10 14 14 2 (- 13),
    gl 471 10 14 14 2 (- 13), gl 489 11 14 14 2 (- 13), gl 509 11 14 14 2 (- 13), gl 529 11 14 14 2 (- 13),
    gl 549 10 14 14 2 (- 13), gl 567 7 14 14 4 (- 13), gl 580 11 14 14 2 (- 13), gl 600 12 14 14 2 (- 13),
    gl 621 11 14 14 2 (- 13), gl 641 13 14 14 1 (- 13), gl 664 12 14 14 1 (- 13), gl 685 12 14 14 1 (- 13),
    gl 706 10 14 14 2 (- 13), gl 724 12 17 14 1 (- 13), gl 750 12 14 14 2 (- 13), gl 771 10 14 14 2 (- 13),
    gl 789 11 14 14 2 (- 13), gl 809 12 14 14 1 (- 13), gl 830 14 14 14 0 (- 13), gl 855 14 14 14 0 (- 13),
    gl 880 12 14 14 1 (- 13), gl 901 12 14 14 1 (- 13), gl 922 9 14 14 3 (- 13), gl 938 3 18 14 7 (- 14),
    gl 945 9 18 14 3 (- 15), gl 966 3 18 14 5 (- 14), gl 973 9 6 14 3 (- 14), gl 980 14 1 14 0 3,
    gl 982 4 4 14 4 (- 15), gl 984 10 10 14 2 (- 9), gl 997 13 15 14 0 (- 14), gl 1022 11 10 14 2 (- 9),
    gl 1036 11 15 14 2 (- 14), gl 1057 10 10 14 2 (- 9), gl 1070 9 15 14 4 (- 14), gl 1087 11 14 14 2 (- 9),
    gl 1107 10 15 14 2 (- 14), gl 1126 9 15 14 3 (- 14), gl 1143 7 19 14 3 (- 14), gl 1160 12 15 14 1 (- 14),
    gl 1183 9 15 14 3 (- 14), gl 1200 13 10 14 1 (- 9), gl 1217 12 10 14 1 (- 9), gl 1232 11 10 14 2 (- 9),
    gl 1246 12 14 14 1 (- 9), gl 1267 11 14 14 2 (- 9), gl 1287 10 10 14 3 (- 9), gl 1300 10 10 14 2 (- 9),
    gl 1313 11 14 14 1 (- 13), gl 1333 11 10 14 2 (- 9), gl 1347 13 10 14 1 (- 9), gl 1364 13 10 14 1 (- 9),
    gl 1381 12 10 14 1 (- 9), gl 1396 12 14 14 1 (- 9), gl 1417 9 10 14 3 (- 9), gl 1429 5 18 14 5 (- 14),
    gl 1441 1 18 14 7 (- 14), gl 1444 5 18 14 5 (- 14), gl 1456 10 3 14 2 (- 7)]"

definition mono9_glyph :: "glyph list" where
  "mono9_glyph = [
    gl 0 0 0 11 0 1, gl 0 2 11 11 4 (- 10), gl 3 6 5 11 2 (- 10), gl 7 7 12 11 2 (- 10),
    gl 18 8 12 11 1 (- 10), gl 30 7 11 11 2 (- 10), gl 40 7 10 11 2 (- 9), gl 49 3 5 11 4 (- 10),
    gl 51 2 13 11 5 (- 10), gl 55 2 13 11 4 (- 10), gl 59 7 7 11 2 (- 10), gl 66 7 7 11 2 (- 8),
    gl 73 3 5 11 2 (- 1), gl 75 9 1 11 1 (- 5), gl 77 2 2 11 4 (- 1), gl 78 7 13 11 2 (- 11),
    gl 90 7 11 11 2 (- 10), gl 100 5 11 11 3 (- 10), gl 107 7 11 11 2 (- 10), gl 117 8 11 11 1 (- 10),
    gl 128 6 11 11 3 (- 10), gl 137 7 11 11 2 (- 10), gl 147 7 11 11 2 (- 10), gl 157 7 11 11 2 (- 10),
    gl 167 7 11 11 2 (- 10), gl 177 7 11 11 2 (- 10), gl 187 2 8 11 4 (- 7), gl 189 3 11 11 3 (- 7),
    gl 194 8 8 11 1 (- 8), gl 202 9 4 11 1 (- 6), gl 207 9 8 11 1 (- 8), gl 216 7 10 11 2 (- 9),
    gl 225 8 12 11 2 (- 10), gl 237 11 10 11 0 (- 9), gl 251 9 10 11 1 (- 9), gl 263 9 10 11 1 (- 9),
    gl 275 9 10 11 1 (- 9), gl 287 9 10 11 1 (- 9), gl 299 9 10 11 1 (- 9), gl 311 10 10 11 1 (- 9),
    gl 324 9 10 11 1 (- 9), gl 336 5 10 11 3 (- 9), gl 343 8 10 11 2 (- 9), gl 353 9 10 11 1 (- 9),
    gl 365 8 10 11 2 (- 9), gl 375 11 10 11 0 (- 9), gl 389 9 10 11 1 (- 9), gl 401 9 10 11 1 (- 9),
    gl 413 8 10 11 1 (- 9), gl 423 9 13 11 1 (- 9), gl 438 9 10 11 1 (- 9), gl 450 7 10 11 2 (- 9),
    gl 459 9 10 11 1 (- 9), gl 471 9 10 11 1 (- 9), gl 483 11 10 11 0 (- 9), gl 497 11 10 11 0 (- 9),
    gl 511 9 10 11 1 (- 9), gl 523 9 10 11 1 (- 9), gl 535 7 10 11 2 (- 9), gl 544 2 13 11 5 (- 10),
    gl 548 7 13 11 2 (- 11), gl 560 2 13 11 4 (- 10), gl 564 7 5 11 2 (- 10), gl 569 11 1 11 0 2,
    gl 571 3 3 11 3 (- 11), gl 573 9 8 11 1 (- 7), gl 582 9 11 11 1 (- 10), gl 595 7 8 11 2 (- 7),
    gl 602 9 11 11 1 (- 10), gl 615 8 8 11 1 (- 7), gl 623 6 11 11 3 (- 10), gl 632 9 11 11 1 (- 7),
    gl 645 9 11 11 1 (- 10), gl 658 7 10 11 2 (- 9), gl 667 5 13 11 3 (- 9), gl 676 8 11 11 2 (- 10),
    gl 687 7 11 11 2 (- 10), gl 697 9 8 11 1 (- 7), gl 706 9 8 11 1 (- 7), gl 715 9 8 11 1 (- 7),
    gl 724 9 11 11 1 (- 7), gl 737 9 11 11 1 (- 7), gl 750 7 8 11 3 (- 7), gl 757 7 8 11 2 (- 7),
    gl 764 8 10 11 2 (- 9), gl 774 8 8 11 1 (- 7), gl 782 9 8 11 1 (- 7), gl 791 9 8 11 1 (- 7),
    gl 800 9 8 11 1 (- 7), gl 809 9 11 11 1 (- 7), gl 822 7 8 11 2 (- 7), gl 829 3 13 11 4 (- 10),
    gl 834 1 13 11 5 (- 10), gl 836 3 13 11 4 (- 10), gl 841 7 3 11 2 (- 6)]"

definition mono9_font :: simple_font where
  "mono9_font = \<lparr>sf_bitmap = mono9_bitmap, sf_glyph = mono9_glyph, sf_first = 0x20, sf_last = 0x7E, sf_y_advance = 18\<rparr>"

definition mono12_font :: simple_font where
  "mono12_font = \<lparr>sf_bitmap = mono12_bitmap, sf_glyph = mono12_glyph, sf_first = 0x20, sf_last = 0x7E, sf_y_advance = 24\<rparr>"

lemma mono9_size: "length mono9_bitmap = 844"
  by (simp add: mono9_bitmap_def)

lemma mono12_size: "length mono12_bitmap = 1460"
  by (simp add: mono12_bitmap_def)

lemma fonts_ok: "font_ok mono9_font \<and> font_ok mono12_font"
proof
  show "font_ok mono9_font" by (simp add: font_ok_def mono9_font_def mono9_size mono9_glyph_def gl_def)
  show "font_ok mono12_font" by (simp add: font_ok_def mono12_font_def mono12_size mono12_glyph_def gl_def)
qed

subsection \<open>Drawing\<close>

text \<open>C33. A character of either font is drawn exactly. Whenever the box of its glyph lies in the buffer,
  \<^verbatim>\<open>draw_char\<close> reads only bytes of the bitmap and changes exactly the pixels of the box whose bit in the
  packed bitmap is set, to white; every other pixel of the buffer keeps its colour.\<close>

theorem draw_char_exact:
  assumes "font = mono9_font \<or> font = mono12_font" and "0x20 \<le> c" and "c \<le> 0x7E"
    and "g = sf_glyph font ! (unat c - 0x20)"
    and "int left = uint x + gl_x_off g" and "int top' = uint y + gl_y_off g"
    and "left + unat (gl_w g) \<le> 800" and "(top' + unat (gl_h g)) * 800 \<le> length fb"
  shows "\<exists>fb'. draw_char c font fb x y = Inr fb' \<and> length fb' = length fb \<and>
    (\<forall>row col. col < 800 \<and> row * 800 + col < length fb \<longrightarrow>
      fb' ! (row * 800 + col) =
        (if top' \<le> row \<and> row < top' + unat (gl_h g) \<and> left \<le> col \<and> col < left + unat (gl_w g) \<and>
            glyph_bit (sf_bitmap font) (unat (gl_off g)) ((row - top') * unat (gl_w g) + (col - left))
         then white else fb ! (row * 800 + col)))"
proof -
  have f: "font_ok font" "sf_first font = 0x20" "sf_last font = 0x7E"
    using assms(1) fonts_ok by (auto simp: mono9_font_def mono12_font_def)
  have "draw_char c font fb x y = Inr (paint {(top' * 800 + left) + i * 800 + j |i j.
    i < unat (gl_h g) \<and> j < unat (gl_w g) \<and> glyph_bit (sf_bitmap font) (unat (gl_off g)) (i * unat (gl_w g) + j)} fb)"
    by (rule draw_char_paint [OF f(1)]) (use assms f in \<open>auto simp: word_le_nat_alt\<close>)
  then show ?thesis using box_pixel [OF _ assms(7)] by auto
qed

text \<open>The dash of the small font at the corner of a buffer of ten lines: nine pixels in one line.\<close>

lemma draw_char_exact_witness:
  "\<exists>fb'. draw_char 0x2D mono9_font (replicate 8000 (0, 0, 0, 0)) 0 6 = Inr fb' \<and> fb' ! 801 = white \<and> fb' ! 800 = (0, 0, 0, 0)"
proof -
  define g where "g = sf_glyph mono9_font ! (unat (0x2D :: u8) - 0x20)"
  have g: "g = gl 75 9 1 11 1 (- 5)" by (simp add: g_def mono9_font_def mono9_glyph_def)
  have b: "mono9_bitmap ! 75 = 0xFF" by (simp add: mono9_bitmap_def)
  have u: "unat (gl_h g) = 1" "unat (gl_w g) = 9" "gl_off g = 75" "gl_x_off g = 1" "gl_y_off g = - 5" by (simp_all add: g gl_def)
  let ?fb = "replicate 8000 (0, 0, 0, 0) :: pixel list"
  have "\<exists>fb'. draw_char 0x2D mono9_font ?fb 0 6 = Inr fb' \<and> length fb' = length ?fb \<and>
    (\<forall>row col. col < 800 \<and> row * 800 + col < length ?fb \<longrightarrow>
      fb' ! (row * 800 + col) =
        (if 1 \<le> row \<and> row < 1 + unat (gl_h g) \<and> 1 \<le> col \<and> col < 1 + unat (gl_w g) \<and>
            glyph_bit (sf_bitmap mono9_font) (unat (gl_off g)) ((row - 1) * unat (gl_w g) + (col - 1))
         then white else ?fb ! (row * 800 + col)))"
    by (rule draw_char_exact [OF disjI1 [OF refl] _ _ g_def]) (simp_all add: u)
  then obtain fb' where fb: "draw_char 0x2D mono9_font ?fb 0 6 = Inr fb'"
    "\<And>row col. col < 800 \<Longrightarrow> row * 800 + col < 8000 \<Longrightarrow> fb' ! (row * 800 + col) =
      (if 1 \<le> row \<and> row < 1 + 1 \<and> 1 \<le> col \<and> col < 1 + 9 \<and>
          glyph_bit (sf_bitmap mono9_font) (unat (gl_off g)) ((row - 1) * 9 + (col - 1)) then white else ?fb ! (row * 800 + col))"
    unfolding u(1,2) length_replicate by blast
  have "glyph_bit (sf_bitmap mono9_font) (unat (gl_off g)) 0" by (simp add: glyph_bit_def mono9_font_def u(3) b)
  then have "fb' ! 801 = white" "fb' ! 800 = (0, 0, 0, 0)" using fb(2) [of 1 1] fb(2) [of 0 1] by simp_all
  then show ?thesis using fb(1) by blast
qed

end
