(* ===== verification/TaskManager.thy ===== *)
theory TaskManager
  imports Thread Print
begin

text \<open>
  The task manager of \<^verbatim>\<open>kernel/task_manager.c\<close>: what it prints once a second about the processor, the memory
  and every thread. A routine returns the bytes it sends to the serial port.
\<close>

subsection \<open>Definitions\<close>

definition BARS :: u32 where "BARS = 20"

definition colour :: "string \<Rightarrow> u8 list" where
  "colour code = 0x1B # str_bytes code"

definition GREEN :: "u8 list" where "GREEN = colour ''[32m''"
definition BLUE :: "u8 list" where "BLUE = colour ''[34m''"
definition NORMAL :: "u8 list" where "NORMAL = colour ''[0m''"

definition text_arg :: "string \<Rightarrow> arg" where
  "text_arg s = Str (Some (str_bytes s))"

definition print_thread_header :: "u8 list res" where
  "print_thread_header =
     print_task (Some (str_bytes ''%3s %-16s %5s %11s'' @ [10])) [text_arg ''PID'', text_arg ''NAME'', text_arg ''CPU%'', text_arg ''MEM'']"

definition print_thread_stats :: "u32 \<Rightarrow> u8 list \<Rightarrow> u8 \<Rightarrow> u8 \<Rightarrow> u32 \<Rightarrow> u8 list res" where
  "print_thread_stats pid name percent frac mem =
     print_task (Some (str_bytes ''%3d %-16s %2d.%02d %8d KB'' @ [10])) [Num pid, Str (Some name), Num (ucast percent), Num (ucast frac), Num mem]"

text \<open>A bar of \<open>bars\<close> cells, the space behind it and the percentage.\<close>

definition print_bar :: "u8 list \<Rightarrow> u8 \<Rightarrow> u32 \<Rightarrow> u8 list res" where
  "print_bar head bars percent =
     (let space = 20 - bars in
      res_bind (print_task (Some head) []) (\<lambda>a.
      res_bind (print_task (Some (NORMAL @ str_bytes ''%*s %3d%%]'' @ [10])) [Num (ucast space), Str (Some []), Num percent]) (\<lambda>b.
        Inr (a @ replicate (unat bars) 0x7C @ b))))"

definition print_cpu_usage :: "u8 \<Rightarrow> u8 list res" where
  "print_cpu_usage cpu_usage = print_bar (str_bytes ''CPU ['' @ GREEN) (ucast (BARS * ucast cpu_usage div 100)) (ucast cpu_usage)"

definition print_mem_usage :: "u32 \<Rightarrow> u32 \<Rightarrow> u8 list res" where
  "print_mem_usage bytes in_use =
     (if bytes div 100 = 0 then Inl (Panic ''division by zero'')
      else print_bar (str_bytes ''MEM ['' @ BLUE) (ucast (in_use * BARS div bytes)) (in_use div (bytes div 100)))"

text \<open>The start: every thread is measured from now on.\<close>

definition mark_runtime :: "tid \<Rightarrow> kernel \<Rightarrow> kernel" where
  "mark_runtime t = set_thread t (\<lambda>th. th\<lparr>t_last_runtime := t_runtime th\<rparr>)"

definition task_manager_start :: "kernel \<Rightarrow> kernel" where
  "task_manager_start k = fold mark_runtime (thread_list (k_rq k)) k"

definition run_since :: "tid \<Rightarrow> kernel \<Rightarrow> u64" where
  "run_since t k = (let th = threads (k_rq k) t in t_runtime th - t_last_runtime th)"

text \<open>The bytes of the name before its terminator.\<close>

definition thread_name :: "tid \<Rightarrow> kernel \<Rightarrow> u8 list" where
  "thread_name t k = takeWhile (\<lambda>c. c \<noteq> 0) (tb_name (tcbs k t))"

definition thread_line :: "tid \<Rightarrow> kernel \<Rightarrow> u8 list res" where
  "thread_line t k =
     (let runtime = ucast (run_since t k) :: u32; percent = runtime div 10000; fraction = runtime div 100 - percent * 100 in
      print_thread_stats (t_pid (threads (k_rq k) t)) (thread_name t k) (ucast percent) (ucast fraction) (tb_page_cnt (tcbs k t) * 4))"

fun thread_lines :: "tid list \<Rightarrow> kernel \<Rightarrow> (u8 list \<times> kernel) res" where
  "thread_lines [] k = Inr ([], k)"
| "thread_lines (t # ts) k =
     res_bind (thread_line t k) (\<lambda>line.
     res_bind (thread_lines ts (mark_runtime t k)) (\<lambda>(rest, k'). Inr (line @ rest, k')))"

text \<open>One turn of the loop after its sleep.\<close>

definition idle_percent :: "kernel \<Rightarrow> u32" where
  "idle_percent k = ucast (run_since (idle_thread (k_rq k)) k div 10000)"

definition task_manager_pass :: "kernel \<Rightarrow> (u8 list \<times> kernel) res" where
  "task_manager_pass k =
     (if idle_thread (k_rq k) = 0 then Inl NullPointer
      else
        res_bind (print_cpu_usage (ucast (100 - idle_percent k))) (\<lambda>cpu.
        res_bind (print_mem_usage (mm_get_total (k_mm k)) (mm_get_total_used (k_mm k))) (\<lambda>mem.
        res_bind print_thread_header (\<lambda>head.
        res_bind (thread_lines (thread_list (k_rq k)) k) (\<lambda>(lines, k'). Inr (cpu @ mem @ head @ lines @ [10], k'))))))"

subsection \<open>The printed numbers\<close>

text \<open>Percent and fraction are the two halves of the runtime in hundredths of a percent of a second.\<close>

lemma percent_fraction:
  fixes runtime :: u32
  shows "unat (runtime div 10000) = unat runtime div 10000 \<and>
    unat (runtime div 100 - runtime div 10000 * 100) = unat runtime div 100 mod 100"
proof -
  let ?n = "unat runtime"
  have n: "?n < 4294967296" using unsigned_less [of runtime, where ?'a = nat] by simp
  have p: "unat (runtime div 10000) = ?n div 10000" "unat (runtime div 100) = ?n div 100" by (simp_all add: unat_div)
  have "?n div 10000 * 100 < 4294967296" using n div_times_less_eq_dividend [of ?n 10000] by linarith
  then have m: "unat (runtime div 10000 * 100) = ?n div 10000 * 100"
    by (subst unat_mult_lem [THEN iffD1]) (simp_all add: p)
  have "?n div 10000 = ?n div 100 div 100" by (simp add: div_mult2_eq)
  then have d: "?n div 100 = ?n div 10000 * 100 + ?n div 100 mod 100" by (metis div_mult_mod_eq)
  have "unat (runtime div 100 - runtime div 10000 * 100) = ?n div 100 - ?n div 10000 * 100"
    using d by (subst unat_sub) (simp_all add: word_le_nat_alt p m)
  moreover have "?n div 100 - ?n div 10000 * 100 = ?n div 100 mod 100" using d by linarith
  ultimately show ?thesis using p(1) by (simp only: simp_thms)
qed

lemma bar_formats:
  "NORMAL @ str_bytes ''%*s %3d%%]'' @ [10] = [27, 91, 48, 109, 37, 42, 115, 32, 37, 51, 100, 37, 37, 93, 10]"
  "str_bytes ''MEM ['' @ BLUE = [77, 69, 77, 32, 91, 27, 91, 51, 52, 109]"
  "str_bytes ''CPU ['' @ GREEN = [67, 80, 85, 32, 91, 27, 91, 51, 50, 109]"
  by (simp_all add: NORMAL_def BLUE_def GREEN_def colour_def str_bytes_def of_char_def)

lemma put_number_short: "length (put_number n f 10 3) \<le> 300"
proof -
  have b: "print_base 10" by (simp add: print_base_def)
  have "length (number_text f 10 n) \<le> 34" by (rule number_text_length) simp
  moreover have "length (prefix_text f 10) \<le> 1" by (simp add: prefix_text_def str_bytes_def)
  ultimately show ?thesis unfolding put_number_ref [OF b] Let_def by (simp, intro conjI impI; linarith)
qed

text \<open>A bar as it is printed: the cells, blanks up to twenty cells, and the percentage.\<close>

definition bar_text :: "u8 list \<Rightarrow> nat \<Rightarrow> u32 \<Rightarrow> u8 list" where
  "bar_text head cells percent =
     head @ replicate cells 0x7C @ [27, 91, 48, 109] @ replicate (20 - cells) 0x20 @ [0x20] @ put_number percent FLAG_SIGN 10 3 @ [37, 93, 10]"

lemma print_bar_text:
  assumes "unat bars \<le> 20" and "head = str_bytes ''MEM ['' @ BLUE \<or> head = str_bytes ''CPU ['' @ GREEN"
  shows "print_bar head bars percent = Inr (bar_text head (unat bars) percent)"
proof -
  have "bars \<le> 20" using assms(1) by (simp add: word_le_nat_alt)
  then have u: "unat (20 - bars) = 20 - unat bars" by (simp add: unat_sub)
  have h: "vsprint_loop head [] = Inr head" "length head \<le> 1024" using assms(2) unfolding bar_formats by auto
  have p: "put_string (Some []) 0 w = replicate (unat w) 0x20" for w
    by (simp add: put_string_def FLAG_LEFT_def)
  have l: "vsprint_loop (NORMAL @ str_bytes ''%*s %3d%%]'' @ [10]) [Num w, Str (Some []), Num percent] =
      Inr ([27, 91, 48, 109] @ replicate (unat w) 0x20 @ [0x20] @ put_number percent FLAG_SIGN 10 3 @ [37, 93, 10])" for w
    unfolding bar_formats(1)
    by (simp add: conversion_def read_width_def convert_def number_spec_def is_num_def char_to_num_def p)
  show ?thesis
    using h put_number_short [of percent FLAG_SIGN] u
    by (simp add: print_bar_def Let_def print_task_def print_polled_def vsprint_def l bar_text_def)
qed

text \<open>
  The memory bar. For any memory of at least 100 bytes and less than 205 megabytes and any part of it in use,
  \<^verbatim>\<open>print_mem_usage\<close> prints twenty cells, of which the part in use is filled, rounded down, and the
  percentage.
\<close>

lemma memory_bar_exact:
  assumes "100 \<le> bytes" and "in_use \<le> bytes" and "unat bytes * 20 < 2 ^ 32"
  shows "print_mem_usage bytes in_use =
    Inr (bar_text (str_bytes ''MEM ['' @ BLUE) (unat in_use * 20 div unat bytes) (in_use div (bytes div 100)))"
proof -
  have le: "unat in_use \<le> unat bytes" "100 \<le> unat bytes" using assms(1,2) by (simp_all add: word_le_nat_alt)
  have m: "unat (in_use * BARS) = unat in_use * 20"
    unfolding BARS_def using assms(3) le(1) by (subst unat_mult_lem [THEN iffD1]) simp_all
  have "unat in_use * 20 \<le> 20 * unat bytes" using le(1) by simp
  then have c: "unat in_use * 20 div unat bytes \<le> 20"
    using le(2) by (metis div_le_mono div_mult_self_is_m mult.commute order_less_le_trans zero_less_numeral)
  have b: "unat (ucast (in_use * BARS div bytes) :: u8) = unat in_use * 20 div unat bytes"
    using c by (simp add: unsigned_ucast_eq unat_div m take_bit_nat_eq_self)
  have "1 \<le> unat bytes div 100" using le(2) by (simp add: Suc_le_eq div_greater_zero_iff)
  moreover have "unat (bytes div 100) = unat bytes div 100" by (simp add: unat_div)
  ultimately have "bytes div 100 \<noteq> 0" by (metis not_one_le_zero unat_0)
  then show ?thesis using print_bar_text [of "ucast (in_use * BARS div bytes)"] c b by (simp add: print_mem_usage_def)
qed

text \<open>With 256 megabytes the product overflows: a memory that is full is shown with four cells of twenty.\<close>

lemma memory_bar_overflow: "ucast ((0x10000000 :: u32) * BARS div 0x10000000) = (4 :: u8)"
  by (simp add: BARS_def)

text \<open>
  The idle time is measured over a sleep that is at least a second: with 101 percent the usage is -1, in eight
  bits 255, and the blanks behind the bar are 225.
\<close>

lemma cpu_usage_wraps: "(ucast (100 - 101 :: u32) :: u8) = 255 \<and> (ucast (BARS * ucast (255 :: u8) div 100) :: u8) = 51 \<and> (20 - 51 :: u8) = 225"
proof -
  have "(ucast (- 1 :: u32) :: u8) = - 1" by (rule bit_word_eqI) (simp add: bit_simps)
  then show ?thesis by (simp add: BARS_def)
qed

end
