(* ===== verification/Kernel.thy ===== *)
theory Kernel
  imports Thread
begin

text \<open>
  The kernel as a whole: the start of the scheduler (\<^verbatim>\<open>sched_init\<close> in \<^verbatim>\<open>kernel/sched.c\<close> and \<^verbatim>\<open>sched_start\<close> in
  \<^verbatim>\<open>arch/sched.s\<close>), the end of a thread with the release of its memory, and the histories in which the heap,
  the scheduler, the page tables and the threads change together. The invariant says that every thread the
  scheduler knows lives in a block of the heap that is handed out.
\<close>

subsection \<open>Starting the scheduler\<close>

text \<open>The interrupt of the tick timer is set up by the routines of \<open>Drivers\<close>.\<close>

definition sched_early_init :: "kernel \<Rightarrow> kernel" where
  "sched_early_init k = k\<lparr>k_rq := sched_init_rq (k_rq k), k_pids := pid_init\<rparr>"

definition add_idle :: "u32 \<Rightarrow> u32 \<Rightarrow> u32 \<Rightarrow> kernel \<Rightarrow> kernel res" where
  "add_idle te idle_func name k = res_bind (create_kthread te idle_func 500 name 0 3 k) (\<lambda>(_, k'). Inr k')"

definition sched_init :: "u32 \<Rightarrow> u32 \<Rightarrow> u32 \<Rightarrow> kernel \<Rightarrow> kernel res" where
  "sched_init te idle_func name k = add_idle te idle_func name (sched_early_init k)"

text \<open>
  The first pass of \<^verbatim>\<open>core_sched\<close> runs before there is a current thread: \<^verbatim>\<open>rq->curr->runtime += runtime\<close> goes
  through the null pointer into the memory that the start code maps at address 0, to no thread. What the
  argument \<open>reschedule\<close> is at that point is whatever \<^verbatim>\<open>cpu_timer_start\<close> left in the register.
\<close>

definition first_pass :: "bool \<Rightarrow> u32 \<Rightarrow> rq \<Rightarrow> rq res" where
  "first_pass reschedule timer_us rq =
     (let rq2 = rq\<lparr>time_tick := time_tick rq + ucast (if reschedule then timer_us else SCHED_SLICE)\<rparr> in
      res_bind (if time_tick rq2 > time_wake rq2 \<and> time_wake rq2 \<noteq> 0 then enqueue_sleeping_threads rq2 else Inr rq2) (\<lambda>rq3.
      res_bind (core_pick_next rq3) (\<lambda>(new, rq4).
        Inr (if new \<noteq> rq_curr rq4 then rq4\<lparr>rq_next := new\<rparr> else rq4))))"

definition sched_start :: "bool \<Rightarrow> u32 \<Rightarrow> rq \<Rightarrow> rq res" where
  "sched_start reschedule timer_us rq =
     res_bind (first_pass reschedule timer_us rq) (\<lambda>rq'.
       if rq_next rq' = 0 then Inl (Panic ''Next thread is wrong'') else Inr (rq'\<lparr>rq_curr := rq_next rq', rq_next := 0\<rparr>))"

text \<open>\<^verbatim>\<open>sched_kill_thread\<close> with the release of the control block.\<close>

definition kill_thread :: "tid \<Rightarrow> kernel \<Rightarrow> kernel res" where
  "kill_thread t k =
     res_bind (sched_kill_thread t (k_rq k)) (\<lambda>rq'.
     res_bind (kfree t (k_mm k)) (\<lambda>mm'. Inr (k\<lparr>k_rq := rq', k_mm := mm'\<rparr>)))"

subsection \<open>Histories\<close>

text \<open>
  A request that the heap grants: the block is not the null pointer, which the kernel does not look for, and
  ends before the last node of the zone, beyond which lies memory that is not the heap's.
\<close>

definition granted :: "nat \<Rightarrow> u32 \<Rightarrow> mm_sys \<Rightarrow> u32 \<Rightarrow> mm_sys \<Rightarrow> bool" where
  "granted e sz mm p mm' \<longleftrightarrow> unat sz + 16 < 4294967296 \<and> kzmalloc sz mm = Inr (p, mm') \<and> p \<noteq> 0 \<and>
     before_end e (heap mm') (p - 8)"

definition kthread_size :: "u32 \<Rightarrow> u32" where
  "kthread_size stack_words = align_up (sizeof_thread + stack_words * 4) 8"

text \<open>
  What can happen between two instructions of a thread. The second part of the state is the set of the blocks
  handed out by the heap, of which the drivers release those that no thread lives in.
\<close>

inductive kernel_step :: "nat \<Rightarrow> kernel \<times> u32 set \<Rightarrow> kernel \<times> u32 set \<Rightarrow> bool" for e where
  kthread: "granted e (kthread_size w) (k_mm k) t mm1 \<Longrightarrow> get_sched_class (flags AND 7) = Inr c \<Longrightarrow> c \<noteq> IdleClass \<Longrightarrow>
    create_kthread te f w name args flags k = Inr (r, k') \<Longrightarrow> kernel_step e (k, bs) (k', insert (t - 8) bs)"
| process: "granted e sizeof_thread (k_mm k) t mm1 \<Longrightarrow> granted e sizeof_mmap mm1 ma mm2 \<Longrightarrow>
    get_sched_class (flags AND 7) = Inr c \<Longrightarrow> c \<noteq> IdleClass \<Longrightarrow>
    create_process te f w name args flags k = Inr (r, k') \<Longrightarrow>
    kernel_step e (k, bs) (k', insert (ma - 8) (insert (t - 8) bs))"
| uthread: "granted e sizeof_thread (k_mm k) t mm1 \<Longrightarrow> get_sched_class (flags AND 7) = Inr c \<Longrightarrow> c \<noteq> IdleClass \<Longrightarrow>
    create_thread te f w name args flags k = Inr (r, k') \<Longrightarrow> kernel_step e (k, bs) (k', insert (t - 8) bs)"
| start: "rq_curr (k_rq k) = 0 \<Longrightarrow> sched_start b us (k_rq k) = Inr rq' \<Longrightarrow> kernel_step e (k, bs) (k\<lparr>k_rq := rq'\<rparr>, bs)"
| tick: "cpu_tick_handler (k_rq k) = Inr rq' \<Longrightarrow> kernel_step e (k, bs) (k\<lparr>k_rq := context_switch rq'\<rparr>, bs)"
| sleep: "time_tick (k_rq k) + ucast (ms * 1000) \<noteq> 0 \<Longrightarrow> sched_thread_sleep ms us (k_rq k) = Inr rq' \<Longrightarrow>
    kernel_step e (k, bs) (k\<lparr>k_rq := context_switch rq'\<rparr>, bs)"
| brk: "sys_set_break bytes k = Inr (r, k') \<Longrightarrow> kernel_step e (k, bs) (k', bs)"
| kill: "kill_thread t k = Inr k' \<Longrightarrow> kernel_step e (k, bs) (k', bs - {t - 8})"
| alloc: "granted e sz (k_mm k) p mm1 \<Longrightarrow> kernel_step e (k, bs) (k\<lparr>k_mm := mm1\<rparr>, insert (p - 8) bs)"
| release: "b \<in> bs \<Longrightarrow> b + 8 \<notin> set (thread_list (k_rq k)) \<Longrightarrow> kfree (b + 8) (k_mm k) = Inr mm1 \<Longrightarrow>
    kernel_step e (k, bs) (k\<lparr>k_mm := mm1\<rparr>, bs - {b})"

inductive_cases kernel_step_cases: "kernel_step e x y"

text \<open>The threads of the list are those of the queues and the idle thread, each in a block of its own.\<close>

definition threads_ok :: "rq \<Rightarrow> u32 set \<Rightarrow> bool" where
  "threads_ok rq bs \<longleftrightarrow> run_inv rq \<and> distinct (thread_list rq) \<and>
     set (thread_list rq) = insert (idle_thread rq) (set (all_queued rq)) \<and> (\<forall>t \<in> set (thread_list rq). t - 8 \<in> bs)"

definition kernel_inv :: "nat \<Rightarrow> nat set \<Rightarrow> kernel \<Rightarrow> u32 set \<Rightarrow> bool" where
  "kernel_inv e tot k bs \<longleftrightarrow> hist_inv e tot (heap (k_mm k)) bs \<and> threads_ok (k_rq k) bs"

subsection \<open>The heap under the memory manager\<close>

lemma granted_heap:
  assumes "granted e sz mm p mm'" and "hist_inv e tot (heap mm) bs"
  shows "hist_inv e tot (heap mm') (insert (p - 8) bs)" and "p - 8 \<notin> bs"
proof -
  have a: "slob_alloc sz (heap mm) = Some (p, heap mm')"
    using assms(1) by (auto simp: granted_def kzmalloc_def kmalloc_def or_hang_def res_bind_Inr_iff split: option.splits)
  show "hist_inv e tot (heap mm') (insert (p - 8) bs)" "p - 8 \<notin> bs"
    using hist_alloc [OF assms(2) _ a] hist_alloc_fresh [OF assms(2) _ a] assms(1) by (auto simp: granted_def)
qed

lemma kfree_heap:
  assumes "kfree p mm = Inr mm'" and "hist_inv e tot (heap mm) bs" and "p - 8 \<in> bs"
  shows "hist_inv e tot (heap mm') (bs - {p - 8})"
proof -
  have "slob_free (p - 8 + 8) (heap mm) = Some (Inr (heap mm'))"
    using assms(1) by (auto simp: kfree_def or_hang_def res_bind_Inr_iff split: option.splits)
  then show ?thesis using hist_release [OF assms(2,3)] by blast
qed

lemma alloc_pages_heap: "alloc_pages order s = Inr (page, s') \<Longrightarrow> heap s' = heap s"
  by (auto simp: alloc_pages_def res_bind_Inr_iff)

lemma l2_pt_heap: "mm_get_l2_pt m s = Inr (pt, m', s') \<Longrightarrow> heap s' = heap s"
  by (auto simp: mm_get_l2_pt_def lv2_pt_alloc_def Let_def res_bind_Inr_iff dest!: alloc_pages_heap split: option.splits if_splits)

lemma map_pages_heap: "map_pages_loop n tt page va attr m s = Inr (ok, m', s') \<Longrightarrow> heap s' = heap s"
proof (induction n arbitrary: page va m s)
  case (Suc n)
  obtain ok1 m1 s1 where one: "(if mm_has_ste_ptr_mapping tt va (kmem s) then Inr (True, m, s)
      else res_bind (mm_get_l2_pt m s) (\<lambda>(pt2_virt, m1, s1).
        if pt2_virt = 0 then Inr (False, m1, s1)
        else res_bind (mm_map_in_pt tt (va_to_pa pt2_virt) (va AND NOT 0xFFFFF) (pa_domain attr) (kmem s1))
               (\<lambda>mem1. Inr (True, m1, s1\<lparr>kmem := mem1\<rparr>)))) = Inr (ok1, m1, s1)"
    and rest: "(if \<not> ok1 then Inr (False, m1, s1)
      else res_bind (mm_map_in_page_unsafe tt (page_to_pa s1 page) va attr (kmem s1)) (\<lambda>mem2.
          map_pages_loop n tt (page + sizeof_page) (va + 4096) attr m1 (s1\<lparr>kmem := mem2\<rparr>))) = Inr (ok, m', s')"
    using Suc.prems unfolding map_pages_loop.simps res_bind_Inr_iff by (auto simp only: split_paired_Ex prod.case)
  have "heap s1 = heap s"
    using one by (auto simp: res_bind_Inr_iff dest!: l2_pt_heap split: if_splits)
  moreover have "heap s' = heap s1"
  proof (cases ok1)
    case True
    then obtain mem2 where "map_pages_loop n tt (page + sizeof_page) (va + 4096) attr m1 (s1\<lparr>kmem := mem2\<rparr>) = Inr (ok, m', s')"
      using rest by (auto simp only: res_bind_Inr_iff if_False not_True_eq_False)
    from Suc.IH [OF this] show ?thesis by simp
  next
    case False
    then show ?thesis using rest by simp
  qed
  ultimately show ?case by simp
qed simp

lemma map_in_pages_heap: "mm_map_in_pages m page n va attr s = Inr (ok, m', s') \<Longrightarrow> heap s' = heap s"
  by (auto simp: mm_map_in_pages_def res_bind_Inr_iff dest: map_pages_heap)

lemma set_break_heap: "set_break bytes m cnt s = Inr (r, m', cnt', s') \<Longrightarrow> heap s' = heap s"
  by (auto simp: set_break_def Let_def res_bind_Inr_iff curr_thread_add_pages_def
      dest!: alloc_pages_heap map_in_pages_heap split: if_splits prod.splits)

subsection \<open>Threads come and go\<close>

lemma sorted_by_cong:
  assumes "sorted_wrt (\<lambda>t u. t_wake (f t) \<le> t_wake (f u)) xs" and "\<forall>t \<in> set xs. t_wake (g t) = t_wake (f t)"
  shows "sorted_wrt (\<lambda>t u. t_wake (g t) \<le> t_wake (g u)) xs"
  using assms(1) by (rule sorted_wrt_mono_rel [rotated]) (use assms(2) in simp)

text \<open>Control blocks may change as long as class and wake-up time of the queued threads stay.\<close>

lemma sched_inv_threads:
  assumes i: "sched_inv rq" and f: "\<forall>u \<in> set (all_queued rq). t_class (f u) = class_of rq u \<and> t_wake (f u) = wake_of rq u"
  shows "sched_inv (rq\<lparr>threads := f\<rparr>)"
proof -
  have "all_queued (rq\<lparr>threads := f\<rparr>) = all_queued rq" by (simp add: all_queued_def)
  moreover have "sleepers_sorted (rq\<lparr>threads := f\<rparr>)"
    using i f sorted_by_cong [of "threads rq" "sleep_list rq" f] by (simp add: inv_defs)
  ultimately show ?thesis using i f by (simp add: inv_defs)
qed

lemma threads_ok_threads:
  assumes "threads_ok rq bs" and "\<forall>u \<in> set (all_queued rq). t_class (f u) = class_of rq u \<and> t_wake (f u) = wake_of rq u"
  shows "threads_ok (rq\<lparr>threads := f\<rparr>) bs"
  using assms(1) sched_inv_threads [OF _ assms(2)] by (simp add: threads_ok_def run_inv_def all_queued_def)

lemma threads_ok_set_thread:
  assumes "threads_ok (k_rq k) bs" and "t \<notin> set (thread_list (k_rq k))"
  shows "threads_ok (k_rq (set_thread t g k)) bs"
proof -
  have "t \<notin> set (all_queued (k_rq k))" using assms by (auto simp: threads_ok_def)
  then show ?thesis unfolding set_thread_def
    using threads_ok_threads [OF assms(1), of "(threads (k_rq k))(t := g (threads (k_rq k) t))"] by auto
qed

lemma threads_ok_grow: "threads_ok rq bs \<Longrightarrow> bs \<subseteq> cs \<Longrightarrow> threads_ok rq cs"
  by (auto simp: threads_ok_def)

lemma start_thread_ok2:
  assumes r: "start_thread t flags k = Inr k'" and c: "get_sched_class (flags AND 7) = Inr c" "c \<noteq> IdleClass"
    and ok: "threads_ok (k_rq k) bs" and t: "t \<notin> set (thread_list (k_rq k))" "t \<noteq> 0"
  shows "threads_ok (k_rq k') (insert (t - 8) bs) \<and> k_mm k' = k_mm k \<and> thread_list (k_rq k') = t # thread_list (k_rq k) \<and>
    idle_thread (k_rq k') = idle_thread (k_rq k)"
proof -
  define rq1 where "rq1 = (k_rq k)\<lparr>thread_list := t # thread_list (k_rq k),
     threads := (threads (k_rq k))(t := (threads (k_rq k) t)\<lparr>t_class := Some c, t_state := THREAD_RUNNING\<rparr>)\<rparr>"
  have un: "unqueued (k_rq k) t" using ok t by (auto simp: threads_ok_def unqueued_def)
  have k': "k_rq k' = class_enqueue c t rq1" "k_mm k' = k_mm k"
    using r c(1) by (auto simp: start_thread_def thread_set_sched_class_def set_thread_def sched_enqueue_thread_def
        sched_add_thread_def set_state_def rq1_def)
  have "threads_ok ((k_rq k)\<lparr>threads := threads rq1\<rparr>) bs"
    using un by (intro threads_ok_threads [OF ok]) (auto simp: rq1_def unqueued_def)
  then have "sched_inv ((k_rq k)\<lparr>threads := threads rq1\<rparr>)" by (simp add: threads_ok_def run_inv_def)
  then have i: "sched_inv rq1" by (simp add: rq1_def inv_defs)
  have u1: "unqueued rq1 t" "class_of rq1 t = Some c" using un by (simp_all add: rq1_def unqueued_def all_queued_def)
  note e = class_enqueue_inv [OF i u1 c(2)]
  have f: "all_queued rq1 = all_queued (k_rq k)" "thread_list rq1 = t # thread_list (k_rq k)" "idle_thread rq1 = idle_thread (k_rq k)"
    "rq_next rq1 = rq_next (k_rq k)" "rq_curr rq1 = rq_curr (k_rq k)" "sleep_list rq1 = sleep_list (k_rq k)"
    by (simp_all add: rq1_def all_queued_def)
  have "run_inv (k_rq k')" using e ok f by (simp add: k' run_inv_def threads_ok_def same_clock_def)
  then show ?thesis using e ok f t by (auto simp: k' threads_ok_def same_clock_def)
qed

text \<open>The start of a thread on a block that was free.\<close>

lemma fresh_thread:
  assumes "threads_ok rq bs" and "t - 8 \<notin> bs"
  shows "t \<notin> set (thread_list rq)"
  using assms by (auto simp: threads_ok_def)

lemma k_rq_tcb [simp]: "k_rq (set_tcb t f k) = k_rq k" "k_rq (thread_set_name t n k) = k_rq k"
  by (simp_all add: set_tcb_def)

lemma create_kthread_runs:
  assumes g: "granted e (kthread_size w) (k_mm k) t mm1" and r: "create_kthread te f w name args flags k = Inr (x, k')"
    and k2: "k2 = thread_set_name t name (init_thread_struct t (k\<lparr>k_mm := mm1\<rparr>))"
    and a: "alloc_pid (k_pids k) = Inr (pid, pids)"
  shows "case pid of None \<Rightarrow> k' = k2\<lparr>k_pids := pids\<rparr>
    | Some n \<Rightarrow> \<exists>k4. start_thread t flags k4 = Inr k' \<and> heap (k_mm k4) = heap mm1 \<and>
        k_rq k4 = k_rq (set_thread t (\<lambda>th. th\<lparr>t_pid := n\<rparr>) k2) \<and> x = t"
proof -
  have z: "kzmalloc_k (align_up (sizeof_thread + w * 4) 8) k = Inr (t, k\<lparr>k_mm := mm1\<rparr>)"
    using g by (simp add: kzmalloc_k_def granted_def kthread_size_def)
  have "k_mm k2 = mm1" "k_pids k2 = k_pids k" by (simp_all add: k2)
  then show ?thesis using r z a
    by (cases pid) (auto simp: create_kthread_def Let_def k2 res_bind_Inr_iff set_thread_def case_prod_beta)
qed

lemma create_kthread_threads:
  assumes g: "granted e (kthread_size w) (k_mm k) t mm1" and c: "get_sched_class (flags AND 7) = Inr c" "c \<noteq> IdleClass"
    and r: "create_kthread te f w name args flags k = Inr (x, k')" and inv: "kernel_inv e tot k bs"
  shows "kernel_inv e tot k' (insert (t - 8) bs)"
proof -
  have h: "hist_inv e tot (heap mm1) (insert (t - 8) bs)" "t - 8 \<notin> bs"
    using granted_heap [OF g] inv by (auto simp: kernel_inv_def)
  have ok: "threads_ok (k_rq k) bs" using inv by (simp add: kernel_inv_def)
  note fr = fresh_thread [OF ok h(2)]
  have t0: "t \<noteq> 0" using g by (simp add: granted_def)
  define k2 where "k2 = thread_set_name t name (init_thread_struct t (k\<lparr>k_mm := mm1\<rparr>))"
  have ok2: "threads_ok (k_rq k2) bs" "k_mm k2 = mm1" "thread_list (k_rq k2) = thread_list (k_rq k)"
    using threads_ok_set_thread [of "k\<lparr>k_mm := mm1\<rparr>" bs t] ok fr by (simp_all add: k2_def init_thread_struct_def)
  obtain pid pids where a: "alloc_pid (k_pids k) = Inr (pid, pids)"
    using r g by (auto simp: create_kthread_def Let_def res_bind_Inr_iff granted_def kthread_size_def kzmalloc_k_def)
  note run = create_kthread_runs [OF g r k2_def a]
  show ?thesis
  proof (cases pid)
    case None
    then show ?thesis using run h ok2 threads_ok_grow [OF ok2(1)] by (auto simp: kernel_inv_def)
  next
    case (Some n)
    then obtain k4 where s: "start_thread t flags k4 = Inr k'" "heap (k_mm k4) = heap mm1"
      "k_rq k4 = k_rq (set_thread t (\<lambda>th. th\<lparr>t_pid := n\<rparr>) k2)" using run by auto
    have "threads_ok (k_rq k4) bs" "t \<notin> set (thread_list (k_rq k4))"
      using threads_ok_set_thread [OF ok2(1)] fr ok2(3) by (simp_all add: s(3))
    from start_thread_ok2 [OF s(1) c this t0] show ?thesis using h s(2) by (simp add: kernel_inv_def)
  qed
qed

lemma user_thread_core:
  assumes r: "create_user_thread_core te t f w name args flags k = Inr k'" and c: "get_sched_class (flags AND 7) = Inr c" "c \<noteq> IdleClass"
    and ok: "threads_ok (k_rq k) bs" and t: "t \<notin> set (thread_list (k_rq k))" "t \<noteq> 0"
  shows "threads_ok (k_rq k') (insert (t - 8) bs) \<and> heap (k_mm k') = heap (k_mm k)"
proof -
  obtain k2 where k2: "start_thread t flags k2 = Inr k'" "k_rq k2 = k_rq k" "heap (k_mm k2) = heap (k_mm k)"
    using r by (auto simp: create_user_thread_core_def Let_def res_bind_Inr_iff case_prod_beta
        dest!: alloc_pages_heap map_in_pages_heap)
  show ?thesis using start_thread_ok2 [OF k2(1) c, of bs] ok t k2(2,3) by simp
qed

lemma create_thread_threads:
  assumes g: "granted e sizeof_thread (k_mm k) t mm1" and c: "get_sched_class (flags AND 7) = Inr c" "c \<noteq> IdleClass"
    and r: "create_thread te f w name args flags k = Inr (x, k')" and inv: "kernel_inv e tot k bs"
  shows "kernel_inv e tot k' (insert (t - 8) bs)"
proof -
  have h: "hist_inv e tot (heap mm1) (insert (t - 8) bs)" "t - 8 \<notin> bs"
    using granted_heap [OF g] inv by (auto simp: kernel_inv_def)
  have ok: "threads_ok (k_rq k) bs" using inv by (simp add: kernel_inv_def)
  note fr = fresh_thread [OF ok h(2)]
  have t0: "t \<noteq> 0" using g by (simp add: granted_def)
  define k2 where "k2 = init_thread_struct t (k\<lparr>k_mm := mm1\<rparr>)"
  have ok2: "threads_ok (k_rq k2) bs" "k_mm k2 = mm1" "thread_list (k_rq k2) = thread_list (k_rq k)"
    using threads_ok_set_thread [of "k\<lparr>k_mm := mm1\<rparr>" bs t] ok fr by (simp_all add: k2_def init_thread_struct_def)
  have z: "kzmalloc_k sizeof_thread k = Inr (t, k\<lparr>k_mm := mm1\<rparr>)" using g by (simp add: kzmalloc_k_def granted_def)
  obtain k4 where k4: "create_user_thread_core te t f w name args flags k4 = Inr k'"
    "k_rq k4 = k_rq (set_thread t (\<lambda>th. th\<lparr>t_grouped := True\<rparr>) k2)" "k_mm k4 = mm1"
    using r z ok2(2) by (auto simp: create_thread_def Let_def k2_def [symmetric] res_bind_Inr_iff set_thread_def split: if_splits)
  have "threads_ok (k_rq k4) bs" "t \<notin> set (thread_list (k_rq k4))"
    using threads_ok_set_thread [OF ok2(1)] fr ok2(3) by (simp_all add: k4(2))
  from user_thread_core [OF k4(1) c this t0] show ?thesis using h k4(3) by (simp add: kernel_inv_def)
qed

lemma create_process_threads:
  assumes g: "granted e sizeof_thread (k_mm k) t mm1" "granted e sizeof_mmap mm1 ma mm2"
    and c: "get_sched_class (flags AND 7) = Inr c" "c \<noteq> IdleClass"
    and r: "create_process te f w name args flags k = Inr (x, k')" and inv: "kernel_inv e tot k bs"
  shows "kernel_inv e tot k' (insert (ma - 8) (insert (t - 8) bs))"
proof -
  have h: "hist_inv e tot (heap mm1) (insert (t - 8) bs)" "t - 8 \<notin> bs"
    using granted_heap [OF g(1)] inv by (auto simp: kernel_inv_def)
  note h2 = granted_heap [OF g(2) h(1)]
  have ok: "threads_ok (k_rq k) bs" using inv by (simp add: kernel_inv_def)
  note fr = fresh_thread [OF ok h(2)]
  have t0: "t \<noteq> 0" using g by (simp add: granted_def)
  define k2 where "k2 = init_thread_struct t (k\<lparr>k_mm := mm1\<rparr>)"
  have ok2: "threads_ok (k_rq k2) bs" "k_mm k2 = mm1" "thread_list (k_rq k2) = thread_list (k_rq k)"
    using threads_ok_set_thread [of "k\<lparr>k_mm := mm1\<rparr>" bs t] ok fr by (simp_all add: k2_def init_thread_struct_def)
  have z: "kzmalloc_k sizeof_thread k = Inr (t, k\<lparr>k_mm := mm1\<rparr>)" "kzmalloc_k sizeof_mmap k2 = Inr (ma, k2\<lparr>k_mm := mm2\<rparr>)"
    using g ok2(2) by (simp_all add: kzmalloc_k_def granted_def)
  obtain k3 k4 where k3: "process_mm_init t k2 = Inr k3" "create_user_thread_core te t f w name args flags k3 = Inr k4"
    "k' = set_tcb t (\<lambda>b. b\<lparr>tb_process := t, tb_group := []\<rparr>) (set_thread t (\<lambda>th. th\<lparr>t_grouped := True\<rparr>) k4)"
    using r z by (auto simp: create_process_def k2_def [symmetric] res_bind_Inr_iff)
  have e3: "k_rq k3 = k_rq k2" "heap (k_mm k3) = heap mm2"
    using k3(1) z(2) by (auto simp: process_mm_init_def Let_def lv1_pt_alloc_def res_bind_Inr_iff dest!: alloc_pages_heap)
  have t4: "threads_ok (k_rq k4) (insert (t - 8) bs)" "heap (k_mm k4) = heap mm2"
    using user_thread_core [OF k3(2) c, of bs] ok2 fr t0 e3 by simp_all
  have "threads_ok (k_rq k') (insert (t - 8) bs)"
    using threads_ok_threads [OF t4(1), of "(threads (k_rq k4))(t := (threads (k_rq k4) t)\<lparr>t_grouped := True\<rparr>)"]
    by (simp add: k3(3) set_thread_def)
  then have "threads_ok (k_rq k') (insert (ma - 8) (insert (t - 8) bs))" by (rule threads_ok_grow) auto
  then show ?thesis using h2 t4(2) by (simp add: kernel_inv_def k3(3))
qed

subsection \<open>The scheduler keeps its threads\<close>

lemma pass_threads:
  assumes "threads_ok rq bs" and "run_inv rq'" and "set (all_queued rq') = set (all_queued rq)"
    and "idle_thread rq' = idle_thread rq" and "thread_list rq' = thread_list rq"
  shows "threads_ok rq' bs"
  using assms by (simp add: threads_ok_def)

lemma context_switch_fields [simp]:
  "all_queued (context_switch rq) = all_queued rq" "idle_thread (context_switch rq) = idle_thread rq"
  "thread_list (context_switch rq) = thread_list rq"
  by (simp_all add: context_switch_def all_queued_def)

lemma core_sched_lists:
  assumes "sched_inv rq" and "core_sched r us rq = Inr rq'"
  shows "set (all_queued rq') = set (all_queued rq) \<and> idle_thread rq' = idle_thread rq \<and> thread_list rq' = thread_list rq"
proof -
  have "rq_curr rq \<noteq> 0" using assms(2) by (auto simp: core_sched_def account_runtime_def Let_def split: if_splits)
  then show ?thesis using core_sched_spec [OF assms(1), of r us] assms(2) by (auto simp: all_queued_def)
qed

lemma tick_threads:
  assumes "threads_ok rq bs" and "cpu_tick_handler rq = Inr rq'"
  shows "threads_ok (context_switch rq') bs"
proof -
  have i: "run_inv rq" "sched_inv rq" using assms(1) by (simp_all add: threads_ok_def run_inv_def)
  have "run_inv (context_switch rq')" using sched_step_inv [OF sched_step.tick [OF assms(2)] i(1)] .
  then show ?thesis using core_sched_lists [OF i(2)] assms by (intro pass_threads [OF assms(1)]) (auto simp: cpu_tick_handler_def)
qed

lemma sleep_threads:
  assumes "threads_ok rq bs" and "time_tick rq + ucast (ms * 1000) \<noteq> 0" and "sched_thread_sleep ms us rq = Inr rq'"
  shows "threads_ok (context_switch rq') bs"
proof -
  have i: "run_inv rq" "sched_inv rq" "rq_curr rq \<notin> set (sleep_list rq)" using assms(1) by (simp_all add: threads_ok_def run_inv_def)
  obtain rq0 where r: "core_sched True us rq0 = Inr rq'" "sched_inv rq0" "set (all_queued rq0) = set (all_queued rq)"
    "idle_thread rq0 = idle_thread rq" "thread_list rq0 = thread_list rq" using thread_sleep_spec [OF i(2,3) assms(2,3)] by blast
  have "run_inv (context_switch rq')" using sched_step_inv [OF sched_step.sleep [OF assms(2,3)] i(1)] .
  then show ?thesis using core_sched_lists [OF r(2,1)] r by (intro pass_threads [OF assms(1)]) simp_all
qed

lemma start_threads:
  assumes "threads_ok rq bs" and "sched_start b us rq = Inr rq'"
  shows "threads_ok rq' bs" and "rq_curr rq' \<noteq> 0"
proof -
  define rq2 where "rq2 = rq\<lparr>time_tick := time_tick rq + ucast (if b then us else SCHED_SLICE)\<rparr>"
  have i: "sched_inv rq" "rq_next rq = 0" using assms(1) by (simp_all add: threads_ok_def run_inv_def)
  have i2: "sched_inv rq2" "all_queued rq2 = all_queued rq" "idle_thread rq2 = idle_thread rq" "thread_list rq2 = thread_list rq"
    using i by (simp_all add: rq2_def inv_defs)
  obtain rq3 new rq4 where r: "(if time_tick rq2 > time_wake rq2 \<and> time_wake rq2 \<noteq> 0 then enqueue_sleeping_threads rq2 else Inr rq2) = Inr rq3"
    "core_pick_next rq3 = Inr (new, rq4)"
    "(let rq5 = if new \<noteq> rq_curr rq4 then rq4\<lparr>rq_next := new\<rparr> else rq4 in
       if rq_next rq5 = 0 then Inl (Panic ''Next thread is wrong'') else Inr (rq5\<lparr>rq_curr := rq_next rq5, rq_next := 0\<rparr>)) = Inr rq'"
    using assms(2) unfolding sched_start_def first_pass_def rq2_def [symmetric] Let_def
    by (auto simp only: res_bind_Inr_iff split_paired_Ex prod.case)
  have i3: "sched_inv rq3 \<and> set (all_queued rq3) = set (all_queued rq) \<and> idle_thread rq3 = idle_thread rq \<and>
      thread_list rq3 = thread_list rq \<and> rq_next rq3 = 0"
  proof (cases "time_tick rq2 > time_wake rq2 \<and> time_wake rq2 \<noteq> 0")
    case True
    then show ?thesis using wake_spec [OF i2(1)] r(1) i2 i(2) by (auto simp: rq2_def)
  next
    case False
    then have "rq3 = rq2" using r(1) by (simp only: if_False sum.inject)
    then show ?thesis using i2 i(2) by (simp add: rq2_def)
  qed
  obtain c where p: "picked rq3 new c rq4" using core_pick_spec [of rq3] i3 r(2) by auto
  have i4: "sched_inv rq4" "set (all_queued rq4) = set (all_queued rq)" "idle_thread rq4 = idle_thread rq"
    "thread_list rq4 = thread_list rq" "rq_next rq4 = 0"
    using picked_inv [OF _ p] p i3 by (simp_all add: picked_def same_clock_def)
  have aw: "new \<notin> set (sleep_list rq4)" "new \<noteq> 0" using picked_awake [OF _ p] i3 by simp_all
  have e: "rq' = rq4\<lparr>rq_curr := new, rq_next := 0\<rparr>" "new \<noteq> rq_curr rq4"
    using r(3) i4(5) aw by (auto simp: Let_def split: if_splits)
  have "run_inv rq'" using i4(1) aw by (simp add: e run_inv_def inv_defs)
  then show "threads_ok rq' bs" using i4 by (intro pass_threads [OF assms(1)]) (simp_all add: e all_queued_def)
  show "rq_curr rq' \<noteq> 0" using aw by (simp add: e)
qed

lemma kill_threads:
  assumes "kill_thread t k = Inr k'" and "kernel_inv e tot k bs"
  shows "kernel_inv e tot k' (bs - {t - 8})"
proof -
  obtain rq' mm' where r: "sched_kill_thread t (k_rq k) = Inr rq'" "kfree t (k_mm k) = Inr mm'" "k' = k\<lparr>k_rq := rq', k_mm := mm'\<rparr>"
    using assms(1) by (auto simp: kill_thread_def res_bind_Inr_iff)
  have ok: "threads_ok (k_rq k) bs" "hist_inv e tot (heap (k_mm k)) bs" using assms(2) by (simp_all add: kernel_inv_def)
  have i: "run_inv (k_rq k)" "sched_inv (k_rq k)" using ok by (simp_all add: threads_ok_def run_inv_def)
  note s = kill_spec [OF i(2) r(1)]
  have "run_inv rq'" using sched_step_inv [OF sched_step.kill [OF r(1)] i(1)] .
  moreover have "t \<noteq> idle_thread (k_rq k)" using ready_not_idle [OF i(2) s(7)] by simp
  ultimately have "threads_ok rq' (bs - {t - 8})" using ok(1) s(2,7-9) by (auto simp: threads_ok_def)
  moreover have "t - 8 \<in> bs" using ok(1) s(7) by (auto simp: threads_ok_def)
  ultimately show ?thesis using kfree_heap [OF r(2) ok(2)] by (simp add: kernel_inv_def r(3))
qed

lemma kernel_step_inv:
  assumes "kernel_step e (k, bs) (k', cs)" and inv: "kernel_inv e tot k bs"
  shows "kernel_inv e tot k' cs"
  using assms(1)
proof (cases rule: kernel_step.cases)
  case (kthread w t mm1 flags c te f name args r)
  then show ?thesis using create_kthread_threads [OF _ _ _ _ inv] by blast
next
  case (process t mm1 ma mm2 flags c te f w name args r)
  then show ?thesis using create_process_threads [OF _ _ _ _ _ inv] by blast
next
  case (uthread t mm1 flags c te f w name args r)
  then show ?thesis using create_thread_threads [OF _ _ _ _ inv] by blast
next
  case (start b us rq')
  then show ?thesis using start_threads(1) [OF _ start(4)] inv by (simp add: kernel_inv_def)
next
  case (tick rq')
  then show ?thesis using tick_threads [OF _ tick(3)] inv by (simp add: kernel_inv_def)
next
  case (sleep ms us rq')
  then show ?thesis using sleep_threads [OF _ sleep(3,4)] inv by (simp add: kernel_inv_def)
next
  case (brk bytes r)
  have "k_rq k' = k_rq k" "heap (k_mm k') = heap (k_mm k)"
    using brk(2) by (auto simp: sys_set_break_def Let_def res_bind_Inr_iff dest!: set_break_heap split: if_splits)
  then show ?thesis using inv brk(1) by (simp add: kernel_inv_def)
next
  case (kill t)
  then show ?thesis using kill_threads inv by blast
next
  case (alloc sz p mm1)
  then show ?thesis using granted_heap [OF alloc(3)] inv threads_ok_grow [of "k_rq k" bs "insert (p - 8) bs"]
    by (auto simp: kernel_inv_def)
next
  case (release b mm1)
  have "hist_inv e tot (heap mm1) (bs - {b + 8 - 8})"
    using kfree_heap [OF release(5)] inv release(3) by (simp add: kernel_inv_def)
  moreover have "t - 8 \<noteq> b" if "t \<in> set (thread_list (k_rq k))" for t using release(4) that by auto
  ultimately show ?thesis using inv release(1,2) by (auto simp: kernel_inv_def threads_ok_def)
qed

lemma kernel_steps_inv: "(kernel_step e)\<^sup>*\<^sup>* x y \<Longrightarrow> kernel_inv e tot (fst x) (snd x) \<Longrightarrow> kernel_inv e tot (fst y) (snd y)"
  by (induction rule: rtranclp_induct) (auto dest: kernel_step_inv)

subsection \<open>The start\<close>

lemma create_idle:
  assumes g: "granted e (kthread_size 500) (k_mm k) t mm1" and k: "k_rq k = sched_init_rq rq" "k_pids k = pid_init"
    and r: "create_kthread te f 500 name 0 3 k = Inr (x, k')"
  shows "threads_ok (k_rq k') {t - 8} \<and> heap (k_mm k') = heap mm1 \<and> thread_list (k_rq k') = [t] \<and>
    idle_thread (k_rq k') = t \<and> all_queued (k_rq k') = [] \<and> rq_curr (k_rq k') = 0 \<and> x = t"
proof -
  have t0: "t \<noteq> 0" using g by (simp add: granted_def)
  have p: "alloc_pid (k_pids k) = Inr (Some 0, pids_taken (Suc 0))"
    using alloc_pids_taken [of 0] by (simp add: k pids_taken_0 [symmetric])
  have c: "get_sched_class (3 AND 7) = Inr IdleClass" by (simp add: get_sched_class_def)
  define k2 where "k2 = thread_set_name t name (init_thread_struct t (k\<lparr>k_mm := mm1\<rparr>))"
  obtain k4 where s: "start_thread t 3 k4 = Inr k'" "heap (k_mm k4) = heap mm1"
    "k_rq k4 = k_rq (set_thread t (\<lambda>th. th\<lparr>t_pid := 0\<rparr>) k2)" "x = t"
    using create_kthread_runs [OF g r k2_def p] by auto
  have "k_rq k4 = (sched_init_rq rq)\<lparr>threads := threads (k_rq k4)\<rparr>"
    using k by (simp add: s(3) k2_def set_thread_def init_thread_struct_def)
  then obtain ths where q4: "k_rq k4 = (sched_init_rq rq)\<lparr>threads := ths\<rparr>" by blast
  have "k_mm k' = k_mm k4 \<and> (\<exists>ths'. k_rq k' = idle_enqueue t ((sched_init_rq rq)\<lparr>thread_list := [t], threads := ths'\<rparr>))"
    using s(1) c by (auto simp: start_thread_def thread_set_sched_class_def set_thread_def sched_enqueue_thread_def q4
        sched_add_thread_def set_state_def sched_init_rq_def rt_init_def fair_init_def back_init_def idle_init_def)
  then show ?thesis using s(2,4) t0
    by (auto simp: idle_enqueue_def sched_init_rq_def rt_init_def fair_init_def back_init_def idle_init_def threads_ok_def
        run_inv_def inv_defs)
qed

lemma sched_init_inv:
  assumes h: "hist_inv e tot (heap (k_mm k0)) bs" and g: "granted e (kthread_size 500) (k_mm k0) t mm1"
    and r: "sched_init te f name k0 = Inr k1"
  shows "kernel_inv e tot k1 (insert (t - 8) bs) \<and> rq_curr (k_rq k1) = 0 \<and> thread_list (k_rq k1) = [t]"
proof -
  define k where "k = sched_early_init k0"
  obtain x where x: "create_kthread te f 500 name 0 3 k = Inr (x, k1)"
    using r by (auto simp: sched_init_def add_idle_def k_def res_bind_Inr_iff)
  have k: "k_mm k = k_mm k0" "k_rq k = sched_init_rq (k_rq k0)" "k_pids k = pid_init" by (simp_all add: k_def sched_early_init_def)
  note i = create_idle [OF _ k(2,3) x, unfolded k(1), OF g]
  have "threads_ok (k_rq k1) (insert (t - 8) bs)" using i threads_ok_grow [of "k_rq k1" "{t - 8}"] by auto
  then show ?thesis using i granted_heap(1) [OF g h] by (simp add: kernel_inv_def)
qed

subsection \<open>Properties\<close>


text \<open>The demonstration heap grants the block of the idle thread, 2240 bytes and the node.\<close>

lemma demo_granted: "\<exists>t0 mm1. granted 0x80003EC0 (kthread_size 500) (k_mm demo_kernel) t0 mm1"
proof -
  let ?b = "start_addr demo_heap"
  have sz: "kthread_size 500 = 2240" "alloc_size 2240 = 2248"
    by (simp_all add: kthread_size_def align_up_def sizeof_thread_def alloc_size_def sizeof_node_def SLOB_ALIGN_def)
  have fit: "alloc_size 2240 \<le> nsize (nodes demo_heap ?b)"
    using demo_init(5) by (simp add: sz word_le_nat_alt)
  have "unat (nsize (nodes demo_heap ?b) - 2248) = 0x2EC0 - 2248"
    using demo_init(5) by (subst unat_sub_u32) simp_all
  then have "SLOB_MIN_BLOCK \<le> nsize (nodes demo_heap ?b) - alloc_size 2240"
    by (simp add: sz SLOB_MIN_BLOCK_def word_le_nat_alt)
  then obtain s' where s': "slob_alloc 2240 demo_heap = Some (?b + 8, s')" "nsize (nodes s' ?b) = 2248"
      "last_node s' = last_node demo_heap"
    using slob_alloc_spec [OF demo_init(2) _ _ _ fit, of "[]" "[]"] by (auto simp: sz)
  have "before_end 0x80003EC0 s' ?b"
    using s'(2,3) demo_init(3,4) by (simp add: before_end_def block_end_def)
  moreover have "unat (?b + 8) = 0x80001008" using demo_init(3) by (subst unat_add_u32) simp_all
  then have "?b + 8 \<noteq> 0" by auto
  ultimately show ?thesis using s'(1)
    by (intro exI [of _ "?b + 8"]) (simp add: granted_def sz kzmalloc_def kmalloc_def or_hang_def demo_kernel_def)
qed


end
