(* ===== verification/Startup.thy ===== *)
theory Startup
  imports Kernel Tftp Dhcp Drivers Gmac Print Disk
begin

text \<open>
  The start of the system, \<^verbatim>\<open>entry/main.c\<close>, with the parts of \<^verbatim>\<open>entry/print.c\<close> and
  \<^verbatim>\<open>entry/dma_receive.c\<close> that set up the serial ports, and the threads it starts. The addresses the linker
  gives to routines and texts are a record of arguments. What only acts on the processor (caches, the enabling
  of interrupts and of the coprocessors) has no effect in the model.
\<close>

subsection \<open>The serial ports\<close>

definition uart4 :: "string \<Rightarrow> u32" where
  "uart4 n = reg_addr UART4_base uart_reg n"

definition print_init :: "'d device \<Rightarrow> (unit, 'd) io" where
  "print_init D =
     io_all [gpio_set_func D \<lparr>gp_hw = GPIOB_base, gp_pin = 3\<rparr> GPIO_FUNC_A,
       gpio_set_func D \<lparr>gp_hw = GPIOB_base, gp_pin = 4\<rparr> GPIO_FUNC_A,
       clk_pck_enable D 28,
       reg_write D (uart4 ''MR'') (push_bit 9 4), reg_write D (uart4 ''BRGR'') 23, reg_write D (uart4 ''CR'') (push_bit 6 1)]"

definition flex4 :: "string \<Rightarrow> u32" where
  "flex4 n = reg_addr FLEX4_base flexcom_reg n"

definition flex_print_init :: "'d device \<Rightarrow> (unit, 'd) io" where
  "flex_print_init D =
     io_all [reg_write D (flex4 ''U_CR'') (push_bit 3 1 OR push_bit 2 1 OR push_bit 8 1),
       reg_write D (flex4 ''FLEX_MR'') 1,
       reg_write D (flex4 ''U_MR'') (push_bit 6 3 OR push_bit 9 4 OR push_bit 20 3),
       reg_write D (flex4 ''U_BRGR'') (5 OR push_bit 16 5),
       reg_write D (flex4 ''U_RTOR'') 0, reg_write D (flex4 ''U_TTGR'') 0,
       reg_write D (flex4 ''U_CR'') (push_bit 4 1 OR push_bit 6 1),
       reg_write D (flex4 ''U_RTOR'') 80, reg_write D (flex4 ''U_CR'') (push_bit 11 1), reg_write D (flex4 ''U_IER'') (push_bit 8 1)]"

text \<open>The request that receives a packet; \<open>buf\<close> is the address of \<^verbatim>\<open>dma_buffer\<close>.\<close>

definition receive_request :: "u32 \<Rightarrow> dma_req" where
  "receive_request buf =
     \<lparr>src_addr = flex4 ''U_RHR'', dest_addr = va_to_pa buf,
      req_cfg = \<lparr>perid = 20, cfg_type = DMA_TYPE_PER_MEM, cfg_burst = DMA_BURST_16, cfg_chunk = DMA_CHUNK_1,
        cfg_data = DMA_DATA_U8, cfg_trigger = DMA_TRIGGER_HW, cfg_dest_am = DMA_AM_INC, cfg_src_am = DMA_AM_FIXED,
        cfg_non_secure = 0, cfg_memset = 0, cfg_src_interface = 1, cfg_dest_interface = 0\<rparr>,
      ublock_len = 4096 + 32 * 10, ublock_cnt = 1, transfer_done = 0\<rparr>"

definition dma_receive_init :: "'d device \<Rightarrow> u32 \<Rightarrow> u32 \<Rightarrow> dma_sys \<Rightarrow> 'd \<Rightarrow> (nat \<times> dma_sys \<times> 'd) res" where
  "dma_receive_init D handler buf s d =
     (case alloc_dma_channel s of
        (None, _) \<Rightarrow> Inl (Panic ''Not enough channels'')
      | (Some ch, s1) \<Rightarrow>
          res_bind (io_all [flex_print_init D, apic_add_handler D 23 handler, apic_enable D 23] d) (\<lambda>(_, d1).
          res_bind (dma_submit_request (receive_request buf) ch s1) (\<lambda>s2. Inr (ch, s2, d1))))"

definition send_response :: "'d device \<Rightarrow> u32 \<Rightarrow> (unit, 'd) io" where
  "send_response D resp = io_all [io_wait D (flex4 ''U_SR'') (bit_set 1), reg_write D (flex4 ''U_THR'') resp]"

definition PACKET_ERROR :: u32 where "PACKET_ERROR = 0"
definition PACKET_OK :: u32 where "PACKET_OK = 1"

text \<open>The clocks and interrupts of the DMA; the channels are \<open>dma_init\<close> of theory \<open>Dma\<close>.\<close>

definition dma_init_lines :: "'d device \<Rightarrow> u32 \<Rightarrow> u32 \<Rightarrow> (unit, 'd) io" where
  "dma_init_lines D handler0 handler1 =
     io_all [clk_pck_enable D 6, clk_pck_enable D 7, apic_add_handler D 6 handler0, apic_add_handler D 7 handler1,
       apic_enable D 6, apic_enable D 7]"

text \<open>\<^verbatim>\<open>print_dma_test\<close>: a fixed text on a channel of its own, which is never freed.\<close>

definition print_dma_test :: "u32 \<Rightarrow> u32 \<Rightarrow> u32 \<Rightarrow> dma_sys \<Rightarrow> dma_sys res" where
  "print_dma_test thr callback test s =
     (case alloc_dma_channel s of
        (None, _) \<Rightarrow> Inl (Panic ''Cant allocate DMA channel'')
      | (Some ch, s1) \<Rightarrow> dma_submit_request (print_request thr callback test 22) ch s1)"

subsection \<open>The kernel\<close>

record symbols =
  sy_dummy_handler :: u32
  sy_kernel_e :: u32
  sy_kernel_pt :: u32
  sy_slob_node :: u32
  sy_thread_exit :: u32
  sy_idle_func :: u32
  sy_arp_thread :: u32
  sy_tx :: u32
  sy_udp_test :: u32
  sy_tftp_test :: u32
  sy_dhcp_thread :: u32
  sy_tick_handler :: u32
  sy_uart4_interrupt :: u32
  sy_dma0_interrupt :: u32
  sy_dma1_interrupt :: u32
  sy_dma_buffer :: u32
  sy_text :: "string \<Rightarrow> u32"

definition early_init :: "'d device \<Rightarrow> symbols \<Rightarrow> (unit, 'd) io" where
  "early_init D sy = apic_init D (sy_dummy_handler sy)"

definition kernel_init :: "symbols \<Rightarrow> kernel \<Rightarrow> (kernel \<times> sys_disk) res" where
  "kernel_init sy k =
     res_bind (mm_init (sy_kernel_e sy) (sy_kernel_pt sy) (sy_slob_node sy) (k_mm k)) (\<lambda>mm.
     res_bind (sched_init (sy_thread_exit sy) (sy_idle_func sy) (sy_text sy ''idle'') (k\<lparr>k_mm := mm\<rparr>)) (\<lambda>k'.
       Inr (k', disk_init)))"

text \<open>The tick of the scheduler, the end of \<^verbatim>\<open>sched_init\<close>.\<close>

definition tick_init :: "'d device \<Rightarrow> symbols \<Rightarrow> (unit, 'd) io" where
  "tick_init D sy = io_all [apic_add_handler D 36 (sy_tick_handler sy), apic_enable D 36, cpu_timer_init D]"

definition driver_init :: "'d device \<Rightarrow> symbols \<Rightarrow> dma_sys \<Rightarrow> print_st \<Rightarrow> 'd \<Rightarrow> (nat \<times> dma_sys \<times> print_st \<times> 'd) res" where
  "driver_init D sy s p d =
     res_bind (io_all [print_init D, dma_init_lines D (sy_dma0_interrupt sy) (sy_dma1_interrupt sy)] d) (\<lambda>(_, d1).
     res_bind (dma_receive_init D (sy_uart4_interrupt sy) (sy_dma_buffer sy) (dma_init s) d1) (\<lambda>(ch, s1, d2).
     res_bind (print_dma_init s1 p) (\<lambda>(_, s2, p1). Inr (ch, s2, p1, d2))))"

text \<open>A thread of the class \<^verbatim>\<open>SCHED_RT\<close> with a stack of 5000 words and no argument.\<close>

definition rt_thread :: "symbols \<Rightarrow> u32 \<Rightarrow> string \<Rightarrow> kernel \<Rightarrow> kernel res" where
  "rt_thread sy func name k =
     res_bind (create_kthread (sy_thread_exit sy) func 5000 (sy_text sy name) 0 0 k) (\<lambda>(_, k'). Inr k')"

definition arp_init :: "symbols \<Rightarrow> kernel \<Rightarrow> net \<Rightarrow> (kernel \<times> net) res" where
  "arp_init sy k s = res_bind (rt_thread sy (sy_arp_thread sy) ''arp thread'' k) (\<lambda>k'. Inr (k', s\<lparr>nt_arp_list := []\<rparr>))"

definition mac_init :: "net \<Rightarrow> net" where
  "mac_init s = s\<lparr>nt_arp_queue := []\<rparr>"

definition udp_init :: "net \<Rightarrow> net" where
  "udp_init s = s\<lparr>nt_ports := []\<rparr>"

definition dhcp_init :: "symbols \<Rightarrow> kernel \<Rightarrow> kernel res" where
  "dhcp_init sy k = rt_thread sy (sy_dhcp_thread sy) ''dhcp'' k"

text \<open>
  \<^verbatim>\<open>main\<close> after the drivers: the network, the threads and the first pass of the scheduler. \<open>bufs\<close> are the
  network buffers the heap delivered.
\<close>

definition start_network :: "symbols \<Rightarrow> nat list \<Rightarrow> kernel \<Rightarrow> net \<Rightarrow> (kernel \<times> net) res" where
  "start_network sy bufs k s =
     res_bind (netbuf_init bufs s) (\<lambda>s1.
     res_bind (gmac_init_queues s1) (\<lambda>s2.
     res_bind (arp_init sy k (mac_init s2)) (\<lambda>(k1, s3). Inr (k1, udp_init s3))))"

definition main_threads :: "symbols \<Rightarrow> kernel \<Rightarrow> kernel res" where
  "main_threads sy k =
     res_bind (rt_thread sy (sy_tx sy) ''net tx'' k) (\<lambda>k1.
     res_bind (rt_thread sy (sy_udp_test sy) ''udp'' k1) (\<lambda>k2.
     res_bind (rt_thread sy (sy_tftp_test sy) ''tftp'' k2) (\<lambda>k3. dhcp_init sy k3)))"

definition main :: "symbols \<Rightarrow> nat list \<Rightarrow> bool \<Rightarrow> u32 \<Rightarrow> kernel \<Rightarrow> net \<Rightarrow> (kernel \<times> net \<times> sys_disk) res" where
  "main sy bufs reschedule timer_us k s =
     res_bind (kernel_init sy k) (\<lambda>(k1, disks).
     res_bind (start_network sy bufs k1 s) (\<lambda>(k2, s1).
     res_bind (main_threads sy k2) (\<lambda>k3.
     res_bind (sched_start reschedule timer_us (k_rq k3)) (\<lambda>rq'. Inr (k3\<lparr>k_rq := rq'\<rparr>, s1, disks)))))"

subsection \<open>The threads\<close>

text \<open>
  The text of a packet as \<^verbatim>\<open>%*s\<close> reads it: up to a zero byte, at most as many bytes as the width, which is the length
  of the datagram. The width zero counts as none.
\<close>

definition packet_text :: "nat \<Rightarrow> net \<Rightarrow> u8 list res" where
  "packet_text b s =
     (let width = unat (frame_len b s); bs = drop (nb_ptr (nt_bufs s b)) (nb_buf (nt_bufs s b));
          shown = (if width = 0 then bs else take width bs) in
      if 0 \<in> set shown then Inr (takeWhile (\<lambda>c. c \<noteq> 0) shown)
      else if width \<noteq> 0 \<and> width \<le> length bs then Inr shown else Inl OutOfBounds)"

text \<open>A turn of the loop of \<^verbatim>\<open>udp_test\<close>: the call of \<^verbatim>\<open>print\<close>, if a datagram is there. Its buffer is not freed.\<close>

definition udp_test_turn :: "net \<Rightarrow> ((u8 list \<times> arg list) option \<times> net) res" where
  "udp_test_turn s =
     res_bind (udp_rec 50 s) (\<lambda>(r, s1).
       case r of
         None \<Rightarrow> Inr (None, s1)
       | Some b \<Rightarrow>
           res_bind (packet_text b s1) (\<lambda>text.
             Inr (Some (str_bytes ''UDP with length %d - %*s'' @ [10],
                        [Num (frame_len b s1), Num (frame_len b s1), Str (Some text)]), s1)))"

text \<open>The loop, with what the controller does between two turns; the result is what is printed.\<close>

fun udp_test :: "(net \<Rightarrow> net) list \<Rightarrow> net \<Rightarrow> ((u8 list \<times> arg list) list \<times> net) res" where
  "udp_test [] s = Inr ([], s)"
| "udp_test (env # envs) s =
     res_bind (udp_test_turn (env s)) (\<lambda>(r, s1).
     res_bind (udp_test envs s1) (\<lambda>(rest, s2). Inr ((case r of None \<Rightarrow> [] | Some p \<Rightarrow> [p]) @ rest, s2)))"

definition tx_turn :: "net \<Rightarrow> net res" where
  "tx_turn s =
     (case alloc_netbuf s of
        (None, _) \<Rightarrow> Inl (Panic ''Cant alloc netbufg'')
      | (Some b, s1) \<Rightarrow>
          (case str_to_ipv4 (str_bytes ''192.168.5.177'') 0 of
             (err, ip) \<Rightarrow>
               if err \<noteq> 0 then Inl (Panic ''Wrong IP'')
               else res_bind (nb_store b 0 (str_bytes ''this is called a UDP packet'') s1) (\<lambda>s2.
                      udp_send b ip 80 False (set_frame_len b 27 s2))))"

text \<open>The bytes printed by \<^verbatim>\<open>tftp_test\<close>. Bytes of the file the server did not send are not initialised.\<close>

definition tftp_test :: "(net \<Rightarrow> net) \<Rightarrow> tftp \<Rightarrow> net \<Rightarrow> (u8 list \<times> net) res" where
  "tftp_test env t0 s =
     res_bind (tftp_create (str_bytes ''192.168.5.177'') t0 s) (\<lambda>(_, t, s1).
     res_bind (tftp_download env t (str_bytes ''doc/arm_basics.md'') s1) (\<lambda>(err, filesize, file', _, s2).
       if err \<noteq> 0 then Inl (Panic ''Error'')
       else if length file' < unat filesize then Inl OutOfBounds
       else Inr (filter (\<lambda>c. c \<noteq> 13) (take (unat filesize) file'), s2)))"

end
