(* ===== verification/Boot.thy ===== *)
theory Boot
  imports Startup
begin

text \<open>
  What follows from the way \<^verbatim>\<open>main\<close> starts its threads: the thread of \<^verbatim>\<open>net/arp.c\<close> is an endless loop of
  the highest class, so no thread of another class ever runs, and the loop of \<^verbatim>\<open>udp_test\<close> keeps every
  buffer it is given, so it ends after as many datagrams as the pool has buffers.
\<close>

subsection \<open>A thread that never sleeps\<close>

text \<open>
  The events of the scheduler while the thread \<open>u\<close> neither sleeps nor is killed: its start, ticks, sleeps of
  others, the set-up of the control block of a new thread, its start, and kills.
\<close>

inductive spin_step :: "tid \<Rightarrow> rq \<Rightarrow> rq \<Rightarrow> bool" for u where
  start: "rq_curr rq = 0 \<Longrightarrow> sched_start b us rq = Inr rq' \<Longrightarrow> spin_step u rq rq'"
| tick: "cpu_tick_handler rq = Inr rq' \<Longrightarrow> spin_step u rq (context_switch rq')"
| sleep: "rq_curr rq \<noteq> u \<Longrightarrow> time_tick rq + ucast (ms * 1000) \<noteq> 0 \<Longrightarrow> sched_thread_sleep ms us rq = Inr rq' \<Longrightarrow>
    spin_step u rq (context_switch rq')"
| create: "unqueued rq t \<Longrightarrow> t \<noteq> rq_curr rq \<Longrightarrow>
    spin_step u rq (rq\<lparr>threads := (threads rq)(t := th), thread_list := t # thread_list rq\<rparr>)"
| spawn: "unqueued rq t \<Longrightarrow> class_of rq t = Some c \<Longrightarrow> c \<noteq> IdleClass \<Longrightarrow>
    sched_enqueue_thread t rq = Inr rq' \<Longrightarrow> spin_step u rq rq'"
| kill: "t \<noteq> u \<Longrightarrow> sched_kill_thread t rq = Inr rq' \<Longrightarrow> spin_step u rq rq'"

definition spin_inv :: "tid \<Rightarrow> rq \<Rightarrow> bool" where
  "spin_inv u rq \<longleftrightarrow> run_inv rq \<and> u \<in> set (rt_queue rq) \<and>
     (rq_curr rq \<noteq> 0 \<longrightarrow> class_of rq (rq_curr rq) = Some RtClass)"

text \<open>Picking while a thread is ready in the highest class.\<close>

lemma rt_picked:
  assumes inv: "sched_inv rq" "sched_inv rq1" "sched_inv rq2" and p: "picked rq1 t c rq2" and u: "u \<in> set (rt_queue rq)"
    and q: "set (all_queued rq2) = set (all_queued rq)" "set (sleep_list rq2) \<subseteq> set (sleep_list rq)" "class_of rq2 u = class_of rq u"
  shows "u \<in> set (rt_queue rq2)" and "t \<noteq> 0" and "class_of rq2 t = Some RtClass"
proof -
  have "u \<in> set (all_queued rq2)" "u \<notin> set (sleep_list rq2)" "class_of rq2 u = Some RtClass"
    using u q inv(1) by (auto simp: inv_defs)
  then show u2: "u \<in> set (rt_queue rq2)" using inv(3) by (auto simp: inv_defs)
  then have q1: "ready RtClass rq1 \<noteq> []" using picked_fields(1) [OF p] by auto
  have c: "c = RtClass"
  proof (rule ccontr)
    assume "c \<noteq> RtClass"
    then have "RtClass < c" by (cases c) (simp_all add: less_sched_class_def)
    then show False using p q1 by (auto simp: picked_def)
  qed
  then have "t \<in> set (rt_queue rq1)" using p by (simp add: picked_def)
  then have "t \<in> set (rt_queue rq2)" using picked_fields(1) [OF p] by simp
  then show "class_of rq2 t = Some RtClass" using inv(3) by (auto simp: inv_defs)
  show "t \<noteq> 0" using picked_awake [OF inv(2) p] by simp
qed

lemma rt_pass:
  assumes inv: "sched_inv rq" and u: "u \<in> set (rt_queue rq)" and r: "core_sched b us rq = Inr rq'" and n: "rq_next rq = 0"
  shows "spin_inv u (context_switch rq')"
proof -
  have cur: "rq_curr rq \<noteq> 0" using r by (auto simp: core_sched_def account_runtime_def Let_def split: if_splits)
  obtain rq1 t c rq2 where e: "rq' = rq2\<lparr>rq_next := (if t \<noteq> rq_curr rq then t else rq_next rq)\<rparr>"
    "sched_inv rq1" "picked rq1 t c rq2" "sched_inv rq2" "rq_curr rq2 = rq_curr rq"
    "set (all_queued rq2) = set (all_queued rq)" "set (sleep_list rq2) \<subseteq> set (sleep_list rq)"
    "class_of rq2 u = class_of rq u"
    using core_sched_spec [OF inv cur, of b us] r by auto
  note pk = rt_picked [OF inv e(2,4,3) u e(6-8)]
  have f: "rq_curr (context_switch rq') = t" "rt_queue (context_switch rq') = rt_queue rq2"
    "threads (context_switch rq') = threads rq2" using e(1,5) n pk(2) by (auto simp: context_switch_def)
  have "run_inv (context_switch rq')" using core_sched_run_inv [OF inv cur n r] .
  then show ?thesis using f pk by (simp add: spin_inv_def)
qed

lemma rt_start:
  assumes inv: "run_inv rq" and u: "u \<in> set (rt_queue rq)" and r: "sched_start b us rq = Inr rq'"
  shows "spin_inv u rq'"
proof -
  define rq2 where "rq2 = rq\<lparr>time_tick := time_tick rq + ucast (if b then us else SCHED_SLICE)\<rparr>"
  have i: "sched_inv rq" "rq_next rq = 0" using inv by (simp_all add: run_inv_def)
  have i2: "sched_inv rq2" using i by (simp add: rq2_def inv_defs)
  obtain rq3 new rq4 where e: "(if time_tick rq2 > time_wake rq2 \<and> time_wake rq2 \<noteq> 0 then enqueue_sleeping_threads rq2 else Inr rq2) = Inr rq3"
    "core_pick_next rq3 = Inr (new, rq4)"
    "(let rq5 = if new \<noteq> rq_curr rq4 then rq4\<lparr>rq_next := new\<rparr> else rq4 in
       if rq_next rq5 = 0 then Inl (Panic ''Next thread is wrong'') else Inr (rq5\<lparr>rq_curr := rq_next rq5, rq_next := 0\<rparr>)) = Inr rq'"
    using r unfolding sched_start_def first_pass_def rq2_def [symmetric] Let_def
    by (auto simp only: res_bind_Inr_iff split_paired_Ex prod.case)
  have i3: "sched_inv rq3 \<and> set (all_queued rq3) = set (all_queued rq) \<and> set (sleep_list rq3) \<subseteq> set (sleep_list rq) \<and>
      threads rq3 = threads rq \<and> rq_next rq3 = 0"
  proof (cases "time_tick rq2 > time_wake rq2 \<and> time_wake rq2 \<noteq> 0")
    case True
    then show ?thesis using wake_spec [OF i2] e(1) i(2) by (auto simp: rq2_def all_queued_def)
  next
    case False
    then have "rq3 = rq2" using e(1) by (simp only: if_False sum.inject)
    then show ?thesis using i2 i(2) by (simp add: rq2_def all_queued_def)
  qed
  obtain c where p: "picked rq3 new c rq4" using core_pick_spec [of rq3] i3 e(2) by auto
  have i4: "sched_inv rq4" "set (all_queued rq4) = set (all_queued rq)" "set (sleep_list rq4) \<subseteq> set (sleep_list rq)"
    "class_of rq4 u = class_of rq u" "rq_next rq4 = 0"
    using picked_inv [OF _ p] p i3 by (simp_all add: picked_def same_clock_def)
  have s3: "sched_inv rq3" using i3 by simp
  note pk = rt_picked [OF i(1) s3 i4(1) p u i4(2-4)]
  have aw: "new \<notin> set (sleep_list rq4)" using picked_awake [OF _ p] i3 by simp
  have "rq' = rq4\<lparr>rq_curr := new, rq_next := 0\<rparr>" using e(3) i4(5) pk(2) i3 by (auto simp: Let_def split: if_splits)
  then show ?thesis using i4(1) aw pk i3 by (simp add: spin_inv_def run_inv_def inv_defs)
qed

lemma class_dequeue_class: "class_dequeue c t rq = Inr rq' \<Longrightarrow> threads rq' = threads rq"
  by (cases c) (auto simp: rt_dequeue_def fair_dequeue_def back_dequeue_def unlink_def split: if_splits)

lemma spin_step_inv:
  assumes "spin_step u rq rq'" and "spin_inv u rq"
  shows "spin_inv u rq'"
  using assms(1)
proof cases
  have inv: "run_inv rq" "sched_inv rq" "rq_next rq = 0" "rq_curr rq \<notin> set (sleep_list rq)" "u \<in> set (rt_queue rq)"
    using assms(2) by (simp_all add: spin_inv_def run_inv_def)
  {
    case (start b us)
    then show ?thesis using rt_start [OF inv(1,5)] by simp
  next
    case (tick rq2)
    then show ?thesis using rt_pass [OF inv(2,5) _ inv(3)] by (simp add: cpu_tick_handler_def)
  next
    case (sleep ms us rq2)
    obtain rq0 where r: "core_sched True us rq0 = Inr rq2" "sched_inv rq0" "rq_next rq0 = 0"
      "rt_queue rq0 = remove1 (rq_curr rq) (rt_queue rq)"
      using thread_sleep_spec [OF inv(2,4) sleep(3,4)] inv(3) by auto
    have "u \<in> set (rt_queue rq0)" using inv(5) sleep(2) by (simp add: r(4))
    then show ?thesis using rt_pass [OF r(2) _ r(1,3)] sleep(1) by simp
  next
    case (create t th)
    have "sched_inv (rq\<lparr>threads := (threads rq)(t := th)\<rparr>)"
      using create(2) by (intro sched_inv_threads [OF inv(2)]) (auto simp: unqueued_def)
    then have "sched_inv rq'" by (simp add: create(1) inv_defs)
    then show ?thesis using assms(2) create(3) by (simp add: create(1) spin_inv_def run_inv_def)
  next
    case (spawn t c)
    have "(rt_queue rq' = rt_queue rq \<or> rt_queue rq' = rt_queue rq @ [t]) \<and> rq_curr rq' = rq_curr rq"
      "class_of rq' (rq_curr rq) = class_of rq (rq_curr rq)"
      using spawn(2,4) by (cases c; auto simp: sched_enqueue_thread_def rt_enqueue_def fair_enqueue_def
        back_enqueue_def idle_enqueue_def set_state_def)+
    then show ?thesis using sched_step_inv [OF sched_step.spawn [OF spawn] inv(1)] assms(2) by (auto simp: spin_inv_def)
  next
    case (kill t)
    have "class_of rq' v = class_of rq v" for v
      using kill(2) by (auto simp: sched_kill_thread_def Let_def res_bind_Inr_iff split: if_splits option.splits
        dest!: class_dequeue_class)
    then show ?thesis using sched_step_inv [OF sched_step.kill [OF kill(2)] inv(1)] kill_spec(4,10) [OF inv(2) kill(2)]
        assms(2) kill(1) by (auto simp: spin_inv_def)
  }
qed

lemma spin_steps_inv: "(spin_step u)\<^sup>*\<^sup>* rq rq' \<Longrightarrow> spin_inv u rq \<Longrightarrow> spin_inv u rq'"
  by (induction rule: rtranclp_induct) (auto dest: spin_step_inv)

lemma class_enqueue_curr [simp]: "rq_curr (class_enqueue c t rq) = rq_curr rq"
  by (cases c) (simp_all add: rt_enqueue_def fair_enqueue_def back_enqueue_def idle_enqueue_def)

lemma start_thread_curr: "start_thread t flags k = Inr k' \<Longrightarrow> rq_curr (k_rq k') = rq_curr (k_rq k)"
  by (auto simp: start_thread_def thread_set_sched_class_def set_thread_def sched_enqueue_thread_def sched_add_thread_def
      set_state_def res_bind_Inr_iff split: option.splits)

lemma arp_init_curr:
  assumes g: "granted e (kthread_size 5000) (k_mm k) t mm1" and a: "alloc_pid (k_pids k) = Inr (Some pid, pids)"
    and r: "arp_init sy k s = Inr (k', s')"
  shows "rq_curr (k_rq k') = rq_curr (k_rq k)"
proof -
  obtain x where x: "create_kthread (sy_thread_exit sy) (sy_arp_thread sy) 5000 (sy_text sy ''arp thread'') 0 0 k = Inr (x, k')"
    using r by (auto simp: arp_init_def rt_thread_def res_bind_Inr_iff)
  obtain k4 where "start_thread t 0 k4 = Inr k'" "rq_curr (k_rq k4) = rq_curr (k_rq k)"
    using create_kthread_runs [OF g x refl a] by (auto simp: set_thread_def init_thread_struct_def)
  then show ?thesis using start_thread_curr by simp
qed

text \<open>The thread that \<^verbatim>\<open>arp_init\<close> starts is ready in the highest class.\<close>

lemma arp_thread_ready:
  assumes inv: "kernel_inv e tot k bs" and g: "granted e (kthread_size 5000) (k_mm k) t mm1"
    and a: "alloc_pid (k_pids k) = Inr (Some pid, pids)" and r: "arp_init sy k s = Inr (k', s')" and c0: "rq_curr (k_rq k) = 0"
  shows "spin_inv t (k_rq k')"
proof -
  obtain x where x: "create_kthread (sy_thread_exit sy) (sy_arp_thread sy) 5000 (sy_text sy ''arp thread'') 0 0 k = Inr (x, k')"
    using r by (auto simp: arp_init_def rt_thread_def res_bind_Inr_iff)
  have c: "get_sched_class (0 AND 7) = Inr RtClass" by (simp add: get_sched_class_def)
  have "kernel_inv e tot k' (insert (t - 8) bs)" by (rule create_kthread_threads [OF g c _ x inv]) simp
  then have i: "run_inv (k_rq k')" by (simp add: kernel_inv_def threads_ok_def)
  have z: "kzmalloc (align_up (sizeof_thread + 5000 * 4) 8) (k_mm k) = Inr (t, mm1)"
    using g by (simp add: granted_def kthread_size_def)
  from create_kthread_started [OF z a c, of "sy_thread_exit sy" "sy_arp_thread sy" "sy_text sy ''arp thread''" 0]
  have q: "t \<in> set (rt_queue (k_rq k'))" using x by (auto simp: ready_in_def)
  show ?thesis using i q arp_init_curr [OF g a r] c0 by (simp add: spin_inv_def)
qed

subsection \<open>The heap of a small machine\<close>

text \<open>The demonstration zone with sixteen pages: room for the idle thread and a thread of 5000 words.\<close>

definition big_heap :: slob where
  "big_heap = snd (slob_init 0x80000100 1 (demo_zone\<lparr>zone_page_cnt := 16\<rparr>))"

definition big_kernel :: kernel where
  "big_kernel = demo_kernel\<lparr>k_mm := (k_mm demo_kernel)\<lparr>heap := big_heap\<rparr>\<rparr>"

lemmas slob_eval = Let_def put_size_def put_next_def sizeof_node_def

lemma big_nodes:
  "nodes big_heap 0x80000100 = \<lparr>nsize = 0, nnext = 0x80001000\<rparr>" "nodes big_heap 0x80001000 = \<lparr>nsize = 69312, nnext = 0x80010FC0\<rparr>"
  "nodes big_heap 0x80010FC0 = \<lparr>nsize = 0, nnext = 0\<rparr>" "first_node big_heap = 0x80000100" "last_node big_heap = 0x80010FC0"
  by (simp_all add: big_heap_def slob_init_def demo_zone_def slob_eval SLOB_ALIGN_def KERNEL_START_def)

lemma big_sizes: "kthread_size 500 = 2240" "kthread_size 5000 = 20240" "alloc_size 2240 = 2248" "alloc_size 20240 = 20248"
  by (simp_all add: kthread_size_def align_up_def sizeof_thread_def alloc_size_def sizeof_node_def SLOB_ALIGN_def)

lemmas big_eval = slob_alloc_def slob_eval SLOB_MIN_BLOCK_def block_end_def slob_insert_free_def insert_slot.simps slob_search.simps
  merge_back_def merge_forward_def big_sizes big_nodes before_end_def

lemma big_allocs:
  obtains h1 p2 h2 where "slob_alloc 2240 big_heap = Some (0x80001008, h1)" "before_end 0x80011EC0 h1 0x80001000"
    "slob_alloc 20240 h1 = Some (p2, h2)" "p2 \<noteq> 0" "before_end 0x80011EC0 h2 (p2 - 8)"
proof -
  have "case slob_alloc 2240 big_heap of None \<Rightarrow> False | Some (p, h1) \<Rightarrow> p = 0x80001008 \<and> before_end 0x80011EC0 h1 0x80001000 \<and>
      (case slob_alloc 20240 h1 of None \<Rightarrow> False | Some (p2, h2) \<Rightarrow> p2 \<noteq> 0 \<and> before_end 0x80011EC0 h2 (p2 - 8))"
    by (simp add: big_eval)
  then show thesis using that by (auto split: option.splits)
qed

lemma sched_start_runs:
  assumes "run_inv rq" and "rq_curr rq = 0"
  shows "\<exists>rq'. sched_start b us rq = Inr rq'"
proof -
  define rq2 where "rq2 = rq\<lparr>time_tick := time_tick rq + ucast (if b then us else SCHED_SLICE)\<rparr>"
  have i2: "sched_inv rq2" "rq_curr rq2 = 0" using assms by (simp_all add: rq2_def run_inv_def inv_defs)
  obtain rq3 where w: "(if time_tick rq2 > time_wake rq2 \<and> time_wake rq2 \<noteq> 0 then enqueue_sleeping_threads rq2 else Inr rq2) = Inr rq3"
    "sched_inv rq3" "rq_curr rq3 = 0"
    using wake_spec [OF i2(1)] i2 by (cases "time_tick rq2 > time_wake rq2 \<and> time_wake rq2 \<noteq> 0") auto
  obtain t c rq4 where p: "core_pick_next rq3 = Inr (t, rq4)" "picked rq3 t c rq4" using core_pick_spec [OF w(2)] by blast
  have "t \<noteq> 0" using picked_awake [OF w(2) p(2)] by simp
  then show ?thesis using p w(3)
    by (simp add: sched_start_def first_pass_def rq2_def [symmetric] Let_def w(1) picked_def same_clock_def)
qed

lemma big_granted:
  obtains mm1 t mm2 where "granted 0x80011EC0 (kthread_size 500) (k_mm big_kernel) 0x80001008 mm1"
    "\<And>mm. heap mm = heap mm1 \<Longrightarrow> granted 0x80011EC0 (kthread_size 5000) mm t (mm2 mm)"
proof -
  obtain h1 p2 h2 where a: "slob_alloc 2240 big_heap = Some (0x80001008, h1)" "before_end 0x80011EC0 h1 0x80001000"
    "slob_alloc 20240 h1 = Some (p2, h2)" "p2 \<noteq> 0" "before_end 0x80011EC0 h2 (p2 - 8)" using big_allocs by blast
  have "\<exists>mm1. granted 0x80011EC0 (kthread_size 500) (k_mm big_kernel) 0x80001008 mm1 \<and> heap mm1 = h1"
    using a(1,2) by (simp add: granted_def big_sizes kzmalloc_def kmalloc_def or_hang_def big_kernel_def)
  moreover have "\<exists>mm'. granted 0x80011EC0 (kthread_size 5000) mm p2 mm'" if "heap mm = h1" for mm
    using a(3-5) that by (simp add: granted_def big_sizes kzmalloc_def kmalloc_def or_hang_def)
  ultimately show thesis using that by metis
qed

lemma big_hist: "hist_inv 0x80011EC0 {heap_start 1 ..< 0x80011EC0} big_heap {}"
proof -
  let ?z = "demo_zone\<lparr>zone_page_cnt := 16\<rparr>"
  have z: "heap_start 1 = 0x80001000" "heap_last 1 ?z = 0x80010FC0"
    by (simp_all add: heap_start_def heap_last_def demo_zone_def)
  have "init_pre 0x80000100 1 ?z" unfolding init_pre_def z by (simp add: demo_zone_def)
  from slob_init_spec [OF this] show ?thesis unfolding z by (auto simp: hist_inv_def big_heap_def)
qed

subsection \<open>Properties\<close>

text \<open>C35. \<^verbatim>\<open>arp_thread\<close> of \<^verbatim>\<open>net/arp.c\<close> is an endless loop without a call. From \<^verbatim>\<open>arp_init\<close> on, through any
  sequence of the start of the scheduler, ticks, sleeps of other threads, creations, starts and kills of other
  threads, it stays on the queue of the highest class, so whatever thread runs is of that class: no fair, background or idle thread ever
  runs.\<close>

theorem arp_thread_starves:
  assumes "kernel_inv e tot k bs" and "granted e (kthread_size 5000) (k_mm k) t mm1"
    and "alloc_pid (k_pids k) = Inr (Some pid, pids)" and "arp_init sy k s = Inr (k', s')" and "rq_curr (k_rq k) = 0"
    and "(spin_step t)\<^sup>*\<^sup>* (k_rq k') rq" and "rq_curr rq \<noteq> 0"
  shows "t \<in> set (rt_queue rq) \<and> class_of rq (rq_curr rq) = Some RtClass"
  using spin_steps_inv [OF assms(6) arp_thread_ready [OF assms(1-5)]] assms(7) by (simp add: spin_inv_def)

definition demo_symbols :: symbols where
  "demo_symbols = \<lparr>sy_dummy_handler = 0x70000000, sy_kernel_e = 0x70010000, sy_kernel_pt = 0x70010000,
     sy_slob_node = 0x70020000, sy_thread_exit = 0x70000100, sy_idle_func = 0x70000200, sy_arp_thread = 0x70000300,
     sy_tx = 0x70000400, sy_udp_test = 0x70000500, sy_tftp_test = 0x70000600, sy_dhcp_thread = 0x70000700,
     sy_tick_handler = 0x70000800, sy_uart4_interrupt = 0x70000900, sy_dma0_interrupt = 0x70000A00,
     sy_dma1_interrupt = 0x70000B00, sy_dma_buffer = 0x70030000, sy_text = \<lambda>_. 0x70000C00\<rparr>"

lemma big_boot:
  obtains k1 t mm2 pids where "sched_init 0x70000100 0x70000200 0x70000C00 big_kernel = Inr k1"
    "kernel_inv 0x80011EC0 {heap_start 1 ..< 0x80011EC0} k1 {0x80001000}" "granted 0x80011EC0 (kthread_size 5000) (k_mm k1) t mm2"
    "alloc_pid (k_pids k1) = Inr (Some 1, pids)" "rq_curr (k_rq k1) = 0"
proof -
  obtain mm1 t mm2 where g: "granted 0x80011EC0 (kthread_size 500) (k_mm big_kernel) 0x80001008 mm1"
    "\<And>mm. heap mm = heap mm1 \<Longrightarrow> granted 0x80011EC0 (kthread_size 5000) mm t (mm2 mm)" using big_granted by blast
  define k where "k = sched_early_init big_kernel"
  have k: "k_mm k = k_mm big_kernel" "k_pids k = pid_init" "k_rq k = sched_init_rq (k_rq big_kernel)"
    by (simp_all add: k_def sched_early_init_def)
  have z: "kzmalloc (align_up (sizeof_thread + 500 * 4) 8) (k_mm k) = Inr (0x80001008, mm1)"
    using g(1) k by (simp add: granted_def kthread_size_def)
  have p: "alloc_pid (k_pids k) = Inr (Some 0, pids_taken (Suc 0))"
    using alloc_pids_taken [of 0] by (simp add: k pids_taken_0 [symmetric])
  have c: "get_sched_class (3 AND 7) = Inr IdleClass" by (simp add: get_sched_class_def)
  obtain k1 where k1: "create_kthread 0x70000100 0x70000200 500 0x70000C00 0 3 k = Inr (0x80001008, k1)"
    "k_pids k1 = pids_taken (Suc 0)"
    using create_kthread_started [OF z p c, of "0x70000100" "0x70000200" "0x70000C00" 0] by auto
  have s: "sched_init 0x70000100 0x70000200 0x70000C00 big_kernel = Inr k1"
    using k1(1) by (simp add: sched_init_def add_idle_def k_def)
  have h: "hist_inv 0x80011EC0 {heap_start 1 ..< 0x80011EC0} (heap (k_mm big_kernel)) {}"
    using big_hist by (simp add: big_kernel_def)
  have "heap (k_mm k1) = heap mm1" using create_idle [OF _ k(3,2) k1(1), unfolded k(1), OF g(1)] by simp
  note t = g(2) [OF this]
  have "alloc_pid (k_pids k1) = Inr (Some 1, pids_taken (Suc 1))" using alloc_pids_taken [of 1] by (simp add: k1(2))
  moreover have "kernel_inv 0x80011EC0 {heap_start 1 ..< 0x80011EC0} k1 {0x80001000}" "rq_curr (k_rq k1) = 0"
    using sched_init_inv [OF h g(1) s] by simp_all
  ultimately show thesis using that [OF s _ t] by blast
qed

lemma arp_thread_starves_witness:
  "\<exists>k1 k' s' t rq. sched_init 0x70000100 0x70000200 0x70000C00 big_kernel = Inr k1 \<and>
     arp_init demo_symbols k1 demo_net = Inr (k', s') \<and> sched_start False 0 (k_rq k') = Inr rq \<and>
     t \<in> set (rt_queue rq) \<and> class_of rq (rq_curr rq) = Some RtClass"
proof -
  obtain k1 t mm2 pids where k1: "sched_init 0x70000100 0x70000200 0x70000C00 big_kernel = Inr k1"
    "kernel_inv 0x80011EC0 {heap_start 1 ..< 0x80011EC0} k1 {0x80001000}" "granted 0x80011EC0 (kthread_size 5000) (k_mm k1) t mm2"
    "alloc_pid (k_pids k1) = Inr (Some 1, pids)" "rq_curr (k_rq k1) = 0" using big_boot by blast
  have z: "kzmalloc (align_up (sizeof_thread + 5000 * 4) 8) (k_mm k1) = Inr (t, mm2)"
    using k1(3) by (simp add: granted_def kthread_size_def)
  have c: "get_sched_class (0 AND 7) = Inr RtClass" by (simp add: get_sched_class_def)
  obtain k' where "create_kthread (sy_thread_exit demo_symbols) (sy_arp_thread demo_symbols) 5000 (sy_text demo_symbols ''arp thread'') 0 0 k1 = Inr (t, k')"
    using create_kthread_started [OF z k1(4) c] by blast
  then obtain s' where a: "arp_init demo_symbols k1 demo_net = Inr (k', s')" by (simp add: arp_init_def rt_thread_def)
  note i = arp_thread_ready [OF k1(2-4) a k1(5)]
  have c0: "rq_curr (k_rq k') = 0" using arp_init_curr [OF k1(3,4) a] k1(5) by simp
  obtain rq where rq: "sched_start False 0 (k_rq k') = Inr rq" using sched_start_runs [OF _ c0] i by (auto simp: spin_inv_def)
  have "threads_ok (k_rq k') (insert (t - 8) {0x80001000})"
    using a create_kthread_threads [OF k1(3) c _ _ k1(2)] by (auto simp: arp_init_def rt_thread_def res_bind_Inr_iff kernel_inv_def)
  then have "rq_curr rq \<noteq> 0" using start_threads(2) rq by blast
  moreover have "(spin_step t)\<^sup>*\<^sup>* (k_rq k') rq" using spin_step.start [OF c0 rq] by (rule r_into_rtranclp)
  ultimately show ?thesis using arp_thread_starves [OF k1(2-4) a k1(5)] k1(1) a rq by blast
qed

subsection \<open>A loop that keeps its buffers\<close>

text \<open>The datagrams the loop can still get without a release: those queued on the port and the buffers of the pool.\<close>

definition udp_budget :: "net \<Rightarrow> nat" where
  "udp_budget s = length (nt_pool s) + (case queue_of 50 (nt_ports s) of None \<Rightarrow> 0 | Some bs \<Rightarrow> length bs)"

text \<open>What the controller may do between two turns: fill buffers and descriptors. The next frame is no ARP frame.\<close>

definition no_arp :: "net \<Rightarrow> bool" where
  "no_arp s \<longleftrightarrow> (\<forall>b s1. gmac_rec_raw s = Inr (0, b, s1) \<longrightarrow> nb_read_be16 b 12 s1 \<noteq> Inr 0x0806)"

definition quiet :: "(net \<Rightarrow> net) \<Rightarrow> bool" where
  "quiet env \<longleftrightarrow> (\<forall>s. nt_pool (env s) = nt_pool s \<and> nt_ports (env s) = nt_ports s \<and> no_arp (env s))"

lemma queue_of_popped:
  "pop_port port ps = (Some b, ps') \<Longrightarrow> \<exists>bs. queue_of port ps = Some (b # bs) \<and> queue_of port ps' = Some bs"
  by (induction ps arbitrary: ps') (auto split: if_splits list.splits prod.splits)

lemma pop_port_none: "pop_port port ps = (None, ps') \<Longrightarrow> ps' = ps \<and> (queue_of port ps = None \<or> queue_of port ps = Some [])"
  by (induction ps arbitrary: ps') (auto split: if_splits list.splits prod.splits)

lemma get_netbuf_budget:
  "get_netbuf_from_port 50 s = (r, s') \<Longrightarrow> udp_budget s = udp_budget s' + (if r = None then 0 else 1)"
  by (cases r) (auto simp: get_netbuf_from_port_def udp_budget_def dest!: pop_port_none queue_of_popped split: prod.splits)

lemma budget_buf [simp]: "udp_budget (set_buf b f s) = udp_budget s" "udp_budget (set_frame_len b n s) = udp_budget s"
  "udp_budget (nb_advance b m s) = udp_budget s"
  by (simp_all add: udp_budget_def set_frame_len_def nb_advance_def set_buf_def)

lemma add_netbuf_budget: "udp_budget (add_netbuf_to_port b p s) \<le> Suc (udp_budget s)"
proof -
  have "nt_pool (add_netbuf_to_port b p s) = nt_pool s" by (simp add: add_netbuf_to_port_def)
  then show ?thesis by (auto simp: udp_budget_def queue_of_add split: option.splits)
qed

lemma udp_handle_budget: "udp_handle b s = Inr s' \<Longrightarrow> udp_budget s' \<le> Suc (udp_budget s)"
  using add_netbuf_budget [of b _ "set_frame_len b (frame_len b s - 8) (nb_advance b 8 s)"]
  by (auto simp: udp_handle_def Let_def res_bind_Inr_iff)

lemma ip_receive_budget: "ip_receive b s = Inr s' \<Longrightarrow> udp_budget s' \<le> Suc (udp_budget s)"
  by (auto simp: ip_receive_def Let_def res_bind_Inr_iff dest!: udp_handle_budget split: if_splits)

lemma gmac_rec_budget:
  assumes "gmac_rec_raw s = Inr (err, b, s1)"
  shows "udp_budget s1 + (if err = 0 then 1 else 0) = udp_budget s"
  using assms by (auto simp: gmac_rec_raw_def Let_def res_bind_Inr_iff alloc_netbuf_def ERETRY_def udp_budget_def set_buf_def
      split: if_splits list.splits)

lemma mac_receive_budget:
  assumes r: "mac_receive s = Inr s'" and n: "no_arp s"
  shows "udp_budget s' \<le> udp_budget s"
proof -
  obtain err b s1 where g: "gmac_rec_raw s = Inr (err, b, s1)" using r by (auto simp: mac_receive_def res_bind_Inr_iff)
  note m = gmac_rec_budget [OF g]
  show ?thesis
  proof (cases "err = 0")
    case False
    then show ?thesis using r g m by (simp add: mac_receive_def)
  next
    case True
    obtain type where t: "nb_read_be16 b 12 s1 = Inr type" using r g True by (auto simp: mac_receive_def res_bind_Inr_iff)
    then have "type \<noteq> 0x0806" using n g True by (auto simp: no_arp_def)
    then have "(type = 0x0800 \<longrightarrow> ip_receive b (set_frame_len b (frame_len b s1 - 14) (nb_advance b 14 s1)) = Inr s') \<and>
        (type \<noteq> 0x0800 \<longrightarrow> s' = set_frame_len b (frame_len b s1 - 14) (nb_advance b 14 s1))"
      using r g True t by (auto simp: mac_receive_def Let_def)
    then have "udp_budget s' \<le> Suc (udp_budget s1)"
      by (cases "type = 0x0800") (auto dest: ip_receive_budget)
    then show ?thesis using m True by simp
  qed
qed

lemma udp_test_turn_budget:
  assumes r: "udp_test_turn s = Inr (r, s')" and n: "no_arp s"
  shows "udp_budget s' + (if r = None then 0 else 1) \<le> udp_budget s"
proof -
  obtain rb where u: "udp_rec 50 s = Inr (rb, s')" "r = None \<longleftrightarrow> rb = None"
    using r by (auto simp: udp_test_turn_def res_bind_Inr_iff split: option.splits)
  obtain ra s1 where g: "get_netbuf_from_port 50 s = (ra, s1)" by fastforce
  note b1 = get_netbuf_budget [OF g]
  show ?thesis
  proof (cases ra)
    case (Some b)
    then show ?thesis using u g b1 by (auto simp: udp_rec_def)
  next
    case None
    then have s1: "s1 = s" using g by (auto simp: get_netbuf_from_port_def dest: pop_port_none split: prod.splits)
    then obtain s2 where "mac_receive s = Inr s2" "get_netbuf_from_port 50 s2 = (rb, s')"
      using u(1) g None by (auto simp: udp_rec_def res_bind_Inr_iff)
    then show ?thesis using mac_receive_budget [OF _ n] get_netbuf_budget [of s2 rb s'] u(2) by fastforce
  qed
qed

text \<open>C36. \<^verbatim>\<open>udp_test\<close> never frees a buffer. Whatever the controller receives, as long as no frame is an ARP frame, its loop
  delivers at most as many datagrams as the pool has buffers, those already queued on its port included; and once that is used
  up, the next complete frame fails the assertion of the receive routine.\<close>

theorem udp_test_bound:
  assumes "\<forall>env \<in> set envs. quiet env" and "udp_test envs s = Inr (printed, s')"
  shows "length printed + udp_budget s' \<le> udp_budget s \<and>
    (udp_budget s' = 0 \<longrightarrow> nt_rx_index s' < length (nt_rx_desc s') \<longrightarrow> rd_owner_software (nt_rx_desc s' ! nt_rx_index s') \<longrightarrow>
       rd_sof (nt_rx_desc s' ! nt_rx_index s') \<longrightarrow> rd_eof (nt_rx_desc s' ! nt_rx_index s') \<longrightarrow> udp_test_turn s' = Inl Assertion)"
proof (intro conjI impI)
  show "length printed + udp_budget s' \<le> udp_budget s" using assms
  proof (induction envs arbitrary: s printed)
    case (Cons env envs)
    obtain r s1 rest where t: "udp_test_turn (env s) = Inr (r, s1)" "udp_test envs s1 = Inr (rest, s')"
      "printed = (case r of None \<Rightarrow> [] | Some p \<Rightarrow> [p]) @ rest"
      using Cons.prems(2) by (auto simp: res_bind_Inr_iff)
    have q: "udp_budget (env s) = udp_budget s" "no_arp (env s)" using Cons.prems(1) by (simp_all add: quiet_def udp_budget_def)
    show ?case using Cons.IH [OF _ t(2)] Cons.prems(1) udp_test_turn_budget [OF t(1) q(2)] q(1)
      by (cases r) (simp_all add: t(3))
  qed simp
next
  assume b: "udp_budget s' = 0"
    and d: "nt_rx_index s' < length (nt_rx_desc s')" "rd_owner_software (nt_rx_desc s' ! nt_rx_index s')"
      "rd_sof (nt_rx_desc s' ! nt_rx_index s')" "rd_eof (nt_rx_desc s' ! nt_rx_index s')"
  have p: "nt_pool s' = []" "queue_of 50 (nt_ports s') = None \<or> queue_of 50 (nt_ports s') = Some []"
    using b by (auto simp: udp_budget_def split: option.splits)
  have "mac_receive s' = Inl Assertion"
    using d p(1) by (simp add: mac_receive_def gmac_rec_raw_def Let_def read_at_def alloc_netbuf_def)
  then show "udp_test_turn s' = Inl Assertion"
    using pop_port_empty [OF p(2)] by (simp add: udp_test_turn_def udp_rec_def get_netbuf_from_port_def)
qed

definition demo_frame :: "u8 list" where
  "demo_frame = [0, 0, 0, 0, 0, 0, 0, 0, 0, 0, 0, 0, 8, 0] @
     [0x45, 0, 0, 31, 0, 0, 0x40, 0, 10, 0x11, 0, 0, 192, 168, 5, 177, 192, 168, 5, 3] @
     [0, 67, 0, 50, 0, 11, 0, 0] @ [104, 105, 33]"

definition demo_arrival :: "net \<Rightarrow> net" where
  "demo_arrival s = s\<lparr>nt_bufs := (\<lambda>b. \<lparr>nb_buf = demo_frame @ replicate 15 0, nb_ptr = 0, nb_frame_len = 0, nb_ip = 0\<rparr>),
     nt_rx_desc := [\<lparr>rd_owner_software = True, rd_sof = True, rd_eof = True, rd_length = 45, rd_netbuf = 1\<rparr>], nt_rx_index := 0\<rparr>"

lemma demo_arrival_quiet: "quiet demo_arrival"
proof -
  have "no_arp (demo_arrival s)" for s
    by (auto simp: no_arp_def demo_arrival_def gmac_rec_raw_def read_at_def alloc_netbuf_def Let_def set_buf_def nb_read_be16_def
        nb_read_def get_bytes_def slice_def demo_frame_def be16_at_def be16_of_def split: list.splits)
  then show ?thesis by (simp add: quiet_def) (simp add: demo_arrival_def)
qed

lemma udp_test_bound_witness:
  "\<exists>s'. udp_test [demo_arrival] (demo_net\<lparr>nt_ports := [\<lparr>up_port = 50, up_packets = []\<rparr>]\<rparr>) =
     Inr ([(str_bytes ''UDP with length %d - %*s'' @ [10], [Num 3, Num 3, Str (Some [104, 105, 33])])], s') \<and> udp_budget s' = 0"
proof -
  let ?s = "demo_net\<lparr>nt_ports := [\<lparr>up_port = 50, up_packets = []\<rparr>]\<rparr>"
  have "case udp_test [demo_arrival] ?s of Inl e \<Rightarrow> False
      | Inr (p, s') \<Rightarrow> p = [(str_bytes ''UDP with length %d - %*s'' @ [10], [Num 3, Num 3, Str (Some [104, 105, 33])])]"
    by code_simp
  then obtain s' where u: "udp_test [demo_arrival] ?s =
      Inr ([(str_bytes ''UDP with length %d - %*s'' @ [10], [Num 3, Num 3, Str (Some [104, 105, 33])])], s')"
    by (auto split: sum.splits)
  have "udp_budget ?s = 1" by (simp add: udp_budget_def demo_net_def)
  then show ?thesis using udp_test_bound [OF _ u] demo_arrival_quiet u by simp
qed

end
