(* ===== verification/Exception.thy ===== *)
theory Exception
  imports Thread
begin

text \<open>
  Entry to and return from exceptions, the assembly of \<^verbatim>\<open>arch/irq.s\<close>: what it pushes on the stack of the
  interrupted thread, what it pops, and the switch of threads between the two. The result is that
  no thread notices an interruption.
\<close>

subsection \<open>Definitions\<close>

text \<open>The registers of a thread: r0 to r3 and r12, r4 to r11, and the registers of the mode the threads run in.\<close>

record regs =
  r_scratch :: "u32 list"
  r_saved :: "u32 list"
  r_sp :: u32
  r_lr :: u32
  r_pc :: u32
  r_cpsr :: u32

text \<open>\<^verbatim>\<open>stmdb sp!\<close> and \<^verbatim>\<open>ldmia\<close>: the lowest register lies at the lowest address.\<close>

fun store_words :: "u32 list \<Rightarrow> u32 \<Rightarrow> mem \<Rightarrow> mem" where
  "store_words [] a m = m"
| "store_words (w # ws) a m = store_words ws (a + 4) (store_word a w m)"

definition stmdb :: "u32 list \<Rightarrow> u32 \<times> mem \<Rightarrow> u32 \<times> mem" where
  "stmdb ws s = (let sp = fst s - 4 * of_nat (length ws) in (sp, store_words ws sp (snd s)))"

fun load_words :: "nat \<Rightarrow> u32 \<Rightarrow> mem \<Rightarrow> u32 list" where
  "load_words 0 a m = []"
| "load_words (Suc n) a m = load_word m a # load_words n (a + 4) m"

text \<open>
  The return state, the scratch registers, then the padding that aligns the stack for the C code
  with the link register below it. \<open>lr\<close> is the address to return to.
\<close>

definition exception_entry :: "u32 \<Rightarrow> regs \<Rightarrow> mem \<Rightarrow> u32 \<times> mem" where
  "exception_entry lr r m =
     (let (sp, m1) = stmdb (r_scratch r) (stmdb [lr, r_cpsr r] (r_sp r, m));
          pad = sp AND 4 in
      stmdb [pad, r_lr r] (sp - pad, m1))"

text \<open>The processor leaves the address of the next instruction in the link register, for an interrupt plus four.\<close>

definition irq_entry :: "regs \<Rightarrow> mem \<Rightarrow> u32 \<times> mem" where
  "irq_entry r m = (let lr_irq = r_pc r + 4 in exception_entry (lr_irq - 4) r m)"

definition supervisor_entry :: "regs \<Rightarrow> mem \<Rightarrow> u32 \<times> mem" where
  "supervisor_entry r m = exception_entry (r_pc r) r m"

text \<open>\<^verbatim>\<open>skip_context\<close>, with the registers r4 to r11 as they are.\<close>

definition exception_return :: "u32 list \<Rightarrow> u32 \<Rightarrow> mem \<Rightarrow> regs" where
  "exception_return saved sp m =
     (let r1 = load_word m sp; sp' = sp + 8 + r1 in
      \<lparr>r_scratch = load_words 5 sp' m, r_saved = saved, r_sp = sp' + 28, r_lr = load_word m (sp + 4),
       r_pc = load_word m (sp' + 20), r_cpsr = load_word m (sp' + 24)\<rparr>)"

definition restore_context :: "u32 \<Rightarrow> mem \<Rightarrow> regs" where
  "restore_context sp m = exception_return (load_words 8 sp m) (sp + 32) m"

text \<open>
  The processor with the saved stack pointers of the threads, the first word of every control block.
  The threads are those of the kernel, which share one address space.
\<close>

record core =
  co_regs :: regs
  co_mem :: mem
  co_curr :: tid
  co_stack :: "tid \<Rightarrow> u32"
  co_live :: "tid set"

text \<open>\<^verbatim>\<open>context_core\<close>: \<open>next\<close> is what the scheduler left in \<^verbatim>\<open>rq->next\<close>, the null pointer if nothing changes.\<close>

definition leave :: "tid \<Rightarrow> u32 list \<Rightarrow> u32 \<Rightarrow> mem \<Rightarrow> core \<Rightarrow> core" where
  "leave new saved sp m c =
     (if new = 0 then c\<lparr>co_regs := exception_return saved sp m, co_mem := m\<rparr>
      else
        let (sp', m') = stmdb saved (sp, m); st = (co_stack c)(co_curr c := sp') in
        c\<lparr>co_regs := restore_context (st new) m', co_mem := m', co_stack := st, co_curr := new\<rparr>)"

text \<open>Where \<^verbatim>\<open>supervisor_exception\<close> stores the result of a call: the word of r0 in the frame.\<close>

definition result_slot :: "u32 \<Rightarrow> mem \<Rightarrow> u32" where
  "result_slot sp m = (if load_word m sp \<noteq> 0 then sp + 12 else sp + 8)"

subsection \<open>Runs\<close>

definition bytes_at :: "u32 \<Rightarrow> nat \<Rightarrow> u32 set" where
  "bytes_at a n = {x. unat (x - a) < n}"

definition same_on :: "u32 set \<Rightarrow> mem \<Rightarrow> mem \<Rightarrow> bool" where
  "same_on S m m' \<longleftrightarrow> (\<forall>x \<in> S. m' x = m x)"

definition wf_regs :: "regs \<Rightarrow> bool" where
  "wf_regs r \<longleftrightarrow> length (r_scratch r) = 5 \<and> length (r_saved r) = 8"

datatype core_event = Exec tid "regs \<Rightarrow> regs" | Result tid u32 | Begun tid regs | Unseen

text \<open>What the events do to threads with registers of their own.\<close>

primrec own_core :: "core_event \<Rightarrow> (tid \<Rightarrow> regs) \<Rightarrow> tid \<Rightarrow> regs" where
  "own_core (Exec t f) v = v(t := f (v t))"
| "own_core (Result t x) v = v(t := (v t)\<lparr>r_scratch := (r_scratch (v t))[0 := x]\<rparr>)"
| "own_core (Begun t r) v = v(t := r)"
| "own_core Unseen v = v"

text \<open>
  The C code of a handler keeps the stacks of the other threads and what lies above the stack pointer
  it was called with, and restores r4 to r11.
\<close>

definition handler_keeps :: "(tid \<Rightarrow> u32 set) \<Rightarrow> core \<Rightarrow> u32 \<Rightarrow> mem \<Rightarrow> mem \<Rightarrow> bool" where
  "handler_keeps stk c sp m m' \<longleftrightarrow> same_on (bytes_at sp (unat (r_sp (co_regs c) - sp))) m m' \<and>
     (\<forall>u \<in> co_live c - {co_curr c}. same_on (stk u) m m')"

inductive core_step :: "(tid \<Rightarrow> u32 set) \<Rightarrow> core \<Rightarrow> core_event \<Rightarrow> core \<Rightarrow> bool" for stk where
  exec: "wf_regs (f (co_regs c)) \<Longrightarrow> (\<forall>u \<in> co_live c - {co_curr c}. same_on (stk u) (co_mem c) m) \<Longrightarrow>
    core_step stk c (Exec (co_curr c) f) (c\<lparr>co_regs := f (co_regs c), co_mem := m\<rparr>)"
| irq: "irq_entry (co_regs c) (co_mem c) = (sp, m1) \<Longrightarrow> bytes_at (r_sp (co_regs c) - 72) 72 \<subseteq> stk (co_curr c) \<Longrightarrow>
    handler_keeps stk c sp m1 m2 \<Longrightarrow> new = 0 \<or> new \<in> co_live c \<Longrightarrow>
    core_step stk c Unseen (leave new (r_saved (co_regs c)) sp m2 c)"
| svc: "supervisor_entry (co_regs c) (co_mem c) = (sp, m1) \<Longrightarrow> bytes_at (r_sp (co_regs c) - 72) 72 \<subseteq> stk (co_curr c) \<Longrightarrow>
    handler_keeps stk c sp m1 m2 \<Longrightarrow> new = 0 \<or> new \<in> co_live c \<Longrightarrow>
    core_step stk c Unseen (leave new (r_saved (co_regs c)) sp m2 c)"
| result: "supervisor_entry (co_regs c) (co_mem c) = (sp, m1) \<Longrightarrow> bytes_at (r_sp (co_regs c) - 72) 72 \<subseteq> stk (co_curr c) \<Longrightarrow>
    handler_keeps stk c sp m1 m2 \<Longrightarrow> new = 0 \<or> new \<in> co_live c \<Longrightarrow>
    core_step stk c (Result (co_curr c) x) (leave new (r_saved (co_regs c)) sp (store_word (result_slot sp m1) x m2) c)"
| start: "t \<notin> co_live c \<Longrightarrow> t \<noteq> 0 \<Longrightarrow> bytes_at (sp0 - 68) 68 \<subseteq> stk t \<Longrightarrow> stack_setup te sp0 func args cpsr (co_mem c) = (sp, m) \<Longrightarrow>
    core_step stk c (Begun t \<lparr>r_scratch = [args, 0x01010101, 0x02020202, 0x03030303, 0x12121212],
        r_saved = [0x04040404, 0x05050505, 0x06060606, 0x07070707, 0x08080808, 0x09090909, 0x10101010, 0x11111111],
        r_sp = sp0, r_lr = te, r_pc = func, r_cpsr = cpsr\<rparr>)
      (c\<lparr>co_mem := m, co_stack := (co_stack c)(t := sp), co_live := insert t (co_live c)\<rparr>)"

inductive core_run :: "(tid \<Rightarrow> u32 set) \<Rightarrow> core \<Rightarrow> core_event list \<Rightarrow> core \<Rightarrow> bool" for stk where
  none: "core_run stk c [] c"
| more: "core_step stk c e c' \<Longrightarrow> core_run stk c' es c'' \<Longrightarrow> core_run stk c (e # es) c''"

definition core_regs :: "core \<Rightarrow> tid \<Rightarrow> regs" where
  "core_regs c t = (if t = co_curr c then co_regs c else restore_context (co_stack c t) (co_mem c))"

subsection \<open>Words on the stack\<close>

lemma bytes_at_Suc: "unat (x - a) = k \<Longrightarrow> 4 \<le> k \<Longrightarrow> unat (x - (a + 4)) = k - 4"
  for x a :: u32
proof -
  assume k: "unat (x - a) = k" "4 \<le> k"
  have "unat (4 :: u32) = 4" by simp
  then show ?thesis using unat_sub_u32 [of 4 "x - a"] k by (simp only: diff_diff_eq [symmetric])
qed

lemma store_words_apply: "4 * length ws \<le> unat (x - a) \<Longrightarrow> store_words ws a m x = m x"
proof (induction ws arbitrary: a m)
  case (Cons w ws)
  then have "4 * length ws \<le> unat (x - (a + 4))" using bytes_at_Suc [of x a] by simp
  then show ?case using Cons by (simp add: store_word_apply)
qed simp

lemma store_words_out: "x \<notin> bytes_at a (4 * length ws) \<Longrightarrow> store_words ws a m x = m x"
  by (rule store_words_apply) (simp add: bytes_at_def)

lemma same_on_sub: "same_on S m m' \<Longrightarrow> T \<subseteq> S \<Longrightarrow> same_on T m m'"
  by (auto simp: same_on_def)

lemma same_on_trans: "same_on S m m' \<Longrightarrow> same_on S m' m'' \<Longrightarrow> same_on S m m''"
  by (simp add: same_on_def)

lemma bytes_at_offset: "k + n \<le> N \<Longrightarrow> N < 4294967296 \<Longrightarrow> bytes_at (a + of_nat k) n \<subseteq> bytes_at a N"
proof
  fix x assume k: "k + n \<le> N" "N < 4294967296" and x: "x \<in> bytes_at (a + of_nat k) n"
  have kk: "unat (of_nat k :: u32) = k" using k by (simp add: unat_of_nat)
  have "x - a = (x - (a + of_nat k)) + of_nat k" by simp
  then have "unat (x - a) = unat (x - (a + of_nat k)) + k"
    using x k kk unat_add_u32 [of "x - (a + of_nat k)" "of_nat k"] by (simp add: bytes_at_def)
  then show "x \<in> bytes_at a N" using x k by (simp add: bytes_at_def)
qed

lemma load_word_same: "same_on (bytes_at a 4) m m' \<Longrightarrow> load_word m' a = load_word m a"
  by (simp add: same_on_def bytes_at_def load_word_def)

lemma load_words_same: "same_on (bytes_at a (4 * n)) m m' \<Longrightarrow> 4 * n < 4294967296 \<Longrightarrow> load_words n a m' = load_words n a m"
proof (induction n arbitrary: a)
  case (Suc n)
  have "bytes_at a 4 \<subseteq> bytes_at a (4 * Suc n)" "bytes_at (a + 4) (4 * n) \<subseteq> bytes_at a (4 * Suc n)"
    using Suc.prems(2) bytes_at_offset [of 0 4 "4 * Suc n" a] bytes_at_offset [of 4 "4 * n" "4 * Suc n" a] by simp_all
  then show ?case using Suc load_word_same [of a m m'] by (simp add: same_on_sub)
qed simp

lemma load_store_words: "4 * length ws < 4294967296 \<Longrightarrow> load_words (length ws) a (store_words ws a m) = ws"
proof (induction ws arbitrary: a m)
  case (Cons w ws)
  have "same_on (bytes_at a 4) (store_word a w m) (store_words ws (a + 4) (store_word a w m))"
  proof (unfold same_on_def, intro ballI store_words_apply)
    fix x assume "x \<in> bytes_at a 4"
    then have k: "unat (x - a) < 4" by (simp add: bytes_at_def)
    have "x - (a + 4) = (x - a) - 4" by (simp only: diff_diff_eq)
    moreover have "unat ((x - a) - 4) = unat (x - a) + 4294967292" using k
      by (simp add: unat_sub_if_size word_size)
    ultimately have "unat (x - (a + 4)) = unat (x - a) + 4294967292" by (simp only:)
    then show "4 * length ws \<le> unat (x - (a + 4))" using Cons.prems by simp
  qed
  then have "load_word (store_words ws (a + 4) (store_word a w m)) a = w"
    using load_word_same load_store_same_word by metis
  then show ?case using Cons by simp
qed simp

lemma load_words_length [simp]: "length (load_words n a m) = n"
  by (induction n arbitrary: a) simp_all

subsection \<open>The frame of an exception\<close>

definition framed :: "u32 set \<Rightarrow> u32 \<Rightarrow> mem \<Rightarrow> bool" where
  "framed S sp m \<longleftrightarrow> (load_word m sp = 0 \<or> load_word m sp = 4) \<and> bytes_at sp (36 + unat (load_word m sp)) \<subseteq> S"

lemma and_4: "(x :: u32) AND 4 = (if bit x 2 then 4 else 0)"
proof -
  have "x AND 2 ^ 2 = (if bit x 2 then 2 ^ 2 else 0)"
    by (rule bit_eqI) (simp only: bit_and_iff bit_exp_iff if_distrib [of "\<lambda>w. bit w _"] bit_0_eq, auto)
  then show ?thesis by simp
qed

lemma pad_cases: "(x :: u32) AND 4 = 0 \<or> x AND 4 = 4"
  by (simp add: and_4)

lemma load_words_5: "load_words 5 a m = [load_word m a, load_word m (a + 4), load_word m (a + 8), load_word m (a + 12), load_word m (a + 16)]"
  by (simp add: eval_nat_numeral add.assoc)

lemma exception_return_same:
  assumes f: "framed S sp m" and s: "same_on S m m'"
  shows "exception_return saved sp m' = exception_return saved sp m" and "framed S sp m'"
proof -
  define p where "p = load_word m sp"
  have p: "p = 0 \<or> p = 4" "bytes_at sp (36 + unat p) \<subseteq> S" using f by (simp_all add: framed_def p_def)
  have w: "load_word m' (sp + of_nat k) = load_word m (sp + of_nat k)" if "k + 4 \<le> 36 + unat p" for k
    using bytes_at_offset [OF that, of sp] p(1) by (intro load_word_same same_on_sub [OF s] subset_trans [OF _ p(2)]) auto
  have ws: "load_words 5 (sp + of_nat k) m' = load_words 5 (sp + of_nat k) m" if "k + 20 \<le> 36 + unat p" for k
    using bytes_at_offset [OF that, of sp] p(1) by (intro load_words_same same_on_sub [OF s] subset_trans [OF _ p(2)]) auto
  have w0: "load_word m' sp = p" using w [of 0] by (simp add: p_def)
  then show "framed S sp m'" using p by (simp add: framed_def)
  have "load_word m' (sp + 4) = load_word m (sp + 4)" using w [of 4] by simp
  then show "exception_return saved sp m' = exception_return saved sp m"
    using p(1) w0 w [of 28] w [of 32] w [of 36] ws [of 8] ws [of 12]
    by (auto simp: exception_return_def p_def [symmetric] Let_def add.assoc)
qed

text \<open>The frame holds the registers, and its bottom is aligned to eight bytes for the C code.\<close>

lemma exception_entry_frame:
  assumes "wf_regs r"
  obtains sp m' where "exception_entry lr r m = (sp, m')" "exception_return (r_saved r) sp m' = r\<lparr>r_pc := lr\<rparr>"
    "load_word m' sp = (r_sp r - 28) AND 4" "sp = r_sp r - 36 - ((r_sp r - 28) AND 4)"
    "\<And>x. x \<notin> bytes_at (r_sp r - 72) 72 \<Longrightarrow> m' x = m x"
proof -
  obtain a0 a1 a2 a3 a4 where sc: "r_scratch r = [a0, a1, a2, a3, a4]"
    using assms by (auto simp: wf_regs_def length_Suc_conv numeral_eq_Suc)
  define p where "p = (r_sp r - 28) AND 4"
  obtain b where b: "r_sp r = b + (36 + p)" by (metis diff_add_cancel)
  define m' where "m' = snd (exception_entry lr r m)"
  have e: "exception_entry lr r m = (b, m')"
    unfolding m'_def by (rule prod_eqI) (simp_all add: exception_entry_def stmdb_def sc Let_def p_def [symmetric], simp add: b)
  have m': "m' = store_words [p, r_lr r] b (store_words (r_scratch r) (b + (8 + p)) (store_words [lr, r_cpsr r] (b + (28 + p)) m))"
    unfolding m'_def by (simp add: exception_entry_def stmdb_def sc Let_def p_def [symmetric], simp add: b algebra_simps)
  have pc: "p = 0 \<or> p = 4" unfolding p_def by (rule pad_cases)
  have bk: "b + numeral k = numeral k + b" for k by (rule add.commute)
  have "exception_return (r_saved r) b m' = r\<lparr>r_pc := lr\<rparr> \<and> load_word m' b = p"
    using pc by (rule disjE) (simp_all add: m' exception_return_def sc Let_def frame_loads frame_loads2 b load_words_5 bk)
  moreover have "m' x = m x" if x: "x \<notin> bytes_at (r_sp r - 72) 72" for x
  proof -
    have chunk: "store_words ws (b + of_nat k + p) n x = n x" if "unat p + k + 4 * length ws \<le> 36 + unat p" for ws k n
    proof (rule store_words_out)
      have "b + of_nat k + p = r_sp r - 72 + of_nat (36 + k)" by (simp add: b)
      moreover have "36 + k + 4 * length ws \<le> 72" using that by simp
      ultimately have "bytes_at (b + of_nat k + p) (4 * length ws) \<subseteq> bytes_at (r_sp r - 72) 72"
        using bytes_at_offset [of "36 + k" "4 * length ws" 72 "r_sp r - 72"] by (simp only:)
      then show "x \<notin> bytes_at (b + of_nat k + p) (4 * length ws)" using x by blast
    qed
    have "store_words [p, r_lr r] b n x = n x" for n
    proof (rule store_words_out)
      have "b = r_sp r - 72 + of_nat (36 - unat p)" using pc by (auto simp: b)
      then have "bytes_at b 8 \<subseteq> bytes_at (r_sp r - 72) 72"
        using bytes_at_offset [of "36 - unat p" 8 72 "r_sp r - 72"] by simp
      then show "x \<notin> bytes_at b (4 * length [p, r_lr r])" using x by auto
    qed
    then show ?thesis unfolding m' using chunk [of 8 "r_scratch r"] chunk [of 28 "[lr, r_cpsr r]"] pc
      by (auto simp: sc add.assoc simp del: store_words.simps)
  qed
  moreover have "b = r_sp r - 36 - p" by (simp add: b)
  ultimately show thesis using that [OF e, folded p_def] by blast
qed

text \<open>The result of a call replaces r0 in the frame and nothing else.\<close>

lemma result_frame:
  assumes f: "framed S sp m"
  shows "exception_return saved sp (store_word (result_slot sp m) x m) =
      (exception_return saved sp m)\<lparr>r_scratch := (r_scratch (exception_return saved sp m))[0 := x]\<rparr>"
    and "framed S sp (store_word (result_slot sp m) x m)" and "bytes_at (result_slot sp m) 4 \<subseteq> S"
proof -
  have p: "load_word m sp = 0 \<or> load_word m sp = 4" "bytes_at sp (36 + unat (load_word m sp)) \<subseteq> S"
    using f by (simp_all add: framed_def)
  have bk: "sp + numeral k = numeral k + sp" for k by (rule add.commute)
  show "exception_return saved sp (store_word (result_slot sp m) x m) =
      (exception_return saved sp m)\<lparr>r_scratch := (r_scratch (exception_return saved sp m))[0 := x]\<rparr>"
    using p(1) by (rule disjE) (simp_all add: exception_return_def result_slot_def Let_def frame_loads frame_loads2 load_words_5 bk)
  have w: "load_word (store_word (result_slot sp m) x m) sp = load_word m sp"
    using p(1) by (rule disjE) (simp_all add: result_slot_def frame_loads frame_loads2 bk)
  show "framed S sp (store_word (result_slot sp m) x m)" using p by (simp add: framed_def w)
  have "bytes_at (result_slot sp m) 4 \<subseteq> bytes_at sp (36 + unat (load_word m sp))"
    using p(1) bytes_at_offset [of 8 4 36 sp] bytes_at_offset [of 12 4 40 sp] by (auto simp: result_slot_def)
  then show "bytes_at (result_slot sp m) 4 \<subseteq> S" using p(2) by blast
qed

subsection \<open>The switch\<close>

definition saved_in :: "u32 set \<Rightarrow> u32 \<Rightarrow> mem \<Rightarrow> bool" where
  "saved_in S sp m \<longleftrightarrow> bytes_at sp 32 \<subseteq> S \<and> framed S (sp + 32) m"

lemma restore_same:
  assumes "saved_in S sp m" and "same_on S m m'"
  shows "restore_context sp m' = restore_context sp m" and "saved_in S sp m'"
proof -
  have "load_words 8 sp m' = load_words 8 sp m"
    using assms by (intro load_words_same) (auto simp: saved_in_def intro: same_on_sub)
  then show "restore_context sp m' = restore_context sp m" "saved_in S sp m'"
    using exception_return_same [OF _ assms(2)] assms(1) by (simp_all add: restore_context_def saved_in_def)
qed

lemma save_restore:
  assumes l: "length saved = 8" and f: "framed S sp m" and s: "bytes_at (sp - 32) 32 \<subseteq> S"
  defines "m' \<equiv> store_words saved (sp - 32) m"
  shows "restore_context (sp - 32) m' = exception_return saved sp m" and "saved_in S (sp - 32) m'"
    and "x \<notin> S \<Longrightarrow> m' x = m x"
proof -
  define F where "F = bytes_at sp (36 + unat (load_word m sp))"
  have fF: "framed F sp m" "F \<subseteq> S" using f by (simp_all add: framed_def F_def)
  have "same_on F m m'"
  proof (unfold same_on_def m'_def, intro ballI store_words_apply)
    fix x assume "x \<in> F"
    then have "unat (x - sp) < 40" using f by (auto simp: F_def framed_def bytes_at_def)
    then have "unat (x - sp + 32) = unat (x - sp) + 32" by (subst unat_add_u32) simp_all
    moreover have "x - (sp - 32) = x - sp + 32" by simp
    ultimately have "unat (x - (sp - 32)) = unat (x - sp) + 32" by (simp only:)
    then show "4 * length saved \<le> unat (x - (sp - 32))" using l by simp
  qed
  note r = exception_return_same [OF fF(1) this]
  have w: "load_words 8 (sp - 32) m' = saved" using load_store_words [of saved "sp - 32" m] l by (simp add: m'_def)
  show "restore_context (sp - 32) m' = exception_return saved sp m" using r(1) w by (simp add: restore_context_def)
  show "saved_in S (sp - 32) m'" using r(2) fF(2) s by (auto simp: saved_in_def framed_def)
  show "x \<notin> S \<Longrightarrow> m' x = m x" using s l by (auto simp: m'_def intro!: store_words_out)
qed

definition core_ok :: "(tid \<Rightarrow> u32 set) \<Rightarrow> core \<Rightarrow> bool" where
  "core_ok stk c \<longleftrightarrow> wf_regs (co_regs c) \<and> co_curr c \<in> co_live c \<and> 0 \<notin> co_live c \<and>
     (\<forall>u \<in> co_live c - {co_curr c}. saved_in (stk u) (co_stack c u) (co_mem c))"

definition stacks_apart :: "(tid \<Rightarrow> u32 set) \<Rightarrow> bool" where
  "stacks_apart stk \<longleftrightarrow> (\<forall>u v. u \<noteq> v \<longrightarrow> stk u \<inter> stk v = {})"

lemma wf_restore [simp]: "wf_regs (restore_context sp m)"
  by (simp add: wf_regs_def restore_context_def exception_return_def Let_def)

lemma leave_ok:
  assumes ok: "core_ok stk c" "stacks_apart stk" and new: "new = 0 \<or> new \<in> co_live c" and l: "length saved = 8"
    and f: "framed (stk (co_curr c)) sp m" and s: "bytes_at (sp - 32) 32 \<subseteq> stk (co_curr c)"
    and o: "\<forall>u \<in> co_live c - {co_curr c}. same_on (stk u) (co_mem c) m"
  defines "c' \<equiv> leave new saved sp m c"
  shows "core_ok stk c'" and "co_live c' = co_live c"
    and "u \<in> co_live c \<Longrightarrow> core_regs c' u = (if u = co_curr c then exception_return saved sp m else core_regs c u)"
proof -
  note sr = save_restore [OF l f s]
  have wf: "wf_regs (exception_return saved sp m)" using l by (simp add: wf_regs_def exception_return_def Let_def)
  define m' where "m' = store_words saved (sp - 32) m"
  have o1: "restore_context (co_stack c u) m = restore_context (co_stack c u) (co_mem c)" "saved_in (stk u) (co_stack c u) m"
    if "u \<in> co_live c - {co_curr c}" for u
    using restore_same [of "stk u" "co_stack c u" "co_mem c" m] ok(1) o that by (simp_all add: core_ok_def)
  have mm: "same_on (stk u) m m'" if "u \<noteq> co_curr c" for u
    using ok(2) that sr(3) by (auto simp: stacks_apart_def same_on_def m'_def)
  have o2: "restore_context (co_stack c u) m' = restore_context (co_stack c u) (co_mem c)" "saved_in (stk u) (co_stack c u) m'"
    if "u \<in> co_live c - {co_curr c}" for u
    using restore_same [OF o1(2) [OF that] mm] o1(1) [OF that] that by simp_all
  have st: "stmdb saved (sp, m) = (sp - 32, m')" using l by (simp add: stmdb_def m'_def Let_def)
  show "co_live c' = co_live c" by (simp add: c'_def leave_def st Let_def)
  show "core_ok stk c'" using ok(1) new wf o1(2) o2(2) sr(2) [folded m'_def]
    by (auto simp: core_ok_def c'_def leave_def st Let_def)
  show "core_regs c' u = (if u = co_curr c then exception_return saved sp m else core_regs c u)" if "u \<in> co_live c"
    using new o1(1) o2(1) sr(1) [folded m'_def] that
    by (auto simp: core_regs_def c'_def leave_def st Let_def)
qed

subsection \<open>Every step\<close>

lemma entry_step:
  assumes ok: "core_ok stk c" "stacks_apart stk" and e: "exception_entry (r_pc (co_regs c)) (co_regs c) (co_mem c) = (sp, m1)"
    and room: "bytes_at (r_sp (co_regs c) - 72) 72 \<subseteq> stk (co_curr c)" and h: "handler_keeps stk c sp m1 m2"
  shows "framed (stk (co_curr c)) sp m2" and "bytes_at (sp - 32) 32 \<subseteq> stk (co_curr c)"
    and "\<forall>u \<in> co_live c - {co_curr c}. same_on (stk u) (co_mem c) m2"
    and "exception_return (r_saved (co_regs c)) sp m2 = co_regs c" and "result_slot sp m2 = result_slot sp m1"
proof -
  let ?r = "co_regs c" and ?S = "stk (co_curr c)"
  define p where "p = (r_sp ?r - 28) AND 4"
  have "wf_regs ?r" using ok(1) by (simp add: core_ok_def)
  from exception_entry_frame [OF this, of "r_pc ?r" "co_mem c"]
  have f: "exception_return (r_saved ?r) sp m1 = ?r" "load_word m1 sp = p" "sp = r_sp ?r - 36 - p"
    "\<And>x. x \<notin> bytes_at (r_sp ?r - 72) 72 \<Longrightarrow> m1 x = co_mem c x" using e by (auto simp: p_def)
  have p: "p = 0 \<or> p = 4" unfolding p_def by (rule pad_cases)
  define F where "F = bytes_at sp (36 + unat p)"
  have "r_sp ?r - sp = 36 + p" by (simp add: f(3))
  then have F: "F = bytes_at sp (unat (r_sp ?r - sp))" using p by (auto simp: F_def)
  have "F \<subseteq> bytes_at (r_sp ?r - 72) 72"
    using p bytes_at_offset [of 36 36 72 "r_sp ?r - 72"] bytes_at_offset [of 32 40 72 "r_sp ?r - 72"] by (auto simp: F_def f(3))
  then have FS: "F \<subseteq> ?S" using room by blast
  have fr: "framed F sp m1" using p f(2) by (simp add: framed_def F_def)
  have "same_on F m1 m2" using h by (simp add: handler_keeps_def F)
  note s = exception_return_same [OF fr this]
  show "framed ?S sp m2" using s(2) FS by (auto simp: framed_def)
  show "exception_return (r_saved ?r) sp m2 = ?r" using s(1) f(1) by simp
  have "load_word m2 sp = load_word m1 sp"
    using p \<open>same_on F m1 m2\<close> bytes_at_offset [of 0 4 "36 + unat p" sp] by (intro load_word_same) (auto simp: F_def elim: same_on_sub)
  then show "result_slot sp m2 = result_slot sp m1" by (simp add: result_slot_def)
  have "bytes_at (sp - 32) 32 \<subseteq> bytes_at (r_sp ?r - 72) 72"
    using p bytes_at_offset [of 4 32 72 "r_sp ?r - 72"] bytes_at_offset [of 0 32 72 "r_sp ?r - 72"] by (auto simp: f(3))
  then show "bytes_at (sp - 32) 32 \<subseteq> ?S" using room by blast
  show "\<forall>u \<in> co_live c - {co_curr c}. same_on (stk u) (co_mem c) m2"
  proof
    fix u assume u: "u \<in> co_live c - {co_curr c}"
    then have "stk u \<inter> ?S = {}" using ok(2) by (auto simp: stacks_apart_def)
    then have "same_on (stk u) (co_mem c) m1" using f(4) room by (auto simp: same_on_def)
    then show "same_on (stk u) (co_mem c) m2" using h u same_on_trans by (auto simp: handler_keeps_def)
  qed
qed

lemma load_words_8: "load_words 8 a m = load_word m a # load_word m (a + 4) # load_word m (a + 8) # load_words 5 (a + 12) m"
  by (simp add: eval_nat_numeral add.assoc)

lemma push_words_out:
  "\<forall>k < length vs. 4 \<le> unat (x - (sp - 4 * of_nat k)) \<Longrightarrow> snd (push_words vs sp m) x = m x"
proof (induction vs arbitrary: sp m)
  case (Cons v vs)
  have "4 \<le> unat (x - sp)" using Cons.prems by fastforce
  moreover have "4 \<le> unat (x - (sp - 4 - 4 * of_nat k))" if "k < length vs" for k
  proof -
    have "sp - 4 - 4 * of_nat k = sp - 4 * of_nat (Suc k)" by simp
    then show ?thesis using Cons.prems that by (metis Suc_less_eq length_Cons)
  qed
  ultimately show ?case using Cons.IH by (simp add: store_word_apply)
qed simp

lemma push_words_fst: "fst (push_words vs sp m) = sp - 4 * of_nat (length vs)"
proof (induction vs arbitrary: sp m)
  case (Cons v vs)
  show ?case by (simp add: Cons.IH)
qed simp

text \<open>The stack a new thread is given looks like that of an interrupted one.\<close>

lemma first_frame:
  assumes s: "stack_setup te sp0 func args cpsr m = (sp, m')" and S: "bytes_at (sp0 - 68) 68 \<subseteq> S"
  shows "restore_context sp m' = \<lparr>r_scratch = [args, 0x01010101, 0x02020202, 0x03030303, 0x12121212],
        r_saved = [0x04040404, 0x05050505, 0x06060606, 0x07070707, 0x08080808, 0x09090909, 0x10101010, 0x11111111],
        r_sp = sp0, r_lr = te, r_pc = func, r_cpsr = cpsr\<rparr>"
    and "saved_in S sp m'" and "x \<notin> S \<Longrightarrow> m' x = m x"
proof -
  obtain b where b: "sp0 = b + 68" by (metis diff_add_cancel)
  have bk: "b + numeral k = numeral k + b" for k by (rule add.commute)
  have sp: "sp = b" and m': "m' = snd (stack_setup te sp0 func args cpsr m)" using s by (auto simp: stack_setup_def b)
  show "restore_context sp m' = \<lparr>r_scratch = [args, 0x01010101, 0x02020202, 0x03030303, 0x12121212],
        r_saved = [0x04040404, 0x05050505, 0x06060606, 0x07070707, 0x08080808, 0x09090909, 0x10101010, 0x11111111],
        r_sp = sp0, r_lr = te, r_pc = func, r_cpsr = cpsr\<rparr>"
    by (simp add: sp m' b stack_setup_def restore_context_def exception_return_def Let_def frame_loads frame_loads2
        load_words_5 load_words_8 bk)
  have w: "load_word m' (b + 32) = 0" by (simp add: m' b stack_setup_def Let_def frame_loads frame_loads2 bk)
  have "bytes_at b 32 \<subseteq> bytes_at b 68" "bytes_at (b + 32) 36 \<subseteq> bytes_at b 68"
    using bytes_at_offset [of 0 32 68 b] bytes_at_offset [of 32 36 68 b] by simp_all
  then show "saved_in S sp m'" using S w by (auto simp: saved_in_def framed_def sp b)
  show "m' x = m x" if "x \<notin> S"
  proof -
    have x: "68 \<le> unat (x - b)" 
    proof (rule ccontr)
      assume "\<not> 68 \<le> unat (x - b)"
      then have "x \<in> bytes_at (sp0 - 68) 68" by (simp add: b bytes_at_def)
      then show False using S that by blast
    qed
    have far: "4 \<le> unat (x - (b + of_nat j))" if "j \<le> 64" for j
    proof -
      have j: "unat (of_nat j :: u32) = j" using that by (simp add: unat_of_nat)
      have "x - (b + of_nat j) = (x - b) - of_nat j" by (simp only: diff_diff_eq)
      then have "unat (x - (b + of_nat j)) = unat (x - b) - j" using x that j unat_sub_u32 [of "of_nat j" "x - b"] by (simp only:)
      then show ?thesis using x that by (simp only:)
    qed
    have k: "b + 64 - 4 * of_nat k = b + of_nat (64 - 4 * k)" if "k < 16" for k using that by (simp add: of_nat_diff)
    have "snd (push_words vs (b + 64) m) x = m x" if "length vs = 16" for vs
    proof (rule push_words_out, intro allI impI)
      fix i assume "i < length vs"
      then have "i < 16" using that by simp
      then show "4 \<le> unat (x - (b + 64 - 4 * of_nat i))" using far [of "64 - 4 * i"] unfolding k [OF \<open>i < 16\<close>] by simp
    qed
    moreover have "\<exists>vs. length vs = 16 \<and> m' = store_word b 0x04040404 (snd (push_words vs (b + 64) m))"
      by (intro exI [of _ "[cpsr, func, 0x12121212, 0x03030303, 0x02020202, 0x01010101, args, te, 0,
            0x11111111, 0x10101010, 0x09090909, 0x08080808, 0x07070707, 0x06060606, 0x05050505]"])
        (simp add: m' stack_setup_def b case_prod_beta push_words_fst add.commute [of b 64] del: push_words.simps)
    ultimately show ?thesis using far [of 0] by (auto simp: store_word_apply)
  qed
qed

lemma core_step_ok:
  assumes "core_step stk c e c'" and ok: "core_ok stk c" "stacks_apart stk" and v: "\<forall>u \<in> co_live c. v u = core_regs c u"
  shows "core_ok stk c' \<and> (\<forall>u \<in> co_live c'. own_core e v u = core_regs c' u)"
  using assms(1)
proof cases
  have curr: "co_curr c \<in> co_live c" "core_regs c (co_curr c) = co_regs c" "wf_regs (co_regs c)" "length (r_saved (co_regs c)) = 8"
    using ok(1) by (auto simp: core_ok_def core_regs_def wf_regs_def)
  have pass: "core_ok stk (leave new (r_saved (co_regs c)) sp m2 c) \<and>
      (\<forall>u \<in> co_live c. v u = core_regs (leave new (r_saved (co_regs c)) sp m2 c) u) \<and>
      co_live (leave new (r_saved (co_regs c)) sp m2 c) = co_live c"
    if "exception_entry (r_pc (co_regs c)) (co_regs c) (co_mem c) = (sp, m1)" "bytes_at (r_sp (co_regs c) - 72) 72 \<subseteq> stk (co_curr c)"
      "handler_keeps stk c sp m1 m2" "new = 0 \<or> new \<in> co_live c" for sp m1 m2 new
  proof -
    note st = entry_step [OF ok that(1-3)]
    show ?thesis using leave_ok [OF ok that(4) curr(4) st(1-3)] st(4) v curr(2) by simp
  qed
  {
    case (exec f m)
    have o: "restore_context (co_stack c u) m = restore_context (co_stack c u) (co_mem c)" "saved_in (stk u) (co_stack c u) m"
      if "u \<in> co_live c - {co_curr c}" for u
      using restore_same [of "stk u" "co_stack c u" "co_mem c" m] ok(1) exec(4) that by (simp_all add: core_ok_def)
    then show ?thesis using ok(1) v exec(3) curr by (auto simp: exec(1,2) core_ok_def core_regs_def)
  next
    case (irq sp m1 m2 new)
    then show ?thesis using pass [of sp m1 m2 new] by (simp add: irq_entry_def)
  next
    case (svc sp m1 m2 new)
    then show ?thesis using pass [of sp m1 m2 new] by (simp add: supervisor_entry_def)
  next
    case (result sp m1 m2 new x)
    have en: "exception_entry (r_pc (co_regs c)) (co_regs c) (co_mem c) = (sp, m1)" using result(3) by (simp add: supervisor_entry_def)
    note st = entry_step [OF ok en result(4,5)]
    note rf = result_frame [OF st(1)]
    have "\<forall>u \<in> co_live c - {co_curr c}. same_on (stk u) (co_mem c) (store_word (result_slot sp m2) x m2)"
    proof
      fix u assume u: "u \<in> co_live c - {co_curr c}"
      then have "stk u \<inter> stk (co_curr c) = {}" using ok(2) by (auto simp: stacks_apart_def)
      then have "same_on (stk u) m2 (store_word (result_slot sp m2) x m2)" using rf(3)
        by (auto simp: same_on_def store_word_apply bytes_at_def)
      then show "same_on (stk u) (co_mem c) (store_word (result_slot sp m2) x m2)" using st(3) u same_on_trans by blast
    qed
    note lv = leave_ok [OF ok result(6) curr(4) rf(2) st(2) this]
    show ?thesis using lv v curr(2) rf(1) [of "r_saved (co_regs c)" x] st(4) by (simp add: result(1,2) st(5) [symmetric])
  next
    case (start t sp0 te func args cpsr sp m)
    note ff = first_frame [OF start(6,5)]
    have ne: "t \<noteq> co_curr c" using start(3) curr(1) by auto
    have same: "same_on (stk u) (co_mem c) m" if "u \<noteq> t" for u
      using ff(3) ok(2) that by (auto simp: stacks_apart_def same_on_def)
    have o: "restore_context (co_stack c u) m = restore_context (co_stack c u) (co_mem c)" "saved_in (stk u) (co_stack c u) m"
      if "u \<in> co_live c - {co_curr c}" for u
    proof -
      have "u \<noteq> t" using that start(3) by blast
      then show "restore_context (co_stack c u) m = restore_context (co_stack c u) (co_mem c)" "saved_in (stk u) (co_stack c u) m"
        using restore_same [OF _ same, of u "co_stack c u"] ok(1) that by (simp_all add: core_ok_def)
    qed
    then show ?thesis using ok(1) v start(3,4) ff(1,2) ne by (auto simp: start(1,2) core_ok_def core_regs_def)
  }
qed

lemma core_run_ok:
  "core_run stk c es c' \<Longrightarrow> core_ok stk c \<Longrightarrow> stacks_apart stk \<Longrightarrow> \<forall>u \<in> co_live c. v u = core_regs c u \<Longrightarrow>
    core_ok stk c' \<and> (\<forall>u \<in> co_live c'. fold own_core es v u = core_regs c' u)"
proof (induction arbitrary: v rule: core_run.induct)
  case (more c e c' es c'')
  have "core_ok stk c'" "\<forall>u \<in> co_live c'. own_core e v u = core_regs c' u"
    using core_step_ok [OF more.hyps(1) more.prems] by blast+
  then show ?case using more.IH [of "own_core e v"] more.prems(2) by simp
qed simp

subsection \<open>Properties\<close>

text \<open>C6. No thread notices an interruption. In any run of threads on stacks that are stacks_apart, with
  interrupts and system calls at any instruction, any choice of the next thread, handlers that use the stack
  below and start threads, every thread has at every moment the registers it would have with a processor of
  its own: r0 to r12, stack pointer, link register, program counter and status. A system call changes r0 alone, and a
  new thread begins at its function.\<close>

theorem preemption_transparent:
  assumes "core_run stk c es c'" and "stacks_apart stk" and "core_ok stk c" and "t \<in> co_live c'"
  shows "core_regs c' t = fold own_core es (core_regs c) t"
  using core_run_ok [OF assms(1,3,2), of "core_regs c"] assms(4) by simp

lemma dvd_unat_sub: "d dvd unat x \<Longrightarrow> d dvd unat c \<Longrightarrow> d dvd 4294967296 \<Longrightarrow> d dvd unat (x - c)"
  for x c :: u32
  by (auto simp: unat_sub_if_size word_size intro!: dvd_diff_nat dvd_add)

text \<open>The C code of the handlers runs on a stack aligned to eight bytes, as its calling convention asks for.\<close>

lemma handler_stack_aligned:
  assumes "4 dvd unat (r_sp r)" and "wf_regs r"
  shows "8 dvd unat (fst (exception_entry lr r m))"
proof -
  obtain sp m' where e: "exception_entry lr r m = (sp, m')" "sp = r_sp r - 36 - ((r_sp r - 28) AND 4)"
    using exception_entry_frame [OF assms(2)] by metis
  define s where "s = r_sp r - 28"
  have sp: "sp = (s - (s AND 4)) - 8" using e(2) by (simp add: s_def)
  have d4: "4 dvd unat s" unfolding s_def using assms(1) by (rule dvd_unat_sub) simp_all
  have "bit (unat s) 2 \<longleftrightarrow> odd (unat s div 4)" by (simp add: bit_iff_odd)
  then have b: "bit s 2 \<longleftrightarrow> odd (unat s div 4)" by (simp add: bit_unsigned_iff)
  have "8 dvd unat (s - (s AND 4))"
  proof (cases "bit s 2")
    case True
    then have o: "odd (unat s div 4)" using b by simp
    then have "4 \<le> unat s" by (cases "unat s < 4") auto
    then have "unat (s - 4) = unat s - 4" using unat_sub_u32 [of 4 s] by simp
    moreover have "8 dvd unat s - 4" using o d4 by presburger
    ultimately show ?thesis using True by (simp add: and_4)
  next
    case False
    then have "even (unat s div 4)" using b by simp
    then have "8 dvd unat s" using d4 by presburger
    then show ?thesis using False by (simp add: and_4)
  qed
  then show ?thesis unfolding e(1) sp fst_conv by (rule dvd_unat_sub) simp_all
qed

text \<open>
  What \<^verbatim>\<open>supervisor_exception\<close> finds in the frame of the call, whatever the alignment of the stack: the arguments are
  r0 to r3 and the top of the caller's stack, the number of the call is in the instruction.
\<close>

lemma supervisor_call:
  assumes wf: "wf_regs r" and e: "supervisor_entry r m = (sp, m1)" and k: "kmem (k_mm k) = m1"
  defines "answer \<equiv> \<lambda>v k'. k'\<lparr>k_mm := (k_mm k')\<lparr>kmem := store_word (result_slot sp m1) v (kmem (k_mm k'))\<rparr>\<rparr>"
  shows "supervisor_exception te us sp k =
    (if m1 (r_pc r - 4) = SYSCALL_SLEEP then
       res_bind (sched_thread_sleep (r_scratch r ! 0) us (k_rq k)) (\<lambda>rq'. Inr (k\<lparr>k_rq := rq'\<rparr>))
     else if m1 (r_pc r - 4) = SYSCALL_CREATE_THREAD then
       res_bind (create_thread te (r_scratch r ! 0) (r_scratch r ! 1) (r_scratch r ! 2) (r_scratch r ! 3) (load_word m1 (r_sp r)) k)
         (\<lambda>(t, k'). Inr (answer t k'))
     else if m1 (r_pc r - 4) = SYSCALL_SBRK then
       res_bind (sys_set_break (r_scratch r ! 0) k) (\<lambda>(x, k'). Inr (answer x k'))
     else Inr k)"
proof -
  from exception_entry_frame [OF wf, of "r_pc r" m]
  have f: "exception_return (r_saved r) sp m1 = r" "load_word m1 sp = (r_sp r - 28) AND 4" "sp = r_sp r - 36 - ((r_sp r - 28) AND 4)"
    using e by (auto simp: supervisor_entry_def)
  have p: "load_word m1 sp = 0 \<or> load_word m1 sp = 4" unfolding f(2) by (rule pad_cases)
  define slot where "slot = result_slot sp m1"
  have s8: "sp + 8 + load_word m1 sp = slot" using p by (auto simp: slot_def result_slot_def)
  have s8': "sp + load_word m1 sp = slot - 8" by (simp add: s8 [symmetric])
  have a: "r_scratch r = load_words 5 slot m1" "r_pc r = load_word m1 (slot + 20)" "r_sp r = slot + 28"
    using arg_cong [OF f(1), of r_scratch] arg_cong [OF f(1), of r_pc] arg_cong [OF f(1), of r_sp]
    by (simp_all add: exception_return_def Let_def s8 s8' add.commute [of slot])
  have w: "load_word m1 slot = r_scratch r ! 0" "load_word m1 (slot + 4) = r_scratch r ! 1" "load_word m1 (slot + 8) = r_scratch r ! 2"
    "load_word m1 (slot + 12) = r_scratch r ! 3" "load_word m1 (slot + 28) = load_word m1 (r_sp r)"
    by (simp_all add: a load_words_5)
  have sl: "(if load_word m1 sp \<noteq> 0 then sp + 12 else sp + 8) = slot" by (simp add: slot_def result_slot_def)
  show ?thesis unfolding supervisor_exception_def k Let_def sl w a(2) [symmetric] answer_def slot_def [symmetric]
    by (rule refl)
qed

subsection \<open>Two threads\<close>

definition demo_stacks :: "tid \<Rightarrow> u32 set" where
  "demo_stacks t = (if t = 1 then bytes_at 0x1000 0x1000 else if t = 2 then bytes_at 0x3000 0x1000 else {})"

definition demo_regs :: regs where
  "demo_regs = \<lparr>r_scratch = [1, 2, 3, 4, 5], r_saved = [6, 7, 8, 9, 10, 11, 12, 13], r_sp = 0x1F00, r_lr = 14, r_pc = 0x8000, r_cpsr = 0x1F\<rparr>"

definition demo_core :: core where
  "demo_core = \<lparr>co_regs = demo_regs, co_mem = \<lambda>_. 0, co_curr = 1, co_stack = \<lambda>_. 0, co_live = {1}\<rparr>"

lemma bytes_at_unat: "unat a + n \<le> 4294967296 \<Longrightarrow> x \<in> bytes_at a n \<longleftrightarrow> unat a \<le> unat x \<and> unat x < unat a + n"
proof
  assume n: "unat a + n \<le> 4294967296" and x: "x \<in> bytes_at a n"
  have "unat (x - a + a) = unat (x - a) + unat a" using n x by (intro unat_add_u32) (simp add: bytes_at_def)
  then show "unat a \<le> unat x \<and> unat x < unat a + n" using x by (simp add: bytes_at_def)
next
  assume "unat a \<le> unat x \<and> unat x < unat a + n"
  then show "x \<in> bytes_at a n" using unat_sub_u32 [of a x] by (auto simp: bytes_at_def)
qed

lemma handler_keeps_refl: "handler_keeps stk c sp m m"
  by (simp add: handler_keeps_def same_on_def)

lemma preemption_transparent_witness:
  "\<exists>c' r2. core_run demo_stacks demo_core [Begun 2 r2, Unseen, Result 2 77] c' \<and> r_scratch r2 = [42, 0x01010101, 0x02020202, 0x03030303, 0x12121212] \<and>
     core_regs c' 1 = demo_regs \<and> core_regs c' 2 = r2\<lparr>r_scratch := [77, 0x01010101, 0x02020202, 0x03030303, 0x12121212]\<rparr>"
proof -
  have ap: "stacks_apart demo_stacks" by (auto simp: stacks_apart_def demo_stacks_def bytes_at_unat)
  have ok: "core_ok demo_stacks demo_core" by (simp add: core_ok_def demo_core_def demo_regs_def wf_regs_def)
  define r2 where "r2 = \<lparr>r_scratch = [42, 0x01010101, 0x02020202, 0x03030303, 0x12121212],
     r_saved = [0x04040404, 0x05050505, 0x06060606, 0x07070707, 0x08080808, 0x09090909, 0x10101010, 0x11111111],
     r_sp = 0x3F00, r_lr = 0x500, r_pc = 0x600, r_cpsr = KERNEL_THREAD_CPSR\<rparr>"
  obtain sp m where st: "stack_setup 0x500 0x3F00 0x600 42 KERNEL_THREAD_CPSR (co_mem demo_core) = (sp, m)" by fastforce
  define c1 where "c1 = demo_core\<lparr>co_mem := m, co_stack := (co_stack demo_core)(2 := sp), co_live := insert 2 (co_live demo_core)\<rparr>"
  have s1: "core_step demo_stacks demo_core (Begun 2 r2) c1" unfolding c1_def r2_def
    by (rule core_step.start [OF _ _ _ st]) (auto simp: demo_core_def demo_stacks_def bytes_at_unat)
  have f1: "co_live c1 = {1, 2}" "co_curr c1 = 1" "co_regs c1 = demo_regs" by (auto simp: c1_def demo_core_def)
  obtain sp1 m1 where e1: "irq_entry (co_regs c1) (co_mem c1) = (sp1, m1)" by fastforce
  define c2 where "c2 = leave 2 (r_saved (co_regs c1)) sp1 m1 c1"
  have s2: "core_step demo_stacks c1 Unseen c2" unfolding c2_def
    by (rule core_step.irq [OF e1 _ handler_keeps_refl]) (auto simp: f1 demo_regs_def demo_stacks_def bytes_at_unat)
  have f2: "co_live c2 = {1, 2}" "co_curr c2 = 2" by (simp_all add: c2_def leave_def case_prod_beta Let_def f1)
  have ok1: "core_ok demo_stacks c1 \<and> (\<forall>u \<in> co_live c1. own_core (Begun 2 r2) (core_regs demo_core) u = core_regs c1 u)"
    by (rule core_step_ok [OF s1 ok ap]) simp
  have ok2: "core_ok demo_stacks c2 \<and> (\<forall>u \<in> co_live c2. own_core Unseen (core_regs c1) u = core_regs c2 u)"
    by (rule core_step_ok [OF s2 _ ap]) (simp_all add: ok1)
  have r2: "co_regs c2 = r2"
  proof -
    have "core_regs c2 2 = core_regs c1 2" using ok2 f2(1) by simp
    also have "\<dots> = r2" using ok1 f1(1) by simp
    finally show ?thesis using f2(2) by (simp add: core_regs_def)
  qed
  obtain sp2 m2 where e2: "supervisor_entry (co_regs c2) (co_mem c2) = (sp2, m2)" by fastforce
  have room: "bytes_at (r_sp (co_regs c2) - 72) 72 \<subseteq> demo_stacks (co_curr c2)"
    by (auto simp: f2 r2 r2_def demo_stacks_def bytes_at_unat)
  define c3 where "c3 = leave 1 (r_saved (co_regs c2)) sp2 (store_word (result_slot sp2 m2) 77 m2) c2"
  have s3: "core_step demo_stacks c2 (Result 2 77) c3"
    using core_step.result [where new = 1 and x = 77, OF e2, of demo_stacks m2] room handler_keeps_refl [of demo_stacks c2 sp2 m2]
    by (simp add: c3_def f2)
  have f3: "co_live c3 = {1, 2}" by (simp add: c3_def leave_def case_prod_beta Let_def f2)
  have run: "core_run demo_stacks demo_core [Begun 2 r2, Unseen, Result 2 77] c3"
    using s1 s2 s3 by (auto intro!: core_run.intros)
  have "core_regs demo_core 1 = demo_regs" by (simp add: core_regs_def demo_core_def)
  then show ?thesis using preemption_transparent [OF run ap ok, of 1] preemption_transparent [OF run ap ok, of 2] f3 run
    by (intro exI [of _ c3] exI [of _ r2]) (simp add: r2_def)
qed

end
