(* ===== verification/Listing.thy ===== *)
theory Listing
  imports Fault Loader FatRead Disk Ipv4 Window Ttf
begin

text \<open>
  What the kernel prints about its structures: program and section headers (\<^verbatim>\<open>kernel/elf.c\<close>), files
  (\<^verbatim>\<open>fs/fat.c\<close>), disks and partitions (\<^verbatim>\<open>fs/disk.c\<close>), the addresses of an interface (\<^verbatim>\<open>net/ip.c\<close>), screen regions
  (\<^verbatim>\<open>gfx/window.c\<close>) and queues (\<^verbatim>\<open>kernel/sched.c\<close>); and the font thread of \<^verbatim>\<open>gfx/ttf.c\<close>, which lists a
  directory and parses a font file. A listing is the list of the calls of \<^verbatim>\<open>print\<close>.
\<close>

subsection \<open>Program headers\<close>

definition text_of :: "string \<Rightarrow> arg" where
  "text_of s = Str (Some (str_bytes s))"

definition line_feed :: printed where
  "line_feed = [([10], [])]"

definition elf_type_str :: "string list" where
  "elf_type_str = [''ET_NONE'', ''ET_REL'', ''ET_EXEC'', ''ET_DYN'', ''ET_CORE'']"

definition sect_type_str :: "string list" where
  "sect_type_str = [''SHT_NULL'', ''SHT_PROGBITS'', ''SHT_SYMTAB'', ''SHT_STRTAB'', ''SHT_RELA'', ''SHT_HASH'', ''SHT_DYNAMIC'',
     ''SHT_NOTE'', ''SHT_NOBITS'', ''SHT_REL'', ''SHT_SHLIKB'', ''SHT_DYNSYM'']"

definition prog_type_str :: "string list" where
  "prog_type_str = [''PT_NULL'', ''PT_LOAD'', ''PT_DYNAMIC'', ''PT_INTERP'', ''PT_NOTE'', ''PT_SHLIB'', ''PT_PHDR'']"

text \<open>A dump of bytes, \<open>col\<close> to a line.\<close>

definition print_mem :: "mem \<Rightarrow> u32 \<Rightarrow> u32 \<Rightarrow> u32 \<Rightarrow> printed" where
  "print_mem m addr sz col =
     concat (map (\<lambda>j. (str_bytes ''%02X '', [Num (ucast (m (addr + of_nat j)))]) #
       (if (of_nat (j + 1) :: u32) mod col = 0 then line_feed else [])) [0..<unat sz])"

text \<open>\<^verbatim>\<open>mem_dump\<close> of \<^verbatim>\<open>lib/mem.c\<close> does the same, in hexadecimal or as characters.\<close>

definition mem_dump :: "mem \<Rightarrow> u32 \<Rightarrow> u32 \<Rightarrow> u32 \<Rightarrow> bool \<Rightarrow> printed" where
  "mem_dump m src sz col hex =
     concat (map (\<lambda>i. (str_bytes (if hex then ''%02x '' else ''%c''), [Num (ucast (m (src + of_nat i)))]) #
       (if (of_nat (i + 1) :: u32) mod col = 0 then line_feed else [])) [0..<unat sz])"

definition field_line :: "string \<Rightarrow> u32 \<Rightarrow> u8 list \<times> arg list" where
  "field_line name v = (text_line (name @ '': %08X''), [Num v])"

definition type_line :: "string list \<Rightarrow> u32 \<Rightarrow> (u8 list \<times> arg list) res" where
  "type_line names type =
     (if type \<le> 11 then res_bind (read_at names (unat type)) (\<lambda>n. Inr (text_line ''Type: %s'', [text_of n]))
      else Inr (text_line ''Unknown'', []))"

text \<open>The words of the header at \<open>ptr\<close>; \<open>str_table\<close> gives the text at an offset of the string table.\<close>

definition print_sect_header :: "mem \<Rightarrow> u32 \<Rightarrow> (u32 \<Rightarrow> u8 list) \<Rightarrow> printed res" where
  "print_sect_header m ptr str_table =
     (let f = (\<lambda>i. load_word m (ptr + 4 * i)) in
      res_bind (type_line sect_type_str (f 1)) (\<lambda>t.
        Inr ([(text_line ''Section: %s'', [Str (Some (str_table (f 0)))]), field_line ''Name'' (f 0), t,
              field_line ''Flags'' (f 2), field_line ''Addr'' (f 3), field_line ''Offset'' (f 4), field_line ''Size'' (f 5),
              field_line ''Link'' (f 6), field_line ''Info'' (f 7), field_line ''Addralign'' (f 8),
              (text_line ''Entsize: %08X'' @ [10], [Num (f 9)])])))"

definition print_prog_header :: "mem \<Rightarrow> u32 \<Rightarrow> printed res" where
  "print_prog_header m ptr =
     (let f = (\<lambda>i. load_word m (ptr + 4 * i)) in
      res_bind (type_line prog_type_str (f 0)) (\<lambda>t.
        Inr [t, field_line ''Offset'' (f 1), field_line ''Vaddr'' (f 2), field_line ''Paddr'' (f 3), field_line ''Filesz'' (f 4),
             field_line ''Memsz'' (f 5), field_line ''Flags'' (f 6), field_line ''Align'' (f 7)]))"

subsection \<open>Files, disks and addresses\<close>

definition NW :: u32 where "NW = 20"
definition DW :: u32 where "DW = 16"
definition TW :: u32 where "TW = 10"

definition file_header :: printed where
  "file_header =
     [(text_line ''%-*s %-*s %-*s Size [bytes]'', [Num NW, text_of ''Name'', Num DW, text_of ''Date modified'', Num TW, text_of ''Type'']),
      (replicate 61 0x2D @ [10], [])]"

definition file_print :: "file_info \<Rightarrow> printed" where
  "file_print info =
     [(str_bytes ''%-*s '', [Num NW, Str (Some (fi_name info))]),
      (str_bytes ''%02d/%02d/%04d %02d:%02d '',
         [Num (ucast (fd_day (fi_write_date info))), Num (ucast (fd_month (fi_write_date info))),
          Num (ucast (fd_year (fi_write_date info))), Num (ucast (ft_hour (fi_write_time info))),
          Num (ucast (ft_min (fi_write_time info)))]),
      (str_bytes ''%-*s'', [Num TW, text_of (if fi_attr info AND ATTR_DIR \<noteq> 0 then ''folder'' else ''file'')]),
      (str_bytes '' %u'', [Num (fi_size info)])] @ line_feed"

definition list_disks :: "sys_disk \<Rightarrow> printed" where
  "list_disks s = (text_line ''Disks '', []) # map (\<lambda>d. (text_line ''> %s'', [Str (Some (dk_name d))])) (sd_disks s)"

definition list_partitions :: "sys_disk \<Rightarrow> printed" where
  "list_partitions s =
     (text_line ''Partitions '', []) #
     map (\<lambda>p. let pt = the_partition s p in (text_line ''> %s %s'', [Str (Some (pt_name pt)), Str (Some (pt_label pt))])) (sd_partitions s)"

definition ip_line :: "string \<Rightarrow> u32 \<Rightarrow> u8 list \<times> arg list" where
  "ip_line name ip = (text_line ''%-16s: %s'', [text_of name, Str (Some (ipv4_to_str ip))])"

definition ip_print :: "ip_struct \<Rightarrow> printed" where
  "ip_print ip =
     [ip_line ''Our IP addr'' (ip_our_ip ip), ip_line ''Subnet mask'' (ip_subnet_mask ip)] @
     map (\<lambda>i. ip_line (if i = 0 then ''Gateway'' else '''') (ip_server_ip ip ! i)) [0..<length (ip_server_ip ip)]"

definition print_regions :: "screen \<Rightarrow> printed" where
  "print_regions s =
     map (\<lambda>r. (text_line ''Region > X %d Y %d W %d H %d'',
       [Num (ucast (rg_x r)), Num (ucast (rg_y r)), Num (ucast (rg_w r)), Num (ucast (rg_h r))])) (sc_update_list s)"

definition print_queue :: "tid list \<Rightarrow> kernel \<Rightarrow> printed" where
  "print_queue q k = map (\<lambda>t. (str_bytes ''%d '', [Num (t_pid (threads (k_rq k) t))])) q @ line_feed"

subsection \<open>Banner, status register and the end of a thread\<close>

definition logo :: "u8 list" where
  "logo = [
     44, 45, 45, 45, 46, 111, 124, 32, 32, 32, 32, 32, 32, 32, 32, 32, 32, 32, 32, 32, 32, 32, 32, 32,
     32, 32, 44, 45, 45, 45, 46, 44, 45, 45, 45, 46, 10, 124, 32, 32, 32, 32, 46, 124, 45, 45, 45, 32,
     44, 45, 45, 45, 46, 46, 32, 32, 32, 46, 44, 45, 45, 45, 46, 124, 32, 32, 32, 124, 96, 45, 45, 45,
     46, 10, 124, 32, 32, 32, 32, 124, 124, 32, 32, 32, 32, 124, 32, 32, 32, 32, 124, 32, 32, 32, 124, 96,
     45, 45, 45, 46, 124, 32, 32, 32, 124, 32, 32, 32, 32, 124, 10, 96, 45, 45, 45, 39, 96, 96, 45, 45,
     45, 39, 96, 32, 32, 32, 32, 96, 45, 45, 45, 39, 96, 45, 45, 45, 39, 96, 45, 45, 45, 39, 96, 45,
     45, 45, 39]"

definition print_logo :: printed where
  "print_logo = map (\<lambda>b. (str_bytes ''%c'', [Num (ucast b)])) logo @ line_feed"

definition print_cpsr :: "u32 \<Rightarrow> printed" where
  "print_cpsr cpsr = [(text_line ''CPSR => %8b'', [Num cpsr])]"

text \<open>A thread that ends reports its number and then sleeps again and again; it is never deleted.\<close>

definition exit_line :: "rq \<Rightarrow> u32 \<Rightarrow> printed" where
  "exit_line rq status_code =
     [(text_line ''Quitting  PID: %d with status %d'', [Num (t_pid (threads rq (get_curr_thread rq))), Num status_code])]"

definition exit_turn :: "u32 \<Rightarrow> rq \<Rightarrow> rq res" where
  "exit_turn timer_us = sched_thread_sleep 500 timer_us"

subsection \<open>The font thread\<close>

text \<open>
  The listing of a directory. The loop ends when an entry cannot be read or there is none after it; \<open>fuel\<close> bounds
  the number of entries, None meaning that it was not enough.
\<close>

definition next_entry :: "sys_disk \<Rightarrow> handle \<Rightarrow> (int \<times> handle) res" where
  "next_entry s h =
     res_bind (with_volume s (fst h) (\<lambda>d ft. get_next_valid_entry d ft (snd h))) (\<lambda>(err, dir). Inr (err, (fst h, dir)))"

fun list_entries :: "nat \<Rightarrow> sys_disk \<Rightarrow> handle \<Rightarrow> file_info \<Rightarrow> printed res option" where
  "list_entries 0 s h info = None"
| "list_entries (Suc fuel) s h info =
     (case dir_read s h info of
        Inl e \<Rightarrow> Some (Inl e)
      | Inr (err, info', h') \<Rightarrow>
          if err \<noteq> 0 then Some (Inr [])
          else case next_entry s h' of
            Inl e \<Rightarrow> Some (Inl e)
          | Inr (err, h'') \<Rightarrow>
              if err \<noteq> 0 then Some (Inr (file_print info'))
              else map_option (\<lambda>r. res_bind r (\<lambda>out. Inr (file_print info' @ out))) (list_entries fuel s h'' info'))"

text \<open>\<open>fresh\<close> is what the fresh 50000 bytes of memory hold; the file is opened without a test for the null pointer.\<close>

definition ttf_thread :: "nat \<Rightarrow> sys_disk \<Rightarrow> file_info \<Rightarrow> u8 list \<Rightarrow> ttf_info \<Rightarrow> (printed \<times> int \<times> ttf_info) res option" where
  "ttf_thread fuel s info fresh ti =
     (case dir_open s (str_bytes ''/sda2/fonts'') of
        Inl e \<Rightarrow> Some (Inl e)
      | Inr None \<Rightarrow> Some (Inl (Panic ''Cannot open file''))
      | Inr (Some dir) \<Rightarrow>
          map_option (\<lambda>r. res_bind r (\<lambda>out.
            res_bind (file_open s (str_bytes ''/sda2/fonts/karla.ttf'')) (\<lambda>f.
              case f of
                None \<Rightarrow> Inl NullPointer
              | Some h \<Rightarrow>
                  res_bind (file_read s h 50000) (\<lambda>(data, err, _).
                  if err \<noteq> 0 then Inl (Panic ''Error'')
                  else
                    let cnt = of_nat (length data) in
                    res_bind (parse_ttf (data @ drop (length data) fresh) cnt ti) (\<lambda>(status, ti').
                      Inr ([(text_line ''Starting thread'', [])] @ out @ [(text_line ''Bytes read => %d'', [Num cnt])], status, ti'))))))
            (list_entries fuel s dir info))"


end
