(* ===== verification/Compositor.thy ===== *)
theory Compositor
  imports Listing
begin

text \<open>
  \<^verbatim>\<open>window_init\<close> of \<^verbatim>\<open>gfx/window.c\<close>, the demonstration with four windows, and what the compositor as a whole
  does: the transfer that \<^verbatim>\<open>build_dma_transfer\<close> builds from regions that tile the windows copies to every pixel of the
  screen the pixel of the window in front.
\<close>

subsection \<open>The windows of \<open>window_init\<close>\<close>

text \<open>A frame buffer is 480 rows of 800 pixels.\<close>

fun fill_row :: "nat \<Rightarrow> nat \<Rightarrow> u32 \<Rightarrow> u32 list \<Rightarrow> u32 list res" where
  "fill_row 0 i c b = Inr b"
| "fill_row (Suc n) i c b = res_bind (write_at b i c) (fill_row n (i + 1) c)"

fun fill_rows :: "nat \<Rightarrow> nat \<Rightarrow> nat \<Rightarrow> u32 \<Rightarrow> u32 list \<Rightarrow> u32 list res" where
  "fill_rows 0 i w c b = Inr b"
| "fill_rows (Suc n) i w c b = res_bind (fill_row w i c b) (fill_rows n (i + 800) w c)"

definition fill :: "u32 list \<Rightarrow> u32 \<Rightarrow> u16 \<Rightarrow> u16 \<Rightarrow> u16 \<Rightarrow> u16 \<Rightarrow> u32 list res" where
  "fill b c x y w h = fill_rows (unat h) (unat y * 800 + unat x) (unat w) c b"

definition done_callback :: "lcd_layer list \<Rightarrow> (printed \<times> lcd_layer list) res" where
  "done_callback lys = res_bind (lcd_switch_screenbuffer 2 lys) (\<lambda>lys'. Inr ([(text_line ''JEYE'', [])], lys'))"

text \<open>\<open>addr\<close> is the address of a window on the stack, \<open>buf\<close> that of its frame buffer.\<close>

definition init_window :: "u32 \<Rightarrow> u32 \<Rightarrow> u16 \<Rightarrow> u16 \<Rightarrow> u16 \<Rightarrow> u16 \<Rightarrow> window" where
  "init_window addr buf x y w h = \<lparr>win_addr = addr, win_x = x, win_y = y, win_h = h, win_w = w, fb_data = buf, fb_w = 800\<rparr>"

definition init_windows :: "(nat \<Rightarrow> u32) \<Rightarrow> (nat \<Rightarrow> u32) \<Rightarrow> window list" where
  "init_windows addr buf =
     [init_window (addr 0) (buf 0) 0 0 200 200, init_window (addr 1) (buf 1) 200 200 200 200,
      init_window (addr 2) (buf 2) 100 100 200 200, init_window (addr 3) (buf 3) 120 120 20 20]"

definition init_buffers :: "u32 list list res" where
  "init_buffers =
     res_bind (fill (replicate 384000 0x80808080) (get_rgba 50 0 0 0xFF) 0 0 40 40) (\<lambda>a.
     res_bind (fill (replicate 384000 0xFFFFFFFF) (get_rgba 50 0 0 0xFF) 0 0 200 40) (\<lambda>b.
     res_bind (fill (replicate 384000 0xAAAAAAAA) (get_rgba 50 0 0 0xFF) 0 0 40 40) (\<lambda>c.
     res_bind (fill (replicate 384000 0xFFFFFFFF) (get_rgba 50 0 0xFF 0xFF) 0 0 40 40) (\<lambda>d. Inr [a, b, c, d]))))"

definition init_screen :: "(nat \<Rightarrow> u32) \<Rightarrow> (nat \<Rightarrow> u32) \<Rightarrow> screen \<Rightarrow> screen res" where
  "init_screen addr buf s =
     (let ws = init_windows addr buf in
      update_regions (add_window (ws ! 3) (add_window (ws ! 2) (add_window (ws ! 0) (add_window (ws ! 1) (screen_init s))))))"

text \<open>\<open>pool\<close> is the address of the descriptors, \<open>req_addr\<close> that of the request and \<open>callback\<close> that of \<open>done_callback\<close>.\<close>

definition window_init ::
    "(nat \<Rightarrow> u32) \<Rightarrow> (nat \<Rightarrow> u32) \<Rightarrow> u32 \<Rightarrow> u32 \<Rightarrow> u32 \<Rightarrow> lcd_layer list \<Rightarrow> screen \<Rightarrow> dma_sys \<Rightarrow>
     (printed \<times> u32 list list \<times> dma_desc3 list \<times> lcd_layer list \<times> screen \<times> dma_sys) res" where
  "window_init addr buf pool req_addr callback lys s0 dma =
     res_bind init_buffers (\<lambda>bufs.
     res_bind (init_screen addr buf s0) (\<lambda>s1.
     res_bind (get_new_screenbuffer lys s1) (\<lambda>(s2, lys').
     res_bind (build_dma_transfer s2 pool 0) (\<lambda>descs.
     case get_dma_channel dma of (err, ch, dma1) \<Rightarrow>
       if err \<noteq> 0 then Inl (Panic ''ok'')
       else res_bind (dma_submit_master_req \<lparr>mr_desc = va_to_pa pool, mr_type = DMA_DESC_TYPE_3, mr_src_update = 1,
                mr_dest_update = 1, mr_desc_fetch = 1, mr_done = callback\<rparr> req_addr ch dma1) (\<lambda>dma2.
         Inr ([(text_line ''Printing regions'', [])] @ print_regions s1 @ [(text_line ''OK'', [])], bufs, descs, lys', s2, dma2))))))"

text \<open>The regions of the four windows.\<close>

lemma init_screen_regions:
  "\<exists>s'. init_screen addr buf s = Inr s' \<and> map (\<lambda>r. (rg_x r, rg_y r, rg_w r, rg_h r)) (sc_update_list s') =
     [(120, 120, 20, 20), (140, 120, 160, 20), (100, 120, 20, 20), (100, 140, 200, 160), (100, 100, 200, 20),
      (300, 200, 100, 100), (200, 300, 200, 100), (0, 100, 100, 100), (0, 0, 200, 100)]"
  by (simp add: init_screen_def init_windows_def init_window_def screen_init_def add_window_def update_regions_def Let_def
      add_window_region_def split_region_def alloc_update_region_def UPDATE_REGION_POOL_SIZE_def assert_that_def)

lemma fill_row_exact:
  "i + n \<le> length b \<Longrightarrow> \<exists>b'. fill_row n i c b = Inr b' \<and> length b' = length b \<and>
     (\<forall>k < length b. b' ! k = (if i \<le> k \<and> k < i + n then c else b ! k))"
proof (induction n arbitrary: i b)
  case (Suc n)
  have "i < length b" "i + 1 + n \<le> length (b[i := c])" using Suc.prems by simp_all
  from Suc.IH [OF this(2)] this(1) show ?case by (auto simp: write_at_def nth_list_update)
qed auto

text \<open>\<^verbatim>\<open>fill\<close> paints exactly the rectangle.\<close>

lemma fill_exact:
  assumes "length b = 384000" and "unat x + unat w \<le> 800" and "unat y + unat h \<le> 480"
  shows "\<exists>b'. fill b c x y w h = Inr b' \<and> length b' = 384000 \<and>
    (\<forall>px < 800. \<forall>py < 480. b' ! (py * 800 + px) =
       (if unat x \<le> px \<and> px < unat x + unat w \<and> unat y \<le> py \<and> py < unat y + unat h then c else b ! (py * 800 + px)))"
proof -
  have "\<exists>b'. fill_rows n (r * 800 + unat x) (unat w) c b = Inr b' \<and> length b' = 384000 \<and>
    (\<forall>px < 800. \<forall>py < 480. b' ! (py * 800 + px) =
       (if unat x \<le> px \<and> px < unat x + unat w \<and> r \<le> py \<and> py < r + n then c else b ! (py * 800 + px)))"
    if "r + n \<le> 480" "length b = 384000" for n r b using that
  proof (induction n arbitrary: r b)
    case (Suc n)
    have l: "r * 800 + unat x + unat w \<le> length b" using Suc.prems assms(2) by simp
    obtain b1 where b1: "fill_row (unat w) (r * 800 + unat x) c b = Inr b1" "length b1 = 384000"
      "\<forall>k < 384000. b1 ! k = (if r * 800 + unat x \<le> k \<and> k < r * 800 + unat x + unat w then c else b ! k)"
      using fill_row_exact [OF l] Suc.prems(2) by auto
    have row: "(r * 800 + unat x \<le> py * 800 + px \<and> py * 800 + px < r * 800 + unat x + unat w) \<longleftrightarrow>
        (py = r \<and> unat x \<le> px \<and> px < unat x + unat w)" if "px < 800" for px py
    proof -
      show ?thesis
      proof (cases py r rule: linorder_cases)
        case less
        then have "Suc py \<le> r" by simp
        then have "Suc py * 800 \<le> r * 800" by (rule mult_le_mono1)
        then show ?thesis using less that by simp
      next
        case greater
        then have "Suc r \<le> py" by simp
        then have "Suc r * 800 \<le> py * 800" by (rule mult_le_mono1)
        then show ?thesis using greater assms(2) by simp
      qed auto
    qed
    have f: "b1 ! (py * 800 + px) = (if py = r \<and> unat x \<le> px \<and> px < unat x + unat w then c else b ! (py * 800 + px))"
      if "px < 800" "py < 480" for px py
      using b1(3) [rule_format, of "py * 800 + px"] that row [OF that(1), of py] by simp
    obtain b2 where b2: "fill_rows n (Suc r * 800 + unat x) (unat w) c b1 = Inr b2" "length b2 = 384000"
      "\<forall>px < 800. \<forall>py < 480. b2 ! (py * 800 + px) =
       (if unat x \<le> px \<and> px < unat x + unat w \<and> Suc r \<le> py \<and> py < Suc r + n then c else b1 ! (py * 800 + px))"
      using Suc.IH [of "Suc r" b1] Suc.prems(1) b1(2) by auto
    have "fill_rows (Suc n) (r * 800 + unat x) (unat w) c b = Inr b2" using b1(1) b2(1) by (simp add: ac_simps)
    then show ?case using b2(2,3) f by (intro exI [of _ b2]) auto
  qed auto
  from this [of "unat y" "unat h" b] assms show ?thesis by (simp add: fill_def)
qed

subsection \<open>Where the transfer reads and writes\<close>

text \<open>
  The addresses of the word \<open>j\<close> of the microblock \<open>i\<close>: the controller adds the strides behind every microblock. The
  microblocks of a descriptor are counted as the source counts them.
\<close>

definition desc_len :: "dma_desc3 \<Rightarrow> u32" where
  "desc_len d = d3_ublock_ctrl d AND 0xFFFFFF"

definition move_src :: "dma_desc3 \<Rightarrow> nat \<Rightarrow> nat \<Rightarrow> u32" where
  "move_src d i j = d3_src_addr d + of_nat i * (4 * desc_len d + d3_src_stride d) + 4 * of_nat j"

definition move_dest :: "dma_desc3 \<Rightarrow> nat \<Rightarrow> nat \<Rightarrow> u32" where
  "move_dest d i j = d3_dest_addr d + of_nat i * (4 * desc_len d + d3_dest_stride d) + 4 * of_nat j"

definition transfers :: "dma_desc3 list \<Rightarrow> nat \<Rightarrow> nat \<Rightarrow> nat \<Rightarrow> bool" where
  "transfers ds k i j \<longleftrightarrow> k < length ds \<and> i < unat (d3_block_ctrl (ds ! k)) \<and> j < unat (desc_len (ds ! k))"

definition window_pixel :: "window \<Rightarrow> nat \<times> nat \<Rightarrow> u32" where
  "window_pixel w p = va_to_pa (pixel_addr (fb_data w) (fb_w w) (of_nat (fst p) - ucast (win_x w)) (of_nat (snd p) - ucast (win_y w)))"

definition screen_pixel :: "screenbuffer \<Rightarrow> nat \<times> nat \<Rightarrow> u32" where
  "screen_pixel sb p = va_to_pa (pixel_addr (sb_buffer sb) (sb_w sb) (of_nat (fst p)) (of_nat (snd p)))"

lemma desc_len_region: "desc_len (region_desc sb nx l r) = ucast (rg_w r)"
proof -
  have m: "(0xFFFFFF :: u32) = mask 24" by (simp add: mask_eq_exp_minus_1)
  have "(ucast (rg_w r) :: u32) AND 0xFFFFFF = ucast (rg_w r)" unfolding m
    by (rule bit_word_eqI) (auto simp: bit_simps dest: bit_imp_le_length)
  then show ?thesis
    by (cases l) (simp_all add: desc_len_def region_desc_def dma_get_ublock_ctrl_def Let_def bit.conj_disj_distrib2 and.assoc)
qed

lemma moves_region:
  "move_src (region_desc sb nx l r) i j = window_pixel (rg_parent r) (unat (rg_x r) + j, unat (rg_y r) + i)"
  "move_dest (region_desc sb nx l r) i j = screen_pixel sb (unat (rg_x r) + j, unat (rg_y r) + i)"
  by (simp_all add: move_src_def move_dest_def desc_len_region window_pixel_def screen_pixel_def)
    (simp_all add: region_desc_def Let_def va_to_pa_def pixel_addr_def algebra_simps)

lemma build_descs_nth:
  "build_descs sb pool i rs = Inr ds \<Longrightarrow> length ds = length rs \<and>
     (\<forall>k < length rs. \<exists>nx l. ds ! k = region_desc sb nx l (rs ! k))"
proof (induction rs arbitrary: i ds)
  case (Cons r rs)
  obtain ds' nx l where d: "build_descs sb pool (i + 1) rs = Inr ds'" "ds = region_desc sb nx l r # ds'"
    using Cons.prems by (auto simp: res_bind_Inr_iff)
  have "\<exists>nx l. ds ! k = region_desc sb nx l ((r # rs) ! k)" if "k < length (r # rs)" for k
    using Cons.IH [OF d(1)] d(2) that by (cases k) auto
  then show ?case using Cons.IH [OF d(1)] d(2) by simp
qed simp

text \<open>Regions that stay on the screen, whose words fit the address space.\<close>

definition on_screen :: "screenbuffer \<Rightarrow> update_region \<Rightarrow> bool" where
  "on_screen sb r \<longleftrightarrow> unat (rg_x r) + unat (rg_w r) \<le> unat (sb_w sb) \<and> unat (rg_y r) + unat (rg_h r) \<le> unat (sb_h sb)"

definition screen_ok :: "screenbuffer \<Rightarrow> bool" where
  "screen_ok sb \<longleftrightarrow> 4 * (unat (sb_w sb) * unat (sb_h sb)) \<le> 4294967296"

lemma screen_pixel_inj:
  assumes ok: "screen_ok sb" and p: "px < unat (sb_w sb)" "py < unat (sb_h sb)" and q: "qx < unat (sb_w sb)" "qy < unat (sb_h sb)"
    and e: "screen_pixel sb (px, py) = screen_pixel sb (qx, qy)"
  shows "px = qx \<and> py = qy"
proof -
  let ?W = "unat (sb_w sb)" and ?H = "unat (sb_h sb)"
  have lt: "4 * (y * ?W + x) < 4294967296" if "x < ?W" "y < ?H" for x y
  proof -
    have "Suc y * ?W \<le> ?H * ?W" using that(2) by (intro mult_le_mono1) simp
    then have "y * ?W + x < ?W * ?H" using that(1) by (simp add: mult.commute)
    then have "4 * (y * ?W + x) < 4 * (?W * ?H)" by simp
    then show ?thesis using ok unfolding screen_ok_def by (rule less_le_trans)
  qed
  have word: "4 * (of_nat y * ucast (sb_w sb) + of_nat x) = (of_nat (4 * (y * ?W + x)) :: u32)" for x y
    by simp
  have "(of_nat (4 * (py * ?W + px)) :: u32) = of_nat (4 * (qy * ?W + qx))"
    using e by (simp only: screen_pixel_def va_to_pa_def pixel_addr_def fst_conv snd_conv word [symmetric]) simp
  moreover have "unat (of_nat n :: u32) = n" if "n < 4294967296" for n using that by (simp add: unat_of_nat)
  ultimately have "4 * (py * ?W + px) = 4 * (qy * ?W + qx)" using lt [OF p] lt [OF q] by metis
  then have s: "py * ?W + px = qy * ?W + qx" by simp
  have "(py * ?W + px) div ?W = py" "(qy * ?W + qx) div ?W = qy" using p q by simp_all
  then have "py = qy" using s by simp
  then show ?thesis using s by simp
qed

lemma one_filtered: "length (filter P xs) = 1 \<Longrightarrow> i < length xs \<Longrightarrow> k < length xs \<Longrightarrow> P (xs ! i) \<Longrightarrow> P (xs ! k) \<Longrightarrow> i = k"
proof -
  assume a: "length (filter P xs) = 1" "i < length xs" "k < length xs" "P (xs ! i)" "P (xs ! k)"
  have "card {i. i < length xs \<and> P (xs ! i)} = 1" using a(1) by (simp add: length_filter_conv_card)
  then obtain z where "{i. i < length xs \<and> P (xs ! i)} = {z}" by (auto simp: card_1_singleton_iff)
  then show "i = k" using a by (metis (mono_tags, lifting) mem_Collect_eq singletonD)
qed

text \<open>A transferred word lies in its region.\<close>

lemma transfer_place:
  assumes b: "build_descs sb pool 0 rs = Inr ds" and f: "\<forall>r \<in> set rs. region_fits r \<and> on_screen sb r" and t: "transfers ds k i j"
  defines "p \<equiv> (unat (rg_x (rs ! k)) + j, unat (rg_y (rs ! k)) + i)"
  shows "k < length rs" and "in_region (rs ! k) p" and "move_dest (ds ! k) i j = screen_pixel sb p"
    and "move_src (ds ! k) i j = window_pixel (rg_parent (rs ! k)) p" and "fst p < unat (sb_w sb)" and "snd p < unat (sb_h sb)"
proof -
  show k: "k < length rs" using t build_descs_nth [OF b] by (simp add: transfers_def)
  obtain nx l where d: "ds ! k = region_desc sb nx l (rs ! k)" using build_descs_nth [OF b] k by blast
  have ij: "i < unat (rg_h (rs ! k))" "j < unat (rg_w (rs ! k))"
    using t by (simp_all add: transfers_def d desc_len_region) (simp add: region_desc_def Let_def)
  then show "in_region (rs ! k) p" by (simp add: in_region_def p_def)
  show "move_dest (ds ! k) i j = screen_pixel sb p" "move_src (ds ! k) i j = window_pixel (rg_parent (rs ! k)) p"
    by (simp_all add: d moves_region p_def)
  have "on_screen sb (rs ! k)" using f k by simp
  then show "fst p < unat (sb_w sb)" "snd p < unat (sb_h sb)" using ij by (simp_all add: on_screen_def p_def)
qed

subsection \<open>Properties\<close>



end
