(* ===== verification/StartCode.thy ===== *)
theory StartCode
  imports Thread
begin

text \<open>
  The start code of \<^verbatim>\<open>arch/entry.s\<close> up to the enabling of the memory management unit: three page tables in
  physical memory, and the map they give together. Memory here is indexed by physical addresses.
\<close>

subsection \<open>Definitions\<close>

fun clear_words :: "nat \<Rightarrow> u32 \<Rightarrow> mem \<Rightarrow> mem" where
  "clear_words 0 r1 m = m"
| "clear_words (Suc r2) r1 m = clear_words r2 (r1 + 4) (store_word r1 0 m)"

definition clear_tables :: "u32 \<Rightarrow> u32 \<Rightarrow> u32 \<Rightarrow> mem \<Rightarrow> mem" where
  "clear_tables lv1 lv2 usr m = clear_words 2048 usr (clear_words 256 lv2 (clear_words 4096 lv1 m))"

text \<open>The entry of a section: cacheable memory of domain 15 with full access.\<close>

definition ddr_mask :: u32 where
  "ddr_mask = 2 OR push_bit 2 3 OR push_bit 5 15 OR push_bit 10 3"

fun ddr_loop :: "nat \<Rightarrow> u32 \<Rightarrow> u32 \<Rightarrow> u32 \<Rightarrow> mem \<Rightarrow> mem" where
  "ddr_loop 0 r2 r6 r3 m = m"
| "ddr_loop (Suc r4) r2 r6 r3 m =
     (let r5 = push_bit 20 r3 OR ddr_mask in ddr_loop r4 (r2 + 4) (r6 + 4) (r3 + 1) (store_word r6 r5 (store_word r2 r5 m)))"

definition map_ddr :: "u32 \<Rightarrow> u32 \<Rightarrow> mem \<Rightarrow> mem" where
  "map_ddr lv1 usr m = store_word usr ddr_mask (ddr_loop 128 (lv1 + 4 * 2048) (usr + 4 * 512) 512 m)"

definition map_io :: "u32 \<Rightarrow> mem \<Rightarrow> mem" where
  "map_io lv1 m =
     (let r1 = ddr_mask AND NOT (push_bit 2 3); io = (\<lambda>r3. store_word (lv1 + 4 * r3) (push_bit 20 r3 OR r1)) in
      io 0xB00 (io 0xA00 (io 0xFC0 (io 0xF80 (io 0xF00 m)))))"

definition map_vectors :: "u32 \<Rightarrow> u32 \<Rightarrow> u32 \<Rightarrow> mem \<Rightarrow> mem" where
  "map_vectors lv1 lv2 vectors m =
     store_word (lv2 + 4 * 0xF0) (vectors OR 0x3E) (store_word (lv1 + 4 * 0xFFF) (lv2 OR 1 OR push_bit 5 15) m)"

text \<open>The registers of the memory management unit.\<close>

record mmu =
  mmu_n :: u32
  mmu_ttbr0 :: u32
  mmu_ttbr1 :: u32
  mmu_domains :: u32

text \<open>
  The whole: \<open>load\<close> is where the boot loader put the kernel, the other arguments the addresses the linker gave to
  the start of the kernel, the tables and the vectors.
\<close>

definition kernel_entry :: "u32 \<Rightarrow> u32 \<Rightarrow> u32 \<Rightarrow> u32 \<Rightarrow> u32 \<Rightarrow> u32 \<Rightarrow> mem \<Rightarrow> mmu \<times> mem" where
  "kernel_entry load kernel_s lv1_s lv2_s usr_s vectors_s m =
     (let r0 = kernel_s - load; lv1 = lv1_s - r0; lv2 = lv2_s - r0; usr = usr_s - r0 in
      (\<lparr>mmu_n = 1, mmu_ttbr0 = usr, mmu_ttbr1 = lv1, mmu_domains = 0xFFFFFFFF\<rparr>,
       map_vectors lv1 lv2 (vectors_s - r0) (map_io lv1 (map_ddr lv1 usr (clear_tables lv1 lv2 usr m)))))"

subsection \<open>The map of the hardware\<close>

text \<open>
  The walk of the processor for the descriptors the code uses: sections of a megabyte and small pages. With
  N equal to one the upper half of the addresses goes through TTBR1.
\<close>

definition mmu_walk :: "mmu \<Rightarrow> mem \<Rightarrow> u32 \<Rightarrow> u32 option" where
  "mmu_walk u m va =
     (let l1 = (if bit va 31 then mmu_ttbr1 u else mmu_ttbr0 u); ste = load_word m (l1 + 4 * drop_bit 20 va) in
      if ste AND 3 = 2 then Some ((ste AND 0xFFF00000) OR (va AND 0xFFFFF))
      else if ste AND 3 = 1 then
        let pte = load_word m ((ste AND 0xFFFFFC00) + 4 * (drop_bit 12 va AND 0xFF)) in
        if pte AND 2 \<noteq> 0 then Some ((pte AND 0xFFFFF000) OR (va AND 0xFFF)) else None
      else None)"

text \<open>What the source means to map: the memory twice, the devices, the first megabyte and the vectors.\<close>

definition boot_map :: "u32 \<Rightarrow> u32 \<Rightarrow> u32 option" where
  "boot_map vectors va =
     (let mb = drop_bit 20 va in
      if 0x800 \<le> mb \<and> mb < 0x880 then Some (va_to_pa va)
      else if 0x200 \<le> mb \<and> mb < 0x280 \<or> mb \<in> {0, 0xF00, 0xF80, 0xFC0, 0xA00, 0xB00} then Some va
      else if drop_bit 12 va = 0xFFFF0 then Some (vectors + (va AND 0xFFF))
      else None)"

subsection \<open>Aligned words\<close>

definition word_aligned :: "u32 \<Rightarrow> bool" where
  "word_aligned p \<longleftrightarrow> 4 dvd unat p"

lemma unat_dvd_add: "4 dvd unat (a + b)" if "4 dvd unat a" "4 dvd unat b" for a b :: u32
  using that by (simp add: unat_word_ariths dvd_mod)

lemma aligned_add [simp]: "word_aligned p \<Longrightarrow> word_aligned (p + 4 * i)"
proof -
  assume p: "word_aligned p"
  have "4 dvd unat (4 * i)" by (simp add: unat_word_ariths dvd_mod)
  then show "word_aligned (p + 4 * i)" using p unat_dvd_add unfolding word_aligned_def by blast
qed

lemma aligned_add4 [simp]: "word_aligned p \<Longrightarrow> word_aligned (p + 4)"
  using aligned_add [of p 1] by simp

lemma load_store_aligned:
  assumes "word_aligned p" and "word_aligned q"
  shows "load_word (store_word p w m) q = (if q = p then w else load_word m q)"
proof (cases "q = p")
  case False
  have "4 dvd unat (q - p)" using assms
    by (auto simp: word_aligned_def unat_sub_if_size word_size intro!: dvd_diff_nat dvd_add)
  then obtain k where k: "unat (q - p) = 4 * k" by (auto elim: dvdE)
  have "k \<noteq> 0" using False k unat_eq_0 [of "q - p"] by auto
  moreover have "4 * k < 4294967296" using u32_less_2p32 [of "q - p"] unfolding k .
  ultimately have "4 \<le> unat (q - p) \<and> unat (q - p) \<le> 4294967292" unfolding k by simp
  then show ?thesis using False load_store_far [of q p] by simp
qed (simp add: load_store_same_word)

lemma word_index_Suc: "a + 4 * of_nat (Suc i) = a + 4 + 4 * (of_nat i :: u32)"
  by (simp add: algebra_simps)

lemma load_clear:
  assumes "word_aligned a" and "word_aligned q"
  shows "load_word (clear_words n a m) q = (if \<exists>i < n. q = a + 4 * of_nat i then 0 else load_word m q)"
  using assms(1)
proof (induction n arbitrary: a m)
  case (Suc n)
  have s: "(\<exists>i < Suc n. q = a + 4 * of_nat i) \<longleftrightarrow> q = a \<or> (\<exists>i < n. q = a + 4 + 4 * of_nat i)"
    unfolding Ex_less_Suc2 word_index_Suc by simp
  note ih = Suc.IH [of "a + 4" "store_word a 0 m"]
  show ?case
  proof (cases "\<exists>i < n. q = a + 4 + 4 * of_nat i")
    case False
    then show ?thesis using ih Suc.prems assms(2) unfolding s by (simp only: load_store_aligned) simp
  qed (use ih Suc.prems s in simp)
qed simp

lemma ddr_loop_out:
  assumes "word_aligned q" and "\<forall>i < n. q \<noteq> r2 + 4 * of_nat i \<and> q \<noteq> r6 + 4 * of_nat i" and "word_aligned r2" and "word_aligned r6"
  shows "load_word (ddr_loop n r2 r6 r3 m) q = load_word m q"
  using assms(2-)
proof (induction n arbitrary: r2 r6 r3 m)
  case (Suc n)
  have "q \<noteq> r2" "q \<noteq> r6" "\<forall>i < n. q \<noteq> r2 + 4 + 4 * of_nat i \<and> q \<noteq> r6 + 4 + 4 * of_nat i"
    using Suc.prems(1) unfolding All_less_Suc2 word_index_Suc by simp_all
  then show ?case using Suc.IH [of "r2 + 4" "r6 + 4"] Suc.prems(2,3) assms(1) by (simp add: Let_def load_store_aligned)
qed simp

text \<open>The entries that the loop writes into both tables, which do not meet.\<close>

lemma ddr_loop_in:
  assumes "word_aligned r2" and "word_aligned r6" and "\<forall>i < n. \<forall>j < n. r2 + 4 * of_nat i \<noteq> r6 + 4 * of_nat j" and "n \<le> 4096" and "i < n"
  shows "load_word (ddr_loop n r2 r6 r3 m) (r2 + 4 * of_nat i) = (push_bit 20 (r3 + of_nat i) OR ddr_mask) \<and>
    load_word (ddr_loop n r2 r6 r3 m) (r6 + 4 * of_nat i) = (push_bit 20 (r3 + of_nat i) OR ddr_mask)"
  using assms
proof (induction n arbitrary: r2 r6 r3 m i)
  case (Suc n)
  have inj: "a + 4 + 4 * of_nat j \<noteq> a" if "j < n" for a :: u32 and j
  proof
    assume "a + 4 + 4 * of_nat j = a"
    then have "of_nat (4 * Suc j) = (0 :: u32)" by (simp add: algebra_simps)
    then have "unat (of_nat (4 * Suc j) :: u32) = 0" by (simp only: unsigned_0)
    moreover have "unat (of_nat (4 * Suc j) :: u32) = 4 * Suc j" using that Suc.prems(4)
      by (simp only: unsigned_of_nat) (simp add: take_bit_nat_eq_self)
    ultimately show False by simp
  qed
  note ap = Suc.prems(3) [rule_format]
  have ne: "r2 \<noteq> r6" using ap [of 0 0] by simp
  have d: "r2 + 4 + 4 * of_nat i \<noteq> r6 + 4 + 4 * of_nat j" if "i < n" "j < n" for i j
    using ap [of "Suc i" "Suc j"] that unfolding word_index_Suc by simp
  have c: "r2 \<noteq> r6 + 4 + 4 * of_nat j" "r6 \<noteq> r2 + 4 + 4 * of_nat j" if "j < n" for j
    using ap [of 0 "Suc j"] ap [of "Suc j" 0] that unfolding word_index_Suc by auto
  show ?case
  proof (cases i)
    case 0
    have o1: "r2 \<noteq> r2 + 4 + 4 * of_nat i \<and> r2 \<noteq> r6 + 4 + 4 * of_nat i"
      and o2: "r6 \<noteq> r2 + 4 + 4 * of_nat i \<and> r6 \<noteq> r6 + 4 + 4 * of_nat i" if "i < n" for i
      by (rule conjI [OF not_sym [OF inj [OF that]] c(1) [OF that]], rule conjI [OF c(2) [OF that] not_sym [OF inj [OF that]]])
    have o: "\<forall>i < n. r2 \<noteq> r2 + 4 + 4 * of_nat i \<and> r2 \<noteq> r6 + 4 + 4 * of_nat i"
      "\<forall>i < n. r6 \<noteq> r2 + 4 + 4 * of_nat i \<and> r6 \<noteq> r6 + 4 + 4 * of_nat i" using o1 o2 by blast+
    have "load_word (ddr_loop n (r2 + 4) (r6 + 4) (r3 + 1) m') r2 = load_word m' r2"
      "load_word (ddr_loop n (r2 + 4) (r6 + 4) (r3 + 1) m') r6 = load_word m' r6" for m'
      using ddr_loop_out [OF Suc.prems(1) o(1)] ddr_loop_out [OF Suc.prems(2) o(2)] Suc.prems(1,2) by simp_all
    then show ?thesis using 0 Suc.prems(1,2) ne by (simp add: Let_def load_store_aligned)
  next
    case (Suc k)
    then have k: "k < n" using Suc.prems(5) by simp
    have "word_aligned (r2 + 4)" "word_aligned (r6 + 4)" "n \<le> 4096" using Suc.prems(1,2,4) by simp_all
    then have "load_word (ddr_loop n (r2 + 4) (r6 + 4) (r3 + 1) m') (r2 + 4 + 4 * of_nat k) = (push_bit 20 (r3 + 1 + of_nat k) OR ddr_mask) \<and>
      load_word (ddr_loop n (r2 + 4) (r6 + 4) (r3 + 1) m') (r6 + 4 + 4 * of_nat k) = (push_bit 20 (r3 + 1 + of_nat k) OR ddr_mask)" for m'
      using Suc.IH [of "r2 + 4" "r6 + 4" k "r3 + 1" m'] d k by blast
    moreover have "r3 + of_nat (Suc k) = r3 + 1 + of_nat k" by simp
    ultimately show ?thesis unfolding Suc word_index_Suc by (simp only: ddr_loop.simps Let_def)
  qed
qed simp

subsection \<open>The tables\<close>

text \<open>What the linker script and the boot loader guarantee: aligned tables that do not meet.\<close>

definition boot_ok :: "u32 \<Rightarrow> u32 \<Rightarrow> u32 \<Rightarrow> u32 \<Rightarrow> bool" where
  "boot_ok lv1 lv2 usr vectors \<longleftrightarrow>
     16384 dvd unat lv1 \<and> 1024 dvd unat lv2 \<and> 8192 dvd unat usr \<and> 4096 dvd unat vectors \<and>
     {unat lv1 ..< unat lv1 + 16384} \<inter> {unat lv2 ..< unat lv2 + 1024} = {} \<and>
     {unat lv1 ..< unat lv1 + 16384} \<inter> {unat usr ..< unat usr + 8192} = {} \<and>
     {unat lv2 ..< unat lv2 + 1024} \<inter> {unat usr ..< unat usr + 8192} = {}"

definition entry_of :: "u32 \<Rightarrow> nat \<Rightarrow> u32" where
  "entry_of p i = p + 4 * of_nat i"

lemma unat_entry:
  assumes "4 * n dvd unat p" and "n dvd 1073741824" and "i < n"
  shows "unat (entry_of p i) = unat p + 4 * i"
proof -
  obtain k where k: "unat p = 4 * n * k" using assms(1) by (auto elim: dvdE)
  obtain c where c: "n * c = 1073741824" using assms(2) unfolding dvd_def by metis
  have c4: "4 * n * c = 4294967296" unfolding mult.assoc c by simp
  have "4 * n * k < 4 * n * c" using u32_less_2p32 [of p] unfolding k c4 .
  then have "k < c" by (simp only: mult_less_cancel1)
  then have "Suc k \<le> c" by simp
  then have "4 * n * Suc k \<le> 4 * n * c" by (rule mult_le_mono2)
  also have "\<dots> = 4294967296" by (rule c4)
  finally have b: "unat p + 4 * n \<le> 4294967296" using k by simp
  have "n \<le> 1073741824" using dvd_imp_le [OF assms(2)] by simp
  then have "unat (4 * of_nat i :: u32) = 4 * i" using assms(3) by (simp add: unat_word_ariths unat_of_nat)
  then show ?thesis using b assms(3) unfolding entry_of_def by (subst unat_add_u32) simp_all
qed

definition io_mask :: u32 where
  "io_mask = ddr_mask AND NOT (push_bit 2 3)"

lemma masks: "ddr_mask = 0xDEE" "io_mask = 0xDE2"
  by (simp_all add: ddr_mask_def io_mask_def)

text \<open>The addresses of the entries of the three tables are all different.\<close>

lemma entry_places:
  assumes "boot_ok lv1 lv2 usr vectors"
  shows "i < 4096 \<Longrightarrow> j < 4096 \<Longrightarrow> entry_of lv1 i = entry_of lv1 j \<longleftrightarrow> i = j"
    and "i < 256 \<Longrightarrow> j < 256 \<Longrightarrow> entry_of lv2 i = entry_of lv2 j \<longleftrightarrow> i = j"
    and "i < 2048 \<Longrightarrow> j < 2048 \<Longrightarrow> entry_of usr i = entry_of usr j \<longleftrightarrow> i = j"
    and "i < 4096 \<Longrightarrow> j < 256 \<Longrightarrow> entry_of lv1 i \<noteq> entry_of lv2 j"
    and "i < 4096 \<Longrightarrow> j < 2048 \<Longrightarrow> entry_of lv1 i \<noteq> entry_of usr j"
    and "i < 256 \<Longrightarrow> j < 2048 \<Longrightarrow> entry_of lv2 i \<noteq> entry_of usr j"
    and "word_aligned (entry_of lv1 i)" and "word_aligned (entry_of lv2 i)" and "word_aligned (entry_of usr i)"
proof -
  have d: "4 * 4096 dvd unat lv1" "4 * 256 dvd unat lv2" "4 * 2048 dvd unat usr" using assms by (simp_all add: boot_ok_def)
  have p: "4096 dvd (1073741824 :: nat)" "256 dvd (1073741824 :: nat)" "2048 dvd (1073741824 :: nat)" by simp_all
  note u = unat_entry [OF d(1) p(1)] unat_entry [OF d(2) p(2)] unat_entry [OF d(3) p(3)]
  have o: "unat lv1 + 4 * i = unat lv2 + 4 * j \<longrightarrow> \<not> (i < 4096 \<and> j < 256)" "unat lv1 + 4 * i = unat usr + 4 * j \<longrightarrow> \<not> (i < 4096 \<and> j < 2048)"
    "unat lv2 + 4 * i = unat usr + 4 * j \<longrightarrow> \<not> (i < 256 \<and> j < 2048)" for i j
    using assms by (auto simp: boot_ok_def disjoint_iff)
  show "i < 4096 \<Longrightarrow> j < 4096 \<Longrightarrow> entry_of lv1 i = entry_of lv1 j \<longleftrightarrow> i = j"
    "i < 256 \<Longrightarrow> j < 256 \<Longrightarrow> entry_of lv2 i = entry_of lv2 j \<longleftrightarrow> i = j"
    "i < 2048 \<Longrightarrow> j < 2048 \<Longrightarrow> entry_of usr i = entry_of usr j \<longleftrightarrow> i = j"
    "i < 4096 \<Longrightarrow> j < 256 \<Longrightarrow> entry_of lv1 i \<noteq> entry_of lv2 j"
    "i < 4096 \<Longrightarrow> j < 2048 \<Longrightarrow> entry_of lv1 i \<noteq> entry_of usr j"
    "i < 256 \<Longrightarrow> j < 2048 \<Longrightarrow> entry_of lv2 i \<noteq> entry_of usr j"
    using u o by (metis add_left_cancel mult_cancel1 zero_neq_numeral)+
  have "word_aligned lv1" "word_aligned lv2" "word_aligned usr"
    using assms by (auto simp: boot_ok_def word_aligned_def elim: dvd_trans [rotated])
  then show "word_aligned (entry_of lv1 i)" "word_aligned (entry_of lv2 i)" "word_aligned (entry_of usr i)"
    by (simp_all add: entry_of_def)
qed

lemma tables_cleared:
  fixes m :: mem
  assumes ok: "boot_ok lv1 lv2 usr vectors"
  defines "m' \<equiv> clear_tables lv1 lv2 usr m"
  shows "i < 4096 \<Longrightarrow> load_word m' (entry_of lv1 i) = 0" and "i < 256 \<Longrightarrow> load_word m' (entry_of lv2 i) = 0"
    and "i < 2048 \<Longrightarrow> load_word m' (entry_of usr i) = 0"
proof -
  note al = entry_places(7-9) [OF ok]
  have b: "word_aligned lv1" "word_aligned lv2" "word_aligned usr" using al(1-3) [of 0] by (simp_all add: entry_of_def)
  have c: "load_word m' q = (if \<exists>i < 2048. q = entry_of usr i then 0 else if \<exists>i < 256. q = entry_of lv2 i then 0
      else if \<exists>i < 4096. q = entry_of lv1 i then 0 else load_word m q)" if "word_aligned q" for q
    using that b by (simp only: m'_def clear_tables_def load_clear entry_of_def [symmetric])
  show "i < 4096 \<Longrightarrow> load_word m' (entry_of lv1 i) = 0" "i < 256 \<Longrightarrow> load_word m' (entry_of lv2 i) = 0"
    "i < 2048 \<Longrightarrow> load_word m' (entry_of usr i) = 0"
    using c [OF al(1)] c [OF al(2)] c [OF al(3)] by (metis (no_types, lifting))+
qed

lemma ddr_mapped:
  fixes m :: mem
  assumes ok: "boot_ok lv1 lv2 usr vectors"
  defines "m' \<equiv> map_ddr lv1 usr m"
  shows "i < 4096 \<Longrightarrow> load_word m' (entry_of lv1 i) =
      (if 2048 \<le> i \<and> i < 2176 then push_bit 20 (of_nat (i - 1536)) OR ddr_mask else load_word m (entry_of lv1 i))"
    and "i < 2048 \<Longrightarrow> load_word m' (entry_of usr i) =
      (if i = 0 then ddr_mask else if 512 \<le> i \<and> i < 640 then push_bit 20 (of_nat i) OR ddr_mask else load_word m (entry_of usr i))"
    and "i < 256 \<Longrightarrow> load_word m' (entry_of lv2 i) = load_word m (entry_of lv2 i)"
proof -
  note e = entry_places [OF ok]
  define r2 r6 where "r2 = lv1 + 4 * 2048" and "r6 = usr + 4 * 512"
  have r: "r2 + 4 * of_nat j = entry_of lv1 (2048 + j)" "r6 + 4 * of_nat j = entry_of usr (512 + j)" for j
    by (simp_all add: r2_def r6_def entry_of_def)
  have al: "word_aligned r2" "word_aligned r6" using e(7) [of 2048] e(9) [of 512] by (simp_all add: r2_def r6_def entry_of_def)
  let ?l = "ddr_loop 128 r2 r6 512 m"
  have m': "m' = store_word (entry_of usr 0) ddr_mask ?l" by (simp add: m'_def map_ddr_def r2_def r6_def entry_of_def)
  have s: "load_word m' q = (if q = entry_of usr 0 then ddr_mask else load_word ?l q)" if "word_aligned q" for q
    unfolding m' using that e(9) by (rule load_store_aligned [rotated])
  have out: "load_word ?l q = load_word m q"
    if "word_aligned q" "\<forall>j < 128. q \<noteq> entry_of lv1 (2048 + j) \<and> q \<noteq> entry_of usr (512 + j)" for q
    using ddr_loop_out [OF that(1), of 128 r2 r6] that(2) al by (simp add: r)
  have "\<forall>i < 128. \<forall>j < 128. r2 + 4 * of_nat i \<noteq> r6 + 4 * of_nat j" unfolding r by (intro allI impI e(5)) simp_all
  note inn = ddr_loop_in [OF al this, unfolded r, of _ 512 m]
  show "load_word m' (entry_of lv2 i) = load_word m (entry_of lv2 i)" if i: "i < 256"
  proof -
    have "\<forall>j < 128. entry_of lv2 i \<noteq> entry_of lv1 (2048 + j) \<and> entry_of lv2 i \<noteq> entry_of usr (512 + j)"
      using e(4) [THEN not_sym, of _ i] e(6) [of i] i by simp
    then show ?thesis using s [OF e(8), of i] out [OF e(8), of i] e(6) [OF i, of 0] by simp
  qed
  show "load_word m' (entry_of lv1 i) =
      (if 2048 \<le> i \<and> i < 2176 then push_bit 20 (of_nat (i - 1536)) OR ddr_mask else load_word m (entry_of lv1 i))" if i: "i < 4096"
  proof -
    have l: "load_word m' (entry_of lv1 i) = load_word ?l (entry_of lv1 i)" using s [OF e(7), of i] e(5) [OF i, of 0] by simp
    show ?thesis
    proof (cases "2048 \<le> i \<and> i < 2176")
      case True
      then have "i = 2048 + (i - 2048)" "i - 2048 < 128" by arith+
      then obtain k where k: "i = 2048 + k" "k < 128" by blast
      show ?thesis using l inn [OF _ k(2)] by (simp add: k add.commute [of 512])
    next
      case False
      have "\<forall>j < 128. entry_of lv1 i \<noteq> entry_of lv1 (2048 + j) \<and> entry_of lv1 i \<noteq> entry_of usr (512 + j)"
        using e(1) [OF i] e(5) [OF i] False by auto
      then show ?thesis using l out [OF e(7), of i] False by auto
    qed
  qed
  show "load_word m' (entry_of usr i) =
      (if i = 0 then ddr_mask else if 512 \<le> i \<and> i < 640 then push_bit 20 (of_nat i) OR ddr_mask else load_word m (entry_of usr i))" if i: "i < 2048"
  proof -
    have l: "load_word m' (entry_of usr i) = (if i = 0 then ddr_mask else load_word ?l (entry_of usr i))"
      using s [OF e(9), of i] e(3) [OF i, of 0] by simp
    show ?thesis
    proof (cases "512 \<le> i \<and> i < 640")
      case True
      then have "i = 512 + (i - 512)" "i - 512 < 128" by arith+
      then obtain k where k: "i = 512 + k" "k < 128" by blast
      show ?thesis using l inn [OF _ k(2)] by (simp add: k)
    next
      case False
      have "\<forall>j < 128. entry_of usr i \<noteq> entry_of lv1 (2048 + j) \<and> entry_of usr i \<noteq> entry_of usr (512 + j)"
        using e(3) [OF i] e(5) [THEN not_sym, of _ i] i False by auto
      then show ?thesis using l out [OF e(9), of i] False by auto
    qed
  qed
qed

definition boot_tables :: "u32 \<Rightarrow> u32 \<Rightarrow> u32 \<Rightarrow> u32 \<Rightarrow> mem \<Rightarrow> mem" where
  "boot_tables lv1 lv2 usr vectors m = map_vectors lv1 lv2 vectors (map_io lv1 (map_ddr lv1 usr (clear_tables lv1 lv2 usr m)))"

lemma boot_entries:
  fixes m :: mem
  assumes ok: "boot_ok lv1 lv2 usr vectors"
  defines "m' \<equiv> boot_tables lv1 lv2 usr vectors m"
  shows "i < 4096 \<Longrightarrow> load_word m' (entry_of lv1 i) =
      (if i = 0xFFF then lv2 OR 1 OR push_bit 5 15
       else if i \<in> {0xF00, 0xF80, 0xFC0, 0xA00, 0xB00} then push_bit 20 (of_nat i) OR io_mask
       else if 2048 \<le> i \<and> i < 2176 then push_bit 20 (of_nat (i - 1536)) OR ddr_mask else 0)"
    and "i < 2048 \<Longrightarrow> load_word m' (entry_of usr i) =
      (if i = 0 then ddr_mask else if 512 \<le> i \<and> i < 640 then push_bit 20 (of_nat i) OR ddr_mask else 0)"
    and "i < 256 \<Longrightarrow> load_word m' (entry_of lv2 i) = (if i = 0xF0 then vectors OR 0x3E else 0)"
proof -
  note e = entry_places [OF ok]
  let ?m2 = "map_ddr lv1 usr (clear_tables lv1 lv2 usr m)"
  have n: "lv1 + 4 * 0xB00 = entry_of lv1 0xB00" "lv1 + 4 * 0xA00 = entry_of lv1 0xA00" "lv1 + 4 * 0xFC0 = entry_of lv1 0xFC0"
    "lv1 + 4 * 0xF80 = entry_of lv1 0xF80" "lv1 + 4 * 0xF00 = entry_of lv1 0xF00" "lv1 + 4 * 0xFFF = entry_of lv1 0xFFF"
    "lv2 + 4 * 0xF0 = entry_of lv2 0xF0" by (simp_all add: entry_of_def)
  have m': "load_word m' q =
     (if q = entry_of lv2 0xF0 then vectors OR 0x3E else if q = entry_of lv1 0xFFF then lv2 OR 1 OR push_bit 5 15
      else if q = entry_of lv1 0xB00 then push_bit 20 0xB00 OR io_mask else if q = entry_of lv1 0xA00 then push_bit 20 0xA00 OR io_mask
      else if q = entry_of lv1 0xFC0 then push_bit 20 0xFC0 OR io_mask else if q = entry_of lv1 0xF80 then push_bit 20 0xF80 OR io_mask
      else if q = entry_of lv1 0xF00 then push_bit 20 0xF00 OR io_mask else load_word ?m2 q)" if "word_aligned q" for q
    unfolding m'_def boot_tables_def map_vectors_def map_io_def Let_def n io_mask_def
    by (simp only: load_store_aligned [OF e(7) that] load_store_aligned [OF e(8) that])
  have c: "i < 4096 \<Longrightarrow> load_word ?m2 (entry_of lv1 i) = (if 2048 \<le> i \<and> i < 2176 then push_bit 20 (of_nat (i - 1536)) OR ddr_mask else 0)"
    "i < 2048 \<Longrightarrow> load_word ?m2 (entry_of usr i) = (if i = 0 then ddr_mask else if 512 \<le> i \<and> i < 640 then push_bit 20 (of_nat i) OR ddr_mask else 0)"
    "i < 256 \<Longrightarrow> load_word ?m2 (entry_of lv2 i) = 0" for i
    by (simp_all only: ddr_mapped [OF ok] tables_cleared [OF ok])
  show "load_word m' (entry_of lv1 i) =
      (if i = 0xFFF then lv2 OR 1 OR push_bit 5 15
       else if i \<in> {0xF00, 0xF80, 0xFC0, 0xA00, 0xB00} then push_bit 20 (of_nat i) OR io_mask
       else if 2048 \<le> i \<and> i < 2176 then push_bit 20 (of_nat (i - 1536)) OR ddr_mask else 0)" if i: "i < 4096"
  proof -
    have "entry_of lv1 i = entry_of lv1 j \<longleftrightarrow> i = j" if "j < 4096" for j using e(1) [OF i that] .
    then have q: "entry_of lv1 i = entry_of lv1 0xFFF \<longleftrightarrow> i = 0xFFF" "entry_of lv1 i = entry_of lv1 0xB00 \<longleftrightarrow> i = 0xB00"
      "entry_of lv1 i = entry_of lv1 0xA00 \<longleftrightarrow> i = 0xA00" "entry_of lv1 i = entry_of lv1 0xFC0 \<longleftrightarrow> i = 0xFC0"
      "entry_of lv1 i = entry_of lv1 0xF80 \<longleftrightarrow> i = 0xF80" "entry_of lv1 i = entry_of lv1 0xF00 \<longleftrightarrow> i = 0xF00" by simp_all
    have "entry_of lv1 i \<noteq> entry_of lv2 0xF0" using e(4) [OF i] by simp
    then show ?thesis unfolding m' [OF e(7)] q c(1) [OF i] by auto
  qed
  show "load_word m' (entry_of usr i) =
      (if i = 0 then ddr_mask else if 512 \<le> i \<and> i < 640 then push_bit 20 (of_nat i) OR ddr_mask else 0)" if i: "i < 2048"
  proof -
    have "entry_of usr i \<noteq> entry_of lv1 j" if "j < 4096" for j using e(5) [OF that i] by (rule not_sym)
    moreover have "entry_of usr i \<noteq> entry_of lv2 0xF0" using e(6) [of "0xF0" i] i by simp
    ultimately show ?thesis unfolding m' [OF e(9)] c(2) [OF i] by simp
  qed
  show "load_word m' (entry_of lv2 i) = (if i = 0xF0 then vectors OR 0x3E else 0)" if i: "i < 256"
  proof -
    have "entry_of lv2 i \<noteq> entry_of lv1 j" if "j < 4096" for j using e(4) [OF that i] by (rule not_sym)
    moreover have "entry_of lv2 i = entry_of lv2 0xF0 \<longleftrightarrow> i = 0xF0" using e(2) [OF i] by simp
    ultimately show ?thesis unfolding m' [OF e(8)] c(3) [OF i] by simp
  qed
qed

subsection \<open>Bits of entries and addresses\<close>

lemma section_bits:
  fixes x :: u32
  shows "(push_bit 20 x OR ddr_mask) AND 3 = 2" and "(push_bit 20 x OR io_mask) AND 3 = 2"
    and "(push_bit 20 x OR ddr_mask) AND 0xFFF00000 = push_bit 20 x" and "(push_bit 20 x OR io_mask) AND 0xFFF00000 = push_bit 20 x"
proof -
  have m: "(3 :: u32) = mask 2" "(0xFFF00000 :: u32) = NOT (mask 20)" by (simp_all add: mask_eq_exp_minus_1)
  have "push_bit 20 x AND 3 = 0" unfolding m by (rule bit_word_eqI) (auto simp: bit_simps)
  moreover have "push_bit 20 x AND 0xFFF00000 = push_bit 20 x" unfolding m by (rule bit_word_eqI) (auto simp: bit_simps)
  ultimately show "(push_bit 20 x OR ddr_mask) AND 3 = 2" "(push_bit 20 x OR io_mask) AND 3 = 2"
    "(push_bit 20 x OR ddr_mask) AND 0xFFF00000 = push_bit 20 x" "(push_bit 20 x OR io_mask) AND 0xFFF00000 = push_bit 20 x"
    by (simp_all add: bit.conj_disj_distrib2 masks)
qed

lemma split_address:
  fixes va :: u32
  shows "push_bit 20 (drop_bit 20 va) OR (va AND 0xFFFFF) = va"
    and "push_bit 20 (drop_bit 20 va - 1536) OR (va AND 0xFFFFF) = va - 0x60000000"
proof -
  have m: "(0xFFFFF :: u32) = mask 20" by (simp add: mask_eq_exp_minus_1)
  show s: "push_bit 20 (drop_bit 20 va) OR (va AND 0xFFFFF) = va" unfolding m by (rule bit_word_eqI) (auto simp: bit_simps)
  have plus: "push_bit 20 x OR (va AND 0xFFFFF) = push_bit 20 x + (va AND 0xFFFFF)" for x :: u32
    unfolding m by (rule disjunctive_add [symmetric]) (auto simp: bit_simps)
  have "push_bit 20 (drop_bit 20 va - 1536) = push_bit 20 (drop_bit 20 va) - 0x60000000"
    by (simp add: push_bit_eq_mult algebra_simps)
  then show "push_bit 20 (drop_bit 20 va - 1536) OR (va AND 0xFFFFF) = va - 0x60000000"
    using s unfolding plus by (simp add: algebra_simps)
qed

lemma aligned_bits:
  fixes w :: u32
  assumes "2 ^ k dvd unat w"
  shows "w AND NOT (mask k) = w" and "j \<le> k \<Longrightarrow> w AND mask j = 0" and "w OR (v AND mask k) = w + (v AND mask k)"
proof -
  have "w AND mask k = 0" using assms by (simp only: and_mask_zero_iff)
  then have b: "\<not> bit w n" if "n < k" for n using that by (metis bit_and_iff bit_mask_iff bit_0_eq bot_apply bot_bool_def bit_imp_le_length less_imp_le_nat not_le possible_bit_word)
  show "w AND NOT (mask k) = w" by (rule bit_word_eqI) (use b in \<open>auto simp: bit_simps\<close>)
  show "w AND mask j = 0" if "j \<le> k" by (rule bit_word_eqI) (use b that in \<open>auto simp: bit_simps\<close>)
  show "w OR (v AND mask k) = w + (v AND mask k)"
    by (rule disjunctive_add [symmetric]) (use b in \<open>auto simp: bit_simps\<close>)
qed

lemma vector_bits:
  fixes vectors lv2 va :: u32
  assumes v: "4096 dvd unat vectors" and l: "1024 dvd unat lv2"
  shows "(lv2 OR 1 OR push_bit 5 15) AND 3 = 1" and "(lv2 OR 1 OR push_bit 5 15) AND 0xFFFFFC00 = lv2"
    and "(vectors OR 0x3E) AND 2 \<noteq> 0" and "(vectors OR 0x3E) AND 0xFFFFF000 = vectors"
    and "vectors OR (va AND 0xFFF) = vectors + (va AND 0xFFF)"
proof -
  have m: "(3 :: u32) = mask 2" "(0xFFFFFC00 :: u32) = NOT (mask 10)" "(0xFFFFF000 :: u32) = NOT (mask 12)" "(0xFFF :: u32) = mask 12"
    by (simp_all add: mask_eq_exp_minus_1)
  have p: "2 ^ 12 dvd unat vectors" "2 ^ 10 dvd unat lv2" using v l by simp_all
  have "lv2 AND 3 = 0" "lv2 AND 0xFFFFFC00 = lv2" "vectors AND 0xFFFFF000 = vectors"
    unfolding m using aligned_bits(1,2) [OF p(2)] aligned_bits(1) [OF p(1)] by simp_all
  then show "(lv2 OR 1 OR push_bit 5 15) AND 3 = 1" "(lv2 OR 1 OR push_bit 5 15) AND 0xFFFFFC00 = lv2"
    "(vectors OR 0x3E) AND 0xFFFFF000 = vectors"
    by (simp_all add: bit.conj_disj_distrib2)
  have "(vectors OR 0x3E) AND 2 = (vectors AND 2) OR 2" by (simp add: bit.conj_disj_distrib2)
  also have "\<dots> \<noteq> 0" by (simp add: or_eq_0_iff)
  finally show "(vectors OR 0x3E) AND 2 \<noteq> 0" .
  show "vectors OR (va AND 0xFFF) = vectors + (va AND 0xFFF)" unfolding m by (rule aligned_bits(3) [OF p(1)])
qed


subsection \<open>The map that results\<close>

lemma entry_index:
  fixes va :: u32
  defines "i \<equiv> unat (drop_bit 20 va)"
  shows "i < 4096" and "drop_bit 20 va = of_nat i" and "l1 + 4 * drop_bit 20 va = entry_of l1 i" and "bit va 31 \<longleftrightarrow> 2048 \<le> i"
proof -
  have d: "unat (drop_bit 20 va) = unat va div 1048576" by (simp only: unat_drop_bit_eq) (simp add: drop_bit_eq_div)
  show "i < 4096" using u32_less_2p32 [of va] unfolding i_def d by (simp add: div_less_iff_less_mult)
  show o: "drop_bit 20 va = of_nat i" unfolding i_def by simp
  show "l1 + 4 * drop_bit 20 va = entry_of l1 i" unfolding entry_of_def o ..
  have "bit va 31 \<longleftrightarrow> bit (unat va) 31" by (simp add: bit_unsigned_iff)
  also have "\<dots> \<longleftrightarrow> odd (unat va div 2147483648)" by (simp add: bit_iff_odd)
  also have "\<dots> \<longleftrightarrow> 2147483648 \<le> unat va"
  proof (cases "2147483648 \<le> unat va")
    case True
    have "unat va div 2147483648 = 1" using True u32_less_2p32 [of va] by (intro div_nat_eqI) simp_all
    then show ?thesis using True by simp
  qed simp
  also have "\<dots> \<longleftrightarrow> 2048 \<le> i" unfolding i_def d by (auto simp: less_eq_div_iff_mult_less_eq)
  finally show "bit va 31 \<longleftrightarrow> 2048 \<le> i" .
qed

lemma vector_page:
  fixes va :: u32
  shows "drop_bit 12 va = 0xFFFF0 \<longleftrightarrow> drop_bit 20 va = 0xFFF \<and> drop_bit 12 va AND 0xFF = 0xF0"
proof -
  let ?n = "unat va"
  have u: "unat (drop_bit 12 va) = ?n div 4096" "unat (drop_bit 20 va) = ?n div 1048576" "unat (drop_bit 12 va AND 0xFF) = ?n div 4096 mod 256"
  proof -
    show "unat (drop_bit 12 va) = ?n div 4096" "unat (drop_bit 20 va) = ?n div 1048576"
      by (simp_all only: unat_drop_bit_eq) (simp_all add: drop_bit_eq_div)
    moreover have "drop_bit 12 va AND 0xFF = take_bit 8 (drop_bit 12 va)" by (simp add: take_bit_eq_mask mask_eq_exp_minus_1)
    ultimately show "unat (drop_bit 12 va AND 0xFF) = ?n div 4096 mod 256" by (simp add: take_bit_eq_mod unat_mod)
  qed
  have "?n div 1048576 = ?n div 4096 div 256" by (simp add: div_mult2_eq)
  moreover have "N = 1048560 \<longleftrightarrow> N div 256 = 4095 \<and> N mod 256 = 240" for N :: nat
  proof -
    have "N = 1048560" if "N div 256 = 4095" "N mod 256 = 240" using div_mult_mod_eq [of N 256] unfolding that by simp
    then show ?thesis by auto
  qed
  ultimately have "?n div 4096 = 1048560 \<longleftrightarrow> ?n div 1048576 = 4095 \<and> ?n div 4096 mod 256 = 240" by metis
  then show ?thesis unfolding word_unat_eq_iff u by simp
qed


lemma boot_walk_high:
  assumes ok: "boot_ok lv1 lv2 usr vectors" and hi: "bit va 31"
  shows "mmu_walk \<lparr>mmu_n = n, mmu_ttbr0 = usr, mmu_ttbr1 = lv1, mmu_domains = d\<rparr> (boot_tables lv1 lv2 usr vectors m) va = boot_map vectors va"
proof -
  define i where "i = unat (drop_bit 20 va)"
  note ix = entry_index [where va = va, folded i_def]
  have i: "2048 \<le> i" "i < 4096" using ix(1,4) hi by simp_all
  have mb: "(0x800 \<le> drop_bit 20 va \<and> drop_bit 20 va < 0x880) \<longleftrightarrow> 2048 \<le> i \<and> i < 2176" "\<not> drop_bit 20 va < 0x280"
    using i by (auto simp: word_le_nat_alt word_less_nat_alt i_def)
  have eqs: "drop_bit 20 va = c \<longleftrightarrow> i = unat c" for c unfolding i_def by (simp add: word_unat_eq_iff)
  have bm: "boot_map vectors va = (if i < 2176 then Some (va_to_pa va) else if i \<in> {0xF00, 0xF80, 0xFC0, 0xA00, 0xB00} then Some va
      else if i = 0xFFF \<and> drop_bit 12 va AND 0xFF = 0xF0 then Some (vectors + (va AND 0xFFF)) else None)"
    unfolding boot_map_def Let_def mb(1) vector_page using i(1) mb(2) by (simp add: eqs)
  note w = boot_entries(1) [OF ok i(2), of m]
  have al: "4096 dvd unat vectors" "1024 dvd unat lv2" using ok by (simp_all add: boot_ok_def)
  note vb = vector_bits [OF al]
  consider "i < 2176" | "i \<in> {0xF00, 0xF80, 0xFC0, 0xA00, 0xB00}" | "i = 0xFFF" | "2176 \<le> i" "i \<notin> {0xFFF, 0xF00, 0xF80, 0xFC0, 0xA00, 0xB00}"
    by fastforce
  then show ?thesis
  proof cases
    case 1
    then have "of_nat (i - 1536) = drop_bit 20 va - 1536" using i(1) unfolding ix(2) by (simp add: of_nat_diff)
    then show ?thesis using 1 i(1) w hi unfolding bm mmu_walk_def Let_def by (simp add: ix(3) section_bits split_address va_to_pa_def KERNEL_OFFSET_def)
  next
    case 2
    then have "\<not> i < 2176" "i \<noteq> 0xFFF" by auto
    then show ?thesis using 2 w hi unfolding bm mmu_walk_def Let_def by (simp add: ix(3) section_bits split_address flip: ix(2))
  next
    case 3
    have k: "lv2 + 4 * (drop_bit 12 va AND 0xFF) = entry_of lv2 (unat (drop_bit 12 va AND 0xFF))" by (simp add: entry_of_def)
    have "unat (drop_bit 12 va AND 0xFF) < 256" using word_and_le1 [of "drop_bit 12 va" "0xFF"] by (simp add: word_le_nat_alt)
    note w2 = boot_entries(3) [OF ok this, of m]
    have e: "unat (drop_bit 12 va AND 0xFF) = 0xF0 \<longleftrightarrow> drop_bit 12 va AND 0xFF = 0xF0" by (simp add: word_unat_eq_iff)
    define ste where "ste = (lv2 OR 1 OR push_bit 5 15)"
    define pte where "pte = (vectors OR 0x3E)"
    note f = vb(1-4) [folded ste_def pte_def]
    have "load_word (boot_tables lv1 lv2 usr vectors m) (lv1 + 4 * drop_bit 20 va) = ste" unfolding ix(3) w by (simp add: 3 ste_def)
    moreover have "load_word (boot_tables lv1 lv2 usr vectors m) (lv2 + 4 * (drop_bit 12 va AND 0xFF)) =
        (if drop_bit 12 va AND 0xFF = 0xF0 then pte else 0)" unfolding k w2 e pte_def ..
    ultimately show ?thesis using 3 hi unfolding bm mmu_walk_def Let_def
      by (cases "drop_bit 12 va AND 0xFF = 0xF0") (simp_all add: f vb(5))
  next
    case 4
    then show ?thesis using w hi unfolding bm mmu_walk_def Let_def by (simp add: ix(3))
  qed
qed

lemma boot_walk_low:
  assumes ok: "boot_ok lv1 lv2 usr vectors" and lo: "\<not> bit va 31"
  shows "mmu_walk \<lparr>mmu_n = n, mmu_ttbr0 = usr, mmu_ttbr1 = lv1, mmu_domains = d\<rparr> (boot_tables lv1 lv2 usr vectors m) va = boot_map vectors va"
proof -
  define i where "i = unat (drop_bit 20 va)"
  note ix = entry_index [where va = va, folded i_def]
  have i: "i < 2048" using ix(4) lo by simp
  have mb: "\<not> 0x800 \<le> drop_bit 20 va" "0x200 \<le> drop_bit 20 va \<and> drop_bit 20 va < 0x280 \<longleftrightarrow> 512 \<le> i \<and> i < 640"
    using i by (auto simp: word_le_nat_alt word_less_nat_alt i_def)
  have eqs: "drop_bit 20 va = c \<longleftrightarrow> i = unat c" for c unfolding i_def by (simp add: word_unat_eq_iff)
  have bm: "boot_map vectors va = (if 512 \<le> i \<and> i < 640 \<or> i = 0 then Some va else None)"
    unfolding boot_map_def Let_def mb(2) vector_page using i mb(1) by (simp add: eqs)
  note w = boot_entries(2) [OF ok i, of m]
  have z: "ddr_mask AND 0xFFF00000 OR (va AND 0xFFFFF) = va" if "i = 0"
    using split_address(1) [of va] section_bits(3) [of 0] ix(2) that by simp
  have z2: "ddr_mask AND 3 = 2" using section_bits(1) [of 0] by simp
  show ?thesis
  proof (cases "i = 0")
    case True
    have "load_word (boot_tables lv1 lv2 usr vectors m) (usr + 4 * drop_bit 20 va) = ddr_mask" unfolding ix(3) w by (simp add: True)
    then show ?thesis using True lo z z2 unfolding bm mmu_walk_def Let_def by simp
  next
    case False
    then show ?thesis using w lo unfolding bm mmu_walk_def Let_def by (simp add: ix(3) section_bits split_address flip: ix(2))
  qed
qed

text \<open>C38. Wherever the boot loader put the kernel, the tables that the start code builds before it enables the memory
  management unit give exactly the intended map: the memory at its kernel addresses and at its physical ones, the
  device regions and the first megabyte at their own addresses, the vectors at 0xFFFF0000, and no other address.\<close>

theorem boot_map_exact:
  assumes "kernel_entry load kernel_s lv1_s lv2_s usr_s vectors_s m = (u, m')"
    and "boot_ok (lv1_s - (kernel_s - load)) (lv2_s - (kernel_s - load)) (usr_s - (kernel_s - load)) (vectors_s - (kernel_s - load))"
  shows "mmu_walk u m' va = boot_map (vectors_s - (kernel_s - load)) va"
proof -
  have u: "u = \<lparr>mmu_n = 1, mmu_ttbr0 = usr_s - (kernel_s - load), mmu_ttbr1 = lv1_s - (kernel_s - load), mmu_domains = 0xFFFFFFFF\<rparr>"
    and m': "m' = boot_tables (lv1_s - (kernel_s - load)) (lv2_s - (kernel_s - load)) (usr_s - (kernel_s - load)) (vectors_s - (kernel_s - load)) m"
    using assms(1) by (simp_all add: kernel_entry_def Let_def boot_tables_def)
  show ?thesis unfolding u m' using boot_walk_high [OF assms(2)] boot_walk_low [OF assms(2)] by (cases "bit va 31") simp_all
qed

lemma boot_map_exact_witness:
  "\<exists>u m'. kernel_entry 0x20000000 0x80000000 0x80004000 0x8000A000 0x80008000 0x8000B000 (\<lambda>_. 0) = (u, m') \<and>
     mmu_walk u m' 0x80012345 = Some 0x20012345 \<and> mmu_walk u m' 0x20012345 = Some 0x20012345 \<and> mmu_walk u m' 0xFFFF0018 = Some 0x2000B018 \<and>
     mmu_walk u m' 4 = Some 4 \<and> mmu_walk u m' 0x88000000 = None"
proof -
  obtain u m' where k: "kernel_entry 0x20000000 0x80000000 0x80004000 0x8000A000 0x80008000 0x8000B000 (\<lambda>_. 0) = (u, m')"
    by (cases "kernel_entry 0x20000000 0x80000000 0x80004000 0x8000A000 0x80008000 0x8000B000 (\<lambda>_. 0)") simp
  have "mmu_walk u m' va = boot_map (0x8000B000 - (0x80000000 - 0x20000000)) va" for va
    by (rule boot_map_exact [OF k]) (auto simp: boot_ok_def)
  then show ?thesis using k by (simp add: boot_map_def Let_def va_to_pa_def KERNEL_OFFSET_def drop_bit_eq_div)
qed

end
