(* ===== verification/Processor.thy ===== *)
theory Processor
  imports Thread
begin

text \<open>
  The routines that act on the processor itself: the interrupt masks of \<^verbatim>\<open>kernel/atomic.c\<close> and
  \<^verbatim>\<open>include/citrus/interrupt.h\<close>, and the caches of \<^verbatim>\<open>arch/cache.s\<close>, over a model of the
  coprocessor instructions they consist of.
\<close>

subsection \<open>Interrupt masks\<close>

text \<open>The status register with the masks A, I and F in the bits 8, 7 and 6.\<close>

definition irq_enable :: "u32 \<Rightarrow> u32" where "irq_enable cpsr = cpsr AND NOT 0x80"
definition irq_disable :: "u32 \<Rightarrow> u32" where "irq_disable cpsr = cpsr OR 0x80"
definition fiq_enable :: "u32 \<Rightarrow> u32" where "fiq_enable cpsr = cpsr AND NOT 0x40"
definition fiq_disable :: "u32 \<Rightarrow> u32" where "fiq_disable cpsr = cpsr OR 0x40"
definition async_abort_enable :: "u32 \<Rightarrow> u32" where "async_abort_enable cpsr = cpsr AND NOT 0x100"
definition async_abort_disable :: "u32 \<Rightarrow> u32" where "async_abort_disable cpsr = cpsr OR 0x100"

definition atomic_enter :: "u32 \<Rightarrow> u32 \<times> u32" where
  "atomic_enter cpsr = (cpsr AND 0xC0, cpsr OR 0x1C0)"

text \<open>
  The constraints of the inline assembly let the compiler hold \<open>reg\<close> and \<open>flags\<close> in the same register, in which
  case the first instruction overwrites the flags: \<open>shared\<close> is that choice.
\<close>

definition atomic_leave :: "bool \<Rightarrow> u32 \<Rightarrow> u32 \<Rightarrow> u32" where
  "atomic_leave shared flags cpsr =
     (let r0 = cpsr AND NOT 0xC0; r1 = (if shared then r0 else flags) in r0 OR r1)"

lemma atomic_bits:
  "bit (fst (atomic_enter c)) n \<longleftrightarrow> bit c n \<and> (n = 6 \<or> n = 7)"
  "bit (snd (atomic_enter c)) n \<longleftrightarrow> bit c n \<or> n = 6 \<or> n = 7 \<or> n = 8"
  "bit (atomic_leave shared f c) n \<longleftrightarrow> bit c n \<and> n \<noteq> 6 \<and> n \<noteq> 7 \<or> \<not> shared \<and> bit f n"
proof -
  have s: "(0xC0 :: u32) = set_bit 6 (set_bit 7 0)" "(0x1C0 :: u32) = set_bit 6 (set_bit 7 (set_bit 8 0))"
    by (simp_all add: set_bit_eq_or)
  have m: "bit (0xC0 :: u32) n \<longleftrightarrow> n = 6 \<or> n = 7" "bit (0x1C0 :: u32) n \<longleftrightarrow> n = 6 \<or> n = 7 \<or> n = 8"
    unfolding s by (auto simp only: bit_set_bit_iff possible_bit_word bit_0_eq bot_apply bot_bool_def word_size) (auto simp: bit_simps)
  show "bit (fst (atomic_enter c)) n \<longleftrightarrow> bit c n \<and> (n = 6 \<or> n = 7)"
    "bit (snd (atomic_enter c)) n \<longleftrightarrow> bit c n \<or> n = 6 \<or> n = 7 \<or> n = 8"
    "bit (atomic_leave shared f c) n \<longleftrightarrow> bit c n \<and> n \<noteq> 6 \<and> n \<noteq> 7 \<or> \<not> shared \<and> bit f n"
    unfolding atomic_enter_def atomic_leave_def Let_def fst_conv snd_conv bit_and_iff bit_or_iff bit_not_iff m
    by (auto simp: bit_simps m dest: bit_imp_le_length)
qed

text \<open>A critical section restores the masks I and F, so sections nest; the mask A stays set behind the first one.\<close>

lemma atomic_section:
  assumes "atomic_enter c = (flags, c')"
  shows "bit (atomic_leave False flags c') n \<longleftrightarrow> bit c n \<or> n = 8"
  using assms atomic_bits(1,2) [of c n] atomic_bits(3) [of False flags c' n] by auto

text \<open>With one register for both, leaving an inner section turns the interrupts on inside the outer one.\<close>

lemma shared_register_unmasks:
  assumes "atomic_enter c = (flags, c')" and "atomic_enter c' = (flags', c'')"
  shows "\<not> bit (atomic_leave True flags' c'') 7"
  using atomic_bits(3) [of True flags' c'' 7] by simp

subsection \<open>Caches\<close>

text \<open>
  The memory as bus masters see it, the lines of the data cache by their first address, which line each set and way
  holds, and the instruction cache. The data cache is looked up while bit 2 of the system control register is set.
\<close>

record cpu =
  cp_sctlr :: u32
  cp_sp :: u32
  cp_lr :: u32
  cp_mem :: mem
  cp_lines :: "u32 \<Rightarrow> mem option"
  cp_slot :: "u32 \<Rightarrow> u32 option"
  cp_icache :: "u32 \<Rightarrow> u8 option"

definition line_of :: "u32 \<Rightarrow> u32" where
  "line_of a = a AND NOT 31"

text \<open>What the processor reads, and its stores: into the line if it is held, else into memory.\<close>

definition cpu_view :: "cpu \<Rightarrow> mem" where
  "cpu_view c x =
     (if bit (cp_sctlr c) 2 then case cp_lines c (line_of x) of Some d \<Rightarrow> d x | None \<Rightarrow> cp_mem c x else cp_mem c x)"

definition cpu_store :: "u32 \<Rightarrow> u32 \<Rightarrow> cpu \<Rightarrow> cpu" where
  "cpu_store a w c =
     (let m = store_word a w (cpu_view c) in
      if bit (cp_sctlr c) 2 then
        c\<lparr>cp_mem := (\<lambda>x. if cp_lines c (line_of x) = None then m x else cp_mem c x),
          cp_lines := (\<lambda>l. map_option (\<lambda>_. m) (cp_lines c l))\<rparr>
      else c\<lparr>cp_mem := m\<rparr>)"

text \<open>The maintenance operations by address, c7 with c10, c6 and c14, and by set and way.\<close>

definition clean_line :: "u32 \<Rightarrow> cpu \<Rightarrow> cpu" where
  "clean_line a c =
     (case cp_lines c (line_of a) of
        None \<Rightarrow> c
      | Some d \<Rightarrow> c\<lparr>cp_mem := (\<lambda>x. if line_of x = line_of a then d x else cp_mem c x)\<rparr>)"

definition invalidate_line :: "u32 \<Rightarrow> cpu \<Rightarrow> cpu" where
  "invalidate_line a c = c\<lparr>cp_lines := (cp_lines c)(line_of a := None)\<rparr>"

definition clean_invalidate_line :: "u32 \<Rightarrow> cpu \<Rightarrow> cpu" where
  "clean_invalidate_line a c = invalidate_line a (clean_line a c)"

definition by_slot :: "(u32 \<Rightarrow> cpu \<Rightarrow> cpu) \<Rightarrow> u32 \<Rightarrow> cpu \<Rightarrow> cpu" where
  "by_slot f r2 c = (case cp_slot c r2 of None \<Rightarrow> c | Some l \<Rightarrow> f l c)"

text \<open>The two loops over ways and sets.\<close>

definition slot_word :: "nat \<Rightarrow> nat \<Rightarrow> u32" where
  "slot_word r0 r1 = push_bit 5 (of_nat r1) OR push_bit 30 (of_nat r0)"

definition each_slot :: "(u32 \<Rightarrow> cpu \<Rightarrow> cpu) \<Rightarrow> cpu \<Rightarrow> cpu" where
  "each_slot f = fold (\<lambda>r0. fold (\<lambda>r1. by_slot f (slot_word r0 r1)) [0..<256]) [0..<4]"

definition dcache_clean :: "cpu \<Rightarrow> cpu" where "dcache_clean = each_slot clean_line"
definition dcache_invalidate :: "cpu \<Rightarrow> cpu" where "dcache_invalidate = each_slot invalidate_line"
definition dcache_clean_invalidate :: "cpu \<Rightarrow> cpu" where "dcache_clean_invalidate = each_slot clean_invalidate_line"

text \<open>The loop of the routines for a range. The comparison is signed; not to return is the value None.\<close>

partial_function (option) range_loop :: "(u32 \<Rightarrow> cpu \<Rightarrow> cpu) \<Rightarrow> u32 \<Rightarrow> u32 \<Rightarrow> cpu \<Rightarrow> cpu option" where
  "range_loop f r0 r1 c =
     (let c1 = f r0 c in if sint (r0 + 32) < sint r1 then range_loop f (r0 + 32) r1 c1 else Some c1)"

definition dcache_clean_range :: "u32 \<Rightarrow> u32 \<Rightarrow> cpu \<Rightarrow> cpu option" where
  "dcache_clean_range s e = range_loop clean_line (s AND NOT 31) e"

definition dcache_invalidate_range :: "u32 \<Rightarrow> u32 \<Rightarrow> cpu \<Rightarrow> cpu option" where
  "dcache_invalidate_range s e = range_loop invalidate_line (s AND NOT 31) e"

definition dcache_clean_invalidate_range :: "u32 \<Rightarrow> u32 \<Rightarrow> cpu \<Rightarrow> cpu option" where
  "dcache_clean_invalidate_range s e = range_loop clean_invalidate_line (s AND NOT 31) e"

text \<open>
  Turning the caches on and off. \<open>label\<close> is the address behind the branch to the subroutine, which the branch puts
  into the link register.
\<close>

definition icache_invalidate :: "cpu \<Rightarrow> cpu" where
  "icache_invalidate c = c\<lparr>cp_icache := (\<lambda>_. None)\<rparr>"

definition push_lr :: "cpu \<Rightarrow> cpu" where
  "push_lr c = (let sp = cp_sp c - 4 in (cpu_store sp (cp_lr c) c)\<lparr>cp_sp := sp\<rparr>)"

definition pop_lr :: "cpu \<Rightarrow> cpu" where
  "pop_lr c = c\<lparr>cp_lr := load_word (cpu_view c) (cp_sp c), cp_sp := cp_sp c + 4\<rparr>"

definition call_saved :: "(cpu \<Rightarrow> cpu) \<Rightarrow> u32 \<Rightarrow> cpu \<Rightarrow> cpu" where
  "call_saved f label c = pop_lr (f ((push_lr c)\<lparr>cp_lr := label\<rparr>))"

definition icache_enable :: "u32 \<Rightarrow> cpu \<Rightarrow> cpu" where
  "icache_enable label c = (let c1 = call_saved icache_invalidate label c in c1\<lparr>cp_sctlr := cp_sctlr c1 OR push_bit 12 1\<rparr>)"

definition icache_disable :: "u32 \<Rightarrow> cpu \<Rightarrow> cpu" where
  "icache_disable label c = call_saved icache_invalidate label (c\<lparr>cp_sctlr := cp_sctlr c AND NOT (push_bit 12 1)\<rparr>)"

definition dcache_enable :: "u32 \<Rightarrow> cpu \<Rightarrow> cpu" where
  "dcache_enable label c = (let c1 = call_saved dcache_invalidate label c in c1\<lparr>cp_sctlr := cp_sctlr c1 OR push_bit 2 1\<rparr>)"

text \<open>
  \<^verbatim>\<open>dcache_disable\<close> stores the link register where it should load it, and returns to wherever that points: to
  \<open>label\<close> itself as long as it holds it.
\<close>

definition disable_turn :: "cpu \<Rightarrow> cpu" where
  "disable_turn c =
     (let c1 = (cpu_store (cp_sp c) (cp_lr c) c)\<lparr>cp_sp := cp_sp c + 4\<rparr> in
      c1\<lparr>cp_sctlr := cp_sctlr c1 AND NOT (push_bit 2 1)\<rparr>)"

partial_function (option) disable_loop :: "u32 \<Rightarrow> cpu \<Rightarrow> cpu option" where
  "disable_loop label c = (let c1 = disable_turn c in if cp_lr c1 = label then disable_loop label c1 else Some c1)"

definition dcache_disable :: "u32 \<Rightarrow> cpu \<Rightarrow> cpu option" where
  "dcache_disable label c = disable_loop label (dcache_clean ((push_lr c)\<lparr>cp_lr := label\<rparr>))"

text \<open>
  \<^verbatim>\<open>fpu_init\<close> of \<^verbatim>\<open>arch/fpu.s\<close>: the access registers of the coprocessors 10 and 11, for the two security states
  and for kernel and user mode.
\<close>

definition fpu_init :: "u32 \<times> u32 \<Rightarrow> u32 \<times> u32" where
  "fpu_init r = (fst r OR push_bit 10 3, push_bit 20 0xF)"

subsection \<open>Lines\<close>

lemma line_of_mask: "line_of a = a AND NOT (mask 5)"
  by (simp add: line_of_def mask_eq_exp_minus_1)

lemma unat_line_of: "unat (line_of a) = unat a div 32 * 32"
proof -
  have "unat (line_of a) = push_bit 5 (drop_bit 5 (unat a))"
    unfolding line_of_mask by (rule bit_eqI) (auto simp: bit_simps dest: bit_imp_le_length)
  then show ?thesis by (simp add: push_bit_eq_mult drop_bit_eq_div)
qed

lemma line_eq: "line_of a = line_of b \<longleftrightarrow> unat a div 32 = unat b div 32"
  by (simp add: word_unat_eq_iff unat_line_of)

lemma line_of_line [simp]: "line_of (line_of a) = line_of a"
  by (simp add: line_eq unat_line_of)

text \<open>The steps of the loop, as long as they stay in the address space.\<close>

lemma unat_step:
  fixes r0 :: u32
  assumes "unat r0 = 32 * n"
  shows "unat (r0 + 32 * of_nat k) = 32 * ((n + k) mod 134217728)"
proof -
  have "r0 = of_nat (32 * n)" unfolding assms [symmetric] by simp
  then have "r0 + 32 * of_nat k = of_nat (32 * (n + k))" by (simp add: algebra_simps)
  then have "unat (r0 + 32 * of_nat k) = 32 * (n + k) mod (32 * 134217728)" by (simp only: unat_of_nat) simp
  then show ?thesis by (simp only: mult_mod_right)
qed

lemma sint_as_unat: "sint (w :: u32) = (if unat w < 2147483648 then int (unat w) else int (unat w) - 4294967296)"
proof -
  define n where "n = unat w"
  have u: "uint w = int n" unfolding n_def by (rule uint_nat)
  have l: "n < 4294967296" unfolding n_def by (rule u32_less_2p32)
  have "signed_take_bit 31 (int n) = (if n < 2147483648 then int n else int n - 4294967296)"
  proof (cases "n < 2147483648")
    case True
    then show ?thesis by (simp add: signed_take_bit_int_eq_self)
  next
    case False
    have "signed_take_bit 31 (int n) = signed_take_bit 31 (int n - 4294967296)"
      by (simp add: signed_take_bit_eq_iff_take_bit_eq take_bit_eq_mod)
    also have "\<dots> = int n - 4294967296" by (rule signed_take_bit_int_eq_self) (use False l in simp_all)
    finally show ?thesis using False by simp
  qed
  then show ?thesis unfolding sint_uint u n_def [symmetric] by simp
qed

lemma range_loop_run:
  assumes "\<forall>k < n. sint (r0 + 32 * of_nat (Suc k)) < sint r1" and "\<not> sint (r0 + 32 * of_nat (Suc n)) < sint r1"
  shows "range_loop f r0 r1 c = Some (fold f (map (\<lambda>k. r0 + 32 * of_nat k) [0..<Suc n]) c)"
  using assms
proof (induction n arbitrary: r0 c)
  case 0
  then show ?case by (subst range_loop.simps) simp
next
  case (Suc n)
  have s: "r0 + 32 * of_nat (Suc k) = r0 + 32 + 32 * (of_nat k :: u32)" for k by (simp add: algebra_simps)
  have "sint (r0 + 32) < sint r1" using Suc.prems(1) [rule_format, of 0] by simp
  then have "range_loop f r0 r1 c = range_loop f (r0 + 32) r1 (f r0 c)" by (subst range_loop.simps) simp
  also have "\<dots> = Some (fold f (map (\<lambda>k. r0 + 32 + 32 * of_nat k) [0..<Suc n]) (f r0 c))"
    by (rule Suc.IH) (use Suc.prems in \<open>auto simp only: s [symmetric] Suc_less_eq\<close>)
  also have "map (\<lambda>k. r0 + 32 + 32 * of_nat k) [0..<Suc n] = map (\<lambda>k. r0 + 32 * of_nat k) (map Suc [0..<Suc n])"
    unfolding list.map_comp o_def s ..
  also have "fold f \<dots> (f r0 c) = fold f (map (\<lambda>k. r0 + 32 * of_nat k) [0..<Suc (Suc n)]) c"
    unfolding map_Suc_upt by (subst (2) upt_conv_Cons) simp_all
  finally show ?case .
qed

text \<open>A loop that stops runs over an initial piece of the lines; it stops if the end leaves room for a line below the signed bound.\<close>

lemma range_loop_stops:
  assumes "unat r0 = 32 * n" and "sint r1 \<le> 2147483616"
  shows "range_loop f r0 r1 c \<noteq> None"
proof -
  define k where "k = (67108863 + 134217728 - Suc n) mod 134217728"
  have n: "n < 134217728" using assms(1) u32_less_2p32 [of r0] by simp
  have "(n + Suc k) mod 134217728 = (Suc n + k) mod 134217728" by simp
  also have "\<dots> = (Suc n + (67108863 + 134217728 - Suc n)) mod 134217728" unfolding k_def by (rule mod_add_right_eq)
  also have "\<dots> = 67108863" using n by simp
  finally have k: "(n + Suc k) mod 134217728 = 67108863" .
  have u: "unat (r0 + 32 * of_nat (Suc k)) = 32 * ((n + Suc k) mod 134217728)" by (rule unat_step [OF assms(1)])
  then have "\<not> sint (r0 + 32 * of_nat (Suc k)) < sint r1" using assms(2) unfolding sint_as_unat [of "r0 + _"] u k by simp
  then obtain j where j: "\<not> sint (r0 + 32 * of_nat (Suc j)) < sint r1" "\<forall>i < j. sint (r0 + 32 * of_nat (Suc i)) < sint r1"
    using exists_least_iff [of "\<lambda>j. \<not> sint (r0 + 32 * of_nat (Suc j)) < sint r1"] by blast
  show ?thesis using range_loop_run [OF j(2,1)] by simp
qed

lemma range_loop_bound:
  assumes "range_loop f r0 r1 c = Some c'" and "line_of r0 = r0"
  shows "sint r1 \<le> 2147483616"
proof -
  have "line_of r0 = r0 \<longrightarrow> sint r1 \<le> 2147483616"
  proof (rule range_loop.raw_induct [where P = "\<lambda>f r0 r1 c c'. line_of r0 = r0 \<longrightarrow> sint r1 \<le> 2147483616", OF _ assms(1)])
    fix g :: "(u32 \<Rightarrow> cpu \<Rightarrow> cpu) \<Rightarrow> u32 \<Rightarrow> u32 \<Rightarrow> cpu \<Rightarrow> cpu option" and f r0 r1 c c'
    assume ih: "\<And>f r0 r1 c c'. g f r0 r1 c = Some c' \<Longrightarrow> line_of r0 = r0 \<longrightarrow> sint r1 \<le> 2147483616"
      and eq: "(let c1 = f r0 c in if sint (r0 + 32) < sint r1 then g f (r0 + 32) r1 c1 else Some c1) = Some c'"
    show "line_of r0 = r0 \<longrightarrow> sint r1 \<le> 2147483616"
    proof
      assume "line_of r0 = r0"
      then have "unat r0 div 32 * 32 = unat r0" using unat_line_of [of r0] by simp
      then obtain n where "unat r0 = 32 * n" by (metis mult.commute)
      then have u: "unat (r0 + 32) = 32 * ((n + 1) mod 134217728)"
        using unat_step [of r0 n 1] by simp
      show "sint r1 \<le> 2147483616"
      proof (cases "sint (r0 + 32) < sint r1")
        case True
        have "line_of (r0 + 32) = r0 + 32" by (simp add: word_unat_eq_iff unat_line_of u)
        then show ?thesis using ih eq True unfolding Let_def if_P [OF True] by blast
      next
        case False
        have "sint (r0 + 32) \<le> 2147483616" unfolding sint_as_unat u by (cases "(n + 1) mod 134217728 < 67108864") auto
        then show ?thesis using False by simp
      qed
    qed
  qed
  then show ?thesis using assms(2) by simp
qed

text \<open>C40. The cache routines for a range return if and only if the end, as a signed number, leaves a whole line below the
  largest one: for the last 31 end addresses of the user half they run through the address space for ever.\<close>

theorem dcache_range_returns:
  "(dcache_clean_range s e c \<noteq> None \<longleftrightarrow> sint e \<le> 2147483616) \<and> (dcache_invalidate_range s e c \<noteq> None \<longleftrightarrow> sint e \<le> 2147483616) \<and>
   (dcache_clean_invalidate_range s e c \<noteq> None \<longleftrightarrow> sint e \<le> 2147483616)"
proof -
  have l: "s AND NOT 31 = line_of s" by (simp add: line_of_def)
  have "unat (line_of s) = 32 * (unat s div 32)" unfolding unat_line_of by simp
  then have "range_loop f (line_of s) e c \<noteq> None \<longleftrightarrow> sint e \<le> 2147483616" for f
    using range_loop_stops [of "line_of s" "unat s div 32" e f c] range_loop_bound [of f "line_of s" e c] by auto
  then show ?thesis unfolding dcache_clean_range_def dcache_invalidate_range_def dcache_clean_invalidate_range_def l by blast
qed

subsection \<open>What a clean leaves\<close>

lemma clean_line_keeps [simp]: "cp_lines (clean_line a c) = cp_lines c" "cp_sctlr (clean_line a c) = cp_sctlr c"
  "cp_slot (clean_line a c) = cp_slot c"
  by (auto simp: clean_line_def split: option.splits)

lemma clean_line_view: "bit (cp_sctlr c) 2 \<Longrightarrow> cpu_view (clean_line a c) = cpu_view c"
  by (auto simp: clean_line_def cpu_view_def fun_eq_iff split: option.splits)


lemma clean_line_mem: "bit (cp_sctlr c) 2 \<Longrightarrow> cp_mem (clean_line a c) x = (if line_of x = line_of a then cpu_view c x else cp_mem c x)"
  by (auto simp: clean_line_def cpu_view_def split: option.splits)

lemma clean_lines:
  assumes "bit (cp_sctlr c) 2"
  shows "cp_lines (fold clean_line as c) = cp_lines c" and "cp_sctlr (fold clean_line as c) = cp_sctlr c"
    and "cpu_view (fold clean_line as c) = cpu_view c"
    and "cp_mem (fold clean_line as c) x = (if line_of x \<in> line_of ` set as then cpu_view c x else cp_mem c x)"
  using assms by (induction as arbitrary: c) (auto simp: clean_line_view clean_line_mem)

lemma invalidate_lines:
  "cp_mem (fold invalidate_line as c) = cp_mem c" "cp_sctlr (fold invalidate_line as c) = cp_sctlr c"
  "cp_lines (fold invalidate_line as c) l = (if l \<in> line_of ` set as then None else cp_lines c l)"
  by (induction as arbitrary: c) (auto simp: invalidate_line_def)

lemma clean_invalidate_lines:
  assumes "bit (cp_sctlr c) 2"
  shows "cp_lines (fold clean_invalidate_line as c) l = (if l \<in> line_of ` set as then None else cp_lines c l)"
    and "cp_sctlr (fold clean_invalidate_line as c) = cp_sctlr c"
    and "cp_mem (fold clean_invalidate_line as c) x = (if line_of x \<in> line_of ` set as then cpu_view c x else cp_mem c x)"
    and "cpu_view (fold clean_invalidate_line as c) = cpu_view c"
proof -
  have v: "cpu_view (clean_invalidate_line a c) = cpu_view c" if "bit (cp_sctlr c) 2" for a c
    using that by (auto simp: clean_invalidate_line_def invalidate_line_def clean_line_def cpu_view_def fun_eq_iff split: option.splits)
  have m: "cp_mem (clean_invalidate_line a c) x = (if line_of x = line_of a then cpu_view c x else cp_mem c x)" if "bit (cp_sctlr c) 2" for a c x
    using clean_line_mem [OF that, of a x] by (simp add: clean_invalidate_line_def invalidate_line_def)
  have l: "cp_lines (clean_invalidate_line a c) = (cp_lines c)(line_of a := None)" "cp_sctlr (clean_invalidate_line a c) = cp_sctlr c" for a c
    by (simp_all add: clean_invalidate_line_def invalidate_line_def)
  show "cp_lines (fold clean_invalidate_line as c) l = (if l \<in> line_of ` set as then None else cp_lines c l)"
    "cp_sctlr (fold clean_invalidate_line as c) = cp_sctlr c"
    by (induction as arbitrary: c) (auto simp: l)
  show "cp_mem (fold clean_invalidate_line as c) x = (if line_of x \<in> line_of ` set as then cpu_view c x else cp_mem c x)"
    "cpu_view (fold clean_invalidate_line as c) = cpu_view c"
    using assms by (induction as arbitrary: c) (auto simp: l v m)
qed

text \<open>The lines that a range of kernel addresses meets, each once.\<close>

definition lines_between :: "u32 \<Rightarrow> u32 \<Rightarrow> u32 list" where
  "lines_between s e = map (\<lambda>k. line_of s + 32 * of_nat k) [0..<Suc ((unat e - 1) div 32 - unat s div 32)]"

lemma range_loop_lines:
  assumes "2147483648 \<le> unat s" and "s < e"
  shows "range_loop f (line_of s) e c = Some (fold f (lines_between s e) c)"
    and "line_of x \<in> line_of ` set (lines_between s e) \<longleftrightarrow> line_of s \<le> line_of x \<and> line_of x < e"
proof -
  define n where "n = unat s div 32"
  define m where "m = (unat e - 1) div 32"
  have e: "unat s < unat e" "unat e < 4294967296" using assms(2) by (simp_all add: word_less_nat_alt)
  have "unat e - 1 < 4294967296" by (rule le_less_trans [OF diff_le_self e(2)])
  then have "(unat e - 1) div 32 < 134217728" by (simp add: div_less_iff_less_mult)
  then have nm: "67108864 \<le> n" "n \<le> m" "m < 134217728" "unat e \<le> 32 * (m + 1)" "32 * m < unat e" using assms(1) e unfolding n_def m_def by auto
  have u: "unat (line_of s) = 32 * n" by (simp add: unat_line_of n_def)
  have st: "unat (line_of s + 32 * of_nat k) = 32 * ((n + k) mod 134217728)" for k by (rule unat_step [OF u])
  define w where "w = unat e"
  have se: "sint e = int w - 4294967296" using assms(1) e unfolding w_def sint_as_unat by simp
  have "sint (line_of s + 32 * of_nat (Suc k)) < sint e" if "k < m - n" for k
  proof -
    have "n + Suc k < 134217728" "n + Suc k \<le> m" using that nm by simp_all
    then have "unat (line_of s + 32 * of_nat (Suc k)) = 32 * (n + Suc k)" "32 * (n + Suc k) < w" using st [of "Suc k"] nm(5) by (simp_all add: w_def)
    then show ?thesis unfolding se sint_as_unat [of "line_of s + _"] using nm(1) by simp
  qed
  moreover have "\<not> sint (line_of s + 32 * of_nat (Suc (m - n))) < sint e"
  proof (cases "m + 1 < 134217728")
    case True
    then have "unat (line_of s + 32 * of_nat (Suc (m - n))) = 32 * (m + 1)" using st [of "Suc (m - n)"] nm(2) by simp
    then show ?thesis unfolding se sint_as_unat [of "line_of s + _"] using nm by (simp add: w_def [symmetric])
  next
    case False
    then have "n + Suc (m - n) = 134217728" using nm by simp
    then have "unat (line_of s + 32 * of_nat (Suc (m - n))) = 0" unfolding st by simp
    then show ?thesis unfolding se sint_as_unat [of "line_of s + _"] using e by (simp add: w_def [symmetric])
  qed
  ultimately show "range_loop f (line_of s) e c = Some (fold f (lines_between s e) c)"
    unfolding lines_between_def n_def [symmetric] m_def [symmetric] by (intro range_loop_run) blast+
  have "line_of x = line_of (line_of s + 32 * of_nat k) \<longleftrightarrow> unat x div 32 = n + k" if "k < Suc (m - n)" for k
    using that nm unfolding line_eq st by simp
  then have "line_of x \<in> line_of ` set (lines_between s e) \<longleftrightarrow> (\<exists>k < Suc (m - n). unat x div 32 = n + k)"
    unfolding lines_between_def n_def [symmetric] m_def [symmetric] set_map image_image set_upt image_iff Bex_def atLeastLessThan_iff by auto
  also have "\<dots> \<longleftrightarrow> n \<le> unat x div 32 \<and> unat x div 32 \<le> m"
    using nm(2) by (auto intro!: exI [of _ "unat x div 32 - n"])
  also have "\<dots> \<longleftrightarrow> line_of s \<le> line_of x \<and> line_of x < e"
    using e(1) unfolding word_le_nat_alt word_less_nat_alt u unat_line_of m_def n_def by (auto simp: less_eq_div_iff_mult_less_eq)
  finally show "line_of x \<in> line_of ` set (lines_between s e) \<longleftrightarrow> line_of s \<le> line_of x \<and> line_of x < e" .
qed


text \<open>C39. For a range of kernel addresses the three routines act on exactly the bytes of the lines that the range meets:
  a clean makes memory agree with what the processor reads and changes nothing the processor reads, an
  invalidation makes the processor read what memory holds, so that its own bytes beside the range on the first
  and the last line are lost, and the third cleans and then holds none of these lines.\<close>

theorem dcache_ranges_exact:
  assumes "bit (cp_sctlr c) 2" and "0x80000000 \<le> s" and "s < e"
  shows "(\<exists>c'. dcache_clean_range s e c = Some c' \<and> cpu_view c' = cpu_view c \<and>
      (\<forall>x. cp_mem c' x = (if line_of s \<le> line_of x \<and> line_of x < e then cpu_view c x else cp_mem c x))) \<and>
    (\<exists>c'. dcache_invalidate_range s e c = Some c' \<and> cp_mem c' = cp_mem c \<and>
      (\<forall>x. cpu_view c' x = (if line_of s \<le> line_of x \<and> line_of x < e then cp_mem c x else cpu_view c x))) \<and>
    (\<exists>c'. dcache_clean_invalidate_range s e c = Some c' \<and> cpu_view c' = cpu_view c \<and>
      (\<forall>x. line_of s \<le> line_of x \<and> line_of x < e \<longrightarrow> cp_lines c' (line_of x) = None \<and> cp_mem c' x = cpu_view c x))"
proof -
  have s: "2147483648 \<le> unat s" using assms(2) by (simp add: word_le_nat_alt)
  have l: "s AND NOT 31 = line_of s" by (simp add: line_of_def)
  note run = range_loop_lines(1) [OF s assms(3)] and mem = range_loop_lines(2) [OF s assms(3)]
  have inv: "cpu_view (fold invalidate_line (lines_between s e) c) x = (if line_of s \<le> line_of x \<and> line_of x < e then cp_mem c x else cpu_view c x)" for x
    using assms(1) by (simp add: cpu_view_def invalidate_lines flip: mem split: option.split)
  show ?thesis unfolding dcache_clean_range_def dcache_invalidate_range_def dcache_clean_invalidate_range_def l run
    using clean_lines(3,4) [OF assms(1)] clean_invalidate_lines(1,3,4) [OF assms(1)] inv by (simp add: invalidate_lines(1) mem)
qed

text \<open>A descriptor written by the processor at the start of a line, cleaned for a bus master.\<close>

lemma dcache_ranges_exact_witness:
  defines "c \<equiv> \<lparr>cp_sctlr = 4, cp_sp = 0, cp_lr = 0, cp_mem = (\<lambda>_. 0), cp_lines = (\<lambda>l. if l = 0x80000100 then Some (\<lambda>_. 7) else None),
     cp_slot = (\<lambda>_. None), cp_icache = (\<lambda>_. None)\<rparr>"
  shows "\<exists>c'. dcache_clean_range 0x80000104 0x80000108 c = Some c' \<and> cp_mem c' 0x80000105 = 7 \<and> cp_mem c' 0x80000121 = 0"
proof -
  have "bit (cp_sctlr c) 2" by (simp add: c_def bit_numeral_rec(1))
  note t = dcache_ranges_exact [OF this, of "0x80000104" "0x80000108", simplified]
  obtain c' where c': "dcache_clean_range 0x80000104 0x80000108 c = Some c'"
    and m: "\<And>x. cp_mem c' x = (if line_of 0x80000104 \<le> line_of x \<and> line_of x < 0x80000108 then cpu_view c x else cp_mem c x)"
    using t by blast
  have "cp_mem c' 0x80000105 = 7" "cp_mem c' 0x80000121 = 0" unfolding m by (simp_all add: line_of_def cpu_view_def c_def bit_numeral_rec)
  then show ?thesis using c' by blast
qed

subsection \<open>The whole data cache\<close>

text \<open>Every line that is held sits in one of the four ways of one of the 256 sets.\<close>

definition slots_ok :: "cpu \<Rightarrow> bool" where
  "slots_ok c \<longleftrightarrow> (\<forall>l. cp_lines c l \<noteq> None \<longrightarrow> line_of l = l \<and> (\<exists>r0 < 4. \<exists>r1 < 256. cp_slot c (slot_word r0 r1) = Some l))"

definition slot_lines :: "cpu \<Rightarrow> u32 list" where
  "slot_lines c = concat (map (\<lambda>r0. List.map_filter (\<lambda>r1. cp_slot c (slot_word r0 r1)) [0..<256]) [0..<4])"

lemma each_slot_fold:
  assumes "\<And>a c. cp_slot (f a c) = cp_slot c"
  shows "each_slot f c = fold f (slot_lines c) c"
proof -
  have k: "cp_slot (fold f as c) = cp_slot c" for as c by (induction as arbitrary: c) (simp_all add: assms)
  have i: "fold (\<lambda>r1. by_slot f (slot_word r0 r1)) ns c = fold f (List.map_filter (\<lambda>r1. cp_slot c (slot_word r0 r1)) ns) c" for r0 ns c
  proof (induction ns arbitrary: c)
    case (Cons n ns)
    then show ?case by (auto simp: by_slot_def map_filter_simps assms split: option.splits)
  qed (simp add: map_filter_simps)
  have "fold (\<lambda>r0. fold (\<lambda>r1. by_slot f (slot_word r0 r1)) ns) ms c = fold f (concat (map (\<lambda>r0. List.map_filter (\<lambda>r1. cp_slot c (slot_word r0 r1)) ns) ms)) c" for ns ms c
    by (induction ms arbitrary: c) (simp_all add: i k)
  then show ?thesis unfolding each_slot_def slot_lines_def .
qed

lemma slot_lines_all: "slots_ok c \<Longrightarrow> cp_lines c (line_of x) \<noteq> None \<Longrightarrow> line_of x \<in> line_of ` set (slot_lines c)"
  unfolding slots_ok_def slot_lines_def by (force simp: List.map_filter_def image_iff)

text \<open>After a clean of the whole cache memory is what the processor reads, which has not changed.\<close>

lemma dcache_clean_all:
  assumes "bit (cp_sctlr c) 2" and "slots_ok c"
  shows "cp_mem (dcache_clean c) = cpu_view c" and "cpu_view (dcache_clean c) = cpu_view c"
proof -
  have d: "dcache_clean c = fold clean_line (slot_lines c) c" unfolding dcache_clean_def by (rule each_slot_fold) simp
  have "cp_mem (dcache_clean c) x = cpu_view c x" for x
    unfolding d clean_lines(4) [OF assms(1)] using slot_lines_all [OF assms(2), of x] by (auto simp: cpu_view_def split: option.split)
  then show "cp_mem (dcache_clean c) = cpu_view c" ..
  show "cpu_view (dcache_clean c) = cpu_view c" unfolding d by (rule clean_lines(3) [OF assms(1)])
qed

lemma dcache_invalidate_all:
  assumes "slots_ok c"
  shows "cpu_view (dcache_invalidate c) = cp_mem c" and "cp_mem (dcache_invalidate c) = cp_mem c"
proof -
  have d: "dcache_invalidate c = fold invalidate_line (slot_lines c) c"
    unfolding dcache_invalidate_def by (rule each_slot_fold) (simp add: invalidate_line_def)
  show m: "cp_mem (dcache_invalidate c) = cp_mem c" unfolding d by (rule invalidate_lines(1))
  have "cp_lines (dcache_invalidate c) (line_of x) = None" for x
    using slot_lines_all [OF assms, of x] unfolding d by (cases "cp_lines c (line_of x)") (auto simp: invalidate_lines(3))
  then show "cpu_view (dcache_invalidate c) = cp_mem c" by (auto simp: cpu_view_def m)
qed


subsection \<open>Turning the caches on and off\<close>

lemma view_store:
  assumes "bit (cp_sctlr c) 2"
  shows "cpu_view (cpu_store a w c) = store_word a w (cpu_view c)"
  using assms by (auto simp: cpu_view_def cpu_store_def Let_def fun_eq_iff split: option.splits)

lemma view_store_off:
  assumes "\<not> bit (cp_sctlr c) 2"
  shows "cpu_view (cpu_store a w c) = store_word a w (cpu_view c)"
  using assms by (simp add: cpu_view_def cpu_store_def Let_def fun_eq_iff)

lemma store_keeps [simp]: "cp_sctlr (cpu_store a w c) = cp_sctlr c" "cp_lr (cpu_store a w c) = cp_lr c" "cp_sp (cpu_store a w c) = cp_sp c"
  by (simp_all add: cpu_store_def Let_def)

text \<open>The instruction cache is turned on empty, and the caller's link register and stack pointer are as before.\<close>

lemma icache_enable_correct:
  "bit (cp_sctlr (icache_enable label c)) 12" "cp_icache (icache_enable label c) x = None"
  "cp_lr (icache_enable label c) = cp_lr c" "cp_sp (icache_enable label c) = cp_sp c"
proof -
  have v: "cpu_view (c\<lparr>cp_sp := s, cp_lr := l, cp_icache := i\<rparr>) = cpu_view c" for c s l i by (simp add: cpu_view_def fun_eq_iff split: option.split)
  have w: "load_word (cpu_view (cpu_store (cp_sp c - 4) (cp_lr c) c)) (cp_sp c - 4) = cp_lr c"
    using view_store view_store_off load_store_same_word by metis
  show "bit (cp_sctlr (icache_enable label c)) 12" "cp_icache (icache_enable label c) x = None" "cp_sp (icache_enable label c) = cp_sp c"
    by (simp_all add: icache_enable_def call_saved_def pop_lr_def push_lr_def icache_invalidate_def Let_def bit_simps)
  show "cp_lr (icache_enable label c) = cp_lr c"
    by (simp add: icache_enable_def call_saved_def pop_lr_def push_lr_def icache_invalidate_def Let_def v w)
qed

text \<open>\<^verbatim>\<open>dcache_disable\<close> never returns, and each turn puts another copy of its own address on the caller's stack.\<close>

lemma disable_turn_lr: "cp_lr (disable_turn c) = cp_lr c" "cp_sp (disable_turn c) = cp_sp c + 4"
  by (simp_all add: disable_turn_def Let_def)

lemma dcache_disable_hangs: "dcache_disable label c = None"
proof -
  have l: "cp_lr c \<noteq> label" if "disable_loop label c = Some c'" for c c'
  proof (rule disable_loop.raw_induct [where P = "\<lambda>label c c'. cp_lr c \<noteq> label", OF _ that])
    fix g :: "u32 \<Rightarrow> cpu \<Rightarrow> cpu option" and label c c'
    assume ih: "\<And>label c c'. g label c = Some c' \<Longrightarrow> cp_lr c \<noteq> label"
      and eq: "(let c1 = disable_turn c in if cp_lr c1 = label then g label c1 else Some c1) = Some c'"
    show "cp_lr c \<noteq> label"
      using ih [of label "disable_turn c" c'] eq by (auto simp: Let_def disable_turn_lr)
  qed
  have k: "cp_lr (fold clean_line as c) = cp_lr c" for as c by (induction as arbitrary: c) (auto simp: clean_line_def split: option.splits)
  have "cp_lr (dcache_clean c) = cp_lr c" for c
    unfolding dcache_clean_def using each_slot_fold [of clean_line c] k by simp
  then have "cp_lr (dcache_clean ((push_lr c)\<lparr>cp_lr := label\<rparr>)) = label" by simp
  then show ?thesis unfolding dcache_disable_def using l by (metis not_Some_eq)
qed

end
