(* ===== verification/Demo.thy ===== *)
theory Demo
  imports Window FontData
begin

text \<open>
  What the two demonstrations draw through the layers of the display: the line at the end of \<^verbatim>\<open>parse_ttf\<close>
  (\<^verbatim>\<open>gfx/ttf.c\<close>) and the text that \<^verbatim>\<open>font_test\<close> (\<^verbatim>\<open>gfx/font.c\<close>) moves over the screen. The frame buffers are a
  map from their addresses to their pixels.
\<close>

subsection \<open>Definitions\<close>

fun put_pixels :: "int \<Rightarrow> int \<Rightarrow> nat \<Rightarrow> pixel \<Rightarrow> pixel list \<Rightarrow> pixel list res" where
  "put_pixels row col 0 p fb = Inr fb"
| "put_pixels row col (Suc n) p fb = res_bind (put_pixel row col p fb) (put_pixels row (col + 1) n p)"

text \<open>The components of a pixel are alpha, blue, green and red.\<close>

definition parsed_line :: "lcd_layer list \<Rightarrow> (u32 \<Rightarrow> pixel list) \<Rightarrow> (lcd_layer list \<times> (u32 \<Rightarrow> pixel list)) res" where
  "parsed_line lys frames =
     res_bind (lcd_get_new_screenbuffer 1 lys) (\<lambda>(fb, lys1).
     res_bind (put_pixels 60 60 300 (0xFF, 0xFF, 0, 0) (frames (sb_buffer fb))) (\<lambda>b.
     res_bind (lcd_switch_screenbuffer 1 lys1) (\<lambda>lys2. Inr (lys2, frames(sb_buffer fb := b)))))"

definition clear_frame :: "pixel list \<Rightarrow> pixel list res" where
  "clear_frame fb = (if length fb < 384000 then Inl OutOfBounds else Inr (replicate 384000 (0, 0, 0, 0) @ drop 384000 fb))"

fun text_rows :: "nat \<Rightarrow> u8 list \<Rightarrow> u16 \<Rightarrow> u16 \<Rightarrow> pixel list \<Rightarrow> pixel list res" where
  "text_rows 0 text x y fb = Inr fb"
| "text_rows (Suc n) text x y fb = res_bind (print_screen text x y mono9_font fb) (text_rows n text x (y + 15))"

definition hello :: "u8 list" where
  "hello = str_bytes ''Hello World This is a small test to see if this display work''"

definition hello_down :: "u8 list" where
  "hello_down = str_bytes ''Hello Worggld This is a small test to see if this display work''"

definition cleared_text :: "u8 list \<Rightarrow> nat \<Rightarrow> lcd_layer list \<Rightarrow> (u32 \<Rightarrow> pixel list) \<Rightarrow> (u32 \<times> lcd_layer list \<times> (u32 \<Rightarrow> pixel list)) res" where
  "cleared_text text i lys frames =
     res_bind (lcd_get_new_screenbuffer 2 lys) (\<lambda>(info, lys1).
     res_bind (clear_frame (frames (sb_buffer info))) (\<lambda>b.
     res_bind (text_rows 15 text (of_nat i + 50) (of_nat i + 50) b) (\<lambda>b1.
     res_bind (lcd_switch_screenbuffer 2 lys1) (\<lambda>lys2. Inr (sb_buffer info, lys2, frames(sb_buffer info := b1))))))"

text \<open>
  A turn of the first loop. The second text goes into \<^verbatim>\<open>info->buffer\<close> again and not into the buffer of the first
  layer that was just asked for.
\<close>

definition font_test_up :: "nat \<Rightarrow> lcd_layer list \<Rightarrow> (u32 \<Rightarrow> pixel list) \<Rightarrow> (lcd_layer list \<times> (u32 \<Rightarrow> pixel list)) res" where
  "font_test_up i lys frames =
     res_bind (cleared_text hello i lys frames) (\<lambda>(buffer, lys2, frames1).
     res_bind (lcd_get_new_screenbuffer 1 lys2) (\<lambda>(info1, lys3).
     res_bind (text_rows 15 hello (of_nat (i * 2)) (of_nat i + 5) (frames1 buffer)) (\<lambda>b.
     res_bind (lcd_switch_screenbuffer 1 lys3) (\<lambda>lys4. Inr (lys4, frames1(buffer := b))))))"

definition font_test_down :: "nat \<Rightarrow> lcd_layer list \<Rightarrow> (u32 \<Rightarrow> pixel list) \<Rightarrow> (lcd_layer list \<times> (u32 \<Rightarrow> pixel list)) res" where
  "font_test_down i lys frames = res_bind (cleared_text hello_down i lys frames) (\<lambda>(_, lys2, frames1). Inr (lys2, frames1))"

fun turns :: "(nat \<Rightarrow> lcd_layer list \<Rightarrow> (u32 \<Rightarrow> pixel list) \<Rightarrow> (lcd_layer list \<times> (u32 \<Rightarrow> pixel list)) res) \<Rightarrow> nat list \<Rightarrow>
    lcd_layer list \<Rightarrow> (u32 \<Rightarrow> pixel list) \<Rightarrow> (lcd_layer list \<times> (u32 \<Rightarrow> pixel list)) res" where
  "turns f [] lys frames = Inr (lys, frames)"
| "turns f (i # is) lys frames = res_bind (f i lys frames) (\<lambda>(lys', frames'). turns f is lys' frames')"

text \<open>One pass of the endless loop.\<close>

definition font_test :: "lcd_layer list \<Rightarrow> (u32 \<Rightarrow> pixel list) \<Rightarrow> (lcd_layer list \<times> (u32 \<Rightarrow> pixel list)) res" where
  "font_test lys frames =
     res_bind (turns font_test_up [0..<200] lys frames) (\<lambda>(lys', frames'). turns font_test_down (rev [1..<201]) lys' frames')"

subsection \<open>Where they draw\<close>

text \<open>The two buffers of a layer never change.\<close>

lemma layers_keep:
  "lcd_get_new_screenbuffer n lys = Inr (sb, lys') \<Longrightarrow> n < length lys \<and> length lys' = length lys \<and>
     sb_buffer sb = ly_buffer (lys ! n) ! unat (ly_active_index (lys ! n) XOR 1) \<and>
     (\<forall>k. ly_buffer (lys' ! k) = ly_buffer (lys ! k) \<and> ly_active_index (lys' ! k) = ly_active_index (lys ! k))"
  "lcd_switch_screenbuffer n lys = Inr lys' \<Longrightarrow> n < length lys \<and> length lys' = length lys \<and>
     (\<forall>k. ly_buffer (lys' ! k) = ly_buffer (lys ! k) \<and>
       ly_active_index (lys' ! k) = (if k = n then ly_active_index (lys ! k) XOR 1 else ly_active_index (lys ! k)))"
  by (auto simp: lcd_get_new_screenbuffer_def lcd_switch_screenbuffer_def res_bind_Inr_iff read_at_def Let_def nth_list_update split: if_splits)


text \<open>Both loops draw into the buffers of the second layer only, although the first loop asks for one of the first layer.\<close>

definition second_layer :: "u32 \<Rightarrow> u32 list \<Rightarrow> pixel list \<Rightarrow> lcd_layer list \<times> (u32 \<Rightarrow> pixel list) \<Rightarrow> bool" where
  "second_layer a bufs p s \<longleftrightarrow> ly_buffer (fst s ! 2) = bufs \<and> ly_active_index (fst s ! 2) \<in> {0, 1} \<and> snd s a = p"

lemma cleared_text_layer:
  assumes "cleared_text text i lys frames = Inr (b, s)" and "second_layer a bufs p (lys, frames)" and "a \<notin> {bufs ! 0, bufs ! 1}"
  shows "second_layer a bufs p s \<and> b \<in> {bufs ! 0, bufs ! 1}"
proof -
  obtain info l1 b0 b1 l2 where g: "lcd_get_new_screenbuffer 2 lys = Inr (info, l1)" and w: "lcd_switch_screenbuffer 2 l1 = Inr l2"
    and s: "b = sb_buffer info" "s = (l2, frames(sb_buffer info := b1))"
    using assms(1) by (auto simp: cleared_text_def res_bind_Inr_iff)
  have a: "ly_buffer (lys ! 2) = bufs" "ly_active_index (lys ! 2) \<in> {0, 1}" "frames a = p" using assms(2) by (simp_all add: second_layer_def)
  have "ly_active_index (lys ! 2) XOR 1 \<in> {0, 1}" using a(2) by auto
  then have b: "b \<in> {bufs ! 0, bufs ! 1}" and i: "ly_active_index (l2 ! 2) \<in> {0, 1}"
    using layers_keep(1) [OF g] layers_keep(2) [OF w] a(1) unfolding s by auto
  have "ly_buffer (l2 ! 2) = bufs" using layers_keep(1) [OF g] layers_keep(2) [OF w] a(1) by simp
  moreover have "a \<noteq> sb_buffer info" using b assms(3) unfolding s(1) by auto
  ultimately show ?thesis using b i a(3) by (simp add: second_layer_def s(2))
qed

lemma turns_layer:
  assumes "\<And>i lys frames s. f i lys frames = Inr s \<Longrightarrow> second_layer a bufs p (lys, frames) \<Longrightarrow> second_layer a bufs p s"
  shows "turns f is lys frames = Inr s \<Longrightarrow> second_layer a bufs p (lys, frames) \<Longrightarrow> second_layer a bufs p s"
  by (induction "is" arbitrary: lys frames) (use assms in \<open>auto simp: res_bind_Inr_iff\<close>)

lemma font_test_second_layer:
  assumes "font_test lys frames = Inr (lys', frames')" and "ly_active_index (lys ! 2) \<in> {0, 1}"
    and "a \<notin> {ly_buffer (lys ! 2) ! 0, ly_buffer (lys ! 2) ! 1}"
  shows "frames' a = frames a"
proof -
  let ?I = "second_layer a (ly_buffer (lys ! 2)) (frames a)"
  have up: "?I s" if t: "font_test_up i ls fr = Inr s" "?I (ls, fr)" for i ls fr s
  proof -
    obtain b l2 f1 i1 l3 q l4 where c: "cleared_text hello i ls fr = Inr (b, l2, f1)"
      and g: "lcd_get_new_screenbuffer 1 l2 = Inr (i1, l3)" and w: "lcd_switch_screenbuffer 1 l3 = Inr l4" and s: "s = (l4, f1(b := q))"
      using t(1) by (auto simp: font_test_up_def res_bind_Inr_iff simp del: One_nat_def)
    show ?thesis using cleared_text_layer [OF c t(2) assms(3)] layers_keep(1) [OF g] layers_keep(2) [OF w] assms(3)
      unfolding s second_layer_def by auto
  qed
  have down: "?I s" if "font_test_down i ls fr = Inr s" "?I (ls, fr)" for i ls fr s
    using that cleared_text_layer [OF _ that(2) assms(3)] by (auto simp: font_test_down_def res_bind_Inr_iff)
  obtain s where s: "turns font_test_up [0..<200] lys frames = Inr s" "turns font_test_down (rev [1..<201]) (fst s) (snd s) = Inr (lys', frames')"
    using assms(1) by (auto simp: font_test_def res_bind_Inr_iff)
  have "?I s" by (rule turns_layer [OF up s(1)]) (use assms(2) in \<open>simp_all add: second_layer_def\<close>)
  then have "?I (lys', frames')" by (intro turns_layer [OF down s(2)]) simp_all
  then show ?thesis by (simp add: second_layer_def)
qed

text \<open>The line is 300 pixels of the row.\<close>

lemma put_pixels_exact:
  assumes "0 \<le> col" and "0 \<le> row" and "nat (row * 800 + col) + n \<le> length fb"
  shows "\<exists>fb'. put_pixels row col n p fb = Inr fb' \<and> length fb' = length fb \<and>
    (\<forall>i < length fb. fb' ! i = (if nat (row * 800 + col) \<le> i \<and> i < nat (row * 800 + col) + n then p else fb ! i))"
  using assms
proof (induction n arbitrary: col fb)
  case (Suc n)
  let ?k = "nat (row * 800 + col)"
  have k: "nat (row * 800 + (col + 1)) = Suc ?k" using Suc.prems by simp
  have "put_pixel row col p fb = Inr (fb[?k := p])" using Suc.prems by (simp add: put_pixel_def Let_def nat_less_iff)
  moreover obtain fb' where "put_pixels row (col + 1) n p (fb[?k := p]) = Inr fb'" "length fb' = length fb"
    "\<forall>i < length fb. fb' ! i = (if Suc ?k \<le> i \<and> i < Suc ?k + n then p else fb[?k := p] ! i)"
    using Suc.IH [of "col + 1" "fb[?k := p]"] Suc.prems unfolding k by auto
  ultimately show ?case by (intro exI [of _ fb']) (auto simp: nth_list_update)
qed auto

end
