(* ===== verification/Spec2Isabelle.thy ===== *)
theory Spec2Isabelle
  imports Prelude Align MemLib Lists Pid Buddy Sched Slob Mm PageTables Thread Bytes Sprint Dma Print Loader Fat FatRead Disk Window Net NetProps Ipv4 Dhcp Regmap Device Drivers
    Mmc Sd Gmac Lcd Tftp Ttf Fpu Fault Font FontData TaskManager Kernel Startup Boot Exception Listing Compositor StartCode Processor Demo
begin

text \<open>
  A verification library for the strawberryhacker operating system (Citrus), a kernel in C and ARM assembly for one
  Cortex-A5 core. File names below are relative to \<^verbatim>\<open>src/\<close>.

  How the parts of the program work together. The start code \<^verbatim>\<open>arch/entry.s\<close> builds the first page tables and jumps to
  \<^verbatim>\<open>main\<close> (\<^verbatim>\<open>entry/main.c\<close>), which sets up memory, scheduler, drivers, network and threads. Memory is taken in three
  layers: the boot allocator hands out bytes at the end of the kernel image, the buddy allocator pages, the heap (SLOB)
  small blocks; the memory manager picks the layer and writes page tables. Threads are control blocks from the heap;
  the scheduler keeps them in intrusive lists, one for each class and one for the sleepers, and the assembly of
  \<^verbatim>\<open>arch/irq.s\<close> saves and restores their registers at every interrupt and system call. Drivers are register accesses;
  above them are the serial output and the program loader, SD cards with disks, partitions and FAT32 files, the display
  with layers, windows and fonts, and the network with link layer, ARP, IP, UDP, DHCP and TFTP.

  Conventions (theory Prelude). Integers of w bits are words, whose arithmetic wraps as that of the processor. A
  routine that can stop the kernel has a result of type \<^verbatim>\<open>fault + 'a\<close>: a panic or a failed assertion, the use of the null
  pointer, an access outside an array, or an endless loop are values on the left, composed by \<open>res_bind\<close>. State is
  passed explicitly as records with the fields of the C structures. A loop without an evident end is a partial function
  whose value None says that it does not return; loops with a counter recurse on what is left of it. Memory is a function
  from addresses to bytes wherever the code depends on layout or aliasing (page tables, stacks, frames, loader), and a
  list or map of objects elsewhere. Hardware is an argument: a \<open>device\<close> answers every read of a register as it likes.

  Theories and what they model; in each, definitions come first, then lemmas, then the properties, numbered in the
  text before them.
    \<^item> Prelude: words, faults, error codes of \<^verbatim>\<open>include/citrus/error.h\<close>, and the collections of rewrite rules the
      theories share (\<open>error_defs\<close>, \<open>word_laws\<close>, \<open>list_laws\<close>). Bytes: buffers as lists of bytes.
    \<^item> Align (\<^verbatim>\<open>include/citrus/align.h\<close>), MemLib (\<^verbatim>\<open>lib/mem.c\<close>, \<^verbatim>\<open>lib/string.c\<close>, \<^verbatim>\<open>lib/crc.c\<close>), Lists
      (\<^verbatim>\<open>include/citrus/list.h\<close>), Pid (\<^verbatim>\<open>kernel/pid.c\<close>). Lists gives the pointer operations an abstract list each and
      the queue interface \<open>node_queue\<close>, which is interpreted on them.
    \<^item> Buddy (\<^verbatim>\<open>mm/buddy_alloc.c\<close>), Slob (\<^verbatim>\<open>mm/slob.c\<close>), Mm and PageTables (\<^verbatim>\<open>mm/mm.c\<close>, \<^verbatim>\<open>mm/boot_alloc.c\<close>,
      \<^verbatim>\<open>mm/cache_alloc.c\<close>, \<^verbatim>\<open>include/citrus/mm.h\<close>, \<^verbatim>\<open>include/citrus/pt_entry.h\<close>). Both allocators have an invariant, its
      preservation, exact results of each operation and the safety of all histories; the buddy allocator also provides
      the interface \<open>page_allocator\<close>. PageTables relates the tables in memory to a map of pages by the hardware walk.
    \<^item> Sched (\<^verbatim>\<open>kernel/sched.c\<close>, \<^verbatim>\<open>kernel/rt.c\<close>, \<^verbatim>\<open>kernel/fair.c\<close>, \<^verbatim>\<open>kernel/back.c\<close>, \<^verbatim>\<open>kernel/idle.c\<close>, and the change of threads
      in \<^verbatim>\<open>arch/sched.s\<close>): the run queue, the classes as instances of the interface \<open>round_robin\<close>, sleeping and waking, a
      step relation of everything that can happen to the queues and its invariant.
    \<^item> Thread (\<^verbatim>\<open>kernel/thread.c\<close>, \<^verbatim>\<open>kernel/process.c\<close>, \<^verbatim>\<open>kernel/syscall.c\<close>): creation of threads, the first frame, the
      dispatch of system calls. Exception (\<^verbatim>\<open>arch/irq.s\<close>): the frames of interrupts and system calls on a byte memory.
      Fpu (\<^verbatim>\<open>arch/fpu.s\<close>, \<^verbatim>\<open>arch/fault.c\<close>): the lazily switched floating point registers. The last two are refinements: each
      thread has the registers it would have on a processor of its own. Kernel: heap, pages, scheduler and threads under
      one invariant through any history.
    \<^item> StartCode (\<^verbatim>\<open>arch/entry.s\<close>), Startup (\<^verbatim>\<open>entry/main.c\<close> and the set-up parts of \<^verbatim>\<open>entry/print.c\<close> and
      \<^verbatim>\<open>entry/dma_receive.c\<close>), Boot (what follows from the way \<^verbatim>\<open>main\<close> starts its threads), Processor (\<^verbatim>\<open>arch/cache.s\<close>,
      \<^verbatim>\<open>kernel/atomic.c\<close>, \<^verbatim>\<open>include/citrus/interrupt.h\<close>): the caches as lines, sets and ways in front of the memory.
    \<^item> Sprint (\<^verbatim>\<open>lib/sprint.c\<close>), Dma (\<^verbatim>\<open>drivers/dma.c\<close>), Print (\<^verbatim>\<open>entry/print.c\<close>), Fault (\<^verbatim>\<open>arch/fault.c\<close>, \<^verbatim>\<open>lib/panic.c\<close>),
      TaskManager (\<^verbatim>\<open>kernel/task_manager.c\<close>), Listing (what the other parts print, and the font thread of \<^verbatim>\<open>gfx/ttf.c\<close>),
      Loader (\<^verbatim>\<open>entry/dma_receive.c\<close>, \<^verbatim>\<open>kernel/elf.c\<close>).
    \<^item> Fat and FatRead (\<^verbatim>\<open>fs/fat.c\<close>), Disk (\<^verbatim>\<open>fs/disk.c\<close>, \<^verbatim>\<open>fs/fs.c\<close>). Disks are partial functions from sector numbers to
      sectors; reading refines the bytes of the chain of clusters.
    \<^item> Window (\<^verbatim>\<open>gfx/window.c\<close> and the layers of \<^verbatim>\<open>drivers/lcd.c\<close>), Compositor (\<^verbatim>\<open>window_init\<close> and the compositor as a
      whole), Font and FontData (\<^verbatim>\<open>gfx/font.c\<close>), Demo (\<^verbatim>\<open>font_test\<close> and the line that \<^verbatim>\<open>parse_ttf\<close> draws), Ttf (\<^verbatim>\<open>gfx/ttf.c\<close>).
    \<^item> Net (\<^verbatim>\<open>net/netbuf.c\<close>, \<^verbatim>\<open>net/mac.c\<close>, \<^verbatim>\<open>net/arp.c\<close>, \<^verbatim>\<open>net/ip.c\<close>, \<^verbatim>\<open>net/udp.c\<close>, the rings of \<^verbatim>\<open>drivers/gmac.c\<close>),
      NetProps, Ipv4 (addresses as text), Dhcp (\<^verbatim>\<open>net/dhcp.c\<close>), Tftp (\<^verbatim>\<open>net/tftp.c\<close>).
    \<^item> Regmap (\<^verbatim>\<open>include/citrus/regmap.h\<close>), Device, Drivers (\<^verbatim>\<open>drivers/gpio.c\<close>, \<^verbatim>\<open>drivers/clock.c\<close>, \<^verbatim>\<open>drivers/matrix.c\<close>,
      \<^verbatim>\<open>drivers/apic.c\<close>, \<^verbatim>\<open>drivers/timer.c\<close>, \<^verbatim>\<open>drivers/pit.c\<close>, \<^verbatim>\<open>drivers/cpu_timer.c\<close>, \<^verbatim>\<open>drivers/spi.c\<close>), Mmc
      (\<^verbatim>\<open>drivers/mmc.c\<close>), Sd (\<^verbatim>\<open>drivers/sd.c\<close>, over the interface \<open>sd_host\<close> that Mmc provides), Gmac (set-up in
      \<^verbatim>\<open>drivers/gmac.c\<close>), Lcd (\<^verbatim>\<open>drivers/lcd.c\<close>).

  What the lemmas show, by group.
    \<^item> Safety of histories: allocated blocks are aligned, disjoint and inside their zones; queues hold every thread
      once; control blocks are heap blocks of their own (Buddy, Slob, Sched, Kernel).
    \<^item> Refinements of an abstract view: lists, the map of pages, registers of threads, the floating point registers, the
      stream of printed bytes, files as bytes, cards as sectors, regions that tile the screen and the pixels the
      transfer moves, lines of the cache.
    \<^item> Equivalence with a reference and round trips: positional notation, bitmaps of glyphs, options of DHCP, the map of
      the start code, datagrams from sender to receiver, addresses as text, names of partitions.
    \<^item> Errors and limits as the code has them: identifiers that come back after the first word of the table was full,
      the heap break that moves four times too far, clusters of four sectors and more, the lost reason of a panic, the
      starvation by the ARP thread, the end of the buffer pool, ranges at the border of the signed numbers. These are
      theorems about the code as it is.

  Bounds and fuel. Word counters are recursions on a natural number with the bound of the loop. Where
  the recursion is not structural there is a measure: for the digits of a number the number itself, for the formatter
  the rest of the format, for the options of DHCP the bytes left, for short file names the places left. Directory searches, list walks, waits for a device or a packet and the
  range loops of the caches are partial functions, and where a property says what such a loop yields it also says that
  it returns. The listing of a directory in Listing has fuel, None being too little; no property speaks of it. The walks
  of linked lists end because lists in the invariants are finite.

  Not modelled. Barriers, and the order of memory accesses of the processor: one core executes the steps in order.
  Interrupts come between the steps of the step relations and not inside a critical section; the masks themselves
  are in Processor. Translation lookaside buffers: a walk sees the tables at once. The vectors, the clearing of registers
  and of the uninitialised section, and the assembly around the abort handlers, which only lead to modelled code. The
  one-instruction stubs of the system calls. Stubs without behaviour (\<^verbatim>\<open>kernel/worker.c\<close>, \<^verbatim>\<open>kernel/asid.c\<close>,
  \<^verbatim>\<open>drivers/random.c\<close>, \<^verbatim>\<open>fs/fs_cache.c\<close>) and headers that only declare. The linker script, the build files and the scripts
  for the host. The rounding mode of the floating point unit, which the code does not save.
\<close>

end
